(* ===== verification/Prelude.thy ===== *)
theory Prelude
  imports Complex_Main "HOL-Library.AList" "HOL-Library.Char_ord" "HOL-Library.List_Lexorder"
begin

text \<open>
  Shared vocabulary of the development: Python's exceptions as values, the error monad in
  which every fallible routine of the sources is written, the dynamically typed values that
  cross a module boundary, the string methods the sources call, and insertion-ordered
  dictionaries as association lists.

  Text is modelled over the ASCII range: \<open>str.strip\<close>, \<open>str.upper\<close>, \<open>str.lower\<close> and
  \<open>str.casefold\<close> below are Python's on strings of ASCII characters.
\<close>

section \<open>Exceptions and the error monad\<close>

text \<open>
  One constructor per exception class the modelled sources raise. A constructor carries what
  some handler reads of the exception: its message, or the attributes it stores.
\<close>

datatype exn =
    InvalidInputError string
  | InvalidParameterError string
  | InsufficientDataError int int string
  | UnknownIndicatorError string
  | ResultValidationError string
  | InvalidStateDefinitionError string
  | UnknownStateError string
  | InvalidSnapshotError string
  | MissingStateValues string
  | InvalidAlertRuleError string
  | InvalidAlertObservationError string
  | ApiError string string nat
  | TypeError string
  | ValueError string
  | RuntimeError string
  | OverflowError string
  | KeyError string
  | AttributeError string
  | TaskLockError string
  | InvalidMarketDataError string
  | UnknownMarketError string
  | UnknownAdjustmentError string
  | PersistenceRecordError string
  | UnknownProviderError string
  | IntegrityError string
  | MultipleResultsFound string
  | UnicodeDecodeError string
  | InvalidAccessToken string

type_synonym 'a result = "exn + 'a"

abbreviation Ok :: "'a \<Rightarrow> 'a result" where "Ok \<equiv> Inr"
abbreviation Raise :: "exn \<Rightarrow> 'a result" where "Raise \<equiv> Inl"

definition ebind :: "'a result \<Rightarrow> ('a \<Rightarrow> 'b result) \<Rightarrow> 'b result" where
  "ebind m f = (case m of Inl e \<Rightarrow> Inl e | Inr x \<Rightarrow> f x)"

definition emap :: "('a \<Rightarrow> 'b) \<Rightarrow> 'a result \<Rightarrow> 'b result" where
  "emap f m = (case m of Inl e \<Rightarrow> Inl e | Inr x \<Rightarrow> Inr (f x))"

text \<open>A \<open>for\<close> loop whose body may raise: the first exception ends it.\<close>

fun traverse :: "('a \<Rightarrow> 'b result) \<Rightarrow> 'a list \<Rightarrow> 'b list result" where
  "traverse f [] = Inr []"
| "traverse f (x # xs) = ebind (f x) (\<lambda>y. emap ((#) y) (traverse f xs))"

named_theorems monad_simps \<open>evaluation of the error monad\<close>

lemma ebind_simps [simp, monad_simps]:
  "ebind (Inl e) f = Inl e" "ebind (Inr x) f = f x"
  by (simp_all add: ebind_def)

lemma emap_simps [simp, monad_simps]:
  "emap g (Inl e) = Inl e" "emap g (Inr x) = Inr (g x)"
  by (simp_all add: emap_def)

lemma ebind_eq_Inr_iff [simp]:
  "ebind m f = Inr y \<longleftrightarrow> (\<exists>x. m = Inr x \<and> f x = Inr y)"
  by (cases m) auto

lemma ebind_eq_Inl_iff:
  "ebind m f = Inl e \<longleftrightarrow> m = Inl e \<or> (\<exists>x. m = Inr x \<and> f x = Inl e)"
  by (cases m) auto

lemma emap_eq_Inr_iff [simp]:
  "emap g m = Inr y \<longleftrightarrow> (\<exists>x. m = Inr x \<and> y = g x)"
  by (cases m) auto

lemma emap_eq_Inl_iff [simp]: "emap g m = Inl e \<longleftrightarrow> m = Inl e"
  by (cases m) auto

lemma ebind_assoc: "ebind (ebind m f) g = ebind m (\<lambda>x. ebind (f x) g)"
  by (cases m) auto

lemma emap_as_ebind: "emap g m = ebind m (\<lambda>x. Inr (g x))"
  by (cases m) auto

lemma ebind_cong [fundef_cong]:
  "m = m' \<Longrightarrow> (\<And>x. m' = Inr x \<Longrightarrow> f x = f' x) \<Longrightarrow> ebind m f = ebind m' f'"
  by (cases m') auto

lemma traverse_length: "traverse f xs = Inr ys \<Longrightarrow> length ys = length xs"
  by (induction xs arbitrary: ys) auto

lemma traverse_nth:
  "traverse f xs = Inr ys \<Longrightarrow> i < length xs \<Longrightarrow> f (xs ! i) = Inr (ys ! i)"
  by (induction xs arbitrary: ys i) (auto simp: nth_Cons split: nat.splits)

lemma traverse_source: "traverse f xs = Inr ys \<Longrightarrow> y \<in> set ys \<Longrightarrow> \<exists>x \<in> set xs. f x = Inr y"
  by (induction xs arbitrary: ys) auto

lemma traverse_ok: "(\<And>x. x \<in> set xs \<Longrightarrow> f x = Inr (g x)) \<Longrightarrow> traverse f xs = Inr (map g xs)"
  by (induction xs) auto

lemma traverse_cong [fundef_cong]:
  "xs = xs' \<Longrightarrow> (\<And>x. x \<in> set xs' \<Longrightarrow> f x = f' x) \<Longrightarrow> traverse f xs = traverse f' xs'"
  by (induction xs arbitrary: xs') auto

lemma traverse_append:
  "traverse f (xs @ ys) = ebind (traverse f xs) (\<lambda>us. emap ((@) us) (traverse f ys))"
proof (induction xs)
  case Nil
  show ?case by (cases "traverse f ys") auto
next
  case (Cons x xs)
  show ?case
    by (cases "f x"; cases "traverse f xs"; cases "traverse f ys") (simp_all add: Cons.IH)
qed

lemma traverse_map: "traverse f (map g xs) = traverse (\<lambda>x. f (g x)) xs"
  by (induction xs) auto

lemma upt_split: "m \<le> n \<Longrightarrow> [0..<n] = [0..<m] @ [m..<n]"
  by (metis le_add_diff_inverse upt_add_eq_append zero_le)

lemma sorted_wrt_last: "sorted_wrt P xs \<Longrightarrow> x \<in> set xs \<Longrightarrow> x = last xs \<or> P x (last xs)"
  by (cases xs rule: rev_cases) (auto simp: sorted_wrt_append)

lemma sorted_wrt_hd: "sorted_wrt P xs \<Longrightarrow> x \<in> set xs \<Longrightarrow> x = hd xs \<or> P (hd xs) x"
  by (cases xs) auto

lemma pos_int_cases: "0 < (p :: int) \<Longrightarrow> (\<And>n. p = 1 + int n \<Longrightarrow> P) \<Longrightarrow> P"
  by (metis add.commute of_nat_Suc Suc_pred' zero_less_imp_eq_int of_nat_0_less_iff)

section \<open>Text\<close>

text \<open>Python's \<open>str(n)\<close> on integers.\<close>

fun nat_str :: "nat \<Rightarrow> string" where
  "nat_str n = (if n < 10 then [char_of (n + 48)] else nat_str (n div 10) @ [char_of (n mod 10 + 48)])"

declare nat_str.simps [simp del]

definition int_str :: "int \<Rightarrow> string" where
  "int_str n = (if n < 0 then ''-'' @ nat_str (nat (- n)) else nat_str (nat n))"

definition is_space :: "char \<Rightarrow> bool" where
  "is_space c = (let n = (of_char c :: nat) in n = 32 \<or> 9 \<le> n \<and> n \<le> 13 \<or> 28 \<le> n \<and> n \<le> 31)"

definition is_digit :: "char \<Rightarrow> bool" where
  "is_digit c = (let n = (of_char c :: nat) in 48 \<le> n \<and> n \<le> 57)"

definition upper_char :: "char \<Rightarrow> char" where
  "upper_char c = (let n = (of_char c :: nat) in if 97 \<le> n \<and> n \<le> 122 then char_of (n - 32) else c)"

definition lower_char :: "char \<Rightarrow> char" where
  "lower_char c = (let n = (of_char c :: nat) in if 65 \<le> n \<and> n \<le> 90 then char_of (n + 32) else c)"

definition strip :: "string \<Rightarrow> string" where
  "strip s = rev (dropWhile is_space (rev (dropWhile is_space s)))"

definition upper :: "string \<Rightarrow> string" where "upper = map upper_char"
definition lower :: "string \<Rightarrow> string" where "lower = map lower_char"

abbreviation casefold :: "string \<Rightarrow> string" where "casefold \<equiv> lower"

text \<open>The decimal value of a string of digits, Python's \<open>int(s)\<close> there.\<close>

definition digits_value :: "string \<Rightarrow> int" where
  "digits_value s = foldl (\<lambda>n c. 10 * n + (of_char c - 48)) 0 s"

definition starts_with :: "string \<Rightarrow> string \<Rightarrow> bool" where
  "starts_with p s = (take (length p) s = p)"

text \<open>\<open>sep.join(parts)\<close> and the substring test \<open>needle in s\<close>.\<close>

fun join_text :: "string \<Rightarrow> string list \<Rightarrow> string" where
  "join_text sep [] = ''''"
| "join_text sep [x] = x"
| "join_text sep (x # y # xs) = x @ sep @ join_text sep (y # xs)"

text \<open>\<open>repr(s)\<close> of a string without quotes or escapes in it.\<close>

definition repr_text :: "string \<Rightarrow> string" where
  "repr_text s = [CHR 0x27] @ s @ [CHR 0x27]"

fun contains_text :: "string \<Rightarrow> string \<Rightarrow> bool" where
  "contains_text needle [] = (needle = [])"
| "contains_text needle (c # cs) = (starts_with needle (c # cs) \<or> contains_text needle cs)"

named_theorems text_eval \<open>evaluation of the string methods on literals\<close>

declare strip_def [text_eval] is_space_def [text_eval] upper_def [text_eval] lower_def [text_eval]
  upper_char_def [text_eval] lower_char_def [text_eval] is_digit_def [text_eval] char_of_def [text_eval]
  bit_0 [text_eval]

lemma upper_char_idem [simp]: "upper_char (upper_char c) = upper_char c"
  by (auto simp: upper_char_def Let_def)

lemma lower_char_idem [simp]: "lower_char (lower_char c) = lower_char c"
  by (auto simp: lower_char_def Let_def)

lemma is_space_upper_char [simp]: "is_space (upper_char c) = is_space c"
  by (auto simp: upper_char_def is_space_def Let_def)

lemma is_space_lower_char [simp]: "is_space (lower_char c) = is_space c"
  by (auto simp: lower_char_def is_space_def Let_def)

lemma upper_idem [simp]: "upper (upper s) = upper s"
  by (simp add: upper_def)

lemma lower_idem [simp]: "lower (lower s) = lower s"
  by (simp add: lower_def)

lemma upper_eq_Nil [simp]: "upper s = [] \<longleftrightarrow> s = []"
  by (simp add: upper_def)

lemma lower_eq_Nil [simp]: "lower s = [] \<longleftrightarrow> s = []"
  by (simp add: lower_def)

lemma dropWhile_map_space:
  "(\<And>c. is_space (g c) = is_space c) \<Longrightarrow>
     dropWhile is_space (map g s) = map g (dropWhile is_space s)"
  by (simp add: dropWhile_map comp_def)

lemma strip_map_space:
  assumes "\<And>c. is_space (g c) = is_space c"
  shows "strip (map g s) = map g (strip s)"
proof -
  have d: "dropWhile is_space (map g t) = map g (dropWhile is_space t)" for t
    using assms by (rule dropWhile_map_space)
  show ?thesis unfolding strip_def by (simp only: d rev_map)
qed

lemma strip_upper: "strip (upper s) = upper (strip s)"
  by (simp add: upper_def strip_map_space)

lemma strip_lower: "strip (lower s) = lower (strip s)"
  by (simp add: lower_def strip_map_space)

lemma strip_fixpoint:
  "s = [] \<or> \<not> is_space (hd s) \<and> \<not> is_space (last s) \<Longrightarrow> strip s = s"
proof (cases s rule: rev_cases)
  case (snoc ys y)
  assume "s = [] \<or> \<not> is_space (hd s) \<and> \<not> is_space (last s)"
  with snoc have "\<not> is_space (hd s)" "\<not> is_space y" by auto
  then have "dropWhile is_space s = s" by (cases s) auto
  with snoc \<open>\<not> is_space y\<close> show ?thesis by (simp add: strip_def)
qed (simp add: strip_def)

lemma dropWhile_rev_hd:
  "s \<noteq> [] \<Longrightarrow> \<not> P (hd s) \<Longrightarrow> dropWhile P (rev s) \<noteq> [] \<and> last (dropWhile P (rev s)) = hd s"
  by (cases s) (auto simp: dropWhile_append)

lemma strip_ends:
  "strip s = [] \<or> \<not> is_space (hd (strip s)) \<and> \<not> is_space (last (strip s))"
proof (cases "dropWhile is_space s = []")
  case True
  then show ?thesis unfolding strip_def by (simp only: dropWhile.simps rev.simps simp_thms)
next
  case False
  let ?d = "dropWhile is_space s"
  from False have h: "\<not> is_space (hd ?d)" by (rule hd_dropWhile)
  let ?e = "dropWhile is_space (rev ?d)"
  from dropWhile_rev_hd [of ?d is_space] False h
  have e: "?e \<noteq> []" "last ?e = hd ?d" by auto
  from e(1) have "\<not> is_space (hd ?e)" by (rule hd_dropWhile)
  with e h show ?thesis by (simp add: strip_def hd_rev last_rev)
qed

lemma strip_strip [simp]: "strip (strip s) = strip s"
  by (rule strip_fixpoint) (rule strip_ends)

lemma strip_map_strip:
  assumes "\<And>c. is_space (g c) \<Longrightarrow> is_space c"
  shows "strip (map g (strip s)) = map g (strip s)"
proof (rule strip_fixpoint)
  show "map g (strip s) = [] \<or>
      \<not> is_space (hd (map g (strip s))) \<and> \<not> is_space (last (map g (strip s)))"
    using strip_ends [of s] assms by (cases "strip s = []") (auto simp: hd_map last_map)
qed

section \<open>Dictionaries\<close>

text \<open>
  A Python \<open>dict\<close> keeps insertion order; assignment to an existing key keeps its position.
  This is \<^const>\<open>AList.update\<close> on association lists, read by \<^const>\<open>map_of\<close>.
\<close>

type_synonym ('k, 'v) dict = "('k \<times> 'v) list"

abbreviation dict_get :: "('k, 'v) dict \<Rightarrow> 'k \<Rightarrow> 'v option" where "dict_get \<equiv> map_of"
abbreviation dict_set :: "'k \<Rightarrow> 'v \<Rightarrow> ('k, 'v) dict \<Rightarrow> ('k, 'v) dict" where
  "dict_set \<equiv> AList.update"
abbreviation dict_keys :: "('k, 'v) dict \<Rightarrow> 'k list" where "dict_keys \<equiv> map fst"

text \<open>\<open>d.get(k, default)\<close>.\<close>

definition dict_get_or :: "('k, 'v) dict \<Rightarrow> 'k \<Rightarrow> 'v \<Rightarrow> 'v" where
  "dict_get_or d k v = (case dict_get d k of None \<Rightarrow> v | Some w \<Rightarrow> w)"

lemma dict_get_set [simp]: "dict_get (dict_set k v d) = (dict_get d)(k \<mapsto> v)"
  by (rule AList.update_conv')

lemma dict_set_keys:
  "dict_keys (dict_set k v d) = (if k \<in> set (dict_keys d) then dict_keys d else dict_keys d @ [k])"
  by (induction d) auto

lemma dict_set_new: "k \<notin> set (dict_keys d) \<Longrightarrow> dict_set k v d = d @ [(k, v)]"
  by (induction d) auto

lemma dict_set_distinct:
  "distinct (dict_keys d) \<Longrightarrow> distinct (dict_keys (dict_set k v d))"
  by (simp add: dict_set_keys)

section \<open>Dynamically typed values\<close>

text \<open>
  A binary floating-point value: a finite number, an infinity or a NaN. Values that come
  from outside a component have this type; after a finiteness check the components work with
  the finite number itself.
\<close>

datatype fl = Fin real | PosInf | NegInf | NaN

text \<open>
  The values that cross a boundary typed \<open>Any\<close>. Sets carry their elements in iteration order;
  \<open>VObj\<close> stands for any object that is none of the listed types, with its type's name.
\<close>

datatype pyval =
    VNone
  | VBool bool
  | VInt int
  | VFloat fl
  | VDecimal fl
  | VStr string
  | VList "pyval list"
  | VTuple "pyval list"
  | VSet "pyval list"
  | VDict "(pyval \<times> pyval) list"
  | VObj string

text \<open>\<open>isinstance(value, (Real, Decimal))\<close> without \<open>bool\<close>.\<close>

fun is_real_number :: "pyval \<Rightarrow> bool" where
  "is_real_number (VInt _) = True"
| "is_real_number (VFloat _) = True"
| "is_real_number (VDecimal _) = True"
| "is_real_number _ = False"

text \<open>The finite number a float holds, or the given exception: a \<open>math.isfinite\<close> guard.\<close>

definition finite_or :: "fl \<Rightarrow> exn \<Rightarrow> real result" where
  "finite_or f e = (case f of Fin r \<Rightarrow> Ok r | _ \<Rightarrow> Raise e)"

lemma finite_or_Fin [simp]: "finite_or (Fin r) e = Ok r"
  by (simp add: finite_or_def)

lemma finite_or_ok [simp]: "finite_or f e = Ok r \<longleftrightarrow> f = Fin r"
  by (simp add: finite_or_def split: fl.splits)

lemma finite_or_raise: "finite_or f e = Raise e' \<Longrightarrow> e' = e"
  by (cases f) (auto simp: finite_or_def)

end
