(* ===== verification/Registry_Contract.thy ===== *)
theory Registry_Contract
  imports Prelude
begin

text \<open>
  What the indicator registry and the state registry share: a dictionary from normalized names
  to entries plus the list of canonical names in registration order. \<open>register_under\<close> is the
  body both \<open>register\<close> methods have once they know the names; the locale \<open>named_registry\<close>
  states what a client may rely on and derives that a whole list of registrations, the way both
  default registries are built, can be looked up afterwards.
\<close>

section \<open>Definitions\<close>

record 'a registry =
  reg_entries :: "(string, 'a) dict"
  reg_names :: "string list"

definition empty_registry :: "'a registry" where
  "empty_registry = \<lparr>reg_entries = [], reg_names = []\<rparr>"

text \<open>
  The names are checked for emptiness, then for collisions, and only then is anything stored.
  The first argument holds the two error messages.
\<close>

definition register_under ::
  "string \<times> string \<Rightarrow> string \<Rightarrow> string list \<Rightarrow> bool \<Rightarrow> 'a \<Rightarrow> 'a registry \<Rightarrow> 'a registry result"
where
  "register_under messages resolved aliases replace entry reg =
     (let names = resolved # aliases;
          collisions = filter (\<lambda>n. n \<in> set (dict_keys (reg_entries reg)) \<and> \<not> replace) names
      in if \<exists>n \<in> set names. n = [] then Raise (ValueError (fst messages))
         else if collisions \<noteq> [] then Raise (ValueError (snd messages @ hd collisions))
         else Ok \<lparr>reg_entries = fold (\<lambda>n. dict_set n entry) names (reg_entries reg),
                   reg_names = (if resolved \<in> set (reg_names reg) then reg_names reg
                                else reg_names reg @ [resolved])\<rparr>)"

text \<open>One registration after the other, none of which may replace an earlier one.\<close>

fun register_list ::
  "('a \<Rightarrow> string list \<Rightarrow> bool \<Rightarrow> 'a registry \<Rightarrow> 'a registry result) \<Rightarrow>
     ('a \<times> string list) list \<Rightarrow> 'a registry \<Rightarrow> 'a registry result"
where
  "register_list register [] r = Ok r"
| "register_list register ((v, as) # rest) r =
     ebind (register v as False r) (register_list register rest)"

section \<open>Properties of the shared body\<close>

lemma fold_dict_set_get:
  "dict_get (fold (\<lambda>n. dict_set n v) names d) k = (if k \<in> set names then Some v else dict_get d k)"
  by (induction names arbitrary: d) auto

lemma fold_dict_set_keys:
  "set (dict_keys (fold (\<lambda>n. dict_set n v) names d)) = set names \<union> set (dict_keys d)"
proof (induction names arbitrary: d)
  case (Cons n names)
  have "set (dict_keys (dict_set n v d)) = insert n (set (dict_keys d))"
    unfolding dict_set_keys by (auto simp del: set_map)
  then show ?case unfolding fold_simps comp_def Cons.IH by auto
qed simp

lemma register_under_ok:
  assumes "register_under msg resolved aliases replace v reg = Ok reg'"
  shows "dict_get (reg_entries reg') k =
      (if k \<in> set (resolved # aliases) then Some v else dict_get (reg_entries reg) k)"
    and "[] \<notin> set (resolved # aliases)"
    and "\<not> replace \<Longrightarrow> k \<in> set (resolved # aliases) \<Longrightarrow> dict_get (reg_entries reg) k = None"
    and "reg_names reg' = (if resolved \<in> set (reg_names reg) then reg_names reg
           else reg_names reg @ [resolved])"
  using assms
  by (auto simp: register_under_def Let_def fold_dict_set_get filter_empty_conv map_of_eq_None_iff
      split: if_splits)

text \<open>
  The registry invariant: canonical names are distinct and every one of them is registered.
\<close>

definition registry_inv :: "'a registry \<Rightarrow> bool" where
  "registry_inv reg \<longleftrightarrow> distinct (reg_names reg) \<and> set (reg_names reg) \<subseteq> set (dict_keys (reg_entries reg))"

lemma registry_inv_empty: "registry_inv empty_registry"
  by (simp add: registry_inv_def empty_registry_def)

lemma registry_inv_register:
  assumes "register_under msg resolved aliases replace v reg = Ok reg'" "registry_inv reg"
  shows "registry_inv reg'"
proof -
  have e: "reg_entries reg' = fold (\<lambda>n. dict_set n v) (resolved # aliases) (reg_entries reg)"
    using assms(1) by (auto simp: register_under_def Let_def split: if_splits)
  have "set (dict_keys (reg_entries reg')) = set (resolved # aliases) \<union> set (dict_keys (reg_entries reg))"
    unfolding e by (rule fold_dict_set_keys)
  with assms(2) register_under_ok(4) [OF assms(1)] show ?thesis
    unfolding registry_inv_def by auto
qed

section \<open>The contract of a registry\<close>

locale named_registry =
  fixes norm :: "string \<Rightarrow> string"
    and own :: "'a \<Rightarrow> string"
    and register :: "'a \<Rightarrow> string list \<Rightarrow> bool \<Rightarrow> 'a registry \<Rightarrow> 'a registry result"
    and get :: "'a registry \<Rightarrow> string \<Rightarrow> 'a result"
  assumes register_get: "register v as rep r = Ok r' \<Longrightarrow> norm m \<in> insert (own v) (norm ` set as) \<Longrightarrow> get r' m = Ok v"
    and register_other: "register v as rep r = Ok r' \<Longrightarrow> norm m \<notin> insert (own v) (norm ` set as) \<Longrightarrow> get r' m = get r m"
    and register_fresh: "register v as False r = Ok r' \<Longrightarrow> norm m \<in> insert (own v) (norm ` set as) \<Longrightarrow> get r m \<noteq> Ok w"
    and register_keeps: "register v as rep r = Ok r' \<Longrightarrow> registry_inv r \<Longrightarrow> registry_inv r'"
begin

lemma register_all_keeps_entry:
  "register_list register vs r = Ok r' \<Longrightarrow> get r m = Ok v \<Longrightarrow> get r' m = Ok v"
proof (induction vs arbitrary: r)
  case (Cons x rest)
  from Cons.prems(1) obtain u as q where q: "register u as False r = Ok q" "register_list register rest q = Ok r'"
    by (cases x) auto
  from q(1) Cons.prems(2) have "norm m \<notin> insert (own u) (norm ` set as)" using register_fresh by blast
  with q(1) Cons.prems(2) have "get q m = Ok v" by (simp add: register_other)
  with Cons.IH q show ?case by blast
qed simp

lemma register_all_get:
  "register_list register vs r = Ok r' \<Longrightarrow> (v, as) \<in> set vs \<Longrightarrow>
     norm m \<in> insert (own v) (norm ` set as) \<Longrightarrow> get r' m = Ok v"
proof (induction vs arbitrary: r)
  case (Cons x rest)
  obtain u bs where x: "x = (u, bs)" by (cases x)
  with Cons.prems(1) obtain q where q: "register u bs False r = Ok q" "register_list register rest q = Ok r'"
    by auto
  show ?case
  proof (cases "(v, as) \<in> set rest")
    case True
    with Cons q show ?thesis by blast
  next
    case False
    with Cons.prems(2) x have "v = u" "as = bs" by auto
    with Cons.prems(3) q(1) have "get q m = Ok v" using register_get by blast
    with q(2) show ?thesis by (rule register_all_keeps_entry)
  qed
qed simp

lemma register_all_inv: "register_list register vs r = Ok r' \<Longrightarrow> registry_inv r \<Longrightarrow> registry_inv r'"
proof (induction vs arbitrary: r)
  case (Cons x rest)
  then show ?case by (cases x) (auto dest: register_keeps)
qed simp

text \<open>An entry registered later under a name that is taken is refused.\<close>

lemma register_taken:
  assumes "get r m = Ok w" "norm m \<in> insert (own v) (norm ` set as)"
  shows "\<exists>e. register v as False r = Raise e"
  using assms register_fresh by (cases "register v as False r") blast+

end

section \<open>Registries built on the shared body\<close>

text \<open>
  A registry whose \<open>register\<close>, when it succeeds, is the shared body under the entry's own key and
  the normalized aliases, and whose lookup finds what is stored under the normalized name and
  refuses an empty one. Both registries have this shape, and it gives the contract above.
\<close>

locale keyed_registry =
  fixes norm :: "string \<Rightarrow> string"
    and own :: "'a \<Rightarrow> string"
    and register :: "'a \<Rightarrow> string list \<Rightarrow> bool \<Rightarrow> 'a registry \<Rightarrow> 'a registry result"
    and get :: "'a registry \<Rightarrow> string \<Rightarrow> 'a result"
  assumes register_body: "register v as rep r = Ok r' \<Longrightarrow>
      \<exists>msg. register_under msg (own v) (map norm as) rep v r = Ok r'"
    and get_found: "norm m \<noteq> [] \<Longrightarrow> dict_get (reg_entries r) (norm m) = Some v \<Longrightarrow> get r m = Ok v"
    and get_sound: "get r m = Ok v \<Longrightarrow> dict_get (reg_entries r) (norm m) = Some v"
    and get_entries: "dict_get (reg_entries r) (norm m) = dict_get (reg_entries r') (norm m) \<Longrightarrow> get r m = get r' m"
begin

lemma body_lookup:
  assumes "register v as rep r = Ok r'"
  shows "dict_get (reg_entries r') k =
      (if k \<in> insert (own v) (norm ` set as) then Some v else dict_get (reg_entries r) k)"
    and "[] \<notin> insert (own v) (norm ` set as)"
    and "\<not> rep \<Longrightarrow> k \<in> insert (own v) (norm ` set as) \<Longrightarrow> dict_get (reg_entries r) k = None"
    and "registry_inv r \<Longrightarrow> registry_inv r'"
proof -
  obtain msg where u: "register_under msg (own v) (map norm as) rep v r = Ok r'"
    using register_body [OF assms] by blast
  have img: "set (own v # map norm as) = insert (own v) (norm ` set as)" by simp
  note ok = register_under_ok [OF u, unfolded img]
  show "dict_get (reg_entries r') k =
      (if k \<in> insert (own v) (norm ` set as) then Some v else dict_get (reg_entries r) k)"
    and "[] \<notin> insert (own v) (norm ` set as)"
    and "\<not> rep \<Longrightarrow> k \<in> insert (own v) (norm ` set as) \<Longrightarrow> dict_get (reg_entries r) k = None"
    by (rule ok)+
  show "registry_inv r \<Longrightarrow> registry_inv r'" using u by (rule registry_inv_register)
qed

end

sublocale keyed_registry \<subseteq> named_registry norm own register get
proof
  fix v as rep r r' m
  assume ok: "register v as rep r = Ok r'"
  note b = body_lookup [OF ok]
  show "norm m \<in> insert (own v) (norm ` set as) \<Longrightarrow> get r' m = Ok v"
    using b(1) [of "norm m"] b(2) by (intro get_found) (metis, simp)
  show "norm m \<notin> insert (own v) (norm ` set as) \<Longrightarrow> get r' m = get r m"
    using b(1) [of "norm m"] by (intro get_entries) auto
  show "registry_inv r \<Longrightarrow> registry_inv r'" by (rule b(4))
next
  fix v as r r' m w
  assume ok: "register v as False r = Ok r'" and m: "norm m \<in> insert (own v) (norm ` set as)"
  from body_lookup(3) [OF ok _ m] have "dict_get (reg_entries r) (norm m) = None" by simp
  then show "get r m \<noteq> Ok w" using get_sound [of r m w] by auto
qed

end
