(* ===== verification/Binary64.thy ===== *)
theory Binary64
  imports Prelude
begin

text \<open>
  IEEE 754 binary64 arithmetic, the arithmetic of Python's \<open>float\<close>. Every operation of the
  sources (\<open>+\<close>, \<open>-\<close>, \<open>*\<close>, \<open>/\<close>, \<open>math.sqrt\<close>, \<open>math.fsum\<close>) is correctly rounded: its result is
  the exact real result, rounded to the nearest representable number with ties to even. The
  components are therefore written over the reals with an explicit rounding function
  \<open>rnd\<close> around each operation, in the order the source performs them.

  The locale \<open>float_rounding\<close> states what the components rely on about \<open>rnd\<close>. It is
  interpreted on \<open>rnd64\<close>, rounding to 53 significant bits with gradual underflow at
  \<open>2 ^ -1074\<close>, and on the identity (exact real arithmetic, the mathematical meaning of a
  formula). The exponent is not bounded above: a computation whose intermediate values stay
  below \<open>max_double\<close> is exactly Python's, and the finiteness checks the sources make on
  their inputs and on their results are written out against \<open>max_double\<close>.
\<close>

section \<open>Definitions\<close>

definition rne :: "real \<Rightarrow> int" where
  "rne x = (let f = \<lfloor>x\<rfloor>; d = x - of_int f in
     if d < 1 / 2 then f else if 1 / 2 < d then f + 1 else if even f then f else f + 1)"

definition ulp_exp :: "real \<Rightarrow> int" where
  "ulp_exp x = max (\<lfloor>log 2 \<bar>x\<bar>\<rfloor> - 52) (- 1074)"

definition ulp :: "real \<Rightarrow> real" where
  "ulp x = 2 powr of_int (ulp_exp x)"

definition rnd64 :: "real \<Rightarrow> real" where
  "rnd64 x = (if x = 0 then 0 else of_int (rne (x / ulp x)) * ulp x)"

definition max_double :: real where
  "max_double = (2 ^ 53 - 1) * 2 ^ 971"

definition is_finite64 :: "real \<Rightarrow> bool" where
  "is_finite64 x = (\<bar>x\<bar> \<le> max_double)"

text \<open>Python's \<open>float(value)\<close> on the numeric types; other types raise \<open>TypeError\<close>.\<close>

definition round_to_fl :: "(real \<Rightarrow> real) \<Rightarrow> real \<Rightarrow> fl" where
  "round_to_fl rnd x = (let r = rnd x in
     if is_finite64 r then Fin r else if 0 < r then PosInf else NegInf)"

fun to_float :: "(real \<Rightarrow> real) \<Rightarrow> pyval \<Rightarrow> fl result" where
  "to_float rnd (VInt n) = (let r = rnd (of_int n) in
     if is_finite64 r then Ok (Fin r) else Raise (OverflowError ''int too large to convert to float''))"
| "to_float rnd (VBool b) = Ok (Fin (if b then 1 else 0))"
| "to_float rnd (VFloat f) = Ok f"
| "to_float rnd (VDecimal (Fin q)) = Ok (round_to_fl rnd q)"
| "to_float rnd (VDecimal f) = Ok f"
| "to_float rnd v = Raise (TypeError ''float() argument must be a string or a real number'')"

section \<open>What the components rely on\<close>

locale float_rounding =
  fixes rnd :: "real \<Rightarrow> real"
  assumes rnd_mono: "x \<le> y \<Longrightarrow> rnd x \<le> rnd y"
    and rnd_idem: "rnd (rnd x) = rnd x"
    and rnd_minus: "rnd (- x) = - rnd x"
    and rnd_of_int: "\<bar>n\<bar> \<le> 2 ^ 53 \<Longrightarrow> rnd (of_int n) = of_int n"
begin

lemma rnd_0: "rnd 0 = 0"
  using rnd_of_int [of 0] by simp

lemma rnd_1: "rnd 1 = 1"
  using rnd_of_int [of 1] by simp

lemma rnd_numeral: "(numeral k :: int) \<le> 2 ^ 53 \<Longrightarrow> rnd (numeral k) = numeral k"
  using rnd_of_int [of "numeral k"] by simp

lemma rnd_of_nat: "n \<le> 2 ^ 53 \<Longrightarrow> rnd (of_nat n) = of_nat n"
  using rnd_of_int [of "int n"] by simp

lemma rnd_nonneg: "0 \<le> x \<Longrightarrow> 0 \<le> rnd x"
  using rnd_mono [of 0 x] by (simp add: rnd_0)

lemma rnd_nonpos: "x \<le> 0 \<Longrightarrow> rnd x \<le> 0"
  using rnd_mono [of x 0] by (simp add: rnd_0)

lemma rnd_ge_rounded: "rnd y = y \<Longrightarrow> y \<le> x \<Longrightarrow> y \<le> rnd x"
  using rnd_mono [of y x] by simp

lemma rnd_le_rounded: "rnd y = y \<Longrightarrow> x \<le> y \<Longrightarrow> rnd x \<le> y"
  using rnd_mono [of x y] by simp

lemma rnd_le_int: "\<bar>n\<bar> \<le> 2 ^ 53 \<Longrightarrow> x \<le> of_int n \<Longrightarrow> rnd x \<le> of_int n"
  by (rule rnd_le_rounded) (rule rnd_of_int)

lemma rnd_ge_int: "\<bar>n\<bar> \<le> 2 ^ 53 \<Longrightarrow> of_int n \<le> x \<Longrightarrow> of_int n \<le> rnd x"
  by (rule rnd_ge_rounded) (rule rnd_of_int)

text \<open>Adding or subtracting a non-negative amount never moves a float the wrong way.\<close>

lemma rnd_add_ge: "rnd x = x \<Longrightarrow> 0 \<le> y \<Longrightarrow> x \<le> rnd (x + y)"
  by (rule rnd_ge_rounded) auto

lemma rnd_diff_le: "rnd x = x \<Longrightarrow> 0 \<le> y \<Longrightarrow> rnd (x - y) \<le> x"
  by (rule rnd_le_rounded) auto

end

section \<open>Rounding to nearest, ties to even\<close>

lemma rne_of_int [simp]: "rne (of_int n) = n"
  by (simp add: rne_def)

lemma rne_bounds: "\<lfloor>x\<rfloor> \<le> rne x" "rne x \<le> \<lfloor>x\<rfloor> + 1"
  by (auto simp: rne_def Let_def)

lemma rne_mono: "x \<le> y \<Longrightarrow> rne x \<le> rne y"
proof -
  assume xy: "x \<le> y"
  show ?thesis
  proof (cases "\<lfloor>x\<rfloor> = \<lfloor>y\<rfloor>")
    case True
    with xy show ?thesis by (auto simp: rne_def Let_def)
  next
    case False
    with xy have "\<lfloor>x\<rfloor> + 1 \<le> \<lfloor>y\<rfloor>" using floor_mono [OF xy] by linarith
    with rne_bounds(2) [of x] rne_bounds(1) [of y] show ?thesis by linarith
  qed
qed

lemma rne_minus: "rne (- x) = - rne x"
proof (cases "x = of_int \<lfloor>x\<rfloor>")
  case True
  then have "rne (- x) = rne (of_int (- \<lfloor>x\<rfloor>))" "rne x = rne (of_int \<lfloor>x\<rfloor>)" by simp_all
  then show ?thesis by (simp only: rne_of_int)
next
  case False
  then have f: "\<lfloor>- x\<rfloor> = - \<lfloor>x\<rfloor> - 1" by (simp add: floor_minus ceiling_altdef)
  show ?thesis unfolding rne_def f Let_def by auto
qed

lemma rne_le_int: "x \<le> of_int n \<Longrightarrow> rne x \<le> n"
  using rne_mono [of x "of_int n"] by simp

lemma rne_ge_int: "of_int n \<le> x \<Longrightarrow> n \<le> rne x"
  using rne_mono [of "of_int n" x] by simp

section \<open>Rounding to binary64\<close>

lemma ulp_pos [simp]: "0 < ulp x"
  by (simp add: ulp_def)

lemma ulp_nonneg [simp]: "0 \<le> ulp x"
  by (rule less_imp_le) (rule ulp_pos)

lemma ulp_minus [simp]: "ulp (- x) = ulp x"
  by (simp add: ulp_def ulp_exp_def)

lemma ulp_mono: "x \<noteq> 0 \<Longrightarrow> \<bar>x\<bar> \<le> \<bar>y\<bar> \<Longrightarrow> ulp x \<le> ulp y"
proof -
  assume "x \<noteq> 0" "\<bar>x\<bar> \<le> \<bar>y\<bar>"
  then have "log 2 \<bar>x\<bar> \<le> log 2 \<bar>y\<bar>" by (intro log_mono) auto
  then have "\<lfloor>log 2 \<bar>x\<bar>\<rfloor> \<le> \<lfloor>log 2 \<bar>y\<bar>\<rfloor>" by (rule floor_mono)
  then show ?thesis by (simp add: ulp_def ulp_exp_def)
qed

lemma rnd64_eq: "rnd64 x = of_int (rne (x / ulp x)) * ulp x"
  by (simp add: rnd64_def rne_def)

lemma rnd64_minus: "rnd64 (- x) = - rnd64 x"
  by (simp add: rnd64_eq rne_minus)

text \<open>A multiple of its own unit in the last place is representable.\<close>

lemma rnd64_multiple: "x = of_int m * ulp x \<Longrightarrow> rnd64 x = x"
proof -
  assume x: "x = of_int m * ulp x"
  have "ulp x \<noteq> 0" using ulp_pos [of x] by linarith
  with x have "x / ulp x = of_int m" by (metis nonzero_mult_div_cancel_right)
  then show ?thesis using x by (simp add: rnd64_eq)
qed

lemma pow2_multiple:
  "e \<le> k \<Longrightarrow> (2::real) powr of_int k = of_int (2 ^ nat (k - e)) * 2 powr of_int e"
proof -
  assume "e \<le> k"
  then have "(2::real) powr of_int k = 2 powr (of_int (int (nat (k - e))) + of_int e)"
    by (simp flip: of_int_add)
  also have "\<dots> = 2 powr of_nat (nat (k - e)) * 2 powr of_int e"
    by (simp add: powr_add)
  finally show ?thesis by (simp add: powr_realpow)
qed

lemma pow2_log_bounds:
  assumes "x \<noteq> 0"
  shows "2 powr of_int \<lfloor>log 2 \<bar>x\<bar>\<rfloor> \<le> \<bar>x\<bar>" "\<bar>x\<bar> < 2 powr of_int (\<lfloor>log 2 \<bar>x\<bar>\<rfloor> + 1)"
proof -
  have x: "2 powr log 2 \<bar>x\<bar> = \<bar>x\<bar>" using assms by simp
  have "2 powr of_int \<lfloor>log 2 \<bar>x\<bar>\<rfloor> \<le> 2 powr log 2 \<bar>x\<bar>" by simp
  then show "2 powr of_int \<lfloor>log 2 \<bar>x\<bar>\<rfloor> \<le> \<bar>x\<bar>" by (simp only: x)
  have "2 powr log 2 \<bar>x\<bar> < 2 powr of_int (\<lfloor>log 2 \<bar>x\<bar>\<rfloor> + 1)"
    by (intro powr_less_mono) linarith+
  then show "\<bar>x\<bar> < 2 powr of_int (\<lfloor>log 2 \<bar>x\<bar>\<rfloor> + 1)" by (simp only: x)
qed

text \<open>A grid point of the rounding grid at \<open>x\<close> bounds the rounded value as it bounds \<open>x\<close>.\<close>

lemma rnd64_ge_grid: "of_int m * ulp x \<le> x \<Longrightarrow> of_int m * ulp x \<le> rnd64 x"
proof -
  assume "of_int m * ulp x \<le> x"
  then have "of_int m \<le> x / ulp x" by (simp add: le_divide_eq)
  then have "m \<le> rne (x / ulp x)" by (rule rne_ge_int)
  then show ?thesis by (simp add: rnd64_eq)
qed

lemma rnd64_le_grid: "x \<le> of_int m * ulp x \<Longrightarrow> rnd64 x \<le> of_int m * ulp x"
proof -
  assume "x \<le> of_int m * ulp x"
  then have "x / ulp x \<le> of_int m" by (simp add: divide_le_eq)
  then have "rne (x / ulp x) \<le> m" by (rule rne_le_int)
  then show ?thesis by (simp add: rnd64_eq)
qed

lemma rnd64_ge_pow2: "ulp_exp x \<le> k \<Longrightarrow> 2 powr of_int k \<le> x \<Longrightarrow> 2 powr of_int k \<le> rnd64 x"
  using rnd64_ge_grid [of "2 ^ nat (k - ulp_exp x)" x] pow2_multiple [of "ulp_exp x" k]
  by (simp add: ulp_def)

lemma rnd64_le_pow2: "ulp_exp x \<le> k \<Longrightarrow> x \<le> 2 powr of_int k \<Longrightarrow> rnd64 x \<le> 2 powr of_int k"
  using rnd64_le_grid [of x "2 ^ nat (k - ulp_exp x)"] pow2_multiple [of "ulp_exp x" k]
  by (simp add: ulp_def)

lemma rnd64_nonneg: "0 \<le> x \<Longrightarrow> 0 \<le> rnd64 x"
  using rnd64_ge_grid [of 0 x] by simp

lemma less_pow2_ulp_exp: "x \<noteq> 0 \<Longrightarrow> \<bar>x\<bar> < 2 powr of_int (ulp_exp x + 53)"
proof -
  assume "x \<noteq> 0"
  then have "\<bar>x\<bar> < 2 powr of_int (\<lfloor>log 2 \<bar>x\<bar>\<rfloor> + 1)" by (rule pow2_log_bounds)
  also have "\<dots> \<le> 2 powr of_int (ulp_exp x + 53)"
    by (intro powr_mono) (auto simp: ulp_exp_def)
  finally show ?thesis .
qed

lemma rnd64_mono_pos:
  assumes "0 < x" "x \<le> y"
  shows "rnd64 x \<le> rnd64 y"
proof (cases "ulp x = ulp y")
  case True
  have "rne (x / ulp x) \<le> rne (y / ulp x)"
    using assms ulp_pos [of x] by (intro rne_mono divide_right_mono) auto
  then have "of_int (rne (x / ulp x)) * ulp x \<le> of_int (rne (y / ulp x)) * ulp x"
    using ulp_pos [of x] by (intro mult_right_mono) auto
  with True show ?thesis by (simp add: rnd64_eq)
next
  case False
  with ulp_mono [of x y] assms have "ulp x < ulp y" by simp
  then have lt: "ulp_exp x < ulp_exp y" by (simp add: ulp_def)
  let ?k = "\<lfloor>log 2 \<bar>y\<bar>\<rfloor>"
  from lt have k: "ulp_exp y = ?k - 52" by (auto simp: ulp_exp_def)
  have "x \<le> 2 powr of_int (ulp_exp x + 53)" using less_pow2_ulp_exp [of x] assms by simp
  also have "\<dots> \<le> 2 powr of_int ?k" using lt k by (intro powr_mono) auto
  finally have "rnd64 x \<le> 2 powr of_int ?k" using lt k by (intro rnd64_le_pow2) auto
  also have "\<dots> \<le> rnd64 y"
    using pow2_log_bounds(1) [of y] assms k by (intro rnd64_ge_pow2) auto
  finally show ?thesis .
qed

lemma rnd64_mono: "x \<le> y \<Longrightarrow> rnd64 x \<le> rnd64 y"
proof -
  assume xy: "x \<le> y"
  consider "0 < x" | "x \<le> 0" "0 \<le> y" | "y < 0" by linarith
  then show ?thesis
  proof cases
    case 1
    then show ?thesis using xy by (rule rnd64_mono_pos)
  next
    case 2
    then have "rnd64 x \<le> 0" using rnd64_nonneg [of "- x"] by (simp add: rnd64_minus)
    with 2 rnd64_nonneg [of y] show ?thesis by linarith
  next
    case 3
    with xy rnd64_mono_pos [of "- y" "- x"] show ?thesis by (simp add: rnd64_minus)
  qed
qed

lemma rnd64_grid_idem:
  assumes r: "r = of_int m * ulp x" and le: "ulp_exp r \<le> ulp_exp x"
  shows "rnd64 r = r"
proof -
  from le have "ulp x = of_int (2 ^ nat (ulp_exp x - ulp_exp r)) * ulp r"
    unfolding ulp_def by (rule pow2_multiple)
  with r have "r = of_int (m * 2 ^ nat (ulp_exp x - ulp_exp r)) * ulp r" by simp
  then show ?thesis by (rule rnd64_multiple)
qed

lemma rnd64_pow2: "- 1074 \<le> k - 52 \<Longrightarrow> rnd64 (2 powr of_int k) = 2 powr of_int k"
proof -
  assume "- 1074 \<le> k - 52"
  then have u: "ulp_exp (2 powr of_int k) = k - 52" by (simp add: ulp_exp_def)
  have "(2::real) powr of_int k = of_int (2 ^ nat (k - (k - 52))) * 2 powr of_int (k - 52)"
    by (rule pow2_multiple) simp
  then have "(2::real) powr of_int k = of_int (2 ^ nat (k - (k - 52))) * ulp (2 powr of_int k)"
    unfolding ulp_def u .
  then show ?thesis by (rule rnd64_multiple)
qed

lemma rnd64_idem_pos: "0 < x \<Longrightarrow> rnd64 (rnd64 x) = rnd64 x"
proof -
  assume x: "0 < x"
  let ?r = "rnd64 x"
  show ?thesis
  proof (cases "ulp_exp ?r \<le> ulp_exp x")
    case True
    then show ?thesis by (rule rnd64_grid_idem [OF rnd64_eq])
  next
    case False
    have le: "?r \<le> 2 powr of_int (ulp_exp x + 53)"
      using less_pow2_ulp_exp [of x] x by (intro rnd64_le_pow2) auto
    let ?k = "\<lfloor>log 2 \<bar>?r\<bar>\<rfloor>"
    from False have k: "ulp_exp ?r = ?k - 52" "ulp_exp x + 53 \<le> ?k" "- 1074 \<le> ?k - 52"
      by (auto simp: ulp_exp_def)
    show ?thesis
    proof (cases "?r = 0")
      case True
      then show ?thesis by (simp add: rnd64_def)
    next
      case False
      then have "2 powr of_int ?k \<le> ?r" using pow2_log_bounds(1) [of ?r] rnd64_nonneg [of x] x by simp
      moreover have "2 powr of_int (ulp_exp x + 53) \<le> (2::real) powr of_int ?k"
        using k by (intro powr_mono) auto
      ultimately have "?r = 2 powr of_int ?k" using le by linarith
      with rnd64_pow2 [of ?k] k(3) show ?thesis by simp
    qed
  qed
qed

lemma rnd64_idem: "rnd64 (rnd64 x) = rnd64 x"
proof -
  consider "0 < x" | "x = 0" | "x < 0" by linarith
  then show ?thesis
  proof cases
    case 1
    then show ?thesis by (rule rnd64_idem_pos)
  next
    case 2
    then show ?thesis by (simp add: rnd64_def)
  next
    case 3
    with rnd64_idem_pos [of "- x"] show ?thesis by (simp add: rnd64_minus)
  qed
qed

lemma rnd64_int_pos:
  assumes "0 < n" "n \<le> 2 ^ 53"
  shows "rnd64 (of_int n) = of_int n"
proof (cases "n = 2 ^ 53")
  case True
  then have "of_int n = (2::real) powr of_int 53" by (simp add: powr_numeral)
  with rnd64_pow2 [of 53] show ?thesis by simp
next
  case False
  let ?x = "of_int n :: real"
  have "?x < 2 ^ 53" using assms False by (simp flip: of_int_power of_int_less_iff)
  then have "log 2 \<bar>?x\<bar> < 53" using assms by (simp add: log_less_iff powr_numeral)
  then have "\<lfloor>log 2 \<bar>?x\<bar>\<rfloor> \<le> 52" by linarith
  then have e: "ulp_exp ?x \<le> 0" by (simp add: ulp_exp_def)
  have "(1::real) = of_int (2 ^ nat (0 - ulp_exp ?x)) * ulp ?x"
    using pow2_multiple [OF e] by (simp add: ulp_def)
  then have "?x = of_int (n * 2 ^ nat (0 - ulp_exp ?x)) * ulp ?x"
    by (metis mult.assoc mult.right_neutral of_int_mult)
  then show ?thesis by (rule rnd64_multiple)
qed

lemma rnd64_int: "\<bar>n\<bar> \<le> 2 ^ 53 \<Longrightarrow> rnd64 (of_int n) = of_int n"
proof -
  assume n: "\<bar>n\<bar> \<le> 2 ^ 53"
  consider "0 < n" | "n = 0" | "n < 0" by linarith
  then show ?thesis
  proof cases
    case 1
    then show ?thesis using n by (intro rnd64_int_pos) auto
  next
    case 2
    then show ?thesis by (simp add: rnd64_def)
  next
    case 3
    with n rnd64_int_pos [of "- n"] show ?thesis by (simp add: rnd64_minus)
  qed
qed

interpretation b64: float_rounding rnd64
  by unfold_locales (auto intro: rnd64_mono rnd64_idem rnd64_minus rnd64_int)

interpretation exact: float_rounding "\<lambda>x. x"
  by unfold_locales auto

text \<open>Evaluation of \<^const>\<open>rnd64\<close> on the integers a witness computes with.\<close>

lemma rnd64_const [simp]:
  "rnd64 0 = 0" "rnd64 1 = 1"
  "(numeral k :: int) \<le> 2 ^ 53 \<Longrightarrow> rnd64 (numeral k) = numeral k"
  "(numeral k :: int) \<le> 2 ^ 53 \<Longrightarrow> rnd64 (- numeral k) = - numeral k"
  by (simp_all add: b64.rnd_0 b64.rnd_1 b64.rnd_numeral rnd64_minus)

lemma rnd64_neg1 [simp]: "rnd64 (- 1) = - 1"
  by (simp add: rnd64_minus)

lemma max_double_pos [simp]: "0 < max_double"
  by (simp add: max_double_def)

lemma is_finite64_int: "\<bar>n\<bar> \<le> 2 ^ 53 \<Longrightarrow> is_finite64 (of_int n)"
proof -
  assume "\<bar>n\<bar> \<le> 2 ^ 53"
  then have "\<bar>of_int n :: real\<bar> \<le> 2 ^ 53" by (simp flip: of_int_abs of_int_power of_int_le_iff)
  also have "(2::real) ^ 53 \<le> max_double" by (simp add: max_double_def)
  finally show ?thesis by (simp add: is_finite64_def)
qed

lemma is_finite64_const [simp]:
  "is_finite64 0" "is_finite64 1"
  "(numeral k :: int) \<le> 2 ^ 53 \<Longrightarrow> is_finite64 (numeral k)"
  "(numeral k :: int) \<le> 2 ^ 53 \<Longrightarrow> is_finite64 (- numeral k)"
  using is_finite64_int [of 0] is_finite64_int [of 1] is_finite64_int [of "numeral k"]
    is_finite64_int [of "- numeral k"]
  by simp_all

section \<open>Size of the rounding error\<close>

lemma rne_error: "\<bar>of_int (rne x) - x\<bar> \<le> 1 / 2"
  unfolding rne_def Let_def by (auto simp: abs_if) linarith+

lemma rnd64_error: "\<bar>rnd64 x - x\<bar> \<le> ulp x / 2"
proof -
  have "rnd64 x - x = (of_int (rne (x / ulp x)) - x / ulp x) * ulp x"
    using less_imp_neq [OF ulp_pos [of x]] by (simp add: rnd64_eq left_diff_distrib)
  then have "\<bar>rnd64 x - x\<bar> = \<bar>of_int (rne (x / ulp x)) - x / ulp x\<bar> * ulp x" by (simp add: abs_mult)
  also have "\<dots> \<le> 1 / 2 * ulp x" by (intro mult_right_mono rne_error) simp
  finally show ?thesis by simp
qed

lemma ulp_pow2: "- 1022 \<le> k \<Longrightarrow> ulp (2 powr of_int k) = 2 powr of_int (k - 52)"
  by (simp add: ulp_def ulp_exp_def)

lemma rnd64_error_below:
  assumes "- 1022 \<le> k" "0 \<le> x" "x \<le> 2 powr of_int k"
  shows "\<bar>rnd64 x - x\<bar> \<le> 2 powr of_int (k - 53)"
proof (cases "x = 0")
  case True
  then show ?thesis by simp
next
  case False
  then have "ulp x \<le> 2 powr of_int (k - 52)" using ulp_mono [of x "2 powr of_int k"] assms by (simp add: ulp_pow2)
  moreover have "(2 :: real) powr of_int (k - 52) / 2 = 2 powr of_int (k - 53)"
    using powr_diff [of "2 :: real" "of_int (k - 52)" 1] by simp
  ultimately show ?thesis using rnd64_error [of x] by linarith
qed

end
