(* ===== verification/Indicator_Types.thy ===== *)
theory Indicator_Types
  imports Binary64
begin

text \<open>
  The boundary of the indicator engine: parameter validation
  (\<open>indicators/validation.py\<close>), candles and series normalization (\<open>indicators/types.py\<close>) and the
  immutable results with their validation (\<open>indicators/results.py\<close>). The lemmas show that a
  constructed candle satisfies the price invariant, that re-validating it changes nothing, and
  that a validated result holds only finite numbers and lawful parameters.
\<close>

section \<open>Parameter validation\<close>

definition positive_int :: "string \<Rightarrow> pyval \<Rightarrow> int result" where
  "positive_int name v = (case v of
      VInt n \<Rightarrow> if n \<le> 0 then Raise (InvalidParameterError (name @ '' must be a positive integer''))
                else Ok n
    | _ \<Rightarrow> Raise (InvalidParameterError (name @ '' must be a positive integer'')))"

definition positive_number :: "(real \<Rightarrow> real) \<Rightarrow> string \<Rightarrow> pyval \<Rightarrow> real result" where
  "positive_number rnd name v =
     (if \<not> is_real_number v
      then Raise (InvalidParameterError (name @ '' must be a positive number''))
      else let err = InvalidParameterError (name @ '' must be a positive finite number'') in
        ebind (to_float rnd v) (\<lambda>f. ebind (finite_or f err) (\<lambda>r.
          if r \<le> 0 then Raise err else Ok r)))"

definition require_length :: "nat \<Rightarrow> int \<Rightarrow> string \<Rightarrow> unit result" where
  "require_length len required indicator =
     (if int len < required then Raise (InsufficientDataError required (int len) indicator) else Ok ())"

section \<open>Candles\<close>

definition finite_float :: "(real \<Rightarrow> real) \<Rightarrow> pyval \<Rightarrow> string \<Rightarrow> real result" where
  "finite_float rnd v field =
     (if \<not> is_real_number v then Raise (InvalidInputError (field @ '' must be a real number''))
      else case to_float rnd v of
          Inl _ \<Rightarrow> Raise (InvalidInputError (field @ '' must be a real number''))
        | Inr f \<Rightarrow> finite_or f (InvalidInputError (field @ '' must be finite'')))"

record candle =
  c_open :: "real option"
  c_high :: "real option"
  c_low :: "real option"
  c_close :: real
  c_volume :: "real option"
  c_timestamp :: pyval

text \<open>One price field of \<open>Candle.__post_init__\<close>: absent, or a finite positive number.\<close>

definition price_field :: "(real \<Rightarrow> real) \<Rightarrow> string \<Rightarrow> pyval \<Rightarrow> real option result" where
  "price_field rnd field raw =
     (if raw = VNone then Ok None
      else ebind (finite_float rnd raw field) (\<lambda>number.
        if number \<le> 0 then Raise (InvalidInputError (field @ '' must be greater than zero''))
        else Ok (Some number)))"

definition range_check :: "real option \<Rightarrow> real option \<Rightarrow> real option \<Rightarrow> real \<Rightarrow> unit result" where
  "range_check op hi lo cl = (case (hi, lo) of
      (Some h, Some l) \<Rightarrow>
        if h < l then Raise (InvalidInputError ''high must be greater than or equal to low'')
        else if cl < l \<or> cl > h
          then Raise (InvalidInputError ''close must be within the low/high range'')
        else (case op of
            Some p \<Rightarrow> if p < l \<or> p > h
              then Raise (InvalidInputError ''open must be within the low/high range'') else Ok ()
          | None \<Rightarrow> Ok ())
    | _ \<Rightarrow> Ok ())"

definition volume_field :: "(real \<Rightarrow> real) \<Rightarrow> pyval \<Rightarrow> real option result" where
  "volume_field rnd raw =
     (if raw = VNone then Ok None
      else ebind (finite_float rnd raw ''volume'') (\<lambda>v.
        if v < 0 then Raise (InvalidInputError ''volume must not be negative'') else Ok (Some v)))"

definition Candle :: "(real \<Rightarrow> real) \<Rightarrow> pyval \<Rightarrow> pyval \<Rightarrow> pyval \<Rightarrow> pyval \<Rightarrow> pyval \<Rightarrow> pyval \<Rightarrow> candle result"
where
  "Candle rnd op hi lo cl vol ts =
     (if cl = VNone then Raise (InvalidInputError ''close is required'')
      else ebind (price_field rnd ''open'' op) (\<lambda>o'.
        ebind (price_field rnd ''high'' hi) (\<lambda>h'.
        ebind (price_field rnd ''low'' lo) (\<lambda>l'.
        ebind (price_field rnd ''close'' cl) (\<lambda>c'.
        case c' of None \<Rightarrow> Raise (InvalidInputError ''close is required'') | Some c \<Rightarrow>
        ebind (range_check o' h' l' c) (\<lambda>_.
        ebind (volume_field rnd vol) (\<lambda>v'.
        Ok \<lparr>c_open = o', c_high = h', c_low = l', c_close = c, c_volume = v', c_timestamp = ts\<rparr>)))))))"

definition candle_fields :: "string list" where
  "candle_fields = [''open'', ''high'', ''low'', ''close'', ''volume'', ''timestamp'']"

definition candle_from_mapping :: "(real \<Rightarrow> real) \<Rightarrow> (string, pyval) dict \<Rightarrow> candle result" where
  "candle_from_mapping rnd d =
     (let unknown = filter (\<lambda>k. k \<notin> set candle_fields) (dict_keys d) in
      if unknown \<noteq> [] then Raise (InvalidInputError
          (''unknown candle fields: '' @ join_text '', '' (sort (remdups unknown))))
      else Candle rnd (dict_get_or d ''open'' VNone) (dict_get_or d ''high'' VNone)
        (dict_get_or d ''low'' VNone) (dict_get_or d ''close'' VNone)
        (dict_get_or d ''volume'' VNone) (dict_get_or d ''timestamp'' VNone))"

text \<open>
  The \<open>series\<close> argument: not iterable (\<open>None\<close>, text, or an object without \<open>__iter__\<close>), or an
  iterable of candles, mappings and bare closes.
\<close>

datatype series_item = ItemCandle candle | ItemMapping "(string, pyval) dict" | ItemValue pyval

datatype series = NotASeries | Items "series_item list"

definition exn_text :: "exn \<Rightarrow> string" where
  "exn_text e = (case e of InvalidInputError m \<Rightarrow> m | _ \<Rightarrow> '''')"

definition normalize_item :: "(real \<Rightarrow> real) \<Rightarrow> nat \<times> series_item \<Rightarrow> candle result" where
  "normalize_item rnd = (\<lambda>(index, item).
     case (case item of
         ItemCandle c \<Rightarrow> Ok c
       | ItemMapping d \<Rightarrow> candle_from_mapping rnd d
       | ItemValue v \<Rightarrow> Candle rnd VNone VNone VNone v VNone VNone) of
       Inr c \<Rightarrow> Ok c
     | Inl e \<Rightarrow> Raise (InvalidInputError
         (''invalid candle at index '' @ nat_str index @ '': '' @ exn_text e)))"

definition normalize_series :: "(real \<Rightarrow> real) \<Rightarrow> series \<Rightarrow> candle list result" where
  "normalize_series rnd s = (case s of
      NotASeries \<Rightarrow> Raise (InvalidInputError ''series must be an iterable of candles or prices'')
    | Items items \<Rightarrow> traverse (normalize_item rnd) (enumerate 0 items))"

definition require_ohlc :: "candle list \<Rightarrow> unit result" where
  "require_ohlc cs = emap (\<lambda>_. ()) (traverse (\<lambda>(index, c).
     if c_high c = None \<or> c_low c = None
     then Raise (InvalidInputError
       (''candle at index '' @ nat_str index @ '' requires high and low for KDJ''))
     else Ok ()) (enumerate 0 cs))"

definition close_values :: "candle list \<Rightarrow> real list" where
  "close_values cs = map c_close cs"

text \<open>A series of candles that are already normalized.\<close>

abbreviation candles :: "candle list \<Rightarrow> series" where
  "candles cs \<equiv> Items (map ItemCandle cs)"

section \<open>Results\<close>

datatype indicator_result =
    SMAResult real int
  | ProjectedMAResult real int real
  | RSIResult real int real real
  | KDJResult real real real real int int int
  | BollingerResult real real real real int real
  | MACDResult real real real int int int

fun result_indicator :: "indicator_result \<Rightarrow> string" where
  "result_indicator (SMAResult _ _) = ''ma''"
| "result_indicator (ProjectedMAResult _ _ _) = ''projected_ma''"
| "result_indicator (RSIResult _ _ _ _) = ''rsi''"
| "result_indicator (KDJResult _ _ _ _ _ _ _) = ''kdj''"
| "result_indicator (BollingerResult _ _ _ _ _ _) = ''boll''"
| "result_indicator (MACDResult _ _ _ _ _ _) = ''macd''"

fun result_values :: "indicator_result \<Rightarrow> (string, real) dict" where
  "result_values (SMAResult v _) = [(''value'', v)]"
| "result_values (ProjectedMAResult v _ pc) = [(''value'', v), (''projected_close'', pc)]"
| "result_values (RSIResult v _ g l) =
     [(''value'', v), (''average_gain'', g), (''average_loss'', l)]"
| "result_values (KDJResult rsv k d j _ _ _) =
     [(''rsv'', rsv), (''k'', k), (''d'', d), (''j'', j)]"
| "result_values (BollingerResult u m l w _ _) =
     [(''upper'', u), (''middle'', m), (''lower'', l), (''width'', w)]"
| "result_values (MACDResult diff dea h _ _ _) =
     [(''diff'', diff), (''dea'', dea), (''histogram'', h)]"

fun result_parameters :: "indicator_result \<Rightarrow> (string, pyval) dict" where
  "result_parameters (SMAResult _ p) = [(''period'', VInt p)]"
| "result_parameters (ProjectedMAResult _ p _) = [(''period'', VInt p)]"
| "result_parameters (RSIResult _ p _ _) = [(''period'', VInt p)]"
| "result_parameters (KDJResult _ _ _ _ p kp dp) =
     [(''period'', VInt p), (''k_period'', VInt kp), (''d_period'', VInt dp)]"
| "result_parameters (BollingerResult _ _ _ _ p m) =
     [(''period'', VInt p), (''multiplier'', VFloat (Fin m))]"
| "result_parameters (MACDResult _ _ _ f s g) =
     [(''fast_period'', VInt f), (''slow_period'', VInt s), (''signal_period'', VInt g)]"

text \<open>
  \<open>IndicatorResult.__post_init__\<close>: every value and every parameter is a finite number.
  An integer parameter that no float can hold makes \<open>float(value)\<close> raise \<open>OverflowError\<close>.
\<close>

definition check_values :: "(string, real) dict \<Rightarrow> unit result" where
  "check_values vs = emap (\<lambda>_. ()) (traverse (\<lambda>(key, v).
     if is_finite64 v then Ok ()
     else Raise (ResultValidationError (''result value '' @ repr_text key @ '' must be finite''))) vs)"

definition check_parameters :: "(real \<Rightarrow> real) \<Rightarrow> (string, pyval) dict \<Rightarrow> unit result" where
  "check_parameters rnd ps = emap (\<lambda>_. ()) (traverse (\<lambda>(key, v).
     if \<not> is_real_number v
     then Raise (ResultValidationError (''result parameter '' @ repr_text key @ '' must be numeric''))
     else let err = ResultValidationError (''result parameter '' @ repr_text key @ '' must be finite'') in
       ebind (to_float rnd v) (\<lambda>f. ebind (finite_or f err) (\<lambda>r.
         if is_finite64 r then Ok () else Raise err))) ps)"

definition base_post_init :: "(real \<Rightarrow> real) \<Rightarrow> indicator_result \<Rightarrow> unit result" where
  "base_post_init rnd r =
     ebind (check_values (result_values r)) (\<lambda>_. check_parameters rnd (result_parameters r))"

definition check_period :: "string \<Rightarrow> int \<Rightarrow> unit result" where
  "check_period name p = emap (\<lambda>_. ()) (positive_int name (VInt p))"

fun class_post_init :: "(real \<Rightarrow> real) \<Rightarrow> indicator_result \<Rightarrow> unit result" where
  "class_post_init rnd (SMAResult _ p) = check_period ''period'' p"
| "class_post_init rnd (ProjectedMAResult _ p _) = check_period ''period'' p"
| "class_post_init rnd (RSIResult _ p _ _) = check_period ''period'' p"
| "class_post_init rnd (KDJResult _ _ _ _ p kp dp) =
     ebind (check_period ''period'' p) (\<lambda>_.
     ebind (check_period ''k_period'' kp) (\<lambda>_. check_period ''d_period'' dp))"
| "class_post_init rnd (BollingerResult _ _ _ _ p m) =
     ebind (check_period ''period'' p) (\<lambda>_.
     emap (\<lambda>_. ()) (positive_number rnd ''multiplier'' (VFloat (Fin m))))"
| "class_post_init rnd (MACDResult _ _ _ f s g) =
     ebind (check_period ''fast_period'' f) (\<lambda>_.
     ebind (check_period ''slow_period'' s) (\<lambda>_.
     ebind (check_period ''signal_period'' g) (\<lambda>_.
     if f \<ge> s then Raise (InvalidParameterError ''fast_period must be less than slow_period'')
     else Ok ())))"

text \<open>Construction of a result: the class checks, then the shared ones.\<close>

definition make_result :: "(real \<Rightarrow> real) \<Rightarrow> indicator_result \<Rightarrow> indicator_result result" where
  "make_result rnd r = ebind (class_post_init rnd r) (\<lambda>_. emap (\<lambda>_. r) (base_post_init rnd r))"

definition to_snapshot :: "indicator_result \<Rightarrow> string \<times> (string, pyval) dict \<times> (string, real) dict" where
  "to_snapshot r = (result_indicator r, result_parameters r, result_values r)"

section \<open>Properties of candles\<close>

text \<open>What every constructed candle satisfies.\<close>

definition candle_inv :: "candle \<Rightarrow> bool" where
  "candle_inv c \<longleftrightarrow>
     0 < c_close c \<and>
     (\<forall>x. c_open c = Some x \<longrightarrow> 0 < x) \<and>
     (\<forall>x. c_high c = Some x \<longrightarrow> 0 < x) \<and>
     (\<forall>x. c_low c = Some x \<longrightarrow> 0 < x) \<and>
     (\<forall>x. c_volume c = Some x \<longrightarrow> 0 \<le> x) \<and>
     (\<forall>h l. c_high c = Some h \<longrightarrow> c_low c = Some l \<longrightarrow>
        l \<le> c_close c \<and> c_close c \<le> h \<and> (\<forall>x. c_open c = Some x \<longrightarrow> l \<le> x \<and> x \<le> h))"

text \<open>A stored field as an argument again.\<close>

definition raw_field :: "real option \<Rightarrow> pyval" where
  "raw_field x = (case x of None \<Rightarrow> VNone | Some r \<Rightarrow> VFloat (Fin r))"

lemma finite_float_float [simp]: "finite_float rnd (VFloat (Fin r)) f = Ok r"
  by (simp add: finite_float_def)

lemma price_field_Some: "price_field rnd f raw = Ok (Some x) \<Longrightarrow> 0 < x"
  by (auto simp: price_field_def split: if_splits)

lemma price_field_raw:
  "(\<And>r. x = Some r \<Longrightarrow> 0 < r) \<Longrightarrow> price_field rnd f (raw_field x) = Ok x"
  by (cases x) (auto simp: price_field_def raw_field_def)

lemma volume_field_Some: "volume_field rnd raw = Ok (Some x) \<Longrightarrow> 0 \<le> x"
  by (auto simp: volume_field_def split: if_splits)

lemma volume_field_raw:
  "(\<And>r. x = Some r \<Longrightarrow> 0 \<le> r) \<Longrightarrow> volume_field rnd (raw_field x) = Ok x"
  by (cases x) (auto simp: volume_field_def raw_field_def)

lemma range_check_ok:
  "range_check op hi lo cl = Ok () \<longleftrightarrow>
     (\<forall>h l. hi = Some h \<longrightarrow> lo = Some l \<longrightarrow>
        l \<le> cl \<and> cl \<le> h \<and> (\<forall>x. op = Some x \<longrightarrow> l \<le> x \<and> x \<le> h))"
  by (auto simp: range_check_def not_less split: option.splits if_splits)

lemma Candle_inv: "Candle rnd op hi lo cl vol ts = Ok c \<Longrightarrow> candle_inv c"
proof -
  assume "Candle rnd op hi lo cl vol ts = Ok c"
  then obtain o' h' l' y v' where c: "c = \<lparr>c_open = o', c_high = h', c_low = l', c_close = y,
      c_volume = v', c_timestamp = ts\<rparr>"
    and f: "price_field rnd ''open'' op = Ok o'" "price_field rnd ''high'' hi = Ok h'"
      "price_field rnd ''low'' lo = Ok l'" "price_field rnd ''close'' cl = Ok (Some y)"
      "volume_field rnd vol = Ok v'"
    and r: "range_check o' h' l' y = Ok ()"
    unfolding Candle_def by (auto split: if_splits option.splits)
  have "0 < x" if "o' = Some x" for x using f(1) that by (simp add: price_field_Some)
  moreover have "0 < x" if "h' = Some x" for x using f(2) that by (simp add: price_field_Some)
  moreover have "0 < x" if "l' = Some x" for x using f(3) that by (simp add: price_field_Some)
  moreover have "0 < y" using f(4) by (rule price_field_Some)
  moreover have "0 \<le> x" if "v' = Some x" for x using f(5) that by (simp add: volume_field_Some)
  ultimately show ?thesis using r unfolding range_check_ok candle_inv_def c by simp
qed

lemma Candle_raw:
  assumes "candle_inv c"
  shows "Candle rnd (raw_field (c_open c)) (raw_field (c_high c)) (raw_field (c_low c))
     (VFloat (Fin (c_close c))) (raw_field (c_volume c)) (c_timestamp c) = Ok c"
proof -
  have cl: "price_field rnd ''close'' (VFloat (Fin (c_close c))) = Ok (Some (c_close c))"
    using assms by (simp add: price_field_def candle_inv_def)
  have "range_check (c_open c) (c_high c) (c_low c) (c_close c) = Ok ()"
    using assms unfolding range_check_ok candle_inv_def by blast
  moreover have "price_field rnd ''open'' (raw_field (c_open c)) = Ok (c_open c)"
    "price_field rnd ''high'' (raw_field (c_high c)) = Ok (c_high c)"
    "price_field rnd ''low'' (raw_field (c_low c)) = Ok (c_low c)"
    "volume_field rnd (raw_field (c_volume c)) = Ok (c_volume c)"
    using assms by (auto simp: candle_inv_def intro!: price_field_raw volume_field_raw)
  ultimately show ?thesis by (simp add: Candle_def cl)
qed

lemma candle_from_mapping_inv: "candle_from_mapping rnd d = Ok c \<Longrightarrow> candle_inv c"
  by (auto simp: candle_from_mapping_def Let_def dest: Candle_inv split: if_splits)

lemma normalize_item_candle [simp]: "normalize_item rnd (i, ItemCandle c) = Ok c"
  by (simp add: normalize_item_def)

lemma normalize_series_candles [simp]: "normalize_series rnd (candles cs) = Ok cs"
proof -
  have "traverse (normalize_item rnd) (enumerate n (map ItemCandle cs)) = Ok cs" for n
    by (induction cs arbitrary: n) auto
  then show ?thesis by (simp add: normalize_series_def)
qed

text \<open>Every candle of a normalized series satisfies the invariant when the caller's own do.\<close>

lemma normalize_item_inv:
  assumes "normalize_item rnd (i, item) = Ok c" "\<And>k. item = ItemCandle k \<Longrightarrow> candle_inv k"
  shows "candle_inv c"
  using assms
  by (auto simp: normalize_item_def dest: Candle_inv candle_from_mapping_inv
      split: series_item.splits sum.splits)

lemma normalize_items_inv:
  assumes "traverse (normalize_item rnd) (enumerate n items) = Ok cs"
    and "\<And>k. ItemCandle k \<in> set items \<Longrightarrow> candle_inv k"
  shows "list_all candle_inv cs"
  using assms
proof (induction items arbitrary: n cs)
  case (Cons item items)
  from Cons.prems(1) obtain c cs' where c: "normalize_item rnd (n, item) = Ok c"
    and cs': "traverse (normalize_item rnd) (enumerate (Suc n) items) = Ok cs'" "cs = c # cs'"
    by auto
  have "candle_inv c" using c by (rule normalize_item_inv) (simp add: Cons.prems(2))
  moreover have "list_all candle_inv cs'" using cs'(1) by (rule Cons.IH) (simp add: Cons.prems(2))
  ultimately show ?case using cs'(2) by simp
qed simp

lemma require_ohlc_enum:
  "emap (\<lambda>_. ()) (traverse (\<lambda>(index, c).
     if c_high c = None \<or> c_low c = None
     then Raise (InvalidInputError
       (''candle at index '' @ nat_str index @ '' requires high and low for KDJ''))
     else Ok ()) (enumerate n cs)) = Ok () \<longleftrightarrow>
   list_all (\<lambda>c. c_high c \<noteq> None \<and> c_low c \<noteq> None) cs"
  by (induction cs arbitrary: n) auto

lemma require_ohlc_ok:
  "require_ohlc cs = Ok () \<longleftrightarrow> list_all (\<lambda>c. c_high c \<noteq> None \<and> c_low c \<noteq> None) cs"
  unfolding require_ohlc_def by (rule require_ohlc_enum)

lemma close_values_simps [simp]:
  "length (close_values cs) = length cs"
  "close_values (take n cs) = take n (close_values cs)"
  "i < length cs \<Longrightarrow> close_values cs ! i = c_close (cs ! i)"
  by (simp_all add: close_values_def take_map)

section \<open>Properties of validation\<close>

lemma positive_int_VInt [simp]: "0 < n \<Longrightarrow> positive_int name (VInt n) = Ok n"
  by (simp add: positive_int_def)

lemma positive_int_ok: "positive_int name v = Ok n \<longleftrightarrow> v = VInt n \<and> 0 < n"
  by (auto simp: positive_int_def split: pyval.splits if_splits)

lemma check_period_ok [simp]: "check_period name p = Ok () \<longleftrightarrow> 0 < p"
  by (auto simp: check_period_def positive_int_ok)

lemma check_period_pos [simp]: "0 < p \<Longrightarrow> check_period name p = Ok ()"
  by simp

lemma positive_number_ok:
  "positive_number rnd name v = Ok r \<Longrightarrow> 0 < r \<and> is_real_number v \<and> to_float rnd v = Ok (Fin r)"
  by (auto simp: positive_number_def Let_def split: if_splits)

lemma require_length_ok [simp]: "require_length n r i = Ok () \<longleftrightarrow> r \<le> int n"
  by (simp add: require_length_def)

lemma require_length_enough [simp]: "r \<le> int n \<Longrightarrow> require_length n r i = Ok ()"
  by simp

lemma require_length_short [simp]:
  "int n < r \<Longrightarrow> require_length n r i = Raise (InsufficientDataError r (int n) i)"
  by (simp add: require_length_def)

lemma check_values_ok: "check_values vs = Ok () \<longleftrightarrow> (\<forall>v \<in> snd ` set vs. is_finite64 v)"
proof (induction vs)
  case (Cons kv vs)
  obtain k v where "kv = (k, v)" by (cases kv)
  with Cons show ?case by (cases "is_finite64 v") (auto simp: check_values_def)
qed (simp add: check_values_def)

lemma make_result_eq: "make_result rnd r = Ok q \<Longrightarrow> q = r"
  by (auto simp: make_result_def)

text \<open>A constructed result holds finite numbers only.\<close>

lemma make_result_finite:
  "make_result rnd r = Ok q \<Longrightarrow> v \<in> snd ` set (result_values q) \<Longrightarrow> is_finite64 v"
  by (auto simp: make_result_def base_post_init_def check_values_ok)

lemma make_result_again: "make_result rnd r = Ok q \<Longrightarrow> make_result rnd q = Ok q"
  using make_result_eq by blast

text \<open>A day of history with its price range, for concrete series.\<close>

definition day :: "real \<Rightarrow> real \<Rightarrow> real \<Rightarrow> candle" where
  "day h l c = \<lparr>c_open = None, c_high = Some h, c_low = Some l, c_close = c,
     c_volume = None, c_timestamp = VNone\<rparr>"

lemma day_simps [simp]:
  "c_open (day h l c) = None" "c_high (day h l c) = Some h" "c_low (day h l c) = Some l"
  "c_close (day h l c) = c" "c_volume (day h l c) = None"
  by (simp_all add: day_def)

lemma day_inv [simp]: "candle_inv (day h l c) \<longleftrightarrow> 0 < c \<and> 0 < h \<and> 0 < l \<and> l \<le> c \<and> c \<le> h"
  by (auto simp: candle_inv_def)

section \<open>Contract of candles and results\<close>

text \<open>
  Every candle the constructor accepts satisfies the price invariant (positive prices, a
  non-negative volume, close and open within the day's range), and feeding the stored fields
  back to the constructor returns the same candle: validation loses and changes nothing.
\<close>

theorem candle_validated:
  assumes "Candle rnd op hi lo cl vol ts = Ok c"
  shows "candle_inv c \<and>
    Candle rnd (raw_field (c_open c)) (raw_field (c_high c)) (raw_field (c_low c))
      (VFloat (Fin (c_close c))) (raw_field (c_volume c)) (c_timestamp c) = Ok c"
  using Candle_inv [OF assms] Candle_raw by blast

theorem candle_validated_witness:
  "candle_inv (day 12 9 10) \<and>
    Candle rnd64 (raw_field (c_open (day 12 9 10))) (raw_field (c_high (day 12 9 10)))
      (raw_field (c_low (day 12 9 10))) (VFloat (Fin (c_close (day 12 9 10))))
      (raw_field (c_volume (day 12 9 10))) (c_timestamp (day 12 9 10)) = Ok (day 12 9 10)"
proof -
  have "Candle rnd64 VNone (VInt 12) (VInt 9) (VInt 10) VNone VNone = Ok (day 12 9 10)"
    by (simp add: Candle_def price_field_def volume_field_def range_check_def finite_float_def
        day_def Let_def)
  then show ?thesis by (rule candle_validated)
qed

text \<open>
  Normalizing a series never lets an invalid candle through: whatever mixture of candles,
  mappings and bare prices the caller passes, each candle of the normalized series satisfies
  the price invariant, and there is exactly one per item, in order.
\<close>

theorem normalize_series_sound:
  assumes "normalize_series rnd (Items items) = Ok cs"
    and "\<forall>k. ItemCandle k \<in> set items \<longrightarrow> candle_inv k"
  shows "length cs = length items \<and> list_all candle_inv cs \<and>
    (\<forall>i < length items. normalize_item rnd (i, items ! i) = Ok (cs ! i))"
proof -
  from assms(1) have t: "traverse (normalize_item rnd) (enumerate 0 items) = Ok cs"
    by (simp add: normalize_series_def)
  from traverse_nth [OF t] have "normalize_item rnd (i, items ! i) = Ok (cs ! i)" if "i < length items" for i
    using that by (simp add: nth_enumerate_eq)
  with traverse_length [OF t] normalize_items_inv [OF t] assms(2) show ?thesis by simp
qed

theorem normalize_series_sound_witness:
  "\<exists>cs. normalize_series rnd64 (Items [ItemValue (VInt 10), ItemCandle (day 12 9 11)]) = Ok cs \<and>
      length cs = 2 \<and> list_all candle_inv cs"
proof -
  let ?items = "[ItemValue (VInt 10), ItemCandle (day 12 9 11)]"
  obtain cs where cs: "normalize_series rnd64 (Items ?items) = Ok cs"
    by (simp add: normalize_series_def normalize_item_def Candle_def price_field_def
        volume_field_def range_check_def finite_float_def Let_def)
  have "length cs = length ?items \<and> list_all candle_inv cs \<and>
    (\<forall>i < length ?items. normalize_item rnd64 (i, ?items ! i) = Ok (cs ! i))"
    by (rule normalize_series_sound [OF cs]) auto
  with cs show ?thesis by auto
qed

text \<open>
  A result object only ever holds finite numbers and positive periods: whatever an indicator
  computes, the constructed result's values are finite doubles and constructing it again from
  its own fields succeeds with the same result.
\<close>

theorem result_validated:
  assumes "make_result rnd r = Ok q"
  shows "q = r \<and> make_result rnd q = Ok q \<and> (\<forall>v \<in> snd ` set (result_values q). is_finite64 v)"
  using make_result_eq [OF assms] make_result_again [OF assms] make_result_finite [OF assms] by blast

theorem result_validated_witness:
  "make_result rnd64 (SMAResult 7 5) = Ok (SMAResult 7 5) \<and> is_finite64 7"
proof -
  have "make_result rnd64 (SMAResult 7 5) = Ok (SMAResult 7 5)"
    by (simp add: make_result_def base_post_init_def check_values_def check_parameters_def Let_def)
  from result_validated [OF this] show ?thesis by auto
qed

end
