(* ===== verification/Series_Contract.thy ===== *)
theory Series_Contract
  imports Indicator_Types
begin

text \<open>
  The contract between the two ways of running an indicator over history. \<open>calculate\<close> returns
  the value at the end of a series; \<open>calculate_series\<close> returns one value per day in a single
  pass. The specification of the second is \<open>prefix_series\<close> of the first: the day's value is
  what \<open>calculate\<close> returns on the series up to that day, and a day without enough history has
  none. The locale \<open>series_indicator\<close> states that contract and derives what its clients
  use; each indicator theory interprets it on its own pair of routines.
\<close>

section \<open>Arithmetic shared by the indicators\<close>

text \<open>\<open>math.fsum\<close>: the correctly rounded exact sum.\<close>

definition fsum :: "(real \<Rightarrow> real) \<Rightarrow> real list \<Rightarrow> real" where
  "fsum rnd xs = rnd (sum_list xs)"

text \<open>\<open>xs[-n:]\<close>.\<close>

definition last_n :: "nat \<Rightarrow> 'a list \<Rightarrow> 'a list" where
  "last_n n xs = drop (length xs - n) xs"

text \<open>An integer operand of a float operation is converted first.\<close>

abbreviation fint :: "(real \<Rightarrow> real) \<Rightarrow> int \<Rightarrow> real" where
  "fint rnd n \<equiv> rnd (of_int n)"

text \<open>An instance's own parameter unless the call gives one: \<open>self.p if p is None else p\<close>.\<close>

definition or_default :: "pyval \<Rightarrow> pyval \<Rightarrow> pyval" where
  "or_default self_value v = (if v = VNone then self_value else v)"

text \<open>Wilder's smoothing, \<open>((average * (p - 1)) + x) / p\<close>, shared by RSI and KDJ.\<close>

definition wilder :: "(real \<Rightarrow> real) \<Rightarrow> int \<Rightarrow> real \<Rightarrow> real \<Rightarrow> real" where
  "wilder rnd p average x = rnd (rnd (rnd (average * fint rnd (p - 1)) + x) / fint rnd p)"

section \<open>The specification of a series\<close>

definition prefix_item ::
  "(candle list \<Rightarrow> indicator_result result) \<Rightarrow> candle list \<Rightarrow> nat \<Rightarrow> indicator_result option result"
where
  "prefix_item calc cs i = (case calc (take (Suc i) cs) of
      Inl (InsufficientDataError _ _ _) \<Rightarrow> Ok None
    | Inl e \<Rightarrow> Raise e
    | Inr r \<Rightarrow> Ok (Some r))"

definition prefix_series ::
  "(candle list \<Rightarrow> indicator_result result) \<Rightarrow> candle list \<Rightarrow> indicator_result option list result"
where
  "prefix_series calc cs = traverse (prefix_item calc cs) [0..<length cs]"

text \<open>
  The contract: on the admissible series the one-pass routine computes the specification, and
  on an empty series it has nothing to compute.
\<close>

locale series_indicator =
  fixes calc :: "candle list \<Rightarrow> indicator_result result"
    and series :: "candle list \<Rightarrow> indicator_result option list result"
    and admissible :: "candle \<Rightarrow> bool"
  assumes series_spec: "list_all admissible cs \<Longrightarrow> series cs = prefix_series calc cs"
begin

text \<open>One value per day.\<close>

lemma series_length:
  "list_all admissible cs \<Longrightarrow> series cs = Ok out \<Longrightarrow> length out = length cs"
  by (auto simp: series_spec prefix_series_def dest: traverse_length)

text \<open>The value of a day is the value of the history up to that day.\<close>

lemma series_nth:
  assumes "list_all admissible cs" "series cs = Ok out" "i < length cs"
  shows "prefix_item calc cs i = Ok (out ! i)"
  using assms traverse_nth [of "prefix_item calc cs" "[0..<length cs]" out i]
  by (simp add: series_spec prefix_series_def)

lemma series_nth_Some:
  assumes "list_all admissible cs" "series cs = Ok out" "i < length cs" "out ! i = Some r"
  shows "calc (take (Suc i) cs) = Ok r"
  using series_nth [OF assms(1-3)] assms(4)
  by (simp add: prefix_item_def split: sum.splits exn.splits)

text \<open>The last value of a series is the latest value.\<close>

lemma series_last:
  assumes "list_all admissible cs" "series cs = Ok out" "cs \<noteq> []" "last out = Some r"
  shows "calc cs = Ok r"
proof -
  let ?i = "length cs - 1"
  from assms have "length out = length cs" by (simp add: series_length)
  with assms have "out ! ?i = Some r" by (metis last_conv_nth length_0_conv)
  with assms series_nth_Some [of cs out ?i r] show ?thesis by simp
qed

text \<open>Evaluating every prefix on its own and dropping the failures gives the same series.\<close>

lemma series_pointwise:
  assumes "list_all admissible cs" "series cs = Ok out"
  shows "out = map (\<lambda>i. case calc (take (Suc i) cs) of Inl _ \<Rightarrow> None | Inr r \<Rightarrow> Some r) [0..<length cs]"
proof (rule nth_equalityI)
  show "length out = length (map (\<lambda>i. case calc (take (Suc i) cs) of Inl _ \<Rightarrow> None | Inr r \<Rightarrow> Some r)
      [0..<length cs])"
    using assms by (simp add: series_length)
  fix i assume "i < length out"
  then have i: "i < length cs" using assms by (simp add: series_length)
  from series_nth [OF assms i] show "out ! i =
      map (\<lambda>i. case calc (take (Suc i) cs) of Inl _ \<Rightarrow> None | Inr r \<Rightarrow> Some r) [0..<length cs] ! i"
    using i by (auto simp: prefix_item_def split: sum.splits exn.splits)
qed

lemma series_item_calc:
  assumes "list_all admissible cs" "series cs = Ok out" "Some r \<in> set out"
  shows "\<exists>i. calc (take (Suc i) cs) = Ok r"
  using assms series_length [OF assms(1,2)] series_nth_Some [OF assms(1,2)]
  by (metis in_set_conv_nth)

text \<open>A value never depends on later days.\<close>

lemma series_prefix:
  assumes "list_all admissible (cs @ ds)" "series (cs @ ds) = Ok out"
  shows "series cs = Ok (take (length cs) out)"
proof -
  have split: "[0..<length (cs @ ds)] = [0..<length cs] @ [length cs..<length (cs @ ds)]"
    by (rule upt_split) simp
  have "traverse (prefix_item calc (cs @ ds)) [0..<length (cs @ ds)] = Ok out"
    using assms by (simp add: series_spec prefix_series_def)
  then obtain us vs where us: "traverse (prefix_item calc (cs @ ds)) [0..<length cs] = Ok us"
    and out: "out = us @ vs"
    unfolding split traverse_append by auto
  have "traverse (prefix_item calc cs) [0..<length cs]
      = traverse (prefix_item calc (cs @ ds)) [0..<length cs]"
    by (intro traverse_cong) (auto simp: prefix_item_def)
  moreover have "length us = length cs" using traverse_length [OF us] by simp
  ultimately show ?thesis
    using us out assms(1) by (simp add: series_spec prefix_series_def)
qed

end

section \<open>Building the specification from a loop\<close>

text \<open>
  The one-pass routines of the sources return \<open>None\<close> for the warm-up days and one constructed
  result for each day from the first complete window on.
\<close>

lemma prefix_series_warmup:
  assumes short: "\<And>i. i < w \<Longrightarrow> i < length cs \<Longrightarrow> prefix_item calc cs i = Ok None"
  shows "prefix_series calc cs =
    emap ((@) (replicate (min w (length cs)) None)) (traverse (prefix_item calc cs) [w..<length cs])"
proof -
  have none: "traverse (prefix_item calc cs) [0..<m] = Ok (replicate m None)"
    if "m \<le> w" "m \<le> length cs" for m
  proof -
    have "traverse (prefix_item calc cs) [0..<m] = Ok (map (\<lambda>_. None) [0..<m])"
      using that short by (intro traverse_ok) auto
    then show ?thesis by (simp add: map_replicate_const)
  qed
  show ?thesis
  proof (cases "w \<le> length cs")
    case True
    then have "[0..<length cs] = [0..<w] @ [w..<length cs]"
      by (rule upt_split)
    with True none [of w] show ?thesis
      by (cases "traverse (prefix_item calc cs) [w..<length cs]")
        (simp_all add: prefix_series_def traverse_append min_def)
  next
    case False
    with none [of "length cs"] show ?thesis by (simp add: prefix_series_def min_def)
  qed
qed

lemma last_n_take: "n \<le> i \<Longrightarrow> i \<le> length xs \<Longrightarrow> last_n n (take i xs) = take n (drop (i - n) xs)"
  by (simp add: last_n_def min_absorb2 drop_take)

lemma sum_last_n:
  "sum_list (last_n n xs) = sum_list xs - sum_list (take (length xs - n) xs)"
  for xs :: "real list"
proof -
  have "sum_list xs = sum_list (take (length xs - n) xs) + sum_list (drop (length xs - n) xs)"
    by (metis append_take_drop_id sum_list_append)
  then show ?thesis by (simp add: last_n_def)
qed

text \<open>The running sum of a sliding window: add the new element, drop the one that leaves.\<close>

lemma sum_window_step:
  fixes xs :: "real list"
  assumes "i < length xs" "0 < n"
  shows "sum_list (last_n n (take (Suc i) xs)) =
    sum_list (last_n n (take i xs)) + xs ! i - (if n \<le> i then xs ! (i - n) else 0)"
proof -
  have step: "sum_list (take (Suc j) xs) = sum_list (take j xs) + xs ! j" if "j < length xs" for j
    using that by (simp add: take_Suc_conv_app_nth)
  show ?thesis
  proof (cases "n \<le> i")
    case True
    then have j: "Suc i - n = Suc (i - n)" "i - n < length xs" "min i (Suc (i - n)) = Suc (i - n)"
      using assms by auto
    show ?thesis
      using True assms step [of i] step [of "i - n"] j
      by (simp add: sum_last_n min_absorb1 min_absorb2)
  next
    case False
    then have "Suc i - n = 0" "i - n = 0" by auto
    with False assms step [of i] show ?thesis by (simp add: sum_last_n)
  qed
qed

lemma make_result_sufficient: "make_result rnd r \<noteq> Inl (InsufficientDataError a b c)"
proof
  have pi: "check_period name p \<noteq> Inl (InsufficientDataError a b c)" for name p
    by (simp add: check_period_def positive_int_def)
  have pn: "positive_number rnd name (VFloat (Fin m)) \<noteq> Inl (InsufficientDataError a b c)" for name m
    by (simp add: positive_number_def)
  have cls: "class_post_init rnd r \<noteq> Inl (InsufficientDataError a b c)"
    by (cases r) (auto simp: ebind_eq_Inl_iff pi pn)
  have cv: "check_values vs \<noteq> Inl (InsufficientDataError a b c)" for vs
    unfolding check_values_def by (induction vs) (auto simp: ebind_eq_Inl_iff split: if_splits)
  have tf: "to_float rnd v \<noteq> Inl (InsufficientDataError a b c)" for v
    by (cases "(rnd, v)" rule: to_float.cases) (auto simp: Let_def)
  have cp: "check_parameters rnd ps \<noteq> Inl (InsufficientDataError a b c)" for ps
    unfolding check_parameters_def
    by (induction ps) (auto simp: ebind_eq_Inl_iff Let_def tf dest: finite_or_raise split: if_splits)
  assume "make_result rnd r = Inl (InsufficientDataError a b c)"
  with cls cv cp show False
    by (auto simp: make_result_def base_post_init_def ebind_eq_Inl_iff)
qed

lemma prefix_item_result:
  "calc (take (Suc i) cs) = make_result rnd r \<Longrightarrow>
     prefix_item calc cs i = emap Some (make_result rnd r)"
  using make_result_sufficient [of rnd r]
  by (cases "make_result rnd r") (auto simp: prefix_item_def split: exn.splits)

lemma prefix_item_short:
  "calc (take (Suc i) cs) = Raise (InsufficientDataError a b c) \<Longrightarrow> prefix_item calc cs i = Ok None"
  by (simp add: prefix_item_def)

lemma or_default_VInt [simp]: "or_default d (VInt n) = VInt n"
  by (simp add: or_default_def)

lemma or_default_VNone [simp]: "or_default d VNone = d"
  by (simp add: or_default_def)

section \<open>Smoothing keeps its range\<close>

context float_rounding
begin

lemma wilder_nonneg:
  assumes "0 < p" "0 \<le> a" "0 \<le> x"
  shows "0 \<le> wilder rnd p a x"
proof -
  have p: "0 \<le> fint rnd (p - 1)" "0 \<le> fint rnd p" using assms by (auto intro!: rnd_nonneg)
  with assms have "0 \<le> rnd (a * fint rnd (p - 1)) + x" by (intro add_nonneg_nonneg rnd_nonneg) auto
  then have "0 \<le> rnd (rnd (a * fint rnd (p - 1)) + x)" by (rule rnd_nonneg)
  then have "0 \<le> rnd (rnd (a * fint rnd (p - 1)) + x) / fint rnd p"
    using p(2) by (rule divide_nonneg_nonneg)
  then show ?thesis unfolding wilder_def by (rule rnd_nonneg)
qed

text \<open>Smoothing percentages gives a percentage, for every divisor a float represents with ease.\<close>

lemma wilder_percent:
  assumes p: "0 < p" "100 * p \<le> 2 ^ 53" and a: "0 \<le> a" "a \<le> 100" and x: "0 \<le> x" "x \<le> 100"
  shows "0 \<le> wilder rnd p a x \<and> wilder rnd p a x \<le> 100"
proof
  show "0 \<le> wilder rnd p a x" using p(1) a(1) x(1) by (rule wilder_nonneg)
  have f: "fint rnd (p - 1) = of_int (p - 1)" "fint rnd p = of_int p"
    using p by (intro rnd_of_int; simp)+
  have "a * of_int (p - 1) \<le> of_int (100 * (p - 1))"
    using a p mult_right_mono [of a 100 "of_int (p - 1)"] by simp
  then have "rnd (a * of_int (p - 1)) \<le> of_int (100 * (p - 1))"
    using p by (intro rnd_le_int) auto
  with x have "rnd (a * of_int (p - 1)) + x \<le> of_int (100 * p)" by (simp add: algebra_simps)
  then have "rnd (rnd (a * of_int (p - 1)) + x) \<le> of_int (100 * p)"
    using p by (intro rnd_le_int) auto
  then have "rnd (rnd (a * of_int (p - 1)) + x) / of_int p \<le> of_int 100"
    using p by (simp add: divide_le_eq)
  then have "rnd (rnd (rnd (a * of_int (p - 1)) + x) / of_int p) \<le> of_int 100"
    by (intro rnd_le_int) auto
  then show "wilder rnd p a x \<le> 100" by (simp only: wilder_def f of_int_numeral)
qed

end

end
