(* ===== verification/Moving_Average.thy ===== *)
theory Moving_Average
  imports Series_Contract
begin

text \<open>
  Simple and next-day projected moving averages (\<open>indicators/ma.py\<close>): the latest value, and
  the historical series with its running sum. The running sum performs other roundings than
  \<open>math.fsum\<close>, so the two paths agree as formulas (exact arithmetic), which is what the
  interpretations at the end establish.
\<close>

section \<open>Definitions\<close>

definition calculate_sma :: "(real \<Rightarrow> real) \<Rightarrow> series \<Rightarrow> pyval \<Rightarrow> indicator_result result" where
  "calculate_sma rnd s period =
     ebind (positive_int ''period'' period) (\<lambda>p.
     ebind (normalize_series rnd s) (\<lambda>cs.
     ebind (require_length (length cs) p ''ma'') (\<lambda>_.
       let closes = close_values cs;
           value = rnd (fsum rnd (last_n (nat p) closes) / fint rnd p)
       in make_result rnd (SMAResult value p))))"

definition calculate_projected_ma :: "(real \<Rightarrow> real) \<Rightarrow> series \<Rightarrow> pyval \<Rightarrow> indicator_result result" where
  "calculate_projected_ma rnd s period =
     ebind (positive_int ''period'' period) (\<lambda>p.
     ebind (normalize_series rnd s) (\<lambda>cs.
     ebind (require_length (length cs) p ''projected_ma'') (\<lambda>_.
       let closes = close_values cs;
           projected_close = last closes;
           window = (if p = 1 then [projected_close]
                     else last_n (nat (p - 1)) closes @ [projected_close]);
           value = rnd (fsum rnd window / fint rnd p)
       in make_result rnd (ProjectedMAResult value p projected_close))))"

fun sma_loop :: "(real \<Rightarrow> real) \<Rightarrow> int \<Rightarrow> real list \<Rightarrow> nat \<Rightarrow> real list \<Rightarrow> real \<Rightarrow>
  indicator_result option list result"
where
  "sma_loop rnd p closes index [] running = Ok []"
| "sma_loop rnd p closes index (v # vs) running =
     (let added = rnd (running + v);
          running' = (if p \<le> int index then rnd (added - closes ! (index - nat p)) else added)
      in ebind (if p - 1 \<le> int index
                then emap Some (make_result rnd (SMAResult (rnd (running' / fint rnd p)) p))
                else Ok None)
           (\<lambda>out. emap ((#) out) (sma_loop rnd p closes (Suc index) vs running')))"

definition sma_calculate_series ::
  "(real \<Rightarrow> real) \<Rightarrow> int \<Rightarrow> series \<Rightarrow> pyval \<Rightarrow> indicator_result option list result"
where
  "sma_calculate_series rnd self_period s period =
     ebind (positive_int ''period'' (or_default (VInt self_period) period)) (\<lambda>p.
     ebind (normalize_series rnd s) (\<lambda>cs.
       sma_loop rnd p (close_values cs) 0 (close_values cs) 0))"

definition projected_item :: "(real \<Rightarrow> real) \<Rightarrow> int \<Rightarrow> real list \<Rightarrow> nat \<Rightarrow> indicator_result option result"
where
  "projected_item rnd p closes index =
     (let projected_close = closes ! index;
          value = (if p = 1 then projected_close
            else let lo = index + 2 - nat p;
                     total = rnd (fsum rnd (take (index + 1 - lo) (drop lo closes)) + projected_close)
                 in rnd (total / fint rnd p))
      in emap Some (make_result rnd (ProjectedMAResult value p projected_close)))"

definition projected_ma_calculate_series ::
  "(real \<Rightarrow> real) \<Rightarrow> int \<Rightarrow> series \<Rightarrow> pyval \<Rightarrow> indicator_result option list result"
where
  "projected_ma_calculate_series rnd self_period s period =
     ebind (positive_int ''period'' (or_default (VInt self_period) period)) (\<lambda>p.
     ebind (normalize_series rnd s) (\<lambda>cs.
       let closes = close_values cs; n = length closes; w = nat (p - 1) in
       emap ((@) (replicate (min w n) None)) (traverse (projected_item rnd p closes) [w..<n])))"

definition sma_calculate ::
  "(real \<Rightarrow> real) \<Rightarrow> int \<Rightarrow> series \<Rightarrow> pyval \<Rightarrow> indicator_result result"
where
  "sma_calculate rnd self_period s period = calculate_sma rnd s (or_default (VInt self_period) period)"

definition projected_ma_calculate ::
  "(real \<Rightarrow> real) \<Rightarrow> int \<Rightarrow> series \<Rightarrow> pyval \<Rightarrow> indicator_result result"
where
  "projected_ma_calculate rnd self_period s period =
     calculate_projected_ma rnd s (or_default (VInt self_period) period)"

section \<open>The two paths compute the same formula\<close>

lemma calculate_sma_candles:
  "0 < p \<Longrightarrow> calculate_sma rnd (candles cs) (VInt p) =
    (if int (length cs) < p then Raise (InsufficientDataError p (int (length cs)) ''ma'')
     else make_result rnd (SMAResult (rnd (fsum rnd (last_n (nat p) (close_values cs)) / fint rnd p)) p))"
  by (simp add: calculate_sma_def Let_def)

lemma sma_loop_exact:
  fixes p :: int
  assumes p: "0 < p" and i: "i \<le> length cs"
    and running: "running = sum_list (last_n (nat p) (take i (close_values cs)))"
  shows "sma_loop (\<lambda>x. x) p (close_values cs) i (drop i (close_values cs)) running =
    traverse (prefix_item (\<lambda>ds. calculate_sma (\<lambda>x. x) (candles ds) (VInt p)) cs) [i..<length cs]"
  using i running
proof (induction "length cs - i" arbitrary: i running)
  case 0
  then show ?case by simp
next
  case (Suc n)
  let ?xs = "close_values cs"
  let ?calc = "\<lambda>ds. calculate_sma (\<lambda>x. x) (candles ds) (VInt p)"
  from Suc.hyps(2) have i: "i < length cs" by simp
  then have d: "drop i ?xs = ?xs ! i # drop (Suc i) ?xs" "[i..<length cs] = i # [Suc i..<length cs]"
    by (simp_all add: Cons_nth_drop_Suc upt_conv_Cons del: close_values_simps(3))
  define run where "run = sum_list (last_n (nat p) (take (Suc i) ?xs))"
  have run: "(if p \<le> int i then running + ?xs ! i - ?xs ! (i - nat p) else running + ?xs ! i) = run"
    using sum_window_step [of i ?xs "nat p"] i p Suc.prems(2)
    by (auto simp: run_def nat_le_iff simp del: close_values_simps(3))
  have rest: "sma_loop (\<lambda>x. x) p ?xs (Suc i) (drop (Suc i) ?xs) run =
      traverse (prefix_item ?calc cs) [Suc i..<length cs]"
    using Suc i by (intro Suc.hyps(1)) (auto simp: run_def)
  have item: "prefix_item ?calc cs i = (if p - 1 \<le> int i
      then emap Some (make_result (\<lambda>x. x) (SMAResult (run / of_int p) p)) else Ok None)"
  proof (cases "p - 1 \<le> int i")
    case True
    with p i have "?calc (take (Suc i) cs) = make_result (\<lambda>x. x) (SMAResult (run / of_int p) p)"
      by (simp add: calculate_sma_candles fsum_def run_def)
    with True show ?thesis by (simp add: prefix_item_result)
  next
    case False
    with p i have "?calc (take (Suc i) cs) = Raise (InsufficientDataError p (int (Suc i)) ''ma'')"
      by (simp add: calculate_sma_candles)
    with False show ?thesis by (simp add: prefix_item_short)
  qed
  show ?case unfolding d by (simp add: Let_def run item rest del: close_values_simps(3))
qed

interpretation sma_exact: series_indicator
  "\<lambda>cs. calculate_sma (\<lambda>x. x) (candles cs) (VInt (1 + int p))"
  "\<lambda>cs. sma_calculate_series (\<lambda>x. x) self (candles cs) (VInt (1 + int p))"
  "\<lambda>_. True" for p :: nat and self
proof
  fix cs
  show "sma_calculate_series (\<lambda>x. x) self (candles cs) (VInt (1 + int p)) =
      prefix_series (\<lambda>cs. calculate_sma (\<lambda>x. x) (candles cs) (VInt (1 + int p))) cs"
    using sma_loop_exact [of "1 + int p" 0 cs 0]
    by (simp add: sma_calculate_series_def prefix_series_def last_n_def)
qed

lemma calculate_projected_ma_candles:
  "0 < p \<Longrightarrow> calculate_projected_ma rnd (candles cs) (VInt p) =
    (if int (length cs) < p then Raise (InsufficientDataError p (int (length cs)) ''projected_ma'')
     else let closes = close_values cs; pc = last closes;
              window = (if p = 1 then [pc] else last_n (nat (p - 1)) closes @ [pc])
          in make_result rnd (ProjectedMAResult (rnd (fsum rnd window / fint rnd p)) p pc))"
  by (simp add: calculate_projected_ma_def Let_def)

lemma last_take_nth: "i < length xs \<Longrightarrow> last (take (Suc i) xs) = xs ! i"
  by (simp add: take_Suc_conv_app_nth)

lemma projected_item_exact:
  assumes p: "0 < p" and i: "nat (p - 1) \<le> i" "i < length cs"
  shows "prefix_item (\<lambda>ds. calculate_projected_ma (\<lambda>x. x) (candles ds) (VInt p)) cs i =
    projected_item (\<lambda>x. x) p (close_values cs) i"
proof -
  let ?xs = "close_values cs"
  have len: "\<not> int (min (length cs) (Suc i)) < p" "0 < min (length cs) (Suc i)" using i p by auto
  have pc: "last (take (Suc i) ?xs) = ?xs ! i" using i by (intro last_take_nth) simp
  show ?thesis
  proof (cases "p = 1")
    case True
    then have "calculate_projected_ma (\<lambda>x. x) (candles (take (Suc i) cs)) (VInt p) =
        make_result (\<lambda>x. x) (ProjectedMAResult (?xs ! i) p (?xs ! i))"
      using calculate_projected_ma_candles [OF p, of "\<lambda>x. x" "take (Suc i) cs"] len pc
      by (simp add: fsum_def Let_def del: close_values_simps(3))
    with True show ?thesis
      by (simp add: prefix_item_result projected_item_def Let_def del: close_values_simps(3))
  next
    case False
    let ?lo = "i + 2 - nat p"
    have lo: "Suc i - nat (p - 1) = ?lo" "i + 1 - ?lo = nat (p - 1)" "nat (p - 1) \<le> Suc i"
      using False p i by auto
    have "last_n (nat (p - 1)) (take (Suc i) ?xs) = take (i + 1 - ?lo) (drop ?lo ?xs)"
      using last_n_take [of "nat (p - 1)" "Suc i" ?xs] lo i by simp
    then have "calculate_projected_ma (\<lambda>x. x) (candles (take (Suc i) cs)) (VInt p) =
        make_result (\<lambda>x. x) (ProjectedMAResult
          ((sum_list (take (i + 1 - ?lo) (drop ?lo ?xs)) + ?xs ! i) / of_int p) p (?xs ! i))"
      using calculate_projected_ma_candles [OF p, of "\<lambda>x. x" "take (Suc i) cs"] len pc False
      by (simp add: fsum_def Let_def del: close_values_simps(3))
    with False show ?thesis
      by (simp add: prefix_item_result projected_item_def Let_def fsum_def del: close_values_simps(3))
  qed
qed

interpretation projected_exact: series_indicator
  "\<lambda>cs. calculate_projected_ma (\<lambda>x. x) (candles cs) (VInt (1 + int p))"
  "\<lambda>cs. projected_ma_calculate_series (\<lambda>x. x) self (candles cs) (VInt (1 + int p))"
  "\<lambda>_. True" for p :: nat and self
proof
  fix cs
  let ?p = "1 + int p"
  let ?calc = "\<lambda>cs. calculate_projected_ma (\<lambda>x. x) (candles cs) (VInt ?p)"
  have short: "prefix_item ?calc cs i = Ok None" if "i < p" "i < length cs" for i
    using that by (intro prefix_item_short) (simp add: calculate_projected_ma_candles)
  have "traverse (projected_item (\<lambda>x. x) ?p (close_values cs)) [p..<length cs] =
      traverse (prefix_item ?calc cs) [p..<length cs]"
    by (intro traverse_cong refl) (simp add: projected_item_exact)
  then show "projected_ma_calculate_series (\<lambda>x. x) self (candles cs) (VInt ?p) =
      prefix_series ?calc cs"
    using prefix_series_warmup [of p cs ?calc] short
    by (simp add: projected_ma_calculate_series_def Let_def)
qed

section \<open>Contract of the moving averages\<close>

text \<open>
  The running-sum series of the simple moving average is, as a formula, the average of the
  last \<open>p\<close> closes of every day: each entry is what \<open>calculate_sma\<close> returns on the history up
  to that day, with no value during warm-up.
\<close>

theorem sma_series_latest:
  fixes p :: int
  assumes "0 < p"
  shows "sma_calculate_series (\<lambda>x. x) self (candles cs) (VInt p) =
    prefix_series (\<lambda>ds. calculate_sma (\<lambda>x. x) (candles ds) (VInt p)) cs"
proof -
  obtain n where "p = 1 + int n" using assms by (rule pos_int_cases)
  then show ?thesis using sma_exact.series_spec [of cs self n] by (simp add: list_all_iff)
qed

theorem sma_series_latest_witness:
  "sma_calculate_series (\<lambda>x. x) 5 (candles [day 12 9 10, day 13 8 12]) (VInt 2) =
    prefix_series (\<lambda>ds. calculate_sma (\<lambda>x. x) (candles ds) (VInt 2)) [day 12 9 10, day 13 8 12]"
  by (rule sma_series_latest) simp

text \<open>
  The projected moving average series is, as a formula, the average of the last \<open>p - 1\<close>
  closes and the day's close once more, day by day the value of \<open>calculate_projected_ma\<close>.
\<close>

theorem projected_ma_series_latest:
  fixes p :: int
  assumes "0 < p"
  shows "projected_ma_calculate_series (\<lambda>x. x) self (candles cs) (VInt p) =
    prefix_series (\<lambda>ds. calculate_projected_ma (\<lambda>x. x) (candles ds) (VInt p)) cs"
proof -
  obtain n where "p = 1 + int n" using assms by (rule pos_int_cases)
  then show ?thesis using projected_exact.series_spec [of cs self n] by (simp add: list_all_iff)
qed

theorem projected_ma_series_latest_witness:
  "projected_ma_calculate_series (\<lambda>x. x) 5 (candles [day 12 9 10, day 13 8 12]) (VInt 2) =
    prefix_series (\<lambda>ds. calculate_projected_ma (\<lambda>x. x) (candles ds) (VInt 2)) [day 12 9 10, day 13 8 12]"
  by (rule projected_ma_series_latest) simp

end
