(* ===== verification/Rsi.thy ===== *)
theory Rsi
  imports Series_Contract
begin

text \<open>
  Wilder's Relative Strength Index (\<open>indicators/rsi.py\<close>). The series path performs the same
  float operations in the same order as the latest-value path, so the two agree under every
  rounding; under binary64 the index stays within \<open>[0, 100]\<close>.
\<close>

section \<open>Definitions\<close>

text \<open>\<open>closes[i] - closes[i - 1]\<close> for each consecutive pair.\<close>

definition rsi_changes :: "(real \<Rightarrow> real) \<Rightarrow> real list \<Rightarrow> real list" where
  "rsi_changes rnd closes = map (\<lambda>(previous, current). rnd (current - previous)) (zip closes (tl closes))"

definition rsi_value :: "(real \<Rightarrow> real) \<Rightarrow> real \<Rightarrow> real \<Rightarrow> real" where
  "rsi_value rnd average_gain average_loss =
     (if average_loss = 0 then (if average_gain = 0 then 50 else 100)
      else if average_gain = 0 then 0
      else let relative_strength = rnd (average_gain / average_loss)
           in rnd (100 - rnd (100 / rnd (1 + relative_strength))))"

definition rsi_seed :: "(real \<Rightarrow> real) \<Rightarrow> int \<Rightarrow> real list \<Rightarrow> real \<times> real" where
  "rsi_seed rnd p changes =
     (let initial = take (nat p) changes in
      (rnd (fsum rnd (map (\<lambda>c. max c 0) initial) / fint rnd p),
       rnd (fsum rnd (map (\<lambda>c. max (- c) 0) initial) / fint rnd p)))"

definition rsi_step :: "(real \<Rightarrow> real) \<Rightarrow> int \<Rightarrow> real \<times> real \<Rightarrow> real \<Rightarrow> real \<times> real" where
  "rsi_step rnd p = (\<lambda>(gain, loss) change.
     (wilder rnd p gain (max change 0), wilder rnd p loss (max (- change) 0)))"

definition rsi_result :: "(real \<Rightarrow> real) \<Rightarrow> int \<Rightarrow> real \<times> real \<Rightarrow> indicator_result result" where
  "rsi_result rnd p = (\<lambda>(gain, loss). make_result rnd (RSIResult (rsi_value rnd gain loss) p gain loss))"

definition calculate_rsi :: "(real \<Rightarrow> real) \<Rightarrow> series \<Rightarrow> pyval \<Rightarrow> indicator_result result" where
  "calculate_rsi rnd s period =
     ebind (positive_int ''period'' period) (\<lambda>p.
     ebind (normalize_series rnd s) (\<lambda>cs.
     ebind (require_length (length cs) (p + 1) ''rsi'') (\<lambda>_.
       let changes = rsi_changes rnd (close_values cs) in
       rsi_result rnd p (foldl (rsi_step rnd p) (rsi_seed rnd p changes) (drop (nat p) changes)))))"

fun rsi_loop :: "(real \<Rightarrow> real) \<Rightarrow> int \<Rightarrow> real list \<Rightarrow> nat list \<Rightarrow> real \<times> real \<Rightarrow>
  indicator_result option list result"
where
  "rsi_loop rnd p changes [] averages = Ok []"
| "rsi_loop rnd p changes (index # rest) averages =
     (let averages' = (if p < int index then rsi_step rnd p averages (changes ! (index - 1)) else averages)
      in ebind (rsi_result rnd p averages')
           (\<lambda>r. emap ((#) (Some r)) (rsi_loop rnd p changes rest averages')))"

definition rsi_calculate_series ::
  "(real \<Rightarrow> real) \<Rightarrow> int \<Rightarrow> series \<Rightarrow> pyval \<Rightarrow> indicator_result option list result"
where
  "rsi_calculate_series rnd self_period s period =
     ebind (positive_int ''period'' (or_default (VInt self_period) period)) (\<lambda>p.
     ebind (normalize_series rnd s) (\<lambda>cs.
       let closes = close_values cs; n = length closes in
       if int n < p + 1 then Ok (replicate n None)
       else let changes = rsi_changes rnd closes in
         emap ((@) (replicate (nat p) None))
           (rsi_loop rnd p changes [nat p..<n] (rsi_seed rnd p changes))))"

definition rsi_calculate ::
  "(real \<Rightarrow> real) \<Rightarrow> int \<Rightarrow> series \<Rightarrow> pyval \<Rightarrow> indicator_result result"
where
  "rsi_calculate rnd self_period s period = calculate_rsi rnd s (or_default (VInt self_period) period)"

section \<open>The series path is the latest value of every prefix\<close>

lemma rsi_changes_length [simp]: "length (rsi_changes rnd xs) = length xs - 1"
  by (simp add: rsi_changes_def)

lemma rsi_changes_nth:
  "Suc j < length xs \<Longrightarrow> rsi_changes rnd xs ! j = rnd (xs ! Suc j - xs ! j)"
  by (simp add: rsi_changes_def nth_tl)

lemma rsi_changes_take: "rsi_changes rnd (take (Suc i) xs) = take i (rsi_changes rnd xs)"
proof (rule nth_equalityI)
  fix j
  assume "j < length (rsi_changes rnd (take (Suc i) xs))"
  then have "Suc j < length xs" "j < i" by auto
  then show "rsi_changes rnd (take (Suc i) xs) ! j = take i (rsi_changes rnd xs) ! j"
    by (simp add: rsi_changes_nth)
qed auto

lemma calculate_rsi_candles:
  "0 < p \<Longrightarrow> calculate_rsi rnd (candles cs) (VInt p) =
    (if int (length cs) < p + 1 then Raise (InsufficientDataError (p + 1) (int (length cs)) ''rsi'')
     else let changes = rsi_changes rnd (close_values cs) in
       rsi_result rnd p (foldl (rsi_step rnd p) (rsi_seed rnd p changes) (drop (nat p) changes)))"
  by (simp add: calculate_rsi_def Let_def)

text \<open>The averages after the day \<open>i\<close>.\<close>

definition rsi_averages :: "(real \<Rightarrow> real) \<Rightarrow> int \<Rightarrow> real list \<Rightarrow> nat \<Rightarrow> real \<times> real" where
  "rsi_averages rnd p changes i =
     foldl (rsi_step rnd p) (rsi_seed rnd p changes) (drop (nat p) (take i changes))"

lemma rsi_averages_Suc:
  assumes "nat p \<le> i" "i < length changes"
  shows "rsi_averages rnd p changes (Suc i) =
    rsi_step rnd p (rsi_averages rnd p changes i) (changes ! i)"
  using assms by (simp add: rsi_averages_def take_Suc_conv_app_nth)

lemma rsi_prefix:
  assumes "0 < p" "nat p \<le> i" "i < length cs"
  shows "calculate_rsi rnd (candles (take (Suc i) cs)) (VInt p) =
    rsi_result rnd p (rsi_averages rnd p (rsi_changes rnd (close_values cs)) i)"
proof -
  let ?ch = "rsi_changes rnd (close_values cs)"
  have "rsi_seed rnd p (take i ?ch) = rsi_seed rnd p ?ch"
    using assms by (simp add: rsi_seed_def min_absorb1)
  moreover have "\<not> int (length (take (Suc i) cs)) < p + 1" using assms by auto
  ultimately show ?thesis
    using assms(1)
    by (simp add: calculate_rsi_candles rsi_changes_take rsi_averages_def Let_def del: length_take)
qed

lemma prefix_item_rsi:
  assumes "calc (take (Suc i) cs) = rsi_result rnd p a"
  shows "prefix_item calc cs i = emap Some (rsi_result rnd p a)"
  using assms by (cases a) (simp add: rsi_result_def prefix_item_result)

lemma rsi_loop_spec:
  assumes p: "0 < p" and "nat p \<le> i" "i \<le> length cs"
    and av: "i < length cs \<Longrightarrow>
      (if p < int i then rsi_step rnd p av (rsi_changes rnd (close_values cs) ! (i - 1)) else av) =
      rsi_averages rnd p (rsi_changes rnd (close_values cs)) i"
  shows "rsi_loop rnd p (rsi_changes rnd (close_values cs)) [i..<length cs] av =
    traverse (prefix_item (\<lambda>ds. calculate_rsi rnd (candles ds) (VInt p)) cs) [i..<length cs]"
  using assms(2-)
proof (induction "length cs - i" arbitrary: i av)
  case 0
  then show ?case by simp
next
  case (Suc n)
  let ?ch = "rsi_changes rnd (close_values cs)"
  let ?calc = "\<lambda>ds. calculate_rsi rnd (candles ds) (VInt p)"
  from Suc.hyps(2) have i: "i < length cs" by simp
  then have d: "[i..<length cs] = i # [Suc i..<length cs]" by (simp add: upt_conv_Cons)
  let ?av = "rsi_averages rnd p ?ch i"
  have item: "prefix_item ?calc cs i = emap Some (rsi_result rnd p ?av)"
    using p Suc.prems(1) i by (intro prefix_item_rsi rsi_prefix)
  have rest: "rsi_loop rnd p ?ch [Suc i..<length cs] ?av =
      traverse (prefix_item ?calc cs) [Suc i..<length cs]"
  proof (rule Suc.hyps(1))
    assume "Suc i < length cs"
    then show "(if p < int (Suc i) then rsi_step rnd p ?av (?ch ! (Suc i - 1)) else ?av) =
        rsi_averages rnd p ?ch (Suc i)"
      using Suc.prems(1) rsi_averages_Suc [of p i ?ch rnd] by auto
  qed (use Suc i in auto)
  show ?case
    unfolding d using Suc.prems(3) [OF i]
    by (cases "rsi_result rnd p ?av") (simp_all add: Let_def item rest)
qed

interpretation rsi_contract: series_indicator
  "\<lambda>cs. calculate_rsi rnd (candles cs) (VInt (1 + int p))"
  "\<lambda>cs. rsi_calculate_series rnd self (candles cs) (VInt (1 + int p))"
  "\<lambda>_. True" for rnd and p :: nat and self
proof
  fix cs
  let ?p = "1 + int p"
  let ?calc = "\<lambda>cs. calculate_rsi rnd (candles cs) (VInt ?p)"
  let ?ch = "rsi_changes rnd (close_values cs)"
  have short: "prefix_item ?calc cs i = Ok None" if "i < Suc p" "i < length cs" for i
    using that by (intro prefix_item_short) (simp add: calculate_rsi_candles)
  show "rsi_calculate_series rnd self (candles cs) (VInt ?p) = prefix_series ?calc cs"
  proof (cases "Suc p < length cs")
    case True
    have "rsi_loop rnd ?p ?ch [Suc p..<length cs] (rsi_seed rnd ?p ?ch) =
        traverse (prefix_item ?calc cs) [Suc p..<length cs]"
      using True by (intro rsi_loop_spec) (auto simp: rsi_averages_def nat_add_distrib)
    with True show ?thesis
      using prefix_series_warmup [of "Suc p" cs ?calc] short
      by (simp add: rsi_calculate_series_def Let_def nat_add_distrib min_absorb1)
  next
    case False
    with prefix_series_warmup [of "length cs" cs ?calc] short show ?thesis
      by (simp add: rsi_calculate_series_def)
  qed
qed

section \<open>The index is a percentage\<close>

context float_rounding
begin

lemma rsi_value_bounds:
  assumes "0 \<le> g" "0 \<le> l"
  shows "0 \<le> rsi_value rnd g l \<and> rsi_value rnd g l \<le> 100"
proof -
  let ?s = "rnd (1 + rnd (g / l))"
  have "0 \<le> rnd (g / l)" using assms by (intro rnd_nonneg) simp
  then have s: "1 \<le> ?s" using rnd_ge_int [of 1 "1 + rnd (g / l)"] by simp
  then have "0 \<le> 100 / ?s" "100 / ?s \<le> 100" by (simp_all add: divide_le_eq)
  then have q: "0 \<le> rnd (100 / ?s)" "rnd (100 / ?s) \<le> 100"
    using rnd_nonneg [of "100 / ?s"] rnd_le_int [of 100 "100 / ?s"] by simp_all
  then have "0 \<le> rnd (100 - rnd (100 / ?s))" "rnd (100 - rnd (100 / ?s)) \<le> 100"
    using rnd_nonneg [of "100 - rnd (100 / ?s)"] rnd_le_int [of 100 "100 - rnd (100 / ?s)"] by simp_all
  then show ?thesis by (simp add: rsi_value_def Let_def)
qed

lemma rsi_seed_nonneg:
  assumes "0 < p"
  shows "0 \<le> fst (rsi_seed rnd p ch)" "0 \<le> snd (rsi_seed rnd p ch)"
proof -
  have "0 \<le> fint rnd p" using assms by (auto intro!: rnd_nonneg)
  moreover have "0 \<le> sum_list (map (\<lambda>c. max c 0) xs)" "0 \<le> sum_list (map (\<lambda>c. max (- c) 0) xs)"
    for xs :: "real list" by (auto intro!: sum_list_nonneg)
  ultimately show "0 \<le> fst (rsi_seed rnd p ch)" "0 \<le> snd (rsi_seed rnd p ch)"
    by (auto simp: rsi_seed_def Let_def fsum_def intro!: rnd_nonneg divide_nonneg_nonneg)
qed

lemma rsi_foldl_nonneg:
  "0 < p \<Longrightarrow> 0 \<le> fst a \<Longrightarrow> 0 \<le> snd a \<Longrightarrow>
     0 \<le> fst (foldl (rsi_step rnd p) a cs) \<and> 0 \<le> snd (foldl (rsi_step rnd p) a cs)"
  by (induction cs arbitrary: a) (auto simp: rsi_step_def wilder_nonneg split: prod.splits)

lemma calculate_rsi_shape:
  assumes "calculate_rsi rnd s v = Ok r"
  obtains p g l where "r = RSIResult (rsi_value rnd g l) p g l" "0 \<le> g" "0 \<le> l" "0 < p" "v = VInt p"
proof -
  from assms obtain p cs where p: "0 < p" "v = VInt p"
    and res: "rsi_result rnd p (foldl (rsi_step rnd p)
        (rsi_seed rnd p (rsi_changes rnd (close_values cs)))
        (drop (nat p) (rsi_changes rnd (close_values cs)))) = Ok r"
    by (auto simp: calculate_rsi_def positive_int_ok Let_def)
  define a where "a = foldl (rsi_step rnd p)
        (rsi_seed rnd p (rsi_changes rnd (close_values cs)))
        (drop (nat p) (rsi_changes rnd (close_values cs)))"
  have "0 \<le> fst a \<and> 0 \<le> snd a"
    unfolding a_def using p by (intro rsi_foldl_nonneg rsi_seed_nonneg)
  moreover have "r = RSIResult (rsi_value rnd (fst a) (snd a)) p (fst a) (snd a)"
    using res unfolding a_def [symmetric] by (auto simp: rsi_result_def split_beta dest: make_result_eq)
  ultimately show thesis using that p by blast
qed

end

section \<open>Contract of the RSI indicator\<close>

text \<open>
  The one-pass RSI series equals, under every rounding of the arithmetic, the sequence of
  latest values of the growing history.
\<close>

theorem rsi_series_latest:
  assumes "0 < p"
  shows "rsi_calculate_series rnd self (candles cs) (VInt p) =
    prefix_series (\<lambda>ds. calculate_rsi rnd (candles ds) (VInt p)) cs"
proof -
  obtain n where "p = 1 + int n" using assms by (rule pos_int_cases)
  then show ?thesis using rsi_contract.series_spec [of cs rnd self n] by (simp add: list_all_iff)
qed

theorem rsi_series_latest_witness:
  "rsi_calculate_series rnd64 14 (candles [day 12 9 10, day 13 8 12]) (VInt 1) =
    prefix_series (\<lambda>ds. calculate_rsi rnd64 (candles ds) (VInt 1)) [day 12 9 10, day 13 8 12]"
  by (rule rsi_series_latest) simp

text \<open>
  In double-precision arithmetic every calculated RSI lies in \<open>[0, 100]\<close>, and its average
  gain and loss are not negative; a series without losses has RSI 100, or 50 when it does not
  move at all.
\<close>

theorem rsi_percentage:
  assumes "calculate_rsi rnd64 s v = Ok r"
  shows "\<exists>x p g l. r = RSIResult x p g l \<and> 0 \<le> x \<and> x \<le> 100 \<and> 0 \<le> g \<and> 0 \<le> l \<and>
    (l = 0 \<longrightarrow> x = (if g = 0 then 50 else 100))"
proof -
  obtain p g l where "r = RSIResult (rsi_value rnd64 g l) p g l" "0 \<le> g" "0 \<le> l"
    using b64.calculate_rsi_shape [OF assms] by metis
  with b64.rsi_value_bounds [of g l] show ?thesis by (auto simp: rsi_value_def)
qed

theorem rsi_percentage_witness:
  "\<exists>x p g l. RSIResult 100 1 2 0 = RSIResult x p g l \<and> 0 \<le> x \<and> x \<le> 100 \<and> 0 \<le> g \<and> 0 \<le> l \<and>
    (l = 0 \<longrightarrow> x = (if g = 0 then 50 else 100))"
proof -
  have "calculate_rsi rnd64 (candles [day 12 9 10, day 13 8 12]) (VInt 1) = Ok (RSIResult 100 1 2 0)"
    by (simp add: calculate_rsi_def close_values_def rsi_changes_def rsi_seed_def rsi_result_def
        rsi_value_def fsum_def make_result_def base_post_init_def check_values_def
        check_parameters_def Let_def normalize_series_def)
  then show ?thesis by (rule rsi_percentage)
qed

end
