(* ===== verification/Kdj.thy ===== *)
theory Kdj
  imports Series_Contract
begin

text \<open>
  The KDJ oscillator (\<open>indicators/kdj.py\<close>). The latest-value path takes the highest high and
  lowest low of every window afresh; the series path keeps them with two monotone deques of
  indices. The locale \<open>sliding_extremum\<close> states what a deque's comparison must satisfy and
  proves that its head is the extremum of the window; it is interpreted for highs and for
  lows. The two paths then agree under every rounding, and under binary64 RSV, K and D are
  percentages.
\<close>

section \<open>Definitions\<close>

definition high_at :: "candle list \<Rightarrow> nat \<Rightarrow> real" where
  "high_at cs j = the (c_high (cs ! j))"

definition low_at :: "candle list \<Rightarrow> nat \<Rightarrow> real" where
  "low_at cs j = the (c_low (cs ! j))"

definition kdj_rsv :: "(real \<Rightarrow> real) \<Rightarrow> real \<Rightarrow> real \<Rightarrow> real \<Rightarrow> real" where
  "kdj_rsv rnd close highest lowest =
     (let spread = rnd (highest - lowest) in
      if spread = 0 then 50 else rnd (rnd (rnd (close - lowest) / spread) * 100))"

definition kdj_result ::
  "(real \<Rightarrow> real) \<Rightarrow> int \<Rightarrow> int \<Rightarrow> int \<Rightarrow> real \<times> real \<times> real \<Rightarrow> indicator_result result"
where
  "kdj_result rnd p kp dp = (\<lambda>(rsv, k, d).
     make_result rnd (KDJResult rsv k d (rnd (rnd (3 * k) - rnd (2 * d))) p kp dp))"

definition kdj_smooth ::
  "(real \<Rightarrow> real) \<Rightarrow> int \<Rightarrow> int \<Rightarrow> real \<Rightarrow> real \<times> real \<Rightarrow> real \<times> real \<times> real"
where
  "kdj_smooth rnd kp dp rsv = (\<lambda>(k, d). let k' = wilder rnd kp k rsv in (rsv, k', wilder rnd dp d k'))"

definition kdj_step ::
  "(real \<Rightarrow> real) \<Rightarrow> int \<Rightarrow> int \<Rightarrow> int \<Rightarrow> candle list \<Rightarrow> real \<times> real \<times> real \<Rightarrow> nat \<Rightarrow> real \<times> real \<times> real"
where
  "kdj_step rnd p kp dp cs = (\<lambda>(_, k, d) index.
     let window = take (nat p) (drop (index + 1 - nat p) cs);
         highest = Max (set (map (the \<circ> c_high) window));
         lowest = Min (set (map (the \<circ> c_low) window))
     in kdj_smooth rnd kp dp (kdj_rsv rnd (c_close (cs ! index)) highest lowest) (k, d))"

definition calculate_kdj ::
  "(real \<Rightarrow> real) \<Rightarrow> series \<Rightarrow> pyval \<Rightarrow> pyval \<Rightarrow> pyval \<Rightarrow> indicator_result result"
where
  "calculate_kdj rnd s period k_period d_period =
     ebind (positive_int ''period'' period) (\<lambda>p.
     ebind (positive_int ''k_period'' k_period) (\<lambda>kp.
     ebind (positive_int ''d_period'' d_period) (\<lambda>dp.
     ebind (normalize_series rnd s) (\<lambda>cs.
     ebind (require_length (length cs) p ''kdj'') (\<lambda>_.
     ebind (require_ohlc cs) (\<lambda>_.
       kdj_result rnd p kp dp
         (foldl (kdj_step rnd p kp dp cs) (50, 50, 50) [nat (p - 1)..<length cs])))))))"

text \<open>
  A deque of indices, newest at the back: \<open>push_index\<close> pops from the back while the
  comparison says the new value supersedes the old one, then appends; \<open>expire\<close> pops from the
  front the indices before the cutoff.
\<close>

definition push_index :: "(real \<Rightarrow> real \<Rightarrow> bool) \<Rightarrow> (nat \<Rightarrow> real) \<Rightarrow> nat list \<Rightarrow> nat \<Rightarrow> nat list" where
  "push_index pops vals q i = rev (dropWhile (\<lambda>j. pops (vals j) (vals i)) (rev q)) @ [i]"

definition expire :: "int \<Rightarrow> nat list \<Rightarrow> nat list" where
  "expire cutoff q = dropWhile (\<lambda>j. int j < cutoff) q"

fun kdj_loop :: "(real \<Rightarrow> real) \<Rightarrow> int \<Rightarrow> int \<Rightarrow> int \<Rightarrow> candle list \<Rightarrow> nat list \<Rightarrow>
  nat list \<Rightarrow> nat list \<Rightarrow> real \<times> real \<Rightarrow> indicator_result option list result"
where
  "kdj_loop rnd p kp dp cs [] highs lows kd = Ok []"
| "kdj_loop rnd p kp dp cs (index # rest) highs lows kd =
     (let cutoff = int index - p + 1;
          highs' = expire cutoff (push_index (\<le>) (high_at cs) highs index);
          lows' = expire cutoff (push_index (\<ge>) (low_at cs) lows index)
      in if int index < p - 1
         then emap ((#) None) (kdj_loop rnd p kp dp cs rest highs' lows' kd)
         else let highest = high_at cs (hd highs');
                  lowest = low_at cs (hd lows');
                  new = kdj_smooth rnd kp dp (kdj_rsv rnd (c_close (cs ! index)) highest lowest) kd
              in ebind (kdj_result rnd p kp dp new)
                   (\<lambda>r. emap ((#) (Some r)) (kdj_loop rnd p kp dp cs rest highs' lows' (snd new))))"

definition kdj_calculate_series ::
  "(real \<Rightarrow> real) \<Rightarrow> int \<times> int \<times> int \<Rightarrow> series \<Rightarrow> pyval \<Rightarrow> pyval \<Rightarrow> pyval \<Rightarrow>
     indicator_result option list result"
where
  "kdj_calculate_series rnd self s period k_period d_period =
     (case self of (self_p, self_kp, self_dp) \<Rightarrow>
     ebind (positive_int ''period'' (or_default (VInt self_p) period)) (\<lambda>p.
     ebind (positive_int ''k_period'' (or_default (VInt self_kp) k_period)) (\<lambda>kp.
     ebind (positive_int ''d_period'' (or_default (VInt self_dp) d_period)) (\<lambda>dp.
     ebind (normalize_series rnd s) (\<lambda>cs.
     ebind (require_ohlc cs) (\<lambda>_.
       kdj_loop rnd p kp dp cs [0..<length cs] [] [] (50, 50)))))))"

definition kdj_calculate ::
  "(real \<Rightarrow> real) \<Rightarrow> int \<times> int \<times> int \<Rightarrow> series \<Rightarrow> pyval \<Rightarrow> pyval \<Rightarrow> pyval \<Rightarrow> indicator_result result"
where
  "kdj_calculate rnd self s period k_period d_period =
     (case self of (self_p, self_kp, self_dp) \<Rightarrow>
       calculate_kdj rnd s (or_default (VInt self_p) period)
         (or_default (VInt self_kp) k_period) (or_default (VInt self_dp) d_period))"

section \<open>Sliding extrema\<close>

locale sliding_extremum =
  fixes pops :: "real \<Rightarrow> real \<Rightarrow> bool"
  assumes pops_total: "pops a b \<or> pops b a"
    and pops_trans: "pops a b \<Longrightarrow> pops b c \<Longrightarrow> pops a c"
begin

text \<open>
  The deque describes the indices from \<open>lo\<close> up to \<open>n\<close> (exclusive): its indices increase, its
  values strictly get worse, and every index of the range is superseded by one of the deque.
\<close>

definition covers :: "(nat \<Rightarrow> real) \<Rightarrow> nat \<Rightarrow> nat \<Rightarrow> nat list \<Rightarrow> bool" where
  "covers vals lo n q \<longleftrightarrow>
     sorted_wrt (<) q \<and> (\<forall>j \<in> set q. lo \<le> j \<and> j < n) \<and>
     sorted_wrt (\<lambda>i j. \<not> pops (vals i) (vals j)) q \<and>
     (\<forall>m. lo \<le> m \<and> m < n \<longrightarrow> (\<exists>j \<in> set q. m \<le> j \<and> pops (vals m) (vals j)))"

lemma pops_refl: "pops a a"
  using pops_total by blast

lemma covers_empty: "covers vals 0 0 []"
  by (simp add: covers_def)

lemma kept_prefix:
  "\<exists>dropped. q = rev (dropWhile P (rev q)) @ dropped \<and> (\<forall>j \<in> set dropped. P j)"
proof -
  have "q = rev (dropWhile P (rev q)) @ rev (takeWhile P (rev q))"
    by (metis rev_append rev_rev_ident takeWhile_dropWhile_id)
  moreover have "\<forall>j \<in> set (rev (takeWhile P (rev q))). P j" by (auto dest: set_takeWhileD)
  ultimately show ?thesis by blast
qed

lemma kept_last: "rev (dropWhile P (rev q)) \<noteq> [] \<Longrightarrow> \<not> P (last (rev (dropWhile P (rev q))))"
  by (metis hd_dropWhile last_rev rev_is_Nil_conv)

lemma covers_snoc:
  assumes "sorted_wrt (<) k" "sorted_wrt (\<lambda>i j. \<not> pops (vals i) (vals j)) k" "lo \<le> n"
    and "\<forall>j \<in> set k. lo \<le> j \<and> j < n" "\<forall>j \<in> set k. \<not> pops (vals j) (vals n)"
    and "\<forall>m. lo \<le> m \<and> m < Suc n \<longrightarrow> (\<exists>j \<in> set (k @ [n]). m \<le> j \<and> pops (vals m) (vals j))"
  shows "covers vals lo (Suc n) (k @ [n])"
proof -
  have "sorted_wrt (<) (k @ [n])" "sorted_wrt (\<lambda>i j. \<not> pops (vals i) (vals j)) (k @ [n])"
    "\<forall>j \<in> set (k @ [n]). lo \<le> j \<and> j < Suc n"
    using assms(1-5) by (auto simp: sorted_wrt_append)
  then show ?thesis using assms(6) unfolding covers_def by blast
qed

lemma covers_push:
  assumes cov: "covers vals lo n q" and "lo \<le> n"
  shows "covers vals lo (Suc n) (push_index pops vals q n)"
proof -
  let ?P = "\<lambda>j. pops (vals j) (vals n)"
  let ?k = "rev (dropWhile ?P (rev q))"
  obtain dropped where q: "q = ?k @ dropped" and dropped: "\<forall>j \<in> set dropped. ?P j"
    using kept_prefix [of q ?P] by blast
  from cov q have s: "sorted_wrt (<) ?k" "sorted_wrt (\<lambda>i j. \<not> pops (vals i) (vals j)) ?k"
    "\<forall>j \<in> set ?k. lo \<le> j \<and> j < n"
    unfolding covers_def by (metis sorted_wrt_append, metis sorted_wrt_append, metis Un_iff set_append)
  have "\<not> pops (vals j) (vals n)" if "j \<in> set ?k" for j
  proof -
    from that have ne: "?k \<noteq> []" by (metis empty_iff empty_set)
    then have l: "\<not> ?P (last ?k)" by (rule kept_last)
    have "j = last ?k \<or> \<not> pops (vals j) (vals (last ?k))"
      using s(2) that by (rule sorted_wrt_last)
    with l show ?thesis by (metis pops_total pops_trans)
  qed
  then have better: "\<forall>j \<in> set ?k. \<not> pops (vals j) (vals n)" by blast
  have "\<exists>j \<in> set (?k @ [n]). m \<le> j \<and> pops (vals m) (vals j)" if "lo \<le> m" "m < Suc n" for m
  proof (cases "m = n")
    case True
    then show ?thesis by (auto intro: pops_refl)
  next
    case False
    with that cov obtain j where j: "j \<in> set q" "m \<le> j" "pops (vals m) (vals j)"
      unfolding covers_def by (metis less_Suc_eq)
    show ?thesis
    proof (cases "j \<in> set ?k")
      case True
      with j show ?thesis by auto
    next
      case False
      with j(1) q have "j \<in> set dropped" by (metis Un_iff set_append)
      with dropped j(3) have "pops (vals m) (vals n)" by (blast intro: pops_trans)
      with that show ?thesis by auto
    qed
  qed
  then have "\<forall>m. lo \<le> m \<and> m < Suc n \<longrightarrow>
      (\<exists>j \<in> set (?k @ [n]). m \<le> j \<and> pops (vals m) (vals j))" by blast
  then show ?thesis
    unfolding push_index_def by (rule covers_snoc [OF s(1,2) \<open>lo \<le> n\<close> s(3) better])
qed

lemma covers_expire:
  assumes cov: "covers vals lo n q" and "lo \<le> nat cutoff"
  shows "covers vals (nat cutoff) n (expire cutoff q)"
proof -
  let ?P = "\<lambda>j. int j < cutoff"
  let ?t = "takeWhile ?P q" and ?d = "dropWhile ?P q"
  have q: "q = ?t @ ?d" by simp
  from cov q have s: "sorted_wrt (<) ?d" "sorted_wrt (\<lambda>i j. \<not> pops (vals i) (vals j)) ?d"
    unfolding covers_def by (metis sorted_wrt_append)+
  have ge: "nat cutoff \<le> j" if "j \<in> set ?d" for j
  proof -
    from that have ne: "?d \<noteq> []" by (metis empty_iff empty_set)
    then have "\<not> ?P (hd ?d)" by (rule hd_dropWhile)
    moreover have "hd ?d \<le> j" using sorted_wrt_hd [OF s(1) that] by auto
    ultimately show ?thesis by linarith
  qed
  have "\<exists>j \<in> set ?d. m \<le> j \<and> pops (vals m) (vals j)" if "nat cutoff \<le> m" "m < n" for m
  proof -
    from that \<open>lo \<le> nat cutoff\<close> have "lo \<le> m" by linarith
    with cov that obtain j where j: "j \<in> set q" "m \<le> j" "pops (vals m) (vals j)"
      unfolding covers_def by blast
    have "j \<notin> set ?t" using j(2) that by (auto dest!: set_takeWhileD)
    with j show ?thesis using q by (metis Un_iff set_append)
  qed
  moreover have "\<forall>j \<in> set ?d. nat cutoff \<le> j \<and> j < n"
    using ge cov set_dropWhileD unfolding covers_def by fast
  ultimately show ?thesis using s unfolding covers_def expire_def by blast
qed

text \<open>The head of the deque is an index of the window, and none is better.\<close>

lemma covers_hd:
  assumes cov: "covers vals lo n q" and "lo < n"
  shows "lo \<le> hd q" "hd q < n" "lo \<le> m \<Longrightarrow> m < n \<Longrightarrow> pops (vals m) (vals (hd q))"
proof -
  from assms have ne: "q \<noteq> []" unfolding covers_def by fastforce
  then show "lo \<le> hd q" "hd q < n" using cov unfolding covers_def by auto
  assume m: "lo \<le> m" "m < n"
  with cov obtain j where j: "j \<in> set q" "pops (vals m) (vals j)" unfolding covers_def by blast
  have "j = hd q \<or> \<not> pops (vals (hd q)) (vals j)"
    using cov j(1) unfolding covers_def by (blast dest: sorted_wrt_hd)
  with j(2) show "pops (vals m) (vals (hd q))" by (metis pops_total pops_trans)
qed

end

interpretation hi: sliding_extremum "(\<le>)"
  by unfold_locales auto

interpretation lo: sliding_extremum "(\<ge>)"
  by unfold_locales auto

text \<open>Pushing the next index and expiring the old ones slides the window by one.\<close>

lemmas hi_slide = hi.covers_expire [OF hi.covers_push]
lemmas lo_slide = lo.covers_expire [OF lo.covers_push]

section \<open>The two paths agree under every rounding\<close>

definition has_range :: "candle \<Rightarrow> bool" where
  "has_range c \<longleftrightarrow> c_high c \<noteq> None \<and> c_low c \<noteq> None"

lemma set_window:
  "k + n \<le> length xs \<Longrightarrow> set (map f (take n (drop k xs))) = (\<lambda>j. f (xs ! j)) ` {k..<k + n}"
proof -
  assume "k + n \<le> length xs"
  then have "take n (drop k xs) = map ((!) xs) [k..<k + n]" by (intro nth_equalityI) auto
  then show ?thesis by (simp add: image_image)
qed

lemma window_highest:
  assumes cov: "hi.covers (high_at cs) lo (Suc i) q" and "lo \<le> i" "i < length cs"
  shows "high_at cs (hd q) = Max (set (map (the \<circ> c_high) (take (Suc i - lo) (drop lo cs))))"
proof (rule Max_eqI [symmetric])
  have w: "set (map (the \<circ> c_high) (take (Suc i - lo) (drop lo cs))) = high_at cs ` {lo..<Suc i}"
    using assms by (subst set_window) (auto simp: high_at_def)
  note h = hi.covers_hd [OF cov]
  show "finite (set (map (the \<circ> c_high) (take (Suc i - lo) (drop lo cs))))" by simp
  show "high_at cs (hd q) \<in> set (map (the \<circ> c_high) (take (Suc i - lo) (drop lo cs)))"
    unfolding w using h(1,2) assms by auto
  show "y \<le> high_at cs (hd q)"
    if "y \<in> set (map (the \<circ> c_high) (take (Suc i - lo) (drop lo cs)))" for y
    using that h(3) assms unfolding w by auto
qed

lemma window_lowest:
  assumes cov: "lo.covers (low_at cs) lo (Suc i) q" and "lo \<le> i" "i < length cs"
  shows "low_at cs (hd q) = Min (set (map (the \<circ> c_low) (take (Suc i - lo) (drop lo cs))))"
proof (rule Min_eqI [symmetric])
  have w: "set (map (the \<circ> c_low) (take (Suc i - lo) (drop lo cs))) = low_at cs ` {lo..<Suc i}"
    using assms by (subst set_window) (auto simp: low_at_def)
  note h = lo.covers_hd [OF cov]
  show "finite (set (map (the \<circ> c_low) (take (Suc i - lo) (drop lo cs))))" by simp
  show "low_at cs (hd q) \<in> set (map (the \<circ> c_low) (take (Suc i - lo) (drop lo cs)))"
    unfolding w using h(1,2) assms by auto
  show "low_at cs (hd q) \<le> y"
    if "y \<in> set (map (the \<circ> c_low) (take (Suc i - lo) (drop lo cs)))" for y
    using that h(3) assms unfolding w by auto
qed

text \<open>The smoothed state after the days before \<open>n\<close>.\<close>

definition kdj_state ::
  "(real \<Rightarrow> real) \<Rightarrow> int \<Rightarrow> int \<Rightarrow> int \<Rightarrow> candle list \<Rightarrow> nat \<Rightarrow> real \<times> real \<times> real"
where
  "kdj_state rnd p kp dp cs n = foldl (kdj_step rnd p kp dp cs) (50, 50, 50) [nat (p - 1)..<n]"

lemma kdj_step_take:
  "j < n \<Longrightarrow> 0 < p \<Longrightarrow> nat (p - 1) \<le> j \<Longrightarrow> kdj_step rnd p kp dp (take n cs) a j = kdj_step rnd p kp dp cs a j"
proof -
  assume j: "j < n" "0 < p" "nat (p - 1) \<le> j"
  then have "take (nat p) (drop (j + 1 - nat p) (take n cs)) = take (nat p) (drop (j + 1 - nat p) cs)"
    by (simp add: drop_take min_absorb1)
  with j show ?thesis unfolding kdj_step_def split_beta Let_def by (simp only: nth_take)
qed

lemma kdj_state_take:
  "m \<le> n \<Longrightarrow> 0 < p \<Longrightarrow> kdj_state rnd p kp dp (take n cs) m = kdj_state rnd p kp dp cs m"
  unfolding kdj_state_def by (rule foldl_cong) (auto simp: kdj_step_take)

lemma kdj_state_Suc:
  "nat (p - 1) \<le> n \<Longrightarrow>
     kdj_state rnd p kp dp cs (Suc n) = kdj_step rnd p kp dp cs (kdj_state rnd p kp dp cs n) n"
  by (simp add: kdj_state_def)

lemma require_ohlc_has_range: "list_all has_range cs \<Longrightarrow> require_ohlc cs = Ok ()"
  by (simp add: require_ohlc_ok has_range_def [abs_def])

lemma calculate_kdj_candles:
  assumes "0 < p" "0 < kp" "0 < dp" "list_all has_range cs"
  shows "calculate_kdj rnd (candles cs) (VInt p) (VInt kp) (VInt dp) =
    (if int (length cs) < p then Raise (InsufficientDataError p (int (length cs)) ''kdj'')
     else kdj_result rnd p kp dp (kdj_state rnd p kp dp cs (length cs)))"
  using assms by (simp add: calculate_kdj_def require_ohlc_has_range kdj_state_def)

lemma kdj_prefix_item:
  assumes "0 < p" "0 < kp" "0 < dp" "list_all has_range cs" "i < length cs"
  shows "prefix_item (\<lambda>ds. calculate_kdj rnd (candles ds) (VInt p) (VInt kp) (VInt dp)) cs i =
    (if int i < p - 1 then Ok None
     else emap Some (kdj_result rnd p kp dp (kdj_state rnd p kp dp cs (Suc i))))"
proof -
  have t: "list_all has_range (take (Suc i) cs)" "length (take (Suc i) cs) = Suc i"
    using assms by (auto simp: list_all_iff dest: in_set_takeD)
  obtain rsv k d where st: "kdj_state rnd p kp dp cs (Suc i) = (rsv, k, d)" by (metis prod_cases3)
  note c = calculate_kdj_candles [OF assms(1-3) t(1), unfolded t(2), of rnd]
  show ?thesis
  proof (cases "int i < p - 1")
    case True
    with c show ?thesis by (simp add: prefix_item_short)
  next
    case False
    with c assms(1) show ?thesis
      by (simp add: kdj_state_take st kdj_result_def prefix_item_result)
  qed
qed

lemma kdj_loop_step:
  assumes p: "0 < p" and i: "i < length cs" "p - 1 \<le> int i"
    and h: "hi.covers (high_at cs) (nat (int i - p + 1)) (Suc i) highs"
    and l: "lo.covers (low_at cs) (nat (int i - p + 1)) (Suc i) lows"
  shows "kdj_smooth rnd kp dp (kdj_rsv rnd (c_close (cs ! i)) (high_at cs (hd highs)) (low_at cs (hd lows)))
      (snd (kdj_state rnd p kp dp cs i)) = kdj_state rnd p kp dp cs (Suc i)"
proof -
  have w: "nat (int i - p + 1) = i + 1 - nat p" "Suc i - (i + 1 - nat p) = nat p" "i + 1 - nat p \<le> i"
    using p i by auto
  have "nat (p - 1) \<le> i" using i p by auto
  moreover obtain rsv k d where "kdj_state rnd p kp dp cs i = (rsv, k, d)" by (metis prod_cases3)
  ultimately show ?thesis
    using window_highest [OF h [unfolded w(1)] w(3) i(1)] window_lowest [OF l [unfolded w(1)] w(3) i(1)]
    unfolding w(2) by (simp add: kdj_state_Suc kdj_step_def Let_def del: set_map)
qed

lemma kdj_loop_spec:
  assumes pos: "0 < p" "0 < kp" "0 < dp" and range: "list_all has_range cs"
    and "i \<le> length cs"
    and "hi.covers (high_at cs) (nat (int i - p)) i highs"
    and "lo.covers (low_at cs) (nat (int i - p)) i lows"
  shows "kdj_loop rnd p kp dp cs [i..<length cs] highs lows (snd (kdj_state rnd p kp dp cs i)) =
    traverse (prefix_item (\<lambda>ds. calculate_kdj rnd (candles ds) (VInt p) (VInt kp) (VInt dp)) cs)
      [i..<length cs]"
  using assms(5-7)
proof (induction "length cs - i" arbitrary: i highs lows)
  case 0
  then show ?case by simp
next
  case (Suc n)
  let ?st = "kdj_state rnd p kp dp cs"
  let ?c = "int i - p + 1"
  define highs' where "highs' = expire ?c (push_index (\<le>) (high_at cs) highs i)"
  define lows' where "lows' = expire ?c (push_index (\<ge>) (low_at cs) lows i)"
  from Suc.hyps(2) have i: "i < length cs" by simp
  then have up: "[i..<length cs] = i # [Suc i..<length cs]" by (simp add: upt_conv_Cons)
  have le: "nat (int i - p) \<le> i" "nat (int i - p) \<le> nat ?c" using pos(1) by auto
  have h: "hi.covers (high_at cs) (nat ?c) (Suc i) highs'"
    unfolding highs'_def using Suc.prems(2) le by (intro hi_slide) auto
  have l: "lo.covers (low_at cs) (nat ?c) (Suc i) lows'"
    unfolding lows'_def using Suc.prems(3) le by (intro lo_slide) auto
  have c: "nat (int (Suc i) - p) = nat ?c" by simp
  have rest: "kdj_loop rnd p kp dp cs [Suc i..<length cs] highs' lows' (snd (?st (Suc i))) =
    traverse (prefix_item (\<lambda>ds. calculate_kdj rnd (candles ds) (VInt p) (VInt kp) (VInt dp)) cs)
      [Suc i..<length cs]"
    using Suc.hyps(2) i h [folded c] l [folded c] by (intro Suc.hyps(1)) auto
  note item = kdj_prefix_item [OF pos range i]
  show ?case
  proof (cases "int i < p - 1")
    case True
    then have "i < nat (p - 1)" by linarith
    then have "?st (Suc i) = ?st i" by (simp add: kdj_state_def)
    with True rest show ?thesis unfolding up
      by (simp add: item Let_def highs'_def lows'_def)
  next
    case False
    with kdj_loop_step [OF pos(1) i _ h l, of rnd kp dp] rest show ?thesis unfolding up
      by (cases "kdj_result rnd p kp dp (?st (Suc i))")
        (simp_all add: item Let_def highs'_def [symmetric] lows'_def [symmetric])
  qed
qed

interpretation kdj_contract: series_indicator
  "\<lambda>cs. calculate_kdj rnd (candles cs) (VInt (1 + int p)) (VInt (1 + int kp)) (VInt (1 + int dp))"
  "\<lambda>cs. kdj_calculate_series rnd self (candles cs)
      (VInt (1 + int p)) (VInt (1 + int kp)) (VInt (1 + int dp))"
  has_range for rnd and p kp dp :: nat and self
proof
  fix cs assume "list_all has_range cs"
  then show "kdj_calculate_series rnd self (candles cs)
      (VInt (1 + int p)) (VInt (1 + int kp)) (VInt (1 + int dp)) =
    prefix_series (\<lambda>cs. calculate_kdj rnd (candles cs)
      (VInt (1 + int p)) (VInt (1 + int kp)) (VInt (1 + int dp))) cs"
    using kdj_loop_spec [of "1 + int p" "1 + int kp" "1 + int dp" cs 0 "[]" "[]" rnd]
      hi.covers_empty lo.covers_empty
    by (simp add: kdj_calculate_series_def prefix_series_def require_ohlc_has_range
        kdj_state_def split_beta)
qed

section \<open>RSV, K and D are percentages\<close>

context float_rounding
begin

lemma kdj_rsv_percent:
  assumes "lo \<le> c" "c \<le> hi"
  shows "0 \<le> kdj_rsv rnd c hi lo \<and> kdj_rsv rnd c hi lo \<le> 100"
proof (cases "rnd (hi - lo) = 0")
  case False
  let ?a = "rnd (c - lo)" and ?s = "rnd (hi - lo)"
  have a: "0 \<le> ?a" "?a \<le> ?s" using assms by (auto intro: rnd_nonneg rnd_mono)
  with False have "0 \<le> ?a / ?s" "?a / ?s \<le> 1" by (auto simp: divide_le_eq)
  then have q: "0 \<le> rnd (?a / ?s)" "rnd (?a / ?s) \<le> 1"
    using rnd_nonneg rnd_le_int [of 1 "?a / ?s"] by auto
  then have "0 \<le> rnd (rnd (?a / ?s) * 100)" "rnd (rnd (?a / ?s) * 100) \<le> 100"
    using rnd_nonneg rnd_le_int [of 100 "rnd (?a / ?s) * 100"] by auto
  with False show ?thesis by (simp add: kdj_rsv_def Let_def)
qed (simp add: kdj_rsv_def)

definition percent3 :: "real \<times> real \<times> real \<Rightarrow> bool" where
  "percent3 = (\<lambda>(a, b, c). 0 \<le> a \<and> a \<le> 100 \<and> 0 \<le> b \<and> b \<le> 100 \<and> 0 \<le> c \<and> c \<le> 100)"

lemma kdj_step_percent:
  assumes inv: "list_all candle_inv cs" "list_all has_range cs" and j: "j < length cs"
    and p: "0 < p" and kp: "0 < kp" "100 * kp \<le> 2 ^ 53" and dp: "0 < dp" "100 * dp \<le> 2 ^ 53"
    and st: "percent3 st"
  shows "percent3 (kdj_step rnd p kp dp cs st j)"
proof -
  let ?w = "take (nat p) (drop (j + 1 - nat p) cs)"
  have "cs ! j = ?w ! (j - (j + 1 - nat p))" "j - (j + 1 - nat p) < length ?w" using j p by auto
  then have mem: "cs ! j \<in> set ?w" by (metis nth_mem)
  obtain h l where hl: "c_high (cs ! j) = Some h" "c_low (cs ! j) = Some l"
    using inv(2) j by (auto simp: list_all_length has_range_def)
  then have c: "l \<le> c_close (cs ! j)" "c_close (cs ! j) \<le> h"
    using inv(1) j by (auto simp: list_all_length candle_inv_def)
  have "h \<in> (the \<circ> c_high) ` set ?w" "l \<in> (the \<circ> c_low) ` set ?w" using mem hl by force+
  then have "h \<le> Max (set (map (the \<circ> c_high) ?w))" "Min (set (map (the \<circ> c_low) ?w)) \<le> l"
    by (auto intro: Max_ge Min_le simp del: image_comp)
  with c have rsv: "0 \<le> kdj_rsv rnd (c_close (cs ! j)) (Max (set (map (the \<circ> c_high) ?w)))
        (Min (set (map (the \<circ> c_low) ?w)))
      \<and> kdj_rsv rnd (c_close (cs ! j)) (Max (set (map (the \<circ> c_high) ?w)))
        (Min (set (map (the \<circ> c_low) ?w))) \<le> 100"
    by (intro kdj_rsv_percent) auto
  obtain r k d where "st = (r, k, d)" by (metis prod_cases3)
  with st rsv kp dp show ?thesis
    unfolding kdj_step_def by (simp only: percent3_def prod.case Let_def kdj_smooth_def)
      (meson wilder_percent)
qed

lemma kdj_foldl_percent:
  assumes "list_all candle_inv cs" "list_all has_range cs" "\<forall>j \<in> set js. j < length cs"
    and "0 < p" "0 < kp" "100 * kp \<le> 2 ^ 53" "0 < dp" "100 * dp \<le> 2 ^ 53" "percent3 st"
  shows "percent3 (foldl (kdj_step rnd p kp dp cs) st js)"
  using assms(3,9)
proof (induction js arbitrary: st)
  case (Cons j js)
  then have "percent3 (kdj_step rnd p kp dp cs st j)"
    using assms(1,2,4-8) by (intro kdj_step_percent) auto
  with Cons show ?case by simp
qed simp

lemma calculate_kdj_percent:
  assumes calc: "calculate_kdj rnd (Items items) (VInt p) (VInt kp) (VInt dp) = Ok r"
    and items: "\<And>k. ItemCandle k \<in> set items \<Longrightarrow> candle_inv k"
    and small: "100 * kp \<le> 2 ^ 53" "100 * dp \<le> 2 ^ 53"
  obtains rsv k d j where "r = KDJResult rsv k d j p kp dp" "percent3 (rsv, k, d)"
    "j = rnd (rnd (3 * k) - rnd (2 * d))"
proof -
  from calc obtain cs where pos: "0 < p" "0 < kp" "0 < dp"
    and cs: "normalize_series rnd (Items items) = Ok cs" and rng: "require_ohlc cs = Ok ()"
    and res: "kdj_result rnd p kp dp (kdj_state rnd p kp dp cs (length cs)) = Ok r"
    by (auto simp: calculate_kdj_def positive_int_ok kdj_state_def)
  have inv: "list_all candle_inv cs"
    using cs items unfolding normalize_series_def by (auto intro: normalize_items_inv)
  have range: "list_all has_range cs" using rng by (simp add: require_ohlc_ok has_range_def [abs_def])
  have pc: "percent3 (kdj_state rnd p kp dp cs (length cs))"
    unfolding kdj_state_def using inv range pos small
    by (intro kdj_foldl_percent) (auto simp: percent3_def)
  obtain rsv k d where st: "kdj_state rnd p kp dp cs (length cs) = (rsv, k, d)" by (metis prod_cases3)
  with res have "r = KDJResult rsv k d (rnd (rnd (3 * k) - rnd (2 * d))) p kp dp"
    by (auto simp: kdj_result_def dest: make_result_eq)
  with pc st that show thesis by simp
qed

end

section \<open>Contract of the KDJ indicator\<close>

text \<open>
  C9: The one-pass KDJ series with its monotone deques equals, under every rounding of the
  arithmetic, the sequence of latest values of the growing history: day by day it performs the
  same operations on the same window extrema, with no value during warm-up.
\<close>

theorem kdj_series_latest:
  assumes "0 < p" "0 < kp" "0 < dp" "list_all has_range cs"
  shows "kdj_calculate_series rnd self (candles cs) (VInt p) (VInt kp) (VInt dp) =
    prefix_series (\<lambda>ds. calculate_kdj rnd (candles ds) (VInt p) (VInt kp) (VInt dp)) cs"
proof -
  obtain a b c where "p = 1 + int a" "kp = 1 + int b" "dp = 1 + int c"
    using assms by (meson pos_int_cases)
  then show ?thesis using kdj_contract.series_spec [OF assms(4), of rnd self a b c] by simp
qed

theorem kdj_series_latest_witness:
  "list_all has_range [day 12 9 10, day 13 8 12, day 11 10 10] \<and>
   kdj_calculate_series rnd64 (9, 3, 3) (candles [day 12 9 10, day 13 8 12, day 11 10 10])
      (VInt 2) (VInt 3) (VInt 3) =
    prefix_series (\<lambda>ds. calculate_kdj rnd64 (candles ds) (VInt 2) (VInt 3) (VInt 3))
      [day 12 9 10, day 13 8 12, day 11 10 10]"
proof -
  have r: "list_all has_range [day 12 9 10, day 13 8 12, day 11 10 10]" by (simp add: has_range_def)
  show ?thesis
    using r kdj_series_latest [of 2 3 3 "[day 12 9 10, day 13 8 12, day 11 10 10]" rnd64 "(9, 3, 3)"]
    by simp
qed

text \<open>
  In double-precision arithmetic RSV, K and D of every calculated KDJ value are
  percentages, and J is \<open>3K - 2D\<close> rounded as the code rounds it, for every series of valid
  candles and smoothing divisors up to \<open>2 ^ 53 / 100\<close>.
\<close>

theorem kdj_percentages:
  assumes "calculate_kdj rnd64 (Items items) (VInt p) (VInt kp) (VInt dp) = Ok r"
    and "\<forall>k. ItemCandle k \<in> set items \<longrightarrow> candle_inv k"
    and "100 * kp \<le> 2 ^ 53" "100 * dp \<le> 2 ^ 53"
  shows "\<exists>rsv k d. r = KDJResult rsv k d (rnd64 (rnd64 (3 * k) - rnd64 (2 * d))) p kp dp \<and>
    0 \<le> rsv \<and> rsv \<le> 100 \<and> 0 \<le> k \<and> k \<le> 100 \<and> 0 \<le> d \<and> d \<le> 100"
proof -
  have i: "\<And>k. ItemCandle k \<in> set items \<Longrightarrow> candle_inv k" using assms(2) by blast
  obtain rsv k d j where "r = KDJResult rsv k d j p kp dp" "b64.percent3 (rsv, k, d)"
    "j = rnd64 (rnd64 (3 * k) - rnd64 (2 * d))"
    by (rule b64.calculate_kdj_percent [OF assms(1) i assms(3,4)])
  then show ?thesis by (simp add: b64.percent3_def)
qed

theorem kdj_percentages_witness:
  "\<exists>rsv k d. KDJResult 50 50 50 50 1 1 1 = KDJResult rsv k d (rnd64 (rnd64 (3 * k) - rnd64 (2 * d))) 1 1 1 \<and>
    0 \<le> rsv \<and> rsv \<le> 100 \<and> 0 \<le> k \<and> k \<le> 100 \<and> 0 \<le> d \<and> d \<le> 100"
proof -
  have "calculate_kdj rnd64 (Items [ItemCandle (day 10 10 10)]) (VInt 1) (VInt 1) (VInt 1) =
      Ok (KDJResult 50 50 50 50 1 1 1)"
    by (simp add: calculate_kdj_def normalize_series_def require_ohlc_def kdj_result_def kdj_step_def
        kdj_smooth_def kdj_rsv_def wilder_def make_result_def base_post_init_def check_values_def
        check_parameters_def Let_def)
  then show ?thesis by (rule kdj_percentages) auto
qed

end
