(* ===== verification/Bollinger.thy ===== *)
theory Bollinger
  imports Series_Contract
begin

text \<open>
  Bollinger bands (\<open>indicators/boll.py\<close>). The latest-value path computes the population
  variance in two passes, the series path from running sums of the closes and of their
  squares. The two are the same formula in exact arithmetic; under binary64 the bands are
  ordered and the width of a band around positive prices is not negative.
\<close>

section \<open>Definitions\<close>

definition normalized_band_width :: "(real \<Rightarrow> real) \<Rightarrow> real \<Rightarrow> real \<Rightarrow> real \<Rightarrow> real result" where
  "normalized_band_width rnd upper_band lower_band middle =
     ebind (finite_float rnd (VFloat (round_to_fl (\<lambda>x. x) upper_band)) ''upper'') (\<lambda>u.
     ebind (finite_float rnd (VFloat (round_to_fl (\<lambda>x. x) lower_band)) ''lower'') (\<lambda>l.
     ebind (finite_float rnd (VFloat (round_to_fl (\<lambda>x. x) middle)) ''middle'') (\<lambda>m.
       if m = 0 then Ok 0
       else let width = rnd (rnd (u - l) / m) in
         if \<not> is_finite64 width then Raise (ValueError ''band width must be finite'')
         else Ok width)))"

text \<open>The bands around a middle line, and the result built from them.\<close>

definition boll_result :: "(real \<Rightarrow> real) \<Rightarrow> int \<Rightarrow> real \<Rightarrow> real \<Rightarrow> real \<Rightarrow> indicator_result result" where
  "boll_result rnd p multiplier middle variance =
     (let standard_deviation = rnd (sqrt (max variance 0));
          upper_band = rnd (middle + rnd (multiplier * standard_deviation));
          lower_band = rnd (middle - rnd (multiplier * standard_deviation))
      in ebind (normalized_band_width rnd upper_band lower_band middle)
           (\<lambda>width. make_result rnd (BollingerResult upper_band middle lower_band width p multiplier)))"

definition boll_latest :: "(real \<Rightarrow> real) \<Rightarrow> int \<Rightarrow> real \<Rightarrow> real list \<Rightarrow> indicator_result result" where
  "boll_latest rnd p multiplier closes =
     (let window = last_n (nat p) closes;
          middle = rnd (fsum rnd window / fint rnd p);
          variance = rnd (fsum rnd (map (\<lambda>close. rnd ((rnd (close - middle))\<^sup>2)) window) / fint rnd p)
      in boll_result rnd p multiplier middle variance)"

definition calculate_bollinger ::
  "(real \<Rightarrow> real) \<Rightarrow> series \<Rightarrow> pyval \<Rightarrow> pyval \<Rightarrow> indicator_result result"
where
  "calculate_bollinger rnd s period multiplier =
     ebind (positive_int ''period'' period) (\<lambda>p.
     ebind (positive_number rnd ''multiplier'' multiplier) (\<lambda>m.
     ebind (normalize_series rnd s) (\<lambda>cs.
     ebind (require_length (length cs) p ''boll'') (\<lambda>_.
       boll_latest rnd p m (close_values cs)))))"

fun boll_loop :: "(real \<Rightarrow> real) \<Rightarrow> int \<Rightarrow> real \<Rightarrow> real list \<Rightarrow> nat \<Rightarrow> real list \<Rightarrow> real \<Rightarrow> real \<Rightarrow>
  indicator_result option list result"
where
  "boll_loop rnd p m closes index [] running squares = Ok []"
| "boll_loop rnd p m closes index (close # rest) running squares =
     (let running = rnd (running + close);
          squares = rnd (squares + rnd (close * close));
          old = closes ! (index - nat p);
          running = (if p \<le> int index then rnd (running - old) else running);
          squares = (if p \<le> int index then rnd (squares - rnd (old * old)) else squares);
          middle = rnd (running / fint rnd p);
          variance = max (rnd (rnd (squares / fint rnd p) - rnd (middle * middle))) 0
      in ebind (if p - 1 \<le> int index then emap Some (boll_result rnd p m middle variance) else Ok None)
           (\<lambda>out. emap ((#) out) (boll_loop rnd p m closes (Suc index) rest running squares)))"

definition bollinger_calculate_series ::
  "(real \<Rightarrow> real) \<Rightarrow> int \<times> real \<Rightarrow> series \<Rightarrow> pyval \<Rightarrow> pyval \<Rightarrow> indicator_result option list result"
where
  "bollinger_calculate_series rnd self s period multiplier =
     ebind (positive_int ''period'' (or_default (VInt (fst self)) period)) (\<lambda>p.
     ebind (positive_number rnd ''multiplier'' (or_default (VFloat (Fin (snd self))) multiplier)) (\<lambda>m.
     ebind (normalize_series rnd s) (\<lambda>cs.
       boll_loop rnd p m (close_values cs) 0 (close_values cs) 0 0)))"

definition bollinger_calculate ::
  "(real \<Rightarrow> real) \<Rightarrow> int \<times> real \<Rightarrow> series \<Rightarrow> pyval \<Rightarrow> pyval \<Rightarrow> indicator_result result"
where
  "bollinger_calculate rnd self s period multiplier =
     calculate_bollinger rnd s (or_default (VInt (fst self)) period)
       (or_default (VFloat (Fin (snd self))) multiplier)"

section \<open>The two paths compute the same formula\<close>

text \<open>The two-pass and the one-pass variance.\<close>

lemma sum_squared_deviations:
  fixes m :: real
  shows "sum_list (map (\<lambda>x. (x - m)\<^sup>2) w) =
    sum_list (map (\<lambda>x. x * x) w) - 2 * m * sum_list w + real (length w) * m\<^sup>2"
  by (induction w) (auto simp: power2_eq_square algebra_simps)

lemma variance_one_pass:
  assumes "w \<noteq> []" "m = sum_list w / real (length w)"
  shows "sum_list (map (\<lambda>x. (x - m)\<^sup>2) w) / real (length w) =
    sum_list (map (\<lambda>x. x * x) w) / real (length w) - m * m"
proof -
  have n: "real (length w) \<noteq> 0" using assms by simp
  then have "sum_list w = m * real (length w)" using assms by simp
  then have "sum_list (map (\<lambda>x. (x - m)\<^sup>2) w) =
      sum_list (map (\<lambda>x. x * x) w) - m * m * real (length w)"
    unfolding sum_squared_deviations by (simp add: power2_eq_square)
  with n show ?thesis by (simp add: diff_divide_distrib)
qed

lemma boll_result_sufficient: "boll_result rnd p m mid var \<noteq> Inl (InsufficientDataError a b c)"
proof -
  have f: "finite_float rnd (VFloat f) n \<noteq> Inl (InsufficientDataError a b c)" for f n
    by (auto simp: finite_float_def dest: finite_or_raise)
  then have "normalized_band_width rnd u l k \<noteq> Inl (InsufficientDataError a b c)" for u l k
    by (auto simp: normalized_band_width_def ebind_eq_Inl_iff Let_def)
  then show ?thesis by (auto simp: boll_result_def Let_def ebind_eq_Inl_iff make_result_sufficient)
qed

lemma prefix_item_boll:
  "calc (take (Suc i) cs) = boll_result rnd p m mid var \<Longrightarrow>
     prefix_item calc cs i = emap Some (boll_result rnd p m mid var)"
  using boll_result_sufficient [of rnd p m mid var]
  by (cases "boll_result rnd p m mid var") (auto simp: prefix_item_def split: exn.splits)

lemma calculate_bollinger_candles:
  "0 < p \<Longrightarrow> 0 < m \<Longrightarrow> calculate_bollinger rnd (candles cs) (VInt p) (VFloat (Fin m)) =
    (if int (length cs) < p then Raise (InsufficientDataError p (int (length cs)) ''boll'')
     else boll_latest rnd p m (close_values cs))"
  by (simp add: calculate_bollinger_def positive_number_def)

definition window_sum :: "int \<Rightarrow> nat \<Rightarrow> real list \<Rightarrow> real" where
  "window_sum p i xs = sum_list (last_n (nat p) (take i xs))"

lemma window_sum_step:
  assumes "i < length xs" "0 < p"
  shows "window_sum p (Suc i) xs =
    (if p \<le> int i then window_sum p i xs + xs ! i - xs ! (i - nat p) else window_sum p i xs + xs ! i)"
  using sum_window_step [of i xs "nat p"] assms by (auto simp: window_sum_def nat_le_iff)

lemma boll_latest_exact:
  fixes p :: int
  assumes p: "0 < p" and i: "p - 1 \<le> int i" "i < length xs"
    and mid: "mid = window_sum p (Suc i) xs / of_int p"
  shows "boll_latest (\<lambda>x. x) p m (take (Suc i) xs) = boll_result (\<lambda>x. x) p m mid
    (max (window_sum p (Suc i) (map (\<lambda>x. x * x) xs) / of_int p - mid * mid) 0)"
proof -
  let ?w = "last_n (nat p) (take (Suc i) xs)"
  have len: "length ?w = nat p" using i p by (simp add: last_n_def)
  then have ne: "?w \<noteq> []" and n: "real (length ?w) = of_int p" using p by auto
  have sq: "map (\<lambda>x. x * x) ?w = last_n (nat p) (take (Suc i) (map (\<lambda>x. x * x) xs))"
    by (simp add: last_n_def drop_map take_map)
  have "mid = sum_list ?w / real (length ?w)" unfolding mid n window_sum_def ..
  from variance_one_pass [OF ne this]
  have "sum_list (map (\<lambda>x. (x - mid)\<^sup>2) ?w) / of_int p =
      window_sum p (Suc i) (map (\<lambda>x. x * x) xs) / of_int p - mid * mid"
    unfolding n sq window_sum_def .
  then show ?thesis
    unfolding boll_latest_def Let_def fsum_def boll_result_def mid window_sum_def [symmetric]
    by simp
qed

lemma boll_loop_exact:
  fixes p :: int
  assumes p: "0 < p" and m: "0 < m" and i: "i \<le> length cs"
  shows "boll_loop (\<lambda>x. x) p m (close_values cs) i (drop i (close_values cs))
      (window_sum p i (close_values cs)) (window_sum p i (map (\<lambda>x. x * x) (close_values cs))) =
    traverse (prefix_item (\<lambda>ds. calculate_bollinger (\<lambda>x. x) (candles ds) (VInt p) (VFloat (Fin m))) cs)
      [i..<length cs]"
  using i
proof (induction "length cs - i" arbitrary: i)
  case 0
  then show ?case by simp
next
  case (Suc n)
  let ?xs = "close_values cs"
  let ?calc = "\<lambda>ds. calculate_bollinger (\<lambda>x. x) (candles ds) (VInt p) (VFloat (Fin m))"
  let ?mid = "window_sum p (Suc i) ?xs / of_int p"
  let ?var = "max (window_sum p (Suc i) (map (\<lambda>x. x * x) ?xs) / of_int p - ?mid * ?mid) 0"
  from Suc.hyps(2) have i: "i < length cs" by simp
  then have d: "drop i ?xs = ?xs ! i # drop (Suc i) ?xs" "[i..<length cs] = i # [Suc i..<length cs]"
    by (simp_all add: Cons_nth_drop_Suc upt_conv_Cons del: close_values_simps(3))
  have item: "prefix_item ?calc cs i =
      (if p - 1 \<le> int i then emap Some (boll_result (\<lambda>x. x) p m ?mid ?var) else Ok None)"
  proof (cases "p - 1 \<le> int i")
    case True
    with p i have "?calc (take (Suc i) cs) = boll_result (\<lambda>x. x) p m ?mid ?var"
      using m boll_latest_exact [of p i ?xs ?mid m] by (simp add: calculate_bollinger_candles)
    with True show ?thesis by (simp add: prefix_item_boll)
  next
    case False
    with p m i have "?calc (take (Suc i) cs) = Raise (InsufficientDataError p (int (Suc i)) ''boll'')"
      by (simp add: calculate_bollinger_candles)
    with False show ?thesis by (simp add: prefix_item_short)
  qed
  have rest: "boll_loop (\<lambda>x. x) p m ?xs (Suc i) (drop (Suc i) ?xs) (window_sum p (Suc i) ?xs)
        (window_sum p (Suc i) (map (\<lambda>x. x * x) ?xs)) =
      traverse (prefix_item ?calc cs) [Suc i..<length cs]"
    using Suc i by (intro Suc.hyps(1)) auto
  have sq: "window_sum p (Suc i) (map (\<lambda>x. x * x) ?xs) =
    (if p \<le> int i then window_sum p i (map (\<lambda>x. x * x) ?xs) + ?xs ! i * ?xs ! i
        - ?xs ! (i - nat p) * ?xs ! (i - nat p)
     else window_sum p i (map (\<lambda>x. x * x) ?xs) + ?xs ! i * ?xs ! i)"
    using window_sum_step [of i "map (\<lambda>x. x * x) ?xs" p] i p
    by (simp add: less_imp_diff_less del: close_values_simps(3))
  have sm: "window_sum p (Suc i) ?xs = (if p \<le> int i
      then window_sum p i ?xs + ?xs ! i - ?xs ! (i - nat p) else window_sum p i ?xs + ?xs ! i)"
    using window_sum_step [of i ?xs p] i p by (simp del: close_values_simps(3))
  show ?case unfolding d boll_loop.simps Let_def sm [symmetric] sq [symmetric] rest
    by (simp add: item)
qed

interpretation boll_exact: series_indicator
  "\<lambda>cs. calculate_bollinger (\<lambda>x. x) (candles cs) (VInt (1 + int p)) (VFloat (Fin (exp m)))"
  "\<lambda>cs. bollinger_calculate_series (\<lambda>x. x) self (candles cs) (VInt (1 + int p)) (VFloat (Fin (exp m)))"
  "\<lambda>_. True" for p :: nat and m :: real and self
proof
  fix cs
  show "bollinger_calculate_series (\<lambda>x. x) self (candles cs) (VInt (1 + int p)) (VFloat (Fin (exp m))) =
      prefix_series (\<lambda>cs. calculate_bollinger (\<lambda>x. x) (candles cs) (VInt (1 + int p)) (VFloat (Fin (exp m)))) cs"
    using boll_loop_exact [of "1 + int p" "exp m" 0 cs]
    by (simp add: bollinger_calculate_series_def prefix_series_def window_sum_def last_n_def
        positive_number_def or_default_def)
qed

section \<open>The bands are ordered\<close>

context float_rounding
begin

lemma finite_float_band [simp]:
  "finite_float r (VFloat (round_to_fl (\<lambda>x. x) x)) name = Ok y \<longleftrightarrow> y = x \<and> is_finite64 x"
  by (auto simp: finite_float_def round_to_fl_def Let_def finite_or_def)

lemma boll_result_ordered:
  assumes res: "boll_result rnd p m mid var = Ok r" and mid: "rnd mid = mid" "0 \<le> mid" and m: "0 < m"
  obtains u l w where "r = BollingerResult u mid l w p m" "l \<le> mid" "mid \<le> u" "0 \<le> w"
proof -
  let ?dev = "rnd (m * rnd (sqrt (max var 0)))"
  let ?u = "rnd (mid + ?dev)" and ?l = "rnd (mid - ?dev)"
  have "0 \<le> rnd (sqrt (max var 0))" by (intro rnd_nonneg) simp
  then have dev: "0 \<le> ?dev" using m by (intro rnd_nonneg) simp
  from res obtain w where w: "normalized_band_width rnd ?u ?l mid = Ok w"
    and r: "r = BollingerResult ?u mid ?l w p m"
    by (auto simp: boll_result_def Let_def dest: make_result_eq)
  have ul: "?l \<le> mid" "mid \<le> ?u" using dev mid by (auto intro: rnd_diff_le rnd_add_ge)
  then have "0 \<le> rnd (?u - ?l)" by (intro rnd_nonneg) simp
  then have "0 \<le> rnd (?u - ?l) / mid" using mid(2) by simp
  then have "0 \<le> rnd (rnd (?u - ?l) / mid)" by (rule rnd_nonneg)
  with w have "0 \<le> w" by (auto simp: normalized_band_width_def Let_def split: if_splits)
  with r ul that show thesis by blast
qed

lemma calculate_bollinger_ordered:
  assumes calc: "calculate_bollinger rnd (Items items) v mv = Ok r"
    and items: "\<And>k. ItemCandle k \<in> set items \<Longrightarrow> candle_inv k"
  obtains u mid l w p m where "r = BollingerResult u mid l w p m" "l \<le> mid" "mid \<le> u" "0 \<le> w" "0 \<le> mid"
proof -
  from calc obtain p m cs where pm: "0 < p" "0 < m"
    and cs: "normalize_series rnd (Items items) = Ok cs"
    and res: "boll_latest rnd p m (close_values cs) = Ok r"
    by (auto simp: calculate_bollinger_def positive_int_ok dest!: positive_number_ok)
  have inv: "list_all candle_inv cs"
    using cs items unfolding normalize_series_def by (auto intro: normalize_items_inv)
  define w where "w = last_n (nat p) (close_values cs)"
  define mid where "mid = rnd (fsum rnd w / fint rnd p)"
  have "set w \<subseteq> set (close_values cs)" unfolding w_def last_n_def by (rule set_drop_subset)
  then have "\<forall>x \<in> set w. 0 \<le> x"
    using inv by (force simp: close_values_def candle_inv_def list_all_iff)
  then have "0 \<le> sum_list w" by (simp add: sum_list_nonneg)
  moreover have "0 \<le> fint rnd p" using pm by (auto intro!: rnd_nonneg)
  ultimately have mid: "rnd mid = mid" "0 \<le> mid"
    unfolding mid_def fsum_def by (simp_all add: rnd_idem rnd_nonneg)
  from res obtain var where "boll_result rnd p m mid var = Ok r"
    unfolding boll_latest_def Let_def mid_def w_def by blast
  from boll_result_ordered [OF this mid pm(2)] mid(2) that show thesis by metis
qed

end

section \<open>Contract of the Bollinger bands\<close>

text \<open>
  C10: The one-pass Bollinger series, which keeps running sums of the closes and of their
  squares, is, as a formula, the two-pass population variance of every day's window.
\<close>

theorem bollinger_series_latest:
  fixes p :: int and m :: real
  assumes "0 < p" "0 < m"
  shows "bollinger_calculate_series (\<lambda>x. x) self (candles cs) (VInt p) (VFloat (Fin m)) =
    prefix_series (\<lambda>ds. calculate_bollinger (\<lambda>x. x) (candles ds) (VInt p) (VFloat (Fin m))) cs"
proof -
  obtain n where "p = 1 + int n" using assms(1) by (rule pos_int_cases)
  moreover have "m = exp (ln m)" using assms(2) by simp
  ultimately show ?thesis
    using boll_exact.series_spec [of cs self n "ln m"] by (simp add: list_all_iff)
qed

theorem bollinger_series_latest_witness:
  "bollinger_calculate_series (\<lambda>x. x) (20, 2) (candles [day 12 9 10, day 13 8 12]) (VInt 2) (VFloat (Fin 2)) =
    prefix_series (\<lambda>ds. calculate_bollinger (\<lambda>x. x) (candles ds) (VInt 2) (VFloat (Fin 2)))
      [day 12 9 10, day 13 8 12]"
  by (rule bollinger_series_latest) auto

text \<open>
  In double-precision arithmetic the bands of every calculated value are ordered, lower at
  most middle at most upper, and the normalized width is not negative.
\<close>

theorem bollinger_ordered:
  assumes "calculate_bollinger rnd64 (Items items) v mv = Ok r"
    and "\<forall>k. ItemCandle k \<in> set items \<longrightarrow> candle_inv k"
  shows "\<exists>u mid l w p m. r = BollingerResult u mid l w p m \<and> l \<le> mid \<and> mid \<le> u \<and> 0 \<le> w"
proof -
  have i: "\<And>k. ItemCandle k \<in> set items \<Longrightarrow> candle_inv k" using assms(2) by blast
  show ?thesis using b64.calculate_bollinger_ordered [OF assms(1) i] by metis
qed

theorem bollinger_ordered_witness:
  "\<exists>u mid l w p m. BollingerResult 10 10 10 0 1 2 = BollingerResult u mid l w p m \<and>
    l \<le> mid \<and> mid \<le> u \<and> 0 \<le> w"
proof -
  have "calculate_bollinger rnd64 (Items [ItemCandle (day 12 9 10)]) (VInt 1) (VInt 2) =
      Ok (BollingerResult 10 10 10 0 1 2)"
    by (simp add: calculate_bollinger_def positive_number_def normalize_series_def boll_latest_def
        last_n_def close_values_def fsum_def boll_result_def normalized_band_width_def finite_float_def
        round_to_fl_def make_result_def base_post_init_def check_values_def check_parameters_def Let_def)
  then show ?thesis by (rule bollinger_ordered) auto
qed

end
