(* ===== verification/Macd.thy ===== *)
theory Macd
  imports Series_Contract
begin

text \<open>
  Moving Average Convergence Divergence (\<open>indicators/macd.py\<close>). Both paths run the same
  \<open>_ema\<close> over the closes and over the differences, so they agree under every rounding. As a
  formula an EMA never leaves the range of its inputs, which bounds the difference line.
\<close>

section \<open>Definitions\<close>

definition ema_seed :: "(real \<Rightarrow> real) \<Rightarrow> int \<Rightarrow> real list \<Rightarrow> real" where
  "ema_seed rnd p values = rnd (fsum rnd (take (nat p) values) / fint rnd p)"

definition ema_step :: "(real \<Rightarrow> real) \<Rightarrow> int \<Rightarrow> real \<Rightarrow> real \<Rightarrow> real" where
  "ema_step rnd p previous value =
     (let alpha = rnd (2 / rnd (fint rnd p + 1))
      in rnd (rnd (alpha * value) + rnd (rnd (1 - alpha) * previous)))"

fun ema_loop :: "(real \<Rightarrow> real) \<Rightarrow> int \<Rightarrow> real \<Rightarrow> real list \<Rightarrow> real option list" where
  "ema_loop rnd p previous [] = []"
| "ema_loop rnd p previous (value # values) =
     (let previous' = ema_step rnd p previous value
      in Some previous' # ema_loop rnd p previous' values)"

definition ema :: "(real \<Rightarrow> real) \<Rightarrow> real list \<Rightarrow> int \<Rightarrow> real option list" where
  "ema rnd values p =
     (let seed = ema_seed rnd p values
      in replicate (nat (p - 1)) None @ [Some seed] @ ema_loop rnd p seed (drop (nat p) values))"

definition macd_diffs :: "(real \<Rightarrow> real) \<Rightarrow> int \<Rightarrow> int \<Rightarrow> real list \<Rightarrow> real list" where
  "macd_diffs rnd fast slow closes =
     (let fast_ema = ema rnd closes fast; slow_ema = ema rnd closes slow
      in map (\<lambda>index. rnd (the (fast_ema ! index) - the (slow_ema ! index)))
           [nat (slow - 1)..<length closes])"

definition macd_periods :: "pyval \<Rightarrow> pyval \<Rightarrow> pyval \<Rightarrow> (int \<times> int \<times> int) result" where
  "macd_periods fast_period slow_period signal_period =
     ebind (positive_int ''fast_period'' fast_period) (\<lambda>fast.
     ebind (positive_int ''slow_period'' slow_period) (\<lambda>slow.
     ebind (positive_int ''signal_period'' signal_period) (\<lambda>signal.
       if fast \<ge> slow then Raise (InvalidParameterError ''fast_period must be less than slow_period'')
       else Ok (fast, slow, signal))))"

definition macd_result ::
  "(real \<Rightarrow> real) \<Rightarrow> int \<times> int \<times> int \<Rightarrow> real \<Rightarrow> real \<Rightarrow> indicator_result result"
where
  "macd_result rnd = (\<lambda>(fast, slow, signal) diff dea.
     make_result rnd (MACDResult diff dea (rnd (diff - dea)) fast slow signal))"

definition calculate_macd ::
  "(real \<Rightarrow> real) \<Rightarrow> series \<Rightarrow> pyval \<Rightarrow> pyval \<Rightarrow> pyval \<Rightarrow> indicator_result result"
where
  "calculate_macd rnd s fast_period slow_period signal_period =
     ebind (macd_periods fast_period slow_period signal_period) (\<lambda>(fast, slow, signal).
     ebind (normalize_series rnd s) (\<lambda>cs.
     ebind (require_length (length cs) (slow + signal - 1) ''macd'') (\<lambda>_.
       let diffs = macd_diffs rnd fast slow (close_values cs);
           signal_values = ema rnd diffs signal
       in macd_result rnd (fast, slow, signal) (last diffs) (the (last signal_values)))))"

definition macd_calculate_series ::
  "(real \<Rightarrow> real) \<Rightarrow> int \<times> int \<times> int \<Rightarrow> series \<Rightarrow> pyval \<Rightarrow> pyval \<Rightarrow> pyval \<Rightarrow>
     indicator_result option list result"
where
  "macd_calculate_series rnd self s fast_period slow_period signal_period =
     (case self of (self_fast, self_slow, self_signal) \<Rightarrow>
     ebind (macd_periods (or_default (VInt self_fast) fast_period)
       (or_default (VInt self_slow) slow_period) (or_default (VInt self_signal) signal_period))
       (\<lambda>(fast, slow, signal).
     ebind (normalize_series rnd s) (\<lambda>cs.
       let closes = close_values cs; none = replicate (length closes) None in
       if int (length closes) < slow then Ok none
       else let diffs = macd_diffs rnd fast slow closes in
         if int (length diffs) < signal then Ok none
         else let signal_values = ema rnd diffs signal in
           emap ((@) (replicate (nat (slow - 1)) None)) (traverse (\<lambda>pos.
             case signal_values ! pos of
               None \<Rightarrow> Ok None
             | Some dea \<Rightarrow> emap Some (macd_result rnd (fast, slow, signal) (diffs ! pos) dea))
             [0..<length diffs]))))"

definition macd_calculate ::
  "(real \<Rightarrow> real) \<Rightarrow> int \<times> int \<times> int \<Rightarrow> series \<Rightarrow> pyval \<Rightarrow> pyval \<Rightarrow> pyval \<Rightarrow> indicator_result result"
where
  "macd_calculate rnd self s fast_period slow_period signal_period =
     (case self of (self_fast, self_slow, self_signal) \<Rightarrow>
       calculate_macd rnd s (or_default (VInt self_fast) fast_period)
         (or_default (VInt self_slow) slow_period) (or_default (VInt self_signal) signal_period))"

section \<open>An EMA only looks back\<close>

text \<open>The latest EMA of a list of values.\<close>

definition ema_at :: "(real \<Rightarrow> real) \<Rightarrow> int \<Rightarrow> real list \<Rightarrow> real" where
  "ema_at rnd p values = foldl (ema_step rnd p) (ema_seed rnd p values) (drop (nat p) values)"

lemma ema_loop_nth:
  "i < length vs \<Longrightarrow> ema_loop rnd p a vs ! i = Some (foldl (ema_step rnd p) a (take (Suc i) vs))"
  by (induction vs arbitrary: a i) (auto simp: Let_def nth_Cons split: nat.splits)

lemma ema_loop_length [simp]: "length (ema_loop rnd p a vs) = length vs"
  by (induction vs arbitrary: a) (auto simp: Let_def)

lemma ema_length: "0 < p \<Longrightarrow> p \<le> int (length vs) \<Longrightarrow> length (ema rnd vs p) = length vs"
  by (simp add: ema_def Let_def nat_diff_distrib)

lemma ema_nth:
  assumes p: "0 < p" and i: "p - 1 \<le> int i" "i < length vs"
  shows "ema rnd vs p ! i = Some (ema_at rnd p (take (Suc i) vs))"
proof -
  have seed: "ema_seed rnd p (take (Suc i) vs) = ema_seed rnd p vs"
    using p i by (simp add: ema_seed_def min_absorb1 nat_le_iff)
  obtain n where n: "p = int (Suc n)" using p by (metis zero_less_imp_eq_int gr0_implies_Suc of_nat_0_less_iff)
  then have np: "nat p = Suc n" "nat (p - 1) = n" by auto
  show ?thesis
  proof (cases "i = n")
    case True
    then show ?thesis using np seed by (simp add: ema_def ema_at_def Let_def nth_append)
  next
    case False
    with i n have k: "i = Suc n + (i - Suc n)" "i - Suc n < length (drop (Suc n) vs)" by auto
    have "ema rnd vs p ! i = ema_loop rnd p (ema_seed rnd p vs) (drop (Suc n) vs) ! (i - Suc n)"
      using np k by (simp add: ema_def Let_def nth_append)
    also have "\<dots> = Some (foldl (ema_step rnd p) (ema_seed rnd p vs) (take (Suc (i - Suc n)) (drop (Suc n) vs)))"
      by (rule ema_loop_nth) (rule k)
    also have "take (Suc (i - Suc n)) (drop (Suc n) vs) = drop (Suc n) (take (Suc i) vs)"
    proof -
      from k(1) have "Suc (i - Suc n) = Suc i - Suc n" by linarith
      then show ?thesis by (simp only: drop_take)
    qed
    finally show ?thesis using np seed by (simp add: ema_at_def)
  qed
qed

lemma ema_nth_None: "0 < p \<Longrightarrow> int i < p - 1 \<Longrightarrow> ema rnd vs p ! i = None"
proof -
  assume "int i < p - 1"
  then have "i < nat (p - 1)" by linarith
  then show ?thesis by (simp add: ema_def Let_def nth_append)
qed

lemma ema_last:
  assumes "0 < p" "p \<le> int (length vs)"
  shows "the (last (ema rnd vs p)) = ema_at rnd p vs"
proof -
  have l: "length (ema rnd vs p) = length vs" using assms by (rule ema_length)
  moreover have "vs \<noteq> []" using assms by auto
  ultimately have "last (ema rnd vs p) = ema rnd vs p ! (length vs - 1)"
    by (metis last_conv_nth length_0_conv)
  with assms \<open>vs \<noteq> []\<close> show ?thesis by (simp add: ema_nth)
qed

section \<open>The two paths agree under every rounding\<close>

text \<open>The difference line on one day.\<close>

definition diff_at :: "(real \<Rightarrow> real) \<Rightarrow> int \<Rightarrow> int \<Rightarrow> real list \<Rightarrow> nat \<Rightarrow> real" where
  "diff_at rnd f s xs i = rnd (ema_at rnd f (take (Suc i) xs) - ema_at rnd s (take (Suc i) xs))"

lemma macd_diffs_eq:
  assumes "0 < f" "f < s"
  shows "macd_diffs rnd f s xs = map (diff_at rnd f s xs) [nat (s - 1)..<length xs]"
  using assms by (auto simp: macd_diffs_def diff_at_def Let_def ema_nth)

lemma macd_diffs_length:
  "0 < f \<Longrightarrow> f < s \<Longrightarrow> length (macd_diffs rnd f s xs) = length xs - nat (s - 1)"
  by (simp add: macd_diffs_eq)

lemma macd_diffs_take:
  assumes "0 < f" "f < s" "n \<le> length xs"
  shows "macd_diffs rnd f s (take n xs) = take (n - nat (s - 1)) (macd_diffs rnd f s xs)"
proof -
  have "take (n - nat (s - 1)) [nat (s - 1)..<length xs] = [nat (s - 1)..<n]"
    using assms by (cases "nat (s - 1) \<le> n") auto
  then show ?thesis
    using assms by (simp add: macd_diffs_eq take_map diff_at_def)
qed

lemma macd_periods_ok [simp]:
  "0 < f \<Longrightarrow> f < s \<Longrightarrow> 0 < g \<Longrightarrow> macd_periods (VInt f) (VInt s) (VInt g) = Ok (f, s, g)"
  by (simp add: macd_periods_def)

lemma calculate_macd_candles:
  assumes "0 < f" "f < s" "0 < g"
  shows "calculate_macd rnd (candles cs) (VInt f) (VInt s) (VInt g) =
    (if int (length cs) < s + g - 1
     then Raise (InsufficientDataError (s + g - 1) (int (length cs)) ''macd'')
     else let ds = macd_diffs rnd f s (close_values cs)
          in macd_result rnd (f, s, g) (last ds) (ema_at rnd g ds))"
proof -
  have "g \<le> int (length (macd_diffs rnd f s (close_values cs)))" if "s + g - 1 \<le> int (length cs)"
    using that assms by (simp add: macd_diffs_length)
  then show ?thesis using assms by (simp add: calculate_macd_def ema_last Let_def)
qed

lemma macd_prefix_item:
  assumes per: "0 < f" "f < s" "0 < g" and pos: "nat (s - 1) + pos < length cs"
  shows "prefix_item (\<lambda>ds. calculate_macd rnd (candles ds) (VInt f) (VInt s) (VInt g)) cs (nat (s - 1) + pos) =
    (if int pos < g - 1 then Ok None
     else let ds = macd_diffs rnd f s (close_values cs)
          in emap Some (macd_result rnd (f, s, g) (ds ! pos) (ema_at rnd g (take (Suc pos) ds))))"
proof -
  let ?i = "nat (s - 1) + pos" and ?ds = "macd_diffs rnd f s (close_values cs)"
  have len: "length (take (Suc ?i) cs) = Suc ?i" "pos < length ?ds"
    using per pos by (auto simp: macd_diffs_length)
  have ds: "macd_diffs rnd f s (close_values (take (Suc ?i) cs)) = take (Suc pos) ?ds"
    using macd_diffs_take [of f s "Suc ?i" "close_values cs" rnd] per pos by simp
  note c = calculate_macd_candles [OF per, of rnd "take (Suc ?i) cs", unfolded len ds]
  show ?thesis
  proof (cases "int pos < g - 1")
    case True
    with c per show ?thesis by (simp add: prefix_item_short)
  next
    case False
    with c per len(2) have "calculate_macd rnd (candles (take (Suc ?i) cs)) (VInt f) (VInt s) (VInt g) =
        macd_result rnd (f, s, g) (?ds ! pos) (ema_at rnd g (take (Suc pos) ?ds))"
      by (simp add: Let_def take_Suc_conv_app_nth)
    with False show ?thesis by (simp add: macd_result_def prefix_item_result Let_def)
  qed
qed

lemma macd_series_tail:
  assumes per: "0 < f" "f < s" "0 < g" and "s \<le> int (length cs)"
  shows "traverse (prefix_item (\<lambda>ds. calculate_macd rnd (candles ds) (VInt f) (VInt s) (VInt g)) cs)
      [nat (s - 1)..<length cs] =
    (let ds = macd_diffs rnd f s (close_values cs) in
     traverse (\<lambda>pos. case ema rnd ds g ! pos of None \<Rightarrow> Ok None
       | Some dea \<Rightarrow> emap Some (macd_result rnd (f, s, g) (ds ! pos) dea)) [0..<length ds])"
proof -
  let ?ds = "macd_diffs rnd f s (close_values cs)"
  have up: "[nat (s - 1)..<length cs] = map (\<lambda>pos. nat (s - 1) + pos) [0..<length ?ds]"
    using per assms(4) by (intro nth_equalityI) (auto simp: macd_diffs_length)
  show ?thesis unfolding up traverse_map Let_def
  proof (rule traverse_cong [OF refl])
    fix pos assume "pos \<in> set [0..<length ?ds]"
    then have pos: "pos < length ?ds" "nat (s - 1) + pos < length cs"
      using per by (auto simp: macd_diffs_length)
    show "prefix_item (\<lambda>ds. calculate_macd rnd (candles ds) (VInt f) (VInt s) (VInt g)) cs (nat (s - 1) + pos) =
      (case ema rnd ?ds g ! pos of None \<Rightarrow> Ok None
       | Some dea \<Rightarrow> emap Some (macd_result rnd (f, s, g) (?ds ! pos) dea))"
      using macd_prefix_item [OF per pos(2), of rnd] per pos(1)
      by (cases "int pos < g - 1") (simp_all add: ema_nth_None ema_nth Let_def)
  qed
qed

lemma macd_short:
  assumes per: "0 < f" "f < s" "0 < g" and "int i < s + g - 2" "i < length cs"
  shows "prefix_item (\<lambda>ds. calculate_macd rnd (candles ds) (VInt f) (VInt s) (VInt g)) cs i = Ok None"
  using assms by (intro prefix_item_short) (simp add: calculate_macd_candles)

lemma macd_series_spec:
  assumes per: "0 < f" "f < s" "0 < g"
  shows "macd_calculate_series rnd self (candles cs) (VInt f) (VInt s) (VInt g) =
    prefix_series (\<lambda>ds. calculate_macd rnd (candles ds) (VInt f) (VInt s) (VInt g)) cs"
proof -
  let ?calc = "\<lambda>ds. calculate_macd rnd (candles ds) (VInt f) (VInt s) (VInt g)"
  have all_none: "prefix_series ?calc cs = Ok (replicate (length cs) None)"
    if "int (length cs) < s + g - 1"
    using prefix_series_warmup [of "length cs" cs ?calc] that macd_short [OF per, of _ cs rnd] by simp
  have "int (length (macd_diffs rnd f s (close_values cs))) < g \<longleftrightarrow> int (length cs) < s + g - 1"
    if "s \<le> int (length cs)" using that per by (auto simp: macd_diffs_length)
  moreover have "prefix_series ?calc cs = emap ((@) (replicate (nat (s - 1)) None))
      (traverse (prefix_item ?calc cs) [nat (s - 1)..<length cs])" if "s \<le> int (length cs)"
    using prefix_series_warmup [of "nat (s - 1)" cs ?calc] that per macd_short [OF per, of _ cs rnd]
    by (simp add: min_absorb1 nat_le_iff)
  ultimately show ?thesis
    using per all_none macd_series_tail [OF per, of cs rnd]
    by (auto simp: macd_calculate_series_def Let_def split: prod.splits)
qed

interpretation macd_contract: series_indicator
  "\<lambda>cs. calculate_macd rnd (candles cs) (VInt (1 + int f)) (VInt (2 + int f + int s)) (VInt (1 + int g))"
  "\<lambda>cs. macd_calculate_series rnd self (candles cs)
      (VInt (1 + int f)) (VInt (2 + int f + int s)) (VInt (1 + int g))"
  "\<lambda>_. True" for rnd and f s g :: nat and self
  by unfold_locales (rule macd_series_spec; simp)

section \<open>The range of an EMA\<close>

lemma ema_step_range:
  fixes p :: int
  assumes "0 < p" "lo \<le> a" "a \<le> hi" "lo \<le> x" "x \<le> hi"
  shows "lo \<le> ema_step (\<lambda>x. x) p a x \<and> ema_step (\<lambda>x. x) p a x \<le> hi"
proof -
  let ?al = "2 / (real_of_int p + 1)"
  have al: "0 \<le> ?al" "0 \<le> 1 - ?al" using assms(1) by (simp_all add: divide_le_eq)
  have "?al * lo + (1 - ?al) * lo \<le> ?al * x + (1 - ?al) * a"
    using al assms by (intro add_mono mult_left_mono) auto
  moreover have "?al * x + (1 - ?al) * a \<le> ?al * hi + (1 - ?al) * hi"
    using al assms by (intro add_mono mult_left_mono) auto
  moreover have "?al * y + (1 - ?al) * y = y" for y by (metis add_diff_cancel_left' add_diff_eq distrib_right mult_1)
  ultimately show ?thesis by (simp add: ema_step_def Let_def)
qed

lemma sum_list_range:
  fixes xs :: "real list"
  assumes "\<forall>x \<in> set xs. lo \<le> x \<and> x \<le> hi"
  shows "real (length xs) * lo \<le> sum_list xs \<and> sum_list xs \<le> real (length xs) * hi"
  using assms by (induction xs) (auto simp: algebra_simps)

lemma ema_at_range:
  fixes p :: int
  assumes p: "0 < p" "p \<le> int (length xs)" and range: "\<forall>x \<in> set xs. lo \<le> x \<and> x \<le> hi"
  shows "lo \<le> ema_at (\<lambda>x. x) p xs \<and> ema_at (\<lambda>x. x) p xs \<le> hi"
proof -
  have "\<forall>x \<in> set (take (nat p) xs). lo \<le> x \<and> x \<le> hi" using range by (auto dest: in_set_takeD)
  note sum = sum_list_range [OF this]
  have "real (length (take (nat p) xs)) = of_int p" using p by (simp add: min_absorb2 nat_le_iff)
  with sum p(1) have "lo \<le> ema_seed (\<lambda>x. x) p xs" "ema_seed (\<lambda>x. x) p xs \<le> hi"
    by (simp_all add: ema_seed_def fsum_def le_divide_eq divide_le_eq mult.commute)
  moreover have "\<forall>x \<in> set (drop (nat p) xs). lo \<le> x \<and> x \<le> hi" using range by (auto dest: in_set_dropD)
  moreover have "lo \<le> foldl (ema_step (\<lambda>x. x) p) a ys \<and> foldl (ema_step (\<lambda>x. x) p) a ys \<le> hi"
    if "lo \<le> a" "a \<le> hi" "\<forall>x \<in> set ys. lo \<le> x \<and> x \<le> hi" for a ys
    using that
  proof (induction ys arbitrary: a)
    case (Cons y ys)
    then have "lo \<le> ema_step (\<lambda>x. x) p a y \<and> ema_step (\<lambda>x. x) p a y \<le> hi"
      using p(1) by (intro ema_step_range) auto
    with Cons show ?case by simp
  qed simp
  ultimately show ?thesis by (simp add: ema_at_def)
qed

section \<open>Contract of the MACD indicator\<close>

text \<open>
  The one-pass MACD series equals, under every rounding of the arithmetic, the sequence of
  latest values of the growing history: an EMA never looks ahead.
\<close>

theorem macd_series_latest:
  assumes "0 < f" "f < s" "0 < g"
  shows "macd_calculate_series rnd self (candles cs) (VInt f) (VInt s) (VInt g) =
    prefix_series (\<lambda>ds. calculate_macd rnd (candles ds) (VInt f) (VInt s) (VInt g)) cs"
  using assms by (rule macd_series_spec)

theorem macd_series_latest_witness:
  "macd_calculate_series rnd64 (12, 26, 9) (candles [day 12 9 10, day 13 8 12, day 11 10 10])
      (VInt 1) (VInt 2) (VInt 2) =
    prefix_series (\<lambda>ds. calculate_macd rnd64 (candles ds) (VInt 1) (VInt 2) (VInt 2))
      [day 12 9 10, day 13 8 12, day 11 10 10]"
  by (rule macd_series_latest) auto

text \<open>
  As a formula, the difference line of MACD is bounded by the range of the closes: when all
  closes lie between \<open>lo\<close> and \<open>hi\<close>, the two averages do too and differ by at most \<open>hi - lo\<close>.
\<close>

theorem macd_diff_bounded:
  fixes lo hi :: real
  assumes "calculate_macd (\<lambda>x. x) (candles cs) (VInt f) (VInt s) (VInt g) = Ok r"
    and "\<forall>c \<in> set cs. lo \<le> c_close c \<and> c_close c \<le> hi"
  shows "\<exists>diff dea h. r = MACDResult diff dea h f s g \<and> \<bar>diff\<bar> \<le> hi - lo \<and> h = diff - dea"
proof -
  from assms(1) have per: "0 < f" "f < s" "0 < g"
    by (auto simp: calculate_macd_def macd_periods_def positive_int_ok split: if_splits)
  let ?xs = "close_values cs" and ?n = "length cs"
  let ?ds = "macd_diffs (\<lambda>x. x) f s ?xs"
  from assms(1) per have len: "s + g - 1 \<le> int ?n"
    and r: "r = MACDResult (last ?ds) (ema_at (\<lambda>x. x) g ?ds) (last ?ds - ema_at (\<lambda>x. x) g ?ds) f s g"
    by (auto simp: calculate_macd_candles macd_result_def Let_def dest: make_result_eq split: if_splits)
  have range: "\<forall>x \<in> set ?xs. lo \<le> x \<and> x \<le> hi" using assms(2) by (simp add: close_values_def)
  have "[nat (s - 1)..<?n] = [nat (s - 1)..<?n - 1] @ [?n - 1]"
    using per len by (cases ?n) auto
  then have "last ?ds = diff_at (\<lambda>x. x) f s ?xs (?n - 1)" using per by (simp add: macd_diffs_eq)
  moreover have "take (Suc (?n - 1)) ?xs = ?xs" using per len by simp
  ultimately have "last ?ds = ema_at (\<lambda>x. x) f ?xs - ema_at (\<lambda>x. x) s ?xs" by (simp add: diff_at_def)
  moreover have "lo \<le> ema_at (\<lambda>x. x) f ?xs \<and> ema_at (\<lambda>x. x) f ?xs \<le> hi"
    "lo \<le> ema_at (\<lambda>x. x) s ?xs \<and> ema_at (\<lambda>x. x) s ?xs \<le> hi"
    using per len range by (intro ema_at_range; simp)+
  ultimately show ?thesis using r by auto
qed

theorem macd_diff_bounded_witness:
  "\<exists>diff dea h. MACDResult 1 1 0 1 2 1 = MACDResult diff dea h 1 2 1 \<and> \<bar>diff\<bar> \<le> 12 - 10 \<and> h = diff - dea"
proof -
  have "calculate_macd (\<lambda>x. x) (candles [day 12 9 10, day 13 8 12]) (VInt 1) (VInt 2) (VInt 1) =
      Ok (MACDResult 1 1 0 1 2 1)"
    by (simp add: calculate_macd_def macd_periods_def macd_diffs_def ema_def ema_seed_def ema_step_def
        fsum_def close_values_def macd_result_def make_result_def base_post_init_def check_values_def
        check_parameters_def upt_conv_Cons Let_def normalize_series_def)
  then show ?thesis by (rule macd_diff_bounded) auto
qed

end
