(* ===== verification/Indicator_Registry.thy ===== *)
theory Indicator_Registry
  imports Registry_Contract Moving_Average Rsi Kdj Bollinger Macd
begin

text \<open>
  The indicator registry (\<open>indicators/registry.py\<close>) and the indicator objects it holds: the
  six built-in classes and plugins. Registration is an interpretation of the registry contract.
  A built-in's result passes the registry's re-validation unchanged, and the one-pass series of
  RSI, KDJ and MACD is what the registry's generic day-by-day fallback would produce.
\<close>

section \<open>Definitions\<close>

type_synonym kwargs = "(string, pyval) dict"

text \<open>What a plugin's \<open>calculate\<close> returns: an \<open>IndicatorResult\<close>, or an object of another type.\<close>

datatype returned = Returned indicator_result | ReturnedOther string

datatype indicator_object =
    SMAIndicator int
  | ProjectedMAIndicator int
  | RSIIndicator int
  | KDJIndicator int int int
  | BollingerIndicator int real
  | MACDIndicator int int int
  | Plugin "string option" "(series \<Rightarrow> kwargs \<Rightarrow> returned result) option"
      "(series \<Rightarrow> kwargs \<Rightarrow> returned option list result) option"

text \<open>The constructors of the built-in classes.\<close>

definition new_sma :: "pyval \<Rightarrow> indicator_object result" where
  "new_sma period = emap SMAIndicator (positive_int ''period'' period)"

definition new_projected_ma :: "pyval \<Rightarrow> indicator_object result" where
  "new_projected_ma period = emap ProjectedMAIndicator (positive_int ''period'' period)"

definition new_rsi :: "pyval \<Rightarrow> indicator_object result" where
  "new_rsi period = emap RSIIndicator (positive_int ''period'' period)"

definition new_kdj :: "pyval \<Rightarrow> pyval \<Rightarrow> pyval \<Rightarrow> indicator_object result" where
  "new_kdj period k_period d_period =
     ebind (positive_int ''period'' period) (\<lambda>p.
     ebind (positive_int ''k_period'' k_period) (\<lambda>kp.
     emap (KDJIndicator p kp) (positive_int ''d_period'' d_period)))"

definition new_bollinger :: "(real \<Rightarrow> real) \<Rightarrow> pyval \<Rightarrow> pyval \<Rightarrow> indicator_object result" where
  "new_bollinger rnd period multiplier =
     ebind (positive_int ''period'' period) (\<lambda>p.
     emap (BollingerIndicator p) (positive_number rnd ''multiplier'' multiplier))"

definition new_macd :: "pyval \<Rightarrow> pyval \<Rightarrow> pyval \<Rightarrow> indicator_object result" where
  "new_macd fast_period slow_period signal_period =
     ebind (positive_int ''fast_period'' fast_period) (\<lambda>f.
     ebind (positive_int ''slow_period'' slow_period) (\<lambda>s.
     emap (MACDIndicator f s) (positive_int ''signal_period'' signal_period)))"

fun object_name :: "indicator_object \<Rightarrow> string option" where
  "object_name (SMAIndicator _) = Some ''ma''"
| "object_name (ProjectedMAIndicator _) = Some ''projected_ma''"
| "object_name (RSIIndicator _) = Some ''rsi''"
| "object_name (KDJIndicator _ _ _) = Some ''kdj''"
| "object_name (BollingerIndicator _ _) = Some ''boll''"
| "object_name (MACDIndicator _ _ _) = Some ''macd''"
| "object_name (Plugin name _ _) = name"

fun has_calculate :: "indicator_object \<Rightarrow> bool" where
  "has_calculate (Plugin _ calc _) = (calc \<noteq> None)"
| "has_calculate _ = True"

text \<open>Keyword arguments: a name the method does not have is a \<open>TypeError\<close>.\<close>

definition keywords_in :: "string list \<Rightarrow> kwargs \<Rightarrow> ('a \<Rightarrow> 'b result) \<Rightarrow> 'a \<Rightarrow> 'b result" where
  "keywords_in allowed kw body x =
     (if \<forall>k \<in> set (dict_keys kw). k \<in> set allowed then body x
      else Raise (TypeError ''unexpected keyword argument''))"

definition kw_arg :: "kwargs \<Rightarrow> string \<Rightarrow> pyval" where
  "kw_arg kw name = dict_get_or kw name VNone"

fun object_calculate :: "(real \<Rightarrow> real) \<Rightarrow> indicator_object \<Rightarrow> kwargs \<Rightarrow> series \<Rightarrow> returned result" where
  "object_calculate rnd (SMAIndicator p) kw s = keywords_in [''period''] kw
     (\<lambda>s. emap Returned (sma_calculate rnd p s (kw_arg kw ''period''))) s"
| "object_calculate rnd (ProjectedMAIndicator p) kw s = keywords_in [''period''] kw
     (\<lambda>s. emap Returned (projected_ma_calculate rnd p s (kw_arg kw ''period''))) s"
| "object_calculate rnd (RSIIndicator p) kw s = keywords_in [''period''] kw
     (\<lambda>s. emap Returned (rsi_calculate rnd p s (kw_arg kw ''period''))) s"
| "object_calculate rnd (KDJIndicator p kp dp) kw s =
     keywords_in [''period'', ''k_period'', ''d_period''] kw
     (\<lambda>s. emap Returned (kdj_calculate rnd (p, kp, dp) s (kw_arg kw ''period'')
       (kw_arg kw ''k_period'') (kw_arg kw ''d_period''))) s"
| "object_calculate rnd (BollingerIndicator p m) kw s = keywords_in [''period'', ''multiplier''] kw
     (\<lambda>s. emap Returned (bollinger_calculate rnd (p, m) s (kw_arg kw ''period'')
       (kw_arg kw ''multiplier''))) s"
| "object_calculate rnd (MACDIndicator f s g) kw x =
     keywords_in [''fast_period'', ''slow_period'', ''signal_period''] kw
     (\<lambda>x. emap Returned (macd_calculate rnd (f, s, g) x (kw_arg kw ''fast_period'')
       (kw_arg kw ''slow_period'') (kw_arg kw ''signal_period''))) x"
| "object_calculate rnd (Plugin _ calc _) kw s = (case calc of
     None \<Rightarrow> Raise (TypeError ''object is not callable'') | Some f \<Rightarrow> f s kw)"

text \<open>\<open>getattr(indicator, "calculate_series", None)\<close>, applied to the series.\<close>

definition wrap_items :: "indicator_result option list result \<Rightarrow> returned option list result" where
  "wrap_items m = emap (map (map_option Returned)) m"

fun object_series ::
  "(real \<Rightarrow> real) \<Rightarrow> indicator_object \<Rightarrow> kwargs \<Rightarrow> series \<Rightarrow> returned option list result option"
where
  "object_series rnd (SMAIndicator p) kw s = Some (keywords_in [''period''] kw
     (\<lambda>s. wrap_items (sma_calculate_series rnd p s (kw_arg kw ''period''))) s)"
| "object_series rnd (ProjectedMAIndicator p) kw s = Some (keywords_in [''period''] kw
     (\<lambda>s. wrap_items (projected_ma_calculate_series rnd p s (kw_arg kw ''period''))) s)"
| "object_series rnd (RSIIndicator p) kw s = Some (keywords_in [''period''] kw
     (\<lambda>s. wrap_items (rsi_calculate_series rnd p s (kw_arg kw ''period''))) s)"
| "object_series rnd (KDJIndicator p kp dp) kw s =
     Some (keywords_in [''period'', ''k_period'', ''d_period''] kw
     (\<lambda>s. wrap_items (kdj_calculate_series rnd (p, kp, dp) s (kw_arg kw ''period'')
       (kw_arg kw ''k_period'') (kw_arg kw ''d_period''))) s)"
| "object_series rnd (BollingerIndicator p m) kw s = Some (keywords_in [''period'', ''multiplier''] kw
     (\<lambda>s. wrap_items (bollinger_calculate_series rnd (p, m) s (kw_arg kw ''period'')
       (kw_arg kw ''multiplier''))) s)"
| "object_series rnd (MACDIndicator f s g) kw x =
     Some (keywords_in [''fast_period'', ''slow_period'', ''signal_period''] kw
     (\<lambda>x. wrap_items (macd_calculate_series rnd (f, s, g) x (kw_arg kw ''fast_period'')
       (kw_arg kw ''slow_period'') (kw_arg kw ''signal_period''))) x)"
| "object_series rnd (Plugin _ _ ser) kw s = map_option (\<lambda>f. f s kw) ser"

text \<open>\<open>IndicatorRegistry.register\<close> on an instance; \<open>name or instance.name\<close> resolves the name.\<close>

definition indicator_register ::
  "indicator_object \<Rightarrow> string option \<Rightarrow> string list \<Rightarrow> bool \<Rightarrow> indicator_object registry \<Rightarrow>
     indicator_object registry result"
where
  "indicator_register instance name aliases replace reg =
     (let resolved = (case name of Some (c # cs) \<Rightarrow> Some (c # cs) | _ \<Rightarrow> object_name instance) in
      case resolved of
        None \<Rightarrow> Raise (ValueError ''an indicator must expose a non-empty name'')
      | Some raw \<Rightarrow>
          if strip raw = [] then Raise (ValueError ''an indicator must expose a non-empty name'')
          else let resolved_name = lower (strip raw) in
            if \<not> has_calculate instance
            then Raise (ValueError (''indicator '' @ repr_text resolved_name @ '' must expose calculate()''))
            else register_under
              (''indicator names and aliases must be non-empty'', ''indicator name already registered: '')
              resolved_name (map (\<lambda>alias. lower (strip alias)) aliases) replace instance reg)"

definition indicator_get :: "indicator_object registry \<Rightarrow> string \<Rightarrow> indicator_object result" where
  "indicator_get reg name =
     (if strip name = [] then Raise (UnknownIndicatorError ''indicator name must be non-empty'')
      else case dict_get (reg_entries reg) (lower (strip name)) of
          Some i \<Rightarrow> Ok i
        | None \<Rightarrow> Raise (UnknownIndicatorError (''unknown indicator: '' @ name)))"

definition indicator_names :: "indicator_object registry \<Rightarrow> string list" where
  "indicator_names reg = reg_names reg"

text \<open>\<open>IndicatorRegistry.calculate\<close>: the result's contract is re-run for plugins.\<close>

definition registry_calculate ::
  "(real \<Rightarrow> real) \<Rightarrow> indicator_object registry \<Rightarrow> string \<Rightarrow> kwargs \<Rightarrow> series \<Rightarrow> indicator_result result"
where
  "registry_calculate rnd reg name kw s =
     ebind (indicator_get reg name) (\<lambda>obj.
     ebind (object_calculate rnd obj kw s) (\<lambda>result.
       case result of
         ReturnedOther type_name \<Rightarrow> Raise (ResultValidationError (''indicator '' @ repr_text name @
           '' returned '' @ type_name @ '', expected IndicatorResult''))
       | Returned r \<Rightarrow> make_result rnd r))"

text \<open>The generic path: one latest value per prefix; a day whose calculation raises has none.\<close>

definition series_fallback ::
  "(series_item list \<Rightarrow> indicator_result result) \<Rightarrow> series \<Rightarrow> indicator_result option list result"
where
  "series_fallback calc s = (case s of
      NotASeries \<Rightarrow> Raise (TypeError ''object is not iterable'')
    | Items items \<Rightarrow> Ok (map (\<lambda>index. case calc (take (index + 1) items) of
          Inl _ \<Rightarrow> None | Inr r \<Rightarrow> Some r) [0..<length items]))"

definition check_series_item ::
  "(real \<Rightarrow> real) \<Rightarrow> string \<Rightarrow> returned option \<Rightarrow> indicator_result option result"
where
  "check_series_item rnd name item = (case item of
      None \<Rightarrow> Ok None
    | Some (ReturnedOther _) \<Rightarrow> Raise (ResultValidationError
        (''indicator '' @ repr_text name @ '' returned an invalid series item''))
    | Some (Returned r) \<Rightarrow> emap Some (make_result rnd r))"

definition registry_calculate_series ::
  "(real \<Rightarrow> real) \<Rightarrow> indicator_object registry \<Rightarrow> string \<Rightarrow> kwargs \<Rightarrow> series \<Rightarrow>
     indicator_result option list result"
where
  "registry_calculate_series rnd reg name kw s =
     ebind (indicator_get reg name) (\<lambda>obj.
       case object_series rnd obj kw s of
         None \<Rightarrow> series_fallback (\<lambda>items. registry_calculate rnd reg name kw (Items items)) s
       | Some results \<Rightarrow> ebind results (traverse (check_series_item rnd name)))"

definition default_indicators :: "(real \<Rightarrow> real) \<Rightarrow> (indicator_object \<times> string list) list result" where
  "default_indicators rnd = traverse (\<lambda>(obj, aliases). emap (\<lambda>i. (i, aliases)) obj)
     [(new_sma (VInt 5), [''sma'']),
      (new_projected_ma (VInt 5), [''pma'']),
      (new_rsi (VInt 14), []),
      (new_kdj (VInt 9) (VInt 3) (VInt 3), []),
      (new_bollinger rnd (VInt 20) (VFloat (Fin 2)), [''bollinger'']),
      (new_macd (VInt 12) (VInt 26) (VInt 9), [])]"

definition create_default_registry :: "(real \<Rightarrow> real) \<Rightarrow> indicator_object registry result" where
  "create_default_registry rnd = ebind (default_indicators rnd)
     (\<lambda>objs. register_list (\<lambda>i. indicator_register i None) objs empty_registry)"

section \<open>Registration keeps the registry contract\<close>

definition registry_key :: "string \<Rightarrow> string" where
  "registry_key name = lower (strip name)"

definition own_name :: "indicator_object \<Rightarrow> string" where
  "own_name obj = registry_key (case object_name obj of None \<Rightarrow> [] | Some n \<Rightarrow> n)"

interpretation ind: keyed_registry registry_key own_name "\<lambda>i. indicator_register i None" indicator_get
proof
  fix v :: indicator_object and as rep r r'
  assume "indicator_register v None as rep r = Ok r'"
  then show "\<exists>msg. register_under msg (own_name v) (map registry_key as) rep v r = Ok r'"
    by (auto simp: indicator_register_def own_name_def registry_key_def [abs_def] Let_def
        split: option.splits if_splits)
qed (auto simp: indicator_get_def registry_key_def split: if_splits option.splits)

section \<open>Built-in results survive re-validation\<close>

fun is_builtin :: "indicator_object \<Rightarrow> bool" where
  "is_builtin (Plugin _ _ _) = False"
| "is_builtin _ = True"

text \<open>A latest value of a built-in comes from a validating constructor.\<close>

lemma calculate_valid:
  "calculate_sma rnd s v = Ok r \<Longrightarrow> make_result rnd r = Ok r"
  "calculate_projected_ma rnd s v = Ok r \<Longrightarrow> make_result rnd r = Ok r"
  "calculate_rsi rnd s v = Ok r \<Longrightarrow> make_result rnd r = Ok r"
  "calculate_kdj rnd s v v2 v3 = Ok r \<Longrightarrow> make_result rnd r = Ok r"
  "calculate_bollinger rnd s v v2 = Ok r \<Longrightarrow> make_result rnd r = Ok r"
  "calculate_macd rnd s v v2 v3 = Ok r \<Longrightarrow> make_result rnd r = Ok r"
  by (auto simp: calculate_sma_def calculate_projected_ma_def calculate_rsi_def rsi_result_def
      calculate_kdj_def kdj_result_def calculate_bollinger_def boll_latest_def boll_result_def
      calculate_macd_def macd_result_def Let_def split_beta intro: make_result_again)

lemma object_calculate_valid:
  "is_builtin obj \<Longrightarrow> object_calculate rnd obj kw s = Ok res \<Longrightarrow>
     \<exists>r. res = Returned r \<and> make_result rnd r = Ok r"
  by (cases obj)
    (auto simp: keywords_in_def sma_calculate_def projected_ma_calculate_def rsi_calculate_def
      kdj_calculate_def bollinger_calculate_def macd_calculate_def
      intro: calculate_valid split: if_splits)

lemma registry_calculate_builtin:
  assumes "indicator_get reg name = Ok obj" "is_builtin obj"
  shows "registry_calculate rnd reg name kw s = Ok r \<longleftrightarrow> object_calculate rnd obj kw s = Ok (Returned r)"
proof (cases "object_calculate rnd obj kw s")
  case (Inl e)
  with assms show ?thesis by (simp add: registry_calculate_def)
next
  case (Inr res)
  with object_calculate_valid [OF assms(2)] obtain q where "res = Returned q" "make_result rnd q = Ok q"
    by blast
  with assms Inr show ?thesis by (auto simp: registry_calculate_def)
qed

section \<open>One pass or prefix by prefix\<close>

lemma fallback_pointwise:
  assumes obj: "indicator_get reg name = Ok obj" "is_builtin obj"
    and calc: "\<And>ds. object_calculate rnd obj kw (candles ds) = emap Returned (calc ds)"
  shows "series_fallback (\<lambda>items. registry_calculate rnd reg name kw (Items items)) (candles cs) =
    Ok (map (\<lambda>i. case calc (take (Suc i) cs) of Inl _ \<Rightarrow> None | Inr r \<Rightarrow> Some r) [0..<length cs])"
proof -
  have "(case registry_calculate rnd reg name kw (candles ds) of Inl _ \<Rightarrow> None | Inr r \<Rightarrow> Some r) =
      (case calc ds of Inl _ \<Rightarrow> None | Inr r \<Rightarrow> Some r)" for ds
  proof (cases "calc ds")
    case (Inl e)
    with calc obj show ?thesis by (simp add: registry_calculate_def)
  next
    case (Inr r)
    with registry_calculate_builtin [OF obj, of rnd kw "candles ds" r] calc show ?thesis by simp
  qed
  then show ?thesis by (simp add: series_fallback_def take_map)
qed

lemma checked_items:
  assumes "\<And>r. Some r \<in> set out \<Longrightarrow> make_result rnd r = Ok r"
  shows "traverse (check_series_item rnd name) (map (map_option Returned) out) = Ok out"
  using assms
proof (induction out)
  case (Cons x out)
  have "check_series_item rnd name (map_option Returned x) = Ok x"
    using Cons.prems by (cases x) (auto simp: check_series_item_def)
  with Cons show ?case by simp
qed simp

text \<open>
  An object whose two methods satisfy the series contract: what the registry returns for the
  one-pass method is what its own fallback computes.
\<close>

lemma registry_series_fallback:
  assumes obj: "indicator_get reg name = Ok obj" "is_builtin obj"
    and contract: "series_indicator calc ser adm" and adm: "list_all adm cs"
    and calc: "\<And>ds. object_calculate rnd obj kw (candles ds) = emap Returned (calc ds)"
    and ser: "object_series rnd obj kw (candles cs) = Some (wrap_items (ser cs))"
    and valid: "\<And>ds r. calc ds = Ok r \<Longrightarrow> make_result rnd r = Ok r"
    and res: "registry_calculate_series rnd reg name kw (candles cs) = Ok out"
  shows "series_fallback (\<lambda>items. registry_calculate rnd reg name kw (Items items)) (candles cs) = Ok out"
proof -
  from res obj ser obtain out' where out': "ser cs = Ok out'"
    and t: "traverse (check_series_item rnd name) (map (map_option Returned) out') = Ok out"
    by (auto simp: registry_calculate_series_def wrap_items_def)
  have "make_result rnd r = Ok r" if "Some r \<in> set out'" for r
    using series_indicator.series_item_calc [OF contract adm out' that] valid by blast
  with t have "out = out'" using checked_items [of out' rnd name] by simp
  with series_indicator.series_pointwise [OF contract adm out']
    fallback_pointwise [where rnd = rnd and kw = kw and cs = cs, OF obj calc]
  show ?thesis by simp
qed

lemma no_keywords [simp]: "keywords_in allowed [] body x = body x"
  by (simp add: keywords_in_def)

lemma kw_arg_empty [simp]: "kw_arg [] name = VNone"
  by (simp add: kw_arg_def dict_get_or_def)

section \<open>Contract of the registry\<close>

text \<open>
  Registering an indicator makes it, and only it, answer to its own name and to its aliases,
  in any letter case and with surrounding blanks; every other lookup is unchanged; and without
  \<open>replace\<close> none of these names was taken before.
\<close>

theorem indicator_register_lookup:
  assumes "indicator_register obj None aliases replace reg = Ok reg'"
  shows "(registry_key m \<in> insert (own_name obj) (registry_key ` set aliases) \<longrightarrow> indicator_get reg' m = Ok obj) \<and>
    (registry_key m \<notin> insert (own_name obj) (registry_key ` set aliases) \<longrightarrow>
       indicator_get reg' m = indicator_get reg m) \<and>
    (\<not> replace \<longrightarrow> registry_key m \<in> insert (own_name obj) (registry_key ` set aliases) \<longrightarrow>
       (\<forall>old. indicator_get reg m \<noteq> Ok old))"
  using assms ind.register_get [of obj aliases replace reg reg' m]
    ind.register_other [of obj aliases replace reg reg' m]
    ind.register_fresh [of obj aliases reg reg' m] by (cases replace) auto

theorem indicator_register_lookup_witness:
  "\<exists>reg'. indicator_register (RSIIndicator 14) None [''Strength''] False empty_registry = Ok reg' \<and>
     indicator_get reg' '' RSI '' = Ok (RSIIndicator 14) \<and>
     indicator_get reg' ''strength'' = Ok (RSIIndicator 14)"
proof -
  obtain reg' where r: "indicator_register (RSIIndicator 14) None [''Strength''] False empty_registry = Ok reg'"
    by (simp add: indicator_register_def register_under_def empty_registry_def text_eval Let_def)
  have k: "registry_key '' RSI '' = registry_key ''rsi''" "registry_key ''strength'' = registry_key ''Strength''"
    by (simp_all add: registry_key_def text_eval)
  from indicator_register_lookup [OF r, of "'' RSI ''"] indicator_register_lookup [OF r, of "''strength''"]
  show ?thesis using r k by (auto simp: own_name_def)
qed

text \<open>
  The default registry is built without error; it lists the six built-in indicators in
  order and resolves each by its name and by its alias in any letter case, to an instance with
  the documented default parameters.
\<close>

theorem default_registry_complete:
  "\<exists>reg. create_default_registry rnd = Ok reg \<and>
     indicator_names reg = [''ma'', ''projected_ma'', ''rsi'', ''kdj'', ''boll'', ''macd''] \<and>
     registry_inv reg \<and>
     indicator_get reg ''MA'' = Ok (SMAIndicator 5) \<and> indicator_get reg ''sma'' = Ok (SMAIndicator 5) \<and>
     indicator_get reg ''Projected_MA'' = Ok (ProjectedMAIndicator 5) \<and>
     indicator_get reg ''pma'' = Ok (ProjectedMAIndicator 5) \<and>
     indicator_get reg ''RSI'' = Ok (RSIIndicator 14) \<and>
     indicator_get reg ''KDJ'' = Ok (KDJIndicator 9 3 3) \<and>
     indicator_get reg ''boll'' = Ok (BollingerIndicator 20 2) \<and>
     indicator_get reg ''Bollinger'' = Ok (BollingerIndicator 20 2) \<and>
     indicator_get reg ''MACD'' = Ok (MACDIndicator 12 26 9)"
proof -
  let ?objs = "[(SMAIndicator 5, [''sma'']), (ProjectedMAIndicator 5, [''pma'']), (RSIIndicator 14, []),
    (KDJIndicator 9 3 3, []), (BollingerIndicator 20 2, [''bollinger'']), (MACDIndicator 12 26 9, [])]"
  have objs: "default_indicators rnd = Ok ?objs"
    by (simp add: default_indicators_def new_sma_def new_projected_ma_def new_rsi_def new_kdj_def
        new_bollinger_def new_macd_def positive_number_def)
  obtain reg where reg: "register_list (\<lambda>i. indicator_register i None) ?objs empty_registry = Ok reg"
    and names: "reg_names reg = [''ma'', ''projected_ma'', ''rsi'', ''kdj'', ''boll'', ''macd'']"
    by (simp add: indicator_register_def register_under_def empty_registry_def text_eval Let_def)
  have get: "indicator_get reg m = Ok obj"
    if "(obj, as) \<in> set ?objs" "registry_key m \<in> insert (own_name obj) (registry_key ` set as)" for m obj as
    using ind.register_all_get [OF reg that] .
  have "create_default_registry rnd = Ok reg"
    by (simp only: create_default_registry_def objs ebind_simps reg)
  moreover have "registry_inv reg" using ind.register_all_inv [OF reg registry_inv_empty] .
  moreover note names
    get [of "SMAIndicator 5" "[''sma'']" "''MA''"] get [of "SMAIndicator 5" "[''sma'']" "''sma''"]
    get [of "ProjectedMAIndicator 5" "[''pma'']" "''Projected_MA''"]
    get [of "ProjectedMAIndicator 5" "[''pma'']" "''pma''"]
    get [of "RSIIndicator 14" "[]" "''RSI''"] get [of "KDJIndicator 9 3 3" "[]" "''KDJ''"]
    get [of "BollingerIndicator 20 2" "[''bollinger'']" "''boll''"]
    get [of "BollingerIndicator 20 2" "[''bollinger'']" "''Bollinger''"]
    get [of "MACDIndicator 12 26 9" "[]" "''MACD''"]
  ultimately show ?thesis
    by (simp add: indicator_names_def own_name_def registry_key_def text_eval)
qed

text \<open>
  Whatever a built-in indicator calculates passes the registry's re-validation unchanged:
  the registry returns exactly the indicator's own result, and fails exactly when it does.
\<close>

theorem registry_calculate_transparent:
  assumes "indicator_get reg name = Ok obj" "is_builtin obj"
  shows "registry_calculate rnd reg name kw s = Ok r \<longleftrightarrow> object_calculate rnd obj kw s = Ok (Returned r)"
  using assms by (rule registry_calculate_builtin)

theorem registry_calculate_transparent_witness:
  "\<forall>r. registry_calculate rnd64 \<lparr>reg_entries = [(''rsi'', RSIIndicator 14)], reg_names = [''rsi'']\<rparr>
       ''RSI'' [] (candles [day 12 9 10]) = Ok r \<longleftrightarrow>
     object_calculate rnd64 (RSIIndicator 14) [] (candles [day 12 9 10]) = Ok (Returned r)"
  by (intro allI registry_calculate_transparent) (simp_all add: indicator_get_def text_eval)

text \<open>
  For KDJ the registry's one-pass path and its generic fallback, which recalculates the
  latest value of every prefix and maps failures to \<open>None\<close>, return the same series whenever the
  one-pass path returns, under every rounding.
\<close>

theorem registry_kdj_series_fallback:
  assumes "indicator_get reg name = Ok (KDJIndicator p kp dp)" "0 < p" "0 < kp" "0 < dp"
    and "list_all has_range cs"
    and "registry_calculate_series rnd reg name [] (candles cs) = Ok out"
  shows "series_fallback (\<lambda>items. registry_calculate rnd reg name [] (Items items)) (candles cs) = Ok out"
proof -
  obtain a b c where per: "p = 1 + int a" "kp = 1 + int b" "dp = 1 + int c"
    using assms(2-4) by (meson pos_int_cases)
  show ?thesis
  proof (rule registry_series_fallback [OF assms(1) _ kdj_contract.series_indicator_axioms assms(5) _ _ _ assms(6)])
    show "object_series rnd (KDJIndicator p kp dp) [] (candles cs) = Some (wrap_items
        (kdj_calculate_series rnd (p, kp, dp) (candles cs) (VInt (1 + int a)) (VInt (1 + int b)) (VInt (1 + int c))))"
      by (simp add: per kdj_calculate_series_def)
  qed (auto simp: per kdj_calculate_def intro: calculate_valid)
qed

theorem registry_kdj_series_fallback_witness:
  "let reg = \<lparr>reg_entries = [(''kdj'', KDJIndicator 1 1 1)], reg_names = [''kdj'']\<rparr> in
   series_fallback (\<lambda>items. registry_calculate rnd64 reg ''kdj'' [] (Items items)) (candles [day 10 10 10]) =
     Ok [Some (KDJResult 50 50 50 50 1 1 1)]"
proof -
  let ?reg = "\<lparr>reg_entries = [(''kdj'', KDJIndicator 1 1 1)], reg_names = [''kdj'']\<rparr>"
  have get: "indicator_get ?reg ''kdj'' = Ok (KDJIndicator 1 1 1)"
    by (simp add: indicator_get_def text_eval)
  have "kdj_calculate_series rnd64 (1, 1, 1) (candles [day 10 10 10]) VNone VNone VNone =
      Ok [Some (KDJResult 50 50 50 50 1 1 1)]"
    by (simp add: kdj_calculate_series_def normalize_series_def require_ohlc_def push_index_def
        expire_def high_at_def low_at_def kdj_result_def kdj_smooth_def kdj_rsv_def wilder_def
        make_result_def base_post_init_def check_values_def check_parameters_def Let_def)
  moreover have "make_result rnd64 (KDJResult 50 50 50 50 1 1 1) = Ok (KDJResult 50 50 50 50 1 1 1)"
    by (simp add: make_result_def base_post_init_def check_values_def check_parameters_def Let_def)
  ultimately have "registry_calculate_series rnd64 ?reg ''kdj'' [] (candles [day 10 10 10]) =
      Ok [Some (KDJResult 50 50 50 50 1 1 1)]"
    using get by (simp add: registry_calculate_series_def wrap_items_def check_series_item_def)
  with get show ?thesis
    unfolding Let_def by (intro registry_kdj_series_fallback [where cs = "[day 10 10 10]"]) (auto simp: has_range_def)
qed

end
