(* ===== verification/Python_Values.thy ===== *)
theory Python_Values
  imports Binary64
begin

text \<open>
  Operations of Python's object model on dynamically typed values: equality across the numeric
  types, truthiness, and reading a mapping with text keys. Equality of containers is structural;
  an object outside the listed types equals itself only, and is identified by its name.
\<close>

section \<open>Definitions\<close>

definition fl_eq :: "fl \<Rightarrow> fl \<Rightarrow> bool" where
  "fl_eq a b = (a \<noteq> NaN \<and> a = b)"

text \<open>\<open>bool\<close>, \<open>int\<close>, \<open>float\<close> and \<open>Decimal\<close> compare by numeric value.\<close>

fun numeric_value :: "pyval \<Rightarrow> fl option" where
  "numeric_value (VBool b) = Some (Fin (if b then 1 else 0))"
| "numeric_value (VInt n) = Some (Fin (of_int n))"
| "numeric_value (VFloat f) = Some f"
| "numeric_value (VDecimal f) = Some f"
| "numeric_value _ = None"

definition numeric_eq :: "pyval \<Rightarrow> pyval \<Rightarrow> bool" where
  "numeric_eq a b = (case (numeric_value a, numeric_value b) of
      (Some x, Some y) \<Rightarrow> fl_eq x y | _ \<Rightarrow> False)"

lemma size_in_list: "x \<in> set xs \<Longrightarrow> size x < Suc (size_list size xs)" for x :: pyval
  by (simp add: less_Suc_eq_le size_list_estimation')

lemma size_in_zip: "p \<in> set (zip xs ys) \<Longrightarrow> size (fst p) < Suc (size_list size xs)" for xs :: "pyval list"
  by (cases p) (auto dest: set_zip_leftD intro: size_in_list)

lemma size_in_dict:
  assumes "p \<in> set (xs :: (pyval \<times> pyval) list)"
  shows "size (fst p) < Suc (size_list (size_prod size size) xs)"
    "size (snd p) < Suc (size_list (size_prod size size) xs)"
proof -
  have "size_prod size size p \<le> size_list (size_prod size size) xs"
    using assms by (rule size_list_estimation') simp
  then show "size (fst p) < Suc (size_list (size_prod size size) xs)"
    "size (snd p) < Suc (size_list (size_prod size size) xs)" by (cases p; simp)+
qed

function py_eq :: "pyval \<Rightarrow> pyval \<Rightarrow> bool" where
  "py_eq VNone b = (b = VNone)"
| "py_eq (VBool x) b = numeric_eq (VBool x) b"
| "py_eq (VInt x) b = numeric_eq (VInt x) b"
| "py_eq (VFloat x) b = numeric_eq (VFloat x) b"
| "py_eq (VDecimal x) b = numeric_eq (VDecimal x) b"
| "py_eq (VStr x) b = (b = VStr x)"
| "py_eq (VList xs) b = (case b of
      VList ys \<Rightarrow> length xs = length ys \<and> (\<forall>p \<in> set (zip xs ys). py_eq (fst p) (snd p)) | _ \<Rightarrow> False)"
| "py_eq (VTuple xs) b = (case b of
      VTuple ys \<Rightarrow> length xs = length ys \<and> (\<forall>p \<in> set (zip xs ys). py_eq (fst p) (snd p)) | _ \<Rightarrow> False)"
| "py_eq (VSet xs) b = (case b of
      VSet ys \<Rightarrow> length xs = length ys \<and> (\<forall>x \<in> set xs. \<exists>y \<in> set ys. py_eq x y) | _ \<Rightarrow> False)"
| "py_eq (VDict xs) b = (case b of
      VDict ys \<Rightarrow> length xs = length ys \<and>
        (\<forall>p \<in> set xs. \<exists>q \<in> set ys. py_eq (fst p) (fst q) \<and> py_eq (snd p) (snd q)) | _ \<Rightarrow> False)"
| "py_eq (VObj x) b = (b = VObj x)"
  by (pat_completeness, simp_all)
termination
  by (relation "measure (size \<circ> fst)") (auto dest: size_in_list size_in_zip size_in_dict)

text \<open>\<open>not value\<close>.\<close>

fun py_falsy :: "pyval \<Rightarrow> bool" where
  "py_falsy VNone = True"
| "py_falsy (VBool b) = (\<not> b)"
| "py_falsy (VInt n) = (n = 0)"
| "py_falsy (VFloat f) = (f = Fin 0)"
| "py_falsy (VDecimal f) = (f = Fin 0)"
| "py_falsy (VStr s) = (s = [])"
| "py_falsy (VList xs) = (xs = [])"
| "py_falsy (VTuple xs) = (xs = [])"
| "py_falsy (VSet xs) = (xs = [])"
| "py_falsy (VDict d) = (d = [])"
| "py_falsy (VObj _) = False"

text \<open>A dictionary with text keys as a value, and the entry \<open>d.get(name)\<close> of a mapping.\<close>

definition as_object :: "(string, pyval) dict \<Rightarrow> pyval" where
  "as_object d = VDict (map (\<lambda>(k, v). (VStr k, v)) d)"

definition mapping_get :: "(pyval \<times> pyval) list \<Rightarrow> string \<Rightarrow> pyval option" where
  "mapping_get d name = dict_get d (VStr name)"

section \<open>Properties\<close>

lemma mapping_get_as_object [simp]:
  "mapping_get (map (\<lambda>(k, v). (VStr k, v)) d) name = dict_get d name"
  unfolding mapping_get_def by (induction d) auto

text \<open>A value without a NaN in it equals itself.\<close>

fun nan_free :: "pyval \<Rightarrow> bool" where
  "nan_free (VFloat f) = (f \<noteq> NaN)"
| "nan_free (VDecimal f) = (f \<noteq> NaN)"
| "nan_free (VList xs) = list_all nan_free xs"
| "nan_free (VTuple xs) = list_all nan_free xs"
| "nan_free (VSet xs) = list_all nan_free xs"
| "nan_free (VDict d) = list_all (\<lambda>(k, v). nan_free k \<and> nan_free v) d"
| "nan_free _ = True"

lemma py_eq_refl: "nan_free v \<Longrightarrow> py_eq v v"
proof (induction v rule: nan_free.induct)
  case (3 xs)
  then have "\<forall>p \<in> set (zip xs xs). py_eq (fst p) (snd p)"
    by (auto simp: list_all_iff zip_same_conv_map)
  then show ?case by simp
next
  case (4 xs)
  then have "\<forall>p \<in> set (zip xs xs). py_eq (fst p) (snd p)"
    by (auto simp: list_all_iff zip_same_conv_map)
  then show ?case by simp
next
  case (6 d)
  have "\<exists>q \<in> set d. py_eq (fst p) (fst q) \<and> py_eq (snd p) (snd q)" if "p \<in> set d" for p
    using that 6 by (intro bexI [of _ p]) (cases p; auto simp: list_all_iff)+
  then show ?case by simp
qed (auto simp: numeric_eq_def fl_eq_def list_all_iff)

end
