(* ===== verification/Parameters.thy ===== *)
theory Parameters
  imports Python_Values "HOL-Library.Product_Lexorder"
begin

text \<open>
  Canonical indicator parameters (\<open>indicators/parameters.py\<close>) and output-field metadata
  (\<open>indicators/metadata.py\<close>): the shared identity of a parameter set, requests and their
  merging, the history they need, and the variants of a stored snapshot.

  \<open>parameter_key\<close> hashes the JSON text of the canonical value with SHA-256. The hash of that text
  is the argument \<open>digest\<close>, a function of the canonical value, because \<open>json.dumps\<close> with sorted
  keys is one. Theorems that need two different parameter sets to have different keys say so.

  Arguments typed \<open>Mapping\<close> are mappings or \<open>None\<close>; a nested JSON object has text keys.
\<close>

section \<open>Constants\<close>

definition bad_parameters :: "string \<Rightarrow> exn" where
  "bad_parameters message = ApiError ''INVALID_INDICATOR_PARAMETERS'' message 400"

definition MAX_INDICATOR_PERIOD :: int where "MAX_INDICATOR_PERIOD = 10000"
definition MAX_MA_PERIODS :: nat where "MAX_MA_PERIODS = 32"

definition DEFAULT_MA_PERIODS :: "int list" where "DEFAULT_MA_PERIODS = [5, 10]"

definition INDICATOR_ALIASES :: "(string, string) dict" where
  "INDICATOR_ALIASES = [(''SMA'', ''MA''), (''PMA'', ''PROJECTED_MA''),
     (''PROJECTEDMA'', ''PROJECTED_MA''), (''BOLLINGER'', ''BOLL'')]"

definition INDICATOR_PARAMETER_KEYS :: "(string, string list) dict" where
  "INDICATOR_PARAMETER_KEYS =
     [(''MA'', [''period'', ''periods'']),
      (''PROJECTED_MA'', [''period'']),
      (''RSI'', [''period'']),
      (''KDJ'', [''period'', ''k_period'', ''d_period'']),
      (''BOLL'', [''period'', ''multiplier'']),
      (''MACD'', [''fast_period'', ''slow_period'', ''signal_period''])]"

definition INTEGER_PARAMETER_KEYS :: "string list" where
  "INTEGER_PARAMETER_KEYS = [''period'', ''periods'', ''k_period'', ''d_period'', ''fast_period'',
     ''slow_period'', ''signal_period'']"

definition DEFAULT_PARAMETER_MAP :: "(string, (string, pyval) dict) dict" where
  "DEFAULT_PARAMETER_MAP =
     [(''MA'', [(''periods'', VList (map VInt DEFAULT_MA_PERIODS))]),
      (''PROJECTED_MA'', [(''period'', VInt 5)]),
      (''RSI'', [(''period'', VInt 14)]),
      (''KDJ'', [(''period'', VInt 9), (''k_period'', VInt 3), (''d_period'', VInt 3)]),
      (''BOLL'', [(''period'', VInt 20), (''multiplier'', VFloat (Fin 2))]),
      (''MACD'', [(''fast_period'', VInt 12), (''slow_period'', VInt 26), (''signal_period'', VInt 9)])]"

record indicator_request =
  ir_type :: string
  ir_parameters :: "(string, pyval) dict"

record indicator_variant =
  iv_type :: string
  iv_key :: string
  iv_parameters :: "(string, pyval) dict"
  iv_values :: "(string, fl) dict"
  iv_previous :: "(string, fl) dict option"
  iv_delta :: "(string, fl) dict option"

section \<open>Normalization of types and values\<close>

definition underscore :: "char \<Rightarrow> char" where
  "underscore c = (if c = CHR ''-'' \<or> c = CHR '' '' then CHR ''_'' else c)"

definition normalize_indicator_type :: "string \<Rightarrow> string result" where
  "normalize_indicator_type v =
     (if strip v = [] then Raise (bad_parameters ''Indicator type is required.'')
      else let normalized = map underscore (upper (strip v))
           in Ok (dict_get_or INDICATOR_ALIASES normalized normalized))"

definition default_parameters :: "string \<Rightarrow> (string, pyval) dict result" where
  "default_parameters t = emap (\<lambda>n. dict_get_or DEFAULT_PARAMETER_MAP n []) (normalize_indicator_type t)"

text \<open>\<open>_normalize_parameter_value\<close>: periods are integers in range, the rest positive floats.\<close>

definition normalize_period :: "string \<Rightarrow> pyval \<Rightarrow> pyval result" where
  "normalize_period key v =
     (let bad = bad_parameters (''Indicator parameter '' @ key @ '' must be a positive integer.'') in
      ebind (case v of
          VInt n \<Rightarrow> Ok n
        | VFloat (Fin r) \<Rightarrow> if r = of_int \<lfloor>r\<rfloor> then Ok \<lfloor>r\<rfloor> else Raise bad
        | _ \<Rightarrow> Raise bad)
        (\<lambda>n. if n \<le> 0 then Raise bad
          else if n > MAX_INDICATOR_PERIOD
          then Raise (bad_parameters (''Indicator parameter '' @ key @ '' must not exceed '' @
            int_str MAX_INDICATOR_PERIOD @ ''.''))
          else Ok (VInt n)))"

definition positive_finite :: "string \<Rightarrow> fl \<Rightarrow> pyval result" where
  "positive_finite key f =
     (let bad = bad_parameters (''Indicator parameter '' @ key @ '' must be positive and finite.'') in
      ebind (finite_or f bad) (\<lambda>r. if r \<le> 0 then Raise bad else Ok (VFloat (Fin r))))"

definition normalize_parameter_value :: "(real \<Rightarrow> real) \<Rightarrow> string \<Rightarrow> pyval \<Rightarrow> pyval result" where
  "normalize_parameter_value rnd key v =
     (if key \<in> set INTEGER_PARAMETER_KEYS then normalize_period key v
      else case v of
          VInt n \<Rightarrow> ebind (to_float rnd (VInt n)) (positive_finite key)
        | VFloat f \<Rightarrow> positive_finite key f
        | _ \<Rightarrow> Raise (bad_parameters (''Indicator parameter '' @ key @ '' must be numeric.'')))"

text \<open>\<open>{key: d[key] for key in sorted(d)}\<close>.\<close>

definition sorted_dict :: "('k :: linorder, 'v) dict \<Rightarrow> ('k, 'v) dict" where
  "sorted_dict d = map (\<lambda>k. (k, the (dict_get d k))) (sort (dict_keys d))"

text \<open>\<open>_normalize_json_value\<close> for the parameters of indicators outside the built-in table.\<close>

definition text_key :: "pyval \<times> 'a \<Rightarrow> (string \<times> 'a) result" where
  "text_key = (\<lambda>(k, v). case k of VStr s \<Rightarrow> Ok (s, v)
     | _ \<Rightarrow> Raise (TypeError ''keys of a nested object must be text''))"

lemma sorted_dict_subset: "p \<in> set (sorted_dict d) \<Longrightarrow> p \<in> set d"
proof -
  assume "p \<in> set (sorted_dict d)"
  then obtain k where k: "k \<in> set (dict_keys d)" "p = (k, the (dict_get d k))"
    by (auto simp: sorted_dict_def)
  from k(1) obtain v where "dict_get d k = Some v" by (metis map_of_eq_None_iff not_None_eq set_map)
  with k(2) show ?thesis by (auto dest: map_of_SomeD)
qed

lemma traverse_text_key:
  "traverse text_key d = Ok named \<Longrightarrow> (k, v) \<in> set named \<Longrightarrow> (VStr k, v) \<in> set d"
  by (induction d arbitrary: named) (auto simp: text_key_def split: pyval.splits)

function normalize_json_value :: "(real \<Rightarrow> real) \<Rightarrow> pyval \<Rightarrow> pyval result" where
  "normalize_json_value rnd VNone = Ok VNone"
| "normalize_json_value rnd (VBool b) = Ok (VBool b)"
| "normalize_json_value rnd (VStr s) = Ok (VStr s)"
| "normalize_json_value rnd (VInt n) = emap (\<lambda>_. VInt n) (to_float rnd (VInt n))"
| "normalize_json_value rnd (VFloat f) = emap (\<lambda>_. VFloat f)
     (finite_or f (bad_parameters ''Indicator parameters must contain finite numbers.''))"
| "normalize_json_value rnd (VList xs) = emap VList (traverse (normalize_json_value rnd) xs)"
| "normalize_json_value rnd (VTuple xs) = emap VList (traverse (normalize_json_value rnd) xs)"
| "normalize_json_value rnd (VDict d) =
     ebind (traverse text_key d) (\<lambda>named.
       emap as_object (traverse (\<lambda>p. emap (\<lambda>v. (fst p, v)) (normalize_json_value rnd (snd p)))
         (sorted_dict named)))"
| "normalize_json_value rnd (VDecimal f) =
     Raise (bad_parameters ''Indicator parameters contain an unsupported value.'')"
| "normalize_json_value rnd (VSet xs) =
     Raise (bad_parameters ''Indicator parameters contain an unsupported value.'')"
| "normalize_json_value rnd (VObj t) =
     Raise (bad_parameters ''Indicator parameters contain an unsupported value.'')"
  by (pat_completeness, simp_all)
termination
proof (relation "measure (size \<circ> snd)")
  fix rnd :: "real \<Rightarrow> real" and d :: "(pyval \<times> pyval) list" and named p
  assume n: "traverse text_key d = Ok named" and p: "p \<in> set (sorted_dict named)"
  obtain k v where kv: "p = (k, v)" by (cases p)
  with p have "(k, v) \<in> set named" using sorted_dict_subset by blast
  with n have "(VStr k, v) \<in> set d" by (rule traverse_text_key)
  from size_in_dict(2) [OF this] kv
  show "((rnd, snd p), rnd, VDict d) \<in> measure (size \<circ> snd)" by simp
qed (auto dest: size_in_list)

definition normalize_json_parameters :: "(real \<Rightarrow> real) \<Rightarrow> pyval \<Rightarrow> pyval result" where
  "normalize_json_parameters rnd v = (case v of
      VDict d \<Rightarrow> normalize_json_value rnd (VDict d)
    | _ \<Rightarrow> Raise (bad_parameters ''Indicator parameters must be an object.''))"

section \<open>Canonical parameters\<close>

text \<open>The names: stripped, in lower case, the multiplier's aliases resolved, no conflicts.\<close>

definition parameter_name :: "string \<Rightarrow> string \<Rightarrow> string" where
  "parameter_name t key =
     (let k = lower (strip key) in
      if t = ''BOLL'' \<and> k \<in> {''std'', ''stddev'', ''std_dev''} then ''multiplier'' else k)"

fun collect_raw :: "string \<Rightarrow> (pyval \<times> pyval) list \<Rightarrow> (string, pyval) dict \<Rightarrow> (string, pyval) dict result"
where
  "collect_raw t [] raw = Ok raw"
| "collect_raw t ((key, v) # rest) raw = (case key of
      VStr s \<Rightarrow>
        if strip s = []
        then Raise (bad_parameters ''Indicator parameter names must be non-empty strings.'')
        else let k = parameter_name t s in
          if (case dict_get raw k of None \<Rightarrow> False | Some old \<Rightarrow> \<not> py_eq old v)
          then Raise (bad_parameters ''Indicator parameters contain duplicate names.'')
          else collect_raw t rest (dict_set k v raw)
    | _ \<Rightarrow> Raise (bad_parameters ''Indicator parameter names must be non-empty strings.''))"

text \<open>The members of a list, tuple or set.\<close>

definition sequence_items :: "pyval \<Rightarrow> pyval list option" where
  "sequence_items v = (case v of VList xs \<Rightarrow> Some xs | VTuple xs \<Rightarrow> Some xs | VSet xs \<Rightarrow> Some xs | _ \<Rightarrow> None)"

definition period_of :: "pyval \<Rightarrow> int" where
  "period_of v = (case v of VInt n \<Rightarrow> n | _ \<Rightarrow> 0)"

definition canonical_periods :: "pyval \<Rightarrow> (string, pyval) dict result" where
  "canonical_periods v = (case sequence_items v of
      Some (x # xs) \<Rightarrow>
        ebind (traverse (normalize_period ''period'') (x # xs)) (\<lambda>ps.
          let periods = sorted_list_of_set (period_of ` set ps) in
          if length periods > MAX_MA_PERIODS
          then Raise (bad_parameters (''MA accepts at most '' @ nat_str MAX_MA_PERIODS @ '' distinct periods.''))
          else Ok [(''periods'', VList (map VInt periods))])
    | _ \<Rightarrow> Raise (bad_parameters ''MA periods must be a non-empty list.''))"

definition canonicalize_ma ::
  "(string, pyval) dict \<Rightarrow> bool \<Rightarrow> (string, pyval) dict result"
where
  "canonicalize_ma raw fill_defaults = (case (dict_get raw ''period'', dict_get raw ''periods'') of
      (Some _, Some _) \<Rightarrow> Raise (bad_parameters ''MA accepts either period or periods, not both.'')
    | (Some p, None) \<Rightarrow> emap (\<lambda>v. [(''period'', v)]) (normalize_period ''period'' p)
    | (None, Some ps) \<Rightarrow> canonical_periods ps
    | (None, None) \<Rightarrow> if fill_defaults then default_parameters ''MA'' else Ok [])"

fun normalize_into ::
  "(real \<Rightarrow> real) \<Rightarrow> bool \<Rightarrow> (string, pyval) dict \<Rightarrow> (string, pyval) dict \<Rightarrow> (string, pyval) dict result"
where
  "normalize_into rnd known [] acc = Ok acc"
| "normalize_into rnd known ((k, v) # rest) acc =
     ebind (if known then normalize_parameter_value rnd k v else normalize_json_value rnd v)
       (\<lambda>v'. normalize_into rnd known rest (dict_set k v' acc))"

definition macd_order_ok :: "(string, pyval) dict \<Rightarrow> bool" where
  "macd_order_ok d = (case (dict_get d ''fast_period'', dict_get d ''slow_period'') of
      (Some f, Some s) \<Rightarrow> period_of f < period_of s | _ \<Rightarrow> True)"

definition canonicalize_parameters ::
  "(real \<Rightarrow> real) \<Rightarrow> string \<Rightarrow> pyval \<Rightarrow> bool \<Rightarrow> (string, pyval) dict result"
where
  "canonicalize_parameters rnd indicator_type parameters fill_defaults =
     ebind (normalize_indicator_type indicator_type) (\<lambda>t.
     ebind (case parameters of VNone \<Rightarrow> Ok [] | VDict d \<Rightarrow> Ok d
        | _ \<Rightarrow> Raise (bad_parameters ''Indicator parameters must be an object.'')) (\<lambda>d.
     ebind (collect_raw t d []) (\<lambda>raw.
       let allowed = dict_get INDICATOR_PARAMETER_KEYS t in
       if (case allowed of None \<Rightarrow> False | Some ks \<Rightarrow> \<exists>k \<in> set (dict_keys raw). k \<notin> set ks)
       then Raise (bad_parameters ''Indicator parameters contain unsupported names.'')
       else if t = ''MA'' then canonicalize_ma raw fill_defaults
       else
         ebind (if fill_defaults then default_parameters t else Ok []) (\<lambda>base.
         ebind (normalize_into rnd (allowed \<noteq> None) raw base) (\<lambda>normalized.
           if t = ''MACD'' \<and> \<not> macd_order_ok normalized
           then Raise (bad_parameters ''MACD fast_period must be less than slow_period.'')
           else Ok (sorted_dict normalized))))))"

text \<open>The identity shared by watch columns and alerts: MA states have a short and a long period.\<close>

definition bad_state_parameters :: "string \<Rightarrow> exn" where
  "bad_state_parameters message = ApiError ''INVALID_STATE_PARAMETERS'' message 400"

definition ma_state_period :: "(pyval \<times> pyval) list \<Rightarrow> string \<Rightarrow> int \<Rightarrow> pyval result" where
  "ma_state_period raw name fallback =
     (let plain = mapping_get raw name; aliased = mapping_get raw (name @ ''_period'');
          v = (case aliased of Some x \<Rightarrow> x | None \<Rightarrow> (case plain of Some x \<Rightarrow> x | None \<Rightarrow> VInt fallback))
      in if (case (plain, aliased) of (Some x, Some _) \<Rightarrow> \<not> py_eq x v | _ \<Rightarrow> False)
         then Raise (bad_state_parameters ''MA state aliases conflict.'')
         else normalize_period ''period'' v)"

definition canonicalize_state_parameters ::
  "(real \<Rightarrow> real) \<Rightarrow> string \<Rightarrow> pyval \<Rightarrow> (string, pyval) dict result"
where
  "canonicalize_state_parameters rnd indicator_type parameters =
     ebind (normalize_indicator_type indicator_type) (\<lambda>t.
       if t \<noteq> ''MA'' then canonicalize_parameters rnd t parameters True
       else
         ebind (case parameters of VDict d \<Rightarrow> Ok d
           | _ \<Rightarrow> if py_falsy parameters then Ok [] else Raise (TypeError ''object is not a mapping'')) (\<lambda>raw.
         if \<exists>k \<in> set (dict_keys raw). k \<notin> VStr ` {''short'', ''long'', ''short_period'', ''long_period''}
         then Raise (bad_state_parameters ''Unsupported MA state parameters.'')
         else
           ebind (ma_state_period raw ''short'' (DEFAULT_MA_PERIODS ! 0)) (\<lambda>sp.
           ebind (ma_state_period raw ''long'' (DEFAULT_MA_PERIODS ! 1)) (\<lambda>lp.
             if period_of sp \<ge> period_of lp
             then Raise (bad_state_parameters ''MA short period must precede long period.'')
             else Ok [(''short_period'', sp), (''long_period'', lp)]))))"

definition state_indicator_request :: "(real \<Rightarrow> real) \<Rightarrow> string \<Rightarrow> pyval \<Rightarrow> indicator_request result" where
  "state_indicator_request rnd indicator_type parameters =
     ebind (canonicalize_state_parameters rnd indicator_type parameters) (\<lambda>normalized.
     emap (\<lambda>t. \<lparr>ir_type = t, ir_parameters =
        (if t = ''MA''
         then [(''periods'', VList [the (dict_get normalized ''short_period''),
                the (dict_get normalized ''long_period'')])]
         else normalized)\<rparr>) (normalize_indicator_type indicator_type))"

section \<open>Keys and requests\<close>

definition parameter_key ::
  "(real \<Rightarrow> real) \<Rightarrow> (string \<Rightarrow> (string, pyval) dict \<Rightarrow> string) \<Rightarrow> string \<Rightarrow> pyval \<Rightarrow> string result"
where
  "parameter_key rnd digest indicator_type parameters =
     ebind (normalize_indicator_type indicator_type) (\<lambda>t.
     emap (\<lambda>canonical.
        let content = (case dict_get canonical ''period'' of
              Some p \<Rightarrow> if t = ''MA'' then [(''periods'', VList [p])] else canonical
            | None \<Rightarrow> canonical)
        in ''v1_'' @ digest t content)
       (canonicalize_parameters rnd t parameters False))"

abbreviation request_key ::
  "(real \<Rightarrow> real) \<Rightarrow> (string \<Rightarrow> (string, pyval) dict \<Rightarrow> string) \<Rightarrow> indicator_request \<Rightarrow> string result"
where
  "request_key rnd digest r \<equiv> parameter_key rnd digest (ir_type r) (as_object (ir_parameters r))"

definition ma_periods :: "(string, pyval) dict \<Rightarrow> int list" where
  "ma_periods d = (case dict_get d ''periods'' of
      Some v \<Rightarrow> (case sequence_items v of Some xs \<Rightarrow> map period_of xs | None \<Rightarrow> [])
    | None \<Rightarrow> (case dict_get d ''period'' of Some p \<Rightarrow> [period_of p] | None \<Rightarrow> []))"

text \<open>
  The shapes of one raw request: a request, a pair, a mapping with an \<open>indicator_type\<close> entry, a
  mapping from types to parameters or lists of parameters, or something else.
\<close>

datatype raw_request =
    RawRequest indicator_request
  | RawPair string "(string, pyval) dict"
  | RawTyped string pyval
  | RawByType "(string \<times> pyval) list"
  | RawOther

definition string_dict :: "pyval \<Rightarrow> (string, pyval) dict result" where
  "string_dict v = (case v of
      VDict d \<Rightarrow> traverse text_key d
    | _ \<Rightarrow> if py_falsy v then Ok [] else Raise (TypeError ''object is not a mapping''))"

definition is_mapping :: "pyval \<Rightarrow> bool" where
  "is_mapping v = (case v of VDict _ \<Rightarrow> True | _ \<Rightarrow> False)"

definition make_request :: "string \<Rightarrow> pyval \<Rightarrow> indicator_request result" where
  "make_request t v = emap (\<lambda>d. \<lparr>ir_type = t, ir_parameters = d\<rparr>) (string_dict v)"

definition coerce_entry :: "string \<times> pyval \<Rightarrow> indicator_request list result" where
  "coerce_entry = (\<lambda>(t, v). case v of
      VList items \<Rightarrow> if list_all is_mapping items then traverse (make_request t) items
                     else emap (\<lambda>r. [r]) (make_request t v)
    | _ \<Rightarrow> emap (\<lambda>r. [r]) (make_request t v))"

fun coerce_request :: "raw_request \<Rightarrow> indicator_request list result" where
  "coerce_request (RawRequest r) = Ok [r]"
| "coerce_request (RawPair t d) = Ok [\<lparr>ir_type = t, ir_parameters = d\<rparr>]"
| "coerce_request (RawTyped t v) = emap (\<lambda>r. [r]) (make_request t v)"
| "coerce_request (RawByType entries) = emap concat (traverse coerce_entry entries)"
| "coerce_request RawOther =
     Raise (TypeError ''indicator requests must be IndicatorRequest, pairs, or mappings'')"

definition coerce_requests :: "raw_request list \<Rightarrow> indicator_request list result" where
  "coerce_requests rs = emap concat (traverse coerce_request rs)"

definition default_requests :: "(real \<Rightarrow> real) \<Rightarrow> indicator_request list result" where
  "default_requests rnd = traverse (\<lambda>t.
     ebind (default_parameters t) (\<lambda>d.
     emap (\<lambda>c. \<lparr>ir_type = t, ir_parameters = c\<rparr>) (canonicalize_parameters rnd t (as_object d) True)))
     (dict_keys DEFAULT_PARAMETER_MAP)"

type_synonym merge_state =
  "(int list, indicator_request) dict \<times> (string \<times> string, indicator_request) dict"

definition merge_one ::
  "(real \<Rightarrow> real) \<Rightarrow> (string \<Rightarrow> (string, pyval) dict \<Rightarrow> string) \<Rightarrow> indicator_request \<Rightarrow> merge_state \<Rightarrow>
     merge_state result"
where
  "merge_one rnd digest r = (\<lambda>(mas, others).
     ebind (normalize_indicator_type (ir_type r)) (\<lambda>t.
     ebind (canonicalize_parameters rnd t (as_object (ir_parameters r)) True) (\<lambda>ps.
       if t = ''MA'' then
         let periods = sorted_list_of_set (set (ma_periods ps)) in
         Ok (dict_set periods \<lparr>ir_type = ''MA'',
               ir_parameters = [(''periods'', VList (map VInt periods))]\<rparr> mas, others)
       else
         let n = \<lparr>ir_type = t, ir_parameters = ps\<rparr> in
         emap (\<lambda>k. (mas, dict_set (t, k) n others)) (request_key rnd digest n))))"

fun merge_all ::
  "(real \<Rightarrow> real) \<Rightarrow> (string \<Rightarrow> (string, pyval) dict \<Rightarrow> string) \<Rightarrow> indicator_request list \<Rightarrow> merge_state \<Rightarrow>
     merge_state result"
where
  "merge_all rnd digest [] st = Ok st"
| "merge_all rnd digest (r # rs) st = ebind (merge_one rnd digest r st) (merge_all rnd digest rs)"

text \<open>\<open>sorted(requests, key=...)\<close> by type and key; within one type by key.\<close>

definition sort_requests ::
  "(real \<Rightarrow> real) \<Rightarrow> (string \<Rightarrow> (string, pyval) dict \<Rightarrow> string) \<Rightarrow> indicator_request list \<Rightarrow>
     indicator_request list result"
where
  "sort_requests rnd digest rs =
     emap (\<lambda>keyed. map snd (sort_key fst keyed))
       (traverse (\<lambda>r. emap (\<lambda>k. ((ir_type r, k), r)) (request_key rnd digest r)) rs)"

definition merge_indicator_requests ::
  "(real \<Rightarrow> real) \<Rightarrow> (string \<Rightarrow> (string, pyval) dict \<Rightarrow> string) \<Rightarrow> raw_request list option \<Rightarrow>
     indicator_request list result"
where
  "merge_indicator_requests rnd digest requests =
     ebind (default_requests rnd) (\<lambda>defaults.
     ebind (case requests of None \<Rightarrow> Ok [] | Some rs \<Rightarrow> coerce_requests rs) (\<lambda>extra.
     ebind (merge_all rnd digest (defaults @ extra) ([], [])) (\<lambda>(mas, others).
     ebind (sort_requests rnd digest (map snd mas)) (\<lambda>ms.
     emap ((@) ms) (sort_requests rnd digest (map snd others))))))"

text \<open>The completed daily bars one request needs.\<close>

definition int_parameter :: "(string, pyval) dict \<Rightarrow> string \<Rightarrow> int \<Rightarrow> int" where
  "int_parameter d name fallback = (case dict_get d name of Some v \<Rightarrow> period_of v | None \<Rightarrow> fallback)"

definition request_history :: "string \<Rightarrow> (string, pyval) dict \<Rightarrow> int \<Rightarrow> int" where
  "request_history t ps required =
     (if t = ''MA'' then
        let ns = (case dict_get ps ''periods'' of
              Some v \<Rightarrow> if py_falsy v then [int_parameter ps ''period'' 1]
                         else (case sequence_items v of Some xs \<Rightarrow> map period_of xs | None \<Rightarrow> [])
            | None \<Rightarrow> [int_parameter ps ''period'' 1])
        in foldl max required ns
      else if t = ''PROJECTED_MA'' then max required (int_parameter ps ''period'' 5)
      else if t = ''RSI'' then max required (int_parameter ps ''period'' 14 + 1)
      else if t = ''KDJ'' then max required (int_parameter ps ''period'' 9)
      else if t = ''BOLL'' then max required (int_parameter ps ''period'' 20)
      else if t = ''MACD'' then max required
        (int_parameter ps ''slow_period'' 26 + int_parameter ps ''signal_period'' 9 - 1)
      else required)"

fun history_loop :: "(real \<Rightarrow> real) \<Rightarrow> indicator_request list \<Rightarrow> int \<Rightarrow> int result" where
  "history_loop rnd [] required = Ok required"
| "history_loop rnd (r # rs) required =
     ebind (normalize_indicator_type (ir_type r)) (\<lambda>t.
     ebind (canonicalize_parameters rnd t (as_object (ir_parameters r)) True) (\<lambda>ps.
       history_loop rnd rs (request_history t ps required)))"

definition required_history_bars ::
  "(real \<Rightarrow> real) \<Rightarrow> (string \<Rightarrow> (string, pyval) dict \<Rightarrow> string) \<Rightarrow> raw_request list option \<Rightarrow> int result"
where
  "required_history_bars rnd digest requests =
     ebind (merge_indicator_requests rnd digest requests) (\<lambda>rs. history_loop rnd rs 1)"

section \<open>Snapshot variants\<close>

text \<open>A stored snapshot row: its type and four JSON columns.\<close>

record snapshot_row =
  row_type :: string
  row_parameters :: pyval
  row_values :: pyval
  row_previous :: pyval
  row_delta :: pyval

definition mapping_or :: "pyval \<Rightarrow> (pyval \<times> pyval) list" where
  "mapping_or v = (case v of VDict d \<Rightarrow> d | _ \<Rightarrow> [])"

text \<open>\<open>_float_mapping\<close> on a mapping of numbers.\<close>

definition float_mapping :: "(real \<Rightarrow> real) \<Rightarrow> (pyval \<times> pyval) list \<Rightarrow> (string, fl) dict result" where
  "float_mapping rnd d = traverse (\<lambda>p. ebind (text_key p) (\<lambda>(k, v). emap (Pair k) (to_float rnd v))) d"

definition optional_floats ::
  "(real \<Rightarrow> real) \<Rightarrow> (pyval \<times> pyval) list \<Rightarrow> string \<Rightarrow> (string, fl) dict option result"
where
  "optional_floats rnd column key = (case mapping_get column key of
      Some (VDict d) \<Rightarrow> emap Some (float_mapping rnd d) | _ \<Rightarrow> Ok None)"

definition bad_variant :: exn where
  "bad_variant = ApiError ''INVALID_SNAPSHOT_VARIANT'' ''Indicator snapshot variant is inconsistent.'' 409"

definition read_variant ::
  "(real \<Rightarrow> real) \<Rightarrow> (string \<Rightarrow> (string, pyval) dict \<Rightarrow> string) \<Rightarrow> snapshot_row \<Rightarrow> string \<Rightarrow>
     pyval \<times> pyval \<Rightarrow> indicator_variant result"
where
  "read_variant rnd digest row t = (\<lambda>(raw_key, raw_parameters).
     ebind (canonicalize_parameters rnd t raw_parameters False) (\<lambda>ps.
     ebind (parameter_key rnd digest t (as_object ps)) (\<lambda>key.
       case mapping_get (mapping_or (row_values row)) key of
         Some (VDict values) \<Rightarrow>
           if raw_key \<noteq> VStr key then Raise bad_variant
           else
             ebind (float_mapping rnd values) (\<lambda>vs.
             ebind (optional_floats rnd (mapping_or (row_previous row)) key) (\<lambda>prior.
             emap (\<lambda>delta. \<lparr>iv_type = t, iv_key = key, iv_parameters = ps, iv_values = vs,
                 iv_previous = prior, iv_delta = delta\<rparr>)
               (optional_floats rnd (mapping_or (row_delta row)) key)))
       | _ \<Rightarrow> Raise bad_variant)))"

definition snapshot_variants ::
  "(real \<Rightarrow> real) \<Rightarrow> (string \<Rightarrow> (string, pyval) dict \<Rightarrow> string) \<Rightarrow> snapshot_row \<Rightarrow>
     indicator_variant list result"
where
  "snapshot_variants rnd digest row =
     ebind (normalize_indicator_type (row_type row)) (\<lambda>t.
       let ps = mapping_or (row_parameters row) in
       case (mapping_get ps ''_format'', mapping_get ps ''variants'') of
         (Some f, Some (VDict variants)) \<Rightarrow>
           if py_eq f (VInt 2) then traverse (read_variant rnd digest row t) variants
           else Raise (ApiError ''UNSUPPORTED_SNAPSHOT_FORMAT'' ''Indicator snapshot format is invalid.'' 409)
       | _ \<Rightarrow> Raise (ApiError ''UNSUPPORTED_SNAPSHOT_FORMAT'' ''Indicator snapshot format is invalid.'' 409))"

definition ma_value_period :: "string \<Rightarrow> int option" where
  "ma_value_period key =
     (if \<not> starts_with ''MA'' (upper key) then None
      else let suffix = drop 2 key in
        if suffix \<noteq> [] \<and> list_all is_digit suffix then Some (digits_value suffix) else None)"

definition in_periods :: "int list \<Rightarrow> (string, fl) dict \<Rightarrow> (string, fl) dict" where
  "in_periods periods d = filter (\<lambda>(k, _). \<exists>p \<in> set periods. ma_value_period k = Some p) d"

definition project_ma_variant ::
  "(real \<Rightarrow> real) \<Rightarrow> (string \<Rightarrow> (string, pyval) dict \<Rightarrow> string) \<Rightarrow> indicator_variant \<Rightarrow> int list \<Rightarrow>
     indicator_variant result"
where
  "project_ma_variant rnd digest variant periods =
     (let ps = [(''periods'', VList (map VInt (sorted_list_of_set (set periods))))] in
      emap (\<lambda>key. \<lparr>iv_type = iv_type variant, iv_key = key, iv_parameters = ps,
          iv_values = in_periods periods (iv_values variant),
          iv_previous = map_option (in_periods periods) (iv_previous variant),
          iv_delta = map_option (in_periods periods) (iv_delta variant)\<rparr>)
        (parameter_key rnd digest ''MA'' (as_object ps)))"

definition select_snapshot_variant ::
  "(real \<Rightarrow> real) \<Rightarrow> (string \<Rightarrow> (string, pyval) dict \<Rightarrow> string) \<Rightarrow> snapshot_row \<Rightarrow> string \<Rightarrow> pyval \<Rightarrow>
     indicator_variant option result"
where
  "select_snapshot_variant rnd digest row indicator_type parameters =
     ebind (normalize_indicator_type indicator_type) (\<lambda>t.
     ebind (canonicalize_parameters rnd t parameters True) (\<lambda>requested.
     ebind (parameter_key rnd digest t (as_object requested)) (\<lambda>requested_key.
     ebind (snapshot_variants rnd digest row) (\<lambda>variants.
       case List.find (\<lambda>v. iv_key v = requested_key \<or>
           py_eq (as_object (iv_parameters v)) (as_object requested)) variants of
         Some v \<Rightarrow> Ok (Some v)
       | None \<Rightarrow>
           if t = ''MA'' then
             let wanted = ma_periods requested in
             case List.find (\<lambda>v. wanted \<noteq> [] \<and> set wanted \<subseteq> set (ma_periods (iv_parameters v))) variants of
               Some v \<Rightarrow> emap Some (project_ma_variant rnd digest v wanted)
             | None \<Rightarrow> Ok None
           else Ok None))))"

definition parameters_match :: "(real \<Rightarrow> real) \<Rightarrow> string \<Rightarrow> pyval \<Rightarrow> pyval \<Rightarrow> bool result" where
  "parameters_match rnd indicator_type requested stored =
     ebind (normalize_indicator_type indicator_type) (\<lambda>t.
     ebind (canonicalize_parameters rnd t requested True) (\<lambda>rp.
     emap (\<lambda>sp. if t \<noteq> ''MA'' then py_eq (as_object rp) (as_object sp)
                 else set (ma_periods rp) \<subseteq> set (ma_periods sp))
       (canonicalize_parameters rnd t stored True)))"

section \<open>Output fields\<close>

definition STATIC_FIELDS :: "(string, string list) dict" where
  "STATIC_FIELDS =
     [(''PROJECTED_MA'', [''value'']), (''RSI'', [''value'']), (''KDJ'', [''rsv'', ''k'', ''d'', ''j'']),
      (''BOLL'', [''upper'', ''middle'', ''lower'', ''width'']), (''MACD'', [''diff'', ''dea'', ''histogram'']),
      (''DIVIDEND_YIELD'', [''value''])]"

definition bad_field :: "string \<Rightarrow> exn" where
  "bad_field message = ApiError ''INVALID_INDICATOR_FIELD'' message 400"

definition ma_field :: "int \<Rightarrow> string" where
  "ma_field p = ''MA'' @ int_str p"

definition pick_field :: "string list \<Rightarrow> string option \<Rightarrow> (string \<Rightarrow> string) \<Rightarrow> exn \<Rightarrow> string result" where
  "pick_field allowed field fold_case err =
     (let distinct_fields = remdups allowed;
          candidate = fold_case (strip (case field of None \<Rightarrow> [] | Some f \<Rightarrow> f))
      in if field = None \<and> length distinct_fields = 1 then Ok (hd distinct_fields)
         else if candidate \<in> set allowed then Ok candidate
         else Raise err)"

definition canonical_indicator_field ::
  "(real \<Rightarrow> real) \<Rightarrow> string \<Rightarrow> pyval \<Rightarrow> string option \<Rightarrow> string result"
where
  "canonical_indicator_field rnd indicator_type parameters field =
     ebind (normalize_indicator_type indicator_type) (\<lambda>t.
       if t = ''DIVIDEND_YIELD'' then
         (case field of
            None \<Rightarrow> Ok ''value''
          | Some f \<Rightarrow> if casefold (strip f) = ''value'' then Ok ''value''
              else Raise (bad_field ''Dividend yield only exposes value.''))
       else
         ebind (canonicalize_parameters rnd t parameters True) (\<lambda>ps.
           if t = ''MA'' then
             pick_field (map ma_field (ma_periods ps)) field upper
               (bad_field ''MA alert requires a specific MA period field.'')
           else (case dict_get STATIC_FIELDS t of
               None \<Rightarrow> Raise (ApiError ''INVALID_INDICATOR'' ''Indicator is not supported.'' 400)
             | Some allowed \<Rightarrow> pick_field allowed field casefold (bad_field ''Indicator field is invalid.''))))"

definition indicator_fields :: "(real \<Rightarrow> real) \<Rightarrow> string \<Rightarrow> pyval \<Rightarrow> string list result" where
  "indicator_fields rnd indicator_type parameters =
     ebind (normalize_indicator_type indicator_type) (\<lambda>t.
       if t = ''MA'' then
         emap (\<lambda>ps. map ma_field (ma_periods ps)) (canonicalize_parameters rnd t parameters True)
       else Ok (sort (dict_get_or STATIC_FIELDS t [])))"

end
