(* ===== verification/Canonical.thy ===== *)
theory Canonical
  imports Parameters
begin

text \<open>
  What makes parameter identity sound: indicator types and parameter sets have one canonical
  form, canonicalization is idempotent, and the key of a set is a function of that form.
\<close>

section \<open>Indicator types\<close>

lemma underscore_simps [simp]:
  "is_space (underscore c) \<Longrightarrow> is_space c" "upper_char (underscore (upper_char c)) = underscore (upper_char c)"
  "underscore (underscore c) = underscore c"
  by (auto simp: underscore_def is_space_def upper_char_def Let_def split: if_splits)

lemma normalize_type_literals [simp]:
  "normalize_indicator_type ''MA'' = Ok ''MA''"
  "normalize_indicator_type ''PROJECTED_MA'' = Ok ''PROJECTED_MA''"
  "normalize_indicator_type ''RSI'' = Ok ''RSI''"
  "normalize_indicator_type ''KDJ'' = Ok ''KDJ''"
  "normalize_indicator_type ''BOLL'' = Ok ''BOLL''"
  "normalize_indicator_type ''MACD'' = Ok ''MACD''"
  by (simp_all add: normalize_indicator_type_def INDICATOR_ALIASES_def dict_get_or_def underscore_def
      Let_def text_eval)

lemma normalize_type_idem:
  assumes "normalize_indicator_type v = Ok t"
  shows "normalize_indicator_type t = Ok t"
proof -
  define n where "n = map underscore (upper (strip v))"
  have ne: "n \<noteq> []" and t: "t = dict_get_or INDICATOR_ALIASES n n"
    using assms by (auto simp: normalize_indicator_type_def n_def Let_def split: if_splits)
  show ?thesis
  proof (cases "dict_get INDICATOR_ALIASES n")
    case (Some a)
    then have "t = ''MA'' \<or> t = ''PROJECTED_MA'' \<or> t = ''BOLL''"
      unfolding t dict_get_or_def by (simp add: INDICATOR_ALIASES_def split: if_splits)
    then show ?thesis by (elim disjE) simp_all
  next
    case None
    then have tn: "t = n" by (simp add: t dict_get_or_def)
    have g: "n = map (\<lambda>c. underscore (upper_char c)) (strip v)" by (simp add: n_def upper_def)
    have "strip n = n" unfolding g by (rule strip_map_strip) (metis is_space_upper_char underscore_simps(1))
    moreover have "upper n = n" unfolding g by (simp add: upper_def)
    moreover have "map underscore n = n" by (simp add: n_def)
    ultimately show ?thesis using ne None tn
      by (simp add: normalize_indicator_type_def dict_get_or_def Let_def)
  qed
qed

section \<open>Sorted dictionaries\<close>

lemma sorted_dict_keys [simp]: "dict_keys (sorted_dict d) = sort (dict_keys d)"
  by (simp add: sorted_dict_def comp_def)

lemma sorted_dict_get [simp]: "dict_get (sorted_dict d) = dict_get d"
proof
  fix k
  have "dict_get (map (\<lambda>k. (k, the (dict_get d k))) ks) k =
      (if k \<in> set ks then Some (the (dict_get d k)) else None)" for ks
    by (induction ks) auto
  then have e: "dict_get (sorted_dict d) k =
      (if k \<in> set (dict_keys d) then Some (the (dict_get d k)) else None)"
    by (simp only: sorted_dict_def set_sort)
  show "dict_get (sorted_dict d) k = dict_get d k"
  proof (cases "dict_get d k")
    case None
    then have "k \<notin> set (dict_keys d)" by (simp add: map_of_eq_None_iff)
    with e None show ?thesis by simp
  next
    case (Some v)
    then have "k \<in> set (dict_keys d)" by (metis map_of_eq_None_iff not_None_eq set_map)
    with e Some show ?thesis by simp
  qed
qed

lemma sorted_dict_id:
  assumes "sorted (dict_keys c)" "\<And>k v. (k, v) \<in> set c \<Longrightarrow> dict_get c k = Some v"
  shows "sorted_dict c = c"
proof -
  have "map (\<lambda>k. (k, the (dict_get c k))) (dict_keys c) = c"
    unfolding map_map by (rule map_idI) (use assms(2) in \<open>force\<close>)
  then show ?thesis using assms(1) by (simp add: sorted_dict_def sorted_sort_id)
qed

lemma sorted_dict_eqI:
  assumes "distinct (dict_keys d)" "distinct (dict_keys c)" "sorted (dict_keys c)" "dict_get d = dict_get c"
  shows "sorted_dict d = c"
proof -
  have "set (dict_keys d) = set (dict_keys c)"
    using assms(4) by (metis dom_map_of_conv_image_fst set_map)
  then have k: "sort (dict_keys d) = dict_keys c"
    using assms(1-3) by (metis sorted_distinct_set_unique distinct_sort set_sort sorted_sort)
  have "sorted_dict d = sorted_dict c"
    using k assms(3) by (simp add: sorted_dict_def assms(4) sorted_sort_id)
  also have "\<dots> = c" using assms(2,3) by (intro sorted_dict_id) auto
  finally show ?thesis .
qed

lemma sorted_dict_idem: "distinct (dict_keys d) \<Longrightarrow> sorted_dict (sorted_dict d) = sorted_dict d"
  by (rule sorted_dict_eqI) (simp_all del: set_map)

section \<open>Single values\<close>

lemma normalize_period_ok:
  assumes "normalize_period key v = Ok w"
  obtains n where "w = VInt n" "0 < n" "n \<le> MAX_INDICATOR_PERIOD"
  using assms by (auto simp: normalize_period_def Let_def split: pyval.splits fl.splits if_splits)

lemma normalize_period_int [simp]:
  "0 < n \<Longrightarrow> n \<le> MAX_INDICATOR_PERIOD \<Longrightarrow> normalize_period key (VInt n) = Ok (VInt n)"
  by (simp add: normalize_period_def)

lemma normalize_period_idem: "normalize_period key v = Ok w \<Longrightarrow> normalize_period key' w = Ok w"
  by (erule normalize_period_ok) simp

lemma positive_finite_ok: "positive_finite key f = Ok w \<longleftrightarrow> (\<exists>r > 0. f = Fin r \<and> w = VFloat (Fin r))"
  by (cases f) (auto simp: positive_finite_def finite_or_def Let_def)

lemma normalize_parameter_value_idem:
  "normalize_parameter_value rnd key v = Ok w \<Longrightarrow> normalize_parameter_value rnd key w = Ok w"
  by (auto simp: normalize_parameter_value_def positive_finite_ok
      intro: normalize_period_idem split: if_splits pyval.splits)

lemma traverse_idem:
  "(\<And>x y. x \<in> set xs \<Longrightarrow> f x = Ok y \<Longrightarrow> f y = Ok y) \<Longrightarrow> traverse f xs = Ok ys \<Longrightarrow> traverse f ys = Ok ys"
proof (induction xs arbitrary: ys)
  case (Cons x xs)
  then obtain y zs where y: "f x = Ok y" "traverse f xs = Ok zs" "ys = y # zs" by auto
  with Cons have "f y = Ok y" "traverse f zs = Ok zs" by (metis list.set_intros(1), metis list.set_intros(2))
  with y show ?case by simp
qed simp

lemma traverse_text_key_object: "traverse text_key (map (\<lambda>(k, v). (VStr k, v)) d) = Ok d"
  by (induction d) (auto simp: text_key_def)

lemma traverse_values_keys:
  "traverse (\<lambda>p. emap (\<lambda>v. (fst p, v)) (g (snd p))) d = Ok e \<Longrightarrow> dict_keys e = dict_keys d"
  by (induction d arbitrary: e) auto

lemma traverse_values_entry:
  "traverse (\<lambda>p. emap (\<lambda>v. (fst p, v)) (g (snd p))) d = Ok e \<Longrightarrow> (k, v) \<in> set e \<Longrightarrow>
     \<exists>u. (k, u) \<in> set d \<and> g u = Ok v"
proof (induction d arbitrary: e)
  case (Cons p d)
  then show ?case by (cases p) fastforce
qed simp

lemma sorted_dict_functional: "(k, u) \<in> set (sorted_dict d) \<Longrightarrow> (k, v) \<in> set (sorted_dict d) \<Longrightarrow> u = v"
  by (auto simp: sorted_dict_def)

lemma normalize_json_value_idem:
  "normalize_json_value rnd v = Ok w \<Longrightarrow> normalize_json_value rnd w = Ok w"
proof (induction rnd v arbitrary: w rule: normalize_json_value.induct)
  case (6 rnd xs)
  then obtain ys where ys: "traverse (normalize_json_value rnd) xs = Ok ys" "w = VList ys" by auto
  with 6 have "traverse (normalize_json_value rnd) ys = Ok ys" by (blast intro: traverse_idem)
  with ys show ?case by simp
next
  case (7 rnd xs)
  then obtain ys where ys: "traverse (normalize_json_value rnd) xs = Ok ys" "w = VList ys" by auto
  with 7 have "traverse (normalize_json_value rnd) ys = Ok ys" by (blast intro: traverse_idem)
  with ys show ?case by simp
next
  case (8 rnd d)
  let ?g = "\<lambda>p. emap (\<lambda>v. (fst p, v)) (normalize_json_value rnd (snd p))"
  from 8(2) obtain named items where n: "traverse text_key d = Ok named"
    and i: "traverse ?g (sorted_dict named) = Ok items" and w: "w = as_object items" by auto
  have "traverse ?g items = Ok items" using i
    by (rule traverse_idem [rotated]) (use 8(1) [OF n] in auto)
  moreover have "sorted_dict items = items"
  proof (rule sorted_dict_id)
    show "sorted (dict_keys items)" using traverse_values_keys [OF i] by simp
    fix k v assume kv: "(k, v) \<in> set items"
    then obtain v' where v': "dict_get items k = Some v'" by (meson weak_map_of_SomeI)
    then have "(k, v') \<in> set items" by (rule map_of_SomeD)
    with kv traverse_values_entry [OF i] show "dict_get items k = Some v" using v' sorted_dict_functional
      by (metis Inr_inject)
  qed
  ultimately show ?case using w by (simp add: as_object_def traverse_text_key_object)
qed auto

section \<open>Names and dictionaries of parameters\<close>

lemma parameter_name_idem [simp]: "parameter_name t (parameter_name t k) = parameter_name t k"
proof (cases "t = ''BOLL'' \<and> lower (strip k) \<in> {''std'', ''stddev'', ''std_dev''}")
  case True
  then show ?thesis by (simp add: parameter_name_def text_eval)
next
  case False
  then have n: "parameter_name t k = lower (strip k)"
    unfolding parameter_name_def Let_def by (rule if_not_P)
  have "lower (strip (lower (strip k))) = lower (strip k)" by (simp add: strip_lower)
  with False have "parameter_name t (lower (strip k)) = lower (strip k)"
    unfolding parameter_name_def Let_def by (simp only: if_False)
  with n show ?thesis by simp
qed

text \<open>A name in its canonical form.\<close>

definition name_ok :: "string \<Rightarrow> string \<Rightarrow> bool" where
  "name_ok t k \<longleftrightarrow> parameter_name t k = k \<and> strip k \<noteq> []"

lemma name_ok_parameter_name: "strip s \<noteq> [] \<Longrightarrow> name_ok t (parameter_name t s)"
proof -
  assume s: "strip s \<noteq> []"
  have "strip (parameter_name t s) \<noteq> []"
  proof (cases "t = ''BOLL'' \<and> lower (strip s) \<in> {''std'', ''stddev'', ''std_dev''}")
    case True
    then show ?thesis by (simp add: parameter_name_def strip_def is_space_def)
  next
    case False
    then have "parameter_name t s = lower (strip s)"
      unfolding parameter_name_def Let_def by (rule if_not_P)
    with s show ?thesis by (simp add: strip_lower)
  qed
  then show ?thesis by (simp add: name_ok_def)
qed

definition names_ok :: "string \<Rightarrow> (string, pyval) dict \<Rightarrow> bool" where
  "names_ok t d \<longleftrightarrow> distinct (dict_keys d) \<and> (\<forall>k \<in> set (dict_keys d). name_ok t k)"

lemma collect_raw_names:
  "collect_raw t d raw = Ok raw' \<Longrightarrow> names_ok t raw \<Longrightarrow> names_ok t raw'"
proof (induction t d raw rule: collect_raw.induct)
  case (2 t key v rest raw)
  from 2(2) obtain s where s: "key = VStr s" "strip s \<noteq> []"
    and rest: "collect_raw t rest (dict_set (parameter_name t s) v raw) = Ok raw'"
    and dup: "\<not> (case dict_get raw (parameter_name t s) of None \<Rightarrow> False | Some old \<Rightarrow> \<not> py_eq old v)"
    by (auto simp: Let_def split: pyval.splits if_splits)
  have "names_ok t (dict_set (parameter_name t s) v raw)"
    using 2(3) name_ok_parameter_name [OF s(2)] unfolding names_ok_def dict_set_keys by auto
  with 2(1) [OF s(1) _ refl dup rest] s(2) show ?case by blast
qed simp

lemma collect_raw_id:
  "names_ok t (raw @ d) \<Longrightarrow> collect_raw t (map (\<lambda>(k, v). (VStr k, v)) d) raw = Ok (raw @ d)"
proof (induction d arbitrary: raw)
  case (Cons p d)
  obtain k v where p: "p = (k, v)" by (cases p)
  with Cons.prems have k: "name_ok t k" "k \<notin> set (dict_keys raw)" by (auto simp: names_ok_def)
  then have new: "dict_get raw k = None" by (simp add: map_of_eq_None_iff)
  have "collect_raw t (map (\<lambda>(k, v). (VStr k, v)) d) (raw @ [(k, v)]) = Ok ((raw @ [(k, v)]) @ d)"
    using Cons.prems p by (intro Cons.IH) simp
  with k new show ?case by (simp add: p name_ok_def Let_def dict_set_new)
qed simp

text \<open>How one value is normalized, for a built-in indicator or another.\<close>

abbreviation norm_value :: "(real \<Rightarrow> real) \<Rightarrow> bool \<Rightarrow> string \<Rightarrow> pyval \<Rightarrow> pyval result" where
  "norm_value rnd known k v \<equiv> if known then normalize_parameter_value rnd k v else normalize_json_value rnd v"

lemma norm_value_idem: "norm_value rnd known k v = Ok w \<Longrightarrow> norm_value rnd known k w = Ok w"
  by (auto intro: normalize_parameter_value_idem normalize_json_value_idem split: if_splits)

text \<open>A dictionary whose values are in normal form.\<close>

definition values_ok :: "(real \<Rightarrow> real) \<Rightarrow> bool \<Rightarrow> (string, pyval) dict \<Rightarrow> bool" where
  "values_ok rnd known d \<longleftrightarrow> (\<forall>(k, v) \<in> set d. norm_value rnd known k v = Ok v)"

lemma dict_set_entries: "set (dict_set k v d) \<subseteq> insert (k, v) (set d)"
  by (induction d) auto

lemma normalize_into_ok:
  assumes "normalize_into rnd known raw acc = Ok n" "names_ok t raw" "names_ok t acc" "values_ok rnd known acc"
  shows "names_ok t n \<and> values_ok rnd known n \<and>
    set (dict_keys n) = set (dict_keys acc) \<union> set (dict_keys raw)"
  using assms
proof (induction rnd known raw acc rule: normalize_into.induct)
  case (2 rnd known k v rest acc)
  from 2(2) obtain v' where v': "norm_value rnd known k v = Ok v'"
    and rest: "normalize_into rnd known rest (dict_set k v' acc) = Ok n" by auto
  have "values_ok rnd known (dict_set k v' acc)"
    using 2(5) norm_value_idem [OF v'] dict_set_entries [of k v' acc] unfolding values_ok_def by blast
  moreover have "names_ok t (dict_set k v' acc)" "names_ok t rest"
    using 2(3,4) unfolding names_ok_def dict_set_keys by auto
  ultimately have ih: "names_ok t n \<and> values_ok rnd known n \<and>
      set (dict_keys n) = set (dict_keys (dict_set k v' acc)) \<union> set (dict_keys rest)"
    using 2(1) [OF v' rest] by blast
  moreover have "set (dict_keys (dict_set k v' acc)) = insert k (set (dict_keys acc))"
    unfolding dict_set_keys by (auto simp del: set_map)
  ultimately show ?case by (simp add: insert_commute)
qed (simp add: names_ok_def)

lemma normalize_into_id:
  assumes "values_ok rnd known d" "distinct (dict_keys d)" "distinct (dict_keys acc)"
  shows "\<exists>n. normalize_into rnd known d acc = Ok n \<and> dict_get n = dict_get acc ++ dict_get d \<and>
    distinct (dict_keys n)"
  using assms
proof (induction d arbitrary: acc)
  case (Cons p d)
  obtain k v where p: "p = (k, v)" by (cases p)
  with Cons.prems have v: "norm_value rnd known k v = Ok v" and k: "k \<notin> set (dict_keys d)"
    by (auto simp: values_ok_def)
  have "\<exists>n. normalize_into rnd known d (dict_set k v acc) = Ok n \<and>
      dict_get n = dict_get (dict_set k v acc) ++ dict_get d \<and> distinct (dict_keys n)"
    using Cons.prems by (intro Cons.IH dict_set_distinct) (auto simp: values_ok_def)
  moreover have "dict_get (dict_set k v acc) ++ dict_get d = dict_get acc ++ dict_get ((k, v) # d)"
  proof -
    from k have "dict_get d k = None" by (simp add: map_of_eq_None_iff)
    then show ?thesis by (auto simp: map_add_def fun_eq_iff split: option.splits)
  qed
  ultimately show ?case unfolding p by (simp only: normalize_into.simps v ebind_simps)
qed simp

section \<open>Canonical parameters\<close>

text \<open>The shape of canonical MA parameters.\<close>

definition periods_ok :: "int list \<Rightarrow> bool" where
  "periods_ok ns \<longleftrightarrow> ns \<noteq> [] \<and> sorted ns \<and> distinct ns \<and> length ns \<le> MAX_MA_PERIODS \<and>
     (\<forall>n \<in> set ns. 0 < n \<and> n \<le> MAX_INDICATOR_PERIOD)"

definition ma_canonical :: "(string, pyval) dict \<Rightarrow> bool" where
  "ma_canonical c \<longleftrightarrow> (\<exists>n. c = [(''period'', VInt n)] \<and> 0 < n \<and> n \<le> MAX_INDICATOR_PERIOD) \<or>
     (\<exists>ns. c = [(''periods'', VList (map VInt ns))] \<and> periods_ok ns)"

lemma traverse_period:
  assumes "traverse (normalize_period k) xs = Ok ps" "v \<in> set ps"
  obtains n where "v = VInt n" "0 < n" "n \<le> MAX_INDICATOR_PERIOD"
proof -
  obtain x where "normalize_period k x = Ok v" using traverse_source [OF assms] by blast
  then show thesis by (rule normalize_period_ok) (rule that)
qed

lemma canonical_periods_eq:
  assumes "sequence_items v = Some xs" "xs \<noteq> []"
  shows "canonical_periods v = ebind (traverse (normalize_period ''period'') xs) (\<lambda>ps.
     if length (sorted_list_of_set (period_of ` set ps)) > MAX_MA_PERIODS
     then Raise (bad_parameters (''MA accepts at most '' @ nat_str MAX_MA_PERIODS @ '' distinct periods.''))
     else Ok [(''periods'', VList (map VInt (sorted_list_of_set (period_of ` set ps))))])"
  using assms by (cases xs) (simp_all add: canonical_periods_def Let_def del: traverse.simps)

lemma canonical_periods_items:
  assumes "canonical_periods v = Ok c"
  obtains xs where "sequence_items v = Some xs" "xs \<noteq> []"
proof (cases "sequence_items v")
  case None
  with assms show thesis by (simp add: canonical_periods_def)
next
  case (Some xs)
  with assms that show thesis by (cases xs) (simp_all add: canonical_periods_def)
qed

lemma canonical_periods_ok:
  assumes "canonical_periods v = Ok c"
  obtains ns where "c = [(''periods'', VList (map VInt ns))]" "periods_ok ns"
proof -
  from assms obtain xs where xs: "sequence_items v = Some xs" "xs \<noteq> []" by (rule canonical_periods_items)
  from assms [unfolded canonical_periods_eq [OF xs]]
  obtain ps where ps: "traverse (normalize_period ''period'') xs = Ok ps"
    and res: "(if length (sorted_list_of_set (period_of ` set ps)) > MAX_MA_PERIODS
       then Raise (bad_parameters (''MA accepts at most '' @ nat_str MAX_MA_PERIODS @ '' distinct periods.''))
       else Ok [(''periods'', VList (map VInt (sorted_list_of_set (period_of ` set ps))))]) = Ok c"
    unfolding ebind_eq_Inr_iff by blast
  from res have len: "length (sorted_list_of_set (period_of ` set ps)) \<le> MAX_MA_PERIODS"
    by (metis Inl_Inr_False linorder_not_less)
  with res have c: "c = [(''periods'', VList (map VInt (sorted_list_of_set (period_of ` set ps))))]"
    by (metis Inr_inject linorder_not_less)
  have "ps \<noteq> []" using traverse_length [OF ps] xs(2) by auto
  then have "sorted_list_of_set (period_of ` set ps) \<noteq> []" by simp
  moreover have "0 < n \<and> n \<le> MAX_INDICATOR_PERIOD" if n: "n \<in> period_of ` set ps" for n
  proof -
    from n obtain v where v: "v \<in> set ps" "n = period_of v" by blast
    from ps v(1) obtain m where "v = VInt m" "0 < m" "m \<le> MAX_INDICATOR_PERIOD" by (rule traverse_period)
    with v show ?thesis by (simp add: period_of_def)
  qed
  ultimately have "periods_ok (sorted_list_of_set (period_of ` set ps))" using len by (simp add: periods_ok_def)
  with c that show thesis by blast
qed

lemma canonical_periods_id:
  assumes "periods_ok ns"
  shows "canonical_periods (VList (map VInt ns)) = Ok [(''periods'', VList (map VInt ns))]"
proof -
  have t: "traverse (normalize_period ''period'') (map VInt ns) = Ok (map VInt ns)"
    unfolding traverse_map using assms by (intro traverse_ok) (simp add: periods_ok_def)
  have "period_of ` VInt ` set ns = set ns" by (force simp: period_of_def)
  then have s: "sorted_list_of_set (period_of ` set (map VInt ns)) = ns"
    using assms by (simp add: periods_ok_def sorted_list_of_set.idem_if_sorted_distinct)
  have items: "sequence_items (VList (map VInt ns)) = Some (map VInt ns)" "map VInt ns \<noteq> []"
    using assms by (simp_all add: sequence_items_def periods_ok_def)
  have "\<not> length ns > MAX_MA_PERIODS" using assms by (simp add: periods_ok_def)
  then show ?thesis unfolding canonical_periods_eq [OF items] t ebind_simps s by (rule if_not_P)
qed

lemma default_ma: "default_parameters ''MA'' = Ok [(''periods'', VList (map VInt [5, 10]))]"
  by (simp add: default_parameters_def DEFAULT_PARAMETER_MAP_def DEFAULT_MA_PERIODS_def dict_get_or_def)

lemma canonicalize_ma_ok:
  assumes "canonicalize_ma raw fill = Ok c"
  shows "ma_canonical c \<or> c = [] \<and> \<not> fill"
proof -
  have d: "periods_ok [5, 10]" by (simp add: periods_ok_def MAX_MA_PERIODS_def MAX_INDICATOR_PERIOD_def)
  consider p v where "normalize_period ''period'' p = Ok v" "c = [(''period'', v)]"
    | v where "canonical_periods v = Ok c" | "fill" "default_parameters ''MA'' = Ok c" | "\<not> fill" "c = []"
  proof (cases "dict_get raw ''period''"; cases "dict_get raw ''periods''"; cases fill)
  qed (use assms in \<open>simp_all add: canonicalize_ma_def\<close>, blast+)
  then show ?thesis
  proof cases
    case 1
    then show ?thesis unfolding ma_canonical_def by (metis normalize_period_ok)
  next
    case 2
    then show ?thesis unfolding ma_canonical_def by (metis canonical_periods_ok)
  next
    case 3
    then have "c = [(''periods'', VList (map VInt [5, 10]))]" by (simp add: default_ma)
    with d show ?thesis unfolding ma_canonical_def by blast
  qed simp
qed

lemma canonicalize_ma_id: "ma_canonical c \<Longrightarrow> canonicalize_ma c fill = Ok c"
proof -
  assume "ma_canonical c"
  then consider n where "c = [(''period'', VInt n)]" "0 < n" "n \<le> MAX_INDICATOR_PERIOD"
    | ns where "c = [(''periods'', VList (map VInt ns))]" "periods_ok ns"
    unfolding ma_canonical_def by blast
  then show ?thesis by cases (simp_all add: canonicalize_ma_def canonical_periods_id)
qed

text \<open>The defaults of a built-in indicator are canonical.\<close>

lemma default_parameters_eq:
  "normalize_indicator_type t = Ok t \<Longrightarrow> default_parameters t = Ok (dict_get_or DEFAULT_PARAMETER_MAP t [])"
  by (simp add: default_parameters_def)

lemma default_keys:
  "set (dict_keys DEFAULT_PARAMETER_MAP) = set (dict_keys INDICATOR_PARAMETER_KEYS)"
  by (simp add: DEFAULT_PARAMETER_MAP_def INDICATOR_PARAMETER_KEYS_def)

lemma default_entry_ok:
  "list_all (\<lambda>(t, d). t = ''MA'' \<or> names_ok t d \<and> values_ok rnd True d \<and>
      (\<forall>k \<in> set (dict_keys d). k \<in> set (the (dict_get INDICATOR_PARAMETER_KEYS t)))) DEFAULT_PARAMETER_MAP"
proof -
  note table = INDICATOR_PARAMETER_KEYS_def
  have "names_ok ''PROJECTED_MA'' [(''period'', VInt 5)]" "names_ok ''RSI'' [(''period'', VInt 14)]"
    "names_ok ''KDJ'' [(''period'', VInt 9), (''k_period'', VInt 3), (''d_period'', VInt 3)]"
    "names_ok ''BOLL'' [(''period'', VInt 20), (''multiplier'', VFloat (Fin 2))]"
    "names_ok ''MACD'' [(''fast_period'', VInt 12), (''slow_period'', VInt 26), (''signal_period'', VInt 9)]"
    by (simp_all add: names_ok_def name_ok_def parameter_name_def text_eval)
  moreover have "values_ok rnd True [(''period'', VInt 5)]" "values_ok rnd True [(''period'', VInt 14)]"
    "values_ok rnd True [(''period'', VInt 9), (''k_period'', VInt 3), (''d_period'', VInt 3)]"
    "values_ok rnd True [(''period'', VInt 20), (''multiplier'', VFloat (Fin 2))]"
    "values_ok rnd True [(''fast_period'', VInt 12), (''slow_period'', VInt 26), (''signal_period'', VInt 9)]"
    by (simp_all add: values_ok_def normalize_parameter_value_def INTEGER_PARAMETER_KEYS_def
        MAX_INDICATOR_PERIOD_def positive_finite_def)
  ultimately show ?thesis by (simp add: DEFAULT_PARAMETER_MAP_def table)
qed

text \<open>The base dictionary the canonical form starts from.\<close>

definition base_of :: "string \<Rightarrow> bool \<Rightarrow> (string, pyval) dict" where
  "base_of t fill = (if fill then dict_get_or DEFAULT_PARAMETER_MAP t [] else [])"

lemma base_of_ok:
  assumes "t \<noteq> ''MA''"
  shows "names_ok t (base_of t fill) \<and>
    values_ok rnd (dict_get INDICATOR_PARAMETER_KEYS t \<noteq> None) (base_of t fill) \<and>
    (\<forall>ks. dict_get INDICATOR_PARAMETER_KEYS t = Some ks \<longrightarrow> set (dict_keys (base_of t fill)) \<subseteq> set ks)"
proof (cases "fill \<and> dict_get DEFAULT_PARAMETER_MAP t \<noteq> None")
  case True
  then obtain d where d: "dict_get DEFAULT_PARAMETER_MAP t = Some d" by blast
  then have "(t, d) \<in> set DEFAULT_PARAMETER_MAP" by (rule map_of_SomeD)
  with default_entry_ok [of rnd] assms have ok: "names_ok t d" "values_ok rnd True d"
    "\<forall>k \<in> set (dict_keys d). k \<in> set (the (dict_get INDICATOR_PARAMETER_KEYS t))"
    unfolding list_all_iff by fast+
  from d have "t \<in> set (dict_keys INDICATOR_PARAMETER_KEYS)"
    using default_keys by (metis map_of_eq_None_iff option.distinct(1) set_map)
  then have "dict_get INDICATOR_PARAMETER_KEYS t \<noteq> None" by (simp add: map_of_eq_None_iff)
  with ok d True show ?thesis by (auto simp: base_of_def dict_get_or_def simp del: set_map)
next
  case False
  then have "base_of t fill = []" by (auto simp: base_of_def dict_get_or_def)
  then show ?thesis by (simp add: names_ok_def values_ok_def)
qed

text \<open>Canonicalization of a mapping for an indicator other than MA, its parts named.\<close>

definition allowed_names :: "string \<Rightarrow> (string, pyval) dict \<Rightarrow> bool" where
  "allowed_names t raw \<longleftrightarrow> (case dict_get INDICATOR_PARAMETER_KEYS t of None \<Rightarrow> True
     | Some ks \<Rightarrow> set (dict_keys raw) \<subseteq> set ks)"

abbreviation known_type :: "string \<Rightarrow> bool" where
  "known_type t \<equiv> dict_get INDICATOR_PARAMETER_KEYS t \<noteq> None"

lemma canonicalize_ok:
  assumes "canonicalize_parameters rnd v ps fill = Ok c"
  obtains t raw where "normalize_indicator_type v = Ok t" "names_ok t raw" "allowed_names t raw"
    "t = ''MA'' \<Longrightarrow> canonicalize_ma raw fill = Ok c"
    "t \<noteq> ''MA'' \<Longrightarrow> \<exists>n. normalize_into rnd (known_type t) raw (base_of t fill) = Ok n \<and>
       (t = ''MACD'' \<longrightarrow> macd_order_ok n) \<and> c = sorted_dict n"
proof -
  from assms obtain t d raw where t: "normalize_indicator_type v = Ok t"
    and raw: "collect_raw t d [] = Ok raw"
    and rest: "(if (case dict_get INDICATOR_PARAMETER_KEYS t of None \<Rightarrow> False
          | Some ks \<Rightarrow> \<exists>k \<in> set (dict_keys raw). k \<notin> set ks)
       then Raise (bad_parameters ''Indicator parameters contain unsupported names.'')
       else if t = ''MA'' then canonicalize_ma raw fill
       else ebind (if fill then default_parameters t else Ok []) (\<lambda>base.
         ebind (normalize_into rnd (known_type t) raw base) (\<lambda>normalized.
           if t = ''MACD'' \<and> \<not> macd_order_ok normalized
           then Raise (bad_parameters ''MACD fast_period must be less than slow_period.'')
           else Ok (sorted_dict normalized)))) = Ok c"
    unfolding canonicalize_parameters_def Let_def ebind_eq_Inr_iff by blast
  have names: "names_ok t raw" using raw by (rule collect_raw_names) (simp add: names_ok_def)
  from rest have allowed: "allowed_names t raw"
    unfolding allowed_names_def by (auto split: option.splits if_splits)
  have base: "(if fill then default_parameters t else Ok []) = Ok (base_of t fill)"
    using normalize_type_idem [OF t] by (simp add: base_of_def default_parameters_eq)
  show thesis
  proof (rule that [OF t names allowed])
    from allowed have "\<not> (case dict_get INDICATOR_PARAMETER_KEYS t of None \<Rightarrow> False
          | Some ks \<Rightarrow> \<exists>k \<in> set (dict_keys raw). k \<notin> set ks)"
      unfolding allowed_names_def by (auto split: option.splits)
    note r = rest [unfolded if_not_P [OF this] base ebind_simps]
    show "canonicalize_ma raw fill = Ok c" if "t = ''MA''" using r that by simp
    show "\<exists>n. normalize_into rnd (known_type t) raw (base_of t fill) = Ok n \<and>
       (t = ''MACD'' \<longrightarrow> macd_order_ok n) \<and> c = sorted_dict n" if "t \<noteq> ''MA''"
      using r [unfolded if_not_P [OF that] ebind_eq_Inr_iff] by (auto split: if_splits)
  qed
qed

lemma canonicalize_object:
  assumes t: "normalize_indicator_type t = Ok t" and names: "names_ok t c" and allowed: "allowed_names t c"
  shows "canonicalize_parameters rnd t (as_object c) fill =
    (if t = ''MA'' then canonicalize_ma c fill
     else ebind (normalize_into rnd (known_type t) c (base_of t fill)) (\<lambda>n.
       if t = ''MACD'' \<and> \<not> macd_order_ok n
       then Raise (bad_parameters ''MACD fast_period must be less than slow_period.'')
       else Ok (sorted_dict n)))"
proof -
  have raw: "collect_raw t (map (\<lambda>(k, v). (VStr k, v)) c) [] = Ok c"
    using collect_raw_id [of t "[]" c] names by simp
  have base: "(if fill then default_parameters t else Ok []) = Ok (base_of t fill)"
    using t by (simp add: base_of_def default_parameters_eq)
  from allowed have "\<not> (case dict_get INDICATOR_PARAMETER_KEYS t of None \<Rightarrow> False
          | Some ks \<Rightarrow> \<exists>k \<in> set (dict_keys c). k \<notin> set ks)"
    unfolding allowed_names_def by (auto split: option.splits)
  note a = if_not_P [OF this]
  show ?thesis
    unfolding canonicalize_parameters_def t ebind_simps as_object_def pyval.case raw Let_def a base ..
qed

lemma ma_canonical_names: "ma_canonical c \<Longrightarrow> names_ok ''MA'' c \<and> allowed_names ''MA'' c"
proof -
  assume "ma_canonical c"
  then obtain k v where c: "c = [(k, v)]" and k: "k = ''period'' \<or> k = ''periods''"
    unfolding ma_canonical_def by blast
  have "name_ok ''MA'' ''period''" "name_ok ''MA'' ''periods''"
    by (simp_all add: name_ok_def parameter_name_def text_eval)
  with c k show ?thesis
    by (auto simp: names_ok_def allowed_names_def INDICATOR_PARAMETER_KEYS_def)
qed

lemma canonicalize_again_ma:
  assumes "canonicalize_ma raw fill = Ok c" "fill' \<Longrightarrow> fill"
  shows "canonicalize_parameters rnd ''MA'' (as_object c) fill' = Ok c"
proof -
  have m: "normalize_indicator_type ''MA'' = Ok ''MA''" by simp
  from canonicalize_ma_ok [OF assms(1)] consider "ma_canonical c" | "c = []" "\<not> fill" by blast
  then show ?thesis
  proof cases
    case 1
    with ma_canonical_names [OF 1] show ?thesis
      by (simp add: canonicalize_object [OF m] canonicalize_ma_id)
  next
    case 2
    with assms(2) have "\<not> fill'" by blast
    moreover have "names_ok ''MA'' []" "allowed_names ''MA'' []"
      by (simp_all add: names_ok_def allowed_names_def split: option.splits)
    ultimately show ?thesis using 2 by (simp add: canonicalize_object [OF m] canonicalize_ma_def)
  qed
qed

lemma canonicalize_again_other:
  assumes t: "normalize_indicator_type t = Ok t" "t \<noteq> ''MA''" and raw: "names_ok t raw" "allowed_names t raw"
    and n: "normalize_into rnd (known_type t) raw (base_of t fill) = Ok n"
    and macd: "t = ''MACD'' \<longrightarrow> macd_order_ok n" and fill: "fill' \<Longrightarrow> fill"
  shows "canonicalize_parameters rnd t (as_object (sorted_dict n)) fill' = Ok (sorted_dict n)"
proof -
  let ?c = "sorted_dict n" and ?b = "base_of t fill"
  note base = base_of_ok [OF t(2), of fill rnd]
  have ok: "names_ok t n" "values_ok rnd (known_type t) n"
    "set (dict_keys n) = set (dict_keys ?b) \<union> set (dict_keys raw)"
    using normalize_into_ok [OF n raw(1)] base by blast+
  have c: "names_ok t ?c" "values_ok rnd (known_type t) ?c" "distinct (dict_keys ?c)" "sorted (dict_keys ?c)"
    "set (dict_keys ?c) = set (dict_keys n)"
    using ok(1,2) sorted_dict_subset [of _ n]
    by (simp_all add: names_ok_def values_ok_def del: set_map)
  have allowed: "allowed_names t ?c"
    using raw(2) base ok(3) unfolding allowed_names_def c(5) by (auto split: option.splits)
  have "set (dict_keys (base_of t fill')) \<subseteq> set (dict_keys ?c)"
    using fill unfolding c(5) ok(3) by (auto simp: base_of_def)
  then have dom: "dom (dict_get (base_of t fill')) \<subseteq> dom (dict_get ?c)"
    by (simp only: dom_map_of_conv_image_fst set_map)
  have "distinct (dict_keys (base_of t fill'))" using base_of_ok [OF t(2)] by (simp add: names_ok_def)
  from normalize_into_id [OF c(2,3) this] obtain n' where
    n': "normalize_into rnd (known_type t) ?c (base_of t fill') = Ok n'"
    "dict_get n' = dict_get (base_of t fill') ++ dict_get ?c" "distinct (dict_keys n')" by blast
  have "dict_get n' = dict_get ?c"
    unfolding n'(2) using dom by (auto simp: map_add_def fun_eq_iff split: option.splits)
  then have get: "dict_get n' = dict_get n" by simp
  then have s: "sorted_dict n' = ?c" using n'(3) c(3,4) by (intro sorted_dict_eqI) auto
  have "macd_order_ok n' = macd_order_ok n" by (simp add: macd_order_ok_def get)
  with macd have no: "\<not> (t = ''MACD'' \<and> \<not> macd_order_ok n')" by blast
  show ?thesis
    unfolding canonicalize_object [OF t(1) c(1) allowed] if_not_P [OF t(2)] n' ebind_simps if_not_P [OF no] s ..
qed

lemma canonicalize_again:
  assumes "canonicalize_parameters rnd v ps fill = Ok c" "fill' \<Longrightarrow> fill" "normalize_indicator_type v = Ok t"
  shows "canonicalize_parameters rnd t (as_object c) fill' = Ok c"
proof -
  from assms(1) obtain raw where raw: "names_ok t raw" "allowed_names t raw"
    and ma: "t = ''MA'' \<Longrightarrow> canonicalize_ma raw fill = Ok c"
    and other: "t \<noteq> ''MA'' \<Longrightarrow> \<exists>n. normalize_into rnd (known_type t) raw (base_of t fill) = Ok n \<and>
       (t = ''MACD'' \<longrightarrow> macd_order_ok n) \<and> c = sorted_dict n"
    using assms(3) by (elim canonicalize_ok) (metis Inr_inject)
  note t = normalize_type_idem [OF assms(3)]
  show ?thesis
  proof (cases "t = ''MA''")
    case True
    from canonicalize_again_ma [OF ma [OF True] assms(2)] True show ?thesis by simp
  next
    case False
    from other [OF False] obtain n where n: "normalize_into rnd (known_type t) raw (base_of t fill) = Ok n"
      "t = ''MACD'' \<longrightarrow> macd_order_ok n" "c = sorted_dict n" by blast
    from canonicalize_again_other [OF t False raw n(1,2) assms(2)] n(3) show ?thesis by simp
  qed
qed

lemma canonicalize_type:
  "normalize_indicator_type v = Ok t \<Longrightarrow> canonicalize_parameters rnd v ps fill = canonicalize_parameters rnd t ps fill"
  unfolding canonicalize_parameters_def by (simp only: normalize_type_idem ebind_simps)

section \<open>Keys\<close>

text \<open>What the key of a canonical parameter set is computed from.\<close>

definition key_content :: "string \<Rightarrow> (string, pyval) dict \<Rightarrow> (string, pyval) dict" where
  "key_content t c = (case dict_get c ''period'' of
      Some p \<Rightarrow> if t = ''MA'' then [(''periods'', VList [p])] else c | None \<Rightarrow> c)"

lemma parameter_key_eq:
  "normalize_indicator_type v = Ok t \<Longrightarrow> parameter_key rnd digest v ps =
     emap (\<lambda>c. ''v1_'' @ digest t (key_content t c)) (canonicalize_parameters rnd t ps False)"
  by (simp add: parameter_key_def key_content_def Let_def)

lemma parameter_key_canonical:
  assumes "canonicalize_parameters rnd v ps fill = Ok c" "normalize_indicator_type v = Ok t"
  shows "parameter_key rnd digest t (as_object c) = Ok (''v1_'' @ digest t (key_content t c))"
proof -
  have c: "canonicalize_parameters rnd t (as_object c) False = Ok c"
    using assms(1) _ assms(2) by (rule canonicalize_again) simp
  show ?thesis unfolding parameter_key_eq [OF normalize_type_idem [OF assms(2)]] c by simp
qed

section \<open>Contract of parameter identity\<close>

text \<open>
  Canonicalization is idempotent for every indicator, built-in or not: canonical parameters
  fed back under the canonical type come out unchanged, also when a persisted variant is read
  without filling defaults. Equal parameter sets therefore have one stored form.
\<close>

theorem canonicalize_idempotent:
  assumes "canonicalize_parameters rnd v ps fill = Ok c" "normalize_indicator_type v = Ok t"
  shows "normalize_indicator_type t = Ok t \<and>
    canonicalize_parameters rnd t (as_object c) fill = Ok c \<and>
    canonicalize_parameters rnd t (as_object c) False = Ok c"
  using normalize_type_idem [OF assms(2)] canonicalize_again [OF assms(1) _ assms(2), of fill]
    canonicalize_again [OF assms(1) _ assms(2), of False] by simp

theorem canonicalize_idempotent_witness:
  "normalize_indicator_type '' sma '' = Ok ''MA'' \<and>
   canonicalize_parameters rnd64 ''MA'' (as_object [(''periods'', VList (map VInt [5, 20]))]) True =
     Ok [(''periods'', VList (map VInt [5, 20]))]"
proof -
  let ?raw = "VDict [(VStr '' Periods'', VTuple [VInt 20, VFloat (Fin 5), VInt 20])]"
  have t: "normalize_indicator_type '' sma '' = Ok ''MA''"
    by (simp add: normalize_indicator_type_def INDICATOR_ALIASES_def dict_get_or_def underscore_def
        Let_def text_eval)
  have n: "parameter_name ''MA'' '' Periods'' = ''periods''" "strip '' Periods'' = ''Periods''"
    by (simp_all add: parameter_name_def text_eval)
  have "canonical_periods (VTuple [VInt 20, VFloat (Fin 5), VInt 20]) =
      Ok [(''periods'', VList (map VInt [5, 20]))]"
    by (simp add: canonical_periods_def sequence_items_def normalize_period_def MAX_INDICATOR_PERIOD_def
        MAX_MA_PERIODS_def period_of_def Let_def insert_Diff_if card_insert_if)
  with t n have "canonicalize_parameters rnd64 '' sma '' ?raw True = Ok [(''periods'', VList (map VInt [5, 20]))]"
    by (simp add: canonicalize_parameters_def canonicalize_ma_def INDICATOR_PARAMETER_KEYS_def Let_def)
  from canonicalize_idempotent [OF this t] t show ?thesis by blast
qed

text \<open>
  Canonical moving-average parameters are either one period or a non-empty, strictly
  increasing list of at most 32 periods, every period between 1 and 10000; only a request that
  asks for no defaults may be empty.
\<close>

theorem canonical_ma_shape:
  assumes "canonicalize_parameters rnd ''MA'' ps fill = Ok c"
  shows "(\<exists>n. c = [(''period'', VInt n)] \<and> 0 < n \<and> n \<le> 10000) \<or>
    (\<exists>ns. c = [(''periods'', VList (map VInt ns))] \<and> ns \<noteq> [] \<and> sorted_wrt (<) ns \<and> length ns \<le> 32 \<and>
      (\<forall>n \<in> set ns. 0 < n \<and> n \<le> 10000)) \<or>
    c = [] \<and> \<not> fill"
proof -
  have m: "normalize_indicator_type ''MA'' = Ok ''MA''" by simp
  from assms obtain raw where "canonicalize_ma raw fill = Ok c"
    by (elim canonicalize_ok) (use m in auto)
  from canonicalize_ma_ok [OF this] show ?thesis
    unfolding ma_canonical_def periods_ok_def MAX_MA_PERIODS_def MAX_INDICATOR_PERIOD_def
    by (metis strict_sorted_iff)
qed

theorem canonical_ma_shape_witness:
  "(\<exists>n. [(''period'', VInt 7)] = [(''period'', VInt n)] \<and> 0 < n \<and> n \<le> 10000) \<or>
    (\<exists>ns. [(''period'', VInt 7)] = [(''periods'', VList (map VInt ns))] \<and> ns \<noteq> [] \<and> sorted_wrt (<) ns \<and>
      length ns \<le> 32 \<and> (\<forall>n \<in> set ns. 0 < n \<and> n \<le> 10000)) \<or>
    [(''period'', VInt 7)] = [] \<and> \<not> True"
proof (rule canonical_ma_shape [of rnd64 "VDict [(VStr ''period'', VInt 7)]" True])
  have "parameter_name ''MA'' ''period'' = ''period''" "strip ''period'' = ''period''"
    by (simp_all add: parameter_name_def text_eval)
  then show "canonicalize_parameters rnd64 ''MA'' (VDict [(VStr ''period'', VInt 7)]) True = Ok [(''period'', VInt 7)]"
    by (simp add: canonicalize_parameters_def canonicalize_ma_def INDICATOR_PARAMETER_KEYS_def
        normalize_period_def MAX_INDICATOR_PERIOD_def Let_def)
qed

text \<open>
  The key of a parameter set is a function of its canonical form alone, whatever the
  digest: a set has the key of its canonical form, and an MA with one period has the same key
  whether it is written as \<open>period\<close> or as a one-element list of \<open>periods\<close>.
\<close>

theorem parameter_key_stable:
  assumes "canonicalize_parameters rnd v ps False = Ok c" "normalize_indicator_type v = Ok t"
    and "0 < n" "n \<le> MAX_INDICATOR_PERIOD"
  shows "parameter_key rnd digest v ps = parameter_key rnd digest t (as_object c) \<and>
    parameter_key rnd digest ''MA'' (as_object [(''period'', VInt n)]) =
      parameter_key rnd digest ''MA'' (as_object [(''periods'', VList [VInt n])])"
proof
  have "canonicalize_parameters rnd t ps False = Ok c" using assms(1,2) by (simp add: canonicalize_type)
  then show "parameter_key rnd digest v ps = parameter_key rnd digest t (as_object c)"
    using parameter_key_canonical [OF assms(1,2), of digest] by (simp add: parameter_key_eq [OF assms(2)])
  have "ma_canonical [(''period'', VInt n)]" using assms(3,4) by (simp add: ma_canonical_def)
  moreover have "ma_canonical [(''periods'', VList (map VInt [n]))]"
    using assms(3,4) unfolding ma_canonical_def periods_ok_def MAX_MA_PERIODS_def
    by (intro disjI2 exI [of _ "[n]"]) simp
  ultimately have "canonicalize_parameters rnd ''MA'' (as_object [(''period'', VInt n)]) False = Ok [(''period'', VInt n)]"
    "canonicalize_parameters rnd ''MA'' (as_object [(''periods'', VList [VInt n])]) False =
      Ok [(''periods'', VList [VInt n])]"
    using canonicalize_again_ma [OF canonicalize_ma_id, of "[(''period'', VInt n)]" False False]
      canonicalize_again_ma [OF canonicalize_ma_id, of "[(''periods'', VList (map VInt [n]))]" False False]
    by simp_all
  then show "parameter_key rnd digest ''MA'' (as_object [(''period'', VInt n)]) =
      parameter_key rnd digest ''MA'' (as_object [(''periods'', VList [VInt n])])"
    by (simp add: parameter_key_eq [of "''MA''" "''MA''"] key_content_def)
qed

theorem parameter_key_stable_witness:
  "parameter_key rnd64 (\<lambda>t c. t) ''rsi'' VNone = parameter_key rnd64 (\<lambda>t c. t) ''RSI'' (as_object []) \<and>
    parameter_key rnd64 (\<lambda>t c. t) ''MA'' (as_object [(''period'', VInt 7)]) =
      parameter_key rnd64 (\<lambda>t c. t) ''MA'' (as_object [(''periods'', VList [VInt 7])])"
proof (rule parameter_key_stable)
  show t: "normalize_indicator_type ''rsi'' = Ok ''RSI''"
    by (simp add: normalize_indicator_type_def INDICATOR_ALIASES_def dict_get_or_def underscore_def
        Let_def text_eval)
  show "canonicalize_parameters rnd64 ''rsi'' VNone False = Ok []"
    by (simp add: canonicalize_parameters_def t INDICATOR_PARAMETER_KEYS_def sorted_dict_def)
qed (simp_all add: MAX_INDICATOR_PERIOD_def)

end
