(* ===== verification/Requests.thy ===== *)
theory Requests
  imports Canonical "HOL-Library.Multiset"
begin

text \<open>
  Merging indicator requests and the history they need: the merged list holds canonical
  requests without duplicates, every requested parameter set is represented, and the history
  bound covers every merged request.
\<close>

section \<open>One request in canonical form\<close>

definition ma_request :: "int list \<Rightarrow> indicator_request" where
  "ma_request ns = \<lparr>ir_type = ''MA'', ir_parameters = [(''periods'', VList (map VInt ns))]\<rparr>"

definition canonical_request :: "(real \<Rightarrow> real) \<Rightarrow> indicator_request \<Rightarrow> indicator_request result" where
  "canonical_request rnd r =
     ebind (normalize_indicator_type (ir_type r)) (\<lambda>t.
     emap (\<lambda>ps. if t = ''MA'' then ma_request (sorted_list_of_set (set (ma_periods ps)))
       else \<lparr>ir_type = t, ir_parameters = ps\<rparr>)
       (canonicalize_parameters rnd t (as_object (ir_parameters r)) True))"

text \<open>A request that canonicalization leaves alone.\<close>

definition request_ok :: "(real \<Rightarrow> real) \<Rightarrow> indicator_request \<Rightarrow> bool" where
  "request_ok rnd n \<longleftrightarrow> normalize_indicator_type (ir_type n) = Ok (ir_type n) \<and>
     canonicalize_parameters rnd (ir_type n) (as_object (ir_parameters n)) True = Ok (ir_parameters n)"

lemma ma_periods_list [simp]: "ma_periods [(''periods'', VList (map VInt ns))] = ns"
  by (simp add: ma_periods_def sequence_items_def comp_def period_of_def)

lemma ma_periods_canonical:
  assumes "ma_canonical c"
  shows "periods_ok (sorted_list_of_set (set (ma_periods c)))"
proof -
  from assms consider n where "c = [(''period'', VInt n)]" "0 < n" "n \<le> MAX_INDICATOR_PERIOD"
    | ns where "c = [(''periods'', VList (map VInt ns))]" "periods_ok ns"
    unfolding ma_canonical_def by blast
  then show ?thesis
  proof cases
    case 1
    then have "ma_periods c = [n]" by (simp add: ma_periods_def period_of_def)
    with 1 show ?thesis by (simp add: periods_ok_def MAX_MA_PERIODS_def)
  next
    case 2
    then have "sorted_list_of_set (set (ma_periods c)) = ns"
      by (simp add: periods_ok_def sorted_list_of_set.idem_if_sorted_distinct)
    with 2 show ?thesis by simp
  qed
qed

lemma ma_request_ok: "periods_ok ns \<Longrightarrow> request_ok rnd (ma_request ns)"
proof -
  assume "periods_ok ns"
  then have "ma_canonical [(''periods'', VList (map VInt ns))]" unfolding ma_canonical_def by blast
  from canonicalize_again_ma [OF canonicalize_ma_id [OF this, of True]]
  show ?thesis by (simp add: request_ok_def ma_request_def)
qed

lemma canonicalize_ma_shape:
  assumes "canonicalize_parameters rnd ''MA'' ps True = Ok c"
  shows "ma_canonical c"
proof -
  have m: "normalize_indicator_type ''MA'' = Ok ''MA''" by simp
  from assms obtain raw where "canonicalize_ma raw True = Ok c"
    by (elim canonicalize_ok) (use m in auto)
  from canonicalize_ma_ok [OF this] show ?thesis by simp
qed

lemma canonical_request_ok:
  assumes "canonical_request rnd r = Ok n"
  shows "request_ok rnd n \<and> (ir_type n = ''MA'' \<longrightarrow> (\<exists>ns. n = ma_request ns \<and> periods_ok ns))"
proof -
  from assms obtain t ps where t: "normalize_indicator_type (ir_type r) = Ok t"
    and ps: "canonicalize_parameters rnd t (as_object (ir_parameters r)) True = Ok ps"
    and n: "n = (if t = ''MA'' then ma_request (sorted_list_of_set (set (ma_periods ps)))
       else \<lparr>ir_type = t, ir_parameters = ps\<rparr>)"
    unfolding canonical_request_def ebind_eq_Inr_iff emap_eq_Inr_iff by blast
  note tt = normalize_type_idem [OF t]
  show ?thesis
  proof (cases "t = ''MA''")
    case True
    with ps have "ma_canonical ps" by (simp add: canonicalize_ma_shape)
    then have "periods_ok (sorted_list_of_set (set (ma_periods ps)))" by (rule ma_periods_canonical)
    with n True ma_request_ok show ?thesis by (simp add: ma_request_def) blast
  next
    case False
    from canonicalize_again [OF ps, of True t] tt have "canonicalize_parameters rnd t (as_object ps) True = Ok ps"
      by simp
    with n False tt show ?thesis by (simp add: request_ok_def)
  qed
qed

lemma request_ok_key:
  assumes "request_ok rnd n" "ir_type n \<noteq> ''MA''"
  shows "request_key rnd digest n = Ok (''v1_'' @ digest (ir_type n) (ir_parameters n))"
proof -
  have "request_key rnd digest n = Ok (''v1_'' @ digest (ir_type n) (key_content (ir_type n) (ir_parameters n)))"
    using assms(1) unfolding request_ok_def by (intro parameter_key_canonical) auto
  with assms(2) show ?thesis by (simp add: key_content_def split: option.splits)
qed

section \<open>Merging\<close>

lemma merge_one_eq:
  "merge_one rnd digest r (mas, others) = ebind (canonical_request rnd r) (\<lambda>n.
     if ir_type n = ''MA'' then Ok (dict_set (ma_periods (ir_parameters n)) n mas, others)
     else emap (\<lambda>k. (mas, dict_set (ir_type n, k) n others)) (request_key rnd digest n))"
proof (cases "normalize_indicator_type (ir_type r)")
  case (Inl e)
  then show ?thesis by (simp add: merge_one_def canonical_request_def)
next
  case (Inr t)
  show ?thesis
  proof (cases "canonicalize_parameters rnd t (as_object (ir_parameters r)) True")
    case (Inl e)
    with Inr show ?thesis by (simp add: merge_one_def canonical_request_def)
  next
    case (Inr ps)
    with \<open>normalize_indicator_type (ir_type r) = Ok t\<close> show ?thesis
      by (cases "t = ''MA''") (simp_all add: merge_one_def canonical_request_def ma_request_def Let_def)
  qed
qed

text \<open>What the two dictionaries hold while requests are merged.\<close>

definition merge_inv ::
  "(real \<Rightarrow> real) \<Rightarrow> (string \<Rightarrow> (string, pyval) dict \<Rightarrow> string) \<Rightarrow> merge_state \<Rightarrow> bool"
where
  "merge_inv rnd digest = (\<lambda>(mas, others).
     distinct (dict_keys mas) \<and> distinct (dict_keys others) \<and>
     (\<forall>(ns, n) \<in> set mas. n = ma_request ns \<and> periods_ok ns) \<and>
     (\<forall>((t, k), n) \<in> set others. t = ir_type n \<and> t \<noteq> ''MA'' \<and> request_ok rnd n \<and>
        k = ''v1_'' @ digest t (ir_parameters n)))"

lemma dict_set_member: "p \<in> set (dict_set k v d) \<Longrightarrow> p = (k, v) \<or> p \<in> set d"
  by (induction d) (auto split: if_splits)

lemma merge_one_step:
  assumes "merge_one rnd digest r (mas, others) = Ok st'"
  obtains n where "canonical_request rnd r = Ok n"
    "ir_type n = ''MA'' \<Longrightarrow> st' = (dict_set (ma_periods (ir_parameters n)) n mas, others)"
    "ir_type n \<noteq> ''MA'' \<Longrightarrow>
      st' = (mas, dict_set (ir_type n, ''v1_'' @ digest (ir_type n) (ir_parameters n)) n others)"
proof -
  from assms obtain n where n: "canonical_request rnd r = Ok n"
    and st: "(if ir_type n = ''MA'' then Ok (dict_set (ma_periods (ir_parameters n)) n mas, others)
      else emap (\<lambda>k. (mas, dict_set (ir_type n, k) n others)) (request_key rnd digest n)) = Ok st'"
    unfolding merge_one_eq ebind_eq_Inr_iff by blast
  show thesis
  proof (rule that [OF n])
    show "st' = (dict_set (ma_periods (ir_parameters n)) n mas, others)" if "ir_type n = ''MA''"
      using st that by simp
    show "st' = (mas, dict_set (ir_type n, ''v1_'' @ digest (ir_type n) (ir_parameters n)) n others)"
      if "ir_type n \<noteq> ''MA''"
      using st [unfolded if_not_P [OF that]] request_ok_key [OF _ that, of rnd digest]
        canonical_request_ok [OF n] by simp
  qed
qed

lemma merge_one_inv:
  assumes "merge_one rnd digest r st = Ok st'" "merge_inv rnd digest st"
  shows "merge_inv rnd digest st'"
proof -
  obtain mas others where st: "st = (mas, others)" by (cases st)
  from assms(1)[unfolded st] obtain n where n: "canonical_request rnd r = Ok n"
    and ma: "ir_type n = ''MA'' \<Longrightarrow> st' = (dict_set (ma_periods (ir_parameters n)) n mas, others)"
    and ot: "ir_type n \<noteq> ''MA'' \<Longrightarrow>
      st' = (mas, dict_set (ir_type n, ''v1_'' @ digest (ir_type n) (ir_parameters n)) n others)"
    by (rule merge_one_step) blast
  note ok = canonical_request_ok [OF n]
  note inv = assms(2)[unfolded st merge_inv_def prod.case]
  show ?thesis
  proof (cases "ir_type n = ''MA''")
    case True
    with ok obtain ns where ns: "n = ma_request ns" "periods_ok ns" by blast
    have k: "ma_periods (ir_parameters n) = ns" unfolding ns(1) ma_request_def by simp
    show ?thesis unfolding ma [OF True] k merge_inv_def prod.case
      using inv ns dict_set_distinct by (auto dest!: dict_set_member)
  next
    case False
    show ?thesis unfolding ot [OF False] merge_inv_def prod.case
      using inv ok False dict_set_distinct by (auto dest!: dict_set_member)
  qed
qed

lemma merge_all_inv:
  "merge_all rnd digest rs st = Ok st' \<Longrightarrow> merge_inv rnd digest st \<Longrightarrow> merge_inv rnd digest st'"
proof (induction rs arbitrary: st)
  case (Cons r rs)
  then obtain st1 where "merge_one rnd digest r st = Ok st1" "merge_all rnd digest rs st1 = Ok st'" by auto
  with Cons merge_one_inv show ?case by blast
qed simp

section \<open>Nothing duplicated, nothing lost\<close>

lemma sort_requests_mset:
  assumes "sort_requests rnd digest rs = Ok out"
  shows "mset out = mset rs"
proof -
  let ?key = "\<lambda>r. emap (\<lambda>k. ((ir_type r, k), r)) (request_key rnd digest r)"
  have "map snd keyed = rs" if "traverse ?key rs = Ok keyed" for keyed
    using that by (induction rs arbitrary: keyed) auto
  with assms show ?thesis unfolding sort_requests_def by (auto simp: mset_map)
qed

lemma ma_request_inj: "ma_request a = ma_request b \<Longrightarrow> a = b"
  by (metis ma_periods_list ma_request_def indicator_request.select_convs(2))

lemma merge_values_distinct:
  assumes "merge_inv rnd digest (mas, others)"
  shows "distinct (map snd mas @ map snd others)"
proof -
  note inv = assms [unfolded merge_inv_def prod.case]
  have "p = q" if "p \<in> set mas" "q \<in> set mas" "snd p = snd q" for p q
  proof -
    obtain a m b n where pq: "p = (a, m)" "q = (b, n)" by (cases p; cases q)
    with that have mn: "m = n" and mem: "(a, m) \<in> set mas" "(b, n) \<in> set mas" by auto
    from inv mem have "m = ma_request a" "n = ma_request b" by blast+
    with mn ma_request_inj have "a = b" by metis
    with mn show ?thesis by (simp only: pq)
  qed
  then have "inj_on snd (set mas)" by (rule inj_onI)
  moreover have "p = q" if "p \<in> set others" "q \<in> set others" "snd p = snd q" for p q
  proof -
    obtain t k m u l n where pq: "p = ((t, k), m)" "q = ((u, l), n)" by (metis surj_pair)
    with that have mn: "m = n" by simp
    from that pq have mem: "((t, k), m) \<in> set others" "((u, l), n) \<in> set others" by auto
    from inv mem(1) have "t = ir_type m \<and> k = ''v1_'' @ digest t (ir_parameters m)" by blast
    moreover from inv mem(2) have "u = ir_type n \<and> l = ''v1_'' @ digest u (ir_parameters n)" by blast
    ultimately show ?thesis using mn by (simp only: pq)
  qed
  then have "inj_on snd (set others)" by (rule inj_onI)
  moreover have "distinct mas" "distinct others" using inv by (metis distinct_map)+
  moreover have "snd ` set mas \<inter> snd ` set others = {}"
  proof -
    have "ir_type n = ''MA''" if "n \<in> snd ` set mas" for n
    proof -
      from that obtain ns where "(ns, n) \<in> set mas" by auto
      with inv have "n = ma_request ns" by blast
      then show ?thesis by (simp only: ma_request_def indicator_request.select_convs)
    qed
    moreover have "ir_type n \<noteq> ''MA''" if "n \<in> snd ` set others" for n
    proof -
      from that obtain t k where "((t, k), n) \<in> set others" by auto
      with inv show ?thesis by blast
    qed
    ultimately show ?thesis by blast
  qed
  ultimately show ?thesis by (simp add: distinct_map)
qed

lemma merge_result:
  assumes "merge_indicator_requests rnd digest requests = Ok merged"
  obtains defaults extra mas others where
    "default_requests rnd = Ok defaults"
    "(case requests of None \<Rightarrow> Ok [] | Some rs \<Rightarrow> coerce_requests rs) = Ok extra"
    "merge_all rnd digest (defaults @ extra) ([], []) = Ok (mas, others)"
    "mset merged = mset (map snd mas @ map snd others)" "merge_inv rnd digest (mas, others)"
proof -
  from assms obtain defaults extra mas others ms os where
    d: "default_requests rnd = Ok defaults"
    and e: "(case requests of None \<Rightarrow> Ok [] | Some rs \<Rightarrow> coerce_requests rs) = Ok extra"
    and m: "merge_all rnd digest (defaults @ extra) ([], []) = Ok (mas, others)"
    and s: "sort_requests rnd digest (map snd mas) = Ok ms"
      "sort_requests rnd digest (map snd others) = Ok os" "merged = ms @ os"
    unfolding merge_indicator_requests_def ebind_eq_Inr_iff by auto
  have inv: "merge_inv rnd digest (mas, others)"
    using m by (rule merge_all_inv) (simp add: merge_inv_def)
  have "mset merged = mset (map snd mas @ map snd others)"
    using sort_requests_mset [OF s(1)] sort_requests_mset [OF s(2)] s(3) by simp
  with d e m inv that show thesis by blast
qed

text \<open>A canonical request survives the requests merged after it, unless a key collides.\<close>

definition merged_in :: "indicator_request \<Rightarrow> merge_state \<Rightarrow> bool" where
  "merged_in n st \<longleftrightarrow> n \<in> snd ` set (fst st) \<or> n \<in> snd ` set (snd st)"

lemma dict_set_hit: "(k, v) \<in> set (dict_set k v d)"
  by (induction d) auto

lemma dict_set_keep: "(k', w) \<in> set d \<Longrightarrow> k' \<noteq> k \<Longrightarrow> (k', w) \<in> set (dict_set k v d)"
  by (induction d) auto

lemma dict_set_keep_value:
  assumes "n \<in> snd ` set d" "\<And>k'. (k', n) \<in> set d \<Longrightarrow> k' = k \<Longrightarrow> n = v"
  shows "n \<in> snd ` set (dict_set k v d)"
proof -
  from assms(1) obtain k' where k': "(k', n) \<in> set d" by auto
  show ?thesis
  proof (cases "k' = k")
    case True
    with assms(2) k' have "n = v" by blast
    with dict_set_hit [of k v d] show ?thesis by force
  next
    case False
    with dict_set_keep [OF k' False, of v] show ?thesis by force
  qed
qed

definition collision_free ::
  "(string \<Rightarrow> (string, pyval) dict \<Rightarrow> string) \<Rightarrow> indicator_request set \<Rightarrow> bool"
where
  "collision_free digest S \<longleftrightarrow> (\<forall>a \<in> S. \<forall>b \<in> S. ir_type a = ir_type b \<longrightarrow>
     digest (ir_type a) (ir_parameters a) = digest (ir_type b) (ir_parameters b) \<longrightarrow> a = b)"

definition canonical_set :: "(real \<Rightarrow> real) \<Rightarrow> indicator_request list \<Rightarrow> indicator_request set" where
  "canonical_set rnd rs = {n. \<exists>r \<in> set rs. canonical_request rnd r = Ok n}"

definition values_in :: "indicator_request set \<Rightarrow> merge_state \<Rightarrow> bool" where
  "values_in S st \<longleftrightarrow> snd ` set (snd st) \<subseteq> S"

lemma merge_one_covers:
  assumes one: "merge_one rnd digest r st = Ok st'" and inv: "merge_inv rnd digest st"
    and free: "collision_free digest S" and r: "canonical_request rnd r = Ok c" "c \<in> S"
    and vals: "values_in S st"
  shows "merged_in c st' \<and> values_in S st' \<and> (\<forall>n. merged_in n st \<longrightarrow> merged_in n st')"
proof -
  obtain mas others where st: "st = (mas, others)" by (cases st)
  from one[unfolded st] r(1) obtain
    ma: "ir_type c = ''MA'' \<Longrightarrow> st' = (dict_set (ma_periods (ir_parameters c)) c mas, others)"
    and ot: "ir_type c \<noteq> ''MA'' \<Longrightarrow>
      st' = (mas, dict_set (ir_type c, ''v1_'' @ digest (ir_type c) (ir_parameters c)) c others)"
    by (elim merge_one_step) (metis Inr_inject)
  note i = inv[unfolded st merge_inv_def prod.case]
  show ?thesis
  proof (cases "ir_type c = ''MA''")
    case True
    with canonical_request_ok [OF r(1)] obtain ns where ns: "c = ma_request ns" by blast
    then have k: "ma_periods (ir_parameters c) = ns" by (simp add: ma_request_def)
    have keep: "n \<in> snd ` set (dict_set ns c mas)" if "n \<in> snd ` set mas" for n
      using that by (rule dict_set_keep_value) (use i ns in auto)
    have "c \<in> snd ` set (dict_set ns c mas)" using dict_set_hit [of ns c mas] by force
    with keep vals show ?thesis unfolding ma [OF True] k st merged_in_def values_in_def by auto
  next
    case False
    let ?k = "(ir_type c, ''v1_'' @ digest (ir_type c) (ir_parameters c))"
    have keep: "n \<in> snd ` set (dict_set ?k c others)" if n: "n \<in> snd ` set others" for n
    proof (rule dict_set_keep_value [OF n])
      fix k' assume k': "(k', n) \<in> set others" "k' = ?k"
      then have "ir_type n = ir_type c" "digest (ir_type c) (ir_parameters n) = digest (ir_type c) (ir_parameters c)"
        using i by auto
      moreover have "n \<in> S" using vals n by (auto simp: values_in_def st)
      ultimately show "n = c" using free r(2) unfolding collision_free_def by metis
    qed
    have "c \<in> snd ` set (dict_set ?k c others)" using dict_set_hit [of ?k c others] by force
    moreover have "snd ` set (dict_set ?k c others) \<subseteq> S"
      using vals r(2) dict_set_entries [of ?k c others] by (auto simp: values_in_def st dest!: dict_set_member)
    ultimately show ?thesis unfolding ot [OF False] st merged_in_def values_in_def using keep by auto
  qed
qed

lemma merge_all_covers:
  assumes "merge_all rnd digest rs st = Ok st'" "merge_inv rnd digest st" "collision_free digest S"
    "canonical_set rnd rs \<subseteq> S" "values_in S st"
  shows "(\<forall>c \<in> canonical_set rnd rs. merged_in c st') \<and> (\<forall>n. merged_in n st \<longrightarrow> merged_in n st')"
  using assms
proof (induction rs arbitrary: st)
  case Nil
  then show ?case by (simp add: canonical_set_def)
next
  case (Cons r rs)
  from Cons.prems(1) obtain st1 where one: "merge_one rnd digest r st = Ok st1"
    and rest: "merge_all rnd digest rs st1 = Ok st'" by auto
  obtain mas others where "st = (mas, others)" by (cases st)
  with one obtain c where c: "canonical_request rnd r = Ok c" by (auto elim: merge_one_step)
  with Cons.prems(4) have cS: "c \<in> S" by (auto simp: canonical_set_def)
  note step = merge_one_covers [OF one Cons.prems(2,3) c cS Cons.prems(5)]
  have sub: "canonical_set rnd rs \<subseteq> S" using Cons.prems(4) by (auto simp: canonical_set_def)
  note ih = Cons.IH [OF rest merge_one_inv [OF one Cons.prems(2)] Cons.prems(3) sub]
  show ?case using ih step c by (auto simp: canonical_set_def)
qed

section \<open>History\<close>

lemma foldl_max_ge: "foldl max a ns \<ge> a \<and> (\<forall>n \<in> set ns. n \<le> foldl max a ns)" for a :: int
  by (induction ns arbitrary: a) (auto simp: max_def split: if_splits, (metis dual_order.trans linear)+)

lemma request_history_ge: "required \<le> request_history t ps required"
  using foldl_max_ge by (auto simp: request_history_def Let_def)

lemma request_history_mono: "a \<le> b \<Longrightarrow> request_history t ps a \<le> request_history t ps b"
proof -
  have f: "foldl max a ns \<le> foldl max b ns" if "a \<le> b" for a b :: int and ns
    using that by (induction ns arbitrary: a b) (auto intro: max.mono)
  assume "a \<le> b"
  note ab = this
  then have m: "max a n \<le> max b n" for n by (simp add: max_def)
  show ?thesis unfolding request_history_def Let_def using f [OF ab] m ab by presburger
qed

lemma history_loop_bound:
  assumes "history_loop rnd rs required = Ok bars"
  shows "required \<le> bars \<and> (\<forall>r \<in> set rs. request_ok rnd r \<longrightarrow>
    request_history (ir_type r) (ir_parameters r) required \<le> bars)"
  using assms
proof (induction rs arbitrary: required)
  case (Cons r rs)
  then obtain t ps where t: "normalize_indicator_type (ir_type r) = Ok t"
    and ps: "canonicalize_parameters rnd t (as_object (ir_parameters r)) True = Ok ps"
    and rest: "history_loop rnd rs (request_history t ps required) = Ok bars" by auto
  note ge = request_history_ge [of required t ps]
  note ih = Cons.IH [OF rest]
  have "request_history (ir_type r) (ir_parameters r) required \<le> bars" if "request_ok rnd r"
    using that t ps ih by (simp add: request_ok_def)
  moreover have "request_history (ir_type q) (ir_parameters q) required \<le> bars"
    if "q \<in> set rs" "request_ok rnd q" for q
    using ih that request_history_mono [OF ge, of "ir_type q" "ir_parameters q"] by (meson order_trans)
  ultimately show ?case using ge ih by auto
qed simp

lemma history_loop_ok:
  "\<forall>r \<in> set rs. request_ok rnd r \<Longrightarrow>
     history_loop rnd rs k = Ok (foldl (\<lambda>k r. request_history (ir_type r) (ir_parameters r) k) k rs)"
  by (induction rs arbitrary: k) (simp_all add: request_ok_def)

text \<open>A canonical parameter of a built-in indicator is a number.\<close>

lemma canonical_not_none:
  assumes "canonicalize_parameters rnd t ps fill = Ok c" "normalize_indicator_type t = Ok t"
    and "t \<noteq> ''MA''" "known_type t"
  shows "dict_get c k \<noteq> Some VNone"
proof
  assume k: "dict_get c k = Some VNone"
  from assms(1) obtain raw where raw: "names_ok t raw"
    and ex: "\<exists>n. normalize_into rnd (known_type t) raw (base_of t fill) = Ok n \<and>
       (t = ''MACD'' \<longrightarrow> macd_order_ok n) \<and> c = sorted_dict n"
    using assms(2,3) by (elim canonicalize_ok) (metis Inr_inject)
  then obtain n where n: "normalize_into rnd True raw (base_of t fill) = Ok n" "c = sorted_dict n"
    using assms(4) by auto
  note base = base_of_ok [OF assms(3), of fill rnd]
  have "values_ok rnd True n" using normalize_into_ok [OF n(1) raw] base assms(4) by auto
  moreover have "(k, VNone) \<in> set n" using map_of_SomeD [OF k] sorted_dict_subset n(2) by blast
  ultimately have "normalize_parameter_value rnd k VNone = Ok VNone" unfolding values_ok_def by fastforce
  then show False by (simp add: normalize_parameter_value_def normalize_period_def split: if_splits)
qed

lemma merge_members:
  assumes "merge_indicator_requests rnd digest requests = Ok merged" "r \<in> set merged"
  shows "normalize_indicator_type (ir_type r) = Ok (ir_type r) \<and>
    canonicalize_parameters rnd (ir_type r) (as_object (ir_parameters r)) True = Ok (ir_parameters r) \<and>
    (ir_type r = ''MA'' \<longrightarrow> (\<exists>ns. ir_parameters r = [(''periods'', VList (map VInt ns))] \<and> periods_ok ns))"
proof -
  from assms(1) obtain mas others where m: "mset merged = mset (map snd mas @ map snd others)"
    and inv: "merge_inv rnd digest (mas, others)" by (rule merge_result)
  from assms(2) m have "r \<in> set (map snd mas @ map snd others)" by (metis set_mset_mset)
  then consider ns where "(ns, r) \<in> set mas" | t k where "((t, k), r) \<in> set others" by auto
  then show ?thesis
  proof cases
    case 1
    with inv have r: "r = ma_request ns" "periods_ok ns" unfolding merge_inv_def prod.case by blast+
    with ma_request_ok [OF r(2), of rnd] show ?thesis unfolding request_ok_def ma_request_def by auto
  next
    case 2
    with inv have "ir_type r \<noteq> ''MA''" "request_ok rnd r" unfolding merge_inv_def prod.case by blast+
    then show ?thesis unfolding request_ok_def by blast
  qed
qed

section \<open>Contract of request merging\<close>

text \<open>
  A merged list of requests has no duplicates, and every request in it is in canonical form
  (canonicalizing it again changes nothing; an MA request is a valid strictly increasing list of
  periods), whatever the digest.
\<close>

theorem merge_requests_canonical:
  assumes "merge_indicator_requests rnd digest requests = Ok merged"
  shows "distinct merged \<and> (\<forall>r \<in> set merged.
    normalize_indicator_type (ir_type r) = Ok (ir_type r) \<and>
    canonicalize_parameters rnd (ir_type r) (as_object (ir_parameters r)) True = Ok (ir_parameters r) \<and>
    (ir_type r = ''MA'' \<longrightarrow> (\<exists>ns. ir_parameters r = [(''periods'', VList (map VInt ns))] \<and> periods_ok ns)))"
proof -
  from assms obtain mas others where m: "mset merged = mset (map snd mas @ map snd others)"
    and inv: "merge_inv rnd digest (mas, others)" by (rule merge_result)
  have "distinct merged" using merge_values_distinct [OF inv] m by (metis mset_eq_imp_distinct_iff)
  with merge_members [OF assms] show ?thesis by blast
qed

text \<open>
  Merging loses nothing: with a digest that does not collide on the requests at hand, the
  canonical form of every default request and of every given request is in the merged list.
\<close>

theorem merge_requests_complete:
  assumes "merge_indicator_requests rnd digest requests = Ok merged"
    and "default_requests rnd = Ok defaults"
    and "(case requests of None \<Rightarrow> Ok [] | Some rs \<Rightarrow> coerce_requests rs) = Ok extra"
    and "collision_free digest (canonical_set rnd (defaults @ extra))"
  shows "\<forall>r \<in> set (defaults @ extra). \<exists>n \<in> set merged. canonical_request rnd r = Ok n"
proof -
  from assms(1) obtain d e mas others where de: "default_requests rnd = Ok d"
      "(case requests of None \<Rightarrow> Ok [] | Some rs \<Rightarrow> coerce_requests rs) = Ok e"
    and m: "merge_all rnd digest (d @ e) ([], []) = Ok (mas, others)"
    and ms: "mset merged = mset (map snd mas @ map snd others)" by (rule merge_result)
  from de assms(2,3) have eq: "d = defaults" "e = extra" by simp_all
  have cov: "\<forall>c \<in> canonical_set rnd (defaults @ extra). merged_in c (mas, others)"
    using merge_all_covers [OF m [unfolded eq] _ assms(4) subset_refl]
    by (simp add: merge_inv_def values_in_def)
  have set: "set merged = snd ` set mas \<union> snd ` set others"
    using ms by (metis set_mset_mset set_append set_map)
  have ok: "\<exists>n. canonical_request rnd r = Ok n" if "r \<in> set rs" "merge_all rnd digest rs st = Ok st'" for r rs st st'
    using that
  proof (induction rs arbitrary: st)
    case (Cons q rs)
    obtain a b where "st = (a, b)" by (cases st)
    with Cons show ?case by (auto elim: merge_one_step)
  qed simp
  show ?thesis
  proof
    fix r assume r: "r \<in> set (defaults @ extra)"
    with ok m [unfolded eq] obtain n where n: "canonical_request rnd r = Ok n" by blast
    with r have "n \<in> canonical_set rnd (defaults @ extra)" by (auto simp: canonical_set_def)
    with cov have "n \<in> set merged" unfolding merged_in_def set by auto
    with n show "\<exists>n \<in> set merged. canonical_request rnd r = Ok n" by blast
  qed
qed

text \<open>The built-in defaults, evaluated.\<close>

definition default_list :: "indicator_request list" where
  "default_list = map (\<lambda>(t, d). \<lparr>ir_type = t, ir_parameters = d\<rparr>)
    [(''MA'', [(''periods'', VList [VInt 5, VInt 10])]),
     (''PROJECTED_MA'', [(''period'', VInt 5)]),
     (''RSI'', [(''period'', VInt 14)]),
     (''KDJ'', [(''d_period'', VInt 3), (''k_period'', VInt 3), (''period'', VInt 9)]),
     (''BOLL'', [(''multiplier'', VFloat (Fin 2)), (''period'', VInt 20)]),
     (''MACD'', [(''fast_period'', VInt 12), (''signal_period'', VInt 9), (''slow_period'', VInt 26)])]"

lemma canonicalize_entry:
  assumes "normalize_indicator_type t = Ok t" "names_ok t d" "allowed_names t d" "t \<noteq> ''MA''"
    and "normalize_into rnd (known_type t) d (base_of t True) = Ok n" "t = ''MACD'' \<longrightarrow> macd_order_ok n"
  shows "canonicalize_parameters rnd t (as_object d) True = Ok (sorted_dict n)"
  using assms(5,6) by (simp add: canonicalize_object [OF assms(1-3)] assms(4))

lemma default_requests_eq: "default_requests rnd = Ok default_list"
proof -
  have names: "names_ok ''PROJECTED_MA'' [(''period'', VInt 5)]" "names_ok ''RSI'' [(''period'', VInt 14)]"
    "names_ok ''KDJ'' [(''period'', VInt 9), (''k_period'', VInt 3), (''d_period'', VInt 3)]"
    "names_ok ''BOLL'' [(''period'', VInt 20), (''multiplier'', VFloat (Fin 2))]"
    "names_ok ''MACD'' [(''fast_period'', VInt 12), (''slow_period'', VInt 26), (''signal_period'', VInt 9)]"
    by (simp_all add: names_ok_def name_ok_def parameter_name_def text_eval)
  note ev = canonicalize_object names allowed_names_def INDICATOR_PARAMETER_KEYS_def base_of_def dict_get_or_def
    DEFAULT_PARAMETER_MAP_def normalize_parameter_value_def INTEGER_PARAMETER_KEYS_def
    MAX_INDICATOR_PERIOD_def positive_finite_def macd_order_ok_def period_of_def
  have "canonicalize_parameters rnd ''PROJECTED_MA'' (as_object [(''period'', VInt 5)]) True = Ok [(''period'', VInt 5)]"
    "canonicalize_parameters rnd ''RSI'' (as_object [(''period'', VInt 14)]) True = Ok [(''period'', VInt 14)]"
    "canonicalize_parameters rnd ''KDJ'' (as_object [(''period'', VInt 9), (''k_period'', VInt 3), (''d_period'', VInt 3)])
      True = Ok [(''d_period'', VInt 3), (''k_period'', VInt 3), (''period'', VInt 9)]"
    "canonicalize_parameters rnd ''BOLL'' (as_object [(''period'', VInt 20), (''multiplier'', VFloat (Fin 2))]) True =
      Ok [(''multiplier'', VFloat (Fin 2)), (''period'', VInt 20)]"
    "canonicalize_parameters rnd ''MACD''
      (as_object [(''fast_period'', VInt 12), (''slow_period'', VInt 26), (''signal_period'', VInt 9)]) True =
      Ok [(''fast_period'', VInt 12), (''signal_period'', VInt 9), (''slow_period'', VInt 26)]"
    by (simp_all add: ev sorted_dict_def)
  moreover have "canonicalize_parameters rnd ''MA'' (as_object [(''periods'', VList (map VInt [5, 10]))]) True =
      Ok [(''periods'', VList (map VInt [5, 10]))]"
  proof -
    have "periods_ok [5, 10]" by (simp add: periods_ok_def MAX_MA_PERIODS_def MAX_INDICATOR_PERIOD_def)
    then have "ma_canonical [(''periods'', VList (map VInt [5, 10]))]" unfolding ma_canonical_def by blast
    from canonicalize_again_ma [OF canonicalize_ma_id [OF this, of True]] show ?thesis by simp
  qed
  ultimately show ?thesis
    by (simp add: default_requests_def default_parameters_eq dict_get_or_def DEFAULT_PARAMETER_MAP_def
        DEFAULT_MA_PERIODS_def default_list_def)
qed

lemma default_list_ok: "r \<in> set default_list \<Longrightarrow> request_ok rnd r"
proof -
  assume r: "r \<in> set default_list"
  obtain t d where "normalize_indicator_type t = Ok t" "ir_type r = t"
    "canonicalize_parameters rnd t (as_object d) True = Ok (ir_parameters r)"
  proof -
    from traverse_source [OF default_requests_eq [of rnd, unfolded default_requests_def] r]
    obtain t d c where t: "t \<in> set (dict_keys DEFAULT_PARAMETER_MAP)"
      and c: "canonicalize_parameters rnd t (as_object d) True = Ok c"
      and r': "r = \<lparr>ir_type = t, ir_parameters = c\<rparr>"
      by (auto simp del: set_map)
    from t have "normalize_indicator_type t = Ok t" by (auto simp: DEFAULT_PARAMETER_MAP_def)
    with that c r' show thesis by simp
  qed
  with canonicalize_again [of rnd t "as_object d" True "ir_parameters r" True t]
  show ?thesis by (simp add: request_ok_def)
qed

lemma canonical_request_id:
  assumes "request_ok rnd r" "ir_type r \<noteq> ''MA''"
  shows "canonical_request rnd r = Ok r"
  using assms by (simp add: canonical_request_def request_ok_def)

lemma merge_one_id:
  assumes "request_ok rnd r" "ir_type r \<noteq> ''MA''"
  shows "merge_one rnd digest r (mas, others) =
    Ok (mas, dict_set (ir_type r, ''v1_'' @ digest (ir_type r) (ir_parameters r)) r others)"
  using assms by (simp add: merge_one_eq canonical_request_id request_ok_key)

lemma merge_one_ma:
  assumes "periods_ok ns"
  shows "merge_one rnd digest (ma_request ns) (mas, others) = Ok (dict_set ns (ma_request ns) mas, others)"
proof -
  have "request_ok rnd (ma_request ns)" using assms by (rule ma_request_ok)
  then have "canonical_request rnd (ma_request ns) = Ok (ma_request ns)"
    using assms by (simp add: canonical_request_def request_ok_def ma_request_def periods_ok_def
        sorted_list_of_set.idem_if_sorted_distinct)
  then show ?thesis by (simp add: merge_one_eq) (simp add: ma_request_def)
qed

definition merged_defaults :: "indicator_request list" where
  "merged_defaults = map (\<lambda>i. default_list ! i) [0, 4, 3, 5, 1, 2]"

lemma merged_defaults_ok: "r \<in> set merged_defaults \<Longrightarrow> request_ok rnd r"
proof -
  assume "r \<in> set merged_defaults"
  then obtain i where "r = default_list ! i" "i < 6" by (auto simp: merged_defaults_def)
  moreover have "length default_list = 6" by (simp add: default_list_def)
  ultimately show ?thesis using default_list_ok nth_mem by metis
qed

lemma merge_defaults: "merge_indicator_requests rnd (\<lambda>t c. t) None = Ok merged_defaults"
proof -
  let ?r = "\<lambda>i. default_list ! i"
  have ok: "request_ok rnd (?r i)" if "i < 6" for i
    using that by (intro default_list_ok nth_mem) (simp add: default_list_def)
  have ty: "ir_type (?r 1) = ''PROJECTED_MA''" "ir_type (?r 2) = ''RSI''" "ir_type (?r 3) = ''KDJ''"
    "ir_type (?r 4) = ''BOLL''" "ir_type (?r 5) = ''MACD''"
    by (simp_all add: default_list_def)
  have m0: "?r 0 = ma_request [5, 10]" by (simp add: default_list_def ma_request_def)
  have p0: "periods_ok [5, 10]" by (simp add: periods_ok_def MAX_MA_PERIODS_def MAX_INDICATOR_PERIOD_def)
  have l: "default_list = [?r 0, ?r 1, ?r 2, ?r 3, ?r 4, ?r 5]"
    by (simp add: default_list_def)
  have all: "merge_all rnd (\<lambda>t c. t) default_list ([], []) = Ok ([([5, 10], ?r 0)],
     [((''PROJECTED_MA'', ''v1_PROJECTED_MA''), ?r 1), ((''RSI'', ''v1_RSI''), ?r 2), ((''KDJ'', ''v1_KDJ''), ?r 3),
      ((''BOLL'', ''v1_BOLL''), ?r 4), ((''MACD'', ''v1_MACD''), ?r 5)])"
    by (subst l, simp only: m0) (simp add: merge_one_ma [OF p0] merge_one_id ok ty del: One_nat_def)
  have key0: "request_key rnd (\<lambda>t c. t) (?r 0) = Ok ''v1_MA''"
    using ok [of 0] unfolding request_ok_def m0
    by (subst parameter_key_canonical [where v = "''MA''" and ps = "as_object (ir_parameters (?r 0))"])
      (auto simp: m0 ma_request_def)
  have s0: "sort_requests rnd (\<lambda>t c. t) [?r 0] = Ok [?r 0]"
    by (simp add: sort_requests_def key0)
  have keys: "parameter_key rnd (\<lambda>t c. t) ''PROJECTED_MA'' (as_object (ir_parameters (?r 1))) = Ok ''v1_PROJECTED_MA''"
    "parameter_key rnd (\<lambda>t c. t) ''RSI'' (as_object (ir_parameters (?r 2))) = Ok ''v1_RSI''"
    "parameter_key rnd (\<lambda>t c. t) ''KDJ'' (as_object (ir_parameters (?r 3))) = Ok ''v1_KDJ''"
    "parameter_key rnd (\<lambda>t c. t) ''BOLL'' (as_object (ir_parameters (?r 4))) = Ok ''v1_BOLL''"
    "parameter_key rnd (\<lambda>t c. t) ''MACD'' (as_object (ir_parameters (?r 5))) = Ok ''v1_MACD''"
    using request_ok_key [OF ok [of 1], of "\<lambda>t c. t"]
      request_ok_key [OF ok [of 2], of "\<lambda>t c. t"]
      request_ok_key [OF ok [of 3], of "\<lambda>t c. t"]
      request_ok_key [OF ok [of 4], of "\<lambda>t c. t"]
      request_ok_key [OF ok [of 5], of "\<lambda>t c. t"]
    by (simp_all only: ty) simp_all
  have s1: "sort_requests rnd (\<lambda>t c. t) [?r 1, ?r 2, ?r 3, ?r 4, ?r 5] = Ok [?r 4, ?r 3, ?r 5, ?r 1, ?r 2]"
    by (simp add: sort_requests_def keys ty del: One_nat_def)
  show ?thesis
    by (simp add: merge_indicator_requests_def default_requests_eq all s0 s1 merged_defaults_def del: One_nat_def)
qed

theorem merge_requests_canonical_witness:
  "distinct merged_defaults \<and> list_all (\<lambda>r.
    normalize_indicator_type (ir_type r) = Ok (ir_type r) \<and>
    canonicalize_parameters rnd64 (ir_type r) (as_object (ir_parameters r)) True = Ok (ir_parameters r) \<and>
    (ir_type r = ''MA'' \<longrightarrow> (\<exists>ns. ir_parameters r = [(''periods'', VList (map VInt ns))] \<and> periods_ok ns))) merged_defaults"
  unfolding list_all_iff by (rule merge_requests_canonical [OF merge_defaults])

theorem merge_requests_complete_witness:
  "list_all (\<lambda>r. \<exists>n \<in> set merged_defaults. canonical_request rnd64 r = Ok n) (default_list @ [])"
  unfolding list_all_iff
proof (rule merge_requests_complete [OF merge_defaults default_requests_eq])
  show "(case None of None \<Rightarrow> Ok [] | Some rs \<Rightarrow> coerce_requests rs) = Ok []" by simp
  have "a = b" if "canonical_request rnd64 p = Ok a" "canonical_request rnd64 q = Ok b"
    "p \<in> set default_list" "q \<in> set default_list" "ir_type a = ir_type b" for p q a b
  proof -
    have t: "ir_type n = ir_type r" if "canonical_request rnd64 r = Ok n" "r \<in> set default_list" for r n
      using that default_list_ok [OF that(2), of rnd64]
      by (cases "ir_type r = ''MA''") (auto simp: canonical_request_def request_ok_def ma_request_def)
    have "distinct (map ir_type default_list)" by (simp add: default_list_def)
    moreover have "ir_type p = ir_type q" using t [OF that(1,3)] t [OF that(2,4)] that(5) by simp
    ultimately have "p = q" using that(3,4) by (auto simp: distinct_map inj_on_def)
    with that(1,2) show ?thesis by simp
  qed
  then show "collision_free (\<lambda>t c. t) (canonical_set rnd64 (default_list @ []))"
    unfolding collision_free_def canonical_set_def by auto
qed

end
