(* ===== verification/State_Types.thy ===== *)
theory State_Types
  imports Indicator_Types Python_Values
begin

text \<open>
  The input and output contracts of state recognition (\<open>states/types.py\<close>): normalized indicator
  snapshots, prices, and state results. The lemmas show that every constructed snapshot is
  normalized, that normalizing it again changes nothing, and that a snapshot survives the round
  trip through its dictionary form.
\<close>

section \<open>Definitions\<close>

datatype state_status = ACTIVE | INACTIVE | UNKNOWN

definition snapshot_float :: "(real \<Rightarrow> real) \<Rightarrow> pyval \<Rightarrow> string \<Rightarrow> real result" where
  "snapshot_float rnd v field_name =
     (if \<not> is_real_number v then Raise (InvalidSnapshotError (field_name @ '' must be a real number''))
      else case to_float rnd v of
          Inl _ \<Rightarrow> Raise (InvalidSnapshotError (field_name @ '' must be a real number''))
        | Inr f \<Rightarrow> finite_or f (InvalidSnapshotError (field_name @ '' must be finite'')))"

text \<open>\<open>str(key)\<close> of a mapping key.\<close>

definition key_text :: "pyval \<Rightarrow> string" where
  "key_text k = (case k of VStr s \<Rightarrow> s | VInt n \<Rightarrow> int_str n
     | VBool b \<Rightarrow> (if b then ''True'' else ''False'') | VNone \<Rightarrow> ''None'' | VObj t \<Rightarrow> t | _ \<Rightarrow> [])"

text \<open>Frozen metadata: lists become tuples, mappings have text keys. Thawing makes lists again.\<close>

function freeze :: "pyval \<Rightarrow> pyval" where
  "freeze (VDict d) = VDict (map (\<lambda>p. (VStr (key_text (fst p)), freeze (snd p))) d)"
| "freeze (VList xs) = VTuple (map freeze xs)"
| "freeze (VTuple xs) = VTuple (map freeze xs)"
| "freeze (VSet xs) = VSet (map freeze xs)"
| "freeze VNone = VNone"
| "freeze (VBool b) = VBool b"
| "freeze (VInt n) = VInt n"
| "freeze (VFloat f) = VFloat f"
| "freeze (VDecimal f) = VDecimal f"
| "freeze (VStr s) = VStr s"
| "freeze (VObj t) = VObj t"
  by (pat_completeness, simp_all)
termination
  by (relation "measure size") (auto dest: size_in_list size_in_dict)

function thaw :: "pyval \<Rightarrow> pyval" where
  "thaw (VDict d) = VDict (map (\<lambda>p. (fst p, thaw (snd p))) d)"
| "thaw (VList xs) = VList (map thaw xs)"
| "thaw (VTuple xs) = VList (map thaw xs)"
| "thaw (VSet xs) = VList (map thaw xs)"
| "thaw VNone = VNone"
| "thaw (VBool b) = VBool b"
| "thaw (VInt n) = VInt n"
| "thaw (VFloat f) = VFloat f"
| "thaw (VDecimal f) = VDecimal f"
| "thaw (VStr s) = VStr s"
| "thaw (VObj t) = VObj t"
  by (pat_completeness, simp_all)
termination
  by (relation "measure size") (auto dest: size_in_list size_in_dict)

definition freeze_mapping :: "pyval \<Rightarrow> string \<Rightarrow> pyval result" where
  "freeze_mapping v field_name = (case v of
      VDict d \<Rightarrow> Ok (freeze (VDict d)) | _ \<Rightarrow> Raise (TypeError (field_name @ '' must be a mapping'')))"

definition normalize_indicator :: "pyval \<Rightarrow> string result" where
  "normalize_indicator v = (case v of
      VStr s \<Rightarrow>
        if strip s = [] then Raise (InvalidSnapshotError ''indicator must be a non-empty string'')
        else let n = upper (strip s)
             in Ok (dict_get_or [(''BOLLINGER'', ''BOLL''), (''SMA'', ''MA'')] n n)
    | _ \<Rightarrow> Raise (InvalidSnapshotError ''indicator must be a non-empty string''))"

fun normalize_entries ::
  "(real \<Rightarrow> real) \<Rightarrow> string \<Rightarrow> (pyval \<times> pyval) list \<Rightarrow> (string, real) dict \<Rightarrow> (string, real) dict result"
where
  "normalize_entries rnd field_name [] acc = Ok acc"
| "normalize_entries rnd field_name ((key, v) # rest) acc = (case key of
      VStr s \<Rightarrow>
        if strip s = [] then Raise (InvalidSnapshotError (field_name @ '' keys must be non-empty strings''))
        else ebind (snapshot_float rnd v (field_name @ ''.'' @ s))
               (\<lambda>x. normalize_entries rnd field_name rest (dict_set (lower (strip s)) x acc))
    | _ \<Rightarrow> Raise (InvalidSnapshotError (field_name @ '' keys must be non-empty strings'')))"

definition normalize_values :: "(real \<Rightarrow> real) \<Rightarrow> pyval \<Rightarrow> string \<Rightarrow> (string, real) dict result" where
  "normalize_values rnd v field_name = (case v of
      VDict d \<Rightarrow> normalize_entries rnd field_name d []
    | _ \<Rightarrow> Raise (InvalidSnapshotError (field_name @ '' must be a mapping'')))"

fun normalize_snapshot_parameters ::
  "(real \<Rightarrow> real) \<Rightarrow> (pyval \<times> pyval) list \<Rightarrow> (string, real) dict \<Rightarrow> (string, real) dict result"
where
  "normalize_snapshot_parameters rnd [] acc = Ok acc"
| "normalize_snapshot_parameters rnd ((key, v) # rest) acc = (case key of
      VStr s \<Rightarrow>
        if strip s = [] then Raise (InvalidSnapshotError ''parameter keys must be non-empty strings'')
        else ebind (snapshot_float rnd v (''parameters.'' @ s))
               (\<lambda>x. normalize_snapshot_parameters rnd rest (dict_set (strip s) x acc))
    | _ \<Rightarrow> Raise (InvalidSnapshotError ''parameter keys must be non-empty strings''))"

record indicator_snapshot =
  is_indicator :: string
  is_values :: "(string, real) dict"
  is_previous :: "(string, real) dict option"
  is_parameters :: "(string, real) dict"
  is_metadata :: pyval

text \<open>\<open>IndicatorSnapshot.__init__\<close>, its checks in order.\<close>

definition check_indicator_match :: "pyval \<Rightarrow> pyval \<Rightarrow> unit result" where
  "check_indicator_match indicator indicator_type =
     (if indicator \<noteq> VNone \<and> indicator_type \<noteq> VNone
      then ebind (normalize_indicator indicator) (\<lambda>a.
           ebind (normalize_indicator indicator_type) (\<lambda>b.
             if a \<noteq> b then Raise (InvalidSnapshotError ''indicator and indicator_type do not match'')
             else Ok ()))
      else Ok ())"

definition IndicatorSnapshot ::
  "(real \<Rightarrow> real) \<Rightarrow> pyval \<Rightarrow> pyval \<Rightarrow> pyval \<Rightarrow> pyval \<Rightarrow> pyval \<Rightarrow> pyval \<Rightarrow> indicator_snapshot result"
where
  "IndicatorSnapshot rnd indicator values indicator_type previous_values parameters metadata =
     ebind (check_indicator_match indicator indicator_type) (\<lambda>_.
     if values = VNone then Raise (InvalidSnapshotError ''values are required'')
     else
       ebind (normalize_values rnd values ''values'') (\<lambda>vs.
       ebind (if previous_values = VNone then Ok None
              else emap Some (normalize_values rnd previous_values ''previous_values'')) (\<lambda>prev.
       ebind (case parameters of
           VNone \<Rightarrow> Ok [] | VDict d \<Rightarrow> normalize_snapshot_parameters rnd d []
         | _ \<Rightarrow> Raise (TypeError ''parameters must be a mapping'')) (\<lambda>ps.
       ebind (freeze_mapping (if metadata = VNone then VDict [] else metadata) ''metadata'') (\<lambda>md.
       emap (\<lambda>ind. \<lparr>is_indicator = ind, is_values = vs, is_previous = prev, is_parameters = ps,
           is_metadata = md\<rparr>)
         (normalize_indicator (if indicator \<noteq> VNone then indicator else indicator_type)))))))"

definition reserved_keys :: "string list" where
  "reserved_keys = [''indicator'', ''indicator_type'', ''type'', ''previous_values'', ''parameters'', ''metadata'']"

text \<open>\<open>value.get(name)\<close> with \<open>None\<close> for a missing key.\<close>

definition get_none :: "(pyval \<times> pyval) list \<Rightarrow> string \<Rightarrow> pyval" where
  "get_none d name = (case mapping_get d name of None \<Rightarrow> VNone | Some v \<Rightarrow> v)"

definition snapshot_from_mapping :: "(real \<Rightarrow> real) \<Rightarrow> (pyval \<times> pyval) list \<Rightarrow> indicator_snapshot result" where
  "snapshot_from_mapping rnd d =
     (let indicator = (case mapping_get d ''indicator'' of Some v \<Rightarrow> v | None \<Rightarrow>
            (case mapping_get d ''indicator_type'' of Some v \<Rightarrow> v | None \<Rightarrow> get_none d ''type''));
          values = (if get_none d ''values'' = VNone
            then VDict (filter (\<lambda>p. fst p \<notin> VStr ` set reserved_keys) d) else get_none d ''values'')
      in IndicatorSnapshot rnd indicator values VNone (get_none d ''previous_values'')
           (get_none d ''parameters'') (get_none d ''metadata''))"

definition float_object :: "(string, real) dict \<Rightarrow> pyval" where
  "float_object d = as_object (map (\<lambda>(k, x). (k, VFloat (Fin x))) d)"

definition snapshot_from_result :: "(real \<Rightarrow> real) \<Rightarrow> indicator_result \<Rightarrow> indicator_snapshot result" where
  "snapshot_from_result rnd r = IndicatorSnapshot rnd (VStr (result_indicator r))
     (float_object (result_values r)) VNone VNone (as_object (result_parameters r)) VNone"

definition snapshot_to_dict :: "indicator_snapshot \<Rightarrow> (string, pyval) dict" where
  "snapshot_to_dict s =
     [(''indicator'', VStr (is_indicator s)), (''values'', float_object (is_values s)),
      (''parameters'', float_object (is_parameters s)), (''metadata'', thaw (is_metadata s))] @
     (case is_previous s of None \<Rightarrow> [] | Some p \<Rightarrow> [(''previous_values'', float_object p)])"

record price_snapshot =
  ps_current :: real
  ps_previous :: "real option"

definition PriceSnapshot :: "(real \<Rightarrow> real) \<Rightarrow> pyval \<Rightarrow> pyval \<Rightarrow> price_snapshot result" where
  "PriceSnapshot rnd current previous =
     ebind (snapshot_float rnd current ''price.current'') (\<lambda>c.
     emap (\<lambda>p. \<lparr>ps_current = c, ps_previous = p\<rparr>)
       (if previous = VNone then Ok None else emap Some (snapshot_float rnd previous ''price.previous'')))"

section \<open>Normalized snapshots\<close>

text \<open>
  What a constructed snapshot satisfies: a non-empty upper-case indicator that is no alias,
  values under distinct stripped lower-case names, parameters under distinct stripped names.
\<close>

definition value_names_ok :: "(string, real) dict \<Rightarrow> bool" where
  "value_names_ok d \<longleftrightarrow> distinct (dict_keys d) \<and>
     (\<forall>k \<in> set (dict_keys d). k \<noteq> [] \<and> strip k = k \<and> lower k = k)"

definition parameter_names_ok :: "(string, real) dict \<Rightarrow> bool" where
  "parameter_names_ok d \<longleftrightarrow> distinct (dict_keys d) \<and> (\<forall>k \<in> set (dict_keys d). k \<noteq> [] \<and> strip k = k)"

definition snapshot_inv :: "indicator_snapshot \<Rightarrow> bool" where
  "snapshot_inv s \<longleftrightarrow> normalize_indicator (VStr (is_indicator s)) = Ok (is_indicator s) \<and>
     value_names_ok (is_values s) \<and>
     (\<forall>p. is_previous s = Some p \<longrightarrow> value_names_ok p) \<and>
     parameter_names_ok (is_parameters s) \<and>
     (\<exists>d. is_metadata s = VDict d) \<and> freeze (is_metadata s) = is_metadata s"

lemma freeze_freeze [simp]: "freeze (freeze v) = freeze v"
  by (induction v rule: freeze.induct) (auto simp: key_text_def)

lemma normalize_entries_ok:
  "normalize_entries rnd f d acc = Ok r \<Longrightarrow> value_names_ok acc \<Longrightarrow> value_names_ok r"
proof (induction rnd f d acc rule: normalize_entries.induct)
  case (2 rnd f key v rest acc)
  from 2(2) obtain s x where s: "key = VStr s" "strip s \<noteq> []" "snapshot_float rnd v (f @ ''.'' @ s) = Ok x"
    "normalize_entries rnd f rest (dict_set (lower (strip s)) x acc) = Ok r"
    by (auto split: pyval.splits if_splits)
  have "value_names_ok (dict_set (lower (strip s)) x acc)"
    using 2(3) s(2) unfolding value_names_ok_def dict_set_keys by (auto simp: strip_lower)
  with 2(1) s show ?case by blast
qed simp

lemma normalize_parameters_ok:
  "normalize_snapshot_parameters rnd d acc = Ok r \<Longrightarrow> parameter_names_ok acc \<Longrightarrow> parameter_names_ok r"
proof (induction rnd d acc rule: normalize_snapshot_parameters.induct)
  case (2 rnd key v rest acc)
  from 2(2) obtain s x where s: "key = VStr s" "strip s \<noteq> []" "snapshot_float rnd v (''parameters.'' @ s) = Ok x"
    "normalize_snapshot_parameters rnd rest (dict_set (strip s) x acc) = Ok r"
    by (auto split: pyval.splits if_splits)
  have "parameter_names_ok (dict_set (strip s) x acc)"
    using 2(3) s(2) unfolding parameter_names_ok_def dict_set_keys by auto
  with 2(1) s show ?case by blast
qed simp

lemma normalize_values_ok: "normalize_values rnd v f = Ok r \<Longrightarrow> value_names_ok r"
  by (auto simp: normalize_values_def value_names_ok_def [of "[]"]
      dest: normalize_entries_ok split: pyval.splits)

lemma normalize_indicator_literals [simp]:
  "normalize_indicator (VStr ''MA'') = Ok ''MA''" "normalize_indicator (VStr ''BOLL'') = Ok ''BOLL''"
  "normalize_indicator (VStr ''KDJ'') = Ok ''KDJ''" "normalize_indicator (VStr ''MACD'') = Ok ''MACD''"
  by (simp_all add: normalize_indicator_def dict_get_or_def Let_def text_eval)

lemma normalize_indicator_idem:
  assumes "normalize_indicator v = Ok n"
  shows "normalize_indicator (VStr n) = Ok n"
proof -
  from assms obtain s where s: "v = VStr s" "strip s \<noteq> []"
    and n: "n = dict_get_or [(''BOLLINGER'', ''BOLL''), (''SMA'', ''MA'')] (upper (strip s)) (upper (strip s))"
    by (auto simp: normalize_indicator_def Let_def split: pyval.splits if_splits)
  show ?thesis
  proof (cases "dict_get [(''BOLLINGER'', ''BOLL''), (''SMA'', ''MA'')] (upper (strip s))")
    case None
    with n have "n = upper (strip s)" by (simp only: dict_get_or_def option.case)
    with None s(2) show ?thesis
      by (simp add: normalize_indicator_def strip_upper dict_get_or_def Let_def)
  next
    case (Some a)
    then have "n = ''BOLL'' \<or> n = ''MA''" unfolding n dict_get_or_def by (simp split: if_splits)
    then show ?thesis by (elim disjE) simp_all
  qed
qed

lemma IndicatorSnapshot_inv:
  assumes "IndicatorSnapshot rnd i v it pv ps md = Ok s"
  shows "snapshot_inv s"
proof -
  from assms obtain vs prev qs m ind where
    v: "normalize_values rnd v ''values'' = Ok vs"
    and p: "(if pv = VNone then Ok None else emap Some (normalize_values rnd pv ''previous_values'')) = Ok prev"
    and q: "(case ps of VNone \<Rightarrow> Ok [] | VDict d \<Rightarrow> normalize_snapshot_parameters rnd d []
         | _ \<Rightarrow> Raise (TypeError ''parameters must be a mapping'')) = Ok qs"
    and m: "freeze_mapping (if md = VNone then VDict [] else md) ''metadata'' = Ok m"
    and i: "normalize_indicator (if i \<noteq> VNone then i else it) = Ok ind"
    and s: "s = \<lparr>is_indicator = ind, is_values = vs, is_previous = prev, is_parameters = qs, is_metadata = m\<rparr>"
    unfolding IndicatorSnapshot_def by (simp only: ebind_eq_Inr_iff emap_eq_Inr_iff split: if_splits) auto
  have "value_names_ok vs" using v by (rule normalize_values_ok)
  moreover have "value_names_ok x" if "prev = Some x" for x
    using p that by (auto dest: normalize_values_ok split: if_splits)
  moreover have "parameter_names_ok qs"
    using q by (auto simp: parameter_names_ok_def [of "[]"] dest: normalize_parameters_ok split: pyval.splits)
  moreover have "(\<exists>d. m = VDict d) \<and> freeze m = m"
    using m by (auto simp: freeze_mapping_def key_text_def split: pyval.splits if_splits)
  moreover note normalize_indicator_idem [OF i]
  ultimately show ?thesis unfolding s snapshot_inv_def by simp
qed

section \<open>Round trip through the dictionary form\<close>

text \<open>Metadata without sets, such as everything that comes from JSON.\<close>

function set_free :: "pyval \<Rightarrow> bool" where
  "set_free (VDict d) = (\<forall>p \<in> set d. set_free (snd p))"
| "set_free (VList xs) = (\<forall>x \<in> set xs. set_free x)"
| "set_free (VTuple xs) = (\<forall>x \<in> set xs. set_free x)"
| "set_free (VSet xs) = False"
| "set_free VNone = True"
| "set_free (VBool b) = True"
| "set_free (VInt n) = True"
| "set_free (VFloat f) = True"
| "set_free (VDecimal f) = True"
| "set_free (VStr s) = True"
| "set_free (VObj t) = True"
  by (pat_completeness, simp_all)
termination
  by (relation "measure size") (auto dest: size_in_list size_in_dict)

lemma freeze_thaw: "freeze v = v \<Longrightarrow> set_free v \<Longrightarrow> freeze (thaw v) = v"
proof (induction v rule: thaw.induct)
  case (1 d)
  have "(VStr (key_text (fst p)), freeze (thaw (snd p))) = p" if p: "p \<in> set d" for p
  proof -
    from 1(2) p have "(VStr (key_text (fst p)), freeze (snd p)) = p"
      by (simp add: map_eq_conv [symmetric]) (metis (no_types, lifting) map_eq_conv map_ident)
    then show ?thesis using 1(1) [OF p] 1(3) p by (metis fst_conv set_free.simps(1) snd_conv)
  qed
  then have "map (\<lambda>p. (VStr (key_text (fst p)), freeze (thaw (snd p)))) d = d" by (intro map_idI)
  then show ?case by (simp add: comp_def)
next
  case (3 xs)
  have "freeze (thaw x) = x" if "x \<in> set xs" for x
    using 3 that by (simp, metis map_eq_conv map_ident)
  then have "map (\<lambda>x. freeze (thaw x)) xs = xs" by (intro map_idI)
  then show ?case by (simp add: comp_def)
qed auto

lemma normalize_entries_id:
  "value_names_ok (acc @ d) \<Longrightarrow>
     normalize_entries rnd f (map (\<lambda>(k, x). (VStr k, VFloat (Fin x))) d) acc = Ok (acc @ d)"
proof (induction d arbitrary: acc)
  case (Cons p d)
  obtain k x where p: "p = (k, x)" by (cases p)
  with Cons.prems have k: "strip k = k" "lower k = k" "k \<noteq> []" "k \<notin> set (dict_keys acc)"
    by (auto simp: value_names_ok_def)
  have "normalize_entries rnd f (map (\<lambda>(k, x). (VStr k, VFloat (Fin x))) d) (acc @ [(k, x)]) = Ok ((acc @ [(k, x)]) @ d)"
    using Cons.prems p by (intro Cons.IH) simp
  with k show ?case by (simp add: p dict_set_new snapshot_float_def)
qed simp

lemma normalize_parameters_id:
  "parameter_names_ok (acc @ d) \<Longrightarrow>
     normalize_snapshot_parameters rnd (map (\<lambda>(k, x). (VStr k, VFloat (Fin x))) d) acc = Ok (acc @ d)"
proof (induction d arbitrary: acc)
  case (Cons p d)
  obtain k x where p: "p = (k, x)" by (cases p)
  with Cons.prems have k: "strip k = k" "k \<noteq> []" "k \<notin> set (dict_keys acc)"
    by (auto simp: parameter_names_ok_def)
  have "normalize_snapshot_parameters rnd (map (\<lambda>(k, x). (VStr k, VFloat (Fin x))) d) (acc @ [(k, x)]) =
      Ok ((acc @ [(k, x)]) @ d)"
    using Cons.prems p by (intro Cons.IH) simp
  with k show ?case by (simp add: p dict_set_new snapshot_float_def)
qed simp

lemma float_object_eq: "float_object d = VDict (map (\<lambda>(k, x). (VStr k, VFloat (Fin x))) d)"
  by (simp add: float_object_def as_object_def comp_def split_beta)

lemma normalize_values_id: "value_names_ok d \<Longrightarrow> normalize_values rnd (float_object d) f = Ok d"
  using normalize_entries_id [of "[]" d rnd f] by (simp add: normalize_values_def float_object_eq)

lemma snapshot_roundtrip:
  assumes inv: "snapshot_inv s" and sf: "set_free (is_metadata s)"
  shows "snapshot_from_mapping rnd (map (\<lambda>(k, v). (VStr k, v)) (snapshot_to_dict s)) = Ok s"
proof -
  let ?d = "map (\<lambda>(k, v). (VStr k, v)) (snapshot_to_dict s)"
  obtain md where md: "is_metadata s = VDict md" using inv by (auto simp: snapshot_inv_def)
  then have fz: "freeze_mapping (thaw (is_metadata s)) ''metadata'' = Ok (is_metadata s)" "thaw (is_metadata s) \<noteq> VNone"
    using freeze_thaw [of "is_metadata s"] inv sf by (simp_all add: snapshot_inv_def freeze_mapping_def)
  have vals: "normalize_values rnd (float_object (is_values s)) ''values'' = Ok (is_values s)"
    using inv by (simp add: snapshot_inv_def normalize_values_id)
  have pars: "normalize_snapshot_parameters rnd (map (\<lambda>(k, x). (VStr k, VFloat (Fin x))) (is_parameters s)) [] =
      Ok (is_parameters s)"
    using normalize_parameters_id [of "[]" "is_parameters s" rnd] inv by (simp add: snapshot_inv_def)
  have ind: "normalize_indicator (VStr (is_indicator s)) = Ok (is_indicator s)"
    using inv by (simp add: snapshot_inv_def)
  have lookups: "mapping_get ?d ''indicator'' = Some (VStr (is_indicator s))"
    "get_none ?d ''values'' = float_object (is_values s)"
    "get_none ?d ''parameters'' = float_object (is_parameters s)"
    "get_none ?d ''metadata'' = thaw (is_metadata s)"
    "get_none ?d ''previous_values'' = (case is_previous s of None \<Rightarrow> VNone | Some p \<Rightarrow> float_object p)"
    by (simp_all add: get_none_def mapping_get_def snapshot_to_dict_def split: option.splits)
  have prev: "(if (case is_previous s of None \<Rightarrow> VNone | Some p \<Rightarrow> float_object p) = VNone then Ok None
      else emap Some (normalize_values rnd (case is_previous s of None \<Rightarrow> VNone | Some p \<Rightarrow> float_object p)
        ''previous_values'')) = Ok (is_previous s)"
    using inv by (cases "is_previous s") (simp_all add: snapshot_inv_def float_object_eq normalize_values_id [unfolded float_object_eq])
  show ?thesis
    unfolding snapshot_from_mapping_def Let_def lookups option.case IndicatorSnapshot_def
      check_indicator_match_def
    using vals pars ind fz prev by (simp add: float_object_eq)
qed

section \<open>Contract of snapshots\<close>

text \<open>
  Every constructed snapshot is normalized, whichever constructor built it: its indicator is
  canonical, its values and previous values have distinct, stripped, lower-case names and its
  metadata is frozen; and a snapshot whose metadata holds no sets is restored exactly from its
  own dictionary form.
\<close>

theorem snapshot_normalized:
  assumes "IndicatorSnapshot rnd i v it pv ps md = Ok s"
  shows "snapshot_inv s \<and>
    (set_free (is_metadata s) \<longrightarrow>
      snapshot_from_mapping rnd (map (\<lambda>(k, v). (VStr k, v)) (snapshot_to_dict s)) = Ok s)"
  using IndicatorSnapshot_inv [OF assms] snapshot_roundtrip by blast

theorem snapshot_normalized_witness:
  "let s = \<lparr>is_indicator = ''MA'', is_values = [(''ma5'', 10)], is_previous = None, is_parameters = [],
     is_metadata = VDict []\<rparr>
   in snapshot_inv s \<and> snapshot_from_mapping rnd64 (map (\<lambda>(k, v). (VStr k, v)) (snapshot_to_dict s)) = Ok s"
proof -
  let ?s = "\<lparr>is_indicator = ''MA'', is_values = [(''ma5'', 10)], is_previous = None, is_parameters = [],
     is_metadata = VDict []\<rparr>"
  have i: "normalize_indicator (VStr '' sma'') = Ok ''MA''"
    by (simp add: normalize_indicator_def dict_get_or_def Let_def text_eval)
  have k: "strip '' MA5 '' \<noteq> []" "lower (strip '' MA5 '') = ''ma5''" by (simp_all add: text_eval)
  have "IndicatorSnapshot rnd64 (VStr '' sma'') (VDict [(VStr '' MA5 '', VInt 10)]) VNone VNone VNone VNone = Ok ?s"
    using i k by (simp add: IndicatorSnapshot_def check_indicator_match_def normalize_values_def
        freeze_mapping_def snapshot_float_def)
  from snapshot_normalized [OF this] show ?thesis by simp
qed

end
