(* ===== verification/State_Definitions.thy ===== *)
theory State_Definitions
  imports State_Types
begin

text \<open>
  The built-in indicator states (\<open>states/definitions.py\<close>): the evaluators, the validated
  definitions and the eighteen defaults in their UI order. State names are the UTF-8 bytes of
  the source's literals. The lemmas show that an edge is always an active state, that opposite
  states exclude each other, and that a crossing has its edge only on the day it happens.
\<close>

section \<open>Signals and definitions\<close>

datatype signal = StateSignal bool bool | BoolSignal bool | OtherSignal

type_synonym state_evaluator =
  "indicator_snapshot \<Rightarrow> indicator_snapshot \<Rightarrow> price_snapshot option \<Rightarrow> real option \<Rightarrow> real \<Rightarrow> signal result"

record state_definition =
  sd_code :: string
  sd_name :: string
  sd_level :: string
  sd_indicator_type :: string
  sd_metadata :: pyval
  sd_evaluator :: state_evaluator

text \<open>
  \<open>StateDefinition.__post_init__\<close>, its checks in order. The evaluator is absent when the object
  given for it cannot be called. Looking up an unhashable mode in the set of modes raises.
\<close>

definition state_text :: "string \<Rightarrow> pyval \<Rightarrow> string result" where
  "state_text label v = (case v of
      VStr s \<Rightarrow> if strip s = [] then Raise (InvalidStateDefinitionError (label @ '' must be a non-empty string'')) else Ok s
    | _ \<Rightarrow> Raise (InvalidStateDefinitionError (label @ '' must be a non-empty string'')))"

fun unhashable :: "pyval \<Rightarrow> bool" where
  "unhashable (VDict _) = True"
| "unhashable (VList _) = True"
| "unhashable (VTuple xs) = list_ex unhashable xs"
| "unhashable _ = False"

definition check_metadata :: "pyval \<Rightarrow> pyval result" where
  "check_metadata metadata = (case metadata of
      VDict d \<Rightarrow>
        let frozen_metadata = freeze (VDict d);
            mode = get_none (case frozen_metadata of VDict e \<Rightarrow> e | _ \<Rightarrow> []) ''mode''
        in if unhashable mode then Raise (TypeError ''unhashable type'')
           else if mode \<in> {VStr ''edge'', VStr ''continuous''} then Ok frozen_metadata
           else Raise (InvalidStateDefinitionError ''state metadata.mode must be edge or continuous'')
    | _ \<Rightarrow> Raise (InvalidStateDefinitionError ''state metadata must be a mapping''))"

definition StateDefinition ::
  "pyval \<Rightarrow> pyval \<Rightarrow> pyval \<Rightarrow> pyval \<Rightarrow> pyval \<Rightarrow> state_evaluator option \<Rightarrow> state_definition result"
where
  "StateDefinition code name level indicator_type metadata evaluator =
     ebind (state_text ''state code'' code) (\<lambda>code.
     if upper (strip code) \<noteq> code then Raise (InvalidStateDefinitionError ''state code must be uppercase'')
     else
       ebind (state_text ''state name'' name) (\<lambda>name.
       ebind (state_text ''state level'' level) (\<lambda>level.
       ebind (state_text ''indicator_type'' indicator_type) (\<lambda>indicator_type.
       ebind (check_metadata metadata) (\<lambda>frozen_metadata.
         case evaluator of
           None \<Rightarrow> Raise (InvalidStateDefinitionError ''state evaluator must be callable'')
         | Some ev \<Rightarrow> Ok \<lparr>sd_code = code, sd_name = name, sd_level = level,
             sd_indicator_type = upper (strip indicator_type), sd_metadata = frozen_metadata,
             sd_evaluator = ev\<rparr>)))))"

section \<open>Evaluators\<close>

fun value_of :: "indicator_snapshot \<Rightarrow> string list \<Rightarrow> real result" where
  "value_of s [] = Raise (MissingStateValues ''missing_values'')"
| "value_of s (name # names) = (case dict_get (is_values s) (lower name) of
      Some v \<Rightarrow> Ok v | None \<Rightarrow> value_of s names)"

definition values_of :: "indicator_snapshot \<Rightarrow> string list \<Rightarrow> real list result" where
  "values_of s names = traverse (\<lambda>name. value_of s [name]) names"

definition comparison :: "(real \<Rightarrow> real) \<Rightarrow> real \<Rightarrow> real \<Rightarrow> real \<Rightarrow> int" where
  "comparison rnd left right tolerance =
     (if \<bar>rnd (left - right)\<bar> \<le> tolerance then 0 else if left > right then 1 else - 1)"

definition ma_candidates :: "(string, real) dict \<Rightarrow> (int \<times> real) list" where
  "ma_candidates d = map (\<lambda>(k, v). (digits_value (filter is_digit k), v))
     (filter (\<lambda>(k, _). filter is_digit k \<noteq> [] \<and> starts_with ''ma'' k) d)"

definition ma_pair :: "indicator_snapshot \<Rightarrow> (real \<times> real) result" where
  "ma_pair s =
     (case (value_of s [''short'', ''fast'', ''ma_short'', ''fast_ma''],
            value_of s [''long'', ''slow'', ''ma_long'', ''slow_ma'']) of
        (Inr a, Inr b) \<Rightarrow> Ok (a, b)
      | _ \<Rightarrow> (case (value_of s [''ma5''], value_of s [''ma10'']) of
          (Inr a, Inr b) \<Rightarrow> Ok (a, b)
        | _ \<Rightarrow> (case sort_key fst (ma_candidates (is_values s)) of
            p # q # _ \<Rightarrow> Ok (snd p, snd q)
          | _ \<Rightarrow> Raise (MissingStateValues ''missing_values''))))"

text \<open>\<open>_require_pair\<close>: short and long of both days, current first.\<close>

definition require_pair ::
  "indicator_snapshot \<Rightarrow> indicator_snapshot \<Rightarrow> ((real \<times> real) \<times> (real \<times> real)) result"
where
  "require_pair current previous = ebind (ma_pair current) (\<lambda>c. emap (Pair c) (ma_pair previous))"

text \<open>A crossing signal from today's and yesterday's relation of two lines.\<close>

definition cross_signal :: "bool \<Rightarrow> int \<Rightarrow> int \<Rightarrow> signal" where
  "cross_signal up current_relation previous_relation =
     (if up then StateSignal (current_relation > 0) (current_relation > 0 \<and> previous_relation \<le> 0)
      else StateSignal (current_relation < 0) (current_relation < 0 \<and> previous_relation \<ge> 0))"

definition ma_cross :: "(real \<Rightarrow> real) \<Rightarrow> bool \<Rightarrow> state_evaluator" where
  "ma_cross rnd up current previous price previous_price tolerance =
     emap (\<lambda>((cs, cl), (ps, pl)). cross_signal up (comparison rnd cs cl tolerance) (comparison rnd ps pl tolerance))
       (require_pair current previous)"

abbreviation ma_cross_up :: "(real \<Rightarrow> real) \<Rightarrow> state_evaluator" where "ma_cross_up rnd \<equiv> ma_cross rnd True"
abbreviation ma_cross_down :: "(real \<Rightarrow> real) \<Rightarrow> state_evaluator" where "ma_cross_down rnd \<equiv> ma_cross rnd False"

text \<open>A continuous state: its edge is its activity.\<close>

definition continuous :: "bool \<Rightarrow> signal" where
  "continuous active = StateSignal active active"

definition ma_gap :: "(real \<Rightarrow> real) \<Rightarrow> bool \<Rightarrow> state_evaluator" where
  "ma_gap rnd narrow current previous price previous_price tolerance =
     emap (\<lambda>((cs, cl), (ps, pl)).
         let relation = comparison rnd \<bar>rnd (cs - cl)\<bar> \<bar>rnd (ps - pl)\<bar> tolerance
         in continuous (if narrow then relation < 0 else relation > 0))
       (require_pair current previous)"

definition line_cross :: "(real \<Rightarrow> real) \<Rightarrow> string list \<Rightarrow> bool \<Rightarrow> state_evaluator" where
  "line_cross rnd names up current previous price previous_price tolerance =
     ebind (values_of current names) (\<lambda>cs.
     emap (\<lambda>ps. cross_signal up (comparison rnd (cs ! 0) (cs ! 1) tolerance)
         (comparison rnd (ps ! 0) (ps ! 1) tolerance)) (values_of previous names))"

definition kdj_cross :: "(real \<Rightarrow> real) \<Rightarrow> bool \<Rightarrow> state_evaluator" where
  "kdj_cross rnd = line_cross rnd [''k'', ''d'']"

definition macd_cross :: "(real \<Rightarrow> real) \<Rightarrow> bool \<Rightarrow> state_evaluator" where
  "macd_cross rnd = line_cross rnd [''diff'', ''dea'']"

definition all_direction :: "(real \<Rightarrow> real) \<Rightarrow> string list \<Rightarrow> bool \<Rightarrow> state_evaluator" where
  "all_direction rnd field_names rising current previous price previous_price tolerance =
     ebind (values_of current field_names) (\<lambda>cs.
     emap (\<lambda>ps. let comparisons = map (\<lambda>(c, p). comparison rnd c p tolerance) (zip cs ps)
         in continuous (if rising then list_all (\<lambda>x. x > 0) comparisons else list_all (\<lambda>x. x < 0) comparisons))
       (values_of previous field_names))"

definition boll_width :: "(real \<Rightarrow> real) \<Rightarrow> indicator_snapshot \<Rightarrow> real \<Rightarrow> real result" where
  "boll_width rnd s tolerance = (case value_of s [''width'', ''band_width'', ''bandwidth''] of
      Inr w \<Rightarrow> Ok w
    | Inl _ \<Rightarrow> emap (\<lambda>vs. let upper_band = vs ! 0; middle = vs ! 1; lower_band = vs ! 2 in
          if \<bar>middle\<bar> \<le> tolerance then 0 else rnd (rnd (upper_band - lower_band) / middle))
        (values_of s [''upper'', ''middle'', ''lower'']))"

definition boll_width_state :: "(real \<Rightarrow> real) \<Rightarrow> bool \<Rightarrow> state_evaluator" where
  "boll_width_state rnd narrow current previous price previous_price tolerance =
     ebind (boll_width rnd current tolerance) (\<lambda>cw.
     emap (\<lambda>pw. let relation = comparison rnd cw pw tolerance
         in continuous (if narrow then relation < 0 else relation > 0))
       (boll_width rnd previous tolerance))"

definition boll_all_direction :: "(real \<Rightarrow> real) \<Rightarrow> bool \<Rightarrow> state_evaluator" where
  "boll_all_direction rnd = all_direction rnd [''upper'', ''middle'', ''lower'']"

definition boll_break :: "(real \<Rightarrow> real) \<Rightarrow> bool \<Rightarrow> state_evaluator" where
  "boll_break rnd break_upper current previous price previous_price tolerance = (case price of
      None \<Rightarrow> Raise (MissingStateValues ''missing_price'')
    | Some pr \<Rightarrow>
        (case (case previous_price of None \<Rightarrow> ps_previous pr | Some x \<Rightarrow> Some x) of
           None \<Rightarrow> Raise (MissingStateValues ''missing_price'')
         | Some prior_price \<Rightarrow>
             ebind (value_of current [if break_upper then ''upper'' else ''lower'']) (\<lambda>current_band.
             emap (\<lambda>previous_band. cross_signal break_upper
                 (comparison rnd (ps_current pr) current_band tolerance)
                 (comparison rnd prior_price previous_band tolerance))
               (value_of previous [if break_upper then ''upper'' else ''lower'']))))"

definition macd_red_bar :: "(real \<Rightarrow> real) \<Rightarrow> bool \<Rightarrow> state_evaluator" where
  "macd_red_bar rnd growing current previous price previous_price tolerance =
     ebind (value_of current [''histogram'', ''bar'', ''red_bar'']) (\<lambda>current_bar.
     emap (\<lambda>previous_bar.
         let relation = comparison rnd current_bar previous_bar tolerance
         in continuous (if growing then current_bar > tolerance \<and> relation > 0
              else current_bar > tolerance \<and> previous_bar > tolerance \<and> relation < 0))
       (value_of previous [''histogram'', ''bar'', ''red_bar'']))"

section \<open>The built-in definitions\<close>

definition make_definition ::
  "string \<Rightarrow> string \<Rightarrow> string \<Rightarrow> string \<Rightarrow> string \<Rightarrow> string list \<Rightarrow> string \<Rightarrow> state_evaluator \<Rightarrow>
     state_definition result"
where
  "make_definition code name level indicator_type mode field_names compare_mode evaluator =
     StateDefinition (VStr code) (VStr name) (VStr level) (VStr indicator_type)
       (as_object [(''mode'', VStr mode), (''fields'', VTuple (map VStr field_names)),
          (''comparison'', VStr compare_mode)]) (Some evaluator)"

definition create_default_definitions :: "(real \<Rightarrow> real) \<Rightarrow> state_definition list result" where
  "create_default_definitions rnd = traverse (\<lambda>d. d) [
      make_definition ''MA_CROSS_UP'' (''MA'' @ [CHR 0xE4, CHR 0xB8, CHR 0x8A, CHR 0xE7, CHR 0xA9, CHR 0xBF])
        ''POSITIVE'' ''MA'' ''edge'' [''short'', ''long''] ''cross_up'' (ma_cross_up rnd),
      make_definition ''MA_CROSS_DOWN'' (''MA'' @ [CHR 0xE4, CHR 0xB8, CHR 0x8B, CHR 0xE7, CHR 0xA9,
          CHR 0xBF])
        ''NEGATIVE'' ''MA'' ''edge'' [''short'', ''long''] ''cross_down'' (ma_cross_down rnd),
      make_definition ''MA_GAP_NARROWING'' (''MA'' @ [CHR 0xE9, CHR 0x97, CHR 0xB4, CHR 0xE8,
          CHR 0xB7, CHR 0x9D, CHR 0xE6, CHR 0x94, CHR 0xB6, CHR 0xE7, CHR 0xAA, CHR 0x84])
        ''WARNING'' ''MA'' ''continuous'' [''short'', ''long''] ''gap_decrease'' (ma_gap rnd True),
      make_definition ''MA_GAP_EXPANDING'' (''MA'' @ [CHR 0xE9, CHR 0x97, CHR 0xB4, CHR 0xE8,
          CHR 0xB7, CHR 0x9D, CHR 0xE6, CHR 0x89, CHR 0xA9, CHR 0xE5, CHR 0xA4, CHR 0xA7])
        ''INFO'' ''MA'' ''continuous'' [''short'', ''long''] ''gap_increase'' (ma_gap rnd False),
      make_definition ''KDJ_K_CROSS_D_UP'' (''K'' @ [CHR 0xE4, CHR 0xB8, CHR 0x8A, CHR 0xE7, CHR 0xA9,
          CHR 0xBF] @ ''D'')
        ''POSITIVE'' ''KDJ'' ''edge'' [''k'', ''d''] ''cross_up'' (kdj_cross rnd True),
      make_definition ''KDJ_K_CROSS_D_DOWN'' (''K'' @ [CHR 0xE4, CHR 0xB8, CHR 0x8B, CHR 0xE7,
          CHR 0xA9, CHR 0xBF] @ ''D'')
        ''NEGATIVE'' ''KDJ'' ''edge'' [''k'', ''d''] ''cross_down'' (kdj_cross rnd False),
      make_definition ''KDJ_ALL_RISING'' (''KDJ'' @ [CHR 0xE4, CHR 0xB8, CHR 0x89, CHR 0xE7, CHR 0xBA,
          CHR 0xBF, CHR 0xE9, CHR 0xBD, CHR 0x90, CHR 0xE4, CHR 0xB8, CHR 0x8A])
        ''POSITIVE'' ''KDJ'' ''continuous'' [''k'', ''d'', ''j''] ''all_increase'' (all_direction rnd [''k'', ''d'', ''j''] True),
      make_definition ''KDJ_ALL_FALLING'' (''KDJ'' @ [CHR 0xE4, CHR 0xB8, CHR 0x89, CHR 0xE7,
          CHR 0xBA, CHR 0xBF, CHR 0xE9, CHR 0xBD, CHR 0x90, CHR 0xE4, CHR 0xB8, CHR 0x8B])
        ''NEGATIVE'' ''KDJ'' ''continuous'' [''k'', ''d'', ''j''] ''all_decrease'' (all_direction rnd [''k'', ''d'', ''j''] False),
      make_definition ''BOLL_WIDTH_NARROWING'' ([CHR 0xE5, CHR 0xB8, CHR 0xA6, CHR 0xE5, CHR 0x8F,
          CHR 0xA3, CHR 0xE6, CHR 0x94, CHR 0xB6, CHR 0xE7, CHR 0xAA, CHR 0x84])
        ''WARNING'' ''BOLL'' ''continuous'' [''width''] ''decrease'' (boll_width_state rnd True),
      make_definition ''BOLL_WIDTH_EXPANDING'' ([CHR 0xE5, CHR 0xB8, CHR 0xA6, CHR 0xE5, CHR 0x8F,
          CHR 0xA3, CHR 0xE6, CHR 0x89, CHR 0xA9, CHR 0xE5, CHR 0xA4, CHR 0xA7])
        ''INFO'' ''BOLL'' ''continuous'' [''width''] ''increase'' (boll_width_state rnd False),
      make_definition ''BOLL_ALL_RISING'' ([CHR 0xE4, CHR 0xB8, CHR 0x89, CHR 0xE7, CHR 0xBA,
          CHR 0xBF, CHR 0xE9, CHR 0xBD, CHR 0x90, CHR 0xE4, CHR 0xB8, CHR 0x8A])
        ''POSITIVE'' ''BOLL'' ''continuous'' [''upper'', ''middle'', ''lower''] ''all_increase'' (boll_all_direction rnd True),
      make_definition ''BOLL_ALL_FALLING'' ([CHR 0xE4, CHR 0xB8, CHR 0x89, CHR 0xE7, CHR 0xBA,
          CHR 0xBF, CHR 0xE9, CHR 0xBD, CHR 0x90, CHR 0xE4, CHR 0xB8, CHR 0x8B])
        ''NEGATIVE'' ''BOLL'' ''continuous'' [''upper'', ''middle'', ''lower''] ''all_decrease'' (boll_all_direction rnd False),
      make_definition ''BOLL_BREAK_UPPER'' ([CHR 0xE7, CHR 0xAA, CHR 0x81, CHR 0xE7, CHR 0xA0,
          CHR 0xB4, CHR 0xE4, CHR 0xB8, CHR 0x8A, CHR 0xE8, CHR 0xBD, CHR 0xA8])
        ''POSITIVE'' ''BOLL'' ''edge'' [''upper'', ''price''] ''break_above'' (boll_break rnd True),
      make_definition ''BOLL_BREAK_LOWER'' ([CHR 0xE8, CHR 0xB7, CHR 0x8C, CHR 0xE7, CHR 0xA0,
          CHR 0xB4, CHR 0xE4, CHR 0xB8, CHR 0x8B, CHR 0xE8, CHR 0xBD, CHR 0xA8])
        ''NEGATIVE'' ''BOLL'' ''edge'' [''lower'', ''price''] ''break_below'' (boll_break rnd False),
      make_definition ''MACD_DIFF_CROSS_DEA_UP'' (''DIFF'' @ [CHR 0xE4, CHR 0xB8, CHR 0x8A, CHR 0xE7,
          CHR 0xA9, CHR 0xBF] @ ''DEA'')
        ''POSITIVE'' ''MACD'' ''edge'' [''diff'', ''dea''] ''cross_up'' (macd_cross rnd True),
      make_definition ''MACD_DIFF_CROSS_DEA_DOWN'' (''DIFF'' @ [CHR 0xE4, CHR 0xB8, CHR 0x8B,
          CHR 0xE7, CHR 0xA9, CHR 0xBF] @ ''DEA'')
        ''NEGATIVE'' ''MACD'' ''edge'' [''diff'', ''dea''] ''cross_down'' (macd_cross rnd False),
      make_definition ''MACD_RED_BAR_GROWING'' ([CHR 0xE7, CHR 0xBA, CHR 0xA2, CHR 0xE6, CHR 0x9F,
          CHR 0xB1, CHR 0xE5, CHR 0xA2, CHR 0x9E, CHR 0xE9, CHR 0x95, CHR 0xBF])
        ''POSITIVE'' ''MACD'' ''continuous'' [''histogram''] ''positive_increase'' (macd_red_bar rnd True),
      make_definition ''MACD_RED_BAR_SHRINKING'' ([CHR 0xE7, CHR 0xBA, CHR 0xA2, CHR 0xE6, CHR 0x9F,
          CHR 0xB1, CHR 0xE7, CHR 0xBC, CHR 0xA9, CHR 0xE7, CHR 0x9F, CHR 0xAD])
        ''NEGATIVE'' ''MACD'' ''continuous'' [''histogram''] ''positive_decrease'' (macd_red_bar rnd False)
     ]"

section \<open>Properties of the evaluators\<close>

text \<open>A signal whose edge implies activity.\<close>

fun edge_active :: "signal \<Rightarrow> bool" where
  "edge_active (StateSignal active edge) = (edge \<longrightarrow> active)"
| "edge_active _ = True"

text \<open>
  A lookup that fails only for missing values, and the outcome of a sound evaluator: missing
  values, or a state signal whose edge implies activity.
\<close>

definition only_missing :: "'a result \<Rightarrow> bool" where
  "only_missing r \<longleftrightarrow> (\<forall>e. r = Raise e \<longrightarrow> (\<exists>reason. e = MissingStateValues reason))"

definition sound_result :: "signal result \<Rightarrow> bool" where
  "sound_result r \<longleftrightarrow> only_missing r \<and> (\<forall>sig. r = Ok sig \<longrightarrow> (\<exists>a e. sig = StateSignal a e) \<and> edge_active sig)"

definition sound_evaluator :: "state_evaluator \<Rightarrow> bool" where
  "sound_evaluator ev \<longleftrightarrow> (\<forall>c p price pp tol. sound_result (ev c p price pp tol))"

lemma sound_signals:
  "edge_active (cross_signal up a b)" "edge_active (continuous x)"
  "\<exists>a e. cross_signal up r s = StateSignal a e" "\<exists>a e. continuous x = StateSignal a e"
  by (simp_all add: cross_signal_def continuous_def)

lemma sound_resultI [intro]:
  "sound_result (Raise (MissingStateValues reason))"
  "only_missing m \<Longrightarrow> (\<And>x. sound_result (f x)) \<Longrightarrow> sound_result (ebind m f)"
  "only_missing m \<Longrightarrow> (\<And>x. (\<exists>a e. g x = StateSignal a e) \<and> edge_active (g x)) \<Longrightarrow> sound_result (emap g m)"
  unfolding sound_result_def only_missing_def by (cases m; auto)+

lemma only_missing_lookups:
  "only_missing (value_of s names)" "only_missing (values_of s names)" "only_missing (ma_pair s)"
  "only_missing (require_pair c p)" "only_missing (boll_width rnd s tol)"
proof -
  show v: "only_missing (value_of s names)" for names
    by (induction names) (auto simp: only_missing_def split: option.splits)
  show vs: "only_missing (values_of s names)" for names
    unfolding values_of_def only_missing_def
    by (induction names) (use v in \<open>auto simp: only_missing_def ebind_eq_Inl_iff simp del: value_of.simps\<close>)
  show ma: "only_missing (ma_pair s)" for s
    by (auto simp: ma_pair_def only_missing_def split: sum.splits list.splits)
  then show "only_missing (require_pair c p)"
    unfolding require_pair_def only_missing_def by (auto simp: ebind_eq_Inl_iff)
  show "only_missing (boll_width rnd s tol)"
    unfolding boll_width_def using vs by (auto simp: only_missing_def split: sum.splits)
qed

lemmas evaluator_defs = ma_cross_def ma_gap_def kdj_cross_def macd_cross_def line_cross_def
  all_direction_def boll_width_state_def boll_all_direction_def boll_break_def macd_red_bar_def Let_def

lemma builtin_evaluators_sound:
  "sound_evaluator (ma_cross rnd b)" "sound_evaluator (ma_gap rnd b)" "sound_evaluator (kdj_cross rnd b)"
  "sound_evaluator (macd_cross rnd b)" "sound_evaluator (all_direction rnd fs b)"
  "sound_evaluator (boll_width_state rnd b)" "sound_evaluator (boll_all_direction rnd b)"
  "sound_evaluator (macd_red_bar rnd b)"
  unfolding sound_evaluator_def evaluator_defs
  by (intro allI sound_resultI only_missing_lookups; simp add: sound_signals split_beta)+

lemma boll_break_sound: "sound_evaluator (boll_break rnd b)"
  unfolding sound_evaluator_def boll_break_def
  by (intro allI) (simp only: sound_resultI only_missing_lookups sound_signals simp_thms split: option.split)

text \<open>The comparison is antisymmetric, so no relation is both above and below.\<close>

lemma comparison_range: "comparison rnd a b t \<in> {- 1, 0, 1}"
  by (simp add: comparison_def)

context float_rounding
begin

lemma comparison_swap: "comparison rnd a b t = - comparison rnd b a t" if "0 \<le> t"
proof -
  have "rnd (a - b) = - rnd (b - a)" using rnd_minus [of "b - a"] by simp
  then show ?thesis using that by (auto simp: comparison_def rnd_0)
qed

end

text \<open>
  Two evaluators that never report activity together, and a crossing evaluator: a day on which
  its edge fires is preceded by a day on which it was not active.
\<close>

definition exclusive :: "state_evaluator \<Rightarrow> state_evaluator \<Rightarrow> bool" where
  "exclusive ev ev' \<longleftrightarrow> (\<forall>c p price pp tol a e a' e'.
     ev c p price pp tol = Ok (StateSignal a e) \<longrightarrow> ev' c p price pp tol = Ok (StateSignal a' e') \<longrightarrow>
     \<not> (a \<and> a'))"

definition fires_on_entry :: "state_evaluator \<Rightarrow> bool" where
  "fires_on_entry ev \<longleftrightarrow> (\<forall>c p q price pp price' pp' tol a a' e'.
     ev c p price pp tol = Ok (StateSignal a True) \<longrightarrow> ev p q price' pp' tol = Ok (StateSignal a' e') \<longrightarrow>
     a \<and> \<not> a')"

lemma cross_signal_simps:
  "StateSignal a e = cross_signal up r s \<longleftrightarrow>
     a = (if up then 0 < r else r < 0) \<and> e = (if up then 0 < r \<and> s \<le> 0 else r < 0 \<and> 0 \<le> s)"
  by (auto simp: cross_signal_def)

lemma continuous_simps: "StateSignal a e = continuous x \<longleftrightarrow> a = x \<and> e = x"
  by (auto simp: continuous_def)

lemma ma_cross_entry: "fires_on_entry (ma_cross rnd up)"
  unfolding fires_on_entry_def ma_cross_def require_pair_def
  by (auto simp: cross_signal_simps split: if_splits)

lemma line_cross_entry: "fires_on_entry (line_cross rnd names up)"
  unfolding fires_on_entry_def line_cross_def
  by (auto simp: cross_signal_simps split: if_splits)

lemma all_direction_exclusive:
  assumes "names \<noteq> []" shows "exclusive (all_direction rnd names True) (all_direction rnd names False)"
proof -
  have ne: "zip cs ps \<noteq> []" if "values_of c names = Ok cs" "values_of p names = Ok ps" for c p cs ps
    using that assms traverse_length unfolding values_of_def by (metis length_0_conv list.size(3) zip_eq_Nil_iff)
  have "\<not> (list_all (\<lambda>x. 0 < x) xs \<and> list_all (\<lambda>x. x < 0) xs)" if "xs \<noteq> []" for xs :: "int list"
    using that by (cases xs) auto
  then show ?thesis using ne unfolding exclusive_def all_direction_def
    by (clarsimp simp: continuous_simps Let_def)
qed

lemma opposite_exclusive:
  "exclusive (ma_cross rnd True) (ma_cross rnd False)"
  "exclusive (ma_gap rnd True) (ma_gap rnd False)"
  "exclusive (line_cross rnd names True) (line_cross rnd names False)"
  "exclusive (boll_width_state rnd True) (boll_width_state rnd False)"
  "exclusive (macd_red_bar rnd True) (macd_red_bar rnd False)"
  unfolding exclusive_def ma_cross_def ma_gap_def line_cross_def boll_width_state_def macd_red_bar_def Let_def
  by (auto simp: cross_signal_simps continuous_simps split_beta)

section \<open>The built-in definitions are valid\<close>

lemma StateDefinition_ok:
  assumes "strip code = code" "code \<noteq> []" "upper code = code" "strip name \<noteq> []" "strip level \<noteq> []"
    "strip ind = ind" "ind \<noteq> []" "upper ind = ind" "mode = ''edge'' \<or> mode = ''continuous''"
  shows "make_definition code name level ind mode field_names cmp ev =
    Ok \<lparr>sd_code = code, sd_name = name, sd_level = level, sd_indicator_type = ind,
      sd_metadata = as_object [(''mode'', VStr mode), (''fields'', VTuple (map VStr field_names)),
          (''comparison'', VStr cmp)], sd_evaluator = ev\<rparr>"
proof -
  let ?m = "[(VStr ''mode'', VStr mode), (VStr ''fields'', VTuple (map VStr field_names)), (VStr ''comparison'', VStr cmp)]"
  have f: "freeze (VDict ?m) = VDict ?m" by (simp add: key_text_def comp_def)
  have g: "get_none ?m ''mode'' = VStr mode" by (simp add: get_none_def mapping_get_def)
  have "check_metadata (VDict ?m) = Ok (VDict ?m)"
    unfolding check_metadata_def pyval.case f Let_def g using assms(9) by auto
  moreover have "as_object [(''mode'', VStr mode), (''fields'', VTuple (map VStr field_names)), (''comparison'', VStr cmp)] =
      VDict ?m" by (simp add: as_object_def)
  ultimately show ?thesis
    using assms(1-8) unfolding make_definition_def StateDefinition_def state_text_def by simp
qed

definition default_codes :: "string list" where
  "default_codes = [''MA_CROSS_UP'', ''MA_CROSS_DOWN'', ''MA_GAP_NARROWING'', ''MA_GAP_EXPANDING'',
     ''KDJ_K_CROSS_D_UP'', ''KDJ_K_CROSS_D_DOWN'', ''KDJ_ALL_RISING'', ''KDJ_ALL_FALLING'',
     ''BOLL_WIDTH_NARROWING'', ''BOLL_WIDTH_EXPANDING'', ''BOLL_ALL_RISING'', ''BOLL_ALL_FALLING'',
     ''BOLL_BREAK_UPPER'', ''BOLL_BREAK_LOWER'', ''MACD_DIFF_CROSS_DEA_UP'', ''MACD_DIFF_CROSS_DEA_DOWN'',
     ''MACD_RED_BAR_GROWING'', ''MACD_RED_BAR_SHRINKING'']"

text \<open>Evaluation of the names in the table.\<close>

lemma upper_fixpoint: "list_all (\<lambda>c. \<not> (97 \<le> (of_char c :: nat) \<and> of_char c \<le> (122 :: nat))) s \<Longrightarrow> upper s = s"
  by (induction s) (auto simp: upper_def upper_char_def Let_def)

lemma dropWhile_keeps: "c \<in> set xs \<Longrightarrow> \<not> P c \<Longrightarrow> c \<in> set (dropWhile P xs)"
  by (induction xs) auto

lemma strip_nonempty: "c \<in> set s \<Longrightarrow> \<not> is_space c \<Longrightarrow> strip s \<noteq> []"
proof -
  assume c: "c \<in> set s" "\<not> is_space c"
  then have "c \<in> set (rev (dropWhile is_space s))" by (simp add: dropWhile_keeps)
  with c(2) have "c \<in> set (dropWhile is_space (rev (dropWhile is_space s)))"
    by (intro dropWhile_keeps)
  then have "dropWhile is_space (rev (dropWhile is_space s)) \<noteq> []" by (metis empty_iff list.set(1))
  then show ?thesis unfolding strip_def by (simp only: rev_is_Nil_conv not_False_eq_True)
qed

lemma strip_nonempty_hd: "s \<noteq> [] \<Longrightarrow> \<not> is_space (hd s) \<Longrightarrow> strip s \<noteq> []"
  using strip_nonempty [of "hd s" s] by simp

text \<open>One row of the table, as a record.\<close>

definition definition_row ::
  "string \<Rightarrow> string \<Rightarrow> string \<Rightarrow> string \<Rightarrow> string \<Rightarrow> string list \<Rightarrow> string \<Rightarrow> state_evaluator \<Rightarrow> state_definition"
where
  "definition_row code name level ind mode field_names cmp ev =
     \<lparr>sd_code = code, sd_name = name, sd_level = level, sd_indicator_type = ind,
      sd_metadata = as_object [(''mode'', VStr mode), (''fields'', VTuple (map VStr field_names)),
          (''comparison'', VStr cmp)], sd_evaluator = ev\<rparr>"

text \<open>A row whose checks all pass, as an executable test.\<close>

definition label_ok :: "string \<Rightarrow> bool" where
  "label_ok s \<longleftrightarrow> s \<noteq> [] \<and> \<not> is_space (hd s) \<and> \<not> is_space (last s) \<and>
     list_all (\<lambda>c. \<not> (97 \<le> (of_char c :: nat) \<and> of_char c \<le> (122 :: nat))) s"

definition row_ok :: "string \<Rightarrow> string \<Rightarrow> string \<Rightarrow> string \<Rightarrow> string \<Rightarrow> bool" where
  "row_ok code name level ind mode \<longleftrightarrow> label_ok code \<and> label_ok ind \<and>
     (name \<noteq> [] \<and> \<not> is_space (hd name)) \<and> (level \<noteq> [] \<and> \<not> is_space (hd level)) \<and>
     (mode = ''edge'' \<or> mode = ''continuous'')"

lemma label_ok:
  assumes "label_ok s"
  shows "strip s = s" "upper s = s" "s \<noteq> []"
  using assms by (simp_all add: label_ok_def strip_fixpoint upper_fixpoint)

lemma make_definition_row:
  "row_ok code name level ind mode \<Longrightarrow>
     make_definition code name level ind mode field_names cmp ev =
       Ok (definition_row code name level ind mode field_names cmp ev)"
  unfolding row_ok_def definition_row_def by (intro StateDefinition_ok) (simp_all add: strip_nonempty_hd label_ok)

lemma definition_row_simps [simp]:
  "sd_code (definition_row code name level ind mode field_names cmp ev) = code"
  "sd_indicator_type (definition_row code name level ind mode field_names cmp ev) = ind"
  "sd_evaluator (definition_row code name level ind mode field_names cmp ev) = ev"
  by (simp_all add: definition_row_def)


lemma default_definitions_built:
  "\<exists>ds. create_default_definitions rnd = Ok ds \<and> map sd_code ds = default_codes \<and>
     list_all (\<lambda>d. sound_evaluator (sd_evaluator d)) ds"
  unfolding create_default_definitions_def default_codes_def
  by (simp add: make_definition_row row_ok_def label_ok_def is_space_def builtin_evaluators_sound boll_break_sound)

section \<open>Contract of the built-in states\<close>

text \<open>
  The built-in table is accepted by the definitions' own validation: all eighteen rows pass,
  in the documented order and under distinct codes, and every evaluator in it either reports
  missing values or answers with a state signal whose edge implies activity.
\<close>

theorem default_definitions_valid:
  "\<exists>ds. create_default_definitions rnd = Ok ds \<and> map sd_code ds = default_codes \<and>
     distinct (map sd_code ds) \<and> list_all (\<lambda>d. sound_evaluator (sd_evaluator d)) ds"
proof -
  have "distinct default_codes" by (simp add: default_codes_def)
  then show ?thesis using default_definitions_built [of rnd] by auto
qed

text \<open>
  A crossing is an event: when the moving-average, KDJ or MACD crossing fires its edge on a
  day, it is active that day and it was not active the day before, whatever snapshot that day
  was compared with. So the same crossing never fires on two consecutive days.
\<close>

theorem crossing_fires_on_entry:
  "fires_on_entry (ma_cross rnd up) \<and> fires_on_entry (kdj_cross rnd up) \<and> fires_on_entry (macd_cross rnd up)"
  by (simp add: ma_cross_entry line_cross_entry kdj_cross_def macd_cross_def)

text \<open>
  Opposite built-in states never hold on the same day: up and down crossings, narrowing and
  expanding gaps and bands, lines that all rise and all fall, growing and shrinking bars.
\<close>

theorem opposite_states_exclusive:
  "exclusive (ma_cross rnd True) (ma_cross rnd False) \<and>
   exclusive (ma_gap rnd True) (ma_gap rnd False) \<and>
   exclusive (kdj_cross rnd True) (kdj_cross rnd False) \<and>
   exclusive (macd_cross rnd True) (macd_cross rnd False) \<and>
   exclusive (all_direction rnd [''k'', ''d'', ''j''] True) (all_direction rnd [''k'', ''d'', ''j''] False) \<and>
   exclusive (boll_width_state rnd True) (boll_width_state rnd False) \<and>
   exclusive (boll_all_direction rnd True) (boll_all_direction rnd False) \<and>
   exclusive (macd_red_bar rnd True) (macd_red_bar rnd False)"
  unfolding kdj_cross_def macd_cross_def boll_all_direction_def
  by (intro conjI opposite_exclusive all_direction_exclusive) simp_all

end
