(* ===== verification/State_Registry.thy ===== *)
theory State_Registry
  imports State_Definitions Registry_Contract
begin

text \<open>
  The state registry (\<open>states/registry.py\<close>): definitions under their code and aliases, in
  registration order, with plugins turned into validated definitions at the door. It has the
  shape of a keyed registry, so what a registration changes is derived from the shared contract;
  the default registry resolves the eighteen built-in codes in any letter case.
\<close>

section \<open>Definitions\<close>

text \<open>
  What \<open>register\<close> accepts: a definition, or an object read through its attributes; a wrapper
  keeps that object in an attribute \<open>definition\<close>. A member is absent when the attribute is
  missing or \<open>None\<close>.
\<close>

datatype member = Absent | Uncallable | Callable state_evaluator

record plugin =
  pl_attributes :: "(string, pyval) dict"
  pl_evaluator :: member
  pl_evaluate :: member

datatype state_source = Definition state_definition | PluginObject plugin | Wrapper plugin

definition plugin_callable :: "plugin \<Rightarrow> state_evaluator option" where
  "plugin_callable source = (case pl_evaluator source of
      Callable ev \<Rightarrow> Some ev
    | Uncallable \<Rightarrow> None
    | Absent \<Rightarrow> (case pl_evaluate source of Callable ev \<Rightarrow> Some ev | _ \<Rightarrow> None))"

definition plugin_fields :: "string list" where
  "plugin_fields = [''code'', ''name'', ''level'', ''indicator_type'', ''metadata'']"

definition coerce_plugin :: "plugin \<Rightarrow> state_definition result" where
  "coerce_plugin source =
     (case (traverse (\<lambda>field. case dict_get (pl_attributes source) field of
          Some v \<Rightarrow> Ok v | None \<Rightarrow> Raise (KeyError field)) plugin_fields, plugin_callable source) of
        (Inr [code, name, level, indicator_type, metadata], Some ev) \<Rightarrow>
          StateDefinition code name level indicator_type metadata (Some ev)
      | _ \<Rightarrow> Raise (TypeError ''state registry accepts StateDefinition or state plugin objects''))"

definition coerce_definition :: "state_source \<Rightarrow> state_definition result" where
  "coerce_definition v = (case v of
      Definition d \<Rightarrow> Ok d | PluginObject source \<Rightarrow> coerce_plugin source | Wrapper source \<Rightarrow> coerce_plugin source)"

type_synonym state_registry = "state_definition registry"

definition state_register ::
  "state_source \<Rightarrow> string list \<Rightarrow> bool \<Rightarrow> state_registry \<Rightarrow> (state_definition \<times> state_registry) result"
where
  "state_register source aliases replace reg =
     ebind (coerce_definition source) (\<lambda>d.
     emap (Pair d) (register_under
       (''state codes and aliases must be non-empty'', ''state code already registered: '')
       (sd_code d) (map (\<lambda>alias. upper (strip alias)) aliases) replace d reg))"

definition state_get :: "state_registry \<Rightarrow> string \<Rightarrow> state_definition result" where
  "state_get reg code =
     (if strip code = [] then Raise (UnknownStateError ''state code must be non-empty'')
      else case dict_get (reg_entries reg) (upper (strip code)) of
          Some d \<Rightarrow> Ok d
        | None \<Rightarrow> Raise (UnknownStateError (''unknown state: '' @ code)))"

definition state_codes_of :: "state_registry \<Rightarrow> string list" where
  "state_codes_of reg = reg_names reg"

text \<open>A canonical code without an entry would be a \<open>KeyError\<close>.\<close>

definition state_definitions :: "state_registry \<Rightarrow> state_definition list result" where
  "state_definitions reg = traverse (\<lambda>code. case dict_get (reg_entries reg) code of
      Some d \<Rightarrow> Ok d | None \<Rightarrow> Raise (KeyError code)) (reg_names reg)"

definition new_state_registry :: "state_definition list \<Rightarrow> state_registry result" where
  "new_state_registry ds = register_list (\<lambda>d aliases replace reg.
      emap snd (state_register (Definition d) aliases replace reg)) (map (\<lambda>d. (d, [])) ds) empty_registry"

definition create_default_state_registry :: "(real \<Rightarrow> real) \<Rightarrow> state_registry result" where
  "create_default_state_registry rnd = ebind (create_default_definitions rnd) new_state_registry"

section \<open>The registry contract\<close>

definition state_key :: "string \<Rightarrow> string" where
  "state_key code = upper (strip code)"

interpretation st: keyed_registry state_key sd_code
  "\<lambda>d aliases replace reg. emap snd (state_register (Definition d) aliases replace reg)" state_get
proof
  fix v :: state_definition and as rep r r'
  assume "emap snd (state_register (Definition v) as rep r) = Ok r'"
  then show "\<exists>msg. register_under msg (sd_code v) (map state_key as) rep v r = Ok r'"
    by (auto simp: state_register_def coerce_definition_def state_key_def [abs_def])
qed (auto simp: state_get_def state_key_def split: if_splits option.splits)

text \<open>Registering definitions with distinct, fresh, non-empty codes succeeds and appends the codes.\<close>

lemma register_definitions_ok:
  assumes "distinct (map sd_code ds)" "[] \<notin> set (map sd_code ds)"
    "set (map sd_code ds) \<inter> set (dict_keys (reg_entries r)) = {}"
    "set (map sd_code ds) \<inter> set (reg_names r) = {}"
  shows "\<exists>r'. register_list (\<lambda>d aliases replace reg. emap snd (state_register (Definition d) aliases replace reg))
      (map (\<lambda>d. (d, [])) ds) r = Ok r' \<and> reg_names r' = reg_names r @ map sd_code ds"
  using assms
proof (induction ds arbitrary: r)
  case (Cons d ds)
  let ?r = "\<lparr>reg_entries = dict_set (sd_code d) d (reg_entries r), reg_names = reg_names r @ [sd_code d]\<rparr>"
  have step: "emap snd (state_register (Definition d) [] False r) = Ok ?r"
    using Cons.prems by (simp add: state_register_def coerce_definition_def register_under_def Let_def)
  have "reg_entries ?r = reg_entries r @ [(sd_code d, d)]"
    using Cons.prems(3) by (simp add: dict_set_new)
  with Cons.prems have "\<exists>r'. register_list (\<lambda>d aliases replace reg. emap snd (state_register (Definition d) aliases replace reg))
      (map (\<lambda>d. (d, [])) ds) ?r = Ok r' \<and> reg_names r' = reg_names ?r @ map sd_code ds"
    by (intro Cons.IH) auto
  with step show ?case by auto
qed simp

lemma state_definitions_ok:
  "registry_inv r \<Longrightarrow> \<exists>ds. state_definitions r = Ok ds \<and> length ds = length (reg_names r)"
proof -
  assume inv: "registry_inv r"
  have "\<exists>d. (case dict_get (reg_entries r) code of Some d \<Rightarrow> Ok d | None \<Rightarrow> Raise (KeyError code)) = Ok d"
    if "code \<in> set (reg_names r)" for code
  proof -
    from inv that have "dict_get (reg_entries r) code \<noteq> None"
      by (auto simp: registry_inv_def map_of_eq_None_iff)
    then show ?thesis by auto
  qed
  then have "traverse (\<lambda>code. case dict_get (reg_entries r) code of Some d \<Rightarrow> Ok d | None \<Rightarrow> Raise (KeyError code))
      (reg_names r) = Ok (map (\<lambda>code. the (dict_get (reg_entries r) code)) (reg_names r))"
    by (intro traverse_ok) (fastforce split: option.splits)
  then show ?thesis unfolding state_definitions_def by simp
qed

section \<open>Contract of the state registry\<close>

text \<open>
  Registering a definition or a plugin makes the returned definition, and only it, answer to
  its code and its aliases in any letter case; all other lookups are unchanged; without
  \<open>replace\<close> none of the names was taken; the listed codes stay distinct and all resolvable.
\<close>

theorem state_register_lookup:
  assumes "state_register source aliases replace reg = Ok (d, reg')"
  shows "(state_key m \<in> insert (sd_code d) (state_key ` set aliases) \<longrightarrow> state_get reg' m = Ok d) \<and>
    (state_key m \<notin> insert (sd_code d) (state_key ` set aliases) \<longrightarrow> state_get reg' m = state_get reg m) \<and>
    (\<not> replace \<longrightarrow> state_key m \<in> insert (sd_code d) (state_key ` set aliases) \<longrightarrow>
       (\<forall>old. state_get reg m \<noteq> Ok old)) \<and>
    (registry_inv reg \<longrightarrow> registry_inv reg')"
proof -
  from assms have ok: "emap snd (state_register (Definition d) aliases replace reg) = Ok reg'"
    by (auto simp: state_register_def coerce_definition_def)
  have "\<forall>old. state_get reg m \<noteq> Ok old"
    if "\<not> replace" "state_key m \<in> insert (sd_code d) (state_key ` set aliases)"
    using st.register_fresh [of d aliases reg reg' m] ok that by simp
  with st.register_get [OF ok, of m] st.register_other [OF ok, of m] st.register_keeps [OF ok]
  show ?thesis by blast
qed

theorem state_register_lookup_witness:
  "let pl = \<lparr>pl_attributes = [(''code'', VStr ''UP''), (''name'', VStr ''up''), (''level'', VStr ''INFO''),
       (''indicator_type'', VStr ''rsi''), (''metadata'', VDict [(VStr ''mode'', VStr ''edge'')])],
       pl_evaluator = Absent, pl_evaluate = Callable (\<lambda>_ _ _ _ _. Ok (BoolSignal True))\<rparr>
   in \<exists>d reg'. state_register (PluginObject pl) [''rise''] False empty_registry = Ok (d, reg') \<and>
        state_get reg' '' up'' = Ok d \<and> state_get reg' ''RISE'' = Ok d \<and> registry_inv reg'"
proof -
  let ?pl = "\<lparr>pl_attributes = [(''code'', VStr ''UP''), (''name'', VStr ''up''), (''level'', VStr ''INFO''),
       (''indicator_type'', VStr ''rsi''), (''metadata'', VDict [(VStr ''mode'', VStr ''edge'')])],
       pl_evaluator = Absent, pl_evaluate = Callable (\<lambda>_ _ _ _ _. Ok (BoolSignal True))\<rparr>"
  let ?d = "\<lparr>sd_code = ''UP'', sd_name = ''up'', sd_level = ''INFO'', sd_indicator_type = ''RSI'',
      sd_metadata = VDict [(VStr ''mode'', VStr ''edge'')], sd_evaluator = (\<lambda>_ _ _ _ _. Ok (BoolSignal True))\<rparr>"
  have d: "coerce_definition (PluginObject ?pl) = Ok ?d"
    by (simp add: coerce_definition_def coerce_plugin_def plugin_fields_def plugin_callable_def
        StateDefinition_def state_text_def check_metadata_def get_none_def mapping_get_def key_text_def
        text_eval Let_def)
  have k: "state_key '' up'' = ''UP''" "state_key ''RISE'' = ''RISE''" "state_key ''rise'' = ''RISE''"
    by (simp_all add: state_key_def text_eval)
  have k': "upper (strip ''rise'') = ''RISE''" using k(3) by (simp only: state_key_def)
  obtain reg' where r: "state_register (PluginObject ?pl) [''rise''] False empty_registry = Ok (?d, reg')"
    unfolding state_register_def d by (simp add: register_under_def empty_registry_def k' Let_def)
  have "state_get reg' '' up'' = Ok ?d" "state_get reg' ''RISE'' = Ok ?d" "registry_inv reg'"
    using state_register_lookup [OF r, of "'' up''"] state_register_lookup [OF r, of "''RISE''"] k
      registry_inv_empty by auto
  with r show ?thesis unfolding Let_def by blast
qed

text \<open>The documented defaults, built and looked up.\<close>

lemma default_state_registry_built:
  "\<exists>reg. create_default_state_registry rnd = Ok reg \<and> state_codes_of reg = default_codes \<and>
     registry_inv reg \<and> (\<forall>code \<in> set default_codes. \<forall>m. state_key m = code \<longrightarrow>
       (\<exists>d. state_get reg m = Ok d \<and> sd_code d = code \<and> sound_evaluator (sd_evaluator d)))"
proof -
  obtain ds where ds: "create_default_definitions rnd = Ok ds" "map sd_code ds = default_codes"
    "list_all (\<lambda>d. sound_evaluator (sd_evaluator d)) ds"
    using default_definitions_built [of rnd] by blast
  have "distinct default_codes" "[] \<notin> set default_codes" by (simp_all add: default_codes_def)
  with register_definitions_ok [of ds empty_registry] ds(2) obtain reg where
    reg: "new_state_registry ds = Ok reg" "reg_names reg = default_codes"
    unfolding new_state_registry_def by (auto simp: empty_registry_def)
  have inv: "registry_inv reg"
    using st.register_all_inv [OF reg(1) [unfolded new_state_registry_def] registry_inv_empty] .
  have "\<exists>d. state_get reg m = Ok d \<and> sd_code d = code \<and> sound_evaluator (sd_evaluator d)"
    if code: "code \<in> set default_codes" and m: "state_key m = code" for code m
  proof -
    from code ds(2) obtain d where d: "d \<in> set ds" "sd_code d = code" by (metis imageE list.set_map)
    with st.register_all_get [OF reg(1) [unfolded new_state_registry_def], of d "[]" m] m
    have "state_get reg m = Ok d" by simp
    with d ds(3) show ?thesis by (auto simp: list_all_iff)
  qed
  with reg inv ds(1) show ?thesis
    by (auto simp: create_default_state_registry_def state_codes_of_def)
qed

text \<open>
  The default state registry is built without error, lists the eighteen codes in order, and
  resolves each of them, in any letter case and with surrounding blanks, to the definition with
  that code.
\<close>

theorem default_state_registry_complete:
  "\<exists>reg. create_default_state_registry rnd = Ok reg \<and> state_codes_of reg = default_codes \<and>
     registry_inv reg \<and> (\<forall>code \<in> set default_codes. \<forall>m. state_key m = code \<longrightarrow>
       (\<exists>d. state_get reg m = Ok d \<and> sd_code d = code))"
  using default_state_registry_built [of rnd] by blast

theorem default_state_registry_complete_witness:
  "\<exists>reg d. create_default_state_registry rnd64 = Ok reg \<and> state_get reg '' ma_cross_up'' = Ok d \<and>
     sd_code d = ''MA_CROSS_UP''"
proof -
  have "state_key '' ma_cross_up'' = ''MA_CROSS_UP''" by (simp add: state_key_def text_eval)
  moreover have "''MA_CROSS_UP'' \<in> set default_codes" by (simp add: default_codes_def)
  ultimately show ?thesis using default_state_registry_complete [of rnd64] by blast
qed

end
