(* ===== verification/Edge_Trigger.thy ===== *)
theory Edge_Trigger
  imports Prelude
begin

text \<open>
  What the state engine and the alert evaluator share: a component that observes a level (active
  or not) at each call, remembers it per key, and fires only when the level rises. A call may bring
  its own idea of the level before, instead of consulting the memory, and a step may forget keys. The
  locale states the laws of one step; the theorem derived from them says that of any two firings under
  one key, the later of which consults the memory, the later one is preceded, after the earlier one,
  by an observed inactivity or by a step that forgets the key.
\<close>

section \<open>Runs\<close>

fun run_steps :: "('i \<Rightarrow> 's \<Rightarrow> 's \<times> 'o) \<Rightarrow> 'i list \<Rightarrow> 's \<Rightarrow> 'o list" where
  "run_steps step [] s = []"
| "run_steps step (i # is) s = snd (step i s) # run_steps step is (fst (step i s))"

fun state_after :: "('i \<Rightarrow> 's \<Rightarrow> 's \<times> 'o) \<Rightarrow> 'i list \<Rightarrow> 's \<Rightarrow> 's" where
  "state_after step [] s = s"
| "state_after step (i # is) s = state_after step is (fst (step i s))"

lemma length_run_steps [simp]: "length (run_steps step is s) = length is"
  by (induction "is" arbitrary: s) auto

lemma run_steps_append:
  "run_steps step (is @ js) s = run_steps step is s @ run_steps step js (state_after step is s)"
  by (induction "is" arbitrary: s) auto

lemma run_steps_nth:
  "n < length is \<Longrightarrow> run_steps step is s ! n = snd (step (is ! n) (state_after step (take n is) s))"
  by (induction "is" arbitrary: s n) (auto simp: nth_Cons split: nat.splits)

lemma state_after_append: "state_after step (is @ js) s = state_after step js (state_after step is s)"
  by (induction "is" arbitrary: s) auto

section \<open>The contract\<close>

locale edge_trigger =
  fixes step :: "'i \<Rightarrow> 's \<Rightarrow> 's \<times> 'o"
    and key :: "'s \<Rightarrow> 'i \<Rightarrow> 'k option"
    and mem :: "'s \<Rightarrow> 'k \<Rightarrow> bool"
    and level :: "'o \<Rightarrow> bool option"
    and fired :: "'o \<Rightarrow> bool"
    and consults :: "'i \<Rightarrow> bool"
    and forgets :: "'i \<Rightarrow> 'k \<Rightarrow> bool"
  assumes key_step: "key (fst (step i s)) j = key s j"
    and fired_rises: "fired (snd (step i s)) \<Longrightarrow>
      level (snd (step i s)) = Some True \<and> (\<exists>k. key s i = Some k \<and> \<not> forgets i k \<and> (consults i \<longrightarrow> \<not> mem s k))"
    and mem_step: "mem (fst (step i s)) k = (\<not> forgets i k \<and>
      (case level (snd (step i s)) of Some b \<Rightarrow> if key s i = Some k then b else mem s k | None \<Rightarrow> mem s k))"
begin

lemma key_after: "key (state_after step is s) j = key s j"
  by (induction "is" arbitrary: s) (auto simp: key_step)

text \<open>A remembered level stays until an inactivity is observed under its key or the key is forgotten.\<close>

lemma mem_persists:
  "mem s k \<Longrightarrow>
     (\<And>n. n < length is \<Longrightarrow> \<not> forgets (is ! n) k \<and> (key s (is ! n) = Some k \<longrightarrow> level (run_steps step is s ! n) \<noteq> Some False)) \<Longrightarrow>
     mem (state_after step is s) k"
proof (induction "is" arbitrary: s)
  case (Cons i "is")
  from Cons.prems(2) [of 0] have l: "\<not> forgets i k" "key s i = Some k \<Longrightarrow> level (snd (step i s)) \<noteq> Some False" by auto
  have "mem (fst (step i s)) k" using Cons.prems(1) l by (auto simp: mem_step split: option.splits)
  moreover have "\<not> forgets (is ! n) k \<and> (key (fst (step i s)) (is ! n) = Some k \<longrightarrow> level (run_steps step is (fst (step i s)) ! n) \<noteq> Some False)"
    if "n < length is" for n
    using Cons.prems(2) [of "Suc n"] that by (simp add: key_step)
  ultimately show ?case using Cons.IH by simp
qed simp

lemma firings_separated:
  assumes ij: "i < j" "j < length is"
    and fi: "fired (run_steps step is s ! i)" and fj: "fired (run_steps step is s ! j)"
    and k: "key s (is ! i) = Some k" "key s (is ! j) = Some k" and c: "consults (is ! j)"
  shows "\<exists>n. i < n \<and> n < j \<and> (forgets (is ! n) k \<or> key s (is ! n) = Some k \<and> level (run_steps step is s ! n) = Some False)"
proof (rule ccontr)
  assume none: "\<not> ?thesis"
  let ?mid = "drop (Suc i) (take j is)"
  define s' where "s' = state_after step (take (Suc i) is) s"
  have split: "take j is = take (Suc i) is @ ?mid"
    using ij(1) by (metis append_take_drop_id min.absorb1 Suc_leI take_take)
  let ?si = "state_after step (take i is) s"
  have s': "s' = fst (step (is ! i) ?si)"
    unfolding s'_def using ij by (simp add: take_Suc_conv_app_nth state_after_append)
  from fi ij have "fired (snd (step (is ! i) ?si))" by (simp add: run_steps_nth)
  from fired_rises [OF this] k have "mem s' k" unfolding s' mem_step by (auto simp: key_after)
  moreover have "\<not> forgets (?mid ! n) k \<and> (key s' (?mid ! n) = Some k \<longrightarrow> level (run_steps step ?mid s' ! n) \<noteq> Some False)"
    if n: "n < length ?mid" for n
  proof -
    have idx: "?mid ! n = is ! (Suc i + n)" "Suc i + n < j" using n ij by auto
    have "run_steps step is s ! (Suc i + n) = run_steps step ?mid s' ! n"
    proof -
      have "run_steps step (take j is) s = run_steps step (take (Suc i) is) s @ run_steps step ?mid s'"
        unfolding s'_def by (subst split) (rule run_steps_append)
      moreover have "run_steps step (take j is) s ! (Suc i + n) = run_steps step is s ! (Suc i + n)"
        using idx ij by (simp add: run_steps_nth)
      ultimately show ?thesis using ij by (simp add: nth_append)
    qed
    with none idx show ?thesis
      unfolding s'_def key_after by (metis add_Suc less_add_Suc1)
  qed
  ultimately have "mem (state_after step ?mid s') k" by (rule mem_persists)
  then have "mem (state_after step (take j is) s) k"
    unfolding s'_def by (metis split state_after_append)
  moreover have "\<not> mem (state_after step (take j is) s) k"
  proof -
    from fj ij have "fired (snd (step (is ! j) (state_after step (take j is) s)))" by (simp add: run_steps_nth)
    from fired_rises [OF this] k c show ?thesis by (auto simp: key_after)
  qed
  ultimately show False by blast
qed

end

end
