(* ===== verification/State_Engine.thy ===== *)
theory State_Engine
  imports State_Registry Edge_Trigger
begin

text \<open>
  The state engine (\<open>states/engine.py\<close>) and its results (\<open>states/types.py\<close>): inputs are turned
  into snapshots, the registered evaluator decides, and the engine's memory of the last active
  bit per stream and state turns signals into transitions. A call returns the engine after the
  call together with its outcome, because an exception leaves the engine as it was at that point.
  The lemmas show what one call changes, that streams do not influence each other, and that two
  transitions of a state are separated by an observation of its inactivity.
\<close>

section \<open>Inputs\<close>

text \<open>
  What a caller may pass as a snapshot. \<open>InMany\<close> is a mapping whose values are again inputs;
  a mapping of plain values is \<open>InValue\<close> of a dictionary. Keys are compared as values.
\<close>

datatype engine_input =
    InSnapshot indicator_snapshot
  | InResult indicator_result
  | InMany "(pyval \<times> engine_input) list"
  | InValue pyval

datatype price_input = PriceObject price_snapshot | PriceValue pyval

definition validate_tolerance :: "(real \<Rightarrow> real) \<Rightarrow> pyval \<Rightarrow> real result" where
  "validate_tolerance rnd v =
     (let err = ValueError ''tolerance must be a finite non-negative number'' in
      if (case v of VInt _ \<Rightarrow> True | VFloat _ \<Rightarrow> True | _ \<Rightarrow> False)
      then ebind (to_float rnd v) (\<lambda>f. ebind (finite_or f err) (\<lambda>r. if r < 0 then Raise err else Ok r))
      else Raise err)"

text \<open>The mapping an input is, if it is one, and its plain value.\<close>

definition input_mapping :: "engine_input \<Rightarrow> (pyval \<times> engine_input) list option" where
  "input_mapping v = (case v of
      InMany d \<Rightarrow> Some d
    | InValue (VDict d) \<Rightarrow> Some (map (\<lambda>(k, x). (k, InValue x)) d)
    | _ \<Rightarrow> None)"

fun plain_value :: "engine_input \<Rightarrow> pyval" where
  "plain_value (InSnapshot _) = VObj ''IndicatorSnapshot''"
| "plain_value (InResult _) = VObj ''IndicatorResult''"
| "plain_value (InMany d) = VDict (map (\<lambda>(k, v). (k, plain_value v)) d)"
| "plain_value (InValue v) = v"

definition as_snapshot :: "(real \<Rightarrow> real) \<Rightarrow> engine_input \<Rightarrow> indicator_snapshot result" where
  "as_snapshot rnd v = (case v of
      InSnapshot s \<Rightarrow> Ok s
    | InResult r \<Rightarrow> snapshot_from_result rnd r
    | _ \<Rightarrow> (case plain_value v of
          VDict d \<Rightarrow> snapshot_from_mapping rnd d
        | _ \<Rightarrow> Raise (InvalidSnapshotError ''snapshot must be IndicatorSnapshot, IndicatorResult, or mapping'')))"

text \<open>\<open>d.get(name, fallback)\<close>, where a key holding \<open>None\<close> counts as present.\<close>

definition get_default :: "(pyval \<times> pyval) list \<Rightarrow> string \<Rightarrow> pyval \<Rightarrow> pyval" where
  "get_default d name fallback = (case mapping_get d name of Some v \<Rightarrow> v | None \<Rightarrow> fallback)"

definition as_price :: "(real \<Rightarrow> real) \<Rightarrow> price_input \<Rightarrow> pyval \<Rightarrow> price_snapshot option result" where
  "as_price rnd v previous = (case v of
      PriceObject p \<Rightarrow>
        if previous = VNone then Ok (Some p)
        else emap Some (PriceSnapshot rnd (VFloat (Fin (ps_current p))) previous)
    | PriceValue VNone \<Rightarrow>
        if previous = VNone then Ok None else Raise (InvalidSnapshotError ''price.current is required'')
    | PriceValue (VDict d) \<Rightarrow>
        let current = get_default d ''current'' (get_default d ''value'' (get_default d ''close'' VNone));
            prior = (if previous \<noteq> VNone then previous
              else get_default d ''previous'' (get_default d ''previous_value'' VNone))
        in if current = VNone then Raise (InvalidSnapshotError ''price.current is required'')
           else emap Some (PriceSnapshot rnd current prior)
    | PriceValue x \<Rightarrow> emap Some (PriceSnapshot rnd x previous))"

definition reason_for_exception :: "exn \<Rightarrow> string" where
  "reason_for_exception e = (case e of
      MissingStateValues reason \<Rightarrow> reason
    | InvalidSnapshotError message \<Rightarrow>
        if contains_text ''metadata'' message then ''invalid_metadata'' else ''invalid_values''
    | TypeError message \<Rightarrow>
        if contains_text ''metadata'' message then ''invalid_metadata'' else ''invalid_values''
    | _ \<Rightarrow> ''invalid_values'')"

text \<open>
  \<open>except (MissingStateValues, InvalidSnapshotError, TypeError, ValueError)\<close>: the domain errors of
  states, alerts and indicators are all subclasses of \<open>ValueError\<close>.
\<close>

definition caught :: "exn \<Rightarrow> bool" where
  "caught e = (case e of
      OverflowError _ \<Rightarrow> False | KeyError _ \<Rightarrow> False | ApiError _ _ _ \<Rightarrow> False | AttributeError _ \<Rightarrow> False | TaskLockError _ \<Rightarrow> False
    | _ \<Rightarrow> True)"

section \<open>Results and the engine's state\<close>

record state_result =
  sr_definition :: state_definition
  sr_active :: bool
  sr_transition :: bool
  sr_reason :: "string option"
  sr_values :: "(string, real) dict"

definition sr_code :: "state_result \<Rightarrow> string" where "sr_code r = sd_code (sr_definition r)"

definition sr_status :: "state_result \<Rightarrow> state_status" where
  "sr_status r = (if sr_active r then ACTIVE else INACTIVE)"

definition status_text :: "state_status \<Rightarrow> string" where
  "status_text s = (case s of ACTIVE \<Rightarrow> ''ACTIVE'' | INACTIVE \<Rightarrow> ''INACTIVE'' | UNKNOWN \<Rightarrow> ''UNKNOWN'')"

definition state_result_to_dict :: "state_result \<Rightarrow> (string, pyval) dict" where
  "state_result_to_dict r = (let d = sr_definition r in
     [(''state_code'', VStr (sd_code d)), (''name'', VStr (sd_name d)), (''level'', VStr (sd_level d)),
      (''indicator_type'', VStr (sd_indicator_type d)), (''status'', VStr (status_text (sr_status r))),
      (''active'', VBool (sr_active r)), (''transition'', VBool (sr_transition r)),
      (''metadata'', thaw (sd_metadata d)), (''values'', float_object (sr_values r)),
      (''reason'', case sr_reason r of None \<Rightarrow> VNone | Some t \<Rightarrow> VStr t)])"

type_synonym stream_key = "string \<times> string"

record engine =
  eng_registry :: state_registry
  eng_tolerance :: real
  eng_last :: "(stream_key, bool) dict"

definition new_engine :: "(real \<Rightarrow> real) \<Rightarrow> state_registry \<Rightarrow> pyval \<Rightarrow> engine result" where
  "new_engine rnd reg tolerance =
     emap (\<lambda>t. \<lparr>eng_registry = reg, eng_tolerance = t, eng_last = []\<rparr>) (validate_tolerance rnd tolerance)"

definition reset :: "string option \<Rightarrow> engine \<Rightarrow> engine" where
  "reset stream_id eng = eng\<lparr>eng_last := (case stream_id of
      None \<Rightarrow> [] | Some prefix \<Rightarrow> filter (\<lambda>(key, _). fst key \<noteq> prefix) (eng_last eng))\<rparr>"

text \<open>The keyword arguments the calls share.\<close>

record state_call =
  call_price :: price_input
  call_current_price :: price_input
  call_previous_price :: pyval
  call_tolerance :: pyval
  call_stream :: "string option"
  call_security :: "string option"
  call_symbol :: "string option"

definition default_call :: state_call where
  "default_call = \<lparr>call_price = PriceValue VNone, call_current_price = PriceValue VNone,
     call_previous_price = VNone, call_tolerance = VNone, call_stream = None, call_security = None,
     call_symbol = None\<rparr>"

section \<open>Evaluating one state\<close>

text \<open>\<open>stream_id or security_id or symbol or definition.code\<close>: empty texts count as absent.\<close>

definition or_else :: "string option \<Rightarrow> string \<Rightarrow> string" where
  "or_else a b = (case a of Some (c # cs) \<Rightarrow> c # cs | _ \<Rightarrow> b)"

definition stream_key_of :: "state_call \<Rightarrow> state_definition \<Rightarrow> stream_key" where
  "stream_key_of call d = (or_else (call_stream call) (or_else (call_security call)
     (or_else (call_symbol call) (sd_code d))), sd_code d)"

definition mark_inactive :: "state_definition \<Rightarrow> string \<Rightarrow> stream_key \<Rightarrow> engine \<Rightarrow> engine \<times> state_result result" where
  "mark_inactive d reason key eng =
     (eng\<lparr>eng_last := dict_set key False (eng_last eng)\<rparr>,
      Ok \<lparr>sr_definition = d, sr_active = False, sr_transition = False, sr_reason = Some reason, sr_values = []\<rparr>)"

definition infer_previous_active ::
  "(real \<Rightarrow> real) \<Rightarrow> state_definition \<Rightarrow> indicator_snapshot \<Rightarrow> real \<Rightarrow> bool result"
where
  "infer_previous_active rnd d previous tolerance = (case is_previous previous of
      None \<Rightarrow> Ok False
    | Some pv \<Rightarrow>
        (case ebind (IndicatorSnapshot rnd (VStr (is_indicator previous)) (float_object pv) VNone VNone VNone VNone)
            (\<lambda>prior. sd_evaluator d previous prior None None tolerance) of
          Inl e \<Rightarrow> if caught e then Ok False else Raise e
        | Inr (StateSignal active _) \<Rightarrow> Ok active
        | Inr (BoolSignal b) \<Rightarrow> Ok b
        | Inr OtherSignal \<Rightarrow> Ok False))"

text \<open>
  The part of \<open>evaluate_state\<close> up to the signal: either a reason why there is none, or both
  snapshots with activity and edge. Exceptions outside the handled classes escape.
\<close>

datatype 'a outcome = Unavailable string | Observed 'a

definition attempt :: "'a result \<Rightarrow> ('a \<Rightarrow> 'b outcome result) \<Rightarrow> 'b outcome result" where
  "attempt m f = (case m of
      Inl e \<Rightarrow> if caught e then Ok (Unavailable (reason_for_exception e)) else Raise e
    | Inr x \<Rightarrow> f x)"

definition price_of_call :: "state_call \<Rightarrow> price_input" where
  "price_of_call call =
     (if call_current_price call \<noteq> PriceValue VNone then call_current_price call else call_price call)"

definition observe_state ::
  "(real \<Rightarrow> real) \<Rightarrow> state_definition \<Rightarrow> real \<Rightarrow> engine_input \<Rightarrow> engine_input \<Rightarrow> state_call \<Rightarrow>
     (indicator_snapshot \<times> indicator_snapshot \<times> bool \<times> bool) outcome result"
where
  "observe_state rnd d tolerance current previous call =
     attempt (as_snapshot rnd current) (\<lambda>current_snapshot.
     if previous = InValue VNone then Ok (Unavailable ''missing_previous'')
     else
       attempt (as_snapshot rnd previous) (\<lambda>previous_snapshot.
       if is_indicator current_snapshot \<noteq> sd_indicator_type d \<or> is_indicator previous_snapshot \<noteq> sd_indicator_type d
       then Ok (Unavailable ''indicator_mismatch'')
       else
         attempt (ebind (as_price rnd (price_of_call call) (call_previous_price call)) (\<lambda>price.
             sd_evaluator d current_snapshot previous_snapshot price (Option.bind price ps_previous) tolerance))
           (\<lambda>signal. case signal of
               StateSignal active edge \<Rightarrow> Ok (Observed (current_snapshot, previous_snapshot, active, edge))
             | BoolSignal b \<Rightarrow> Ok (Observed (current_snapshot, previous_snapshot, b, b))
             | OtherSignal \<Rightarrow> Ok (Unavailable ''invalid_evaluator_result''))))"

definition was_active_before ::
  "(real \<Rightarrow> real) \<Rightarrow> state_definition \<Rightarrow> indicator_snapshot \<Rightarrow> real \<Rightarrow> bool option \<Rightarrow> bool option \<Rightarrow> bool result"
where
  "was_active_before rnd d previous_snapshot tolerance previous_active remembered = (case previous_active of
      Some b \<Rightarrow> Ok b
    | None \<Rightarrow> (case remembered of Some b \<Rightarrow> Ok b | None \<Rightarrow> infer_previous_active rnd d previous_snapshot tolerance))"

definition resolve_tolerance :: "(real \<Rightarrow> real) \<Rightarrow> engine \<Rightarrow> state_call \<Rightarrow> real result" where
  "resolve_tolerance rnd eng call =
     (if call_tolerance call = VNone then Ok (eng_tolerance eng) else validate_tolerance rnd (call_tolerance call))"

definition evaluate_state ::
  "(real \<Rightarrow> real) \<Rightarrow> string \<Rightarrow> engine_input \<Rightarrow> engine_input \<Rightarrow> bool option \<Rightarrow> state_call \<Rightarrow> engine \<Rightarrow>
     engine \<times> state_result result"
where
  "evaluate_state rnd code current previous previous_active call eng =
     (case ebind (state_get (eng_registry eng) code) (\<lambda>d. emap (Pair d) (resolve_tolerance rnd eng call)) of
        Inl e \<Rightarrow> (eng, Raise e)
      | Inr (d, tolerance) \<Rightarrow>
          let key = stream_key_of call d in
          (case observe_state rnd d tolerance current previous call of
             Inl e \<Rightarrow> (eng, Raise e)
           | Inr (Unavailable reason) \<Rightarrow> mark_inactive d reason key eng
           | Inr (Observed (current_snapshot, previous_snapshot, active, edge)) \<Rightarrow>
               (case was_active_before rnd d previous_snapshot tolerance previous_active
                   (dict_get (eng_last eng) key) of
                  Inl e \<Rightarrow> (eng, Raise e)
                | Inr was_active \<Rightarrow>
                    (eng\<lparr>eng_last := dict_set key active (eng_last eng)\<rparr>,
                     Ok \<lparr>sr_definition = d, sr_active = active,
                       sr_transition = (active \<and> edge \<and> \<not> was_active), sr_reason = None,
                       sr_values = is_values current_snapshot\<rparr>))))"

section \<open>Evaluating the registered states\<close>

text \<open>The generator over the codes: the first exception ends it and the engine keeps what was stored.\<close>

fun evaluate_codes ::
  "(real \<Rightarrow> real) \<Rightarrow> engine_input \<Rightarrow> engine_input \<Rightarrow> state_call \<Rightarrow> string list \<Rightarrow> engine \<Rightarrow>
     engine \<times> state_result list result"
where
  "evaluate_codes rnd current previous call [] eng = (eng, Ok [])"
| "evaluate_codes rnd current previous call (code # codes) eng =
     (case evaluate_state rnd code current previous None call eng of
        (eng', Inl e) \<Rightarrow> (eng', Raise e)
      | (eng', Inr r) \<Rightarrow>
          (case evaluate_codes rnd current previous call codes eng' of
             (eng'', res) \<Rightarrow> (eng'', emap ((#) r) res)))"

text \<open>\<open>evaluate\<close> of one snapshot.\<close>

definition evaluate_snapshot ::
  "(real \<Rightarrow> real) \<Rightarrow> engine_input \<Rightarrow> engine_input \<Rightarrow> string list option \<Rightarrow> state_call \<Rightarrow> engine \<Rightarrow>
     engine \<times> state_result list result"
where
  "evaluate_snapshot rnd current previous codes call eng = (case as_snapshot rnd current of
      Inl e \<Rightarrow>
        if caught e
        then evaluate_codes rnd current previous call
          (case codes of None \<Rightarrow> state_codes_of (eng_registry eng) | Some cs \<Rightarrow> cs) eng
        else (eng, Raise e)
    | Inr current_snapshot \<Rightarrow>
        (case (case codes of
            Some cs \<Rightarrow> Ok cs
          | None \<Rightarrow> emap (\<lambda>ds. map sd_code (filter (\<lambda>d. sd_indicator_type d = is_indicator current_snapshot) ds))
              (state_definitions (eng_registry eng))) of
          Inl e \<Rightarrow> (eng, Raise e)
        | Inr cs \<Rightarrow> evaluate_codes rnd (InSnapshot current_snapshot) previous call cs eng))"

definition looks_like_snapshot :: "(pyval \<times> engine_input) list \<Rightarrow> bool" where
  "looks_like_snapshot d \<longleftrightarrow>
     list_ex (\<lambda>name. VStr name \<in> set (dict_keys d)) [''indicator'', ''indicator_type'', ''type'', ''values'']"

text \<open>Yesterday's entry for an indicator: the exact key, else the first key equal up to case.\<close>

definition prior_value :: "(pyval \<times> engine_input) list \<Rightarrow> pyval \<Rightarrow> engine_input" where
  "prior_value previous indicator = (case dict_get previous indicator of
      Some v \<Rightarrow> v
    | None \<Rightarrow> InValue VNone)"

definition prior_ignoring_case :: "(pyval \<times> engine_input) list \<Rightarrow> string \<Rightarrow> engine_input" where
  "prior_ignoring_case previous indicator =
     (case find (\<lambda>(key, _). case key of VStr k \<Rightarrow> upper k = upper indicator | _ \<Rightarrow> False) previous of
        Some (_, v) \<Rightarrow> v | None \<Rightarrow> InValue VNone)"

definition prior_for :: "(pyval \<times> engine_input) list \<Rightarrow> pyval \<Rightarrow> engine_input" where
  "prior_for previous indicator = (let v = prior_value previous indicator in
     case indicator of
       VStr s \<Rightarrow> if v = InValue VNone then prior_ignoring_case previous s else v
     | _ \<Rightarrow> v)"

text \<open>A bare mapping of values gets its envelope.\<close>

definition envelope :: "pyval \<Rightarrow> engine_input \<Rightarrow> engine_input" where
  "envelope indicator v = (case input_mapping v of
      Some d \<Rightarrow> if looks_like_snapshot d then v
        else InMany [(VStr ''indicator'', InValue indicator), (VStr ''values'', v)]
    | None \<Rightarrow> v)"

text \<open>
  The loop over a mapping by indicator. Its recursive calls of \<open>evaluate\<close> get an enveloped
  snapshot, so each of them evaluates one snapshot.
\<close>

fun evaluate_many ::
  "(real \<Rightarrow> real) \<Rightarrow> (pyval \<times> engine_input) list \<Rightarrow> (pyval \<times> engine_input) list \<Rightarrow> string list option \<Rightarrow>
     state_call \<Rightarrow> engine \<Rightarrow> engine \<times> state_result list result"
where
  "evaluate_many rnd [] previous codes call eng = (eng, Ok [])"
| "evaluate_many rnd ((indicator, v) # rest) previous codes call eng =
     (case evaluate_snapshot rnd (envelope indicator v) (envelope indicator (prior_for previous indicator))
         codes call eng of
        (eng', Inl e) \<Rightarrow> (eng', Raise e)
      | (eng', Inr rs) \<Rightarrow>
          (case evaluate_many rnd rest previous codes call eng' of
             (eng'', res) \<Rightarrow> (eng'', emap ((@) rs) res)))"

definition evaluate ::
  "(real \<Rightarrow> real) \<Rightarrow> engine_input \<Rightarrow> engine_input \<Rightarrow> string list option \<Rightarrow> state_call \<Rightarrow> engine \<Rightarrow>
     engine \<times> state_result list result"
where
  "evaluate rnd current previous codes call eng = (case input_mapping current of
      Some d \<Rightarrow>
        if looks_like_snapshot d then evaluate_snapshot rnd current previous codes call eng
        else evaluate_many rnd d (case input_mapping previous of Some p \<Rightarrow> p | None \<Rightarrow> []) codes call eng
    | None \<Rightarrow> evaluate_snapshot rnd current previous codes call eng)"

section \<open>What one call changes\<close>

definition remembers :: "engine \<Rightarrow> stream_key \<Rightarrow> bool" where
  "remembers eng key \<longleftrightarrow> dict_get (eng_last eng) key = Some True"

lemma evaluate_state_effect:
  assumes "evaluate_state rnd code current previous previous_active call eng = (eng', res)"
  shows "(\<exists>e. res = Raise e \<and> eng' = eng) \<or>
    (\<exists>r. res = Ok r \<and> state_get (eng_registry eng) code = Ok (sr_definition r) \<and>
       eng' = eng\<lparr>eng_last := dict_set (stream_key_of call (sr_definition r)) (sr_active r) (eng_last eng)\<rparr> \<and>
       (sr_transition r \<longrightarrow> sr_active r \<and> previous_active \<noteq> Some True \<and>
          (previous_active = None \<longrightarrow> \<not> remembers eng (stream_key_of call (sr_definition r)))))"
proof (cases "ebind (state_get (eng_registry eng) code) (\<lambda>d. emap (Pair d) (resolve_tolerance rnd eng call))")
  case (Inl e)
  with assms show ?thesis by (auto simp: evaluate_state_def)
next
  case (Inr p)
  obtain d tol where p: "p = (d, tol)" by (cases p)
  with Inr have get: "state_get (eng_registry eng) code = Ok d" by auto
  show ?thesis
  proof (cases "observe_state rnd d tol current previous call")
    case (Inl e)
    with assms Inr p show ?thesis by (auto simp: evaluate_state_def)
  next
    case obs: (Inr o1)
    show ?thesis
    proof (cases o1)
      case (Unavailable reason)
      with assms Inr p obs get show ?thesis by (auto simp: evaluate_state_def mark_inactive_def Let_def)
    next
      case (Observed q)
      obtain cs ps a e where q: "q = (cs, ps, a, e)" by (cases q)
      let ?last = "dict_get (eng_last eng) (stream_key_of call d)"
      show ?thesis
      proof (cases "was_active_before rnd d ps tol previous_active ?last")
        case (Inl x)
        with assms Inr p obs Observed q show ?thesis by (auto simp: evaluate_state_def Let_def)
      next
        case w: (Inr was)
        have "previous_active = Some True \<Longrightarrow> was" "previous_active = None \<Longrightarrow> ?last = Some True \<Longrightarrow> was"
          using w by (auto simp: was_active_before_def)
        with assms Inr p obs Observed q w get show ?thesis
          by (auto simp: evaluate_state_def Let_def remembers_def)
      qed
    qed
  qed
qed

text \<open>The outcome depends on the engine through its registry, its tolerance and one remembered bit.\<close>

lemma evaluate_state_cong:
  assumes "eng_registry e1 = eng_registry e2" "eng_tolerance e1 = eng_tolerance e2"
    and "\<And>d. state_get (eng_registry e1) code = Ok d \<Longrightarrow>
      dict_get (eng_last e1) (stream_key_of call d) = dict_get (eng_last e2) (stream_key_of call d)"
  shows "snd (evaluate_state rnd code current previous previous_active call e1) =
    snd (evaluate_state rnd code current previous previous_active call e2)"
proof (cases "state_get (eng_registry e1) code")
  case (Inl e)
  with assms(1) show ?thesis by (simp add: evaluate_state_def)
next
  case (Inr d)
  with assms have l: "dict_get (eng_last e1) (stream_key_of call d) = dict_get (eng_last e2) (stream_key_of call d)"
    and t: "resolve_tolerance rnd e1 call = resolve_tolerance rnd e2 call"
    by (simp_all add: resolve_tolerance_def)
  show ?thesis unfolding evaluate_state_def Let_def assms(1) [symmetric] Inr t ebind_simps
    by (auto simp: mark_inactive_def l split: sum.split outcome.split)
qed

section \<open>Runs of the engine\<close>

text \<open>An evaluation, with or without a previous bit given by the caller, or a reset, as one step.\<close>

datatype engine_step =
    Evaluation string engine_input engine_input "bool option" state_call
  | Reset "string option"

fun state_step :: "(real \<Rightarrow> real) \<Rightarrow> engine_step \<Rightarrow> engine \<Rightarrow> engine \<times> state_result result option" where
  "state_step rnd (Evaluation code current previous previous_active call) eng =
     (case evaluate_state rnd code current previous previous_active call eng of (eng', res) \<Rightarrow> (eng', Some res))"
| "state_step rnd (Reset stream) eng = (reset stream eng, None)"

text \<open>The key an evaluation is remembered under, the bit it was given, and the keys a step forgets.\<close>

fun step_key :: "engine \<Rightarrow> engine_step \<Rightarrow> stream_key option" where
  "step_key eng (Evaluation code _ _ _ call) =
     (case state_get (eng_registry eng) code of Inl _ \<Rightarrow> None | Inr d \<Rightarrow> Some (stream_key_of call d))"
| "step_key eng (Reset _) = None"

fun given_bit :: "engine_step \<Rightarrow> bool option" where
  "given_bit (Evaluation _ _ _ previous_active _) = previous_active"
| "given_bit (Reset _) = None"

fun step_forgets :: "engine_step \<Rightarrow> stream_key \<Rightarrow> bool" where
  "step_forgets (Evaluation _ _ _ _ _) key = False"
| "step_forgets (Reset stream) key = (case stream of None \<Rightarrow> True | Some prefix \<Rightarrow> fst key = prefix)"

definition result_level :: "state_result result option \<Rightarrow> bool option" where
  "result_level res = (case res of Some (Inr r) \<Rightarrow> Some (sr_active r) | _ \<Rightarrow> None)"

definition result_fired :: "state_result result option \<Rightarrow> bool" where
  "result_fired res = (case res of Some (Inr r) \<Rightarrow> sr_transition r | _ \<Rightarrow> False)"

lemma reset_get:
  "dict_get (eng_last (reset stream eng)) key = (if step_forgets (Reset stream) key then None else dict_get (eng_last eng) key)"
proof (cases stream)
  case (Some prefix)
  have "dict_get (filter (\<lambda>(key, _). fst key \<noteq> prefix) xs) key = (if fst key = prefix then None else dict_get xs key)" for xs :: "(stream_key, bool) dict"
    by (induction xs) auto
  then show ?thesis using Some by (simp add: reset_def)
qed (simp add: reset_def)

lemma reset_rest [simp]:
  "eng_registry (reset stream eng) = eng_registry eng" "eng_tolerance (reset stream eng) = eng_tolerance eng"
  by (simp_all add: reset_def split: option.split)

lemma evaluation_effect:
  assumes "st = Evaluation code current previous previous_active call"
  shows "(\<exists>e. snd (state_step rnd st eng) = Some (Raise e) \<and> fst (state_step rnd st eng) = eng) \<or>
   (\<exists>r key. snd (state_step rnd st eng) = Some (Ok r) \<and> step_key eng st = Some key \<and>
      fst (state_step rnd st eng) = eng\<lparr>eng_last := dict_set key (sr_active r) (eng_last eng)\<rparr> \<and>
      (sr_transition r \<longrightarrow> sr_active r \<and> previous_active \<noteq> Some True \<and> (previous_active = None \<longrightarrow> \<not> remembers eng key)))"
proof -
  obtain eng' res where e: "evaluate_state rnd code current previous previous_active call eng = (eng', res)"
    by (cases "evaluate_state rnd code current previous previous_active call eng")
  have run: "fst (state_step rnd st eng) = eng'" "snd (state_step rnd st eng) = Some res" by (simp_all add: assms e)
  from evaluate_state_effect [OF e] show ?thesis
  proof (elim disjE exE conjE)
    fix r
    assume "res = Ok r" "state_get (eng_registry eng) code = Ok (sr_definition r)"
      "eng' = eng\<lparr>eng_last := dict_set (stream_key_of call (sr_definition r)) (sr_active r) (eng_last eng)\<rparr>"
      "sr_transition r \<longrightarrow> sr_active r \<and> previous_active \<noteq> Some True \<and>
         (previous_active = None \<longrightarrow> \<not> remembers eng (stream_key_of call (sr_definition r)))"
    then show ?thesis unfolding run
      by (intro disjI2 exI [of _ r] exI [of _ "stream_key_of call (sr_definition r)"]) (simp add: assms)
  qed (simp add: run)
qed

lemma fired_given: "result_fired (snd (state_step rnd st eng)) \<Longrightarrow> given_bit st \<noteq> Some True"
proof (cases st)
  case (Evaluation code current previous previous_active call)
  then show "result_fired (snd (state_step rnd st eng)) \<Longrightarrow> given_bit st \<noteq> Some True"
    using evaluation_effect [OF Evaluation, of rnd eng] by (auto simp: result_fired_def)
qed simp

interpretation eng: edge_trigger "state_step rnd" step_key remembers result_level result_fired "\<lambda>st. given_bit st = None" step_forgets for rnd
proof
  fix st st' eng k
  show "step_key (fst (state_step rnd st eng)) st' = step_key eng st'"
  proof (cases st)
    case (Evaluation code current previous previous_active call)
    have "eng_registry (fst (state_step rnd st eng)) = eng_registry eng"
      using evaluation_effect [OF Evaluation, of rnd eng] by auto
    then show ?thesis by (cases st') simp_all
  next
    case (Reset stream)
    then show ?thesis by (cases st') simp_all
  qed
  show "result_fired (snd (state_step rnd st eng)) \<Longrightarrow> result_level (snd (state_step rnd st eng)) = Some True \<and>
      (\<exists>k. step_key eng st = Some k \<and> \<not> step_forgets st k \<and> (given_bit st = None \<longrightarrow> \<not> remembers eng k))"
  proof (cases st)
    case (Evaluation code current previous previous_active call)
    then show "result_fired (snd (state_step rnd st eng)) \<Longrightarrow> ?thesis"
      using evaluation_effect [OF Evaluation, of rnd eng] by (auto simp: result_fired_def result_level_def)
  qed (simp add: result_fired_def)
  show "remembers (fst (state_step rnd st eng)) k = (\<not> step_forgets st k \<and> (case result_level (snd (state_step rnd st eng)) of
      Some b \<Rightarrow> if step_key eng st = Some k then b else remembers eng k | None \<Rightarrow> remembers eng k))"
  proof (cases st)
    case (Evaluation code current previous previous_active call)
    from evaluation_effect [OF Evaluation, of rnd eng] show ?thesis
    proof (elim disjE exE conjE)
      fix e assume "snd (state_step rnd st eng) = Some (Raise e)" "fst (state_step rnd st eng) = eng"
      then show ?thesis by (simp add: result_level_def Evaluation del: state_step.simps)
    next
      fix r key assume "snd (state_step rnd st eng) = Some (Ok r)" "step_key eng st = Some key"
        "fst (state_step rnd st eng) = eng\<lparr>eng_last := dict_set key (sr_active r) (eng_last eng)\<rparr>"
      then show ?thesis by (simp add: result_level_def remembers_def Evaluation del: state_step.simps step_key.simps)
    qed
  next
    case (Reset stream)
    then show ?thesis by (simp add: result_level_def remembers_def reset_get)
  qed
qed

section \<open>No call on the default registry raises\<close>

definition safe :: "'a result \<Rightarrow> bool" where
  "safe r \<longleftrightarrow> (\<forall>e. r = Raise e \<longrightarrow> caught e)"

lemma safeI:
  "safe (Ok x)" "caught e \<Longrightarrow> safe (Raise e)"
  "safe m \<Longrightarrow> (\<And>x. safe (f x)) \<Longrightarrow> safe (ebind m f)" "safe m \<Longrightarrow> safe (emap g m)"
  "safe a \<Longrightarrow> safe b \<Longrightarrow> safe (if c then a else b)"
  by (auto simp: safe_def ebind_eq_Inl_iff)

lemma caught_simps [simp]:
  "caught (InvalidSnapshotError m)" "caught (TypeError m)" "caught (MissingStateValues m)"
  by (simp_all add: caught_def)

lemma safe_snapshot_float: "safe (snapshot_float rnd v f)"
  by (auto simp: snapshot_float_def safe_def dest: finite_or_raise split: sum.splits if_splits)

lemma safe_normalize_indicator: "safe (normalize_indicator v)"
  by (cases v) (simp_all add: normalize_indicator_def Let_def safeI)

lemma safe_normalize_entries: "safe (normalize_entries rnd f d acc)"
proof (induction d arbitrary: acc)
  case (Cons p d)
  obtain k v where p: "p = (k, v)" by (cases p)
  show ?case unfolding p by (cases k) (simp_all add: safeI safe_snapshot_float Cons.IH)
qed (simp add: safeI)

lemma safe_normalize_parameters: "safe (normalize_snapshot_parameters rnd d acc)"
proof (induction d arbitrary: acc)
  case (Cons p d)
  obtain k v where p: "p = (k, v)" by (cases p)
  show ?case unfolding p by (cases k) (simp_all add: safeI safe_snapshot_float Cons.IH)
qed (simp add: safeI)

lemma safe_normalize_values: "safe (normalize_values rnd v f)"
  by (cases v) (simp_all add: normalize_values_def safeI safe_normalize_entries)

lemma safe_freeze_mapping: "safe (freeze_mapping v f)"
  by (cases v) (simp_all add: freeze_mapping_def safeI)

lemma safe_parameters:
  "safe (case ps of VNone \<Rightarrow> Ok [] | VDict d \<Rightarrow> normalize_snapshot_parameters rnd d []
     | _ \<Rightarrow> Raise (TypeError m))"
  by (cases ps) (simp_all add: safeI safe_normalize_parameters)

lemma safe_snapshot: "safe (IndicatorSnapshot rnd i v it pv ps md)"
  unfolding IndicatorSnapshot_def check_indicator_match_def
  by (intro safeI safe_normalize_indicator safe_normalize_values safe_freeze_mapping safe_parameters) simp_all

lemma safe_as_snapshot: "safe (as_snapshot rnd v)"
proof (cases v)
  case (InMany d)
  then show ?thesis
    by (simp add: as_snapshot_def snapshot_from_mapping_def Let_def safe_snapshot)
next
  case (InValue x)
  then show ?thesis
    by (cases x) (simp_all add: as_snapshot_def snapshot_from_mapping_def Let_def safe_snapshot safeI)
qed (simp_all add: as_snapshot_def snapshot_from_result_def safe_snapshot safeI)

lemma safe_price_snapshot: "safe (PriceSnapshot rnd c p)"
  unfolding PriceSnapshot_def by (intro safeI safe_snapshot_float)

lemma safe_as_price: "safe (as_price rnd v p)"
proof (cases v)
  case (PriceValue x)
  then show ?thesis by (cases x) (simp_all add: as_price_def Let_def safeI safe_price_snapshot)
qed (simp add: as_price_def safeI safe_price_snapshot)

text \<open>An evaluator that raises only handled exceptions; the sound ones do.\<close>

definition safe_evaluator :: "state_evaluator \<Rightarrow> bool" where
  "safe_evaluator ev \<longleftrightarrow> (\<forall>c p price pp tol. safe (ev c p price pp tol))"

lemma sound_safe: "sound_evaluator ev \<Longrightarrow> safe_evaluator ev"
  by (fastforce simp: sound_evaluator_def safe_evaluator_def sound_result_def only_missing_def safe_def)

lemma attempt_total: "safe m \<Longrightarrow> (\<And>x. \<exists>y. f x = Ok y) \<Longrightarrow> \<exists>y. attempt m f = Ok y"
  by (cases m) (auto simp: attempt_def safe_def)

lemma observe_state_total:
  assumes "safe_evaluator (sd_evaluator d)"
  shows "\<exists>y. observe_state rnd d tol current previous call = Ok y"
proof -
  have "safe (ebind (as_price rnd (price_of_call call) (call_previous_price call)) (\<lambda>price.
      sd_evaluator d c p price (Option.bind price ps_previous) tol))" for c p
    using assms by (intro safeI safe_as_price) (simp add: safe_evaluator_def)
  then show ?thesis unfolding observe_state_def
    by (intro attempt_total safe_as_snapshot) (auto split: signal.split intro!: attempt_total safe_as_snapshot)
qed

lemma infer_previous_active_total:
  assumes "safe_evaluator (sd_evaluator d)"
  shows "\<exists>b. infer_previous_active rnd d previous tol = Ok b"
proof -
  have "safe (ebind (IndicatorSnapshot rnd (VStr (is_indicator previous)) (float_object pv) VNone VNone VNone VNone)
      (\<lambda>prior. sd_evaluator d previous prior None None tol))" for pv
    using assms by (intro safeI safe_snapshot) (simp add: safe_evaluator_def)
  then show ?thesis unfolding infer_previous_active_def safe_def
    by (auto split: option.split sum.split signal.split)
qed

lemma evaluate_state_total:
  assumes get: "state_get (eng_registry eng) code = Ok d" and ev: "safe_evaluator (sd_evaluator d)"
    and tol: "call_tolerance call = VNone"
  shows "\<exists>r. snd (evaluate_state rnd code current previous previous_active call eng) = Ok r \<and> sr_definition r = d"
proof -
  let ?tol = "eng_tolerance eng"
  obtain y where y: "observe_state rnd d ?tol current previous call = Ok y"
    using observe_state_total [OF ev] by blast
  let ?last = "dict_get (eng_last eng) (stream_key_of call d)"
  have w: "\<exists>b. was_active_before rnd d ps ?tol previous_active ?last = Ok b" for ps
    using infer_previous_active_total [OF ev] by (auto simp: was_active_before_def split: option.split)
  show ?thesis
  proof (cases y)
    case (Unavailable reason)
    then show ?thesis
      by (simp add: evaluate_state_def get resolve_tolerance_def tol y mark_inactive_def Let_def)
  next
    case (Observed q)
    obtain cs ps a e where q: "q = (cs, ps, a, e)" by (cases q)
    obtain b where "was_active_before rnd d ps ?tol previous_active ?last = Ok b" using w by blast
    with Observed q show ?thesis
      by (simp add: evaluate_state_def get resolve_tolerance_def tol y Let_def)
  qed
qed

lemma evaluate_state_registry [simp]:
  "eng_registry (fst (evaluate_state rnd code current previous previous_active call eng)) = eng_registry eng"
  using evaluate_state_effect [OF prod.collapse [symmetric], of rnd code current previous previous_active call eng]
  by (elim disjE exE conjE) simp_all

text \<open>A registry all of whose listed codes resolve to themselves, with handled exceptions only.\<close>

definition reliable :: "state_registry \<Rightarrow> bool" where
  "reliable reg \<longleftrightarrow> (\<forall>code \<in> set (reg_names reg). state_key code = code \<and>
     (\<exists>d. state_get reg code = Ok d \<and> sd_code d = code \<and> safe_evaluator (sd_evaluator d)))"

lemma evaluate_codes_total:
  assumes "reliable (eng_registry eng)" "set codes \<subseteq> set (reg_names (eng_registry eng))"
    and tol: "call_tolerance call = VNone"
  shows "eng_registry (fst (evaluate_codes rnd current previous call codes eng)) = eng_registry eng \<and>
    (\<exists>rs. snd (evaluate_codes rnd current previous call codes eng) = Ok rs \<and> map sr_code rs = codes)"
  using assms(1,2)
proof (induction codes arbitrary: eng)
  case (Cons code codes)
  let ?step = "evaluate_state rnd code current previous None call eng"
  from Cons.prems obtain d where d: "state_get (eng_registry eng) code = Ok d" "sd_code d = code"
    "safe_evaluator (sd_evaluator d)" by (auto simp: reliable_def)
  obtain r where r: "snd ?step = Ok r" "sr_definition r = d"
    using evaluate_state_total [OF d(1,3) tol] by blast
  then have step: "?step = (fst ?step, Ok r)" by (metis prod.collapse)
  have "eng_registry (fst (evaluate_codes rnd current previous call codes (fst ?step))) = eng_registry (fst ?step) \<and>
    (\<exists>rs. snd (evaluate_codes rnd current previous call codes (fst ?step)) = Ok rs \<and> map sr_code rs = codes)"
    using Cons.prems by (intro Cons.IH) auto
  with step r d show ?case
    by (subst evaluate_codes.simps, subst step) (auto simp: sr_code_def split: prod.split)
qed simp

lemma reliable_definitions:
  assumes "reliable reg"
  shows "\<exists>ds. state_definitions reg = Ok ds \<and> map sd_code ds = reg_names reg"
proof -
  let ?look = "\<lambda>code. case dict_get (reg_entries reg) code of Some d \<Rightarrow> Ok d | None \<Rightarrow> Raise (KeyError code)"
  have "\<exists>d. ?look code = Ok d \<and> sd_code d = code" if "code \<in> set (reg_names reg)" for code
  proof -
    from assms that obtain d where "state_key code = code" "state_get reg code = Ok d" "sd_code d = code"
      by (auto simp: reliable_def)
    with st.get_sound [of reg code d] show ?thesis by auto
  qed
  then obtain g where g: "\<And>code. code \<in> set (reg_names reg) \<Longrightarrow> ?look code = Ok (g code) \<and> sd_code (g code) = code"
    by metis
  then have "state_definitions reg = Ok (map g (reg_names reg))"
    unfolding state_definitions_def by (intro traverse_ok) blast
  moreover have "map sd_code (map g (reg_names reg)) = reg_names reg"
    using g by (simp add: map_idI)
  ultimately show ?thesis by blast
qed

lemma evaluate_snapshot_total:
  assumes rel: "reliable (eng_registry eng)" and tol: "call_tolerance call = VNone"
  shows "eng_registry (fst (evaluate_snapshot rnd current previous None call eng)) = eng_registry eng \<and>
    (\<exists>rs. snd (evaluate_snapshot rnd current previous None call eng) = Ok rs)"
proof (cases "as_snapshot rnd current")
  case (Inl e)
  then have "caught e" using safe_as_snapshot by (auto simp: safe_def)
  with Inl show ?thesis
    using evaluate_codes_total [OF rel _ tol, of "reg_names (eng_registry eng)" rnd current previous]
    by (auto simp: evaluate_snapshot_def state_codes_of_def)
next
  case (Inr cs)
  obtain ds where ds: "state_definitions (eng_registry eng) = Ok ds" "map sd_code ds = reg_names (eng_registry eng)"
    using reliable_definitions [OF rel] by blast
  let ?codes = "map sd_code (filter (\<lambda>d. sd_indicator_type d = is_indicator cs) ds)"
  have "set ?codes \<subseteq> set (reg_names (eng_registry eng))" unfolding ds(2) [symmetric] by auto
  from evaluate_codes_total [OF rel this tol, of rnd "InSnapshot cs" previous] Inr ds(1)
  show ?thesis by (auto simp: evaluate_snapshot_def)
qed

lemma evaluate_many_total:
  assumes rel: "reliable (eng_registry eng)" and tol: "call_tolerance call = VNone"
  shows "\<exists>rs. snd (evaluate_many rnd d previous None call eng) = Ok rs"
  using rel
proof (induction d arbitrary: eng)
  case (Cons p d)
  obtain k v where p: "p = (k, v)" by (cases p)
  let ?step = "evaluate_snapshot rnd (envelope k v) (envelope k (prior_for previous k)) None call eng"
  from evaluate_snapshot_total [OF Cons.prems tol] obtain rs where
    rs: "eng_registry (fst ?step) = eng_registry eng" "snd ?step = Ok rs" by blast
  then have step: "?step = (fst ?step, Ok rs)" by (metis prod.collapse)
  obtain rs' where "snd (evaluate_many rnd d previous None call (fst ?step)) = Ok rs'"
    using Cons.IH [of "fst ?step"] Cons.prems rs(1) by auto
  then show ?case unfolding p
    by (subst evaluate_many.simps, subst step) (auto split: prod.split)
qed simp

lemma default_registry_reliable:
  assumes "create_default_state_registry rnd = Ok reg"
  shows "reliable reg"
proof -
  have k: "state_key code = code" if "code \<in> set default_codes" for code
  proof -
    have "list_all label_ok default_codes" by (simp add: default_codes_def label_ok_def is_space_def)
    with that show ?thesis by (simp add: state_key_def label_ok list_all_iff)
  qed
  obtain names: "reg_names reg = default_codes"
    and look: "\<forall>code \<in> set default_codes. \<forall>m. state_key m = code \<longrightarrow>
       (\<exists>d. state_get reg m = Ok d \<and> sd_code d = code \<and> sound_evaluator (sd_evaluator d))"
    using default_state_registry_built [of rnd] assms by (auto simp: state_codes_of_def)
  have "\<exists>d. state_get reg code = Ok d \<and> sd_code d = code \<and> safe_evaluator (sd_evaluator d)"
    if "code \<in> set default_codes" for code
    using look k [OF that] that sound_safe by blast
  with k names show ?thesis unfolding reliable_def by simp
qed

section \<open>A sample engine\<close>

text \<open>One plugin state that is active while a value \<open>x\<close> is 1.\<close>

definition sample_state :: state_definition where
  "sample_state = \<lparr>sd_code = ''UP'', sd_name = ''up'', sd_level = ''INFO'', sd_indicator_type = ''RSI'',
     sd_metadata = VDict [(VStr ''mode'', VStr ''edge'')],
     sd_evaluator = (\<lambda>c _ _ _ _. Ok (BoolSignal (dict_get (is_values c) ''x'' = Some 1)))\<rparr>"

definition sample_engine :: engine where
  "sample_engine = \<lparr>eng_registry = \<lparr>reg_entries = [(''UP'', sample_state)], reg_names = [''UP'']\<rparr>,
     eng_tolerance = 0, eng_last = []\<rparr>"

definition sample_input :: "real \<Rightarrow> engine_input" where
  "sample_input x = InSnapshot \<lparr>is_indicator = ''RSI'', is_values = [(''x'', x)], is_previous = None,
     is_parameters = [], is_metadata = VDict []\<rparr>"

definition sample_step :: "string \<Rightarrow> real \<Rightarrow> engine_step" where
  "sample_step stream x = Evaluation ''UP'' (sample_input x) (sample_input 0) None (default_call\<lparr>call_stream := Some stream\<rparr>)"

lemma sample_get: "state_get (eng_registry sample_engine) ''UP'' = Ok sample_state"
  by (simp add: state_get_def sample_engine_def text_eval)

lemma sample_evaluate:
  assumes "eng_registry e = eng_registry sample_engine" "eng_tolerance e = eng_tolerance sample_engine"
  shows "state_step rnd (sample_step (c # cs) x) e =
    (e\<lparr>eng_last := dict_set (c # cs, ''UP'') (x = 1) (eng_last e)\<rparr>,
     Some (Ok \<lparr>sr_definition = sample_state, sr_active = (x = 1),
       sr_transition = (x = 1 \<and> dict_get (eng_last e) (c # cs, ''UP'') \<noteq> Some True), sr_reason = None,
       sr_values = [(''x'', x)]\<rparr>))"
  using sample_get unfolding sample_step_def state_step.simps evaluate_state_def assms(1)
  by (auto simp: resolve_tolerance_def default_call_def observe_state_def attempt_def sample_input_def
      as_snapshot_def sample_state_def as_price_def price_of_call_def was_active_before_def
      stream_key_of_def or_else_def infer_previous_active_def Let_def split: option.split)

lemma sample_key: "step_key sample_engine (sample_step (c # cs) x) = Some (c # cs, ''UP'')"
  using sample_get by (simp add: sample_step_def stream_key_of_def or_else_def sample_state_def default_call_def)

section \<open>Contract of the state engine\<close>

text \<open>
  C5: In any sequence of evaluations and resets on one engine, whatever other states and streams are
  evaluated in between, two transitions of the same state on the same stream are separated by an
  evaluation that found it inactive or by a reset that covers the stream, unless the caller of the
  second one passed "inactive" as the previous bit. A state that stays active is announced once, as
  long as the engine's own memory is used.
\<close>

theorem transitions_separated:
  assumes "i < j" "j < length steps"
    and "result_fired (run_steps (state_step rnd) steps eng ! i)"
    and "result_fired (run_steps (state_step rnd) steps eng ! j)"
    and "step_key eng (steps ! i) = Some key" "step_key eng (steps ! j) = Some key"
  shows "given_bit (steps ! j) = Some False \<or>
    (\<exists>n. i < n \<and> n < j \<and> (step_forgets (steps ! n) key \<or>
       step_key eng (steps ! n) = Some key \<and> result_level (run_steps (state_step rnd) steps eng ! n) = Some False))"
proof (cases "given_bit (steps ! j)")
  case None
  with eng.firings_separated [OF assms] show ?thesis by blast
next
  case (Some b)
  have "result_fired (snd (state_step rnd (steps ! j) (state_after (state_step rnd) (take j steps) eng)))"
    using assms(2,4) by (simp add: run_steps_nth)
  from fired_given [OF this] Some show ?thesis by (cases b) simp_all
qed

theorem transitions_separated_witness:
  "let steps = [sample_step ''a'' 1, sample_step ''a'' 0, sample_step ''a'' 1] in
   \<exists>n. 0 < n \<and> n < 2 \<and> (step_forgets (steps ! n) (''a'', ''UP'') \<or> step_key sample_engine (steps ! n) = Some (''a'', ''UP'') \<and>
     result_level (run_steps (state_step rnd64) steps sample_engine ! n) = Some False)"
proof -
  let ?steps = "[sample_step ''a'' 1, sample_step ''a'' 0, sample_step ''a'' 1]"
  have f: "result_fired (run_steps (state_step rnd64) ?steps sample_engine ! 0)"
    "result_fired (run_steps (state_step rnd64) ?steps sample_engine ! 2)"
    by (simp_all add: sample_evaluate result_fired_def) (simp_all add: sample_engine_def)
  have "given_bit (?steps ! 2) = None" by (simp add: sample_step_def)
  with transitions_separated [of 0 2 ?steps rnd64 sample_engine "(''a'', ''UP'')"] f show ?thesis
    unfolding Let_def by (simp add: sample_key)
qed

text \<open>
  Streams are isolated: evaluating one stream and state changes neither the outcome of a later evaluation
  for another nor what is remembered for another.
\<close>

theorem streams_independent:
  assumes "a = Evaluation code current previous given call" "step_key eng a \<noteq> step_key eng b"
  shows "snd (state_step rnd b (fst (state_step rnd a eng))) = snd (state_step rnd b eng) \<and>
    (\<forall>key. step_key eng a \<noteq> Some key \<longrightarrow> dict_get (eng_last (fst (state_step rnd a eng))) key = dict_get (eng_last eng) key)"
proof
  note eff = evaluation_effect [OF assms(1), of rnd eng]
  show "\<forall>key. step_key eng a \<noteq> Some key \<longrightarrow> dict_get (eng_last (fst (state_step rnd a eng))) key = dict_get (eng_last eng) key"
    using eff by auto
  have same: "eng_registry (fst (state_step rnd a eng)) = eng_registry eng" "eng_tolerance (fst (state_step rnd a eng)) = eng_tolerance eng"
    using eff by auto
  show "snd (state_step rnd b (fst (state_step rnd a eng))) = snd (state_step rnd b eng)"
  proof (cases b)
    case (Evaluation code' current' previous' bit' call')
    have "dict_get (eng_last (fst (state_step rnd a eng))) (stream_key_of call' d) = dict_get (eng_last eng) (stream_key_of call' d)"
      if "state_get (eng_registry eng) code' = Ok d" for d
      using eff assms(2) that by (auto simp: Evaluation)
    then have "snd (evaluate_state rnd code' current' previous' bit' call' (fst (state_step rnd a eng))) =
        snd (evaluate_state rnd code' current' previous' bit' call' eng)"
      using same by (intro evaluate_state_cong) simp_all
    then show ?thesis by (simp add: Evaluation case_prod_beta)
  qed simp
qed

text \<open>
  C24: A transition is never reported without grounds: both days were given and are valid
  snapshots of the definition's indicator, the registered evaluator answered with an active edge
  on exactly these snapshots, the caller did not pass the state as already active, and the
  result carries today's values.
\<close>

theorem transition_justified:
  assumes "evaluate_state rnd code current previous previous_active call eng = (eng', Ok r)" "sr_transition r"
  shows "\<exists>d tol cs ps price. state_get (eng_registry eng) code = Ok d \<and> resolve_tolerance rnd eng call = Ok tol \<and>
    previous \<noteq> InValue VNone \<and> as_snapshot rnd current = Ok cs \<and> as_snapshot rnd previous = Ok ps \<and>
    is_indicator cs = sd_indicator_type d \<and> is_indicator ps = sd_indicator_type d \<and>
    as_price rnd (price_of_call call) (call_previous_price call) = Ok price \<and>
    sd_evaluator d cs ps price (Option.bind price ps_previous) tol \<in> {Ok (StateSignal True True), Ok (BoolSignal True)} \<and>
    previous_active \<noteq> Some True \<and>
    (previous_active = None \<longrightarrow> \<not> remembers eng (stream_key_of call d)) \<and> sr_values r = is_values cs"
proof -
  from evaluate_state_effect [OF assms(1)] assms(2) have
    eff: "state_get (eng_registry eng) code = Ok (sr_definition r)" "previous_active \<noteq> Some True"
      "previous_active = None \<longrightarrow> \<not> remembers eng (stream_key_of call (sr_definition r))" by auto
  let ?d = "sr_definition r"
  from assms eff(1) obtain tol cs ps where tol: "resolve_tolerance rnd eng call = Ok tol"
    and obs: "observe_state rnd ?d tol current previous call = Ok (Observed (cs, ps, True, True))"
    and vals: "sr_values r = is_values cs"
    by (cases r) (auto simp: evaluate_state_def mark_inactive_def Let_def split: sum.splits outcome.splits)
  from obs have "as_snapshot rnd current = Ok cs" "previous \<noteq> InValue VNone" "as_snapshot rnd previous = Ok ps"
    "is_indicator cs = sd_indicator_type ?d" "is_indicator ps = sd_indicator_type ?d"
    "ebind (as_price rnd (price_of_call call) (call_previous_price call)) (\<lambda>price.
       sd_evaluator ?d cs ps price (Option.bind price ps_previous) tol) \<in> {Ok (StateSignal True True), Ok (BoolSignal True)}"
    unfolding observe_state_def attempt_def
    by (auto split: sum.splits if_splits signal.splits simp del: ebind_eq_Inr_iff)
  with eff tol vals show ?thesis by (auto simp del: ebind_simps)
qed

theorem transition_justified_witness:
  "\<exists>cs ps. as_snapshot rnd64 (sample_input 1) = Ok cs \<and> as_snapshot rnd64 (sample_input 0) = Ok ps \<and>
     is_indicator cs = is_indicator ps"
proof -
  let ?call = "default_call\<lparr>call_stream := Some ''a''\<rparr>"
  obtain e r where e: "evaluate_state rnd64 ''UP'' (sample_input 1) (sample_input 0) None ?call sample_engine = (e, Ok r)"
    and r: "sr_transition r"
    using sample_evaluate [of sample_engine rnd64 "CHR ''a''" "[]" 1]
    by (simp add: sample_step_def case_prod_beta') (simp add: sample_engine_def prod_eq_iff)
  from transition_justified [OF e r] show ?thesis by metis
qed

text \<open>
  Resetting forgets exactly what it should: with a stream, the remembered bits of that stream
  and no others; without one, all of them. Registry and tolerance stay.
\<close>

theorem reset_exact:
  "dict_get (eng_last (reset stream_id eng)) (s, code) =
     (case stream_id of None \<Rightarrow> None
      | Some prefix \<Rightarrow> if s = prefix then None else dict_get (eng_last eng) (s, code)) \<and>
   eng_registry (reset stream_id eng) = eng_registry eng \<and> eng_tolerance (reset stream_id eng) = eng_tolerance eng"
  by (simp add: reset_get split: option.split)

text \<open>
  C29: Bad data never stops a scheduler pass over the built-in states: on the default registry
  \<open>evaluate\<close> returns results for every input, however malformed, for a single snapshot as well
  as for a mapping by indicator.
\<close>

theorem default_engine_total:
  assumes "create_default_state_registry rnd = Ok (eng_registry eng)" "call_tolerance call = VNone"
  shows "\<exists>rs. snd (evaluate rnd current previous None call eng) = Ok rs"
proof -
  have rel: "reliable (eng_registry eng)" using assms(1) by (rule default_registry_reliable)
  show ?thesis
    using evaluate_snapshot_total [OF rel assms(2)] evaluate_many_total [OF rel assms(2)]
    by (auto simp: evaluate_def split: option.split)
qed

theorem default_engine_total_witness:
  "\<exists>reg rs. create_default_state_registry rnd64 = Ok reg \<and>
     snd (evaluate rnd64 (InValue (VDict [(VStr ''MA'', VInt 3)])) (InValue VNone) None default_call
       \<lparr>eng_registry = reg, eng_tolerance = 0, eng_last = []\<rparr>) = Ok rs"
proof -
  obtain reg where reg: "create_default_state_registry rnd64 = Ok reg"
    using default_state_registry_built [of rnd64] by blast
  then show ?thesis
    using default_engine_total [of rnd64 "\<lparr>eng_registry = reg, eng_tolerance = 0, eng_last = []\<rparr>" default_call]
    by (simp add: default_call_def)
qed

end
