(* ===== verification/Alerts.thy ===== *)
theory Alerts
  imports State_Types Edge_Trigger
begin

text \<open>
  Alert rules, observations and the edge-trigger evaluator (\<open>alerts/models.py\<close>,
  \<open>alerts/evaluator.py\<close>). The evaluator is stateless: the caller passes the persisted trigger
  state in and stores the one it gets back. The lemmas show that a rule survives its dictionary
  form, that evaluation against a persisted state always returns, and that notifications are
  exactly the rising edges of the condition.
\<close>

section \<open>Conditions\<close>

datatype alert_operator =
  GREATER_THAN_OR_EQUAL | GREATER_THAN | LESS_THAN_OR_EQUAL | LESS_THAN | EQUAL

definition operator_text :: "alert_operator \<Rightarrow> string" where
  "operator_text op = (case op of
      GREATER_THAN_OR_EQUAL \<Rightarrow> ''>='' | GREATER_THAN \<Rightarrow> ''>'' | LESS_THAN_OR_EQUAL \<Rightarrow> ''<=''
    | LESS_THAN \<Rightarrow> ''<'' | EQUAL \<Rightarrow> ''=='')"

definition finite_number :: "(real \<Rightarrow> real) \<Rightarrow> pyval \<Rightarrow> string \<Rightarrow> real result" where
  "finite_number rnd v field_name =
     (if \<not> is_real_number v then Raise (InvalidAlertRuleError (field_name @ '' must be a real number''))
      else case to_float rnd v of
          Inl _ \<Rightarrow> Raise (InvalidAlertRuleError (field_name @ '' must be a real number''))
        | Inr f \<Rightarrow> finite_or f (InvalidAlertRuleError (field_name @ '' must be finite'')))"

definition non_empty_text :: "pyval \<Rightarrow> string \<Rightarrow> string result" where
  "non_empty_text v field_name = (case v of
      VStr s \<Rightarrow> if strip s = [] then Raise (InvalidAlertRuleError (field_name @ '' must be a non-empty string''))
        else Ok (strip s)
    | _ \<Rightarrow> Raise (InvalidAlertRuleError (field_name @ '' must be a non-empty string'')))"

text \<open>Only text can be the text of an operator.\<close>

definition normalize_operator :: "pyval \<Rightarrow> alert_operator result" where
  "normalize_operator v =
     (let invalid = InvalidAlertRuleError ''operator must be one of: >=, >, <=, <, =='' in
      case v of
        VStr s \<Rightarrow> (case find (\<lambda>op. operator_text op = strip s)
            [GREATER_THAN_OR_EQUAL, GREATER_THAN, LESS_THAN_OR_EQUAL, LESS_THAN, EQUAL] of
          Some op \<Rightarrow> Ok op | None \<Rightarrow> Raise invalid)
      | _ \<Rightarrow> Raise invalid)"

text \<open>The two condition classes: a numeric comparison, or an active state.\<close>

datatype alert_condition = OnValue string alert_operator real | OnState string

definition ValueCondition :: "(real \<Rightarrow> real) \<Rightarrow> pyval \<Rightarrow> pyval \<Rightarrow> pyval \<Rightarrow> alert_condition result" where
  "ValueCondition rnd indicator operator threshold =
     ebind (non_empty_text indicator ''indicator'') (\<lambda>i.
     ebind (normalize_operator operator) (\<lambda>op.
     emap (OnValue i op) (finite_number rnd threshold ''threshold'')))"

definition condition_matches :: "(real \<Rightarrow> real) \<Rightarrow> alert_operator \<Rightarrow> real \<Rightarrow> pyval \<Rightarrow> bool result" where
  "condition_matches rnd operator threshold v =
     emap (\<lambda>current. case operator of
         GREATER_THAN_OR_EQUAL \<Rightarrow> current \<ge> threshold | GREATER_THAN \<Rightarrow> current > threshold
       | LESS_THAN_OR_EQUAL \<Rightarrow> current \<le> threshold | LESS_THAN \<Rightarrow> current < threshold
       | EQUAL \<Rightarrow> current = threshold)
     (finite_number rnd v ''value'')"

text \<open>Comparing two identifiers calls \<open>strip\<close> on both, which only text has.\<close>

definition text_strip :: "pyval \<Rightarrow> string result" where
  "text_strip v = (case v of VStr s \<Rightarrow> Ok (strip s) | _ \<Rightarrow> Raise (AttributeError (''object has no attribute '' @ repr_text ''strip'')))"

definition StateCondition :: "pyval \<Rightarrow> pyval \<Rightarrow> alert_condition result" where
  "StateCondition state_id state_code =
     ebind (if state_id \<noteq> VNone \<and> state_code \<noteq> VNone
            then ebind (text_strip state_id) (\<lambda>a. ebind (text_strip state_code) (\<lambda>b.
              if upper a \<noteq> upper b then Raise (InvalidAlertRuleError ''state_id and state_code do not match'') else Ok ()))
            else Ok ()) (\<lambda>_.
     emap OnState (non_empty_text (if state_id \<noteq> VNone then state_id else state_code) ''state_id''))"

section \<open>Rules\<close>

record alert_rule =
  ar_condition :: alert_condition
  ar_security_id :: pyval
  ar_enabled :: bool
  ar_rule_id :: pyval

text \<open>The \<open>condition\<close> argument: absent, a condition, or some other object.\<close>

datatype condition_argument = NoCondition | Given alert_condition | OtherCondition

definition flat_condition ::
  "(real \<Rightarrow> real) \<Rightarrow> pyval \<Rightarrow> pyval \<Rightarrow> pyval \<Rightarrow> pyval \<Rightarrow> pyval \<Rightarrow> pyval \<Rightarrow> alert_condition result"
where
  "flat_condition rnd condition_type indicator operator threshold state_id state_code =
     (let kind = (case condition_type of VStr s \<Rightarrow> upper (strip s) | _ \<Rightarrow> []) in
      if kind = ''VALUE''
      then if indicator = VNone \<or> operator = VNone \<or> threshold = VNone
           then Raise (InvalidAlertRuleError ''VALUE rules require indicator, operator, and threshold'')
           else ValueCondition rnd indicator operator threshold
      else if kind = ''STATE'' then StateCondition state_id state_code
      else Raise (InvalidAlertRuleError ''condition_type must be VALUE or STATE''))"

definition AlertRule ::
  "(real \<Rightarrow> real) \<Rightarrow> condition_argument \<Rightarrow> pyval \<Rightarrow> pyval \<Rightarrow> pyval \<Rightarrow> pyval \<Rightarrow> pyval \<Rightarrow> pyval \<Rightarrow> pyval \<Rightarrow>
     pyval \<Rightarrow> pyval \<Rightarrow> alert_rule result"
where
  "AlertRule rnd condition security_id enabled rule_id condition_type indicator operator threshold state_id state_code =
     ebind (case condition of
         Given c \<Rightarrow> if condition_type \<noteq> VNone
           then Raise (InvalidAlertRuleError ''condition and condition_type cannot both be provided'') else Ok c
       | OtherCondition \<Rightarrow> if condition_type \<noteq> VNone
           then Raise (InvalidAlertRuleError ''condition and condition_type cannot both be provided'')
           else Raise (InvalidAlertRuleError ''condition must be ValueCondition or StateCondition'')
       | NoCondition \<Rightarrow> if condition_type = VNone then Raise (InvalidAlertRuleError ''condition is required'')
           else flat_condition rnd condition_type indicator operator threshold state_id state_code) (\<lambda>c.
     case enabled of
       VBool b \<Rightarrow> Ok \<lparr>ar_condition = c, ar_security_id = security_id, ar_enabled = b, ar_rule_id = rule_id\<rparr>
     | _ \<Rightarrow> Raise (InvalidAlertRuleError ''enabled must be a boolean''))"

text \<open>\<open>value.get(name, fallback)\<close>.\<close>

definition get_or :: "(pyval \<times> pyval) list \<Rightarrow> string \<Rightarrow> pyval \<Rightarrow> pyval" where
  "get_or d name fallback = (case mapping_get d name of Some v \<Rightarrow> v | None \<Rightarrow> fallback)"

definition rule_from_mapping :: "(real \<Rightarrow> real) \<Rightarrow> pyval \<Rightarrow> alert_rule result" where
  "rule_from_mapping rnd v = (case v of
      VDict d \<Rightarrow> AlertRule rnd NoCondition (get_none d ''security_id'') (get_or d ''enabled'' (VBool True))
        (get_or d ''id'' (get_none d ''rule_id'')) (get_or d ''condition_type'' (get_none d ''type''))
        (get_none d ''indicator'') (get_none d ''operator'') (get_none d ''threshold'')
        (get_none d ''state_id'') (get_none d ''state_code'')
    | _ \<Rightarrow> Raise (InvalidAlertRuleError ''rule must be a mapping''))"

definition condition_type_text :: "alert_condition \<Rightarrow> string" where
  "condition_type_text c = (case c of OnValue _ _ _ \<Rightarrow> ''VALUE'' | OnState _ \<Rightarrow> ''STATE'')"

definition rule_to_dict :: "alert_rule \<Rightarrow> (string, pyval) dict" where
  "rule_to_dict r =
     [(''security_id'', ar_security_id r), (''condition_type'', VStr (condition_type_text (ar_condition r))),
      (''enabled'', VBool (ar_enabled r))] @
     (if ar_rule_id r \<noteq> VNone then [(''id'', ar_rule_id r)] else []) @
     (case ar_condition r of
        OnValue i op t \<Rightarrow> [(''indicator'', VStr i), (''operator'', VStr (operator_text op)), (''threshold'', VFloat (Fin t))]
      | OnState s \<Rightarrow> [(''state_id'', VStr s)])"

section \<open>Trigger states\<close>

datatype alert_status = ALERT_ACTIVE | ALERT_RESET

definition alert_status_text :: "alert_status \<Rightarrow> string" where
  "alert_status_text s = (case s of ALERT_ACTIVE \<Rightarrow> ''ACTIVE'' | ALERT_RESET \<Rightarrow> ''RESET'')"

definition status_of_text :: "string \<Rightarrow> alert_status option" where
  "status_of_text t = (if t = ''ACTIVE'' then Some ALERT_ACTIVE else if t = ''RESET'' then Some ALERT_RESET else None)"

record trigger_state = ts_status :: alert_status

definition AlertTriggerState :: "pyval \<Rightarrow> trigger_state result" where
  "AlertTriggerState status = (case (case status of VStr s \<Rightarrow> status_of_text s | _ \<Rightarrow> None) of
      Some st \<Rightarrow> Ok \<lparr>ts_status = st\<rparr> | None \<Rightarrow> Raise (InvalidAlertRuleError ''status must be ACTIVE or RESET''))"

definition ts_active :: "trigger_state \<Rightarrow> bool" where
  "ts_active s \<longleftrightarrow> ts_status s = ALERT_ACTIVE"

text \<open>\<open>previous_state\<close>: a trigger state, or a value a repository may hold for one.\<close>

datatype previous_state = PrevState trigger_state | PrevStatus alert_status | PrevValue pyval

definition trigger_from_value :: "previous_state \<Rightarrow> trigger_state result" where
  "trigger_from_value v = (case v of
      PrevValue VNone \<Rightarrow> Ok \<lparr>ts_status = ALERT_RESET\<rparr>
    | PrevState s \<Rightarrow> Ok s
    | PrevValue (VBool b) \<Rightarrow> Ok \<lparr>ts_status = (if b then ALERT_ACTIVE else ALERT_RESET)\<rparr>
    | PrevStatus st \<Rightarrow> Ok \<lparr>ts_status = st\<rparr>
    | PrevValue x \<Rightarrow> (case (case x of VStr s \<Rightarrow> status_of_text (upper s) | _ \<Rightarrow> None) of
        Some st \<Rightarrow> Ok \<lparr>ts_status = st\<rparr>
      | None \<Rightarrow> Raise (InvalidAlertRuleError ''previous state must be ACTIVE or RESET'')))"

section \<open>Observations\<close>

text \<open>\<open>states\<close>, a frozen set, is kept in the order of the mapping it is taken from.\<close>

record alert_observation =
  ob_values :: "(string, real) dict"
  ob_states :: "string list"
  ob_state_values :: "(string, bool) dict"
  ob_value :: "real option"
  ob_state_value :: "bool option"

text \<open>A rule error inside an observation is re-raised as an observation error.\<close>

definition as_observation_error :: "'a result \<Rightarrow> 'a result" where
  "as_observation_error r = (case r of
      Inl (InvalidAlertRuleError m) \<Rightarrow> Raise (InvalidAlertObservationError m) | _ \<Rightarrow> r)"

fun observation_values :: "(real \<Rightarrow> real) \<Rightarrow> (pyval \<times> pyval) list \<Rightarrow> (string, real) dict \<Rightarrow> (string, real) dict result" where
  "observation_values rnd [] acc = Ok acc"
| "observation_values rnd ((key, raw) # rest) acc = (case key of
      VStr s \<Rightarrow>
        if strip s = [] then Raise (InvalidAlertObservationError ''value indicator keys must be non-empty strings'')
        else ebind (as_observation_error (finite_number rnd raw (''values.'' @ s)))
               (\<lambda>x. observation_values rnd rest (dict_set (strip s) x acc))
    | _ \<Rightarrow> Raise (InvalidAlertObservationError ''value indicator keys must be non-empty strings''))"

fun state_mapping :: "(pyval \<times> pyval) list \<Rightarrow> (string, bool) dict \<Rightarrow> (string, bool) dict result" where
  "state_mapping [] acc = Ok acc"
| "state_mapping ((key, active) # rest) acc = (case key of
      VStr s \<Rightarrow>
        if strip s = [] then Raise (InvalidAlertObservationError ''state keys must be non-empty strings'')
        else (case active of
            VBool b \<Rightarrow> state_mapping rest (dict_set (strip s) b acc)
          | _ \<Rightarrow> Raise (InvalidAlertObservationError ''state values must be booleans''))
    | _ \<Rightarrow> Raise (InvalidAlertObservationError ''state keys must be non-empty strings''))"

fun state_collection :: "pyval list \<Rightarrow> (string, bool) dict \<Rightarrow> (string, bool) dict result" where
  "state_collection [] acc = Ok acc"
| "state_collection (code # rest) acc = (case code of
      VStr s \<Rightarrow>
        if strip s = [] then Raise (InvalidAlertObservationError ''state IDs must be non-empty strings'')
        else state_collection rest (dict_set (strip s) True acc)
    | _ \<Rightarrow> Raise (InvalidAlertObservationError ''state IDs must be non-empty strings''))"

text \<open>\<open>tuple(v)\<close>: what iterating a value yields; a text yields its characters.\<close>

definition iterated :: "pyval \<Rightarrow> pyval list option" where
  "iterated v = (case v of
      VList xs \<Rightarrow> Some xs | VTuple xs \<Rightarrow> Some xs | VSet xs \<Rightarrow> Some xs
    | VStr s \<Rightarrow> Some (map (\<lambda>c. VStr [c]) s) | _ \<Rightarrow> None)"

definition normalize_states :: "pyval \<Rightarrow> (string, bool) dict result" where
  "normalize_states states = (case states of
      VNone \<Rightarrow> Ok []
    | VDict d \<Rightarrow> state_mapping d []
    | _ \<Rightarrow> (case iterated states of
        None \<Rightarrow> Raise (InvalidAlertObservationError ''states must be a collection'')
      | Some codes \<Rightarrow> state_collection codes []))"

definition AlertObservation ::
  "(real \<Rightarrow> real) \<Rightarrow> pyval \<Rightarrow> pyval \<Rightarrow> pyval \<Rightarrow> pyval \<Rightarrow> pyval \<Rightarrow> alert_observation result"
where
  "AlertObservation rnd values states value current_value state_value =
     (if value \<noteq> VNone \<and> current_value \<noteq> VNone
      then Raise (InvalidAlertObservationError ''value and current_value cannot both be provided'')
      else
        ebind (case state_value of VNone \<Rightarrow> Ok None | VBool b \<Rightarrow> Ok (Some b)
            | _ \<Rightarrow> Raise (InvalidAlertObservationError ''state_value must be a boolean'')) (\<lambda>sv.
        ebind (case values of VNone \<Rightarrow> Ok [] | VDict d \<Rightarrow> observation_values rnd d []
            | _ \<Rightarrow> Raise (InvalidAlertObservationError ''values must be a mapping'')) (\<lambda>vs.
        ebind (normalize_states states) (\<lambda>sts.
        let scalar = (if value \<noteq> VNone then value else current_value) in
        emap (\<lambda>x. \<lparr>ob_values = vs, ob_states = map fst (filter snd sts), ob_state_values = sts,
            ob_value = x, ob_state_value = sv\<rparr>)
          (if scalar = VNone then Ok None
           else emap Some (as_observation_error (finite_number rnd scalar ''value'')))))))"

definition observation_reserved :: "string list" where
  "observation_reserved = [''states'', ''active_states'', ''value'', ''current_value'', ''previous_value'', ''state'',
     ''state_id'', ''state_code'', ''active'']"

definition is_bool :: "pyval \<Rightarrow> bool" where "is_bool v = (case v of VBool _ \<Rightarrow> True | _ \<Rightarrow> False)"
definition is_text :: "pyval \<Rightarrow> bool" where "is_text v = (case v of VStr _ \<Rightarrow> True | _ \<Rightarrow> False)"

definition observation_from_mapping :: "(real \<Rightarrow> real) \<Rightarrow> (pyval \<times> pyval) list \<Rightarrow> alert_observation result" where
  "observation_from_mapping rnd d =
     (let values = (if get_none d ''values'' = VNone then get_none d ''indicator_values'' else get_none d ''values'');
          states = get_or d ''states'' (get_none d ''active_states'');
          scalar = get_or d ''value'' (get_none d ''current_value'');
          state_value = (if get_none d ''state_value'' = VNone \<and> is_bool (get_none d ''state'')
            then get_none d ''state'' else get_none d ''state_value'');
          state_code = get_or d ''state_id'' (get_none d ''state_code'');
          active = get_none d ''active'';
          states' = (if states \<noteq> VNone then states
            else if is_text state_code \<and> is_bool active then VDict [(state_code, active)]
            else if is_text (get_none d ''state'') then VList [get_none d ''state''] else VNone);
          flattened = filter (\<lambda>p. is_text (fst p) \<and> fst p \<notin> VStr ` set observation_reserved) d;
          values' = (if values = VNone \<and> scalar = VNone
            then (if flattened = [] then VNone else VDict flattened) else values)
      in AlertObservation rnd values' states' scalar VNone state_value)"

section \<open>Evaluation\<close>

definition case_insensitive_lookup :: "(string, 'v) dict \<Rightarrow> string \<Rightarrow> 'v option" where
  "case_insensitive_lookup d key = (case dict_get d key of
      Some v \<Rightarrow> Some v
    | None \<Rightarrow> map_option snd (find (\<lambda>(candidate, _). casefold candidate = casefold key) d))"

datatype observation_input = ObservationObject alert_observation | ObservationValue pyval

definition bool_object :: "(string, bool) dict \<Rightarrow> pyval" where
  "bool_object d = as_object (map (\<lambda>(k, b). (k, VBool b)) d)"

definition normalize_observation ::
  "(real \<Rightarrow> real) \<Rightarrow> observation_input \<Rightarrow> pyval \<Rightarrow> pyval \<Rightarrow> alert_observation result"
where
  "normalize_observation rnd observation current_value active_states = (case observation of
      ObservationObject ob \<Rightarrow>
        if current_value \<noteq> VNone \<or> active_states \<noteq> VNone
        then Raise (InvalidAlertObservationError ''observation cannot be combined with current_value or active_states'')
        else Ok ob
    | ObservationValue v \<Rightarrow>
        if v = VNone then AlertObservation rnd VNone active_states current_value VNone VNone
        else (case v of
          VDict d \<Rightarrow> ebind (observation_from_mapping rnd d) (\<lambda>n.
            if current_value = VNone \<and> active_states = VNone then Ok n
            else AlertObservation rnd (float_object (ob_values n))
              (if active_states = VNone then bool_object (ob_state_values n) else active_states)
              (if current_value = VNone then (case ob_value n of None \<Rightarrow> VNone | Some x \<Rightarrow> VFloat (Fin x)) else current_value)
              VNone VNone)
        | VBool b \<Rightarrow>
            if active_states \<noteq> VNone
            then Raise (InvalidAlertObservationError ''observation cannot be combined with active_states'')
            else AlertObservation rnd VNone VNone current_value VNone (VBool b)
        | _ \<Rightarrow>
            if is_real_number v
            then if current_value \<noteq> VNone
                 then Raise (InvalidAlertObservationError ''observation cannot be combined with current_value'')
                 else AlertObservation rnd VNone active_states v VNone VNone
            else Raise (InvalidAlertObservationError ''observation must be a mapping, number, boolean, or None'')))"

definition state_satisfied :: "string \<Rightarrow> alert_observation \<Rightarrow> bool" where
  "state_satisfied state_id ob = (case ob_state_value ob of
      Some b \<Rightarrow> b
    | None \<Rightarrow> (case case_insensitive_lookup (ob_state_values ob) state_id of
        Some b \<Rightarrow> b
      | None \<Rightarrow> list_ex (\<lambda>code. casefold code = casefold state_id) (ob_states ob)))"

definition value_satisfied ::
  "(real \<Rightarrow> real) \<Rightarrow> string \<Rightarrow> alert_operator \<Rightarrow> real \<Rightarrow> alert_observation \<Rightarrow> bool result"
where
  "value_satisfied rnd indicator operator threshold ob =
     (case (case ob_value ob of Some x \<Rightarrow> Some x | None \<Rightarrow> case_insensitive_lookup (ob_values ob) indicator) of
        None \<Rightarrow> Ok False
      | Some x \<Rightarrow> condition_matches rnd operator threshold (VFloat (Fin x)))"

definition condition_satisfied :: "(real \<Rightarrow> real) \<Rightarrow> alert_condition \<Rightarrow> alert_observation \<Rightarrow> bool result" where
  "condition_satisfied rnd c ob = (case c of
      OnValue i op t \<Rightarrow> value_satisfied rnd i op t ob
    | OnState s \<Rightarrow> Ok (state_satisfied s ob))"

record alert_evaluation =
  ae_satisfied :: bool
  ae_triggered :: bool
  ae_state :: trigger_state
  ae_reason :: "string option"

definition reset_state :: trigger_state where "reset_state = \<lparr>ts_status = ALERT_RESET\<rparr>"

definition evaluate_alert ::
  "(real \<Rightarrow> real) \<Rightarrow> alert_rule \<Rightarrow> observation_input \<Rightarrow> previous_state \<Rightarrow> pyval \<Rightarrow> pyval \<Rightarrow> alert_evaluation result"
where
  "evaluate_alert rnd rule observation previous_state current_value active_states =
     ebind (trigger_from_value previous_state) (\<lambda>prior.
     if \<not> ar_enabled rule
     then Ok \<lparr>ae_satisfied = False, ae_triggered = False, ae_state = reset_state, ae_reason = Some ''disabled''\<rparr>
     else case ebind (normalize_observation rnd observation current_value active_states)
             (condition_satisfied rnd (ar_condition rule)) of
         Inl (InvalidAlertObservationError m) \<Rightarrow>
           Ok \<lparr>ae_satisfied = False, ae_triggered = False, ae_state = reset_state, ae_reason = Some m\<rparr>
       | Inl e \<Rightarrow> Raise e
       | Inr satisfied \<Rightarrow>
           Ok \<lparr>ae_satisfied = satisfied, ae_triggered = (satisfied \<and> \<not> ts_active prior),
             ae_state = \<lparr>ts_status = (if satisfied then ALERT_ACTIVE else ALERT_RESET)\<rparr>, ae_reason = None\<rparr>)"

section \<open>Evaluation against a persisted state returns\<close>

definition observation_error :: "'a result \<Rightarrow> bool" where
  "observation_error r \<longleftrightarrow> (\<forall>e. r = Raise e \<longrightarrow> (\<exists>m. e = InvalidAlertObservationError m))"

lemma observation_errorI:
  "observation_error (Ok x)" "observation_error (Raise (InvalidAlertObservationError m))"
  "observation_error m' \<Longrightarrow> (\<And>x. observation_error (f x)) \<Longrightarrow> observation_error (ebind m' f)"
  "observation_error m' \<Longrightarrow> observation_error (emap g m')"
  "observation_error a \<Longrightarrow> observation_error b \<Longrightarrow> observation_error (if c then a else b)"
  by (auto simp: observation_error_def ebind_eq_Inl_iff)

lemma finite_number_error: "finite_number rnd v f = Raise e \<Longrightarrow> \<exists>m. e = InvalidAlertRuleError m"
  by (auto simp: finite_number_def dest: finite_or_raise split: if_splits sum.splits)

lemma finite_number_float [simp]: "finite_number rnd (VFloat (Fin x)) f = Ok x"
  by (simp add: finite_number_def)

lemma observation_error_number: "observation_error (as_observation_error (finite_number rnd v f))"
  by (cases "finite_number rnd v f") (auto simp: as_observation_error_def observation_error_def dest!: finite_number_error)

lemma observation_error_values: "observation_error (observation_values rnd d acc)"
proof (induction d arbitrary: acc)
  case (Cons p d)
  obtain k v where p: "p = (k, v)" by (cases p)
  show ?case unfolding p by (cases k) (simp_all add: observation_errorI observation_error_number Cons.IH)
qed (simp add: observation_errorI)

lemma observation_error_mapping: "observation_error (state_mapping d acc)"
proof (induction d arbitrary: acc)
  case (Cons p d)
  obtain k v where p: "p = (k, v)" by (cases p)
  show ?case unfolding p by (cases k; cases v) (simp_all add: observation_errorI Cons.IH)
qed (simp add: observation_errorI)

lemma observation_error_collection: "observation_error (state_collection codes acc)"
proof (induction codes arbitrary: acc)
  case (Cons c codes)
  show ?case by (cases c) (simp_all add: observation_errorI Cons.IH)
qed (simp add: observation_errorI)

lemma observation_error_states: "observation_error (normalize_states v)"
  by (cases v) (simp_all add: normalize_states_def iterated_def observation_errorI
      observation_error_mapping observation_error_collection)

lemma observation_error_flag:
  "observation_error (case sv of VNone \<Rightarrow> Ok None | VBool b \<Rightarrow> Ok (Some b)
     | _ \<Rightarrow> Raise (InvalidAlertObservationError m))"
  by (cases sv) (simp_all add: observation_errorI)

lemma observation_error_values_argument:
  "observation_error (case v of VNone \<Rightarrow> Ok [] | VDict d \<Rightarrow> observation_values rnd d []
     | _ \<Rightarrow> Raise (InvalidAlertObservationError m))"
  by (cases v) (simp_all add: observation_errorI observation_error_values)

lemma observation_error_new: "observation_error (AlertObservation rnd vs sts v cv sv)"
  unfolding AlertObservation_def Let_def
  by (intro observation_errorI observation_error_flag observation_error_values_argument observation_error_states
      observation_error_number)

lemma observation_error_normalize: "observation_error (normalize_observation rnd ob cv sts)"
proof (cases ob)
  case (ObservationValue v)
  then show ?thesis unfolding normalize_observation_def
    by (cases v) (simp_all add: observation_errorI observation_error_new observation_from_mapping_def Let_def)
qed (simp add: normalize_observation_def observation_errorI)

lemma condition_satisfied_ok: "\<exists>b. condition_satisfied rnd c ob = Ok b"
  by (cases c) (auto simp: condition_satisfied_def value_satisfied_def condition_matches_def split: option.split)

lemma evaluate_alert_cases:
  assumes "trigger_from_value p = Ok prior"
  obtains (disabled) "\<not> ar_enabled rule"
      "evaluate_alert rnd rule ob p cv sts =
        Ok \<lparr>ae_satisfied = False, ae_triggered = False, ae_state = reset_state, ae_reason = Some ''disabled''\<rparr>"
    | (invalid) m where "ar_enabled rule" "normalize_observation rnd ob cv sts = Raise (InvalidAlertObservationError m)"
      "evaluate_alert rnd rule ob p cv sts =
        Ok \<lparr>ae_satisfied = False, ae_triggered = False, ae_state = reset_state, ae_reason = Some m\<rparr>"
    | (valid) n b where "ar_enabled rule" "normalize_observation rnd ob cv sts = Ok n"
      "condition_satisfied rnd (ar_condition rule) n = Ok b"
      "evaluate_alert rnd rule ob p cv sts =
        Ok \<lparr>ae_satisfied = b, ae_triggered = (b \<and> \<not> ts_active prior),
          ae_state = \<lparr>ts_status = (if b then ALERT_ACTIVE else ALERT_RESET)\<rparr>, ae_reason = None\<rparr>"
proof (cases "ar_enabled rule")
  case False
  with assms show ?thesis by (intro disabled) (simp_all add: evaluate_alert_def)
next
  case en: True
  show ?thesis
  proof (cases "normalize_observation rnd ob cv sts")
    case (Inl e)
    then obtain m where m: "e = InvalidAlertObservationError m"
      using observation_error_normalize [of rnd ob cv sts] by (auto simp: observation_error_def)
    with Inl en assms show ?thesis by (intro invalid [of m]) (simp_all add: evaluate_alert_def)
  next
    case (Inr n)
    obtain b where "condition_satisfied rnd (ar_condition rule) n = Ok b" using condition_satisfied_ok by blast
    with Inr en assms show ?thesis by (intro valid [of n b]) (simp_all add: evaluate_alert_def)
  qed
qed

section \<open>Runs of one rule\<close>

text \<open>
  One evaluation with the persisted state, as a step: the stored state and the evaluation.
  An exception would leave the stored state alone; there is none.
\<close>

type_synonym alert_input = "observation_input \<times> pyval \<times> pyval"

definition alert_step ::
  "(real \<Rightarrow> real) \<Rightarrow> alert_rule \<Rightarrow> alert_input \<Rightarrow> trigger_state \<Rightarrow> trigger_state \<times> alert_evaluation result"
where
  "alert_step rnd rule i s = (case i of (ob, cv, sts) \<Rightarrow>
     (case evaluate_alert rnd rule ob (PrevState s) cv sts of
        Inl e \<Rightarrow> (s, Raise e) | Inr ev \<Rightarrow> (ae_state ev, Ok ev)))"

definition alert_level :: "alert_evaluation result \<Rightarrow> bool option" where
  "alert_level r = (case r of Inl _ \<Rightarrow> None | Inr ev \<Rightarrow> Some (ae_satisfied ev))"

definition alert_fired :: "alert_evaluation result \<Rightarrow> bool" where
  "alert_fired r = (case r of Inl _ \<Rightarrow> False | Inr ev \<Rightarrow> ae_triggered ev)"

lemma alert_step_effect:
  "\<exists>ev. alert_step rnd rule i s = (ae_state ev, Ok ev) \<and> ts_active (ae_state ev) = ae_satisfied ev \<and>
     ae_triggered ev = (ae_satisfied ev \<and> \<not> ts_active s)"
proof -
  obtain ob cv sts where i: "i = (ob, cv, sts)" by (cases i)
  have "trigger_from_value (PrevState s) = Ok s" by (simp add: trigger_from_value_def)
  then show ?thesis
    by (cases rule: evaluate_alert_cases [where rnd = rnd and rule = rule and ob = ob and cv = cv and sts = sts])
      (simp_all add: alert_step_def i ts_active_def reset_state_def)
qed

interpretation al: edge_trigger "alert_step rnd rule" "\<lambda>_ _. Some ()" "\<lambda>s _. ts_active s" alert_level alert_fired
    "\<lambda>_. True" "\<lambda>_ _. False"
  for rnd rule
proof
  fix i s k
  show "alert_fired (snd (alert_step rnd rule i s)) \<Longrightarrow>
      alert_level (snd (alert_step rnd rule i s)) = Some True \<and> (\<exists>k. Some () = Some k \<and> \<not> False \<and> (True \<longrightarrow> \<not> ts_active s))"
    using alert_step_effect [of rnd rule i s] by (auto simp: alert_fired_def alert_level_def)
  show "ts_active (fst (alert_step rnd rule i s)) = (\<not> False \<and> (case alert_level (snd (alert_step rnd rule i s)) of
      Some b \<Rightarrow> if Some () = Some k then b else ts_active s | None \<Rightarrow> ts_active s))"
    using alert_step_effect [of rnd rule i s] by (auto simp: alert_level_def)
qed simp

section \<open>Lookup up to letter case\<close>

text \<open>When no two names differ only in case, the lookup is the lookup of the case-folded name.\<close>

lemma case_insensitive_lookup_fold:
  assumes "distinct (map casefold (dict_keys d))"
  shows "case_insensitive_lookup d key = dict_get (map (\<lambda>(k, v). (casefold k, v)) d) (casefold key)"
  using assms
proof (induction d)
  case (Cons p d)
  obtain k v where p: "p = (k, v)" by (cases p)
  show ?case
  proof (cases "casefold k = casefold key")
    case True
    have "dict_get d key = None"
    proof (rule ccontr)
      assume "dict_get d key \<noteq> None"
      then have "key \<in> fst ` set d" by (metis map_of_eq_None_iff)
      then have "casefold key \<in> set (map casefold (dict_keys d))" by auto
      with Cons.prems True p show False by simp
    qed
    with True p show ?thesis by (simp add: case_insensitive_lookup_def)
  next
    case False
    then have "k \<noteq> key" by auto
    have "case_insensitive_lookup (p # d) key = case_insensitive_lookup d key"
      using False \<open>k \<noteq> key\<close> p by (simp add: case_insensitive_lookup_def split: option.split)
    moreover have "case_insensitive_lookup d key = dict_get (map (\<lambda>(k, v). (casefold k, v)) d) (casefold key)"
      using Cons.prems by (intro Cons.IH) simp
    ultimately show ?thesis using False p by simp
  qed
qed (simp add: case_insensitive_lookup_def)

section \<open>Rules survive their dictionary form\<close>

definition condition_ok :: "alert_condition \<Rightarrow> bool" where
  "condition_ok c \<longleftrightarrow> (case c of OnValue i _ _ \<Rightarrow> strip i = i \<and> i \<noteq> [] | OnState s \<Rightarrow> strip s = s \<and> s \<noteq> [])"

lemma operator_roundtrip [simp]: "normalize_operator (VStr (operator_text op)) = Ok op"
  by (cases op) (simp_all add: normalize_operator_def operator_text_def text_eval Let_def)

lemma non_empty_text_ok: "non_empty_text v f = Ok t \<Longrightarrow> strip t = t \<and> t \<noteq> []"
  by (auto simp: non_empty_text_def split: pyval.splits if_splits)

lemma non_empty_text_id: "strip t = t \<Longrightarrow> t \<noteq> [] \<Longrightarrow> non_empty_text (VStr t) f = Ok t"
  by (simp add: non_empty_text_def)

lemma flat_condition_ok:
  assumes "flat_condition rnd ct i op t sid sc = Ok c" shows "condition_ok c"
proof -
  from assms have "ValueCondition rnd i op t = Ok c \<or> StateCondition sid sc = Ok c"
    by (auto simp: flat_condition_def Let_def split: if_splits)
  then show ?thesis
    by (auto simp: ValueCondition_def StateCondition_def condition_ok_def dest: non_empty_text_ok)
qed

lemma flat_rule_ok:
  assumes "AlertRule rnd NoCondition sec enabled rid ct i op t sid sc = Ok r"
  shows "condition_ok (ar_condition r)"
  using assms unfolding AlertRule_def
  by (cases enabled) (auto split: if_splits dest: flat_condition_ok)

lemma kind_literals: "upper (strip ''VALUE'') = ''VALUE''" "upper (strip ''STATE'') = ''STATE''"
  by (simp_all add: text_eval)

lemma rule_roundtrip:
  assumes "condition_ok (ar_condition r)"
  shows "rule_from_mapping rnd (as_object (rule_to_dict r)) = Ok r"
proof (cases "ar_condition r")
  case (OnValue i op t)
  with assms have i: "strip i = i" "i \<noteq> []" by (simp_all add: condition_ok_def)
  from OnValue show ?thesis
    by (cases r, cases "ar_rule_id r = VNone")
      (simp_all add: rule_from_mapping_def rule_to_dict_def as_object_def get_none_def get_or_def mapping_get_def
        condition_type_text_def AlertRule_def flat_condition_def kind_literals ValueCondition_def non_empty_text_id [OF i])
next
  case (OnState t)
  with assms have t: "strip t = t" "t \<noteq> []" by (simp_all add: condition_ok_def)
  from OnState show ?thesis
    by (cases r, cases "ar_rule_id r = VNone")
      (simp_all add: rule_from_mapping_def rule_to_dict_def as_object_def get_none_def get_or_def mapping_get_def
        condition_type_text_def AlertRule_def flat_condition_def kind_literals StateCondition_def non_empty_text_id [OF t])
qed

section \<open>What a condition says\<close>

text \<open>
  The meaning of a condition, apart from how it is evaluated: a comparison by the sign of the difference,
  a name by its exact spelling or else by the first spelling equal up to case.
\<close>

definition named_entry :: "(string \<times> 'v) list \<Rightarrow> string \<Rightarrow> 'v option" where
  "named_entry d name = (case filter (\<lambda>(k, v). k = name) d @ filter (\<lambda>(k, v). casefold k = casefold name) d of
     [] \<Rightarrow> None | (k, v) # rest \<Rightarrow> Some v)"

fun admitted_signs :: "alert_operator \<Rightarrow> real set" where
  "admitted_signs GREATER_THAN_OR_EQUAL = {0, 1}"
| "admitted_signs GREATER_THAN = {1}"
| "admitted_signs LESS_THAN_OR_EQUAL = {-1, 0}"
| "admitted_signs LESS_THAN = {-1}"
| "admitted_signs EQUAL = {0}"

definition condition_holds :: "alert_condition \<Rightarrow> alert_observation \<Rightarrow> bool" where
  "condition_holds c ob \<longleftrightarrow> (case c of
      OnValue i op t \<Rightarrow> \<exists>x. (ob_value ob = Some x \<or> ob_value ob = None \<and> named_entry (ob_values ob) i = Some x) \<and>
        sgn (x - t) \<in> admitted_signs op
    | OnState s \<Rightarrow> ob_state_value ob = Some True \<or> ob_state_value ob = None \<and>
        (named_entry (ob_state_values ob) s = Some True \<or>
         named_entry (ob_state_values ob) s = None \<and> casefold s \<in> casefold ` set (ob_states ob)))"

definition rule_holds :: "(real \<Rightarrow> real) \<Rightarrow> alert_rule \<Rightarrow> alert_input \<Rightarrow> bool" where
  "rule_holds rnd rule i \<longleftrightarrow> ar_enabled rule \<and> (case i of (ob, cv, sts) \<Rightarrow>
     \<exists>n. normalize_observation rnd ob cv sts = Ok n \<and> condition_holds (ar_condition rule) n)"

lemma lookup_named: "case_insensitive_lookup d name = named_entry d name"
proof (cases "dict_get d name")
  case None
  have first: "filter (\<lambda>(k, v). k = name) d = []" using None by (induction d) (auto split: if_splits)
  have "map_option snd (find (\<lambda>(k, v). casefold k = casefold name) d) =
    (case filter (\<lambda>(k, v). casefold k = casefold name) d of [] \<Rightarrow> None | (k, v) # rest \<Rightarrow> Some v)" by (induction d) auto
  then show ?thesis using None first by (simp add: case_insensitive_lookup_def named_entry_def)
next
  case (Some v)
  then have "\<exists>rest. filter (\<lambda>(k, v). k = name) d = (name, v) # rest" by (induction d) (auto split: if_splits)
  then show ?thesis using Some by (auto simp: case_insensitive_lookup_def named_entry_def)
qed

lemma sign_cases: "sgn (x - t :: real) = (if x < t then -1 else if x = t then 0 else 1)"
  by (simp add: sgn_real_def)

lemma condition_satisfied_holds: "condition_satisfied rnd c ob = Ok (condition_holds c ob)"
proof (cases c)
  case (OnValue i op t)
  have "condition_matches rnd op t (VFloat (Fin x)) = Ok (sgn (x - t) \<in> admitted_signs op)" for x
    by (cases op) (auto simp: condition_matches_def sign_cases)
  then show ?thesis
    by (auto simp: OnValue condition_satisfied_def value_satisfied_def condition_holds_def lookup_named split: option.split)
next
  case (OnState s)
  then show ?thesis
    by (auto simp: condition_satisfied_def state_satisfied_def condition_holds_def lookup_named list_ex_iff split: option.split)
      (metis imageI)
qed

lemma alert_step_holds: "\<exists>ev. alert_step rnd rule i s = (ae_state ev, Ok ev) \<and> ae_satisfied ev = rule_holds rnd rule i"
proof -
  obtain ob cv sts where i: "i = (ob, cv, sts)" by (cases i)
  have "trigger_from_value (PrevState s) = Ok s" by (simp add: trigger_from_value_def)
  then show ?thesis
    by (cases rule: evaluate_alert_cases [where rnd = rnd and rule = rule and ob = ob and cv = cv and sts = sts])
      (simp_all add: alert_step_def i rule_holds_def condition_satisfied_holds)
qed

section \<open>Contract of alerts\<close>

text \<open>What a notification stream should be: the positions where the condition becomes true.\<close>

fun rising_edges :: "bool \<Rightarrow> bool list \<Rightarrow> bool list" where
  "rising_edges previous [] = []"
| "rising_edges previous (b # bs) = (b \<and> \<not> previous) # rising_edges b bs"

text \<open>
  C8: Notifications are the rising edges of the condition: whatever observations arrive, valid or
  not, evaluating a rule over them with the stored state always returns, it finds the condition
  satisfied exactly when the rule is enabled, the observation is valid and the condition holds of it (its
  value, found by name up to case, compares as the operator says; its state is marked active),
  and it triggers exactly at the observations where the condition becomes true.
\<close>

theorem alert_notifications_are_edges:
  "\<exists>evs. run_steps (alert_step rnd rule) inputs s = map Ok evs \<and>
     map ae_satisfied evs = map (rule_holds rnd rule) inputs \<and>
     map ae_triggered evs = rising_edges (ts_active s) (map (rule_holds rnd rule) inputs)"
proof (induction inputs arbitrary: s)
  case (Cons i inputs)
  obtain ev where ev: "alert_step rnd rule i s = (ae_state ev, Ok ev)" "ts_active (ae_state ev) = ae_satisfied ev"
    "ae_triggered ev = (ae_satisfied ev \<and> \<not> ts_active s)"
    using alert_step_effect [of rnd rule i s] by blast
  then have holds: "ae_satisfied ev = rule_holds rnd rule i" using alert_step_holds [of rnd rule i s] by auto
  from Cons.IH [of "ae_state ev"] obtain evs where
    "run_steps (alert_step rnd rule) inputs (ae_state ev) = map Ok evs"
    "map ae_satisfied evs = map (rule_holds rnd rule) inputs"
    "map ae_triggered evs = rising_edges (ts_active (ae_state ev)) (map (rule_holds rnd rule) inputs)" by blast
  with ev holds show ?case by (intro exI [of _ "ev # evs"]) simp
qed simp

text \<open>
  A rule does not repeat itself: between two notifications there is an observation, valid or
  rejected, at which the condition counted as not satisfied.
\<close>

theorem alert_notifications_separated:
  assumes "i < j" "j < length inputs"
    and "alert_fired (run_steps (alert_step rnd rule) inputs s ! i)"
    and "alert_fired (run_steps (alert_step rnd rule) inputs s ! j)"
  shows "\<exists>n. i < n \<and> n < j \<and> alert_level (run_steps (alert_step rnd rule) inputs s ! n) = Some False"
  using al.firings_separated [OF assms refl] by blast

theorem alert_notifications_separated_witness:
  "\<exists>n. 0 < n \<and> n < 2 \<and> alert_level (run_steps (alert_step rnd64
      \<lparr>ar_condition = OnState ''UP'', ar_security_id = VInt 1, ar_enabled = True, ar_rule_id = VNone\<rparr>)
     [(ObservationValue (VBool True), VNone, VNone), (ObservationValue (VStr ''?''), VNone, VNone),
      (ObservationValue (VBool True), VNone, VNone)] reset_state ! n) = Some False"
  by (rule alert_notifications_separated)
    (simp_all add: alert_step_def evaluate_alert_def trigger_from_value_def normalize_observation_def
      AlertObservation_def normalize_states_def condition_satisfied_def state_satisfied_def ts_active_def
      reset_state_def alert_fired_def Let_def)

definition sample_rule :: alert_rule where
  "sample_rule = \<lparr>ar_condition = OnValue ''RSI'' GREATER_THAN 70, ar_security_id = VInt 1, ar_enabled = True, ar_rule_id = VNone\<rparr>"

definition sample_observation :: "real \<Rightarrow> alert_input" where
  "sample_observation x = (ObservationObject \<lparr>ob_values = [(''rsi'', x)], ob_states = [], ob_state_values = [], ob_value = None,
     ob_state_value = None\<rparr>, VNone, VNone)"

theorem alert_notifications_are_edges_witness:
  "\<exists>evs. run_steps (alert_step rnd64 sample_rule) [sample_observation 71, sample_observation 72, sample_observation 70] reset_state = map Ok evs \<and>
     map ae_triggered evs = [True, False, False]"
proof -
  have "rule_holds rnd64 sample_rule (sample_observation x) \<longleftrightarrow> x > 70" for x
    by (simp add: rule_holds_def sample_rule_def sample_observation_def normalize_observation_def condition_holds_def
        named_entry_def text_eval sign_cases)
  then have "rising_edges (ts_active reset_state) (map (rule_holds rnd64 sample_rule) [sample_observation 71, sample_observation 72, sample_observation 70])
      = [True, False, False]"
    by (simp add: ts_active_def reset_state_def)
  with alert_notifications_are_edges [of rnd64 sample_rule "[sample_observation 71, sample_observation 72, sample_observation 70]" reset_state]
  show ?thesis by metis
qed

text \<open>
  With a usable previous state, evaluation returns whatever the observation is. A disabled
  rule and a rejected observation reset the stored state and never notify; otherwise the stored
  state is the truth of the condition, and the rule notifies when it holds and did not before.
\<close>

theorem evaluate_alert_outcome:
  assumes "trigger_from_value p = Ok prior"
  shows "\<exists>ev. evaluate_alert rnd rule ob p cv sts = Ok ev \<and>
    (ae_triggered ev \<longleftrightarrow> ae_satisfied ev \<and> \<not> ts_active prior) \<and>
    (ts_active (ae_state ev) \<longleftrightarrow> ae_satisfied ev) \<and>
    (ae_reason ev \<noteq> None \<longrightarrow> \<not> ae_satisfied ev) \<and>
    (\<not> ar_enabled rule \<longrightarrow> ae_reason ev = Some ''disabled'') \<and>
    (ae_reason ev = None \<longleftrightarrow> ar_enabled rule \<and> (\<exists>n. normalize_observation rnd ob cv sts = Ok n))"
  using assms
  by (cases rule: evaluate_alert_cases [where rnd = rnd and rule = rule and ob = ob and cv = cv and sts = sts])
    (auto simp: ts_active_def reset_state_def)

theorem evaluate_alert_outcome_witness:
  "\<exists>ev. evaluate_alert rnd64
      \<lparr>ar_condition = OnState ''UP'', ar_security_id = VInt 1, ar_enabled = False, ar_rule_id = VNone\<rparr>
      (ObservationValue (VBool True)) (PrevValue (VStr ''active'')) VNone VNone = Ok ev \<and>
    \<not> ae_triggered ev \<and> ae_reason ev = Some ''disabled''"
proof -
  have "trigger_from_value (PrevValue (VStr ''active'')) = Ok \<lparr>ts_status = ALERT_ACTIVE\<rparr>"
    by (simp add: trigger_from_value_def status_of_text_def text_eval)
  from evaluate_alert_outcome [OF this, of rnd64
      "\<lparr>ar_condition = OnState ''UP'', ar_security_id = VInt 1, ar_enabled = False, ar_rule_id = VNone\<rparr>"
      "ObservationValue (VBool True)" VNone VNone]
  show ?thesis by (auto simp: ts_active_def)
qed

text \<open>
  A rule built from an API payload is restored exactly from its own dictionary form, so a
  stored rule never changes by being stored and loaded.
\<close>

theorem alert_rule_roundtrip:
  assumes "rule_from_mapping rnd v = Ok r"
  shows "rule_from_mapping rnd (as_object (rule_to_dict r)) = Ok r"
proof -
  from assms obtain d where "AlertRule rnd NoCondition (get_none d ''security_id'') (get_or d ''enabled'' (VBool True))
        (get_or d ''id'' (get_none d ''rule_id'')) (get_or d ''condition_type'' (get_none d ''type''))
        (get_none d ''indicator'') (get_none d ''operator'') (get_none d ''threshold'')
        (get_none d ''state_id'') (get_none d ''state_code'') = Ok r"
    by (cases v) (simp_all add: rule_from_mapping_def)
  then show ?thesis by (intro rule_roundtrip flat_rule_ok)
qed

theorem alert_rule_roundtrip_witness:
  "let r = \<lparr>ar_condition = OnValue ''RSI'' GREATER_THAN_OR_EQUAL 70, ar_security_id = VInt 7, ar_enabled = True,
     ar_rule_id = VInt 3\<rparr>
   in rule_from_mapping rnd64 (as_object (rule_to_dict r)) = Ok r"
proof -
  let ?r = "\<lparr>ar_condition = OnValue ''RSI'' GREATER_THAN_OR_EQUAL 70, ar_security_id = VInt 7, ar_enabled = True,
     ar_rule_id = VInt 3\<rparr>"
  have i: "strip '' RSI '' = ''RSI''" "upper (strip ''value'') = ''VALUE''" "strip ''>= '' = ''>=''"
    by (simp_all add: text_eval)
  have "rule_from_mapping rnd64 (as_object [(''type'', VStr ''value''), (''rule_id'', VInt 3), (''security_id'', VInt 7),
      (''indicator'', VStr '' RSI ''), (''operator'', VStr ''>= ''), (''threshold'', VFloat (Fin 70))]) = Ok ?r"
    by (simp add: rule_from_mapping_def as_object_def get_none_def get_or_def mapping_get_def AlertRule_def
        flat_condition_def ValueCondition_def non_empty_text_def normalize_operator_def operator_text_def i Let_def)
  from alert_rule_roundtrip [OF this] show ?thesis by simp
qed

text \<open>
  Alerts on states ignore letter case: when the observation has no two state names that
  differ only in case, the spelling of the rule's state does not matter.
\<close>

theorem state_alert_ignores_case:
  assumes "distinct (map casefold (dict_keys (ob_state_values ob)))" "casefold a = casefold b"
  shows "condition_satisfied rnd (OnState a) ob = condition_satisfied rnd (OnState b) ob"
proof -
  have "case_insensitive_lookup (ob_state_values ob) a = case_insensitive_lookup (ob_state_values ob) b"
    using assms by (simp only: case_insensitive_lookup_fold)
  then show ?thesis by (simp only: condition_satisfied_def state_satisfied_def assms(2) alert_condition.case)
qed

theorem state_alert_ignores_case_witness:
  "condition_satisfied rnd64 (OnState ''ma_cross_up'') \<lparr>ob_values = [], ob_states = [''MA_CROSS_UP''],
     ob_state_values = [(''MA_CROSS_UP'', True)], ob_value = None, ob_state_value = None\<rparr> =
   condition_satisfied rnd64 (OnState ''MA_CROSS_UP'') \<lparr>ob_values = [], ob_states = [''MA_CROSS_UP''],
     ob_state_values = [(''MA_CROSS_UP'', True)], ob_value = None, ob_state_value = None\<rparr>"
  by (rule state_alert_ignores_case) (simp_all add: text_eval)

end
