(* ===== verification/Notification_Message.thy ===== *)
theory Notification_Message
  imports Python_Values State_Types
begin

text \<open>
  The content of one alert notification (\<open>providers/notification/message.py\<close>) and how the
  delivery service reads it back from a stored row (\<open>_message_from_content\<close> of
  \<open>services/notification_service.py\<close>). Dates are calendar dates; printing and parsing ISO dates
  is the standard library's, a parameter with one law: parsing what was printed gives the date.
\<close>

section \<open>Messages\<close>

type_synonym date = int

record value_detail =
  vd_current :: "real option"
  vd_previous :: "real option"
  vd_change :: "fl option"

record notification_message =
  nm_stock_name :: string
  nm_stock_code :: string
  nm_indicator :: string
  nm_state :: "string option"
  nm_current :: "real option"
  nm_previous :: "real option"
  nm_change :: "fl option"
  nm_details :: "(string, value_detail) dict"
  nm_date :: date
  nm_event_id :: "string option"

definition message_number :: "(real \<Rightarrow> real) \<Rightarrow> pyval \<Rightarrow> string \<Rightarrow> real option result" where
  "message_number rnd v field_name =
     (if v = VNone then Ok None
      else if \<not> is_real_number v then Raise (ValueError (field_name @ '' must be a real number or None''))
      else case to_float rnd v of
          Inl _ \<Rightarrow> Raise (ValueError (field_name @ '' must be a real number''))
        | Inr f \<Rightarrow> emap Some (finite_or f (ValueError (field_name @ '' must be finite''))))"

definition message_text :: "pyval \<Rightarrow> string \<Rightarrow> string result" where
  "message_text v field_name = (case v of
      VStr s \<Rightarrow> if strip s = [] then Raise (ValueError (field_name @ '' must be a non-empty string'')) else Ok (strip s)
    | _ \<Rightarrow> Raise (ValueError (field_name @ '' must be a non-empty string'')))"

text \<open>The bounded identifier pattern \<open>[A-Za-z0-9:_-]{1,160}\<close>.\<close>

definition event_char :: "char \<Rightarrow> bool" where
  "event_char c = (let n = (of_char c :: nat) in
     65 \<le> n \<and> n \<le> 90 \<or> 97 \<le> n \<and> n \<le> 122 \<or> 48 \<le> n \<and> n \<le> 57 \<or> n = 58 \<or> n = 95 \<or> n = 45)"

definition event_id_ok :: "string \<Rightarrow> bool" where
  "event_id_ok s \<longleftrightarrow> 1 \<le> length s \<and> length s \<le> 160 \<and> list_all event_char s"

text \<open>A missing change is computed when both values are there; the difference may overflow.\<close>

definition fill_change :: "(real \<Rightarrow> real) \<Rightarrow> real option \<Rightarrow> real option \<Rightarrow> real option \<Rightarrow> fl option" where
  "fill_change rnd change current previous = (case change of
      Some x \<Rightarrow> Some (Fin x)
    | None \<Rightarrow> (case (current, previous) of
        (Some a, Some b) \<Rightarrow> Some (round_to_fl rnd (a - b)) | _ \<Rightarrow> None))"

fun message_details ::
  "(real \<Rightarrow> real) \<Rightarrow> (pyval \<times> pyval) list \<Rightarrow> (string, value_detail) dict \<Rightarrow> (string, value_detail) dict result"
where
  "message_details rnd [] acc = Ok acc"
| "message_details rnd ((raw_label, raw_values) # rest) acc =
     ebind (message_text raw_label ''value_details key'') (\<lambda>label.
     case raw_values of
       VDict d \<Rightarrow>
         ebind (message_number rnd (get_none d ''current_value'') (''value_details.'' @ label @ ''.current_value'')) (\<lambda>current.
         ebind (message_number rnd (get_none d ''previous_value'') (''value_details.'' @ label @ ''.previous_value'')) (\<lambda>previous.
         ebind (message_number rnd (get_none d ''change'') (''value_details.'' @ label @ ''.change'')) (\<lambda>change.
           message_details rnd rest (dict_set label \<lparr>vd_current = current, vd_previous = previous,
             vd_change = fill_change rnd change current previous\<rparr> acc))))
     | _ \<Rightarrow> Raise (ValueError ''value_details entries must be mappings''))"

text \<open>
  \<open>NotificationMessage.__init__\<close> as both callers use it: with \<open>stock_code\<close>, \<open>state\<close> and a
  calendar \<open>date\<close>, not with their aliases.
\<close>

definition NotificationMessage ::
  "(real \<Rightarrow> real) \<Rightarrow> pyval \<Rightarrow> pyval \<Rightarrow> pyval \<Rightarrow> pyval \<Rightarrow> pyval \<Rightarrow> pyval \<Rightarrow> pyval \<Rightarrow> pyval \<Rightarrow> date \<Rightarrow> pyval \<Rightarrow>
     notification_message result"
where
  "NotificationMessage rnd stock_name stock_code indicator state current previous change details on_date event_id =
     ebind (case event_id of
         VNone \<Rightarrow> Ok None
       | VStr s \<Rightarrow> if event_id_ok s then Ok (Some s) else Raise (ValueError ''event_id must be a bounded safe identifier'')
       | _ \<Rightarrow> Raise (ValueError ''event_id must be a bounded safe identifier'')) (\<lambda>event.
     if stock_code = VNone then Raise (ValueError ''stock_code is required'')
     else
       ebind (message_number rnd current ''current_value'') (\<lambda>c.
       ebind (message_number rnd previous ''previous_value'') (\<lambda>p.
       ebind (message_number rnd change ''change'') (\<lambda>ch.
       ebind (case details of VNone \<Rightarrow> Ok [] | VDict d \<Rightarrow> message_details rnd d []
           | _ \<Rightarrow> Raise (ValueError ''value_details must be a mapping'')) (\<lambda>ds.
       ebind (message_text stock_name ''stock_name'') (\<lambda>name.
       ebind (message_text stock_code ''stock_code'') (\<lambda>code.
       ebind (message_text indicator ''indicator'') (\<lambda>ind.
       emap (\<lambda>st. \<lparr>nm_stock_name = name, nm_stock_code = code, nm_indicator = ind, nm_state = st, nm_current = c,
           nm_previous = p, nm_change = fill_change rnd ch c p, nm_details = ds, nm_date = on_date, nm_event_id = event\<rparr>)
         (if state = VNone then Ok None else emap Some (message_text state ''state''))))))))))"

definition option_float :: "real option \<Rightarrow> pyval" where
  "option_float x = (case x of None \<Rightarrow> VNone | Some r \<Rightarrow> VFloat (Fin r))"

definition option_fl :: "fl option \<Rightarrow> pyval" where
  "option_fl x = (case x of None \<Rightarrow> VNone | Some f \<Rightarrow> VFloat f)"

definition option_text :: "string option \<Rightarrow> pyval" where
  "option_text x = (case x of None \<Rightarrow> VNone | Some s \<Rightarrow> VStr s)"

definition detail_to_dict :: "value_detail \<Rightarrow> pyval" where
  "detail_to_dict v = as_object [(''current_value'', option_float (vd_current v)),
     (''previous_value'', option_float (vd_previous v)), (''change'', option_fl (vd_change v))]"

definition message_to_dict :: "(date \<Rightarrow> string) \<Rightarrow> notification_message \<Rightarrow> (string, pyval) dict" where
  "message_to_dict isoformat m =
     [(''stock_name'', VStr (nm_stock_name m)), (''stock_code'', VStr (nm_stock_code m)),
      (''indicator'', VStr (nm_indicator m)), (''state'', option_text (nm_state m)),
      (''current_value'', option_float (nm_current m)), (''previous_value'', option_float (nm_previous m)),
      (''change'', option_fl (nm_change m)),
      (''value_details'', as_object (map (\<lambda>(k, v). (k, detail_to_dict v)) (nm_details m))),
      (''date'', VStr (isoformat (nm_date m)))] @
     (case nm_event_id m of None \<Rightarrow> [] | Some e \<Rightarrow> [(''event_id'', VStr e)])"

text \<open>Reading a stored row. A missing mandatory key is a \<open>KeyError\<close>, a bad date a \<open>ValueError\<close>.\<close>

definition get_required :: "(pyval \<times> pyval) list \<Rightarrow> string \<Rightarrow> pyval result" where
  "get_required d name = (case mapping_get d name of Some v \<Rightarrow> Ok v | None \<Rightarrow> Raise (KeyError name))"

definition message_from_content ::
  "(real \<Rightarrow> real) \<Rightarrow> (string \<Rightarrow> date option) \<Rightarrow> pyval \<Rightarrow> notification_message result"
where
  "message_from_content rnd fromisoformat content = (case content of
      VDict d \<Rightarrow> (case get_none d ''date'' of
        VStr raw_date \<Rightarrow>
          ebind (get_required d ''stock_name'') (\<lambda>name.
          ebind (get_required d ''stock_code'') (\<lambda>code.
          ebind (get_required d ''indicator'') (\<lambda>ind.
          case fromisoformat raw_date of
            None \<Rightarrow> Raise (ValueError ''Invalid isoformat string'')
          | Some on_date \<Rightarrow> NotificationMessage rnd name code ind (get_none d ''state'') (get_none d ''current_value'')
              (get_none d ''previous_value'') (get_none d ''change'') (get_none d ''value_details'') on_date
              (get_none d ''event_id''))))
      | _ \<Rightarrow> Raise (ValueError ''notification date is missing''))
    | _ \<Rightarrow> Raise (ValueError ''notification content must be an object''))"

section \<open>Well-formed messages\<close>

definition text_ok :: "string \<Rightarrow> bool" where
  "text_ok s \<longleftrightarrow> strip s = s \<and> s \<noteq> []"

text \<open>The computed change, unless given; it is finite unless the subtraction overflowed.\<close>

definition change_ok :: "real option \<Rightarrow> real option \<Rightarrow> fl option \<Rightarrow> bool" where
  "change_ok current previous change \<longleftrightarrow> (case change of
      None \<Rightarrow> current = None \<or> previous = None | Some f \<Rightarrow> (\<exists>r. f = Fin r))"

definition detail_ok :: "value_detail \<Rightarrow> bool" where
  "detail_ok v \<longleftrightarrow> change_ok (vd_current v) (vd_previous v) (vd_change v)"

definition message_ok :: "notification_message \<Rightarrow> bool" where
  "message_ok m \<longleftrightarrow> text_ok (nm_stock_name m) \<and> text_ok (nm_stock_code m) \<and> text_ok (nm_indicator m) \<and>
     (\<forall>s. nm_state m = Some s \<longrightarrow> text_ok s) \<and> (\<forall>e. nm_event_id m = Some e \<longrightarrow> event_id_ok e) \<and>
     change_ok (nm_current m) (nm_previous m) (nm_change m) \<and>
     distinct (dict_keys (nm_details m)) \<and> (\<forall>k \<in> set (dict_keys (nm_details m)). text_ok k) \<and>
     (\<forall>v \<in> snd ` set (nm_details m). detail_ok v)"

section \<open>Reading back what was stored\<close>

lemma message_text_id: "text_ok s \<Longrightarrow> message_text (VStr s) f = Ok s"
  by (simp add: message_text_def text_ok_def)

lemma message_number_id [simp]: "message_number rnd (option_float x) f = Ok x"
  by (cases x) (simp_all add: message_number_def option_float_def)

lemma message_number_change:
  assumes "change_ok c p ch"
  shows "\<exists>x. message_number rnd (option_fl ch) f = Ok x \<and> fill_change rnd x c p = ch"
proof (cases ch)
  case None
  with assms show ?thesis
    by (auto simp: message_number_def option_fl_def fill_change_def change_ok_def split: option.splits)
next
  case (Some g)
  with assms obtain r where "g = Fin r" by (auto simp: change_ok_def)
  with Some show ?thesis by (simp add: message_number_def option_fl_def fill_change_def)
qed

lemma detail_eta: "\<lparr>vd_current = vd_current v, vd_previous = vd_previous v, vd_change = vd_change v\<rparr> = v"
  by simp

lemma message_details_id:
  "distinct (dict_keys (acc @ ds)) \<Longrightarrow> (\<And>k. k \<in> set (dict_keys ds) \<Longrightarrow> text_ok k) \<Longrightarrow>
     (\<And>v. v \<in> snd ` set ds \<Longrightarrow> detail_ok v) \<Longrightarrow>
     message_details rnd (map (\<lambda>(k, v). (VStr k, detail_to_dict v)) ds) acc = Ok (acc @ ds)"
proof (induction ds arbitrary: acc)
  case (Cons x ds)
  obtain k v where x: "x = (k, v)" by (cases x)
  have k: "message_text (VStr k) ''value_details key'' = Ok k" using Cons.prems(2) x by (simp add: message_text_id)
  have "change_ok (vd_current v) (vd_previous v) (vd_change v)" using Cons.prems(3) x by (simp add: detail_ok_def)
  then obtain ch where ch: "message_number rnd (option_fl (vd_change v)) (''value_details.'' @ k @ ''.change'') = Ok ch"
    "fill_change rnd ch (vd_current v) (vd_previous v) = vd_change v"
    using message_number_change by blast
  have "message_details rnd (map (\<lambda>(k, v). (VStr k, detail_to_dict v)) ds) (acc @ [(k, v)]) = Ok ((acc @ [(k, v)]) @ ds)"
    using Cons.prems x by (intro Cons.IH) auto
  moreover have "k \<notin> set (dict_keys acc)" using Cons.prems(1) x by auto
  ultimately show ?case using k ch
    by (simp add: x detail_eta detail_to_dict_def as_object_def get_none_def mapping_get_def dict_set_new)
qed simp

lemma message_to_dict_get:
  "dict_get (message_to_dict isoformat m) ''state'' = Some (option_text (nm_state m))"
  "dict_get (message_to_dict isoformat m) ''current_value'' = Some (option_float (nm_current m))"
  "dict_get (message_to_dict isoformat m) ''previous_value'' = Some (option_float (nm_previous m))"
  "dict_get (message_to_dict isoformat m) ''change'' = Some (option_fl (nm_change m))"
  "dict_get (message_to_dict isoformat m) ''value_details'' =
     Some (as_object (map (\<lambda>(k, v). (k, detail_to_dict v)) (nm_details m)))"
  "dict_get (message_to_dict isoformat m) ''date'' = Some (VStr (isoformat (nm_date m)))"
  "dict_get (message_to_dict isoformat m) ''event_id'' = map_option VStr (nm_event_id m)"
  "dict_get (message_to_dict isoformat m) ''stock_name'' = Some (VStr (nm_stock_name m))"
  "dict_get (message_to_dict isoformat m) ''stock_code'' = Some (VStr (nm_stock_code m))"
  "dict_get (message_to_dict isoformat m) ''indicator'' = Some (VStr (nm_indicator m))"
  by (simp_all add: message_to_dict_def split: option.split)

lemma message_content_roundtrip:
  assumes ok: "message_ok m" and date: "fromisoformat (isoformat (nm_date m)) = Some (nm_date m)"
    and same: "\<And>k. k \<in> {''stock_name'', ''stock_code'', ''indicator'', ''state'', ''current_value'', ''previous_value'',
        ''change'', ''value_details'', ''date'', ''event_id''} \<Longrightarrow> dict_get d k = dict_get (message_to_dict isoformat m) k"
  shows "message_from_content rnd fromisoformat (as_object d) = Ok m"
proof -
  let ?d = "map (\<lambda>(k, v). (VStr k, v)) d"
  have look: "dict_get d ''state'' = Some (option_text (nm_state m))"
    "dict_get d ''current_value'' = Some (option_float (nm_current m))"
    "dict_get d ''previous_value'' = Some (option_float (nm_previous m))"
    "dict_get d ''change'' = Some (option_fl (nm_change m))"
    "dict_get d ''value_details'' = Some (as_object (map (\<lambda>(k, v). (k, detail_to_dict v)) (nm_details m)))"
    "dict_get d ''date'' = Some (VStr (isoformat (nm_date m)))"
    "dict_get d ''event_id'' = map_option VStr (nm_event_id m)"
    "dict_get d ''stock_name'' = Some (VStr (nm_stock_name m))"
    "dict_get d ''stock_code'' = Some (VStr (nm_stock_code m))"
    "dict_get d ''indicator'' = Some (VStr (nm_indicator m))"
    by ((rule trans [OF same], (simp; fail)), simp only: message_to_dict_get)+
  have opt: "get_none ?d ''state'' = option_text (nm_state m)" "get_none ?d ''current_value'' = option_float (nm_current m)"
    "get_none ?d ''previous_value'' = option_float (nm_previous m)" "get_none ?d ''change'' = option_fl (nm_change m)"
    "get_none ?d ''value_details'' = as_object (map (\<lambda>(k, v). (k, detail_to_dict v)) (nm_details m))"
    "get_none ?d ''date'' = VStr (isoformat (nm_date m))"
    "get_none ?d ''event_id'' = option_text (nm_event_id m)"
    by (simp_all add: get_none_def look option_text_def split: option.split)
  have req: "get_required ?d ''stock_name'' = Ok (VStr (nm_stock_name m))"
    "get_required ?d ''stock_code'' = Ok (VStr (nm_stock_code m))"
    "get_required ?d ''indicator'' = Ok (VStr (nm_indicator m))"
    by (simp_all add: get_required_def look)
  have "change_ok (nm_current m) (nm_previous m) (nm_change m)" using ok by (simp add: message_ok_def)
  from message_number_change [OF this, of rnd "''change''"] obtain ch where
    ch: "message_number rnd (option_fl (nm_change m)) ''change'' = Ok ch"
    "fill_change rnd ch (nm_current m) (nm_previous m) = nm_change m" by (elim exE conjE)
  have details: "message_details rnd (map (\<lambda>(k, v). (VStr k, detail_to_dict v)) (nm_details m)) [] = Ok (nm_details m)"
    by (rule message_details_id [of "[]" "nm_details m" rnd, unfolded append_Nil])
      (use ok in \<open>simp_all add: message_ok_def, auto\<close>)
  have obj: "as_object (map (\<lambda>(k, v). (k, detail_to_dict v)) (nm_details m)) =
      VDict (map (\<lambda>(k, v). (VStr k, detail_to_dict v)) (nm_details m))"
    by (simp add: as_object_def comp_def split_beta)
  have texts: "message_text (VStr (nm_stock_name m)) f = Ok (nm_stock_name m)"
    "message_text (VStr (nm_stock_code m)) f = Ok (nm_stock_code m)"
    "message_text (VStr (nm_indicator m)) f = Ok (nm_indicator m)" for f
    using ok by (simp_all add: message_ok_def message_text_id)
  have state: "(if option_text (nm_state m) = VNone then Ok None
      else emap Some (message_text (option_text (nm_state m)) ''state'')) = Ok (nm_state m)"
    using ok by (cases "nm_state m") (simp_all add: option_text_def message_ok_def message_text_id)
  have event: "(case option_text (nm_event_id m) of VNone \<Rightarrow> Ok None
       | VStr s \<Rightarrow> if event_id_ok s then Ok (Some s) else Raise (ValueError ''event_id must be a bounded safe identifier'')
       | _ \<Rightarrow> Raise (ValueError ''event_id must be a bounded safe identifier'')) = Ok (nm_event_id m)"
    using ok by (cases "nm_event_id m") (simp_all add: option_text_def message_ok_def)
  have "NotificationMessage rnd (VStr (nm_stock_name m)) (VStr (nm_stock_code m)) (VStr (nm_indicator m))
      (option_text (nm_state m)) (option_float (nm_current m)) (option_float (nm_previous m)) (option_fl (nm_change m))
      (as_object (map (\<lambda>(k, v). (k, detail_to_dict v)) (nm_details m))) (nm_date m) (option_text (nm_event_id m)) = Ok m"
    unfolding NotificationMessage_def event ebind_simps obj pyval.case details message_number_id ch texts state
    by simp
  then show ?thesis
    unfolding message_from_content_def as_object_def pyval.case opt req ebind_simps date option.case
    by (simp only: as_object_def)
qed

end
