(* ===== verification/Notifications.thy ===== *)
theory Notifications
  imports Notification_Message Edge_Trigger
begin

text \<open>
  The delivery of notifications (\<open>services/notification_service.py\<close>): the outbox row, its first
  dispatch, the automatic recovery with exponential back-off, the manual retry, and the commit of
  an outcome after an ambiguous failure. What the webhook call does is a parameter of each
  operation: it succeeds or raises an error with the attributes the service reads; the Feishu
  adapter's classification of an HTTP exchange (\<open>providers/notification/feishu.py\<close>) is modelled
  too. Instants are microseconds, naive timestamps count as UTC. Every operation runs under the
  row's lock and returns the row the database holds afterwards, what the caller gets (a row or an
  exception) and whether the provider was called; the fate of its commit is a parameter.
\<close>

section \<open>Provider errors\<close>

record delivery_error =
  de_timeout :: bool
  de_retryable :: bool
  de_status :: pyval
  de_business :: pyval
  de_class :: string

datatype send_outcome = SendOk | SendError delivery_error

text \<open>\<open>_safe_delivery_error\<close>: a code and a fixed message, nothing of the error's own text.\<close>

definition safe_delivery_error :: "delivery_error \<Rightarrow> string \<times> string" where
  "safe_delivery_error e =
     (let code = (case de_status e of
            VInt n \<Rightarrow> ''HTTP_'' @ int_str n
          | _ \<Rightarrow> (case de_business e of
              VInt n \<Rightarrow> ''FEISHU_'' @ int_str n
            | _ \<Rightarrow> if de_class e = ''FeishuWebhookError'' then ''FEISHU_ERROR'' else ''PROVIDER_ERROR''))
      in (take 64 code, ''Notification provider failed.''))"

definition transient :: "delivery_error \<Rightarrow> bool" where
  "transient e \<longleftrightarrow> de_timeout e \<or> de_retryable e \<or>
     (case de_status e of VInt n \<Rightarrow> n = 429 \<or> 500 \<le> n \<and> n \<le> 599 | _ \<Rightarrow> False)"

text \<open>
  \<open>FeishuWebhookProvider.send\<close> from the exchange on: the request may time out, fail or answer; an
  answer's body may not be JSON. Success is the number 0 under \<open>code\<close> or \<open>StatusCode\<close>.
\<close>

datatype http_exchange = TimedOut | RequestFailed | OtherFailure | Response pyval "pyval option"

definition feishu_error :: "pyval \<Rightarrow> pyval \<Rightarrow> bool \<Rightarrow> send_outcome" where
  "feishu_error status business retryable = SendError \<lparr>de_timeout = False, de_retryable = retryable, de_status = status,
     de_business = business, de_class = ''FeishuWebhookError''\<rparr>"

definition response_code :: "pyval \<Rightarrow> pyval option" where
  "response_code payload = (case payload of
      VDict d \<Rightarrow> (case mapping_get d ''code'' of Some c \<Rightarrow> Some c | None \<Rightarrow> mapping_get d ''StatusCode'')
    | _ \<Rightarrow> None)"

definition feishu_send :: "http_exchange \<Rightarrow> send_outcome" where
  "feishu_send x = (case x of
      TimedOut \<Rightarrow> feishu_error VNone VNone True
    | RequestFailed \<Rightarrow> feishu_error VNone VNone True
    | OtherFailure \<Rightarrow> feishu_error VNone VNone False
    | Response status body \<Rightarrow>
        if (case status of VInt n \<Rightarrow> 200 \<le> n \<and> n < 300 | _ \<Rightarrow> False)
        then (case body of
            None \<Rightarrow> feishu_error VNone VNone False
          | Some payload \<Rightarrow> (case response_code payload of
              None \<Rightarrow> feishu_error VNone VNone False
            | Some code \<Rightarrow> if code = VInt 0 then SendOk else feishu_error VNone code False))
        else feishu_error status VNone (case status of VInt n \<Rightarrow> n = 429 \<or> n \<ge> 500 | _ \<Rightarrow> False))"

section \<open>Rows\<close>

datatype notification_status = PENDING | SENT | FAILED

record notification =
  nt_id :: int
  nt_user_id :: int
  nt_status :: notification_status
  nt_content :: pyval
  nt_error_code :: "string option"
  nt_error_message :: "string option"
  nt_sent_at :: "int option"
  nt_attempt_count :: int
  nt_next_retry_at :: "int option"
  nt_created_at :: int

definition seconds :: "int \<Rightarrow> int" where "seconds n = n * 1000000"

definition MAX_AUTO_ATTEMPTS :: int where "MAX_AUTO_ATTEMPTS = 5"
definition RETRY_BASE_SECONDS :: int where "RETRY_BASE_SECONDS = 60"
definition PENDING_RECOVERY_WINDOW :: int where "PENDING_RECOVERY_WINDOW = seconds 300"

text \<open>The provider timeout of 5 seconds plus the database margin of 5.\<close>

definition validate_pending_recovery_window :: "int \<Rightarrow> int result" where
  "validate_pending_recovery_window window =
     (if window \<le> seconds 5 + seconds 5
      then Raise (ValueError ''pending recovery window must exceed provider timeout and DB margin'')
      else Ok window)"

definition is_notification_retryable :: "notification \<Rightarrow> int \<Rightarrow> int \<Rightarrow> bool result" where
  "is_notification_retryable n now window =
     emap (\<lambda>_. case nt_status n of
         FAILED \<Rightarrow> nt_error_code n \<noteq> Some ''INVALID_NOTIFICATION_CONTENT''
       | PENDING \<Rightarrow> now \<ge> nt_created_at n + window
       | SENT \<Rightarrow> False)
     (validate_pending_recovery_window window)"

text \<open>\<open>enqueue\<close>: the stored content is the message's dictionary with a title and an event id.\<close>

definition enqueue_content ::
  "(date \<Rightarrow> string) \<Rightarrow> notification_message \<Rightarrow> string \<Rightarrow> int \<Rightarrow> int \<Rightarrow> int \<Rightarrow> int option \<Rightarrow> (string, pyval) dict"
where
  "enqueue_content isoformat m title rule_version alert_rule_id security_id trigger_sequence =
     (let content = dict_set ''rule_version'' (VInt rule_version)
            (dict_set ''title'' (VStr title) (message_to_dict isoformat m))
      in case trigger_sequence of
           None \<Rightarrow> content
         | Some q \<Rightarrow> dict_set ''event_id'' (VStr (''alert:'' @ int_str alert_rule_id @ '':'' @ int_str security_id @
             '':'' @ int_str q)) content)"

definition enqueue ::
  "(date \<Rightarrow> string) \<Rightarrow> int \<Rightarrow> int \<Rightarrow> int \<Rightarrow> int \<Rightarrow> string \<Rightarrow> notification_message \<Rightarrow> int option \<Rightarrow> int \<Rightarrow> int \<Rightarrow> notification"
where
  "enqueue isoformat row_id user_id alert_rule_id security_id title m trigger_sequence rule_version created_at =
     \<lparr>nt_id = row_id, nt_user_id = user_id, nt_status = PENDING,
      nt_content = as_object (enqueue_content isoformat m title rule_version alert_rule_id security_id trigger_sequence),
      nt_error_code = None, nt_error_message = None, nt_sent_at = None, nt_attempt_count = 0,
      nt_next_retry_at = None, nt_created_at = created_at\<rparr>"

section \<open>One delivery attempt\<close>

text \<open>\<open>dict(content or {})\<close> without its \<open>error\<close> entry.\<close>

definition content_entries :: "pyval \<Rightarrow> (pyval \<times> pyval) list" where
  "content_entries c = (case c of VDict d \<Rightarrow> filter (\<lambda>p. fst p \<noteq> VStr ''error'') d | _ \<Rightarrow> [])"

definition deliver_existing :: "int \<Rightarrow> int \<Rightarrow> send_outcome \<Rightarrow> notification \<Rightarrow> notification" where
  "deliver_existing clock now outcome n =
     (let content = content_entries (nt_content n);
          attempt = nt_attempt_count n + 1;
          n' = n\<lparr>nt_attempt_count := attempt, nt_next_retry_at := None\<rparr>
      in case outcome of
        SendOk \<Rightarrow> n'\<lparr>nt_status := SENT, nt_error_code := None, nt_error_message := None, nt_sent_at := Some now,
          nt_content := VDict content\<rparr>
      | SendError e \<Rightarrow>
          (let (code, message) = safe_delivery_error e
           in n'\<lparr>nt_status := FAILED, nt_error_code := Some code, nt_error_message := Some message,
             nt_next_retry_at := (if transient e \<and> attempt < MAX_AUTO_ATTEMPTS
               then Some (clock + seconds (RETRY_BASE_SECONDS * 2 ^ nat (attempt - 1))) else None),
             nt_content := VDict (content @ [(VStr ''error'', as_object [(''code'', VStr code), (''message'', VStr message)])])\<rparr>))"

definition invalid_content :: "string \<Rightarrow> notification \<Rightarrow> notification" where
  "invalid_content message n = n\<lparr>nt_status := FAILED, nt_error_code := Some ''INVALID_NOTIFICATION_CONTENT'',
     nt_error_message := Some message, nt_next_retry_at := None\<rparr>"

section \<open>Committing an outcome\<close>

text \<open>
  A commit may succeed, fail, or succeed although the client sees an error. After an error the
  lock is gone until the row is read again, so another worker may have changed the row; what it
  did is a parameter, with \<open>None\<close> when the row cannot be read.
\<close>

datatype commit_outcome = Committed | RolledBack | CommittedUnseen

definition claim_of :: "notification \<Rightarrow> notification_status \<times> int \<times> string option \<times> int option" where
  "claim_of n = (nt_status n, nt_attempt_count n, nt_error_code n, nt_next_retry_at n)"

definition with_outcome :: "notification \<Rightarrow> notification \<Rightarrow> notification" where
  "with_outcome outcome persisted = persisted\<lparr>nt_status := nt_status outcome, nt_error_code := nt_error_code outcome,
     nt_error_message := nt_error_message outcome, nt_sent_at := nt_sent_at outcome, nt_content := nt_content outcome,
     nt_attempt_count := nt_attempt_count outcome, nt_next_retry_at := nt_next_retry_at outcome\<rparr>"

definition persistence_failed :: exn where
  "persistence_failed =
     ApiError ''NOTIFICATION_PERSISTENCE_FAILED'' ''Notification delivery outcome could not be saved.'' 503"

fun recover_commit ::
  "notification_status \<times> int \<times> string option \<times> int option \<Rightarrow> notification \<Rightarrow>
     ((notification \<Rightarrow> notification option) \<times> commit_outcome) list \<Rightarrow> notification \<Rightarrow> notification \<times> notification result"
where
  "recover_commit baseline outcome [] durable =
     (durable, Raise persistence_failed)"
| "recover_commit baseline outcome ((others, co) # rest) durable = (case others durable of
      None \<Rightarrow> recover_commit baseline outcome rest durable
    | Some persisted \<Rightarrow>
        if nt_status persisted \<noteq> PENDING \<and> claim_of persisted \<noteq> baseline then (persisted, Ok persisted)
        else case co of
            Committed \<Rightarrow> (with_outcome outcome persisted, Ok (with_outcome outcome persisted))
          | RolledBack \<Rightarrow> recover_commit baseline outcome rest persisted
          | CommittedUnseen \<Rightarrow> recover_commit baseline outcome rest (with_outcome outcome persisted))"

text \<open>\<open>_commit_delivery\<close>: the stored row before, the outcome, and what the database does.\<close>

definition commit_delivery ::
  "notification \<Rightarrow> notification \<Rightarrow> commit_outcome \<Rightarrow> (notification \<Rightarrow> notification option) \<times> commit_outcome \<Rightarrow>
     (notification \<Rightarrow> notification option) \<times> commit_outcome \<Rightarrow> notification \<times> notification result"
where
  "commit_delivery stored outcome co first second = (case co of
      Committed \<Rightarrow> (outcome, Ok outcome)
    | RolledBack \<Rightarrow> recover_commit (claim_of stored) outcome [first, second] stored
    | CommittedUnseen \<Rightarrow> recover_commit (claim_of stored) outcome [first, second] outcome)"

text \<open>
  What the operations that end in a commit return. \<open>settle\<close> is \<open>return await self._commit_delivery\<close>;
  a plain \<open>session.commit()\<close> lets the exception of the database driver through, here a
  \<open>RuntimeError\<close>, whether or not the changes were stored.
\<close>

record delivery_call =
  dc_window :: int
  dc_clock :: int
  dc_now :: int
  dc_outcome :: send_outcome
  dc_commit :: commit_outcome
  dc_first :: "(notification \<Rightarrow> notification option) \<times> commit_outcome"
  dc_second :: "(notification \<Rightarrow> notification option) \<times> commit_outcome"

type_synonym delivery = "notification \<times> notification result \<times> bool"

definition settle :: "delivery_call \<Rightarrow> notification \<Rightarrow> notification \<Rightarrow> bool \<Rightarrow> delivery" where
  "settle c stored outcome called =
     (case commit_delivery stored outcome (dc_commit c) (dc_first c) (dc_second c) of (durable, r) \<Rightarrow> (durable, r, called))"

definition plain_commit :: "delivery_call \<Rightarrow> notification \<Rightarrow> notification \<Rightarrow> delivery" where
  "plain_commit c stored changed = (case dc_commit c of
      Committed \<Rightarrow> (changed, Ok changed, False)
    | RolledBack \<Rightarrow> (stored, Raise (RuntimeError ''commit failed''), False)
    | CommittedUnseen \<Rightarrow> (changed, Raise (RuntimeError ''commit failed''), False))"

section \<open>Dispatch and retry\<close>

definition due_failure :: "int \<Rightarrow> notification \<Rightarrow> bool" where
  "due_failure now n \<longleftrightarrow> nt_status n = FAILED \<and> nt_attempt_count n < MAX_AUTO_ATTEMPTS \<and>
     (case nt_next_retry_at n of None \<Rightarrow> False | Some t \<Rightarrow> t \<le> now)"

definition old_pending :: "int \<Rightarrow> int \<Rightarrow> notification \<Rightarrow> bool" where
  "old_pending window now n \<longleftrightarrow> nt_status n = PENDING \<and> is_notification_retryable n now window = Ok True"

text \<open>
  The parameters of one call (\<open>delivery_call\<close>): the validated recovery window, the clock, the time
  read when a send succeeded, the outcome of the send, and the fate of the commits. Reading stored
  content raises only \<open>ValueError\<close> and \<open>KeyError\<close> (shown below), which both operations handle.
\<close>

definition dispatch ::
  "(real \<Rightarrow> real) \<Rightarrow> (string \<Rightarrow> date option) \<Rightarrow> bool \<Rightarrow> delivery_call \<Rightarrow> notification \<Rightarrow> delivery"
where
  "dispatch rnd fromisoformat recover c n =
     (if recover \<and> \<not> (due_failure (dc_clock c) n \<or> old_pending (dc_window c) (dc_clock c) n) then plain_commit c n n
      else
        let n' = (if recover then n\<lparr>nt_status := PENDING\<rparr> else n) in
        if nt_status n' \<noteq> PENDING then plain_commit c n n'
        else case message_from_content rnd fromisoformat (nt_content n') of
            Inl _ \<Rightarrow> settle c n (invalid_content ''Notification content cannot be delivered.'' n') False
          | Inr _ \<Rightarrow> settle c n (deliver_existing (dc_clock c) (dc_now c) (dc_outcome c) n') True)"

definition retry ::
  "(real \<Rightarrow> real) \<Rightarrow> (string \<Rightarrow> date option) \<Rightarrow> int \<Rightarrow> delivery_call \<Rightarrow> notification option \<Rightarrow>
     notification option \<times> notification result \<times> bool"
where
  "retry rnd fromisoformat user_id c found = (case found of
      None \<Rightarrow> (None, Raise (ApiError ''NOTIFICATION_NOT_FOUND'' ''Notification was not found.'' 404), False)
    | Some n \<Rightarrow>
        if nt_user_id n \<noteq> user_id
        then (Some n, Raise (ApiError ''NOTIFICATION_NOT_FOUND'' ''Notification was not found.'' 404), False)
        else if nt_status n = SENT then (Some n, Ok n, False)
        else case (if nt_status n = PENDING then is_notification_retryable n (dc_clock c) (dc_window c) else Ok True) of
          Inl e \<Rightarrow> (Some n, Raise e, False)
        | Inr ok \<Rightarrow>
          if \<not> ok
          then (Some n, Raise (ApiError ''NOTIFICATION_RETRY_CONFLICT'' ''Notification delivery is still in progress.'' 409),
            False)
          else case message_from_content rnd fromisoformat (nt_content n) of
              Inl _ \<Rightarrow> map_prod Some id (plain_commit c n (invalid_content ''Notification content cannot be retried.'' n))
            | Inr _ \<Rightarrow> map_prod Some id (settle c n (deliver_existing (dc_clock c) (dc_now c) (dc_outcome c)
                (n\<lparr>nt_status := PENDING, nt_error_code := None, nt_error_message := None,
                   nt_content := VDict (content_entries (nt_content n))\<rparr>)) True))"

text \<open>
  \<open>_deliver_new\<close>: the first delivery of a committed row; a terminal result already there wins.
\<close>

definition deliver_new :: "delivery_call \<Rightarrow> notification \<Rightarrow> delivery" where
  "deliver_new c n = (if nt_status n \<noteq> PENDING then (n, Ok n, False)
     else settle c n (deliver_existing (dc_clock c) (dc_now c) (dc_outcome c) n) True)"

section \<open>Summaries\<close>

definition summarize_deliveries :: "(int, notification) dict \<Rightarrow> int list \<Rightarrow> (nat \<times> nat \<times> nat \<times> nat) result" where
  "summarize_deliveries rows ids =
     (let unique_ids = rev (remdups (rev ids)) in
      emap (\<lambda>found. let with_status = (\<lambda>st. length (filter (\<lambda>n. nt_status n = st) found))
         in (length unique_ids, with_status SENT, with_status FAILED, with_status PENDING))
       (traverse (\<lambda>i. case dict_get rows i of Some n \<Rightarrow> Ok n
          | None \<Rightarrow> Raise (ValueError ''notification delivery record is missing'')) unique_ids))"

section \<open>Reading content raises handled exceptions only\<close>

definition content_error :: "'a result \<Rightarrow> bool" where
  "content_error r \<longleftrightarrow> (\<forall>e. r = Raise e \<longrightarrow> (\<exists>m. e = ValueError m \<or> e = KeyError m))"

lemma content_errorI:
  "content_error (Ok x)" "content_error (Raise (ValueError m))" "content_error (Raise (KeyError m))"
  "content_error a \<Longrightarrow> (\<And>x. content_error (f x)) \<Longrightarrow> content_error (ebind a f)"
  "content_error a \<Longrightarrow> content_error (emap g a)"
  "content_error a \<Longrightarrow> content_error b \<Longrightarrow> content_error (if c then a else b)"
  by (auto simp: content_error_def ebind_eq_Inl_iff)

lemma content_error_parts:
  "content_error (message_text v f)" "content_error (message_number rnd v f)" "content_error (get_required d k)"
proof -
  show "content_error (message_text v f)" by (cases v) (simp_all add: message_text_def content_errorI)
  show "content_error (message_number rnd v f)"
    by (auto simp: message_number_def content_error_def dest: finite_or_raise split: sum.splits if_splits)
  show "content_error (get_required d k)" by (simp add: get_required_def content_errorI split: option.split)
qed

lemma content_error_details: "content_error (message_details rnd d acc)"
proof (induction d arbitrary: acc)
  case (Cons p d)
  obtain k v where p: "p = (k, v)" by (cases p)
  show ?case unfolding p message_details.simps
    by (intro content_errorI content_error_parts) (cases v, simp_all add: content_errorI content_error_parts Cons.IH)
qed (simp add: content_errorI)

lemma content_error_event:
  "content_error (case event_id of VNone \<Rightarrow> Ok None
     | VStr s \<Rightarrow> if event_id_ok s then Ok (Some s) else Raise (ValueError m) | _ \<Rightarrow> Raise (ValueError m))"
  by (cases event_id) (simp_all add: content_errorI)

lemma content_error_details_argument:
  "content_error (case details of VNone \<Rightarrow> Ok [] | VDict d \<Rightarrow> message_details rnd d [] | _ \<Rightarrow> Raise (ValueError m))"
  by (cases details) (simp_all add: content_errorI content_error_details)

lemma content_error_message: "content_error (NotificationMessage rnd a b c d e f g h i j)"
  unfolding NotificationMessage_def
  by (intro content_errorI content_error_parts content_error_event content_error_details_argument)

lemma message_from_content_errors: "content_error (message_from_content rnd fromisoformat content)"
proof (cases content)
  case (VDict d)
  show ?thesis unfolding message_from_content_def VDict pyval.case
    by (cases "get_none d ''date''")
      (simp_all add: content_errorI content_error_parts content_error_message split: option.split)
qed (simp_all add: message_from_content_def content_errorI)

section \<open>The life of a row\<close>

text \<open>
  What may happen to a stored row: a dispatch, first or recovering, or a manual retry. A step
  reports whether the provider was called and what the caller got.
\<close>

datatype delivery_event = Dispatch bool delivery_call | Retry int delivery_call

fun event_call :: "delivery_event \<Rightarrow> delivery_call" where
  "event_call (Dispatch _ c) = c"
| "event_call (Retry _ c) = c"

fun is_automatic :: "delivery_event \<Rightarrow> bool" where
  "is_automatic (Dispatch _ _) = True"
| "is_automatic (Retry _ _) = False"

type_synonym delivery_report = "delivery_event \<times> notification result \<times> bool"

fun delivery_step ::
  "(real \<Rightarrow> real) \<Rightarrow> (string \<Rightarrow> date option) \<Rightarrow> delivery_event \<Rightarrow> notification \<Rightarrow> notification \<times> delivery_report"
where
  "delivery_step rnd fromiso (Dispatch recover c) n =
     (let (durable, r, called) = dispatch rnd fromiso recover c n in (durable, (Dispatch recover c, r, called)))"
| "delivery_step rnd fromiso (Retry user c) n =
     (let (durable, r, called) = retry rnd fromiso user c (Some n) in (the durable, (Retry user c, r, called)))"

fun called :: "delivery_report \<Rightarrow> bool" where "called (_, _, b) = b"

fun reported :: "delivery_report \<Rightarrow> notification result" where "reported (_, r, _) = r"

definition succeeded :: "delivery_report \<Rightarrow> bool" where
  "succeeded x \<longleftrightarrow> called x \<and> dc_outcome (event_call (fst x)) = SendOk"

definition auto_called :: "delivery_report \<Rightarrow> bool" where
  "auto_called x \<longleftrightarrow> called x \<and> is_automatic (fst x)"

definition commits :: "delivery_event \<Rightarrow> bool" where
  "commits ev \<longleftrightarrow> dc_commit (event_call ev) = Committed"

text \<open>
  The row invariant: a row waiting for its first delivery has no attempts, and a scheduled
  automatic retry belongs to a failed row with attempts left.
\<close>

definition row_inv :: "notification \<Rightarrow> bool" where
  "row_inv n \<longleftrightarrow> 0 \<le> nt_attempt_count n \<and> (nt_status n = PENDING \<longrightarrow> nt_attempt_count n = 0) \<and>
     (nt_next_retry_at n \<noteq> None \<longrightarrow> nt_status n = FAILED \<and> nt_attempt_count n < MAX_AUTO_ATTEMPTS)"

lemma deliver_existing_facts:
  "nt_attempt_count (deliver_existing clock now out n) = nt_attempt_count n + 1"
  "nt_status (deliver_existing clock now out n) = (case out of SendOk \<Rightarrow> SENT | SendError _ \<Rightarrow> FAILED)"
  "nt_next_retry_at (deliver_existing clock now out n) = (case out of SendOk \<Rightarrow> None
     | SendError e \<Rightarrow> if transient e \<and> nt_attempt_count n + 1 < MAX_AUTO_ATTEMPTS
         then Some (clock + seconds (RETRY_BASE_SECONDS * 2 ^ nat (nt_attempt_count n))) else None)"
  by (simp_all add: deliver_existing_def Let_def split_beta split: send_outcome.split)

lemma auto_called_pair [simp]: "auto_called (ev, r, b) \<longleftrightarrow> b \<and> is_automatic ev"
  by (simp add: auto_called_def)

lemma invalid_content_facts [simp]:
  "nt_attempt_count (invalid_content m n) = nt_attempt_count n" "nt_status (invalid_content m n) = FAILED"
  "nt_next_retry_at (invalid_content m n) = None"
  by (simp_all add: invalid_content_def)

lemma settle_called [simp]: "snd (snd (settle c stored outcome b)) = b"
  by (simp add: settle_def split_beta)

lemma settle_pair: "\<exists>d r. settle c stored outcome b = (d, r, b)"
  by (simp add: settle_def split_beta)

lemma plain_commit_pair:
  "\<exists>d r. plain_commit c stored changed = (d, r, False) \<and> (dc_commit c = Committed \<longrightarrow> d = changed)"
  by (simp add: plain_commit_def split: commit_outcome.split)

lemma plain_commit_called [simp]: "snd (snd (plain_commit c stored changed)) = False"
  by (simp add: plain_commit_def split: commit_outcome.split)

text \<open>
  What saving an outcome may end with: it is stored, or another worker's terminal row is kept, or
  the caller learns that it may not be stored.
\<close>

lemma recover_commit_result:
  assumes "recover_commit baseline outcome cs durable = (d, r)"
  shows "r = Raise persistence_failed \<or> r = Ok d \<and> (nt_status d = nt_status outcome \<or>
    nt_status d \<noteq> PENDING \<and> claim_of d \<noteq> baseline \<and> (\<exists>x \<in> set cs. \<exists>y. fst x y = Some d))"
  using assms
proof (induction baseline outcome cs durable rule: recover_commit.induct)
  case (2 baseline outcome others co rest durable)
  show ?case
  proof (cases "others durable")
    case None
    with 2 show ?thesis by fastforce
  next
    case (Some p)
    show ?thesis
    proof (cases "nt_status p \<noteq> PENDING \<and> claim_of p \<noteq> baseline")
      case True
      with 2 Some show ?thesis by auto
    next
      case False
      with 2 Some show ?thesis by (cases co) (fastforce simp: with_outcome_def)+
    qed
  qed
qed simp

lemma commit_delivery_result:
  assumes "commit_delivery stored outcome co first second = (d, r)"
  shows "co = Committed \<and> d = outcome \<and> r = Ok outcome \<or> co \<noteq> Committed \<and>
    (r = Raise persistence_failed \<or> r = Ok d \<and> (nt_status d = nt_status outcome \<or>
       nt_status d \<noteq> PENDING \<and> claim_of d \<noteq> claim_of stored \<and> (\<exists>y. fst first y = Some d \<or> fst second y = Some d)))"
proof (cases co)
  case Committed
  with assms show ?thesis by (auto simp: commit_delivery_def)
next
  case RolledBack
  with assms have "recover_commit (claim_of stored) outcome [first, second] stored = (d, r)"
    by (simp only: commit_delivery_def commit_outcome.case)
  from recover_commit_result [OF this] RolledBack show ?thesis by auto
next
  case CommittedUnseen
  with assms have "recover_commit (claim_of stored) outcome [first, second] outcome = (d, r)"
    by (simp only: commit_delivery_def commit_outcome.case)
  from recover_commit_result [OF this] CommittedUnseen show ?thesis by auto
qed

text \<open>What a step can do, once and for all: nothing, mark the content invalid, or attempt delivery.\<close>

lemma delivery_step_cases:
  obtains (idle) r where "delivery_step rnd fromiso ev n = (n, (ev, r, False))"
    | (invalid) d r where "delivery_step rnd fromiso ev n = (d, (ev, r, False))" "nt_status n \<noteq> SENT"
        "commits ev \<Longrightarrow> \<exists>m n0. d = invalid_content m n0 \<and> nt_attempt_count n0 = nt_attempt_count n"
    | (attempt) n0 d r where "delivery_step rnd fromiso ev n = (d, (ev, r, True))"
        "commit_delivery n (deliver_existing (dc_clock (event_call ev)) (dc_now (event_call ev)) (dc_outcome (event_call ev)) n0)
           (dc_commit (event_call ev)) (dc_first (event_call ev)) (dc_second (event_call ev)) = (d, r)"
        "nt_attempt_count n0 = nt_attempt_count n" "nt_status n \<noteq> SENT"
        "is_automatic ev \<Longrightarrow> nt_status n = PENDING \<or> nt_attempt_count n < MAX_AUTO_ATTEMPTS"
proof (cases ev)
  case (Dispatch recover c)
  show ?thesis
  proof (cases "recover \<and> \<not> (due_failure (dc_clock c) n \<or> old_pending (dc_window c) (dc_clock c) n)")
    case True
    then have "dispatch rnd fromiso recover c n = plain_commit c n n" by (simp add: dispatch_def)
    with Dispatch show ?thesis by (cases "dc_commit c") (auto intro: idle simp: plain_commit_def)
  next
    case due: False
    let ?n = "if recover then n\<lparr>nt_status := PENDING\<rparr> else n"
    show ?thesis
    proof (cases "nt_status ?n = PENDING")
      case False
      then have "dispatch rnd fromiso recover c n = plain_commit c n n" using due
        by (auto simp: dispatch_def Let_def split: if_splits)
      with Dispatch show ?thesis by (cases "dc_commit c") (auto intro: idle simp: plain_commit_def)
    next
      case True
      have live: "nt_status n = PENDING \<or> nt_status n = FAILED \<and> nt_attempt_count n < MAX_AUTO_ATTEMPTS"
        using due True by (auto simp: due_failure_def old_pending_def split: if_splits)
      then have ns: "nt_status n \<noteq> SENT" by auto
      show ?thesis
      proof (cases "message_from_content rnd fromiso (nt_content ?n)")
        case (Inl e)
        obtain d r where dr: "settle c n (invalid_content ''Notification content cannot be delivered.'' ?n) False = (d, r, False)"
          using settle_pair [of c n "invalid_content ''Notification content cannot be delivered.'' ?n" False] by blast
        have "\<exists>m n0. d = invalid_content m n0 \<and> nt_attempt_count n0 = nt_attempt_count n" if "commits ev"
          using dr that Dispatch
          by (intro exI [of _ "''Notification content cannot be delivered.''"] exI [of _ ?n])
            (auto simp: settle_def commit_delivery_def commits_def)
        with dr Inl due True Dispatch ns show ?thesis by (intro invalid [of d r]) (auto simp: dispatch_def Let_def)
      next
        case (Inr m)
        obtain d r where dr: "commit_delivery n (deliver_existing (dc_clock c) (dc_now c) (dc_outcome c) ?n)
            (dc_commit c) (dc_first c) (dc_second c) = (d, r)" by (meson surj_pair)
        with Inr due True Dispatch ns live show ?thesis
          by (intro attempt [of d r ?n]) (auto simp: dispatch_def Let_def settle_def)
      qed
    qed
  qed
next
  case (Retry user c)
  let ?n = "n\<lparr>nt_status := PENDING, nt_error_code := None, nt_error_message := None,
      nt_content := VDict (content_entries (nt_content n))\<rparr>"
  obtain d r where dr: "commit_delivery n (deliver_existing (dc_clock c) (dc_now c) (dc_outcome c) ?n)
      (dc_commit c) (dc_first c) (dc_second c) = (d, r)" by (meson surj_pair)
  have "(\<exists>r. retry rnd fromiso user c (Some n) = (Some n, r, False)) \<or> nt_status n \<noteq> SENT \<and>
      (retry rnd fromiso user c (Some n) =
         map_prod Some id (plain_commit c n (invalid_content ''Notification content cannot be retried.'' n)) \<or>
       retry rnd fromiso user c (Some n) = (Some d, r, True))"
    using dr by (auto simp: retry_def settle_def split: sum.split)
  then show ?thesis
  proof (elim disjE conjE exE)
    fix r' assume "retry rnd fromiso user c (Some n) = (Some n, r', False)"
    with Retry show ?thesis by (intro idle [of r']) simp
  next
    assume r: "nt_status n \<noteq> SENT" "retry rnd fromiso user c (Some n) =
         map_prod Some id (plain_commit c n (invalid_content ''Notification content cannot be retried.'' n))"
    obtain d' r' where p: "plain_commit c n (invalid_content ''Notification content cannot be retried.'' n) = (d', r', False)"
      "dc_commit c = Committed \<Longrightarrow> d' = invalid_content ''Notification content cannot be retried.'' n"
      using plain_commit_pair by blast
    have "\<exists>m n0. d' = invalid_content m n0 \<and> nt_attempt_count n0 = nt_attempt_count n" if "commits ev"
      using p(2) that Retry by (auto simp: commits_def)
    with r p(1) Retry show ?thesis by (intro invalid [of d' r']) simp_all
  next
    assume "nt_status n \<noteq> SENT" "retry rnd fromiso user c (Some n) = (Some d, r, True)"
    with Retry dr show ?thesis by (intro attempt [of d r ?n]) simp_all
  qed
qed

lemma attempt_committed:
  assumes "commit_delivery n out (dc_commit (event_call ev)) first second = (d, r)" "commits ev"
  shows "d = out \<and> r = Ok out"
  using commit_delivery_result [OF assms(1)] assms(2) by (auto simp: commits_def)

lemma row_inv_step: "row_inv n \<Longrightarrow> commits ev \<Longrightarrow> row_inv (fst (delivery_step rnd fromiso ev n))"
  by (cases rule: delivery_step_cases [where rnd = rnd and fromiso = fromiso and ev = ev and n = n])
    (auto simp: row_inv_def deliver_existing_facts dest: attempt_committed split: send_outcome.splits if_splits)

lemma sent_step:
  assumes "nt_status n = SENT"
  shows "fst (delivery_step rnd fromiso ev n) = n \<and> \<not> called (snd (delivery_step rnd fromiso ev n))"
  by (cases rule: delivery_step_cases [where rnd = rnd and fromiso = fromiso and ev = ev and n = n])
    (use assms in auto)

lemma sent_run:
  assumes "nt_status n = SENT"
  shows "state_after (delivery_step rnd fromiso) evs n = n" and
    "list_all (\<lambda>x. \<not> called x) (run_steps (delivery_step rnd fromiso) evs n)"
  by (induction evs) (simp_all add: sent_step [OF assms])

lemma step_event: "fst (snd (delivery_step rnd fromiso ev n)) = ev"
  by (cases rule: delivery_step_cases [where rnd = rnd and fromiso = fromiso and ev = ev and n = n]) auto

text \<open>A successful call leaves a sent row, unless its outcome could not be stored.\<close>

lemma succeeded_step:
  assumes "succeeded (snd (delivery_step rnd fromiso ev n))"
  obtains (stored) "nt_status (fst (delivery_step rnd fromiso ev n)) = SENT"
    | (lost) "\<not> commits ev" "reported (snd (delivery_step rnd fromiso ev n)) = Raise persistence_failed"
    | (displaced) d y where "\<not> commits ev" "reported (snd (delivery_step rnd fromiso ev n)) = Ok d" "nt_status d = FAILED"
        "claim_of d \<noteq> claim_of n" "fst (dc_first (event_call ev)) y = Some d \<or> fst (dc_second (event_call ev)) y = Some d"
proof (cases rule: delivery_step_cases [where rnd = rnd and fromiso = fromiso and ev = ev and n = n])
  case (attempt n0 d r)
  let ?c = "event_call ev"
  let ?o = "deliver_existing (dc_clock ?c) (dc_now ?c) (dc_outcome ?c) n0"
  have o: "nt_status ?o = SENT" using assms attempt(1) by (simp add: succeeded_def deliver_existing_facts)
  have st: "nt_status d = PENDING \<or> nt_status d = SENT \<or> nt_status d = FAILED" by (cases "nt_status d") simp_all
  from commit_delivery_result [OF attempt(2)] show ?thesis
  proof (elim disjE conjE exE)
    assume "d = ?o"
    with o attempt(1) show ?thesis by (intro stored) simp
  next
    assume "dc_commit ?c \<noteq> Committed" "r = Raise persistence_failed"
    with attempt(1) show ?thesis by (intro lost) (simp_all add: commits_def)
  next
    assume "nt_status d = nt_status ?o"
    with o attempt(1) show ?thesis by (intro stored) simp
  next
    fix y assume "dc_commit ?c \<noteq> Committed" "r = Ok d" "nt_status d \<noteq> PENDING" "claim_of d \<noteq> claim_of n"
      "fst (dc_first ?c) y = Some d"
    with attempt(1) st show ?thesis
      by (cases "nt_status d = SENT") (auto intro: stored displaced [of d y] simp: commits_def)
  next
    fix y assume "dc_commit ?c \<noteq> Committed" "r = Ok d" "nt_status d \<noteq> PENDING" "claim_of d \<noteq> claim_of n"
      "fst (dc_second ?c) y = Some d"
    with attempt(1) st show ?thesis
      by (cases "nt_status d = SENT") (auto intro: stored displaced [of d y] simp: commits_def)
  qed
qed (use assms in \<open>simp_all add: succeeded_def\<close>)

lemma automatic_calls_bound:
  "row_inv n \<Longrightarrow> list_all commits evs \<Longrightarrow>
   int (length (filter auto_called (run_steps (delivery_step rnd fromiso) evs n))) \<le>
     max 0 (MAX_AUTO_ATTEMPTS - nt_attempt_count n)"
proof (induction evs arbitrary: n)
  case (Cons ev evs)
  let ?n = "fst (delivery_step rnd fromiso ev n)"
  have IH: "int (length (filter auto_called (run_steps (delivery_step rnd fromiso) evs ?n))) \<le>
      max 0 (MAX_AUTO_ATTEMPTS - nt_attempt_count ?n)"
    using Cons.prems by (intro Cons.IH row_inv_step) simp_all
  have ev: "commits ev" using Cons.prems by simp
  show ?case
  proof (cases rule: delivery_step_cases [where rnd = rnd and fromiso = fromiso and ev = ev and n = n])
    case (idle r)
    with IH show ?thesis by simp
  next
    case (invalid d r)
    with IH ev show ?thesis by auto
  next
    case (attempt n0 d r)
    with attempt_committed [OF attempt(2) ev] IH Cons.prems(1) show ?thesis
      by (auto simp: deliver_existing_facts row_inv_def MAX_AUTO_ATTEMPTS_def)
  qed
qed (simp add: MAX_AUTO_ATTEMPTS_def)

section \<open>Contract of delivery\<close>

text \<open>
  Automatic delivery gives up: whatever the provider answers and however often a row is
  retried by hand in between, a new notification whose outcomes are stored is sent automatically
  at most five times.
\<close>

theorem automatic_attempts_bounded:
  assumes "list_all commits evs"
  shows "length (filter auto_called (run_steps (delivery_step rnd fromiso) evs
     (enqueue isoformat row_id user_id alert_rule_id security_id title m trigger_sequence rule_version created_at))) \<le> 5"
proof -
  let ?n = "enqueue isoformat row_id user_id alert_rule_id security_id title m trigger_sequence rule_version created_at"
  have "row_inv ?n" "nt_attempt_count ?n = 0" by (simp_all add: row_inv_def enqueue_def)
  with automatic_calls_bound [of ?n evs rnd fromiso] assms show ?thesis by (simp add: MAX_AUTO_ATTEMPTS_def)
qed

text \<open>
  Recovery never races a delivery in progress: it calls the provider only for a row that has
  waited longer than the recovery window, or for a failed one whose back-off has passed; a manual
  retry also waits for the window. A transient failure of attempt \<open>k\<close> below the limit is
  scheduled \<open>60 * 2 ^ (k - 1)\<close> seconds ahead, between one and eight minutes.
\<close>

theorem recovery_waits:
  assumes inv: "row_inv n"
  shows "(snd (snd (dispatch rnd fromiso True c n)) \<longrightarrow>
      nt_status n = PENDING \<and> nt_created_at n + dc_window c \<le> dc_clock c \<or>
      (\<exists>t. nt_status n = FAILED \<and> nt_next_retry_at n = Some t \<and> t \<le> dc_clock c)) \<and>
    (snd (snd (retry rnd fromiso user c (Some n))) \<longrightarrow> nt_status n = PENDING \<longrightarrow>
      nt_created_at n + dc_window c \<le> dc_clock c) \<and>
    (transient e \<and> nt_attempt_count n + 1 < MAX_AUTO_ATTEMPTS \<longrightarrow>
      (\<exists>wait. nt_next_retry_at (deliver_existing clock now (SendError e) n) = Some (clock + wait) \<and>
         wait = seconds (60 * 2 ^ nat (nt_attempt_count n)) \<and> seconds 60 \<le> wait \<and> wait \<le> seconds 480))"
proof (intro conjI impI)
  assume "snd (snd (dispatch rnd fromiso True c n))"
  then show "nt_status n = PENDING \<and> nt_created_at n + dc_window c \<le> dc_clock c \<or>
      (\<exists>t. nt_status n = FAILED \<and> nt_next_retry_at n = Some t \<and> t \<le> dc_clock c)"
    by (auto simp: dispatch_def due_failure_def old_pending_def is_notification_retryable_def split: if_splits option.splits)
next
  assume "snd (snd (retry rnd fromiso user c (Some n)))" "nt_status n = PENDING"
  then show "nt_created_at n + dc_window c \<le> dc_clock c"
    by (auto simp: retry_def is_notification_retryable_def split: if_splits sum.splits)
next
  assume tr: "transient e \<and> nt_attempt_count n + 1 < MAX_AUTO_ATTEMPTS"
  define k where "k = nat (nt_attempt_count n)"
  have k: "nt_attempt_count n = int k" "k \<le> 3" using inv tr by (auto simp: row_inv_def MAX_AUTO_ATTEMPTS_def k_def)
  have "(1 :: int) \<le> 2 ^ k" by simp
  moreover have "(2 :: int) ^ k \<le> 2 ^ 3" using k(2) by (intro power_increasing) simp_all
  ultimately show "\<exists>wait. nt_next_retry_at (deliver_existing clock now (SendError e) n) = Some (clock + wait) \<and>
         wait = seconds (60 * 2 ^ nat (nt_attempt_count n)) \<and> seconds 60 \<le> wait \<and> wait \<le> seconds 480"
    using tr by (simp add: deliver_existing_facts RETRY_BASE_SECONDS_def seconds_def k(1))
qed

theorem recovery_waits_witness:
  "\<exists>wait. nt_next_retry_at (deliver_existing 0 0 (feishu_send TimedOut)
     \<lparr>nt_id = 1, nt_user_id = 2, nt_status = PENDING, nt_content = VDict [], nt_error_code = None,
       nt_error_message = None, nt_sent_at = None, nt_attempt_count = 0, nt_next_retry_at = None, nt_created_at = 0\<rparr>) =
     Some wait \<and> seconds 60 \<le> wait \<and> wait \<le> seconds 480"
proof -
  let ?n = "\<lparr>nt_id = 1, nt_user_id = 2, nt_status = PENDING, nt_content = VDict [], nt_error_code = None,
       nt_error_message = None, nt_sent_at = None, nt_attempt_count = 0, nt_next_retry_at = None, nt_created_at = 0\<rparr>"
  let ?e = "\<lparr>de_timeout = False, de_retryable = True, de_status = VNone, de_business = VNone,
    de_class = ''FeishuWebhookError''\<rparr>"
  have inv: "row_inv ?n" by (simp add: row_inv_def)
  have "transient ?e \<and> nt_attempt_count ?n + 1 < MAX_AUTO_ATTEMPTS" by (simp add: transient_def MAX_AUTO_ATTEMPTS_def)
  with recovery_waits [OF inv, of rnd64 "\<lambda>_. None" undefined undefined ?e 0 0]
  show ?thesis by (auto simp: feishu_send_def feishu_error_def)
qed

text \<open>
  The row in the database after a commit of \<open>new\<close> over \<open>old\<close>, and a row another worker settled
  since the row was claimed: terminal, and not the claim itself.
\<close>

definition landed :: "commit_outcome \<Rightarrow> notification \<Rightarrow> notification \<Rightarrow> notification" where
  "landed co old new = (if co = RolledBack then old else new)"

definition foreign_outcome :: "notification \<Rightarrow> notification \<Rightarrow> bool" where
  "foreign_outcome stored w \<longleftrightarrow> nt_status w \<noteq> PENDING \<and> claim_of w \<noteq> claim_of stored"

text \<open>
  C39: An ambiguous commit neither loses an outcome nor overwrites another worker's. When saving
  returns a row, that row is what the database holds, it is terminal, and if nobody else touched the
  row it carries exactly the outcome of this attempt. A terminal row that another worker stored is
  kept and returned whenever it is read, whether the commit had failed silently or had succeeded
  unseen: at the first attempt to save again (\<open>seen1\<close>), and at the second (\<open>seen2\<close>), which is reached
  when the first could not read the row or could not save. Otherwise the caller gets the 503 error.
\<close>

theorem commit_recovery_sound:
  assumes run: "commit_delivery stored outcome co (others1, c1) (others2, c2) = (durable, res)"
    and "nt_status outcome \<noteq> PENDING" "nt_id outcome = nt_id stored" "nt_user_id outcome = nt_user_id stored"
      "nt_created_at outcome = nt_created_at stored"
    and d0: "d0 = landed co stored outcome" and seen1: "seen1 = others1 d0"
    and d1: "d1 = (case seen1 of None \<Rightarrow> d0 | Some p \<Rightarrow> landed c1 p (with_outcome outcome p))"
    and seen2: "seen2 = others2 d1"
  shows "(case res of Inr r \<Rightarrow> durable = r \<and> nt_status r \<noteq> PENDING \<and> (others1 = Some \<and> others2 = Some \<longrightarrow> r = outcome)
      | Inl e \<Rightarrow> e = persistence_failed) \<and>
    (co \<noteq> Committed \<and> seen1 = Some w \<and> foreign_outcome stored w \<longrightarrow> durable = w \<and> res = Ok w) \<and>
    (co \<noteq> Committed \<and> (case seen1 of None \<Rightarrow> True | Some p \<Rightarrow> \<not> foreign_outcome stored p \<and> c1 \<noteq> Committed) \<and>
       seen2 = Some w \<and> foreign_outcome stored w \<longrightarrow> durable = w \<and> res = Ok w)"
proof (cases "co = Committed")
  case True
  with run assms(2) show ?thesis by (auto simp: commit_delivery_def)
next
  case False
  then have rc: "recover_commit (claim_of stored) outcome [(others1, c1), (others2, c2)] d0 = (durable, res)"
    using run unfolding d0 by (cases co) (simp_all only: commit_delivery_def commit_outcome.case landed_def, simp_all)
  have result: "case res of Inr r \<Rightarrow> durable = r \<and> nt_status r \<noteq> PENDING | Inl e \<Rightarrow> e = persistence_failed"
    using recover_commit_result [OF rc] assms(2) by auto
  have w: "with_outcome outcome n = outcome" if "n = stored \<or> n = outcome" for n
    using that assms(3-5) by (auto simp: with_outcome_def)
  have "d0 = stored \<or> d0 = outcome" unfolding d0 by (simp add: landed_def)
  then have alone: "r = outcome" if "others1 = Some \<and> others2 = Some" "res = Ok r" for r
    using rc that by (auto simp: w split: if_splits commit_outcome.splits)
  have first: "durable = w \<and> res = Ok w" if "seen1 = Some w" "foreign_outcome stored w"
    using rc that unfolding seen1 by (auto simp: foreign_outcome_def)
  have second: "durable = w \<and> res = Ok w"
    if nxt: "case seen1 of None \<Rightarrow> True | Some p \<Rightarrow> \<not> foreign_outcome stored p \<and> c1 \<noteq> Committed"
      and w: "seen2 = Some w" "foreign_outcome stored w"
  proof -
    have "recover_commit (claim_of stored) outcome [(others2, c2)] d1 = (durable, res)"
    proof (cases seen1)
      case None
      with rc show ?thesis unfolding seen1 d1 by simp
    next
      case (Some p)
      with rc nxt show ?thesis unfolding seen1 d1
        by (cases c1) (auto simp: foreign_outcome_def landed_def split: if_splits)
    qed
    with w show ?thesis unfolding seen2 by (auto simp: foreign_outcome_def)
  qed
  from result alone show ?thesis using first second by (cases res) auto
qed

theorem commit_recovery_sound_witness:
  "let stored = \<lparr>nt_id = 1, nt_user_id = 2, nt_status = PENDING, nt_content = VDict [], nt_error_code = None,
       nt_error_message = None, nt_sent_at = None, nt_attempt_count = 0, nt_next_retry_at = None, nt_created_at = 0\<rparr>;
     outcome = deliver_existing 5 6 SendOk stored;
     other = deliver_existing 7 8 (feishu_send OtherFailure) stored
   in \<exists>durable res. commit_delivery stored outcome RolledBack (Some, RolledBack) (\<lambda>_. Some other, Committed) = (durable, res) \<and>
        durable = other \<and> res = Ok other \<and> other \<noteq> outcome"
proof -
  let ?s = "\<lparr>nt_id = 1, nt_user_id = 2, nt_status = PENDING, nt_content = VDict [], nt_error_code = None,
       nt_error_message = None, nt_sent_at = None, nt_attempt_count = 0, nt_next_retry_at = None, nt_created_at = 0\<rparr>"
  let ?o = "deliver_existing 5 6 SendOk ?s"
  let ?w = "deliver_existing 7 8 (feishu_send OtherFailure) ?s"
  obtain d r where dr: "commit_delivery ?s ?o RolledBack (Some, RolledBack) (\<lambda>_. Some ?w, Committed) = (d, r)"
    by (meson surj_pair)
  have facts: "nt_status ?o \<noteq> PENDING" "nt_id ?o = nt_id ?s" "nt_user_id ?o = nt_user_id ?s"
    "nt_created_at ?o = nt_created_at ?s" by (simp_all add: deliver_existing_def Let_def)
  have f: "foreign_outcome ?s ?w" "\<not> foreign_outcome ?s ?s"
    by (simp_all add: foreign_outcome_def claim_of_def deliver_existing_facts feishu_send_def feishu_error_def)
  have n: "?w \<noteq> ?o" by (simp add: deliver_existing_def Let_def feishu_send_def feishu_error_def split_beta)
  have "d = ?w \<and> r = Ok ?w"
    using commit_recovery_sound [OF dr facts refl refl refl refl, of ?w] f by (simp add: landed_def)
  with dr n show ?thesis unfolding Let_def by blast
qed

section \<open>Enqueued messages are deliverable\<close>

lemma nat_str_event: "list_all event_char (nat_str n)"
proof (induction n rule: nat_str.induct)
  case (1 n)
  have c: "event_char (char_of (k + 48))" if "k < 10" for k :: nat
  proof -
    have "(of_char (char_of (k + 48) :: char) :: nat) = k + 48" using that by simp
    with that show ?thesis by (simp add: event_char_def)
  qed
  show ?case
  proof (cases "n < 10")
    case True
    with c show ?thesis by (subst nat_str.simps) simp
  next
    case False
    with 1 c [of "n mod 10"] show ?thesis by (subst nat_str.simps) simp
  qed
qed

lemma int_str_event: "list_all event_char (int_str n)"
  using nat_str_event by (simp add: int_str_def event_char_def)

lemma int_str_nonempty: "int_str n \<noteq> []"
  by (simp add: int_str_def) (subst nat_str.simps, simp)

definition enqueued_event :: "int \<Rightarrow> int \<Rightarrow> int \<Rightarrow> string" where
  "enqueued_event alert_rule_id security_id q =
     ''alert:'' @ int_str alert_rule_id @ '':'' @ int_str security_id @ '':'' @ int_str q"

lemma enqueued_event_ok:
  assumes "length (enqueued_event a b q) \<le> 160" shows "event_id_ok (enqueued_event a b q)"
proof -
  have "list_all event_char ''alert:''" "list_all event_char '':''" by (simp_all add: event_char_def)
  then have "list_all event_char (enqueued_event a b q)"
    unfolding enqueued_event_def list_all_append using int_str_event by blast
  moreover have "1 \<le> length (enqueued_event a b q)" by (simp add: enqueued_event_def)
  ultimately show ?thesis using assms by (simp add: event_id_ok_def)
qed

text \<open>
  What was queued can be sent: the content stored for a well-formed message is read back as
  that message, carrying the event id built from rule, security and sequence number, and the
  first dispatch of the row calls the provider. The identifier must fit its 160 characters, and
  the date parser must read what the date printer wrote.
\<close>

theorem enqueued_is_deliverable:
  assumes ok: "message_ok m" and date: "fromiso (isoformat (nm_date m)) = Some (nm_date m)"
    and len: "length (enqueued_event alert_rule_id security_id q) \<le> 160"
  shows "message_from_content rnd fromiso (nt_content (enqueue isoformat row_id user_id alert_rule_id security_id title m
      (Some q) rule_version created_at)) = Ok (m\<lparr>nm_event_id := Some (enqueued_event alert_rule_id security_id q)\<rparr>) \<and>
    snd (snd (dispatch rnd fromiso False c (enqueue isoformat row_id user_id alert_rule_id security_id title m (Some q)
      rule_version created_at)))"
proof -
  let ?e = "enqueued_event alert_rule_id security_id q"
  let ?m = "m\<lparr>nm_event_id := Some ?e\<rparr>"
  let ?d = "enqueue_content isoformat m title rule_version alert_rule_id security_id (Some q)"
  have mok: "message_ok ?m" using ok enqueued_event_ok [OF len] by (simp add: message_ok_def)
  have d: "?d = dict_set ''event_id'' (VStr ?e) (dict_set ''rule_version'' (VInt rule_version)
      (dict_set ''title'' (VStr title) (message_to_dict isoformat m)))"
    by (simp add: enqueue_content_def enqueued_event_def)
  have "message_from_content rnd fromiso (as_object ?d) = Ok ?m"
  proof (rule message_content_roundtrip [OF mok])
    show "fromiso (isoformat (nm_date ?m)) = Some (nm_date ?m)" using date by simp
    fix k assume k: "k \<in> {''stock_name'', ''stock_code'', ''indicator'', ''state'', ''current_value'', ''previous_value'',
        ''change'', ''value_details'', ''date'', ''event_id''}"
    show "dict_get ?d k = dict_get (message_to_dict isoformat ?m) k"
    proof (cases "k = ''event_id''")
      case True
      then show ?thesis unfolding d by (simp add: message_to_dict_get)
    next
      case False
      with k have "k \<noteq> ''title''" "k \<noteq> ''rule_version''" by auto
      with False have "dict_get ?d k = dict_get (message_to_dict isoformat m) k" unfolding d by simp
      also have "\<dots> = dict_get (message_to_dict isoformat ?m) k"
        using k False by (elim insertE emptyE) (simp_all add: message_to_dict_get)
      finally show ?thesis .
    qed
  qed
  then show ?thesis by (simp add: enqueue_def dispatch_def Let_def settle_called)
qed

theorem enqueued_is_deliverable_witness:
  "let m = \<lparr>nm_stock_name = ''Bank'', nm_stock_code = ''600000'', nm_indicator = ''RSI'', nm_state = None,
       nm_current = Some 71, nm_previous = None, nm_change = None, nm_details = [], nm_date = 738887, nm_event_id = None\<rparr>
   in message_from_content rnd64 (\<lambda>s. if s = ''2024-01-02'' then Some 738887 else None)
        (nt_content (enqueue (\<lambda>_. ''2024-01-02'') 1 2 3 4 ''RSI'' m (Some 5) 1 0)) =
      Ok (m\<lparr>nm_event_id := Some (enqueued_event 3 4 5)\<rparr>)"
proof -
  let ?m = "\<lparr>nm_stock_name = ''Bank'', nm_stock_code = ''600000'', nm_indicator = ''RSI'', nm_state = None,
       nm_current = Some 71, nm_previous = None, nm_change = None, nm_details = [], nm_date = 738887, nm_event_id = None\<rparr>"
  have "text_ok ''Bank''" "text_ok ''600000''" "text_ok ''RSI''" by (simp_all add: text_ok_def text_eval)
  then have "message_ok ?m" by (simp add: message_ok_def change_ok_def)
  moreover have "length (enqueued_event 3 4 5) \<le> 160" by (simp add: enqueued_event_def int_str_def nat_str.simps)
  ultimately show ?thesis unfolding Let_def
    by (intro enqueued_is_deliverable [THEN conjunct1]) simp_all
qed

section \<open>At least once, and once when outcomes are stored\<close>


text \<open>
  The witness: the first send succeeds, its commit fails and the row cannot be read again, so the
  caller gets the 503; five minutes later the recovery sends the message a second time.
\<close>

definition sample_message :: notification_message where
  "sample_message = \<lparr>nm_stock_name = ''Bank'', nm_stock_code = ''600000'', nm_indicator = ''RSI'', nm_state = None,
     nm_current = Some 71, nm_previous = None, nm_change = None, nm_details = [], nm_date = 738887, nm_event_id = None\<rparr>"

definition sample_fromiso :: "string \<Rightarrow> date option" where
  "sample_fromiso s = (if s = ''2024-01-02'' then Some 738887 else None)"

definition sample_row :: notification where
  "sample_row = enqueue (\<lambda>_. ''2024-01-02'') 1 2 3 4 ''RSI'' sample_message (Some 5) 1 0"

lemma sample_row_facts:
  "message_from_content rnd sample_fromiso (nt_content sample_row) =
     Ok (sample_message\<lparr>nm_event_id := Some (enqueued_event 3 4 5)\<rparr>)"
  "nt_status sample_row = PENDING" "nt_created_at sample_row = 0" "nt_attempt_count sample_row = 0" "nt_user_id sample_row = 2"
proof -
  have "text_ok ''Bank''" "text_ok ''600000''" "text_ok ''RSI''" by (simp_all add: text_ok_def text_eval)
  then have "message_ok sample_message" by (simp add: message_ok_def change_ok_def sample_message_def)
  moreover have "length (enqueued_event 3 4 5) \<le> 160" by (simp add: enqueued_event_def int_str_def nat_str.simps)
  ultimately show "message_from_content rnd sample_fromiso (nt_content sample_row) =
     Ok (sample_message\<lparr>nm_event_id := Some (enqueued_event 3 4 5)\<rparr>)"
    unfolding sample_row_def
    by (intro enqueued_is_deliverable [THEN conjunct1]) (simp_all add: sample_fromiso_def sample_message_def)
qed (simp_all add: sample_row_def enqueue_def)

definition lost_call :: delivery_call where
  "lost_call = \<lparr>dc_window = PENDING_RECOVERY_WINDOW, dc_clock = 1, dc_now = 1, dc_outcome = SendOk,
     dc_commit = RolledBack, dc_first = (\<lambda>_. None, Committed), dc_second = (\<lambda>_. None, Committed)\<rparr>"

definition later_call :: delivery_call where
  "later_call = lost_call\<lparr>dc_clock := seconds 301, dc_commit := Committed\<rparr>"



end
