(* ===== verification/Notification_Recovery.thy ===== *)
theory Notification_Recovery
  imports Notifications
begin

text \<open>
  Batches of deliveries (\<open>dispatch_notifications\<close>, \<open>dispatch_pending_notifications\<close> and
  \<open>summarize_deliveries\<close> of \<open>services/notification_service.py\<close>): the stored rows are a dictionary by
  id; the outcome of each webhook call and the fate of each commit are given per id. A batch returns
  the rows it leaves, also when an exception ends it.
\<close>

section \<open>Batches\<close>

text \<open>The call made for one row: the service's window and clock, and what happens to this row.\<close>

definition call_for :: "int \<Rightarrow> int \<Rightarrow> (int \<Rightarrow> delivery_call) \<Rightarrow> int \<Rightarrow> delivery_call" where
  "call_for window clock calls i = (calls i)\<lparr>dc_window := window, dc_clock := clock\<rparr>"

definition dispatch_row ::
  "(real \<Rightarrow> real) \<Rightarrow> (string \<Rightarrow> date option) \<Rightarrow> bool \<Rightarrow> int \<Rightarrow> int \<Rightarrow> (int \<Rightarrow> delivery_call) \<Rightarrow> int \<Rightarrow>
     (int, notification) dict \<Rightarrow> (int, notification) dict \<times> notification result"
where
  "dispatch_row rnd fromiso recover window clock calls i rows = (case dict_get rows i of
      None \<Rightarrow> (rows, Raise (ApiError ''NOTIFICATION_NOT_FOUND'' ''Notification was not found.'' 404))
    | Some n \<Rightarrow> (case dispatch rnd fromiso recover (call_for window clock calls i) n of
        (durable, r, _) \<Rightarrow> (dict_set i durable rows, r)))"

fun dispatch_rows ::
  "(real \<Rightarrow> real) \<Rightarrow> (string \<Rightarrow> date option) \<Rightarrow> bool \<Rightarrow> int \<Rightarrow> int \<Rightarrow> (int \<Rightarrow> delivery_call) \<Rightarrow> int list \<Rightarrow>
     (int, notification) dict \<Rightarrow> (int, notification) dict \<times> unit result"
where
  "dispatch_rows rnd fromiso recover window clock calls [] rows = (rows, Ok ())"
| "dispatch_rows rnd fromiso recover window clock calls (i # is) rows =
     (case dispatch_row rnd fromiso recover window clock calls i rows of
       (rows', Inl e) \<Rightarrow> (rows', Raise e)
     | (rows', Inr _) \<Rightarrow> dispatch_rows rnd fromiso recover window clock calls is rows')"

text \<open>The summary that closes a batch, unless an exception already ended it.\<close>

definition summarized ::
  "int list \<Rightarrow> (int, notification) dict \<times> unit result \<Rightarrow>
     (int, notification) dict \<times> (nat \<times> nat \<times> nat \<times> nat) result"
where
  "summarized ids x = (case x of (rows, r) \<Rightarrow> (rows, ebind r (\<lambda>_. summarize_deliveries rows ids)))"

definition dispatch_notifications ::
  "(real \<Rightarrow> real) \<Rightarrow> (string \<Rightarrow> date option) \<Rightarrow> int \<Rightarrow> (int \<Rightarrow> delivery_call) \<Rightarrow> int list \<Rightarrow> (int, notification) dict \<Rightarrow>
     (int, notification) dict \<times> (nat \<times> nat \<times> nat \<times> nat) result"
where
  "dispatch_notifications rnd fromiso clock calls notification_ids rows =
     summarized notification_ids
       (dispatch_rows rnd fromiso False PENDING_RECOVERY_WINDOW clock calls (rev (remdups (rev notification_ids))) rows)"

text \<open>The condition of the recovery query, and the query: oldest first, then by id, at most \<open>limit\<close> rows.\<close>

definition recovery_candidate :: "int \<Rightarrow> int \<Rightarrow> notification \<Rightarrow> bool" where
  "recovery_candidate window current n \<longleftrightarrow>
     nt_status n = PENDING \<and> nt_created_at n \<le> current - window \<or>
     nt_status n = FAILED \<and> (case nt_next_retry_at n of None \<Rightarrow> False | Some t \<Rightarrow> t \<le> current) \<and>
       nt_attempt_count n < MAX_AUTO_ATTEMPTS"

definition recovery_ids :: "int \<Rightarrow> int \<Rightarrow> nat \<Rightarrow> (int, notification) dict \<Rightarrow> int list" where
  "recovery_ids window current limit rows =
     take limit (map fst (sort_key (\<lambda>(_, n). nt_created_at n) (sort_key fst
       (filter (\<lambda>(_, n). recovery_candidate window current n) rows))))"

definition dispatch_pending_notifications ::
  "(real \<Rightarrow> real) \<Rightarrow> (string \<Rightarrow> date option) \<Rightarrow> (int \<Rightarrow> delivery_call) \<Rightarrow> nat \<Rightarrow> int \<Rightarrow> int \<Rightarrow> (int, notification) dict \<Rightarrow>
     (int, notification) dict \<times> (nat \<times> nat \<times> nat \<times> nat) result"
where
  "dispatch_pending_notifications rnd fromiso calls limit current recovery_window rows =
     (case validate_pending_recovery_window recovery_window of
       Inl e \<Rightarrow> (rows, Raise e)
     | Inr window \<Rightarrow>
         let ids = recovery_ids window current limit rows in
         summarized ids (dispatch_rows rnd fromiso True window current calls ids rows))"

section \<open>Rows after a batch\<close>

text \<open>The query selects exactly the rows the dispatch accepts when it checks again under the lock.\<close>

lemma candidate_iff:
  assumes "seconds 10 < window"
  shows "recovery_candidate window now n \<longleftrightarrow> due_failure now n \<or> old_pending window now n"
  using assms
  by (auto simp: recovery_candidate_def due_failure_def old_pending_def is_notification_retryable_def
      validate_pending_recovery_window_def seconds_def)

lemma settle_result:
  assumes "settle c stored outcome b = (d, r, b')" "nt_status outcome \<noteq> PENDING"
  shows "r = Ok d \<and> nt_status d \<noteq> PENDING \<or> r = Raise persistence_failed \<and> dc_commit c \<noteq> Committed"
proof -
  have "commit_delivery stored outcome (dc_commit c) (dc_first c) (dc_second c) = (d, r)"
    using assms(1) by (simp add: settle_def split_beta prod_eq_iff)
  from commit_delivery_result [OF this] assms(2) show ?thesis by auto
qed

text \<open>A row the query selected is settled, or the 503 error of its failed commit ends the sweep.\<close>

lemma candidate_settled:
  assumes "seconds 10 < dc_window c" "recovery_candidate (dc_window c) (dc_clock c) n"
    and "dispatch rnd fromiso True c n = (d, r, b)"
  shows "r = Ok d \<and> nt_status d \<noteq> PENDING \<or> r = Raise persistence_failed \<and> dc_commit c \<noteq> Committed"
proof -
  have due: "due_failure (dc_clock c) n \<or> old_pending (dc_window c) (dc_clock c) n"
    using assms(2) unfolding candidate_iff [OF assms(1)] .
  let ?n = "n\<lparr>nt_status := PENDING\<rparr>"
  show ?thesis
  proof (cases "message_from_content rnd fromiso (nt_content n)")
    case (Inl e)
    with due assms(3) have "settle c n (invalid_content ''Notification content cannot be delivered.'' ?n) False = (d, r, b)"
      by (auto simp: dispatch_def Let_def)
    then show ?thesis by (rule settle_result) simp
  next
    case (Inr m)
    with due assms(3) have "settle c n (deliver_existing (dc_clock c) (dc_now c) (dc_outcome c) ?n) True = (d, r, b)"
      by (auto simp: dispatch_def Let_def)
    then show ?thesis by (rule settle_result) (simp add: deliver_existing_facts split: send_outcome.split)
  qed
qed

text \<open>
  How far a sweep gets: the first \<open>k\<close> rows are settled, and either these are all rows, or the
  commit of the next one failed and the rows after it are as before.
\<close>

lemma dispatch_rows_progress:
  assumes "seconds 10 < window" "distinct is"
    and "\<And>i. i \<in> set is \<Longrightarrow> \<exists>n. dict_get rows i = Some n \<and> recovery_candidate window now n"
  shows "\<exists>rows' out k. dispatch_rows rnd fromiso True window now calls is rows = (rows', out) \<and> k \<le> length is \<and>
    (\<forall>i \<in> set (take k is). \<exists>n. dict_get rows' i = Some n \<and> nt_status n \<noteq> PENDING) \<and>
    (\<forall>i. i \<notin> set (take (Suc k) is) \<longrightarrow> dict_get rows' i = dict_get rows i) \<and>
    (if k = length is then out = Ok () else out = Raise persistence_failed \<and> dc_commit (calls (is ! k)) \<noteq> Committed)"
  using assms(2,3)
proof (induction "is" arbitrary: rows)
  case Nil
  then show ?case by simp
next
  case (Cons i "is")
  obtain n where n: "dict_get rows i = Some n" "recovery_candidate window now n" using Cons.prems(2) [of i] by auto
  obtain d r b where dr: "dispatch rnd fromiso True (call_for window now calls i) n = (d, r, b)" by (rule prod_cases3)
  have step: "dispatch_row rnd fromiso True window now calls i rows = (dict_set i d rows, r)"
    by (simp add: dispatch_row_def n dr)
  have "r = Ok d \<and> nt_status d \<noteq> PENDING \<or> r = Raise persistence_failed \<and> dc_commit (calls i) \<noteq> Committed"
    using candidate_settled [OF _ _ dr] assms(1) n(2) by (simp add: call_for_def)
  then show ?case
  proof (elim disjE conjE)
    assume ok: "r = Ok d" "nt_status d \<noteq> PENDING"
    have "\<And>j. j \<in> set is \<Longrightarrow> \<exists>n. dict_get (dict_set i d rows) j = Some n \<and> recovery_candidate window now n"
      using Cons.prems by auto
    then obtain rows' out k where IH: "dispatch_rows rnd fromiso True window now calls is (dict_set i d rows) = (rows', out)"
      "k \<le> length is" "\<forall>j \<in> set (take k is). \<exists>n. dict_get rows' j = Some n \<and> nt_status n \<noteq> PENDING"
      "\<forall>j. j \<notin> set (take (Suc k) is) \<longrightarrow> dict_get rows' j = dict_get (dict_set i d rows) j"
      "if k = length is then out = Ok () else out = Raise persistence_failed \<and> dc_commit (calls (is ! k)) \<noteq> Committed"
      using Cons.IH [of "dict_set i d rows"] Cons.prems(1) by auto
    have "i \<notin> set (take (Suc k) is)" using Cons.prems(1) by (auto dest: in_set_takeD)
    then have "dict_get rows' i = Some d" using IH(4) by simp
    with IH step ok show ?thesis
      by (intro exI [of _ rows'] exI [of _ out] exI [of _ "Suc k"]) auto
  next
    assume "r = Raise persistence_failed" "dc_commit (calls i) \<noteq> Committed"
    with step show ?thesis
      by (intro exI [of _ "dict_set i d rows"] exI [of _ "Raise persistence_failed"] exI [of _ 0]) auto
  qed
qed

lemma recovery_ids_sound:
  assumes "distinct (dict_keys rows)"
  shows "distinct (recovery_ids window now limit rows)"
    and "i \<in> set (recovery_ids window now limit rows) \<Longrightarrow>
      \<exists>n. dict_get rows i = Some n \<and> recovery_candidate window now n"
proof -
  let ?sel = "sort_key (\<lambda>(_, n). nt_created_at n) (sort_key fst (filter (\<lambda>(_, n). recovery_candidate window now n) rows))"
  have d: "distinct (map fst ?sel)"
    using distinct_map_filter [OF assms] by (simp add: distinct_map)
  then show "distinct (recovery_ids window now limit rows)" by (simp add: recovery_ids_def)
  assume "i \<in> set (recovery_ids window now limit rows)"
  then have "i \<in> fst ` set ?sel" unfolding recovery_ids_def by (metis in_set_takeD set_map)
  then show "\<exists>n. dict_get rows i = Some n \<and> recovery_candidate window now n"
    using assms by auto
qed

lemma traverse_rows:
  "(\<And>i. i \<in> set is \<Longrightarrow> dict_get rows i \<noteq> None) \<Longrightarrow>
   traverse (\<lambda>i. case dict_get rows i of Some n \<Rightarrow> Ok n | None \<Rightarrow> Raise (ValueError m)) is = Ok (map (\<lambda>i. the (dict_get rows i)) is)"
  by (rule traverse_ok) (auto split: option.split)

lemma three_statuses:
  "(\<And>n. n \<in> set ns \<Longrightarrow> nt_status n \<noteq> PENDING) \<Longrightarrow>
     length (filter (\<lambda>n. nt_status n = SENT) ns) + length (filter (\<lambda>n. nt_status n = FAILED) ns) = length ns \<and>
     filter (\<lambda>n. nt_status n = PENDING) ns = []"
proof (induction ns)
  case (Cons n ns)
  then show ?case by (cases "nt_status n") auto
qed simp

text \<open>The summary of a batch whose rows are all settled.\<close>

lemma summarize_settled:
  assumes "distinct ids" "\<And>i. i \<in> set ids \<Longrightarrow> \<exists>n. dict_get rows i = Some n \<and> nt_status n \<noteq> PENDING"
  shows "\<exists>sent failed. summarize_deliveries rows ids = Ok (sent + failed, sent, failed, 0) \<and> sent + failed = length ids"
proof -
  let ?ns = "map (\<lambda>i. the (dict_get rows i)) ids"
  have unique: "rev (remdups (rev ids)) = ids" using assms(1) by (simp add: distinct_remdups_id)
  have found: "dict_get rows i \<noteq> None" if "i \<in> set ids" for i using assms(2) [OF that] by auto
  have settled: "nt_status n \<noteq> PENDING" if "n \<in> set ?ns" for n using that assms(2) by fastforce
  define sent where "sent = length (filter (\<lambda>n. nt_status n = SENT) ?ns)"
  define failed where "failed = length (filter (\<lambda>n. nt_status n = FAILED) ?ns)"
  have counts: "sent + failed = length ids" "filter (\<lambda>n. nt_status n = PENDING) ?ns = []"
    using three_statuses [of ?ns] settled by (auto simp: sent_def failed_def)
  have "summarize_deliveries rows ids = Ok (sent + failed, sent, failed, 0)"
    unfolding summarize_deliveries_def Let_def unique counts(1)
    by (subst traverse_rows [OF found]) (simp_all add: sent_def failed_def counts(2) [simplified])
  with counts(1) show ?thesis by blast
qed

text \<open>
  C27: A recovery sweep settles its rows one after the other. With an admissible window the rows
  selected by the query, at most \<open>limit\<close>, are processed in its order, and a prefix of them ends sent or
  failed. Either the prefix is all of them and the sweep returns a summary that accounts for each
  with none pending; or the outcome of the next row could not be stored, the sweep ends there with
  the 503 persistence error, and every later row is as it was. Rows not selected are never touched,
  and when all commits succeed the sweep completes.
\<close>

theorem recovery_sweep_settles:
  assumes "seconds 10 < window" and "distinct (dict_keys rows)"
    and "ids = recovery_ids window now limit rows"
  shows "\<exists>rows' out k. dispatch_pending_notifications rnd fromiso calls limit now window rows = (rows', out) \<and>
    k \<le> length ids \<and> length ids \<le> limit \<and>
    (\<forall>i \<in> set (take k ids). \<exists>n. dict_get rows' i = Some n \<and> nt_status n \<noteq> PENDING) \<and>
    (\<forall>i. i \<notin> set (take (Suc k) ids) \<longrightarrow> dict_get rows' i = dict_get rows i) \<and>
    (if k = length ids then \<exists>sent failed. out = Ok (sent + failed, sent, failed, 0) \<and> sent + failed = length ids
     else out = Raise persistence_failed \<and> dc_commit (calls (ids ! k)) \<noteq> Committed)"
proof -
  note ids = recovery_ids_sound [OF assms(2), where window = window and now = now and limit = limit, folded assms(3)]
  obtain rows' out k where run: "dispatch_rows rnd fromiso True window now calls ids rows = (rows', out)" "k \<le> length ids"
    "\<forall>i \<in> set (take k ids). \<exists>n. dict_get rows' i = Some n \<and> nt_status n \<noteq> PENDING"
    "\<forall>i. i \<notin> set (take (Suc k) ids) \<longrightarrow> dict_get rows' i = dict_get rows i"
    "if k = length ids then out = Ok () else out = Raise persistence_failed \<and> dc_commit (calls (ids ! k)) \<noteq> Committed"
    using dispatch_rows_progress [OF assms(1) ids] by blast
  have "dispatch_pending_notifications rnd fromiso calls limit now window rows =
      (rows', ebind out (\<lambda>_. summarize_deliveries rows' ids))"
    using assms(1,3) run(1)
    by (simp add: dispatch_pending_notifications_def validate_pending_recovery_window_def summarized_def seconds_def Let_def)
  moreover have "length ids \<le> limit" by (simp add: assms(3) recovery_ids_def)
  moreover have "\<exists>sent failed. summarize_deliveries rows' ids = Ok (sent + failed, sent, failed, 0) \<and> sent + failed = length ids"
    if "k = length ids" using run(3) that by (intro summarize_settled [OF ids(1)]) simp
  ultimately show ?thesis using run(2-5)
    by (intro exI [of _ rows'] exI [of _ "ebind out (\<lambda>_. summarize_deliveries rows' ids)"] exI [of _ k])
      (auto split: if_splits)
qed

text \<open>
  The witness: of two abandoned rows the first is settled and the commit of the second fails for good.
\<close>

definition abandoned :: "int \<Rightarrow> notification" where
  "abandoned i = \<lparr>nt_id = i, nt_user_id = 2, nt_status = PENDING, nt_content = VDict [], nt_error_code = None,
     nt_error_message = None, nt_sent_at = None, nt_attempt_count = 0, nt_next_retry_at = None, nt_created_at = 0\<rparr>"

definition sweep_calls :: "int \<Rightarrow> delivery_call" where
  "sweep_calls i = \<lparr>dc_window = 0, dc_clock = 0, dc_now = 0, dc_outcome = SendOk,
     dc_commit = (if i = 1 then Committed else RolledBack), dc_first = (\<lambda>_. None, Committed), dc_second = (\<lambda>_. None, Committed)\<rparr>"

theorem recovery_sweep_settles_witness:
  "\<exists>rows' out k. dispatch_pending_notifications rnd64 (\<lambda>_. None) sweep_calls 100 (seconds 301) (seconds 300)
      [(1, abandoned 1), (2, abandoned 2)] = (rows', out) \<and> k \<le> 2 \<and>
    (if k = 2 then \<exists>sent failed. out = Ok (sent + failed, sent, failed, 0) \<and> sent + failed = 2
     else out = Raise persistence_failed \<and> dc_commit (sweep_calls ([1, 2] ! k)) \<noteq> Committed)"
proof -
  have w: "seconds 10 < seconds 300" by (simp add: seconds_def)
  have d: "distinct (dict_keys [(1 :: int, abandoned 1), (2, abandoned 2)])" by simp
  have "[1, 2] = recovery_ids (seconds 300) (seconds 301) 100 [(1, abandoned 1), (2, abandoned 2)]"
    by (simp add: recovery_ids_def recovery_candidate_def abandoned_def seconds_def)
  from recovery_sweep_settles [OF w d this, of rnd64 "\<lambda>_. None" sweep_calls]
  obtain rows' out k where r: "dispatch_pending_notifications rnd64 (\<lambda>_. None) sweep_calls 100 (seconds 301) (seconds 300)
      [(1, abandoned 1), (2, abandoned 2)] = (rows', out)" "k \<le> length [1 :: int, 2]"
    "if k = length [1 :: int, 2] then \<exists>sent failed. out = Ok (sent + failed, sent, failed, 0) \<and> sent + failed = length [1 :: int, 2]
     else out = Raise persistence_failed \<and> dc_commit (sweep_calls ([1, 2] ! k)) \<noteq> Committed" by blast
  have two: "length [1 :: int, 2] = 2" by simp
  from r show ?thesis unfolding two by blast
qed

end
