(* ===== verification/Trading_Calendar.thy ===== *)
theory Trading_Calendar
  imports Python_Values
begin

text \<open>
  The trading calendar (\<open>services/trading_calendar_import.py\<close>,
  \<open>services/trading_calendar_service.py\<close>, the calendar repository of the market data hub and the seed
  of the first migration): the operator's annual manifest is validated, expanded
  to one expectation per day, and reconciled with the stored rows; the service answers which
  confirmed trading day precedes a date and refuses to guess. A date is its proleptic Gregorian
  ordinal, so adding a day adds one. Parsing ISO dates and URLs is the standard library's and a
  parameter; the stored rows of the market are passed in and returned.
\<close>

section \<open>Dates\<close>

text \<open>
  The ordinal of a date of the proleptic Gregorian calendar, as \<open>date.toordinal\<close> counts, the first
  and the last day of a year, and the weekday with Monday as 0.
\<close>

definition days_before_year :: "int \<Rightarrow> int" where
  "days_before_year y = (let z = y - 1 in z * 365 + z div 4 - z div 100 + z div 400)"

definition is_leap :: "int \<Rightarrow> bool" where
  "is_leap y \<longleftrightarrow> y mod 4 = 0 \<and> (y mod 100 \<noteq> 0 \<or> y mod 400 = 0)"

definition days_before_month :: "int \<Rightarrow> nat \<Rightarrow> int" where
  "days_before_month y m = [0, 31, 59, 90, 120, 151, 181, 212, 243, 273, 304, 334] ! (m - 1) +
     (if m > 2 \<and> is_leap y then 1 else 0)"

definition ordinal :: "int \<Rightarrow> nat \<Rightarrow> int \<Rightarrow> int" where
  "ordinal y m d = days_before_year y + days_before_month y m + d"

definition jan_1 :: "int \<Rightarrow> int" where "jan_1 y = ordinal y 1 1"
definition dec_31 :: "int \<Rightarrow> int" where "dec_31 y = ordinal y 12 31"

definition weekday :: "int \<Rightarrow> int" where "weekday d = (d + 6) mod 7"

definition in_year :: "int \<Rightarrow> int \<Rightarrow> bool" where
  "in_year y d \<longleftrightarrow> jan_1 y \<le> d \<and> d \<le> dec_31 y"

section \<open>The annual manifest\<close>

record annual_calendar =
  ac_year :: int
  ac_sources :: pyval
  ac_closures :: "(int \<times> int) list"

record url_parts =
  url_scheme :: string
  url_username :: "string option"
  url_password :: "string option"
  url_port :: "int option result"
  url_hostname :: "string option"
  url_path :: string

definition OFFICIAL_EXCHANGES :: "(string, string) dict" where
  "OFFICIAL_EXCHANGES = [(''SH'', ''sse.com.cn''), (''SZ'', ''szse.cn''), (''BJ'', ''bse.cn'')]"

definition manifest_keys :: "string list" where
  "manifest_keys = [''year'', ''market'', ''sources'', ''closed_ranges'', ''operator_confirmed'']"

text \<open>\<open>isinstance(v, dict) and set(v) == names\<close>.\<close>

definition dict_with_keys :: "pyval \<Rightarrow> string list \<Rightarrow> (pyval \<times> pyval) list option" where
  "dict_with_keys v names = (case v of
      VDict d \<Rightarrow> if set (map fst d) = VStr ` set names then Some d else None | _ \<Rightarrow> None)"

definition entry :: "(pyval \<times> pyval) list \<Rightarrow> string \<Rightarrow> pyval" where
  "entry d name = (case mapping_get d name of Some v \<Rightarrow> v | None \<Rightarrow> VNone)"

definition check_source :: "(string \<Rightarrow> url_parts result) \<Rightarrow> string \<Rightarrow> pyval \<Rightarrow> unit result" where
  "check_source urlsplit suffix url = (case url of
      VStr s \<Rightarrow> ebind (urlsplit s) (\<lambda>u.
        let hostname = lower (case url_hostname u of None \<Rightarrow> [] | Some h \<Rightarrow> h);
            refused = Raise (ValueError ''source URL must point to an official exchange HTTPS announcement'')
        in if url_scheme u \<noteq> ''https'' \<or> url_username u \<noteq> None \<or> url_password u \<noteq> None then refused
           else ebind (url_port u) (\<lambda>port.
             if port \<notin> {None, Some 443} \<or> hostname \<notin> {suffix, ''www.'' @ suffix} \<or>
                \<not> starts_with ''/'' (url_path u) \<or> url_path u = ''/''
             then refused else Ok ()))
    | _ \<Rightarrow> Raise (ValueError ''exchange source URLs must be HTTPS''))"

definition closed_range :: "(string \<Rightarrow> int option) \<Rightarrow> int \<Rightarrow> pyval \<Rightarrow> (int \<times> int) result" where
  "closed_range fromisoformat year period = (case period of
      VList [VStr a, VStr b] \<Rightarrow> (case (fromisoformat a, fromisoformat b) of
        (Some first, Some final) \<Rightarrow>
          if \<not> in_year year first \<or> \<not> in_year year final \<or> first > final
          then Raise (ValueError ''closed range must be within the selected year'') else Ok (first, final)
      | _ \<Rightarrow> Raise (ValueError ''closure dates must be ISO dates''))
    | _ \<Rightarrow> Raise (ValueError ''each closure is a [start, end] ISO date pair''))"

text \<open>Neighbouring ranges of the sorted list must not touch.\<close>

definition ranges_disjoint :: "(int \<times> int) list \<Rightarrow> bool" where
  "ranges_disjoint rs \<longleftrightarrow> list_all (\<lambda>(before, after). snd before < fst after) (zip rs (tl rs))"

definition sort_ranges :: "(int \<times> int) list \<Rightarrow> (int \<times> int) list" where
  "sort_ranges rs = sort_key fst (sort_key snd rs)"

definition parse_annual_calendar ::
  "(string \<Rightarrow> url_parts result) \<Rightarrow> (string \<Rightarrow> int option) \<Rightarrow> pyval \<Rightarrow> annual_calendar result"
where
  "parse_annual_calendar urlsplit fromisoformat payload = (case dict_with_keys payload manifest_keys of
      None \<Rightarrow> Raise (ValueError ''calendar manifest has an invalid top-level shape'')
    | Some d \<Rightarrow> (case entry d ''year'' of
        VInt year \<Rightarrow>
          if \<not> (2025 \<le> year \<and> year \<le> 2100)
          then Raise (ValueError ''calendar year must be an integer from 2025 to 2100'')
          else if entry d ''market'' \<noteq> VStr ''CN''
          then Raise (ValueError ''only the shared CN calendar is supported'')
          else if entry d ''operator_confirmed'' \<noteq> VBool True
          then Raise (ValueError ''official exchange announcements must be confirmed by an operator'')
          else (case dict_with_keys (entry d ''sources'') (map fst OFFICIAL_EXCHANGES) of
              None \<Rightarrow> Raise (ValueError ''all three official SH/SZ/BJ source URLs are required'')
            | Some sources \<Rightarrow>
                ebind (traverse (\<lambda>(exchange, suffix). check_source urlsplit suffix (entry sources exchange)) OFFICIAL_EXCHANGES) (\<lambda>_.
                case entry d ''closed_ranges'' of
                  VList (p # ps) \<Rightarrow>
                    ebind (traverse (closed_range fromisoformat year) (p # ps)) (\<lambda>ranges.
                    if ranges_disjoint (sort_ranges ranges)
                    then Ok \<lparr>ac_year = year, ac_sources = VDict sources, ac_closures = sort_ranges ranges\<rparr>
                    else Raise (ValueError ''overlapping annual closure ranges are not permitted''))
                | _ \<Rightarrow> Raise (ValueError ''closed_ranges must list the official closure periods'')))
      | _ \<Rightarrow> Raise (ValueError ''calendar year must be an integer from 2025 to 2100'')))"

definition is_closed :: "(int \<times> int) list \<Rightarrow> int \<Rightarrow> bool" where
  "is_closed closures d \<longleftrightarrow> weekday d \<ge> 5 \<or> list_ex (\<lambda>(first, final). first \<le> d \<and> d \<le> final) closures"

text \<open>The loop \<open>while current <= end\<close>.\<close>

function days_loop :: "(int \<times> int) list \<Rightarrow> int \<Rightarrow> int \<Rightarrow> (int, bool) dict \<Rightarrow> (int, bool) dict" where
  "days_loop closures current final acc =
     (if current \<le> final
      then days_loop closures (current + 1) final (dict_set current (\<not> is_closed closures current) acc)
      else acc)"
  by pat_completeness auto
termination
  by (relation "measure (\<lambda>(_, current, final, _). nat (final + 1 - current))") auto

declare days_loop.simps [simp del]

definition expected_days :: "annual_calendar \<Rightarrow> (int, bool) dict" where
  "expected_days c = days_loop (ac_closures c) (jan_1 (ac_year c)) (dec_31 (ac_year c)) []"

section \<open>Importing a year\<close>

datatype calendar_status = OPEN | CLOSED | CALENDAR_UNKNOWN

record calendar_row =
  cr_expected :: "bool option"
  cr_actual :: "bool option"
  cr_status :: calendar_status
  cr_source :: "string option"
  cr_metadata :: pyval

record import_counts =
  ic_created :: nat
  ic_updated :: nat
  ic_conflicts :: nat

definition provenance :: "annual_calendar \<Rightarrow> pyval" where
  "provenance c = as_object [(''year'', VInt (ac_year c)), (''sources'', ac_sources c), (''operator_confirmed'', VBool True)]"

definition contradicts :: "calendar_row \<Rightarrow> bool \<Rightarrow> bool" where
  "contradicts row expected \<longleftrightarrow> (case cr_actual row of None \<Rightarrow> False | Some a \<Rightarrow> a \<noteq> expected)"

definition expect :: "annual_calendar \<Rightarrow> bool \<Rightarrow> calendar_row \<Rightarrow> calendar_row" where
  "expect c expected row = row\<lparr>cr_expected := Some expected,
     cr_status := (if contradicts row expected then CALENDAR_UNKNOWN else if expected then OPEN else CLOSED),
     cr_source := Some ''OFFICIAL_ANNUAL'', cr_metadata := provenance c\<rparr>"

text \<open>
  The stored source is compared with the one the import would write. Python compares dictionaries
  without regard to the order of their entries; here the order counts, which makes no difference for
  rows an import of the same manifest wrote, since the JSON column keeps the order it was given.
\<close>

definition up_to_date :: "annual_calendar \<Rightarrow> bool \<Rightarrow> calendar_row \<Rightarrow> bool" where
  "up_to_date c expected row \<longleftrightarrow> cr_expected row = Some expected \<and> cr_source row = Some ''OFFICIAL_ANNUAL'' \<and>
     cr_metadata row = provenance c"

definition new_row :: calendar_row where
  "new_row = \<lparr>cr_expected = None, cr_actual = None, cr_status = CALENDAR_UNKNOWN, cr_source = None, cr_metadata = VNone\<rparr>"

text \<open>One day of the import loop, and the loop.\<close>

definition import_day ::
  "annual_calendar \<Rightarrow> int \<times> bool \<Rightarrow> (int, calendar_row) dict \<times> import_counts \<Rightarrow> (int, calendar_row) dict \<times> import_counts"
where
  "import_day c day_expected st = (case (day_expected, st) of ((d, expected), (rows, counts)) \<Rightarrow>
     (case dict_get rows d of
        None \<Rightarrow> (dict_set d (expect c expected new_row) rows, counts\<lparr>ic_created := ic_created counts + 1\<rparr>)
      | Some row \<Rightarrow>
          if up_to_date c expected row
          then (rows, if contradicts row expected then counts\<lparr>ic_conflicts := ic_conflicts counts + 1\<rparr> else counts)
          else (dict_set d (expect c expected row) rows,
            counts\<lparr>ic_updated := ic_updated counts + 1,
              ic_conflicts := ic_conflicts counts + (if contradicts row expected then 1 else 0)\<rparr>)))"

definition import_annual_calendar ::
  "annual_calendar \<Rightarrow> bool \<Rightarrow> (int, calendar_row) dict \<Rightarrow> ((int, calendar_row) dict \<times> import_counts) result"
where
  "import_annual_calendar c replace_existing rows =
     (let expected = expected_days c;
          in_force = filter (\<lambda>(d, _). in_year (ac_year c) d) rows
      in if \<not> replace_existing \<and> list_ex (\<lambda>(d, row). cr_expected row \<noteq> None \<and> cr_expected row \<noteq> dict_get expected d) in_force
         then Raise (ValueError ''calendar expected schedule differs; use --replace-existing only after verifying an official correction'')
         else Ok (fold (import_day c) expected (rows, \<lparr>ic_created = 0, ic_updated = 0, ic_conflicts = 0\<rparr>)))"

section \<open>Seed and observations\<close>

text \<open>The first migration seeds the years 2025 and 2026 from the exchange's announcements.\<close>

definition seed_closures :: "int \<Rightarrow> (int \<times> int) list" where
  "seed_closures y =
     (if y = 2025
      then [(ordinal 2025 1 1, ordinal 2025 1 1), (ordinal 2025 1 28, ordinal 2025 2 4),
            (ordinal 2025 4 4, ordinal 2025 4 6), (ordinal 2025 5 1, ordinal 2025 5 5),
            (ordinal 2025 5 31, ordinal 2025 6 2), (ordinal 2025 10 1, ordinal 2025 10 8)]
      else [(ordinal 2026 1 1, ordinal 2026 1 3), (ordinal 2026 2 15, ordinal 2026 2 23),
            (ordinal 2026 4 4, ordinal 2026 4 6), (ordinal 2026 5 1, ordinal 2026 5 5),
            (ordinal 2026 6 19, ordinal 2026 6 21), (ordinal 2026 9 25, ordinal 2026 9 27),
            (ordinal 2026 10 1, ordinal 2026 10 7)])"

definition seed_url :: "int \<Rightarrow> string" where
  "seed_url y = (if y = 2025
     then ''https://www.sse.com.cn/disclosure/dealinstruc/closed/c/c_20241223_10767110.shtml''
     else ''https://www.sse.com.cn/disclosure/announcement/general/c/c_20251222_10802507.shtml'')"

definition seed_row :: "int \<Rightarrow> int \<Rightarrow> calendar_row" where
  "seed_row y d = (let closed = is_closed (seed_closures y) d in
     \<lparr>cr_expected = Some (\<not> closed), cr_actual = None, cr_status = (if closed then CLOSED else OPEN),
      cr_source = Some ''SSE_ANNUAL'', cr_metadata = as_object [(''year'', VInt y), (''url'', VStr (seed_url y))]\<rparr>)"

definition seed_trading_calendar :: "(int, calendar_row) dict" where
  "seed_trading_calendar = concat (map (\<lambda>y. map (\<lambda>d. (d, seed_row y d)) [jan_1 y..dec_31 y]) [2025, 2026])"

text \<open>The hub records whether the market really traded on a day.\<close>

definition validate_day :: "int \<Rightarrow> bool \<Rightarrow> string \<Rightarrow> (int, calendar_row) dict \<Rightarrow> (int, calendar_row) dict" where
  "validate_day d actual source rows = dict_set d (case dict_get rows d of
      None \<Rightarrow> \<lparr>cr_expected = None, cr_actual = Some actual, cr_status = (if actual then OPEN else CLOSED),
        cr_source = Some source, cr_metadata = as_object []\<rparr>
    | Some row \<Rightarrow> row\<lparr>cr_actual := Some actual,
        cr_status := (if cr_expected row \<noteq> None \<and> cr_expected row \<noteq> Some actual then CALENDAR_UNKNOWN
          else if actual then OPEN else CLOSED)\<rparr>) rows"

text \<open>Every table the two services can produce from the seed.\<close>

inductive calendar_reachable :: "(int, calendar_row) dict \<Rightarrow> bool" where
  seeded: "calendar_reachable seed_trading_calendar"
| imported: "calendar_reachable rows \<Longrightarrow> import_annual_calendar c replace_existing rows = Inr (rows', counts)
    \<Longrightarrow> calendar_reachable rows'"
| validated: "calendar_reachable rows \<Longrightarrow> calendar_reachable (validate_day d actual source rows)"

section \<open>Confirmed trading days\<close>

definition calendar_status_of :: "(int, calendar_row) dict \<Rightarrow> int \<Rightarrow> calendar_status result" where
  "calendar_status_of rows d = (case dict_get rows d of
      None \<Rightarrow> Raise (RuntimeError ''trading calendar is unavailable'')
    | Some row \<Rightarrow> if cr_status row = CALENDAR_UNKNOWN then Raise (RuntimeError ''trading calendar is unavailable'')
        else Ok (cr_status row))"

definition calendar_is_open :: "(int, calendar_row) dict \<Rightarrow> int \<Rightarrow> bool result" where
  "calendar_is_open rows d = emap (\<lambda>s. s = OPEN) (calendar_status_of rows d)"

text \<open>\<open>bisect_left\<close> on a sorted tuple: how many elements are smaller.\<close>

definition bisect_left :: "int list \<Rightarrow> int \<Rightarrow> nat" where
  "bisect_left xs x = length (takeWhile (\<lambda>y. y < x) xs)"

definition status_at :: "(int, calendar_row) dict \<Rightarrow> int \<Rightarrow> calendar_status option" where
  "status_at rows d = map_option cr_status (dict_get rows d)"

text \<open>The inner \<open>while\<close>: every day from \<open>current\<close> up to \<open>target\<close> is confirmed closed.\<close>

function all_closed :: "(int, calendar_row) dict \<Rightarrow> int \<Rightarrow> int \<Rightarrow> bool" where
  "all_closed rows current target =
     (if current < target
      then status_at rows current = Some CLOSED \<and> all_closed rows (current + 1) target
      else True)"
  by pat_completeness auto
termination
  by (relation "measure (\<lambda>(_, current, target). nat (target - current))") auto

declare all_closed.simps [simp del]

definition previous_open_date :: "(int, calendar_row) dict \<Rightarrow> int \<Rightarrow> int option" where
  "previous_open_date rows target =
     (if status_at rows target \<noteq> Some OPEN then None
      else
        let open_dates = map fst (filter (\<lambda>(_, row). cr_status row = OPEN) rows);
            index = bisect_left open_dates target
        in if index = 0 then None
           else
             let previous = open_dates ! (index - 1)
             in if all_closed rows (previous + 1) target then Some previous else None)"

text \<open>The query returns the rows up to the latest target in date order.\<close>

definition previous_open_dates :: "(int, calendar_row) dict \<Rightarrow> int list \<Rightarrow> (int, int option) dict" where
  "previous_open_dates stored trade_dates = (let targets = sorted_list_of_set (set trade_dates) in
     case targets of [] \<Rightarrow> []
     | _ \<Rightarrow> (let rows = sort_key fst (filter (\<lambda>(d, _). d \<le> last targets) stored)
         in map (\<lambda>t. (t, previous_open_date rows t)) targets))"

section \<open>Dates and expected days\<close>

lemma div_step:
  fixes y k :: int
  assumes "0 < k"
  shows "y div k = (y - 1) div k + (if y mod k = 0 then 1 else 0)"
proof (cases "y mod k = 0")
  case True
  have "(y - 1) div k = y div k - 1"
    using assms True mult_div_mod_eq [of k y]
    by (intro int_div_pos_eq [where r = "k - 1"]) (auto simp: algebra_simps)
  then show ?thesis using True by simp
next
  case False
  have "0 \<le> y mod k" "y mod k < k" using assms by simp_all
  then have "(y - 1) div k = y div k"
    using False mult_div_mod_eq [of k y]
    by (intro int_div_pos_eq [where r = "y mod k - 1"]) (auto simp: algebra_simps)
  then show ?thesis using False by simp
qed

lemma leap_sum:
  fixes a b c a' b' c' :: int
  assumes "a = a' + (if p then 1 else 0)" "b = b' + (if q then 1 else 0)" "c = c' + (if r then 1 else 0)"
    and "q \<Longrightarrow> p" "r \<Longrightarrow> q"
  shows "a - b + c = a' - b' + c' + (if p \<and> (\<not> q \<or> r) then 1 else 0)"
  using assms by (cases p; cases q; cases r) simp_all

lemma year_follows: "dec_31 y + 1 = jan_1 (y + 1)"
proof -
  have nested: "y mod 100 = 0 \<Longrightarrow> y mod 4 = 0" "y mod 400 = 0 \<Longrightarrow> y mod 100 = 0"
    using dvd_trans [of 4 100 y] dvd_trans [of 100 400 y] by (simp_all add: mod_eq_0_iff_dvd)
  define leap where "leap = (if is_leap y then 1 else 0 :: int)"
  have leap: "y div 4 - y div 100 + y div 400 = (y - 1) div 4 - (y - 1) div 100 + (y - 1) div 400 + leap"
    unfolding leap_def is_leap_def
    by (rule leap_sum [OF div_step div_step div_step nested]) (simp_all only: zero_less_numeral)
  have "dec_31 y = days_before_year y + 365 + leap"
    by (simp add: dec_31_def ordinal_def days_before_month_def leap_def)
  moreover have "jan_1 (y + 1) = days_before_year (y + 1) + 1"
    by (simp add: jan_1_def ordinal_def days_before_month_def)
  moreover have "days_before_year (y + 1) = y * 365 + (y div 4 - y div 100 + y div 400)"
    "days_before_year y = (y - 1) * 365 + ((y - 1) div 4 - (y - 1) div 100 + (y - 1) div 400)"
    by (simp_all only: days_before_year_def Let_def add_diff_cancel_right' add_diff_eq diff_add_eq)
  moreover have "(y - 1) * 365 + k + 365 + leap + 1 = y * 365 + (k + leap) + 1" for k by simp
  ultimately show ?thesis unfolding leap by (simp only:)
qed

lemma days_loop_upto:
  "(\<And>d. d \<in> set (dict_keys acc) \<Longrightarrow> d < current) \<Longrightarrow>
   days_loop closures current final acc = acc @ map (\<lambda>d. (d, \<not> is_closed closures d)) [current..final]"
proof (induction closures current final acc rule: days_loop.induct)
  case (1 closures current final acc)
  show ?case
  proof (cases "current \<le> final")
    case True
    have new: "current \<notin> set (dict_keys acc)" using 1(2) by force
    have "days_loop closures current final acc =
      days_loop closures (current + 1) final (dict_set current (\<not> is_closed closures current) acc)"
      using True by (simp add: days_loop.simps)
    also have "\<dots> = dict_set current (\<not> is_closed closures current) acc @
        map (\<lambda>d. (d, \<not> is_closed closures d)) [current + 1..final]"
      using 1(2) new by (intro 1(1)) (fastforce simp: True dict_set_keys)+
    finally show ?thesis using True new by (simp add: dict_set_new upto_rec1)
  next
    case False
    then show ?thesis by (simp add: days_loop.simps)
  qed
qed

lemma expected_days_eq:
  "expected_days c = map (\<lambda>d. (d, \<not> is_closed (ac_closures c) d)) [jan_1 (ac_year c)..dec_31 (ac_year c)]"
  by (simp add: expected_days_def days_loop_upto [where acc = "[]", simplified])

lemma year_window: "in_year y d \<longleftrightarrow> d \<in> set [jan_1 y..dec_31 y]"
  by (simp add: in_year_def)

section \<open>The import\<close>

text \<open>What the import leaves in the row of a day.\<close>

definition imported_row :: "annual_calendar \<Rightarrow> bool \<Rightarrow> calendar_row option \<Rightarrow> calendar_row" where
  "imported_row c expected stored = (case stored of
      None \<Rightarrow> expect c expected new_row
    | Some row \<Rightarrow> if up_to_date c expected row then row else expect c expected row)"

lemma import_day_rows:
  "dict_get (fst (import_day c (d, e) (rows, n))) = (dict_get rows)(d \<mapsto> imported_row c e (dict_get rows d))"
  by (auto simp: import_day_def imported_row_def split: option.split)

lemma import_days_rows:
  assumes "distinct (map fst days)"
  shows "dict_get (fst (fold (import_day c) days (rows, n))) d =
    (case dict_get days d of None \<Rightarrow> dict_get rows d | Some e \<Rightarrow> Some (imported_row c e (dict_get rows d)))"
  using assms
proof (induction days arbitrary: rows n)
  case Nil
  then show ?case by simp
next
  case (Cons x days)
  obtain d' e' where x: "x = (d', e')" by (cases x)
  obtain rows' n' where step: "import_day c x (rows, n) = (rows', n')" by (cases "import_day c x (rows, n)")
  have rows': "dict_get rows' = (dict_get rows)(d' \<mapsto> imported_row c e' (dict_get rows d'))"
    using import_day_rows [of c d' e' rows n] step x by simp
  have "dict_get days d' = None" using Cons.prems x by (simp add: map_of_eq_None_iff)
  then show ?case
    using Cons.IH [of rows' n'] Cons.prems x step rows' by (auto split: option.split)
qed

lemma expected_of_day:
  "dict_get (expected_days c) d =
     (if in_year (ac_year c) d then Some (\<not> is_closed (ac_closures c) d) else None)"
  unfolding expected_days_eq year_window by (simp add: map_of_map_restrict restrict_map_def)

lemma expected_days_distinct: "distinct (map fst (expected_days c))"
  by (simp add: expected_days_eq comp_def)

lemma import_rows:
  assumes "import_annual_calendar c replace_existing rows = Inr (rows', counts)"
  shows "dict_get rows' d = (if in_year (ac_year c) d
      then Some (imported_row c (\<not> is_closed (ac_closures c) d) (dict_get rows d)) else dict_get rows d)"
proof -
  have "rows' = fst (fold (import_day c) (expected_days c) (rows, \<lparr>ic_created = 0, ic_updated = 0, ic_conflicts = 0\<rparr>))"
    using assms unfolding import_annual_calendar_def Let_def by (auto split: if_splits)
  then show ?thesis
    by (simp add: import_days_rows [OF expected_days_distinct] expected_of_day)
qed

section \<open>Properties\<close>

text \<open>The verdict that follows from what was announced and what was observed.\<close>

fun verdict :: "bool option \<Rightarrow> bool option \<Rightarrow> calendar_status" where
  "verdict None None = CALENDAR_UNKNOWN"
| "verdict (Some e) None = (if e then OPEN else CLOSED)"
| "verdict None (Some a) = (if a then OPEN else CLOSED)"
| "verdict (Some e) (Some a) = (if e \<noteq> a then CALENDAR_UNKNOWN else if a then OPEN else CLOSED)"

definition row_consistent :: "calendar_row \<Rightarrow> bool" where
  "row_consistent row \<longleftrightarrow> cr_status row = verdict (cr_expected row) (cr_actual row)"

lemma expect_consistent: "row_consistent (expect c e row)"
  by (cases "cr_actual row") (auto simp: row_consistent_def expect_def contradicts_def)

lemma imported_row_consistent:
  "(\<And>row. stored = Some row \<Longrightarrow> row_consistent row) \<Longrightarrow> row_consistent (imported_row c e stored)"
  by (cases stored) (simp_all add: imported_row_def expect_consistent)

lemma seed_consistent:
  assumes "dict_get seed_trading_calendar d = Some row"
  shows "row_consistent row"
proof -
  have "(d, row) \<in> set seed_trading_calendar" using assms by (rule map_of_SomeD)
  then obtain y where "row = seed_row y d"
    unfolding seed_trading_calendar_def by auto
  then show ?thesis by (simp add: seed_row_def row_consistent_def Let_def)
qed

lemma validate_consistent:
  assumes "\<And>d row. dict_get rows d = Some row \<Longrightarrow> row_consistent row"
    and "dict_get (validate_day d actual source rows) d' = Some row"
  shows "row_consistent row"
proof (cases "d' = d")
  case False
  then show ?thesis using assms by (simp add: validate_day_def)
next
  case True
  show ?thesis
  proof (cases "dict_get rows d")
    case None
    then show ?thesis using assms(2) True by (auto simp: validate_day_def row_consistent_def)
  next
    case (Some old)
    then have "row = old\<lparr>cr_actual := Some actual, cr_status :=
        (if cr_expected old \<noteq> None \<and> cr_expected old \<noteq> Some actual then CALENDAR_UNKNOWN
         else if actual then OPEN else CLOSED)\<rparr>"
      using assms(2) True by (simp add: validate_day_def)
    then show ?thesis by (cases "cr_expected old") (simp_all add: row_consistent_def)
  qed
qed

text \<open>
  C28: Whatever annual imports and observations happen after the seed, in whatever order, the status
  stored for a day is the verdict of its announcement and its observation: \<open>OPEN\<close> or \<open>CLOSED\<close> only when
  no stored evidence says otherwise, and \<open>UNKNOWN\<close> exactly when the two contradict each other or neither
  exists.
\<close>

theorem calendar_verdicts:
  assumes "calendar_reachable rows" and "dict_get rows d = Some row"
  shows "cr_status row = verdict (cr_expected row) (cr_actual row)"
proof -
  have "\<forall>d row. dict_get rows d = Some row \<longrightarrow> row_consistent row"
    using assms(1)
  proof (induction rule: calendar_reachable.induct)
    case seeded
    then show ?case using seed_consistent by blast
  next
    case (imported rows c replace_existing rows' counts)
    then show ?case
      by (auto simp: import_rows [OF imported(2)] intro: imported_row_consistent split: if_splits)
  next
    case (validated rows d actual source)
    then show ?case using validate_consistent by blast
  qed
  then show ?thesis using assms(2) by (simp add: row_consistent_def)
qed

lemma seed_window_2025: "jan_1 2025 = 739252" "dec_31 2025 = 739616"
  by (simp_all add: jan_1_def dec_31_def ordinal_def days_before_month_def days_before_year_def is_leap_def)

lemma seed_lookup:
  assumes "in_year 2025 d"
  shows "dict_get seed_trading_calendar d = Some (seed_row 2025 d)"
proof -
  have "dict_get (map (\<lambda>d. (d, seed_row 2025 d)) [jan_1 2025..dec_31 2025]) d = Some (seed_row 2025 d)"
    using assms unfolding year_window by (simp add: map_of_map_restrict restrict_map_def)
  then show ?thesis by (simp add: seed_trading_calendar_def map_add_def split: option.split)
qed

theorem calendar_verdicts_witness:
  "calendar_reachable (validate_day 739253 False ''eltdx'' seed_trading_calendar) \<and>
   dict_get (validate_day 739253 False ''eltdx'' seed_trading_calendar) 739253 =
     Some ((seed_row 2025 739253)\<lparr>cr_actual := Some False, cr_status := CALENDAR_UNKNOWN\<rparr>) \<and>
   verdict (Some True) (Some False) = CALENDAR_UNKNOWN"
proof -
  have reach: "calendar_reachable (validate_day 739253 False ''eltdx'' seed_trading_calendar)"
    by (rule calendar_reachable.validated [OF calendar_reachable.seeded])
  have e: "cr_expected (seed_row 2025 739253) = Some True"
    by (simp add: seed_row_def is_closed_def weekday_def seed_closures_def ordinal_def days_before_month_def
        days_before_year_def is_leap_def)
  have row: "dict_get (validate_day 739253 False ''eltdx'' seed_trading_calendar) 739253 =
     Some ((seed_row 2025 739253)\<lparr>cr_actual := Some False, cr_status := CALENDAR_UNKNOWN\<rparr>)"
    using seed_lookup [of 739253] e by (simp add: validate_day_def in_year_def seed_window_2025)
  show ?thesis using reach row calendar_verdicts [OF reach row] e by simp
qed

lemma imported_row_current: "up_to_date c e (imported_row c e stored)"
  by (cases stored) (simp_all add: imported_row_def expect_def up_to_date_def)

text \<open>
  A successful import of a year gives every day of that year a row that expects the market open
  exactly on the weekdays outside the announced closures and names the announcement as its source,
  keeps the observation already recorded for the day, and leaves every other day alone. Without the
  operator's override it never changes an expectation already stored.
\<close>

theorem import_calendar_exact:
  assumes "import_annual_calendar c replace_existing rows = Inr (rows', counts)"
  shows "(in_year (ac_year c) d \<and> (\<exists>row. dict_get rows' d = Some row \<and>
        cr_expected row = Some (weekday d < 5 \<and> list_all (\<lambda>(a, b). d < a \<or> b < d) (ac_closures c)) \<and>
        cr_source row = Some ''OFFICIAL_ANNUAL'' \<and> cr_metadata row = provenance c \<and>
        cr_actual row = Option.bind (dict_get rows d) cr_actual)
      \<or> \<not> in_year (ac_year c) d \<and> dict_get rows' d = dict_get rows d) \<and>
     (\<not> replace_existing \<longrightarrow> dict_get rows d = Some old \<longrightarrow> cr_expected old \<noteq> None \<longrightarrow>
       map_option cr_expected (dict_get rows' d) = Some (cr_expected old))"
proof -
  let ?e = "\<not> is_closed (ac_closures c) d"
  have e: "?e = (weekday d < 5 \<and> list_all (\<lambda>(a, b). d < a \<or> b < d) (ac_closures c))"
    by (auto simp: is_closed_def list_all_iff list_ex_iff)
  have actual: "cr_actual (imported_row c ?e stored) = Option.bind stored cr_actual" for stored
    by (cases stored) (simp_all add: imported_row_def expect_def new_row_def)
  have windows: "(in_year (ac_year c) d \<and> (\<exists>row. dict_get rows' d = Some row \<and>
        cr_expected row = Some (weekday d < 5 \<and> list_all (\<lambda>(a, b). d < a \<or> b < d) (ac_closures c)) \<and>
        cr_source row = Some ''OFFICIAL_ANNUAL'' \<and> cr_metadata row = provenance c \<and>
        cr_actual row = Option.bind (dict_get rows d) cr_actual)
      \<or> \<not> in_year (ac_year c) d \<and> dict_get rows' d = dict_get rows d)"
    using imported_row_current [of c ?e "dict_get rows d"] import_rows [OF assms, of d] actual
    unfolding e up_to_date_def by simp
  have kept: "map_option cr_expected (dict_get rows' d) = Some (cr_expected old)"
    if "\<not> replace_existing" "dict_get rows d = Some old" "cr_expected old \<noteq> None"
  proof (cases "in_year (ac_year c) d")
    case False
    then show ?thesis using import_rows [OF assms, of d] that by simp
  next
    case True
    have "(d, old) \<in> set (filter (\<lambda>(d, _). in_year (ac_year c) d) rows)"
      using that(2) True by (simp add: map_of_SomeD)
    moreover have "\<not> list_ex (\<lambda>(d, row). cr_expected row \<noteq> None \<and> cr_expected row \<noteq> dict_get (expected_days c) d)
        (filter (\<lambda>(d, _). in_year (ac_year c) d) rows)"
      using assms that(1) unfolding import_annual_calendar_def Let_def by (simp split: if_splits)
    ultimately have "cr_expected old = dict_get (expected_days c) d"
      using that(3) unfolding list_ex_iff by blast
    then have "cr_expected old = Some ?e" using True by (simp add: expected_of_day)
    then show ?thesis
      using True import_rows [OF assms, of d] imported_row_current [of c ?e "dict_get rows d"]
      by (simp add: up_to_date_def)
  qed
  show ?thesis using windows kept by blast
qed

definition calendar_2025 :: annual_calendar where
  "calendar_2025 = \<lparr>ac_year = 2025, ac_sources = as_object [], ac_closures = seed_closures 2025\<rparr>"

definition observed_row :: calendar_row where
  "observed_row = \<lparr>cr_expected = Some True, cr_actual = Some False, cr_status = CALENDAR_UNKNOWN,
     cr_source = Some ''SSE_ANNUAL'', cr_metadata = as_object []\<rparr>"

theorem import_calendar_exact_witness:
  "\<exists>rows' counts row. import_annual_calendar calendar_2025 False [(739253, observed_row)] = Inr (rows', counts) \<and>
     dict_get rows' 739253 = Some row \<and> cr_expected row = Some True \<and> cr_actual row = Some False \<and>
     cr_source row = Some ''OFFICIAL_ANNUAL''"
proof -
  note dates = calendar_2025_def in_year_def seed_window_2025 weekday_def seed_closures_def ordinal_def
    days_before_month_def days_before_year_def is_leap_def
  have e: "dict_get (expected_days calendar_2025) 739253 = Some True"
    by (simp add: expected_of_day is_closed_def dates)
  have ok: "\<exists>r. import_annual_calendar calendar_2025 False [(739253, observed_row)] = Inr r"
    unfolding import_annual_calendar_def Let_def by (simp add: e observed_row_def)
  then obtain rows' counts where i: "import_annual_calendar calendar_2025 False [(739253, observed_row)] = Inr (rows', counts)"
    by (metis surj_pair)
  have y: "in_year (ac_year calendar_2025) 739253"
    and w: "weekday 739253 < 5 \<and> list_all (\<lambda>(a, b). 739253 < a \<or> b < 739253) (ac_closures calendar_2025)"
    by (simp_all add: dates)
  have "\<exists>row. dict_get rows' 739253 = Some row \<and> cr_expected row = Some True \<and>
      cr_source row = Some ''OFFICIAL_ANNUAL'' \<and>
      cr_actual row = Option.bind (dict_get [(739253, observed_row)] 739253) cr_actual"
    using import_calendar_exact [OF i, of 739253 observed_row] y w by auto
  then show ?thesis using i by (auto simp: observed_row_def)
qed

lemma import_day_keys: "distinct (dict_keys (fst st)) \<Longrightarrow> distinct (dict_keys (fst (import_day c de st)))"
  by (cases st; cases de) (simp add: import_day_def dict_set_distinct split: option.split)

lemma import_days_keys: "distinct (dict_keys (fst st)) \<Longrightarrow> distinct (dict_keys (fst (fold (import_day c) days st)))"
  by (induction days arbitrary: st) (simp_all add: import_day_keys)

lemma import_days_idle:
  assumes "\<And>d e. (d, e) \<in> set days \<Longrightarrow> \<exists>row. dict_get rows d = Some row \<and> up_to_date c e row"
  shows "\<exists>k. fold (import_day c) days (rows, n) = (rows, n\<lparr>ic_conflicts := k\<rparr>)"
  using assms
proof (induction days arbitrary: n)
  case Nil
  have "(rows, n) = (rows, n\<lparr>ic_conflicts := ic_conflicts n\<rparr>)" by simp
  then show ?case by (simp only: fold_simps) blast
next
  case (Cons x days)
  obtain d e where x: "x = (d, e)" by (cases x)
  obtain row where row: "dict_get rows d = Some row" "up_to_date c e row"
    using Cons.prems [of d e] x by auto
  obtain k where "import_day c x (rows, n) = (rows, n\<lparr>ic_conflicts := k\<rparr>)"
    using row x by (cases "contradicts row e") (auto simp: import_day_def intro: that [of "ic_conflicts n"])
  then show ?case using Cons.IH [of "n\<lparr>ic_conflicts := k\<rparr>"] Cons.prems by simp
qed

text \<open>
  Importing the same announcement again is accepted, with or without the override, creates and
  updates nothing and leaves the table exactly as it is.
\<close>

theorem import_calendar_idempotent:
  assumes "distinct (dict_keys rows)"
    and "import_annual_calendar c replace_existing rows = Inr (rows', counts)"
  shows "\<exists>conflicts. import_annual_calendar c replace_again rows' =
    Inr (rows', \<lparr>ic_created = 0, ic_updated = 0, ic_conflicts = conflicts\<rparr>)"
proof -
  let ?n = "\<lparr>ic_created = 0, ic_updated = 0, ic_conflicts = 0\<rparr>"
  have "rows' = fst (fold (import_day c) (expected_days c) (rows, ?n))"
    using assms(2) unfolding import_annual_calendar_def Let_def by (auto split: if_splits)
  then have keys: "distinct (dict_keys rows')" using assms(1) by (simp add: import_days_keys)
  have current: "\<exists>row. dict_get rows' d = Some row \<and> up_to_date c e row" if "dict_get (expected_days c) d = Some e" for d e
    using import_rows [OF assms(2), of d] that imported_row_current [of c e "dict_get rows d"]
    by (simp add: expected_of_day split: if_splits)
  have agrees: "cr_expected row = dict_get (expected_days c) d" if "(d, row) \<in> set rows'" "in_year (ac_year c) d" for d row
    using that keys current [of d] by (auto simp: expected_of_day up_to_date_def)
  have "\<exists>k. fold (import_day c) (expected_days c) (rows', ?n) = (rows', ?n\<lparr>ic_conflicts := k\<rparr>)"
    by (rule import_days_idle) (simp add: current expected_days_distinct)
  moreover have "\<not> list_ex (\<lambda>(d, row). cr_expected row \<noteq> None \<and> cr_expected row \<noteq> dict_get (expected_days c) d)
      (filter (\<lambda>(d, _). in_year (ac_year c) d) rows')"
    using agrees unfolding list_ex_iff by auto
  ultimately show ?thesis unfolding import_annual_calendar_def Let_def by (simp only: if_False simp_thms) auto
qed

theorem import_calendar_idempotent_witness:
  "\<exists>rows' conflicts. import_annual_calendar calendar_2025 False rows' =
     Inr (rows', \<lparr>ic_created = 0, ic_updated = 0, ic_conflicts = conflicts\<rparr>)"
proof -
  have "\<exists>r. import_annual_calendar calendar_2025 False [] = Inr r"
    unfolding import_annual_calendar_def Let_def by simp
  then obtain rows' counts where "import_annual_calendar calendar_2025 False [] = Inr (rows', counts)"
    by (metis surj_pair)
  then show ?thesis using import_calendar_idempotent [of "[]" calendar_2025 False rows' counts False] by auto
qed

section \<open>The preceding trading day\<close>

lemma all_closed_iff:
  "all_closed rows current target \<longleftrightarrow> (\<forall>d. current \<le> d \<and> d < target \<longrightarrow> status_at rows d = Some CLOSED)"
proof (induction rows current target rule: all_closed.induct)
  case (1 rows current target)
  show ?case
  proof (cases "current < target")
    case True
    have "(\<forall>d. current \<le> d \<and> d < target \<longrightarrow> status_at rows d = Some CLOSED) \<longleftrightarrow>
        status_at rows current = Some CLOSED \<and>
        (\<forall>d. current + 1 \<le> d \<and> d < target \<longrightarrow> status_at rows d = Some CLOSED)"
      using True by (metis add1_zle_eq order_le_less order_refl)
    then show ?thesis using 1 True by (simp add: all_closed.simps [of rows current])
  next
    case False
    then show ?thesis by (auto simp: all_closed.simps [of rows current])
  qed
qed

lemma bisect_left_previous:
  assumes "sorted xs" "bisect_left xs t \<noteq> 0"
  shows "xs ! (bisect_left xs t - 1) \<in> set xs" "xs ! (bisect_left xs t - 1) < t"
    "\<And>y. y \<in> set xs \<Longrightarrow> y < t \<Longrightarrow> y \<le> xs ! (bisect_left xs t - 1)"
proof -
  define n where "n = bisect_left xs t"
  have n: "0 < n" "n \<le> length xs" using assms(2) length_takeWhile_le by (auto simp: n_def bisect_left_def)
  then show "xs ! (bisect_left xs t - 1) \<in> set xs" by (simp flip: n_def)
  have pre: "xs ! i < t" if "i < n" for i
    using that nth_mem [of i "takeWhile (\<lambda>y. y < t) xs"]
    by (simp add: n_def bisect_left_def takeWhile_nth) (metis set_takeWhileD takeWhile_nth)
  then show "xs ! (bisect_left xs t - 1) < t" using n by (simp flip: n_def)
  show "y \<le> xs ! (bisect_left xs t - 1)" if y: "y \<in> set xs" "y < t" for y
  proof -
    obtain i where i: "i < length xs" "xs ! i = y" using y(1) by (auto simp: in_set_conv_nth)
    have "i < n"
    proof (rule ccontr)
      assume "\<not> i < n"
      then have "n < length xs" "xs ! n \<le> xs ! i" using i assms(1) by (auto intro: sorted_nth_mono)
      then show False using y(2) i nth_length_takeWhile [of "\<lambda>y. y < t" xs] by (simp add: n_def bisect_left_def)
    qed
    then show ?thesis using i assms(1) n by (auto simp flip: n_def intro: sorted_nth_mono)
  qed
qed

lemma bisect_left_zero: "sorted xs \<Longrightarrow> bisect_left xs t = 0 \<Longrightarrow> y \<in> set xs \<Longrightarrow> t \<le> y"
  by (cases xs) (auto simp: bisect_left_def split: if_splits)

lemma status_at_Some:
  "distinct (dict_keys rows) \<Longrightarrow> status_at rows d = Some v \<longleftrightarrow> (\<exists>row. (d, row) \<in> set rows \<and> cr_status row = v)"
  by (auto simp: status_at_def)

lemma sorted_last_max: "sorted xs \<Longrightarrow> x \<in> set xs \<Longrightarrow> x \<le> last (xs :: int list)"
  by (induction xs) auto

text \<open>When a date directly follows a trading day, on the evidence of the stored rows.\<close>

definition directly_follows :: "(int, calendar_row) dict \<Rightarrow> int \<Rightarrow> int \<Rightarrow> bool" where
  "directly_follows rows p t \<longleftrightarrow> p < t \<and> status_at rows p = Some OPEN \<and> status_at rows t = Some OPEN \<and>
     (\<forall>d. p < d \<and> d < t \<longrightarrow> status_at rows d = Some CLOSED)"

lemma directly_follows_unique: "directly_follows rows p t \<Longrightarrow> directly_follows rows q t \<Longrightarrow> p = q"
  unfolding directly_follows_def by (metis calendar_status.distinct(1) linorder_neqE option.inject)

lemma previous_open_date_iff:
  assumes "sorted (dict_keys rows)" "distinct (dict_keys rows)"
  shows "previous_open_date rows t = Some p \<longleftrightarrow> directly_follows rows p t"
proof -
  define opens where "opens = map fst (filter (\<lambda>(_, row). cr_status row = OPEN) rows)"
  have sorted: "sorted opens" unfolding opens_def using assms(1) by (rule sorted_filter)
  have opens: "d \<in> set opens \<longleftrightarrow> status_at rows d = Some OPEN" for d
    unfolding status_at_Some [OF assms(2)] opens_def by force
  note unfolded = previous_open_date_def Let_def opens_def [symmetric]
  have forward: "directly_follows rows p t" if "previous_open_date rows t = Some p" for p
  proof -
    have *: "status_at rows t = Some OPEN" "bisect_left opens t \<noteq> 0" "p = opens ! (bisect_left opens t - 1)"
        "all_closed rows (p + 1) t"
      using that unfolding unfolded by (auto split: if_splits)
    then show ?thesis
      using bisect_left_previous [OF sorted *(2)] opens [of p]
      by (simp add: directly_follows_def all_closed_iff)
  qed
  have backward: "previous_open_date rows t \<noteq> None" if f: "directly_follows rows p t"
  proof -
    have p: "p \<in> set opens" "p < t" "status_at rows t = Some OPEN"
      using f opens by (simp_all add: directly_follows_def)
    have b: "bisect_left opens t \<noteq> 0" using bisect_left_zero [OF sorted _ p(1)] p(2) by fastforce
    define q where "q = opens ! (bisect_left opens t - 1)"
    have q: "status_at rows q = Some OPEN" "q < t" "p \<le> q"
      using bisect_left_previous [OF sorted b] p opens [of q] by (simp_all add: q_def)
    then have "p = q" using f unfolding directly_follows_def
      by (metis calendar_status.distinct(1) option.inject order_le_less)
    then have "all_closed rows (q + 1) t" using f by (simp add: all_closed_iff directly_follows_def)
    then show ?thesis using p(3) b unfolding unfolded by (simp add: q_def)
  qed
  show ?thesis using forward backward directly_follows_unique by blast
qed

lemma status_at_upto:
  assumes "distinct (dict_keys stored)" "d \<le> b"
  shows "status_at (sort_key fst (filter (\<lambda>(d, _). d \<le> b) stored)) d = status_at stored d"
proof -
  let ?rows = "sort_key fst (filter (\<lambda>(d, _). d \<le> b) stored)"
  have "distinct (dict_keys (filter (\<lambda>(d, _). d \<le> b) stored))"
    using assms(1) by (rule distinct_map_filter)
  then have "distinct (dict_keys ?rows)" by (simp add: distinct_map)
  then have "status_at ?rows d = Some v \<longleftrightarrow> status_at stored d = Some v" for v
    using assms by (simp add: status_at_Some) 
  then show ?thesis by (metis option.exhaust)
qed

text \<open>
  The calendar answers every requested date, and names a preceding trading day exactly when the
  stored rows prove it: both days are confirmed open and every day between them is confirmed closed.
  A missing or undecided day in between yields no answer rather than a guess.
\<close>

theorem previous_open_exact:
  assumes "distinct (dict_keys stored)"
  shows "set (dict_keys (previous_open_dates stored dates)) = set dates \<and>
    (dict_get (previous_open_dates stored dates) t = Some (Some p) \<longleftrightarrow>
       t \<in> set dates \<and> p < t \<and> status_at stored p = Some OPEN \<and> status_at stored t = Some OPEN \<and>
       (\<forall>d. p < d \<and> d < t \<longrightarrow> status_at stored d = Some CLOSED))"
proof (cases "dates = []")
  case True
  then show ?thesis by (simp add: previous_open_dates_def)
next
  case False
  define targets where "targets = sorted_list_of_set (set dates)"
  define rows where "rows = sort_key fst (filter (\<lambda>(d, _). d \<le> last targets) stored)"
  have targets: "targets \<noteq> []" "set targets = set dates" "sorted targets"
    using False by (simp_all add: targets_def)
  have result: "previous_open_dates stored dates = map (\<lambda>t. (t, previous_open_date rows t)) targets"
    using targets(1) by (simp add: previous_open_dates_def Let_def rows_def flip: targets_def split: list.split)
  have rows: "sorted (dict_keys rows)" "distinct (dict_keys rows)"
    using distinct_map_filter [OF assms] by (simp_all add: rows_def distinct_map)
  have within: "t \<le> last targets" if "t \<in> set dates"
    using that targets by (simp add: sorted_last_max)
  have status: "status_at rows d = status_at stored d" if "d \<le> t" "t \<in> set dates" for d
    using that within status_at_upto [OF assms] by (simp add: rows_def)
  have "dict_get (previous_open_dates stored dates) t = Some (Some p) \<longleftrightarrow>
      t \<in> set dates \<and> directly_follows rows p t"
    unfolding result by (simp add: map_of_map_restrict restrict_map_def targets previous_open_date_iff [OF rows])
  also have "\<dots> \<longleftrightarrow> t \<in> set dates \<and> directly_follows stored p t"
  proof (cases "t \<in> set dates")
    case True
    then have same: "status_at rows d = status_at stored d" if "d \<le> t" for d using status that by blast
    show ?thesis
      unfolding directly_follows_def by (simp add: same cong: conj_cong imp_cong)
  qed simp
  finally show ?thesis unfolding directly_follows_def result by (simp add: targets comp_def)
qed

theorem previous_open_exact_witness:
  "dict_get (previous_open_dates [(9 :: int, seed_row 2025 739256\<lparr>cr_status := OPEN\<rparr>),
     (8, seed_row 2025 739255\<lparr>cr_status := CLOSED\<rparr>), (7, seed_row 2025 739254\<lparr>cr_status := OPEN\<rparr>)] [9]) 9 = Some (Some 7)"
proof -
  let ?rows = "[(9 :: int, seed_row 2025 739256\<lparr>cr_status := OPEN\<rparr>),
     (8, seed_row 2025 739255\<lparr>cr_status := CLOSED\<rparr>), (7, seed_row 2025 739254\<lparr>cr_status := OPEN\<rparr>)]"
  have between: "\<forall>d. 7 < d \<and> d < 9 \<longrightarrow> status_at ?rows d = Some CLOSED"
  proof (intro allI impI)
    fix d :: int assume "7 < d \<and> d < 9"
    then have "d = 8" by simp
    then show "status_at ?rows d = Some CLOSED" by (simp add: status_at_def)
  qed
  have d: "distinct (dict_keys ?rows)" by simp
  show ?thesis using previous_open_exact [OF d, of "[9]" 9 7] between by (simp add: status_at_def)
qed

end
