(* ===== verification/Task_Lock.thy ===== *)
theory Task_Lock
  imports Python_Values
begin

text \<open>
  The Redis lease that keeps scheduled jobs from overlapping (\<open>tasks/locks.py\<close>). Redis is a
  parameter: a record of the four primitives the lock uses, over an abstract server state, with
  their documented behaviour as \<open>redis_laws\<close>. The two Lua scripts are part of the source and are
  modelled on top of the primitives; the server runs a script atomically. A client call may be
  refused as unsupported, or fail with its request or its reply lost. Several workers sharing one
  server, and keys that expire, form a transition system at the end of the theory.
\<close>

section \<open>The server\<close>

record 's redis_client =
  rc_get :: "string \<Rightarrow> 's \<Rightarrow> string option"
  rc_set_nx :: "string \<Rightarrow> string \<Rightarrow> int \<Rightarrow> 's \<Rightarrow> bool \<times> 's"
  rc_del :: "string \<Rightarrow> 's \<Rightarrow> int \<times> 's"
  rc_expire :: "string \<Rightarrow> int \<Rightarrow> 's \<Rightarrow> int \<times> 's"

definition redis_laws :: "'s redis_client \<Rightarrow> bool" where
  "redis_laws R \<longleftrightarrow>
     (\<forall>k v ttl s. 0 < ttl \<longrightarrow> rc_get R k s = None \<longrightarrow> fst (rc_set_nx R k v ttl s)) \<and>
     (\<forall>k v ttl s j. 0 < ttl \<longrightarrow> rc_get R k s = None \<longrightarrow>
        rc_get R j (snd (rc_set_nx R k v ttl s)) = (if j = k then Some v else rc_get R j s)) \<and>
     (\<forall>k v ttl s v'. 0 < ttl \<longrightarrow> rc_get R k s = Some v' \<longrightarrow> rc_set_nx R k v ttl s = (False, s)) \<and>
     (\<forall>k s j. rc_get R j (snd (rc_del R k s)) = (if j = k then None else rc_get R j s)) \<and>
     (\<forall>k ttl s j. 0 < ttl \<longrightarrow> rc_get R j (snd (rc_expire R k ttl s)) = rc_get R j s) \<and>
     (\<forall>k ttl s. 0 < ttl \<longrightarrow> rc_get R k s \<noteq> None \<longrightarrow> fst (rc_expire R k ttl s) = 1)"

definition RELEASE_LOCK_SCRIPT :: "'s redis_client \<Rightarrow> string \<Rightarrow> string \<Rightarrow> 's \<Rightarrow> int \<times> 's" where
  "RELEASE_LOCK_SCRIPT R key token s = (if rc_get R key s = Some token then rc_del R key s else (0, s))"

definition RENEW_LOCK_SCRIPT :: "'s redis_client \<Rightarrow> string \<Rightarrow> string \<Rightarrow> int \<Rightarrow> 's \<Rightarrow> int \<times> 's" where
  "RENEW_LOCK_SCRIPT R key token ttl s = (if rc_get R key s = Some token then rc_expire R key ttl s else (0, s))"

text \<open>What happens to one call of the client.\<close>

datatype call_fate = Replied | Unsupported | Lost_request | Lost_reply

definition client_call :: "call_fate \<Rightarrow> ('s \<Rightarrow> 'a \<times> 's) \<Rightarrow> 's \<Rightarrow> 'a result \<times> 's" where
  "client_call fate f s = (case fate of
      Replied \<Rightarrow> (Ok (fst (f s)), snd (f s))
    | Unsupported \<Rightarrow> (Raise (AttributeError ''eval''), s)
    | Lost_request \<Rightarrow> (Raise (RuntimeError ''redis''), s)
    | Lost_reply \<Rightarrow> (Raise (RuntimeError ''redis''), snd (f s)))"

section \<open>The lock\<close>

record task_lock =
  tl_key :: string
  tl_ttl :: int
  tl_token :: string
  tl_acquired :: bool
  tl_heartbeat :: bool
  tl_lost :: bool

text \<open>
  The constructor. The token is drawn by \<open>secrets.token_urlsafe\<close> and passed in; of the values
  annotated \<open>int\<close>, a \<open>bool\<close> is on the left.
\<close>

definition RedisTaskLock :: "string \<Rightarrow> string \<Rightarrow> bool + int \<Rightarrow> task_lock result" where
  "RedisTaskLock token key ttl_seconds =
     (if key = [] \<or> strip key = [] then Raise (ValueError ''lock key is required'')
      else case ttl_seconds of
        Inl _ \<Rightarrow> Raise (ValueError ''lock ttl must be positive'')
      | Inr ttl \<Rightarrow> if ttl \<le> 0 then Raise (ValueError ''lock ttl must be positive'')
          else Ok \<lparr>tl_key = key, tl_ttl = ttl, tl_token = token, tl_acquired = False, tl_heartbeat = False, tl_lost = False\<rparr>)"

definition mark_lost :: "task_lock \<Rightarrow> task_lock" where
  "mark_lost l = l\<lparr>tl_acquired := False, tl_lost := True\<rparr>"

definition acquire :: "'s redis_client \<Rightarrow> call_fate \<Rightarrow> task_lock \<Rightarrow> 's \<Rightarrow> bool result \<times> task_lock \<times> 's" where
  "acquire R fate l s = (case client_call fate (rc_set_nx R (tl_key l) (tl_token l) (tl_ttl l)) s of
      (Inl _, s') \<Rightarrow> (Raise (TaskLockError ''task lock acquire failed''), l, s')
    | (Inr True, s') \<Rightarrow> (Ok True, l\<lparr>tl_acquired := True, tl_lost := False, tl_heartbeat := True\<rparr>, s')
    | (Inr False, s') \<Rightarrow> (Ok False, l\<lparr>tl_acquired := False\<rparr>, s'))"

text \<open>The calls of one operation are numbered; \<open>fates\<close> says what becomes of each.\<close>

definition renew :: "'s redis_client \<Rightarrow> (nat \<Rightarrow> call_fate) \<Rightarrow> task_lock \<Rightarrow> 's \<Rightarrow> bool result \<times> 's" where
  "renew R fates l s =
     (if \<not> tl_acquired l then (Ok False, s)
      else case client_call (fates 0) (RENEW_LOCK_SCRIPT R (tl_key l) (tl_token l) (tl_ttl l)) s of
        (Inr renewed, s1) \<Rightarrow> (Ok (renewed \<noteq> 0), s1)
      | (Inl (AttributeError _), s1) \<Rightarrow>
          (case client_call (fates 1) (\<lambda>s. (rc_get R (tl_key l) s, s)) s1 of
             (Inl e, s2) \<Rightarrow> (Raise e, s2)
           | (Inr owner, s2) \<Rightarrow>
               if owner \<noteq> Some (tl_token l) then (Ok False, s2)
               else (case client_call (fates 2) (rc_expire R (tl_key l) (tl_ttl l)) s2 of
                   (Inl e, s3) \<Rightarrow> (Raise e, s3)
                 | (Inr renewed, s3) \<Rightarrow> (Ok (renewed \<noteq> 0), s3)))
      | (Inl _, s1) \<Rightarrow> (Raise (TaskLockError ''task lock renew failed''), s1))"

text \<open>
  One round of the heartbeat task after its sleep. An exception that is not a \<open>TaskLockError\<close>
  ends the task without marking the lease lost.
\<close>

definition heartbeat_round :: "'s redis_client \<Rightarrow> (nat \<Rightarrow> call_fate) \<Rightarrow> task_lock \<Rightarrow> 's \<Rightarrow> task_lock \<times> 's" where
  "heartbeat_round R fates l s = (case renew R fates l s of
      (Inl (TaskLockError _), s') \<Rightarrow> ((mark_lost l)\<lparr>tl_heartbeat := False\<rparr>, s')
    | (Inl _, s') \<Rightarrow> (l\<lparr>tl_heartbeat := False\<rparr>, s')
    | (Inr renewed, s') \<Rightarrow> (if renewed then l else (mark_lost l)\<lparr>tl_heartbeat := False\<rparr>, s'))"

definition assert_owned :: "task_lock \<Rightarrow> unit result" where
  "assert_owned l = (if \<not> tl_acquired l \<or> tl_lost l then Raise (TaskLockError ''task lock lease was lost'') else Ok ())"

text \<open>
  The release, as one step: the heartbeat is cancelled and awaited before anything else happens. A
  heartbeat task that had ended with another exception than its cancellation would hand it to the
  release; that takes a client without EVAL whose plain calls fail, and is left out.
\<close>

definition release :: "'s redis_client \<Rightarrow> (nat \<Rightarrow> call_fate) \<Rightarrow> task_lock \<Rightarrow> 's \<Rightarrow> unit result \<times> task_lock \<times> 's" where
  "release R fates l s =
     (let l = l\<lparr>tl_heartbeat := False\<rparr>; failed = Raise (TaskLockError ''task lock release failed'') in
      if \<not> tl_acquired l then (Ok (), l, s)
      else
        let (r, s') = (case client_call (fates 0) (RELEASE_LOCK_SCRIPT R (tl_key l) (tl_token l)) s of
            (Inr _, s1) \<Rightarrow> (Ok (), s1)
          | (Inl (AttributeError _), s1) \<Rightarrow>
              (case client_call (fates 1) (\<lambda>s. (rc_get R (tl_key l) s, s)) s1 of
                 (Inl _, s2) \<Rightarrow> (failed, s2)
               | (Inr owner, s2) \<Rightarrow>
                   if owner = Some (tl_token l)
                   then (case client_call (fates 2) (rc_del R (tl_key l)) s2 of
                       (Inl _, s3) \<Rightarrow> (failed, s3)
                     | (Inr _, s3) \<Rightarrow> (Ok (), s3))
                   else (Ok (), s2))
          | (Inl _, s1) \<Rightarrow> (failed, s1))
        in (r, l\<lparr>tl_acquired := False\<rparr>, s'))"

definition lock_aenter :: "'s redis_client \<Rightarrow> call_fate \<Rightarrow> task_lock \<Rightarrow> 's \<Rightarrow> unit result \<times> task_lock \<times> 's" where
  "lock_aenter R fate l s = (case acquire R fate l s of (r, l', s') \<Rightarrow>
     (ebind r (\<lambda>ok. if ok then Ok () else Raise (TaskLockError ''task lock is already held'')), l', s'))"

section \<open>Workers sharing a server\<close>

text \<open>
  The state of the transition system: each worker's lock, the server, and, for the statement of the
  theorems only, the workers that have not heard from the server since a key last expired.
\<close>

record ('w, 's) lease_system =
  ls_lock :: "'w \<Rightarrow> task_lock"
  ls_server :: 's
  ls_unchecked :: "'w set"

text \<open>
  A worker acquires, runs a heartbeat or releases against a server that evaluates scripts; between
  any two calls the server may let keys expire.
\<close>

inductive lease_step :: "'s redis_client \<Rightarrow> ('w, 's) lease_system \<Rightarrow> ('w, 's) lease_system \<Rightarrow> bool"
  for R :: "'s redis_client"
where
  step_acquire: "acquire R fate (ls_lock \<sigma> w) (ls_server \<sigma>) = (r, l, s) \<Longrightarrow>
    lease_step R \<sigma> \<lparr>ls_lock = (ls_lock \<sigma>)(w := l), ls_server = s,
      ls_unchecked = (if isl r then ls_unchecked \<sigma> else ls_unchecked \<sigma> - {w})\<rparr>"
| step_heartbeat: "tl_heartbeat (ls_lock \<sigma> w) \<Longrightarrow> fates 0 \<noteq> Unsupported \<Longrightarrow>
    heartbeat_round R fates (ls_lock \<sigma> w) (ls_server \<sigma>) = (l, s) \<Longrightarrow>
    lease_step R \<sigma> \<lparr>ls_lock = (ls_lock \<sigma>)(w := l), ls_server = s, ls_unchecked = ls_unchecked \<sigma> - {w}\<rparr>"
| step_release: "fates 0 \<noteq> Unsupported \<Longrightarrow> release R fates (ls_lock \<sigma> w) (ls_server \<sigma>) = (r, l, s) \<Longrightarrow>
    lease_step R \<sigma> \<lparr>ls_lock = (ls_lock \<sigma>)(w := l), ls_server = s, ls_unchecked = ls_unchecked \<sigma>\<rparr>"
| step_expiry: "(\<And>k. rc_get R k s = rc_get R k (ls_server \<sigma>) \<or> rc_get R k s = None) \<Longrightarrow>
    lease_step R \<sigma> \<lparr>ls_lock = ls_lock \<sigma>, ls_server = s, ls_unchecked = UNIV\<rparr>"

definition lease_start :: "('w, 's) lease_system \<Rightarrow> bool" where
  "lease_start \<sigma> \<longleftrightarrow> (\<forall>w. \<not> tl_acquired (ls_lock \<sigma> w) \<and> 0 < tl_ttl (ls_lock \<sigma> w)) \<and>
     inj (\<lambda>w. tl_token (ls_lock \<sigma> w))"

inductive lease_reachable :: "'s redis_client \<Rightarrow> ('w, 's) lease_system \<Rightarrow> bool" for R :: "'s redis_client" where
  start: "lease_start \<sigma> \<Longrightarrow> lease_reachable R \<sigma>"
| continue: "lease_reachable R \<sigma> \<Longrightarrow> lease_step R \<sigma> \<sigma>' \<Longrightarrow> lease_reachable R \<sigma>'"

inductive_cases lease_stepE: "lease_step R \<sigma> \<sigma>'"

section \<open>What the calls do to the server\<close>

lemma redis_lawsD:
  assumes "redis_laws R"
  shows set_nx_free: "0 < ttl \<Longrightarrow> rc_get R k s = None \<Longrightarrow> fst (rc_set_nx R k v ttl s)"
      "0 < ttl \<Longrightarrow> rc_get R k s = None \<Longrightarrow>
        rc_get R j (snd (rc_set_nx R k v ttl s)) = (if j = k then Some v else rc_get R j s)"
    and set_nx_held: "0 < ttl \<Longrightarrow> rc_get R k s = Some v' \<Longrightarrow> rc_set_nx R k v ttl s = (False, s)"
    and get_del: "rc_get R j (snd (rc_del R k s)) = (if j = k then None else rc_get R j s)"
    and get_expire: "0 < ttl \<Longrightarrow> rc_get R j (snd (rc_expire R k ttl s)) = rc_get R j s"
    and expire_held: "0 < ttl \<Longrightarrow> rc_get R k s \<noteq> None \<Longrightarrow> fst (rc_expire R k ttl s) = 1"
  by (simp_all add: assms [unfolded redis_laws_def])

lemma client_call_server: "snd (client_call fate f s) = s \<or> snd (client_call fate f s) = snd (f s)"
  by (cases fate) (simp_all add: client_call_def)

lemma client_call_cases:
  obtains (reply) "client_call fate f s = (Inr (fst (f s)), snd (f s))" "fate = Replied"
  | (unsupported) "client_call fate f s = (Inl (AttributeError ''eval''), s)" "fate = Unsupported"
  | (lost) s' where "client_call fate f s = (Inl (RuntimeError ''redis''), s')" "s' = s \<or> s' = snd (f s)"
      "fate \<noteq> Unsupported"
  by (cases fate) (simp_all add: client_call_def)

lemma script_get:
  assumes "redis_laws R"
  shows "rc_get R j (snd (RELEASE_LOCK_SCRIPT R k t s)) = (if j = k \<and> rc_get R k s = Some t then None else rc_get R j s)"
    and "0 < ttl \<Longrightarrow> rc_get R j (snd (RENEW_LOCK_SCRIPT R k t ttl s)) = rc_get R j s"
  by (simp_all add: RELEASE_LOCK_SCRIPT_def RENEW_LOCK_SCRIPT_def get_del [OF assms] get_expire [OF assms])

lemma renew_get:
  assumes laws: "redis_laws R" and ttl: "0 < tl_ttl l"
  shows "rc_get R j (snd (renew R fates l s)) = rc_get R j s"
proof (cases "tl_acquired l")
  case True
  let ?script = "RENEW_LOCK_SCRIPT R (tl_key l) (tl_token l) (tl_ttl l)"
  show ?thesis
  proof (rule client_call_cases [of "fates 0" ?script s])
    assume "client_call (fates 0) ?script s = (Inl (AttributeError ''eval''), s)"
    then show ?thesis
      by (cases "fates 1"; cases "fates 2") (simp_all add: renew_def client_call_def True get_expire [OF laws ttl])
  qed (auto simp: renew_def True script_get(2) [OF laws ttl])
qed (simp add: renew_def)

lemma release_get:
  assumes laws: "redis_laws R"
  shows "rc_get R j (snd (snd (release R fates l s))) = rc_get R j s \<or>
    j = tl_key l \<and> rc_get R j s = Some (tl_token l) \<and> rc_get R j (snd (snd (release R fates l s))) = None"
proof (cases "tl_acquired l")
  case True
  let ?script = "RELEASE_LOCK_SCRIPT R (tl_key l) (tl_token l)"
  show ?thesis
  proof (rule client_call_cases [of "fates 0" ?script s])
    assume "client_call (fates 0) ?script s = (Inl (AttributeError ''eval''), s)"
    then show ?thesis
      by (cases "fates 1"; cases "fates 2")
        (simp_all add: release_def Let_def client_call_def True get_del [OF laws] split: if_split)
  qed (auto simp: release_def Let_def True script_get(1) [OF laws] split: if_splits)
qed (simp add: release_def Let_def)

lemma release_lock:
  "fst (snd (release R fates l s)) = l\<lparr>tl_heartbeat := False, tl_acquired := False\<rparr>"
  by (cases "tl_acquired l") (simp_all add: release_def Let_def split_beta)

lemma acquire_get:
  assumes laws: "redis_laws R" and ttl: "0 < tl_ttl l" and run: "acquire R fate l s = (r, l', s')"
  shows "rc_get R j s' = rc_get R j s \<or> j = tl_key l \<and> rc_get R j s = None \<and> rc_get R j s' = Some (tl_token l)"
    and "isl r \<Longrightarrow> l' = l"
    and "tl_acquired l' \<Longrightarrow> \<not> isl r \<Longrightarrow> rc_get R (tl_key l) s' = Some (tl_token l)"
    and "tl_key l' = tl_key l \<and> tl_ttl l' = tl_ttl l \<and> tl_token l' = tl_token l"
proof -
  let ?set = "rc_set_nx R (tl_key l) (tl_token l) (tl_ttl l)"
  have set: "?set s = (True, snd (?set s)) \<and> rc_get R (tl_key l) s = None \<and>
      (\<forall>j. rc_get R j (snd (?set s)) = (if j = tl_key l then Some (tl_token l) else rc_get R j s))
    \<or> ?set s = (False, s)"
  proof (cases "rc_get R (tl_key l) s")
    case None
    then show ?thesis by (simp add: set_nx_free [OF laws ttl] prod_eq_iff)
  next
    case (Some v)
    then show ?thesis by (simp add: set_nx_held [OF laws ttl])
  qed
  have run: "s' \<in> {s, snd (?set s)} \<and> (isl r \<and> l' = l \<or> r = Inr False \<and> l' = l\<lparr>tl_acquired := False\<rparr> \<or>
      r = Inr True \<and> ?set s = (True, s') \<and> l' = l\<lparr>tl_acquired := True, tl_lost := False, tl_heartbeat := True\<rparr>)"
  proof (rule client_call_cases [of fate ?set s])
    assume "client_call fate ?set s = (Inr (fst (?set s)), snd (?set s))"
    then show ?thesis using run by (cases "?set s"; cases "fst (?set s)") (auto simp: acquire_def)
  qed (use run in \<open>auto simp: acquire_def\<close>)
  show "rc_get R j s' = rc_get R j s \<or> j = tl_key l \<and> rc_get R j s = None \<and> rc_get R j s' = Some (tl_token l)"
    using run set by (elim conjE insertE disjE) (simp_all split: if_split)
  show "isl r \<Longrightarrow> l' = l" using run by auto
  show "rc_get R (tl_key l) s' = Some (tl_token l)" if "tl_acquired l'" "\<not> isl r"
  proof -
    have "?set s = (True, s')" using run that by auto
    then show ?thesis using set by auto
  qed
  show "tl_key l' = tl_key l \<and> tl_ttl l' = tl_ttl l \<and> tl_token l' = tl_token l" using run by auto
qed

lemma renew_held:
  assumes "redis_laws R" "0 < tl_ttl l" "fates 0 \<noteq> Unsupported" "renew R fates l s = (Inr True, s')"
  shows "tl_acquired l \<and> rc_get R (tl_key l) s = Some (tl_token l)"
  using assms(3,4)
  by (cases "tl_acquired l"; cases "fates 0"; cases "rc_get R (tl_key l) s = Some (tl_token l)")
    (simp_all add: renew_def client_call_def RENEW_LOCK_SCRIPT_def)

lemma renew_error:
  assumes "fates 0 \<noteq> Unsupported" "renew R fates l s = (Inl e, s')"
  shows "e = TaskLockError ''task lock renew failed''"
  using assms by (cases "tl_acquired l"; cases "fates 0") (simp_all add: renew_def client_call_def)

lemma heartbeat_get:
  assumes "redis_laws R" "0 < tl_ttl l" "heartbeat_round R fates l s = (l', s')"
  shows "rc_get R j s' = rc_get R j s" "tl_key l' = tl_key l \<and> tl_ttl l' = tl_ttl l \<and> tl_token l' = tl_token l"
proof -
  obtain r where r: "renew R fates l s = (r, s')"
    using assms(3) by (auto simp: heartbeat_round_def split: sum.splits exn.splits prod.splits)
  show "rc_get R j s' = rc_get R j s" using renew_get [OF assms(1,2), of j fates s] r by simp
  show "tl_key l' = tl_key l \<and> tl_ttl l' = tl_ttl l \<and> tl_token l' = tl_token l"
    using assms(3) r by (auto simp: heartbeat_round_def mark_lost_def split: sum.splits exn.splits if_splits)
qed

lemma heartbeat_owner:
  assumes laws: "redis_laws R" "0 < tl_ttl l" and eval: "fates 0 \<noteq> Unsupported"
    and run: "heartbeat_round R fates l s = (l', s')"
  shows "tl_acquired l' \<Longrightarrow> rc_get R (tl_key l) s = Some (tl_token l) \<and> l' = l"
    and "\<not> tl_acquired l' \<Longrightarrow> tl_lost l'"
proof -
  obtain r where r: "renew R fates l s = (r, s')"
    using run by (auto simp: heartbeat_round_def split: sum.splits exn.splits prod.splits)
  have "r = Inr True \<and> l' = l \<or> l' = (mark_lost l)\<lparr>tl_heartbeat := False\<rparr>"
  proof (cases r)
    case (Inl e)
    then show ?thesis using run r renew_error [of fates R l s e s', OF eval] by (simp add: heartbeat_round_def)
  next
    case (Inr b)
    then show ?thesis using run r by (cases b) (simp_all add: heartbeat_round_def)
  qed
  then show "tl_acquired l' \<Longrightarrow> rc_get R (tl_key l) s = Some (tl_token l) \<and> l' = l" "\<not> tl_acquired l' \<Longrightarrow> tl_lost l'"
    using renew_held [of R l fates, OF laws eval] r by (auto simp: mark_lost_def)
qed

section \<open>Mutual exclusion\<close>

text \<open>A worker that believes it holds its lease, and has heard from the server since the last expiry, does.\<close>

definition lease_inv :: "'s redis_client \<Rightarrow> ('w, 's) lease_system \<Rightarrow> bool" where
  "lease_inv R \<sigma> \<longleftrightarrow> inj (\<lambda>w. tl_token (ls_lock \<sigma> w)) \<and> (\<forall>w. 0 < tl_ttl (ls_lock \<sigma> w)) \<and>
     (\<forall>w. w \<notin> ls_unchecked \<sigma> \<longrightarrow> tl_acquired (ls_lock \<sigma> w) \<longrightarrow>
        rc_get R (tl_key (ls_lock \<sigma> w)) (ls_server \<sigma>) = Some (tl_token (ls_lock \<sigma> w)))"

text \<open>One worker moves: the invariant survives when no other worker's key is disturbed.\<close>

lemma lease_inv_move:
  assumes inv: "lease_inv R \<sigma>"
    and same: "tl_key l = tl_key (ls_lock \<sigma> w)" "tl_ttl l = tl_ttl (ls_lock \<sigma> w)" "tl_token l = tl_token (ls_lock \<sigma> w)"
    and pending: "ls_unchecked \<sigma> - {w} \<subseteq> U"
    and own: "w \<notin> U \<Longrightarrow> tl_acquired l \<Longrightarrow> rc_get R (tl_key l) s = Some (tl_token l)"
    and others: "\<And>k t. rc_get R k (ls_server \<sigma>) = Some t \<Longrightarrow> t \<noteq> tl_token l \<Longrightarrow> rc_get R k s = Some t"
  shows "lease_inv R \<lparr>ls_lock = (ls_lock \<sigma>)(w := l), ls_server = s, ls_unchecked = U\<rparr>"
proof -
  have tokens: "(\<lambda>v. tl_token (((ls_lock \<sigma>)(w := l)) v)) = (\<lambda>v. tl_token (ls_lock \<sigma> v))"
    using same(3) by auto
  have "rc_get R (tl_key (ls_lock \<sigma> v)) s = Some (tl_token (ls_lock \<sigma> v))"
    if "v \<noteq> w" "v \<notin> U" "tl_acquired (ls_lock \<sigma> v)" for v
  proof (rule others)
    show "rc_get R (tl_key (ls_lock \<sigma> v)) (ls_server \<sigma>) = Some (tl_token (ls_lock \<sigma> v))"
      using inv that pending by (auto simp: lease_inv_def)
    show "tl_token (ls_lock \<sigma> v) \<noteq> tl_token l"
      using inv that(1) same(3) by (auto simp: lease_inv_def dest: injD)
  qed
  then show ?thesis using inv own same tokens unfolding lease_inv_def by auto
qed

lemma lease_inv_step:
  assumes laws: "redis_laws R" and inv: "lease_inv R \<sigma>" and step: "lease_step R \<sigma> \<sigma>'"
  shows "lease_inv R \<sigma>'"
proof -
  have ttl: "0 < tl_ttl (ls_lock \<sigma> w)" for w using inv by (simp add: lease_inv_def)
  show ?thesis
    using step
  proof (cases rule: lease_step.cases)
    case (step_acquire fate w r l s)
    note run = acquire_get [OF laws ttl step_acquire(2)]
    show ?thesis
      unfolding step_acquire(1)
    proof (rule lease_inv_move [OF inv])
      show "rc_get R (tl_key l) s = Some (tl_token l)"
        if "w \<notin> (if isl r then ls_unchecked \<sigma> else ls_unchecked \<sigma> - {w})" "tl_acquired l"
      proof (cases "isl r")
        case True
        then have "rc_get R (tl_key l) (ls_server \<sigma>) = Some (tl_token l)"
          using that run(2) inv by (simp add: lease_inv_def)
        then show ?thesis using run(1) [of "tl_key l"] by auto
      next
        case False
        then show ?thesis using that run(3,4) by simp
      qed
      show "rc_get R k s = Some t" if "rc_get R k (ls_server \<sigma>) = Some t" "t \<noteq> tl_token l" for k t
        using run(1) [of k] that by auto
    qed (use run(4) in auto)
  next
    case (step_heartbeat w fates l s)
    note run = heartbeat_get [OF laws ttl step_heartbeat(4)] heartbeat_owner [OF laws ttl step_heartbeat(3,4)]
    show ?thesis
      unfolding step_heartbeat(1) by (rule lease_inv_move [OF inv]) (use run in auto)
  next
    case (step_release fates w r l s)
    have lock: "l = (ls_lock \<sigma> w)\<lparr>tl_heartbeat := False, tl_acquired := False\<rparr>"
      using release_lock [of R fates "ls_lock \<sigma> w" "ls_server \<sigma>"] step_release(3) by simp
    show ?thesis
      unfolding step_release(1)
    proof (rule lease_inv_move [OF inv])
      show "rc_get R k s = Some t" if "rc_get R k (ls_server \<sigma>) = Some t" "t \<noteq> tl_token l" for k t
        using release_get [OF laws, of k fates "ls_lock \<sigma> w" "ls_server \<sigma>"] step_release(3) that lock by auto
    qed (use lock in auto)
  next
    case (step_expiry s)
    then show ?thesis using inv by (simp add: lease_inv_def)
  qed
qed

lemma lease_inv_reachable:
  assumes "redis_laws R" "lease_reachable R \<sigma>"
  shows "lease_inv R \<sigma>"
  using assms(2)
proof (induction rule: lease_reachable.induct)
  case (start \<sigma>)
  then show ?case by (simp add: lease_start_def lease_inv_def)
next
  case (continue \<sigma> \<sigma>')
  then show ?case using lease_inv_step [OF assms(1)] by blast
qed

text \<open>
  C6: Mutual exclusion. However the workers' acquisitions, heartbeats and releases interleave,
  whichever replies are lost and whenever keys expire, two workers that both heard from Redis since
  the last expiry never both believe they hold the same lease; in particular without an expiry
  at most one job runs under a key.
\<close>

theorem lease_mutual_exclusion:
  assumes "redis_laws R" and "lease_reachable R \<sigma>"
    and "tl_acquired (ls_lock \<sigma> w)" and "w \<notin> ls_unchecked \<sigma>"
    and "v \<noteq> w" and "tl_key (ls_lock \<sigma> v) = tl_key (ls_lock \<sigma> w)" and "v \<notin> ls_unchecked \<sigma>"
  shows "\<not> tl_acquired (ls_lock \<sigma> v)"
proof
  assume "tl_acquired (ls_lock \<sigma> v)"
  then have "Some (tl_token (ls_lock \<sigma> v)) = Some (tl_token (ls_lock \<sigma> w))"
    using lease_inv_reachable [OF assms(1,2)] assms(3-) unfolding lease_inv_def by metis
  then show False
    using lease_inv_reachable [OF assms(1,2)] assms(5) by (auto simp: lease_inv_def dest: injD)
qed

text \<open>A server that keeps its keys in a dictionary and never lets one expire on its own.\<close>

definition dict_redis :: "(string, string) dict redis_client" where
  "dict_redis = \<lparr>rc_get = (\<lambda>k s. dict_get s k),
     rc_set_nx = (\<lambda>k v _ s. if dict_get s k = None then (True, dict_set k v s) else (False, s)),
     rc_del = (\<lambda>k s. (if dict_get s k = None then 0 else 1, AList.delete k s)),
     rc_expire = (\<lambda>k _ s. (if dict_get s k = None then 0 else 1, s))\<rparr>"

lemma dict_redis_laws: "redis_laws dict_redis"
  by (auto simp: redis_laws_def dict_redis_def delete_conv')

definition free_lock :: "bool \<Rightarrow> task_lock" where
  "free_lock w = \<lparr>tl_key = ''jobs'', tl_ttl = 30, tl_token = (if w then ''a'' else ''b''),
     tl_acquired = False, tl_heartbeat = False, tl_lost = False\<rparr>"

definition two_workers :: "(bool, (string, string) dict) lease_system" where
  "two_workers = \<lparr>ls_lock = free_lock, ls_server = [], ls_unchecked = {}\<rparr>"

lemma first_acquires:
  "acquire dict_redis Replied (free_lock True) [] =
     (Ok True, (free_lock True)\<lparr>tl_acquired := True, tl_lost := False, tl_heartbeat := True\<rparr>, [(''jobs'', ''a'')])"
  by (simp add: acquire_def client_call_def dict_redis_def free_lock_def)

theorem lease_mutual_exclusion_witness:
  "\<exists>\<sigma>. lease_reachable dict_redis \<sigma> \<and> tl_acquired (ls_lock \<sigma> True) \<and> True \<notin> ls_unchecked \<sigma> \<and>
     False \<notin> ls_unchecked \<sigma> \<and> \<not> tl_acquired (ls_lock \<sigma> False)"
proof -
  let ?l = "(free_lock True)\<lparr>tl_acquired := True, tl_lost := False, tl_heartbeat := True\<rparr>"
  let ?\<sigma> = "\<lparr>ls_lock = free_lock(True := ?l), ls_server = [(''jobs'', ''a'')], ls_unchecked = {}\<rparr>"
  have "lease_start two_workers"
    by (auto simp: lease_start_def two_workers_def free_lock_def inj_def)
  moreover have "lease_step dict_redis two_workers ?\<sigma>"
    using lease_step.step_acquire [of dict_redis Replied two_workers True] first_acquires
    by (simp add: two_workers_def)
  ultimately have r: "lease_reachable dict_redis ?\<sigma>"
    by (blast intro: lease_reachable.intros)
  have "\<not> tl_acquired (ls_lock ?\<sigma> False)"
    by (rule lease_mutual_exclusion [OF dict_redis_laws r, of True]) (simp_all add: free_lock_def)
  then show ?thesis using r by (intro exI [of _ ?\<sigma>]) simp
qed

text \<open>
  A late or confused worker cannot disturb a lease it no longer owns. Whatever becomes of the
  individual calls, the fallback without scripts included, renewing changes no key, and releasing
  changes at most the worker's own key, only if that key still carries the worker's token; and after
  a release the worker no longer considers itself the owner.
\<close>

theorem foreign_lease_untouched:
  assumes "redis_laws R" and "0 < tl_ttl l"
  shows "rc_get R k (snd (renew R fates l s)) = rc_get R k s \<and>
    (k \<noteq> tl_key l \<or> rc_get R k s \<noteq> Some (tl_token l) \<longrightarrow>
       rc_get R k (snd (snd (release R fates l s))) = rc_get R k s) \<and>
    \<not> tl_acquired (fst (snd (release R fates l s)))"
  using renew_get [OF assms] release_get [OF assms(1), of k fates l s] release_lock [of R fates l s] by auto

theorem foreign_lease_untouched_witness:
  "rc_get dict_redis ''jobs'' (snd (snd (release dict_redis (\<lambda>_. Replied)
     ((free_lock True)\<lparr>tl_acquired := True\<rparr>) [(''jobs'', ''b'')]))) = Some ''b''"
  using foreign_lease_untouched [OF dict_redis_laws, of "(free_lock True)\<lparr>tl_acquired := True\<rparr>" "''jobs''"
      "\<lambda>_. Replied" "[(''jobs'', ''b'')]"]
  by (simp add: free_lock_def dict_redis_def)

text \<open>
  What a worker may still do with its lock object short of a new lease: heartbeat rounds while the
  heartbeat task runs, a release, and attempts to acquire that do not succeed.
\<close>

inductive worker_step :: "'s redis_client \<Rightarrow> task_lock \<Rightarrow> task_lock \<Rightarrow> bool" for R :: "'s redis_client" where
  beats: "tl_heartbeat l \<Longrightarrow> worker_step R l (fst (heartbeat_round R fates l s))"
| releases: "worker_step R l (fst (snd (release R fates l s)))"
| refused: "acquire R fate l s = (r, l', s') \<Longrightarrow> r \<noteq> Ok True \<Longrightarrow> worker_step R l l'"

lemma worker_step_lost: "worker_step R l l' \<Longrightarrow> \<not> tl_acquired l \<Longrightarrow> \<not> tl_acquired l'"
proof (induction rule: worker_step.induct)
  case (beats l fates s)
  then show ?case by (simp add: heartbeat_round_def renew_def mark_lost_def)
next
  case (releases l fates s)
  then show ?case by (simp add: release_lock)
next
  case (refused fate l s r l' s')
  then show ?case by (auto simp: acquire_def split: prod.splits sum.splits bool.splits)
qed

lemma worker_steps_lost: "(worker_step R)\<^sup>*\<^sup>* l l' \<Longrightarrow> \<not> tl_acquired l \<Longrightarrow> \<not> tl_acquired l'"
  by (induction rule: rtranclp_induct) (auto dest: worker_step_lost)

text \<open>
  C38: A lost lease is noticed at the next heartbeat. If Redis no longer holds the worker's token under
  its key, because the key expired or another job took it, then the round marks the lease lost and
  ends the heartbeat, and until a new lease is acquired every later ownership check raises, whatever
  the worker does in between. There is one exception: with a client that has no EVAL, when the plain
  read that replaces the script raises, the heartbeat ends without marking the lease lost.
\<close>

theorem lost_lease_detected:
  assumes "redis_laws R" and "0 < tl_ttl l" and gone: "rc_get R (tl_key l) s \<noteq> Some (tl_token l)"
    and round: "heartbeat_round R fates l s = (l', s')"
  shows "if tl_acquired l \<and> fates 0 = Unsupported \<and> fates 1 \<noteq> Replied
    then l' = l\<lparr>tl_heartbeat := False\<rparr> \<and> assert_owned l' = assert_owned l
    else \<not> tl_acquired l' \<and> tl_lost l' \<and> \<not> tl_heartbeat l' \<and>
      (\<forall>later. (worker_step R)\<^sup>*\<^sup>* l' later \<longrightarrow> assert_owned later = Raise (TaskLockError ''task lock lease was lost''))"
proof (cases "tl_acquired l \<and> fates 0 = Unsupported \<and> fates 1 \<noteq> Replied")
  case True
  then have "l' = l\<lparr>tl_heartbeat := False\<rparr>"
    using round by (cases "fates 1") (auto simp: heartbeat_round_def renew_def client_call_def)
  with True show ?thesis by (simp add: assert_owned_def)
next
  case False
  have "l' = (mark_lost l)\<lparr>tl_heartbeat := False\<rparr>"
  proof (cases "tl_acquired l")
    case True
    with False gone round show ?thesis
      by (cases "fates 0"; cases "fates 1") (auto simp: heartbeat_round_def renew_def client_call_def RENEW_LOCK_SCRIPT_def)
  next
    case False
    with round show ?thesis by (simp add: heartbeat_round_def renew_def)
  qed
  then have lost: "\<not> tl_acquired l' \<and> tl_lost l' \<and> \<not> tl_heartbeat l'" by (simp add: mark_lost_def)
  then have "assert_owned later = Raise (TaskLockError ''task lock lease was lost'')" if "(worker_step R)\<^sup>*\<^sup>* l' later" for later
    using worker_steps_lost [OF that] by (simp add: assert_owned_def)
  with lost False show ?thesis by auto
qed

theorem lost_lease_detected_witness:
  "\<exists>l' s'. heartbeat_round dict_redis (\<lambda>_. Replied) ((free_lock True)\<lparr>tl_acquired := True, tl_heartbeat := True\<rparr>)
       [(''jobs'', ''b'')] = (l', s') \<and> \<not> tl_heartbeat l' \<and>
     assert_owned (fst (snd (release dict_redis (\<lambda>_. Replied) l' s'))) = Raise (TaskLockError ''task lock lease was lost'')"
proof -
  let ?l = "(free_lock True)\<lparr>tl_acquired := True, tl_heartbeat := True\<rparr>"
  obtain l' s' where run: "heartbeat_round dict_redis (\<lambda>_. Replied) ?l [(''jobs'', ''b'')] = (l', s')" by fastforce
  have ttl: "0 < tl_ttl ?l" by (simp add: free_lock_def)
  have gone: "rc_get dict_redis (tl_key ?l) [(''jobs'', ''b'')] \<noteq> Some (tl_token ?l)" by (simp add: dict_redis_def free_lock_def)
  have "(worker_step dict_redis)\<^sup>*\<^sup>* l' (fst (snd (release dict_redis (\<lambda>_. Replied) l' s')))"
    by (intro r_into_rtranclp worker_step.releases)
  with lost_lease_detected [OF dict_redis_laws ttl gone run] run show ?thesis by auto
qed

end
