(* ===== verification/Market_Data.thy ===== *)
theory Market_Data
  imports Python_Values
begin

text \<open>
  The provider-neutral records of the market data hub (\<open>market-data-hub/app/domain/market_data.py\<close>):
  market, type and adjustment codes, the parsing of symbols and the inference of their exchange,
  and the validated records \<open>Security\<close>, \<open>Quote\<close>, \<open>DailyBar\<close> and \<open>Dividend\<close>. The enums are string
  enums, so a member and its text are interchangeable as input. Error messages leave out the quoted
  input. Decimals are exact; reading one from text (\<open>Decimal(str(v))\<close>) and reading ISO dates are
  parameters. A calendar date is its ordinal, an instant is in microseconds.
\<close>

section \<open>Codes\<close>

datatype market = SH | SZ | BJ

definition markets :: "(string \<times> market) list" where
  "markets = [(''SH'', SH), (''SZ'', SZ), (''BJ'', BJ)]"

fun market_value :: "market \<Rightarrow> string" where
  "market_value SH = ''SH''"
| "market_value SZ = ''SZ''"
| "market_value BJ = ''BJ''"

datatype security_type = STOCK | ETF

datatype adjustment = QFQ | UNADJUSTED

fun security_type_value :: "security_type \<Rightarrow> string" where
  "security_type_value STOCK = ''STOCK''"
| "security_type_value ETF = ''ETF''"

fun adjustment_value :: "adjustment \<Rightarrow> string" where
  "adjustment_value QFQ = ''qfq''"
| "adjustment_value UNADJUSTED = ''none''"

definition normalize_market :: "pyval \<Rightarrow> market result" where
  "normalize_market value = (case value of
      VStr s \<Rightarrow> (case map_of markets (upper (strip s)) of
          Some m \<Rightarrow> Ok m | None \<Rightarrow> Raise (UnknownMarketError ''unknown market''))
    | _ \<Rightarrow> Raise (UnknownMarketError ''unknown market''))"

definition normalize_security_type :: "pyval \<Rightarrow> security_type result" where
  "normalize_security_type value = (case value of
      VStr s \<Rightarrow> (case map_of [(''STOCK'', STOCK), (''ETF'', ETF)] (upper (strip s)) of
          Some t \<Rightarrow> Ok t | None \<Rightarrow> Raise (InvalidMarketDataError ''unknown security type''))
    | _ \<Rightarrow> Raise (InvalidMarketDataError ''unknown security type''))"

definition normalize_adjustment :: "pyval \<Rightarrow> adjustment result" where
  "normalize_adjustment value = (case value of
      VStr s \<Rightarrow> (case map_of [(''qfq'', QFQ), (''none'', UNADJUSTED)] (lower (strip s)) of
          Some a \<Rightarrow> Ok a | None \<Rightarrow> Raise (UnknownAdjustmentError ''unknown adjustment''))
    | _ \<Rightarrow> Raise (UnknownAdjustmentError ''unknown adjustment''))"

section \<open>Symbols\<close>

definition six_digits :: "string \<Rightarrow> bool" where
  "six_digits s \<longleftrightarrow> length s = 6 \<and> list_all is_digit s"

definition separator :: "char \<Rightarrow> bool" where
  "separator c \<longleftrightarrow> c = CHR ''.'' \<or> c = CHR '':''"

text \<open>
  The pattern: a market prefix with an optional separator before six digits, six digits with a
  separator and a market suffix, or six digits alone.
\<close>

definition match_symbol :: "string \<Rightarrow> (string \<times> string option) option" where
  "match_symbol c =
     (let rest = drop 2 c;
          code = (case rest of x # xs \<Rightarrow> if separator x then xs else rest | [] \<Rightarrow> rest)
      in if take 2 c \<in> set (map fst markets) \<and> six_digits code then Some (code, Some (take 2 c))
         else if six_digits (take 6 c) \<and> (case drop 6 c of x # xs \<Rightarrow> separator x \<and> xs \<in> set (map fst markets) | [] \<Rightarrow> False)
         then Some (take 6 c, Some (drop 7 c))
         else if six_digits c then Some (c, None) else None)"

definition parse_symbol :: "pyval \<Rightarrow> (string \<times> market option) result" where
  "parse_symbol value = (case value of
      VStr s \<Rightarrow>
        (let candidate = upper (strip s) in case match_symbol candidate of
           None \<Rightarrow>
             if take 2 candidate \<in> set (map fst markets) then Raise (InvalidMarketDataError ''invalid symbol format'')
             else if list_ex (\<lambda>p. starts_with p candidate) (map fst markets)
             then Raise (UnknownMarketError ''invalid market-qualified symbol'')
             else if CHR ''.'' \<in> set candidate \<or> CHR '':'' \<in> set candidate
             then Raise (UnknownMarketError ''unknown market-qualified symbol'')
             else Raise (InvalidMarketDataError ''invalid symbol format'')
         | Some (code, Some m) \<Rightarrow> emap (\<lambda>market. (code, Some market)) (normalize_market (VStr m))
         | Some (code, None) \<Rightarrow> Ok (code, None))
    | _ \<Rightarrow> Raise (InvalidMarketDataError ''symbol must be a string''))"

text \<open>The exchange of a bare code, by its leading digits.\<close>

definition code_market :: "string \<Rightarrow> market option" where
  "code_market code =
     (if starts_with ''900'' code then Some SH
      else if starts_with ''92'' code then Some BJ
      else if list_ex (\<lambda>p. starts_with p code) [''4'', ''8''] then Some BJ
      else if list_ex (\<lambda>p. starts_with p code) [''0'', ''1'', ''2'', ''3''] then Some SZ
      else if list_ex (\<lambda>p. starts_with p code) [''5'', ''6''] then Some SH
      else None)"

definition infer_market :: "pyval \<Rightarrow> market result" where
  "infer_market symbol = ebind (parse_symbol symbol) (\<lambda>(code, explicit_market).
     case explicit_market of
       Some m \<Rightarrow> Ok m
     | None \<Rightarrow> (case code_market code of
         Some m \<Rightarrow> Ok m | None \<Rightarrow> Raise (UnknownMarketError ''cannot infer market for symbol'')))"

definition normalize_symbol :: "pyval \<Rightarrow> string result" where
  "normalize_symbol value = ebind (parse_symbol value) (\<lambda>(code, _).
     emap (\<lambda>_. code) (infer_market value))"

section \<open>Field validation\<close>

text \<open>\<open>read_decimal v\<close> is \<open>Decimal(str(v))\<close>, with \<open>None\<close> when that raises.\<close>

definition decimal :: "(pyval \<Rightarrow> fl option) \<Rightarrow> pyval \<Rightarrow> string \<Rightarrow> real result" where
  "decimal read_decimal value field =
     (let invalid = Raise (InvalidMarketDataError (field @ '' must be a finite decimal''));
          check = (\<lambda>d. case d of Fin x \<Rightarrow> Ok x | _ \<Rightarrow> invalid)
      in case value of
           VBool _ \<Rightarrow> invalid
         | VDecimal d \<Rightarrow> check d
         | _ \<Rightarrow> (case read_decimal value of None \<Rightarrow> invalid | Some d \<Rightarrow> check d))"

definition optional_decimal :: "(pyval \<Rightarrow> fl option) \<Rightarrow> pyval \<Rightarrow> string \<Rightarrow> real option result" where
  "optional_decimal read_decimal value field =
     (if value = VNone then Ok None else emap Some (decimal read_decimal value field))"

datatype date_value = CalendarDate int | DateTime | DateText string | NotADate

definition calendar_date :: "(string \<Rightarrow> int option) \<Rightarrow> date_value \<Rightarrow> string \<Rightarrow> int result" where
  "calendar_date fromisoformat value field = (case value of
      DateTime \<Rightarrow> Raise (InvalidMarketDataError (field @ '' must be a calendar date, not datetime''))
    | CalendarDate d \<Rightarrow> Ok d
    | DateText s \<Rightarrow> (case fromisoformat (strip s) of
        Some d \<Rightarrow> Ok d
      | None \<Rightarrow> Raise (InvalidMarketDataError (field @ '' must be an ISO calendar date'')))
    | NotADate \<Rightarrow> Raise (InvalidMarketDataError (field @ '' must be a calendar date'')))"

text \<open>A timestamp with its UTC offset, one without, or something else.\<close>

datatype time_value = Aware int int | Naive | NotATime

definition utc_datetime :: "time_value \<Rightarrow> string \<Rightarrow> int result" where
  "utc_datetime value field = (case value of
      NotATime \<Rightarrow> Raise (InvalidMarketDataError (field @ '' must be a datetime''))
    | Naive \<Rightarrow> Raise (InvalidMarketDataError (field @ '' must include timezone information''))
    | Aware wall offset \<Rightarrow> Ok (wall - offset))"

definition validate_symbol_market :: "pyval \<Rightarrow> market \<Rightarrow> string result" where
  "validate_symbol_market symbol m =
     ebind (normalize_symbol symbol) (\<lambda>normalized.
     ebind (infer_market symbol) (\<lambda>inferred.
     if inferred \<noteq> m then Raise (InvalidMarketDataError ''symbol belongs to another market'') else Ok normalized))"

section \<open>Records\<close>

record security =
  se_symbol :: string
  se_name :: string
  se_market :: market
  se_type :: security_type
  se_exchange :: string

definition exchange_text :: "(pyval \<Rightarrow> string) \<Rightarrow> pyval \<Rightarrow> market \<Rightarrow> string" where
  "exchange_text py_str exchange m = (case exchange of VNone \<Rightarrow> market_value m
     | VStr s \<Rightarrow> upper (strip s) | _ \<Rightarrow> upper (strip (py_str exchange)))"

definition Security :: "(pyval \<Rightarrow> string) \<Rightarrow> pyval \<Rightarrow> pyval \<Rightarrow> pyval \<Rightarrow> pyval \<Rightarrow> pyval \<Rightarrow> security result" where
  "Security py_str symbol name market_arg security_type_arg exchange_arg =
     ebind (normalize_market market_arg) (\<lambda>m.
     ebind (validate_symbol_market symbol m) (\<lambda>normalized.
     ebind (case name of VStr s \<Rightarrow> if strip s = [] then Raise (InvalidMarketDataError ''security name must not be empty'') else Ok (strip s)
        | _ \<Rightarrow> Raise (InvalidMarketDataError ''security name must not be empty'')) (\<lambda>stripped.
     ebind (normalize_security_type security_type_arg) (\<lambda>t.
     let exchange = exchange_text py_str exchange_arg m in
     if exchange \<notin> set (map fst markets) then Raise (UnknownMarketError ''unknown exchange'')
     else if exchange \<noteq> market_value m then Raise (InvalidMarketDataError ''exchange does not match market'')
     else Ok \<lparr>se_symbol = normalized, se_name = stripped, se_market = m, se_type = t, se_exchange = exchange\<rparr>))))"

record quote =
  qu_symbol :: string
  qu_price :: real
  qu_timestamp :: int
  qu_change :: "real option"
  qu_change_percent :: "real option"

definition Quote :: "(pyval \<Rightarrow> fl option) \<Rightarrow> pyval \<Rightarrow> pyval \<Rightarrow> time_value \<Rightarrow> pyval \<Rightarrow> pyval \<Rightarrow> quote result" where
  "Quote read_decimal symbol price timestamp change change_percent =
     ebind (normalize_symbol symbol) (\<lambda>normalized.
     ebind (decimal read_decimal price ''price'') (\<lambda>p.
     if p \<le> 0 then Raise (InvalidMarketDataError ''price must be greater than zero'')
     else ebind (optional_decimal read_decimal change ''change'') (\<lambda>c.
     ebind (optional_decimal read_decimal change_percent ''change_percent'') (\<lambda>cp.
     emap (\<lambda>t. \<lparr>qu_symbol = normalized, qu_price = p, qu_timestamp = t, qu_change = c, qu_change_percent = cp\<rparr>)
       (utc_datetime timestamp ''timestamp'')))))"

record daily_bar =
  db_symbol :: string
  db_trade_date :: int
  db_open :: real
  db_high :: real
  db_low :: real
  db_close :: real
  db_volume :: real
  db_amount :: "real option"
  db_adjustment :: adjustment

definition bar_checks :: "real \<Rightarrow> real \<Rightarrow> real \<Rightarrow> real \<Rightarrow> real \<Rightarrow> real option \<Rightarrow> unit result" where
  "bar_checks opening high low close volume amount =
     (if opening \<le> 0 \<or> high \<le> 0 \<or> low \<le> 0 \<or> close \<le> 0
      then Raise (InvalidMarketDataError ''OHLC prices must be greater than zero'')
      else if volume < 0 then Raise (InvalidMarketDataError ''volume must not be negative'')
      else if (case amount of None \<Rightarrow> False | Some a \<Rightarrow> a < 0) then Raise (InvalidMarketDataError ''amount must not be negative'')
      else if high < max opening (max close low) then Raise (InvalidMarketDataError ''high must be at least open, close, and low'')
      else if low > min opening (min close high) then Raise (InvalidMarketDataError ''low must be at most open, close, and high'')
      else Ok ())"

record bar_input =
  bi_symbol :: pyval
  bi_trade_date :: date_value
  bi_open :: pyval
  bi_high :: pyval
  bi_low :: pyval
  bi_close :: pyval
  bi_volume :: pyval
  bi_amount :: pyval
  bi_adjustment :: pyval

definition DailyBar :: "(pyval \<Rightarrow> fl option) \<Rightarrow> (string \<Rightarrow> int option) \<Rightarrow> bar_input \<Rightarrow> daily_bar result" where
  "DailyBar read_decimal fromisoformat b =
     ebind (decimal read_decimal (bi_open b) ''open'') (\<lambda>opening.
     ebind (decimal read_decimal (bi_high b) ''high'') (\<lambda>high.
     ebind (decimal read_decimal (bi_low b) ''low'') (\<lambda>low.
     ebind (decimal read_decimal (bi_close b) ''close'') (\<lambda>close.
     ebind (decimal read_decimal (bi_volume b) ''volume'') (\<lambda>volume.
     ebind (optional_decimal read_decimal (bi_amount b) ''amount'') (\<lambda>amount.
     ebind (bar_checks opening high low close volume amount) (\<lambda>_.
     ebind (normalize_symbol (bi_symbol b)) (\<lambda>symbol.
     ebind (calendar_date fromisoformat (bi_trade_date b) ''trade_date'') (\<lambda>d.
     emap (\<lambda>a. \<lparr>db_symbol = symbol, db_trade_date = d, db_open = opening, db_high = high, db_low = low, db_close = close,
         db_volume = volume, db_amount = amount, db_adjustment = a\<rparr>)
       (normalize_adjustment (bi_adjustment b)))))))))))"

record dividend =
  dv_symbol :: string
  dv_date :: int
  dv_cash_amount :: real

definition Dividend :: "(pyval \<Rightarrow> fl option) \<Rightarrow> (string \<Rightarrow> int option) \<Rightarrow> pyval \<Rightarrow> date_value \<Rightarrow> pyval \<Rightarrow> dividend result" where
  "Dividend read_decimal fromisoformat symbol event_date cash_amount =
     ebind (decimal read_decimal cash_amount ''cash_amount'') (\<lambda>amount.
     if amount < 0 then Raise (InvalidMarketDataError ''cash_amount must not be negative'')
     else ebind (normalize_symbol symbol) (\<lambda>normalized.
     emap (\<lambda>d. \<lparr>dv_symbol = normalized, dv_date = d, dv_cash_amount = amount\<rparr>)
       (calendar_date fromisoformat event_date ''date'')))"

section \<open>Which spellings are accepted\<close>

text \<open>The market-qualified spellings of a code.\<close>

definition qualified_forms :: "string \<Rightarrow> market \<Rightarrow> string list" where
  "qualified_forms c m = (let v = market_value m in
     [v @ c, v @ ''.'' @ c, v @ '':'' @ c, c @ ''.'' @ v, c @ '':'' @ v])"

lemma market_texts: "t \<in> set (map fst markets) \<longleftrightarrow> (\<exists>m. t = market_value m)"
proof -
  have "(\<exists>m. t = market_value m) \<longleftrightarrow> t = market_value SH \<or> t = market_value SZ \<or> t = market_value BJ"
    by (metis market.exhaust)
  then show ?thesis by (simp add: markets_def)
qed

lemma market_of_value: "map_of markets (market_value m) = Some m"
  by (cases m) (simp_all add: markets_def)

lemma market_value_length [simp]: "length (market_value m) = 2"
  by (cases m) simp_all

lemma normalize_market_value: "normalize_market (VStr (market_value m)) = Ok m"
proof -
  have "upper (strip (market_value m)) = market_value m" by (cases m) (simp_all add: text_eval)
  then show ?thesis by (simp add: normalize_market_def market_of_value)
qed

lemma digit_not_separator: "is_digit c \<Longrightarrow> \<not> separator c"
  by (auto simp: is_digit_def separator_def)

lemma six_digitsD:
  assumes "six_digits c"
  shows "length c = 6" "\<exists>x xs. c = x # xs \<and> is_digit x \<and> \<not> separator x"
  using assms digit_not_separator by (cases c; auto simp: six_digits_def)+

lemma market_prefix_not_digit:
  assumes "six_digits (take 6 x)"
  shows "take 2 x \<noteq> market_value m"
proof -
  obtain y ys where y: "take 6 x = y # ys" "is_digit y" using six_digitsD(2) [OF assms] by auto
  then have "hd (take 2 x) = y" by (cases x) simp_all
  then have "is_digit (hd (take 2 x))" using y(2) by simp
  moreover have "\<not> is_digit (hd (market_value m))" by (cases m) (simp_all add: is_digit_def)
  ultimately show ?thesis by metis
qed

lemma match_qualified:
  assumes "six_digits c" "x \<in> set (qualified_forms c m)"
  shows "match_symbol x = Some (c, Some (market_value m))"
proof -
  obtain y ys where y: "c = y # ys" "\<not> separator y" and len: "length c = 6" using six_digitsD [OF assms(1)] by auto
  have v: "market_value m \<in> set (map fst markets)" using market_texts by blast
  have t: "take 2 (market_value m @ z) = market_value m" "drop 2 (market_value m @ z) = z" for z by simp_all
  have no: "take 2 (c @ z) \<notin> set (map fst markets)" for z
    using market_prefix_not_digit [of "c @ z"] assms(1) len unfolding market_texts by auto
  have suffix: "match_symbol (c @ [s] @ market_value m) = Some (c, Some (market_value m))" if "separator s" for s
    using that no [of "[s] @ market_value m"] v assms(1) len by (simp add: match_symbol_def Let_def)
  have prefix: "match_symbol (market_value m @ z) = Some (c, Some (market_value m))"
    if "z = c \<or> (\<exists>s. separator s \<and> z = s # c)" for z
    using that v assms(1) y unfolding match_symbol_def Let_def t by auto
  show ?thesis
    using assms(2) prefix [of c] prefix [of "''.'' @ c"] prefix [of "'':'' @ c"] suffix [of "CHR ''.''"] suffix [of "CHR '':''"]
    by (auto simp: qualified_forms_def Let_def separator_def)
qed

lemma match_bare:
  assumes "six_digits c"
  shows "match_symbol c = Some (c, None)"
  using assms market_prefix_not_digit [of c] six_digitsD(1) [OF assms] market_texts
  by (auto simp: match_symbol_def Let_def)

lemma match_symbolD:
  assumes "match_symbol x = Some (c, w)"
  shows "six_digits c \<and> (w = None \<and> x = c \<or> (\<exists>m. w = Some (market_value m) \<and> x \<in> set (qualified_forms c m)))"
proof -
  consider (prefix) "take 2 x \<in> set (map fst markets)" "six_digits c" "w = Some (take 2 x)"
      "c = (case drop 2 x of y # ys \<Rightarrow> if separator y then ys else drop 2 x | [] \<Rightarrow> drop 2 x)"
    | (suffix) y where "six_digits (take 6 x)" "c = take 6 x" "w = Some (drop 7 x)" "drop 6 x = y # drop 7 x" "separator y"
        "drop 7 x \<in> set (map fst markets)"
    | (bare) "six_digits x" "c = x" "w = None"
  proof -
    let ?code = "case drop 2 x of y # ys \<Rightarrow> if separator y then ys else drop 2 x | [] \<Rightarrow> drop 2 x"
    show thesis
    proof (cases "take 2 x \<in> set (map fst markets) \<and> six_digits ?code")
      case True
      then have "c = ?code" "w = Some (take 2 x)" using assms by (simp_all add: match_symbol_def Let_def)
      then show thesis using True by (intro prefix) simp_all
    next
      case noprefix: False
      show thesis
      proof (cases "six_digits (take 6 x) \<and> (case drop 6 x of y # ys \<Rightarrow> separator y \<and> ys \<in> set (map fst markets) | [] \<Rightarrow> False)")
        case True
        then obtain y ys where y: "drop 6 x = y # ys" "separator y" "ys \<in> set (map fst markets)"
          by (cases "drop 6 x") auto
        then have ys: "ys = drop 7 x" using drop_drop [of 1 6 x] by simp
        have "c = take 6 x" "w = Some (drop 7 x)"
          using assms noprefix True unfolding match_symbol_def Let_def by (simp_all only: if_False if_True simp_thms option.inject prod.inject)
        then show thesis using True y ys by (intro suffix [of y]) simp_all
      next
        case False
        then have "(if six_digits x then Some (x, None) else None) = Some (c, w)"
          using assms noprefix unfolding match_symbol_def Let_def by (simp only: if_False)
        then show thesis by (intro bare) (simp_all split: if_splits)
      qed
    qed
  qed
  then show ?thesis
  proof cases
    case prefix
    then obtain m where m: "take 2 x = market_value m" using market_texts by auto
    have x: "x = market_value m @ drop 2 x" using m by (metis append_take_drop_id)
    show ?thesis
    proof (cases "drop 2 x = c")
      case True
      then show ?thesis using prefix m x by (auto simp: qualified_forms_def Let_def)
    next
      case False
      then obtain y where "drop 2 x = y # c" "separator y"
        using prefix(4) by (auto split: list.splits if_splits)
      then have "x \<in> set (qualified_forms c m)" using x by (auto simp: qualified_forms_def Let_def separator_def)
      then show ?thesis using prefix m by auto
    qed
  next
    case suffix
    then obtain m where m: "drop 7 x = market_value m" using market_texts by auto
    have "x = take 6 x @ y # market_value m" using suffix(4) m by (metis append_take_drop_id)
    then have "x \<in> set (qualified_forms c m)" using suffix(2,5) by (auto simp: qualified_forms_def Let_def separator_def)
    then show ?thesis using suffix m by auto
  qed auto
qed

lemma parse_symbol_iff:
  "parse_symbol (VStr s) = Ok (c, q) \<longleftrightarrow> six_digits c \<and>
     (q = None \<and> upper (strip s) = c \<or> (\<exists>m. q = Some m \<and> upper (strip s) \<in> set (qualified_forms c m)))"
proof
  assume p: "parse_symbol (VStr s) = Ok (c, q)"
  show "six_digits c \<and> (q = None \<and> upper (strip s) = c \<or> (\<exists>m. q = Some m \<and> upper (strip s) \<in> set (qualified_forms c m)))"
  proof (cases "match_symbol (upper (strip s))")
    case None
    then show ?thesis using p by (simp add: parse_symbol_def Let_def split: if_splits)
  next
    case (Some r)
    obtain code w where r: "r = (code, w)" by (cases r)
    have d: "six_digits code \<and> (w = None \<and> upper (strip s) = code \<or>
        (\<exists>m. w = Some (market_value m) \<and> upper (strip s) \<in> set (qualified_forms code m)))"
      using match_symbolD Some r by blast
    then show ?thesis
      using p Some r by (cases w) (auto simp: parse_symbol_def Let_def normalize_market_value)
  qed
next
  assume r: "six_digits c \<and> (q = None \<and> upper (strip s) = c \<or> (\<exists>m. q = Some m \<and> upper (strip s) \<in> set (qualified_forms c m)))"
  then show "parse_symbol (VStr s) = Ok (c, q)"
  proof (elim conjE disjE exE)
    assume "six_digits c" "q = None" "upper (strip s) = c"
    then show ?thesis using match_bare by (simp add: parse_symbol_def Let_def)
  next
    fix m assume "six_digits c" "q = Some m" "upper (strip s) \<in> set (qualified_forms c m)"
    then show ?thesis using match_qualified [of c _ m] by (simp add: parse_symbol_def Let_def normalize_market_value)
  qed
qed

lemma symbol_spelling:
  "(normalize_symbol (VStr s) = Ok c \<and> infer_market (VStr s) = Ok m) \<longleftrightarrow>
     six_digits c \<and> (upper (strip s) \<in> set (qualified_forms c m) \<or> upper (strip s) = c \<and> code_market c = Some m)"
proof -
  have "(normalize_symbol (VStr s) = Ok c \<and> infer_market (VStr s) = Ok m) \<longleftrightarrow>
      (\<exists>q. parse_symbol (VStr s) = Ok (c, q) \<and> (q = Some m \<or> q = None \<and> code_market c = Some m))"
  proof (cases "parse_symbol (VStr s)")
    case (Inr r)
    obtain code q where r: "r = (code, q)" by (cases r)
    then show ?thesis using Inr by (cases q; cases "code_market code") (auto simp: normalize_symbol_def infer_market_def)
  qed (simp add: normalize_symbol_def)
  then show ?thesis unfolding parse_symbol_iff by blast
qed

text \<open>
  Exactly these spellings of a symbol are accepted, up to case and surrounding blanks: the six
  digits with their exchange before or behind, and the bare six digits when their leading digits
  determine the exchange. The canonical symbol is the six digits; the market is the one written, or
  the one the digits determine.
\<close>

theorem symbol_spellings:
  "(normalize_symbol (VStr s) = Ok c \<and> infer_market (VStr s) = Ok m) \<longleftrightarrow>
     six_digits c \<and> (upper (strip s) \<in> set (qualified_forms c m) \<or> upper (strip s) = c \<and> code_market c = Some m)"
  by (rule symbol_spelling)

section \<open>Validated records\<close>

lemma normalize_symbol_shape:
  assumes "normalize_symbol v = Ok c"
  shows "six_digits c"
proof -
  obtain s where v: "v = VStr s"
    using assms by (cases v) (simp_all add: normalize_symbol_def parse_symbol_def)
  obtain q where "parse_symbol (VStr s) = Ok (c, q)"
    using assms v by (auto simp: normalize_symbol_def)
  then show ?thesis using parse_symbol_iff by blast
qed

lemma bar_checks_ok:
  "bar_checks opening high low close volume amount = Ok () \<longleftrightarrow>
     0 < low \<and> low \<le> opening \<and> low \<le> close \<and> opening \<le> high \<and> close \<le> high \<and> 0 \<le> volume \<and>
     (case amount of None \<Rightarrow> True | Some a \<Rightarrow> 0 \<le> a)"
  by (cases amount) (auto simp: bar_checks_def)

definition bar_as_input :: "daily_bar \<Rightarrow> bar_input" where
  "bar_as_input r = \<lparr>bi_symbol = VStr (db_symbol r), bi_trade_date = CalendarDate (db_trade_date r),
     bi_open = VDecimal (Fin (db_open r)), bi_high = VDecimal (Fin (db_high r)), bi_low = VDecimal (Fin (db_low r)),
     bi_close = VDecimal (Fin (db_close r)), bi_volume = VDecimal (Fin (db_volume r)),
     bi_amount = (case db_amount r of None \<Rightarrow> VNone | Some a \<Rightarrow> VDecimal (Fin a)),
     bi_adjustment = VStr (adjustment_value (db_adjustment r))\<rparr>"

lemma normalize_adjustment_value: "normalize_adjustment (VStr (adjustment_value a)) = Ok a"
  by (cases a) (simp_all add: normalize_adjustment_def text_eval)

lemma upper_digits: "list_all is_digit s \<Longrightarrow> upper s = s"
  by (induction s) (auto simp: upper_def upper_char_def is_digit_def Let_def)

lemma strip_digits:
  assumes "list_all is_digit s"
  shows "strip s = s"
proof (rule strip_fixpoint)
  have "\<not> is_space c" if "is_digit c" for c using that by (auto simp: is_digit_def is_space_def Let_def)
  then show "s = [] \<or> \<not> is_space (hd s) \<and> \<not> is_space (last s)"
    using assms by (cases "s = []") (simp_all add: list_all_iff)
qed

lemma normalize_bare:
  assumes "six_digits c" "code_market c \<noteq> None"
  shows "normalize_symbol (VStr c) = Ok c"
proof -
  have "upper (strip c) = c" using assms(1) by (simp add: six_digits_def strip_digits upper_digits)
  then show ?thesis using assms symbol_spelling [of c c] by auto
qed

lemma decimal_Fin [simp]: "decimal rd (VDecimal (Fin x)) f = Ok x"
  by (simp add: decimal_def Let_def)

text \<open>
  A daily bar that passes validation is coherent: six digits, positive prices with the low
  below and the high above open and close, no negative volume or turnover. When its digits
  determine an exchange it survives being validated again unchanged.
\<close>

theorem daily_bar_coherent:
  assumes "DailyBar read_decimal fromisoformat b = Ok r"
  shows "six_digits (db_symbol r) \<and> 0 < db_low r \<and> db_low r \<le> min (db_open r) (db_close r) \<and>
    max (db_open r) (db_close r) \<le> db_high r \<and> 0 \<le> db_volume r \<and> (case db_amount r of None \<Rightarrow> True | Some a \<Rightarrow> 0 \<le> a) \<and>
    (code_market (db_symbol r) \<noteq> None \<longrightarrow> DailyBar read_decimal' fromisoformat' (bar_as_input r) = Ok r)"
proof -
  have checks: "bar_checks (db_open r) (db_high r) (db_low r) (db_close r) (db_volume r) (db_amount r) = Ok ()"
    and symbol: "normalize_symbol (bi_symbol b) = Ok (db_symbol r)"
    using assms by (auto simp: DailyBar_def)
  have shape: "six_digits (db_symbol r)" using symbol by (rule normalize_symbol_shape)
  have amount: "optional_decimal read_decimal' (case db_amount r of None \<Rightarrow> VNone | Some a \<Rightarrow> VDecimal (Fin a)) ''amount'' = Ok (db_amount r)"
    by (cases "db_amount r") (simp_all add: optional_decimal_def)
  have again: "DailyBar read_decimal' fromisoformat' (bar_as_input r) = Ok r" if "code_market (db_symbol r) \<noteq> None"
    using normalize_bare [OF shape that] checks amount
    by (simp add: DailyBar_def bar_as_input_def calendar_date_def normalize_adjustment_value)
  show ?thesis using shape checks [unfolded bar_checks_ok] again by simp
qed

theorem daily_bar_coherent_witness:
  "\<exists>r. DailyBar (\<lambda>_. None) (\<lambda>_. None) (bar_as_input \<lparr>db_symbol = ''600000'', db_trade_date = 739253, db_open = 10, db_high = 12,
      db_low = 9, db_close = 11, db_volume = 100, db_amount = None, db_adjustment = QFQ\<rparr>) = Ok r \<and> 0 < db_low r \<and>
      max (db_open r) (db_close r) \<le> db_high r"
proof -
  let ?r = "\<lparr>db_symbol = ''600000'', db_trade_date = 739253, db_open = 10, db_high = 12,
      db_low = 9, db_close = 11, db_volume = 100, db_amount = None, db_adjustment = QFQ\<rparr>"
  have c: "six_digits ''600000''" by (simp add: six_digits_def is_digit_def)
  have m: "code_market ''600000'' \<noteq> None" by (simp add: code_market_def starts_with_def)
  have "DailyBar (\<lambda>_. None) (\<lambda>_. None) (bar_as_input ?r) = Ok ?r"
    using normalize_bare [OF c m] normalize_adjustment_value [of QFQ]
    by (simp add: DailyBar_def bar_as_input_def calendar_date_def normalize_adjustment_value optional_decimal_def bar_checks_def)
  then show ?thesis using daily_bar_coherent by blast
qed

text \<open>
  A symbol written with its exchange is stored as its six digits alone, so the same key stands for
  securities of different exchanges, and the digits may be refused when they are read back.
\<close>

lemma parse_qualified:
  assumes "six_digits c" "s \<in> set (qualified_forms c m)" "upper (strip s) = s"
  shows "parse_symbol (VStr s) = Ok (c, Some m)"
  using assms by (simp add: parse_symbol_iff)

theorem explicit_market_dropped:
  "normalize_symbol (VStr ''SH000001'') = Ok ''000001'' \<and> infer_market (VStr ''SH000001'') = Ok SH \<and>
   infer_market (VStr ''000001'') = Ok SZ \<and>
   normalize_symbol (VStr ''SH700000'') = Ok ''700000'' \<and> \<not> (\<exists>c. normalize_symbol (VStr ''700000'') = Ok c)"
proof -
  have d: "six_digits ''000001''" "six_digits ''700000''" by (simp_all add: six_digits_def is_digit_def)
  have forms: "''SH000001'' \<in> set (qualified_forms ''000001'' SH)" "''SH700000'' \<in> set (qualified_forms ''700000'' SH)"
    by (simp_all add: qualified_forms_def Let_def)
  have u: "upper (strip ''SH000001'') = ''SH000001''" "upper (strip ''SH700000'') = ''SH700000''"
    by (simp_all add: text_eval)
  have bare: "upper (strip c) = c" if "six_digits c" for c
    using that by (simp add: six_digits_def strip_digits upper_digits)
  have p: "parse_symbol (VStr ''SH000001'') = Ok (''000001'', Some SH)" "parse_symbol (VStr ''SH700000'') = Ok (''700000'', Some SH)"
    "parse_symbol (VStr ''000001'') = Ok (''000001'', None)" "parse_symbol (VStr ''700000'') = Ok (''700000'', None)"
    using parse_qualified [OF d(1) forms(1) u(1)] parse_qualified [OF d(2) forms(2) u(2)]
      bare [OF d(1)] bare [OF d(2)] d by (simp_all add: parse_symbol_iff)
  have m: "code_market ''000001'' = Some SZ" "code_market ''700000'' = None"
    by (simp_all add: code_market_def starts_with_def)
  show ?thesis using p m by (simp add: normalize_symbol_def infer_market_def)
qed

end
