(* ===== verification/Analysis_Stream.thy ===== *)
theory Analysis_Stream
  imports Prelude
begin

text \<open>
  One price series and its analysis, shared by two services through the database. The market data
  hub writes daily bars and marks what they invalidate (\<open>market-data-hub/app/repositories/market_data.py\<close>,
  \<open>analysis_stream.py\<close>); the backend publishes indicators and states and moves the watermarks
  (\<open>backend/app/services/analysis_service.py\<close>, \<open>analysis_control.py\<close>). The control row, the bars, the stored
  revision and the published rows of one series are one record; every operation is one transaction
  under the row's lock. Dates are ordinals. How a day's rows follow from the bars up to that day is the
  parameter \<open>analyse\<close> (the indicators and states of the other theories); the digest of the calculation
  requests is \<open>key_of\<close>.
\<close>

section \<open>State\<close>

record analysis_stream =
  as_source_revision :: int
  as_sync_generation :: int
  as_demand_generation :: int
  as_published_revision :: int
  as_published_demand_generation :: int
  as_demand_key :: "string option"
  as_dirty_from :: "int option"
  as_latest_bar_date :: "int option"
  as_indicator_through :: "int option"
  as_state_through :: "int option"
  as_history_depth :: int
  as_last_sync_at :: "int option"

definition new_stream :: analysis_stream where
  "new_stream = \<lparr>as_source_revision = 0, as_sync_generation = 0, as_demand_generation = 0,
     as_published_revision = -1, as_published_demand_generation = -1, as_demand_key = None, as_dirty_from = None,
     as_latest_bar_date = None, as_indicator_through = None, as_state_through = None, as_history_depth = 0,
     as_last_sync_at = None\<rparr>"

record ('b, 'r, 'q) price_series =
  sr_stream :: analysis_stream
  sr_bars :: "(int, 'b) dict"
  sr_revision :: "string option"
  sr_rows :: "int \<Rightarrow> 'r option"
  sr_demand :: 'q

section \<open>The hub: facts and invalidation\<close>

text \<open>\<open>combine_changed\<close> on one key: the earliest day wins.\<close>

fun combine_changed :: "int option \<Rightarrow> int \<Rightarrow> int option" where
  "combine_changed None d = Some d"
| "combine_changed (Some first) d = Some (min first d)"

text \<open>\<open>invalidate_changed\<close> on one existing row: the revision moves, the dirty mark only backward, the end only forward.\<close>

definition invalidate_changed :: "int \<Rightarrow> int \<Rightarrow> analysis_stream \<Rightarrow> analysis_stream" where
  "invalidate_changed first latest st = st\<lparr>
     as_source_revision := as_source_revision st + 1,
     as_dirty_from := (case as_dirty_from st of
         None \<Rightarrow> Some first
       | Some d \<Rightarrow> if d > first then Some first else Some d),
     as_latest_bar_date := (case as_latest_bar_date st of
         None \<Rightarrow> Some latest
       | Some d \<Rightarrow> if d < latest then Some latest else Some d)\<rparr>"

text \<open>The upsert stores the records and returns the days whose row was inserted or really changed.\<close>

definition changed_days :: "(int, 'b) dict \<Rightarrow> (int, 'b) dict \<Rightarrow> int list" where
  "changed_days records bars = map fst (filter (\<lambda>(d, b). dict_get bars d \<noteq> Some b) records)"

definition store_bars :: "(int, 'b) dict \<Rightarrow> (int, 'b) dict \<Rightarrow> (int, 'b) dict" where
  "store_bars records bars = fold (\<lambda>(d, b). dict_set d b) records bars"

definition earliest :: "int list \<Rightarrow> int option" where
  "earliest days = (if days = [] then None else Some (Min (set days)))"

definition latest_of :: "int list \<Rightarrow> int option" where
  "latest_of days = (if days = [] then None else Some (Max (set days)))"

text \<open>\<open>_check_fences\<close>: no generations given, or the generation reserved for the symbol is still the stream's.\<close>

definition check_fence :: "int option option \<Rightarrow> analysis_stream \<Rightarrow> unit result" where
  "check_fence generations st = (case generations of
      None \<Rightarrow> Ok ()
    | Some g \<Rightarrow> if g \<noteq> Some (as_sync_generation st)
        then Raise (PersistenceRecordError ''market-data sync was superseded'') else Ok ())"

text \<open>
  \<open>upsert_fenced\<close> for one series, with \<open>_revision_in_session\<close>: a changed provider revision of the
  qfq series invalidates its whole history.
\<close>

definition upsert_fenced ::
  "bool \<Rightarrow> int option option \<Rightarrow> string option \<Rightarrow> (int, 'b) dict \<Rightarrow> ('b, 'r, 'q) price_series \<Rightarrow> ('b, 'r, 'q) price_series result"
where
  "upsert_fenced is_qfq generations revision records s =
     (if records = [] then Ok s
      else ebind (check_fence generations (sr_stream s)) (\<lambda>_.
        let changed = changed_days records (sr_bars s);
            bars = store_bars records (sr_bars s);
            (first, latest, stored) = (case revision of
                Some digest \<Rightarrow>
                  if is_qfq
                  then (if sr_revision s \<noteq> None \<and> sr_revision s \<noteq> Some digest
                        then (case earliest (map fst bars) of
                            Some d \<Rightarrow> (combine_changed (earliest changed) d, latest_of (map fst bars), Some digest)
                          | None \<Rightarrow> (earliest changed, latest_of changed, Some digest))
                        else (earliest changed, latest_of changed, Some digest))
                  else (earliest changed, latest_of changed, sr_revision s)
              | None \<Rightarrow> (earliest changed, latest_of changed, sr_revision s))
        in Ok (s\<lparr>sr_bars := bars, sr_revision := stored,
             sr_stream := (case (first, latest) of
                 (Some f, Some l) \<Rightarrow> invalidate_changed f l (sr_stream s)
               | _ \<Rightarrow> sr_stream s)\<rparr>)))"

text \<open>\<open>reconcile_revision\<close>: a complete replacement of a range; days the revision no longer has are deleted.\<close>

definition reconcile_revision ::
  "int option option \<Rightarrow> string option \<Rightarrow> int \<Rightarrow> int \<Rightarrow> (int, 'b) dict \<Rightarrow> ('b, 'r, 'q) price_series \<Rightarrow> ('b, 'r, 'q) price_series result"
where
  "reconcile_revision generations revision_hash coverage_start coverage_end records s =
     (if records = [] then Raise (PersistenceRecordError ''revised snapshot does not match its target'')
      else if coverage_start > coverage_end \<or> Min (set (map fst records)) > coverage_start \<or>
              Max (set (map fst records)) < coverage_end
      then Raise (PersistenceRecordError ''revised snapshot does not cover replacement range'')
      else ebind (check_fence generations (sr_stream s)) (\<lambda>_.
        let changed = changed_days records (sr_bars s);
            bars = store_bars records (sr_bars s);
            gone = (\<lambda>d. coverage_start \<le> d \<and> d \<le> coverage_end \<and> d \<notin> set (map fst records));
            deleted = filter gone (map fst bars);
            first = combine_changed (case earliest deleted of
                None \<Rightarrow> earliest changed
              | Some d \<Rightarrow> combine_changed (earliest changed) d) coverage_start
        in Ok (s\<lparr>sr_bars := filter (\<lambda>(d, _). \<not> gone d) bars,
             sr_revision := (if revision_hash = None then sr_revision s else revision_hash),
             sr_stream := invalidate_changed (the first) (Max (set (map fst records))) (sr_stream s)\<rparr>)))"

definition reserve_sync :: "('b, 'r, 'q) price_series \<Rightarrow> int \<times> ('b, 'r, 'q) price_series" where
  "reserve_sync s = (let g = as_sync_generation (sr_stream s) + 1
     in (g, s\<lparr>sr_stream := (sr_stream s)\<lparr>as_sync_generation := g\<rparr>\<rparr>))"

definition complete_sync :: "int option option \<Rightarrow> int \<Rightarrow> int \<Rightarrow> ('b, 'r, 'q) price_series \<Rightarrow> ('b, 'r, 'q) price_series result" where
  "complete_sync generations history_depth now s =
     emap (\<lambda>_. s\<lparr>sr_stream := (sr_stream s)\<lparr>as_history_depth := max (as_history_depth (sr_stream s)) history_depth,
         as_last_sync_at := Some now\<rparr>\<rparr>)
       (check_fence generations (sr_stream s))"

section \<open>The backend: demand and publication\<close>

text \<open>A configuration change and \<open>mark_demand_changed\<close> happen in one transaction.\<close>

definition mark_demand_changed :: "'q \<Rightarrow> ('b, 'r, 'q) price_series \<Rightarrow> ('b, 'r, 'q) price_series" where
  "mark_demand_changed q s = s\<lparr>sr_demand := q,
     sr_stream := (sr_stream s)\<lparr>as_demand_generation := as_demand_generation (sr_stream s) + 1\<rparr>\<rparr>"

definition bars_upto :: "(int, 'b) dict \<Rightarrow> int \<Rightarrow> int \<Rightarrow> 'b option" where
  "bars_upto bars d = (\<lambda>x. if x \<le> d then dict_get bars x else None)"

text \<open>The rows a day has when they are computed from the given bars.\<close>

definition fresh_row :: "(string \<Rightarrow> (int \<Rightarrow> 'b option) \<Rightarrow> int \<Rightarrow> 'r option) \<Rightarrow> string \<Rightarrow> (int, 'b) dict \<Rightarrow> int \<Rightarrow> 'r option" where
  "fresh_row analyse key bars d = (if dict_get bars d = None then None else analyse key (bars_upto bars d) d)"

text \<open>\<open>rebuild_history\<close>: the rows from \<open>start\<close> (or the beginning) to \<open>latest\<close> are deleted and written again.\<close>

definition rebuild_rows ::
  "(string \<Rightarrow> (int \<Rightarrow> 'b option) \<Rightarrow> int \<Rightarrow> 'r option) \<Rightarrow> string \<Rightarrow> int option \<Rightarrow> int \<Rightarrow> (int, 'b) dict \<Rightarrow>
     (int \<Rightarrow> 'r option) \<Rightarrow> int \<Rightarrow> 'r option"
where
  "rebuild_rows analyse key start latest bars rows = (\<lambda>d.
     if (case start of None \<Rightarrow> True | Some a \<Rightarrow> a \<le> d) \<and> d \<le> latest then fresh_row analyse key bars d else rows d)"

definition date_or :: "int option \<Rightarrow> int \<Rightarrow> int" where
  "date_or v d = (case v of None \<Rightarrow> d | Some x \<Rightarrow> x)"

definition publish ::
  "(string \<Rightarrow> (int \<Rightarrow> 'b option) \<Rightarrow> int \<Rightarrow> 'r option) \<Rightarrow> string \<Rightarrow> int option \<Rightarrow> int \<Rightarrow> ('b, 'r, 'q) price_series \<Rightarrow> ('b, 'r, 'q) price_series"
where
  "publish analyse key start latest s =
     (let st = sr_stream s; latest_bar = max (date_or (as_latest_bar_date st) latest) latest
      in s\<lparr>sr_rows := rebuild_rows analyse key start latest (sr_bars s) (sr_rows s),
           sr_stream := st\<lparr>as_demand_key := Some key, as_published_revision := as_source_revision st,
             as_published_demand_generation := as_demand_generation st, as_indicator_through := Some latest,
             as_state_through := Some latest, as_latest_bar_date := Some latest_bar,
             as_dirty_from := (if latest_bar \<le> latest then None else as_dirty_from st)\<rparr>\<rparr>)"

text \<open>
  \<open>materialize\<close>: the calculations of \<open>IndicatorService\<close> and \<open>StateService\<close> may raise; \<open>outcome\<close> says
  whether they do for a key, a first day and a last day. Any exception rolls the transaction back and
  is raised again, so the series stays as it was.
\<close>

definition materialize ::
  "(string \<Rightarrow> (int \<Rightarrow> 'b option) \<Rightarrow> int \<Rightarrow> 'r option) \<Rightarrow> (string \<Rightarrow> int option \<Rightarrow> int \<Rightarrow> unit result) \<Rightarrow> ('x \<Rightarrow> 'q \<Rightarrow> string) \<Rightarrow> 'x \<Rightarrow> int option \<Rightarrow> bool \<Rightarrow>
     ('b, 'r, 'q) price_series \<Rightarrow> ('b, 'r, 'q) price_series result"
where
  "materialize analyse outcome key_of requests end force_history s =
     (let st = sr_stream s;
          key = key_of requests (sr_demand s);
          days = filter (\<lambda>d. case end of None \<Rightarrow> True | Some e \<Rightarrow> d \<le> e) (map fst (sr_bars s))
      in case (earliest days, latest_of days) of
          (Some first, Some latest) \<Rightarrow>
            if (case as_state_through st of None \<Rightarrow> False | Some t \<Rightarrow> latest < t)
            then Raise (ApiError ''STALE_ANALYSIS_TARGET'' ''Historical tasks cannot replace current analysis.'' 409)
            else
              let rebuild = force_history \<or> as_demand_key st \<noteq> Some key \<or> as_published_revision st < 0;
                  start = (if rebuild then None else as_dirty_from st)
              in if \<not> rebuild \<and> start = None
                 then
                   let through = min (date_or (as_indicator_through st) first) (date_or (as_state_through st) first)
                   in if latest \<le> through \<and> as_published_revision st = as_source_revision st
                      then Ok (s\<lparr>sr_stream := st\<lparr>as_published_demand_generation := as_demand_generation st\<rparr>\<rparr>)
                      else
                        let start = Some (date_or (earliest (filter (\<lambda>d. through < d \<and> d \<le> latest) (map fst (sr_bars s)))) first)
                        in emap (\<lambda>_. publish analyse key start latest s) (outcome key start latest)
                 else emap (\<lambda>_. publish analyse key start latest s) (outcome key start latest)
        | _ \<Rightarrow> Raise (ApiError ''INDICATOR_DATA_NOT_FOUND'' ''No completed bars are available.'' 404))"

definition publication_is_current :: "analysis_stream option \<Rightarrow> bool" where
  "publication_is_current stream = (case stream of
      None \<Rightarrow> True
    | Some st \<Rightarrow>
        (as_source_revision st = 0 \<and> as_published_revision st < 0) \<or>
        (as_dirty_from st = None \<and> as_published_revision st = as_source_revision st \<and>
         as_published_demand_generation st = as_demand_generation st))"

text \<open>
  \<open>pending_analysis_symbols\<close> on one stream: not fully published, or not synchronized on the target
  day; the local day of an instant is a parameter.
\<close>

definition analysis_pending :: "(int \<Rightarrow> int) \<Rightarrow> int \<Rightarrow> analysis_stream option \<Rightarrow> bool" where
  "analysis_pending local_day target stream = (case stream of
      None \<Rightarrow> True
    | Some st \<Rightarrow>
        as_dirty_from st \<noteq> None \<or> as_published_revision st \<noteq> as_source_revision st \<or>
        as_published_demand_generation st \<noteq> as_demand_generation st \<or> as_state_through st = None \<or>
        (case as_last_sync_at st of None \<Rightarrow> True | Some t \<Rightarrow> local_day t < target))"

section \<open>The life of a series\<close>

inductive series_step ::
  "(string \<Rightarrow> (int \<Rightarrow> 'b option) \<Rightarrow> int \<Rightarrow> 'r option) \<Rightarrow> ('x \<Rightarrow> 'q \<Rightarrow> string) \<Rightarrow> ('b, 'r, 'q) price_series \<Rightarrow> ('b, 'r, 'q) price_series \<Rightarrow> bool"
  for analyse key_of
where
  upsert: "distinct (map fst records) \<Longrightarrow> upsert_fenced is_qfq generations revision records s = Ok s' \<Longrightarrow>
    series_step analyse key_of s s'"
| reconcile: "distinct (map fst records) \<Longrightarrow>
    reconcile_revision generations revision_hash coverage_start coverage_end records s = Ok s' \<Longrightarrow>
    series_step analyse key_of s s'"
| reserve: "reserve_sync s = (g, s') \<Longrightarrow> series_step analyse key_of s s'"
| complete: "complete_sync generations depth now s = Ok s' \<Longrightarrow> series_step analyse key_of s s'"
| demand: "series_step analyse key_of s (mark_demand_changed q s)"
| publication: "materialize analyse outcome key_of requests end force s = Ok s' \<Longrightarrow> series_step analyse key_of s s'"

definition series_start :: "('b, 'r, 'q) price_series \<Rightarrow> bool" where
  "series_start s \<longleftrightarrow> sr_stream s = new_stream \<and> sr_bars s = [] \<and> sr_revision s = None \<and> sr_rows s = (\<lambda>_. None)"

inductive series_reachable ::
  "(string \<Rightarrow> (int \<Rightarrow> 'b option) \<Rightarrow> int \<Rightarrow> 'r option) \<Rightarrow> ('x \<Rightarrow> 'q \<Rightarrow> string) \<Rightarrow> ('b, 'r, 'q) price_series \<Rightarrow> bool"
  for analyse key_of
where
  start: "series_start s \<Longrightarrow> series_reachable analyse key_of s"
| continue: "series_reachable analyse key_of s \<Longrightarrow> series_step analyse key_of s s' \<Longrightarrow> series_reachable analyse key_of s'"

section \<open>Days and dictionaries\<close>

lemma latest_of_iff: "latest_of xs = Some m \<longleftrightarrow> m \<in> set xs \<and> (\<forall>x \<in> set xs. x \<le> m)"
  by (auto simp: latest_of_def Max_eq_iff intro!: Max_eqI)

lemma earliest_iff: "earliest xs = Some m \<longleftrightarrow> m \<in> set xs \<and> (\<forall>x \<in> set xs. m \<le> x)"
  by (auto simp: earliest_def Min_eq_iff intro!: Min_eqI)

lemma latest_of_None [simp]: "latest_of xs = None \<longleftrightarrow> xs = []"
  by (simp add: latest_of_def)

lemma earliest_None [simp]: "earliest xs = None \<longleftrightarrow> xs = []"
  by (simp add: earliest_def)

lemma latest_of_cong: "set xs = set ys \<Longrightarrow> latest_of xs = latest_of ys"
  by (auto simp: latest_of_def)

lemma store_bars_get:
  "distinct (map fst records) \<Longrightarrow>
   dict_get (store_bars records bars) d = (case dict_get records d of None \<Rightarrow> dict_get bars d | Some b \<Rightarrow> Some b)"
proof (induction records arbitrary: bars)
  case Nil
  then show ?case by (simp add: store_bars_def)
next
  case (Cons r records)
  obtain d' b' where r: "r = (d', b')" by (cases r)
  have "dict_get records d' = None" using Cons.prems r by (simp add: map_of_eq_None_iff)
  then show ?case using Cons.IH [of "dict_set d' b' bars"] Cons.prems r
    by (auto simp: store_bars_def split: option.split)
qed

lemma store_bars_distinct: "distinct (map fst bars) \<Longrightarrow> distinct (map fst (store_bars records bars))"
proof (induction records arbitrary: bars)
  case Nil
  then show ?case by (simp add: store_bars_def)
next
  case (Cons r records)
  have "distinct (map fst (dict_set (fst r) (snd r) bars))" using Cons.prems by (rule dict_set_distinct)
  then show ?case using Cons.IH by (simp add: store_bars_def split_beta)
qed

lemma dict_get_filter: "dict_get (filter (\<lambda>(d, _). P d) xs) x = (if P x then dict_get xs x else None)"
  by (induction xs) auto

lemma dict_days: "d \<in> set (map fst bars) \<longleftrightarrow> dict_get bars d \<noteq> None"
  by (simp add: map_of_eq_None_iff)

lemma store_bars_changed:
  assumes "distinct (map fst records)"
  shows "dict_get (store_bars records bars) d \<noteq> dict_get bars d \<longleftrightarrow> d \<in> set (changed_days records bars)"
proof -
  have "d \<in> set (changed_days records bars) \<longleftrightarrow> (\<exists>b. dict_get records d = Some b \<and> dict_get bars d \<noteq> Some b)"
    unfolding map_of_eq_Some_iff [OF assms] changed_days_def by (auto simp: image_iff)
  then show ?thesis by (cases "dict_get records d") (auto simp: store_bars_get [OF assms])
qed

lemma store_bars_days:
  assumes "distinct (map fst records)"
  shows "set (map fst (store_bars records bars)) = set (map fst records) \<union> set (map fst bars)"
    and "set (map fst (store_bars records bars)) = set (changed_days records bars) \<union> set (map fst bars)"
proof -
  show "set (map fst (store_bars records bars)) = set (map fst records) \<union> set (map fst bars)"
    by (rule set_eqI) (simp only: Un_iff dict_days store_bars_get [OF assms] split: option.split, blast)
  show "set (map fst (store_bars records bars)) = set (changed_days records bars) \<union> set (map fst bars)"
  proof (rule set_eqI)
    fix d
    show "d \<in> set (map fst (store_bars records bars)) \<longleftrightarrow> d \<in> set (changed_days records bars) \<union> set (map fst bars)"
      using store_bars_changed [OF assms, of bars d] store_bars_get [OF assms, of bars d]
      unfolding Un_iff dict_days by (auto split: option.splits)
  qed
qed

section \<open>The invariant\<close>

definition beyond :: "analysis_stream \<Rightarrow> int \<Rightarrow> bool" where
  "beyond st d \<longleftrightarrow> (case as_state_through st of None \<Rightarrow> True | Some t \<Rightarrow> t < d)"

definition clean :: "analysis_stream \<Rightarrow> int \<Rightarrow> bool" where
  "clean st d \<longleftrightarrow> (case as_dirty_from st of None \<Rightarrow> True | Some a \<Rightarrow> d < a)"

text \<open>The counters and watermarks.\<close>

definition stream_inv :: "('x \<Rightarrow> 'q \<Rightarrow> string) \<Rightarrow> ('b, 'r, 'q) price_series \<Rightarrow> bool" where
  "stream_inv key_of s \<longleftrightarrow> (let st = sr_stream s in
     0 \<le> as_source_revision st \<and> as_published_revision st \<le> as_source_revision st \<and>
     as_published_demand_generation st \<le> as_demand_generation st \<and>
     as_indicator_through st = as_state_through st \<and>
     (as_state_through st = None \<longleftrightarrow> as_published_revision st < 0) \<and>
     (as_state_through st \<noteq> None \<longrightarrow> as_demand_key st \<noteq> None) \<and>
     (\<forall>t. as_state_through st = Some t \<longrightarrow> (\<exists>l. as_latest_bar_date st = Some l \<and> t \<le> l)) \<and>
     (as_published_demand_generation st = as_demand_generation st \<longrightarrow>
        as_state_through st = None \<or> (\<exists>x. as_demand_key st = Some (key_of x (sr_demand s)))))"

text \<open>
  The data: bars beyond the published end are marked dirty, no rows exist beyond it, and up to it
  every row before the dirty mark is what the stored bars give under the published key.
\<close>

definition rows_inv :: "(string \<Rightarrow> (int \<Rightarrow> 'b option) \<Rightarrow> int \<Rightarrow> 'r option) \<Rightarrow> ('b, 'r, 'q) price_series \<Rightarrow> bool" where
  "rows_inv analyse s \<longleftrightarrow> (let st = sr_stream s in
     distinct (map fst (sr_bars s)) \<and> as_latest_bar_date st = latest_of (map fst (sr_bars s)) \<and>
     (\<forall>d. dict_get (sr_bars s) d \<noteq> None \<and> beyond st d \<longrightarrow> \<not> clean st d) \<and>
     (\<forall>d. beyond st d \<longrightarrow> sr_rows s d = None) \<and>
     (\<forall>d k. \<not> beyond st d \<and> clean st d \<and> as_demand_key st = Some k \<longrightarrow> sr_rows s d = fresh_row analyse k (sr_bars s) d))"

lemma rows_invD:
  assumes "rows_inv analyse s"
  shows "distinct (map fst (sr_bars s))" "as_latest_bar_date (sr_stream s) = latest_of (map fst (sr_bars s))"
    "dict_get (sr_bars s) d \<noteq> None \<Longrightarrow> beyond (sr_stream s) d \<Longrightarrow> \<not> clean (sr_stream s) d"
    "beyond (sr_stream s) d \<Longrightarrow> sr_rows s d = None"
    "\<not> beyond (sr_stream s) d \<Longrightarrow> clean (sr_stream s) d \<Longrightarrow> as_demand_key (sr_stream s) = Some k \<Longrightarrow>
       sr_rows s d = fresh_row analyse k (sr_bars s) d"
  using assms unfolding rows_inv_def Let_def by blast+

lemma rows_invI:
  assumes "distinct (map fst (sr_bars s))" "as_latest_bar_date (sr_stream s) = latest_of (map fst (sr_bars s))"
    "\<And>d. dict_get (sr_bars s) d \<noteq> None \<Longrightarrow> beyond (sr_stream s) d \<Longrightarrow> \<not> clean (sr_stream s) d"
    "\<And>d. beyond (sr_stream s) d \<Longrightarrow> sr_rows s d = None"
    "\<And>d k. \<not> beyond (sr_stream s) d \<Longrightarrow> clean (sr_stream s) d \<Longrightarrow> as_demand_key (sr_stream s) = Some k \<Longrightarrow>
       sr_rows s d = fresh_row analyse k (sr_bars s) d"
  shows "rows_inv analyse s"
  using assms unfolding rows_inv_def Let_def by blast

lemma fresh_row_cong:
  assumes "\<And>x. x \<le> d \<Longrightarrow> dict_get bars x = dict_get bars' x"
  shows "fresh_row analyse k bars d = fresh_row analyse k bars' d"
proof -
  have "bars_upto bars d = bars_upto bars' d" using assms by (auto simp: bars_upto_def)
  then show ?thesis using assms [of d] by (simp add: fresh_row_def)
qed

text \<open>A change of facts with its invalidation keeps the data invariant.\<close>

lemma rows_inv_invalidate:
  assumes inv: "rows_inv analyse s" and distinct: "distinct (map fst bars)"
    and first: "\<And>d. dict_get bars d \<noteq> dict_get (sr_bars s) d \<Longrightarrow> first \<le> d"
    and end_day: "as_latest_bar_date (invalidate_changed first latest (sr_stream s)) = latest_of (map fst bars)"
  shows "rows_inv analyse (s\<lparr>sr_bars := bars, sr_revision := r, sr_stream := invalidate_changed first latest (sr_stream s)\<rparr>)"
proof -
  let ?st = "sr_stream s" let ?st' = "invalidate_changed first latest ?st"
  have beyond: "beyond ?st' d = beyond ?st d" for d by (simp add: beyond_def invalidate_changed_def)
  have clean: "clean ?st' d \<longleftrightarrow> clean ?st d \<and> d < first" for d
    by (cases "as_dirty_from ?st") (auto simp: clean_def invalidate_changed_def)
  have key: "as_demand_key ?st' = as_demand_key ?st" by (simp add: invalidate_changed_def)
  have same: "dict_get bars x = dict_get (sr_bars s) x" if "x < first" for x
    using first [of x] that by fastforce
  let ?s = "s\<lparr>sr_bars := bars, sr_revision := r, sr_stream := ?st'\<rparr>"
  show ?thesis
  proof (rule rows_invI)
    show "distinct (map fst (sr_bars ?s))" using distinct by simp
    show "as_latest_bar_date (sr_stream ?s) = latest_of (map fst (sr_bars ?s))" using end_day by simp
  next
    fix d assume d: "dict_get (sr_bars ?s) d \<noteq> None" "beyond (sr_stream ?s) d"
    have "\<not> clean ?st' d"
    proof (cases "d < first")
      case True
      then show ?thesis using d same rows_invD(3) [OF inv, of d] by (simp add: beyond clean)
    qed (simp add: clean)
    then show "\<not> clean (sr_stream ?s) d" by simp
  next
    fix d assume "beyond (sr_stream ?s) d"
    then show "sr_rows ?s d = None" using rows_invD(4) [OF inv] by (simp add: beyond)
  next
    fix d k assume d: "\<not> beyond (sr_stream ?s) d" "clean (sr_stream ?s) d" "as_demand_key (sr_stream ?s) = Some k"
    then have "sr_rows s d = fresh_row analyse k (sr_bars s) d"
      using rows_invD(5) [OF inv, of d k] by (simp add: beyond clean key)
    also have "\<dots> = fresh_row analyse k bars d"
      using d(2) by (intro fresh_row_cong) (simp add: same clean)
    finally show "sr_rows ?s d = fresh_row analyse k (sr_bars ?s) d" by simp
  qed
qed

text \<open>Storing facts that change nothing.\<close>

lemma rows_inv_same:
  assumes inv: "rows_inv analyse s" and distinct: "distinct (map fst bars)" and same: "dict_get bars = dict_get (sr_bars s)"
  shows "rows_inv analyse (s\<lparr>sr_bars := bars, sr_revision := r\<rparr>)"
proof -
  have "set (map fst bars) = set (map fst (sr_bars s))"
    by (rule set_eqI) (simp only: dict_days same)
  then have "latest_of (map fst bars) = latest_of (map fst (sr_bars s))" by (rule latest_of_cong)
  moreover have "fresh_row analyse k bars d = fresh_row analyse k (sr_bars s) d" for k d
    by (rule fresh_row_cong) (simp add: same)
  ultimately show ?thesis
    using rows_invD [OF inv] distinct by (intro rows_invI) (simp_all add: same)
qed

lemma invalidate_latest:
  "as_latest_bar_date (invalidate_changed f l st) = Some (max (date_or (as_latest_bar_date st) l) l)"
  by (cases "as_latest_bar_date st") (auto simp: invalidate_changed_def date_or_def)

text \<open>The end of the series moves with the facts.\<close>

lemma latest_after:
  assumes "latest_of xs = v" "l \<in> set ys" "\<And>y. y \<in> set ys \<Longrightarrow> y \<le> l \<or> y \<in> set xs"
    "\<And>x. x \<in> set xs \<Longrightarrow> x \<in> set ys \<or> x \<le> l"
  shows "Some (max (date_or v l) l) = latest_of ys"
proof -
  have "latest_of ys = Some (max (date_or v l) l)"
  proof (cases v)
    case None
    then show ?thesis using assms by (auto simp: latest_of_iff date_or_def)
  next
    case (Some m)
    then have m: "m \<in> set xs" "\<And>x. x \<in> set xs \<Longrightarrow> x \<le> m" using assms(1) latest_of_iff [of xs m] by auto
    have "max m l \<in> set ys" using m(1) assms(2,4) by (cases "l \<le> m") (auto simp: max_def dest: assms(4))
    moreover have "y \<le> max m l" if "y \<in> set ys" for y using assms(3) [OF that] m(2) by fastforce
    ultimately show ?thesis using Some by (simp add: latest_of_iff date_or_def)
  qed
  then show ?thesis by simp
qed

section \<open>Every operation keeps the invariant\<close>

lemma changed_in_store:
  "distinct (map fst records) \<Longrightarrow> d \<in> set (changed_days records bars) \<Longrightarrow> d \<in> set (map fst (store_bars records bars))"
  using store_bars_days(2) by blast

lemma combine_changed_Some: "\<exists>f. combine_changed v d = Some f"
  by (cases v) simp_all

lemma upsert_fenced_cases:
  assumes run: "upsert_fenced is_qfq generations revision records s = Ok s'" and d: "distinct (map fst records)"
  obtains (empty) "s' = s"
  | (same) r where "s' = s\<lparr>sr_bars := store_bars records (sr_bars s), sr_revision := r\<rparr>" "changed_days records (sr_bars s) = []"
  | (changed) r f l where
      "s' = s\<lparr>sr_bars := store_bars records (sr_bars s), sr_revision := r, sr_stream := invalidate_changed f l (sr_stream s)\<rparr>"
      "\<And>d. d \<in> set (changed_days records (sr_bars s)) \<Longrightarrow> f \<le> d \<and> d \<le> l"
      "l \<in> set (map fst (store_bars records (sr_bars s)))"
proof (cases "records = []")
  case True
  then show ?thesis using run by (intro empty) (simp add: upsert_fenced_def)
next
  case False
  let ?changed = "changed_days records (sr_bars s)" let ?bars = "store_bars records (sr_bars s)"
  define fls where "fls = (case revision of
      Some digest \<Rightarrow> if is_qfq then (if sr_revision s \<noteq> None \<and> sr_revision s \<noteq> Some digest
          then (case earliest (map fst ?bars) of
              Some d \<Rightarrow> (combine_changed (earliest ?changed) d, latest_of (map fst ?bars), Some digest)
            | None \<Rightarrow> (earliest ?changed, latest_of ?changed, Some digest))
          else (earliest ?changed, latest_of ?changed, Some digest))
        else (earliest ?changed, latest_of ?changed, sr_revision s)
    | None \<Rightarrow> (earliest ?changed, latest_of ?changed, sr_revision s))"
  obtain first latest r where fls: "fls = (first, latest, r)" by (cases fls) auto
  have s': "s' = s\<lparr>sr_bars := ?bars, sr_revision := r,
      sr_stream := (case (first, latest) of (Some f, Some l) \<Rightarrow> invalidate_changed f l (sr_stream s) | _ \<Rightarrow> sr_stream s)\<rparr>"
    using run False fls unfolding upsert_fenced_def Let_def fls_def [symmetric] by (auto split: prod.splits)
  have bars: "map fst ?bars \<noteq> []" using False store_bars_days(1) [OF d, of "sr_bars s"] by auto
  obtain a where a: "earliest (map fst ?bars) = Some a" using bars by (meson earliest_None not_Some_eq)
  have shape: "(first, latest) = (earliest ?changed, latest_of ?changed) \<or>
      (first, latest) = (combine_changed (earliest ?changed) a, latest_of (map fst ?bars))"
    using fls a unfolding fls_def by (auto split: option.splits if_splits)
  have all: "a \<le> x" if "x \<in> set ?changed" for x
    using a changed_in_store [OF d that] unfolding earliest_iff by blast
  show ?thesis
  proof (cases "(first, latest) = (earliest ?changed, latest_of ?changed)")
    case plain: True
    show ?thesis
    proof (cases "?changed = []")
      case True
      then show ?thesis using s' plain by (intro same [of r]) (simp_all add: earliest_def)
    next
      case False
      then obtain f l where fl: "earliest ?changed = Some f" "latest_of ?changed = Some l"
        by (metis earliest_None latest_of_None option.exhaust)
      show ?thesis
        using s' plain fl changed_in_store [OF d] by (intro changed [where r = r and f = f and l = l]) (auto simp: earliest_iff latest_of_iff)
    qed
  next
    case False
    obtain l where l: "latest_of (map fst ?bars) = Some l" using bars by (meson latest_of_None not_Some_eq)
    obtain f where f: "combine_changed (earliest ?changed) a = Some f" "f \<le> a" by (cases "earliest ?changed") auto
    have fl: "first = Some f" "latest = Some l" using False shape f(1) l by auto
    show ?thesis
    proof (rule changed [where r = r and f = f and l = l])
      show "s' = s\<lparr>sr_bars := ?bars, sr_revision := r, sr_stream := invalidate_changed f l (sr_stream s)\<rparr>"
        using s' fl by simp
      show "f \<le> x \<and> x \<le> l" if x: "x \<in> set ?changed" for x
        using all [OF x] f(2) l changed_in_store [OF d x] unfolding latest_of_iff by force
      show "l \<in> set (map fst ?bars)" using l unfolding latest_of_iff by blast
    qed
  qed
qed

lemma rows_inv_upsert:
  assumes inv: "rows_inv analyse s" and run: "upsert_fenced is_qfq generations revision records s = Ok s'"
    and d: "distinct (map fst records)"
  shows "rows_inv analyse s'"
  using run d
proof (cases rule: upsert_fenced_cases)
  case empty
  then show ?thesis using inv by simp
next
  case (same r)
  have "dict_get (store_bars records (sr_bars s)) = dict_get (sr_bars s)"
    using store_bars_changed [OF d, of "sr_bars s"] same(2) by auto
  then show ?thesis
    unfolding same(1) by (intro rows_inv_same inv store_bars_distinct rows_invD(1) [OF inv])
next
  case (changed r f l)
  show ?thesis
    unfolding changed(1)
  proof (rule rows_inv_invalidate [OF inv])
    show "distinct (map fst (store_bars records (sr_bars s)))" by (intro store_bars_distinct rows_invD(1) [OF inv])
    show "f \<le> d" if "dict_get (store_bars records (sr_bars s)) d \<noteq> dict_get (sr_bars s) d" for d
      using that changed(2) store_bars_changed [OF \<open>distinct (map fst records)\<close>] by blast
    show "as_latest_bar_date (invalidate_changed f l (sr_stream s)) = latest_of (map fst (store_bars records (sr_bars s)))"
      unfolding invalidate_latest
    proof (rule latest_after)
      show "latest_of (map fst (sr_bars s)) = as_latest_bar_date (sr_stream s)" by (simp add: rows_invD(2) [OF inv])
      show "l \<in> set (map fst (store_bars records (sr_bars s)))" by (rule changed(3))
    qed (use changed(2) store_bars_days(2) [OF d, of "sr_bars s"] in blast)+
  qed
qed

lemma rows_inv_reconcile:
  assumes inv: "rows_inv analyse s" and d: "distinct (map fst records)"
    and run: "reconcile_revision generations revision_hash coverage_start coverage_end records s = Ok s'"
  shows "rows_inv analyse s'"
proof -
  let ?changed = "changed_days records (sr_bars s)" let ?bars = "store_bars records (sr_bars s)"
  let ?gone = "\<lambda>d. coverage_start \<le> d \<and> d \<le> coverage_end \<and> d \<notin> set (map fst records)"
  let ?left = "filter (\<lambda>(d, _). \<not> ?gone d) ?bars" let ?l = "Max (set (map fst records))"
  have ne: "records \<noteq> []" using run by (auto simp: reconcile_revision_def)
  have cover: "coverage_end \<le> ?l"
  proof (rule ccontr)
    assume "\<not> coverage_end \<le> ?l"
    then have "coverage_start > coverage_end \<or> Min (set (map fst records)) > coverage_start \<or> ?l < coverage_end" by linarith
    then show False using run ne unfolding reconcile_revision_def by (simp only: if_True if_False sum.distinct)
  qed
  obtain f where f: "combine_changed (case earliest (filter ?gone (map fst ?bars)) of
        None \<Rightarrow> earliest ?changed | Some d \<Rightarrow> combine_changed (earliest ?changed) d) coverage_start = Some f"
    using combine_changed_Some by blast
  have s': "s' = s\<lparr>sr_bars := ?left, sr_revision := (if revision_hash = None then sr_revision s else revision_hash),
      sr_stream := invalidate_changed f ?l (sr_stream s)\<rparr>"
  proof -
    define v where "v = (if revision_hash = None then sr_revision s else revision_hash)"
    show ?thesis
      using run f unfolding reconcile_revision_def Let_def v_def [symmetric] by (auto split: if_splits)
  qed
  have fle: "f \<le> coverage_start" "\<And>x. x \<in> set ?changed \<Longrightarrow> f \<le> x"
  proof -
    have c: "combine_changed v x = Some y \<Longrightarrow> y \<le> x \<and> (\<forall>z. v = Some z \<longrightarrow> y \<le> z)" for v x y
      by (cases v) auto
    show "f \<le> coverage_start" using c f by blast
    fix x assume x: "x \<in> set ?changed"
    then obtain e where e: "earliest ?changed = Some e" "e \<le> x"
      by (metis earliest_iff earliest_None list.set_cases not_Some_eq list.distinct(1))
    then obtain v where v: "(case earliest (filter ?gone (map fst ?bars)) of
        None \<Rightarrow> earliest ?changed | Some d \<Rightarrow> combine_changed (earliest ?changed) d) = Some v" "v \<le> e"
    proof -
      have "\<exists>v. (case u of None \<Rightarrow> Some e | Some d \<Rightarrow> combine_changed (Some e) d) = Some v \<and> v \<le> e" for u :: "int option"
        by (cases u) auto
      then show thesis using that e(1) by metis
    qed
    show "f \<le> x" using c [OF f] v e(2) by force
  qed
  have db: "distinct (map fst ?bars)" by (intro store_bars_distinct rows_invD(1) [OF inv])
  have get: "dict_get ?left x = (if ?gone x then None else dict_get ?bars x)" for x
    using dict_get_filter [of "\<lambda>d. \<not> ?gone d" ?bars x] by simp
  have lmem: "?l \<in> set (map fst records)" using ne by (intro Max_in) auto
  have keys: "x \<in> set (map fst ?left) \<longleftrightarrow> (x \<in> set (map fst records) \<or> x \<in> set (map fst (sr_bars s))) \<and> \<not> ?gone x" for x
    unfolding dict_days [of x ?left] get
    using store_bars_days(1) [OF d, of "sr_bars s"] dict_days [of x ?bars] by auto
  show ?thesis
    unfolding s'
  proof (rule rows_inv_invalidate [OF inv])
    show "distinct (map fst ?left)" by (rule distinct_map_filter [OF db])
    show "f \<le> x" if x: "dict_get ?left x \<noteq> dict_get (sr_bars s) x" for x
    proof (cases "?gone x")
      case True
      then show ?thesis using fle(1) by linarith
    next
      case False
      then have "dict_get ?left x = dict_get ?bars x" using get [of x] by metis
      then show ?thesis using x fle(2) store_bars_changed [OF d, of "sr_bars s" x] by metis
    qed
    show "as_latest_bar_date (invalidate_changed f ?l (sr_stream s)) = latest_of (map fst ?left)"
      unfolding invalidate_latest
    proof (rule latest_after)
      show "latest_of (map fst (sr_bars s)) = as_latest_bar_date (sr_stream s)" by (simp add: rows_invD(2) [OF inv])
      show "?l \<in> set (map fst ?left)" unfolding keys using lmem by blast
    next
      fix y assume "y \<in> set (map fst ?left)"
      then show "y \<le> ?l \<or> y \<in> set (map fst (sr_bars s))" unfolding keys using Max_ge [of "set (map fst records)" y] by blast
    next
      fix x assume "x \<in> set (map fst (sr_bars s))"
      then show "x \<in> set (map fst ?left) \<or> x \<le> ?l" unfolding keys using cover by linarith
    qed
  qed
qed

text \<open>Publishing keeps the data invariant when the rows it leaves alone are already right.\<close>

lemma rows_inv_publish:
  assumes inv: "rows_inv analyse s" and latest: "dict_get (sr_bars s) latest \<noteq> None"
    and forward: "\<not> (\<exists>t. as_state_through (sr_stream s) = Some t \<and> latest < t)"
    and kept: "\<And>a d. start = Some a \<Longrightarrow> d < a \<Longrightarrow> sr_rows s d = fresh_row analyse k (sr_bars s) d"
  shows "rows_inv analyse (publish analyse k start latest s)"
proof -
  let ?st = "sr_stream s" let ?s = "publish analyse k start latest s"
  obtain m where m: "latest_of (map fst (sr_bars s)) = Some m" "latest \<le> m"
    using latest unfolding dict_days [symmetric]
    by (metis latest_of_None latest_of_iff empty_iff list.set(1) option.exhaust)
  have bars: "sr_bars ?s = sr_bars s" by (simp add: publish_def Let_def)
  have st: "as_state_through (sr_stream ?s) = Some latest" "as_demand_key (sr_stream ?s) = Some k"
    "as_latest_bar_date (sr_stream ?s) = Some m" "as_dirty_from (sr_stream ?s) = (if m \<le> latest then None else as_dirty_from ?st)"
    using rows_invD(2) [OF inv] m by (simp_all add: publish_def Let_def date_or_def)
  have rows: "sr_rows ?s d = (if (case start of None \<Rightarrow> True | Some a \<Rightarrow> a \<le> d) \<and> d \<le> latest
      then fresh_row analyse k (sr_bars s) d else sr_rows s d)" for d
    by (simp add: publish_def Let_def rebuild_rows_def)
  have beyond: "beyond (sr_stream ?s) d \<longleftrightarrow> latest < d" for d by (simp add: beyond_def st)
  have old: "beyond ?st d" if "latest < d" for d
    using that forward by (auto simp: beyond_def split: option.split)
  show ?thesis
  proof (rule rows_invI)
    show "distinct (map fst (sr_bars ?s))" "as_latest_bar_date (sr_stream ?s) = latest_of (map fst (sr_bars ?s))"
      using rows_invD(1) [OF inv] m by (simp_all add: bars st)
  next
    fix d assume d: "dict_get (sr_bars ?s) d \<noteq> None" "beyond (sr_stream ?s) d"
    have "d \<in> set (map fst (sr_bars s))" using d(1) unfolding dict_days by (simp add: bars)
    then have "d \<le> m" using m(1) unfolding latest_of_iff by blast
    moreover have "latest < d" using d(2) by (simp add: beyond)
    ultimately have "\<not> m \<le> latest" "latest < d" by auto
    then show "\<not> clean (sr_stream ?s) d"
      using rows_invD(3) [OF inv] d(1) old by (simp add: bars clean_def st)
  next
    fix d assume "beyond (sr_stream ?s) d"
    then show "sr_rows ?s d = None" using rows_invD(4) [OF inv] old by (simp add: rows beyond)
  next
    fix d k' assume "\<not> beyond (sr_stream ?s) d" "as_demand_key (sr_stream ?s) = Some k'"
    then have d: "d \<le> latest" "k' = k" by (auto simp: beyond st)
    have "sr_rows ?s d = fresh_row analyse k (sr_bars s) d"
      unfolding rows using d(1) kept [of _ d] by (cases start) auto
    then show "sr_rows ?s d = fresh_row analyse k' (sr_bars ?s) d" by (simp add: d(2) bars)
  qed
qed

text \<open>Rows before the dirty mark are right wherever they are, published or not.\<close>

lemma clean_rows:
  assumes inv: "rows_inv analyse s" and "clean (sr_stream s) d" and key: "as_demand_key (sr_stream s) = Some k"
  shows "sr_rows s d = fresh_row analyse k (sr_bars s) d"
proof (cases "beyond (sr_stream s) d")
  case True
  then have "dict_get (sr_bars s) d = None" using rows_invD(3) [OF inv] assms(2) by blast
  then show ?thesis using rows_invD(4) [OF inv True] by (simp add: fresh_row_def)
next
  case False
  then show ?thesis using rows_invD(5) [OF inv _ assms(2) key] by blast
qed

lemma materialize_cases:
  assumes "materialize analyse outcome key_of requests end force s = Ok s'"
  obtains (current) "s' = s\<lparr>sr_stream := (sr_stream s)\<lparr>as_published_demand_generation := as_demand_generation (sr_stream s)\<rparr>\<rparr>"
      "as_demand_key (sr_stream s) = Some (key_of requests (sr_demand s))"
  | (published) start latest where "s' = publish analyse (key_of requests (sr_demand s)) start latest s"
      "dict_get (sr_bars s) latest \<noteq> None" "\<not> (\<exists>t. as_state_through (sr_stream s) = Some t \<and> latest < t)"
      "start = None \<or> as_demand_key (sr_stream s) = Some (key_of requests (sr_demand s)) \<and>
         (as_dirty_from (sr_stream s) = None \<or> as_dirty_from (sr_stream s) = start)"
proof -
  let ?st = "sr_stream s" let ?key = "key_of requests (sr_demand s)"
  define days where "days = filter (\<lambda>d. case end of None \<Rightarrow> True | Some e \<Rightarrow> d \<le> e) (map fst (sr_bars s))"
  define rebuild where "rebuild = (force \<or> as_demand_key ?st \<noteq> Some ?key \<or> as_published_revision ?st < 0)"
  obtain first latest where days: "earliest days = Some first" "latest_of days = Some latest"
    using assms by (auto simp: materialize_def Let_def days_def [symmetric] split: option.splits)
  have fresh: "\<not> (case as_state_through ?st of None \<Rightarrow> False | Some t \<Rightarrow> latest < t)"
    using assms unfolding materialize_def Let_def days_def [symmetric] days by (auto split: if_splits)
  have mem: "dict_get (sr_bars s) latest \<noteq> None" using days(2)
    unfolding latest_of_iff days_def dict_days [symmetric] by simp
  have target: "\<not> (\<exists>t. as_state_through ?st = Some t \<and> latest < t)" using fresh by auto
  note unfolded = assms [unfolded materialize_def Let_def days_def [symmetric] days rebuild_def [symmetric] option.case prod.case]
  show thesis
  proof (cases "\<not> rebuild \<and> (if rebuild then None else as_dirty_from ?st) = None")
    case True
    then have key: "as_demand_key ?st = Some ?key" and dirty: "as_dirty_from ?st = None" by (auto simp: rebuild_def)
    show thesis
      using unfolded fresh True key dirty mem target by (auto split: if_splits intro: current published)
  next
    case False
    then have s': "s' = publish analyse ?key (if rebuild then None else as_dirty_from ?st) latest s"
      using unfolded fresh False by (cases rebuild) auto
    show thesis using published [OF s' mem target] by (auto simp: rebuild_def)
  qed
qed

lemma rows_inv_materialize:
  assumes inv: "rows_inv analyse s" and run: "materialize analyse outcome key_of requests end force s = Ok s'"
  shows "rows_inv analyse s'"
  using run
proof (cases rule: materialize_cases)
  case current
  then show ?thesis using inv by (simp add: rows_inv_def beyond_def clean_def Let_def)
next
  case (published start latest)
  show ?thesis
    unfolding published(1)
  proof (rule rows_inv_publish [OF inv published(2,3)])
    fix a d assume a: "start = Some a" "d < a"
    then have "clean (sr_stream s) d" "as_demand_key (sr_stream s) = Some (key_of requests (sr_demand s))"
      using published(4) by (auto simp: clean_def)
    then show "sr_rows s d = fresh_row analyse (key_of requests (sr_demand s)) (sr_bars s) d"
      by (rule clean_rows [OF inv])
  qed
qed

lemma stream_inv_hub:
  assumes "stream_inv key_of s"
    and "sr_stream s' = sr_stream s \<or> sr_stream s' = invalidate_changed f l (sr_stream s)" and "sr_demand s' = sr_demand s"
  shows "stream_inv key_of s'"
proof -
  have "\<exists>k. as_latest_bar_date (invalidate_changed f l (sr_stream s)) = Some k \<and> t \<le> k"
    if "as_latest_bar_date (sr_stream s) = Some k'" "t \<le> k'" for t k'
    using that unfolding invalidate_latest by (simp add: date_or_def)
  then show ?thesis
    using assms unfolding stream_inv_def Let_def by (fastforce simp: invalidate_changed_def)
qed

lemma stream_inv_materialize:
  assumes inv: "stream_inv key_of s" and run: "materialize analyse outcome key_of requests end force s = Ok s'"
  shows "stream_inv key_of s'"
  using run
proof (cases rule: materialize_cases)
  case current
  then show ?thesis using inv by (auto simp: stream_inv_def Let_def)
next
  case (published start latest)
  show ?thesis unfolding published(1) using inv by (auto simp: stream_inv_def publish_def Let_def)
qed

lemma reconcile_stream:
  assumes "reconcile_revision generations revision_hash coverage_start coverage_end records s = Ok s'"
  shows "(\<exists>f l. sr_stream s' = invalidate_changed f l (sr_stream s)) \<and> sr_demand s' = sr_demand s"
  using assms unfolding reconcile_revision_def Let_def
  by (auto intro!: exI split: if_splits)

lemma upsert_stream:
  assumes "upsert_fenced is_qfq generations revision records s = Ok s'" "distinct (map fst records)"
  shows "(sr_stream s' = sr_stream s \<or> (\<exists>f l. sr_stream s' = invalidate_changed f l (sr_stream s))) \<and> sr_demand s' = sr_demand s"
  using assms by (cases rule: upsert_fenced_cases) auto

text \<open>Bookkeeping that touches neither watermarks nor data.\<close>

lemma inv_bookkeeping:
  assumes "stream_inv key_of s" "rows_inv analyse s"
    and "s' = s\<lparr>sr_stream := st\<rparr>"
    and "st = (sr_stream s)\<lparr>as_sync_generation := g, as_history_depth := h, as_last_sync_at := l\<rparr>"
  shows "stream_inv key_of s' \<and> rows_inv analyse s'"
proof
  show "stream_inv key_of s'" using assms(1) unfolding assms(3,4) stream_inv_def Let_def by force
  show "rows_inv analyse s'" using assms(2) unfolding assms(3,4) rows_inv_def Let_def beyond_def clean_def by force
qed

lemma series_step_inv:
  assumes step: "series_step analyse key_of s s'" and inv: "stream_inv key_of s" "rows_inv analyse s"
  shows "stream_inv key_of s' \<and> rows_inv analyse s'"
  using step
proof (cases rule: series_step.cases)
  case (upsert records is_qfq generations revision)
  then show ?thesis
    using rows_inv_upsert [OF inv(2)] upsert_stream stream_inv_hub [OF inv(1)] by metis
next
  case (reconcile records generations revision_hash coverage_start coverage_end)
  then show ?thesis
    using rows_inv_reconcile [OF inv(2)] reconcile_stream stream_inv_hub [OF inv(1)] by metis
next
  case (reserve g)
  show ?thesis
    by (rule inv_bookkeeping [OF inv, where g = g and h = "as_history_depth (sr_stream s)" and l = "as_last_sync_at (sr_stream s)"])
      (use reserve in \<open>auto simp: reserve_sync_def Let_def\<close>)
next
  case (complete generations depth now)
  show ?thesis
    by (rule inv_bookkeeping [OF inv, where g = "as_sync_generation (sr_stream s)" and l = "Some now" and
          h = "max (as_history_depth (sr_stream s)) depth"])
      (use complete in \<open>auto simp: complete_sync_def\<close>)
next
  case (demand q)
  have "stream_inv key_of (mark_demand_changed q s)"
    using inv(1) by (auto simp: mark_demand_changed_def stream_inv_def Let_def)
  moreover have "rows_inv analyse (mark_demand_changed q s)"
    using inv(2) unfolding rows_inv_def Let_def beyond_def clean_def mark_demand_changed_def by force
  ultimately show ?thesis using demand by simp
next
  case (publication outcome requests e force)
  show ?thesis
    using rows_inv_materialize [OF inv(2) publication] stream_inv_materialize [OF inv(1) publication] by simp
qed

lemma series_reachable_inv:
  assumes "series_reachable analyse key_of s"
  shows "stream_inv key_of s \<and> rows_inv analyse s"
  using assms
proof (induction rule: series_reachable.induct)
  case (start s)
  then show ?case
    by (auto simp: series_start_def stream_inv_def rows_inv_def new_stream_def beyond_def clean_def latest_of_def Let_def)
next
  case (continue s s')
  then show ?case using series_step_inv by blast
qed

section \<open>Contract of publication\<close>

text \<open>
  C1: What is reported as current is current. In every history of fact writes, revisions,
  reservations, configuration changes and publications, if the control row of a series that has
  been published counts as current, then every published row of every day, past days included, is
  the one the bars stored now determine under a request key of the demand configured now, no day
  without a bar has rows, and no bar lies beyond the published end.
\<close>

theorem current_publication_exact:
  assumes "series_reachable analyse key_of s"
    and "publication_is_current (Some (sr_stream s))" and "0 \<le> as_published_revision (sr_stream s)"
  shows "(\<exists>requests. as_demand_key (sr_stream s) = Some (key_of requests (sr_demand s)) \<and>
      (\<forall>d. sr_rows s d = fresh_row analyse (key_of requests (sr_demand s)) (sr_bars s) d)) \<and>
    (\<exists>t. as_state_through (sr_stream s) = Some t \<and> list_all (\<lambda>d. d \<le> t) (map fst (sr_bars s)))"
proof -
  let ?st = "sr_stream s"
  have inv: "stream_inv key_of s" "rows_inv analyse s" using series_reachable_inv [OF assms(1)] by auto
  have cur: "as_dirty_from ?st = None" "as_published_demand_generation ?st = as_demand_generation ?st"
    using assms(2,3) by (auto simp: publication_is_current_def)
  obtain t where t: "as_state_through ?st = Some t"
    using inv(1) assms(3) by (auto simp: stream_inv_def Let_def)
  obtain x where x: "as_demand_key ?st = Some (key_of x (sr_demand s))"
    using inv(1) cur(2) t by (auto simp: stream_inv_def Let_def)
  have clean: "clean ?st d" for d by (simp add: clean_def cur(1))
  have "sr_rows s d = fresh_row analyse (key_of x (sr_demand s)) (sr_bars s) d" for d
    by (rule clean_rows [OF inv(2) clean x])
  moreover have "d \<le> t" if "d \<in> set (map fst (sr_bars s))" for d
  proof (rule ccontr)
    assume "\<not> d \<le> t"
    then have "beyond ?st d" by (simp add: beyond_def t)
    then show False using rows_invD(3) [OF inv(2), of d] clean that unfolding dict_days by blast
  qed
  ultimately show ?thesis using x t unfolding list_all_iff by blast
qed

text \<open>
  Nothing stale is forgotten: a series whose publication is not current, or that was never
  published, is always selected for analysis, whatever the target day.
\<close>

theorem stale_series_pending:
  assumes "series_reachable analyse key_of s"
  shows "analysis_pending local_day target (Some (sr_stream s)) \<or>
    publication_is_current (Some (sr_stream s)) \<and> 0 \<le> as_published_revision (sr_stream s)"
  using series_reachable_inv [OF assms]
  by (auto simp: analysis_pending_def publication_is_current_def stream_inv_def Let_def)

text \<open>
  C25: A publication makes progress. Once bars exist, publishing to the end of the series leaves it
  current, and doing it again with the same requests changes nothing; it can fail only with an
  exception of the indicator and state calculations themselves, and then nothing is published.
\<close>

theorem publication_catches_up:
  assumes "series_reachable analyse key_of s" and "sr_bars s \<noteq> []"
  shows "case materialize analyse outcome key_of requests None force s of
      Inr s' \<Rightarrow> publication_is_current (Some (sr_stream s')) \<and> 0 \<le> as_published_revision (sr_stream s') \<and>
        materialize analyse outcome' key_of requests None False s' = Ok s'
    | Inl e \<Rightarrow> \<exists>start latest. outcome (key_of requests (sr_demand s)) start latest = Raise e"
proof -
  let ?st = "sr_stream s" let ?k = "key_of requests (sr_demand s)"
  have inv: "stream_inv key_of s" "rows_inv analyse s" using series_reachable_inv [OF assms(1)] by auto
  obtain m where m: "latest_of (map fst (sr_bars s)) = Some m" using assms(2) by (cases "latest_of (map fst (sr_bars s))") auto
  obtain f where f: "earliest (map fst (sr_bars s)) = Some f" using assms(2) by (cases "earliest (map fst (sr_bars s))") auto
  have end_day: "as_latest_bar_date ?st = Some m" using rows_invD(2) [OF inv(2)] m by simp
  have fresh: "\<not> (case as_state_through ?st of None \<Rightarrow> False | Some t \<Rightarrow> m < t)"
    using inv(1) end_day by (auto simp: stream_inv_def Let_def split: option.split)
  have idle: "materialize analyse outcome' key_of requests None False s' = Ok s'"
    if "sr_bars s' = sr_bars s" "sr_demand s' = sr_demand s" "as_demand_key (sr_stream s') = Some ?k"
      "as_dirty_from (sr_stream s') = None" "0 \<le> as_published_revision (sr_stream s')"
      "as_published_revision (sr_stream s') = as_source_revision (sr_stream s')"
      "as_published_demand_generation (sr_stream s') = as_demand_generation (sr_stream s')"
      "as_state_through (sr_stream s') = Some t" "as_indicator_through (sr_stream s') = Some t" "t = m" for s' t
    using that m f by (simp add: materialize_def Let_def date_or_def)
  define rebuild where "rebuild = (force \<or> as_demand_key ?st \<noteq> Some ?k \<or> as_published_revision ?st < 0)"
  define through where "through = min (date_or (as_indicator_through ?st) f) (date_or (as_state_through ?st) f)"
  have run: "materialize analyse outcome key_of requests None force s =
      (if \<not> rebuild \<and> (if rebuild then None else as_dirty_from ?st) = None
       then if m \<le> through \<and> as_published_revision ?st = as_source_revision ?st
         then Ok (s\<lparr>sr_stream := ?st\<lparr>as_published_demand_generation := as_demand_generation ?st\<rparr>\<rparr>)
         else let start = Some (date_or (earliest (filter (\<lambda>d. through < d \<and> d \<le> m) (map fst (sr_bars s)))) f)
           in emap (\<lambda>_. publish analyse ?k start m s) (outcome ?k start m)
       else emap (\<lambda>_. publish analyse ?k (if rebuild then None else as_dirty_from ?st) m s)
         (outcome ?k (if rebuild then None else as_dirty_from ?st) m))"
    using fresh m f unfolding materialize_def Let_def rebuild_def through_def by simp
  consider (current) "materialize analyse outcome key_of requests None force s =
        Ok (s\<lparr>sr_stream := ?st\<lparr>as_published_demand_generation := as_demand_generation ?st\<rparr>\<rparr>)"
      "as_demand_key ?st = Some ?k" "as_dirty_from ?st = None" "0 \<le> as_published_revision ?st"
      "as_published_revision ?st = as_source_revision ?st"
    | (published) start where "materialize analyse outcome key_of requests None force s =
        emap (\<lambda>_. publish analyse ?k start m s) (outcome ?k start m)"
  proof (cases "\<not> rebuild \<and> as_dirty_from ?st = None \<and> m \<le> through \<and> as_published_revision ?st = as_source_revision ?st")
    case True
    then show thesis by (intro current) (simp_all add: run, auto simp: rebuild_def)
  next
    case False
    then show thesis using run unfolding Let_def by (cases rebuild; cases "as_dirty_from ?st") (auto intro: published)
  qed
  then show ?thesis
  proof cases
    case current
    obtain t where t: "as_state_through ?st = Some t" "as_indicator_through ?st = Some t" "t \<le> m"
      using inv(1) current(4) end_day by (auto simp: stream_inv_def Let_def)
    have "\<not> t < m"
      using rows_invD(3) [OF inv(2), of m] m current(3) unfolding latest_of_iff dict_days by (auto simp: beyond_def clean_def t)
    then have "t = m" using t(3) by simp
    then show ?thesis
      using current t idle [of "s\<lparr>sr_stream := ?st\<lparr>as_published_demand_generation := as_demand_generation ?st\<rparr>\<rparr>" t]
      by (simp add: publication_is_current_def)
  next
    case (published start)
    have "0 \<le> as_source_revision ?st" using inv(1) by (simp add: stream_inv_def Let_def)
    then have "publication_is_current (Some (sr_stream (publish analyse ?k start m s))) \<and>
        0 \<le> as_published_revision (sr_stream (publish analyse ?k start m s)) \<and>
        materialize analyse outcome' key_of requests None False (publish analyse ?k start m s) = Ok (publish analyse ?k start m s)"
      using idle [of "publish analyse ?k start m s" m] end_day
      by (simp add: publication_is_current_def publish_def Let_def date_or_def)
    then show ?thesis unfolding published by (cases "outcome ?k start m") auto
  qed
qed

section \<open>Fencing\<close>

lemma sync_generation_step:
  assumes "series_step analyse key_of s s'"
  shows "as_sync_generation (sr_stream s) \<le> as_sync_generation (sr_stream s')"
  using assms
proof (cases rule: series_step.cases)
  case (upsert records is_qfq generations revision)
  then show ?thesis using upsert_stream [OF upsert(2,1)] by (auto simp: invalidate_changed_def)
next
  case (reconcile records generations revision_hash coverage_start coverage_end)
  then show ?thesis using reconcile_stream [OF reconcile(2)] by (auto simp: invalidate_changed_def)
next
  case (publication outcome requests e force)
  then show ?thesis by (cases rule: materialize_cases) (simp_all add: publish_def Let_def)
qed (auto simp: reserve_sync_def complete_sync_def mark_demand_changed_def Let_def)

lemma sync_generation_steps:
  "rtranclp (series_step analyse key_of) s s' \<Longrightarrow> as_sync_generation (sr_stream s) \<le> as_sync_generation (sr_stream s')"
proof (induction rule: rtranclp_induct)
  case (step s' s'')
  then show ?case using sync_generation_step order_trans by blast
qed simp

text \<open>
  C26: A superseded synchronization cannot write. Once a later run has reserved the series, an
  upsert, a revision or a completion that presents the earlier reservation is refused, whatever
  else happened in between, so a slow provider response never overwrites newer facts.
\<close>

theorem superseded_sync_rejected:
  assumes "reserve_sync s0 = (g, s1)" and "rtranclp (series_step analyse key_of) s1 s2"
    and "reserve_sync s2 = (g', s3)" and "rtranclp (series_step analyse key_of) s3 s4" and "records \<noteq> []"
  shows "upsert_fenced is_qfq (Some (Some g)) revision records s4 = Raise (PersistenceRecordError ''market-data sync was superseded'') \<and>
    \<not> (\<exists>s. reconcile_revision (Some (Some g)) revision_hash coverage_start coverage_end records s4 = Ok s) \<and>
    \<not> (\<exists>s. complete_sync (Some (Some g)) depth now s4 = Ok s)"
proof -
  have "g = as_sync_generation (sr_stream s1)" "as_sync_generation (sr_stream s2) < as_sync_generation (sr_stream s3)"
    using assms(1,3) by (auto simp: reserve_sync_def Let_def)
  then have "g < as_sync_generation (sr_stream s4)"
    using sync_generation_steps [OF assms(2)] sync_generation_steps [OF assms(4)] by linarith
  then have "check_fence (Some (Some g)) (sr_stream s4) = Raise (PersistenceRecordError ''market-data sync was superseded'')"
    by (simp add: check_fence_def)
  then show ?thesis using assms(5) by (simp add: upsert_fenced_def reconcile_revision_def complete_sync_def)
qed

section \<open>Witnesses\<close>

definition latest_close :: "string \<Rightarrow> (int \<Rightarrow> int option) \<Rightarrow> int \<Rightarrow> int option" where
  "latest_close k bars d = bars d"

definition always_calculated :: "string \<Rightarrow> int option \<Rightarrow> int \<Rightarrow> unit result" where
  "always_calculated key start latest = Ok ()"

definition one_key :: "unit \<Rightarrow> unit \<Rightarrow> string" where
  "one_key x q = ''k''"

definition blank_series :: "(int, int, unit) price_series" where
  "blank_series = \<lparr>sr_stream = new_stream, sr_bars = [], sr_revision = None, sr_rows = (\<lambda>_. None), sr_demand = ()\<rparr>"

definition one_bar_series :: "(int, int, unit) price_series" where
  "one_bar_series = \<lparr>sr_stream = invalidate_changed 5 5 new_stream, sr_bars = [(5, 7)], sr_revision = None,
     sr_rows = (\<lambda>_. None), sr_demand = ()\<rparr>"

lemma one_bar_reachable: "series_reachable analyse key_of one_bar_series"
proof -
  have "series_reachable analyse key_of blank_series"
    by (rule series_reachable.start) (simp add: series_start_def blank_series_def)
  moreover have "upsert_fenced True None None [(5, 7)] blank_series = Ok one_bar_series"
    by (simp add: upsert_fenced_def check_fence_def changed_days_def store_bars_def earliest_def latest_of_def
        blank_series_def one_bar_series_def)
  then have "series_step analyse key_of blank_series one_bar_series"
    by (rule series_step.upsert [rotated]) simp
  ultimately show ?thesis by (rule series_reachable.continue)
qed

theorem publication_catches_up_witness:
  "\<exists>s'. materialize latest_close always_calculated one_key () None False one_bar_series = Ok s' \<and>
     publication_is_current (Some (sr_stream s'))"
proof -
  have bars: "sr_bars one_bar_series \<noteq> []" by (simp add: one_bar_series_def)
  have p: "case materialize latest_close always_calculated one_key () None False one_bar_series of
      Inr s' \<Rightarrow> publication_is_current (Some (sr_stream s')) \<and> 0 \<le> as_published_revision (sr_stream s') \<and>
        materialize latest_close always_calculated one_key () None False s' = Ok s'
    | Inl e \<Rightarrow> \<exists>start latest. always_calculated (one_key () (sr_demand one_bar_series)) start latest = Raise e"
    by (rule publication_catches_up [OF one_bar_reachable bars])
  then show ?thesis by (auto simp: always_calculated_def split: sum.splits)
qed

definition published_series :: "(int, int, unit) price_series" where
  "published_series = publish latest_close ''k'' None 5 one_bar_series"

lemma published_series_reachable: "series_reachable latest_close one_key published_series"
proof -
  have "materialize latest_close always_calculated one_key () None False one_bar_series = Ok published_series"
    by (simp add: materialize_def always_calculated_def one_key_def one_bar_series_def published_series_def earliest_def latest_of_def invalidate_changed_def
        new_stream_def Let_def)
  then show ?thesis by (rule series_reachable.continue [OF one_bar_reachable series_step.publication])
qed

theorem current_publication_exact_witness:
  "publication_is_current (Some (sr_stream published_series)) \<and> sr_rows published_series 5 = Some 7"
proof -
  have c: "publication_is_current (Some (sr_stream published_series))" "0 \<le> as_published_revision (sr_stream published_series)"
    by (simp_all add: publication_is_current_def published_series_def publish_def one_bar_series_def invalidate_changed_def
        new_stream_def date_or_def Let_def)
  have "sr_rows published_series 5 = fresh_row latest_close ''k'' (sr_bars published_series) 5"
    using current_publication_exact [OF published_series_reachable c] by (simp add: one_key_def)
  also have "\<dots> = Some 7"
    by (simp add: latest_close_def fresh_row_def bars_upto_def published_series_def publish_def one_bar_series_def Let_def)
  finally show ?thesis using c by blast
qed

theorem stale_series_pending_witness:
  "analysis_pending (\<lambda>t. t) 0 (Some (sr_stream one_bar_series))"
  using stale_series_pending [OF one_bar_reachable, of "\<lambda>t. t" 0]
  by (simp add: one_bar_series_def invalidate_changed_def new_stream_def)

theorem superseded_sync_rejected_witness:
  "upsert_fenced True (Some (Some 1)) None [(6, 8)] (snd (reserve_sync (snd (reserve_sync one_bar_series)))) =
     Raise (PersistenceRecordError ''market-data sync was superseded'')"
proof -
  have r: "reserve_sync one_bar_series = (1, snd (reserve_sync one_bar_series))"
    by (simp add: reserve_sync_def one_bar_series_def invalidate_changed_def new_stream_def)
  show ?thesis
    using superseded_sync_rejected [OF r rtranclp.rtrancl_refl prod.collapse [symmetric] rtranclp.rtrancl_refl,
        where records = "[(6, 8)]"] by simp
qed

end
