(* ===== verification/Security_Master.thy ===== *)
theory Security_Master
  imports Market_Data Binary64
begin

text \<open>
  The security master of the market data hub: duplicate facts are collapsed and conflicting ones
  refused (\<open>domain/deduplication.py\<close>), a new snapshot of the universe is checked against truncation
  and reconciled with the stored table (\<open>repositories/market_data.py\<close>). Shares are compared in
  floating point, with the rounding written out; the table is a dictionary by symbol.
\<close>

section \<open>Unique facts\<close>

fun unique_loop :: "('a \<Rightarrow> 'k) \<Rightarrow> 'a list \<Rightarrow> ('k, 'a) dict \<Rightarrow> ('k, 'a) dict result" where
  "unique_loop key [] unique = Ok unique"
| "unique_loop key (r # rs) unique =
     (if dict_get unique (key r) \<noteq> None \<and> dict_get unique (key r) \<noteq> Some r
      then Raise (InvalidMarketDataError ''conflicting market records for one identity'')
      else unique_loop key rs (dict_set (key r) r unique))"

definition unique_facts :: "('a \<Rightarrow> 'k :: linorder) \<Rightarrow> 'a list \<Rightarrow> 'a list result" where
  "unique_facts key records =
     emap (\<lambda>unique. map (\<lambda>k. the (dict_get unique k)) (sort (map fst unique))) (unique_loop key records [])"

definition unique_records :: "('a \<Rightarrow> 'k :: linorder) \<Rightarrow> 'a list \<Rightarrow> 'a list result" where
  "unique_records key records = (case unique_facts key records of
      Inl _ \<Rightarrow> Raise (PersistenceRecordError ''conflicting market records for one identity'')
    | Inr rs \<Rightarrow> Ok rs)"

section \<open>The table of securities\<close>

datatype security_status = SECURITY_ACTIVE | SECURITY_INACTIVE

record security_row =
  sw_name :: string
  sw_market :: string
  sw_exchange :: string
  sw_type :: string
  sw_status :: security_status

definition security_values :: "security \<Rightarrow> security_row" where
  "security_values r = \<lparr>sw_name = se_name r, sw_market = market_value (se_market r), sw_exchange = se_exchange r,
     sw_type = security_type_value (se_type r), sw_status = SECURITY_ACTIVE\<rparr>"

definition MAX_BIND_PARAMETERS :: nat where "MAX_BIND_PARAMETERS = 32767"

text \<open>The records of one statement: six values each, as many as fit.\<close>

definition batch_size :: nat where
  "batch_size = max 1 (MAX_BIND_PARAMETERS div 6)"

function batches :: "nat \<Rightarrow> 'a list \<Rightarrow> 'a list list" where
  "batches n xs = (if xs = [] then [] else take (max 1 n) xs # batches n (drop (max 1 n) xs))"
  by pat_completeness auto
termination
  by (relation "measure (\<lambda>(_, xs). length xs)") auto

declare batches.simps [simp del]

definition upsert_statement :: "security list \<Rightarrow> (string, security_row) dict \<Rightarrow> (string, security_row) dict" where
  "upsert_statement rs table = fold (\<lambda>r. dict_set (se_symbol r) (security_values r)) rs table"

definition upsert_securities :: "security list \<Rightarrow> (string, security_row) dict \<Rightarrow> (string, security_row) dict" where
  "upsert_securities rs table = fold upsert_statement (batches batch_size rs) table"

section \<open>Snapshots\<close>

definition lost_symbols :: "(string \<times> string \<times> string) list \<Rightarrow> security list \<Rightarrow> string set" where
  "lost_symbols previous records = set (map fst previous) - set (map se_symbol records)"

definition segment_count :: "(string \<times> string) list \<Rightarrow> string \<times> string \<Rightarrow> nat" where
  "segment_count segments s = length (filter (\<lambda>x. x = s) segments)"

definition segments_of :: "security list \<Rightarrow> (string \<times> string) list" where
  "segments_of records = map (\<lambda>r. (market_value (se_market r), security_type_value (se_type r))) records"

definition validate_security_snapshot ::
  "(real \<Rightarrow> real) \<Rightarrow> (string \<times> string \<times> string) list \<Rightarrow> security list \<Rightarrow> unit result"
where
  "validate_security_snapshot rnd previous records =
     (let old = set (map fst previous) in
      if old \<noteq> {} \<and> rnd (real (card (lost_symbols previous records)) / real (card old)) > rnd (5 / 100)
      then Raise (PersistenceRecordError ''security snapshot shrinkage exceeds safety threshold'')
      else
        let prior = map snd previous; new = segments_of records in
        if list_ex (\<lambda>s. real (segment_count new s) < rnd (real (segment_count prior s) * rnd (95 / 100))) (remdups prior)
        then Raise (PersistenceRecordError ''security snapshot contains an incomplete market segment'')
        else Ok ())"

definition previous_snapshot :: "(string, security_row) dict \<Rightarrow> (string \<times> string \<times> string) list" where
  "previous_snapshot table = map (\<lambda>(symbol, w). (symbol, sw_market w, sw_type w))
     (filter (\<lambda>(_, w). sw_status w = SECURITY_ACTIVE) table)"

text \<open>
  The update of the missing symbols is one statement: it binds the two status values and, in its
  \<open>NOT IN\<close>, every symbol of the snapshot, and the driver refuses more arguments than its limit.
\<close>

definition inactivated :: "string list \<Rightarrow> (string, security_row) dict \<Rightarrow> (string, security_row) dict" where
  "inactivated present table = map (\<lambda>(symbol, w).
     (symbol, if sw_status w = SECURITY_ACTIVE \<and> symbol \<notin> set present then w\<lparr>sw_status := SECURITY_INACTIVE\<rparr> else w)) table"

definition inactivate_missing :: "string list \<Rightarrow> (string, security_row) dict \<Rightarrow> (string, security_row) dict result" where
  "inactivate_missing present table =
     (if length present + 2 > MAX_BIND_PARAMETERS
      then Raise (RuntimeError ''the number of query arguments cannot exceed 32767'')
      else Ok (inactivated present table))"

definition reconcile_snapshot ::
  "(real \<Rightarrow> real) \<Rightarrow> security list \<Rightarrow> bool \<Rightarrow> (string, security_row) dict \<Rightarrow> (string, security_row) dict result"
where
  "reconcile_snapshot rnd records authoritative table =
     ebind (unique_records se_symbol records) (\<lambda>rs.
     if rs = [] then Raise (PersistenceRecordError ''security snapshot must not be empty'')
     else ebind (validate_security_snapshot rnd (previous_snapshot table) rs) (\<lambda>_.
       let stored = upsert_securities rs table
       in if authoritative then inactivate_missing (map se_symbol rs) stored else Ok stored))"

section \<open>Facts are collapsed by identity, never by order\<close>

definition keyed :: "('a \<Rightarrow> 'k) \<Rightarrow> ('k, 'a) dict \<Rightarrow> bool" where
  "keyed key d \<longleftrightarrow> distinct (map fst d) \<and> (\<forall>k r. dict_get d k = Some r \<longrightarrow> key r = k)"

lemma keyed_set: "keyed key d \<Longrightarrow> keyed key (dict_set (key r) r d)"
  unfolding keyed_def by (simp add: dict_set_distinct)

lemma keyed_ran:
  assumes "keyed key d"
  shows "r \<in> ran (dict_get d) \<longleftrightarrow> dict_get d (key r) = Some r"
  using assms by (auto simp: keyed_def ran_def)

lemma unique_loop_ok:
  assumes "unique_loop key rs d = Ok u" "keyed key d"
  shows "keyed key u \<and> ran (dict_get u) = set rs \<union> ran (dict_get d)"
  using assms
proof (induction key rs d rule: unique_loop.induct)
  case (1 key d)
  then show ?case by simp
next
  case (2 key r rs d)
  have cond: "dict_get d (key r) = None \<or> dict_get d (key r) = Some r" using 2(2) by (auto split: if_splits)
  have "keyed key u \<and> ran (dict_get u) = set rs \<union> ran (dict_get (dict_set (key r) r d))"
    using 2 cond by (intro 2(1)) (auto simp: keyed_set split: if_splits)
  moreover have "ran (dict_get (dict_set (key r) r d)) = insert r (ran (dict_get d))"
    using cond by (auto simp: ran_map_upd map_upd_triv intro: ranI)
  ultimately show ?case by auto
qed

lemma unique_loop_raise:
  assumes "unique_loop key rs d = Raise e" "keyed key d"
  shows "e = InvalidMarketDataError ''conflicting market records for one identity'' \<and> \<not> inj_on key (set rs \<union> ran (dict_get d))"
  using assms
proof (induction key rs d rule: unique_loop.induct)
  case (1 key d)
  then show ?case by simp
next
  case (2 key r rs d)
  show ?case
  proof (cases "dict_get d (key r) \<noteq> None \<and> dict_get d (key r) \<noteq> Some r")
    case True
    then obtain q where q: "dict_get d (key r) = Some q" "q \<noteq> r" by auto
    then have "key q = key r" "q \<in> ran (dict_get d)" using 2(3) by (auto simp: keyed_def ran_def)
    then have "\<not> inj_on key (set (r # rs) \<union> ran (dict_get d))" using q(2) by (auto simp: inj_on_def)
    then show ?thesis using 2(2) True by simp
  next
    case False
    have "e = InvalidMarketDataError ''conflicting market records for one identity'' \<and>
        \<not> inj_on key (set rs \<union> ran (dict_get (dict_set (key r) r d)))"
      using 2 False by (intro 2(1)) (auto simp: keyed_set split: if_splits)
    moreover have "ran (dict_get (dict_set (key r) r d)) \<subseteq> insert r (ran (dict_get d))"
      by (auto simp: ran_def split: if_splits)
    moreover have "inj_on key (set rs \<union> ran (dict_get (dict_set (key r) r d)))"
      if "inj_on key (set (r # rs) \<union> ran (dict_get d))"
      by (rule inj_on_subset [OF that]) (use calculation(2) in auto)
    ultimately show ?thesis by blast
  qed
qed

lemma unique_facts_ok:
  assumes "unique_facts key xs = Ok ys"
  shows "set ys = set xs \<and> sorted (map key ys) \<and> distinct (map key ys)"
proof -
  obtain u where u: "unique_loop key xs [] = Ok u" "ys = map (\<lambda>k. the (dict_get u k)) (sort (map fst u))"
    using assms by (auto simp: unique_facts_def)
  have k: "keyed key u" "ran (dict_get u) = set xs"
    using unique_loop_ok [OF u(1)] by (auto simp: keyed_def)
  have keys: "map key ys = sort (map fst u)"
    unfolding u(2) map_map
  proof (rule map_idI)
    fix x assume "x \<in> set (sort (map fst u))"
    then obtain r where "dict_get u x = Some r" by (auto simp: map_of_eq_None_iff dest: weak_map_of_SomeI)
    then show "(key \<circ> (\<lambda>k. the (dict_get u k))) x = x" using k(1) by (auto simp: keyed_def)
  qed
  have "set ys = ran (dict_get u)"
  proof -
    have "set (map fst u) = dom (dict_get u)" by (simp add: dom_map_of_conv_image_fst)
    then show ?thesis unfolding u(2) by (auto simp: ran_def dom_def image_iff) (metis domI option.sel)
  qed
  then show ?thesis using k keys by (auto simp: keyed_def)
qed

lemma unique_facts_raise:
  "unique_facts key xs = Raise e \<Longrightarrow>
     e = InvalidMarketDataError ''conflicting market records for one identity'' \<and> \<not> inj_on key (set xs)"
  using unique_loop_raise [of key xs "[]" e] by (simp add: unique_facts_def keyed_def)

text \<open>
  Facts that arrive several times are collapsed by identity. A batch is accepted exactly when
  no two different records claim the same identity; the result then has the same records, each
  once, sorted by identity, and it does not depend on the order or the multiplicity in which the
  source sent them.
\<close>

theorem unique_facts_order_free:
  shows "((\<exists>ys. unique_facts key xs = Ok ys) \<longleftrightarrow> inj_on key (set xs)) \<and>
    (\<forall>ys. unique_facts key xs = Ok ys \<longrightarrow> set ys = set xs \<and> sorted (map key ys) \<and> distinct (map key ys)) \<and>
    (set xs' = set xs \<longrightarrow> unique_facts key xs' = unique_facts key xs)"
proof -
  have ok_iff: "(\<exists>ys. unique_facts key xs = Ok ys) \<longleftrightarrow> inj_on key (set xs)" for xs
  proof (cases "unique_facts key xs")
    case (Inl e)
    then show ?thesis using unique_facts_raise [OF Inl] by simp
  next
    case (Inr ys)
    then show ?thesis using unique_facts_ok [OF Inr] by (metis distinct_map)
  qed
  have same: "unique_facts key xs' = unique_facts key xs" if s: "set xs' = set xs"
  proof (cases "unique_facts key xs")
    case (Inl e)
    then obtain e' where "unique_facts key xs' = Raise e'" using ok_iff [of xs] ok_iff [of xs'] s by (cases "unique_facts key xs'") auto
    then show ?thesis using Inl unique_facts_raise [OF Inl] unique_facts_raise [of key xs' e'] by simp
  next
    case (Inr ys)
    then obtain ys' where ys': "unique_facts key xs' = Ok ys'" using ok_iff [of xs] ok_iff [of xs'] s by metis
    note a = unique_facts_ok [OF Inr] and b = unique_facts_ok [OF ys']
    have eq: "set ys' = set ys" using a b s by metis
    have "set (map key ys') = set (map key ys)" unfolding set_map eq ..
    then have keys: "map key ys' = map key ys" using a b by (metis sorted_distinct_set_unique)
    have inj: "inj_on key (set ys' \<union> set ys)" unfolding eq Un_absorb using a by (metis distinct_map)
    have "ys' = ys" by (rule map_inj_on [OF keys inj])
    then show ?thesis using Inr ys' by simp
  qed
  show ?thesis using ok_iff [of xs] same unique_facts_ok by blast
qed

theorem unique_facts_order_free_witness:
  "unique_facts (\<lambda>x :: int. x mod 10) [7, 3, 7] = unique_facts (\<lambda>x. x mod 10) [3, 7]"
proof -
  have "set [7, 3, 7] = set [3, 7 :: int]" by auto
  then show ?thesis using unique_facts_order_free [of "\<lambda>x. x mod 10" "[3, 7]" "[7, 3, 7]"] by blast
qed

section \<open>Statements stay within the limit of the driver\<close>

lemma concat_batches: "concat (batches n xs) = xs"
proof (induction n xs rule: batches.induct)
  case (1 n xs)
  then show ?case by (subst batches.simps) auto
qed

lemma batches_bounded: "b \<in> set (batches n xs) \<Longrightarrow> b \<noteq> [] \<and> length b \<le> max 1 n"
proof (induction n xs rule: batches.induct)
  case (1 n xs)
  then show ?case by (subst (asm) (2) batches.simps) (auto split: if_splits)
qed

text \<open>Every statement of an upsert binds at most the 32767 values the driver accepts.\<close>

lemma statements_bounded:
  "b \<in> set (batches batch_size rs) \<Longrightarrow> b \<noteq> [] \<and> 6 * length b \<le> MAX_BIND_PARAMETERS"
  using batches_bounded [of b batch_size rs] by (auto simp: batch_size_def MAX_BIND_PARAMETERS_def)

lemma upsert_batched: "upsert_securities rs table = upsert_statement rs table"
proof -
  have "fold upsert_statement bs table = upsert_statement (concat bs) table" for bs
    by (induction bs arbitrary: table) (simp_all add: upsert_statement_def)
  then show ?thesis by (simp add: upsert_securities_def concat_batches)
qed

lemma upsert_lookup:
  "dict_get (upsert_statement rs table) symbol =
     (case find (\<lambda>r. se_symbol r = symbol) (rev rs) of Some r \<Rightarrow> Some (security_values r) | None \<Rightarrow> dict_get table symbol)"
  by (induction rs rule: rev_induct) (simp_all add: upsert_statement_def)

section \<open>The safety thresholds are exact\<close>

lemma pow2_neg: "(2 :: real) powr of_int (- 53) = 1 / 2 ^ 53" "(2 :: real) powr of_int (40 - 53) = 1 / 2 ^ 13"
proof -
  have n: "(2 :: real) powr - real n = 1 / 2 ^ n" for n
    by (simp add: powr_minus powr_realpow divide_inverse)
  show "(2 :: real) powr of_int (- 53) = 1 / 2 ^ 53" "(2 :: real) powr of_int (40 - 53) = 1 / 2 ^ 13"
    using n [of 53] n [of 13] by simp_all
qed

lemma share_error: "0 \<le> x \<Longrightarrow> x \<le> 1 \<Longrightarrow> \<bar>rnd64 x - x\<bar> \<le> 1 / 2 ^ 53"
  using rnd64_error_below [of 0 x] pow2_neg by simp

lemma count_error: "0 \<le> x \<Longrightarrow> x \<le> 2 ^ 40 \<Longrightarrow> \<bar>rnd64 x - x\<bar> \<le> 1 / 2 ^ 13"
  using rnd64_error_below [of 40 x] pow2_neg by (simp add: powr_realpow [symmetric])

text \<open>The double next to 0.95 lies below it, so a segment at exactly 95 percent passes.\<close>

lemma rnd64_95: "rnd64 (95 / 100) \<le> 95 / 100"
proof -
  have "\<lfloor>log 2 \<bar>95 / 100 :: real\<bar>\<rfloor> = - 1"
    by (intro floor_unique) (simp_all add: le_log_iff log_less_iff powr_minus)
  then have u: "ulp (95 / 100) = 2 powr - 53" by (simp add: ulp_def ulp_exp_def)
  have q: "95 / 100 / ulp (95 / 100) = 95 / 100 * 2 ^ 53"
    unfolding u by (simp add: powr_minus powr_realpow [symmetric])
  have f: "\<lfloor>95 / 100 * 2 ^ 53 :: real\<rfloor> = 8556839292003942" by (intro floor_unique) simp_all
  have "rne (95 / 100 * 2 ^ 53) = 8556839292003942" unfolding rne_def f Let_def by simp
  then show ?thesis unfolding rnd64_eq q unfolding u by (simp add: powr_minus powr_realpow [symmetric])
qed

lemma share_exceeds:
  assumes "l \<le> n" "0 < n" "n \<le> 2 ^ 40"
  shows "rnd64 (real l / real n) > rnd64 (5 / 100) \<longleftrightarrow> n < 20 * l"
proof
  assume "n < 20 * l"
  then have "real n + 1 \<le> 20 * real l" by linarith
  then have "(real n + 1) / (20 * real n) \<le> 20 * real l / (20 * real n)" by (intro divide_right_mono) simp_all
  then have gap: "real l / real n \<ge> 1 / 20 + 1 / (20 * real n)" using assms(2) by (simp add: add_divide_distrib)
  have le: "(1 :: real) / (20 * 2 ^ 40) \<le> 1 / (20 * real n)" using assms by (intro divide_left_mono) auto
  have far: "1 / 20 + 1 / (20 * 2 ^ 40) \<le> real l / real n" by (rule order_trans [OF add_left_mono [OF le] gap])
  have "\<bar>rnd64 (real l / real n) - real l / real n\<bar> \<le> 1 / 2 ^ 53" using assms by (intro share_error) simp_all
  then have "rnd64 (real l / real n) \<ge> real l / real n - 1 / 2 ^ 53" by linarith
  moreover have "rnd64 (5 / 100) \<le> 5 / 100 + 1 / 2 ^ 53" using share_error [of "5 / 100"] by linarith
  moreover have "5 / 100 + 1 / 2 ^ 53 < 1 / 20 + 1 / (20 * 2 ^ 40) - 1 / (2 ^ 53 :: real)" by simp
  ultimately show "rnd64 (real l / real n) > rnd64 (5 / 100)" using far by linarith
next
  assume less: "rnd64 (real l / real n) > rnd64 (5 / 100)"
  show "n < 20 * l"
  proof (rule ccontr)
    assume "\<not> n < 20 * l"
    then have "real l / real n \<le> 5 / 100" using assms(2) by (simp add: field_simps)
    then have "rnd64 (real l / real n) \<le> rnd64 (5 / 100)" by (rule rnd64_mono)
    then show False using less by (rule leD [THEN notE])
  qed
qed

lemma segment_short:
  assumes "c \<le> 2 ^ 40" "n \<le> 2 ^ 40"
  shows "real n < rnd64 (real c * rnd64 (95 / 100)) \<longleftrightarrow> 20 * n < 19 * c"
proof -
  let ?r = "rnd64 (95 / 100)"
  have r: "0 \<le> ?r" "?r \<le> 95 / 100" "95 / 100 - 1 / 2 ^ 53 \<le> ?r"
    using rnd64_nonneg [of "95 / 100"] rnd64_95 share_error [of "95 / 100"] by (simp_all add: abs_le_iff)
  have c: "real c \<le> 2 ^ 40" using assms(1) by (metis of_nat_le_iff of_nat_numeral of_nat_power)
  have up: "real c * ?r \<le> 19 * real c / 20" using mult_left_mono [OF r(2), of "real c"] by simp
  show ?thesis
  proof
    assume short: "20 * n < 19 * c"
    have "real c * (95 / 100 - 1 / 2 ^ 53) \<le> real c * ?r" by (intro mult_left_mono r) simp
    then have "19 * real c / 20 - 1 / 2 ^ 13 \<le> real c * ?r" using c by (simp add: field_simps)
    moreover have "\<bar>rnd64 (real c * ?r) - real c * ?r\<bar> \<le> 1 / 2 ^ 13"
      using r c up by (intro count_error) auto
    then have "real c * ?r - 1 / 2 ^ 13 \<le> rnd64 (real c * ?r)" by linarith
    moreover have "20 * real n + 1 \<le> 19 * real c" using short by linarith
    ultimately show "real n < rnd64 (real c * ?r)" by simp
  next
    assume less: "real n < rnd64 (real c * ?r)"
    show "20 * n < 19 * c"
    proof (rule ccontr)
      assume "\<not> 20 * n < 19 * c"
      then have "real c * ?r \<le> real n" using up by linarith
      then have "rnd64 (real c * ?r) \<le> rnd64 (real n)" by (rule rnd64_mono)
      also have "\<dots> = real n" using assms(2) by (intro b64.rnd_of_nat) simp
      finally have "rnd64 (real c * ?r) \<le> real n" .
      then show False using less by simp
    qed
  qed
qed

section \<open>What a reconciled snapshot does\<close>

definition snapshot_complete :: "(string \<times> string \<times> string) list \<Rightarrow> security list \<Rightarrow> bool" where
  "snapshot_complete previous records \<longleftrightarrow>
     20 * card (lost_symbols previous records) \<le> card (set (map fst previous)) \<and>
     (\<forall>s. 19 * segment_count (map snd previous) s \<le> 20 * segment_count (segments_of records) s)"

lemma segment_count_bound: "segment_count xs s \<le> length xs"
  by (simp add: segment_count_def)

lemma segment_count_absent: "s \<notin> set xs \<Longrightarrow> segment_count xs s = 0"
  by (auto simp: segment_count_def filter_empty_conv)

lemma shrinkage_exact:
  assumes "length previous \<le> 2 ^ 40"
  shows "(set (map fst previous) \<noteq> {} \<and>
      rnd64 (real (card (lost_symbols previous records)) / real (card (set (map fst previous)))) > rnd64 (5 / 100)) \<longleftrightarrow>
    card (set (map fst previous)) < 20 * card (lost_symbols previous records)"
proof (cases "previous = []")
  case True
  then show ?thesis by (simp add: lost_symbols_def)
next
  case False
  let ?n = "card (set (map fst previous))"
  have "?n \<le> length previous" using card_length [of "map fst previous"] by (simp only: length_map)
  moreover have "0 < ?n" using False by (simp only: card_gt_0_iff) simp
  moreover have "card (lost_symbols previous records) \<le> ?n"
    unfolding lost_symbols_def by (intro card_mono) auto
  ultimately show ?thesis using assms False by (subst share_exceeds) simp_all
qed

lemma validate_snapshot_exact:
  assumes "length previous \<le> 2 ^ 40" "length records \<le> 2 ^ 40"
  shows "validate_security_snapshot rnd64 previous records = Ok () \<longleftrightarrow> snapshot_complete previous records"
proof -
  let ?prior = "map snd previous" and ?new = "segments_of records"
  have seg: "real (segment_count ?new s) < rnd64 (real (segment_count ?prior s) * rnd64 (95 / 100)) \<longleftrightarrow>
      20 * segment_count ?new s < 19 * segment_count ?prior s" for s
  proof (rule segment_short)
    show "segment_count ?prior s \<le> 2 ^ 40"
      by (rule order_trans [OF segment_count_bound]) (use assms(1) in simp)
    show "segment_count ?new s \<le> 2 ^ 40"
      by (rule order_trans [OF segment_count_bound]) (use assms(2) in \<open>simp add: segments_of_def\<close>)
  qed
  have "list_ex (\<lambda>s. real (segment_count ?new s) < rnd64 (real (segment_count ?prior s) * rnd64 (95 / 100))) (remdups ?prior) \<longleftrightarrow>
      (\<exists>s. 20 * segment_count ?new s < 19 * segment_count ?prior s)"
    unfolding list_ex_iff set_remdups seg
    by (metis segment_count_absent mult_0_right not_less_zero)
  then show ?thesis
    unfolding validate_security_snapshot_def Let_def snapshot_complete_def
    using shrinkage_exact [OF assms(1), of records] by (auto simp del: split_paired_Ex split_paired_All simp flip: not_less)
qed

lemma unique_records_eq:
  "unique_records key xs = (if inj_on key (set xs) then unique_facts key xs
     else Raise (PersistenceRecordError ''conflicting market records for one identity''))"
proof (cases "unique_facts key xs")
  case (Inl e)
  then show ?thesis using unique_facts_raise [OF Inl] by (simp add: unique_records_def)
next
  case (Inr ys)
  then have "inj_on key (set xs)" using unique_facts_ok [OF Inr] by (metis distinct_map)
  then show ?thesis using Inr by (simp add: unique_records_def)
qed

lemma find_unique:
  "distinct (map key xs) \<Longrightarrow> r \<in> set xs \<Longrightarrow> find (\<lambda>x. key x = key r) xs = Some r"
  by (induction xs) auto

lemma inactivate_lookup:
  "dict_get (inactivated present table) symbol = map_option
     (\<lambda>w. if symbol \<notin> set present then w\<lparr>sw_status := SECURITY_INACTIVE\<rparr> else w) (dict_get table symbol)"
proof (induction table)
  case Nil
  then show ?case by (simp add: inactivated_def)
next
  case (Cons kw table)
  have "w\<lparr>sw_status := SECURITY_INACTIVE\<rparr> = w" if "sw_status w \<noteq> SECURITY_ACTIVE" for w :: security_row
    using that by (cases w; cases "sw_status w") auto
  then show ?case using Cons by (cases kw) (auto simp: inactivated_def)
qed

lemma upsert_unique_lookup:
  assumes "distinct (map se_symbol rs)"
  shows "r \<in> set rs \<Longrightarrow> dict_get (upsert_securities rs table) (se_symbol r) = Some (security_values r)"
    and "symbol \<notin> set (map se_symbol rs) \<Longrightarrow> dict_get (upsert_securities rs table) symbol = dict_get table symbol"
proof -
  show "dict_get (upsert_securities rs table) (se_symbol r) = Some (security_values r)" if "r \<in> set rs"
    using find_unique [of se_symbol "rev rs" r] assms that by (simp add: upsert_batched upsert_lookup rev_map [symmetric])
  show "dict_get (upsert_securities rs table) symbol = dict_get table symbol" if "symbol \<notin> set (map se_symbol rs)"
  proof -
    have "find (\<lambda>r. se_symbol r = symbol) (rev rs) = None" using that by (auto simp: find_None_iff)
    then show ?thesis by (simp add: upsert_batched upsert_lookup)
  qed
qed

text \<open>
  C40: A snapshot of the security universe, in double precision arithmetic. It is stored exactly when
  it is not empty, no two different records claim a symbol, at most one in twenty of the active
  symbols is missing, every market segment keeps at least 95 percent of its count, and, when the
  snapshot is authoritative, it has at most 32765 symbols, since its last statement binds them all:
  the rounded comparisons of the code decide the thresholds exactly, for tables of up to \<open>2 ^ 40\<close>
  rows. Every record is then stored active with its values; a symbol it does not mention is
  unchanged, or, when the snapshot is authoritative, inactive; no row disappears.
\<close>

theorem reconcile_snapshot_exact:
  assumes "length table \<le> 2 ^ 40" "length records \<le> 2 ^ 40"
  shows "((\<exists>t. reconcile_snapshot rnd64 records authoritative table = Ok t) \<longleftrightarrow>
      records \<noteq> [] \<and> inj_on se_symbol (set records) \<and> (authoritative \<longrightarrow> card (set records) \<le> 32765) \<and>
      (\<exists>rs. unique_facts se_symbol records = Ok rs \<and> snapshot_complete (previous_snapshot table) rs)) \<and>
    (\<forall>t. reconcile_snapshot rnd64 records authoritative table = Ok t \<longrightarrow>
      (\<forall>r \<in> set records. dict_get t (se_symbol r) = Some (security_values r)) \<and>
      (\<forall>symbol. symbol \<notin> se_symbol ` set records \<longrightarrow> dict_get t symbol =
         (if authoritative then map_option (\<lambda>w. w\<lparr>sw_status := SECURITY_INACTIVE\<rparr>) (dict_get table symbol)
          else dict_get table symbol)))"
proof (cases "unique_facts se_symbol records")
  case (Inl e)
  then have "\<not> inj_on se_symbol (set records)" using unique_facts_raise [OF Inl] by simp
  then show ?thesis by (simp add: reconcile_snapshot_def unique_records_eq)
next
  case (Inr rs)
  note rs = unique_facts_ok [OF Inr]
  have inj: "inj_on se_symbol (set records)" using rs by (metis distinct_map)
  have short: "length rs \<le> 2 ^ 40"
    using rs assms(2) card_length [of records] distinct_card [of rs] by (metis distinct_map order_trans)
  have "length (previous_snapshot table) \<le> 2 ^ 40"
    unfolding previous_snapshot_def length_map by (rule order_trans [OF length_filter_le assms(1)])
  note valid = validate_snapshot_exact [OF this short]
  have empty: "rs = [] \<longleftrightarrow> records = []" using rs by (metis set_empty)
  have d: "distinct (map se_symbol rs)" using rs by simp
  have eq: "set rs = set records" using rs by simp
  have count: "length rs = card (set records)" using distinct_card [of rs] d unfolding eq distinct_map by simp
  have run: "reconcile_snapshot rnd64 records authoritative table = Ok t \<longleftrightarrow>
      records \<noteq> [] \<and> snapshot_complete (previous_snapshot table) rs \<and> (authoritative \<longrightarrow> card (set records) \<le> 32765) \<and>
      t = (if authoritative then inactivated (map se_symbol rs) (upsert_securities rs table) else upsert_securities rs table)" for t
    using valid empty count
    by (auto simp: reconcile_snapshot_def unique_records_eq inj Inr ebind_eq_Inr_iff inactivate_missing_def MAX_BIND_PARAMETERS_def Let_def
        split: if_splits)
  show ?thesis
  proof (intro conjI allI impI ballI)
    show "(\<exists>t. reconcile_snapshot rnd64 records authoritative table = Ok t) \<longleftrightarrow>
      records \<noteq> [] \<and> inj_on se_symbol (set records) \<and> (authoritative \<longrightarrow> card (set records) \<le> 32765) \<and>
      (\<exists>rs. unique_facts se_symbol records = Ok rs \<and> snapshot_complete (previous_snapshot table) rs)"
      unfolding run using inj Inr by auto
  next
    fix t r assume t: "reconcile_snapshot rnd64 records authoritative table = Ok t" and r: "r \<in> set records"
    then show "dict_get t (se_symbol r) = Some (security_values r)"
      using upsert_unique_lookup(1) [OF d, of r table] eq unfolding run by (auto simp: inactivate_lookup)
  next
    fix t symbol assume t: "reconcile_snapshot rnd64 records authoritative table = Ok t"
      and s: "symbol \<notin> se_symbol ` set records"
    then show "dict_get t symbol =
         (if authoritative then map_option (\<lambda>w. w\<lparr>sw_status := SECURITY_INACTIVE\<rparr>) (dict_get table symbol)
          else dict_get table symbol)"
      using upsert_unique_lookup(2) [OF d, of symbol table] eq unfolding run by (auto simp: inactivate_lookup)
  qed
qed

theorem reconcile_snapshot_exact_witness:
  "\<exists>t. reconcile_snapshot rnd64
       [\<lparr>se_symbol = ''600000'', se_name = ''PF'', se_market = SH, se_type = STOCK, se_exchange = ''SH''\<rparr>] True
       [(''600000'', \<lparr>sw_name = ''P'', sw_market = ''SH'', sw_exchange = ''SH'', sw_type = ''STOCK'', sw_status = SECURITY_ACTIVE\<rparr>)] = Ok t"
proof -
  let ?r = "\<lparr>se_symbol = ''600000'', se_name = ''PF'', se_market = SH, se_type = STOCK, se_exchange = ''SH''\<rparr>"
  let ?t = "[(''600000'', \<lparr>sw_name = ''P'', sw_market = ''SH'', sw_exchange = ''SH'', sw_type = ''STOCK'', sw_status = SECURITY_ACTIVE\<rparr>)]"
  have "unique_facts se_symbol [?r] = Ok [?r]" by (simp add: unique_facts_def)
  moreover have "snapshot_complete (previous_snapshot ?t) [?r]"
    by (simp add: snapshot_complete_def previous_snapshot_def lost_symbols_def segments_of_def segment_count_def)
  ultimately show ?thesis using reconcile_snapshot_exact [of ?t "[?r]" True] by simp
qed

end
