(* ===== verification/Authentication.thy ===== *)
theory Authentication
  imports Prelude
begin

text \<open>
  Accounts, invitations, refresh tokens and the first installation
  (\<open>services/auth_service.py\<close>, \<open>services/installation_setup.py\<close>, \<open>core/security.py\<close>).

  The tables are lists of rows in one record; an operation is a function from the tables to the
  tables and a result, and stands for one transaction: the locks the code takes (row locks, advisory
  locks by family and for the first administrator) make it atomic. An exception inside a transaction
  leaves the tables unchanged, unless the code commits before it raises. The clock, the random token,
  the family identifier, the password hashing of Argon2, the digest of tokens and the JWT library are
  arguments. Of the surrogate keys only that of users is read by an operation.
\<close>

section \<open>Tables\<close>

datatype user_role = ADMIN | USER

datatype user_status = INVITED | ACTIVE | DISABLED

datatype invitation_status = PENDING | ACCEPTED | REVOKED | EXPIRED

record user =
  ur_id :: nat
  ur_username :: string
  ur_email :: string
  ur_password_hash :: string
  ur_role :: user_role
  ur_status :: user_status
  ur_invited_by :: "nat option"

record invitation =
  iv_email :: string
  iv_token_hash :: string
  iv_status :: invitation_status
  iv_created_by :: nat
  iv_expires_at :: int
  iv_accepted_at :: "int option"

record refresh_session =
  rt_user_id :: nat
  rt_token_hash :: string
  rt_family_id :: string
  rt_issued_at :: int
  rt_expires_at :: int
  rt_used_at :: "int option"
  rt_revoked_at :: "int option"
  rt_replaced_by_hash :: "string option"

record installation_setup =
  in_token_hash :: "string option"
  in_completed_at :: "int option"

record auth_db =
  users :: "user list"
  invitations :: "invitation list"
  sessions :: "refresh_session list"
  installation :: "installation_setup option"
  next_user_id :: nat

definition empty_db :: auth_db where
  "empty_db = \<lparr>users = [], invitations = [], sessions = [], installation = None, next_user_id = 1\<rparr>"

section \<open>Accounts\<close>

definition normalize_identifier :: "string \<Rightarrow> string" where
  "normalize_identifier v = lower (strip v)"

definition require_active_admin :: "user \<Rightarrow> unit result" where
  "require_active_admin u =
     (if ur_status u \<noteq> ACTIVE \<or> ur_role u \<noteq> ADMIN
      then Raise (ApiError ''FORBIDDEN'' ''Administrator access is required.'' 403) else Ok ())"

text \<open>The unique indexes on lower-cased names and addresses.\<close>

definition insert_user :: "user \<Rightarrow> auth_db \<Rightarrow> auth_db result" where
  "insert_user u db =
     (if list_ex (\<lambda>v. lower (ur_username v) = lower (ur_username u) \<or> lower (ur_email v) = lower (ur_email u)) (users db)
      then Raise (IntegrityError ''users'')
      else Ok (db\<lparr>users := users db @ [u], next_user_id := Suc (next_user_id db)\<rparr>))"

definition insert_session :: "refresh_session \<Rightarrow> auth_db \<Rightarrow> auth_db result" where
  "insert_session r db =
     (if rt_token_hash r \<in> set (map rt_token_hash (sessions db)) \<or> rt_user_id r \<notin> set (map ur_id (users db))
      then Raise (IntegrityError ''refresh_sessions'')
      else Ok (db\<lparr>sessions := sessions db @ [r]\<rparr>))"

definition reserve_login_identifiers :: "string \<Rightarrow> string \<Rightarrow> auth_db \<Rightarrow> unit result" where
  "reserve_login_identifiers username email db =
     (let identifiers = [normalize_identifier username, normalize_identifier email] in
      if list_ex (\<lambda>u. lower (ur_username u) \<in> set identifiers \<or> lower (ur_email u) \<in> set identifiers) (users db)
      then Raise (ApiError ''INVALID_REQUEST'' ''Username or email is already in use.'' 409)
      else Ok ())"

section \<open>Invitations\<close>

definition create_invitation ::
  "(string \<Rightarrow> string) \<Rightarrow> string \<Rightarrow> int \<Rightarrow> int \<Rightarrow> user \<Rightarrow> string \<Rightarrow> auth_db \<Rightarrow> auth_db \<times> (invitation \<times> string) result"
where
  "create_invitation hash_opaque_token raw_token now invitation_ttl_seconds admin email db =
     (case require_active_admin admin of
        Inl e \<Rightarrow> (db, Raise e)
      | Inr _ \<Rightarrow>
          let invitation = \<lparr>iv_email = normalize_identifier email, iv_token_hash = hash_opaque_token raw_token,
            iv_status = PENDING, iv_created_by = ur_id admin, iv_expires_at = now + invitation_ttl_seconds,
            iv_accepted_at = None\<rparr> in
          if iv_token_hash invitation \<in> set (map iv_token_hash (invitations db))
            \<or> iv_created_by invitation \<notin> set (map ur_id (users db))
          then (db, Raise (ApiError ''INVALID_REQUEST'' ''Invitation could not be created.'' 400))
          else (db\<lparr>invitations := invitations db @ [invitation]\<rparr>, Ok (invitation, raw_token)))"

definition update_invitation :: "string \<Rightarrow> (invitation \<Rightarrow> invitation) \<Rightarrow> auth_db \<Rightarrow> auth_db" where
  "update_invitation h f db =
     db\<lparr>invitations := map (\<lambda>i. if iv_token_hash i = h then f i else i) (invitations db)\<rparr>"

definition invalid_invitation :: exn where
  "invalid_invitation = ApiError ''INVALID_INVITATION'' ''Invitation is invalid or unavailable.'' 400"

definition register_user ::
  "(string \<Rightarrow> string) \<Rightarrow> (string \<Rightarrow> string) \<Rightarrow> int \<Rightarrow> string \<Rightarrow> string \<Rightarrow> string \<Rightarrow> string option \<Rightarrow> auth_db \<Rightarrow>
     auth_db \<times> user result"
where
  "register_user hash_opaque_token hash_password now invite_token username password email db =
     (let token_hash = hash_opaque_token invite_token in
      case find (\<lambda>i. iv_token_hash i = token_hash) (invitations db) of
        None \<Rightarrow> (db, Raise invalid_invitation)
      | Some invitation \<Rightarrow>
          if iv_status invitation \<noteq> PENDING then (db, Raise invalid_invitation)
          else if iv_expires_at invitation \<le> now
          then (update_invitation token_hash (iv_status_update (\<lambda>_. EXPIRED)) db, Raise invalid_invitation)
          else if email \<noteq> None \<and> the email \<noteq> [] \<and>
            normalize_identifier (the email) \<noteq> normalize_identifier (iv_email invitation)
          then (db, Raise invalid_invitation)
          else case reserve_login_identifiers username (iv_email invitation) db of
            Inl e \<Rightarrow> (db, Raise e)
          | Inr _ \<Rightarrow>
              let u = \<lparr>ur_id = next_user_id db, ur_username = strip username, ur_email = iv_email invitation,
                ur_password_hash = hash_password password, ur_role = USER, ur_status = ACTIVE,
                ur_invited_by = Some (iv_created_by invitation)\<rparr> in
              case insert_user u db of
                Inl _ \<Rightarrow> (db, Raise (ApiError ''INVALID_REQUEST'' ''Username or email is already in use.'' 409))
              | Inr db' \<Rightarrow>
                  (update_invitation token_hash (\<lambda>i. i\<lparr>iv_status := ACCEPTED, iv_accepted_at := Some now\<rparr>) db', Ok u))"

section \<open>Refresh tokens\<close>

record issued_tokens =
  it_access_token :: string
  it_refresh_token :: string
  it_user :: user

definition issue_tokens ::
  "(string \<Rightarrow> string) \<Rightarrow> (nat \<Rightarrow> string) \<Rightarrow> string \<Rightarrow> string \<Rightarrow> int \<Rightarrow> int \<Rightarrow> user \<Rightarrow> auth_db \<Rightarrow> auth_db \<times> issued_tokens result"
where
  "issue_tokens hash_opaque_token create_access_token raw_refresh_token family now refresh_token_ttl_seconds u db =
     (case insert_session \<lparr>rt_user_id = ur_id u, rt_token_hash = hash_opaque_token raw_refresh_token,
          rt_family_id = family, rt_issued_at = now, rt_expires_at = now + refresh_token_ttl_seconds,
          rt_used_at = None, rt_revoked_at = None, rt_replaced_by_hash = None\<rparr> db of
        Inl _ \<Rightarrow> (db, Raise (ApiError ''INVALID_REQUEST'' ''Could not create a session.'' 500))
      | Inr db' \<Rightarrow> (db', Ok \<lparr>it_access_token = create_access_token (ur_id u), it_refresh_token = raw_refresh_token, it_user = u\<rparr>))"

datatype identifier_type = Auto | Username | Email

definition login_matches :: "identifier_type \<Rightarrow> string \<Rightarrow> user \<Rightarrow> bool" where
  "login_matches kind identifier u = (case kind of
      Username \<Rightarrow> lower (ur_username u) = identifier
    | Email \<Rightarrow> lower (ur_email u) = identifier
    | Auto \<Rightarrow> lower (ur_username u) = identifier \<or> lower (ur_email u) = identifier)"

definition authenticate_and_issue_tokens ::
  "(string \<Rightarrow> string) \<Rightarrow> (nat \<Rightarrow> string) \<Rightarrow> (string \<Rightarrow> string \<Rightarrow> bool) \<Rightarrow> string \<Rightarrow> string \<Rightarrow> string \<Rightarrow> int \<Rightarrow> int \<Rightarrow>
     identifier_type \<Rightarrow> string \<Rightarrow> string \<Rightarrow> auth_db \<Rightarrow> auth_db \<times> issued_tokens result"
where
  "authenticate_and_issue_tokens hash_opaque_token create_access_token verify_password dummy_hash raw family now ttl
     kind username password db =
     (let matches = take 2 (filter (login_matches kind (normalize_identifier username)) (users db));
          found = (case matches of [u] \<Rightarrow> Some u | _ \<Rightarrow> None);
          password_valid = verify_password password (case found of Some u \<Rightarrow> ur_password_hash u | None \<Rightarrow> dummy_hash) in
      case found of
        None \<Rightarrow> (db, Raise (ApiError ''INVALID_CREDENTIALS'' ''Invalid username or password.'' 401))
      | Some u \<Rightarrow>
          if \<not> password_valid \<or> ur_status u \<noteq> ACTIVE
          then (db, Raise (ApiError ''INVALID_CREDENTIALS'' ''Invalid username or password.'' 401))
          else issue_tokens hash_opaque_token create_access_token raw family now ttl u db)"

definition revoke_family :: "string \<Rightarrow> int \<Rightarrow> auth_db \<Rightarrow> auth_db" where
  "revoke_family family now db = db\<lparr>sessions := map
     (\<lambda>r. if rt_family_id r = family \<and> rt_revoked_at r = None then r\<lparr>rt_revoked_at := Some now\<rparr> else r) (sessions db)\<rparr>"

definition invalid_refresh_token :: exn where
  "invalid_refresh_token = ApiError ''INVALID_REFRESH_TOKEN'' ''Refresh token is invalid or expired.'' 401"

definition mark_used :: "string \<Rightarrow> int \<Rightarrow> string \<Rightarrow> auth_db \<Rightarrow> auth_db" where
  "mark_used h now new_hash db = db\<lparr>sessions := map
     (\<lambda>r. if rt_token_hash r = h then r\<lparr>rt_used_at := Some now, rt_replaced_by_hash := Some new_hash\<rparr> else r) (sessions db)\<rparr>"

definition refresh_tokens ::
  "(string \<Rightarrow> string) \<Rightarrow> (nat \<Rightarrow> string) \<Rightarrow> string \<Rightarrow> int \<Rightarrow> int \<Rightarrow> string \<Rightarrow> auth_db \<Rightarrow> auth_db \<times> issued_tokens result"
where
  "refresh_tokens hash_opaque_token create_access_token new_raw now refresh_token_ttl_seconds raw_refresh_token db =
     (if raw_refresh_token = [] then (db, Raise invalid_refresh_token)
      else
        let token_hash = hash_opaque_token raw_refresh_token in
        case find (\<lambda>r. rt_token_hash r = token_hash) (sessions db) of
          None \<Rightarrow> (db, Raise invalid_refresh_token)
        | Some r \<Rightarrow>
            if rt_used_at r \<noteq> None \<or> rt_revoked_at r \<noteq> None \<or> rt_expires_at r \<le> now
            then (revoke_family (rt_family_id r) now db, Raise invalid_refresh_token)
            else case find (\<lambda>u. ur_id u = rt_user_id r) (users db) of
              None \<Rightarrow> (revoke_family (rt_family_id r) now db, Raise invalid_refresh_token)
            | Some u \<Rightarrow>
                if ur_status u \<noteq> ACTIVE then (revoke_family (rt_family_id r) now db, Raise invalid_refresh_token)
                else
                  case insert_session \<lparr>rt_user_id = ur_id u, rt_token_hash = hash_opaque_token new_raw,
                      rt_family_id = rt_family_id r, rt_issued_at = now,
                      rt_expires_at = now + refresh_token_ttl_seconds, rt_used_at = None, rt_revoked_at = None,
                      rt_replaced_by_hash = None\<rparr> (mark_used token_hash now (hash_opaque_token new_raw) db) of
                    Inl e \<Rightarrow> (db, Raise e)
                  | Inr db' \<Rightarrow> (db', Ok \<lparr>it_access_token = create_access_token (ur_id u), it_refresh_token = new_raw, it_user = u\<rparr>))"

definition logout :: "(string \<Rightarrow> string) \<Rightarrow> int \<Rightarrow> string option \<Rightarrow> auth_db \<Rightarrow> auth_db" where
  "logout hash_opaque_token now raw_refresh_token db =
     (if raw_refresh_token = None \<or> the raw_refresh_token = [] then db
      else case find (\<lambda>r. rt_token_hash r = hash_opaque_token (the raw_refresh_token)) (sessions db) of
        None \<Rightarrow> db
      | Some r \<Rightarrow> revoke_family (rt_family_id r) now db)"

definition get_active_user :: "auth_db \<Rightarrow> nat \<Rightarrow> user result" where
  "get_active_user db user_id = (case find (\<lambda>u. ur_id u = user_id) (users db) of
      None \<Rightarrow> Raise (ApiError ''AUTHENTICATION_REQUIRED'' ''Authentication is required.'' 401)
    | Some u \<Rightarrow> if ur_status u \<noteq> ACTIVE
        then Raise (ApiError ''AUTHENTICATION_REQUIRED'' ''Authentication is required.'' 401) else Ok u)"

section \<open>The first administrator\<close>

definition admins :: "auth_db \<Rightarrow> user list" where
  "admins db = filter (\<lambda>u. ur_role u = ADMIN) (users db)"

definition create_first_admin :: "(string \<Rightarrow> string) \<Rightarrow> string \<Rightarrow> string \<Rightarrow> string \<Rightarrow> auth_db \<Rightarrow> (auth_db \<times> user) result" where
  "create_first_admin hash_password username email password db =
     (if 1 < length (admins db) then Raise (MultipleResultsFound ''users'')
      else if admins db \<noteq> [] then Raise (ApiError ''ADMIN_ALREADY_EXISTS'' ''An administrator already exists.'' 409)
      else ebind (reserve_login_identifiers username email db) (\<lambda>_.
        let u = \<lparr>ur_id = next_user_id db, ur_username = strip username, ur_email = normalize_identifier email,
          ur_password_hash = hash_password password, ur_role = ADMIN, ur_status = ACTIVE, ur_invited_by = None\<rparr> in
        case insert_user u db of
          Inl _ \<Rightarrow> Raise (ApiError ''INVALID_REQUEST'' ''Username or email is already in use.'' 409)
        | Inr db' \<Rightarrow> Ok (db', u)))"

definition close_setup :: "int \<Rightarrow> auth_db \<Rightarrow> auth_db" where
  "close_setup now db = db\<lparr>installation := Some \<lparr>in_token_hash = None, in_completed_at = Some now\<rparr>\<rparr>"

definition setup_completed :: "auth_db \<Rightarrow> bool" where
  "setup_completed db = (case installation db of None \<Rightarrow> False | Some s \<Rightarrow> in_completed_at s \<noteq> None)"

definition bootstrap_admin ::
  "(string \<Rightarrow> string) \<Rightarrow> int \<Rightarrow> string \<Rightarrow> string \<Rightarrow> string \<Rightarrow> auth_db \<Rightarrow> auth_db \<times> user result"
where
  "bootstrap_admin hash_password now username email password db =
     (if setup_completed db
      then (db, Raise (ApiError ''ADMIN_ALREADY_EXISTS'' ''An administrator already exists.'' 409))
      else case create_first_admin hash_password username email password db of
        Inl e \<Rightarrow> (db, Raise e)
      | Inr (db', u) \<Rightarrow> (close_setup now db', Ok u))"

definition complete_setup ::
  "(string \<Rightarrow> string) \<Rightarrow> (string \<Rightarrow> string) \<Rightarrow> int \<Rightarrow> string \<Rightarrow> string \<Rightarrow> string \<Rightarrow> string \<Rightarrow> auth_db \<Rightarrow> auth_db \<times> user result"
where
  "complete_setup hash_opaque_token hash_password now token username email password db =
     (case installation db of
        None \<Rightarrow> (db, Raise (ApiError ''SETUP_NOT_READY'' ''Installation setup is not ready.'' 503))
      | Some s \<Rightarrow>
          if in_completed_at s \<noteq> None
          then (db, Raise (ApiError ''SETUP_ALREADY_COMPLETED'' ''Installation is already complete.'' 409))
          else if in_token_hash s = None \<or> the (in_token_hash s) = [] \<or> hash_opaque_token token \<noteq> the (in_token_hash s)
          then (db, Raise (ApiError ''INVALID_SETUP_TOKEN'' ''Invalid setup token.'' 403))
          else case create_first_admin hash_password username email password db of
            Inl e \<Rightarrow> (db, Raise e)
          | Inr (db', u) \<Rightarrow> (close_setup now db', Ok u))"

datatype setup_status = NOT_READY | SETUP_PENDING | SETUP_COMPLETED

definition get_setup_status :: "auth_db \<Rightarrow> setup_status" where
  "get_setup_status db = (case installation db of
      Some s \<Rightarrow> if in_completed_at s \<noteq> None then SETUP_COMPLETED else SETUP_PENDING
    | None \<Rightarrow> if admins db \<noteq> [] then SETUP_COMPLETED else NOT_READY)"

section \<open>The setup token on the host\<close>

text \<open>
  What the path of the token file resolves to, and its directory. A file whose open fails for
  another reason than absence is not readable; failures of the disk are not modelled.
\<close>

record host_file =
  hf_regular :: bool
  hf_readable :: bool
  hf_mode :: nat
  hf_uid :: nat
  hf_content :: string

datatype dir_entry = Absent | Symlink | Node host_file

record host_dir =
  hd_is_dir :: bool
  hd_is_symlink :: bool
  hd_uid :: nat
  hd_entry :: dir_entry

definition SETUP_TOKEN_PREFIX :: string where "SETUP_TOKEN_PREFIX = ''apanel_setup_''"

text \<open>Text mode: line ends are translated, other encodings than ASCII refused.\<close>

fun universal_newlines :: "string \<Rightarrow> string" where
  "universal_newlines [] = []"
| "universal_newlines [c] = [if c = CHR 0x0D then CHR 0x0A else c]"
| "universal_newlines (c # d # s) =
     (if c = CHR 0x0D then CHR 0x0A # (if d = CHR 0x0A then universal_newlines s else universal_newlines (d # s))
      else c # universal_newlines (d # s))"

definition rstrip_newlines :: "string \<Rightarrow> string" where
  "rstrip_newlines s = rev (dropWhile (\<lambda>c. c = CHR 0x0A) (rev s))"

definition owner_only :: nat where "owner_only = 6 * 64"

definition read_setup_token :: "host_dir \<Rightarrow> string option result" where
  "read_setup_token d = (case hd_entry d of
      Absent \<Rightarrow> Ok None
    | Symlink \<Rightarrow> Raise (RuntimeError ''Cannot safely read the existing setup token file.'')
    | Node f \<Rightarrow>
        if \<not> hf_readable f then Raise (RuntimeError ''Cannot safely read the existing setup token file.'')
        else if \<not> hf_regular f \<or> hf_mode f \<noteq> owner_only \<or> hf_uid f \<noteq> hd_uid d
        then Raise (RuntimeError ''Setup token file must be a regular owner-only file (0600).'')
        else if list_ex (\<lambda>c. 128 \<le> (of_char c :: nat)) (hf_content f) then Raise (UnicodeDecodeError ''ascii'')
        else
          let token = rstrip_newlines (take 256 (universal_newlines (hf_content f))) in
          if \<not> starts_with SETUP_TOKEN_PREFIX token \<or> length token \<noteq> length SETUP_TOKEN_PREFIX + 64
          then Raise (RuntimeError ''The existing setup token file is invalid.'')
          else Ok (Some token))"

definition write_setup_token :: "nat \<Rightarrow> string \<Rightarrow> host_dir \<Rightarrow> host_dir result" where
  "write_setup_token euid token d =
     (if \<not> hd_is_dir d \<or> hd_is_symlink d
      then Raise (RuntimeError ''Setup token parent must be an existing directory.'')
      else if (case hd_entry d of Absent \<Rightarrow> False | Symlink \<Rightarrow> True | Node f \<Rightarrow> \<not> hf_regular f)
      then Raise (RuntimeError ''Refusing to replace a non-regular setup token file.'')
      else Ok (d\<lparr>hd_entry := Node \<lparr>hf_regular = True, hf_readable = True, hf_mode = owner_only,
        hf_uid = (if euid = 0 then hd_uid d else euid), hf_content = token @ [CHR 0x0A]\<rparr>\<rparr>))"

datatype setup_outcome = CREATED | REUSED | ROTATED | COMPLETED

definition prepare_setup ::
  "(string \<Rightarrow> string) \<Rightarrow> string \<Rightarrow> nat \<Rightarrow> int \<Rightarrow> bool \<Rightarrow> host_dir \<Rightarrow> auth_db \<Rightarrow> auth_db \<times> (host_dir \<times> setup_outcome) result"
where
  "prepare_setup hash_opaque_token fresh euid now rotating d db =
     (if setup_completed db then (db, Ok (d, COMPLETED))
      else if admins db \<noteq> [] then (close_setup now db, Ok (d, COMPLETED))
      else case (installation db, rotating) of
        (Some s, False) \<Rightarrow>
          (db, ebind (read_setup_token d) (\<lambda>token.
             if token = None \<or> in_token_hash s = None \<or> the (in_token_hash s) = []
               \<or> hash_opaque_token (the token) \<noteq> the (in_token_hash s)
             then Raise (RuntimeError ''Pending setup token file is missing or mismatched; use the explicit --rotate recovery option.'')
             else Ok (d, REUSED)))
      | _ \<Rightarrow>
          let token = SETUP_TOKEN_PREFIX @ fresh in
          case write_setup_token euid token d of
            Inl e \<Rightarrow> (db, Raise e)
          | Inr d' \<Rightarrow> (db\<lparr>installation := Some \<lparr>in_token_hash = Some (hash_opaque_token token), in_completed_at = None\<rparr>\<rparr>,
              Ok (d', if rotating then ROTATED else CREATED)))"

section \<open>Runs\<close>

text \<open>
  The operations in any order and with any arguments; the status of an account may be changed by an
  operator at any time. A family identifier is a fresh UUID; the clock may show anything.
\<close>

inductive auth_step :: "(string \<Rightarrow> string) \<Rightarrow> auth_db \<Rightarrow> auth_db \<Rightarrow> bool" for hash_opaque_token where
  invite: "auth_step hash_opaque_token db (fst (create_invitation hash_opaque_token raw now ttl admin email db))"
| register: "auth_step hash_opaque_token db
    (fst (register_user hash_opaque_token hash_password now token username password email db))"
| login: "family \<notin> set (map rt_family_id (sessions db)) \<Longrightarrow> auth_step hash_opaque_token db
    (fst (authenticate_and_issue_tokens hash_opaque_token create_access_token verify_password dummy raw family now ttl kind username password db))"
| refresh: "auth_step hash_opaque_token db
    (fst (refresh_tokens hash_opaque_token create_access_token new_raw now ttl raw db))"
| sign_out: "auth_step hash_opaque_token db (logout hash_opaque_token now raw_option db)"
| bootstrap: "auth_step hash_opaque_token db (fst (bootstrap_admin hash_password now username email password db))"
| complete: "auth_step hash_opaque_token db
    (fst (complete_setup hash_opaque_token hash_password now token username email password db))"
| prepare: "auth_step hash_opaque_token db (fst (prepare_setup hash_opaque_token fresh euid now rotating d db))"
| operator: "auth_step hash_opaque_token db (db\<lparr>users := map (\<lambda>u. u\<lparr>ur_status := st (ur_id u)\<rparr>) (users db)\<rparr>)"

text \<open>
  Deleting an account, which only an operator at the database can do: its invitations restrict the
  deletion, its sessions go with it and the accounts it invited lose their reference. Runs with
  deletions are the subject of the last property of the installation only.
\<close>

definition delete_user :: "nat \<Rightarrow> auth_db \<Rightarrow> auth_db result" where
  "delete_user user_id db =
     (if user_id \<in> set (map iv_created_by (invitations db)) then Raise (IntegrityError ''invitations'')
      else Ok (db\<lparr>users := map (\<lambda>u. if ur_invited_by u = Some user_id then u\<lparr>ur_invited_by := None\<rparr> else u)
             (filter (\<lambda>u. ur_id u \<noteq> user_id) (users db)),
           sessions := filter (\<lambda>r. rt_user_id r \<noteq> user_id) (sessions db)\<rparr>))"

inductive installation_step :: "(string \<Rightarrow> string) \<Rightarrow> auth_db \<Rightarrow> auth_db \<Rightarrow> bool" for hash_opaque_token where
  operation: "auth_step hash_opaque_token db db' \<Longrightarrow> installation_step hash_opaque_token db db'"
| deletion: "delete_user user_id db = Ok db' \<Longrightarrow> installation_step hash_opaque_token db db'"

definition installation_run :: "(string \<Rightarrow> string) \<Rightarrow> auth_db \<Rightarrow> auth_db \<Rightarrow> bool" where
  "installation_run hash_opaque_token = (installation_step hash_opaque_token)\<^sup>*\<^sup>*"

definition auth_run :: "(string \<Rightarrow> string) \<Rightarrow> auth_db \<Rightarrow> auth_db \<Rightarrow> bool" where
  "auth_run hash_opaque_token = (auth_step hash_opaque_token)\<^sup>*\<^sup>*"

section \<open>What one operation changes\<close>

text \<open>
  Each operation changes the tables in one of few ways: a session is added to a fresh family, a
  family is revoked, a live session is rotated, an invitation is added or closed, an invitation
  becomes an account, or the first administrator appears while the installation is closed.
\<close>

definition live :: "refresh_session \<Rightarrow> bool" where
  "live r \<longleftrightarrow> rt_used_at r = None \<and> rt_revoked_at r = None"

definition login_names :: "user \<Rightarrow> string set" where
  "login_names u = {lower (ur_username u), lower (ur_email u)}"

definition names_free :: "user \<Rightarrow> auth_db \<Rightarrow> bool" where
  "names_free u db \<longleftrightarrow> (\<forall>v \<in> set (users db). login_names u \<inter> login_names v = {})"

definition add_user :: "user \<Rightarrow> auth_db \<Rightarrow> auth_db" where
  "add_user u db = db\<lparr>users := users db @ [u], next_user_id := Suc (next_user_id db)\<rparr>"

inductive auth_change :: "auth_db \<Rightarrow> auth_db \<Rightarrow> bool" where
  same: "auth_change db db"
| new_family: "live r \<Longrightarrow> rt_family_id r \<notin> rt_family_id ` set (sessions db) \<Longrightarrow>
    rt_token_hash r \<notin> rt_token_hash ` set (sessions db) \<Longrightarrow> rt_user_id r \<in> ur_id ` set (users db) \<Longrightarrow>
    auth_change db (db\<lparr>sessions := sessions db @ [r]\<rparr>)"
| revoked: "auth_change db (revoke_family family now db)"
| rotated: "q \<in> set (sessions db) \<Longrightarrow> live q \<Longrightarrow> live r \<Longrightarrow> rt_family_id r = rt_family_id q \<Longrightarrow>
    rt_user_id r = rt_user_id q \<Longrightarrow> rt_token_hash r \<notin> rt_token_hash ` set (sessions db) \<Longrightarrow>
    auth_change db ((mark_used (rt_token_hash q) now (rt_token_hash r) db)
      \<lparr>sessions := sessions (mark_used (rt_token_hash q) now (rt_token_hash r) db) @ [r]\<rparr>)"
| invited: "iv_status i = PENDING \<Longrightarrow> iv_email i = normalize_identifier (iv_email i) \<Longrightarrow>
    iv_token_hash i \<notin> iv_token_hash ` set (invitations db) \<Longrightarrow>
    auth_change db (db\<lparr>invitations := invitations db @ [i]\<rparr>)"
| expired: "i \<in> set (invitations db) \<Longrightarrow> iv_status i = PENDING \<Longrightarrow>
    auth_change db (update_invitation (iv_token_hash i) (iv_status_update (\<lambda>_. EXPIRED)) db)"
| registered: "i \<in> set (invitations db) \<Longrightarrow> iv_status i = PENDING \<Longrightarrow> ur_role u = USER \<Longrightarrow> ur_id u = next_user_id db \<Longrightarrow>
    ur_email u = iv_email i \<Longrightarrow>
    (iv_email i = normalize_identifier (iv_email i) \<longrightarrow> names_free u db) \<Longrightarrow>
    auth_change db (update_invitation (iv_token_hash i) (\<lambda>i. i\<lparr>iv_status := ACCEPTED, iv_accepted_at := Some now\<rparr>) (add_user u db))"
| first_admin: "\<not> setup_completed db \<Longrightarrow> admins db = [] \<Longrightarrow> ur_role u = ADMIN \<Longrightarrow> ur_id u = next_user_id db \<Longrightarrow>
    names_free u db \<Longrightarrow> auth_change db (close_setup now (add_user u db))"
| awaiting: "\<not> setup_completed db \<Longrightarrow> admins db = [] \<Longrightarrow>
    auth_change db (db\<lparr>installation := Some \<lparr>in_token_hash = Some h, in_completed_at = None\<rparr>\<rparr>)"
| closed: "\<not> setup_completed db \<Longrightarrow> admins db \<noteq> [] \<Longrightarrow> auth_change db (close_setup now db)"
| statuses: "auth_change db (db\<lparr>users := map (\<lambda>u. u\<lparr>ur_status := st (ur_id u)\<rparr>) (users db)\<rparr>)"

lemma find_Some_member: "find P xs = Some x \<Longrightarrow> x \<in> set xs \<and> P x"
  by (induction xs) (auto split: if_splits)

lemma normalize_identifier_idem [simp]: "normalize_identifier (normalize_identifier v) = normalize_identifier v"
  by (simp add: normalize_identifier_def strip_lower)

lemma lower_normalize [simp]: "lower (normalize_identifier v) = normalize_identifier v"
  by (simp add: normalize_identifier_def)

lemma reserved_free:
  assumes "reserve_login_identifiers username email db = Ok x"
    and "ur_username u = strip username" "lower (ur_email u) = normalize_identifier email"
  shows "names_free u db"
  using assms
  by (auto simp: reserve_login_identifiers_def names_free_def login_names_def list_ex_iff normalize_identifier_def
      Let_def split: if_splits)

lemma insert_user_ok: "insert_user u db = Ok db' \<Longrightarrow> db' = add_user u db"
  by (simp add: insert_user_def add_user_def split: if_splits)

lemma insert_session_ok:
  "insert_session r db = Ok db' \<Longrightarrow> db' = db\<lparr>sessions := sessions db @ [r]\<rparr> \<and>
     rt_token_hash r \<notin> rt_token_hash ` set (sessions db) \<and> rt_user_id r \<in> ur_id ` set (users db)"
  by (simp add: insert_session_def split: if_splits)

lemma create_first_admin_ok:
  assumes "create_first_admin hash_password username email password db = Ok (db', u)"
  shows "admins db = [] \<and> db' = add_user u db \<and> ur_role u = ADMIN \<and> ur_id u = next_user_id db \<and> names_free u db"
proof -
  from assms have "admins db = []" "reserve_login_identifiers username email db = Ok ()" "insert_user u db = Ok db'"
    "u = \<lparr>ur_id = next_user_id db, ur_username = strip username, ur_email = normalize_identifier email,
          ur_password_hash = hash_password password, ur_role = ADMIN, ur_status = ACTIVE, ur_invited_by = None\<rparr>"
    by (auto simp: create_first_admin_def Let_def split: if_splits sum.splits)
  then show ?thesis by (auto dest: insert_user_ok intro: reserved_free)
qed

lemma create_invitation_change: "auth_change db (fst (create_invitation hash raw now ttl admin email db))"
  by (auto simp: create_invitation_def Let_def split: sum.splits intro!: auth_change.intros)

lemma register_user_change: "auth_change db (fst (register_user hash hash_password now token username password email db))"
proof (cases "find (\<lambda>i. iv_token_hash i = hash token) (invitations db)")
  case None
  then show ?thesis by (simp add: register_user_def auth_change.same)
next
  case (Some i)
  then have i: "i \<in> set (invitations db)" "iv_token_hash i = hash token" by (auto dest: find_Some_member)
  have free: "iv_email i = normalize_identifier (iv_email i) \<longrightarrow> names_free u db"
    if "reserve_login_identifiers username (iv_email i) db = Ok x" "ur_username u = strip username" "ur_email u = iv_email i" for u x
    using that by (metis lower_normalize reserved_free)
  show ?thesis
    using i free unfolding register_user_def Let_def Some
    by (auto split: sum.splits simp flip: i(2) dest!: insert_user_ok intro!: auth_change.intros)
qed

lemma issue_tokens_change:
  assumes "family \<notin> set (map rt_family_id (sessions db))"
  shows "auth_change db (fst (issue_tokens hash access raw family now ttl u db))"
  using assms by (auto simp: issue_tokens_def live_def split: sum.splits dest!: insert_session_ok intro!: auth_change.intros)

lemma mark_used_rows [simp]:
  "map rt_token_hash (sessions (mark_used h now h' db)) = map rt_token_hash (sessions db)"
  "users (mark_used h now h' db) = users db"
  by (simp_all add: mark_used_def comp_def)

lemma refresh_tokens_change: "auth_change db (fst (refresh_tokens hash access new_raw now ttl raw db))"
proof (cases "raw = [] \<or> find (\<lambda>r. rt_token_hash r = hash raw) (sessions db) = None")
  case True
  then show ?thesis by (auto simp: refresh_tokens_def Let_def auth_change.same)
next
  case False
  then obtain q where q: "find (\<lambda>r. rt_token_hash r = hash raw) (sessions db) = Some q" by auto
  then have mem: "q \<in> set (sessions db)" "rt_token_hash q = hash raw" by (auto dest: find_Some_member)
  let ?live = "rt_used_at q = None \<and> rt_revoked_at q = None \<and> \<not> rt_expires_at q \<le> now"
  show ?thesis
  proof (cases "?live \<and> (\<exists>u. find (\<lambda>u. ur_id u = rt_user_id q) (users db) = Some u \<and> ur_status u = ACTIVE)")
    case True
    then obtain u where u: "find (\<lambda>u. ur_id u = rt_user_id q) (users db) = Some u" "ur_status u = ACTIVE" by auto
    then have uid: "ur_id u = rt_user_id q" by (auto dest: find_Some_member)
    let ?r = "\<lparr>rt_user_id = ur_id u, rt_token_hash = hash new_raw, rt_family_id = rt_family_id q, rt_issued_at = now,
        rt_expires_at = now + ttl, rt_used_at = None, rt_revoked_at = None, rt_replaced_by_hash = None\<rparr>"
    show ?thesis
    proof (cases "insert_session ?r (mark_used (hash raw) now (hash new_raw) db)")
      case (Inl e)
      then show ?thesis using False q u True by (auto simp: refresh_tokens_def Let_def intro: auth_change.same)
    next
      case (Inr db')
      note ins = insert_session_ok [OF Inr]
      have "rt_token_hash ?r \<notin> rt_token_hash ` set (sessions db)" using ins by (simp flip: set_map)
      then have "auth_change db db'"
        using ins auth_change.rotated [of q db ?r now] mem True uid by (simp add: live_def)
      then show ?thesis using False q u True Inr by (auto simp: refresh_tokens_def Let_def)
    qed
  next
    case dead: False
    then have "fst (refresh_tokens hash access new_raw now ttl raw db) = revoke_family (rt_family_id q) now db"
      using False q by (auto simp: refresh_tokens_def Let_def split: option.splits)
    then show ?thesis by (simp add: auth_change.revoked)
  qed
qed

lemma logout_change: "auth_change db (logout hash now raw db)"
  by (auto simp: logout_def split: option.splits intro: auth_change.intros)

lemma bootstrap_admin_change: "auth_change db (fst (bootstrap_admin hash_password now username email password db))"
  by (auto simp: bootstrap_admin_def split: sum.splits dest!: create_first_admin_ok intro: auth_change.intros)

lemma complete_setup_change: "auth_change db (fst (complete_setup hash hash_password now token username email password db))"
  by (auto simp: complete_setup_def setup_completed_def split: option.splits sum.splits dest!: create_first_admin_ok
      intro!: auth_change.intros)

lemma prepare_setup_change: "auth_change db (fst (prepare_setup hash fresh euid now rotating d db))"
  by (auto simp: prepare_setup_def Let_def split: option.splits sum.splits bool.splits intro!: auth_change.intros)

lemma auth_step_change: "auth_step hash db db' \<Longrightarrow> auth_change db db'"
proof (induction rule: auth_step.induct)
  case (login family db access verify dummy raw now ttl kind username password)
  then show ?case
    by (auto simp: authenticate_and_issue_tokens_def Let_def split: option.splits intro: auth_change.same issue_tokens_change)
qed (rule create_invitation_change register_user_change refresh_tokens_change logout_change bootstrap_admin_change
    complete_setup_change prepare_setup_change auth_change.statuses)+

section \<open>Invariants of the tables\<close>

definition family_pair :: "refresh_session \<Rightarrow> refresh_session \<Rightarrow> bool" where
  "family_pair q r \<longleftrightarrow> (rt_family_id q = rt_family_id r \<longrightarrow> rt_user_id q = rt_user_id r \<and> (live q \<longrightarrow> live r \<longrightarrow> q = r))"

definition sessions_ok :: "refresh_session list \<Rightarrow> bool" where
  "sessions_ok ss \<longleftrightarrow> distinct (map rt_token_hash ss) \<and> (\<forall>q \<in> set ss. \<forall>r \<in> set ss. family_pair q r)"

definition users_ok :: "auth_db \<Rightarrow> bool" where
  "users_ok db \<longleftrightarrow> distinct (map ur_id (users db)) \<and> (\<forall>u \<in> set (users db). ur_id u < next_user_id db) \<and>
     (\<forall>u \<in> set (users db). \<forall>v \<in> set (users db). u \<noteq> v \<longrightarrow> login_names u \<inter> login_names v = {}) \<and>
     length (admins db) \<le> 1 \<and> (setup_completed db \<longleftrightarrow> admins db \<noteq> [])"

definition invitations_ok :: "auth_db \<Rightarrow> bool" where
  "invitations_ok db \<longleftrightarrow> distinct (map iv_token_hash (invitations db)) \<and>
     (\<forall>i \<in> set (invitations db). iv_email i = normalize_identifier (iv_email i)) \<and>
     length (filter (\<lambda>u. ur_role u = USER) (users db)) = length (filter (\<lambda>i. iv_status i = ACCEPTED) (invitations db))"

lemma live_update [simp]:
  "live (r\<lparr>rt_revoked_at := Some now\<rparr>) = False" "live (r\<lparr>rt_used_at := Some now, rt_replaced_by_hash := h\<rparr>) = False"
  by (simp_all add: live_def)

lemma sessions_of_others [simp]:
  "sessions (update_invitation h f db) = sessions db" "sessions (add_user u db) = sessions db"
  "sessions (close_setup now db) = sessions db"
  by (simp_all add: update_invitation_def add_user_def close_setup_def)

lemma users_of_others [simp]:
  "users (update_invitation h f db) = users db" "users (add_user u db) = users db @ [u]"
  "users (close_setup now db) = users db" "users (revoke_family fam now db) = users db"
  by (simp_all add: update_invitation_def add_user_def close_setup_def revoke_family_def)

lemma invitations_of_others [simp]:
  "invitations (add_user u db) = invitations db" "invitations (close_setup now db) = invitations db"
  "invitations (revoke_family f now db) = invitations db" "invitations (mark_used h now h' db) = invitations db"
  by (simp_all add: add_user_def close_setup_def revoke_family_def mark_used_def)

lemma completed_of_others [simp]:
  "setup_completed (update_invitation h f db) = setup_completed db" "setup_completed (add_user u db) = setup_completed db"
  "setup_completed (close_setup now db)" "setup_completed (revoke_family fam now db) = setup_completed db"
  "setup_completed (mark_used h now h' db) = setup_completed db"
  "setup_completed (db\<lparr>sessions := ss\<rparr>) = setup_completed db" "setup_completed (db\<lparr>invitations := is\<rparr>) = setup_completed db"
  "setup_completed (db\<lparr>users := us\<rparr>) = setup_completed db"
  by (simp_all add: setup_completed_def update_invitation_def add_user_def close_setup_def revoke_family_def mark_used_def)

lemma next_of_others [simp]:
  "next_user_id (update_invitation h f db) = next_user_id db" "next_user_id (add_user u db) = Suc (next_user_id db)"
  "next_user_id (close_setup now db) = next_user_id db" "next_user_id (revoke_family fam now db) = next_user_id db"
  "next_user_id (mark_used h now h' db) = next_user_id db"
  by (simp_all add: update_invitation_def add_user_def close_setup_def revoke_family_def mark_used_def)

lemma sessions_ok_map:
  assumes "sessions_ok ss"
    and f: "\<And>r. r \<in> set ss \<Longrightarrow> rt_token_hash (f r) = rt_token_hash r \<and> rt_family_id (f r) = rt_family_id r \<and>
      rt_user_id (f r) = rt_user_id r \<and> (live (f r) \<longrightarrow> f r = r)"
  shows "sessions_ok (map f ss)"
proof -
  have "map rt_token_hash (map f ss) = map rt_token_hash ss" using f by simp
  then have "distinct (map rt_token_hash (map f ss))" using assms(1) by (simp only: sessions_ok_def)
  moreover have "family_pair (f q) (f r)" if "q \<in> set ss" "r \<in> set ss" for q r
  proof -
    have "family_pair q r" using assms(1) that by (simp add: sessions_ok_def)
    then show ?thesis using f [OF that(1)] f [OF that(2)] unfolding family_pair_def by metis
  qed
  ultimately show ?thesis by (auto simp: sessions_ok_def)
qed

lemma sessions_ok_snoc:
  assumes "sessions_ok ss" "rt_token_hash r \<notin> rt_token_hash ` set ss"
    and "\<And>q. q \<in> set ss \<Longrightarrow> rt_family_id q = rt_family_id r \<Longrightarrow> rt_user_id q = rt_user_id r \<and> \<not> live q"
  shows "sessions_ok (ss @ [r])"
proof -
  have "family_pair q r" "family_pair r q" if "q \<in> set ss" for q
    using assms(3) [OF that] by (auto simp: family_pair_def)
  moreover have "family_pair r r" by (simp add: family_pair_def)
  ultimately show ?thesis using assms(1,2) by (auto simp: sessions_ok_def)
qed

lemma sessions_ok_rotate:
  assumes ok: "sessions_ok (sessions db)" and q: "q \<in> set (sessions db)" "live q"
    and r: "rt_family_id r = rt_family_id q" "rt_user_id r = rt_user_id q" "rt_token_hash r \<notin> rt_token_hash ` set (sessions db)"
  shows "sessions_ok (sessions (mark_used (rt_token_hash q) now h db) @ [r])"
proof (rule sessions_ok_snoc)
  show "sessions_ok (sessions (mark_used (rt_token_hash q) now h db))"
    unfolding mark_used_def by (simp, rule sessions_ok_map [OF ok]) auto
  have "map rt_token_hash (sessions (mark_used (rt_token_hash q) now h db)) = map rt_token_hash (sessions db)" by simp
  then show "rt_token_hash r \<notin> rt_token_hash ` set (sessions (mark_used (rt_token_hash q) now h db))"
    using r(3) by (metis set_map)
next
  fix x assume x: "x \<in> set (sessions (mark_used (rt_token_hash q) now h db))" "rt_family_id x = rt_family_id r"
  then obtain y where y: "y \<in> set (sessions db)" "rt_family_id y = rt_family_id q"
    "x = (if rt_token_hash y = rt_token_hash q then y\<lparr>rt_used_at := Some now, rt_replaced_by_hash := Some h\<rparr> else y)"
    using r(1) by (auto simp: mark_used_def)
  have "family_pair y q" using ok q(1) y(1) by (simp add: sessions_ok_def)
  then have "rt_user_id y = rt_user_id q" "live y \<Longrightarrow> y = q" using q(2) y(2) by (simp_all add: family_pair_def)
  then show "rt_user_id x = rt_user_id r \<and> \<not> live x" unfolding y(3) using r(2) by (cases "rt_token_hash y = rt_token_hash q") auto
qed

lemma sessions_ok_change: "auth_change db db' \<Longrightarrow> sessions_ok (sessions db) \<Longrightarrow> sessions_ok (sessions db')"
proof (induction rule: auth_change.induct)
  case (new_family r db)
  then have "sessions_ok (sessions db @ [r])" by (intro sessions_ok_snoc) (auto simp: image_iff)
  then show ?case by simp
next
  case (revoked db family now)
  have "sessions_ok (map (\<lambda>r. if rt_family_id r = family \<and> rt_revoked_at r = None then r\<lparr>rt_revoked_at := Some now\<rparr> else r) (sessions db))"
    by (rule sessions_ok_map [OF revoked]) auto
  then show ?case by (simp add: revoke_family_def)
next
  case (rotated q db r now)
  then have "sessions_ok (sessions (mark_used (rt_token_hash q) now (rt_token_hash r) db) @ [r])"
    by (intro sessions_ok_rotate) auto
  then show ?case by simp
qed simp_all

lemma users_ok_add:
  assumes ok: "users_ok db" and u: "ur_id u = next_user_id db" "names_free u db"
  shows "distinct (map ur_id (users (add_user u db)))" "\<forall>v \<in> set (users (add_user u db)). ur_id v < Suc (next_user_id db)"
    "\<forall>v \<in> set (users (add_user u db)). \<forall>w \<in> set (users (add_user u db)). v \<noteq> w \<longrightarrow> login_names v \<inter> login_names w = {}"
proof -
  have "ur_id u \<notin> ur_id ` set (users db)" using ok u(1) by (auto simp: users_ok_def)
  then show "distinct (map ur_id (users (add_user u db)))" using ok by (simp add: users_ok_def)
  show "\<forall>v \<in> set (users (add_user u db)). ur_id v < Suc (next_user_id db)"
    using ok u(1) by (auto simp: users_ok_def less_Suc_eq)
  have "login_names u \<inter> login_names v = {}" "login_names v \<inter> login_names u = {}" if "v \<in> set (users db)" for v
    using u(2) that unfolding names_free_def by blast+
  then show "\<forall>v \<in> set (users (add_user u db)). \<forall>w \<in> set (users (add_user u db)). v \<noteq> w \<longrightarrow> login_names v \<inter> login_names w = {}"
    using ok by (simp add: users_ok_def)
qed

lemma users_ok_same:
  "users db' = users db \<Longrightarrow> next_user_id db' = next_user_id db \<Longrightarrow> setup_completed db' = setup_completed db \<Longrightarrow>
     users_ok db \<Longrightarrow> users_ok db'"
  by (simp add: users_ok_def admins_def)

lemma users_ok_statuses:
  assumes "users_ok db"
  shows "users_ok (db\<lparr>users := map (\<lambda>u. u\<lparr>ur_status := st (ur_id u)\<rparr>) (users db)\<rparr>)"
proof -
  let ?f = "\<lambda>u :: user. u\<lparr>ur_status := st (ur_id u)\<rparr>"
  have names: "login_names (?f u) = login_names u" for u by (simp add: login_names_def)
  have admins: "admins (db\<lparr>users := map ?f (users db)\<rparr>) = map ?f (admins db)"
    by (simp add: admins_def filter_map comp_def)
  have "\<forall>u \<in> set (map ?f (users db)). \<forall>v \<in> set (map ?f (users db)). u \<noteq> v \<longrightarrow> login_names u \<inter> login_names v = {}"
  proof (intro ballI impI)
    fix a b assume "a \<in> set (map ?f (users db))" "b \<in> set (map ?f (users db))" "a \<noteq> b"
    then obtain u v where uv: "a = ?f u" "b = ?f v" "u \<in> set (users db)" "v \<in> set (users db)" "u \<noteq> v" by auto
    then show "login_names a \<inter> login_names b = {}" using assms by (simp add: users_ok_def names)
  qed
  then show ?thesis using assms by (simp add: users_ok_def admins comp_def)
qed

lemma auth_change_ok: "auth_change db db' \<Longrightarrow> users_ok db \<Longrightarrow> invitations_ok db \<Longrightarrow> users_ok db'"
proof (induction rule: auth_change.induct)
  case (registered i db u now)
  then have "names_free u db" by (auto simp: invitations_ok_def)
  note add = users_ok_add [OF registered.prems(1) registered.hyps(4) this]
  have "admins (add_user u db) = admins db" using registered.hyps(3) by (simp add: admins_def)
  then show ?case using registered.prems(1) add by (simp add: users_ok_def admins_def)
next
  case (first_admin db u now)
  note add = users_ok_add [OF first_admin.prems(1) first_admin.hyps(4,5)]
  have "admins (add_user u db) = [u]" using first_admin.hyps(2,3) by (simp add: admins_def)
  then show ?case using first_admin.prems(1) add by (simp add: users_ok_def admins_def)
next
  case (statuses db st)
  then show ?case by (intro users_ok_statuses)
next
  case (awaiting db h)
  then show ?case by (simp add: users_ok_def admins_def setup_completed_def)
next
  case (closed db now)
  then show ?case by (simp add: users_ok_def admins_def)
qed (auto intro: users_ok_same)

lemma update_invitation_ok:
  assumes "invitations_ok db" "i \<in> set (invitations db)" "iv_status i = PENDING" "st \<noteq> PENDING"
    and f: "\<And>i. iv_token_hash (f i) = iv_token_hash i \<and> iv_email (f i) = iv_email i \<and> iv_status (f i) = st"
  shows "distinct (map iv_token_hash (invitations (update_invitation (iv_token_hash i) f db)))"
    "\<forall>j \<in> set (invitations (update_invitation (iv_token_hash i) f db)). iv_email j = normalize_identifier (iv_email j)"
    "length (filter (\<lambda>i. iv_status i = ACCEPTED) (invitations (update_invitation (iv_token_hash i) f db))) =
     length (filter (\<lambda>i. iv_status i = ACCEPTED) (invitations db)) + (if st = ACCEPTED then 1 else 0)"
proof -
  obtain xs ys where split: "invitations db = xs @ i # ys" using assms(2) by (auto dest: split_list)
  have d: "distinct (map iv_token_hash (invitations db))" using assms(1) by (simp add: invitations_ok_def)
  then have out: "iv_token_hash j \<noteq> iv_token_hash i" if "j \<in> set xs \<union> set ys" for j
    using that unfolding split by (auto simp: image_iff)
  then have "invitations (update_invitation (iv_token_hash i) f db) = xs @ f i # ys"
    unfolding update_invitation_def split by (auto intro!: map_idI)
  then show "distinct (map iv_token_hash (invitations (update_invitation (iv_token_hash i) f db)))"
    "\<forall>j \<in> set (invitations (update_invitation (iv_token_hash i) f db)). iv_email j = normalize_identifier (iv_email j)"
    "length (filter (\<lambda>i. iv_status i = ACCEPTED) (invitations (update_invitation (iv_token_hash i) f db))) =
     length (filter (\<lambda>i. iv_status i = ACCEPTED) (invitations db)) + (if st = ACCEPTED then 1 else 0)"
    using assms(1,3) f d by (auto simp: split invitations_ok_def)
qed

lemma invitations_ok_change: "auth_change db db' \<Longrightarrow> invitations_ok db \<Longrightarrow> invitations_ok db'"
proof (induction rule: auth_change.induct)
  case (expired i db)
  note up = update_invitation_ok [OF expired.prems expired.hyps, of EXPIRED "iv_status_update (\<lambda>_. EXPIRED)"]
  show ?case using expired.prems up by (simp add: invitations_ok_def)
next
  case (registered i db u now)
  let ?f = "\<lambda>i. i\<lparr>iv_status := ACCEPTED, iv_accepted_at := Some now\<rparr>"
  note up = update_invitation_ok [OF registered.prems registered.hyps(1,2), of ACCEPTED ?f]
  have "invitations (update_invitation (iv_token_hash i) ?f (add_user u db)) = invitations (update_invitation (iv_token_hash i) ?f db)"
    by (simp add: update_invitation_def)
  then show ?case using registered.prems registered.hyps(3) up by (simp add: invitations_ok_def)
next
  case (statuses db st)
  then show ?case by (simp add: invitations_ok_def filter_map comp_def)
qed (auto simp: invitations_ok_def)

definition auth_ok :: "auth_db \<Rightarrow> bool" where
  "auth_ok db \<longleftrightarrow> sessions_ok (sessions db) \<and> users_ok db \<and> invitations_ok db"

lemma auth_ok_run: "auth_run hash db db' \<Longrightarrow> auth_ok db \<Longrightarrow> auth_ok db'"
  unfolding auth_run_def
proof (induction rule: rtranclp_induct)
  case (step db' db'')
  then show ?case
    using auth_step_change [OF step.hyps(2)] sessions_ok_change auth_change_ok invitations_ok_change
    unfolding auth_ok_def by metis
qed

lemma auth_ok_empty: "auth_ok empty_db"
  by (simp add: auth_ok_def empty_db_def sessions_ok_def users_ok_def invitations_ok_def admins_def setup_completed_def)

section \<open>Families of refresh tokens\<close>

definition in_family :: "string \<Rightarrow> string \<Rightarrow> auth_db \<Rightarrow> bool" where
  "in_family h family db \<longleftrightarrow> (\<exists>r \<in> set (sessions db). rt_token_hash r = h \<and> rt_family_id r = family)"

definition spent :: "string \<Rightarrow> auth_db \<Rightarrow> bool" where
  "spent h db \<longleftrightarrow> (\<exists>r \<in> set (sessions db). rt_token_hash r = h \<and> \<not> live r)"

definition family_dead :: "string \<Rightarrow> auth_db \<Rightarrow> bool" where
  "family_dead family db \<longleftrightarrow> family \<in> rt_family_id ` set (sessions db) \<and>
     (\<forall>r \<in> set (sessions db). rt_family_id r = family \<longrightarrow> \<not> live r)"

text \<open>Every row is kept by every change, in its family; a session that is not live never becomes so.\<close>

definition rows_kept :: "refresh_session list \<Rightarrow> refresh_session list \<Rightarrow> bool" where
  "rows_kept ss ss' \<longleftrightarrow> (\<forall>r \<in> set ss. \<exists>r' \<in> set ss'. rt_token_hash r' = rt_token_hash r \<and>
     rt_family_id r' = rt_family_id r \<and> (live r' \<longrightarrow> live r))"

lemma rows_kept_refl: "rows_kept ss (ss @ rs)"
  by (auto simp: rows_kept_def)

lemma rows_kept_map:
  "(\<And>r. rt_token_hash (f r) = rt_token_hash r \<and> rt_family_id (f r) = rt_family_id r \<and> (live (f r) \<longrightarrow> live r)) \<Longrightarrow>
     rows_kept ss (map f ss @ rs)"
  by (auto simp: rows_kept_def)

lemma rows_kept_change: "auth_change db db' \<Longrightarrow> rows_kept (sessions db) (sessions db')"
proof (induction rule: auth_change.induct)
  case (revoked db family now)
  show ?case
    using rows_kept_map [of "\<lambda>r. if rt_family_id r = family \<and> rt_revoked_at r = None then r\<lparr>rt_revoked_at := Some now\<rparr> else r" _ "[]"]
    by (simp add: revoke_family_def)
next
  case (rotated q db r now)
  show ?case
    using rows_kept_map [of "\<lambda>x. if rt_token_hash x = rt_token_hash q
        then x\<lparr>rt_used_at := Some now, rt_replaced_by_hash := Some (rt_token_hash r)\<rparr> else x" "sessions db" "[r]"]
    by (simp add: mark_used_def)
qed (use rows_kept_refl [of _ "[]"] rows_kept_refl in simp_all)

lemma spent_change: "auth_change db db' \<Longrightarrow> spent h db \<Longrightarrow> spent h db'"
  using rows_kept_change [of db db'] unfolding spent_def rows_kept_def by metis

lemma in_family_change: "auth_change db db' \<Longrightarrow> in_family h family db \<Longrightarrow> in_family h family db'"
  using rows_kept_change [of db db'] unfolding in_family_def rows_kept_def by metis

lemma family_kept: "auth_change db db' \<Longrightarrow> family \<in> rt_family_id ` set (sessions db) \<Longrightarrow> family \<in> rt_family_id ` set (sessions db')"
proof -
  assume c: "auth_change db db'" and "family \<in> rt_family_id ` set (sessions db)"
  then obtain r where r: "r \<in> set (sessions db)" "family = rt_family_id r" by auto
  then obtain r' where "r' \<in> set (sessions db')" "rt_family_id r' = rt_family_id r"
    using rows_kept_change [OF c] unfolding rows_kept_def by blast
  then show ?thesis using r(2) by (metis imageI)
qed

lemma no_live_change:
  "auth_change db db' \<Longrightarrow> family_dead family db \<Longrightarrow> r \<in> set (sessions db') \<Longrightarrow> rt_family_id r = family \<Longrightarrow> \<not> live r"
proof (induction rule: auth_change.induct)
  case (rotated q db s now)
  then have "rt_family_id s \<noteq> family" by (auto simp: family_dead_def)
  then show ?case using rotated.prems by (auto simp: family_dead_def mark_used_def split: if_splits)
qed (auto simp: family_dead_def revoke_family_def split: if_splits)

lemma family_dead_change: "auth_change db db' \<Longrightarrow> family_dead family db \<Longrightarrow> family_dead family db'"
  using family_kept [of db db' family] no_live_change [of db db' family] by (simp add: family_dead_def)

lemma run_keeps:
  assumes "auth_run hash db db'"
  shows "spent h db \<Longrightarrow> spent h db'" "in_family h family db \<Longrightarrow> in_family h family db'" "family_dead family db \<Longrightarrow> family_dead family db'"
  using assms unfolding auth_run_def
  by (induction rule: rtranclp_induct) (auto dest: auth_step_change spent_change in_family_change family_dead_change)

text \<open>What a refresh does with a token of a known row.\<close>

lemma find_unique_hash:
  assumes "sessions_ok (sessions db)" "r \<in> set (sessions db)"
  shows "find (\<lambda>x. rt_token_hash x = rt_token_hash r) (sessions db) = Some r"
proof -
  have "distinct (map rt_token_hash ss) \<Longrightarrow> r \<in> set ss \<Longrightarrow> find (\<lambda>x. rt_token_hash x = rt_token_hash r) ss = Some r" for ss
    by (induction ss) auto
  then show ?thesis using assms by (simp add: sessions_ok_def)
qed

lemma refresh_dead:
  assumes "sessions_ok (sessions db)" "r \<in> set (sessions db)" "rt_token_hash r = hash raw" "\<not> live r" "raw \<noteq> []"
  shows "refresh_tokens hash access new_raw now ttl raw db = (revoke_family (rt_family_id r) now db, Raise invalid_refresh_token)"
proof -
  have "find (\<lambda>x. rt_token_hash x = hash raw) (sessions db) = Some r" using find_unique_hash [OF assms(1,2)] assms(3) by simp
  then show ?thesis using assms(4,5) by (auto simp: refresh_tokens_def live_def)
qed

lemma revoke_family_dead: "r \<in> set (sessions db) \<Longrightarrow> family_dead (rt_family_id r) (revoke_family (rt_family_id r) now db)"
proof -
  assume r: "r \<in> set (sessions db)"
  have "rt_family_id r \<in> rt_family_id ` set (sessions (revoke_family (rt_family_id r) now db))"
    using family_kept [OF auth_change.revoked] r by blast
  then show ?thesis by (auto simp: family_dead_def revoke_family_def live_def split: if_splits)
qed

lemma refresh_ok_spends:
  assumes "refresh_tokens hash access new_raw now ttl raw db = (db', Ok t)"
  shows "raw \<noteq> [] \<and> spent (hash raw) db' \<and> it_refresh_token t = new_raw \<and>
    (\<exists>family. in_family (hash raw) family db' \<and> in_family (hash new_raw) family db')"
proof -
  from assms obtain q where q: "raw \<noteq> []" "find (\<lambda>r. rt_token_hash r = hash raw) (sessions db) = Some q"
    by (auto simp: refresh_tokens_def Let_def split: if_splits option.splits)
  then have mem: "q \<in> set (sessions db)" "rt_token_hash q = hash raw" by (auto dest: find_Some_member)
  let ?q = "q\<lparr>rt_used_at := Some now, rt_replaced_by_hash := Some (hash new_raw)\<rparr>"
  from assms q obtain n where new: "it_refresh_token t = new_raw" "sessions db' = sessions (mark_used (hash raw) now (hash new_raw) db) @
      [\<lparr>rt_user_id = n, rt_token_hash = hash new_raw, rt_family_id = rt_family_id q, rt_issued_at = now,
        rt_expires_at = now + ttl, rt_used_at = None, rt_revoked_at = None, rt_replaced_by_hash = None\<rparr>]"
    by (auto simp: refresh_tokens_def Let_def split: if_splits option.splits sum.splits dest!: insert_session_ok)
  then obtain r where r: "rt_family_id r = rt_family_id q" "rt_token_hash r = hash new_raw"
    "sessions db' = sessions (mark_used (hash raw) now (hash new_raw) db) @ [r]" "it_refresh_token t = new_raw"
    by (metis refresh_session.select_convs(2,3))
  have "?q \<in> set (sessions db')" using mem r(3) by (auto simp: mark_used_def image_iff)
  moreover have "r \<in> set (sessions db')" using r(3) by simp
  ultimately show ?thesis
    using q(1) mem r unfolding spent_def in_family_def
    by (intro conjI exI [of _ "rt_family_id q"] bexI [of _ ?q] bexI [of _ r]) auto
qed

lemma dead_family_refused:
  assumes "auth_ok db" "family_dead family db" "in_family (hash raw) family db"
  shows "snd (refresh_tokens hash access new_raw now ttl raw db) = Raise invalid_refresh_token"
proof (cases "raw = []")
  case True
  then show ?thesis by (simp add: refresh_tokens_def)
next
  case False
  from assms(3) obtain r where "r \<in> set (sessions db)" "rt_token_hash r = hash raw" "rt_family_id r = family"
    by (auto simp: in_family_def)
  moreover from this have "\<not> live r" using assms(2) by (auto simp: family_dead_def)
  ultimately show ?thesis using refresh_dead [of db r hash raw] assms(1) False by (simp add: auth_ok_def)
qed

section \<open>Properties\<close>

text \<open>
  C30: Refresh tokens rotate, and theft is contained. After a refresh succeeded with a token, whatever
  else happens, presenting that token again is refused and revokes its family: from then on, after
  any further operations, no token of the family is accepted, the one issued by the first refresh
  and its successors included.
\<close>

theorem replay_revokes_family:
  assumes "auth_run hash empty_db db" "refresh_tokens hash access new_raw now ttl raw db = (db1, Ok t)" "auth_run hash db1 db2"
    and "refresh_tokens hash access' new_raw' now' ttl' raw db2 = (db3, res)" "auth_run hash db3 db4"
  shows "res = Raise invalid_refresh_token \<and>
    (\<exists>family. in_family (hash raw) family db4 \<and> in_family (hash (it_refresh_token t)) family db4 \<and>
      (\<forall>stolen access'' fresh later ttl''. in_family (hash stolen) family db4 \<longrightarrow>
        snd (refresh_tokens hash access'' fresh later ttl'' stolen db4) = Raise invalid_refresh_token))"
proof -
  have step1: "auth_run hash db db1"
    using auth_step.refresh [of hash db access new_raw now ttl raw] assms(2) by (simp add: auth_run_def)
  have ok2: "auth_ok db2"
    using auth_ok_run [OF assms(3) auth_ok_run [OF step1 auth_ok_run [OF assms(1) auth_ok_empty]]] .
  obtain family where f: "raw \<noteq> []" "it_refresh_token t = new_raw" "spent (hash raw) db1"
    "in_family (hash raw) family db1" "in_family (hash new_raw) family db1"
    using refresh_ok_spends [OF assms(2)] by auto
  obtain r where r: "r \<in> set (sessions db2)" "rt_token_hash r = hash raw" "\<not> live r"
    using run_keeps(1) [OF assms(3) f(3)] by (auto simp: spent_def)
  have run2: "refresh_tokens hash access' new_raw' now' ttl' raw db2 = (revoke_family (rt_family_id r) now' db2, Raise invalid_refresh_token)"
    using ok2 r f(1) by (intro refresh_dead) (simp_all add: auth_ok_def)
  then have db3: "db3 = revoke_family (rt_family_id r) now' db2" "res = Raise invalid_refresh_token" using assms(4) by simp_all
  have step3: "auth_run hash db2 db3"
    using auth_step.refresh [of hash db2 access' new_raw' now' ttl' raw] assms(4) by (simp add: auth_run_def)
  obtain q where q: "q \<in> set (sessions db2)" "rt_token_hash q = hash raw" "rt_family_id q = family"
    using run_keeps(2) [OF assms(3) f(4)] by (auto simp: in_family_def)
  have "q = r"
    using find_unique_hash [of db2 q] find_unique_hash [of db2 r] ok2 q r by (simp add: auth_ok_def)
  then have "family_dead family db3" using revoke_family_dead [OF r(1), of now'] q(3) db3(1) by simp
  then have dead: "family_dead family db4" by (rule run_keeps(3) [OF assms(5)])
  have ok4: "auth_ok db4" by (rule auth_ok_run [OF assms(5) auth_ok_run [OF step3 ok2]])
  have "in_family h family db4" if "in_family h family db1" for h
    by (rule run_keeps(2) [OF assms(5) run_keeps(2) [OF step3 run_keeps(2) [OF assms(3) that]]])
  then show ?thesis using db3(2) f dead_family_refused [OF ok4 dead] by blast
qed

lemma login_names_matches: "login_matches kind identifier u \<Longrightarrow> identifier \<in> login_names u"
  by (cases kind) (auto simp: login_matches_def login_names_def)

lemma login_unique:
  assumes "users_ok db" "u \<in> set (users db)" "login_matches kind identifier u"
  shows "filter (login_matches kind identifier) (users db) = [u]"
proof -
  have one: "v = u" if "v \<in> set (users db)" "login_matches kind identifier v" for v
  proof (rule ccontr)
    assume "v \<noteq> u"
    then have "login_names v \<inter> login_names u = {}" using assms(1,2) that(1) by (simp add: users_ok_def)
    then show False using login_names_matches [OF that(2)] login_names_matches [OF assms(3)] by blast
  qed
  have "distinct (users db)" using assms(1) by (simp add: users_ok_def distinct_map)
  then have d: "distinct (filter (login_matches kind identifier) (users db))" by simp
  have members: "set (filter (login_matches kind identifier) (users db)) = {u}" using assms(2,3) by (auto dest: one)
  have "length (filter (login_matches kind identifier) (users db)) = 1" using distinct_card [OF d] unfolding members by simp
  then obtain x where "filter (login_matches kind identifier) (users db) = [x]" unfolding One_nat_def length_Suc_conv by auto
  then show ?thesis using members by simp
qed

text \<open>
  C31: Login identifies exactly one account, whatever the table of accounts holds. It succeeds for an
  account exactly when this is the only one with the identifier, it is active and its password
  verifies (unless the random token collides), and the session belongs to it. When no account or
  more than one has the identifier, as with legacy accounts whose name is another's address, the
  ordinary error is raised and nothing changes. Accounts created by the operations never collide, so
  each of them is the only match for its name and for its address.
\<close>

theorem login_exact:
  "((\<exists>db' t. authenticate_and_issue_tokens hash access verify dummy raw family now ttl kind username password db = (db', Ok t)
       \<and> it_user t = u \<and> sessions db' = sessions db @ [\<lparr>rt_user_id = ur_id u, rt_token_hash = hash raw, rt_family_id = family,
         rt_issued_at = now, rt_expires_at = now + ttl, rt_used_at = None, rt_revoked_at = None, rt_replaced_by_hash = None\<rparr>]) \<longleftrightarrow>
     filter (login_matches kind (normalize_identifier username)) (users db) = [u] \<and> verify password (ur_password_hash u) \<and>
     ur_status u = ACTIVE \<and> hash raw \<notin> rt_token_hash ` set (sessions db)) \<and>
   (length (filter (login_matches kind (normalize_identifier username)) (users db)) \<noteq> 1 \<longrightarrow>
     authenticate_and_issue_tokens hash access verify dummy raw family now ttl kind username password db =
       (db, Raise (ApiError ''INVALID_CREDENTIALS'' ''Invalid username or password.'' 401))) \<and>
   (auth_run hash empty_db db \<and> u \<in> set (users db) \<and> login_matches kind (normalize_identifier username) u \<longrightarrow>
     filter (login_matches kind (normalize_identifier username)) (users db) = [u])"
proof -
  let ?m = "filter (login_matches kind (normalize_identifier username)) (users db)"
  let ?a = "authenticate_and_issue_tokens hash access verify dummy raw family now ttl kind username password db"
  let ?r = "\<lambda>u. \<lparr>rt_user_id = ur_id u, rt_token_hash = hash raw, rt_family_id = family,
         rt_issued_at = now, rt_expires_at = now + ttl, rt_used_at = None, rt_revoked_at = None, rt_replaced_by_hash = None\<rparr>"
  have ambiguous: "?a = (db, Raise (ApiError ''INVALID_CREDENTIALS'' ''Invalid username or password.'' 401))" if "length ?m \<noteq> 1"
  proof -
    have "(case take 2 ?m of [x] \<Rightarrow> Some x | _ \<Rightarrow> None) = None"
    proof (cases ?m)
      case (Cons x xs)
      with that show ?thesis by (cases xs) simp_all
    qed simp
    then show ?thesis by (simp add: authenticate_and_issue_tokens_def)
  qed
  have exact: "(\<exists>db' t. ?a = (db', Ok t) \<and> it_user t = u \<and> sessions db' = sessions db @ [?r u]) \<longleftrightarrow>
     ?m = [u] \<and> verify password (ur_password_hash u) \<and> ur_status u = ACTIVE \<and> hash raw \<notin> rt_token_hash ` set (sessions db)"
  proof (cases "length ?m = 1")
    case False
    then have "?m \<noteq> [u]" by auto
    with ambiguous [OF False] show ?thesis by simp
  next
    case True
    then obtain v where v: "?m = [v]" by (auto simp: length_Suc_conv)
    then have "v \<in> set ?m" by simp
    then have "ur_id v \<in> ur_id ` set (users db)" by auto
    then show ?thesis by (auto simp: v authenticate_and_issue_tokens_def issue_tokens_def insert_session_def)
  qed
  have "?m = [u]" if "auth_run hash empty_db db" "u \<in> set (users db)" "login_matches kind (normalize_identifier username) u"
    using login_unique [OF _ that(2,3)] auth_ok_run [OF that(1) auth_ok_empty] by (simp add: auth_ok_def)
  with exact ambiguous show ?thesis by blast
qed

text \<open>An invitation that is not pending stays so.\<close>

definition invitation_closed :: "string \<Rightarrow> auth_db \<Rightarrow> bool" where
  "invitation_closed h db \<longleftrightarrow> (\<exists>i \<in> set (invitations db). iv_token_hash i = h \<and> iv_status i \<noteq> PENDING)"

lemma update_invitation_closed:
  assumes "invitation_closed h db" "\<And>i. iv_token_hash (f i) = iv_token_hash i \<and> iv_status (f i) \<noteq> PENDING"
  shows "invitation_closed h (update_invitation h' f db)"
proof -
  obtain i where i: "i \<in> set (invitations db)" "iv_token_hash i = h" "iv_status i \<noteq> PENDING"
    using assms(1) by (auto simp: invitation_closed_def)
  let ?g = "\<lambda>i. if iv_token_hash i = h' then f i else i"
  have "?g i \<in> set (invitations (update_invitation h' f db))" using i(1) by (simp add: update_invitation_def)
  then show ?thesis unfolding invitation_closed_def using i assms(2) by (intro bexI [of _ "?g i"]) auto
qed

lemma invitation_closed_change: "auth_change db db' \<Longrightarrow> invitation_closed h db \<Longrightarrow> invitation_closed h db'"
proof (induction rule: auth_change.induct)
  case (expired i db)
  then show ?case by (intro update_invitation_closed) auto
next
  case (registered i db u now)
  then have "invitation_closed h (add_user u db)" by (simp add: invitation_closed_def)
  then show ?case by (rule update_invitation_closed) simp
qed (auto simp: invitation_closed_def)

lemma invitation_closed_run: "auth_run hash db db' \<Longrightarrow> invitation_closed h db \<Longrightarrow> invitation_closed h db'"
  unfolding auth_run_def by (induction rule: rtranclp_induct) (auto dest: auth_step_change invitation_closed_change)

lemma register_closed:
  assumes "invitations_ok db" "invitation_closed (hash token) db"
  shows "register_user hash hash_password now token username password email db = (db, Raise invalid_invitation)"
proof -
  obtain i where i: "i \<in> set (invitations db)" "iv_token_hash i = hash token" "iv_status i \<noteq> PENDING"
    using assms(2) by (auto simp: invitation_closed_def)
  have "distinct (map iv_token_hash is) \<Longrightarrow> i \<in> set is \<Longrightarrow> find (\<lambda>x. iv_token_hash x = iv_token_hash i) is = Some i" for "is"
    by (induction "is") auto
  then have "find (\<lambda>x. iv_token_hash x = hash token) (invitations db) = Some i"
    using i assms(1) by (simp add: invitations_ok_def)
  then show ?thesis using i(3) by (simp add: register_user_def)
qed

text \<open>
  C32: An invitation admits one account. A successful registration creates an active ordinary account
  under the invited address, and however the system goes on, the same token is refused without any
  effect; at every time there are exactly as many ordinary accounts as accepted invitations.
\<close>

theorem invitation_used_once:
  assumes "auth_run hash empty_db db" "register_user hash hash_password now token username password email db = (db1, Ok u)"
    and "auth_run hash db1 db2"
  shows "ur_role u = USER \<and> ur_status u = ACTIVE \<and> u \<in> set (users db1) \<and>
    (\<exists>i \<in> set (invitations db). iv_token_hash i = hash token \<and> iv_status i = PENDING \<and> now < iv_expires_at i \<and> ur_email u = iv_email i) \<and>
    register_user hash hash_password' now' token username' password' email' db2 = (db2, Raise invalid_invitation) \<and>
    length (filter (\<lambda>u. ur_role u = USER) (users db2)) = length (filter (\<lambda>i. iv_status i = ACCEPTED) (invitations db2))"
proof -
  obtain i where i: "find (\<lambda>i. iv_token_hash i = hash token) (invitations db) = Some i"
    using assms(2) by (auto simp: register_user_def Let_def split: option.splits)
  then have mem: "i \<in> set (invitations db)" "iv_token_hash i = hash token" by (auto dest: find_Some_member)
  have facts: "iv_status i = PENDING" "now < iv_expires_at i" "ur_role u = USER" "ur_status u = ACTIVE" "ur_email u = iv_email i"
    "db1 = update_invitation (hash token) (\<lambda>i. i\<lparr>iv_status := ACCEPTED, iv_accepted_at := Some now\<rparr>) (add_user u db)"
    using assms(2) i by (auto simp: register_user_def Let_def split: if_splits sum.splits dest!: insert_user_ok)
  have "i\<lparr>iv_status := ACCEPTED, iv_accepted_at := Some now\<rparr> \<in> set (invitations db1)"
    using mem facts(6) by (auto simp: update_invitation_def image_iff)
  then have "invitation_closed (hash token) db1" unfolding invitation_closed_def using mem(2) by (intro bexI) auto
  then have closed: "invitation_closed (hash token) db2" by (rule invitation_closed_run [OF assms(3)])
  have "auth_run hash db db1"
    using auth_step.register [of hash db hash_password now token username password email] assms(2) by (simp add: auth_run_def)
  then have ok: "invitations_ok db2"
    using auth_ok_run [OF assms(3) auth_ok_run [OF _ auth_ok_run [OF assms(1) auth_ok_empty]]] by (simp add: auth_ok_def)
  then have "register_user hash hash_password' now' token username' password' email' db2 = (db2, Raise invalid_invitation)"
    using closed by (rule register_closed)
  then show ?thesis using ok mem facts by (auto simp: invitations_ok_def)
qed

text \<open>What the installation keeps under operations and deletions of accounts.\<close>

definition installation_ok :: "auth_db \<Rightarrow> bool" where
  "installation_ok db \<longleftrightarrow> length (admins db) \<le> 1 \<and> (admins db \<noteq> [] \<longrightarrow> setup_completed db)"

lemma admins_statuses: "length (admins (db\<lparr>users := map (\<lambda>u. u\<lparr>ur_status := st (ur_id u)\<rparr>) (users db)\<rparr>)) = length (admins db)"
  by (simp add: admins_def filter_map comp_def)

lemma installation_change:
  "auth_change db db' \<Longrightarrow> (installation_ok db \<longrightarrow> installation_ok db') \<and>
     (setup_completed db \<longrightarrow> setup_completed db' \<and> length (admins db') = length (admins db))"
proof (induction rule: auth_change.induct)
  case (statuses db st)
  then show ?case using admins_statuses [of st db] by (auto simp: installation_ok_def)
qed (auto simp: installation_ok_def admins_def setup_completed_def add_user_def close_setup_def update_invitation_def
    revoke_family_def mark_used_def)

lemma delete_user_admins:
  assumes "delete_user uid db = Ok db'"
  shows "length (admins db') \<le> length (admins db)" "installation db' = installation db"
proof -
  let ?f = "\<lambda>u. if ur_invited_by u = Some uid then u\<lparr>ur_invited_by := None\<rparr> else u"
  have db': "users db' = map ?f (filter (\<lambda>u. ur_id u \<noteq> uid) (users db))" "installation db' = installation db"
    using assms by (auto simp: delete_user_def split: if_splits)
  have role: "ur_role (?f u) = ur_role u" for u by simp
  have "admins db' = map ?f (filter (\<lambda>u. ur_id u \<noteq> uid) (admins db))"
    unfolding admins_def db'(1) filter_map comp_def role filter_filter by (simp add: conj_commute)
  then show "length (admins db') \<le> length (admins db)" "installation db' = installation db"
    using db'(2) by simp_all
qed

lemma installation_steps:
  assumes "installation_step hash db db'"
  shows "(installation_ok db \<longrightarrow> installation_ok db') \<and>
     (setup_completed db \<longrightarrow> setup_completed db' \<and> length (admins db') \<le> length (admins db))"
  using assms
proof (cases rule: installation_step.cases)
  case operation
  with installation_change [OF auth_step_change] show ?thesis by (metis order_refl)
next
  case (deletion uid)
  from delete_user_admins [OF deletion] show ?thesis
    by (auto simp: installation_ok_def setup_completed_def)
qed

lemma installation_runs:
  assumes "installation_run hash db db'"
  shows "(installation_ok db \<longrightarrow> installation_ok db') \<and>
     (setup_completed db \<longrightarrow> setup_completed db' \<and> length (admins db') \<le> length (admins db))"
  using assms unfolding installation_run_def
proof (induction rule: rtranclp_induct)
  case (step y z)
  from installation_steps [OF step.hyps(2)] step.IH show ?case by (metis order_trans)
qed simp

lemma status_completed:
  "installation_ok db \<Longrightarrow> get_setup_status db = SETUP_COMPLETED \<longleftrightarrow> setup_completed db"
  by (auto simp: get_setup_status_def setup_completed_def installation_ok_def split: option.splits)

text \<open>
  C33: The installation is completed once and for all. From a fresh database, however operations and
  deletions of accounts follow each other, there is never more than one administrator, and as soon
  as there is one the installation is completed. Once it is, it stays so whatever happens, also after
  the administrator has been deleted: no administrator is added, neither the command line nor the
  web setup creates one or changes anything, and no setup token is prepared.
\<close>

theorem installation_closed:
  assumes "installation_run hash empty_db db" "installation_run hash db db'"
  shows "length (admins db) \<le> 1 \<and> (admins db \<noteq> [] \<longrightarrow> get_setup_status db = SETUP_COMPLETED) \<and>
    (get_setup_status db = SETUP_COMPLETED \<longrightarrow>
      get_setup_status db' = SETUP_COMPLETED \<and> length (admins db') \<le> length (admins db) \<and>
      bootstrap_admin hash_password now username email password db' =
        (db', Raise (ApiError ''ADMIN_ALREADY_EXISTS'' ''An administrator already exists.'' 409)) \<and>
      complete_setup hash hash_password now token username email password db' =
        (db', Raise (ApiError ''SETUP_ALREADY_COMPLETED'' ''Installation is already complete.'' 409)) \<and>
      prepare_setup hash fresh euid now rotating d db' = (db', Ok (d, COMPLETED)))"
proof -
  have "installation_ok empty_db" by (simp add: installation_ok_def empty_db_def admins_def)
  then have ok: "installation_ok db" "installation_ok db'"
    using installation_runs [OF assms(1)] installation_runs [OF assms(2)] by blast+
  have "setup_completed db \<longrightarrow> setup_completed db' \<and> length (admins db') \<le> length (admins db)"
    using installation_runs [OF assms(2)] by blast
  moreover have "bootstrap_admin hash_password now username email password db' =
        (db', Raise (ApiError ''ADMIN_ALREADY_EXISTS'' ''An administrator already exists.'' 409)) \<and>
      complete_setup hash hash_password now token username email password db' =
        (db', Raise (ApiError ''SETUP_ALREADY_COMPLETED'' ''Installation is already complete.'' 409)) \<and>
      prepare_setup hash fresh euid now rotating d db' = (db', Ok (d, COMPLETED))" if "setup_completed db'"
    using that by (auto simp: bootstrap_admin_def complete_setup_def prepare_setup_def setup_completed_def split: option.splits)
  ultimately show ?thesis
    using ok unfolding status_completed [OF ok(1)] status_completed [OF ok(2)] by (auto simp: installation_ok_def)
qed

section \<open>Handing over the setup token\<close>

definition token_text :: "string \<Rightarrow> bool" where
  "token_text s \<longleftrightarrow> list_all (\<lambda>c. (of_char c :: nat) < 128 \<and> c \<noteq> CHR 0x0A \<and> c \<noteq> CHR 0x0D) s"

lemma universal_newlines_id: "CHR 0x0D \<notin> set s \<Longrightarrow> universal_newlines s = s"
  by (induction s rule: universal_newlines.induct) auto

lemma rstrip_newlines_snoc: "s \<noteq> [] \<Longrightarrow> last s \<noteq> CHR 0x0A \<Longrightarrow> rstrip_newlines (s @ [CHR 0x0A]) = s"
  by (cases s rule: rev_cases) (simp_all add: rstrip_newlines_def)

lemma token_text_prefix [simp]: "token_text (SETUP_TOKEN_PREFIX @ fresh) = token_text fresh"
  by (simp add: token_text_def SETUP_TOKEN_PREFIX_def)

lemma read_written_token:
  assumes "write_setup_token euid (SETUP_TOKEN_PREFIX @ fresh) d = Ok d'" "token_text fresh" "length fresh = 64"
    and "euid = 0 \<or> euid = hd_uid d"
  shows "read_setup_token d' = Ok (Some (SETUP_TOKEN_PREFIX @ fresh))"
proof -
  let ?t = "SETUP_TOKEN_PREFIX @ fresh"
  have printable: "token_text ?t" "length ?t = length SETUP_TOKEN_PREFIX + 64" using assms(2,3) by simp_all
  have ne1: "?t \<noteq> []" using assms(3) by (cases fresh) simp_all
  have ascii: "\<forall>c \<in> set ?t. (of_char c :: nat) < 128" and nl: "\<forall>c \<in> set ?t. c \<noteq> CHR 0x0A" and cr: "\<forall>c \<in> set ?t. c \<noteq> CHR 0x0D"
    using printable(1) unfolding token_text_def list_all_iff by blast+
  from nl have ne2: "last ?t \<noteq> CHR 0x0A" using last_in_set [OF ne1] by (rule bspec)
  have "CHR 0x0D \<notin> set ?t" using cr by blast
  then have "CHR 0x0D \<notin> set (?t @ [CHR 0x0A])" by simp
  then have u: "universal_newlines (?t @ [CHR 0x0A]) = ?t @ [CHR 0x0A]" by (rule universal_newlines_id)
  have "length (?t @ [CHR 0x0A]) \<le> 256" using assms(3) by (simp add: SETUP_TOKEN_PREFIX_def)
  then have raw: "rstrip_newlines (take 256 (universal_newlines (?t @ [CHR 0x0A]))) = ?t"
    unfolding u using rstrip_newlines_snoc [OF ne1 ne2] by simp
  have encoded: "\<not> list_ex (\<lambda>c. 128 \<le> (of_char c :: nat)) (?t @ [CHR 0x0A])"
    unfolding list_ex_append using ascii by (simp add: list_ex_iff not_le)
  have d': "d' = d\<lparr>hd_entry := Node \<lparr>hf_regular = True, hf_readable = True, hf_mode = owner_only,
      hf_uid = (if euid = 0 then hd_uid d else euid), hf_content = ?t @ [CHR 0x0A]\<rparr>\<rparr>"
    using assms(1) by (simp add: write_setup_token_def split: if_splits)
  show ?thesis
    unfolding read_setup_token_def d' using assms(3,4) encoded raw by (auto simp: Let_def starts_with_def)
qed

text \<open>
  C34: The setup token reaches the operator. When an installation prepares its token (as root or as
  the owner of the directory), the file holds it, preparing again finds the same token and changes
  nothing, and exactly this token lets the web setup create the first administrator and close the
  installation: any other, unless its digest collides, is refused as invalid and changes nothing.
  Random tokens are 64 printable characters and digests are not empty, as documented.
\<close>

theorem setup_token_handover:
  assumes "prepare_setup hash fresh euid now False d db = (db1, Ok (d1, CREATED))"
    and "token_text fresh" "length fresh = 64" "euid = 0 \<or> euid = hd_uid d" "\<And>s. hash s \<noteq> []"
  shows "read_setup_token d1 = Ok (Some (SETUP_TOKEN_PREFIX @ fresh)) \<and>
    prepare_setup hash fresh' euid' now' False d1 db1 = (db1, Ok (d1, REUSED)) \<and>
    (reserve_login_identifiers username email db1 = Ok () \<longrightarrow>
      (\<exists>db2 u. complete_setup hash hash_password now'' (SETUP_TOKEN_PREFIX @ fresh) username email password db1 = (db2, Ok u) \<and>
        ur_role u = ADMIN \<and> admins db2 = [u] \<and> get_setup_status db2 = SETUP_COMPLETED)) \<and>
    (hash token \<noteq> hash (SETUP_TOKEN_PREFIX @ fresh) \<longrightarrow>
      complete_setup hash hash_password now'' token username email password db1 =
        (db1, Raise (ApiError ''INVALID_SETUP_TOKEN'' ''Invalid setup token.'' 403)))"
proof -
  let ?t = "SETUP_TOKEN_PREFIX @ fresh"
  have pre: "\<not> setup_completed db" "admins db = []" "write_setup_token euid ?t d = Ok d1"
    "db1 = db\<lparr>installation := Some \<lparr>in_token_hash = Some (hash ?t), in_completed_at = None\<rparr>\<rparr>"
    using assms(1) by (auto simp: prepare_setup_def Let_def split: if_splits option.splits sum.splits)
  note read = read_written_token [OF pre(3) assms(2,3,4)]
  have reuse: "prepare_setup hash fresh' euid' now' False d1 db1 = (db1, Ok (d1, REUSED))"
    using pre assms(5) read by (simp add: prepare_setup_def setup_completed_def admins_def)
  have complete: "\<exists>db2 u. complete_setup hash hash_password now'' ?t username email password db1 = (db2, Ok u) \<and>
      ur_role u = ADMIN \<and> admins db2 = [u] \<and> get_setup_status db2 = SETUP_COMPLETED"
    if free: "reserve_login_identifiers username email db1 = Ok ()"
  proof -
    let ?u = "\<lparr>ur_id = next_user_id db1, ur_username = strip username, ur_email = normalize_identifier email,
      ur_password_hash = hash_password password, ur_role = ADMIN, ur_status = ACTIVE, ur_invited_by = None\<rparr>"
    have "names_free ?u db1" using free by (rule reserved_free) simp_all
    then have "insert_user ?u db1 = Ok (add_user ?u db1)"
      by (auto simp: insert_user_def add_user_def names_free_def login_names_def list_ex_iff)
    then have "create_first_admin hash_password username email password db1 = Ok (add_user ?u db1, ?u)"
      using pre(2,4) free by (simp add: create_first_admin_def admins_def Let_def)
    then have "complete_setup hash hash_password now'' ?t username email password db1 = (close_setup now'' (add_user ?u db1), Ok ?u)"
      using pre(4) assms(5) by (simp add: complete_setup_def)
    then show ?thesis using pre(2,4) by (auto simp: admins_def get_setup_status_def close_setup_def)
  qed
  have "complete_setup hash hash_password now'' token username email password db1 =
      (db1, Raise (ApiError ''INVALID_SETUP_TOKEN'' ''Invalid setup token.'' 403))" if "hash token \<noteq> hash ?t"
    using pre(4) that by (simp add: complete_setup_def)
  with read reuse complete show ?thesis by blast
qed

section \<open>A concrete history\<close>

text \<open>
  The administrator \<open>root\<close> bootstraps the installation, signs in and invites one address, which
  registers. Digests and password hashes are the identity, tokens are short.
\<close>

definition demo_admin :: user where
  "demo_admin = \<lparr>ur_id = 1, ur_username = ''root'', ur_email = ''a'', ur_password_hash = ''pw'', ur_role = ADMIN,
     ur_status = ACTIVE, ur_invited_by = None\<rparr>"

definition demo_session :: refresh_session where
  "demo_session = \<lparr>rt_user_id = 1, rt_token_hash = ''t1'', rt_family_id = ''f'', rt_issued_at = 1, rt_expires_at = 11,
     rt_used_at = None, rt_revoked_at = None, rt_replaced_by_hash = None\<rparr>"

definition demo_db :: auth_db where
  "demo_db = \<lparr>users = [demo_admin], invitations = [], sessions = [demo_session],
     installation = Some \<lparr>in_token_hash = None, in_completed_at = Some 0\<rparr>, next_user_id = 2\<rparr>"

lemma demo_run: "auth_run id empty_db demo_db"
proof -
  let ?db = "demo_db\<lparr>sessions := []\<rparr>"
  have "fst (bootstrap_admin id 0 ''root'' ''a'' ''pw'' empty_db) = ?db"
    by (simp add: bootstrap_admin_def create_first_admin_def empty_db_def setup_completed_def admins_def insert_user_def
        reserve_login_identifiers_def close_setup_def demo_db_def demo_admin_def normalize_identifier_def Let_def text_eval)
  then have 1: "auth_step id empty_db ?db" using auth_step.bootstrap [of id empty_db id 0 "''root''" "''a''" "''pw''"] by simp
  have "fst (authenticate_and_issue_tokens id (\<lambda>_. []) (=) [] ''t1'' ''f'' 1 10 Auto ''root'' ''pw'' ?db) = demo_db"
    by (simp add: authenticate_and_issue_tokens_def login_matches_def issue_tokens_def insert_session_def demo_db_def
        demo_admin_def demo_session_def normalize_identifier_def text_eval)
  then have 2: "auth_step id ?db demo_db"
    using auth_step.login [of "''f''" ?db id "\<lambda>_. []" "(=)" "[]" "''t1''" 1 10 Auto "''root''" "''pw''"] by simp
  show ?thesis unfolding auth_run_def using 1 2 by (meson converse_rtranclp_into_rtranclp r_into_rtranclp)
qed

lemma auth_run_refl: "auth_run hash db db"
  by (simp add: auth_run_def)

theorem replay_revokes_family_witness:
  "snd (refresh_tokens id (\<lambda>_. []) ''t3'' 3 10 ''t1'' (fst (refresh_tokens id (\<lambda>_. []) ''t2'' 2 10 ''t1'' demo_db))) =
     Raise invalid_refresh_token"
proof -
  obtain db1 t where r: "refresh_tokens id (\<lambda>_. []) ''t2'' 2 10 ''t1'' demo_db = (db1, Ok t)"
    by (simp add: refresh_tokens_def demo_db_def demo_session_def demo_admin_def insert_session_def mark_used_def)
  then show ?thesis
    using replay_revokes_family [OF demo_run r auth_run_refl surjective_pairing auth_run_refl, of "\<lambda>_. []" "''t3''" 3 10]
    by simp
qed

text \<open>A legacy account whose name is the address of the administrator.\<close>

definition legacy_db :: auth_db where
  "legacy_db = demo_db\<lparr>users := [demo_admin, demo_admin\<lparr>ur_id := 2, ur_username := ''a'', ur_email := ''c''\<rparr>]\<rparr>"

theorem login_exact_witness:
  "authenticate_and_issue_tokens id (\<lambda>_. []) (=) [] ''t9'' ''g'' 5 10 Auto '' A '' ''pw'' legacy_db =
     (legacy_db, Raise (ApiError ''INVALID_CREDENTIALS'' ''Invalid username or password.'' 401)) \<and>
   (\<exists>db' t. authenticate_and_issue_tokens id (\<lambda>_. []) (=) [] ''t9'' ''g'' 5 10 Email '' A '' ''pw'' legacy_db = (db', Ok t) \<and>
      it_user t = demo_admin)"
proof
  have rows: "users legacy_db = [demo_admin, demo_admin\<lparr>ur_id := 2, ur_username := ''a'', ur_email := ''c''\<rparr>]"
    "sessions legacy_db = [demo_session]" by (simp_all add: legacy_db_def demo_db_def)
  have "length (filter (login_matches Auto (normalize_identifier '' A '')) (users legacy_db)) \<noteq> 1"
    by (simp add: rows login_matches_def demo_admin_def normalize_identifier_def text_eval)
  then show "authenticate_and_issue_tokens id (\<lambda>_. []) (=) [] ''t9'' ''g'' 5 10 Auto '' A '' ''pw'' legacy_db =
     (legacy_db, Raise (ApiError ''INVALID_CREDENTIALS'' ''Invalid username or password.'' 401))"
    by (rule login_exact [THEN conjunct2, THEN conjunct1, THEN mp])
  have "filter (login_matches Email (normalize_identifier '' A '')) (users legacy_db) = [demo_admin] \<and>
      ''pw'' = ur_password_hash demo_admin \<and> ur_status demo_admin = ACTIVE \<and>
      id ''t9'' \<notin> rt_token_hash ` set (sessions legacy_db)"
    by (simp add: rows login_matches_def demo_admin_def demo_session_def normalize_identifier_def text_eval)
  then have "\<exists>db' t. authenticate_and_issue_tokens id (\<lambda>_. []) (=) [] ''t9'' ''g'' 5 10 Email '' A '' ''pw'' legacy_db = (db', Ok t) \<and>
      it_user t = demo_admin \<and> sessions db' = sessions legacy_db @ [\<lparr>rt_user_id = ur_id demo_admin, rt_token_hash = id ''t9'',
         rt_family_id = ''g'', rt_issued_at = 5, rt_expires_at = 5 + 10, rt_used_at = None, rt_revoked_at = None,
         rt_replaced_by_hash = None\<rparr>]"
    by (rule login_exact [THEN conjunct1, THEN iffD2])
  then
  show "\<exists>db' t. authenticate_and_issue_tokens id (\<lambda>_. []) (=) [] ''t9'' ''g'' 5 10 Email '' A '' ''pw'' legacy_db = (db', Ok t) \<and>
      it_user t = demo_admin" by blast
qed

lemma installation_runI: "auth_run hash db db' \<Longrightarrow> installation_run hash db db'"
  unfolding auth_run_def installation_run_def
  by (induction rule: rtranclp_induct) (auto intro: rtranclp.rtrancl_into_rtrancl installation_step.operation)

text \<open>The only administrator is deleted, and with it the session; the installation stays closed.\<close>

definition orphaned_db :: auth_db where
  "orphaned_db = demo_db\<lparr>users := [], sessions := []\<rparr>"

theorem installation_closed_witness:
  "admins orphaned_db = [] \<and> bootstrap_admin id 7 ''x'' ''y'' ''z'' orphaned_db =
     (orphaned_db, Raise (ApiError ''ADMIN_ALREADY_EXISTS'' ''An administrator already exists.'' 409)) \<and>
   get_setup_status orphaned_db = SETUP_COMPLETED"
proof -
  have "delete_user 1 demo_db = Ok orphaned_db"
    by (simp add: delete_user_def demo_db_def demo_admin_def demo_session_def orphaned_db_def)
  then have "installation_run id demo_db orphaned_db"
    unfolding installation_run_def by (intro r_into_rtranclp installation_step.deletion)
  note closed = installation_closed [OF installation_runI [OF demo_run] this]
  have "admins demo_db \<noteq> []" by (simp add: admins_def demo_db_def demo_admin_def)
  then show ?thesis using closed [of id 7 "''x''" "''y''" "''z''"] by (simp add: admins_def orphaned_db_def)
qed

definition demo_invited :: auth_db where
  "demo_invited = demo_db\<lparr>invitations := [\<lparr>iv_email = ''b'', iv_token_hash = ''i'', iv_status = PENDING, iv_created_by = 1,
     iv_expires_at = 9, iv_accepted_at = None\<rparr>]\<rparr>"

lemma demo_invited_run: "auth_run id empty_db demo_invited"
proof -
  have "fst (create_invitation id ''i'' 4 5 demo_admin ''b'' demo_db) = demo_invited"
    by (simp add: create_invitation_def require_active_admin_def demo_invited_def demo_db_def demo_admin_def
        normalize_identifier_def Let_def text_eval)
  then have "auth_step id demo_db demo_invited" using auth_step.invite [of id demo_db "''i''" 4 5 demo_admin "''b''"] by simp
  then show ?thesis using demo_run unfolding auth_run_def by (rule rtranclp.rtrancl_into_rtrancl [rotated])
qed

theorem invitation_used_once_witness:
  "snd (register_user id id 6 ''i'' ''eve'' ''pw'' None (fst (register_user id id 5 ''i'' ''bob'' ''pw'' None demo_invited))) =
     Raise invalid_invitation"
proof -
  obtain db1 u where r: "register_user id id 5 ''i'' ''bob'' ''pw'' None demo_invited = (db1, Ok u)"
    by (simp add: register_user_def demo_invited_def demo_db_def demo_admin_def reserve_login_identifiers_def insert_user_def
        normalize_identifier_def Let_def text_eval)
  then show ?thesis using invitation_used_once [OF demo_invited_run r auth_run_refl] by simp
qed

theorem setup_token_handover_witness:
  "\<exists>db1 d1. prepare_setup (\<lambda>s. CHR ''h'' # s) (replicate 64 CHR ''x'') 0 1 False
       \<lparr>hd_is_dir = True, hd_is_symlink = False, hd_uid = 5, hd_entry = Absent\<rparr> empty_db = (db1, Ok (d1, CREATED)) \<and>
     read_setup_token d1 = Ok (Some (SETUP_TOKEN_PREFIX @ replicate 64 CHR ''x'')) \<and>
     complete_setup (\<lambda>s. CHR ''h'' # s) id 2 ''wrong'' ''root'' ''a'' ''pw'' db1 =
       (db1, Raise (ApiError ''INVALID_SETUP_TOKEN'' ''Invalid setup token.'' 403))"
proof -
  let ?d = "\<lparr>hd_is_dir = True, hd_is_symlink = False, hd_uid = 5, hd_entry = Absent\<rparr>"
  obtain db1 d1 where p: "prepare_setup (\<lambda>s. CHR ''h'' # s) (replicate 64 CHR ''x'') 0 1 False ?d empty_db = (db1, Ok (d1, CREATED))"
    by (simp add: prepare_setup_def setup_completed_def admins_def empty_db_def write_setup_token_def)
  have t: "token_text (replicate 64 CHR ''x'')" by (simp add: token_text_def list_all_iff)
  have other: "CHR ''h'' # ''wrong'' \<noteq> CHR ''h'' # (SETUP_TOKEN_PREFIX @ replicate 64 CHR ''x'')"
    by (simp add: SETUP_TOKEN_PREFIX_def)
  have len: "length (replicate 64 CHR ''x'') = 64" by simp
  have h: "\<And>s. CHR ''h'' # s \<noteq> []" by simp
  note handover = setup_token_handover [OF p t len disjI1 [OF refl] h]
  show ?thesis using p handover other by auto
qed

end
