(* ===== verification/State_Events.thy ===== *)
theory State_Events
  imports State_Types "HOL-Library.Product_Lexorder"
begin

text \<open>
  The store of state changes (\<open>repositories/state_event.py\<close>): daily observations of every state are
  published as the changes between them. The tables are those of one stream, that is of one security
  and adjustment; a publication is one transaction under the lock of the stream. Dates are days,
  \<open>dumps\<close> stands for the canonical JSON text of a mapping, which only enters comparisons.
\<close>

section \<open>Rows\<close>

type_synonym state_target = "string \<times> string"

record state_row =
  sv_code :: string
  sv_key :: string
  sv_indicator :: string
  sv_parameters :: "(pyval \<times> pyval) list"
  sv_status :: state_status
  sv_trade_date :: int
  sv_since_date :: "int option"
  sv_observed_from :: "int option"
  sv_since_is_exact :: bool
  sv_source_revision :: "int option"
  sv_metadata :: "(pyval \<times> pyval) list"

datatype event_kind = BASELINE | ENTER | EXIT | UNKNOWN_EVENT | RECOVER

text \<open>A row of \<open>CurrentIndicatorState\<close>, and with the further columns one of \<open>StateEvent\<close>.\<close>

record state_values =
  va_code :: string
  va_key :: string
  va_indicator :: string
  va_parameters :: "(pyval \<times> pyval) list"
  va_status :: state_status
  va_trade_date :: int
  va_since_date :: "int option"
  va_observed_from :: int
  va_since_is_exact :: bool
  va_source_revision :: int
  va_metadata :: "(pyval \<times> pyval) list"

record state_event = state_values +
  ev_kind :: event_kind
  ev_seq :: int
  ev_valid :: bool
  ev_restatement :: bool

record event_store =
  es_events :: "state_event list"
  es_current :: "(state_target, state_values) dict"
  es_sequence :: int
  es_generation :: int

definition empty_store :: event_store where
  "empty_store = \<lparr>es_events = [], es_current = [], es_sequence = 0, es_generation = 0\<rparr>"

text \<open>\<open>observation\<close>: a stored row as the transient observation, at its own or at a given day.\<close>

definition observation_row :: "'a state_values_scheme \<Rightarrow> int option \<Rightarrow> state_row" where
  "observation_row v trade_date = \<lparr>sv_code = va_code v, sv_key = va_key v, sv_indicator = va_indicator v,
     sv_parameters = va_parameters v, sv_status = va_status v,
     sv_trade_date = (case trade_date of Some d \<Rightarrow> d | None \<Rightarrow> va_trade_date v),
     sv_since_date = va_since_date v, sv_observed_from = Some (va_observed_from v),
     sv_since_is_exact = va_since_is_exact v, sv_source_revision = Some (va_source_revision v),
     sv_metadata = va_metadata v\<rparr>"

definition row_target :: "state_row \<Rightarrow> state_target" where
  "row_target r = (sv_code r, sv_key r)"

definition event_target :: "'a state_values_scheme \<Rightarrow> state_target" where
  "event_target e = (va_code e, va_key e)"

section \<open>Compression of a timeline\<close>

text \<open>What the loop remembers of the last observation of a target.\<close>

record since_info =
  si_status :: state_status
  si_since :: "int option"
  si_observed :: int
  si_exact :: bool

definition provable_edge :: "state_row \<Rightarrow> bool" where
  "provable_edge r \<longleftrightarrow> \<not> py_falsy (get_none (sv_metadata r) ''transition'')"

definition classify :: "since_info option \<Rightarrow> state_row \<Rightarrow> event_kind option" where
  "classify prior r = (case prior of
      None \<Rightarrow> Some BASELINE
    | Some p \<Rightarrow>
        if sv_status r \<noteq> si_status p then
          if sv_status r = UNKNOWN then Some UNKNOWN_EVENT
          else if si_status p = UNKNOWN then Some (if sv_status r = ACTIVE \<and> provable_edge r then ENTER else RECOVER)
          else Some (if sv_status r = ACTIVE then ENTER else EXIT)
        else None)"

definition since_of :: "since_info option \<Rightarrow> state_row \<Rightarrow> since_info" where
  "since_of prior r = (case (classify prior r, prior) of
      (None, Some p) \<Rightarrow> \<lparr>si_status = sv_status r, si_since = si_since p, si_observed = si_observed p, si_exact = si_exact p\<rparr>
    | (kind, _) \<Rightarrow>
        let exact = (kind = Some ENTER \<or> kind = Some EXIT) in
        \<lparr>si_status = sv_status r, si_since = (if exact then Some (sv_trade_date r) else None),
         si_observed = sv_trade_date r, si_exact = exact\<rparr>)"

definition row_values :: "int \<Rightarrow> since_info \<Rightarrow> state_row \<Rightarrow> state_values" where
  "row_values revision s r = \<lparr>va_code = sv_code r, va_key = sv_key r, va_indicator = sv_indicator r,
     va_parameters = sv_parameters r, va_status = sv_status r, va_trade_date = sv_trade_date r,
     va_since_date = si_since s, va_observed_from = si_observed s, va_since_is_exact = si_exact s,
     va_source_revision = revision, va_metadata = sv_metadata r\<rparr>"

type_synonym pending_event = "event_kind \<times> state_values"

record compression =
  co_current :: "(state_target, since_info) dict"
  co_last :: "(state_target, state_values) dict"
  co_events :: "pending_event list"

definition compress_row :: "int \<Rightarrow> state_row \<Rightarrow> compression \<Rightarrow> compression" where
  "compress_row revision r c =
     (let prior = dict_get (co_current c) (row_target r);
          s = since_of prior r;
          v = row_values revision s r
      in \<lparr>co_current = dict_set (row_target r) s (co_current c),
          co_last = dict_set (row_target r) v (co_last c),
          co_events = (case classify prior r of None \<Rightarrow> co_events c | Some kind \<Rightarrow> co_events c @ [(kind, v)])\<rparr>)"

definition compress :: "int \<Rightarrow> (state_target, since_info) dict \<Rightarrow> state_row list \<Rightarrow> compression" where
  "compress revision anchors rows = fold (compress_row revision) rows \<lparr>co_current = anchors, co_last = [], co_events = []\<rparr>"

definition row_order :: "state_row \<Rightarrow> int \<times> string \<times> string" where
  "row_order r = (sv_trade_date r, sv_code r, sv_key r)"

section \<open>Publication\<close>

text \<open>
  \<open>seed_at\<close>: per target the last valid event up to a day, by date and then by sequence. Later events
  of the list win where both agree.
\<close>

definition event_before :: "state_event \<Rightarrow> state_event \<Rightarrow> bool" where
  "event_before a b \<longleftrightarrow> (va_trade_date a, ev_seq a) \<le> (va_trade_date b, ev_seq b)"

definition latest_event :: "state_event list \<Rightarrow> state_event option" where
  "latest_event es = fold (\<lambda>e best. case best of None \<Rightarrow> Some e | Some b \<Rightarrow> Some (if event_before b e then e else b)) es None"

definition seed_at :: "event_store \<Rightarrow> int \<Rightarrow> state_row list" where
  "seed_at store on_day =
     (let es = filter (\<lambda>e. ev_valid e \<and> va_trade_date e \<le> on_day) (es_events store)
      in map (\<lambda>t. observation_row (the (latest_event (filter (\<lambda>e. event_target e = t) es))) (Some on_day))
           (remdups (map event_target es)))"

definition anchor_of :: "state_row \<Rightarrow> state_target \<times> since_info" where
  "anchor_of r = (row_target r, \<lparr>si_status = sv_status r, si_since = sv_since_date r,
     si_observed = (case sv_observed_from r of Some d \<Rightarrow> d | None \<Rightarrow> 0), si_exact = sv_since_is_exact r\<rparr>)"

type_synonym event_signature =
  "(int \<times> string \<times> string \<times> string) \<times> (state_status \<times> event_kind) \<times> (int option \<times> int \<times> bool) \<times> string \<times> string"

definition signature :: "((pyval \<times> pyval) list \<Rightarrow> string) \<Rightarrow> event_kind \<Rightarrow> 'a state_values_scheme \<Rightarrow> event_signature" where
  "signature dumps kind v = ((va_trade_date v, va_code v, va_key v, va_indicator v), (va_status v, kind),
     (va_since_date v, va_observed_from v, va_since_is_exact v), dumps (va_parameters v), dumps (va_metadata v))"

definition previous_through :: "event_store \<Rightarrow> int option" where
  "previous_through store = (case map va_trade_date (map snd (es_current store)) of [] \<Rightarrow> None | ds \<Rightarrow> Some (Max (set ds)))"

definition in_window :: "int option \<Rightarrow> int \<Rightarrow> int \<Rightarrow> state_event \<Rightarrow> bool" where
  "in_window start replace_from through e \<longleftrightarrow> ev_valid e \<and> va_trade_date e \<le> through \<and> (start \<noteq> None \<longrightarrow> replace_from \<le> va_trade_date e)"

text \<open>Numbering of the new events, and the mark of those that replace history.\<close>

definition numbered :: "int option \<Rightarrow> int \<Rightarrow> pending_event list \<Rightarrow> state_event list" where
  "numbered prev sequence es = map (\<lambda>(i, kind, v). state_values.extend v
     (state_event.fields kind (sequence + 1 + int i) True (prev = None \<or> va_trade_date v \<le> the prev))) (enumerate 0 es)"

definition replace_from :: "int option \<Rightarrow> int \<Rightarrow> state_row list \<Rightarrow> int" where
  "replace_from start through ordered = (case start of Some s \<Rightarrow> s
     | None \<Rightarrow> (case map sv_trade_date ordered of [] \<Rightarrow> through | ds \<Rightarrow> Min (set ds)))"

definition anchors_for :: "int option \<Rightarrow> int \<Rightarrow> event_store \<Rightarrow> (state_target, since_info) dict" where
  "anchors_for start from_day store = (if start = None then [] else map anchor_of (seed_at store (from_day - 1)))"

definition old_events :: "int option \<Rightarrow> int \<Rightarrow> int \<Rightarrow> event_store \<Rightarrow> state_event list" where
  "old_events start from_day through store =
     sort_key (\<lambda>e. (va_trade_date e, va_code e, va_key e)) (filter (in_window start from_day through) (es_events store))"

definition invalidated :: "int option \<Rightarrow> int \<Rightarrow> int \<Rightarrow> state_event list \<Rightarrow> state_event list" where
  "invalidated start from_day through es = map (\<lambda>e. if in_window start from_day through e then e\<lparr>ev_valid := False\<rparr> else e) es"

definition publish_events ::
  "((pyval \<times> pyval) list \<Rightarrow> string) \<Rightarrow> int \<Rightarrow> event_store \<Rightarrow> state_row list \<Rightarrow> int option \<Rightarrow> int \<Rightarrow> (event_store \<times> nat) result"
where
  "publish_events dumps revision store observations start through =
     (let prev = previous_through store in
      if prev \<noteq> None \<and> through < the prev
      then Raise (ApiError ''STALE_ANALYSIS_TARGET'' ''Cannot regress the current State snapshot.'' 409)
      else
        let ordered = sort_key row_order observations;
            from_day = replace_from start through ordered;
            c = compress revision (anchors_for start from_day store) ordered;
            unchanged = (map (\<lambda>e. signature dumps (ev_kind e) e) (old_events start from_day through store) =
              map (\<lambda>(kind, v). signature dumps kind v) (co_events c));
            kept = (if start = None then [] else es_current store)
        in Ok (\<lparr>es_events = (if unchanged then es_events store
                  else invalidated start from_day through (es_events store) @ numbered prev (es_sequence store) (co_events c)),
                es_current = fold (\<lambda>(t, v). dict_set t v) (co_last c) kept,
                es_sequence = (if unchanged then es_sequence store else es_sequence store + int (length (co_events c))),
                es_generation = (if \<not> unchanged \<or> prev \<noteq> Some through then es_generation store + 1 else es_generation store)\<rparr>,
              if unchanged then 0 else length (co_events c)))"

text \<open>The rows readers see.\<close>

definition selects :: "string option \<Rightarrow> string \<Rightarrow> bool" where
  "selects wanted v \<longleftrightarrow> wanted = None \<or> wanted = Some v"

definition current_rows :: "event_store \<Rightarrow> bool \<Rightarrow> string option \<Rightarrow> string option \<Rightarrow> state_row list" where
  "current_rows store active_only state_code parameter_key =
     map (\<lambda>v. observation_row v None) (sort_key event_target (filter (\<lambda>v.
       (active_only \<longrightarrow> va_status v = ACTIVE) \<and> selects state_code (va_code v) \<and>
       selects parameter_key (va_key v)) (map snd (es_current store))))"

definition events_page ::
  "event_store \<Rightarrow> int \<Rightarrow> int \<Rightarrow> string option \<Rightarrow> string option \<Rightarrow> string option \<Rightarrow> int \<Rightarrow> nat \<Rightarrow> state_event list"
where
  "events_page store start fin state_code parameter_key indicator_type after_seq limit =
     take limit (sort_key ev_seq (filter (\<lambda>e. ev_valid e \<and> start \<le> va_trade_date e \<and> va_trade_date e \<le> fin \<and>
       after_seq < ev_seq e \<and> selects state_code (va_code e) \<and>
       selects parameter_key (va_key e) \<and> selects indicator_type (va_indicator e)) (es_events store)))"

section \<open>Compression as a recursion over the observations\<close>

type_synonym since_map = "state_target \<Rightarrow> since_info option"

fun state_from :: "since_map \<Rightarrow> state_row list \<Rightarrow> since_map" where
  "state_from m [] = m"
| "state_from m (r # rs) = state_from (m(row_target r \<mapsto> since_of (m (row_target r)) r)) rs"

fun events_from :: "since_map \<Rightarrow> state_row list \<Rightarrow> (event_kind \<times> since_info \<times> state_row) list" where
  "events_from m [] = []"
| "events_from m (r # rs) = (case classify (m (row_target r)) r of None \<Rightarrow> [] | Some k \<Rightarrow> [(k, since_of (m (row_target r)) r, r)]) @
     events_from (m(row_target r \<mapsto> since_of (m (row_target r)) r)) rs"

lemma state_from_append: "state_from m (xs @ ys) = state_from (state_from m xs) ys"
  by (induction xs arbitrary: m) auto

lemma events_from_append: "events_from m (xs @ ys) = events_from m xs @ events_from (state_from m xs) ys"
  by (induction xs arbitrary: m) auto

lemma events_from_rows: "(k, s, r) \<in> set (events_from m rs) \<Longrightarrow> r \<in> set rs"
  by (induction m rs rule: events_from.induct) (auto split: option.splits)

lemma compress_row_sel [simp]:
  "co_current (compress_row revision r c) = dict_set (row_target r) (since_of (dict_get (co_current c) (row_target r)) r) (co_current c)"
  "co_last (compress_row revision r c) =
     dict_set (row_target r) (row_values revision (since_of (dict_get (co_current c) (row_target r)) r) r) (co_last c)"
  by (simp_all add: compress_row_def Let_def)

lemma compress_current: "dict_get (co_current (fold (compress_row revision) rows c)) = state_from (dict_get (co_current c)) rows"
  by (induction rows arbitrary: c) auto

lemma compress_events:
  "co_events (fold (compress_row revision) rows c) =
     co_events c @ map (\<lambda>(k, s, r). (k, row_values revision s r)) (events_from (dict_get (co_current c)) rows)"
  by (induction rows arbitrary: c) (auto simp: compress_row_def Let_def split: option.splits)

lemma compress_last:
  "dict_get (co_last (fold (compress_row revision) rows c)) t =
     (case filter (\<lambda>r. row_target r = t) (rev rows) of [] \<Rightarrow> dict_get (co_last c) t
      | r # _ \<Rightarrow> Some (row_values revision (the (state_from (dict_get (co_current c)) rows t)) r))"
  by (induction rows arbitrary: c rule: rev_induct) (auto simp: compress_current state_from_append split: list.splits)

lemma since_of_unchanged: "classify (Some p) r = None \<Longrightarrow> since_of (Some p) r = p"
  by (auto simp: classify_def since_of_def split: if_splits)

lemma classify_None: "classify m r = None \<Longrightarrow> \<exists>p. m = Some p"
  by (auto simp: classify_def split: option.splits)

lemma since_of_status [simp]: "si_status (since_of m r) = sv_status r"
  by (auto simp: since_of_def Let_def split: option.splits)

text \<open>What is remembered of a target is what its last event says.\<close>

definition event_infos :: "(event_kind \<times> since_info \<times> state_row) list \<Rightarrow> (state_target \<times> since_info) list" where
  "event_infos es = map (\<lambda>(k, s, r). (row_target r, s)) es"

lemma state_from_events: "state_from Map.empty rows = map_of (rev (event_infos (events_from Map.empty rows)))"
proof (induction rows rule: rev_induct)
  case Nil
  then show ?case by (simp add: event_infos_def)
next
  case (snoc r rows)
  let ?m = "state_from Map.empty rows"
  show ?case
  proof (cases "classify (?m (row_target r)) r")
    case None
    then obtain p where "?m (row_target r) = Some p" by (auto dest: classify_None)
    then have "?m(row_target r \<mapsto> since_of (?m (row_target r)) r) = ?m" using None since_of_unchanged by auto
    then show ?thesis using None snoc by (simp add: state_from_append events_from_append)
  next
    case (Some k)
    then show ?thesis using snoc by (simp add: state_from_append events_from_append event_infos_def)
  qed
qed

lemma events_from_status: "(k, s, r) \<in> set (events_from m rs) \<Longrightarrow> si_status s = sv_status r"
  by (induction m rs rule: events_from.induct) (auto split: option.splits)

lemma events_from_sorted:
  "sorted (map f rs) \<Longrightarrow> sorted (map (\<lambda>(k, s, r). f r) (events_from m rs))"
  by (induction m rs rule: events_from.induct) (auto dest: events_from_rows split: option.splits)

lemma state_from_status:
  "map_option si_status (state_from m rows t) =
     (case filter (\<lambda>r. row_target r = t) (rev rows) of [] \<Rightarrow> map_option si_status (m t) | r # _ \<Rightarrow> Some (sv_status r))"
  by (induction rows rule: rev_induct) (auto simp: state_from_append)

section \<open>The timeline a store shows\<close>

definition esig :: "((pyval \<times> pyval) list \<Rightarrow> string) \<Rightarrow> event_kind \<times> since_info \<times> state_row \<Rightarrow> event_signature" where
  "esig dumps = (\<lambda>(k, s, r). signature dumps k (row_values 0 s r))"

lemma signature_revision: "signature dumps k (row_values revision s r) = esig dumps (k, s, r)"
  by (simp add: signature_def row_values_def esig_def)

definition timeline :: "((pyval \<times> pyval) list \<Rightarrow> string) \<Rightarrow> state_row list \<Rightarrow> event_signature list" where
  "timeline dumps rows = map (esig dumps) (events_from Map.empty (sort_key row_order rows))"

definition valid_events :: "event_store \<Rightarrow> state_event list" where
  "valid_events store = filter ev_valid (es_events store)"

definition event_sig :: "((pyval \<times> pyval) list \<Rightarrow> string) \<Rightarrow> state_event \<Rightarrow> event_signature" where
  "event_sig dumps e = signature dumps (ev_kind e) e"

definition store_ok :: "event_store \<Rightarrow> bool" where
  "store_ok store \<longleftrightarrow> sorted_wrt (<) (map ev_seq (es_events store)) \<and> (\<forall>q \<in> set (map ev_seq (es_events store)). q \<le> es_sequence store)"

definition covered :: "event_store \<Rightarrow> state_row list \<Rightarrow> bool" where
  "covered store rows \<longleftrightarrow> (\<forall>r \<in> set rows. \<exists>v. dict_get (es_current store) (row_target r) = Some v \<and> sv_trade_date r \<le> va_trade_date v)"

definition info_of :: "state_event \<Rightarrow> since_info" where
  "info_of e = \<lparr>si_status = va_status e, si_since = va_since_date e, si_observed = va_observed_from e, si_exact = va_since_is_exact e\<rparr>"

lemma esig_date: "fst (fst (esig dumps x)) = sv_trade_date (snd (snd x))"
  by (simp add: esig_def signature_def row_values_def split_beta)

lemma event_sig_date: "fst (fst (event_sig dumps e)) = va_trade_date e"
  by (simp add: event_sig_def signature_def)

lemma esig_info:
  assumes "event_sig dumps e = esig dumps (k, s, r)" "si_status s = sv_status r"
  shows "(event_target e, info_of e) = (row_target r, s)"
  using assms by (cases s) (simp add: event_sig_def esig_def signature_def row_values_def event_target_def row_target_def info_of_def)

lemma sigs_infos:
  assumes "map (event_sig dumps) es = map (esig dumps) xs" "\<And>k s r. (k, s, r) \<in> set xs \<Longrightarrow> si_status s = sv_status r"
  shows "map (\<lambda>e. (event_target e, info_of e)) es = event_infos xs"
  using assms
proof (induction es arbitrary: xs)
  case Nil
  then show ?case by (simp add: event_infos_def)
next
  case (Cons e es)
  then obtain k s r ys where xs: "xs = (k, s, r) # ys" by (metis list.map_disc_iff list.distinct(1) prod_cases3 list.exhaust)
  have "(event_target e, info_of e) = (row_target r, s)" using Cons.prems xs by (intro esig_info) auto
  moreover have "map (\<lambda>e. (event_target e, info_of e)) es = event_infos ys" using Cons xs by auto
  ultimately show ?case using xs by (simp add: event_infos_def)
qed

lemma sigs_dates:
  "map (event_sig dumps) es = map (esig dumps) xs \<Longrightarrow> map va_trade_date es = map (\<lambda>(k, s, r). sv_trade_date r) xs"
proof -
  assume "map (event_sig dumps) es = map (esig dumps) xs"
  then have "map (fst \<circ> fst) (map (event_sig dumps) es) = map (fst \<circ> fst) (map (esig dumps) xs)" by simp
  then show ?thesis by (simp add: comp_def event_sig_date esig_date split_beta)
qed

lemma sigs_orders:
  "map (event_sig dumps) es = map (esig dumps) xs \<Longrightarrow>
     map (\<lambda>e. (va_trade_date e, va_code e, va_key e)) es = map (\<lambda>(k, s, r). row_order r) xs"
proof -
  let ?key = "\<lambda>g :: event_signature. (fst (fst g), fst (snd (fst g)), fst (snd (snd (fst g))))"
  assume "map (event_sig dumps) es = map (esig dumps) xs"
  then have "map ?key (map (event_sig dumps) es) = map ?key (map (esig dumps) xs)" by simp
  then show ?thesis by (simp add: comp_def event_sig_def esig_def signature_def row_values_def row_order_def split_beta)
qed

lemma latest_event_last:
  "sorted_wrt event_before es \<Longrightarrow> latest_event es = (if es = [] then None else Some (last es))"
  by (induction es rule: rev_induct) (auto simp: latest_event_def sorted_wrt_append)

lemma map_of_rev_last:
  "map_of (rev (map (\<lambda>e. (f e, g e)) es)) t = (let fs = filter (\<lambda>e. f e = t) es in if fs = [] then None else Some (g (last fs)))"
  by (induction es rule: rev_induct) (auto simp: Let_def)

text \<open>The anchors of a partial publication are what the loop would remember at that day.\<close>

lemma anchors_exact:
  assumes "sorted_wrt event_before es" "es = filter (\<lambda>e. ev_valid e \<and> va_trade_date e \<le> d) (es_events store)"
  shows "dict_get (map anchor_of (seed_at store d)) t = map_of (rev (map (\<lambda>e. (event_target e, info_of e)) es)) t"
proof -
  let ?f = "\<lambda>t. filter (\<lambda>e. event_target e = t) es"
  have latest: "latest_event (?f t) = Some (last (?f t))" "event_target (last (?f t)) = t" if "t \<in> set (map event_target es)" for t
  proof -
    have ne: "?f t \<noteq> []" using that by (auto simp: filter_empty_conv)
    then show "latest_event (?f t) = Some (last (?f t))" using latest_event_last [of "?f t"] assms(1) by (simp add: sorted_wrt_filter)
    show "event_target (last (?f t)) = t" using last_in_set [OF ne] by auto
  qed
  have anchor: "anchor_of (observation_row e (Some d)) = (event_target e, info_of e)" for e
    by (simp add: anchor_of_def observation_row_def row_target_def event_target_def info_of_def)
  have "map anchor_of (seed_at store d) = map (\<lambda>t. (t, info_of (last (?f t)))) (remdups (map event_target es))"
    unfolding seed_at_def Let_def assms(2) [symmetric] map_map
    by (rule map_cong) (use latest in \<open>auto simp: anchor\<close>)
  then have "dict_get (map anchor_of (seed_at store d)) t = (if t \<in> set (map event_target es) then Some (info_of (last (?f t))) else None)"
    by (simp add: map_of_map_restrict)
  also have "\<dots> = map_of (rev (map (\<lambda>e. (event_target e, info_of e)) es)) t"
    unfolding map_of_rev_last Let_def by (auto simp: filter_empty_conv)
  finally show ?thesis .
qed

section \<open>What a publication leaves\<close>

lemma numbered_sel:
  assumes "e \<in> set (numbered prev sequence es)"
  shows "ev_valid e \<and> sequence < ev_seq e \<and> ev_seq e \<le> sequence + int (length es) \<and>
    (ev_restatement e \<longleftrightarrow> prev = None \<or> va_trade_date e \<le> the prev)"
  using assms by (auto simp: numbered_def state_values.defs state_event.defs in_set_enumerate_eq)

lemma numbered_sigs: "map (event_sig dumps) (numbered prev sequence es) = map (\<lambda>(k, v). signature dumps k v) es"
proof -
  have "map (event_sig dumps) (numbered prev sequence es) = map ((\<lambda>(k, v). signature dumps k v) \<circ> snd) (enumerate 0 es)"
    unfolding numbered_def map_map
    by (intro map_cong) (auto simp: event_sig_def signature_def state_values.defs state_event.defs)
  then show ?thesis by (simp add: map_map [symmetric])
qed

lemma numbered_sorted: "sorted_wrt (<) (map ev_seq (numbered prev sequence es))"
  by (auto simp: sorted_wrt_iff_nth_less numbered_def state_values.defs state_event.defs nth_enumerate_eq split_beta)

text \<open>The events of a publication, as the recursion gives them.\<close>

definition new_events :: "int option \<Rightarrow> int \<Rightarrow> event_store \<Rightarrow> state_row list \<Rightarrow> (event_kind \<times> since_info \<times> state_row) list" where
  "new_events start through store observations =
     (let ordered = sort_key row_order observations in
      events_from (dict_get (anchors_for start (replace_from start through ordered) store)) ordered)"

lemma compress_new:
  "co_events (compress revision (anchors_for start (replace_from start through (sort_key row_order observations)) store) (sort_key row_order observations)) =
     map (\<lambda>(k, s, r). (k, row_values revision s r)) (new_events start through store observations)"
  by (simp add: compress_def compress_events new_events_def Let_def)

definition publication_unchanged ::
  "((pyval \<times> pyval) list \<Rightarrow> string) \<Rightarrow> int option \<Rightarrow> int \<Rightarrow> event_store \<Rightarrow> state_row list \<Rightarrow> bool" where
  "publication_unchanged dumps start through store observations \<longleftrightarrow>
     map (event_sig dumps) (old_events start (replace_from start through (sort_key row_order observations)) through store) =
     map (esig dumps) (new_events start through store observations)"

lemma publish_events_run:
  assumes "publish_events dumps revision store observations start through = Ok (store', n)"
  shows "previous_through store = Some p \<Longrightarrow> p \<le> through"
    and "es_events store' = (if publication_unchanged dumps start through store observations then es_events store
       else invalidated start (replace_from start through (sort_key row_order observations)) through (es_events store) @
         numbered (previous_through store) (es_sequence store)
           (map (\<lambda>(k, s, r). (k, row_values revision s r)) (new_events start through store observations)))"
    and "n = (if publication_unchanged dumps start through store observations then 0 else length (new_events start through store observations))"
    and "es_sequence store' = es_sequence store + int n"
    and "es_current store' = fold (\<lambda>(t, v). dict_set t v) (co_last (compress revision
       (anchors_for start (replace_from start through (sort_key row_order observations)) store) (sort_key row_order observations)))
       (if start = None then [] else es_current store)"
proof -
  have u: "(map (\<lambda>e. signature dumps (ev_kind e) e) es = map (\<lambda>(kind, v). signature dumps kind v)
      (map (\<lambda>(k, s, r). (k, row_values revision s r)) xs)) = (map (event_sig dumps) es = map (esig dumps) xs)" for es xs
    by (simp add: event_sig_def [abs_def] comp_def split_beta signature_revision)
  note run = assms [unfolded publish_events_def Let_def compress_new u publication_unchanged_def [symmetric]]
  show "previous_through store = Some p \<Longrightarrow> p \<le> through" using run by (auto split: if_splits)
  show "es_events store' = (if publication_unchanged dumps start through store observations then es_events store
       else invalidated start (replace_from start through (sort_key row_order observations)) through (es_events store) @
         numbered (previous_through store) (es_sequence store)
           (map (\<lambda>(k, s, r). (k, row_values revision s r)) (new_events start through store observations)))"
    "n = (if publication_unchanged dumps start through store observations then 0 else length (new_events start through store observations))"
    "es_sequence store' = es_sequence store + int n"
    "es_current store' = fold (\<lambda>(t, v). dict_set t v) (co_last (compress revision
       (anchors_for start (replace_from start through (sort_key row_order observations)) store) (sort_key row_order observations)))
       (if start = None then [] else es_current store)"
    using run by (auto split: if_splits)
qed

lemma invalidated_seqs: "map ev_seq (invalidated start from_day through es) = map ev_seq es"
  by (simp add: invalidated_def)

lemma publish_store_ok:
  assumes "publish_events dumps revision store observations start through = Ok (store', n)" "store_ok store"
  shows "store_ok store'"
proof (cases "publication_unchanged dumps start through store observations")
  case True
  then show ?thesis using publish_events_run(2-4) [OF assms(1)] assms(2) by (simp add: store_ok_def)
next
  case False
  let ?co = "map (\<lambda>(k, s, r). (k, row_values revision s r)) (new_events start through store observations)"
  let ?new = "numbered (previous_through store) (es_sequence store) ?co"
  have seqs: "map ev_seq (es_events store') = map ev_seq (es_events store) @ map ev_seq ?new"
    unfolding publish_events_run(2) [OF assms(1)] using False by (simp add: invalidated_seqs)
  have n: "es_sequence store' = es_sequence store + int (length ?co)"
    using publish_events_run(3,4) [OF assms(1)] False by simp
  have range: "es_sequence store < q \<and> q \<le> es_sequence store'" if "q \<in> set (map ev_seq ?new)" for q
    using that numbered_sel [of _ "previous_through store" "es_sequence store" ?co] unfolding n by auto
  have "sorted_wrt (<) (map ev_seq (es_events store'))"
    unfolding seqs sorted_wrt_append using assms(2) numbered_sorted range by (fastforce simp: store_ok_def)
  moreover have "q \<le> es_sequence store'" if "q \<in> set (map ev_seq (es_events store'))" for q
    using that range assms(2) n unfolding seqs by (fastforce simp: store_ok_def)
  ultimately show ?thesis by (simp add: store_ok_def)
qed

section \<open>Incremental publication shows the timeline of all observations\<close>

lemma sorted_split: "sorted (map f xs) \<Longrightarrow> filter (\<lambda>x. f x < s) xs @ filter (\<lambda>x. \<not> f x < s) xs = xs"
proof (induction xs)
  case (Cons x xs)
  then show ?case
  proof (cases "f x < s")
    case False
    then have "filter (\<lambda>x. f x < s) xs = []" using Cons.prems by (auto simp: filter_empty_conv)
    then show ?thesis using Cons False by simp
  qed simp
qed simp

lemma row_order_dates: "sorted (map sv_trade_date (sort_key row_order rows))"
proof -
  have "sorted (map fst (map row_order (sort_key row_order rows)))"
    by (rule sorted_map_mono [of _ fst, simplified]) (auto simp: less_eq_prod_def mono_on_def)
  then show ?thesis by (simp add: comp_def row_order_def)
qed

lemma sort_rows_split:
  assumes "\<forall>r \<in> set xs. sv_trade_date r < s" "\<forall>r \<in> set ys. \<not> sv_trade_date r < s"
  shows "sort_key row_order (xs @ ys) = sort_key row_order xs @ sort_key row_order ys"
proof -
  have "sort_key row_order (xs @ ys) = filter (\<lambda>r. sv_trade_date r < s) (sort_key row_order (xs @ ys)) @
      filter (\<lambda>r. \<not> sv_trade_date r < s) (sort_key row_order (xs @ ys))"
    by (rule sorted_split [OF row_order_dates, symmetric])
  also have "\<dots> = sort_key row_order (filter (\<lambda>r. sv_trade_date r < s) (xs @ ys)) @ sort_key row_order (filter (\<lambda>r. \<not> sv_trade_date r < s) (xs @ ys))"
    by (simp only: filter_sort)
  also have "filter (\<lambda>r. sv_trade_date r < s) (xs @ ys) = xs" using assms by (simp add: filter_id_conv filter_empty_conv)
  also have "filter (\<lambda>r. \<not> sv_trade_date r < s) (xs @ ys) = ys" using assms by (simp add: filter_id_conv filter_empty_conv)
  finally show ?thesis .
qed

lemma shows_sorted:
  assumes "store_ok store" "map (event_sig dumps) (valid_events store) = timeline dumps rows"
  shows "sorted (map va_trade_date (valid_events store))" "sorted_wrt event_before (valid_events store)"
    "sorted (map (\<lambda>e. (va_trade_date e, va_code e, va_key e)) (valid_events store))"
proof -
  note sigs = assms(2) [unfolded timeline_def]
  show dates: "sorted (map va_trade_date (valid_events store))"
    unfolding sigs_dates [OF sigs] by (rule events_from_sorted [OF row_order_dates])
  show "sorted (map (\<lambda>e. (va_trade_date e, va_code e, va_key e)) (valid_events store))"
    unfolding sigs_orders [OF sigs] by (rule events_from_sorted) simp
  have "sorted_wrt (\<lambda>a b. ev_seq a < ev_seq b) (valid_events store)"
    using assms(1) unfolding valid_events_def by (intro sorted_wrt_filter) (simp add: store_ok_def sorted_wrt_map)
  moreover have "sorted_wrt (\<lambda>a b. va_trade_date a \<le> va_trade_date b) (valid_events store)" using dates by (simp add: sorted_wrt_map)
  ultimately show "sorted_wrt event_before (valid_events store)"
    by (auto simp: sorted_wrt_iff_nth_less event_before_def less_eq_prod_def less_le)
qed

lemma covered_through:
  assumes "covered store rows" "r \<in> set rows"
  shows "\<exists>p. previous_through store = Some p \<and> sv_trade_date r \<le> p"
proof -
  let ?ds = "map va_trade_date (map snd (es_current store))"
  obtain v where v: "dict_get (es_current store) (row_target r) = Some v" "sv_trade_date r \<le> va_trade_date v"
    using assms by (auto simp: covered_def)
  then have mem: "va_trade_date v \<in> set ?ds" by (force dest: map_of_SomeD)
  then have "previous_through store = Some (Max (set ?ds))" unfolding previous_through_def by (auto split: list.splits)
  moreover have "va_trade_date v \<le> Max (set ?ds)" using mem by (intro Max_ge) auto
  ultimately show ?thesis using v(2) by auto
qed

lemma valid_dates_bounded:
  assumes "map (event_sig dumps) (valid_events store) = timeline dumps rows" "covered store rows"
    and "\<And>p. previous_through store = Some p \<Longrightarrow> p \<le> through" "e \<in> set (valid_events store)"
  shows "va_trade_date e \<le> through"
proof -
  have "va_trade_date e \<in> set (map (\<lambda>(k, s, r). sv_trade_date r) (events_from Map.empty (sort_key row_order rows)))"
    using assms(4) unfolding sigs_dates [OF assms(1) [unfolded timeline_def], symmetric] by simp
  then obtain r where r: "r \<in> set rows" "va_trade_date e = sv_trade_date r"
    by (auto dest: events_from_rows)
  then show ?thesis using covered_through [OF assms(2) r(1)] assms(3) by fastforce
qed

text \<open>The events before a day are those of the observations before it.\<close>

lemma shows_prefix:
  assumes "map (event_sig dumps) (valid_events store) = timeline dumps rows"
  shows "map (event_sig dumps) (filter (\<lambda>e. va_trade_date e < s) (valid_events store)) =
    map (esig dumps) (events_from Map.empty (sort_key row_order (filter (\<lambda>r. sv_trade_date r < s) rows)))"
proof -
  let ?S = "sort_key row_order rows" and ?p = "\<lambda>r. sv_trade_date r < s"
  let ?E1 = "events_from Map.empty (filter ?p ?S)"
    and ?E2 = "events_from (state_from Map.empty (filter ?p ?S)) (filter (\<lambda>r. \<not> ?p r) ?S)"
  have split: "events_from Map.empty ?S = ?E1 @ ?E2"
    using sorted_split [OF row_order_dates, of s rows] events_from_append by metis
  have "map (event_sig dumps) (filter (\<lambda>e. va_trade_date e < s) (valid_events store)) =
      filter (\<lambda>g. fst (fst g) < s) (map (event_sig dumps) (valid_events store))"
    by (simp add: filter_map comp_def event_sig_date)
  also have "\<dots> = map (esig dumps) (filter (\<lambda>x. ?p (snd (snd x))) (?E1 @ ?E2))"
    unfolding assms timeline_def split by (simp add: filter_map comp_def esig_date)
  also have "filter (\<lambda>x. ?p (snd (snd x))) (?E1 @ ?E2) = ?E1"
  proof -
    have "filter (\<lambda>x. ?p (snd (snd x))) ?E1 = ?E1" by (rule filter_True) (auto dest: events_from_rows)
    moreover have "filter (\<lambda>x. ?p (snd (snd x))) ?E2 = []" by (rule filter_False) (auto dest: events_from_rows)
    ultimately show ?thesis by simp
  qed
  finally show ?thesis by (simp add: filter_sort)
qed

text \<open>The rows a store stands for after a publication.\<close>

definition published_rows :: "int option \<Rightarrow> state_row list \<Rightarrow> state_row list \<Rightarrow> state_row list" where
  "published_rows start rows observations = (case start of None \<Rightarrow> observations
     | Some s \<Rightarrow> filter (\<lambda>r. sv_trade_date r < s) rows @ observations)"

definition kept_events :: "int option \<Rightarrow> event_store \<Rightarrow> state_event list" where
  "kept_events start store = (case start of None \<Rightarrow> [] | Some s \<Rightarrow> filter (\<lambda>e. va_trade_date e < s) (valid_events store))"

definition window_events :: "int option \<Rightarrow> event_store \<Rightarrow> state_event list" where
  "window_events start store = (case start of None \<Rightarrow> valid_events store
     | Some s \<Rightarrow> filter (\<lambda>e. \<not> va_trade_date e < s) (valid_events store))"

lemma timeline_published:
  assumes "store_ok store" "map (event_sig dumps) (valid_events store) = timeline dumps rows"
    and "\<And>s. start = Some s \<Longrightarrow> \<forall>r \<in> set observations. s \<le> sv_trade_date r"
  shows "timeline dumps (published_rows start rows observations) =
    map (event_sig dumps) (kept_events start store) @ map (esig dumps) (new_events start through store observations)"
proof (cases start)
  case None
  then show ?thesis by (simp add: timeline_def published_rows_def kept_events_def new_events_def anchors_for_def Let_def)
next
  case (Some s)
  let ?P = "filter (\<lambda>r. sv_trade_date r < s) rows" and ?K = "filter (\<lambda>e. va_trade_date e < s) (valid_events store)"
  let ?E = "events_from Map.empty (sort_key row_order ?P)"
  note prefix = shows_prefix [OF assms(2), of s]
  have K: "?K = filter (\<lambda>e. ev_valid e \<and> va_trade_date e \<le> s - 1) (es_events store)"
    by (auto simp: valid_events_def intro: filter_cong)
  have "sorted_wrt event_before ?K" by (rule sorted_wrt_filter [OF shows_sorted(2) [OF assms(1,2)]])
  then have "dict_get (map anchor_of (seed_at store (s - 1))) = map_of (rev (map (\<lambda>e. (event_target e, info_of e)) ?K))"
    using anchors_exact [OF _ K] by auto
  also have "\<dots> = map_of (rev (event_infos ?E))"
    by (subst sigs_infos [OF prefix]) (auto dest: events_from_status)
  also have "\<dots> = state_from Map.empty (sort_key row_order ?P)" by (rule state_from_events [symmetric])
  finally have anchors: "dict_get (anchors_for start s store) = state_from Map.empty (sort_key row_order ?P)"
    using Some by (simp add: anchors_for_def)
  have "sort_key row_order (?P @ observations) = sort_key row_order ?P @ sort_key row_order observations"
    using assms(3) [OF Some] by (intro sort_rows_split [of _ s]) auto
  then have "timeline dumps (?P @ observations) = map (esig dumps) ?E @ map (esig dumps) (new_events start through store observations)"
    using anchors Some by (simp add: timeline_def events_from_append new_events_def replace_from_def Let_def)
  then show ?thesis using Some prefix by (simp add: published_rows_def kept_events_def)
qed

lemma window_split:
  assumes "store_ok store" "map (event_sig dumps) (valid_events store) = timeline dumps rows"
    and "\<And>e. e \<in> set (valid_events store) \<Longrightarrow> va_trade_date e \<le> through"
  shows "kept_events start store @ window_events start store = valid_events store"
    "old_events start (replace_from start through ordered) through store = window_events start store"
    "filter ev_valid (invalidated start (replace_from start through ordered) through (es_events store)) = kept_events start store"
proof -
  note sorted = shows_sorted [OF assms(1,2)]
  show "kept_events start store @ window_events start store = valid_events store"
    using sorted_split [OF sorted(1)] by (simp add: kept_events_def window_events_def split: option.splits)
  have w: "filter (in_window start (replace_from start through ordered) through) (es_events store) = window_events start store"
    using assms(3) by (auto simp: window_events_def valid_events_def in_window_def replace_from_def intro!: filter_cong split: option.splits)
  have "sorted (map (\<lambda>e. (va_trade_date e, va_code e, va_key e)) (window_events start store))"
    using sorted(3) by (auto simp: window_events_def sorted_wrt_map intro: sorted_wrt_filter split: option.splits)
  then show "old_events start (replace_from start through ordered) through store = window_events start store"
    unfolding old_events_def w by (rule sort_key_id_if_sorted)
  have "filter ev_valid (invalidated start f through es) = filter (\<lambda>e. ev_valid e \<and> \<not> in_window start f through e) es" for f es
    by (induction es) (auto simp: invalidated_def)
  then show "filter ev_valid (invalidated start (replace_from start through ordered) through (es_events store)) = kept_events start store"
    using assms(3) by (auto simp: kept_events_def valid_events_def in_window_def replace_from_def filter_empty_conv intro!: filter_cong split: option.splits)
qed

lemma publish_shows:
  assumes run: "publish_events dumps revision store observations start through = Ok (store', n)"
    and "store_ok store" "map (event_sig dumps) (valid_events store) = timeline dumps rows" "covered store rows"
    and "\<And>s. start = Some s \<Longrightarrow> \<forall>r \<in> set observations. s \<le> sv_trade_date r"
  shows "map (event_sig dumps) (valid_events store') = timeline dumps (published_rows start rows observations)"
proof -
  let ?new = "new_events start through store observations"
  let ?co = "map (\<lambda>(k, s, r). (k, row_values revision s r)) ?new"
  note bounded = valid_dates_bounded [OF assms(3,4) publish_events_run(1) [OF run]]
  note window = window_split(1) [OF assms(2,3) bounded, of start]
    window_split(2,3) [OF assms(2,3) bounded, where start = start and ordered = "sort_key row_order observations"]
  note goal = timeline_published [OF assms(2,3,5), where through = through]
  show ?thesis
  proof (cases "publication_unchanged dumps start through store observations")
    case True
    then have "map (event_sig dumps) (window_events start store) = map (esig dumps) ?new"
      by (simp only: publication_unchanged_def window)
    moreover have "valid_events store' = kept_events start store @ window_events start store"
      using publish_events_run(2) [OF run] True window(1) by (simp add: valid_events_def)
    ultimately show ?thesis by (simp add: goal)
  next
    case False
    have "filter ev_valid (numbered (previous_through store) (es_sequence store) ?co) = numbered (previous_through store) (es_sequence store) ?co"
      by (rule filter_True) (use numbered_sel in blast)
    then have "valid_events store' = kept_events start store @ numbered (previous_through store) (es_sequence store) ?co"
      using publish_events_run(2) [OF run] False window(3) by (simp add: valid_events_def)
    moreover have "map (\<lambda>(k, v). signature dumps k v) ?co = map (esig dumps) ?new"
      by (simp add: comp_def split_beta signature_revision)
    ultimately show ?thesis by (simp add: goal numbered_sigs)
  qed
qed

lemma fold_dict_get: "dict_get (fold (\<lambda>(t, v). dict_set t v) l d) = dict_get d ++ map_of (rev l)"
  by (induction l arbitrary: d) (auto simp: map_add_def fun_eq_iff split: option.splits)

lemma compress_last_distinct: "distinct (dict_keys (co_last c)) \<Longrightarrow> distinct (dict_keys (co_last (fold (compress_row revision) rows c)))"
  by (induction rows arbitrary: c) (simp_all add: dict_set_distinct)

lemma last_matching:
  "sorted (map f xs) \<Longrightarrow> x \<in> set xs \<Longrightarrow> P x \<Longrightarrow> \<exists>y ys. filter P (rev xs) = y # ys \<and> P y \<and> y \<in> set xs \<and> f x \<le> f y"
proof (induction xs rule: rev_induct)
  case (snoc z xs)
  then show ?case by (cases "P z") (auto simp: sorted_append)
qed simp

lemma publish_current:
  assumes "publish_events dumps revision store observations start through = Ok (store', n)" "r \<in> set observations"
  shows "\<exists>v. dict_get (es_current store') (row_target r) = Some v \<and> sv_trade_date r \<le> va_trade_date v"
proof -
  let ?S = "sort_key row_order observations" and ?a = "anchors_for start (replace_from start through (sort_key row_order observations)) store"
  let ?last = "co_last (compress revision ?a ?S)"
  have "r \<in> set ?S" using assms(2) by simp
  then obtain q qs where q: "filter (\<lambda>q. row_target q = row_target r) (rev ?S) = q # qs" "sv_trade_date r \<le> sv_trade_date q"
    using last_matching [OF row_order_dates, of r observations "\<lambda>q. row_target q = row_target r"] by auto
  then obtain i where v: "dict_get ?last (row_target r) = Some (row_values revision i q)"
    by (simp add: compress_def compress_last)
  have d: "distinct (dict_keys ?last)" unfolding compress_def by (rule compress_last_distinct) simp
  then have "map_of (rev ?last) = map_of ?last" by (subst map_of_inject_set) (simp_all add: rev_map [symmetric])
  then have "map_of (rev ?last) (row_target r) = Some (row_values revision i q)" using v by simp
  then have "dict_get (es_current store') (row_target r) = Some (row_values revision i q)"
    unfolding publish_events_run(5) [OF assms(1)] fold_dict_get by (simp add: map_add_Some_iff)
  then show ?thesis using q(2) by (simp add: row_values_def)
qed

lemma publish_current_other:
  assumes "publish_events dumps revision store observations (Some s) through = Ok (store', n)" "t \<notin> row_target ` set observations"
  shows "dict_get (es_current store') t = dict_get (es_current store) t"
proof -
  let ?S = "sort_key row_order observations" and ?a = "anchors_for (Some s) (replace_from (Some s) through (sort_key row_order observations)) store"
  let ?last = "co_last (compress revision ?a ?S)"
  have "filter (\<lambda>r. row_target r = t) (rev ?S) = []" using assms(2) by (auto simp: filter_empty_conv)
  then have "dict_get ?last t = None" by (simp add: compress_def compress_last)
  then have "map_of (rev ?last) t = None" by (simp add: map_of_eq_None_iff)
  then show ?thesis unfolding publish_events_run(5) [OF assms(1)] fold_dict_get by (simp add: map_add_def)
qed

lemma publish_covered:
  assumes run: "publish_events dumps revision store observations start through = Ok (store', n)" and "covered store rows"
    and "\<And>s. start = Some s \<Longrightarrow> \<forall>r \<in> set observations. s \<le> sv_trade_date r"
  shows "covered store' (published_rows start rows observations)"
proof -
  have "\<exists>v. dict_get (es_current store') (row_target r) = Some v \<and> sv_trade_date r \<le> va_trade_date v"
    if r: "r \<in> set rows" "start = Some s" "sv_trade_date r < s" for r s
  proof (cases "row_target r \<in> row_target ` set observations")
    case True
    then obtain q where q: "q \<in> set observations" "row_target q = row_target r" by auto
    then have "s \<le> sv_trade_date q" using assms(3) r(2) by blast
    then show ?thesis using publish_current [OF run q(1)] q(2) r(3) by fastforce
  next
    case False
    then show ?thesis using publish_current_other [of dumps revision store observations s through store' n "row_target r"] run assms(2) r
      by (auto simp: covered_def)
  qed
  then show ?thesis
    using publish_current [OF run] by (auto simp: covered_def published_rows_def split: option.splits)
qed

section \<open>Properties of every history of publications\<close>

text \<open>
  A store and the observations it stands for: a full publication replaces them, a partial one replaces
  those from its first day on.
\<close>

inductive published :: "((pyval \<times> pyval) list \<Rightarrow> string) \<Rightarrow> event_store \<Rightarrow> state_row list \<Rightarrow> bool" for dumps where
  nothing: "published dumps empty_store []"
| publication: "published dumps store rows \<Longrightarrow>
    publish_events dumps revision store observations start through = Ok (store', n) \<Longrightarrow>
    (\<And>s. start = Some s \<Longrightarrow> \<forall>r \<in> set observations. s \<le> sv_trade_date r) \<Longrightarrow>
    published dumps store' (published_rows start rows observations)"

lemma published_ok:
  "published dumps store rows \<Longrightarrow> store_ok store \<and> map (event_sig dumps) (valid_events store) = timeline dumps rows \<and> covered store rows"
proof (induction rule: published.induct)
  case nothing
  then show ?case by (simp add: store_ok_def empty_store_def valid_events_def timeline_def covered_def)
next
  case (publication store rows revision observations start through store' n)
  note run = publication.hyps(2)
  from publication.IH show ?case
    using publish_store_ok [OF run] publish_shows [OF run _ _ _ publication.hyps(3)] publish_covered [OF run _ publication.hyps(3)] by simp
qed

text \<open>
  C4: Publishing piece by piece is rebuilding from scratch. Whatever full and partial publications
  produced the store, its valid events are, in order, the events of one publication of all the
  observations it stands for into an empty store: same day, target, indicator, status, kind, history
  of the status, and the same texts of parameters and metadata. Only the revision, the numbering and
  the restatement mark may differ, and the mark is set on every event of the rebuilt store.
\<close>

theorem incremental_equals_rebuild:
  assumes "published dumps store rows" "publish_events dumps revision empty_store rows None through = Ok (rebuilt, n)"
  shows "map (\<lambda>e. signature dumps (ev_kind e) e) (valid_events store) = map (\<lambda>e. signature dumps (ev_kind e) e) (valid_events rebuilt) \<and>
    (\<forall>e \<in> set (es_events rebuilt). ev_restatement e)"
proof
  have "published dumps rebuilt (published_rows None [] rows)"
    by (rule published.publication [OF published.nothing assms(2)]) simp
  then have "map (event_sig dumps) (valid_events rebuilt) = timeline dumps rows"
    using published_ok by (fastforce simp: published_rows_def)
  then show "map (\<lambda>e. signature dumps (ev_kind e) e) (valid_events store) = map (\<lambda>e. signature dumps (ev_kind e) e) (valid_events rebuilt)"
    using published_ok [OF assms(1)] by (simp add: event_sig_def [abs_def])
  have marked: "\<forall>e \<in> set (numbered None sequence es). ev_restatement e" for sequence es
    by (auto simp: numbered_def state_event.defs state_values.defs)
  have "es_events rebuilt = [] \<or> (\<exists>es. es_events rebuilt = numbered None (es_sequence empty_store) es)"
    using assms(2) by (auto simp: publish_events_def Let_def previous_through_def empty_store_def invalidated_def split: if_splits)
  then show "\<forall>e \<in> set (es_events rebuilt). ev_restatement e" using marked by auto
qed

text \<open>
  C21: Storing only changes loses nothing. For every observation a store stands for, the last valid
  event of its target up to that day has the observed status, however many days ago the change was.
\<close>

theorem compressed_status_exact:
  assumes "published dumps store rows" "r \<in> set rows"
    and "\<And>q. q \<in> set rows \<Longrightarrow> row_order q = row_order r \<Longrightarrow> q = r"
  shows "\<exists>q \<in> set (seed_at store (sv_trade_date r)). row_target q = row_target r \<and> sv_status q = sv_status r"
proof -
  let ?d = "sv_trade_date r" and ?t = "row_target r"
  let ?P = "filter (\<lambda>q. sv_trade_date q < ?d + 1) rows"
  note ok = published_ok [OF assms(1)]
  let ?K = "filter (\<lambda>e. va_trade_date e < ?d + 1) (valid_events store)"
  have K: "?K = filter (\<lambda>e. ev_valid e \<and> va_trade_date e \<le> ?d) (es_events store)"
    by (auto simp: valid_events_def intro: filter_cong)
  have "sorted_wrt event_before ?K" using shows_sorted(2) ok by (blast intro: sorted_wrt_filter)
  then have "dict_get (map anchor_of (seed_at store ?d)) ?t = map_of (rev (map (\<lambda>e. (event_target e, info_of e)) ?K)) ?t"
    by (rule anchors_exact [OF _ K])
  also have "\<dots> = state_from Map.empty (sort_key row_order ?P) ?t"
    using shows_prefix [OF ok [THEN conjunct2, THEN conjunct1], of "?d + 1"]
    by (subst sigs_infos) (auto simp: state_from_events dest: events_from_status)
  finally have seed: "dict_get (map anchor_of (seed_at store ?d)) ?t = state_from Map.empty (sort_key row_order ?P) ?t" .
  have "r \<in> set (sort_key row_order ?P)" using assms(2) by simp
  then obtain q qs where q: "filter (\<lambda>q. row_target q = ?t) (rev (sort_key row_order ?P)) = q # qs" "row_target q = ?t"
      "q \<in> set ?P" "?d \<le> sv_trade_date q"
    using last_matching [OF row_order_dates, of r ?P "\<lambda>q. row_target q = ?t"] by auto
  then have "row_order q = row_order r" by (auto simp: row_order_def row_target_def)
  then have "q = r" using assms(3) q(3) by auto
  then have "map_option si_status (state_from Map.empty (sort_key row_order ?P) ?t) = Some (sv_status r)"
    using q(1) by (simp add: state_from_status)
  then obtain i where "dict_get (map anchor_of (seed_at store ?d)) ?t = Some i" "si_status i = sv_status r" using seed by auto
  then obtain o' where "o' \<in> set (seed_at store ?d)" "anchor_of o' = (?t, i)" "si_status i = sv_status r" by (auto dest!: map_of_SomeD)
  then show ?thesis by (auto simp: anchor_of_def)
qed

text \<open>
  C22: A replay is silent. Publishing again the observations a store already stands for, all of them or
  those from some day on, writes no event and keeps every event with its number.
\<close>

theorem replay_keeps_events:
  assumes "published dumps store rows"
    and "publish_events dumps revision store (case start of None \<Rightarrow> rows | Some s \<Rightarrow> filter (\<lambda>r. s \<le> sv_trade_date r) rows) start through
      = Ok (store', n)"
  shows "n = 0 \<and> es_events store' = es_events store \<and> es_sequence store' = es_sequence store"
proof -
  let ?obs = "case start of None \<Rightarrow> rows | Some s \<Rightarrow> filter (\<lambda>r. s \<le> sv_trade_date r) rows"
  note ok = published_ok [OF assms(1)]
  have later: "\<forall>r \<in> set ?obs. s \<le> sv_trade_date r" if "start = Some s" for s using that by simp
  have order: "sort_key row_order (published_rows start rows ?obs) = sort_key row_order rows"
  proof (cases start)
    case (Some s)
    have "sort_key row_order (filter (\<lambda>r. sv_trade_date r < s) rows @ filter (\<lambda>r. s \<le> sv_trade_date r) rows) =
        filter (\<lambda>r. sv_trade_date r < s) (sort_key row_order rows) @ filter (\<lambda>r. \<not> sv_trade_date r < s) (sort_key row_order rows)"
      by (subst sort_rows_split [of _ s]) (auto simp: filter_sort not_less)
    then show ?thesis using Some sorted_split [OF row_order_dates, of s rows] by (simp add: published_rows_def)
  qed (simp add: published_rows_def)
  note bounded = valid_dates_bounded [OF ok [THEN conjunct2, THEN conjunct1] ok [THEN conjunct2, THEN conjunct2] publish_events_run(1) [OF assms(2)]]
  note window = window_split(1) [OF ok [THEN conjunct1] ok [THEN conjunct2, THEN conjunct1] bounded, of start]
    window_split(2) [OF ok [THEN conjunct1] ok [THEN conjunct2, THEN conjunct1] bounded, where start = start and ordered = "sort_key row_order ?obs"]
  have "timeline dumps rows = map (event_sig dumps) (kept_events start store) @ map (esig dumps) (new_events start through store ?obs)"
    using timeline_published [OF ok [THEN conjunct1] ok [THEN conjunct2, THEN conjunct1] later, of start through] order
    by (simp add: timeline_def)
  moreover have "timeline dumps rows = map (event_sig dumps) (kept_events start store) @ map (event_sig dumps) (window_events start store)"
    using ok window(1) by (metis map_append)
  ultimately have "publication_unchanged dumps start through store ?obs"
    using window(2) by (simp add: publication_unchanged_def)
  then show ?thesis using publish_events_run(2-4) [OF assms(2)] by simp
qed

text \<open>
  C23: Only news looks new. Sequence numbers never repeat, and an event that a publication adds without
  the mark of a restatement is dated after every observation published before, so a correction of
  the past cannot pass for a fresh change.
\<close>

theorem unmarked_events_are_news:
  assumes "published dumps store rows" "publish_events dumps revision store observations start through = Ok (store', n)"
    and "e \<in> set (es_events store')" "es_sequence store < ev_seq e" "\<not> ev_restatement e"
  shows "sorted_wrt (<) (map ev_seq (es_events store')) \<and> (\<forall>r \<in> set rows. sv_trade_date r < va_trade_date e)"
proof -
  note ok = published_ok [OF assms(1)]
  let ?co = "map (\<lambda>(k, s, r). (k, row_values revision s r)) (new_events start through store observations)"
  have old: "ev_seq e \<le> es_sequence store" if "e \<in> set (invalidated start f through (es_events store))" for f
    using that ok by (auto simp: store_ok_def invalidated_def)
  have "e \<in> set (numbered (previous_through store) (es_sequence store) ?co)"
    using assms(3,4) publish_events_run(2) [OF assms(2)] old ok by (fastforce simp: store_ok_def split: if_splits)
  from numbered_sel [OF this] assms(5) obtain p where p: "previous_through store = Some p" "p < va_trade_date e" by auto
  have "sv_trade_date r < va_trade_date e" if "r \<in> set rows" for r
    using covered_through [of store rows r] ok that p by auto
  moreover have "store_ok store'" using publish_store_ok [OF assms(2)] ok by blast
  ultimately show ?thesis by (simp add: store_ok_def)
qed

section \<open>A concrete history\<close>

text \<open>A state is observed on day 1 and gone on day 2; the second day is published on its own.\<close>

definition demo_row :: "int \<Rightarrow> state_status \<Rightarrow> state_row" where
  "demo_row d st = \<lparr>sv_code = ''UP'', sv_key = ''k'', sv_indicator = ''MA'', sv_parameters = [], sv_status = st, sv_trade_date = d,
     sv_since_date = None, sv_observed_from = None, sv_since_is_exact = False, sv_source_revision = None, sv_metadata = []\<rparr>"

definition demo_values :: "int \<Rightarrow> state_status \<Rightarrow> int option \<Rightarrow> bool \<Rightarrow> int \<Rightarrow> state_values" where
  "demo_values d st since exact revision = \<lparr>va_code = ''UP'', va_key = ''k'', va_indicator = ''MA'', va_parameters = [], va_status = st,
     va_trade_date = d, va_since_date = since, va_observed_from = d, va_since_is_exact = exact, va_source_revision = revision,
     va_metadata = []\<rparr>"

definition demo_store :: event_store where
  "demo_store = \<lparr>es_events = [state_values.extend (demo_values 1 ACTIVE None False 1) (state_event.fields BASELINE 1 True True)],
     es_current = [((''UP'', ''k''), demo_values 1 ACTIVE None False 1)], es_sequence = 1, es_generation = 1\<rparr>"

definition demo_store2 :: event_store where
  "demo_store2 = demo_store\<lparr>es_events := es_events demo_store @
       [state_values.extend (demo_values 2 INACTIVE (Some 2) True 2) (state_event.fields EXIT 2 True False)],
     es_current := [((''UP'', ''k''), demo_values 2 INACTIVE (Some 2) True 2)], es_sequence := 2, es_generation := 2\<rparr>"

lemmas publish_eval = publish_events_def previous_through_def replace_from_def anchors_for_def compress_def compress_row_def
  old_events_def in_window_def invalidated_def numbered_def signature_def classify_def since_of_def row_values_def row_target_def
  row_order_def seed_at_def latest_event_def event_before_def event_target_def observation_row_def anchor_of_def Let_def
  state_values.defs state_event.defs

lemma demo_first: "publish_events dumps 1 empty_store [demo_row 1 ACTIVE] None 1 = Ok (demo_store, 1)"
  by (simp add: publish_eval empty_store_def demo_store_def demo_row_def demo_values_def)

lemma demo_second: "publish_events dumps 2 demo_store [demo_row 2 INACTIVE] (Some 2) 2 = Ok (demo_store2, 1)"
  by (simp add: publish_eval demo_store_def demo_store2_def demo_row_def demo_values_def)

lemma demo_published:
  "published dumps demo_store [demo_row 1 ACTIVE]" "published dumps demo_store2 [demo_row 1 ACTIVE, demo_row 2 INACTIVE]"
proof -
  have 1: "published dumps demo_store (published_rows None [] [demo_row 1 ACTIVE])"
    by (rule published.publication [OF published.nothing demo_first]) simp
  then show "published dumps demo_store [demo_row 1 ACTIVE]" by (simp add: published_rows_def)
  have "published dumps demo_store2 (published_rows (Some 2) [demo_row 1 ACTIVE] [demo_row 2 INACTIVE])"
    by (rule published.publication [OF _ demo_second]) (use 1 in \<open>simp_all add: published_rows_def demo_row_def\<close>)
  then show "published dumps demo_store2 [demo_row 1 ACTIVE, demo_row 2 INACTIVE]" by (simp add: published_rows_def demo_row_def)
qed

theorem incremental_equals_rebuild_witness:
  "\<exists>rebuilt n. publish_events (\<lambda>_. []) 7 empty_store [demo_row 1 ACTIVE, demo_row 2 INACTIVE] None 2 = Ok (rebuilt, n) \<and>
     map (\<lambda>e. signature (\<lambda>_. []) (ev_kind e) e) (valid_events demo_store2) =
     map (\<lambda>e. signature (\<lambda>_. []) (ev_kind e) e) (valid_events rebuilt) \<and> (\<forall>e \<in> set (es_events rebuilt). ev_restatement e)"
proof -
  obtain rebuilt n where "publish_events (\<lambda>_. []) 7 empty_store [demo_row 1 ACTIVE, demo_row 2 INACTIVE] None 2 = Ok (rebuilt, n)"
    by (simp add: publish_events_def Let_def previous_through_def empty_store_def)
  then show ?thesis using incremental_equals_rebuild [OF demo_published(2)] by blast
qed

theorem compressed_status_exact_witness:
  "\<exists>q \<in> set (seed_at demo_store2 2). row_target q = (''UP'', ''k'') \<and> sv_status q = INACTIVE"
proof -
  have "\<exists>q \<in> set (seed_at demo_store2 (sv_trade_date (demo_row 2 INACTIVE))).
      row_target q = row_target (demo_row 2 INACTIVE) \<and> sv_status q = sv_status (demo_row 2 INACTIVE)"
    by (rule compressed_status_exact [OF demo_published(2)]) (auto simp: demo_row_def row_order_def)
  then show ?thesis by (simp add: demo_row_def row_target_def)
qed

theorem replay_keeps_events_witness:
  "\<exists>store' n. publish_events (\<lambda>_. []) 3 demo_store2 [demo_row 2 INACTIVE] (Some 2) 2 = Ok (store', n) \<and> n = 0"
proof -
  have "filter (\<lambda>r. 2 \<le> sv_trade_date r) [demo_row 1 ACTIVE, demo_row 2 INACTIVE] = [demo_row 2 INACTIVE]" by (simp add: demo_row_def)
  moreover obtain store' n where "publish_events (\<lambda>_. []) 3 demo_store2 [demo_row 2 INACTIVE] (Some 2) 2 = Ok (store', n)"
    by (simp add: publish_events_def Let_def previous_through_def demo_store2_def demo_store_def demo_values_def)
  ultimately show ?thesis
    using replay_keeps_events [OF demo_published(2), of "\<lambda>_. []" 3 "Some 2" 2 store' n] by auto
qed

theorem unmarked_events_are_news_witness:
  "sv_trade_date (demo_row 1 ACTIVE) < va_trade_date (last (es_events demo_store2))"
  using unmarked_events_are_news [OF demo_published(1) demo_second, of "last (es_events demo_store2)"]
  by (simp add: demo_store2_def demo_store_def demo_values_def state_values.defs state_event.defs)

end
