(* ===== verification/Alert_Service.thy ===== *)
theory Alert_Service
  imports Alerts Notifications Analysis_Stream State_Events State_Registry Canonical
begin

text \<open>
  Stored alert rules, their evaluation and the notifications they queue (\<open>services/alert_service.py\<close>,
  \<open>alert_replay.py\<close>, \<open>alert_observation_service.py\<close>, \<open>repositories/alert.py\<close>, and the monitor limit of
  \<open>analysis_control.py\<close>).

  The tables are lists in one record and an operation is one transaction under the lock of the
  account or of the rule; an exception leaves the tables unchanged. What an evaluation reads of the
  published analysis is an argument: streams with their stores of state changes, indicator
  snapshots and the result of the dividend service. Parameters are the digests of parameter keys,
  the number format of a title and ISO date printing. The clock is an argument; delivery after the
  commit is the dispatch of the notification service on the queued row.
\<close>

section \<open>Tables\<close>

record stored_rule =
  al_id :: int
  al_user_id :: int
  al_security_id :: int
  al_condition_type :: string
  al_indicator_type :: "string option"
  al_state_code :: "string option"
  al_operator :: "string option"
  al_threshold :: "fl option"
  al_parameters :: pyval
  al_parameter_key :: "string option"
  al_field :: "string option"
  al_adjust_type :: string
  al_rule_version :: int
  al_trigger_sequence :: int
  al_enabled :: bool

record alert_instance =
  ai_rule_id :: int
  ai_security_id :: int
  ai_status :: alert_status
  ai_last_trigger_time :: "int option"
  ai_trigger_sequence :: int
  ai_rule_version :: int
  ai_last_consumed_state_seq :: int
  ai_last_evaluated :: "int option"

record alert_notification = notification +
  an_rule_id :: "int option"
  an_security_id :: int
  an_title :: string
  an_sequence :: int
  an_rule_version :: int
  an_observation_date :: int

record alert_security =
  ac_symbol :: string
  ac_name :: string
  ac_status :: string

record alert_db =
  ad_rules :: "stored_rule list"
  ad_instances :: "alert_instance list"
  ad_outbox :: "alert_notification list"
  ad_securities :: "(int, alert_security) dict"
  ad_watched :: "(int \<times> int) list"
  ad_demand :: "int list"
  ad_bootstrap :: "string list"
  ad_next_rule :: int
  ad_next_notification :: int

section \<open>Conditions of a stored rule\<close>

record condition_fields =
  cf_condition_type :: string
  cf_indicator_type :: "string option"
  cf_state_code :: "string option"
  cf_operator :: "string option"
  cf_threshold :: "fl option"
  cf_parameters :: "(string, pyval) dict"
  cf_parameter_key :: string
  cf_field :: "string option"
  cf_adjust_type :: string

definition invalid_rule :: "string \<Rightarrow> exn" where
  "invalid_rule m = ApiError ''INVALID_ALERT_RULE'' m 400"

text \<open>\<open>value or fallback\<close> on optional text.\<close>

definition or_else :: "string option \<Rightarrow> string option \<Rightarrow> string option" where
  "or_else a b = (case a of Some (c # s) \<Rightarrow> a | _ \<Rightarrow> b)"

definition text_or :: "string option \<Rightarrow> string \<Rightarrow> string" where
  "text_or a s = (case or_else a (Some s) of Some t \<Rightarrow> t | None \<Rightarrow> s)"

definition validated_state_code :: "state_registry \<Rightarrow> string option \<Rightarrow> string result" where
  "validated_state_code reg state_code = (case state_get reg (text_or state_code []) of
      Inl _ \<Rightarrow> Raise (invalid_rule ''State condition is invalid.'')
    | Inr d \<Rightarrow> Ok (sd_code d))"

definition state_parameter_key :: "(string \<Rightarrow> (string, pyval) dict \<Rightarrow> string) \<Rightarrow> string \<Rightarrow> (string, pyval) dict \<Rightarrow> string" where
  "state_parameter_key sha code ps = ''v1_'' @ sha code ps"

type_synonym digests = "(string \<Rightarrow> (string, pyval) dict \<Rightarrow> string) \<times> (string \<Rightarrow> (string, pyval) dict \<Rightarrow> string)"

text \<open>The branches of \<open>_condition_fields\<close>: a state condition, and a complete value condition.\<close>

definition state_condition_fields ::
  "(real \<Rightarrow> real) \<Rightarrow> digests \<Rightarrow> state_registry \<Rightarrow> string option \<Rightarrow> string option \<Rightarrow> pyval \<Rightarrow> string \<Rightarrow> condition_fields result"
where
  "state_condition_fields rnd digests reg state_id state_code parameters adjustment =
     (if state_id \<noteq> None \<and> state_code \<noteq> None \<and> upper (strip (the state_id)) \<noteq> upper (strip (the state_code))
      then Raise (invalid_rule ''State condition fields do not match.'')
      else
        ebind (validated_state_code reg (or_else state_id state_code)) (\<lambda>resolved.
        ebind (state_get reg resolved) (\<lambda>definition_of.
        emap (\<lambda>ps. \<lparr>cf_condition_type = ''STATE'', cf_indicator_type = Some (sd_indicator_type definition_of),
            cf_state_code = Some resolved, cf_operator = None, cf_threshold = None, cf_parameters = ps,
            cf_parameter_key = state_parameter_key (snd digests) resolved ps, cf_field = None, cf_adjust_type = adjustment\<rparr>)
          (canonicalize_state_parameters rnd (sd_indicator_type definition_of) parameters))))"

definition value_condition_fields ::
  "(real \<Rightarrow> real) \<Rightarrow> digests \<Rightarrow> string \<Rightarrow> string \<Rightarrow> fl \<Rightarrow> pyval \<Rightarrow> string option \<Rightarrow> string \<Rightarrow> condition_fields result"
where
  "value_condition_fields rnd digests indicator op threshold parameters field adjustment =
     ebind (normalize_indicator_type indicator) (\<lambda>t.
     ebind (ValueCondition rnd (VStr t) (VStr (if op = ''='' then ''=='' else op)) (VFloat threshold)) (\<lambda>_.
     ebind (if t = ''DIVIDEND_YIELD''
            then emap (\<lambda>k. ([], ''value'', ''none'', k)) (parameter_key rnd (fst digests) ''DIVIDEND_YIELD'' (as_object []))
            else
              ebind (canonicalize_parameters rnd t parameters True) (\<lambda>ps.
              ebind (canonical_indicator_field rnd t (as_object ps) field) (\<lambda>f.
              emap (\<lambda>k. (ps, f, adjustment, k)) (parameter_key rnd (fst digests) t (as_object ps))))) (\<lambda>(ps, f, a, k).
       Ok \<lparr>cf_condition_type = ''VALUE'', cf_indicator_type = Some t, cf_state_code = None, cf_operator = Some op,
           cf_threshold = Some threshold, cf_parameters = ps, cf_parameter_key = k, cf_field = Some f, cf_adjust_type = a\<rparr>)))"

definition make_condition_fields ::
  "(real \<Rightarrow> real) \<Rightarrow> digests \<Rightarrow> state_registry \<Rightarrow> string option \<Rightarrow> string option \<Rightarrow> string option \<Rightarrow> string option \<Rightarrow>
     string option \<Rightarrow> fl option \<Rightarrow> pyval \<Rightarrow> string option \<Rightarrow> string option \<Rightarrow> condition_fields result"
where
  "make_condition_fields rnd digests reg condition_type state_id state_code indicator operator threshold parameters field adjust_type =
     (let kind = map_option (\<lambda>t. upper (strip t)) condition_type;
          adjustment = lower (strip (text_or adjust_type ''qfq'')) in
      if adjustment \<notin> {''qfq'', ''none''} then Raise (invalid_rule ''Adjustment must be qfq or none.'')
      else if kind = Some ''STATE'' then state_condition_fields rnd digests reg state_id state_code parameters adjustment
      else case (operator, threshold) of
          (Some op, Some th) \<Rightarrow>
            if kind \<noteq> Some ''VALUE'' \<or> text_or indicator [] = []
            then Raise (invalid_rule ''Value condition requires indicator, operator, and threshold.'')
            else value_condition_fields rnd digests (text_or indicator []) (strip op) th parameters field adjustment
        | _ \<Rightarrow> Raise (invalid_rule ''Value condition requires indicator, operator, and threshold.''))"

definition rule_signature :: "stored_rule \<Rightarrow>
  (int \<times> string \<times> string option \<times> string option) \<times> (string option \<times> string option \<times> string) \<times> (string option \<times> fl option \<times> bool)"
where
  "rule_signature r = ((al_security_id r, al_condition_type r, al_indicator_type r, al_state_code r),
     (al_parameter_key r, al_field r, al_adjust_type r), (al_operator r, al_threshold r, al_enabled r))"

definition with_fields :: "condition_fields \<Rightarrow> stored_rule \<Rightarrow> stored_rule" where
  "with_fields f r = r\<lparr>al_condition_type := cf_condition_type f, al_indicator_type := cf_indicator_type f,
     al_state_code := cf_state_code f, al_operator := cf_operator f, al_threshold := cf_threshold f,
     al_parameters := as_object (cf_parameters f), al_parameter_key := Some (cf_parameter_key f), al_field := cf_field f,
     al_adjust_type := cf_adjust_type f\<rparr>"

section \<open>Creating, changing and deleting rules\<close>

definition monitored :: "alert_db \<Rightarrow> int \<Rightarrow> int option \<Rightarrow> int list" where
  "monitored db user_id exclude = remdups
     (map snd (filter (\<lambda>w. fst w = user_id) (ad_watched db)) @
      map al_security_id (filter (\<lambda>r. al_user_id r = user_id \<and> al_enabled r \<and> (exclude \<noteq> None \<longrightarrow> al_id r \<noteq> the exclude)) (ad_rules db)))"

definition ensure_monitor_capacity :: "alert_db \<Rightarrow> int \<Rightarrow> int \<Rightarrow> int option \<Rightarrow> unit result" where
  "ensure_monitor_capacity db user_id security_id exclude =
     (let ids = monitored db user_id exclude in
      if security_id \<notin> set ids \<and> 100 \<le> length ids
      then Raise (ApiError ''MONITOR_LIMIT_EXCEEDED'' ''At most 100 distinct securities may be monitored.'' 409)
      else Ok ())"

definition active_security :: "alert_db \<Rightarrow> int option \<Rightarrow> alert_security result" where
  "active_security db security_id = (case (case security_id of None \<Rightarrow> None | Some i \<Rightarrow> dict_get (ad_securities db) i) of
      None \<Rightarrow> Raise (ApiError ''SECURITY_NOT_FOUND'' ''Security was not found.'' 404)
    | Some s \<Rightarrow> if ac_status s \<noteq> ''ACTIVE'' then Raise (ApiError ''SECURITY_INACTIVE'' ''Security is not active.'' 409) else Ok s)"

definition alert_not_found :: exn where
  "alert_not_found = ApiError ''ALERT_NOT_FOUND'' ''Alert rule was not found.'' 404"

record rule_payload =
  rp_security_id :: int
  rp_condition_type :: string
  rp_state_id :: "string option"
  rp_state_code :: "string option"
  rp_indicator :: "string option"
  rp_operator :: "string option"
  rp_threshold :: "fl option"
  rp_parameters :: pyval
  rp_field :: "string option"
  rp_adjust_type :: "string option"
  rp_enabled :: bool

definition enqueue_bootstrap :: "stored_rule \<Rightarrow> alert_security \<Rightarrow> alert_db \<Rightarrow> alert_db" where
  "enqueue_bootstrap r s db = (if al_enabled r then db\<lparr>ad_bootstrap := ad_bootstrap db @ [ac_symbol s]\<rparr> else db)"

definition create_rule ::
  "(real \<Rightarrow> real) \<Rightarrow> digests \<Rightarrow> state_registry \<Rightarrow> int \<Rightarrow> rule_payload \<Rightarrow> alert_db \<Rightarrow> (alert_db \<times> stored_rule) result"
where
  "create_rule rnd digests reg user_id p db =
     ebind (if rp_enabled p then ensure_monitor_capacity db user_id (rp_security_id p) None else Ok ()) (\<lambda>_.
     ebind (active_security db (Some (rp_security_id p))) (\<lambda>s.
     ebind (make_condition_fields rnd digests reg (Some (rp_condition_type p)) (rp_state_id p) (rp_state_code p) (rp_indicator p)
       (rp_operator p) (rp_threshold p) (rp_parameters p) (rp_field p) (rp_adjust_type p)) (\<lambda>f.
       let r = with_fields f \<lparr>al_id = ad_next_rule db, al_user_id = user_id, al_security_id = rp_security_id p,
             al_condition_type = [], al_indicator_type = None, al_state_code = None, al_operator = None, al_threshold = None,
             al_parameters = VNone, al_parameter_key = None, al_field = None, al_adjust_type = [], al_rule_version = 1,
             al_trigger_sequence = 0, al_enabled = rp_enabled p\<rparr>
       in Ok (enqueue_bootstrap r s
            (db\<lparr>ad_rules := ad_rules db @ [r], ad_next_rule := ad_next_rule db + 1,
               ad_demand := (if al_enabled r then ad_demand db @ [al_security_id r] else ad_demand db)\<rparr>), r))))"

text \<open>The fields a partial update sets; an outer \<open>None\<close> is a field that was not sent.\<close>

record rule_update =
  up_security_id :: "int option option"
  up_condition_type :: "string option option"
  up_state_id :: "string option option"
  up_state_code :: "string option option"
  up_indicator :: "string option option"
  up_operator :: "string option option"
  up_threshold :: "fl option option"
  up_parameters :: "pyval option"
  up_field :: "string option option"
  up_adjust_type :: "string option option"
  up_enabled :: "bool option option"

definition sent :: "'a option \<Rightarrow> 'a \<Rightarrow> 'a" where
  "sent x v = (case x of Some w \<Rightarrow> w | None \<Rightarrow> v)"

definition state_fields :: "rule_update \<Rightarrow> stored_rule \<Rightarrow> string option \<times> string option" where
  "state_fields u r = (case (up_state_id u, up_state_code u) of
      (Some i, None) \<Rightarrow> (i, None)
    | (None, Some c) \<Rightarrow> (None, c)
    | (i, c) \<Rightarrow> (sent i (al_state_code r), sent c (al_state_code r)))"

definition find_rule :: "alert_db \<Rightarrow> int \<Rightarrow> int option \<Rightarrow> stored_rule option" where
  "find_rule db rule_id user_id = find (\<lambda>r. al_id r = rule_id \<and> (user_id \<noteq> None \<longrightarrow> al_user_id r = the user_id)) (ad_rules db)"

definition get_instance :: "alert_db \<Rightarrow> int \<Rightarrow> int \<Rightarrow> alert_instance option" where
  "get_instance db rule_id security_id = find (\<lambda>i. ai_rule_id i = rule_id \<and> ai_security_id i = security_id) (ad_instances db)"

definition store_rule :: "stored_rule \<Rightarrow> alert_db \<Rightarrow> alert_db" where
  "store_rule r db = db\<lparr>ad_rules := map (\<lambda>q. if al_id q = al_id r then r else q) (ad_rules db)\<rparr>"

definition delete_instance :: "int \<Rightarrow> int \<Rightarrow> alert_db \<Rightarrow> alert_db" where
  "delete_instance rule_id security_id db =
     db\<lparr>ad_instances := filter (\<lambda>i. \<not> (ai_rule_id i = rule_id \<and> ai_security_id i = security_id)) (ad_instances db)\<rparr>"

definition store_instance :: "alert_instance \<Rightarrow> alert_db \<Rightarrow> alert_db" where
  "store_instance i db = db\<lparr>ad_instances :=
     (if get_instance db (ai_rule_id i) (ai_security_id i) = None then ad_instances db @ [i]
      else map (\<lambda>j. if ai_rule_id j = ai_rule_id i \<and> ai_security_id j = ai_security_id i then i else j) (ad_instances db))\<rparr>"

text \<open>A change of the signature makes a new version, restarts the instance and asks for analysis.\<close>

definition versioned_rule :: "stored_rule \<Rightarrow> stored_rule \<Rightarrow> stored_rule" where
  "versioned_rule r changed =
     (if rule_signature changed \<noteq> rule_signature r then changed\<lparr>al_rule_version := al_rule_version r + 1\<rparr> else changed)"

definition restart_instance :: "stored_rule \<Rightarrow> stored_rule \<Rightarrow> alert_db \<Rightarrow> alert_db" where
  "restart_instance r r' db =
     (if al_security_id r \<noteq> al_security_id r' then delete_instance (al_id r) (al_security_id r) db
      else if rule_signature r' \<noteq> rule_signature r then
        (case get_instance db (al_id r) (al_security_id r) of
           None \<Rightarrow> db
         | Some i \<Rightarrow> store_instance (i\<lparr>ai_status := ALERT_RESET, ai_last_trigger_time := None,
             ai_rule_version := al_rule_version r', ai_last_evaluated := None\<rparr>) db)
      else db)"

definition refresh_demand :: "stored_rule \<Rightarrow> stored_rule \<Rightarrow> alert_db \<Rightarrow> alert_db" where
  "refresh_demand r r' db = (if rule_signature r' \<noteq> rule_signature r
     then db\<lparr>ad_demand := ad_demand db @ [al_security_id r, al_security_id r']\<rparr> else db)"

definition update_rule ::
  "(real \<Rightarrow> real) \<Rightarrow> digests \<Rightarrow> state_registry \<Rightarrow> int \<Rightarrow> int \<Rightarrow> rule_update \<Rightarrow> alert_db \<Rightarrow> (alert_db \<times> stored_rule) result"
where
  "update_rule rnd digests reg user_id rule_id u db = (case find_rule db rule_id (Some user_id) of
      None \<Rightarrow> Raise alert_not_found
    | Some r \<Rightarrow>
        let security_id = sent (up_security_id u) (Some (al_security_id r));
            (state_id, state_code) = state_fields u r;
            enabled = (case up_enabled u of None \<Rightarrow> al_enabled r | Some e \<Rightarrow> e = Some True)
        in
        ebind (active_security db security_id) (\<lambda>s.
        ebind (if enabled then ensure_monitor_capacity db user_id (the security_id) (Some (al_id r)) else Ok ()) (\<lambda>_.
        ebind (make_condition_fields rnd digests reg (sent (up_condition_type u) (Some (al_condition_type r))) state_id state_code
          (sent (up_indicator u) (al_indicator_type r)) (sent (up_operator u) (al_operator r)) (sent (up_threshold u) (al_threshold r))
          (sent (up_parameters u) (al_parameters r)) (sent (up_field u) (al_field r))
          (sent (up_adjust_type u) (Some (al_adjust_type r)))) (\<lambda>f.
          let r' = versioned_rule r (with_fields f (r\<lparr>al_security_id := the security_id, al_enabled := enabled\<rparr>))
          in Ok (enqueue_bootstrap r' s (refresh_demand r r' (restart_instance r r' (store_rule r' db))), r')))))"

text \<open>Deleting a rule cascades to its instances; its notifications lose their reference.\<close>

definition delete_rule :: "int \<Rightarrow> int \<Rightarrow> alert_db \<Rightarrow> alert_db result" where
  "delete_rule user_id rule_id db = (case find_rule db rule_id (Some user_id) of
      None \<Rightarrow> Raise alert_not_found
    | Some r \<Rightarrow> Ok (db\<lparr>ad_rules := filter (\<lambda>q. al_id q \<noteq> rule_id) (ad_rules db),
        ad_instances := filter (\<lambda>i. ai_rule_id i \<noteq> rule_id) (ad_instances db),
        ad_outbox := map (\<lambda>n. if an_rule_id n = Some rule_id then n\<lparr>an_rule_id := None\<rparr> else n) (ad_outbox db),
        ad_demand := ad_demand db @ [al_security_id r]\<rparr>))"

section \<open>Observations\<close>

record stored_snapshot =
  sn_security_id :: int
  sn_adjust_type :: string
  sn_trade_date :: int
  sn_id :: int
  sn_row :: snapshot_row

text \<open>
  What an evaluation reads: per security and adjustment the stream with its store of state changes,
  the identifiers of their rows, the snapshots, and the dividend yield with its Shanghai date.
\<close>

record analysis_view =
  av_streams :: "(int \<times> string, analysis_stream \<times> event_store) dict"
  av_event_id :: "int \<Rightarrow> string \<Rightarrow> int \<Rightarrow> int"
  av_snapshots :: "stored_snapshot list"
  av_dividend :: "int \<Rightarrow> (real \<times> int) result"

definition stream_of :: "analysis_view \<Rightarrow> stored_rule \<Rightarrow> (analysis_stream \<times> event_store) option" where
  "stream_of view r = dict_get (av_streams view) (al_security_id r, al_adjust_type r)"

fun finite_of :: "fl option \<Rightarrow> real option" where
  "finite_of (Some (Fin x)) = Some x"
| "finite_of _ = None"

definition field_value :: "(string, fl) dict option \<Rightarrow> string \<Rightarrow> real option" where
  "field_value vs field = (case vs of
      None \<Rightarrow> None
    | Some d \<Rightarrow> (case finite_of (dict_get d field) of
        Some x \<Rightarrow> Some x
      | None \<Rightarrow> (case find (\<lambda>(k, v). casefold k = casefold field \<and> finite_of (Some v) \<noteq> None) d of
          Some (k, v) \<Rightarrow> finite_of (Some v)
        | None \<Rightarrow> None)))"

record scalar_observation =
  so_value :: real
  so_previous :: "real option"
  so_delta :: "real option"
  so_date :: int

definition of_type :: "stored_rule \<Rightarrow> string \<Rightarrow> stored_snapshot \<Rightarrow> bool" where
  "of_type r t sn \<longleftrightarrow> sn_security_id sn = al_security_id r \<and> sn_adjust_type sn = al_adjust_type r \<and> row_type (sn_row sn) = t"

definition latest_snapshot :: "analysis_view \<Rightarrow> stored_rule \<Rightarrow> string \<Rightarrow> stored_snapshot option" where
  "latest_snapshot view r t = (case rev (sort_key (\<lambda>sn. (sn_trade_date sn, sn_id sn)) (filter (of_type r t) (av_snapshots view))) of
      [] \<Rightarrow> None | sn # _ \<Rightarrow> Some sn)"

definition absent :: "string option \<Rightarrow> bool" where
  "absent x \<longleftrightarrow> text_or x [] = []"

text \<open>The stored variant of a snapshot that has the rule's key, and its field.\<close>

definition variant_value ::
  "(real \<Rightarrow> real) \<Rightarrow> digests \<Rightarrow> stored_rule \<Rightarrow> string \<Rightarrow> pyval \<Rightarrow> stored_snapshot \<Rightarrow> (real \<times> real option \<times> real option) option result"
where
  "variant_value rnd digests r t parameters sn =
     emap (\<lambda>found. case found of
         None \<Rightarrow> None
       | Some v \<Rightarrow>
           if Some (iv_key v) \<noteq> al_parameter_key r then None
           else (case field_value (Some (iv_values v)) (text_or (al_field r) []) of
               None \<Rightarrow> None
             | Some x \<Rightarrow> Some (x, field_value (iv_previous v) (text_or (al_field r) []), field_value (iv_delta v) (text_or (al_field r) []))))
       (select_snapshot_variant rnd (fst digests) (sn_row sn) t parameters)"

definition resolve_value ::
  "(real \<Rightarrow> real) \<Rightarrow> digests \<Rightarrow> analysis_view \<Rightarrow> stored_rule \<Rightarrow> scalar_observation option result"
where
  "resolve_value rnd digests view r =
     (let indicator = upper (text_or (al_indicator_type r) []) in
      if indicator = ''DIVIDEND_YIELD'' then
        (case av_dividend view (al_security_id r) of
           Inl (ApiError code m st) \<Rightarrow> if code \<in> {''PRICE_NOT_FOUND'', ''INVALID_PRICE'', ''INVALID_DIVIDEND_DATA''} then Ok None
             else Raise (ApiError code m st)
         | Inl e \<Rightarrow> Raise e
         | Inr (y, d) \<Rightarrow> Ok (Some \<lparr>so_value = y, so_previous = None, so_delta = None, so_date = d\<rparr>))
      else if absent (al_parameter_key r) \<or> absent (al_field r) then Ok None
      else if \<not> publication_is_current (map_option fst (stream_of view r)) then Ok None
      else case latest_snapshot view r indicator of
        None \<Rightarrow> Ok None
      | Some sn \<Rightarrow>
          emap (map_option (\<lambda>(x, p, d). \<lparr>so_value = x, so_previous = p, so_delta = d, so_date = sn_trade_date sn\<rparr>))
            (variant_value rnd digests r indicator (if py_falsy (al_parameters r) then as_object [] else al_parameters r) sn))"

text \<open>\<open>_state_value_context\<close>: the labelled values a state recorded.\<close>

definition context_number :: "(real \<Rightarrow> real) \<Rightarrow> pyval \<Rightarrow> pyval result" where
  "context_number rnd v = (case v of VInt n \<Rightarrow> emap VFloat (to_float rnd v) | VFloat f \<Rightarrow> Ok (VFloat f) | _ \<Rightarrow> Ok VNone)"

fun value_context_entries :: "(real \<Rightarrow> real) \<Rightarrow> (pyval \<times> pyval) list \<Rightarrow> (string, pyval) dict \<Rightarrow> (string, pyval) dict result" where
  "value_context_entries rnd [] acc = Ok acc"
| "value_context_entries rnd ((VStr label, VDict d) # rest) acc =
     (if strip label = [] then value_context_entries rnd rest acc
      else
        ebind (context_number rnd (get_none d ''current_value'')) (\<lambda>c.
        ebind (context_number rnd (get_none d ''previous_value'')) (\<lambda>p.
        ebind (context_number rnd (get_none d ''change'')) (\<lambda>ch.
          value_context_entries rnd rest
            (dict_set (strip label) (as_object [(''current_value'', c), (''previous_value'', p), (''change'', ch)]) acc)))))"
| "value_context_entries rnd (_ # rest) acc = value_context_entries rnd rest acc"

definition state_value_context :: "(real \<Rightarrow> real) \<Rightarrow> (pyval \<times> pyval) list \<Rightarrow> (string, pyval) dict result" where
  "state_value_context rnd metadata = (case get_none metadata ''value_context'' of
      VDict d \<Rightarrow> value_context_entries rnd d [] | _ \<Rightarrow> Ok [])"

record state_observation =
  st_active :: bool
  st_date :: int
  st_row :: state_row
  st_context :: "(string, pyval) dict"

definition edge_mode :: "state_registry \<Rightarrow> string \<Rightarrow> bool result" where
  "edge_mode reg code = emap (\<lambda>d. (case sd_metadata d of VDict m \<Rightarrow> get_none m ''mode'' | _ \<Rightarrow> VNone) = VStr ''edge'') (state_get reg code)"

definition resolve_state ::
  "(real \<Rightarrow> real) \<Rightarrow> state_registry \<Rightarrow> analysis_view \<Rightarrow> stored_rule \<Rightarrow> state_observation option result"
where
  "resolve_state rnd reg view r =
     (if absent (al_state_code r) \<or> absent (al_parameter_key r) then Ok None
      else if \<not> publication_is_current (map_option fst (stream_of view r)) then Ok None
      else case (case stream_of view r of None \<Rightarrow> []
          | Some (_, store) \<Rightarrow> current_rows store False (al_state_code r) (al_parameter_key r)) of
        [] \<Rightarrow> Ok None
      | row # _ \<Rightarrow>
          if sv_status row = UNKNOWN \<or> \<not> py_falsy (get_none (sv_metadata row) ''reason'') then Ok None
          else
            ebind (edge_mode reg (text_or (al_state_code r) [])) (\<lambda>edge.
            let active = (sv_status row = ACTIVE) in
            emap (\<lambda>c. Some \<lparr>st_active = (if edge then active \<and> \<not> py_falsy (get_none (sv_metadata row) ''transition'') else active),
                st_date = sv_trade_date row, st_row = row, st_context = c\<rparr>)
              (state_value_context rnd (sv_metadata row))))"

section \<open>Queueing a trigger\<close>

record alert_context =
  cx_date :: int
  cx_current :: "real option"
  cx_previous :: "real option"
  cx_change :: "real option"
  cx_details :: "(string, pyval) dict option"
  cx_state :: "state_row option"
  cx_provenance :: "(string, pyval) dict"

text \<open>The rule under evaluation, its instance, the rows queued so far and the next row identifier.\<close>

record rule_state =
  ru_rule :: stored_rule
  ru_instance :: alert_instance
  ru_queued :: "alert_notification list"
  ru_next :: int

text \<open>The format \<open>:g\<close> of a number, ISO dates, the title of last resort and \<open>str\<close>.\<close>

type_synonym renderers = "(fl \<Rightarrow> string) \<times> (int \<Rightarrow> string) \<times> string \<times> (pyval \<Rightarrow> string)"

definition notification_title :: "renderers \<Rightarrow> stored_rule \<Rightarrow> alert_context \<Rightarrow> string" where
  "notification_title renderers r cx = (case renderers of (format_g, _, default_title, py_str) \<Rightarrow>
     if al_condition_type r = ''STATE'' then
       (let metadata = (case cx_state cx of None \<Rightarrow> [] | Some row \<Rightarrow> sv_metadata row) in
        if \<not> py_falsy (get_none metadata ''name'') then py_str (get_none metadata ''name'')
        else text_or (al_state_code r) default_title)
     else text_or (al_indicator_type r) [] @ '' '' @ text_or (al_operator r) [] @ '' '' @
       (case al_threshold r of Some f \<Rightarrow> format_g f | None \<Rightarrow> []))"

definition make_notification_message ::
  "(real \<Rightarrow> real) \<Rightarrow> alert_security \<Rightarrow> stored_rule \<Rightarrow> alert_context \<Rightarrow> notification_message result"
where
  "make_notification_message rnd s r cx =
     NotificationMessage rnd (VStr (ac_name s)) (VStr (ac_symbol s))
       (if al_condition_type r = ''VALUE'' then option_text (al_indicator_type r)
        else VStr (text_or (map_option sv_indicator (cx_state cx)) ''STATE''))
       (if al_condition_type r = ''STATE'' then option_text (al_state_code r) else VNone)
       (option_float (cx_current cx)) (option_float (cx_previous cx)) (option_float (cx_change cx))
       (case cx_details cx of None \<Rightarrow> VNone | Some d \<Rightarrow> as_object d) (cx_date cx) VNone"

definition add_provenance :: "(string, pyval) dict \<Rightarrow> pyval \<Rightarrow> pyval" where
  "add_provenance provenance content = (case content of
      VDict d \<Rightarrow> VDict (fold (\<lambda>(k, v). dict_set (VStr k) v) provenance d) | v \<Rightarrow> v)"

definition enqueue_trigger ::
  "(real \<Rightarrow> real) \<Rightarrow> renderers \<Rightarrow> alert_security \<Rightarrow> int \<Rightarrow> alert_context \<Rightarrow> rule_state \<Rightarrow> rule_state result"
where
  "enqueue_trigger rnd renderers s now cx st =
     (let r = ru_rule st; i = ru_instance st;
          seq = max (al_trigger_sequence r) (ai_trigger_sequence i) + 1;
          title = notification_title renderers r cx in
      emap (\<lambda>m.
        let base = enqueue (fst (snd renderers)) (ru_next st) (al_user_id r) (al_id r) (al_security_id r) title m (Some seq)
              (al_rule_version r) now;
            row = notification.extend (base\<lparr>nt_content := add_provenance (cx_provenance cx) (nt_content base)\<rparr>)
              (alert_notification.fields (Some (al_id r)) (al_security_id r) title seq (al_rule_version r) (cx_date cx))
        in st\<lparr>ru_rule := r\<lparr>al_trigger_sequence := seq\<rparr>,
             ru_instance := i\<lparr>ai_trigger_sequence := seq, ai_last_trigger_time := Some now\<rparr>,
             ru_queued := ru_queued st @ [row], ru_next := ru_next st + 1\<rparr>)
        (make_notification_message rnd s r cx))"

section \<open>Evaluation\<close>

definition make_domain_rule :: "(real \<Rightarrow> real) \<Rightarrow> state_registry \<Rightarrow> stored_rule \<Rightarrow> alert_rule result" where
  "make_domain_rule rnd reg r =
     (if al_condition_type r = ''STATE'' then
        ebind (validated_state_code reg (al_state_code r)) (\<lambda>code.
        ebind (StateCondition (VStr code) VNone) (\<lambda>c.
          AlertRule rnd (Given c) (VInt (al_security_id r)) (VBool (al_enabled r)) (VInt (al_id r)) VNone VNone VNone VNone VNone VNone))
      else
        let op = (case al_operator r of None \<Rightarrow> ''None'' | Some t \<Rightarrow> if t = ''='' then ''=='' else t) in
        case al_threshold r of
          None \<Rightarrow> Raise (TypeError ''float() argument must be a string or a real number'')
        | Some f \<Rightarrow>
            ebind (ValueCondition rnd (VStr (text_or (al_indicator_type r) [])) (VStr op) (VFloat f)) (\<lambda>c.
              AlertRule rnd (Given c) (VInt (al_security_id r)) (VBool (al_enabled r)) (VInt (al_id r)) VNone VNone VNone VNone VNone VNone))"

text \<open>One call of the evaluator against a stored status: the new status and whether it triggers.\<close>

definition evaluate_status :: "(real \<Rightarrow> real) \<Rightarrow> alert_rule \<Rightarrow> pyval \<Rightarrow> alert_status \<Rightarrow> (alert_status \<times> bool) result" where
  "evaluate_status rnd domain ob prior = emap (\<lambda>ev. (ts_status (ae_state ev), ae_triggered ev))
     (evaluate_alert rnd domain (ObservationValue ob) (PrevValue (VStr (alert_status_text prior))) VNone VNone)"

definition MAX_CATCHUP_ROWS :: nat where "MAX_CATCHUP_ROWS = 10000"

definition history_too_large :: exn where
  "history_too_large = ApiError ''ALERT_HISTORY_TOO_LARGE'' ''Alert catch-up range exceeds the safety limit.'' 409"

definition set_status :: "alert_status \<Rightarrow> rule_state \<Rightarrow> rule_state" where
  "set_status s st = st\<lparr>ru_instance := (ru_instance st)\<lparr>ai_status := s\<rparr>\<rparr>"

definition event_context :: "analysis_view \<Rightarrow> int \<Rightarrow> state_event \<Rightarrow> (string, pyval) dict \<Rightarrow> stored_rule \<Rightarrow> alert_context" where
  "event_context view fin e details r = \<lparr>cx_date = va_trade_date e, cx_current = None, cx_previous = None, cx_change = None,
     cx_details = Some details, cx_state = Some (observation_row e None),
     cx_provenance = [(''source_event_id'', VInt (av_event_id view (al_security_id r) (al_adjust_type r) (ev_seq e))),
       (''source_revision'', VInt (va_source_revision e)), (''catch_up'', VBool (va_trade_date e < fin))]\<rparr>"

fun catch_up_events ::
  "(real \<Rightarrow> real) \<Rightarrow> renderers \<Rightarrow> analysis_view \<Rightarrow> alert_security \<Rightarrow> alert_rule \<Rightarrow> bool \<Rightarrow> int \<Rightarrow> int \<Rightarrow> state_event list \<Rightarrow> rule_state \<Rightarrow>
     rule_state result"
where
  "catch_up_events rnd renderers view s domain edge now fin [] st = Ok st"
| "catch_up_events rnd renderers view s domain edge now fin (e # es) st =
     (if va_status e = UNKNOWN then catch_up_events rnd renderers view s domain edge now fin es st
      else
        let active = (va_status e = ACTIVE); enter = (ev_kind e = ENTER \<and> \<not> ev_restatement e) in
        ebind (evaluate_status rnd domain (VBool (if edge then enter else active))
          (if enter then ALERT_RESET else ai_status (ru_instance st))) (\<lambda>(status, triggered).
        if \<not> enter then catch_up_events rnd renderers view s domain edge now fin es (set_status status st)
        else
          ebind (state_value_context rnd (va_metadata e)) (\<lambda>details.
          ebind (enqueue_trigger rnd renderers s now (event_context view fin e details (ru_rule st)) (set_status status st))
            (catch_up_events rnd renderers view s domain edge now fin es))))"

text \<open>\<open>_restated\<close>: the provenance of a snapshot says that its day was revised, or cannot be read.\<close>

definition source_of :: "stored_snapshot \<Rightarrow> pyval" where
  "source_of sn = (case row_parameters (sn_row sn) of
      VDict d \<Rightarrow> (case mapping_get d ''_source'' of Some v \<Rightarrow> v | None \<Rightarrow> as_object [])
    | _ \<Rightarrow> as_object [])"

definition restated :: "(string \<Rightarrow> int option) \<Rightarrow> stored_snapshot \<Rightarrow> bool" where
  "restated fromiso sn =
     (let cutoff = (case source_of sn of VDict d \<Rightarrow> get_none d ''restated_through'' | _ \<Rightarrow> VNone) in
      case cutoff of
        VNone \<Rightarrow> False
      | VStr t \<Rightarrow> (case fromiso t of Some d \<Rightarrow> sn_trade_date sn \<le> d | None \<Rightarrow> True)
      | _ \<Rightarrow> True)"

definition snapshot_context :: "int \<Rightarrow> stored_snapshot \<Rightarrow> real \<times> real option \<times> real option \<Rightarrow> alert_context" where
  "snapshot_context fin sn x = \<lparr>cx_date = sn_trade_date sn, cx_current = Some (fst x), cx_previous = fst (snd x),
     cx_change = snd (snd x), cx_details = None, cx_state = None,
     cx_provenance = [(''source_revision'', case source_of sn of VDict d \<Rightarrow> get_none d ''revision'' | _ \<Rightarrow> VNone),
       (''catch_up'', VBool (sn_trade_date sn < fin))]\<rparr>"

fun catch_up_snapshots ::
  "(real \<Rightarrow> real) \<Rightarrow> digests \<Rightarrow> renderers \<Rightarrow> (string \<Rightarrow> int option) \<Rightarrow> alert_security \<Rightarrow> alert_rule \<Rightarrow> int \<Rightarrow> int \<Rightarrow>
     stored_snapshot list \<Rightarrow> rule_state \<Rightarrow> rule_state result"
where
  "catch_up_snapshots rnd digests renderers fromiso s domain now fin [] st = Ok st"
| "catch_up_snapshots rnd digests renderers fromiso s domain now fin (sn # sns) st =
     ebind (variant_value rnd digests (ru_rule st) (text_or (al_indicator_type (ru_rule st)) []) (al_parameters (ru_rule st)) sn) (\<lambda>found.
     case found of
       None \<Rightarrow> catch_up_snapshots rnd digests renderers fromiso s domain now fin sns st
     | Some x \<Rightarrow>
         ebind (evaluate_status rnd domain (as_object [(''value'', VFloat (Fin (fst x)))]) (ai_status (ru_instance st))) (\<lambda>(status, triggered).
         if \<not> triggered \<or> restated fromiso sn
         then catch_up_snapshots rnd digests renderers fromiso s domain now fin sns (set_status status st)
         else
           ebind (enqueue_trigger rnd renderers s now (snapshot_context fin sn x) (set_status status st))
             (catch_up_snapshots rnd digests renderers fromiso s domain now fin sns)))"

record evaluation_result =
  er_rule_id :: int
  er_status :: alert_status
  er_triggered :: bool
  er_notification_id :: "int option"
  er_error_code :: "string option"
  er_notification_ids :: "int list"

definition quiet :: "int \<Rightarrow> alert_status \<Rightarrow> evaluation_result" where
  "quiet rule_id status = \<lparr>er_rule_id = rule_id, er_status = status, er_triggered = False, er_notification_id = None,
     er_error_code = None, er_notification_ids = []\<rparr>"

definition pending_events :: "event_store \<Rightarrow> stored_rule \<Rightarrow> int \<Rightarrow> int \<Rightarrow> int \<Rightarrow> state_event list" where
  "pending_events store r first fin consumed =
     take (MAX_CATCHUP_ROWS + 1) (sort_key (\<lambda>e. (va_trade_date e, ev_seq e)) (filter (\<lambda>e. Some (va_code e) = al_state_code r \<and>
       Some (va_key e) = al_parameter_key r \<and> ev_valid e \<and> first \<le> va_trade_date e \<and> va_trade_date e \<le> fin \<and> consumed < ev_seq e)
       (es_events store)))"

definition pending_snapshots :: "analysis_view \<Rightarrow> stored_rule \<Rightarrow> int \<Rightarrow> int \<Rightarrow> stored_snapshot list" where
  "pending_snapshots view r first fin =
     take (MAX_CATCHUP_ROWS + 1) (sort_key sn_trade_date (filter (\<lambda>sn. sn_security_id sn = al_security_id r \<and>
       sn_adjust_type sn = al_adjust_type r \<and> Some (row_type (sn_row sn)) = al_indicator_type r \<and>
       first \<le> sn_trade_date sn \<and> sn_trade_date sn \<le> fin) (av_snapshots view)))"

text \<open>The replay of a state rule over the events, and of a value rule over the snapshots.\<close>

definition replay_states ::
  "(real \<Rightarrow> real) \<Rightarrow> renderers \<Rightarrow> state_registry \<Rightarrow> analysis_view \<Rightarrow> alert_security \<Rightarrow> alert_rule \<Rightarrow> int \<Rightarrow> int \<Rightarrow> int \<Rightarrow>
     pyval option \<Rightarrow> event_store \<Rightarrow> rule_state \<Rightarrow> rule_state result"
where
  "replay_states rnd renderers reg view s domain now watermark fin current_observation store st =
     (let r = ru_rule st; events = pending_events store r (watermark + 1) fin (ai_last_consumed_state_seq (ru_instance st)) in
      if MAX_CATCHUP_ROWS < length events then Raise history_too_large
      else
        ebind (edge_mode reg (text_or (al_state_code r) [])) (\<lambda>edge.
        ebind (catch_up_events rnd renderers view s domain edge now fin events st) (\<lambda>st'.
        let st'' = st'\<lparr>ru_instance := (ru_instance st')\<lparr>ai_last_consumed_state_seq := es_sequence store\<rparr>\<rparr> in
        case current_observation of
          None \<Rightarrow> Ok st''
        | Some ob \<Rightarrow> emap (\<lambda>(status, _). set_status status st'') (evaluate_status rnd domain ob (ai_status (ru_instance st''))))))"

definition replay_values ::
  "(real \<Rightarrow> real) \<Rightarrow> digests \<Rightarrow> renderers \<Rightarrow> (string \<Rightarrow> int option) \<Rightarrow> analysis_view \<Rightarrow> alert_security \<Rightarrow> alert_rule \<Rightarrow> int \<Rightarrow>
     int \<Rightarrow> int \<Rightarrow> rule_state \<Rightarrow> rule_state result"
where
  "replay_values rnd digests renderers fromiso view s domain now watermark fin st =
     (let sns = pending_snapshots view (ru_rule st) (watermark + 1) fin in
      if MAX_CATCHUP_ROWS < length sns then Raise history_too_large
      else catch_up_snapshots rnd digests renderers fromiso s domain now fin sns st)"

definition replay_result :: "int \<Rightarrow> rule_state \<Rightarrow> rule_state \<Rightarrow> rule_state \<times> evaluation_result" where
  "replay_result fin st st' =
     (let ids = map nt_id (drop (length (ru_queued st)) (ru_queued st'));
          st'' = st'\<lparr>ru_instance := (ru_instance st')\<lparr>ai_last_evaluated := Some fin\<rparr>\<rparr>
      in (st'', \<lparr>er_rule_id = al_id (ru_rule st), er_status = ai_status (ru_instance st''), er_triggered = (ids \<noteq> []),
           er_notification_id = (if ids = [] then None else Some (last ids)), er_error_code = None, er_notification_ids = ids\<rparr>))"

definition catch_up ::
  "(real \<Rightarrow> real) \<Rightarrow> digests \<Rightarrow> renderers \<Rightarrow> (string \<Rightarrow> int option) \<Rightarrow> state_registry \<Rightarrow> analysis_view \<Rightarrow> alert_security \<Rightarrow> int \<Rightarrow>
     int \<Rightarrow> int \<Rightarrow> pyval option \<Rightarrow> rule_state \<Rightarrow> (rule_state \<times> evaluation_result) option result"
where
  "catch_up rnd digests renderers fromiso reg view s now watermark fin current_observation st =
     ebind (make_domain_rule rnd reg (ru_rule st)) (\<lambda>domain.
     if al_condition_type (ru_rule st) = ''STATE'' then
       (case stream_of view (ru_rule st) of
          None \<Rightarrow> Ok None
        | Some (stream, store) \<Rightarrow>
            if as_state_through stream = None then Ok None
            else emap (Some \<circ> replay_result fin st)
              (replay_states rnd renderers reg view s domain now watermark fin current_observation store st))
     else emap (Some \<circ> replay_result fin st) (replay_values rnd digests renderers fromiso view s domain now watermark fin st))"

text \<open>
  The parts of an evaluation. They return the changed rule state, or none when the transaction
  commits without a change.
\<close>

definition new_instance :: "stored_rule \<Rightarrow> alert_status \<Rightarrow> int \<Rightarrow> alert_instance" where
  "new_instance r status on_date = \<lparr>ai_rule_id = al_id r, ai_security_id = al_security_id r, ai_status = status,
     ai_last_trigger_time = None, ai_trigger_sequence = al_trigger_sequence r, ai_rule_version = al_rule_version r,
     ai_last_consumed_state_seq = 0, ai_last_evaluated = Some on_date\<rparr>"

definition start_state :: "stored_rule \<Rightarrow> alert_instance \<Rightarrow> int \<Rightarrow> rule_state" where
  "start_state r i next_id = \<lparr>ru_rule = r, ru_instance = i, ru_queued = [], ru_next = next_id\<rparr>"

definition unavailable_observation ::
  "(real \<Rightarrow> real) \<Rightarrow> digests \<Rightarrow> renderers \<Rightarrow> (string \<Rightarrow> int option) \<Rightarrow> state_registry \<Rightarrow> analysis_view \<Rightarrow> alert_security \<Rightarrow> int \<Rightarrow>
     int option \<Rightarrow> stored_rule \<Rightarrow> alert_instance option \<Rightarrow> int \<Rightarrow> (rule_state option \<times> evaluation_result) result"
where
  "unavailable_observation rnd digests renderers fromiso reg view s now observation_date r inst next_id =
     (case (observation_date, stream_of view r) of
        (Some d, Some (stream, store)) \<Rightarrow>
          if \<not> publication_is_current (Some stream) \<or> as_state_through stream \<noteq> Some d then Ok (None, quiet (al_id r) ALERT_RESET)
          else
            ebind (case inst of
                Some i \<Rightarrow>
                  if ai_rule_version i = al_rule_version r then
                    (case ai_last_evaluated i of
                       Some w \<Rightarrow> if w < d
                         then catch_up rnd digests renderers fromiso reg view s now w d None (start_state r i next_id) else Ok None
                     | None \<Rightarrow> Ok None)
                  else Ok None
              | None \<Rightarrow> Ok None) (\<lambda>replay.
            case replay of
              Some (st, res) \<Rightarrow> Ok (Some st, res)
            | None \<Rightarrow>
                let i' = (case inst of
                    None \<Rightarrow> (new_instance r ALERT_RESET d)\<lparr>ai_last_consumed_state_seq := es_sequence store\<rparr>
                  | Some i \<Rightarrow>
                      if ai_rule_version i \<noteq> al_rule_version r
                      then i\<lparr>ai_rule_version := al_rule_version r, ai_status := ALERT_RESET, ai_last_evaluated := Some d,
                        ai_last_consumed_state_seq := es_sequence store\<rparr>
                      else if ai_last_evaluated i = None \<or> the (ai_last_evaluated i) \<le> d
                      then i\<lparr>ai_last_evaluated := Some d, ai_last_consumed_state_seq := es_sequence store\<rparr>
                      else i)
                in Ok (Some (start_state r i' next_id), quiet (al_id r) (ai_status i')))
      | _ \<Rightarrow> Ok (None, quiet (al_id r) ALERT_RESET))"

definition reset_outdated :: "stored_rule \<Rightarrow> alert_instance \<Rightarrow> alert_instance" where
  "reset_outdated r i = (if ai_rule_version i \<noteq> al_rule_version r
     then i\<lparr>ai_status := ALERT_RESET, ai_last_evaluated := None, ai_rule_version := al_rule_version r, ai_last_consumed_state_seq := 0\<rparr>
     else i)"

text \<open>The direct evaluation of an observation, after a catch-up was not due or not possible.\<close>

definition evaluate_tail ::
  "(real \<Rightarrow> real) \<Rightarrow> renderers \<Rightarrow> analysis_view \<Rightarrow> alert_security \<Rightarrow> int \<Rightarrow> alert_status \<Rightarrow> bool \<Rightarrow> alert_context \<Rightarrow>
     stored_rule \<Rightarrow> alert_instance option \<Rightarrow> int \<Rightarrow> (rule_state option \<times> evaluation_result) result"
where
  "evaluate_tail rnd renderers view s now status triggered cx r inst next_id =
     (let base = (case inst of
            None \<Rightarrow> new_instance r status (cx_date cx)
          | Some i \<Rightarrow> i\<lparr>ai_status := status\<rparr>);
          timed = (if triggered then base\<lparr>ai_last_trigger_time := Some now\<rparr> else base);
          dated = timed\<lparr>ai_last_evaluated := Some (cx_date cx)\<rparr>;
          i' = (case (al_condition_type r = ''STATE'', stream_of view r) of
              (True, Some (_, store)) \<Rightarrow> dated\<lparr>ai_last_consumed_state_seq := es_sequence store\<rparr>
            | _ \<Rightarrow> dated);
          st = start_state r i' next_id
      in if \<not> triggered then Ok (Some st, quiet (al_id r) status)
         else emap (\<lambda>st'. (Some st', \<lparr>er_rule_id = al_id r, er_status = status, er_triggered = True,
             er_notification_id = Some next_id, er_error_code = None, er_notification_ids = []\<rparr>))
           (enqueue_trigger rnd renderers s now cx st))"

definition evaluate_direct ::
  "(real \<Rightarrow> real) \<Rightarrow> renderers \<Rightarrow> state_registry \<Rightarrow> analysis_view \<Rightarrow> alert_security \<Rightarrow> int \<Rightarrow> bool \<Rightarrow> pyval \<Rightarrow> alert_context \<Rightarrow>
     stored_rule \<Rightarrow> alert_instance option \<Rightarrow> int \<Rightarrow> (rule_state option \<times> evaluation_result) result"
where
  "evaluate_direct rnd renderers reg view s now scheduled ob cx r inst next_id =
     ebind (make_domain_rule rnd reg r) (\<lambda>domain.
     ebind (evaluate_status rnd domain ob (case inst of None \<Rightarrow> ALERT_RESET | Some i \<Rightarrow> ai_status i)) (\<lambda>(status, triggered).
     case (scheduled, inst) of
       (True, Some i) \<Rightarrow>
         if ai_last_evaluated i = Some (cx_date cx)
         then Ok (Some (start_state r (i\<lparr>ai_status := status\<rparr>) next_id), quiet (al_id r) status)
         else evaluate_tail rnd renderers view s now status triggered cx r inst next_id
     | _ \<Rightarrow> evaluate_tail rnd renderers view s now status triggered cx r inst next_id))"

text \<open>The observation of a rule and its context; none when there is nothing to observe.\<close>

definition resolve_observation ::
  "(real \<Rightarrow> real) \<Rightarrow> digests \<Rightarrow> state_registry \<Rightarrow> analysis_view \<Rightarrow> stored_rule \<Rightarrow> (pyval \<times> alert_context) option result"
where
  "resolve_observation rnd digests reg view r =
     (if al_condition_type r = ''VALUE'' then
        emap (map_option (\<lambda>x. (as_object [(''value'', VFloat (Fin (so_value x)))],
          \<lparr>cx_date = so_date x, cx_current = Some (so_value x), cx_previous = so_previous x, cx_change = so_delta x,
           cx_details = None, cx_state = None, cx_provenance = []\<rparr>))) (resolve_value rnd digests view r)
      else
        emap (map_option (\<lambda>x. (VBool (st_active x),
          \<lparr>cx_date = st_date x, cx_current = None, cx_previous = None, cx_change = None,
           cx_details = Some (st_context x), cx_state = Some (st_row x), cx_provenance = []\<rparr>))) (resolve_state rnd reg view r))"

definition evaluate_locked ::
  "(real \<Rightarrow> real) \<Rightarrow> digests \<Rightarrow> renderers \<Rightarrow> (string \<Rightarrow> int option) \<Rightarrow> state_registry \<Rightarrow> analysis_view \<Rightarrow> alert_security \<Rightarrow> int \<Rightarrow>
     int option \<Rightarrow> stored_rule \<Rightarrow> alert_instance option \<Rightarrow> int \<Rightarrow> (rule_state option \<times> evaluation_result) result"
where
  "evaluate_locked rnd digests renderers fromiso reg view s now observation_date r inst next_id =
     (if \<not> al_enabled r then Ok (None, quiet (al_id r) ALERT_RESET)
      else
        ebind (if al_condition_type r = ''STATE'' then emap (\<lambda>_. ()) (validated_state_code reg (al_state_code r)) else Ok ()) (\<lambda>_.
        ebind (resolve_observation rnd digests reg view r) (\<lambda>found.
        case found of
          None \<Rightarrow> unavailable_observation rnd digests renderers fromiso reg view s now observation_date r inst next_id
        | Some (ob, cx) \<Rightarrow>
            if observation_date \<noteq> None \<and> Some (cx_date cx) \<noteq> observation_date
            then unavailable_observation rnd digests renderers fromiso reg view s now observation_date r inst next_id
            else
              ebind (make_domain_rule rnd reg r) (\<lambda>_.
              let inst' = map_option (reset_outdated r) inst in
              case (observation_date, inst') of
                (Some _, Some i) \<Rightarrow>
                  (case ai_last_evaluated i of
                     None \<Rightarrow> evaluate_direct rnd renderers reg view s now True ob cx r inst' next_id
                   | Some w \<Rightarrow>
                       if cx_date cx < w then Ok (Some (start_state r i next_id), quiet (al_id r) (ai_status i))
                       else if w < cx_date cx \<and> al_indicator_type r \<noteq> Some ''DIVIDEND_YIELD'' then
                         ebind (catch_up rnd digests renderers fromiso reg view s now w (cx_date cx) (Some ob) (start_state r i next_id)) (\<lambda>replay.
                         case replay of
                           Some (st, res) \<Rightarrow> Ok (Some st, res)
                         | None \<Rightarrow> evaluate_direct rnd renderers reg view s now True ob cx r inst' next_id)
                       else evaluate_direct rnd renderers reg view s now True ob cx r inst' next_id)
              | _ \<Rightarrow> evaluate_direct rnd renderers reg view s now (observation_date \<noteq> None) ob cx r inst' next_id))))"

definition apply_state :: "rule_state \<Rightarrow> alert_db \<Rightarrow> alert_db" where
  "apply_state st db =
     (let db' = store_instance (ru_instance st) (store_rule (ru_rule st) db)
      in db'\<lparr>ad_outbox := ad_outbox db' @ ru_queued st, ad_next_notification := ru_next st\<rparr>)"

text \<open>The security joined to the rule; a missing one is shown by its number.\<close>

definition joined_security :: "alert_db \<Rightarrow> stored_rule \<Rightarrow> alert_security" where
  "joined_security db r = (case dict_get (ad_securities db) (al_security_id r) of
      Some s \<Rightarrow> s
    | None \<Rightarrow> \<lparr>ac_symbol = int_str (al_security_id r), ac_name = int_str (al_security_id r), ac_status = []\<rparr>)"

definition evaluate_rule ::
  "(real \<Rightarrow> real) \<Rightarrow> digests \<Rightarrow> renderers \<Rightarrow> (string \<Rightarrow> int option) \<Rightarrow> state_registry \<Rightarrow> analysis_view \<Rightarrow> int \<Rightarrow> int option \<Rightarrow> int \<Rightarrow>
     alert_db \<Rightarrow> alert_db \<times> evaluation_result result"
where
  "evaluate_rule rnd digests renderers fromiso reg view now observation_date rule_id db =
     (case find_rule db rule_id None of
        None \<Rightarrow> (db, Raise alert_not_found)
      | Some r \<Rightarrow>
          (case evaluate_locked rnd digests renderers fromiso reg view (joined_security db r) now observation_date r
              (get_instance db (al_id r) (al_security_id r)) (ad_next_notification db) of
             Inl e \<Rightarrow> (db, Raise e)
           | Inr (None, res) \<Rightarrow> (db, Ok res)
           | Inr (Some st, res) \<Rightarrow> (apply_state st db, Ok res)))"

text \<open>
  The scheduled evaluation of all rules: those of active users on active securities, by user and
  rule, without the streams that are not eligible and the symbols without dividends. An expected
  error skips the rule; any other exception ends the loop.
\<close>

definition due_rules :: "alert_db \<Rightarrow> int list \<Rightarrow> string list \<Rightarrow> (string \<times> string) list option \<Rightarrow> int list" where
  "due_rules db active_users blocked eligible =
     map al_id (filter (\<lambda>r.
         let symbol = ac_symbol (joined_security db r); dividend = (upper (text_or (al_indicator_type r) []) = ''DIVIDEND_YIELD'') in
         al_enabled r \<and> al_user_id r \<in> set active_users \<and> ac_status (joined_security db r) = ''ACTIVE'' \<and>
         (dividend \<or> eligible = None \<or> (symbol, al_adjust_type r) \<in> set (the eligible)) \<and>
         \<not> (dividend \<and> upper symbol \<in> set (map upper blocked)))
       (sort_key (\<lambda>r. (al_user_id r, al_id r)) (ad_rules db)))"

fun evaluate_rules ::
  "(int \<Rightarrow> alert_db \<Rightarrow> alert_db \<times> evaluation_result result) \<Rightarrow> int list \<Rightarrow> alert_db \<Rightarrow> alert_db \<times> evaluation_result list result"
where
  "evaluate_rules evaluate [] db = (db, Ok [])"
| "evaluate_rules evaluate (rule_id # ids) db = (case evaluate rule_id db of
     (db', Inl (ApiError code m st)) \<Rightarrow>
       (case evaluate_rules evaluate ids db' of (db'', rs) \<Rightarrow>
          (db'', emap ((#) ((quiet rule_id ALERT_RESET)\<lparr>er_error_code := Some code\<rparr>)) rs))
   | (db', Inl e) \<Rightarrow> (db', Raise e)
   | (db', Inr res) \<Rightarrow> (case evaluate_rules evaluate ids db' of (db'', rs) \<Rightarrow> (db'', emap ((#) res) rs)))"

definition evaluate_all ::
  "(real \<Rightarrow> real) \<Rightarrow> digests \<Rightarrow> renderers \<Rightarrow> (string \<Rightarrow> int option) \<Rightarrow> state_registry \<Rightarrow> analysis_view \<Rightarrow> int \<Rightarrow> int option \<Rightarrow> int list \<Rightarrow>
     string list \<Rightarrow> (string \<times> string) list option \<Rightarrow> alert_db \<Rightarrow> alert_db \<times> evaluation_result list result"
where
  "evaluate_all rnd digests renderers fromiso reg view now observation_date active_users blocked eligible db =
     evaluate_rules (evaluate_rule rnd digests renderers fromiso reg view now observation_date)
       (due_rules db active_users blocked eligible) db"

end
