(* ===== verification/Alert_Runs.thy ===== *)
theory Alert_Runs
  imports Alert_Service "HOL-Library.Sublist"
begin

text \<open>
  What the operations on stored alert rules do to the tables: the rows an evaluation queues, their
  numbers and dates, the invariant of the tables over every sequence of operations, and the
  contract between stored rules and the evaluator.
\<close>

section \<open>What an evaluation adds\<close>

text \<open>
  A rule state grown by queued rows: they carry the identity of the rule and numbers above its
  counter, which ends at least at the last of them; nothing else of rule and identity changes.
\<close>

definition same_identity :: "rule_state \<Rightarrow> rule_state \<Rightarrow> bool" where
  "same_identity st st' \<longleftrightarrow> (\<exists>q. ru_rule st' = (ru_rule st)\<lparr>al_trigger_sequence := q\<rparr>) \<and>
     ai_rule_id (ru_instance st') = ai_rule_id (ru_instance st) \<and> ai_security_id (ru_instance st') = ai_security_id (ru_instance st) \<and>
     ai_rule_version (ru_instance st') = ai_rule_version (ru_instance st)"

definition row_of_rule :: "stored_rule \<Rightarrow> alert_notification \<Rightarrow> bool" where
  "row_of_rule r n \<longleftrightarrow> an_rule_id n = Some (al_id r) \<and> an_security_id n = al_security_id r \<and> an_rule_version n = al_rule_version r"

definition grown :: "rule_state \<Rightarrow> alert_notification list \<Rightarrow> rule_state \<Rightarrow> bool" where
  "grown st rows st' \<longleftrightarrow> ru_queued st' = ru_queued st @ rows \<and> same_identity st st' \<and> (\<forall>n \<in> set rows. row_of_rule (ru_rule st) n) \<and>
     sorted_wrt (<) (map an_sequence rows) \<and>
     (\<forall>q \<in> set (map an_sequence rows). al_trigger_sequence (ru_rule st) < q \<and> q \<le> al_trigger_sequence (ru_rule st')) \<and>
     al_trigger_sequence (ru_rule st) \<le> al_trigger_sequence (ru_rule st') \<and>
     map nt_id rows = [ru_next st..ru_next st' - 1] \<and> ru_next st \<le> ru_next st'"

lemma same_identity_refl [simp]: "same_identity st st"
  unfolding same_identity_def by (intro conjI exI [of _ "al_trigger_sequence (ru_rule st)"]) simp_all

lemma same_identity_trans: "same_identity a b \<Longrightarrow> same_identity b c \<Longrightarrow> same_identity a c"
  by (auto simp: same_identity_def)

lemma row_of_rule_sequence [simp]: "row_of_rule (r\<lparr>al_trigger_sequence := q\<rparr>) n = row_of_rule r n"
  by (simp add: row_of_rule_def)

lemma upto_append: "i \<le> j \<Longrightarrow> j \<le> k \<Longrightarrow> [i..j - 1] @ [j..k - 1] = [i..k - (1::int)]"
  using upto_split1 [of i "j" "k"] by (cases "j = k") (auto simp: upto_split1 [of i j "k - 1"])

lemma grown_refl: "grown st [] st"
  by (simp add: grown_def)

lemma grown_trans:
  assumes "grown a xs b" "grown b ys c"
  shows "grown a (xs @ ys) c"
proof -
  have rows: "row_of_rule (ru_rule b) n = row_of_rule (ru_rule a) n" for n
    using assms(1) by (auto simp: grown_def same_identity_def)
  have ids: "map nt_id (xs @ ys) = [ru_next a..ru_next c - 1]"
    using assms by (simp add: grown_def upto_append)
  show ?thesis
    using assms rows ids same_identity_trans [of a b c] unfolding grown_def
    by (auto simp: sorted_wrt_append) (meson order.trans order_le_less_trans order_less_le_trans)+
qed

lemma grown_set_status [simp]: "grown st rows (set_status s st') \<longleftrightarrow> grown st rows st'" "grown (set_status s st) rows st' \<longleftrightarrow> grown st rows st'"
  by (simp_all add: grown_def set_status_def same_identity_def)

lemma enqueue_trigger_grown:
  assumes "enqueue_trigger rnd renderers s now cx st = Inr st'"
  obtains n where "grown st [n] st'" "an_observation_date n = cx_date cx" "ai_status (ru_instance st') = ai_status (ru_instance st)"
    "ai_last_evaluated (ru_instance st') = ai_last_evaluated (ru_instance st)" "nt_status n = PENDING"
proof -
  obtain n where n: "ru_queued st' = ru_queued st @ [n]" "row_of_rule (ru_rule st) n" "an_observation_date n = cx_date cx"
      "an_sequence n = max (al_trigger_sequence (ru_rule st)) (ai_trigger_sequence (ru_instance st)) + 1" "nt_id n = ru_next st"
      "al_trigger_sequence (ru_rule st') = an_sequence n" "nt_status n = PENDING"
    using assms by (fastforce simp: enqueue_trigger_def Let_def row_of_rule_def enqueue_def notification.defs alert_notification.defs)
  have "same_identity st st'" "ru_next st' = ru_next st + 1" "ai_status (ru_instance st') = ai_status (ru_instance st)"
      "ai_last_evaluated (ru_instance st') = ai_last_evaluated (ru_instance st)"
    using assms by (auto simp: enqueue_trigger_def Let_def same_identity_def)
  with n have "grown st [n] st'" by (simp add: grown_def)
  with n that \<open>ai_status (ru_instance st') = _\<close> \<open>ai_last_evaluated (ru_instance st') = _\<close> show thesis by blast
qed

text \<open>A replay queues rows whose dates are a subsequence of the dates it walks over.\<close>

definition replayed :: "rule_state \<Rightarrow> int list \<Rightarrow> rule_state \<Rightarrow> bool" where
  "replayed st dates st' \<longleftrightarrow> (\<exists>rows. grown st rows st' \<and> subseq (map an_observation_date rows) dates \<and> (\<forall>n \<in> set rows. nt_status n = PENDING))"

lemma replayed_Nil: "replayed st [] st"
  using grown_refl unfolding replayed_def by (intro exI [of _ "[]"]) simp

lemma replayed_skip: "replayed st ds st' \<Longrightarrow> replayed st (d # ds) st'"
  unfolding replayed_def by (auto intro: list_emb_Cons)

lemma replayed_set_status [simp]: "replayed (set_status s st) ds st' \<longleftrightarrow> replayed st ds st'"
  by (simp add: replayed_def)

lemma replayed_queue:
  assumes "enqueue_trigger rnd renderers s now cx st = Inr st1" "cx_date cx = d" "replayed st1 ds st'"
  shows "replayed st (d # ds) st'"
proof -
  obtain n where n: "grown st [n] st1" "an_observation_date n = d" "nt_status n = PENDING"
    using enqueue_trigger_grown [OF assms(1)] assms(2) by blast
  obtain rows where rows: "grown st1 rows st'" "subseq (map an_observation_date rows) ds" "\<forall>n \<in> set rows. nt_status n = PENDING"
    using assms(3) by (auto simp: replayed_def)
  show ?thesis
    using grown_trans [OF n(1) rows(1)] rows(2,3) n(2,3) unfolding replayed_def by (intro exI [of _ "n # rows"]) auto
qed

lemma catch_up_events_replayed:
  "catch_up_events rnd renderers view s domain edge now fin es st = Inr st' \<Longrightarrow> replayed st (map va_trade_date es) st'"
proof (induction es arbitrary: st)
  case Nil
  then show ?case by (simp add: replayed_Nil)
next
  case (Cons e es)
  let ?rest = "\<lambda>st. catch_up_events rnd renderers view s domain edge now fin es st = Inr st'"
  from Cons.prems consider (skip) "?rest st" | (quiet) status where "?rest (set_status status st)"
    | (queued) status details st1 where "enqueue_trigger rnd renderers s now (event_context view fin e details (ru_rule st)) (set_status status st) = Inr st1"
        "?rest st1"
    by (auto simp: Let_def split: if_splits)
  then show ?case
  proof cases
    case skip
    from Cons.IH [OF this] show ?thesis by (simp add: replayed_skip)
  next
    case quiet
    from Cons.IH [OF this] show ?thesis by (simp add: replayed_skip)
  next
    case queued
    from replayed_queue [OF queued(1) _ Cons.IH [OF queued(2)]] show ?thesis by (simp add: event_context_def)
  qed
qed

lemma catch_up_snapshots_replayed:
  "catch_up_snapshots rnd digests renderers fromiso s domain now fin sns st = Inr st' \<Longrightarrow> replayed st (map sn_trade_date sns) st'"
proof (induction sns arbitrary: st)
  case Nil
  then show ?case by (simp add: replayed_Nil)
next
  case (Cons sn sns)
  let ?rest = "\<lambda>st. catch_up_snapshots rnd digests renderers fromiso s domain now fin sns st = Inr st'"
  from Cons.prems consider (skip) "?rest st" | (quiet) status where "?rest (set_status status st)"
    | (queued) status x st1 where "enqueue_trigger rnd renderers s now (snapshot_context fin sn x) (set_status status st) = Inr st1" "?rest st1"
    by (auto split: option.splits if_splits)
  then show ?case
  proof cases
    case skip
    from Cons.IH [OF this] show ?thesis by (simp add: replayed_skip)
  next
    case quiet
    from Cons.IH [OF this] show ?thesis by (simp add: replayed_skip)
  next
    case queued
    from replayed_queue [OF queued(1) _ Cons.IH [OF queued(2)]] show ?thesis by (simp add: snapshot_context_def)
  qed
qed

text \<open>
  A catch-up leaves the watermark at its last date, and what it queues is dated after the old one
  and in order.
\<close>

lemma pending_events_dates:
  assumes "d \<in> set (map va_trade_date (pending_events store r first fin consumed))"
  shows "first \<le> d \<and> d \<le> fin"
  using assms by (auto simp: pending_events_def dest!: in_set_takeD)

lemma pending_snapshots_dates:
  assumes "d \<in> set (map sn_trade_date (pending_snapshots view r first fin))"
  shows "first \<le> d \<and> d \<le> fin"
  using assms by (auto simp: pending_snapshots_def dest!: in_set_takeD)

lemma sorted_fst_lex: "sorted (map (\<lambda>x. (f x, g x)) xs) \<Longrightarrow> sorted (map f xs)" for f :: "'a \<Rightarrow> int" and g :: "'a \<Rightarrow> int"
  by (induction xs) (auto simp: less_eq_prod_def)

lemma pending_events_sorted: "sorted (map va_trade_date (pending_events store r first fin consumed))"
  unfolding pending_events_def by (simp add: take_map [symmetric] sorted_wrt_take sorted_fst_lex [of _ ev_seq])

lemma pending_snapshots_sorted: "sorted (map sn_trade_date (pending_snapshots view r first fin))"
  unfolding pending_snapshots_def by (simp add: take_map [symmetric] sorted_wrt_take)

lemma replayed_instance [simp]:
  "replayed st ds (st'\<lparr>ru_instance := (ru_instance st')\<lparr>ai_last_consumed_state_seq := q\<rparr>\<rparr>) \<longleftrightarrow> replayed st ds st'"
  "replayed st ds (st'\<lparr>ru_instance := (ru_instance st')\<lparr>ai_last_evaluated := w\<rparr>\<rparr>) \<longleftrightarrow> replayed st ds st'"
  "replayed st ds (set_status status st') \<longleftrightarrow> replayed st ds st'"
  by (simp_all add: replayed_def grown_def same_identity_def set_status_def)

definition replayed_between :: "int \<Rightarrow> int \<Rightarrow> rule_state \<Rightarrow> rule_state \<Rightarrow> bool" where
  "replayed_between watermark fin st st' \<longleftrightarrow> (\<exists>dates. replayed st dates st' \<and> sorted dates \<and> (\<forall>d \<in> set dates. watermark < d \<and> d \<le> fin))"

lemma replay_states_between:
  assumes "replay_states rnd renderers reg view s domain now watermark fin ob store st = Inr st'"
  shows "replayed_between watermark fin st st'"
proof -
  let ?events = "pending_events store (ru_rule st) (watermark + 1) fin (ai_last_consumed_state_seq (ru_instance st))"
  from assms have "replayed st (map va_trade_date ?events) st'"
    by (cases ob) (auto simp: replay_states_def Let_def split: if_splits dest!: catch_up_events_replayed)
  moreover have "\<forall>d \<in> set (map va_trade_date ?events). watermark < d \<and> d \<le> fin"
    by (intro ballI) (drule pending_events_dates, linarith)
  ultimately show ?thesis
    unfolding replayed_between_def using pending_events_sorted by (intro exI [of _ "map va_trade_date ?events"] conjI)
qed

lemma replay_values_between:
  assumes "replay_values rnd digests renderers fromiso view s domain now watermark fin st = Inr st'"
  shows "replayed_between watermark fin st st'"
proof -
  let ?sns = "pending_snapshots view (ru_rule st) (watermark + 1) fin"
  from assms have "replayed st (map sn_trade_date ?sns) st'"
    by (auto simp: replay_values_def Let_def split: if_splits dest!: catch_up_snapshots_replayed)
  moreover have "\<forall>d \<in> set (map sn_trade_date ?sns). watermark < d \<and> d \<le> fin"
    by (intro ballI) (drule pending_snapshots_dates, linarith)
  ultimately show ?thesis
    unfolding replayed_between_def using pending_snapshots_sorted by (intro exI [of _ "map sn_trade_date ?sns"] conjI)
qed

lemma catch_up_between:
  assumes "catch_up rnd digests renderers fromiso reg view s now watermark fin ob st = Inr (Some (st', res))"
  shows "replayed_between watermark fin st st'" "ai_last_evaluated (ru_instance st') = Some fin"
proof -
  from assms obtain st1 where st1: "(st', res) = replay_result fin st st1" "replayed_between watermark fin st st1"
    unfolding catch_up_def by (auto split: if_splits option.splits prod.splits dest: replay_states_between replay_values_between)
  from st1(1) have "st' = st1\<lparr>ru_instance := (ru_instance st1)\<lparr>ai_last_evaluated := Some fin\<rparr>\<rparr>"
    by (simp add: replay_result_def Let_def)
  with st1(2) show "replayed_between watermark fin st st'" "ai_last_evaluated (ru_instance st') = Some fin"
    by (simp_all add: replayed_between_def)
qed

section \<open>The outcome of an evaluation\<close>

text \<open>
  A committed evaluation grows the state of its rule. A scheduled one leaves the watermark at its
  date or later and queues rows after the watermark it found, up to its date.
\<close>

definition of_rule :: "stored_rule \<Rightarrow> alert_instance \<Rightarrow> bool" where
  "of_rule r i \<longleftrightarrow> ai_rule_id i = al_id r \<and> ai_security_id i = al_security_id r"

definition evaluated :: "stored_rule \<Rightarrow> int \<Rightarrow> alert_notification list \<Rightarrow> rule_state \<Rightarrow> bool" where
  "evaluated r next_id rows st \<longleftrightarrow> (\<exists>i. of_rule r i \<and> grown (start_state r i next_id) rows st) \<and> (\<forall>n \<in> set rows. nt_status n = PENDING)"

definition watermark :: "stored_rule \<Rightarrow> alert_instance option \<Rightarrow> int option" where
  "watermark r inst = (case inst of
      Some i \<Rightarrow> if ai_rule_version i = al_rule_version r then ai_last_evaluated i else None
    | None \<Rightarrow> None)"

definition on_schedule :: "stored_rule \<Rightarrow> int option \<Rightarrow> int \<Rightarrow> alert_notification list \<Rightarrow> rule_state \<Rightarrow> bool" where
  "on_schedule r before d rows st \<longleftrightarrow>
     (\<exists>w. watermark r (Some (ru_instance st)) = Some w \<and> d \<le> w \<and> (\<forall>v. before = Some v \<longrightarrow> v \<le> w)) \<and>
     sorted (map an_observation_date rows) \<and>
     (\<forall>n \<in> set rows. an_observation_date n \<le> d \<and> (\<forall>v. before = Some v \<longrightarrow> v < an_observation_date n))"

lemma evaluated_start: "of_rule r i \<Longrightarrow> evaluated r next_id [] (start_state r i next_id)"
  using grown_refl by (auto simp: evaluated_def)

lemma start_state_simps [simp]:
  "ru_rule (start_state r i k) = r" "ru_instance (start_state r i k) = i" "ru_queued (start_state r i k) = []" "ru_next (start_state r i k) = k"
  by (simp_all add: start_state_def)

lemma subseq_subset: "subseq xs ys \<Longrightarrow> set xs \<subseteq> set ys"
  by (induction rule: list_emb.induct) auto

lemma subseq_sorted: "subseq xs ys \<Longrightarrow> sorted ys \<Longrightarrow> sorted xs"
  by (induction rule: list_emb.induct) (auto dest: subseq_subset)

lemma evaluated_replay:
  assumes "replayed_between v d (start_state r i next_id) st" "of_rule r i" "ai_rule_version i = al_rule_version r"
    "ai_last_evaluated (ru_instance st) = Some d" "v < d"
  shows "\<exists>rows. evaluated r next_id rows st \<and> on_schedule r (Some v) d rows st"
proof -
  from assms(1) obtain dates rows where rows: "grown (start_state r i next_id) rows st" "subseq (map an_observation_date rows) dates"
      "sorted dates" "\<forall>n \<in> set rows. nt_status n = PENDING" "\<forall>d' \<in> set dates. v < d' \<and> d' \<le> d"
    by (auto simp: replayed_between_def replayed_def)
  have "sorted (map an_observation_date rows)"
    using rows(2,3) by (rule subseq_sorted)
  moreover have "\<forall>n \<in> set rows. v < an_observation_date n \<and> an_observation_date n \<le> d"
    using rows(5) subseq_subset [OF rows(2)] by auto
  moreover have "ai_rule_version (ru_instance st) = al_rule_version r"
    using rows(1) assms(3) by (simp add: grown_def same_identity_def)
  ultimately show ?thesis
    using rows(1,4) assms(2,4,5) unfolding evaluated_def on_schedule_def watermark_def by (intro exI [of _ rows]) auto
qed

lemma evaluate_tail_outcome:
  assumes "evaluate_tail rnd renderers view s now status triggered cx r inst next_id = Inr (Some st, res)"
    "\<And>i. inst = Some i \<Longrightarrow> of_rule r i \<and> ai_rule_version i = al_rule_version r"
  shows "\<exists>rows. evaluated r next_id rows st \<and> watermark r (Some (ru_instance st)) = Some (cx_date cx) \<and>
     (\<forall>n \<in> set rows. an_observation_date n = cx_date cx) \<and> length rows \<le> 1"
proof -
  obtain i where i: "of_rule r i" "ai_rule_version i = al_rule_version r" "ai_last_evaluated i = Some (cx_date cx)"
      and st: "if triggered then enqueue_trigger rnd renderers s now cx (start_state r i next_id) = Inr st else st = start_state r i next_id"
  proof (rule that)
    let ?base = "case inst of None \<Rightarrow> new_instance r status (cx_date cx) | Some i \<Rightarrow> i\<lparr>ai_status := status\<rparr>"
    let ?dated = "(if triggered then ?base\<lparr>ai_last_trigger_time := Some now\<rparr> else ?base)\<lparr>ai_last_evaluated := Some (cx_date cx)\<rparr>"
    let ?i = "case (al_condition_type r = ''STATE'', stream_of view r) of
        (True, Some (_, store)) \<Rightarrow> ?dated\<lparr>ai_last_consumed_state_seq := es_sequence store\<rparr> | _ \<Rightarrow> ?dated"
    have base: "of_rule r ?base" "ai_rule_version ?base = al_rule_version r"
      using assms(2) by (cases inst; simp add: of_rule_def new_instance_def)+
    then show "of_rule r ?i" "ai_rule_version ?i = al_rule_version r" "ai_last_evaluated ?i = Some (cx_date cx)"
      by (simp_all add: of_rule_def split: option.splits bool.splits prod.splits)
    show "if triggered then enqueue_trigger rnd renderers s now cx (start_state r ?i next_id) = Inr st else st = start_state r ?i next_id"
      using assms(1) by (simp add: evaluate_tail_def Let_def split: if_splits)
  qed
  show ?thesis
  proof (cases triggered)
    case False
    with st i show ?thesis by (intro exI [of _ "[]"]) (simp add: evaluated_start watermark_def)
  next
    case True
    with st obtain n where n: "grown (start_state r i next_id) [n] st" "an_observation_date n = cx_date cx"
        "ai_last_evaluated (ru_instance st) = Some (cx_date cx)" "nt_status n = PENDING"
      using enqueue_trigger_grown [of rnd renderers s now cx "start_state r i next_id" st] i(3) by auto
    moreover from n(1) i(2) have "ai_rule_version (ru_instance st) = al_rule_version r"
      by (simp add: grown_def same_identity_def)
    ultimately show ?thesis
      using i(1) unfolding evaluated_def watermark_def by (intro exI [of _ "[n]"]) auto
  qed
qed

text \<open>The direct evaluation; a scheduled one has not gone past its date yet.\<close>

lemma evaluate_direct_outcome:
  assumes "evaluate_direct rnd renderers reg view s now scheduled ob cx r inst next_id = Inr (Some st, res)"
    "\<And>i. inst = Some i \<Longrightarrow> of_rule r i \<and> ai_rule_version i = al_rule_version r"
  shows "\<exists>rows. evaluated r next_id rows st \<and>
     (scheduled \<longrightarrow> (\<forall>v. watermark r inst = Some v \<longrightarrow> v \<le> cx_date cx) \<longrightarrow> on_schedule r (watermark r inst) (cx_date cx) rows st)"
proof (cases "scheduled \<and> watermark r inst = Some (cx_date cx)")
  case True
  then obtain i where i: "inst = Some i" "ai_last_evaluated i = Some (cx_date cx)" "ai_rule_version i = al_rule_version r"
    by (auto simp: watermark_def split: option.splits if_splits)
  with assms(1) True obtain status where "st = start_state r (i\<lparr>ai_status := status\<rparr>) next_id"
    by (auto simp: evaluate_direct_def)
  with i assms(2) [OF i(1)] show ?thesis
    by (intro exI [of _ "[]"]) (simp add: evaluated_start of_rule_def on_schedule_def watermark_def)
next
  case False
  have fresh: "scheduled \<Longrightarrow> inst = Some i \<Longrightarrow> ai_last_evaluated i \<noteq> Some (cx_date cx)" for i
    using False assms(2) by (auto simp: watermark_def)
  from assms(1) obtain status triggered where
      "evaluate_tail rnd renderers view s now status triggered cx r inst next_id = Inr (Some st, res)"
    by (auto simp: evaluate_direct_def fresh split: bool.splits option.splits if_splits)
  from evaluate_tail_outcome [OF this assms(2)] obtain rows where rows: "evaluated r next_id rows st"
      "watermark r (Some (ru_instance st)) = Some (cx_date cx)" "\<forall>n \<in> set rows. an_observation_date n = cx_date cx" "length rows \<le> 1"
    by blast
  have "sorted (map an_observation_date rows)" using rows(4) by (cases rows) auto
  with rows False show ?thesis
    unfolding on_schedule_def by (intro exI [of _ rows]) (auto simp: order.strict_iff_order)
qed

lemma unavailable_observation_outcome:
  assumes "unavailable_observation rnd digests renderers fromiso reg view s now od r inst next_id = Inr (Some st, res)"
    "\<And>i. inst = Some i \<Longrightarrow> of_rule r i"
  obtains d rows where "od = Some d" "evaluated r next_id rows st" "on_schedule r (watermark r inst) d rows st"
proof -
  from assms(1) obtain d stream store where d: "od = Some d" "stream_of view r = Some (stream, store)"
    by (auto simp: unavailable_observation_def split: option.splits prod.splits)
  let ?fresh = "case inst of
      None \<Rightarrow> (new_instance r ALERT_RESET d)\<lparr>ai_last_consumed_state_seq := es_sequence store\<rparr>
    | Some i \<Rightarrow>
        if ai_rule_version i \<noteq> al_rule_version r
        then i\<lparr>ai_rule_version := al_rule_version r, ai_status := ALERT_RESET, ai_last_evaluated := Some d,
          ai_last_consumed_state_seq := es_sequence store\<rparr>
        else if ai_last_evaluated i = None \<or> the (ai_last_evaluated i) \<le> d
        then i\<lparr>ai_last_evaluated := Some d, ai_last_consumed_state_seq := es_sequence store\<rparr> else i"
  from assms(1) d consider (fresh) "st = start_state r ?fresh next_id"
    | (replay) i w where "inst = Some i" "ai_rule_version i = al_rule_version r" "ai_last_evaluated i = Some w" "w < d"
        "catch_up rnd digests renderers fromiso reg view s now w d None (start_state r i next_id) = Inr (Some (st, res))"
    by (cases inst) (auto simp: unavailable_observation_def split: if_splits option.splits)
  then show thesis
  proof cases
    case fresh
    have "of_rule r ?fresh"
      using assms(2) by (cases inst; simp add: of_rule_def new_instance_def)
    moreover have "on_schedule r (watermark r inst) d [] st"
      by (cases inst) (auto simp: fresh on_schedule_def watermark_def new_instance_def)
    ultimately show thesis using that d(1) fresh evaluated_start by blast
  next
    case replay
    from evaluated_replay [OF catch_up_between(1) [OF replay(5)] assms(2) [OF replay(1)] replay(2) catch_up_between(2) [OF replay(5)] replay(4)]
    obtain rows where "evaluated r next_id rows st" "on_schedule r (Some w) d rows st" by blast
    with replay that d(1) show thesis by (simp add: watermark_def)
  qed
qed

lemma reset_outdated_simps [simp]:
  "of_rule r (reset_outdated r i) \<longleftrightarrow> of_rule r i" "ai_rule_version (reset_outdated r i) = al_rule_version r"
  "watermark r (Some (reset_outdated r i)) = watermark r (Some i)" "ai_last_evaluated (reset_outdated r i) = watermark r (Some i)"
  by (simp_all add: reset_outdated_def of_rule_def watermark_def)

lemma watermark_map_reset [simp]: "watermark r (map_option (reset_outdated r) inst) = watermark r inst"
  by (cases inst) simp_all

lemma evaluate_locked_cases:
  assumes "evaluate_locked rnd digests renderers fromiso reg view s now od r inst next_id = Inr (Some st, res)"
  obtains
      (unavailable) "unavailable_observation rnd digests renderers fromiso reg view s now od r inst next_id = Inr (Some st, res)"
    | (past) i w d where "inst = Some i" "od = Some d" "watermark r inst = Some w" "d < w" "st = start_state r (reset_outdated r i) next_id"
    | (replay) i w d ob where "inst = Some i" "od = Some d" "watermark r inst = Some w" "w < d"
        "catch_up rnd digests renderers fromiso reg view s now w d ob (start_state r (reset_outdated r i) next_id) = Inr (Some (st, res))"
    | (direct) ob cx where
        "evaluate_direct rnd renderers reg view s now (od \<noteq> None) ob cx r (map_option (reset_outdated r) inst) next_id = Inr (Some st, res)"
        "\<And>d. od = Some d \<Longrightarrow> cx_date cx = d" "\<And>d w. od = Some d \<Longrightarrow> watermark r inst = Some w \<Longrightarrow> w \<le> d"
proof -
  from assms(1) obtain found where found: "resolve_observation rnd digests reg view r = Inr found"
    by (auto simp: evaluate_locked_def split: if_splits)
  show thesis
  proof (cases "\<exists>ob cx. found = Some (ob, cx) \<and> (od = None \<or> od = Some (cx_date cx))")
    case False
    with assms(1) found unavailable show thesis
      by (cases found) (auto simp: evaluate_locked_def split: if_splits)
  next
    case True
    then obtain ob cx where ob: "found = Some (ob, cx)" "od = None \<or> od = Some (cx_date cx)" by blast
    show thesis
    proof (cases "od = None \<or> watermark r inst = None")
      case True
      with assms(1) found ob show thesis
        by (intro direct [of ob cx]; cases inst) (auto simp: evaluate_locked_def Let_def split: if_splits)
    next
      case False
      then obtain w i where w: "watermark r inst = Some w" "inst = Some i" "od = Some (cx_date cx)"
        using ob(2) by (cases inst) (auto simp: watermark_def)
      with assms(1) found ob show thesis
        by (auto simp: evaluate_locked_def Let_def split: if_splits option.splits intro: past replay direct)
    qed
  qed
qed

lemma evaluate_locked_outcome:
  assumes "evaluate_locked rnd digests renderers fromiso reg view s now od r inst next_id = Inr (Some st, res)"
    and inst: "\<And>i. inst = Some i \<Longrightarrow> of_rule r i"
  obtains rows where "evaluated r next_id rows st" "\<And>d. od = Some d \<Longrightarrow> on_schedule r (watermark r inst) d rows st"
  using assms(1)
proof (cases rule: evaluate_locked_cases)
  case unavailable
  from unavailable_observation_outcome [OF this inst] that show thesis by (metis option.inject)
next
  case (past i w d)
  then have "evaluated r next_id [] st" "on_schedule r (watermark r inst) d [] st"
    using inst [OF past(1)] by (simp_all add: evaluated_start on_schedule_def)
  with past(2) that show thesis by blast
next
  case (replay i w d ob)
  have "of_rule r (reset_outdated r i)" using inst [OF replay(1)] by simp
  from evaluated_replay [OF catch_up_between(1) [OF replay(5)] this _ catch_up_between(2) [OF replay(5)] replay(4)]
  obtain rows where "evaluated r next_id rows st" "on_schedule r (Some w) d rows st" by auto
  with replay(2,3) that [of rows] show thesis by simp
next
  case (direct ob cx)
  have own: "of_rule r i \<and> ai_rule_version i = al_rule_version r" if "map_option (reset_outdated r) inst = Some i" for i
    using that inst by (cases inst) auto
  have "\<exists>rows. evaluated r next_id rows st \<and> (od \<noteq> None \<longrightarrow>
      (\<forall>v. watermark r inst = Some v \<longrightarrow> v \<le> cx_date cx) \<longrightarrow> on_schedule r (watermark r inst) (cx_date cx) rows st)"
    by (rule evaluate_direct_outcome [OF direct(1), unfolded watermark_map_reset]) (rule own)
  then obtain rows where rows: "evaluated r next_id rows st \<and> (od \<noteq> None \<longrightarrow>
      (\<forall>v. watermark r inst = Some v \<longrightarrow> v \<le> cx_date cx) \<longrightarrow> on_schedule r (watermark r inst) (cx_date cx) rows st)" ..
  show thesis
  proof (rule that [OF conjunct1 [OF rows]])
    fix d assume "od = Some d"
    with rows direct(2,3) show "on_schedule r (watermark r inst) d rows st" by simp
  qed
qed

section \<open>The tables\<close>

text \<open>
  Unique identifiers; at most one instance of a rule, on the security it watches; every notification
  that still refers to a rule has a number the rule has handed out, and no number twice.
\<close>

definition refers :: "alert_notification \<Rightarrow> bool" where
  "refers n \<longleftrightarrow> an_rule_id n \<noteq> None"

definition handed_out :: "stored_rule list \<Rightarrow> alert_notification \<Rightarrow> bool" where
  "handed_out rs n \<longleftrightarrow> (\<exists>r \<in> set rs. an_rule_id n = Some (al_id r) \<and> an_sequence n \<le> al_trigger_sequence r \<and>
     an_rule_version n \<le> al_rule_version r)"

definition attached :: "stored_rule list \<Rightarrow> alert_instance \<Rightarrow> bool" where
  "attached rs i \<longleftrightarrow> (\<exists>r \<in> set rs. of_rule r i)"

definition alert_tables :: "alert_db \<Rightarrow> bool" where
  "alert_tables db \<longleftrightarrow>
     distinct (map al_id (ad_rules db)) \<and> (\<forall>r \<in> set (ad_rules db). al_id r < ad_next_rule db) \<and>
     distinct (map (\<lambda>i. (ai_rule_id i, ai_security_id i)) (ad_instances db)) \<and>
     (\<forall>i \<in> set (ad_instances db). attached (ad_rules db) i) \<and>
     distinct (map nt_id (ad_outbox db)) \<and> (\<forall>n \<in> set (ad_outbox db). nt_id n < ad_next_notification db) \<and>
     (\<forall>n \<in> set (filter refers (ad_outbox db)). handed_out (ad_rules db) n) \<and>
     distinct (map (\<lambda>n. (an_rule_id n, an_sequence n)) (filter refers (ad_outbox db)))"

lemma find_rule_SomeD:
  assumes "find_rule db k u = Some r"
  shows "r \<in> set (ad_rules db)" "al_id r = k" "\<And>x. u = Some x \<Longrightarrow> al_user_id r = x"
  using assms by (auto simp: find_rule_def find_Some_iff)

lemma get_instance_store: "get_instance (store_instance i db) k s =
    (if ai_rule_id i = k \<and> ai_security_id i = s then Some i else get_instance db k s)"
proof -
  let ?P = "\<lambda>j. ai_rule_id j = k \<and> ai_security_id j = s"
  have "find ?P (map (\<lambda>j. if ai_rule_id j = ai_rule_id i \<and> ai_security_id j = ai_security_id i then i else j) xs) =
      (if ?P i then map_option (\<lambda>_. i) (find ?P xs) else find ?P xs)" for xs
    by (induction xs) auto
  moreover have "find ?P (xs @ [i]) = (case find ?P xs of None \<Rightarrow> if ?P i then Some i else None | Some x \<Rightarrow> Some x)" for xs
    by (induction xs) auto
  ultimately show ?thesis
    unfolding get_instance_def store_instance_def by (auto split: option.splits)
qed

lemma get_instance_rules [simp]: "get_instance (store_rule r db) k s = get_instance db k s"
  by (simp add: get_instance_def store_rule_def)

lemma get_instance_SomeD: "get_instance db k s = Some i \<Longrightarrow> ai_rule_id i = k \<and> ai_security_id i = s"
  by (auto simp: get_instance_def find_Some_iff)

definition replaced :: "stored_rule \<Rightarrow> stored_rule list \<Rightarrow> stored_rule list" where
  "replaced r rs = map (\<lambda>q. if al_id q = al_id r then r else q) rs"

lemma apply_state_simps [simp]:
  "ad_rules (apply_state st db) = replaced (ru_rule st) (ad_rules db)"
  "ad_outbox (apply_state st db) = ad_outbox db @ ru_queued st" "ad_next_notification (apply_state st db) = ru_next st"
  "ad_next_rule (apply_state st db) = ad_next_rule db" "ad_securities (apply_state st db) = ad_securities db"
  "ad_watched (apply_state st db) = ad_watched db"
  by (simp_all add: apply_state_def Let_def store_instance_def store_rule_def replaced_def)

lemma get_instance_apply: "get_instance (apply_state st db) k s =
    (if ai_rule_id (ru_instance st) = k \<and> ai_security_id (ru_instance st) = s then Some (ru_instance st) else get_instance db k s)"
proof -
  have "get_instance (d\<lparr>ad_outbox := x, ad_next_notification := y\<rparr>) k s = get_instance d k s" for d x y
    by (simp add: get_instance_def)
  then show ?thesis by (simp add: apply_state_def Let_def get_instance_store)
qed

text \<open>What one evaluation does to the tables.\<close>

lemma evaluate_rule_outcome:
  obtains (none) "fst (evaluate_rule rnd digests renderers fromiso reg view now od k db) = db"
  | (grown) r st rows where "r \<in> set (ad_rules db)" "al_id r = k" "find_rule db k None = Some r"
      "fst (evaluate_rule rnd digests renderers fromiso reg view now od k db) = apply_state st db"
      "evaluated r (ad_next_notification db) rows st"
      "\<And>d. od = Some d \<Longrightarrow> on_schedule r (watermark r (get_instance db (al_id r) (al_security_id r))) d rows st"
proof (cases "find_rule db k None")
  case None
  then show thesis using none by (simp add: evaluate_rule_def)
next
  case (Some r)
  let ?inst = "get_instance db (al_id r) (al_security_id r)"
  let ?e = "evaluate_locked rnd digests renderers fromiso reg view (joined_security db r) now od r ?inst (ad_next_notification db)"
  have inst: "of_rule r i" if "?inst = Some i" for i
    using get_instance_SomeD [OF that] by (simp add: of_rule_def)
  show thesis
  proof (cases "\<exists>st res. ?e = Inr (Some st, res)")
    case False
    with Some none show thesis
      by (cases ?e) (auto simp: evaluate_rule_def split: option.splits)
  next
    case True
    then obtain st res where e: "?e = Inr (Some st, res)" by blast
    from evaluate_locked_outcome [OF e inst] obtain rows where rows: "evaluated r (ad_next_notification db) rows st"
        "\<And>d. od = Some d \<Longrightarrow> on_schedule r (watermark r ?inst) d rows st" by blast
    from Some e have "fst (evaluate_rule rnd digests renderers fromiso reg view now od k db) = apply_state st db"
      by (simp add: evaluate_rule_def)
    from grown [OF find_rule_SomeD(1,2) [OF Some] Some this rows] show thesis .
  qed
qed

lemma evaluatedD:
  assumes "evaluated r k rows st"
  shows "ru_queued st = rows" "of_rule r (ru_instance st)" "ru_rule st = r\<lparr>al_trigger_sequence := al_trigger_sequence (ru_rule st)\<rparr>"
    "al_trigger_sequence r \<le> al_trigger_sequence (ru_rule st)" "\<And>n. n \<in> set rows \<Longrightarrow> row_of_rule r n"
    "\<And>n. n \<in> set rows \<Longrightarrow> al_trigger_sequence r < an_sequence n \<and> an_sequence n \<le> al_trigger_sequence (ru_rule st)"
    "distinct (map an_sequence rows)" "distinct (map nt_id rows)" "\<And>n. n \<in> set rows \<Longrightarrow> k \<le> nt_id n \<and> nt_id n < ru_next st" "k \<le> ru_next st"
proof -
  from assms obtain i where i: "of_rule r i" "grown (start_state r i k) rows st" by (auto simp: evaluated_def)
  then show "ru_queued st = rows" "of_rule r (ru_instance st)" "al_trigger_sequence r \<le> al_trigger_sequence (ru_rule st)"
      "\<And>n. n \<in> set rows \<Longrightarrow> row_of_rule r n" "k \<le> ru_next st"
      "\<And>n. n \<in> set rows \<Longrightarrow> al_trigger_sequence r < an_sequence n \<and> an_sequence n \<le> al_trigger_sequence (ru_rule st)"
    by (simp_all add: grown_def same_identity_def of_rule_def)
  from i show "ru_rule st = r\<lparr>al_trigger_sequence := al_trigger_sequence (ru_rule st)\<rparr>"
    by (auto simp: grown_def same_identity_def)
  from i have ids: "map nt_id rows = [k..ru_next st - 1]" and "sorted_wrt (<) (map an_sequence rows)"
    by (simp_all add: grown_def)
  from strict_sorted_iff this(2) show "distinct (map an_sequence rows)" by blast
  from ids show "distinct (map nt_id rows)" by simp
  fix n assume "n \<in> set rows"
  then have "nt_id n \<in> set (map nt_id rows)" by simp
  then show "k \<le> nt_id n \<and> nt_id n < ru_next st" unfolding ids by simp
qed

lemma evaluated_refers: "evaluated r k rows st \<Longrightarrow> filter refers rows = rows"
  by (auto simp: filter_id_conv refers_def row_of_rule_def dest: evaluatedD(5))

text \<open>Rules only advance: they keep their identifiers, and their counters do not go back.\<close>

definition advances :: "stored_rule list \<Rightarrow> stored_rule list \<Rightarrow> bool" where
  "advances rs rs' \<longleftrightarrow> (\<forall>q \<in> set rs. \<exists>q' \<in> set rs'. al_id q' = al_id q \<and>
     al_trigger_sequence q \<le> al_trigger_sequence q' \<and> al_rule_version q \<le> al_rule_version q')"

lemma handed_out_advances:
  assumes "handed_out rs n" "advances rs rs'"
  shows "handed_out rs' n"
proof -
  from assms(1) obtain q where q: "q \<in> set rs" "an_rule_id n = Some (al_id q)" "an_sequence n \<le> al_trigger_sequence q"
      "an_rule_version n \<le> al_rule_version q" by (auto simp: handed_out_def)
  with assms(2) obtain q' where "q' \<in> set rs'" "al_id q' = al_id q" "al_trigger_sequence q \<le> al_trigger_sequence q'"
      "al_rule_version q \<le> al_rule_version q'" by (auto simp: advances_def)
  with q show ?thesis unfolding handed_out_def by (intro bexI [of _ q']) auto
qed

lemma replaced_ids [simp]: "map al_id (replaced r rs) = map al_id rs"
  by (induction rs) (auto simp: replaced_def)

lemma replaced_set: "r \<in> set rs \<Longrightarrow> al_id r' = al_id r \<Longrightarrow> set (replaced r' rs) = insert r' {q \<in> set rs. al_id q \<noteq> al_id r}"
  by (auto simp: replaced_def)

lemma replaced_advances:
  assumes "distinct (map al_id rs)" "r \<in> set rs" "al_id r' = al_id r" "al_trigger_sequence r \<le> al_trigger_sequence r'"
    "al_rule_version r \<le> al_rule_version r'"
  shows "advances rs (replaced r' rs)"
  unfolding advances_def
proof
  fix q assume q: "q \<in> set rs"
  show "\<exists>q' \<in> set (replaced r' rs). al_id q' = al_id q \<and> al_trigger_sequence q \<le> al_trigger_sequence q' \<and> al_rule_version q \<le> al_rule_version q'"
  proof (cases "al_id q = al_id r")
    case True
    with assms(1,2) q have "q = r" by (auto simp: distinct_map dest: inj_onD)
    with assms show ?thesis by (intro bexI [of _ r']) (simp_all add: replaced_set)
  next
    case False
    with assms q show ?thesis by (intro bexI [of _ q]) (simp_all add: replaced_set)
  qed
qed

lemma attached_replaced:
  assumes "distinct (map al_id rs)" "r \<in> set rs" "al_id r' = al_id r" "attached rs i"
    "ai_rule_id i = al_id r \<Longrightarrow> al_security_id r' = ai_security_id i"
  shows "attached (replaced r' rs) i"
proof -
  from assms(4) obtain q where q: "q \<in> set rs" "of_rule q i" by (auto simp: attached_def)
  show ?thesis
  proof (cases "al_id q = al_id r")
    case True
    with q(2) assms(3,5) have "of_rule r' i" by (simp add: of_rule_def)
    then show ?thesis unfolding attached_def by (intro bexI [of _ r']) (simp_all add: replaced_set [OF assms(2,3)])
  next
    case False
    with q show ?thesis unfolding attached_def by (intro bexI [of _ q]) (simp_all add: replaced_set [OF assms(2,3)])
  qed
qed

lemma attached_own:
  assumes "distinct (map al_id rs)" "r \<in> set rs" "attached rs i" "ai_rule_id i = al_id r"
  shows "of_rule r i"
proof -
  from assms(3) obtain q where q: "q \<in> set rs" "of_rule q i" by (auto simp: attached_def)
  with assms(1,2,4) have "q = r" by (auto simp: distinct_map of_rule_def dest: inj_onD)
  with q show ?thesis by simp
qed

lemma store_instance_keys:
  assumes "distinct (map (\<lambda>i. (ai_rule_id i, ai_security_id i)) (ad_instances db))"
  shows "distinct (map (\<lambda>i. (ai_rule_id i, ai_security_id i)) (ad_instances (store_instance i db)))"
proof (cases "get_instance db (ai_rule_id i) (ai_security_id i)")
  case None
  with assms show ?thesis by (auto simp: store_instance_def get_instance_def find_None_iff)
next
  case (Some j)
  let ?key = "\<lambda>i. (ai_rule_id i, ai_security_id i)"
  let ?f = "\<lambda>j. if ai_rule_id j = ai_rule_id i \<and> ai_security_id j = ai_security_id i then i else j"
  have "map ?key (map ?f xs) = map ?key xs" for xs by (induction xs) auto
  moreover from Some have "ad_instances (store_instance i db) = map ?f (ad_instances db)" by (simp add: store_instance_def)
  ultimately have "map ?key (ad_instances (store_instance i db)) = map ?key (ad_instances db)" by (simp only:)
  with assms show ?thesis by (simp only:)
qed

lemma alert_tablesI:
  assumes "distinct (map al_id (ad_rules db))" "\<And>r. r \<in> set (ad_rules db) \<Longrightarrow> al_id r < ad_next_rule db"
    "distinct (map (\<lambda>i. (ai_rule_id i, ai_security_id i)) (ad_instances db))" "distinct (map nt_id (ad_outbox db))"
    "\<And>n. n \<in> set (ad_outbox db) \<Longrightarrow> nt_id n < ad_next_notification db"
    "\<And>n. n \<in> set (filter refers (ad_outbox db)) \<Longrightarrow> handed_out (ad_rules db) n"
    "distinct (map (\<lambda>n. (an_rule_id n, an_sequence n)) (filter refers (ad_outbox db)))"
    "\<And>i. i \<in> set (ad_instances db) \<Longrightarrow> attached (ad_rules db) i"
  shows "alert_tables db"
  using assms unfolding alert_tables_def by simp

lemma alert_tablesD:
  assumes "alert_tables db"
  shows "distinct (map al_id (ad_rules db))" "\<And>r. r \<in> set (ad_rules db) \<Longrightarrow> al_id r < ad_next_rule db"
    "distinct (map (\<lambda>i. (ai_rule_id i, ai_security_id i)) (ad_instances db))" "distinct (map nt_id (ad_outbox db))"
    "\<And>n. n \<in> set (ad_outbox db) \<Longrightarrow> nt_id n < ad_next_notification db"
    "\<And>n. n \<in> set (filter refers (ad_outbox db)) \<Longrightarrow> handed_out (ad_rules db) n"
    "distinct (map (\<lambda>n. (an_rule_id n, an_sequence n)) (filter refers (ad_outbox db)))"
    "\<And>i. i \<in> set (ad_instances db) \<Longrightarrow> attached (ad_rules db) i"
  using assms unfolding alert_tables_def by simp_all

lemma same_rule: "alert_tables db \<Longrightarrow> q \<in> set (ad_rules db) \<Longrightarrow> r \<in> set (ad_rules db) \<Longrightarrow> al_id q = al_id r \<Longrightarrow> q = r"
  by (drule alert_tablesD(1)) (auto simp: distinct_map dest: inj_onD)

lemma apply_state_instances: "ad_instances (apply_state st db) = ad_instances (store_instance (ru_instance st) db)"
  by (simp add: apply_state_def Let_def store_instance_def store_rule_def get_instance_def)

lemma evaluated_tables:
  assumes "alert_tables db" "r \<in> set (ad_rules db)" "evaluated r (ad_next_notification db) rows st"
  shows "alert_tables (apply_state st db)"
proof (rule alert_tablesI, goal_cases)
  note e = evaluatedD [OF assms(3)] and t = alert_tablesD [OF assms(1)]
  have rule: "al_id (ru_rule st) = al_id r" "al_rule_version (ru_rule st) = al_rule_version r" by (subst e(3), simp)+
  have own: "handed_out (replaced (ru_rule st) (ad_rules db)) n" if "n \<in> set rows" for n
    using e(5,6) [OF that] rule unfolding handed_out_def row_of_rule_def
    by (intro bexI [of _ "ru_rule st"]) (simp_all add: replaced_set [OF assms(2)])
  have advance: "advances (ad_rules db) (replaced (ru_rule st) (ad_rules db))"
    by (rule replaced_advances [OF t(1) assms(2) rule(1) e(4)]) (simp add: rule)
  have below: "an_sequence n \<le> al_trigger_sequence r" if "n \<in> set (filter refers (ad_outbox db))" "an_rule_id n = Some (al_id r)" for n
    using t(6) [OF that(1)] that(2) same_rule [OF assms(1) _ assms(2)] by (auto simp: handed_out_def)
  {
    case 1
    show ?case using t(1) by simp
  next
    case (2 q)
    then show ?case using t(2) assms(2) rule by (auto simp: replaced_set [OF assms(2) rule(1)])
  next
    case 3
    show ?case unfolding apply_state_instances by (rule store_instance_keys [OF t(3)])
  next
    case 4
    show ?case using t(4,5) e(1,8,9) by (fastforce simp del: distinct_map simp: distinct_append)
  next
    case (5 n)
    then show ?case using t(5) e(1,9,10) by fastforce
  next
    case (6 n)
    then consider "n \<in> set (filter refers (ad_outbox db))" | "n \<in> set rows" using e(1) by auto
    then show ?case using own handed_out_advances [OF t(6) advance] by cases simp_all
  next
    case 7
    have "distinct (map (\<lambda>n. (an_rule_id n, an_sequence n)) rows)"
      using e(7) by (auto simp: distinct_map inj_on_def)
    moreover have "(an_rule_id m, an_sequence m) \<noteq> (an_rule_id n, an_sequence n)"
      if "m \<in> set (filter refers (ad_outbox db))" "n \<in> set rows" for m n
      using below [OF that(1)] e(5,6) [OF that(2)] by (auto simp: row_of_rule_def)
    ultimately show ?case
      using t(7) e(1) evaluated_refers [OF assms(3)] by (fastforce simp del: distinct_map simp: distinct_append)
  next
    case (8 i)
    then consider "i \<in> set (ad_instances db)" | "i = ru_instance st"
      unfolding apply_state_instances by (auto simp: store_instance_def split: if_splits)
    then show ?case
    proof cases
      case 1
      from attached_own [OF t(1) assms(2) t(8) [OF 1]] have "ai_rule_id i = al_id r \<Longrightarrow> al_security_id (ru_rule st) = ai_security_id i"
        by (subst e(3)) (simp add: of_rule_def)
      with attached_replaced [OF t(1) assms(2) rule(1) t(8) [OF 1]] show ?thesis by simp
    next
      case 2
      have "of_rule (ru_rule st) i" using e(2) 2 by (subst e(3)) (simp add: of_rule_def)
      then show ?thesis
        unfolding apply_state_simps attached_def by (intro bexI [of _ "ru_rule st"]) (simp_all add: replaced_set [OF assms(2) rule(1)])
    qed
  }
qed

lemma create_rule_outcome:
  assumes "create_rule rnd digests reg user_id p db = Inr (db', r)"
  shows "ad_rules db' = ad_rules db @ [r]" "al_id r = ad_next_rule db" "ad_next_rule db' = ad_next_rule db + 1" "al_user_id r = user_id"
    "al_enabled r = rp_enabled p" "al_security_id r = rp_security_id p" "ad_instances db' = ad_instances db" "ad_outbox db' = ad_outbox db"
    "ad_next_notification db' = ad_next_notification db" "ad_watched db' = ad_watched db"
    "al_enabled r \<Longrightarrow> ensure_monitor_capacity db user_id (al_security_id r) None = Ok ()" "al_rule_version r = 1" "al_trigger_sequence r = 0"
  using assms by (auto simp: create_rule_def Let_def with_fields_def enqueue_bootstrap_def split: if_splits)

lemma create_rule_tables:
  assumes "alert_tables db" "create_rule rnd digests reg user_id p db = Inr (db', r)"
  shows "alert_tables db'"
proof -
  note c = create_rule_outcome [OF assms(2)] and t = alert_tablesD [OF assms(1)]
  have "advances (ad_rules db) (ad_rules db')" by (auto simp: advances_def c(1))
  from handed_out_advances [OF t(6) this] t c show ?thesis
    by (intro alert_tablesI) (fastforce simp: attached_def)+
qed

text \<open>The instances after an update, and the rest of its effect.\<close>

lemma rule_signature_version [simp]: "rule_signature (r\<lparr>al_rule_version := v\<rparr>) = rule_signature r"
  by (simp add: rule_signature_def)

lemma versioned_rule_simps [simp]:
  "al_id (versioned_rule r c) = al_id c" "al_user_id (versioned_rule r c) = al_user_id c" "al_enabled (versioned_rule r c) = al_enabled c"
  "al_trigger_sequence (versioned_rule r c) = al_trigger_sequence c" "al_security_id (versioned_rule r c) = al_security_id c"
  "rule_signature (versioned_rule r c) = rule_signature c"
  "al_rule_version (versioned_rule r c) = (if rule_signature c = rule_signature r then al_rule_version c else al_rule_version r + 1)"
  by (simp_all add: versioned_rule_def)

lemma with_fields_simps [simp]:
  "al_id (with_fields f r) = al_id r" "al_user_id (with_fields f r) = al_user_id r" "al_enabled (with_fields f r) = al_enabled r"
  "al_trigger_sequence (with_fields f r) = al_trigger_sequence r" "al_security_id (with_fields f r) = al_security_id r"
  "al_rule_version (with_fields f r) = al_rule_version r"
  by (simp_all add: with_fields_def)

text \<open>Storing a rule or an instance leaves the other tables alone.\<close>

definition other_tables :: "alert_db \<Rightarrow> alert_notification list \<times> int \<times> int \<times> (int \<times> int) list" where
  "other_tables db = (ad_outbox db, ad_next_rule db, ad_next_notification db, ad_watched db)"

lemma tables_simps [simp]:
  "other_tables (store_rule r db) = other_tables db" "ad_rules (store_rule r db) = replaced r (ad_rules db)" "ad_instances (store_rule r db) = ad_instances db"
  "other_tables (store_instance i db) = other_tables db" "ad_rules (store_instance i db) = ad_rules db"
  "other_tables (delete_instance k s db) = other_tables db" "ad_rules (delete_instance k s db) = ad_rules db"
  "other_tables (enqueue_bootstrap r a db) = other_tables db" "ad_rules (enqueue_bootstrap r a db) = ad_rules db"
  "ad_instances (enqueue_bootstrap r a db) = ad_instances db"
  "other_tables (refresh_demand r r' db) = other_tables db" "ad_rules (refresh_demand r r' db) = ad_rules db"
  "ad_instances (refresh_demand r r' db) = ad_instances db"
  by (simp_all add: other_tables_def store_rule_def store_instance_def delete_instance_def enqueue_bootstrap_def refresh_demand_def replaced_def)

lemma restart_instance_simps [simp]:
  "other_tables (restart_instance r r' db) = other_tables db" "ad_rules (restart_instance r r' db) = ad_rules db"
  "ad_instances (restart_instance r r' (store_rule q db)) = ad_instances (restart_instance r r' db)"
  by (simp_all add: restart_instance_def delete_instance_def store_instance_def get_instance_def store_rule_def other_tables_def split: option.splits)

lemma update_rule_outcome:
  assumes "update_rule rnd digests reg user_id k u db = Inr (db', r')" "find_rule db k (Some user_id) = Some r"
  shows "ad_rules db' = replaced r' (ad_rules db)" "ad_instances db' = ad_instances (restart_instance r r' db)"
    "other_tables db' = other_tables db"
    "al_id r' = al_id r" "al_user_id r' = al_user_id r" "al_trigger_sequence r' = al_trigger_sequence r"
    "al_rule_version r' = (if rule_signature r' = rule_signature r then al_rule_version r else al_rule_version r + 1)"
    "al_enabled r' \<Longrightarrow> ensure_monitor_capacity db user_id (al_security_id r') (Some (al_id r)) = Ok ()"
proof -
  obtain si sc where fields: "state_fields u r = (si, sc)" by (cases "state_fields u r")
  from assms obtain s f sid enabled where r': "r' = versioned_rule r (with_fields f (r\<lparr>al_security_id := sid, al_enabled := enabled\<rparr>))"
      and cap: "(if enabled then ensure_monitor_capacity db user_id sid (Some (al_id r)) else Ok ()) = Ok ()"
      and db': "db' = enqueue_bootstrap r' s (refresh_demand r r' (restart_instance r r' (store_rule r' db)))"
    by (simp add: update_rule_def fields Let_def) blast
  show "ad_rules db' = replaced r' (ad_rules db)" "ad_instances db' = ad_instances (restart_instance r r' db)"
      "other_tables db' = other_tables db"
    by (simp_all add: db')
  show "al_id r' = al_id r" "al_user_id r' = al_user_id r" "al_trigger_sequence r' = al_trigger_sequence r"
      "al_rule_version r' = (if rule_signature r' = rule_signature r then al_rule_version r else al_rule_version r + 1)"
    by (simp_all add: r')
  show "al_enabled r' \<Longrightarrow> ensure_monitor_capacity db user_id (al_security_id r') (Some (al_id r)) = Ok ()"
    using cap by (simp add: r')
qed

lemma stored_instance_cases:
  assumes "i \<in> set (ad_instances (store_instance j db))"
  obtains "i \<in> set (ad_instances db)" | "i = j"
  using assms by (auto simp: store_instance_def split: if_splits)

lemma restarted_instance:
  assumes "i \<in> set (ad_instances (restart_instance r r' db))"
  obtains j where "j \<in> set (ad_instances db)" "ai_rule_id i = ai_rule_id j" "ai_security_id i = ai_security_id j"
    "al_security_id r \<noteq> al_security_id r' \<Longrightarrow> \<not> of_rule r j"
proof (cases "al_security_id r \<noteq> al_security_id r'")
  case True
  with assms show thesis
    by (intro that [of i]) (auto simp: restart_instance_def delete_instance_def of_rule_def)
next
  case False
  note same = this
  show thesis
  proof (cases "rule_signature r' \<noteq> rule_signature r \<and> get_instance db (al_id r) (al_security_id r) \<noteq> None")
    case True
    then obtain j where j: "get_instance db (al_id r) (al_security_id r) = Some j" by auto
    with same True assms have "i \<in> set (ad_instances (store_instance (j\<lparr>ai_status := ALERT_RESET, ai_last_trigger_time := None,
        ai_rule_version := al_rule_version r', ai_last_evaluated := None\<rparr>) db))" by (simp add: restart_instance_def)
    then show thesis
    proof (cases rule: stored_instance_cases)
      case 1
      with same that show thesis by blast
    next
      case 2
      have "j \<in> set (ad_instances db)" using j by (auto simp: get_instance_def find_Some_iff)
      with 2 same that [of j] show thesis by simp
    qed
  next
    case False
    with same assms have "i \<in> set (ad_instances db)" by (auto simp: restart_instance_def split: if_splits option.splits)
    with same that show thesis by blast
  qed
qed

lemma restart_instance_keys:
  assumes "distinct (map (\<lambda>i. (ai_rule_id i, ai_security_id i)) (ad_instances db))"
  shows "distinct (map (\<lambda>i. (ai_rule_id i, ai_security_id i)) (ad_instances (restart_instance r r' db)))"
  using assms store_instance_keys [OF assms]
  by (simp add: restart_instance_def delete_instance_def distinct_map_filter split: option.splits)

lemma update_rule_tables:
  assumes "alert_tables db" "update_rule rnd digests reg user_id k u db = Inr (db', r')"
  shows "alert_tables db'"
proof -
  from assms(2) obtain r where found: "find_rule db k (Some user_id) = Some r"
    by (auto simp: update_rule_def split: option.splits)
  note c = update_rule_outcome [OF assms(2) found] and t = alert_tablesD [OF assms(1)] and r = find_rule_SomeD(1) [OF found]
  have others: "ad_outbox db' = ad_outbox db" "ad_next_rule db' = ad_next_rule db" "ad_next_notification db' = ad_next_notification db"
    using c(3) by (simp_all add: other_tables_def)
  have advance: "advances (ad_rules db) (replaced r' (ad_rules db))"
    by (rule replaced_advances [OF t(1) r c(4)]) (simp_all add: c(6,7))
  have attached: "attached (replaced r' (ad_rules db)) i" if i: "i \<in> set (ad_instances (restart_instance r r' db))" for i
  proof -
    from restarted_instance [OF i] obtain j where j: "j \<in> set (ad_instances db)" "ai_rule_id i = ai_rule_id j"
        "ai_security_id i = ai_security_id j" "al_security_id r \<noteq> al_security_id r' \<Longrightarrow> \<not> of_rule r j" by blast
    have "attached (replaced r' (ad_rules db)) j"
      using attached_replaced [OF t(1) r c(4) t(8) [OF j(1)]] attached_own [OF t(1) r t(8) [OF j(1)]] j(4)
      by (cases "al_security_id r = al_security_id r'") (auto simp: of_rule_def)
    with j(2,3) show ?thesis by (simp add: attached_def of_rule_def)
  qed
  show ?thesis
  proof (rule alert_tablesI, unfold c(1,2) others, goal_cases)
    case (2 q)
    then show ?case using t(2) r c(4) by (auto simp: replaced_set [OF r c(4)])
  next
    case (6 n)
    then show ?case using handed_out_advances [OF t(6) advance] by blast
  qed (use t attached restart_instance_keys [OF t(3)] in simp_all)
qed

lemma delete_rule_tables:
  assumes "alert_tables db" "delete_rule user_id k db = Inr db'"
  shows "alert_tables db'"
proof -
  from assms(2) obtain d where db': "db' = db\<lparr>ad_rules := filter (\<lambda>q. al_id q \<noteq> k) (ad_rules db),
        ad_instances := filter (\<lambda>i. ai_rule_id i \<noteq> k) (ad_instances db),
        ad_outbox := map (\<lambda>n. if an_rule_id n = Some k then n\<lparr>an_rule_id := None\<rparr> else n) (ad_outbox db), ad_demand := d\<rparr>"
    by (auto simp: delete_rule_def split: option.splits)
  note t = alert_tablesD [OF assms(1)]
  let ?f = "\<lambda>n. if an_rule_id n = Some k then n\<lparr>an_rule_id := None\<rparr> else n"
  have ids: "map nt_id (map ?f ns) = map nt_id ns" for ns by (induction ns) auto
  have refers: "filter refers (map ?f ns) = filter (\<lambda>n. an_rule_id n \<noteq> Some k) (filter refers ns)" for ns
    by (induction ns) (auto simp: refers_def)
  have handed: "handed_out (filter (\<lambda>q. al_id q \<noteq> k) rs) n" if "handed_out rs n" "an_rule_id n \<noteq> Some k" for rs n
    using that by (auto simp: handed_out_def)
  show ?thesis
  proof (rule alert_tablesI, goal_cases)
    case 4
    show ?case using t(4) by (simp add: db' ids del: map_map)
  next
    case (5 n)
    then show ?case using t(5) by (auto simp: db')
  next
    case (6 n)
    then show ?case using t(6) handed by (simp add: db' refers del: filter_filter)
  next
    case 7
    show ?case using t(7) by (simp add: db' refers distinct_map_filter del: filter_filter)
  next
    case (8 i)
    then have "attached (ad_rules db) i" "ai_rule_id i \<noteq> k" using t(8) by (auto simp: db')
    then show ?case by (auto simp: db' attached_def of_rule_def)
  qed (use t in \<open>auto simp: db' distinct_map_filter\<close>)
qed

text \<open>
  The operations as steps. A scheduled evaluation names the date it observes; the scheduled
  evaluation of all rules is a sequence of steps, whatever it skips and wherever it stops.
\<close>

inductive alert_step ::
  "(real \<Rightarrow> real) \<Rightarrow> digests \<Rightarrow> renderers \<Rightarrow> (string \<Rightarrow> int option) \<Rightarrow> state_registry \<Rightarrow> bool \<Rightarrow> alert_db \<Rightarrow> alert_db \<Rightarrow> bool"
  for rnd digests renderers fromiso reg scheduled
where
  create: "create_rule rnd digests reg user_id p db = Inr (db', r) \<Longrightarrow> alert_step rnd digests renderers fromiso reg scheduled db db'"
| update: "update_rule rnd digests reg user_id k u db = Inr (db', r) \<Longrightarrow> alert_step rnd digests renderers fromiso reg scheduled db db'"
| delete: "delete_rule user_id k db = Inr db' \<Longrightarrow> alert_step rnd digests renderers fromiso reg scheduled db db'"
| evaluate: "(scheduled \<longrightarrow> od \<noteq> None) \<Longrightarrow>
     alert_step rnd digests renderers fromiso reg scheduled db (fst (evaluate_rule rnd digests renderers fromiso reg view now od k db))"

abbreviation alert_steps ::
  "(real \<Rightarrow> real) \<Rightarrow> digests \<Rightarrow> renderers \<Rightarrow> (string \<Rightarrow> int option) \<Rightarrow> state_registry \<Rightarrow> bool \<Rightarrow> alert_db \<Rightarrow> alert_db \<Rightarrow> bool"
where
  "alert_steps rnd digests renderers fromiso reg scheduled \<equiv> (alert_step rnd digests renderers fromiso reg scheduled)\<^sup>*\<^sup>*"

lemma evaluate_rules_steps:
  assumes "\<And>k db. R\<^sup>*\<^sup>* db (fst (evaluate k db))"
  shows "R\<^sup>*\<^sup>* db (fst (evaluate_rules evaluate ids db))"
proof (induction ids arbitrary: db)
  case Nil
  then show ?case by simp
next
  case (Cons k ids)
  obtain db' res where e: "evaluate k db = (db', res)" by (cases "evaluate k db")
  with assms [of db k] have here: "R\<^sup>*\<^sup>* db db'" by simp
  from rtranclp_trans [OF here Cons.IH] have "R\<^sup>*\<^sup>* db (fst (evaluate_rules evaluate ids db'))" .
  with here show ?case
    by (cases res) (auto simp: e split: exn.splits prod.splits)
qed

lemma evaluate_all_steps:
  assumes "scheduled \<longrightarrow> od \<noteq> None"
  shows "alert_steps rnd digests renderers fromiso reg scheduled db
    (fst (evaluate_all rnd digests renderers fromiso reg view now od active_users blocked eligible db))"
  unfolding evaluate_all_def
  by (rule evaluate_rules_steps) (use assms alert_step.evaluate in blast)

lemma evaluate_rule_tables:
  assumes "alert_tables db"
  shows "alert_tables (fst (evaluate_rule rnd digests renderers fromiso reg view now od k db))"
proof (cases rule: evaluate_rule_outcome [of rnd digests renderers fromiso reg view now od k db])
  case none
  with assms show ?thesis by simp
next
  case (grown r st rows)
  from evaluated_tables [OF assms grown(1,5)] show ?thesis unfolding grown(4) .
qed

lemma alert_step_tables:
  assumes "alert_step rnd digests renderers fromiso reg scheduled db db'" "alert_tables db"
  shows "alert_tables db'"
  using assms
proof cases
  case create
  from create_rule_tables [OF assms(2) this] show ?thesis .
next
  case update
  from update_rule_tables [OF assms(2) this] show ?thesis .
next
  case delete
  from delete_rule_tables [OF assms(2) this] show ?thesis .
next
  case evaluate
  from evaluate_rule_tables [OF assms(2)] show ?thesis unfolding evaluate(1) .
qed

lemma alert_steps_tables: "alert_steps rnd digests renderers fromiso reg scheduled db db' \<Longrightarrow> alert_tables db \<Longrightarrow> alert_tables db'"
  by (induction rule: rtranclp_induct) (auto dest: alert_step_tables)

section \<open>Dates of notifications\<close>

text \<open>
  The notifications of the current version of a rule are dated up to its watermark; those of any
  version of a rule are queued in the order of their dates.
\<close>

definition observed :: "alert_db \<Rightarrow> bool" where
  "observed db \<longleftrightarrow> (\<forall>r \<in> set (ad_rules db). \<forall>n \<in> set (ad_outbox db).
     an_rule_id n = Some (al_id r) \<longrightarrow> an_rule_version n = al_rule_version r \<longrightarrow>
     (\<exists>w. watermark r (get_instance db (al_id r) (al_security_id r)) = Some w \<and> an_observation_date n \<le> w))"

definition same_series :: "alert_notification \<Rightarrow> alert_notification \<Rightarrow> bool" where
  "same_series m n \<longleftrightarrow> refers m \<and> an_rule_id m = an_rule_id n \<and> an_rule_version m = an_rule_version n"

definition in_order :: "alert_db \<Rightarrow> bool" where
  "in_order db \<longleftrightarrow> sorted_wrt (\<lambda>m n. same_series m n \<longrightarrow> an_observation_date m \<le> an_observation_date n) (ad_outbox db)"

lemma observedD:
  assumes "observed db" "r \<in> set (ad_rules db)" "n \<in> set (ad_outbox db)" "an_rule_id n = Some (al_id r)" "an_rule_version n = al_rule_version r"
  obtains w where "watermark r (get_instance db (al_id r) (al_security_id r)) = Some w" "an_observation_date n \<le> w"
  using assms unfolding observed_def by blast

lemma handed_out_rule:
  assumes "alert_tables db" "n \<in> set (ad_outbox db)" "r \<in> set (ad_rules db)" "an_rule_id n = Some (al_id r)"
  shows "an_sequence n \<le> al_trigger_sequence r" "an_rule_version n \<le> al_rule_version r"
proof -
  have "n \<in> set (filter refers (ad_outbox db))" using assms(2,4) by (simp add: refers_def)
  from alert_tablesD(6) [OF assms(1) this] obtain q where q: "q \<in> set (ad_rules db)" "an_rule_id n = Some (al_id q)"
      "an_sequence n \<le> al_trigger_sequence q" "an_rule_version n \<le> al_rule_version q" by (auto simp: handed_out_def)
  with assms(4) same_rule [OF assms(1) q(1) assms(3)] show "an_sequence n \<le> al_trigger_sequence r" "an_rule_version n \<le> al_rule_version r" by auto
qed

lemma watermark_cong: "al_rule_version r' = al_rule_version r \<Longrightarrow> watermark r' i = watermark r i"
  by (simp add: watermark_def split: option.splits)

lemma evaluated_in_order:
  assumes "observed db" "in_order db" and r: "r \<in> set (ad_rules db)" and e: "evaluated r (ad_next_notification db) rows st"
    and s: "on_schedule r (watermark r (get_instance db (al_id r) (al_security_id r))) d rows st"
  shows "in_order (apply_state st db)"
proof -
  let ?before = "watermark r (get_instance db (al_id r) (al_security_id r))"
  have rows: "sorted (map an_observation_date rows)" "\<And>n v. n \<in> set rows \<Longrightarrow> ?before = Some v \<Longrightarrow> v < an_observation_date n"
    using s unfolding on_schedule_def by blast+
  have "an_observation_date m \<le> an_observation_date n" if "m \<in> set (ad_outbox db)" "n \<in> set rows" "same_series m n" for m n
  proof -
    from evaluatedD(5) [OF e that(2)] that(3) have m: "an_rule_id m = Some (al_id r)" "an_rule_version m = al_rule_version r"
      by (simp_all add: row_of_rule_def same_series_def)
    from observedD [OF assms(1) r that(1) m] obtain v where "?before = Some v" "an_observation_date m \<le> v" .
    with rows(2) [OF that(2)] show ?thesis by force
  qed
  moreover have "sorted_wrt (\<lambda>m n. same_series m n \<longrightarrow> an_observation_date m \<le> an_observation_date n) rows"
    using rows(1) by (simp add: sorted_map) (erule sorted_wrt_mono_rel [rotated], simp)
  ultimately show ?thesis
    using assms(2) evaluatedD(1) [OF e] by (simp add: in_order_def sorted_wrt_append)
qed

lemma evaluated_observed:
  assumes "observed db" and r: "r \<in> set (ad_rules db)" and e: "evaluated r (ad_next_notification db) rows st"
    and s: "on_schedule r (watermark r (get_instance db (al_id r) (al_security_id r))) d rows st"
  shows "observed (apply_state st db)"
proof -
  let ?before = "watermark r (get_instance db (al_id r) (al_security_id r))"
  obtain w where w: "watermark r (Some (ru_instance st)) = Some w" "d \<le> w" "\<And>v. ?before = Some v \<Longrightarrow> v \<le> w"
      and rows: "\<And>n. n \<in> set rows \<Longrightarrow> an_observation_date n \<le> d"
    using s unfolding on_schedule_def by blast
  have rule: "al_id (ru_rule st) = al_id r" "al_rule_version (ru_rule st) = al_rule_version r"
      "al_security_id (ru_rule st) = al_security_id r" by (subst evaluatedD(3) [OF e], simp)+
  have inst: "ai_rule_id (ru_instance st) = al_id r" "ai_security_id (ru_instance st) = al_security_id r"
    using evaluatedD(2) [OF e] by (simp_all add: of_rule_def)
  show ?thesis
    unfolding observed_def apply_state_simps evaluatedD(1) [OF e] replaced_set [OF r rule(1)]
  proof (intro ballI impI)
    fix q n assume q: "q \<in> insert (ru_rule st) {q \<in> set (ad_rules db). al_id q \<noteq> al_id r}" and n: "n \<in> set (ad_outbox db @ rows)"
        "an_rule_id n = Some (al_id q)" "an_rule_version n = al_rule_version q"
    show "\<exists>w. watermark q (get_instance (apply_state st db) (al_id q) (al_security_id q)) = Some w \<and> an_observation_date n \<le> w"
    proof (cases "q = ru_rule st")
      case True
      have "an_observation_date n \<le> w"
      proof (cases "n \<in> set rows")
        case False
        with n True rule have m: "n \<in> set (ad_outbox db)" "an_rule_id n = Some (al_id r)" "an_rule_version n = al_rule_version r" by auto
        from observedD [OF assms(1) r m] obtain v where "?before = Some v" "an_observation_date n \<le> v" .
        with w(3) show ?thesis by force
      qed (use rows w(2) in force)
      with w(1) True show ?thesis by (simp add: get_instance_apply rule inst watermark_cong [OF rule(2)])
    next
      case False
      with q have q': "q \<in> set (ad_rules db)" "al_id q \<noteq> al_id r" by auto
      with n evaluatedD(5) [OF e] have "n \<in> set (ad_outbox db)" by (auto simp: row_of_rule_def)
      from observedD [OF assms(1) q'(1) this n(2,3)] q'(2) show ?thesis by (auto simp: get_instance_apply inst)
    qed
  qed
qed

text \<open>The changes of rules keep the order.\<close>

lemma find_filter_implied: "(\<And>x. P x \<Longrightarrow> Q x) \<Longrightarrow> find P (filter Q xs) = find P xs"
  by (induction xs) auto

lemma get_instance_restart_other:
  assumes "k \<noteq> al_id r"
  shows "get_instance (restart_instance r r' db) k s = get_instance db k s"
proof -
  have "get_instance (delete_instance (al_id r) t db) k s = get_instance db k s" for t
    unfolding get_instance_def delete_instance_def using assms by (auto intro!: find_filter_implied)
  moreover have "get_instance (store_instance i db) k s = get_instance db k s" if "ai_rule_id i = al_id r" for i
    using that assms by (simp add: get_instance_store)
  ultimately show ?thesis
    by (auto simp: restart_instance_def dest!: get_instance_SomeD split: option.splits)
qed

lemma get_instance_cong: "ad_instances db' = ad_instances db \<Longrightarrow> get_instance db' k s = get_instance db k s"
  by (simp add: get_instance_def)

lemma create_rule_order:
  assumes "alert_tables db" "observed db" "in_order db" "create_rule rnd digests reg user_id p db = Inr (db', r)"
  shows "observed db' \<and> in_order db'"
proof -
  note c = create_rule_outcome [OF assms(4)] and t = alert_tablesD [OF assms(1)]
  have new: "an_rule_id n \<noteq> Some (al_id r)" if n: "n \<in> set (ad_outbox db)" for n
  proof
    assume "an_rule_id n = Some (al_id r)"
    with n t(6) [of n] have "handed_out (ad_rules db) n" by (simp add: refers_def)
    with t(2) c(2) \<open>an_rule_id n = Some (al_id r)\<close> show False by (fastforce simp: handed_out_def)
  qed
  have "observed db'"
    unfolding observed_def c(1,8) get_instance_cong [OF c(7)]
    using assms(2) new by (auto simp: observed_def)
  with assms(3) c(8) show ?thesis by (simp add: in_order_def)
qed

lemma update_rule_order:
  assumes "alert_tables db" "observed db" "in_order db" "update_rule rnd digests reg user_id k u db = Inr (db', r')"
  shows "observed db' \<and> in_order db'"
proof -
  from assms(4) obtain r where found: "find_rule db k (Some user_id) = Some r"
    by (auto simp: update_rule_def split: option.splits)
  note c = update_rule_outcome [OF assms(4) found] and r = find_rule_SomeD(1) [OF found]
  have outbox: "ad_outbox db' = ad_outbox db" using c(3) by (simp add: other_tables_def)
  have "observed db'"
    unfolding observed_def c(1) outbox replaced_set [OF r c(4)] get_instance_cong [OF c(2)]
  proof (intro ballI impI)
    fix q n assume q: "q \<in> insert r' {q \<in> set (ad_rules db). al_id q \<noteq> al_id r}" and n: "n \<in> set (ad_outbox db)"
        "an_rule_id n = Some (al_id q)" "an_rule_version n = al_rule_version q"
    show "\<exists>w. watermark q (get_instance (restart_instance r r' db) (al_id q) (al_security_id q)) = Some w \<and> an_observation_date n \<le> w"
    proof (cases "q = r'")
      case True
      with n c(4,7) handed_out_rule(2) [OF assms(1) n(1) r] have same: "rule_signature r' = rule_signature r" "al_rule_version r' = al_rule_version r"
        by (auto split: if_splits)
      then have sec: "al_security_id r' = al_security_id r" by (simp add: rule_signature_def)
      with n True c(4) same observedD [OF assms(2) r n(1)]
      obtain w where "watermark r (get_instance db (al_id r) (al_security_id r)) = Some w" "an_observation_date n \<le> w" by auto
      with True same sec c(4) watermark_cong [OF same(2)] show ?thesis by (simp add: restart_instance_def)
    next
      case False
      with q have q': "q \<in> set (ad_rules db)" "al_id q \<noteq> al_id r" by auto
      from observedD [OF assms(2) q'(1) n] get_instance_restart_other [OF q'(2)] show ?thesis by metis
    qed
  qed
  with assms(3) outbox show ?thesis by (simp add: in_order_def)
qed

lemma delete_rule_order:
  assumes "observed db" "in_order db" "delete_rule user_id k db = Inr db'"
  shows "observed db' \<and> in_order db'"
proof -
  let ?f = "\<lambda>n. if an_rule_id n = Some k then n\<lparr>an_rule_id := None\<rparr> else n"
  from assms(3) have db': "ad_rules db' = filter (\<lambda>q. al_id q \<noteq> k) (ad_rules db)"
      "ad_instances db' = filter (\<lambda>i. ai_rule_id i \<noteq> k) (ad_instances db)" "ad_outbox db' = map ?f (ad_outbox db)"
    by (auto simp: delete_rule_def split: option.splits)
  have inst: "get_instance db' j s = get_instance db j s" if "j \<noteq> k" for j s
    unfolding get_instance_def db'(2) using that by (auto intro!: find_filter_implied)
  have "observed db'"
    unfolding observed_def
  proof (intro ballI impI)
    fix q n assume q: "q \<in> set (ad_rules db')" and n: "n \<in> set (ad_outbox db')" "an_rule_id n = Some (al_id q)" "an_rule_version n = al_rule_version q"
    from q have q': "q \<in> set (ad_rules db)" "al_id q \<noteq> k" by (auto simp: db'(1))
    from n(1,2) have "n \<in> set (ad_outbox db)" by (auto simp: db'(3) split: if_splits)
    from observedD [OF assms(1) q'(1) this n(2,3)] inst [OF q'(2)]
    show "\<exists>w. watermark q (get_instance db' (al_id q) (al_security_id q)) = Some w \<and> an_observation_date n \<le> w" by auto
  qed
  moreover have "in_order db'"
    using assms(2) unfolding in_order_def db'(3) sorted_wrt_map
    by (rule sorted_wrt_mono_rel [rotated]) (auto simp: same_series_def refers_def split: if_splits)
  ultimately show ?thesis ..
qed

lemma alert_step_order:
  assumes "alert_step rnd digests renderers fromiso reg True db db'" "alert_tables db" "observed db" "in_order db"
  shows "observed db' \<and> in_order db'"
  using assms(1)
proof cases
  case create
  from create_rule_order [OF assms(2-4) this] show ?thesis .
next
  case update
  from update_rule_order [OF assms(2-4) this] show ?thesis .
next
  case delete
  from delete_rule_order [OF assms(3,4) this] show ?thesis .
next
  case (evaluate od view now k)
  show ?thesis
  proof (cases rule: evaluate_rule_outcome [of rnd digests renderers fromiso reg view now od k db])
    case none
    with assms evaluate(1) show ?thesis by simp
  next
    case (grown r st rows)
    from evaluate(2) obtain d where "od = Some d" by auto
    from grown(6) [OF this] evaluated_in_order [OF assms(3,4) grown(1,5)] evaluated_observed [OF assms(3) grown(1,5)]
    show ?thesis unfolding evaluate(1) grown(4) by blast
  qed
qed

lemma alert_steps_order:
  assumes "alert_steps rnd digests renderers fromiso reg True db db'" "alert_tables db" "observed db" "in_order db"
  shows "alert_tables db' \<and> observed db' \<and> in_order db'"
  using assms(1)
proof (induction rule: rtranclp_induct)
  case base
  show ?case using assms by simp
next
  case (step d d')
  from alert_step_order [OF step(2)] alert_step_tables [OF step(2)] step(3) show ?case by blast
qed

section \<open>The monitor limit\<close>

definition within_limit :: "alert_db \<Rightarrow> bool" where
  "within_limit db \<longleftrightarrow> (\<forall>u \<in> set (map fst (ad_watched db) @ map al_user_id (ad_rules db)). length (monitored db u None) \<le> 100)"

lemma monitored_set: "set (monitored db u ex) = snd ` {w \<in> set (ad_watched db). fst w = u} \<union>
    al_security_id ` {r \<in> set (ad_rules db). al_user_id r = u \<and> al_enabled r \<and> (ex \<noteq> None \<longrightarrow> al_id r \<noteq> the ex)}"
  by (auto simp: monitored_def)

lemma monitored_length: "length (monitored db u ex) = card (set (monitored db u ex))"
  unfolding monitored_def by (simp add: length_remdups_card_conv)

lemma within_limit_all:
  assumes "within_limit db"
  shows "card (set (monitored db u None)) \<le> 100"
proof (cases "u \<in> set (map fst (ad_watched db) @ map al_user_id (ad_rules db))")
  case True
  with assms show ?thesis unfolding within_limit_def monitored_length by blast
next
  case False
  then have "set (monitored db u None) = {}" unfolding monitored_set by (auto simp: image_iff)
  then show ?thesis by (simp only: card.empty)
qed

lemma within_limitI: "(\<And>u. card (set (monitored db u None)) \<le> 100) \<Longrightarrow> within_limit db"
  by (simp add: within_limit_def monitored_length)

lemma capacity_insert:
  assumes "ensure_monitor_capacity db u s ex = Ok ()" "card (set (monitored db u ex)) \<le> 100"
  shows "card (insert s (set (monitored db u ex))) \<le> 100"
  using assms by (auto simp: ensure_monitor_capacity_def Let_def monitored_length card_insert_if split: if_splits)

lemma create_rule_limit:
  assumes "within_limit db" "create_rule rnd digests reg user_id p db = Inr (db', r)"
  shows "within_limit db'"
proof (rule within_limitI)
  fix u
  note c = create_rule_outcome [OF assms(2)]
  have "set (monitored db' u None) = (if al_enabled r \<and> u = user_id then insert (al_security_id r) (set (monitored db u None)) else set (monitored db u None))"
    using c(4) by (auto simp: monitored_set c(1,10))
  then show "card (set (monitored db' u None)) \<le> 100"
    using within_limit_all [OF assms(1), of u] capacity_insert [OF c(11)] by auto
qed

lemma monitored_replaced:
  assumes "alert_tables db" "r \<in> set (ad_rules db)" "al_id r' = al_id r" "al_user_id r' = al_user_id r" "ad_rules db' = replaced r' (ad_rules db)"
    "ad_watched db' = ad_watched db"
  shows "set (monitored db' u None) = set (monitored db u (Some (al_id r))) \<union> (if al_enabled r' \<and> u = al_user_id r then {al_security_id r'} else {})"
  using assms(4) by (auto simp: monitored_set assms(5,6) replaced_set [OF assms(2,3)])

lemma monitored_exclude: "set (monitored db u (Some k)) \<subseteq> set (monitored db u None)"
  by (auto simp: monitored_set)

lemma update_rule_limit:
  assumes "alert_tables db" "within_limit db" "update_rule rnd digests reg user_id k u db = Inr (db', r')"
  shows "within_limit db'"
proof (rule within_limitI)
  fix v
  from assms(3) obtain r where found: "find_rule db k (Some user_id) = Some r"
    by (auto simp: update_rule_def split: option.splits)
  note c = update_rule_outcome [OF assms(3) found] and r = find_rule_SomeD [OF found]
  have watched: "ad_watched db' = ad_watched db" using c(3) by (simp add: other_tables_def)
  have less: "card (set (monitored db v (Some (al_id r)))) \<le> 100"
    using card_mono [OF finite_set monitored_exclude, of db v "al_id r"] within_limit_all [OF assms(2), of v] by linarith
  show "card (set (monitored db' v None)) \<le> 100"
    using less capacity_insert [OF c(8)] r(3) [OF refl]
    by (auto simp: monitored_replaced [OF assms(1) r(1) c(4,5,1) watched])
qed

lemma evaluate_rule_limit:
  assumes "alert_tables db" "within_limit db"
  shows "within_limit (fst (evaluate_rule rnd digests renderers fromiso reg view now od k db))"
proof (cases rule: evaluate_rule_outcome [of rnd digests renderers fromiso reg view now od k db])
  case none
  with assms show ?thesis by simp
next
  case (grown r st rows)
  have rule: "al_id (ru_rule st) = al_id r" "al_user_id (ru_rule st) = al_user_id r" "al_enabled (ru_rule st) = al_enabled r"
      "al_security_id (ru_rule st) = al_security_id r" by (subst evaluatedD(3) [OF grown(5)], simp)+
  have "set (monitored (apply_state st db) u None) \<subseteq> set (monitored db u None)" for u
    using grown(1) monitored_exclude [of db u "al_id r"]
    by (auto simp: monitored_replaced [OF assms(1) grown(1) rule(1,2)] rule(3,4)) (auto simp: monitored_set)
  from card_mono [OF finite_set this] within_limit_all [OF assms(2)] show ?thesis
    unfolding grown(4) by (intro within_limitI) (meson order.trans)
qed

lemma delete_rule_limit:
  assumes "within_limit db" "delete_rule user_id k db = Inr db'"
  shows "within_limit db'"
proof (rule within_limitI)
  fix u
  have "set (monitored db' u None) \<subseteq> set (monitored db u None)"
    using assms(2) by (auto simp: delete_rule_def monitored_set split: option.splits)
  from card_mono [OF finite_set this] within_limit_all [OF assms(1), of u] show "card (set (monitored db' u None)) \<le> 100" by linarith
qed

section \<open>A concrete account\<close>

text \<open>One user with a rule on the dividend yield of one security.\<close>

definition demo_reg :: state_registry where
  "demo_reg = empty_registry"

definition demo_sha :: "string \<Rightarrow> (string, pyval) dict \<Rightarrow> string" where "demo_sha t ps = t"

definition demo_renderers :: renderers where "demo_renderers = (\<lambda>_. ''3'', \<lambda>_. ''2024-01-05'', ''State'', \<lambda>_. ''?'')"

definition demo_view :: "int \<Rightarrow> analysis_view" where
  "demo_view d = \<lparr>av_streams = [], av_event_id = (\<lambda>_ _ _. 0), av_snapshots = [], av_dividend = (\<lambda>_. Ok (5, d))\<rparr>"

definition demo_payload :: rule_payload where
  "demo_payload = \<lparr>rp_security_id = 1, rp_condition_type = ''VALUE'', rp_state_id = None, rp_state_code = None,
     rp_indicator = Some ''DIVIDEND_YIELD'', rp_operator = Some ''>='', rp_threshold = Some (Fin 3), rp_parameters = as_object [],
     rp_field = None, rp_adjust_type = None, rp_enabled = True\<rparr>"

definition demo_db :: alert_db where
  "demo_db = \<lparr>ad_rules = [], ad_instances = [], ad_outbox = [],
     ad_securities = [(1, \<lparr>ac_symbol = ''600519'', ac_name = ''Moutai'', ac_status = ''ACTIVE''\<rparr>)],
     ad_watched = [(7, 1)], ad_demand = [], ad_bootstrap = [], ad_next_rule = 1, ad_next_notification = 1\<rparr>"

definition demo_rule :: stored_rule where
  "demo_rule = \<lparr>al_id = 1, al_user_id = 7, al_security_id = 1, al_condition_type = ''VALUE'', al_indicator_type = Some ''DIVIDEND_YIELD'',
     al_state_code = None, al_operator = Some ''>='', al_threshold = Some (Fin 3), al_parameters = as_object [],
     al_parameter_key = Some ''v1_DIVIDEND_YIELD'', al_field = Some ''value'', al_adjust_type = ''none'', al_rule_version = 1,
     al_trigger_sequence = 0, al_enabled = True\<rparr>"

definition demo_created :: alert_db where
  "demo_created = demo_db\<lparr>ad_rules := [demo_rule], ad_next_rule := 2, ad_demand := [1], ad_bootstrap := [''600519'']\<rparr>"

lemma demo_normalize: "normalize_indicator_type ''DIVIDEND_YIELD'' = Inr ''DIVIDEND_YIELD''"
  by code_simp

lemma demo_condition: "ValueCondition id (VStr ''DIVIDEND_YIELD'') (VStr ''>='') (VFloat (Fin 3)) = Inr (OnValue ''DIVIDEND_YIELD'' GREATER_THAN_OR_EQUAL 3)"
  by code_simp

lemma demo_key: "parameter_key id demo_sha ''DIVIDEND_YIELD'' (as_object []) = Inr ''v1_DIVIDEND_YIELD''"
  by code_simp

lemma demo_text:
  "upper (strip ''VALUE'') = ''VALUE''" "lower (strip ''qfq'') = ''qfq''" "strip ''>='' = ''>=''"
  by code_simp+

lemma demo_fields: "make_condition_fields id (demo_sha, demo_sha) demo_reg (Some ''VALUE'') None None (Some ''DIVIDEND_YIELD'') (Some ''>='')
    (Some (Fin 3)) (as_object []) None None = Inr \<lparr>cf_condition_type = ''VALUE'', cf_indicator_type = Some ''DIVIDEND_YIELD'',
      cf_state_code = None, cf_operator = Some ''>='', cf_threshold = Some (Fin 3), cf_parameters = [],
      cf_parameter_key = ''v1_DIVIDEND_YIELD'', cf_field = Some ''value'', cf_adjust_type = ''none''\<rparr>"
  by (simp add: make_condition_fields_def value_condition_fields_def text_or_def or_else_def demo_text demo_normalize demo_condition demo_key
      Let_def)

lemma demo_fields_again: "make_condition_fields id (demo_sha, demo_sha) demo_reg (Some ''VALUE'') None None (Some ''DIVIDEND_YIELD'') (Some ''>='')
    (Some (Fin 3)) (as_object []) (Some ''value'') (Some ''none'') = Inr \<lparr>cf_condition_type = ''VALUE'', cf_indicator_type = Some ''DIVIDEND_YIELD'',
      cf_state_code = None, cf_operator = Some ''>='', cf_threshold = Some (Fin 3), cf_parameters = [],
      cf_parameter_key = ''v1_DIVIDEND_YIELD'', cf_field = Some ''value'', cf_adjust_type = ''none''\<rparr>"
proof -
  have "lower (strip ''none'') = ''none''" by code_simp
  then show ?thesis
    by (simp add: make_condition_fields_def value_condition_fields_def text_or_def or_else_def demo_text demo_normalize demo_condition demo_key
        Let_def)
qed

lemma demo_create: "create_rule id (demo_sha, demo_sha) demo_reg 7 demo_payload demo_db = Inr (demo_created, demo_rule)"
  by (simp add: create_rule_def demo_payload_def demo_fields ensure_monitor_capacity_def active_security_def
      demo_db_def demo_created_def demo_rule_def monitored_def enqueue_bootstrap_def with_fields_def Let_def)

definition demo_domain :: alert_rule where
  "demo_domain = \<lparr>ar_condition = OnValue ''DIVIDEND_YIELD'' GREATER_THAN_OR_EQUAL 3, ar_security_id = VInt 1, ar_enabled = True, ar_rule_id = VInt 1\<rparr>"

lemma demo_domain_rule: "make_domain_rule id demo_reg demo_rule = Inr demo_domain"
  by code_simp

lemma demo_status: "evaluate_status id demo_domain (as_object [(''value'', VFloat (Fin 5))]) ALERT_RESET = Inr (ALERT_ACTIVE, True)"
  by code_simp

definition demo_context :: "int \<Rightarrow> alert_context" where
  "demo_context d = \<lparr>cx_date = d, cx_current = Some 5, cx_previous = None, cx_change = None, cx_details = None, cx_state = None,
     cx_provenance = []\<rparr>"

lemma demo_observation: "resolve_observation id (demo_sha, demo_sha) demo_reg (demo_view d) demo_rule =
    Inr (Some (as_object [(''value'', VFloat (Fin 5))], demo_context d))"
proof -
  have upper: "upper ''DIVIDEND_YIELD'' = ''DIVIDEND_YIELD''" by code_simp
  show ?thesis
    by (simp add: resolve_observation_def resolve_value_def demo_rule_def demo_view_def demo_context_def text_or_def or_else_def upper)
qed

lemma demo_strips:
  "strip ''Moutai'' \<noteq> []" "strip ''600519'' \<noteq> []" "strip ''DIVIDEND_YIELD'' \<noteq> []"
  by code_simp+

lemma demo_message: "\<exists>m. make_notification_message id \<lparr>ac_symbol = ''600519'', ac_name = ''Moutai'', ac_status = ''ACTIVE''\<rparr>
     demo_rule (demo_context d) = Inr m"
proof -
  have "\<exists>m. NotificationMessage id (VStr ''Moutai'') (VStr ''600519'') (VStr ''DIVIDEND_YIELD'') VNone (VFloat (Fin 5)) VNone VNone VNone d VNone = Inr m"
    by (simp add: NotificationMessage_def message_number_def message_text_def finite_or_def demo_strips)
  then show ?thesis
    by (simp add: make_notification_message_def demo_rule_def demo_context_def option_text_def option_float_def)
qed

lemma demo_evaluation: "\<exists>st res. evaluate_locked id (demo_sha, demo_sha) demo_renderers (\<lambda>_. None) demo_reg (demo_view d)
     \<lparr>ac_symbol = ''600519'', ac_name = ''Moutai'', ac_status = ''ACTIVE''\<rparr> now (Some d) demo_rule None 1 = Inr (Some st, res) \<and>
     ru_queued st \<noteq> [] \<and> ad_rules (apply_state st db) = replaced (demo_rule\<lparr>al_trigger_sequence := 1\<rparr>) (ad_rules db)"
proof -
  obtain m where m: "make_notification_message id \<lparr>ac_symbol = ''600519'', ac_name = ''Moutai'', ac_status = ''ACTIVE''\<rparr>
     demo_rule (demo_context d) = Inr m" using demo_message by blast
  have rule: "al_enabled demo_rule" "al_condition_type demo_rule = ''VALUE''" "al_trigger_sequence demo_rule = 0"
    by (simp_all add: demo_rule_def)
  show ?thesis
    by (simp add: evaluate_locked_def rule demo_observation demo_domain_rule evaluate_direct_def demo_status evaluate_tail_def
        new_instance_def enqueue_trigger_def m Let_def) (simp add: demo_context_def)
qed

text \<open>The account after the first scheduled evaluation.\<close>

definition demo_evaluated :: "int \<Rightarrow> alert_db" where
  "demo_evaluated d = fst (evaluate_rule id (demo_sha, demo_sha) demo_renderers (\<lambda>_. None) demo_reg (demo_view d) 100 (Some d) 1 demo_created)"

lemma demo_queued: "ad_outbox (demo_evaluated d) \<noteq> []"
proof -
  have r: "find_rule demo_created 1 None = Some demo_rule"
    by (simp add: find_rule_def demo_created_def demo_db_def demo_rule_def)
  have i: "get_instance demo_created (al_id demo_rule) (al_security_id demo_rule) = None"
    by (simp add: get_instance_def demo_created_def demo_db_def)
  have s: "joined_security demo_created demo_rule = \<lparr>ac_symbol = ''600519'', ac_name = ''Moutai'', ac_status = ''ACTIVE''\<rparr>"
    by (simp add: joined_security_def demo_created_def demo_db_def demo_rule_def)
  have k: "ad_next_notification demo_created = 1" by (simp add: demo_created_def demo_db_def)
  obtain st res where "evaluate_locked id (demo_sha, demo_sha) demo_renderers (\<lambda>_. None) demo_reg (demo_view d)
      \<lparr>ac_symbol = ''600519'', ac_name = ''Moutai'', ac_status = ''ACTIVE''\<rparr> 100 (Some d) demo_rule None 1 = Inr (Some st, res)" "ru_queued st \<noteq> []"
    using demo_evaluation by blast
  then show ?thesis by (simp add: demo_evaluated_def evaluate_rule_def r i s k)
qed

lemma demo_steps: "alert_steps id (demo_sha, demo_sha) demo_renderers (\<lambda>_. None) demo_reg scheduled demo_db (demo_evaluated d)"
proof -
  let ?R = "alert_step id (demo_sha, demo_sha) demo_renderers (\<lambda>_. None) demo_reg scheduled"
  have "?R demo_db demo_created" by (rule alert_step.create [OF demo_create])
  moreover have "?R demo_created (demo_evaluated d)"
    unfolding demo_evaluated_def by (rule alert_step.evaluate) simp
  ultimately show ?thesis by (meson converse_rtranclp_into_rtranclp r_into_rtranclp)
qed

lemma demo_db_ok: "alert_tables demo_db" "observed demo_db" "in_order demo_db" "within_limit demo_db"
  by (simp_all add: alert_tables_def observed_def in_order_def within_limit_def demo_db_def monitored_def)

lemma demo_created_ok: "alert_tables demo_created"
  using create_rule_tables [OF demo_db_ok(1) demo_create] .

lemma within_limit_step:
  assumes "alert_step rnd digests renderers fromiso reg scheduled db db'" "alert_tables db" "within_limit db"
  shows "within_limit db'"
  using assms(1)
proof cases
  case create
  from create_rule_limit [OF assms(3) this] show ?thesis .
next
  case update
  from update_rule_limit [OF assms(2,3) this] show ?thesis .
next
  case delete
  from delete_rule_limit [OF assms(3) this] show ?thesis .
next
  case evaluate
  from evaluate_rule_limit [OF assms(2,3)] show ?thesis unfolding evaluate(1) .
qed

section \<open>Properties\<close>

text \<open>
  C2: the unique key of the notification table, a rule with a security and a trigger number, is
  never violated. Whatever sequence of creations, changes, deletions, direct and scheduled
  evaluations runs, no two queued notifications of a rule share a number, each number is one the
  rule has handed out, a rule has at most one instance, and identifiers are unique.
\<close>

theorem notification_numbers_unique:
  assumes "alert_tables db" "alert_steps rnd digests renderers fromiso reg scheduled db db'"
  shows "alert_tables db' \<and>
    distinct (map (\<lambda>n. (an_rule_id n, an_security_id n, an_sequence n)) (filter refers (ad_outbox db')))"
proof -
  from alert_steps_tables [OF assms(2,1)] have t: "alert_tables db'" .
  from alert_tablesD(7) [OF t] have "distinct (map (\<lambda>n. (an_rule_id n, an_security_id n, an_sequence n)) (filter refers (ad_outbox db')))"
    unfolding distinct_map inj_on_def by simp
  with t show ?thesis by simp
qed

theorem notification_numbers_unique_witness:
  "ad_outbox (demo_evaluated 10) \<noteq> [] \<and> alert_tables (demo_evaluated 10)"
  using demo_queued notification_numbers_unique [OF demo_db_ok(1) demo_steps [of False 10]] by simp

text \<open>
  C12: a scheduled evaluation happens once per date. When one for a date has committed anything, a
  later scheduled evaluation of the same rule for that date or an earlier one queues nothing,
  whatever has been published or restated in between.
\<close>

theorem scheduled_evaluation_once:
  assumes "alert_tables db"
    and "db' = fst (evaluate_rule rnd digests renderers fromiso reg view now (Some d) k db)" "db' \<noteq> db" "d' \<le> d"
  shows "ad_outbox (fst (evaluate_rule rnd digests renderers fromiso reg view' now' (Some d') k db')) = ad_outbox db'"
proof (cases rule: evaluate_rule_outcome [of rnd digests renderers fromiso reg view now "Some d" k db])
  case none
  with assms show ?thesis by simp
next
  case (grown r st rows)
  then obtain w where w: "watermark r (Some (ru_instance st)) = Some w" "d \<le> w"
    unfolding on_schedule_def by blast
  have db': "db' = apply_state st db" and t: "alert_tables db'" and e: "evaluated r (ad_next_notification db) rows st"
    using assms grown evaluated_tables by simp_all
  have rule: "al_id (ru_rule st) = al_id r" "al_rule_version (ru_rule st) = al_rule_version r"
      "al_security_id (ru_rule st) = al_security_id r" by (subst evaluatedD(3) [OF e], simp)+
  have own: "ru_rule st \<in> set (ad_rules db')" unfolding db' apply_state_simps replaced_set [OF grown(1) rule(1)] by simp
  show ?thesis
  proof (cases rule: evaluate_rule_outcome [of rnd digests renderers fromiso reg view' now' "Some d'" k db'])
    case none
    then show ?thesis by simp
  next
    case second: (grown r2 st2 rows2)
    from same_rule [OF t second(1) own] second(2) grown(2) rule(1) have r2: "r2 = ru_rule st" by simp
    have "watermark r2 (get_instance db' (al_id r2) (al_security_id r2)) = Some w"
      using w(1) evaluatedD(2) [OF e] unfolding db' r2 by (simp add: get_instance_apply rule of_rule_def watermark_cong [OF rule(2)])
    with second(6) [OF refl] w(2) assms(4) have "rows2 = []"
      unfolding on_schedule_def by (cases rows2) auto
    with evaluatedD(1) [OF second(5)] second(4) show ?thesis by simp
  qed
qed

theorem scheduled_evaluation_once_witness:
  "ad_outbox (fst (evaluate_rule id (demo_sha, demo_sha) demo_renderers (\<lambda>_. None) demo_reg (demo_view 9) 200 (Some 9) 1 (demo_evaluated 10))) =
     ad_outbox (demo_evaluated 10) \<and> ad_outbox (demo_evaluated 10) \<noteq> []"
proof -
  have "demo_evaluated 10 \<noteq> demo_created" using demo_queued [of 10] by (auto simp: demo_created_def demo_db_def)
  from scheduled_evaluation_once [OF demo_created_ok demo_evaluated_def this, of 9] demo_queued show ?thesis by simp
qed

text \<open>
  C3: notifications of a rule are queued in the order of the days they report. Under every sequence
  of changes of rules and scheduled evaluations, catch-ups after missed runs included, the
  notifications of a version of a rule never go back in time, and none is dated after the day up to
  which its instance has been evaluated.
\<close>

theorem notifications_in_order:
  assumes "alert_tables db" "observed db" "in_order db" "alert_steps rnd digests renderers fromiso reg True db db'"
  shows "in_order db' \<and> observed db'"
  using alert_steps_order [OF assms(4,1-3)] by simp

theorem notifications_in_order_witness:
  "ad_outbox (demo_evaluated 10) \<noteq> [] \<and> in_order (demo_evaluated 10) \<and> observed (demo_evaluated 10)"
  using demo_queued notifications_in_order [OF demo_db_ok(1-3) demo_steps [of True 10]] by simp

text \<open>
  no user is made to monitor more than one hundred distinct securities by creating, changing or
  evaluating alert rules, however watch lists and enabled rules overlap.
\<close>

theorem monitor_limit_kept:
  assumes "alert_tables db" "within_limit db" "alert_steps rnd digests renderers fromiso reg scheduled db db'"
  shows "within_limit db'"
  using assms(3)
proof (induction rule: rtranclp_induct)
  case base
  show ?case by (rule assms(2))
next
  case (step d d')
  from within_limit_step [OF step(2) alert_steps_tables [OF step(1) assms(1)] step(3)] show ?case .
qed

theorem monitor_limit_kept_witness: "within_limit (demo_evaluated 10) \<and> ad_rules demo_created = [demo_rule]"
  using monitor_limit_kept [OF demo_db_ok(1,4) demo_steps [of True 10]] by (simp add: demo_created_def)

lemma text_or_Some [simp]: "text_or (Some t) [] = t"
  by (cases t) (simp_all add: text_or_def or_else_def)

text \<open>
  C35: changing what a rule watches starts it afresh. A change of any field of its signature makes
  the next version and leaves no watermark or active status behind on the security it now watches,
  so that the old history cannot trigger or silence it; any other change keeps version, instance
  and history. Numbers already handed out are never reset, and nothing is queued.
\<close>

theorem update_restarts_rule:
  assumes "alert_tables db" "find_rule db k (Some user_id) = Some r" "update_rule rnd digests reg user_id k u db = Ok (db', r')"
  shows "(if rule_signature r' = rule_signature r then al_rule_version r' = al_rule_version r \<and> ad_instances db' = ad_instances db
       else al_rule_version r' = al_rule_version r + 1 \<and>
         (case get_instance db' (al_id r') (al_security_id r') of None \<Rightarrow> True
          | Some i \<Rightarrow> ai_status i = ALERT_RESET \<and> ai_last_evaluated i = None \<and> ai_rule_version i = al_rule_version r')) \<and>
     al_trigger_sequence r' = al_trigger_sequence r \<and> ad_outbox db' = ad_outbox db"
proof -
  note c = update_rule_outcome [OF assms(3,2)] and t = alert_tablesD [OF assms(1)] and r = find_rule_SomeD(1) [OF assms(2)]
  have "get_instance (restart_instance r r' db) (al_id r) (al_security_id r') = None" if "al_security_id r \<noteq> al_security_id r'"
    using that attached_own [OF t(1) r t(8)]
    by (fastforce simp: restart_instance_def delete_instance_def get_instance_def find_None_iff of_rule_def)
  moreover have "case get_instance (restart_instance r r' db) (al_id r) (al_security_id r') of None \<Rightarrow> True
      | Some i \<Rightarrow> ai_status i = ALERT_RESET \<and> ai_last_evaluated i = None \<and> ai_rule_version i = al_rule_version r'"
    if "al_security_id r = al_security_id r'" "rule_signature r' \<noteq> rule_signature r"
    using that by (auto simp: restart_instance_def get_instance_store split: option.splits dest: get_instance_SomeD)
  moreover have "restart_instance r r' db = db" if "rule_signature r' = rule_signature r"
    using that by (simp add: restart_instance_def rule_signature_def)
  ultimately show ?thesis
    using c(2-4,6,7) get_instance_cong [OF c(2)] by (cases "al_security_id r = al_security_id r'") (auto simp: other_tables_def)
qed

definition demo_update :: rule_update where
  "demo_update = \<lparr>up_security_id = None, up_condition_type = None, up_state_id = None, up_state_code = None, up_indicator = None,
     up_operator = None, up_threshold = None, up_parameters = None, up_field = None, up_adjust_type = None, up_enabled = Some (Some False)\<rparr>"

lemma demo_found: "find_rule demo_created 1 (Some 7) = Some demo_rule"
  by (simp add: find_rule_def demo_created_def demo_db_def demo_rule_def)

lemma demo_updated: "\<exists>db'. update_rule id (demo_sha, demo_sha) demo_reg 7 1 demo_update demo_created =
    Ok (db', demo_rule\<lparr>al_enabled := False, al_rule_version := 2\<rparr>)"
  by (simp add: update_rule_def demo_found demo_update_def state_fields_def sent_def)
    (simp add: demo_rule_def demo_created_def demo_db_def active_security_def demo_fields_again versioned_rule_def with_fields_def
      rule_signature_def Let_def)

theorem update_restarts_rule_witness:
  "\<exists>db' r'. update_rule id (demo_sha, demo_sha) demo_reg 7 1 demo_update demo_created = Ok (db', r') \<and>
     al_rule_version r' = 2 \<and> \<not> al_enabled r' \<and> al_trigger_sequence r' = al_trigger_sequence demo_rule \<and> ad_outbox db' = ad_outbox demo_created"
proof -
  obtain db' where u: "update_rule id (demo_sha, demo_sha) demo_reg 7 1 demo_update demo_created =
      Ok (db', demo_rule\<lparr>al_enabled := False, al_rule_version := 2\<rparr>)" using demo_updated by blast
  from update_restarts_rule [OF demo_created_ok demo_found u] u show ?thesis by auto
qed

text \<open>
  The default registry holds each definition under its own code and nothing else, so a definition
  found under any spelling is found under its code.
\<close>

lemma registered_entries:
  assumes "distinct (map sd_code ds)" "set (map sd_code ds) \<inter> set (dict_keys (reg_entries r)) = {}"
    and "register_list (\<lambda>d aliases replace reg. emap snd (state_register (Definition d) aliases replace reg))
      (map (\<lambda>d. (d, [])) ds) r = Ok r'"
  shows "reg_entries r' = reg_entries r @ map (\<lambda>d. (sd_code d, d)) ds"
  using assms
proof (induction ds arbitrary: r)
  case (Cons d ds)
  from Cons.prems(3) obtain q where q: "emap snd (state_register (Definition d) [] False r) = Ok q"
    "register_list (\<lambda>d aliases replace reg. emap snd (state_register (Definition d) aliases replace reg))
      (map (\<lambda>d. (d, [])) ds) q = Ok r'" by auto
  have e: "reg_entries q = reg_entries r @ [(sd_code d, d)]"
    using q(1) Cons.prems(2)
    by (auto simp: state_register_def coerce_definition_def register_under_def Let_def dict_set_new split: if_splits)
  have "reg_entries r' = reg_entries q @ map (\<lambda>d. (sd_code d, d)) ds"
    using Cons.prems(1,2) q(2) by (intro Cons.IH) (auto simp: e)
  then show ?case by (simp add: e)
qed simp

lemma default_codes_plain: "code \<in> set default_codes \<Longrightarrow> strip code = code \<and> upper code = code"
proof -
  have "list_all (\<lambda>code. strip code = code \<and> upper code = code) default_codes" by code_simp
  then show "code \<in> set default_codes \<Longrightarrow> strip code = code \<and> upper code = code" by (simp add: list_all_iff)
qed

lemma default_registry_by_code:
  assumes "create_default_state_registry rnd = Ok reg" "state_get reg code = Ok d"
  shows "state_get reg (sd_code d) = Ok d"
proof -
  obtain ds where ds: "create_default_definitions rnd = Ok ds" "map sd_code ds = default_codes"
    using default_definitions_valid [of rnd] by blast
  have dist: "distinct default_codes" by (simp add: default_codes_def)
  have "new_state_registry ds = Ok reg" using assms(1) ds(1) by (simp add: create_default_state_registry_def)
  from registered_entries [OF _ _ this [unfolded new_state_registry_def]] dist ds(2)
  have entries: "reg_entries reg = map (\<lambda>d. (sd_code d, d)) ds" by (simp add: empty_registry_def)
  have found: "dict_get (reg_entries reg) (upper (strip code)) = Some d"
    using assms(2) by (simp add: state_get_def split: if_splits option.splits)
  then have "(upper (strip code), d) \<in> set (reg_entries reg)" by (rule map_of_SomeD)
  then have d: "d \<in> set ds" "upper (strip code) = sd_code d" by (auto simp: entries)
  then have "sd_code d \<in> set default_codes" unfolding ds(2) [symmetric] by simp
  note plain = default_codes_plain [OF this]
  have "sd_code d \<noteq> []"
    using \<open>sd_code d \<in> set default_codes\<close> by (auto simp: default_codes_def)
  then show ?thesis using found unfolding d(2) by (simp add: state_get_def plain)
qed

text \<open>
  C36: A rule that can be stored can be evaluated. With the registry of built-in states, which the
  service uses unless it is given another, whatever condition a request states, if it is accepted
  then the evaluator's rule is built from the stored columns without an error, and is enabled exactly
  when the stored rule is.
\<close>

theorem stored_rules_evaluable:
  assumes "make_condition_fields rnd digests reg kind state_id state_code indicator op threshold parameters field adjust = Ok f"
    and "create_default_state_registry rnd = Ok reg"
  shows "\<exists>domain. make_domain_rule rnd reg (with_fields f r) = Ok domain \<and> ar_enabled domain = al_enabled r"
proof (cases "map_option (\<lambda>t. upper (strip t)) kind = Some ''STATE''")
  case True
  with assms(1) obtain adjustment where "state_condition_fields rnd digests reg state_id state_code parameters adjustment = Ok f"
    by (auto simp: make_condition_fields_def Let_def split: if_split_asm)
  then obtain code resolved d where d: "state_get reg code = Ok d" "resolved = sd_code d"
      and f: "cf_condition_type f = ''STATE''" "cf_state_code f = Some resolved"
    by (auto simp: state_condition_fields_def validated_state_code_def split: if_split_asm sum.splits)
  from default_registry_by_code [OF assms(2) d(1)] d(2) have get: "state_get reg resolved = Ok d" by simp
  then have "strip resolved \<noteq> []" by (auto simp: state_get_def)
  then show ?thesis
    by (simp add: make_domain_rule_def with_fields_def f validated_state_code_def get d(2) [symmetric] StateCondition_def
        non_empty_text_def AlertRule_def)
next
  case False
  with assms(1) obtain i o' th adjustment where "value_condition_fields rnd digests i o' th parameters field adjustment = Ok f"
    by (auto simp: make_condition_fields_def Let_def split: if_split_asm option.splits)
  then obtain c t where c: "ValueCondition rnd (VStr t) (VStr (if o' = ''='' then ''=='' else o')) (VFloat th) = Ok c"
      and f: "cf_condition_type f = ''VALUE''" "cf_indicator_type f = Some t" "cf_operator f = Some o'" "cf_threshold f = Some th"
    by (auto simp: value_condition_fields_def simp del: if_split)
  from c show ?thesis
    by (simp add: make_domain_rule_def with_fields_def f AlertRule_def)
qed

text \<open>A state condition under another spelling of its code, and the rule stored for it.\<close>

lemma default_first:
  "\<exists>d ds. create_default_definitions rnd = Ok (d # ds) \<and> sd_code d = ''MA_CROSS_UP'' \<and> sd_indicator_type d = ''MA''"
  unfolding create_default_definitions_def
  by (simp add: make_definition_row row_ok_def label_ok_def is_space_def definition_row_def)

lemma demo_state_fields:
  assumes "create_default_state_registry id = Ok reg"
  obtains f where "make_condition_fields id (demo_sha, demo_sha) reg (Some ''state'') (Some '' ma_cross_up'') None None None
      None (as_object []) None None = Ok f" "cf_state_code f = Some ''MA_CROSS_UP''"
proof -
  obtain d ds where d: "create_default_definitions id = Ok (d # ds)" "sd_code d = ''MA_CROSS_UP''" "sd_indicator_type d = ''MA''"
    using default_first by blast
  have texts: "strip '' ma_cross_up'' = ''ma_cross_up''" "upper ''ma_cross_up'' = ''MA_CROSS_UP''" "strip ''MA_CROSS_UP'' = ''MA_CROSS_UP''"
    "upper ''MA_CROSS_UP'' = ''MA_CROSS_UP''" "strip ''state'' = ''state''" "upper ''state'' = ''STATE''" by code_simp+
  have r: "register_list (\<lambda>d aliases replace reg. emap snd (state_register (Definition d) aliases replace reg))
      (map (\<lambda>d. (d, [])) (d # ds)) empty_registry = Ok reg"
    using assms d(1) by (simp add: create_default_state_registry_def new_state_registry_def)
  have get: "state_get reg m = Ok d" if "state_key m = ''MA_CROSS_UP''" for m
    using st.register_all_get [OF r, of d "[]" m] that d(2) by simp
  have found: "state_get reg '' ma_cross_up'' = Ok d" "state_get reg ''MA_CROSS_UP'' = Ok d"
    by (intro get; simp add: state_key_def texts)+
  have ps: "canonicalize_state_parameters id ''MA'' (as_object []) = Ok [(''short_period'', VInt 5), (''long_period'', VInt 10)]"
    by code_simp
  have qfq: "casefold (strip ''qfq'') = ''qfq''" by code_simp
  have "\<exists>f. state_condition_fields id (demo_sha, demo_sha) reg (Some '' ma_cross_up'') None (as_object []) ''qfq'' = Ok f \<and>
      cf_state_code f = Some ''MA_CROSS_UP''"
    using ps found d(2,3) by (simp add: state_condition_fields_def validated_state_code_def text_or_def or_else_def)
  moreover have "make_condition_fields id (demo_sha, demo_sha) reg (Some ''state'') (Some '' ma_cross_up'') None None None
      None (as_object []) None None =
      state_condition_fields id (demo_sha, demo_sha) reg (Some '' ma_cross_up'') None (as_object []) ''qfq''"
    by (simp add: make_condition_fields_def text_or_def or_else_def texts qfq Let_def)
  ultimately show thesis using that by metis
qed

theorem stored_rules_evaluable_witness:
  "\<exists>reg f domain. create_default_state_registry id = Ok reg \<and>
     make_condition_fields id (demo_sha, demo_sha) reg (Some ''state'') (Some '' ma_cross_up'') None None None
       None (as_object []) None None = Ok f \<and> cf_state_code f = Some ''MA_CROSS_UP'' \<and>
     make_domain_rule id reg (with_fields f demo_rule) = Ok domain \<and> ar_enabled domain"
proof -
  obtain reg where reg: "create_default_state_registry id = Ok reg"
    using default_state_registry_complete [of id] by blast
  obtain f where f: "make_condition_fields id (demo_sha, demo_sha) reg (Some ''state'') (Some '' ma_cross_up'') None None None
      None (as_object []) None None = Ok f" "cf_state_code f = Some ''MA_CROSS_UP''" by (rule demo_state_fields [OF reg])
  from stored_rules_evaluable [OF f(1) reg, of demo_rule] reg f show ?thesis
    by (auto simp: demo_rule_def)
qed

end
