(* ===== verification/Watch_Tables.thy ===== *)
theory Watch_Tables
  imports Alert_Service
begin

text \<open>
  Watch tables (\<open>services/watch_table_service.py\<close>, \<open>repositories/watch_table.py\<close>): tables of a user,
  the securities in them with their positions, and the dynamic columns.

  An operation is one transaction under the lock of the account, a function from the tables to the
  tables and a result; an exception leaves them unchanged. Securities, rules, the demand marks and the
  bootstrap queue are those of the alert service, because both share the monitor limit. The text of
  a column request has passed the validators of its schema, which strip and capitalize it.
\<close>

section \<open>Tables\<close>

record watch_table =
  wt_id :: int
  wt_user_id :: int
  wt_name :: string
  wt_description :: "string option"

record watch_symbol =
  ws_id :: int
  ws_table_id :: int
  ws_security_id :: int
  ws_position :: int
  ws_created_at :: int

record table_column =
  tc_id :: int
  tc_table_id :: int
  tc_column_type :: string
  tc_indicator_type :: "string option"
  tc_state_code :: "string option"
  tc_parameters :: "(string, pyval) dict"
  tc_view_mode :: string
  tc_position :: int
  tc_visible :: bool
  tc_width :: "int option"

record watch_db =
  wd_tables :: "watch_table list"
  wd_symbols :: "watch_symbol list"
  wd_columns :: "table_column list"
  wd_next_table :: int
  wd_next_symbol :: int
  wd_next_column :: int
  wd_shared :: alert_db

text \<open>The account as the alert service sees it: its watched securities are the rows of its tables.\<close>

definition watched_pairs :: "watch_db \<Rightarrow> (int \<times> int) list" where
  "watched_pairs db = concat (map (\<lambda>t. map (\<lambda>s. (wt_user_id t, ws_security_id s))
     (filter (\<lambda>s. ws_table_id s = wt_id t) (wd_symbols db))) (wd_tables db))"

definition account :: "watch_db \<Rightarrow> alert_db" where
  "account db = (wd_shared db)\<lparr>ad_watched := watched_pairs db\<rparr>"

definition demand_changed :: "int list \<Rightarrow> watch_db \<Rightarrow> watch_db" where
  "demand_changed ids db = db\<lparr>wd_shared := (wd_shared db)\<lparr>ad_demand := ad_demand (wd_shared db) @ ids\<rparr>\<rparr>"

definition enqueue_symbols :: "string list \<Rightarrow> watch_db \<Rightarrow> watch_db" where
  "enqueue_symbols ss db = db\<lparr>wd_shared := (wd_shared db)\<lparr>ad_bootstrap := ad_bootstrap (wd_shared db) @ ss\<rparr>\<rparr>"

definition table_not_found :: exn where
  "table_not_found = ApiError ''WATCH_TABLE_NOT_FOUND'' ''Watch table was not found.'' 404"

definition owned :: "watch_db \<Rightarrow> int \<Rightarrow> int \<Rightarrow> watch_table result" where
  "owned db table_id user_id = (case find (\<lambda>t. wt_id t = table_id \<and> wt_user_id t = user_id) (wd_tables db) of
      None \<Rightarrow> Raise table_not_found | Some t \<Rightarrow> Ok t)"

definition list_symbols :: "watch_db \<Rightarrow> int \<Rightarrow> watch_symbol list" where
  "list_symbols db table_id = sort_key (\<lambda>s. (ws_position s, ws_id s)) (filter (\<lambda>s. ws_table_id s = table_id) (wd_symbols db))"

definition list_columns :: "watch_db \<Rightarrow> int \<Rightarrow> table_column list" where
  "list_columns db table_id = sort_key (\<lambda>c. (tc_position c, tc_id c)) (filter (\<lambda>c. tc_table_id c = table_id) (wd_columns db))"

definition next_position :: "int list \<Rightarrow> int" where
  "next_position ps = (if ps = [] then 0 else Max (set ps) + 1)"

definition member_ids :: "watch_db \<Rightarrow> int \<Rightarrow> int list" where
  "member_ids db table_id = map ws_security_id (list_symbols db table_id)"

definition member_symbols :: "watch_db \<Rightarrow> int \<Rightarrow> string list" where
  "member_symbols db table_id = concat (map (\<lambda>i. case dict_get (ad_securities (wd_shared db)) i of Some s \<Rightarrow> [ac_symbol s] | None \<Rightarrow> [])
     (member_ids db table_id))"

section \<open>Creating and deleting tables\<close>

text \<open>\<open>value.strip().split()\<close>: the words between runs of blanks.\<close>

fun words_of :: "string \<Rightarrow> string \<Rightarrow> string list" where
  "words_of [] w = (if w = [] then [] else [w])"
| "words_of (c # s) w = (if is_space c then (if w = [] then words_of s [] else w # words_of s []) else words_of s (w @ [c]))"

definition normalize_name :: "string \<Rightarrow> string" where
  "normalize_name v = join_text '' '' (words_of (strip v) [])"

definition DEFAULT_WATCH_INDICATORS :: "string list" where
  "DEFAULT_WATCH_INDICATORS = [''MA'', ''RSI'', ''KDJ'', ''BOLL'', ''MACD'']"

definition dict_of :: "pyval \<Rightarrow> (pyval \<times> pyval) list" where
  "dict_of v = (case v of VDict d \<Rightarrow> d | _ \<Rightarrow> [])"

definition default_types :: "pyval \<Rightarrow> pyval list" where
  "default_types settings = (case get_none (dict_of (get_none (dict_of settings) ''indicator_settings'')) ''defaults'' of
      VList ts \<Rightarrow> ts | _ \<Rightarrow> map VStr DEFAULT_WATCH_INDICATORS)"

definition default_column_parameters :: "pyval \<Rightarrow> (pyval \<times> pyval) list" where
  "default_column_parameters settings = dict_of (get_none (dict_of (get_none (dict_of settings) ''indicator_settings'')) ''parameters'')"

definition default_column ::
  "(real \<Rightarrow> real) \<Rightarrow> (pyval \<Rightarrow> string) \<Rightarrow> pyval \<Rightarrow> int \<Rightarrow> int \<Rightarrow> nat \<times> pyval \<Rightarrow> table_column result"
where
  "default_column rnd py_str settings table_id first_id entry = (case entry of (position, raw) \<Rightarrow>
     ebind (normalize_indicator_type (case raw of VStr s \<Rightarrow> s | v \<Rightarrow> py_str v)) (\<lambda>t.
     emap (\<lambda>ps. \<lparr>tc_id = first_id + int position, tc_table_id = table_id, tc_column_type = ''INDICATOR'', tc_indicator_type = Some t,
         tc_state_code = None, tc_parameters = ps, tc_view_mode = ''COMPOSITE'', tc_position = int position, tc_visible = True,
         tc_width = None\<rparr>)
       (if t = ''DIVIDEND_YIELD'' then Ok []
        else canonicalize_parameters rnd t (get_none (default_column_parameters settings) t) True)))"

text \<open>
  The row is flushed before the columns are built, and the unique index on the user and the lower
  case name is checked there, outside the handler of the final commit.
\<close>

definition create_table ::
  "(real \<Rightarrow> real) \<Rightarrow> (pyval \<Rightarrow> string) \<Rightarrow> pyval \<Rightarrow> int \<Rightarrow> string \<Rightarrow> string option \<Rightarrow> watch_db \<Rightarrow> (watch_db \<times> watch_table) result"
where
  "create_table rnd py_str settings user_id name description db =
     (let t = \<lparr>wt_id = wd_next_table db, wt_user_id = user_id, wt_name = normalize_name name,
            wt_description = (case or_else description None of None \<Rightarrow> None | Some d \<Rightarrow> Some (strip d))\<rparr> in
      if wt_name t = [] then Raise (ApiError ''INVALID_REQUEST'' ''Watch table name is required.'' 400)
      else if \<exists>q \<in> set (wd_tables db). wt_user_id q = user_id \<and> lower (wt_name q) = lower (wt_name t)
      then Raise (IntegrityError ''uq_watch_tables_user_name_ci'')
      else emap (\<lambda>cs. (db\<lparr>wd_tables := wd_tables db @ [t], wd_next_table := wd_next_table db + 1,
             wd_columns := wd_columns db @ cs, wd_next_column := wd_next_column db + int (length cs)\<rparr>, t))
        (traverse (default_column rnd py_str settings (wt_id t) (wd_next_column db)) (enumerate 0 (default_types settings))))"

definition delete_table :: "int \<Rightarrow> int \<Rightarrow> watch_db \<Rightarrow> watch_db result" where
  "delete_table user_id table_id db = ebind (owned db table_id user_id) (\<lambda>t.
     Ok ((demand_changed (member_ids db table_id) db)\<lparr>
       wd_tables := filter (\<lambda>q. wt_id q \<noteq> table_id) (wd_tables db),
       wd_symbols := filter (\<lambda>s. ws_table_id s \<noteq> table_id) (wd_symbols db),
       wd_columns := filter (\<lambda>c. tc_table_id c \<noteq> table_id) (wd_columns db)\<rparr>))"

section \<open>Securities of a table\<close>

definition find_symbol :: "watch_db \<Rightarrow> int \<Rightarrow> int \<Rightarrow> watch_symbol option" where
  "find_symbol db table_id security_id = find (\<lambda>s. ws_table_id s = table_id \<and> ws_security_id s = security_id) (wd_symbols db)"

definition add_stock :: "int \<Rightarrow> int \<Rightarrow> int \<Rightarrow> int \<Rightarrow> watch_db \<Rightarrow> (watch_db \<times> watch_symbol) result" where
  "add_stock now user_id table_id security_id db =
     ebind (owned db table_id user_id) (\<lambda>t.
     ebind (active_security (wd_shared db) (Some security_id)) (\<lambda>sec.
     if find_symbol db table_id security_id \<noteq> None
     then Raise (ApiError ''WATCH_STOCK_EXISTS'' ''Security is already in this watch table.'' 409)
     else
       ebind (ensure_monitor_capacity (account db) user_id security_id None) (\<lambda>_.
         let s = \<lparr>ws_id = wd_next_symbol db, ws_table_id = table_id, ws_security_id = security_id,
               ws_position = next_position (map ws_position (list_symbols db table_id)), ws_created_at = now\<rparr>
         in Ok (enqueue_symbols [ac_symbol sec] ((demand_changed [security_id] db)\<lparr>wd_symbols := wd_symbols db @ [s],
              wd_next_symbol := wd_next_symbol db + 1\<rparr>), s))))"

definition remove_stock :: "int \<Rightarrow> int \<Rightarrow> int \<Rightarrow> watch_db \<Rightarrow> watch_db result" where
  "remove_stock user_id table_id security_id db =
     ebind (owned db table_id user_id) (\<lambda>t.
     if find_symbol db table_id security_id = None
     then Raise (ApiError ''WATCH_STOCK_NOT_FOUND'' ''Security is not in this watch table.'' 404)
     else Ok ((demand_changed [security_id] db)\<lparr>wd_symbols :=
       filter (\<lambda>s. \<not> (ws_table_id s = table_id \<and> ws_security_id s = security_id)) (wd_symbols db)\<rparr>))"

definition place_stock :: "int \<Rightarrow> int \<times> int \<Rightarrow> watch_symbol list \<Rightarrow> watch_symbol list" where
  "place_stock table_id item ss = map (\<lambda>s. if ws_table_id s = table_id \<and> ws_security_id s = fst item
     then s\<lparr>ws_position := snd item\<rparr> else s) ss"

definition reorder_stocks :: "int \<Rightarrow> int \<Rightarrow> (int \<times> int) list \<Rightarrow> watch_db \<Rightarrow> (watch_db \<times> watch_symbol list) result" where
  "reorder_stocks user_id table_id items db =
     ebind (owned db table_id user_id) (\<lambda>t.
     if \<not> distinct (map fst items) \<or> set (map fst items) \<noteq> set (member_ids db table_id) \<or> \<not> distinct (map snd items)
     then Raise (ApiError ''INVALID_STOCK_ORDER'' ''Stock order must contain every stock exactly once.'' 400)
     else
       let db' = db\<lparr>wd_symbols := fold (place_stock table_id) items (wd_symbols db)\<rparr>
       in Ok (db', list_symbols db' table_id))"

section \<open>Column requests\<close>

record column_request =
  cq_column_type :: string
  cq_indicator_type :: "string option"
  cq_state_code :: "string option"
  cq_parameters :: pyval
  cq_view_mode :: string
  cq_position :: "int option"
  cq_visible :: bool
  cq_width :: "int option"

text \<open>The validator of the schema: text is stripped and capitalized.\<close>

definition schema_text :: "string \<Rightarrow> string" where
  "schema_text s = upper (strip s)"

definition ColumnCreateRequest ::
  "string \<Rightarrow> string option \<Rightarrow> string option \<Rightarrow> pyval \<Rightarrow> string \<Rightarrow> int option \<Rightarrow> bool \<Rightarrow> int option \<Rightarrow> column_request"
where
  "ColumnCreateRequest column_type indicator_type state_code parameters view_mode position visible width =
     \<lparr>cq_column_type = schema_text column_type, cq_indicator_type = map_option schema_text indicator_type,
      cq_state_code = map_option schema_text state_code, cq_parameters = parameters, cq_view_mode = schema_text view_mode,
      cq_position = position, cq_visible = visible, cq_width = width\<rparr>"

definition is_field_key :: "pyval \<Rightarrow> bool" where
  "is_field_key k = (case k of VStr s \<Rightarrow> lower (strip s) = ''field'' | _ \<Rightarrow> False)"

definition normalize_field_selector :: "pyval \<Rightarrow> string result" where
  "normalize_field_selector v = (case v of
      VStr s \<Rightarrow> if strip s = [] then Raise (ApiError ''INVALID_INDICATOR_FIELD'' ''Indicator field must be a non-empty string.'' 400)
        else Ok (lower (strip s))
    | _ \<Rightarrow> Raise (ApiError ''INVALID_INDICATOR_FIELD'' ''Indicator field must be a non-empty string.'' 400))"

definition normalize_indicator_parameters ::
  "(real \<Rightarrow> real) \<Rightarrow> string \<Rightarrow> pyval \<Rightarrow> (string, pyval) dict result"
where
  "normalize_indicator_parameters rnd indicator_type parameters = (case parameters of
      VDict d \<Rightarrow>
        ebind (normalize_indicator_type indicator_type) (\<lambda>t.
        ebind (canonicalize_parameters rnd t (VDict (filter (\<lambda>(k, v). \<not> is_field_key k) d)) True) (\<lambda>normalized.
        case find (\<lambda>(k, v). is_field_key k) d of
          None \<Rightarrow> Ok normalized
        | Some (k, VNone) \<Rightarrow> Ok normalized
        | Some (k, v) \<Rightarrow> emap (\<lambda>f. dict_set ''field'' (VStr f) normalized) (normalize_field_selector v)))
    | _ \<Rightarrow> Raise (ApiError ''INVALID_INDICATOR_PARAMETERS'' ''Indicator parameters must be an object.'' 400))"

definition calculation_parameters :: "(string, pyval) dict \<Rightarrow> (string, pyval) dict" where
  "calculation_parameters ps = filter (\<lambda>(k, v). lower (strip k) \<noteq> ''field'') ps"

definition is_composite_parameters :: "string \<Rightarrow> (string, pyval) dict \<Rightarrow> bool" where
  "is_composite_parameters indicator_type ps \<longleftrightarrow> indicator_type \<in> {''BOLL'', ''KDJ'', ''MACD''} \<or>
     (indicator_type = ''MA'' \<and> dict_get ps ''period'' = None)"

text \<open>The fields of a composite indicator; a period is printed as its number.\<close>

definition period_field :: "pyval \<Rightarrow> string" where
  "period_field p = ''ma'' @ (case p of VInt n \<Rightarrow> int_str n | _ \<Rightarrow> [])"

definition allowed_fields :: "string \<Rightarrow> (string, pyval) dict \<Rightarrow> string list" where
  "allowed_fields indicator_type ps =
     (if indicator_type = ''MA'' then
        map period_field (case dict_get ps ''period'' of
            Some p \<Rightarrow> [p]
          | None \<Rightarrow> (case dict_get ps ''periods'' of Some (VList xs) \<Rightarrow> xs | _ \<Rightarrow> []))
      else if indicator_type = ''KDJ'' then [''rsv'', ''k'', ''d'', ''j'']
      else if indicator_type = ''BOLL'' then [''upper'', ''middle'', ''lower'', ''width'']
      else if indicator_type = ''MACD'' then [''diff'', ''dea'', ''histogram'']
      else [])"

definition validate_field_selector :: "string \<Rightarrow> (string, pyval) dict \<Rightarrow> string \<Rightarrow> unit result" where
  "validate_field_selector indicator_type ps view_mode =
     (if view_mode \<notin> {''NUMBER'', ''DELTA''} then Ok ()
      else if \<not> is_composite_parameters indicator_type (calculation_parameters ps) then Ok ()
      else case dict_get ps ''field'' of
          Some (VStr f) \<Rightarrow>
            if allowed_fields indicator_type ps \<noteq> [] \<and> lower f \<notin> set (allowed_fields indicator_type ps)
            then Raise (ApiError ''INVALID_INDICATOR_FIELD''
              (''Indicator field '' @ repr_text f @ '' is not available for '' @ indicator_type @ ''.'') 400)
            else Ok ()
        | _ \<Rightarrow> Raise (ApiError ''INDICATOR_FIELD_REQUIRED'' ''NUMBER and DELTA views for composite indicators require field.'' 400))"

definition validate_column_request ::
  "(real \<Rightarrow> real) \<Rightarrow> state_registry \<Rightarrow> column_request \<Rightarrow> (string \<times> string option \<times> (string, pyval) dict \<times> string) result"
where
  "validate_column_request rnd reg q =
     (let column_type = upper (cq_column_type q); mode = upper (cq_view_mode q);
          indicator = map_option upper (or_else (cq_indicator_type q) None) in
      if column_type \<notin> {''PRICE'', ''INDICATOR'', ''STATE''} then Raise (ApiError ''INVALID_COLUMN_TYPE'' ''Column type is invalid.'' 400)
      else if mode \<notin> {''NUMBER'', ''DELTA'', ''STATUS'', ''COMPOSITE''} then Raise (ApiError ''INVALID_VIEW_MODE'' ''View mode is invalid.'' 400)
      else if column_type = ''INDICATOR'' \<and> indicator = None \<and> mode \<noteq> ''STATUS''
      then Raise (ApiError ''INVALID_COLUMN'' ''Indicator columns require indicator_type.'' 400)
      else if mode = ''STATUS'' then
        (case or_else (cq_state_code q) None of
           None \<Rightarrow> Raise (ApiError ''STATE_TARGET_REQUIRED'' ''STATUS columns require state_code.'' 400)
         | Some code \<Rightarrow>
             (case state_get reg (upper (strip code)) of
                Inl _ \<Rightarrow> Raise (ApiError ''INVALID_STATE_CODE'' ''State code is invalid.'' 400)
              | Inr d \<Rightarrow> emap (\<lambda>ps. (column_type, Some (sd_indicator_type d), ps, mode))
                  (canonicalize_state_parameters rnd (sd_indicator_type d) (cq_parameters q))))
      else case (if column_type = ''PRICE'' then None else indicator) of
          None \<Rightarrow> Ok (column_type, None, [], mode)
        | Some i \<Rightarrow>
            ebind (normalize_indicator_type i) (\<lambda>t.
            ebind (normalize_indicator_parameters rnd t (cq_parameters q)) (\<lambda>ps.
            emap (\<lambda>_. (column_type, Some t, ps, mode)) (validate_field_selector t ps mode))))"

section \<open>Columns of a table\<close>

definition same_column :: "string \<Rightarrow> string option \<Rightarrow> string option \<Rightarrow> (string, pyval) dict \<Rightarrow> table_column \<Rightarrow> bool" where
  "same_column column_type indicator state_code ps c \<longleftrightarrow> tc_column_type c = column_type \<and> tc_indicator_type c = indicator \<and>
     tc_state_code c = state_code \<and> py_eq (as_object (tc_parameters c)) (as_object ps)"

definition find_duplicate_column ::
  "watch_db \<Rightarrow> int \<Rightarrow> string \<Rightarrow> string option \<Rightarrow> string option \<Rightarrow> (string, pyval) dict \<Rightarrow> int option \<Rightarrow> table_column option"
where
  "find_duplicate_column db table_id column_type indicator state_code ps exclude_id =
     find (\<lambda>c. tc_table_id c = table_id \<and> Some (tc_id c) \<noteq> exclude_id \<and> same_column column_type indicator state_code ps c) (wd_columns db)"

definition column_exists :: exn where
  "column_exists = ApiError ''WATCH_COLUMN_EXISTS'' ''This column already exists.'' 409"

definition add_column ::
  "(real \<Rightarrow> real) \<Rightarrow> state_registry \<Rightarrow> int \<Rightarrow> int \<Rightarrow> column_request \<Rightarrow> watch_db \<Rightarrow> (watch_db \<times> table_column) result"
where
  "add_column rnd reg user_id table_id q db =
     ebind (owned db table_id user_id) (\<lambda>t.
     ebind (validate_column_request rnd reg q) (\<lambda>(column_type, indicator, ps, mode).
     if find_duplicate_column db table_id column_type indicator (cq_state_code q) ps None \<noteq> None then Raise column_exists
     else
       let last = next_position (map tc_position (list_columns db table_id));
           position = (case cq_position q of None \<Rightarrow> last | Some p \<Rightarrow> min p last);
           columns = (if cq_position q = None then wd_columns db
             else map (\<lambda>c. if tc_table_id c = table_id \<and> position \<le> tc_position c then c\<lparr>tc_position := tc_position c + 1\<rparr> else c)
               (wd_columns db));
           c = \<lparr>tc_id = wd_next_column db, tc_table_id = table_id, tc_column_type = column_type, tc_indicator_type = indicator,
             tc_state_code = map_option (\<lambda>s. upper (strip s)) (or_else (cq_state_code q) None), tc_parameters = ps, tc_view_mode = mode,
             tc_position = position, tc_visible = cq_visible q, tc_width = cq_width q\<rparr>
       in Ok (enqueue_symbols (member_symbols db table_id) (demand_changed (member_ids db table_id)
            (db\<lparr>wd_columns := columns @ [c], wd_next_column := wd_next_column db + 1\<rparr>)), c)))"

text \<open>The fields an update sends; an outer \<open>None\<close> of the state code is a field that was not sent.\<close>

record column_update =
  cu_visible :: "bool option"
  cu_hidden :: "bool option"
  cu_position :: "int option"
  cu_order :: "int option"
  cu_width :: "int option"
  cu_view_mode :: "string option"
  cu_state_code :: "string option option"
  cu_parameters :: "pyval option"

definition column_not_found :: exn where
  "column_not_found = ApiError ''WATCH_COLUMN_NOT_FOUND'' ''Column was not found.'' 404"

definition get_column_owned :: "watch_db \<Rightarrow> int \<Rightarrow> int \<Rightarrow> table_column option" where
  "get_column_owned db column_id user_id = find (\<lambda>c. tc_id c = column_id \<and>
     (\<exists>t \<in> set (wd_tables db). wt_id t = tc_table_id c \<and> wt_user_id t = user_id)) (wd_columns db)"

definition store_column :: "table_column \<Rightarrow> table_column list \<Rightarrow> table_column list" where
  "store_column c cs = map (\<lambda>q. if tc_id q = tc_id c then c else q) cs"

text \<open>\<open>_move_column\<close>: the other columns close up and leave the place free.\<close>

definition place_columns :: "table_column list \<Rightarrow> int \<Rightarrow> table_column list \<Rightarrow> table_column list" where
  "place_columns rows position cs = fold (\<lambda>(index, row).
     store_column (row\<lparr>tc_position := (if int index < position then int index else int index + 1)\<rparr>)) (enumerate 0 rows) cs"

definition move_column :: "table_column \<Rightarrow> int \<Rightarrow> watch_db \<Rightarrow> watch_db" where
  "move_column c position db =
     (let rows = filter (\<lambda>r. tc_id r \<noteq> tc_id c) (list_columns db (tc_table_id c));
          p = min (max 0 position) (int (length rows))
      in db\<lparr>wd_columns := store_column (c\<lparr>tc_position := p\<rparr>) (place_columns rows p (wd_columns db))\<rparr>)"

definition column_candidate :: "column_update \<Rightarrow> table_column \<Rightarrow> column_request" where
  "column_candidate u c = ColumnCreateRequest (tc_column_type c) (tc_indicator_type c)
     (case cu_state_code u of
        Some s \<Rightarrow> s
      | None \<Rightarrow> (case or_else (cu_view_mode u) None of
          Some m \<Rightarrow> if m \<noteq> ''STATUS'' then None else tc_state_code c
        | None \<Rightarrow> tc_state_code c))
     (case cu_parameters u of Some ps \<Rightarrow> ps | None \<Rightarrow> as_object (tc_parameters c))
     (text_or (cu_view_mode u) (tc_view_mode c)) None True None"

definition changed_column :: "column_update \<Rightarrow> table_column \<Rightarrow> table_column" where
  "changed_column u c = c\<lparr>
     tc_visible := (case cu_hidden u of Some h \<Rightarrow> \<not> h | None \<Rightarrow> (case cu_visible u of Some v \<Rightarrow> v | None \<Rightarrow> tc_visible c)),
     tc_width := (case cu_width u of Some w \<Rightarrow> Some w | None \<Rightarrow> tc_width c)\<rparr>"

definition same_target :: "table_column \<Rightarrow> table_column \<Rightarrow> bool" where
  "same_target a b \<longleftrightarrow> tc_indicator_type a = tc_indicator_type b \<and> py_eq (as_object (tc_parameters a)) (as_object (tc_parameters b)) \<and>
     tc_state_code a = tc_state_code b \<and> tc_view_mode a = tc_view_mode b"

definition next_place :: "column_update \<Rightarrow> int option" where
  "next_place u = (case cu_position u of Some p \<Rightarrow> Some p | None \<Rightarrow> cu_order u)"

definition update_column ::
  "(real \<Rightarrow> real) \<Rightarrow> state_registry \<Rightarrow> int \<Rightarrow> int \<Rightarrow> column_update \<Rightarrow> watch_db \<Rightarrow> watch_db result"
where
  "update_column rnd reg user_id column_id u db = (case get_column_owned db column_id user_id of
      None \<Rightarrow> Raise column_not_found
    | Some c \<Rightarrow>
        let q = column_candidate u c in
        ebind (validate_column_request rnd reg q) (\<lambda>(column_type, indicator, ps, mode).
        let c' = changed_column u (c\<lparr>tc_column_type := column_type, tc_indicator_type := indicator, tc_parameters := ps,
              tc_view_mode := mode, tc_state_code := cq_state_code q\<rparr>);
            materialize = \<not> same_target c c';
            db1 = db\<lparr>wd_columns := store_column c' (wd_columns db)\<rparr>;
            db2 = (case next_place u of None \<Rightarrow> db1 | Some p \<Rightarrow> move_column c' p db1)
        in
        ebind (if indicator \<noteq> None \<and> the indicator \<noteq> []
               then ebind (normalize_indicator_type (the indicator)) (\<lambda>t. validate_field_selector t ps (upper mode)) else Ok ()) (\<lambda>_.
        if find_duplicate_column db2 (tc_table_id c) column_type indicator (cq_state_code q) ps (Some (tc_id c)) \<noteq> None
        then Raise column_exists
        else Ok (if materialize
             then enqueue_symbols (member_symbols db (tc_table_id c)) (demand_changed (member_ids db (tc_table_id c)) db2)
             else db2))))"

definition delete_column :: "int \<Rightarrow> int \<Rightarrow> watch_db \<Rightarrow> watch_db result" where
  "delete_column user_id column_id db = (case get_column_owned db column_id user_id of
      None \<Rightarrow> Raise column_not_found
    | Some c \<Rightarrow> Ok ((demand_changed (member_ids db (tc_table_id c)) db)\<lparr>wd_columns := filter (\<lambda>q. tc_id q \<noteq> column_id) (wd_columns db)\<rparr>))"

definition reorder_columns :: "int \<Rightarrow> int \<Rightarrow> int list \<Rightarrow> watch_db \<Rightarrow> (watch_db \<times> table_column list) result" where
  "reorder_columns user_id table_id ids db =
     ebind (owned db table_id user_id) (\<lambda>t.
     if \<not> distinct ids \<or> set ids \<noteq> set (map tc_id (list_columns db table_id))
     then Raise (ApiError ''INVALID_COLUMN_ORDER'' ''Column order must contain every column exactly once.'' 400)
     else
       let db' = db\<lparr>wd_columns := fold (\<lambda>(position, i) cs. map (\<lambda>c. if tc_id c = i then c\<lparr>tc_position := int position\<rparr> else c) cs)
             (enumerate 0 ids) (wd_columns db)\<rparr>
       in Ok (db', list_columns db' table_id))"

end
