(* ===== verification/Watch_Runs.thy ===== *)
theory Watch_Runs
  imports Watch_Tables Alert_Runs "HOL-Library.Multiset"
begin

text \<open>
  What the operations on watch tables keep: identities and display order, the monitor limit that
  watch tables and alert rules share, and the stability of stored columns.
\<close>

section \<open>Display order\<close>

lemma distinct_map_pair: "distinct (map f xs) \<Longrightarrow> distinct (map (\<lambda>x. (g x, f x)) xs)"
  by (induction xs) auto

lemma distinct_map_same: "distinct (map f xs) \<Longrightarrow> x \<in> set xs \<Longrightarrow> y \<in> set xs \<Longrightarrow> f x = f y \<Longrightarrow> x = y"
  by (auto simp: distinct_map dest: inj_onD)

lemma sort_key_unique:
  fixes k :: "'a \<Rightarrow> 'b :: linorder"
  assumes "sorted (map k ys)" "distinct (map k ys)" "distinct (map k xs)" "set xs = set ys"
  shows "sort_key k xs = ys"
proof -
  have "map k (sort_key k xs) = map k ys"
  proof (rule sorted_distinct_set_unique)
    show "distinct (map k (sort_key k xs))"
      using assms(3) by (metis distinct_map distinct_sort set_sort)
    show "set (map k (sort_key k xs)) = set (map k ys)" using assms(4) by simp
  qed (use assms in simp_all)
  moreover have "inj_on k (set (sort_key k xs) \<union> set ys)"
    using assms(2,4) by (simp add: distinct_map)
  ultimately show ?thesis by (simp add: inj_on_map_eq_map)
qed

text \<open>New positions for the columns with given identifiers.\<close>

definition reposition :: "(int \<times> int) list \<Rightarrow> table_column \<Rightarrow> table_column" where
  "reposition ps c = (case dict_get ps (tc_id c) of None \<Rightarrow> c | Some p \<Rightarrow> c\<lparr>tc_position := p\<rparr>)"

lemma reposition_simps [simp]: "tc_id (reposition ps c) = tc_id c" "tc_table_id (reposition ps c) = tc_table_id c"
  by (simp_all add: reposition_def split: option.splits)

definition set_positions :: "(int \<times> int) list \<Rightarrow> table_column list \<Rightarrow> table_column list" where
  "set_positions ps cs = map (reposition ps) cs"

lemma set_positions_Nil [simp]: "set_positions [] cs = cs"
  by (simp add: set_positions_def reposition_def map_idI)

lemma set_positions_Cons:
  assumes "i \<notin> set (dict_keys ps)"
  shows "set_positions ((i, p) # ps) cs = set_positions ps (map (\<lambda>c. if tc_id c = i then c\<lparr>tc_position := p\<rparr> else c) cs)"
proof -
  have "dict_get ps i = None" using assms by (simp add: map_of_eq_None_iff)
  then show ?thesis by (auto simp: set_positions_def reposition_def split: option.splits)
qed

lemma set_positions_keys [simp]:
  "map tc_id (set_positions ps cs) = map tc_id cs" "map tc_table_id (set_positions ps cs) = map tc_table_id cs"
  by (simp_all add: set_positions_def)

text \<open>The positions a numbering of identifiers gives.\<close>

definition numbering :: "(nat \<Rightarrow> int) \<Rightarrow> nat \<Rightarrow> int list \<Rightarrow> (int \<times> int) list" where
  "numbering g n ids = map (\<lambda>(index, i). (i, g index)) (enumerate n ids)"

lemma numbering_simps [simp]:
  "numbering g n [] = []" "numbering g n (i # ids) = (i, g n) # numbering g (Suc n) ids" "dict_keys (numbering g n ids) = ids"
  by (simp_all add: numbering_def case_prod_unfold comp_def)

lemma reorder_fold:
  "distinct ids \<Longrightarrow> fold (\<lambda>(position, i) cs. map (\<lambda>c. if tc_id c = i then c\<lparr>tc_position := int position\<rparr> else c) cs) (enumerate n ids) cs =
     set_positions (numbering int n ids) cs"
  by (induction ids arbitrary: n cs) (simp_all add: set_positions_Cons)

lemma place_fold:
  assumes "distinct (map tc_id cs)" "distinct (map tc_id rows)" "set rows \<subseteq> set cs"
  shows "fold (\<lambda>(index, row). store_column (row\<lparr>tc_position := g index\<rparr>)) (enumerate n rows) cs = set_positions (numbering g n (map tc_id rows)) cs"
  using assms
proof (induction rows arbitrary: n cs)
  case (Cons r rows)
  let ?f = "\<lambda>c. if tc_id c = tc_id r then c\<lparr>tc_position := g n\<rparr> else c"
  have same: "c = r" if "c \<in> set cs" "tc_id c = tc_id r" for c
    using Cons.prems(1,3) that by (auto simp: distinct_map dest: inj_onD)
  then have "store_column (r\<lparr>tc_position := g n\<rparr>) cs = map ?f cs" by (auto simp: store_column_def)
  moreover have "map tc_id (map ?f cs) = map tc_id cs" by (induction cs) auto
  moreover have "set rows \<subseteq> set (map ?f cs)" using Cons.prems(2,3) by (force simp: image_iff)
  ultimately show ?case using Cons.IH [of "map ?f cs" "Suc n"] Cons.prems by (simp add: set_positions_Cons del: map_map)
qed simp

lemma numbering_get: "distinct ids \<Longrightarrow> k < length ids \<Longrightarrow> dict_get (numbering g n ids) (ids ! k) = Some (g (n + k))"
proof (induction ids arbitrary: n k)
  case (Cons i ids)
  show ?case
  proof (cases k)
    case (Suc m)
    with Cons.prems have "ids ! m \<noteq> i" by auto
    with Suc Cons.IH [of m "Suc n"] Cons.prems show ?thesis by simp
  qed simp
qed simp

lemma numbering_keys [simp]: "fst ` set (numbering g n ids) = set ids"
  by (metis list.set_map numbering_simps(3))

lemma numbering_None: "i \<notin> set ids \<Longrightarrow> dict_get (numbering g n ids) i = None"
  by (simp add: map_of_eq_None_iff)

text \<open>Columns numbered in the order of a list of identifiers are displayed in that order.\<close>

lemma numbered_order:
  assumes "distinct (map tc_id cs)" "distinct ids" "set ids = set (map tc_id cs)" "strict_mono g"
  shows "map tc_id (sort_key (\<lambda>c. (tc_position c, tc_id c)) (set_positions (numbering g 0 ids) cs)) = ids"
proof -
  let ?cs = "set_positions (numbering g 0 ids) cs" and ?key = "\<lambda>c. (tc_position c, tc_id c)"
  define pick where "pick i = the (find (\<lambda>c. tc_id c = i) ?cs)" for i
  have pick: "pick i \<in> set ?cs \<and> tc_id (pick i) = i" if "i \<in> set ids" for i
  proof -
    have "i \<in> set (map tc_id ?cs)" using that assms(3) by simp
    then have "find (\<lambda>c. tc_id c = i) ?cs \<noteq> None" unfolding find_None_iff set_map by blast
    then obtain c where c: "find (\<lambda>c. tc_id c = i) ?cs = Some c" by blast
    then have "pick i = c" by (simp add: pick_def)
    with c show ?thesis by (auto simp: find_Some_iff)
  qed
  have position: "tc_position c = g k" if "c \<in> set ?cs" "tc_id c = ids ! k" "k < length ids" for c k
    using that numbering_get [OF assms(2) that(3), of g 0] by (auto simp: set_positions_def reposition_def split: option.splits)
  have ids: "distinct (map tc_id ?cs)" using assms(1) by simp
  have "sort_key ?key ?cs = map pick ids"
  proof (rule sort_key_unique)
    have key: "?key (pick (ids ! i)) = (g i, ids ! i)" if "i < length ids" for i
      using that pick [OF nth_mem [OF that]] position [of "pick (ids ! i)" i] by simp
    show "sorted (map ?key (map pick ids))"
      unfolding sorted_wrt_iff_nth_less length_map
    proof (intro allI impI)
      fix i j assume "i < j" "j < length ids"
      then have "g i < g j" using assms(4) by (simp add: strict_mono_less)
      with key [of i] key [of j] \<open>i < j\<close> \<open>j < length ids\<close>
      show "map ?key (map pick ids) ! i \<le> map ?key (map pick ids) ! j" by (simp add: less_eq_prod_def)
    qed
    have "distinct (map tc_id (map pick ids))" using pick assms(2) by (simp add: comp_def map_idI)
    then show "distinct (map ?key (map pick ids))" by (simp add: distinct_map inj_on_def)
    show "distinct (map ?key ?cs)" by (rule distinct_map_pair [OF ids])
    show "set ?cs = set (map pick ids)"
    proof (intro equalityI subsetI)
      fix c assume c: "c \<in> set ?cs"
      then have "tc_id c \<in> set ids" using assms(3) by (metis imageI list.set_map set_positions_keys(1))
      with pick [OF this] distinct_map_same [OF ids _ c, of "pick (tc_id c)"] show "c \<in> set (map pick ids)" by force
    qed (use pick in auto)
  qed
  then show ?thesis using pick by (simp add: comp_def map_idI)
qed

section \<open>The invariant of the tables\<close>

definition tables_ok :: "watch_table list \<Rightarrow> int \<Rightarrow> bool" where
  "tables_ok ts k \<longleftrightarrow> distinct (map wt_id ts) \<and> (\<forall>t \<in> set ts. wt_id t < k) \<and> distinct (map (\<lambda>t. (wt_user_id t, lower (wt_name t))) ts)"

definition symbols_ok :: "watch_table list \<Rightarrow> watch_symbol list \<Rightarrow> int \<Rightarrow> bool" where
  "symbols_ok ts ss k \<longleftrightarrow> distinct (map ws_id ss) \<and> (\<forall>s \<in> set ss. ws_id s < k \<and> ws_table_id s \<in> set (map wt_id ts)) \<and>
     distinct (map (\<lambda>s. (ws_table_id s, ws_security_id s)) ss) \<and> distinct (map (\<lambda>s. (ws_table_id s, ws_position s)) ss)"

definition columns_ok :: "watch_table list \<Rightarrow> table_column list \<Rightarrow> int \<Rightarrow> bool" where
  "columns_ok ts cs k \<longleftrightarrow> distinct (map tc_id cs) \<and> (\<forall>c \<in> set cs. tc_id c < k \<and> tc_table_id c \<in> set (map wt_id ts)) \<and>
     distinct (map (\<lambda>c. (tc_table_id c, tc_position c)) cs)"

definition watch_ok :: "watch_db \<Rightarrow> bool" where
  "watch_ok db \<longleftrightarrow> tables_ok (wd_tables db) (wd_next_table db) \<and> symbols_ok (wd_tables db) (wd_symbols db) (wd_next_symbol db) \<and>
     columns_ok (wd_tables db) (wd_columns db) (wd_next_column db)"

lemma shared_tables [simp]:
  "wd_tables (demand_changed ids db) = wd_tables db" "wd_symbols (demand_changed ids db) = wd_symbols db"
  "wd_columns (demand_changed ids db) = wd_columns db" "wd_next_table (demand_changed ids db) = wd_next_table db"
  "wd_next_symbol (demand_changed ids db) = wd_next_symbol db" "wd_next_column (demand_changed ids db) = wd_next_column db"
  "wd_tables (enqueue_symbols ss db) = wd_tables db" "wd_symbols (enqueue_symbols ss db) = wd_symbols db"
  "wd_columns (enqueue_symbols ss db) = wd_columns db" "wd_next_table (enqueue_symbols ss db) = wd_next_table db"
  "wd_next_symbol (enqueue_symbols ss db) = wd_next_symbol db" "wd_next_column (enqueue_symbols ss db) = wd_next_column db"
  by (simp_all add: demand_changed_def enqueue_symbols_def)

lemma owned_OkD: "owned db k u = Ok t \<Longrightarrow> t \<in> set (wd_tables db) \<and> wt_id t = k \<and> wt_user_id t = u"
  by (auto simp: owned_def find_Some_iff split: option.splits)

lemma next_position_fresh:
  assumes "p \<in> set ps"
  shows "p < next_position ps"
proof -
  have "p \<le> Max (set ps)" using assms by simp
  with assms show ?thesis by (auto simp: next_position_def)
qed

lemma columns_ok_list:
  assumes "columns_ok ts cs k"
  shows "distinct (map tc_id (filter P cs))"
  using assms by (simp add: columns_ok_def distinct_map_filter)

lemma list_columns_set [simp]: "set (list_columns db k) = {c \<in> set (wd_columns db). tc_table_id c = k}"
  by (auto simp: list_columns_def)

lemma list_symbols_set [simp]: "set (list_symbols db k) = {s \<in> set (wd_symbols db). ws_table_id s = k}"
  by (auto simp: list_symbols_def)

text \<open>Renumbering all the columns of a table keeps its positions distinct.\<close>

lemma set_positions_filter: "filter (\<lambda>c. tc_table_id c = k) (set_positions ps cs) = set_positions ps (filter (\<lambda>c. tc_table_id c = k) cs)"
  by (induction cs) (simp_all add: set_positions_def)

lemma numbered_columns_ok:
  assumes "columns_ok ts cs k" "distinct ids" "set ids = {tc_id c |c. c \<in> set cs \<and> tc_table_id c = table_id}" "strict_mono g"
  shows "columns_ok ts (set_positions (numbering g 0 ids) cs) k"
proof -
  let ?ps = "numbering g 0 ids"
  have ids: "distinct (map tc_id cs)" "distinct (map (\<lambda>c. (tc_table_id c, tc_position c)) cs)" using assms(1) by (simp_all add: columns_ok_def)
  have own: "tc_id c \<in> set ids \<longleftrightarrow> tc_table_id c = table_id" if "c \<in> set cs" for c
    using that assms(3) ids(1) by (auto simp: distinct_map dest: inj_onD)
  let ?f = "reposition ?ps"
  have other: "?f c = c" if "c \<in> set cs" "tc_table_id c \<noteq> table_id" for c
    using own [OF that(1)] that(2) by (simp add: reposition_def numbering_None)
  have pos: "\<exists>j < length ids. ids ! j = tc_id c \<and> tc_position (?f c) = g j" if "c \<in> set cs" "tc_table_id c = table_id" for c
  proof -
    from own [OF that(1)] that(2) obtain j where "j < length ids" "ids ! j = tc_id c" by (auto simp: in_set_conv_nth)
    with numbering_get [OF assms(2), of j g 0] show ?thesis by (auto simp: reposition_def)
  qed
  have "inj_on (\<lambda>c. (tc_table_id (?f c), tc_position (?f c))) (set cs)"
  proof (rule inj_onI)
    fix a b assume ab: "a \<in> set cs" "b \<in> set cs" and eq: "(tc_table_id (?f a), tc_position (?f a)) = (tc_table_id (?f b), tc_position (?f b))"
    then have t: "tc_table_id a = tc_table_id b" "tc_position (?f a) = tc_position (?f b)" by simp_all
    show "a = b"
    proof (cases "tc_table_id a = table_id")
      case True
      from pos [OF ab(1) True] obtain i where i: "ids ! i = tc_id a" "tc_position (?f a) = g i" by blast
      from pos [OF ab(2)] t(1) True obtain j where j: "ids ! j = tc_id b" "tc_position (?f b) = g j" by metis
      from i j t(2) have "g i = g j" by simp
      then have "i = j" by (rule strict_mono_eq [OF assms(4), THEN iffD1])
      with i j distinct_map_same [OF ids(1) ab] show ?thesis by simp
    next
      case False
      with other [OF ab(1)] other [OF ab(2)] t distinct_map_same [OF ids(2) ab] show ?thesis by simp
    qed
  qed
  moreover have "distinct cs" using ids(1) by (simp add: distinct_map)
  ultimately have "distinct (map (\<lambda>c. (tc_table_id c, tc_position c)) (set_positions ?ps cs))"
    unfolding set_positions_def map_map comp_def distinct_map by simp
  moreover have "\<forall>c \<in> set (set_positions ?ps cs). tc_id c < k \<and> tc_table_id c \<in> set (map wt_id ts)"
    using assms(1) by (auto simp: columns_ok_def set_positions_def)
  ultimately show ?thesis using ids(1) by (simp add: columns_ok_def)
qed

text \<open>Creating and deleting tables.\<close>

lemma default_column_OkD:
  "default_column rnd py_str settings k first (i, raw) = Ok c \<Longrightarrow> tc_id c = first + int i \<and> tc_table_id c = k \<and> tc_position c = int i"
  by (auto simp: default_column_def)

lemma default_columns:
  "traverse (default_column rnd py_str settings k first) (enumerate n ts) = Ok cs \<Longrightarrow>
     map tc_id cs = map (\<lambda>i. first + int i) [n..<n + length ts] \<and> map tc_position cs = map int [n..<n + length ts] \<and>
     (\<forall>c \<in> set cs. tc_table_id c = k)"
proof (induction ts arbitrary: n cs)
  case (Cons t ts)
  then obtain d ds where d: "default_column rnd py_str settings k first (n, t) = Ok d"
      "traverse (default_column rnd py_str settings k first) (enumerate (Suc n) ts) = Ok ds" "cs = d # ds" by auto
  from Cons.IH [OF d(2)] default_column_OkD [OF d(1)] d(3) show ?case by (simp add: upt_conv_Cons del: upt_Suc)
qed simp

lemma create_table_ok:
  assumes "watch_ok db" "create_table rnd py_str settings u name descr db = Ok (db', t)"
  shows "watch_ok db'"
proof -
  let ?t = "\<lparr>wt_id = wd_next_table db, wt_user_id = u, wt_name = normalize_name name,
      wt_description = (case or_else descr None of None \<Rightarrow> None | Some d \<Rightarrow> Some (strip d))\<rparr>"
  from assms(2) obtain cs where fresh: "\<forall>q \<in> set (wd_tables db). wt_user_id q = u \<longrightarrow> lower (wt_name q) \<noteq> lower (normalize_name name)"
      and cs: "traverse (default_column rnd py_str settings (wd_next_table db) (wd_next_column db)) (enumerate 0 (default_types settings)) = Ok cs"
      and db': "db' = db\<lparr>wd_tables := wd_tables db @ [?t], wd_next_table := wd_next_table db + 1,
             wd_columns := wd_columns db @ cs, wd_next_column := wd_next_column db + int (length cs)\<rparr>"
    by (auto simp: create_table_def Let_def split: if_splits)
  note ok = assms(1) [unfolded watch_ok_def tables_ok_def symbols_ok_def columns_ok_def]
  note d = default_columns [OF cs]
  have new: "wd_next_table db \<notin> set (map wt_id (wd_tables db))" using ok by fastforce
  have len: "length cs = length (default_types settings)" using d by (metis length_map length_upt add_0 diff_zero)
  have ids: "wd_next_column db \<le> tc_id c \<and> tc_id c < wd_next_column db + int (length cs)" if "c \<in> set cs" for c
  proof -
    from that have "tc_id c \<in> set (map tc_id cs)" by simp
    then show ?thesis using d len by auto
  qed
  have "distinct (map tc_id cs)" "distinct (map tc_position cs)" using d by (simp_all add: distinct_map inj_on_def)
  then have cols: "distinct (map tc_id (wd_columns db @ cs))"
      "distinct (map (\<lambda>c. (tc_table_id c, tc_position c)) (wd_columns db @ cs))"
    using ok ids new d distinct_map_pair [of tc_position cs tc_table_id] by (fastforce simp: image_iff)+
  have "tables_ok (wd_tables db') (wd_next_table db')" using ok fresh new by (fastforce simp: tables_ok_def db')
  moreover have "symbols_ok (wd_tables db') (wd_symbols db') (wd_next_symbol db')" using ok by (auto simp: symbols_ok_def db')
  moreover have "columns_ok (wd_tables db') (wd_columns db') (wd_next_column db')"
    using ok cols ids d by (fastforce simp: columns_ok_def db')
  ultimately show ?thesis by (simp add: watch_ok_def)
qed

lemma delete_table_ok:
  assumes "watch_ok db" "delete_table u k db = Ok db'"
  shows "watch_ok db'"
proof -
  from assms(2) have db': "wd_tables db' = filter (\<lambda>q. wt_id q \<noteq> k) (wd_tables db)" "wd_symbols db' = filter (\<lambda>s. ws_table_id s \<noteq> k) (wd_symbols db)"
      "wd_columns db' = filter (\<lambda>c. tc_table_id c \<noteq> k) (wd_columns db)" "wd_next_table db' = wd_next_table db"
      "wd_next_symbol db' = wd_next_symbol db" "wd_next_column db' = wd_next_column db"
    by (auto simp: delete_table_def)
  with assms(1) show ?thesis
    by (fastforce simp: watch_ok_def tables_ok_def symbols_ok_def columns_ok_def distinct_map_filter)
qed

text \<open>Securities.\<close>

lemma add_stock_result:
  assumes "add_stock now u k sid db = Ok (db', s)"
  shows "s = \<lparr>ws_id = wd_next_symbol db, ws_table_id = k, ws_security_id = sid,
      ws_position = next_position (map ws_position (list_symbols db k)), ws_created_at = now\<rparr>"
    "wd_symbols db' = wd_symbols db @ [s]" "wd_next_symbol db' = wd_next_symbol db + 1" "wd_tables db' = wd_tables db"
    "wd_columns db' = wd_columns db" "wd_next_table db' = wd_next_table db" "wd_next_column db' = wd_next_column db"
    "find_symbol db k sid = None" "ensure_monitor_capacity (account db) u sid None = Ok ()" "\<exists>t. owned db k u = Ok t"
  using assms by (auto simp: add_stock_def Let_def split: if_splits)

lemma add_stock_ok:
  assumes "watch_ok db" "add_stock now u k sid db = Ok (db', s)"
  shows "watch_ok db'"
proof -
  note r = add_stock_result [OF assms(2)]
  note ok = assms(1) [unfolded watch_ok_def symbols_ok_def]
  from r(10) have table: "k \<in> set (map wt_id (wd_tables db))" by (auto dest!: owned_OkD)
  have "(k, sid) \<notin> set (map (\<lambda>s. (ws_table_id s, ws_security_id s)) (wd_symbols db))"
    using r(8) by (auto simp: find_symbol_def find_None_iff)
  moreover have "(k, ws_position s) \<notin> set (map (\<lambda>s. (ws_table_id s, ws_position s)) (wd_symbols db))"
    using next_position_fresh [of _ "map ws_position (list_symbols db k)"] by (fastforce simp: r(1))
  moreover have "ws_id s \<notin> set (map ws_id (wd_symbols db))" using ok by (fastforce simp: r(1))
  moreover have "ws_table_id s = k" "ws_security_id s = sid" "ws_id s = wd_next_symbol db" by (simp_all add: r(1))
  ultimately have "symbols_ok (wd_tables db') (wd_symbols db') (wd_next_symbol db')"
    using ok table by (fastforce simp: symbols_ok_def r(2-4))
  with ok show ?thesis by (simp add: watch_ok_def r(4-7))
qed

lemma remove_stock_ok:
  assumes "watch_ok db" "remove_stock u k sid db = Ok db'"
  shows "watch_ok db'"
proof -
  from assms(2) have "wd_tables db' = wd_tables db" "wd_columns db' = wd_columns db" "wd_next_table db' = wd_next_table db"
      "wd_next_symbol db' = wd_next_symbol db" "wd_next_column db' = wd_next_column db"
      "wd_symbols db' = filter (\<lambda>s. \<not> (ws_table_id s = k \<and> ws_security_id s = sid)) (wd_symbols db)"
    by (auto simp: remove_stock_def split: if_splits)
  with assms(1) show ?thesis by (simp add: watch_ok_def symbols_ok_def distinct_map_filter)
qed

text \<open>The positions of a reordering, as one function on the rows.\<close>

definition place :: "int \<Rightarrow> (int \<times> int) list \<Rightarrow> watch_symbol \<Rightarrow> watch_symbol" where
  "place k items s = (if ws_table_id s = k then (case dict_get items (ws_security_id s) of None \<Rightarrow> s | Some p \<Rightarrow> s\<lparr>ws_position := p\<rparr>) else s)"

lemma place_simps [simp]:
  "ws_id (place k items s) = ws_id s" "ws_table_id (place k items s) = ws_table_id s" "ws_security_id (place k items s) = ws_security_id s"
  by (simp_all add: place_def split: option.splits)

lemma place_fold_stocks: "distinct (map fst items) \<Longrightarrow> fold (place_stock k) items ss = map (place k items) ss"
proof (induction items arbitrary: ss)
  case Nil
  then show ?case by (simp add: place_def map_idI)
next
  case (Cons x items)
  then have "dict_get items (fst x) = None" by (simp add: map_of_eq_None_iff)
  then have "map (place k items) (place_stock k x ss) = map (place k (x # items)) ss"
    by (cases x) (auto simp: place_stock_def place_def split: option.splits)
  with Cons show ?case by simp
qed

lemma reorder_stocks_result:
  assumes "reorder_stocks u k items db = Ok (db', ss)"
  shows "db' = db\<lparr>wd_symbols := map (place k items) (wd_symbols db)\<rparr>" "ss = list_symbols db' k" "distinct (map fst items)"
    "distinct (map snd items)" "set (map fst items) = set (member_ids db k)"
  using assms by (auto simp: reorder_stocks_def Let_def place_fold_stocks split: if_splits)

lemma placed_position:
  assumes "s \<in> set (wd_symbols db)" "ws_table_id s = k" "set (map fst items) = set (member_ids db k)"
  shows "(ws_security_id s, ws_position (place k items s)) \<in> set items"
proof -
  have "ws_security_id s \<in> set (map fst items)" using assms by (auto simp: member_ids_def)
  then obtain p where "dict_get items (ws_security_id s) = Some p" by (cases "dict_get items (ws_security_id s)") (auto simp: map_of_eq_None_iff)
  with assms(2) show ?thesis by (auto simp: place_def dest: map_of_SomeD)
qed

lemma reorder_stocks_ok:
  assumes "watch_ok db" "reorder_stocks u k items db = Ok (db', ss)"
  shows "watch_ok db'"
proof -
  note r = reorder_stocks_result [OF assms(2)]
  note ok = assms(1) [unfolded watch_ok_def symbols_ok_def]
  have pos: "distinct (map (\<lambda>s. (ws_table_id s, ws_position s)) (wd_symbols db))"
      "distinct (map (\<lambda>s. (ws_table_id s, ws_security_id s)) (wd_symbols db))" using ok by simp_all
  have "inj_on (\<lambda>s. (ws_table_id s, ws_position (place k items s))) (set (wd_symbols db))"
  proof (rule inj_onI)
    fix a b assume ab: "a \<in> set (wd_symbols db)" "b \<in> set (wd_symbols db)"
      and eq: "(ws_table_id a, ws_position (place k items a)) = (ws_table_id b, ws_position (place k items b))"
    show "a = b"
    proof (cases "ws_table_id a = k")
      case True
      with eq have "ws_security_id a = ws_security_id b"
        using placed_position [OF ab(1) True r(5)] placed_position [OF ab(2) _ r(5)] distinct_map_same [OF r(4)] by fastforce
      with eq distinct_map_same [OF pos(2) ab] show ?thesis by simp
    next
      case False
      with eq distinct_map_same [OF pos(1) ab] show ?thesis by (simp add: place_def)
    qed
  qed
  moreover have "distinct (wd_symbols db)" using ok by (simp add: distinct_map)
  ultimately have "distinct (map (\<lambda>s. (ws_table_id s, ws_position s)) (map (place k items) (wd_symbols db)))"
    by (simp add: distinct_map comp_def)
  with ok show ?thesis by (simp add: watch_ok_def symbols_ok_def r(1) comp_def)
qed

text \<open>Columns: moving one is renumbering all in the new order.\<close>

definition insert_at :: "nat \<Rightarrow> 'a \<Rightarrow> 'a list \<Rightarrow> 'a list" where
  "insert_at p x xs = take p xs @ x # drop p xs"

lemma insert_at_simps [simp]:
  "set (insert_at p x xs) = insert x (set xs)" "length (insert_at p x xs) = Suc (length xs)"
proof -
  have "set (take p xs @ drop p xs) = set xs" by simp
  then show "set (insert_at p x xs) = insert x (set xs)" unfolding set_append insert_at_def by auto
qed (simp add: insert_at_def)

lemma insert_at_distinct: "distinct xs \<Longrightarrow> x \<notin> set xs \<Longrightarrow> distinct (insert_at p x xs)"
  unfolding insert_at_def using set_take_disj_set_drop_if_distinct [of xs p p] by (auto dest: in_set_takeD in_set_dropD)

lemma insert_at_nth:
  assumes "p \<le> length xs"
  shows "insert_at p x xs ! p = x" "k < length xs \<Longrightarrow> insert_at p x xs ! (if k < p then k else Suc k) = xs ! k"
  using assms by (auto simp: insert_at_def nth_append min_def Suc_diff_le)

lemma move_positions:
  assumes "distinct (map tc_id cs)" "c \<in> set cs" "distinct xs" "tc_id c \<notin> set xs" "p \<le> length xs"
  shows "store_column (c\<lparr>tc_position := int p\<rparr>) (set_positions (numbering (\<lambda>i. if int i < int p then int i else int i + 1) 0 xs) cs) =
     set_positions (numbering int 0 (insert_at p (tc_id c) xs)) cs" (is "store_column ?c (set_positions ?ps cs) = set_positions ?qs cs")
proof -
  have ids: "distinct (insert_at p (tc_id c) xs)" by (rule insert_at_distinct [OF assms(3,4)])
  have "(if tc_id q = tc_id c then ?c else reposition ?ps q) = reposition ?qs q" if q: "q \<in> set cs" for q
  proof -
    consider (self) "tc_id q = tc_id c" | (listed) j where "j < length xs" "xs ! j = tc_id q" | (other) "tc_id q \<notin> insert (tc_id c) (set xs)"
      by (auto simp: in_set_conv_nth)
    then show ?thesis
    proof cases
      case self
      with distinct_map_same [OF assms(1) q assms(2)] have "q = c" by simp
      moreover have "dict_get ?qs (tc_id c) = Some (int p)"
        using numbering_get [OF ids, of p int 0] insert_at_nth(1) [OF assms(5)] assms(5) by simp
      ultimately show ?thesis using \<open>q = c\<close> by (simp add: reposition_def)
    next
      case listed
      let ?k = "if j < p then j else Suc j"
      have "insert_at p (tc_id c) xs ! ?k = tc_id q" using insert_at_nth(2) [OF assms(5) listed(1)] listed(2) by simp
      moreover have "?k < length (insert_at p (tc_id c) xs)" using listed(1) by simp
      ultimately have "dict_get ?qs (tc_id q) = Some (int ?k)" using numbering_get [OF ids, of ?k int 0] by simp
      moreover have "dict_get ?ps (tc_id q) = Some (int ?k)"
        using numbering_get [OF assms(3) listed(1), of "\<lambda>i. if int i < int p then int i else int i + 1" 0] listed(2) by auto
      moreover have "tc_id q \<noteq> tc_id c" using listed assms(4) nth_mem by fastforce
      ultimately show ?thesis by (simp add: reposition_def)
    next
      case other
      then show ?thesis by (simp add: reposition_def numbering_None)
    qed
  qed
  then show ?thesis by (simp add: store_column_def set_positions_def del: of_nat_less_iff)
qed

lemma columns_ok_cong:
  assumes "map (\<lambda>c. (tc_id c, tc_table_id c, tc_position c)) cs' = map (\<lambda>c. (tc_id c, tc_table_id c, tc_position c)) cs"
  shows "columns_ok ts cs' k = columns_ok ts cs k"
proof -
  let ?key = "\<lambda>c. (tc_id c, tc_table_id c, tc_position c)"
  have ids: "map tc_id cs' = map tc_id cs" using arg_cong [OF assms, of "map fst"] by (simp add: comp_def)
  have places: "map (\<lambda>c. (tc_table_id c, tc_position c)) cs' = map (\<lambda>c. (tc_table_id c, tc_position c)) cs"
    using arg_cong [OF assms, of "map snd"] by (simp add: comp_def)
  have keys: "(\<forall>c \<in> set xs. tc_id c < k \<and> tc_table_id c \<in> S) \<longleftrightarrow> (\<forall>x \<in> set (map ?key xs). fst x < k \<and> fst (snd x) \<in> S)" for xs S
    by simp
  show ?thesis unfolding columns_ok_def keys ids places assms ..
qed

lemma store_column_keys:
  assumes "distinct (map tc_id cs)" "c \<in> set cs" "tc_id c' = tc_id c" "tc_table_id c' = tc_table_id c" "tc_position c' = tc_position c"
  shows "map (\<lambda>c. (tc_id c, tc_table_id c, tc_position c)) (store_column c' cs) = map (\<lambda>c. (tc_id c, tc_table_id c, tc_position c)) cs"
    "c' \<in> set (store_column c' cs)" "map tc_id (store_column c' cs) = map tc_id cs"
proof -
  have same: "q = c" if "q \<in> set cs" "tc_id q = tc_id c" for q using distinct_map_same [OF assms(1) that(1) assms(2) that(2)] .
  show "map (\<lambda>c. (tc_id c, tc_table_id c, tc_position c)) (store_column c' cs) = map (\<lambda>c. (tc_id c, tc_table_id c, tc_position c)) cs"
    unfolding store_column_def map_map by (rule map_cong [OF refl]) (use same assms(3-5) in force)
  show "c' \<in> set (store_column c' cs)" using assms(2,3) by (force simp: store_column_def)
  show "map tc_id (store_column c' cs) = map tc_id cs" using assms(3) by (simp add: store_column_def)
qed

lemma list_columns_ids: "distinct (map tc_id (wd_columns db)) \<Longrightarrow> distinct (map tc_id (list_columns db k))"
  by (simp add: list_columns_def distinct_map inj_on_def)

text \<open>Where a moved column ends up: before the other columns of its table from the requested place on.\<close>

definition others :: "table_column \<Rightarrow> watch_db \<Rightarrow> int list" where
  "others c db = map tc_id (filter (\<lambda>r. tc_id r \<noteq> tc_id c) (list_columns db (tc_table_id c)))"

definition moved_order :: "table_column \<Rightarrow> int \<Rightarrow> watch_db \<Rightarrow> int list" where
  "moved_order c p db = insert_at (nat (min (max 0 p) (int (length (others c db))))) (tc_id c) (others c db)"

lemma moved_order_set:
  assumes "distinct (map tc_id (wd_columns db))" "c \<in> set (wd_columns db)"
  shows "distinct (moved_order c p db)" "set (moved_order c p db) = set (map tc_id (list_columns db (tc_table_id c)))"
proof -
  have "distinct (others c db)" unfolding others_def by (rule distinct_map_filter [OF list_columns_ids [OF assms(1)]])
  moreover have "tc_id c \<notin> set (others c db)" by (auto simp: others_def)
  ultimately show "distinct (moved_order c p db)" unfolding moved_order_def by (rule insert_at_distinct)
  show "set (moved_order c p db) = set (map tc_id (list_columns db (tc_table_id c)))"
    using assms(2) by (auto simp: moved_order_def others_def)
qed

lemma move_column_result:
  assumes "distinct (map tc_id (wd_columns db))" "c \<in> set (wd_columns db)"
  shows "move_column c p db = db\<lparr>wd_columns := set_positions (numbering int 0 (moved_order c p db)) (wd_columns db)\<rparr>"
proof -
  let ?rows = "filter (\<lambda>r. tc_id r \<noteq> tc_id c) (list_columns db (tc_table_id c))"
  define n where "n = nat (min (max 0 p) (int (length ?rows)))"
  have n: "min (max 0 p) (int (length ?rows)) = int n" "n \<le> length (map tc_id ?rows)" by (simp_all add: n_def)
  have rows: "distinct (map tc_id ?rows)" "set ?rows \<subseteq> set (wd_columns db)" "tc_id c \<notin> set (map tc_id ?rows)"
    using distinct_map_filter [OF list_columns_ids [OF assms(1)]] by auto
  have "place_columns ?rows (int n) (wd_columns db) =
      set_positions (numbering (\<lambda>i. if int i < int n then int i else int i + 1) 0 (map tc_id ?rows)) (wd_columns db)"
    unfolding place_columns_def by (rule place_fold [OF assms(1) rows(1,2)])
  moreover have "moved_order c p db = insert_at n (tc_id c) (map tc_id ?rows)"
    by (simp add: moved_order_def others_def n_def)
  ultimately show ?thesis
    using move_positions [OF assms rows(1,3) n(2)] unfolding move_column_def Let_def n(1) by (simp only:)
qed

lemma move_column_columns_ok:
  assumes "columns_ok ts (wd_columns db) k" "c \<in> set (wd_columns db)"
  shows "columns_ok ts (wd_columns (move_column c p db)) k"
proof -
  have ids: "distinct (map tc_id (wd_columns db))" using assms(1) by (simp add: columns_ok_def)
  have "set (moved_order c p db) = {tc_id q |q. q \<in> set (wd_columns db) \<and> tc_table_id q = tc_table_id c}"
    unfolding moved_order_set(2) [OF ids assms(2)] by auto
  then have "columns_ok ts (set_positions (numbering int 0 (moved_order c p db)) (wd_columns db)) k"
    by (intro numbered_columns_ok [OF assms(1) moved_order_set(1) [OF ids assms(2)]]) (simp_all add: strict_mono_def)
  then show ?thesis by (simp add: move_column_result [OF ids assms(2)])
qed

text \<open>Adding a column at a place shifts the columns from there on.\<close>

definition shift_columns :: "int \<Rightarrow> int \<Rightarrow> table_column list \<Rightarrow> table_column list" where
  "shift_columns k p cs = map (\<lambda>c. if tc_table_id c = k \<and> p \<le> tc_position c then c\<lparr>tc_position := tc_position c + 1\<rparr> else c) cs"

lemma shift_columns_places:
  assumes "distinct (map (\<lambda>c. (tc_table_id c, tc_position c)) cs)"
  shows "distinct (map (\<lambda>c. (tc_table_id c, tc_position c)) (shift_columns k p cs))"
    "(k, p) \<notin> set (map (\<lambda>c. (tc_table_id c, tc_position c)) (shift_columns k p cs))"
proof -
  let ?key = "\<lambda>c. (tc_table_id c, tc_position c)"
  define h where "h x = (if fst x = k \<and> p \<le> snd x then (fst x, snd x + 1) else x)" for x :: "int \<times> int"
  have key: "map ?key (shift_columns k p cs) = map h (map ?key cs)" by (simp add: shift_columns_def h_def)
  have "inj h" by (rule injI) (auto simp: h_def split: if_splits prod.splits)
  then show "distinct (map ?key (shift_columns k p cs))" unfolding key distinct_map [of h] using assms inj_on_subset by blast
  show "(k, p) \<notin> set (map ?key (shift_columns k p cs))" unfolding key by (auto simp: h_def split: if_splits)
qed

lemma shift_columns_keys [simp]:
  "map tc_id (shift_columns k p cs) = map tc_id cs" "map tc_table_id (shift_columns k p cs) = map tc_table_id cs"
  by (simp_all add: shift_columns_def)

lemma add_column_result:
  assumes "add_column rnd reg u k q db = Ok (db', c)"
  shows "\<exists>cs. wd_columns db' = cs @ [c] \<and> (cs = wd_columns db \<and> tc_position c = next_position (map tc_position (list_columns db k)) \<or>
      cs = shift_columns k (tc_position c) (wd_columns db))"
    "tc_id c = wd_next_column db" "tc_table_id c = k" "wd_next_column db' = wd_next_column db + 1" "wd_tables db' = wd_tables db"
    "wd_symbols db' = wd_symbols db" "wd_next_table db' = wd_next_table db" "wd_next_symbol db' = wd_next_symbol db" "\<exists>t. owned db k u = Ok t"
    "validate_column_request rnd reg q = Ok (tc_column_type c, tc_indicator_type c, tc_parameters c, tc_view_mode c)"
  using assms by (auto simp: add_column_def Let_def shift_columns_def split: if_splits option.splits)

lemma add_column_ok:
  assumes "watch_ok db" "add_column rnd reg u k q db = Ok (db', c)"
  shows "watch_ok db'"
proof -
  note r = add_column_result [OF assms(2)]
  note ok = assms(1) [unfolded watch_ok_def]
  let ?key = "\<lambda>c. (tc_table_id c, tc_position c)"
  from r(9) have table: "k \<in> set (map wt_id (wd_tables db))" by (auto dest!: owned_OkD)
  have cols: "distinct (map tc_id (wd_columns db))" "distinct (map ?key (wd_columns db))"
    "\<forall>c \<in> set (wd_columns db). tc_id c < wd_next_column db \<and> tc_table_id c \<in> set (map wt_id (wd_tables db))"
    using ok by (simp_all add: columns_ok_def)
  from r(1) obtain cs where cs: "wd_columns db' = cs @ [c]" and how: "cs = wd_columns db \<and> tc_position c = next_position (map tc_position (list_columns db k)) \<or>
      cs = shift_columns k (tc_position c) (wd_columns db)" by blast
  have places: "distinct (map ?key cs) \<and> (k, tc_position c) \<notin> set (map ?key cs)"
    using how
  proof (elim disjE conjE)
    assume a: "cs = wd_columns db" "tc_position c = next_position (map tc_position (list_columns db k))"
    have "(k, tc_position c) \<notin> set (map ?key (wd_columns db))"
      using next_position_fresh [of _ "map tc_position (list_columns db k)"] by (fastforce simp: a(2))
    with cols(2) a(1) show "distinct (map ?key cs) \<and> (k, tc_position c) \<notin> set (map ?key cs)" by simp
  next
    assume a: "cs = shift_columns k (tc_position c) (wd_columns db)"
    show "distinct (map ?key cs) \<and> (k, tc_position c) \<notin> set (map ?key cs)"
      unfolding a using shift_columns_places [OF cols(2)] by blast
  qed
  have keys: "map tc_id cs = map tc_id (wd_columns db)" "map tc_table_id cs = map tc_table_id (wd_columns db)" using how by auto
  have old: "tc_id q < wd_next_column db \<and> tc_table_id q \<in> set (map wt_id (wd_tables db))" if "q \<in> set cs" for q
  proof -
    have "tc_id q \<in> set (map tc_id cs)" "tc_table_id q \<in> set (map tc_table_id cs)" using that by simp_all
    then show ?thesis unfolding keys using cols(3) by auto
  qed
  then have bound: "\<forall>q \<in> set cs. tc_id q < wd_next_column db + 1 \<and> tc_table_id q \<in> set (map wt_id (wd_tables db))"
    by fastforce
  have "wd_next_column db \<notin> set (map tc_id cs)" using old by fastforce
  then have "columns_ok (wd_tables db') (wd_columns db') (wd_next_column db')"
    using cols(1) keys(1) places bound table by (auto simp: columns_ok_def cs r(2-5))
  with ok show ?thesis by (simp add: watch_ok_def symbols_ok_def r(5-8))
qed

text \<open>Updating: the new content is stored, then the column is moved.\<close>

lemma get_column_ownedD:
  assumes "get_column_owned db i u = Some c"
  shows "c \<in> set (wd_columns db)" "tc_id c = i" "\<exists>t \<in> set (wd_tables db). wt_id t = tc_table_id c \<and> wt_user_id t = u"
  using assms by (auto simp: get_column_owned_def find_Some_iff)

lemma changed_column_keys [simp]:
  "tc_id (changed_column v c) = tc_id c" "tc_table_id (changed_column v c) = tc_table_id c" "tc_position (changed_column v c) = tc_position c"
  by (simp_all add: changed_column_def)

lemma update_column_result:
  assumes "update_column rnd reg u i v db = Ok db'"
  obtains c c' db2 where "get_column_owned db i u = Some c" "tc_id c' = tc_id c" "tc_table_id c' = tc_table_id c" "tc_position c' = tc_position c"
    "db2 = (case next_place v of None \<Rightarrow> db\<lparr>wd_columns := store_column c' (wd_columns db)\<rparr>
       | Some p \<Rightarrow> move_column c' p (db\<lparr>wd_columns := store_column c' (wd_columns db)\<rparr>))"
    "db' = db2 \<or> db' = enqueue_symbols (member_symbols db (tc_table_id c)) (demand_changed (member_ids db (tc_table_id c)) db2)"
    "validate_column_request rnd reg (column_candidate v c) = Ok (tc_column_type c', tc_indicator_type c', tc_parameters c', tc_view_mode c')"
proof -
  from assms obtain c where c: "get_column_owned db i u = Some c" by (auto simp: update_column_def split: option.splits)
  from assms c obtain ct ind ps mode where "validate_column_request rnd reg (column_candidate v c) = Ok (ct, ind, ps, mode)"
    by (auto simp: update_column_def Let_def)
  note v = this
  define c' where "c' = changed_column v (c\<lparr>tc_column_type := ct, tc_indicator_type := ind, tc_parameters := ps,
      tc_view_mode := mode, tc_state_code := cq_state_code (column_candidate v c)\<rparr>)"
  define db1 where "db1 = db\<lparr>wd_columns := store_column c' (wd_columns db)\<rparr>"
  define db2 where "db2 = (case next_place v of None \<Rightarrow> db1 | Some p \<Rightarrow> move_column c' p db1)"
  have "ebind (if ind \<noteq> None \<and> the ind \<noteq> []
           then ebind (normalize_indicator_type (the ind)) (\<lambda>t. validate_field_selector t ps (upper mode)) else Ok ()) (\<lambda>_.
        if find_duplicate_column db2 (tc_table_id c) ct ind (cq_state_code (column_candidate v c)) ps (Some (tc_id c)) \<noteq> None
        then Raise column_exists
        else Ok (if \<not> same_target c c'
             then enqueue_symbols (member_symbols db (tc_table_id c)) (demand_changed (member_ids db (tc_table_id c)) db2)
             else db2)) = Ok db'"
    using assms unfolding update_column_def c v option.case ebind_simps prod.case Let_def
      c'_def [symmetric] db1_def [symmetric] db2_def [symmetric] by simp
  then have "db' = db2 \<or> db' = enqueue_symbols (member_symbols db (tc_table_id c)) (demand_changed (member_ids db (tc_table_id c)) db2)"
    by (auto split: if_splits)
  note result = this
  have db2: "db2 = (case next_place v of None \<Rightarrow> db\<lparr>wd_columns := store_column c' (wd_columns db)\<rparr>
       | Some p \<Rightarrow> move_column c' p (db\<lparr>wd_columns := store_column c' (wd_columns db)\<rparr>))"
    unfolding db2_def db1_def ..
  show thesis by (rule that [OF c _ _ _ db2 result]) (simp_all add: c'_def v changed_column_def)
qed

lemma move_column_tables [simp]:
  "wd_tables (move_column c p db) = wd_tables db" "wd_symbols (move_column c p db) = wd_symbols db"
  "wd_next_table (move_column c p db) = wd_next_table db" "wd_next_symbol (move_column c p db) = wd_next_symbol db"
  "wd_next_column (move_column c p db) = wd_next_column db" "wd_shared (move_column c p db) = wd_shared db"
  by (simp_all add: move_column_def Let_def)

lemma update_column_ok:
  assumes "watch_ok db" "update_column rnd reg u i v db = Ok db'"
  shows "watch_ok db'"
proof -
  obtain c c' db2 where c: "get_column_owned db i u = Some c"
      and same: "tc_id c' = tc_id c" "tc_table_id c' = tc_table_id c" "tc_position c' = tc_position c"
      and db2: "db2 = (case next_place v of None \<Rightarrow> db\<lparr>wd_columns := store_column c' (wd_columns db)\<rparr>
         | Some p \<Rightarrow> move_column c' p (db\<lparr>wd_columns := store_column c' (wd_columns db)\<rparr>))"
      and db': "db' = db2 \<or> db' = enqueue_symbols (member_symbols db (tc_table_id c)) (demand_changed (member_ids db (tc_table_id c)) db2)"
    by (rule update_column_result [OF assms(2)])
  let ?db1 = "db\<lparr>wd_columns := store_column c' (wd_columns db)\<rparr>"
  note ok = assms(1) [unfolded watch_ok_def]
  have ids: "distinct (map tc_id (wd_columns db))" using ok by (simp add: columns_ok_def)
  note keys = store_column_keys [OF ids get_column_ownedD(1) [OF c] same]
  have cols1: "columns_ok (wd_tables db) (wd_columns ?db1) (wd_next_column db)"
    using ok columns_ok_cong [OF keys(1)] by simp
  have "columns_ok (wd_tables db) (wd_columns db2) (wd_next_column db)"
  proof (cases "next_place v")
    case (Some p)
    then show ?thesis using move_column_columns_ok [OF cols1, of c' p] keys(2) by (simp add: db2)
  qed (use cols1 db2 in simp)
  moreover have "wd_tables db2 = wd_tables db" "wd_symbols db2 = wd_symbols db" "wd_next_table db2 = wd_next_table db"
      "wd_next_symbol db2 = wd_next_symbol db" "wd_next_column db2 = wd_next_column db"
    by (simp_all add: db2 split: option.splits)
  ultimately have "watch_ok db2" using ok by (simp add: watch_ok_def)
  with db' show ?thesis by (auto simp: watch_ok_def)
qed

lemma delete_column_ok:
  assumes "watch_ok db" "delete_column u i db = Ok db'"
  shows "watch_ok db'"
proof -
  from assms(2) have "wd_tables db' = wd_tables db" "wd_symbols db' = wd_symbols db" "wd_next_table db' = wd_next_table db"
      "wd_next_symbol db' = wd_next_symbol db" "wd_next_column db' = wd_next_column db"
      "wd_columns db' = filter (\<lambda>q. tc_id q \<noteq> i) (wd_columns db)"
    by (auto simp: delete_column_def split: option.splits)
  with assms(1) show ?thesis by (simp add: watch_ok_def columns_ok_def distinct_map_filter)
qed

lemma reorder_columns_result:
  assumes "reorder_columns u k ids db = Ok (db', cs)"
  shows "db' = db\<lparr>wd_columns := set_positions (numbering int 0 ids) (wd_columns db)\<rparr>" "cs = list_columns db' k" "distinct ids"
    "set ids = set (map tc_id (list_columns db k))" "\<exists>t. owned db k u = Ok t"
  using assms by (auto simp: reorder_columns_def Let_def reorder_fold split: if_splits)

lemma reorder_columns_ok:
  assumes "watch_ok db" "reorder_columns u k ids db = Ok (db', cs)"
  shows "watch_ok db'"
proof -
  note r = reorder_columns_result [OF assms(2)]
  note ok = assms(1) [unfolded watch_ok_def]
  have "set ids = {tc_id c |c. c \<in> set (wd_columns db) \<and> tc_table_id c = k}" unfolding r(4) by auto
  then have "columns_ok (wd_tables db) (set_positions (numbering int 0 ids) (wd_columns db)) (wd_next_column db)"
    using ok by (intro numbered_columns_ok [OF _ r(3)]) (simp_all add: strict_mono_def)
  with ok show ?thesis by (simp add: watch_ok_def r(1))
qed

section \<open>Runs over watch tables and alert rules\<close>

text \<open>
  One transaction on the account: an operation of the watch tables, or a step of the alert service
  on the shared tables, which sees the rows of the watch tables as the watched securities.
\<close>

inductive watch_step ::
  "(real \<Rightarrow> real) \<Rightarrow> (pyval \<Rightarrow> string) \<Rightarrow> digests \<Rightarrow> renderers \<Rightarrow> (string \<Rightarrow> int option) \<Rightarrow> state_registry \<Rightarrow> watch_db \<Rightarrow> watch_db \<Rightarrow> bool"
  for rnd py_str digests renderers fromiso reg
where
  create: "create_table rnd py_str settings u name descr db = Ok (db', t) \<Longrightarrow> watch_step rnd py_str digests renderers fromiso reg db db'"
| delete: "delete_table u k db = Ok db' \<Longrightarrow> watch_step rnd py_str digests renderers fromiso reg db db'"
| add_stock: "add_stock now u k sid db = Ok (db', s) \<Longrightarrow> watch_step rnd py_str digests renderers fromiso reg db db'"
| remove_stock: "remove_stock u k sid db = Ok db' \<Longrightarrow> watch_step rnd py_str digests renderers fromiso reg db db'"
| reorder_stocks: "reorder_stocks u k items db = Ok (db', ss) \<Longrightarrow> watch_step rnd py_str digests renderers fromiso reg db db'"
| add_column: "add_column rnd reg u k q db = Ok (db', c) \<Longrightarrow> watch_step rnd py_str digests renderers fromiso reg db db'"
| update_column: "update_column rnd reg u i v db = Ok db' \<Longrightarrow> watch_step rnd py_str digests renderers fromiso reg db db'"
| delete_column: "delete_column u i db = Ok db' \<Longrightarrow> watch_step rnd py_str digests renderers fromiso reg db db'"
| reorder_columns: "reorder_columns u k ids db = Ok (db', cs) \<Longrightarrow> watch_step rnd py_str digests renderers fromiso reg db db'"
| alert: "alert_step rnd digests renderers fromiso reg False (account db) a \<Longrightarrow>
     watch_step rnd py_str digests renderers fromiso reg db (db\<lparr>wd_shared := a\<rparr>)"

abbreviation watch_steps ::
  "(real \<Rightarrow> real) \<Rightarrow> (pyval \<Rightarrow> string) \<Rightarrow> digests \<Rightarrow> renderers \<Rightarrow> (string \<Rightarrow> int option) \<Rightarrow> state_registry \<Rightarrow> watch_db \<Rightarrow> watch_db \<Rightarrow> bool"
where
  "watch_steps rnd py_str digests renderers fromiso reg \<equiv> (watch_step rnd py_str digests renderers fromiso reg)\<^sup>*\<^sup>*"

lemma watch_step_ok:
  assumes "watch_step rnd py_str digests renderers fromiso reg db db'" "watch_ok db"
  shows "watch_ok db'"
  using assms(1)
proof cases
  case alert
  with assms(2) show ?thesis by (simp add: watch_ok_def)
next
  case create
  from create_table_ok [OF assms(2) this] show ?thesis .
next
  case delete
  from delete_table_ok [OF assms(2) this] show ?thesis .
next
  case add_stock
  from add_stock_ok [OF assms(2) this] show ?thesis .
next
  case remove_stock
  from remove_stock_ok [OF assms(2) this] show ?thesis .
next
  case reorder_stocks
  from reorder_stocks_ok [OF assms(2) this] show ?thesis .
next
  case add_column
  from add_column_ok [OF assms(2) this] show ?thesis .
next
  case update_column
  from update_column_ok [OF assms(2) this] show ?thesis .
next
  case delete_column
  from delete_column_ok [OF assms(2) this] show ?thesis .
next
  case reorder_columns
  from reorder_columns_ok [OF assms(2) this] show ?thesis .
qed

lemma watch_steps_ok: "watch_steps rnd py_str digests renderers fromiso reg db db' \<Longrightarrow> watch_ok db \<Longrightarrow> watch_ok db'"
  by (induction rule: rtranclp_induct) (auto dest: watch_step_ok)

text \<open>What a step on the watch tables changes of the account.\<close>

lemma watched_set: "set (watched_pairs db) =
    {(wt_user_id t, ws_security_id s) |t s. t \<in> set (wd_tables db) \<and> s \<in> set (wd_symbols db) \<and> ws_table_id s = wt_id t}"
  by (auto simp: watched_pairs_def)

definition alert_rows :: "watch_db \<Rightarrow> stored_rule list \<times> alert_instance list \<times> alert_notification list \<times> int \<times> int" where
  "alert_rows db = (ad_rules (wd_shared db), ad_instances (wd_shared db), ad_outbox (wd_shared db), ad_next_rule (wd_shared db),
     ad_next_notification (wd_shared db))"

lemma alert_rows_simps [simp]:
  "alert_rows (demand_changed ids db) = alert_rows db" "alert_rows (enqueue_symbols ss db) = alert_rows db"
  "alert_rows (wd_tables_update f db) = alert_rows db" "alert_rows (wd_symbols_update g db) = alert_rows db"
  "alert_rows (wd_columns_update h db) = alert_rows db" "alert_rows (wd_next_table_update n db) = alert_rows db"
  "alert_rows (wd_next_symbol_update n db) = alert_rows db" "alert_rows (wd_next_column_update n db) = alert_rows db"
  "alert_rows (move_column c p db) = alert_rows db"
  by (simp_all add: alert_rows_def demand_changed_def enqueue_symbols_def move_column_def Let_def)

lemma account_tables: "alert_rows db' = alert_rows db \<Longrightarrow> alert_tables (account db') = alert_tables (account db)"
  by (simp add: alert_rows_def account_def alert_tables_def)

text \<open>The monitored securities of the account grow only by \<open>add_stock\<close>, after its check.\<close>

lemma account_limit_mono:
  assumes "alert_rows db' = alert_rows db" "set (watched_pairs db') \<subseteq> set (watched_pairs db)" "within_limit (account db)"
  shows "within_limit (account db')"
proof (rule within_limitI)
  fix u
  have "set (monitored (account db') u None) \<subseteq> set (monitored (account db) u None)"
    using assms(1,2) by (auto simp: monitored_set account_def alert_rows_def)
  from card_mono [OF finite_set this] within_limit_all [OF assms(3), of u]
  show "card (set (monitored (account db') u None)) \<le> 100" by linarith
qed

lemma watched_same: "wd_tables db' = wd_tables db \<Longrightarrow> wd_symbols db' = wd_symbols db \<Longrightarrow> watched_pairs db' = watched_pairs db"
  by (simp add: watched_pairs_def)

lemma same_table: "watch_ok db \<Longrightarrow> a \<in> set (wd_tables db) \<Longrightarrow> b \<in> set (wd_tables db) \<Longrightarrow> wt_id a = wt_id b \<Longrightarrow> a = b"
  unfolding watch_ok_def tables_ok_def by (blast intro: distinct_map_same [of wt_id])

lemma add_stock_limit:
  assumes "watch_ok db" "within_limit (account db)" "add_stock now u k sid db = Ok (db', s)"
  shows "within_limit (account db')"
proof (rule within_limitI)
  fix v
  note r = add_stock_result [OF assms(3)]
  from r(10) obtain t where t: "t \<in> set (wd_tables db)" "wt_id t = k" "wt_user_id t = u" by (auto dest: owned_OkD)
  have rows: "alert_rows db' = alert_rows db"
    using assms(3) by (auto simp: add_stock_def Let_def split: if_splits)
  have "set (watched_pairs db') = insert (u, sid) (set (watched_pairs db))"
  proof -
    have s: "ws_table_id s = k" "ws_security_id s = sid" by (simp_all add: r(1))
    have "set (watched_pairs db') = set (watched_pairs db) \<union> {(wt_user_id x, sid) |x. x \<in> set (wd_tables db) \<and> wt_id x = k}"
      unfolding watched_set r(2,4) s [symmetric] set_append list.set by fastforce
    moreover have "x \<in> set (wd_tables db) \<and> wt_id x = k \<longleftrightarrow> x = t" for x
      using same_table [OF assms(1) _ t(1), of x] t(1,2) by metis
    ultimately show ?thesis by (simp add: t(3))
  qed
  then have "snd ` {w \<in> set (watched_pairs db'). fst w = v} =
      (if v = u then insert sid (snd ` {w \<in> set (watched_pairs db). fst w = v}) else snd ` {w \<in> set (watched_pairs db). fst w = v})"
    by force
  then have "set (monitored (account db') v None) =
      (if v = u then insert sid (set (monitored (account db) u None)) else set (monitored (account db) v None))"
    using rows by (simp add: monitored_set account_def alert_rows_def)
  then show "card (set (monitored (account db') v None)) \<le> 100"
    using within_limit_all [OF assms(2), of v] capacity_insert [OF r(9) within_limit_all [OF assms(2)]] by simp
qed

lemma alert_step_watched:
  assumes "alert_step rnd digests renderers fromiso reg scheduled db db'"
  shows "ad_watched db' = ad_watched db"
  using assms
proof cases
  case create
  from create_rule_outcome(10) [OF this] show ?thesis .
next
  case (update user_id k u r)
  from update obtain q where "find_rule db k (Some user_id) = Some q" by (auto simp: update_rule_def split: option.splits)
  from update_rule_outcome(3) [OF update this] show ?thesis by (simp add: other_tables_def)
next
  case delete
  then show ?thesis by (auto simp: delete_rule_def split: option.splits)
next
  case (evaluate od view now k)
  show ?thesis
  proof (cases rule: evaluate_rule_outcome [of rnd digests renderers fromiso reg view now od k db])
    case none
    then show ?thesis using evaluate(1) by simp
  next
    case (grown r st rows)
    then show ?thesis using evaluate(1) by simp
  qed
qed

lemma remove_watched:
  assumes "wd_tables db' = filter P (wd_tables db)" "wd_symbols db' = filter Q (wd_symbols db)"
  shows "set (watched_pairs db') \<subseteq> set (watched_pairs db)"
  unfolding watched_set assms by auto

lemma create_table_watched:
  assumes "watch_ok db" "wd_tables db' = wd_tables db @ [t]" "wt_id t = wd_next_table db" "wd_symbols db' = wd_symbols db"
  shows "set (watched_pairs db') = set (watched_pairs db)"
proof -
  have "ws_table_id s \<noteq> wd_next_table db" if "s \<in> set (wd_symbols db)" for s
    using assms(1) that by (fastforce simp: watch_ok_def tables_ok_def symbols_ok_def)
  then show ?thesis unfolding watched_set assms(2,4) using assms(3) by auto
qed

lemma reorder_watched:
  assumes "wd_tables db' = wd_tables db" "wd_symbols db' = map (place k items) (wd_symbols db)"
  shows "watched_pairs db' = watched_pairs db"
proof -
  have rows: "map (\<lambda>s. (wt_user_id t, ws_security_id s)) (filter (\<lambda>s. ws_table_id s = wt_id t) (map (place k items) ss)) =
      map (\<lambda>s. (wt_user_id t, ws_security_id s)) (filter (\<lambda>s. ws_table_id s = wt_id t) ss)" for t ss
    by (induction ss) simp_all
  show ?thesis unfolding watched_pairs_def assms by (rule arg_cong [of _ _ concat], rule map_cong [OF refl], rule rows)
qed

text \<open>Every step keeps the rules and the rows of the alert service, or adds securities after the check.\<close>

lemma watch_step_limit:
  assumes "watch_step rnd py_str digests renderers fromiso reg db db'" "watch_ok db" "alert_tables (account db)" "within_limit (account db)"
  shows "alert_tables (account db') \<and> within_limit (account db')"
proof -
  have mono: ?thesis if "alert_rows db' = alert_rows db" "set (watched_pairs db') \<subseteq> set (watched_pairs db)"
    using account_limit_mono [OF that assms(4)] account_tables [OF that(1)] assms(3) by simp
  have same: ?thesis if "alert_rows db' = alert_rows db" "wd_tables db' = wd_tables db" "wd_symbols db' = wd_symbols db"
    by (rule mono [OF that(1)]) (simp add: watched_same [OF that(2,3)])
  from assms(1) show ?thesis
  proof cases
    case (create settings u name descr t)
    then have "wd_tables db' = wd_tables db @ [t]" "wt_id t = wd_next_table db" "wd_symbols db' = wd_symbols db" "alert_rows db' = alert_rows db"
      by (auto simp: create_table_def Let_def split: if_splits)
    with create_table_watched [OF assms(2)] show ?thesis by (intro mono) auto
  next
    case (delete u k)
    then have "alert_rows db' = alert_rows db" "wd_tables db' = filter (\<lambda>q. wt_id q \<noteq> k) (wd_tables db)"
        "wd_symbols db' = filter (\<lambda>s. ws_table_id s \<noteq> k) (wd_symbols db)" by (auto simp: delete_table_def)
    then show ?thesis using remove_watched by (intro mono)
  next
    case (add_stock now u k sid s)
    from add_stock have "alert_rows db' = alert_rows db" by (auto simp: add_stock_def Let_def split: if_splits)
    from account_tables [OF this] add_stock_limit [OF assms(2,4) add_stock] assms(3) show ?thesis by simp
  next
    case (remove_stock u k sid)
    then have "alert_rows db' = alert_rows db" "wd_tables db' = filter (\<lambda>_. True) (wd_tables db)"
        "wd_symbols db' = filter (\<lambda>s. \<not> (ws_table_id s = k \<and> ws_security_id s = sid)) (wd_symbols db)"
      by (auto simp: remove_stock_def split: if_splits)
    then show ?thesis using remove_watched by (intro mono)
  next
    case (reorder_stocks u k items ss)
    note r = reorder_stocks_result(1) [OF reorder_stocks]
    have "watched_pairs db' = watched_pairs db" by (rule reorder_watched [of _ _ k items]) (simp_all add: r)
    then show ?thesis by (intro mono) (simp_all add: r)
  next
    case (add_column u k q c)
    from add_column have "alert_rows db' = alert_rows db"
      by (auto simp: add_column_def Let_def split: if_splits)
    with add_column_result(5,6) [OF add_column] show ?thesis by (intro same)
  next
    case (update_column u i v)
    obtain c c' db2 where "get_column_owned db i u = Some c" "tc_id c' = tc_id c" "tc_table_id c' = tc_table_id c" "tc_position c' = tc_position c"
        and e: "db2 = (case next_place v of None \<Rightarrow> db\<lparr>wd_columns := store_column c' (wd_columns db)\<rparr>
         | Some p \<Rightarrow> move_column c' p (db\<lparr>wd_columns := store_column c' (wd_columns db)\<rparr>))"
        and db': "db' = db2 \<or> db' = enqueue_symbols (member_symbols db (tc_table_id c)) (demand_changed (member_ids db (tc_table_id c)) db2)"
      by (rule update_column_result [OF update_column])
    have db2: "alert_rows db2 = alert_rows db" "wd_tables db2 = wd_tables db" "wd_symbols db2 = wd_symbols db"
      by (simp_all add: e split: option.splits)
    from db' have "alert_rows db' = alert_rows db" "wd_tables db' = wd_tables db" "wd_symbols db' = wd_symbols db"
      by (elim disjE; simp add: db2)+
    then show ?thesis by (rule same)
  next
    case (delete_column u i)
    then show ?thesis by (intro same) (auto simp: delete_column_def split: option.splits)
  next
    case (reorder_columns u k ids cs)
    from reorder_columns_result(1) [OF this] show ?thesis by (intro same) simp_all
  next
    case (alert a)
    have "account db' = a" using alert_step_watched [OF alert(2)] by (simp add: alert(1) account_def watched_pairs_def)
    with alert_step_tables [OF alert(2) assms(3)] within_limit_step [OF alert(2) assms(3,4)] show ?thesis by simp
  qed
qed

section \<open>Display order of the columns\<close>

lemma numbered_list:
  assumes "distinct (map tc_id (wd_columns db))" "distinct ids" "set ids = set (map tc_id (list_columns db k))"
    "wd_columns db' = set_positions (numbering int 0 ids) (wd_columns db)"
  shows "map tc_id (list_columns db' k) = ids" "map tc_position (list_columns db' k) = map int [0..<length ids]"
proof -
  let ?own = "filter (\<lambda>c. tc_table_id c = k) (wd_columns db)"
  have own: "distinct (map tc_id ?own)" "set ids = set (map tc_id ?own)" using assms(1,3) by (simp_all add: distinct_map_filter)
  have list: "list_columns db' k = sort_key (\<lambda>c. (tc_position c, tc_id c)) (set_positions (numbering int 0 ids) ?own)"
    by (simp add: list_columns_def assms(4) set_positions_filter)
  show ids: "map tc_id (list_columns db' k) = ids"
    unfolding list by (rule numbered_order [OF own(1) assms(2) own(2)]) (simp add: strict_mono_def)
  then have len: "length (list_columns db' k) = length ids" by (metis length_map)
  show "map tc_position (list_columns db' k) = map int [0..<length ids]"
  proof (rule nth_equalityI)
    fix j assume "j < length (map tc_position (list_columns db' k))"
    then have j: "j < length ids" "j < length (list_columns db' k)" using len by simp_all
    let ?c = "list_columns db' k ! j"
    have "tc_id ?c = ids ! j" using ids j by (metis nth_map)
    moreover have "?c \<in> set (set_positions (numbering int 0 ids) ?own)" using nth_mem [OF j(2)] unfolding list by simp
    ultimately have "tc_position ?c = int j"
      using numbering_get [OF assms(2) j(1), of int 0] by (auto simp: set_positions_def reposition_def split: option.splits)
    with j show "map tc_position (list_columns db' k) ! j = map int [0..<length ids] ! j" by simp
  qed (simp add: len)
qed

lemma map_insort: "map f (insort_key (\<lambda>x. k (f x)) a xs) = insort_key k (f a) (map f xs)"
  by (induction xs) simp_all

lemma map_sort: "map f (sort_key (\<lambda>x. k (f x)) xs) = sort_key k (map f xs)"
  by (induction xs) (simp_all add: map_insort)

lemma list_columns_keys:
  assumes "map (\<lambda>c. (tc_id c, tc_table_id c, tc_position c)) (wd_columns db') = map (\<lambda>c. (tc_id c, tc_table_id c, tc_position c)) (wd_columns db)"
  shows "map tc_id (list_columns db' k) = map tc_id (list_columns db k)"
proof -
  let ?key = "\<lambda>c. (tc_id c, tc_table_id c, tc_position c)"
  have "map tc_id (list_columns db k) = map fst (sort_key (\<lambda>x. (snd (snd x), fst x)) (filter (\<lambda>x. fst (snd x) = k) (map ?key (wd_columns db))))" for db
  proof -
    have "map tc_id (list_columns db k) = map fst (map ?key (list_columns db k))" by simp
    also have "map ?key (list_columns db k) = sort_key (\<lambda>x. (snd (snd x), fst x)) (map ?key (filter (\<lambda>c. tc_table_id c = k) (wd_columns db)))"
      using map_sort [of ?key "\<lambda>x. (snd (snd x), fst x)" "filter (\<lambda>c. tc_table_id c = k) (wd_columns db)"] by (simp add: list_columns_def)
    also have "map ?key (filter (\<lambda>c. tc_table_id c = k) (wd_columns db)) = filter (\<lambda>x. fst (snd x) = k) (map ?key (wd_columns db))"
      by (simp add: filter_map comp_def)
    finally show ?thesis .
  qed
  then show ?thesis using assms by simp
qed

lemma other_columns:
  assumes "wd_columns db' = set_positions (numbering int 0 ids) (wd_columns db)" "distinct (map tc_id (wd_columns db))"
    "set ids = set (map tc_id (list_columns db k))" "k' \<noteq> k"
  shows "list_columns db' k' = list_columns db k'"
proof -
  have "reposition (numbering int 0 ids) c = c" if "c \<in> set (wd_columns db)" "tc_table_id c = k'" for c
  proof -
    have "tc_id c \<notin> set ids"
    proof
      assume "tc_id c \<in> set ids"
      then obtain q where q: "q \<in> set (wd_columns db)" "tc_table_id q = k" "tc_id q = tc_id c" unfolding assms(3) by auto
      from distinct_map_same [OF assms(2) q(1) that(1) q(3)] q(2) that(2) assms(4) show False by simp
    qed
    then show ?thesis by (simp add: reposition_def numbering_None)
  qed
  then have "set_positions (numbering int 0 ids) (filter (\<lambda>c. tc_table_id c = k') (wd_columns db)) = filter (\<lambda>c. tc_table_id c = k') (wd_columns db)"
    unfolding set_positions_def by (intro map_idI) simp
  then show ?thesis by (simp add: list_columns_def assms(1) set_positions_filter)
qed

lemma watch_ok_ids: "watch_ok db \<Longrightarrow> distinct (map tc_id (wd_columns db))"
  by (simp add: watch_ok_def columns_ok_def)

section \<open>A concrete account\<close>

definition demo_column :: "int \<Rightarrow> int \<Rightarrow> string option \<Rightarrow> table_column" where
  "demo_column i p t = \<lparr>tc_id = i, tc_table_id = 1, tc_column_type = (if t = None then ''PRICE'' else ''INDICATOR''), tc_indicator_type = t,
     tc_state_code = None, tc_parameters = [], tc_view_mode = (if t = None then ''NUMBER'' else ''COMPOSITE''), tc_position = p,
     tc_visible = True, tc_width = None\<rparr>"

definition demo_watch :: watch_db where
  "demo_watch = \<lparr>wd_tables = [\<lparr>wt_id = 1, wt_user_id = 7, wt_name = ''Main'', wt_description = None\<rparr>],
     wd_symbols = [\<lparr>ws_id = 1, ws_table_id = 1, ws_security_id = 1, ws_position = 0, ws_created_at = 0\<rparr>],
     wd_columns = [demo_column 1 0 None, demo_column 2 1 (Some ''RSI''), demo_column 3 4 (Some ''KDJ'')],
     wd_next_table = 2, wd_next_symbol = 2, wd_next_column = 4, wd_shared = demo_db\<lparr>ad_watched := []\<rparr>\<rparr>"

lemma demo_account: "account demo_watch = demo_db"
  by (simp add: account_def watched_pairs_def demo_watch_def demo_db_def)

lemma demo_watch_ok: "watch_ok demo_watch"
  by (simp add: watch_ok_def tables_ok_def symbols_ok_def columns_ok_def demo_watch_def demo_column_def)

lemma demo_owned: "owned demo_watch 1 7 = Ok \<lparr>wt_id = 1, wt_user_id = 7, wt_name = ''Main'', wt_description = None\<rparr>"
  by (simp add: owned_def demo_watch_def)

lemma demo_columns: "map tc_id (list_columns demo_watch 1) = [1, 2, 3]"
  by (simp add: list_columns_def demo_watch_def demo_column_def)

definition demo_reordered :: watch_db where
  "demo_reordered = demo_watch\<lparr>wd_columns := [demo_column 1 1 None, demo_column 2 2 (Some ''RSI''), demo_column 3 0 (Some ''KDJ'')]\<rparr>"

lemma demo_reorder: "reorder_columns 7 1 [3, 1, 2] demo_watch =
    Ok (demo_reordered, [demo_column 3 0 (Some ''KDJ''), demo_column 1 1 None, demo_column 2 2 (Some ''RSI'')])"
proof -
  have "\<not> (\<not> distinct [3, 1, 2 :: int] \<or> set [3, 1, 2] \<noteq> set (map tc_id (list_columns demo_watch 1)))" unfolding demo_columns by auto
  then show ?thesis unfolding reorder_columns_def demo_owned
    by (simp only: ebind_simps if_not_P if_False Let_def)
      (simp add: demo_reordered_def demo_watch_def demo_column_def list_columns_def)
qed

definition demo_final :: watch_db where
  "demo_final = demo_reordered\<lparr>wd_shared := demo_created\<rparr>"

lemma demo_watch_steps: "watch_steps id py_str (demo_sha, demo_sha) demo_renderers (\<lambda>_. None) demo_reg demo_watch demo_final"
proof -
  let ?R = "watch_step id py_str (demo_sha, demo_sha) demo_renderers (\<lambda>_. None) demo_reg"
  have "?R demo_watch demo_reordered" by (rule watch_step.reorder_columns [OF demo_reorder])
  moreover have "account demo_reordered = demo_db"
    by (simp add: account_def watched_pairs_def demo_reordered_def demo_watch_def demo_db_def)
  then have "alert_step id (demo_sha, demo_sha) demo_renderers (\<lambda>_. None) demo_reg False (account demo_reordered) demo_created"
    using alert_step.create [OF demo_create] by simp
  then have "?R demo_reordered demo_final" unfolding demo_final_def by (rule watch_step.alert)
  ultimately show ?thesis by (meson converse_rtranclp_into_rtranclp r_into_rtranclp)
qed

section \<open>Properties\<close>

text \<open>
  C13: every sequence of table, stock, column and alert operations keeps the rows consistent: names
  stay unique per user, no table holds a security twice, every stock and column belongs to a table,
  and the display positions within a table stay distinct.
\<close>

theorem watch_tables_kept:
  assumes "watch_ok db" "watch_steps rnd py_str digests renderers fromiso reg db db'"
  shows "watch_ok db'"
  using watch_steps_ok [OF assms(2,1)] .

theorem watch_tables_kept_witness: "watch_ok demo_final \<and> wd_columns demo_final \<noteq> wd_columns demo_watch"
  using watch_tables_kept [OF demo_watch_ok demo_watch_steps]
  by (simp add: demo_final_def demo_reordered_def demo_watch_def demo_column_def)

text \<open>
  C37: the two components that share the monitor limit keep it together: however operations on watch
  tables and on alert rules are interleaved, no user monitors more than one hundred distinct
  securities.
\<close>

theorem shared_monitor_limit:
  assumes "watch_ok db" "alert_tables (account db)" "within_limit (account db)"
    "watch_steps rnd py_str digests renderers fromiso reg db db'"
  shows "length (monitored (account db') u None) \<le> 100"
proof -
  from assms(4) have "alert_tables (account db') \<and> within_limit (account db')"
  proof (induction rule: rtranclp_induct)
    case (step d d')
    from watch_step_limit [OF step(2) watch_steps_ok [OF step(1) assms(1)]] step(3) show ?case by blast
  qed (use assms in simp)
  then show ?thesis using within_limit_all [of "account db'" u] by (simp add: monitored_length)
qed

theorem shared_monitor_limit_witness:
  "length (monitored (account demo_final) 7 None) \<le> 100 \<and> monitored (account demo_final) 7 None = [1]"
  using shared_monitor_limit [OF demo_watch_ok _ _ demo_watch_steps, of 7] demo_db_ok(1,4)
  by (simp add: demo_account) (simp add: monitored_def account_def watched_pairs_def demo_final_def demo_reordered_def demo_watch_def
      demo_created_def demo_db_def demo_rule_def)

text \<open>
  a column order is accepted exactly when it lists every column of the table once; then the
  table shows the columns in that order, numbered from zero, and no other table changes.
\<close>

theorem reorder_columns_exact:
  assumes "watch_ok db" "owned db k u = Ok t"
  shows "if mset ids = mset (map tc_id (list_columns db k))
    then \<exists>db' cs. reorder_columns u k ids db = Ok (db', cs) \<and> cs = list_columns db' k \<and> map tc_id cs = ids \<and>
      map tc_position cs = map int [0..<length ids] \<and> (\<forall>k'. k' \<noteq> k \<longrightarrow> list_columns db' k' = list_columns db k')
    else reorder_columns u k ids db = Raise (ApiError ''INVALID_COLUMN_ORDER'' ''Column order must contain every column exactly once.'' 400)"
proof -
  note ids = watch_ok_ids [OF assms(1)]
  have perm: "mset ids = mset (map tc_id (list_columns db k)) \<longleftrightarrow> distinct ids \<and> set ids = set (map tc_id (list_columns db k))"
    using list_columns_ids [OF ids, of k] by (metis mset_eq_setD mset_eq_imp_distinct_iff set_eq_iff_mset_eq_distinct)
  show ?thesis
  proof (cases "mset ids = mset (map tc_id (list_columns db k))")
    case True
    with perm obtain db' cs where r: "reorder_columns u k ids db = Ok (db', cs)" unfolding reorder_columns_def assms(2) by (auto simp: Let_def)
    note o = reorder_columns_result [OF r]
    have cols: "wd_columns db' = set_positions (numbering int 0 ids) (wd_columns db)" by (simp add: o(1))
    from True r o(2) numbered_list [OF ids o(3,4) cols] other_columns [OF cols ids o(4)] show ?thesis by simp
  next
    case False
    with perm show ?thesis by (auto simp: reorder_columns_def assms(2))
  qed
qed

theorem reorder_columns_exact_witness:
  "\<exists>db' cs. reorder_columns 7 1 [3, 1, 2] demo_watch = Ok (db', cs) \<and> map tc_id cs = [3, 1, 2]"
  using reorder_columns_exact [OF demo_watch_ok demo_owned, where ids = "[3, 1, 2]"] by (auto simp: demo_columns)

lemma others_filter: "others c db = filter (\<lambda>j. j \<noteq> tc_id c) (map tc_id (list_columns db (tc_table_id c)))"
  by (simp add: others_def filter_map comp_def)

text \<open>
  C14: an update that sends a position shows the column before the other columns from that place on,
  in an otherwise unchanged order, with the place clipped to the ends of the table; without a
  position the order stays. Other tables are not reordered.
\<close>

theorem update_column_order:
  assumes "watch_ok db" "get_column_owned db i u = Some c" "update_column rnd reg u i v db = Ok db'"
  shows "map tc_id (list_columns db' k) =
    (let shown = map tc_id (list_columns db k); rest = filter (\<lambda>j. j \<noteq> i) shown in
     case next_place v of
       None \<Rightarrow> shown
     | Some p \<Rightarrow> if k = tc_table_id c then insert_at (nat (min (max 0 p) (int (length rest)))) i rest else shown)"
proof -
  obtain c1 c' db2 where c1: "get_column_owned db i u = Some c1"
      and same: "tc_id c' = tc_id c1" "tc_table_id c' = tc_table_id c1" "tc_position c' = tc_position c1"
      and db2: "db2 = (case next_place v of None \<Rightarrow> db\<lparr>wd_columns := store_column c' (wd_columns db)\<rparr>
         | Some p \<Rightarrow> move_column c' p (db\<lparr>wd_columns := store_column c' (wd_columns db)\<rparr>))"
      and db': "db' = db2 \<or> db' = enqueue_symbols (member_symbols db (tc_table_id c1)) (demand_changed (member_ids db (tc_table_id c1)) db2)"
    by (rule update_column_result [OF assms(3)])
  let ?db1 = "db\<lparr>wd_columns := store_column c' (wd_columns db)\<rparr>"
  have c: "c1 = c" "tc_id c = i" using c1 assms(2) get_column_ownedD(2) by auto
  note ids = watch_ok_ids [OF assms(1)]
  note keys = store_column_keys [OF ids get_column_ownedD(1) [OF c1] same]
  have ids1: "distinct (map tc_id (wd_columns ?db1))" and mem: "c' \<in> set (wd_columns ?db1)" using keys(2,3) ids by simp_all
  have list1: "map tc_id (list_columns ?db1 k) = map tc_id (list_columns db k)" for k
    by (rule list_columns_keys) (simp add: keys(1))
  have "wd_columns db' = wd_columns db2" using db' by auto
  then have list: "list_columns db' k = list_columns db2 k" by (simp add: list_columns_def)
  show ?thesis
  proof (cases "next_place v")
    case None
    then have "db2 = ?db1" by (simp add: db2)
    with list1 [of k] list None show ?thesis by (simp add: Let_def)
  next
    case (Some p)
    let ?order = "moved_order c' p ?db1"
    from Some have d: "db2 = move_column c' p ?db1" by (simp add: db2)
    have cols: "wd_columns db2 = set_positions (numbering int 0 ?order) (wd_columns ?db1)"
      unfolding d move_column_result [OF ids1 mem] by simp
    note order = moved_order_set [OF ids1 mem, of p]
    show ?thesis
    proof (cases "k = tc_table_id c")
      case True
      have "map tc_id (list_columns db2 k) = ?order"
        using numbered_list(1) [OF ids1 order(1) order(2) cols] True same(2) c(1) by simp
      moreover have "others c' ?db1 = filter (\<lambda>j. j \<noteq> i) (map tc_id (list_columns db k))"
        unfolding others_filter list1 using True same(1,2) c by simp
      ultimately show ?thesis using True Some same(1) c unfolding moved_order_def list by (simp add: Let_def)
    next
      case False
      then have "list_columns db2 k = list_columns ?db1 k" using other_columns [OF cols ids1 order(2), of k] same(2) c(1) by simp
      with False Some list1 [of k] list show ?thesis by (simp add: Let_def)
    qed
  qed
qed

definition demo_move :: column_update where
  "demo_move = \<lparr>cu_visible = None, cu_hidden = None, cu_position = None, cu_order = Some 7, cu_width = None, cu_view_mode = None,
     cu_state_code = None, cu_parameters = None\<rparr>"

lemma demo_column_found: "get_column_owned demo_watch 1 7 = Some (demo_column 1 0 None)"
  by (simp add: get_column_owned_def demo_watch_def demo_column_def)

lemma demo_price_text: "schema_text ''PRICE'' = ''PRICE''" "schema_text ''NUMBER'' = ''NUMBER''" "upper ''PRICE'' = ''PRICE''" "upper ''NUMBER'' = ''NUMBER''"
  by code_simp+

lemma demo_valid: "validate_column_request rnd reg (column_candidate demo_move (demo_column 1 0 None)) = Ok (''PRICE'', None, [], ''NUMBER'')"
  by (simp add: validate_column_request_def column_candidate_def demo_move_def demo_column_def ColumnCreateRequest_def demo_price_text
      or_else_def text_or_def Let_def)

lemma no_parameters: "py_eq (as_object []) (as_object [])"
  by code_simp

lemma demo_moved: "update_column id demo_reg 7 1 demo_move demo_watch =
    Ok (demo_watch\<lparr>wd_columns := [demo_column 1 2 None, demo_column 2 0 (Some ''RSI''), demo_column 3 1 (Some ''KDJ'')]\<rparr>)"
  unfolding update_column_def demo_column_found option.case Let_def demo_valid ebind_simps prod.case
  by (simp add: changed_column_def Let_def next_place_def demo_move_def find_duplicate_column_def
      same_target_def same_column_def column_candidate_def ColumnCreateRequest_def or_else_def move_column_def list_columns_def
      place_columns_def store_column_def no_parameters demo_watch_def demo_column_def)

theorem update_column_order_witness:
  "\<exists>db'. update_column id demo_reg 7 1 demo_move demo_watch = Ok db' \<and> map tc_id (list_columns db' 1) = [2, 3, 1]"
  using update_column_order [OF demo_watch_ok demo_column_found demo_moved, of 1] demo_moved
  by (simp add: demo_columns next_place_def demo_move_def demo_column_def insert_at_def)

end
