(* ===== verification/Column_Contract.thy ===== *)
theory Column_Contract
  imports Watch_Runs
begin

text \<open>
  What the validation of columns guarantees about every stored column: a property that validated
  and default columns have, and that does not depend on the position, holds of all columns in every
  reachable state of the account.
\<close>

text \<open>A step leaves the rows of the alert service alone or is a step of that service.\<close>

lemma watch_step_rows:
  assumes "watch_step rnd py_str digests renderers fromiso reg db db'"
  obtains "alert_rows db' = alert_rows db"
  | a where "alert_step rnd digests renderers fromiso reg False (account db) a" "db' = db\<lparr>wd_shared := a\<rparr>"
  using assms
proof cases
  case create
  then show ?thesis by (intro that(1)) (auto simp: create_table_def Let_def split: if_splits)
next
  case delete
  then show ?thesis by (intro that(1)) (auto simp: delete_table_def)
next
  case add_stock
  then show ?thesis by (intro that(1)) (auto simp: add_stock_def Let_def split: if_splits)
next
  case remove_stock
  then show ?thesis by (intro that(1)) (auto simp: remove_stock_def split: if_splits)
next
  case reorder_stocks
  from reorder_stocks_result(1) [OF this] show ?thesis by (intro that(1)) simp
next
  case add_column
  then show ?thesis by (intro that(1)) (auto simp: add_column_def Let_def split: if_splits)
next
  case (update_column u i v)
  obtain c c' db2 where "get_column_owned db i u = Some c" "tc_id c' = tc_id c" "tc_table_id c' = tc_table_id c" "tc_position c' = tc_position c"
      and e: "db2 = (case next_place v of None \<Rightarrow> db\<lparr>wd_columns := store_column c' (wd_columns db)\<rparr>
         | Some p \<Rightarrow> move_column c' p (db\<lparr>wd_columns := store_column c' (wd_columns db)\<rparr>))"
      and db': "db' = db2 \<or> db' = enqueue_symbols (member_symbols db (tc_table_id c)) (demand_changed (member_ids db (tc_table_id c)) db2)"
    by (rule update_column_result [OF update_column])
  have "alert_rows db2 = alert_rows db" by (simp add: e split: option.splits)
  with db' show ?thesis by (intro that(1)) auto
next
  case delete_column
  then show ?thesis by (intro that(1)) (auto simp: delete_column_def split: option.splits)
next
  case reorder_columns
  from reorder_columns_result(1) [OF this] show ?thesis by (intro that(1)) simp
next
  case alert
  then show ?thesis by (intro that(2))
qed

locale column_property =
  fixes rnd :: "real \<Rightarrow> real" and P :: "table_column \<Rightarrow> bool"
  assumes validated: "validate_column_request rnd reg q = Ok (tc_column_type c, tc_indicator_type c, tc_parameters c, tc_view_mode c) \<Longrightarrow> P c"
    and default: "default_column rnd py_str settings k first entry = Ok c \<Longrightarrow> P c"
    and position: "P c \<Longrightarrow> P (c\<lparr>tc_position := p\<rparr>)"
begin

lemma set_positions: "\<forall>c \<in> set cs. P c \<Longrightarrow> \<forall>c \<in> set (set_positions ps cs). P c"
  by (auto simp: set_positions_def reposition_def position split: option.splits)

lemma shift: "\<forall>c \<in> set cs. P c \<Longrightarrow> \<forall>c \<in> set (shift_columns k p cs). P c"
  by (auto simp: shift_columns_def position)

lemma created:
  assumes "\<forall>c \<in> set (wd_columns db). P c" "create_table rnd py_str settings u name descr db = Ok (db', t)"
  shows "\<forall>c \<in> set (wd_columns db'). P c"
proof -
  from assms(2) obtain cs where cs: "traverse (default_column rnd py_str settings (wd_next_table db) (wd_next_column db)) (enumerate 0 (default_types settings)) = Ok cs"
      and db': "wd_columns db' = wd_columns db @ cs"
    by (auto simp: create_table_def Let_def split: if_splits)
  have "P c" if "c \<in> set cs" for c using traverse_source [OF cs that] default by blast
  with assms(1) show ?thesis by (auto simp: db')
qed

lemma added:
  assumes "\<forall>c \<in> set (wd_columns db). P c" "add_column rnd reg u k q db = Ok (db', c)"
  shows "\<forall>c \<in> set (wd_columns db'). P c"
proof -
  note r = add_column_result [OF assms(2)]
  from r(1) obtain cs where cs: "wd_columns db' = cs @ [c]" "cs = wd_columns db \<or> cs = shift_columns k (tc_position c) (wd_columns db)" by blast
  from cs(2) assms(1) shift have "\<forall>q \<in> set cs. P q" by metis
  with validated [OF r(10)] show ?thesis by (simp add: cs(1))
qed

lemma updated:
  assumes "\<forall>c \<in> set (wd_columns db). P c" "watch_ok db" "update_column rnd reg u i v db = Ok db'"
  shows "\<forall>c \<in> set (wd_columns db'). P c"
proof -
  obtain c c' db2 where c: "get_column_owned db i u = Some c"
      and same: "tc_id c' = tc_id c" "tc_table_id c' = tc_table_id c" "tc_position c' = tc_position c"
      and db2: "db2 = (case next_place v of None \<Rightarrow> db\<lparr>wd_columns := store_column c' (wd_columns db)\<rparr>
         | Some p \<Rightarrow> move_column c' p (db\<lparr>wd_columns := store_column c' (wd_columns db)\<rparr>))"
      and db': "db' = db2 \<or> db' = enqueue_symbols (member_symbols db (tc_table_id c)) (demand_changed (member_ids db (tc_table_id c)) db2)"
      and valid: "validate_column_request rnd reg (column_candidate v c) = Ok (tc_column_type c', tc_indicator_type c', tc_parameters c', tc_view_mode c')"
    by (rule update_column_result [OF assms(3)])
  let ?db1 = "db\<lparr>wd_columns := store_column c' (wd_columns db)\<rparr>"
  note keys = store_column_keys [OF watch_ok_ids [OF assms(2)] get_column_ownedD(1) [OF c] same]
  have one: "\<forall>q \<in> set (wd_columns ?db1). P q"
    using assms(1) validated [OF valid] by (auto simp: store_column_def)
  have "\<forall>q \<in> set (wd_columns db2). P q"
  proof (cases "next_place v")
    case None
    with one show ?thesis by (simp add: db2)
  next
    case (Some p)
    then have d: "db2 = move_column c' p ?db1" by (simp add: db2)
    have "distinct (map tc_id (wd_columns ?db1))" "c' \<in> set (wd_columns ?db1)" using keys(2,3) watch_ok_ids [OF assms(2)] by simp_all
    from move_column_result [OF this, of p] set_positions [OF one] show ?thesis unfolding d by simp
  qed
  with db' show ?thesis by auto
qed

lemma stepped:
  assumes "watch_step rnd py_str digests renderers fromiso reg db db'" "watch_ok db" "\<forall>c \<in> set (wd_columns db). P c"
  shows "\<forall>c \<in> set (wd_columns db'). P c"
  using assms(1)
proof cases
  case create
  from created [OF assms(3) this] show ?thesis .
next
  case (delete u k)
  then have "set (wd_columns db') \<subseteq> set (wd_columns db)" by (auto simp: delete_table_def)
  with assms(3) show ?thesis by blast
next
  case add_stock
  from add_stock_result(5) [OF this] assms(3) show ?thesis by simp
next
  case (remove_stock u k sid)
  then have "wd_columns db' = wd_columns db" by (auto simp: remove_stock_def split: if_splits)
  with assms(3) show ?thesis by simp
next
  case reorder_stocks
  from reorder_stocks_result(1) [OF this] assms(3) show ?thesis by simp
next
  case add_column
  from added [OF assms(3) this] show ?thesis .
next
  case update_column
  from updated [OF assms(3,2) this] show ?thesis .
next
  case (delete_column u i)
  then have "set (wd_columns db') \<subseteq> set (wd_columns db)" by (auto simp: delete_column_def split: option.splits)
  with assms(3) show ?thesis by blast
next
  case reorder_columns
  from reorder_columns_result(1) [OF this] set_positions [OF assms(3)] show ?thesis by simp
next
  case alert
  with assms(3) show ?thesis by simp
qed

lemma reachable:
  assumes "watch_steps rnd py_str digests renderers fromiso reg db db'" "watch_ok db" "\<forall>c \<in> set (wd_columns db). P c"
  shows "\<forall>c \<in> set (wd_columns db'). P c"
  using assms(1)
proof (induction rule: rtranclp_induct)
  case (step d d')
  from stepped [OF step(2) watch_steps_ok [OF step(1) assms(2)] step(3)] show ?case .
qed (rule assms(3))

end

end
