(* ===== verification/Analysis_Demand.thy ===== *)
theory Analysis_Demand
  imports Column_Contract Requests
begin

text \<open>
  The calculation demand of a security (\<open>services/analysis_demand.py\<close>): the indicator requests of
  all columns of all watch tables that hold it and of all enabled alert rules on it, merged with the
  default requests. It is where watch tables, alert rules and the indicator pipeline meet.
\<close>

section \<open>Rows and their requests\<close>

text \<open>A row whose parameters are refused as invalid is skipped; any other exception ends the collection.\<close>

definition unless_invalid :: "'a result \<Rightarrow> 'a option result" where
  "unless_invalid r = (case r of Inl (ApiError c m s) \<Rightarrow> Ok None | Inl e \<Rightarrow> Raise e | Inr x \<Rightarrow> Ok (Some x))"

text \<open>The request of one row, for a state or for the indicator itself.\<close>

definition row_request :: "(real \<Rightarrow> real) \<Rightarrow> bool \<Rightarrow> string \<Rightarrow> pyval \<Rightarrow> indicator_request result" where
  "row_request rnd of_state t raw =
     emap (\<lambda>ps. \<lparr>ir_type = t, ir_parameters = ps\<rparr>)
       (if of_state then emap ir_parameters (state_indicator_request rnd t raw) else canonicalize_parameters rnd t raw True)"

definition no_demand :: "string option \<Rightarrow> bool" where
  "no_demand t \<longleftrightarrow> (case t of None \<Rightarrow> True | Some s \<Rightarrow> s = [] \<or> upper s = ''DIVIDEND_YIELD'')"

definition column_demand :: "(real \<Rightarrow> real) \<Rightarrow> table_column \<Rightarrow> indicator_request option result" where
  "column_demand rnd c =
     (if no_demand (tc_indicator_type c) then Ok None
      else unless_invalid (row_request rnd (tc_view_mode c = ''STATUS'') (the (tc_indicator_type c))
        (as_object (calculation_parameters (tc_parameters c)))))"

definition rule_parameters :: "pyval \<Rightarrow> pyval result" where
  "rule_parameters v = (case v of VDict d \<Rightarrow> Ok (VDict d)
     | _ \<Rightarrow> if py_falsy v then Ok (VDict []) else Raise (TypeError ''object is not a mapping''))"

definition rule_demand :: "(real \<Rightarrow> real) \<Rightarrow> stored_rule \<Rightarrow> indicator_request option result" where
  "rule_demand rnd r =
     (if no_demand (al_indicator_type r) then Ok None
      else ebind (rule_parameters (al_parameters r)) (\<lambda>raw.
        unless_invalid (row_request rnd (al_condition_type r = ''STATE'') (the (al_indicator_type r)) raw)))"

section \<open>Collecting\<close>

text \<open>The rows the two queries join to the symbols.\<close>

definition column_rows :: "watch_db \<Rightarrow> string list \<Rightarrow> (string \<times> table_column) list" where
  "column_rows db wanted = concat (map (\<lambda>(i, s). concat (map (\<lambda>w. map (Pair (ac_symbol s))
       (filter (\<lambda>c. tc_table_id c = ws_table_id w \<and> tc_indicator_type c \<noteq> None) (wd_columns db)))
     (filter (\<lambda>w. ws_security_id w = i) (wd_symbols db))))
   (filter (\<lambda>(i, s). ac_symbol s \<in> set wanted) (ad_securities (wd_shared db))))"

definition rule_rows :: "watch_db \<Rightarrow> string list \<Rightarrow> (string \<times> stored_rule) list" where
  "rule_rows db wanted = concat (map (\<lambda>(i, s). map (Pair (ac_symbol s))
     (filter (\<lambda>r. al_security_id r = i \<and> al_enabled r) (ad_rules (wd_shared db))))
   (filter (\<lambda>(i, s). ac_symbol s \<in> set wanted) (ad_securities (wd_shared db))))"

fun gather ::
  "('a \<Rightarrow> indicator_request option result) \<Rightarrow> (string \<times> 'a) list \<Rightarrow> (string, indicator_request list) dict \<Rightarrow>
     (string, indicator_request list) dict result"
where
  "gather f [] acc = Ok acc"
| "gather f ((s, x) # rows) acc = ebind (f x) (\<lambda>q. gather f rows (case q of
      None \<Rightarrow> acc
    | Some r \<Rightarrow> dict_set s (dict_get_or acc s [] @ [r]) acc))"

definition collect_indicator_requests ::
  "(real \<Rightarrow> real) \<Rightarrow> (string \<Rightarrow> (string, pyval) dict \<Rightarrow> string) \<Rightarrow> watch_db \<Rightarrow> string list \<Rightarrow>
     (string, indicator_request list) dict result"
where
  "collect_indicator_requests rnd digest db symbols =
     (let wanted = map (\<lambda>s. upper (strip s)) symbols in
      if wanted = [] then Ok []
      else
        ebind (gather (column_demand rnd) (column_rows db wanted) (fold (\<lambda>s. dict_set s []) wanted [])) (\<lambda>columns.
        ebind (gather (rule_demand rnd) (rule_rows db wanted) columns) (\<lambda>all.
        traverse (\<lambda>(s, rs). emap (Pair s) (merge_indicator_requests rnd digest (Some (map RawRequest rs)))) all)))"

section \<open>Gathering\<close>

definition held :: "(string, 'a list) dict \<Rightarrow> string \<Rightarrow> 'a list" where
  "held d s = dict_get_or d s []"

lemma held_set [simp]: "held (dict_set k v d) s = (if s = k then v else held d s)"
  by (simp add: held_def dict_get_or_def)

lemma gather_held:
  "gather f rows acc = Ok acc' \<Longrightarrow> q \<in> set (held acc s) \<or> (\<exists>x. (s, x) \<in> set rows \<and> f x = Ok (Some q)) \<Longrightarrow> q \<in> set (held acc' s)"
proof (induction f rows acc rule: gather.induct)
  case (2 f k x rows acc)
  then obtain r where r: "f x = Ok r" by auto
  let ?acc = "case r of None \<Rightarrow> acc | Some p \<Rightarrow> dict_set k (dict_get_or acc k [] @ [p]) acc"
  from 2(2) r have rest: "gather f rows ?acc = Ok acc'" by simp
  have "q \<in> set (held ?acc s) \<or> (\<exists>x. (s, x) \<in> set rows \<and> f x = Ok (Some q))"
    using 2(3) r by (auto simp: held_def [symmetric] split: option.splits)
  from 2(1) [OF r rest this] show ?case .
qed simp

lemma gather_source:
  "gather f rows acc = Ok acc' \<Longrightarrow> q \<in> set (held acc' s) \<Longrightarrow> q \<in> set (held acc s) \<or> (\<exists>x. (s, x) \<in> set rows \<and> f x = Ok (Some q))"
proof (induction f rows acc rule: gather.induct)
  case (2 f k x rows acc)
  then obtain r where r: "f x = Ok r" by auto
  let ?acc = "case r of None \<Rightarrow> acc | Some p \<Rightarrow> dict_set k (dict_get_or acc k [] @ [p]) acc"
  from 2(2) r have rest: "gather f rows ?acc = Ok acc'" by simp
  from 2(1) [OF r rest 2(3)] show ?case
    using r by (auto simp: held_def [symmetric] split: option.splits if_splits)
qed simp

lemma gather_keys: "gather f rows acc = Ok acc' \<Longrightarrow> set (dict_keys acc) \<subseteq> set (dict_keys acc')"
proof (induction f rows acc rule: gather.induct)
  case (2 f k x rows acc)
  then obtain r where r: "f x = Ok r" by auto
  let ?acc = "case r of None \<Rightarrow> acc | Some p \<Rightarrow> dict_set k (dict_get_or acc k [] @ [p]) acc"
  from 2(2) r have "gather f rows ?acc = Ok acc'" by simp
  from 2(1) [OF r this] show ?case by (auto simp: dict_set_keys simp del: set_map split: option.splits if_splits)
qed simp

lemma gather_total: "\<forall>x \<in> snd ` set rows. \<exists>q. f x = Ok q \<Longrightarrow> \<exists>acc'. gather f rows acc = Ok acc'"
proof (induction f rows acc rule: gather.induct)
  case (2 f k x rows acc)
  then obtain r where r: "f x = Ok r" by auto
  with 2(1) [OF r] 2(2) show ?case by simp
qed simp

lemma gather_distinct: "gather f rows acc = Ok acc' \<Longrightarrow> distinct (dict_keys acc) \<Longrightarrow> distinct (dict_keys acc')"
proof (induction f rows acc rule: gather.induct)
  case (2 f k x rows acc)
  then obtain r where r: "f x = Ok r" by auto
  let ?acc = "case r of None \<Rightarrow> acc | Some p \<Rightarrow> dict_set k (dict_get_or acc k [] @ [p]) acc"
  from 2(2) r have "gather f rows ?acc = Ok acc'" by simp
  from 2(1) [OF r this] 2(3) show ?case by (auto simp: dict_set_distinct split: option.splits)
qed simp

section \<open>Stored parameters stay calculable\<close>

lemma no_field_name:
  assumes "name_ok t k" "lower (strip k) = ''field''"
  shows "k = ''field''"
  using assms by (simp add: name_ok_def parameter_name_def)

lemma known_names_no_field: "known_type t \<Longrightarrow> ''field'' \<notin> set (the (dict_get INDICATOR_PARAMETER_KEYS t))"
  by (auto simp: INDICATOR_PARAMETER_KEYS_def split: if_splits)

lemma unknown_base: "\<not> known_type t \<Longrightarrow> base_of t fill = []"
proof -
  assume "\<not> known_type t"
  then have "t \<notin> set (dict_keys DEFAULT_PARAMETER_MAP)" unfolding default_keys by (simp add: map_of_eq_None_iff)
  then have "dict_get DEFAULT_PARAMETER_MAP t = None" by (simp add: map_of_eq_None_iff)
  then show ?thesis by (simp add: base_of_def dict_get_or_def)
qed

lemma calculation_parameters_id: "(\<And>k. k \<in> set (dict_keys c) \<Longrightarrow> lower (strip k) \<noteq> ''field'') \<Longrightarrow> calculation_parameters c = c"
  unfolding calculation_parameters_def by (rule filter_True) force

text \<open>Canonical parameters without the field selector are still accepted.\<close>

lemma canonical_calculable:
  assumes "canonicalize_parameters rnd v ps True = Ok c" "normalize_indicator_type v = Ok t"
  shows "\<exists>c'. canonicalize_parameters rnd t (as_object (calculation_parameters c)) fill = Ok c'"
proof -
  from assms(1) obtain raw where raw: "names_ok t raw" "allowed_names t raw"
    and ma: "t = ''MA'' \<Longrightarrow> canonicalize_ma raw True = Ok c"
    and other: "t \<noteq> ''MA'' \<Longrightarrow> \<exists>n. normalize_into rnd (known_type t) raw (base_of t True) = Ok n \<and>
       (t = ''MACD'' \<longrightarrow> macd_order_ok n) \<and> c = sorted_dict n"
    using assms(2) by (elim canonicalize_ok) (metis Inr_inject)
  note t = normalize_type_idem [OF assms(2)]
  note again = canonicalize_again [OF assms(1) _ assms(2), of fill]
  show ?thesis
  proof (cases "t = ''MA''")
    case True
    have "ma_canonical c" using canonicalize_ma_ok [OF ma [OF True]] by simp
    from ma_canonical_names [OF this] have "name_ok ''MA'' k \<and> k \<in> {''period'', ''periods''}" if "k \<in> set (dict_keys c)" for k
      using that by (auto simp: names_ok_def allowed_names_def INDICATOR_PARAMETER_KEYS_def)
    then have "calculation_parameters c = c" by (intro calculation_parameters_id) (use no_field_name in fastforce)
    with again show ?thesis by auto
  next
    case False
    from other [OF False] obtain n where n: "normalize_into rnd (known_type t) raw (base_of t True) = Ok n" "c = sorted_dict n" by blast
    note base = base_of_ok [OF False, of True rnd]
    have ok: "names_ok t n" "values_ok rnd (known_type t) n" "set (dict_keys n) = set (dict_keys (base_of t True)) \<union> set (dict_keys raw)"
      using normalize_into_ok [OF n(1) raw(1)] base by blast+
    have c: "names_ok t c" "values_ok rnd (known_type t) c" "distinct (dict_keys c)" "set (dict_keys c) = set (dict_keys n)"
      using ok(1,2) sorted_dict_subset [of _ n] by (simp_all add: n(2) names_ok_def values_ok_def del: set_map)
    show ?thesis
    proof (cases "known_type t")
      case True
      then obtain ks where ks: "dict_get INDICATOR_PARAMETER_KEYS t = Some ks" by blast
      with raw(2) base have "set (dict_keys raw) \<subseteq> set ks" "set (dict_keys (base_of t True)) \<subseteq> set ks" by (simp_all add: allowed_names_def)
      then have "set (dict_keys c) \<subseteq> set (the (dict_get INDICATOR_PARAMETER_KEYS t))" using ks ok(3) c(4) by simp
      with known_names_no_field [OF True] have "''field'' \<notin> set (dict_keys c)" by blast
      then have "calculation_parameters c = c"
        using c(1) no_field_name by (intro calculation_parameters_id) (force simp: names_ok_def)
      with again show ?thesis by auto
    next
      case False
      let ?c = "calculation_parameters c"
      have "set ?c \<subseteq> set c" "distinct (dict_keys ?c)"
        using c(3) by (auto simp: calculation_parameters_def distinct_map_filter)
      then have calc: "names_ok t ?c" "values_ok rnd (known_type t) ?c" "distinct (dict_keys ?c)" "allowed_names t ?c"
        using c(1,2) False unfolding names_ok_def values_ok_def allowed_names_def by (fastforce split: option.splits)+
      have "distinct (dict_keys (base_of t fill))" by (simp add: unknown_base [OF False])
      from normalize_into_id [OF calc(2,3) this] obtain n' where "normalize_into rnd (known_type t) ?c (base_of t fill) = Ok n'" by blast
      moreover have "t \<noteq> ''MACD''" using False by (auto simp: INDICATOR_PARAMETER_KEYS_def)
      ultimately show ?thesis using \<open>t \<noteq> ''MA''\<close> by (simp add: canonicalize_object [OF t calc(1,4)])
    qed
  qed
qed

lemma ma_state_period_int:
  assumes "ma_state_period raw name fallback = Ok v"
  obtains n where "v = VInt n" "0 < n" "n \<le> MAX_INDICATOR_PERIOD"
  using assms unfolding ma_state_period_def Let_def by (auto split: if_splits elim: normalize_period_ok)

text \<open>State parameters of moving averages: two periods in order, stored under their long names.\<close>

lemma ma_state_canonical:
  assumes "canonicalize_state_parameters rnd v ps = Ok c" "normalize_indicator_type v = Ok ''MA''"
  obtains a b where "c = [(''short_period'', VInt a), (''long_period'', VInt b)]" "0 < a" "a < b" "b \<le> MAX_INDICATOR_PERIOD"
proof -
  from assms obtain raw sp lp where s: "ma_state_period raw ''short'' (DEFAULT_MA_PERIODS ! 0) = Ok sp"
      and l: "ma_state_period raw ''long'' (DEFAULT_MA_PERIODS ! 1) = Ok lp"
      and c: "\<not> period_of sp \<ge> period_of lp" "c = [(''short_period'', sp), (''long_period'', lp)]"
    by (auto simp: canonicalize_state_parameters_def split: if_splits)
  from s obtain a where "sp = VInt a" "0 < a" "a \<le> MAX_INDICATOR_PERIOD" by (rule ma_state_period_int)
  moreover from l obtain b where "lp = VInt b" "0 < b" "b \<le> MAX_INDICATOR_PERIOD" by (rule ma_state_period_int)
  ultimately show thesis using that [of a b] c by (simp add: period_of_def)
qed

lemma ma_state_again:
  assumes "0 < a" "a < b" "b \<le> MAX_INDICATOR_PERIOD" "normalize_indicator_type v = Ok ''MA''"
  shows "canonicalize_state_parameters rnd v (as_object [(''short_period'', VInt a), (''long_period'', VInt b)]) =
    Ok [(''short_period'', VInt a), (''long_period'', VInt b)]"
proof -
  have "normalize_period ''period'' (VInt a) = Ok (VInt a)" "normalize_period ''period'' (VInt b) = Ok (VInt b)"
    using assms(1-3) by (simp_all add: normalize_period_int)
  then show ?thesis using assms
    by (simp add: canonicalize_state_parameters_def as_object_def ma_state_period_def mapping_get_def period_of_def Let_def)
qed

lemma ma_state_calculation: "calculation_parameters [(''short_period'', x), (''long_period'', y)] = [(''short_period'', x), (''long_period'', y)]"
proof -
  have "lower (strip ''short_period'') \<noteq> ''field''" "lower (strip ''long_period'') \<noteq> ''field''" by code_simp+
  then show ?thesis by (simp add: calculation_parameters_def)
qed

text \<open>What a validated row stores is accepted again when the demand is collected.\<close>

lemma stored_value_request:
  assumes "canonicalize_parameters rnd v ps True = Ok c"
  shows "\<exists>q. row_request rnd False v (as_object (calculation_parameters c)) = Ok q" "\<exists>q. row_request rnd False v (as_object c) = Ok q"
proof -
  from assms obtain t where t: "normalize_indicator_type v = Ok t" by (elim canonicalize_ok)
  from canonical_calculable [OF assms t, of True] canonicalize_again [OF assms _ t, of True]
  show "\<exists>q. row_request rnd False v (as_object (calculation_parameters c)) = Ok q" "\<exists>q. row_request rnd False v (as_object c) = Ok q"
    by (auto simp: row_request_def canonicalize_type [OF t])
qed

lemma stored_state_request:
  assumes "canonicalize_state_parameters rnd v ps = Ok c"
  shows "\<exists>q. row_request rnd True v (as_object (calculation_parameters c)) = Ok q" "\<exists>q. row_request rnd True v (as_object c) = Ok q"
proof -
  from assms obtain t where t: "normalize_indicator_type v = Ok t" by (auto simp: canonicalize_state_parameters_def)
  have "(\<exists>q. row_request rnd True v (as_object (calculation_parameters c)) = Ok q) \<and> (\<exists>q. row_request rnd True v (as_object c) = Ok q)"
  proof (cases "t = ''MA''")
    case True
    with t have ma: "normalize_indicator_type v = Ok ''MA''" by simp
    from assms ma obtain a b where c: "c = [(''short_period'', VInt a), (''long_period'', VInt b)]" "0 < a" "a < b" "b \<le> MAX_INDICATOR_PERIOD"
      by (rule ma_state_canonical)
    from ma_state_again [OF c(2-4) ma] show ?thesis
      by (simp add: row_request_def state_indicator_request_def c(1) ma_state_calculation ma)
  next
    case False
    with assms t have "canonicalize_parameters rnd t ps True = Ok c" by (simp add: canonicalize_state_parameters_def)
    from canonical_calculable [OF this normalize_type_idem [OF t], of True] canonicalize_again [OF this _ normalize_type_idem [OF t], of True] False t
    show ?thesis by (auto simp: row_request_def state_indicator_request_def canonicalize_state_parameters_def)
  qed
  then show "\<exists>q. row_request rnd True v (as_object (calculation_parameters c)) = Ok q" "\<exists>q. row_request rnd True v (as_object c) = Ok q"
    by blast+
qed

text \<open>Every collected request has a canonical form, so merging cannot fail.\<close>

lemma row_request_canonical:
  assumes "row_request rnd of_state v raw = Ok q"
  shows "\<exists>n. canonical_request rnd q = Ok n"
proof (cases of_state)
  case False
  with assms obtain ps where ps: "canonicalize_parameters rnd v raw True = Ok ps" "q = \<lparr>ir_type = v, ir_parameters = ps\<rparr>"
    by (auto simp: row_request_def)
  then obtain t where t: "normalize_indicator_type v = Ok t" by (elim canonicalize_ok)
  from canonicalize_again [OF ps(1) _ t, of True] show ?thesis by (simp add: canonical_request_def ps(2) t)
next
  case True
  with assms obtain r where r: "state_indicator_request rnd v raw = Ok r" "q = \<lparr>ir_type = v, ir_parameters = ir_parameters r\<rparr>"
    by (auto simp: row_request_def)
  from r(1) obtain c t where c: "canonicalize_state_parameters rnd v raw = Ok c" and t: "normalize_indicator_type v = Ok t"
      and ps: "ir_parameters r = (if t = ''MA'' then [(''periods'', VList [the (dict_get c ''short_period''), the (dict_get c ''long_period'')])] else c)"
    by (auto simp: state_indicator_request_def)
  show ?thesis
  proof (cases "t = ''MA''")
    case True
    with t have ma: "normalize_indicator_type v = Ok ''MA''" by simp
    from c ma obtain a b where c': "c = [(''short_period'', VInt a), (''long_period'', VInt b)]" "0 < a" "a < b" "b \<le> MAX_INDICATOR_PERIOD"
      by (rule ma_state_canonical)
    have "ir_parameters r = ir_parameters (ma_request [a, b])" using ps True by (simp add: c'(1) ma_request_def)
    moreover have "periods_ok [a, b]" using c' by (simp add: periods_ok_def MAX_MA_PERIODS_def)
    ultimately show ?thesis using ma_request_ok [of "[a, b]" rnd] r(2) ma
      by (simp add: canonical_request_def request_ok_def ma_request_def)
  next
    case False
    with c t have "canonicalize_parameters rnd t raw True = Ok c" by (simp add: canonicalize_state_parameters_def)
    from canonicalize_again [OF this _ normalize_type_idem [OF t], of True] False t ps r(2) show ?thesis
      by (simp add: canonical_request_def)
  qed
qed

lemma unless_invalid_Some: "unless_invalid m = Ok (Some q) \<longleftrightarrow> m = Ok q"
  by (cases m) (auto simp: unless_invalid_def split: exn.splits)

lemma column_demand_canonical: "column_demand rnd c = Ok (Some q) \<Longrightarrow> \<exists>n. canonical_request rnd q = Ok n"
  by (auto simp: column_demand_def unless_invalid_Some split: if_splits intro: row_request_canonical)

lemma rule_demand_canonical: "rule_demand rnd r = Ok (Some q) \<Longrightarrow> \<exists>n. canonical_request rnd q = Ok n"
  by (auto simp: rule_demand_def unless_invalid_Some split: if_splits intro: row_request_canonical)

lemma request_key_ok: "request_ok rnd n \<Longrightarrow> \<exists>k. request_key rnd digest n = Ok k"
  unfolding request_ok_def using parameter_key_canonical by blast

lemma merge_all_total:
  assumes "\<forall>r \<in> set rs. \<exists>n. canonical_request rnd r = Ok n"
  shows "\<exists>st'. merge_all rnd digest rs st = Ok st'"
  using assms
proof (induction rs arbitrary: st)
  case (Cons r rs)
  obtain mas merged_others where st: "st = (mas, merged_others)" by (cases st)
  from Cons.prems obtain n where n: "canonical_request rnd r = Ok n" by auto
  with canonical_request_ok request_key_ok obtain k where "request_key rnd digest n = Ok k" by blast
  then obtain st1 where "merge_one rnd digest r st = Ok st1" unfolding st merge_one_eq n ebind_simps by (cases "ir_type n = ''MA''") auto
  with Cons show ?case by simp
qed simp

lemma sort_requests_total:
  assumes "\<forall>r \<in> set rs. request_ok rnd r"
  shows "\<exists>out. sort_requests rnd digest rs = Ok out"
proof -
  have "\<exists>keyed. traverse (\<lambda>r. emap (\<lambda>k. ((ir_type r, k), r)) (request_key rnd digest r)) rs = Ok keyed"
    using assms
  proof (induction rs)
    case (Cons r rs)
    then obtain k where "request_key rnd digest r = Ok k" using request_key_ok [of rnd r digest] by auto
    with Cons show ?case by auto
  qed simp
  then show ?thesis by (auto simp: sort_requests_def)
qed

lemma merge_values_ok:
  assumes "merge_inv rnd digest (mas, merged_others)" "r \<in> snd ` set mas \<union> snd ` set merged_others"
  shows "request_ok rnd r"
  using assms ma_request_ok by (fastforce simp: merge_inv_def)

lemma coerce_raw: "coerce_requests (map RawRequest rs) = Ok rs"
proof -
  have "traverse coerce_request (map RawRequest rs) = Ok (map (\<lambda>r. [r]) rs)" by (induction rs) simp_all
  then show ?thesis by (simp add: coerce_requests_def comp_def)
qed

lemma default_request_canonical: "\<forall>r \<in> set default_list. \<exists>n. canonical_request rnd r = Ok n"
proof
  fix r assume "r \<in> set default_list"
  with default_list_ok [of r rnd] have "request_ok rnd r" by auto
  then show "\<exists>n. canonical_request rnd r = Ok n" by (auto simp: request_ok_def canonical_request_def)
qed

lemma merge_total:
  assumes "\<forall>r \<in> set rs. \<exists>n. canonical_request rnd r = Ok n"
  shows "\<exists>merged. merge_indicator_requests rnd digest (Some (map RawRequest rs)) = Ok merged"
proof -
  have "\<forall>r \<in> set (default_list @ rs). \<exists>n. canonical_request rnd r = Ok n" using assms default_request_canonical by auto
  then obtain mas merged_others where m: "merge_all rnd digest (default_list @ rs) ([], []) = Ok (mas, merged_others)"
    using merge_all_total [of "default_list @ rs" rnd digest "([], [])"] by auto
  then have "merge_inv rnd digest (mas, merged_others)" by (rule merge_all_inv) (simp add: merge_inv_def)
  note ok = merge_values_ok [OF this]
  obtain ms os where "sort_requests rnd digest (map snd mas) = Ok ms" "sort_requests rnd digest (map snd merged_others) = Ok os"
    using sort_requests_total [of "map snd mas" rnd digest] sort_requests_total [of "map snd merged_others" rnd digest] ok by auto
  then show ?thesis by (simp add: merge_indicator_requests_def default_requests_eq coerce_raw m)
qed

section \<open>Stored rows are always served\<close>

definition served_column :: "(real \<Rightarrow> real) \<Rightarrow> table_column \<Rightarrow> bool" where
  "served_column rnd c \<longleftrightarrow> no_demand (tc_indicator_type c) \<or> (\<exists>q. column_demand rnd c = Ok (Some q))"

definition served_rule :: "(real \<Rightarrow> real) \<Rightarrow> stored_rule \<Rightarrow> bool" where
  "served_rule rnd r \<longleftrightarrow> no_demand (al_indicator_type r) \<or> (\<exists>q. rule_demand rnd r = Ok (Some q))"

definition served :: "(real \<Rightarrow> real) \<Rightarrow> watch_db \<Rightarrow> bool" where
  "served rnd db \<longleftrightarrow> (\<forall>c \<in> set (wd_columns db). served_column rnd c) \<and> (\<forall>r \<in> set (ad_rules (wd_shared db)). served_rule rnd r)"

lemma served_columnI:
  assumes "tc_indicator_type c = Some t" "\<exists>q. row_request rnd (tc_view_mode c = ''STATUS'') t (as_object (calculation_parameters (tc_parameters c))) = Ok q"
  shows "served_column rnd c"
  using assms by (auto simp: served_column_def column_demand_def unless_invalid_Some)

lemma served_column_cong:
  assumes "tc_indicator_type c' = tc_indicator_type c" "tc_parameters c' = tc_parameters c" "tc_view_mode c' = tc_view_mode c"
  shows "served_column rnd c' = served_column rnd c"
  by (simp add: served_column_def column_demand_def assms)

lemma served_position [simp]: "served_column rnd (c\<lparr>tc_position := p\<rparr>) = served_column rnd c"
  by (rule served_column_cong) simp_all

lemma calculation_field [simp]: "calculation_parameters (dict_set ''field'' v d) = calculation_parameters d"
proof -
  have "lower (strip ''field'') = ''field''" by code_simp
  then show ?thesis by (induction d) (auto simp: calculation_parameters_def)
qed

lemma indicator_parameters_served:
  assumes "normalize_indicator_parameters rnd t ps = Ok c" "normalize_indicator_type t = Ok t"
  shows "\<exists>q. row_request rnd False t (as_object (calculation_parameters c)) = Ok q"
proof -
  from assms(1) obtain d where d: "ps = VDict d" by (cases ps) (simp_all add: normalize_indicator_parameters_def)
  let ?found = "find (\<lambda>(k, v). is_field_key k) d"
  from assms obtain n where n: "canonicalize_parameters rnd t (VDict (filter (\<lambda>(k, v). \<not> is_field_key k) d)) True = Ok n"
      and r: "(case ?found of None \<Rightarrow> Ok n | Some (k, VNone) \<Rightarrow> Ok n
        | Some (k, v) \<Rightarrow> emap (\<lambda>f. dict_set ''field'' (VStr f) n) (normalize_field_selector v)) = Ok c"
    unfolding normalize_indicator_parameters_def d pyval.case ebind_eq_Inr_iff by auto
  have c: "c = n \<or> (\<exists>v. c = dict_set ''field'' v n)"
  proof (cases ?found)
    case None
    with r show ?thesis by simp
  next
    case (Some p)
    obtain k v where p: "p = (k, v)" by (cases p)
    from r Some p show ?thesis by (cases v) auto
  qed
  from c have "calculation_parameters c = calculation_parameters n" by auto
  with stored_value_request(1) [OF n] show ?thesis by simp
qed

lemma validated_served:
  assumes "validate_column_request rnd reg q = Ok (tc_column_type c, tc_indicator_type c, tc_parameters c, tc_view_mode c)"
  shows "served_column rnd c"
proof (cases "tc_indicator_type c")
  case None
  then show ?thesis by (simp add: served_column_def no_demand_def)
next
  case (Some t)
  show ?thesis
  proof (cases "tc_view_mode c = ''STATUS''")
    case True
    with assms Some obtain d where "canonicalize_state_parameters rnd t (cq_parameters q) = Ok (tc_parameters c)"
      by (auto simp: validate_column_request_def Let_def split: if_splits option.splits sum.splits)
    from stored_state_request(1) [OF this] True show ?thesis by (intro served_columnI [OF Some]) simp
  next
    case False
    with assms Some obtain i where "normalize_indicator_type i = Ok t" "normalize_indicator_parameters rnd t (cq_parameters q) = Ok (tc_parameters c)"
      by (auto simp: validate_column_request_def Let_def split: if_splits option.splits sum.splits)
    from indicator_parameters_served [OF this(2) normalize_type_idem [OF this(1)]] False show ?thesis
      by (intro served_columnI [OF Some]) simp
  qed
qed

lemma default_column_served:
  assumes "default_column rnd py_str settings k first entry = Ok c"
  shows "served_column rnd c"
proof -
  obtain p raw where e: "entry = (p, raw)" by (cases entry)
  from assms obtain t where t: "tc_indicator_type c = Some t" "tc_view_mode c = ''COMPOSITE''"
      "(if t = ''DIVIDEND_YIELD'' then Ok [] else canonicalize_parameters rnd t (get_none (default_column_parameters settings) t) True) = Ok (tc_parameters c)"
    by (auto simp: default_column_def e simp del: if_split)
  show ?thesis
  proof (cases "t = ''DIVIDEND_YIELD''")
    case True
    have "upper ''DIVIDEND_YIELD'' = ''DIVIDEND_YIELD''" by code_simp
    with True t(1) show ?thesis by (simp add: served_column_def no_demand_def)
  next
    case False
    with t(3) have "canonicalize_parameters rnd t (get_none (default_column_parameters settings) t) True = Ok (tc_parameters c)" by simp
    from stored_value_request(1) [OF this] t(2) show ?thesis by (intro served_columnI [OF t(1)]) simp
  qed
qed

lemma served_rule_cong:
  assumes "al_indicator_type r' = al_indicator_type r" "al_parameters r' = al_parameters r" "al_condition_type r' = al_condition_type r"
  shows "served_rule rnd r' = served_rule rnd r"
  by (simp add: served_rule_def rule_demand_def assms)

lemma condition_fields_served:
  assumes "make_condition_fields rnd digests reg kind state_id state_code indicator op threshold parameters field adjust = Ok f"
  shows "served_rule rnd (with_fields f r)"
proof (cases "map_option (\<lambda>t. upper (strip t)) kind = Some ''STATE''")
  case True
  with assms obtain adjustment where "state_condition_fields rnd digests reg state_id state_code parameters adjustment = Ok f"
    by (auto simp: make_condition_fields_def Let_def split: if_split_asm)
  then obtain t where f: "cf_condition_type f = ''STATE''" "cf_indicator_type f = Some t"
      "canonicalize_state_parameters rnd t parameters = Ok (cf_parameters f)"
    by (auto simp: state_condition_fields_def split: if_split_asm)
  from stored_state_request(2) [OF f(3)] show ?thesis
    by (auto simp: served_rule_def rule_demand_def with_fields_def f(1,2) rule_parameters_def as_object_def unless_invalid_Some)
next
  case False
  with assms obtain i o' th adjustment where "value_condition_fields rnd digests i o' th parameters field adjustment = Ok f"
    by (auto simp: make_condition_fields_def Let_def split: if_split_asm option.splits)
  then obtain t where f: "cf_condition_type f = ''VALUE''" "cf_indicator_type f = Some t"
      "t = ''DIVIDEND_YIELD'' \<or> canonicalize_parameters rnd t parameters True = Ok (cf_parameters f)"
    unfolding value_condition_fields_def by (auto split: if_split_asm)
  from f(3) show ?thesis
  proof
    assume t: "t = ''DIVIDEND_YIELD''"
    have "upper ''DIVIDEND_YIELD'' = ''DIVIDEND_YIELD''" by code_simp
    with t show ?thesis by (simp add: served_rule_def with_fields_def f(2) no_demand_def)
  next
    assume "canonicalize_parameters rnd t parameters True = Ok (cf_parameters f)"
    from stored_value_request(2) [OF this] show ?thesis
      by (auto simp: served_rule_def rule_demand_def with_fields_def f(1,2) rule_parameters_def as_object_def unless_invalid_Some)
  qed
qed

lemma replaced_served:
  "\<forall>q \<in> set rs. served_rule rnd q \<Longrightarrow> served_rule rnd r \<Longrightarrow> \<forall>q \<in> set (replaced r rs). served_rule rnd q"
  by (auto simp: replaced_def)

lemma create_rule_served:
  assumes "create_rule rnd digests reg u p db = Ok (db', r)"
  shows "served_rule rnd r"
proof -
  from assms obtain f r0 where f: "make_condition_fields rnd digests reg (Some (rp_condition_type p)) (rp_state_id p) (rp_state_code p) (rp_indicator p)
       (rp_operator p) (rp_threshold p) (rp_parameters p) (rp_field p) (rp_adjust_type p) = Ok f" and r: "r = with_fields f r0"
    by (auto simp: create_rule_def Let_def split: if_split_asm)
  from condition_fields_served [OF f] r show ?thesis by simp
qed

lemma update_rule_served:
  assumes "update_rule rnd digests reg u k v db = Ok (db', r')"
  shows "served_rule rnd r'"
proof -
  from assms obtain r where r: "find_rule db k (Some u) = Some r" by (auto simp: update_rule_def split: option.splits)
  obtain si sc where fields: "state_fields v r = (si, sc)" by (cases "state_fields v r")
  from assms r obtain f r0 where f: "make_condition_fields rnd digests reg (sent (up_condition_type v) (Some (al_condition_type r))) si sc
          (sent (up_indicator v) (al_indicator_type r)) (sent (up_operator v) (al_operator r)) (sent (up_threshold v) (al_threshold r))
          (sent (up_parameters v) (al_parameters r)) (sent (up_field v) (al_field r)) (sent (up_adjust_type v) (Some (al_adjust_type r))) = Ok f"
      and r': "r' = versioned_rule r (with_fields f r0)"
    by (simp add: update_rule_def fields Let_def) blast
  have "served_rule rnd r' = served_rule rnd (with_fields f r0)" unfolding r' by (rule served_rule_cong) (simp_all add: versioned_rule_def)
  with condition_fields_served [OF f] show ?thesis by simp
qed

lemma alert_step_served:
  assumes "alert_step rnd digests renderers fromiso reg scheduled db db'" "\<forall>r \<in> set (ad_rules db). served_rule rnd r"
  shows "\<forall>r \<in> set (ad_rules db'). served_rule rnd r"
  using assms(1)
proof cases
  case (create u p r)
  with assms(2) create_rule_outcome(1) [OF create] create_rule_served [OF create] show ?thesis by auto
next
  case (update u k v r)
  from update obtain q where "find_rule db k (Some u) = Some q" by (auto simp: update_rule_def split: option.splits)
  from update_rule_outcome(1) [OF update this] replaced_served [OF assms(2) update_rule_served [OF update]] show ?thesis by simp
next
  case (delete u k)
  then have "set (ad_rules db') \<subseteq> set (ad_rules db)" by (auto simp: delete_rule_def split: option.splits)
  with assms(2) show ?thesis by blast
next
  case (evaluate od view now k)
  show ?thesis
  proof (cases rule: evaluate_rule_outcome [of rnd digests renderers fromiso reg view now od k db])
    case none
    with evaluate(1) assms(2) show ?thesis by simp
  next
    case (grown r st rows)
    have "served_rule rnd (ru_rule st) = served_rule rnd r"
      by (rule served_rule_cong) (subst evaluatedD(3) [OF grown(5)], simp)+
    with grown(1) assms(2) have "served_rule rnd (ru_rule st)" by blast
    from replaced_served [OF assms(2) this] show ?thesis unfolding evaluate(1) grown(4) by simp
  qed
qed

text \<open>Every transaction keeps the rows served: the columns by their validation, the rules by theirs.\<close>

interpretation served_columns: column_property rnd "served_column rnd" for rnd
  by unfold_locales (auto intro: validated_served default_column_served)

lemma watch_step_served:
  assumes "watch_step rnd py_str digests renderers fromiso reg db db'" "watch_ok db" "served rnd db"
  shows "served rnd db'"
proof -
  from assms(3) have old: "\<forall>c \<in> set (wd_columns db). served_column rnd c" "\<forall>r \<in> set (ad_rules (wd_shared db)). served_rule rnd r"
    by (simp_all add: served_def)
  from served_columns.stepped [OF assms(1,2) old(1)] have "\<forall>c \<in> set (wd_columns db'). served_column rnd c" .
  moreover have "\<forall>r \<in> set (ad_rules (wd_shared db')). served_rule rnd r"
    using assms(1)
  proof (cases rule: watch_step_rows)
    case 1
    with old(2) show ?thesis by (simp add: alert_rows_def)
  next
    case (2 a)
    from alert_step_served [OF 2(1)] old(2) show ?thesis by (simp add: 2(2) account_def)
  qed
  ultimately show ?thesis by (simp add: served_def)
qed

lemma watch_steps_served:
  assumes "watch_steps rnd py_str digests renderers fromiso reg db db'" "watch_ok db" "served rnd db"
  shows "served rnd db'"
  using assms(1)
proof (induction rule: rtranclp_induct)
  case (step d d')
  from watch_step_served [OF step(2) watch_steps_ok [OF step(1) assms(2)] step(3)] show ?case .
qed (rule assms(3))

section \<open>The demand is total and complete\<close>

lemma served_demand: "served_column rnd c \<Longrightarrow> \<exists>q. column_demand rnd c = Ok q"
  by (auto simp: served_column_def column_demand_def)

lemma served_rule_demand: "served_rule rnd r \<Longrightarrow> \<exists>q. rule_demand rnd r = Ok q"
  by (auto simp: served_rule_def rule_demand_def)

lemma initial_keys: "distinct (dict_keys d) \<Longrightarrow> distinct (dict_keys (fold (\<lambda>s. dict_set s []) wanted d)) \<and>
    set (dict_keys (fold (\<lambda>s. dict_set s []) wanted d)) = set wanted \<union> set (dict_keys d)"
proof (induction wanted arbitrary: d)
  case (Cons s wanted)
  have "distinct (dict_keys (dict_set s [] d))" "set (dict_keys (dict_set s [] d)) = insert s (set (dict_keys d))"
    using Cons.prems dict_set_distinct by (auto simp: dict_set_keys simp del: set_map)
  with Cons.IH [of "dict_set s [] d"] show ?case by auto
qed simp

lemma initial_held: "(\<And>k. held d k = []) \<Longrightarrow> held (fold (\<lambda>s. dict_set s []) wanted d) k = []"
  by (induction wanted arbitrary: d) simp_all

lemma traverse_total: "\<forall>x \<in> set xs. \<exists>y. f x = Ok y \<Longrightarrow> \<exists>ys. traverse f xs = Ok ys"
  by (induction xs) auto

lemma gather_sources:
  assumes "gather f rows acc = Ok acc'" "set (map fst rows) \<subseteq> set (dict_keys acc)"
  shows "set (dict_keys acc') = set (dict_keys acc)"
  using assms
proof (induction f rows acc rule: gather.induct)
  case (2 f k x rows acc)
  then obtain r where r: "f x = Ok r" by auto
  let ?acc = "case r of None \<Rightarrow> acc | Some p \<Rightarrow> dict_set k (dict_get_or acc k [] @ [p]) acc"
  have keys: "set (dict_keys ?acc) = set (dict_keys acc)"
    using 2(3) by (auto simp: dict_set_keys simp del: set_map split: option.splits)
  from 2(2) r have "gather f rows ?acc = Ok acc'" by simp
  from 2(1) [OF r this] 2(3) keys show ?case by simp
qed simp

lemma rows_wanted:
  "(s, c) \<in> set (column_rows db wanted) \<Longrightarrow> s \<in> set wanted \<and> c \<in> set (wd_columns db)"
  "(s, r) \<in> set (rule_rows db wanted) \<Longrightarrow> s \<in> set wanted \<and> r \<in> set (ad_rules (wd_shared db))"
  by (auto simp: column_rows_def rule_rows_def)

text \<open>The requests that stored rows and the defaults ask for, in canonical form.\<close>

definition stored_requests :: "(real \<Rightarrow> real) \<Rightarrow> watch_db \<Rightarrow> indicator_request set" where
  "stored_requests rnd db = {q. q \<in> set default_list \<or> (\<exists>c \<in> set (wd_columns db). column_demand rnd c = Ok (Some q)) \<or>
     (\<exists>r \<in> set (ad_rules (wd_shared db)). rule_demand rnd r = Ok (Some q))}"

definition wanted_variants :: "(real \<Rightarrow> real) \<Rightarrow> watch_db \<Rightarrow> indicator_request set" where
  "wanted_variants rnd db = {n. \<exists>q \<in> stored_requests rnd db. canonical_request rnd q = Ok n}"

lemma gathered:
  assumes "served rnd db" "wanted = map (\<lambda>s. upper (strip s)) symbols"
  obtains all where
    "ebind (gather (column_demand rnd) (column_rows db wanted) (fold (\<lambda>s. dict_set s []) wanted []))
       (gather (rule_demand rnd) (rule_rows db wanted)) = Ok all"
    "distinct (dict_keys all)" "set (dict_keys all) = set wanted" "\<forall>s. set (held all s) \<subseteq> stored_requests rnd db"
    "\<forall>s c q. (s, c) \<in> set (column_rows db wanted) \<longrightarrow> column_demand rnd c = Ok (Some q) \<longrightarrow> q \<in> set (held all s)"
    "\<forall>s r q. (s, r) \<in> set (rule_rows db wanted) \<longrightarrow> rule_demand rnd r = Ok (Some q) \<longrightarrow> q \<in> set (held all s)"
proof -
  let ?init = "fold (\<lambda>s. dict_set s []) wanted [] :: (string, indicator_request list) dict"
  have init: "distinct (dict_keys ?init)" "set (dict_keys ?init) = set wanted" "held ?init s = []" for s
    using initial_keys [of "[] :: (string, indicator_request list) dict" wanted] initial_held [of "[]" wanted]
    by (simp_all add: held_def dict_get_or_def)
  have "\<forall>c \<in> snd ` set (column_rows db wanted). \<exists>q. column_demand rnd c = Ok q"
    using assms(1) rows_wanted(1) served_demand by (fastforce simp: served_def)
  then obtain cs where cs: "gather (column_demand rnd) (column_rows db wanted) ?init = Ok cs" using gather_total by blast
  have "\<forall>r \<in> snd ` set (rule_rows db wanted). \<exists>q. rule_demand rnd r = Ok q"
    using assms(1) rows_wanted(2) served_rule_demand by (fastforce simp: served_def)
  then obtain all where all: "gather (rule_demand rnd) (rule_rows db wanted) cs = Ok all" using gather_total by blast
  have k1: "set (dict_keys cs) = set wanted"
    using gather_sources [OF cs] rows_wanted(1) init(2) by fastforce
  have k2: "set (dict_keys all) = set wanted"
    using gather_sources [OF all] rows_wanted(2) k1 by fastforce
  show thesis
  proof (rule that [of all])
    show "distinct (dict_keys all)" by (rule gather_distinct [OF all gather_distinct [OF cs init(1)]])
    show "\<forall>s. set (held all s) \<subseteq> stored_requests rnd db"
    proof (intro allI subsetI)
      fix s q assume "q \<in> set (held all s)"
      with gather_source [OF all] gather_source [OF cs] init(3) rows_wanted show "q \<in> stored_requests rnd db"
        unfolding stored_requests_def by fastforce
    qed
    show "\<forall>s c q. (s, c) \<in> set (column_rows db wanted) \<longrightarrow> column_demand rnd c = Ok (Some q) \<longrightarrow> q \<in> set (held all s)"
      using gather_held [OF all] gather_held [OF cs] by blast
    show "\<forall>s r q. (s, r) \<in> set (rule_rows db wanted) \<longrightarrow> rule_demand rnd r = Ok (Some q) \<longrightarrow> q \<in> set (held all s)"
      using gather_held [OF all] by blast
    show "set (dict_keys all) = set wanted" by (rule k2)
  qed (simp_all add: cs all)
qed

lemma collected:
  assumes "served rnd db"
  obtains demand all where "collect_indicator_requests rnd digest db symbols = Ok demand"
    "set (dict_keys demand) = set (map (\<lambda>s. upper (strip s)) symbols)" "\<forall>s. set (held all s) \<subseteq> stored_requests rnd db"
    "\<forall>s ms. dict_get demand s = Some ms \<longrightarrow> merge_indicator_requests rnd digest (Some (map RawRequest (held all s))) = Ok ms"
    "\<forall>s c q. (s, c) \<in> set (column_rows db (map (\<lambda>s. upper (strip s)) symbols)) \<longrightarrow> column_demand rnd c = Ok (Some q) \<longrightarrow> q \<in> set (held all s)"
    "\<forall>s r q. (s, r) \<in> set (rule_rows db (map (\<lambda>s. upper (strip s)) symbols)) \<longrightarrow> rule_demand rnd r = Ok (Some q) \<longrightarrow> q \<in> set (held all s)"
proof -
  define wanted where "wanted = map (\<lambda>s. upper (strip s)) symbols"
  let ?merge = "\<lambda>(s, rs). emap (Pair s) (merge_indicator_requests rnd digest (Some (map RawRequest rs)))"
  obtain all where g: "ebind (gather (column_demand rnd) (column_rows db wanted) (fold (\<lambda>s. dict_set s []) wanted [])) (gather (rule_demand rnd) (rule_rows db wanted)) = Ok all"
      and keys: "distinct (dict_keys all)" "set (dict_keys all) = set wanted" and source: "\<forall>s. set (held all s) \<subseteq> stored_requests rnd db"
      and cols: "\<forall>s c q. (s, c) \<in> set (column_rows db wanted) \<longrightarrow> column_demand rnd c = Ok (Some q) \<longrightarrow> q \<in> set (held all s)"
      and rules: "\<forall>s r q. (s, r) \<in> set (rule_rows db wanted) \<longrightarrow> rule_demand rnd r = Ok (Some q) \<longrightarrow> q \<in> set (held all s)"
    by (rule gathered [OF assms wanted_def])
  have entry: "rs = held all s" if "(s, rs) \<in> set all" for s rs using that keys(1) by (simp add: held_def dict_get_or_def)
  have canonical: "\<exists>n. canonical_request rnd q = Ok n" if "q \<in> stored_requests rnd db" for q
    using that default_request_canonical column_demand_canonical rule_demand_canonical by (auto simp: stored_requests_def)
  have "\<forall>x \<in> set all. \<exists>y. ?merge x = Ok y"
  proof
    fix x assume x: "x \<in> set all"
    obtain s rs where p: "x = (s, rs)" by (cases x)
    with x have "rs = held all s" using entry by simp
    with source canonical have "\<forall>q \<in> set rs. \<exists>n. canonical_request rnd q = Ok n" by blast
    from merge_total [OF this, of digest] show "\<exists>y. ?merge x = Ok y" by (auto simp: p)
  qed
  from traverse_total [OF this] obtain demand where t: "traverse ?merge all = Ok demand" by blast
  have same: "map fst demand = map fst all"
  proof (rule nth_equalityI)
    fix i assume "i < length (map fst demand)"
    with traverse_length [OF t] have i: "i < length all" by simp
    from traverse_nth [OF t i] i traverse_length [OF t] show "map fst demand ! i = map fst all ! i" by (cases "all ! i") auto
  qed (simp add: traverse_length [OF t])
  show thesis
  proof (rule that [of demand all])
    show "collect_indicator_requests rnd digest db symbols = Ok demand"
    proof (cases "wanted = []")
      case True
      with keys(2) have "all = []" by simp
      with t True show ?thesis by (simp add: collect_indicator_requests_def wanted_def)
    next
      case False
      then show ?thesis using g t by (auto simp: collect_indicator_requests_def wanted_def [symmetric] Let_def)
    qed
    show "set (dict_keys demand) = set (map (\<lambda>s. upper (strip s)) symbols)"
      unfolding same keys(2) wanted_def ..
    show "\<forall>s. set (held all s) \<subseteq> stored_requests rnd db" by (rule source)
    show "\<forall>s ms. dict_get demand s = Some ms \<longrightarrow> merge_indicator_requests rnd digest (Some (map RawRequest (held all s))) = Ok ms"
    proof (intro allI impI)
      fix s ms assume "dict_get demand s = Some ms"
      from map_of_SomeD [OF this] traverse_source [OF t] obtain x where x: "x \<in> set all" "?merge x = Ok (s, ms)" by blast
      obtain s' rs where p: "x = (s', rs)" by (cases x)
      with x entry have "rs = held all s'" by simp
      with x(2) p show "merge_indicator_requests rnd digest (Some (map RawRequest (held all s))) = Ok ms" by auto
    qed
  qed (use cols rules in \<open>simp_all add: wanted_def\<close>)
qed

text \<open>Everything gathered for a symbol is in its merged demand.\<close>

lemma collected_complete:
  assumes "served rnd db" "collect_indicator_requests rnd digest db symbols = Ok demand" "collision_free digest (wanted_variants rnd db)"
    "s \<in> set (map (\<lambda>s. upper (strip s)) symbols)"
  shows "\<exists>ms. dict_get demand s = Some ms \<and>
    (\<forall>c q. (s, c) \<in> set (column_rows db (map (\<lambda>s. upper (strip s)) symbols)) \<longrightarrow> column_demand rnd c = Ok (Some q) \<longrightarrow>
      (\<exists>n \<in> set ms. canonical_request rnd q = Ok n)) \<and>
    (\<forall>r q. (s, r) \<in> set (rule_rows db (map (\<lambda>s. upper (strip s)) symbols)) \<longrightarrow> rule_demand rnd r = Ok (Some q) \<longrightarrow>
      (\<exists>n \<in> set ms. canonical_request rnd q = Ok n))"
proof -
  let ?wanted = "map (\<lambda>s. upper (strip s)) symbols"
  obtain demand' all where d: "collect_indicator_requests rnd digest db symbols = Ok demand'"
      and keys: "set (dict_keys demand') = set ?wanted" and source: "\<forall>s. set (held all s) \<subseteq> stored_requests rnd db"
      and merged: "\<forall>s ms. dict_get demand' s = Some ms \<longrightarrow> merge_indicator_requests rnd digest (Some (map RawRequest (held all s))) = Ok ms"
      and cols: "\<forall>s c q. (s, c) \<in> set (column_rows db ?wanted) \<longrightarrow> column_demand rnd c = Ok (Some q) \<longrightarrow> q \<in> set (held all s)"
      and rules: "\<forall>s r q. (s, r) \<in> set (rule_rows db ?wanted) \<longrightarrow> rule_demand rnd r = Ok (Some q) \<longrightarrow> q \<in> set (held all s)"
    by (rule collected [OF assms(1)])
  from d assms(2) have same: "demand' = demand" by simp
  with keys assms(4) have "s \<in> set (dict_keys demand)" by simp
  then obtain ms where ms: "dict_get demand s = Some ms" by (cases "dict_get demand s") (auto simp: map_of_eq_None_iff)
  with merged same have m: "merge_indicator_requests rnd digest (Some (map RawRequest (held all s))) = Ok ms" by blast
  have "canonical_set rnd (default_list @ held all s) \<subseteq> wanted_variants rnd db"
    using source by (fastforce simp: canonical_set_def wanted_variants_def stored_requests_def)
  with assms(3) have free: "collision_free digest (canonical_set rnd (default_list @ held all s))"
    unfolding collision_free_def by blast
  have extra: "(case Some (map RawRequest (held all s)) of None \<Rightarrow> Ok [] | Some rs \<Rightarrow> coerce_requests rs) = Ok (held all s)"
    by (simp add: coerce_raw)
  have "\<exists>n \<in> set ms. canonical_request rnd q = Ok n" if "q \<in> set (held all s)" for q
    using merge_requests_complete [OF m default_requests_eq extra free] that by auto
  with ms cols rules show ?thesis by blast
qed

section \<open>Properties\<close>

text \<open>
  C16: collecting the demand never fails on data the application stored: after any sequence of
  operations on watch tables and alert rules it returns an entry for exactly the given symbols, and
  no column or rule is skipped as invalid.
\<close>

theorem demand_never_fails:
  assumes "watch_ok db" "served rnd db" "watch_steps rnd py_str digests renderers fromiso reg db db'"
  shows "(\<exists>demand. collect_indicator_requests rnd digest db' symbols = Ok demand \<and>
      set (dict_keys demand) = set (map (\<lambda>s. upper (strip s)) symbols)) \<and>
    (\<forall>c \<in> set (wd_columns db'). no_demand (tc_indicator_type c) \<or> (\<exists>q. column_demand rnd c = Ok (Some q))) \<and>
    (\<forall>r \<in> set (ad_rules (wd_shared db')). no_demand (al_indicator_type r) \<or> (\<exists>q. rule_demand rnd r = Ok (Some q)))"
proof -
  from watch_steps_served [OF assms(3,1,2)] have served: "served rnd db'" .
  obtain demand all where "collect_indicator_requests rnd digest db' symbols = Ok demand"
      "set (dict_keys demand) = set (map (\<lambda>s. upper (strip s)) symbols)" by (rule collected [OF served])
  with served show ?thesis unfolding served_def served_column_def served_rule_def by blast
qed

text \<open>
  C15: nothing that is displayed or watched is left uncalculated: every indicator column of a table
  that holds a security, and every enabled indicator rule on it, has its canonical request in the
  demand of the security, after any sequence of operations, as long as the digest does not collide
  on the stored variants.
\<close>

theorem demand_complete:
  assumes "watch_ok db" "served rnd db" "watch_steps rnd py_str digests renderers fromiso reg db db'"
    and "collect_indicator_requests rnd digest db' symbols = Ok demand" "collision_free digest (wanted_variants rnd db')"
    and "(i, sec) \<in> set (ad_securities (wd_shared db'))" "ac_symbol sec \<in> set (map (\<lambda>s. upper (strip s)) symbols)"
  shows "(\<forall>c \<in> set (wd_columns db'). tc_table_id c \<in> ws_table_id ` {w \<in> set (wd_symbols db'). ws_security_id w = i} \<longrightarrow>
      no_demand (tc_indicator_type c) \<or>
      (\<exists>q n ms. column_demand rnd c = Ok (Some q) \<and> canonical_request rnd q = Ok n \<and> dict_get demand (ac_symbol sec) = Some ms \<and> n \<in> set ms)) \<and>
    (\<forall>r \<in> set (ad_rules (wd_shared db')). al_security_id r = i \<and> al_enabled r \<longrightarrow>
      no_demand (al_indicator_type r) \<or>
      (\<exists>q n ms. rule_demand rnd r = Ok (Some q) \<and> canonical_request rnd q = Ok n \<and> dict_get demand (ac_symbol sec) = Some ms \<and> n \<in> set ms))"
proof -
  let ?wanted = "map (\<lambda>s. upper (strip s)) symbols" and ?s = "ac_symbol sec"
  from watch_steps_served [OF assms(3,1,2)] have served: "served rnd db'" .
  from collected_complete [OF served assms(4,5,7)] obtain ms where ms: "dict_get demand ?s = Some ms"
      and cols: "\<forall>c q. (?s, c) \<in> set (column_rows db' ?wanted) \<longrightarrow> column_demand rnd c = Ok (Some q) \<longrightarrow> (\<exists>n \<in> set ms. canonical_request rnd q = Ok n)"
      and rules: "\<forall>r q. (?s, r) \<in> set (rule_rows db' ?wanted) \<longrightarrow> rule_demand rnd r = Ok (Some q) \<longrightarrow> (\<exists>n \<in> set ms. canonical_request rnd q = Ok n)"
    by blast
  show ?thesis
  proof (intro conjI ballI impI)
    fix c assume c: "c \<in> set (wd_columns db')" "tc_table_id c \<in> ws_table_id ` {w \<in> set (wd_symbols db'). ws_security_id w = i}"
    show "no_demand (tc_indicator_type c) \<or>
      (\<exists>q n ms. column_demand rnd c = Ok (Some q) \<and> canonical_request rnd q = Ok n \<and> dict_get demand ?s = Some ms \<and> n \<in> set ms)"
    proof (cases "no_demand (tc_indicator_type c)")
      case False
      then have "tc_indicator_type c \<noteq> None" by (cases "tc_indicator_type c") (simp_all add: no_demand_def)
      with c assms(6,7) have "(?s, c) \<in> set (column_rows db' ?wanted)" by (force simp: column_rows_def)
      moreover from served c(1) False obtain q where "column_demand rnd c = Ok (Some q)" by (auto simp: served_def served_column_def)
      ultimately show ?thesis using cols ms by blast
    qed simp
  next
    fix r assume r: "r \<in> set (ad_rules (wd_shared db'))" "al_security_id r = i \<and> al_enabled r"
    show "no_demand (al_indicator_type r) \<or>
      (\<exists>q n ms. rule_demand rnd r = Ok (Some q) \<and> canonical_request rnd q = Ok n \<and> dict_get demand ?s = Some ms \<and> n \<in> set ms)"
    proof (cases "no_demand (al_indicator_type r)")
      case False
      from r assms(6,7) have "(?s, r) \<in> set (rule_rows db' ?wanted)" by (force simp: rule_rows_def)
      moreover from served r(1) False obtain q where "rule_demand rnd r = Ok (Some q)" by (auto simp: served_def served_rule_def)
      ultimately show ?thesis using rules ms by blast
    qed simp
  qed
qed

text \<open>The concrete account asks only for default variants.\<close>

lemma demo_rsi: "canonicalize_parameters id ''RSI'' (as_object []) True = Ok [(''period'', VInt 14)]"
  by code_simp

lemma demo_kdj: "canonicalize_parameters id ''KDJ'' (as_object []) True = Ok [(''d_period'', VInt 3), (''k_period'', VInt 3), (''period'', VInt 9)]"
  by code_simp

lemma demo_types: "upper ''RSI'' = ''RSI''" "upper ''KDJ'' = ''KDJ''" "upper ''DIVIDEND_YIELD'' = ''DIVIDEND_YIELD''"
  by code_simp+

lemma demo_column_demand:
  "column_demand id (demo_column i p None) = Ok None"
  "column_demand id (demo_column i p (Some ''RSI'')) = Ok (Some \<lparr>ir_type = ''RSI'', ir_parameters = [(''period'', VInt 14)]\<rparr>)"
  "column_demand id (demo_column i p (Some ''KDJ'')) =
     Ok (Some \<lparr>ir_type = ''KDJ'', ir_parameters = [(''d_period'', VInt 3), (''k_period'', VInt 3), (''period'', VInt 9)]\<rparr>)"
  by (simp_all add: column_demand_def no_demand_def demo_column_def row_request_def demo_rsi demo_kdj demo_types
      calculation_parameters_def unless_invalid_def)

lemma demo_no_demand [simp]: "no_demand (tc_indicator_type (demo_column i p None))"
  by (simp add: no_demand_def demo_column_def)

lemma demo_served: "served id demo_watch"
  by (simp add: served_def demo_watch_def demo_db_def served_column_def demo_column_demand)

lemma demo_stored: "stored_requests id demo_final = set default_list"
proof -
  have "rule_demand id demo_rule = Ok None" by (simp add: rule_demand_def demo_rule_def no_demand_def demo_types)
  then show ?thesis
    by (auto simp: stored_requests_def demo_final_def demo_reordered_def demo_created_def demo_watch_def demo_column_demand default_list_def)
qed

lemma demo_free: "collision_free demo_sha (wanted_variants id demo_final)"
proof -
  have t: "ir_type n = ir_type r" if "canonical_request id r = Ok n" "r \<in> set default_list" for r n
    using that default_list_ok [OF that(2), of id]
    by (cases "ir_type r = ''MA''") (auto simp: canonical_request_def request_ok_def ma_request_def)
  have "distinct (map ir_type default_list)" by (simp add: default_list_def)
  then have "p = q" if "p \<in> set default_list" "q \<in> set default_list" "ir_type p = ir_type q" for p q
    using that by (auto simp: distinct_map inj_on_def)
  with t have "a = b" if "canonical_request id p = Ok a" "canonical_request id q = Ok b" "p \<in> set default_list" "q \<in> set default_list"
      "ir_type a = ir_type b" for p q a b
    using that by (metis Inr_inject)
  then show ?thesis unfolding collision_free_def wanted_variants_def demo_stored by blast
qed

theorem demand_never_fails_witness: "\<exists>demand. collect_indicator_requests id demo_sha demo_final ['' 600519''] = Ok demand"
  using demand_never_fails [OF demo_watch_ok demo_served demo_watch_steps, of demo_sha "['' 600519'']"] by blast

theorem demand_complete_witness:
  "\<exists>demand q n ms. collect_indicator_requests id demo_sha demo_final ['' 600519''] = Ok demand \<and> dict_get demand ''600519'' = Some ms \<and>
     column_demand id (demo_column 3 0 (Some ''KDJ'')) = Ok (Some q) \<and> canonical_request id q = Ok n \<and> n \<in> set ms"
proof -
  obtain demand where d: "collect_indicator_requests id demo_sha demo_final ['' 600519''] = Ok demand"
    by (rule collected [OF watch_steps_served [OF demo_watch_steps demo_watch_ok demo_served]])
  have s: "upper (strip '' 600519'') = ''600519''" by code_simp
  have sec: "(1, \<lparr>ac_symbol = ''600519'', ac_name = ''Moutai'', ac_status = ''ACTIVE''\<rparr>) \<in> set (ad_securities (wd_shared demo_final))"
    by (simp add: demo_final_def demo_reordered_def demo_created_def demo_db_def)
  from demand_complete [OF demo_watch_ok demo_served demo_watch_steps d demo_free sec]
  have "\<forall>c \<in> set (wd_columns demo_final). tc_table_id c \<in> ws_table_id ` {w \<in> set (wd_symbols demo_final). ws_security_id w = 1} \<longrightarrow>
      no_demand (tc_indicator_type c) \<or> (\<exists>q n ms. column_demand id c = Ok (Some q) \<and> canonical_request id q = Ok n \<and>
        dict_get demand ''600519'' = Some ms \<and> n \<in> set ms)" by (simp add: s)
  moreover have "demo_column 3 0 (Some ''KDJ'') \<in> set (wd_columns demo_final)" by (simp add: demo_final_def demo_reordered_def)
  moreover have "tc_table_id (demo_column 3 0 (Some ''KDJ'')) \<in> ws_table_id ` {w \<in> set (wd_symbols demo_final). ws_security_id w = 1}"
    by (simp add: demo_final_def demo_reordered_def demo_watch_def demo_column_def image_iff)
  moreover have "\<not> no_demand (tc_indicator_type (demo_column 3 0 (Some ''KDJ'')))"
    by (simp add: no_demand_def demo_column_def demo_types)
  ultimately show ?thesis using d by blast
qed

end
