(* ===== verification/Dividend_Yield.thy ===== *)
theory Dividend_Yield
  imports Trading_Calendar "HOL-Library.Product_Lexorder"
begin

text \<open>
  The trailing dividend yield (\<open>services/dividend_service.py\<close> and the reads it uses in
  \<open>repositories/security.py\<close>): the choice of the price, the twelve-month window, the sum of the cash
  dividends in it, for one security and for a batch.

  Dates are ordinals; an instant counts microseconds, in UTC, from the first moment of day 0, and
  Shanghai is eight hours ahead. Arithmetic on \<open>Decimal\<close> rounds with the function \<open>dec\<close>.
\<close>

section \<open>Dates\<close>

definition day_length :: int where "day_length = 86400000000"

definition utc_date :: "int \<Rightarrow> int" where "utc_date t = t div day_length"

definition shanghai_date :: "int \<Rightarrow> int" where "shanghai_date t = (t + 28800000000) div day_length"

definition midnight :: "int \<Rightarrow> int" where "midnight d = d * day_length"

text \<open>Year, month and day of an ordinal.\<close>

definition civil_year :: "int \<Rightarrow> int \<times> int" where
  "civil_year n = (let a = (n - 1) div 146097; r = (n - 1) mod 146097;
      b = min 3 (r div 36524); r = r - b * 36524; c = r div 1461; r = r mod 1461; e = min 3 (r div 365)
    in (400 * a + 100 * b + 4 * c + e + 1, r - e * 365))"

definition civil :: "int \<Rightarrow> int \<times> nat \<times> int" where
  "civil n = (case civil_year n of (y, yday) \<Rightarrow>
     let m = last (filter (\<lambda>m. days_before_month y m \<le> yday) [1..<13]) in (y, m, yday - days_before_month y m + 1))"

text \<open>\<open>calendar.monthrange(year, month)[1]\<close>.\<close>

definition month_length :: "int \<Rightarrow> nat \<Rightarrow> int" where
  "month_length y m = [31, 28, 31, 30, 31, 30, 31, 31, 30, 31, 30, 31] ! (m - 1) + (if m = 2 \<and> is_leap y then 1 else 0)"

text \<open>
  The code takes the date of the instant in its own zone; its callers pass instants normalized to
  UTC, so the window is given the UTC date (\<open>utc_date\<close>).
\<close>

definition ttm_window :: "int \<Rightarrow> int \<times> int" where
  "ttm_window e = (case civil e of (y, m, d) \<Rightarrow> (ordinal (y - 1) m (min d (month_length (y - 1) m)), e))"

section \<open>The yield of one security\<close>

record quote_row =
  qs_id :: int
  qs_security_id :: int
  qs_price :: fl
  qs_change :: "fl option"
  qs_change_percent :: "fl option"
  qs_timestamp :: int

record bar_row =
  br_id :: int
  br_security_id :: int
  br_trade_date :: int
  br_adjust_type :: string
  br_close :: fl

record dividend_event =
  de_id :: int
  de_security_id :: int
  de_date :: int
  de_amount :: fl

record yield_result =
  yr_dividend_total :: real
  yr_price :: real
  yr_dividend_yield :: real
  yr_as_of :: int
  yr_price_source :: string
  yr_window_start :: int
  yr_window_end :: int
  yr_event_count :: nat

text \<open>\<open>DividendYieldCalculationError\<close>: a code and a message.\<close>

type_synonym yield_error = "string \<times> string"

definition to_decimal :: "fl \<Rightarrow> string \<Rightarrow> yield_error + real" where
  "to_decimal v field = (case v of
      Fin r \<Rightarrow> Inr r
    | _ \<Rightarrow> Inl (if field = ''price'' then ''INVALID_PRICE'' else ''INVALID_DIVIDEND_DATA'', field @ '' must be finite.''))"

fun sum_events :: "(real \<Rightarrow> real) \<Rightarrow> int \<Rightarrow> int \<Rightarrow> dividend_event list \<Rightarrow> real \<times> nat \<Rightarrow> yield_error + (real \<times> nat)" where
  "sum_events dec lo hi [] acc = Inr acc"
| "sum_events dec lo hi (e # es) (t, n) =
     (if de_date e < lo \<or> de_date e > hi then sum_events dec lo hi es (t, n)
      else case to_decimal (de_amount e) ''cash_amount'' of
          Inl err \<Rightarrow> Inl err
        | Inr a \<Rightarrow> if a < 0 then Inl (''INVALID_DIVIDEND_DATA'', ''Cash dividend amounts must not be negative.'')
            else sum_events dec lo hi es (dec (t + a), n + 1))"

definition calculate_ttm_dividend_yield ::
  "(real \<Rightarrow> real) \<Rightarrow> dividend_event list \<Rightarrow> fl \<Rightarrow> int \<Rightarrow> string \<Rightarrow> yield_error + yield_result"
where
  "calculate_ttm_dividend_yield dec events price as_of price_source =
     (case to_decimal price ''price'' of
        Inl err \<Rightarrow> Inl err
      | Inr p \<Rightarrow>
          if p \<le> 0 then Inl (''INVALID_PRICE'', ''Price must be greater than zero to calculate yield.'')
          else case ttm_window (utc_date as_of) of (lo, hi) \<Rightarrow>
            (case sum_events dec lo hi events (0, 0) of
               Inl err \<Rightarrow> Inl err
             | Inr (t, n) \<Rightarrow> Inr \<lparr>yr_dividend_total = t, yr_price = p, yr_dividend_yield = dec (t / p), yr_as_of = as_of,
                 yr_price_source = price_source, yr_window_start = lo, yr_window_end = hi, yr_event_count = n\<rparr>))"

definition quote_is_at_least_as_fresh :: "int \<Rightarrow> bar_row option \<Rightarrow> bool" where
  "quote_is_at_least_as_fresh timestamp bar = (case bar of None \<Rightarrow> True | Some b \<Rightarrow> shanghai_date timestamp > br_trade_date b)"

section \<open>Reads\<close>

record market_rows =
  mr_quotes :: "quote_row list"
  mr_bars :: "bar_row list"
  mr_events :: "dividend_event list"

text \<open>The last row in the order of a key: \<open>ORDER BY \<dots> DESC LIMIT 1\<close>.\<close>

definition newest :: "('a \<Rightarrow> 'b :: linorder) \<Rightarrow> 'a list \<Rightarrow> 'a option" where
  "newest k rows = (case rows of [] \<Rightarrow> None | _ \<Rightarrow> Some (last (sort_key k rows)))"

definition quote_order :: "quote_row \<Rightarrow> int \<times> int" where "quote_order q = (qs_timestamp q, qs_id q)"
definition bar_order :: "bar_row \<Rightarrow> int \<times> int" where "bar_order b = (br_trade_date b, br_id b)"
definition event_order :: "dividend_event \<Rightarrow> int \<times> int" where "event_order e = (de_date e, de_id e)"

definition latest_quote :: "market_rows \<Rightarrow> int \<Rightarrow> quote_row option" where
  "latest_quote db i = newest quote_order (filter (\<lambda>q. qs_security_id q = i) (mr_quotes db))"

definition latest_daily_bar :: "market_rows \<Rightarrow> int \<Rightarrow> bar_row option" where
  "latest_daily_bar db i = newest bar_order (filter (\<lambda>b. br_security_id b = i \<and> br_adjust_type b = ''none'') (mr_bars db))"

text \<open>The rows a window function ranks first within their security.\<close>

definition ranked_first :: "('a \<Rightarrow> int) \<Rightarrow> ('a \<Rightarrow> 'b :: linorder) \<Rightarrow> 'a list \<Rightarrow> 'a list" where
  "ranked_first part k rows = filter (\<lambda>r. \<forall>q \<in> set rows. part q = part r \<longrightarrow> k q \<le> k r) rows"

definition unique_ids :: "int list \<Rightarrow> int list" where
  "unique_ids ids = rev (remdups (rev ids))"

definition latest_quotes_batch :: "market_rows \<Rightarrow> int list \<Rightarrow> (int, quote_row) dict" where
  "latest_quotes_batch db ids = map (\<lambda>q. (qs_security_id q, q))
     (ranked_first qs_security_id quote_order (filter (\<lambda>q. qs_security_id q \<in> set (unique_ids ids)) (mr_quotes db)))"

definition latest_daily_bars_batch :: "market_rows \<Rightarrow> int list \<Rightarrow> (int, bar_row) dict" where
  "latest_daily_bars_batch db ids = map (\<lambda>b. (br_security_id b, b))
     (ranked_first br_security_id bar_order (filter (\<lambda>b. br_security_id b \<in> set (unique_ids ids) \<and> br_adjust_type b = ''none'') (mr_bars db)))"

definition dividend_events :: "market_rows \<Rightarrow> int \<Rightarrow> int \<Rightarrow> int \<Rightarrow> dividend_event list" where
  "dividend_events db i lo hi = sort_key event_order
     (filter (\<lambda>e. de_security_id e = i \<and> lo \<le> de_date e \<and> de_date e \<le> hi) (mr_events db))"

definition dividend_events_batch :: "market_rows \<Rightarrow> int list \<Rightarrow> int \<Rightarrow> int \<Rightarrow> (int, dividend_event list) dict" where
  "dividend_events_batch db ids lo hi =
     (let rows = sort_key (\<lambda>e. (de_security_id e, event_order e))
        (filter (\<lambda>e. de_security_id e \<in> set (unique_ids ids) \<and> lo \<le> de_date e \<and> de_date e \<le> hi) (mr_events db))
      in map (\<lambda>i. (i, filter (\<lambda>e. de_security_id e = i) rows)) (unique_ids ids))"

section \<open>The service\<close>

definition price_not_found :: exn where
  "price_not_found = ApiError ''PRICE_NOT_FOUND'' ''No quote or daily close is available for this security.'' 404"

text \<open>The price, its instant and its source.\<close>

definition chosen_price :: "quote_row option \<Rightarrow> bar_row option \<Rightarrow> (fl \<times> int \<times> string) option" where
  "chosen_price quote bar =
     (if quote \<noteq> None \<and> quote_is_at_least_as_fresh (qs_timestamp (the quote)) bar
      then Some (qs_price (the quote), qs_timestamp (the quote), ''QUOTE'')
      else map_option (\<lambda>b. (br_close b, midnight (br_trade_date b), ''DAILY_BAR_CLOSE'')) bar)"

definition as_api_error :: "yield_error + 'a \<Rightarrow> 'a result" where
  "as_api_error r = (case r of Inl (code, message) \<Rightarrow> Raise (ApiError code message 422) | Inr x \<Rightarrow> Ok x)"

definition calculate_for_security :: "(real \<Rightarrow> real) \<Rightarrow> market_rows \<Rightarrow> int \<Rightarrow> yield_result result" where
  "calculate_for_security dec db i = (case chosen_price (latest_quote db i) (latest_daily_bar db i) of
      None \<Rightarrow> Raise price_not_found
    | Some (price, as_of, source) \<Rightarrow>
        (case ttm_window (utc_date as_of) of (lo, hi) \<Rightarrow>
           as_api_error (calculate_ttm_dividend_yield dec (dividend_events db i lo hi) price as_of source)))"

text \<open>
  The batch reads the rows for all securities, takes the events of the hull of all windows, and
  gives each security its result or its error.
\<close>

definition calculate_for_securities ::
  "(real \<Rightarrow> real) \<Rightarrow> market_rows \<Rightarrow> (int, quote_row) dict option \<Rightarrow> (int, bar_row) dict option \<Rightarrow> int list \<Rightarrow>
     (int, yield_result result) dict"
where
  "calculate_for_securities dec db quotes bars security_ids =
     (let ids = unique_ids security_ids;
          quote_rows = (case quotes of Some q \<Rightarrow> q | None \<Rightarrow> latest_quotes_batch db ids);
          bar_rows = (case bars of Some b \<Rightarrow> b | None \<Rightarrow> latest_daily_bars_batch db ids);
          chosen = map (\<lambda>i. (i, chosen_price (dict_get quote_rows i) (dict_get bar_rows i))) ids;
          missing = map (\<lambda>(i, c). (i, Raise price_not_found)) (filter (\<lambda>(i, c). c = None) chosen);
          priced = map (\<lambda>(i, c). (i, the c)) (filter (\<lambda>(i, c). c \<noteq> None) chosen)
      in if priced = [] then missing
      else
        let windows = map (\<lambda>(i, price, as_of, source). ttm_window (utc_date as_of)) priced;
            events = dividend_events_batch db (map fst priced) (Min (set (map fst windows))) (Max (set (map snd windows)))
        in missing @ map (\<lambda>(i, price, as_of, source). (i, as_api_error (calculate_ttm_dividend_yield dec
             (dict_get_or events i []) price as_of source))) priced)"

section \<open>The batch agrees with the single calculation\<close>

lemma newest_unique:
  assumes "r \<in> set rows" "\<And>q. q \<in> set rows \<Longrightarrow> k q \<le> k r" "inj_on k (set rows)"
  shows "newest k rows = Some r"
proof -
  let ?s = "sort_key k rows"
  have "rows \<noteq> []" using assms(1) by auto
  then have s: "?s \<noteq> []" "set ?s = set rows" by (simp_all flip: length_greater_0_conv)
  then have mem: "last ?s \<in> set rows" by (metis last_in_set)
  obtain j where j: "j < length ?s" "?s ! j = r" using assms(1) s(2) by (metis in_set_conv_nth)
  have "k (?s ! j) \<le> k (?s ! (length ?s - 1))"
    using sorted_nth_mono [OF sorted_sort_key [of k rows], of j "length ?s - 1"] j(1) by simp
  then have "k r \<le> k (last ?s)" using s(1) j(2) by (simp add: last_conv_nth)
  with assms(2) [OF mem] have "k (last ?s) = k r" by simp
  with assms(3) mem assms(1) have "last ?s = r" by (auto dest: inj_onD)
  with assms(1) show ?thesis by (auto simp: newest_def split: list.splits)
qed

lemma newest_max:
  assumes "newest k rows = Some r"
  shows "r \<in> set rows \<and> (\<forall>q \<in> set rows. k q \<le> k r)"
proof -
  let ?s = "sort_key k rows"
  from assms have r: "rows \<noteq> []" "r = last ?s" by (auto simp: newest_def split: list.splits)
  then have s: "?s \<noteq> []" by (metis length_0_conv length_sort)
  have "k q \<le> k r" if "q \<in> set rows" for q
  proof -
    from that obtain j where j: "j < length ?s" "?s ! j = q" by (metis in_set_conv_nth set_sort)
    have "k (?s ! j) \<le> k (?s ! (length ?s - 1))"
      using sorted_nth_mono [OF sorted_sort_key [of k rows], of j "length ?s - 1"] j(1) by simp
    then show ?thesis using s j(2) r(2) by (simp add: last_conv_nth)
  qed
  with s r(2) show ?thesis by (metis last_in_set set_sort)
qed

text \<open>Looking a security up in the rows ranked first gives its newest row.\<close>

lemma ranked_lookup:
  assumes "inj_on k (set rows)" "i \<in> I"
  shows "dict_get (map (\<lambda>r. (part r, r)) (ranked_first part k (filter (\<lambda>r. part r \<in> I) rows))) i = newest k (filter (\<lambda>r. part r = i) rows)"
    (is "dict_get ?ranked i = newest k ?own")
proof (cases "newest k ?own")
  case None
  then have "?own = []" by (simp add: newest_def split: list.splits)
  then have "i \<notin> fst ` set ?ranked" by (auto simp: ranked_first_def filter_empty_conv)
  then have "dict_get ?ranked i = None" by (rule map_of_eq_None_iff [THEN iffD2])
  with None show ?thesis by simp
next
  case (Some r)
  note r = newest_max [OF Some]
  have mem: "(i, r) \<in> set ?ranked" using r assms(2) by (auto simp: ranked_first_def)
  then obtain q where q: "dict_get ?ranked i = Some q" by (meson weak_map_of_SomeI)
  then have "q \<in> set rows" "part q = i" "\<forall>p \<in> set rows. part p = i \<longrightarrow> k p \<le> k q"
    using assms(2) by (auto simp: ranked_first_def dest!: map_of_SomeD)
  with r have "k q = k r" by (simp add: antisym)
  with assms(1) r \<open>q \<in> set rows\<close> have "q = r" by (auto dest: inj_onD)
  with q Some show ?thesis by simp
qed

lemma unique_ids_set [simp]: "set (unique_ids ids) = set ids" "distinct (unique_ids ids)"
  by (simp_all add: unique_ids_def)

lemma unique_ids_id: "distinct ids \<Longrightarrow> unique_ids ids = ids"
  by (simp add: unique_ids_def distinct_remdups_id)

lemma insort_same_part:
  "(\<forall>y \<in> set (x # ys). part y = i) \<Longrightarrow>
     insort_key (\<lambda>x. (part x :: int, k x)) x ys = insort_key (k :: 'a \<Rightarrow> 'b :: linorder) x ys"
  by (induction ys) auto

lemma sort_same_part:
  "(\<forall>x \<in> set xs. part x = i) \<Longrightarrow> sort_key (\<lambda>x. (part x :: int, k x)) xs = sort_key (k :: 'a \<Rightarrow> 'b :: linorder) xs"
proof (induction xs)
  case (Cons x xs)
  then have "insort_key (\<lambda>x. (part x, k x)) x (sort_key k xs) = insort_key k x (sort_key k xs)"
    by (intro insort_same_part [of _ _ _ i]) simp
  with Cons show ?case by simp
qed simp

text \<open>Events outside the window do not matter.\<close>

lemma sum_events_window: "sum_events dec lo hi es acc = sum_events dec lo hi (filter (\<lambda>e. lo \<le> de_date e \<and> de_date e \<le> hi) es) acc"
  by (induction dec lo hi es acc rule: sum_events.induct) (auto simp: not_less split: sum.splits)

lemma batch_events:
  assumes "i \<in> set ids" "lo' \<le> lo" "hi \<le> hi'"
  shows "sum_events dec lo hi (dict_get_or (dividend_events_batch db ids lo' hi') i []) acc = sum_events dec lo hi (dividend_events db i lo hi) acc"
proof -
  let ?in = "\<lambda>e. lo \<le> de_date e \<and> de_date e \<le> hi"
  let ?rows = "filter (\<lambda>e. de_security_id e \<in> set ids \<and> lo' \<le> de_date e \<and> de_date e \<le> hi') (mr_events db)"
  let ?batch = "filter (\<lambda>e. de_security_id e = i) (sort_key (\<lambda>e. (de_security_id e, event_order e)) ?rows)"
  have lookup: "dict_get (map (\<lambda>i. (i, f i)) is) i = (if i \<in> set is then Some (f i) else None)" for f :: "int \<Rightarrow> dividend_event list" and "is" i
    by (induction "is") auto
  have "dict_get_or (dividend_events_batch db ids lo' hi') i [] = ?batch"
    using assms(1) by (simp add: dividend_events_batch_def Let_def dict_get_or_def lookup)
  moreover have "filter ?in ?batch = filter ?in (dividend_events db i lo hi)"
  proof -
    have "filter ?in ?batch = sort_key (\<lambda>e. (de_security_id e, event_order e)) (filter ?in (filter (\<lambda>e. de_security_id e = i) ?rows))"
      by (simp add: filter_sort)
    also have "\<dots> = sort_key event_order (filter ?in (filter (\<lambda>e. de_security_id e = i) ?rows))" by (rule sort_same_part [of _ _ i]) simp
    also have "filter ?in (filter (\<lambda>e. de_security_id e = i) ?rows) = filter (\<lambda>e. de_security_id e = i \<and> ?in e) (mr_events db)"
      unfolding filter_filter using assms by (intro filter_cong) auto
    finally show ?thesis by (simp add: dividend_events_def filter_sort)
  qed
  moreover have "sum_events dec lo hi ?batch acc = sum_events dec lo hi (filter ?in ?batch) acc"
    "sum_events dec lo hi (dividend_events db i lo hi) acc = sum_events dec lo hi (filter ?in (dividend_events db i lo hi)) acc"
    by (rule sum_events_window)+
  ultimately show ?thesis by simp
qed

text \<open>The batch projects each security on its own price and rows.\<close>

lemma lookup_map_pair: "dict_get (map (\<lambda>i. (i, f i)) is) i = (if i \<in> set is then Some (f i) else None)"
  by (induction "is") auto

lemma latest_quotes_batch_lookup:
  assumes "distinct (map qs_id (mr_quotes db))" "i \<in> set ids"
  shows "dict_get (latest_quotes_batch db ids) i = latest_quote db i"
proof -
  have "inj_on quote_order (set (mr_quotes db))"
    using assms(1) by (auto simp: distinct_map quote_order_def inj_on_def)
  from ranked_lookup [OF this, of i "set ids" qs_security_id] assms(2) show ?thesis
    by (simp add: latest_quotes_batch_def latest_quote_def)
qed

lemma latest_daily_bars_batch_lookup:
  assumes "distinct (map br_id (mr_bars db))" "i \<in> set ids"
  shows "dict_get (latest_daily_bars_batch db ids) i = latest_daily_bar db i"
proof -
  let ?bars = "filter (\<lambda>b. br_adjust_type b = ''none'') (mr_bars db)"
  have "inj_on bar_order (set ?bars)" using assms(1) by (auto simp: distinct_map bar_order_def inj_on_def)
  note ranked_lookup [OF this, of i "set ids" br_security_id]
  moreover have "filter (\<lambda>r. br_security_id r \<in> set ids) ?bars = filter (\<lambda>b. br_security_id b \<in> set ids \<and> br_adjust_type b = ''none'') (mr_bars db)"
    "filter (\<lambda>r. br_security_id r = i) ?bars = filter (\<lambda>b. br_security_id b = i \<and> br_adjust_type b = ''none'') (mr_bars db)"
    by (auto intro!: filter_cong)
  ultimately show ?thesis using assms(2) by (simp add: latest_daily_bars_batch_def latest_daily_bar_def)
qed

definition yield_at :: "(real \<Rightarrow> real) \<Rightarrow> market_rows \<Rightarrow> int \<Rightarrow> (fl \<times> int \<times> string) option \<Rightarrow> yield_result result" where
  "yield_at dec db i c = (case c of
      None \<Rightarrow> Raise price_not_found
    | Some (price, as_of, source) \<Rightarrow>
        (case ttm_window (utc_date as_of) of (lo, hi) \<Rightarrow>
           as_api_error (calculate_ttm_dividend_yield dec (dividend_events db i lo hi) price as_of source)))"

lemma calculate_wider:
  assumes "i \<in> set ids" "ttm_window (utc_date as_of) = (lo, hi)" "lo' \<le> lo" "hi \<le> hi'"
  shows "calculate_ttm_dividend_yield dec (dict_get_or (dividend_events_batch db ids lo' hi') i []) price as_of source
       = calculate_ttm_dividend_yield dec (dividend_events db i lo hi) price as_of source"
  by (simp only: calculate_ttm_dividend_yield_def assms(2) prod.case batch_events [OF assms(1) assms(3,4)])

lemma calculate_for_securities_lookup:
  assumes "i \<in> set ids"
    and "\<forall>i \<in> set ids. dict_get (case quotes of Some q \<Rightarrow> q | None \<Rightarrow> latest_quotes_batch db (unique_ids ids)) i = latest_quote db i"
    and "\<forall>i \<in> set ids. dict_get (case bars of Some q \<Rightarrow> q | None \<Rightarrow> latest_daily_bars_batch db (unique_ids ids)) i = latest_daily_bar db i"
  shows "dict_get (calculate_for_securities dec db quotes bars ids) i = Some (calculate_for_security dec db i)"
proof -
  let ?c = "\<lambda>i. chosen_price (latest_quote db i) (latest_daily_bar db i)"
  let ?u = "unique_ids ids"
  let ?Q = "case quotes of Some q \<Rightarrow> q | None \<Rightarrow> latest_quotes_batch db ?u"
  let ?B = "case bars of Some q \<Rightarrow> q | None \<Rightarrow> latest_daily_bars_batch db ?u"
  have chosen: "map (\<lambda>i. (i, chosen_price (dict_get ?Q i) (dict_get ?B i))) ?u = map (\<lambda>i. (i, ?c i)) ?u"
    using assms(2,3) by (intro map_cong) simp_all
  let ?no = "filter (\<lambda>i. ?c i = None) ?u" and ?yes = "filter (\<lambda>i. ?c i \<noteq> None) ?u"
  let ?priced = "map (\<lambda>i. (i, the (?c i))) ?yes"
  let ?ws = "map (\<lambda>(i, price, as_of, source). ttm_window (utc_date as_of)) ?priced"
  let ?lo = "Min (set (map fst ?ws))" and ?hi = "Max (set (map snd ?ws))"
  let ?events = "dividend_events_batch db ?yes ?lo ?hi"
  have missing: "map (\<lambda>(i, c). (i, Raise price_not_found :: yield_result result)) (filter (\<lambda>(i, c). c = None) (map (\<lambda>i. (i, ?c i)) ?u)) =
      map (\<lambda>i. (i, Raise price_not_found)) ?no"
    by (simp add: filter_map o_def case_prod_beta)
  have priced: "map (\<lambda>(i, c). (i, the c)) (filter (\<lambda>(i, c). c \<noteq> None) (map (\<lambda>i. (i, ?c i)) ?u)) = ?priced"
    by (simp add: filter_map o_def case_prod_beta)
  have each: "(case the (?c j) of (price, as_of, source) \<Rightarrow> as_api_error (calculate_ttm_dividend_yield dec
      (dict_get_or ?events j []) price as_of source)) = yield_at dec db j (?c j)" if j: "j \<in> set ?yes" for j
  proof -
    from j obtain price as_of source where c: "?c j = Some (price, as_of, source)" by auto
    obtain lo hi where w: "ttm_window (utc_date as_of) = (lo, hi)" by (cases "ttm_window (utc_date as_of)")
    from j c w have "(lo, hi) \<in> set ?ws" by force
    then have "fst (lo, hi) \<in> set (map fst ?ws)" "snd (lo, hi) \<in> set (map snd ?ws)" unfolding set_map by (rule imageI)+
    then have "?lo \<le> lo" "hi \<le> ?hi" by (simp_all only: fst_conv snd_conv Min_le Max_ge List.finite_set)
    from calculate_wider [OF j w this] c w show ?thesis by (simp add: yield_at_def)
  qed
  have "calculate_for_securities dec db quotes bars ids = map (\<lambda>i. (i, Raise price_not_found)) ?no @
      map (\<lambda>i. (i, yield_at dec db i (?c i))) ?yes"
  proof (cases "?yes = []")
    case True
    then show ?thesis unfolding calculate_for_securities_def Let_def chosen missing priced by simp
  next
    case False
    have keys: "map fst ?priced = ?yes" by (simp add: o_def)
    have "map (\<lambda>(i, price, as_of, source). (i, as_api_error (calculate_ttm_dividend_yield dec (dict_get_or ?events i []) price as_of source))) ?priced
        = map (\<lambda>i. (i, case the (?c i) of (price, as_of, source) \<Rightarrow> as_api_error (calculate_ttm_dividend_yield dec (dict_get_or ?events i []) price as_of source))) ?yes"
      by (simp add: o_def case_prod_beta)
    also have "\<dots> = map (\<lambda>i. (i, yield_at dec db i (?c i))) ?yes" using each by (intro map_cong) simp_all
    finally have results: "map (\<lambda>(i, price, as_of, source). (i, as_api_error (calculate_ttm_dividend_yield dec (dict_get_or ?events i []) price as_of source))) ?priced
        = map (\<lambda>i. (i, yield_at dec db i (?c i))) ?yes" .
    show ?thesis unfolding calculate_for_securities_def Let_def chosen missing priced keys results using False by simp
  qed
  then have "dict_get (calculate_for_securities dec db quotes bars ids) i = Some (yield_at dec db i (?c i))"
    using assms(1) by (auto simp: map_add_Some_iff map_add_def lookup_map_pair yield_at_def split: option.splits)
  then show ?thesis by (simp add: yield_at_def calculate_for_security_def)
qed

lemma calculate_for_securities_outside:
  assumes "i \<notin> set ids"
  shows "dict_get (calculate_for_securities dec db quotes bars ids) i = None"
proof -
  have "fst ` set (calculate_for_securities dec db quotes bars ids) \<subseteq> set ids"
    by (auto simp: calculate_for_securities_def Let_def case_prod_beta split: if_splits)
  with assms show ?thesis by (auto simp: map_of_eq_None_iff)
qed

section \<open>The calendar\<close>

text \<open>Dividing an ordinal into years, months and days inverts \<open>ordinal\<close>.\<close>

lemma civil_year_days:
  assumes "0 \<le> k" "k < 365 + (if is_leap y then 1 else 0)"
  shows "civil_year (days_before_year y + k + 1) = (y, k)"
proof -
  define a where "a = (y - 1) div 400"
  define b where "b = (y - 1) mod 400 div 100"
  define c where "c = (y - 1) mod 100 div 4"
  define e where "e = (y - 1) mod 4"
  let ?z = "y - 1"
  have "?z mod 400 mod 100 = ?z mod 100" "?z mod 100 mod 4 = ?z mod 4" by (simp_all add: mod_mod_cancel)
  then have y: "y = 400 * a + 100 * b + 4 * c + e + 1"
    using mult_div_mod_eq [of 400 ?z] mult_div_mod_eq [of 100 "?z mod 400"] mult_div_mod_eq [of 4 "?z mod 100"]
    unfolding a_def b_def c_def e_def by linarith
  have "0 \<le> ?z mod 400" "?z mod 400 < 400" "0 \<le> ?z mod 100" "?z mod 100 < 100" "0 \<le> ?z mod 4" "?z mod 4 < 4" by simp_all
  then have rng: "0 \<le> b" "b \<le> 3" "0 \<le> c" "c \<le> 24" "0 \<le> e" "e \<le> 3" unfolding b_def c_def e_def by linarith+
  have leap: "is_leap y \<Longrightarrow> e = 3 \<and> (c \<noteq> 24 \<or> b = 3)"
  proof -
    assume leap: "is_leap y"
    have "y = (e + 1) + 4 * (100 * a + 25 * b + c)" using y by simp
    then have "y mod 4 = (e + 1) mod 4" by (simp only: mod_mult_self2)
    moreover have "y mod 4 = 0" using leap by (simp add: is_leap_def)
    ultimately have "(e + 1) mod 4 = 0" by simp
    then have e: "e = 3" using rng(5,6) by presburger
    have "b = 3" if "c = 24"
    proof -
      have h: "y = 0 + 100 * (4 * a + b + 1)" "y = 100 * (b + 1) + 400 * a" using y e that by simp_all
      have "y mod 100 = 0" by (subst h(1)) (simp only: mod_mult_self2 mod_0)
      moreover have "y mod 400 = (100 * (b + 1)) mod 400" by (subst h(2)) (simp only: mod_mult_self2)
      ultimately have "(100 * (b + 1)) mod 400 = 0" using leap unfolding is_leap_def by simp
      moreover have "b = 0 \<or> b = 1 \<or> b = 2 \<or> b = 3" using rng(1,2) by presburger
      ultimately show ?thesis by (elim disjE) simp_all
    qed
    with e show ?thesis by blast
  qed
  have k: "0 \<le> k" "k \<le> 365" "k = 365 \<Longrightarrow> e = 3 \<and> (c \<noteq> 24 \<or> b = 3)"
    using assms leap by (auto split: if_splits)
  have q4: "(y - 1) div 4 = 100 * a + 25 * b + c"
    by (rule int_div_pos_eq [where r = e]) (use y rng in simp_all)
  have q100: "(y - 1) div 100 = 4 * a + b"
    by (rule int_div_pos_eq [where r = "4 * c + e"]) (use y rng in simp_all)
  have z: "(y - 1) * 365 = 365 * (400 * a + 100 * b + 4 * c + e)" using y by simp
  have n: "days_before_year y + k = 146097 * a + (36524 * b + 1461 * c + 365 * e + k)"
    unfolding days_before_year_def Let_def q4 q100 z a_def [symmetric] by simp
  let ?r = "36524 * b + 1461 * c + 365 * e + k"
  let ?s = "1461 * c + 365 * e + k"
  let ?t = "365 * e + k"
  have r: "0 \<le> ?r" "?r < 146097" using rng k by linarith+
  then have d1: "(days_before_year y + k) div 146097 = a" "(days_before_year y + k) mod 146097 = ?r" unfolding n by simp_all
  have t: "0 \<le> ?t" "?t < 1461" using rng k by linarith+
  then have c: "?s div 1461 = c" "?s mod 1461 = ?t"
    by (auto intro: int_div_pos_eq [where r = ?t] int_mod_pos_eq [where q = c])
  have b: "min 3 (?r div 36524) = b"
  proof (cases "?s < 36524")
    case True
    then have "?r div 36524 = b" using rng k by (intro int_div_pos_eq [where r = ?s]) simp_all
    then show ?thesis using rng by simp
  next
    case False
    then have "c = 24 \<and> e = 3 \<and> k = 365" using rng k by linarith
    then show ?thesis using k(3) by simp
  qed
  have e: "min 3 (?t div 365) = e"
  proof (cases "k < 365")
    case True
    then have "?t div 365 = e" using k by (intro int_div_pos_eq [where r = k]) simp_all
    then show ?thesis using rng by simp
  next
    case False
    then have "k = 365" using k(2) by simp
    then show ?thesis using k(3) by simp
  qed
  have s: "?r - b * 36524 = ?s" by simp
  show ?thesis unfolding civil_year_def Let_def add_diff_cancel_right' d1 b s c e using y by simp
qed

lemma month_cases:
  assumes "1 \<le> m" "m \<le> 12"
  shows "m = 1 \<or> m = 2 \<or> m = 3 \<or> m = 4 \<or> m = 5 \<or> m = 6 \<or> m = 7 \<or> m = 8 \<or> m = 9 \<or> m = 10 \<or> m = 11 \<or> m = (12 :: nat)"
  using assms by presburger

lemma civil_ordinal:
  assumes m: "1 \<le> m" "m \<le> 12" and d: "1 \<le> d" "d \<le> month_length y m"
  shows "civil (ordinal y m d) = (y, m, d)"
proof -
  let ?k = "days_before_month y m + d - 1"
  have upt: "[1..<13] = [1, 2, 3, 4, 5, 6, 7, 8, 9, 10, 11, 12 :: nat]" by code_simp
  have both: "(0 \<le> ?k \<and> ?k < 365 + (if is_leap y then 1 else 0)) \<and> last (filter (\<lambda>m. days_before_month y m \<le> ?k) [1..<13]) = m"
    using month_cases [OF m] d unfolding upt by (elim disjE) (simp_all add: days_before_month_def month_length_def split: if_splits)
  have "civil_year (ordinal y m d) = (y, ?k)"
    using civil_year_days [of ?k y] both by (simp add: ordinal_def algebra_simps)
  then show ?thesis using both by (simp add: civil_def)
qed

text \<open>
  C20: The twelve-month window of a calendar date ends on that date and starts on the same month and
  day of the year before, the last day of February standing for 29 February; it is 365 or 366 days
  long.
\<close>

theorem ttm_window_calendar:
  assumes "2 \<le> y" "1 \<le> m" "m \<le> 12" "1 \<le> d" "d \<le> month_length y m"
  shows "ttm_window (ordinal y m d) = (ordinal (y - 1) m (min d (month_length (y - 1) m)), ordinal y m d)
    \<and> 365 \<le> ordinal y m d - fst (ttm_window (ordinal y m d))
    \<and> ordinal y m d - fst (ttm_window (ordinal y m d)) \<le> 366"
proof -
  have w: "ttm_window (ordinal y m d) = (ordinal (y - 1) m (min d (month_length (y - 1) m)), ordinal y m d)"
    using civil_ordinal [OF assms(2-5)] by (simp add: ttm_window_def)
  have "dec_31 (y - 1) + 1 = jan_1 (y - 1 + 1)" by (rule year_follows)
  then have year: "days_before_year y = days_before_year (y - 1) + 365 + (if is_leap (y - 1) then 1 else 0)"
    by (simp add: dec_31_def jan_1_def ordinal_def days_before_month_def split: if_splits)
  have "y mod 4 = 0 \<Longrightarrow> (y - 1) mod 4 \<noteq> 0" by presburger
  then have "is_leap y \<Longrightarrow> \<not> is_leap (y - 1)" by (auto simp: is_leap_def)
  then have "365 \<le> ordinal y m d - ordinal (y - 1) m (min d (month_length (y - 1) m))
    \<and> ordinal y m d - ordinal (y - 1) m (min d (month_length (y - 1) m)) \<le> 366"
    using month_cases [OF assms(2,3)] assms(4,5) year
    by (elim disjE) (simp_all add: ordinal_def days_before_month_def month_length_def split: if_splits)
  then show ?thesis using w by simp
qed

theorem ttm_window_calendar_witness:
  "ttm_window (ordinal 2024 2 29) = (ordinal 2023 2 28, ordinal 2024 2 29)"
  using ttm_window_calendar [of 2024 2 29] by (simp add: month_length_def is_leap_def)

text \<open>
  C19: The batch calculation gives every requested security exactly what the calculation for that
  security alone gives, result or error, and nothing for any other, although it reads the dividends
  of all of them over the hull of their windows: one malformed row cannot change another security's
  projection.
\<close>

theorem yield_batch_exact:
  assumes "distinct (map qs_id (mr_quotes db))" "distinct (map br_id (mr_bars db))"
    and "quotes = None \<or> quotes = Some (latest_quotes_batch db ids)"
    and "bars = None \<or> bars = Some (latest_daily_bars_batch db ids)"
  shows "dict_get (calculate_for_securities dec db quotes bars ids) i =
    (if i \<in> set ids then Some (calculate_for_security dec db i) else None)"
proof (cases "i \<in> set ids")
  case True
  note q = latest_quotes_batch_lookup [OF assms(1)] and b = latest_daily_bars_batch_lookup [OF assms(2)]
  show ?thesis using True assms(3,4) q b by (auto intro!: calculate_for_securities_lookup)
next
  case False
  then show ?thesis by (simp add: calculate_for_securities_outside)
qed

definition example_rows :: market_rows where
  "example_rows = \<lparr>
     mr_quotes = [\<lparr>qs_id = 1, qs_security_id = 7, qs_price = Fin 10, qs_change = None, qs_change_percent = None,
       qs_timestamp = midnight (ordinal 2025 6 2)\<rparr>],
     mr_bars = [\<lparr>br_id = 1, br_security_id = 8, br_trade_date = ordinal 2025 6 2, br_adjust_type = ''none'', br_close = Fin 20\<rparr>],
     mr_events = [\<lparr>de_id = 1, de_security_id = 7, de_date = ordinal 2025 5 6, de_amount = Fin 1\<rparr>,
       \<lparr>de_id = 2, de_security_id = 8, de_date = ordinal 2025 5 6, de_amount = NaN\<rparr>]\<rparr>"

theorem yield_batch_exact_witness:
  "dict_get (calculate_for_securities id example_rows None None [7, 8, 9]) 8 = Some (calculate_for_security id example_rows 8)
   \<and> dict_get (calculate_for_securities id example_rows None None [7, 8, 9]) 10 = None"
  using yield_batch_exact [of example_rows None "[7, 8, 9]" None id 8] yield_batch_exact [of example_rows None "[7, 8, 9]" None id 10]
  by (simp add: example_rows_def)

end
