(* ===== verification/Watch_Views.thy ===== *)
theory Watch_Views
  imports Analysis_Demand Dividend_Yield
begin

text \<open>
  The detail view of a watch table (\<open>services/watch_table_service.py\<close>): for every security in the
  table the current price, the value of every indicator column, the state of every status column, and
  the active states that belong to a column.

  Prices, snapshots, states, streams and settings are read rows. The digest of indicator parameters and the
  one of state parameters are parameters of the model. Stored parameters are JSON, so no decimal is
  left in them; names of values are compared without case by their ASCII letters.
\<close>

section \<open>Rows read by the view\<close>

record snapshot_entry =
  sn_id :: int
  sn_security_id :: int
  sn_trade_date :: int
  sn_adjust_type :: string
  sn_row :: snapshot_row

record view_db =
  vw_watch :: watch_db
  vw_market :: market_rows
  vw_snapshots :: "snapshot_entry list"
  vw_states :: "(int \<times> string, event_store) dict"
  vw_streams :: "(int \<times> string, analysis_stream) dict"
  vw_completed :: "(int, int) dict"
  vw_settings :: "(int, pyval) dict"

definition user_adjustment :: "view_db \<Rightarrow> int \<Rightarrow> string" where
  "user_adjustment db user_id = (case dict_get (vw_settings db) user_id of
      Some (VDict d) \<Rightarrow> if mapping_get d ''adjust_type'' = Some (VStr ''none'') then ''none'' else ''qfq''
    | _ \<Rightarrow> ''qfq'')"

text \<open>All snapshots of the newest date of a security.\<close>

definition latest_indicators :: "view_db \<Rightarrow> string \<Rightarrow> int \<Rightarrow> snapshot_row list" where
  "latest_indicators db adjustment i =
     (let rows = filter (\<lambda>e. sn_security_id e = i \<and> sn_adjust_type e = adjustment) (vw_snapshots db)
      in map sn_row (sort_key (\<lambda>e. (row_type (sn_row e), sn_id e))
           (filter (\<lambda>e. sn_trade_date e = Max (set (map sn_trade_date rows))) rows)))"

definition current_states :: "view_db \<Rightarrow> string \<Rightarrow> int \<Rightarrow> state_row list" where
  "current_states db adjustment i = (case dict_get (vw_states db) (i, adjustment) of
      None \<Rightarrow> [] | Some store \<Rightarrow> current_rows store False None None)"

section \<open>Prices\<close>

definition number :: "(real \<Rightarrow> real) \<Rightarrow> fl \<Rightarrow> fl" where
  "number rnd v = (case v of Fin r \<Rightarrow> Fin (rnd r) | _ \<Rightarrow> v)"

definition is_positive :: "fl \<Rightarrow> bool" where
  "is_positive v = (case v of Fin r \<Rightarrow> 0 < r | PosInf \<Rightarrow> True | _ \<Rightarrow> False)"

definition is_negative :: "fl \<Rightarrow> bool" where
  "is_negative v = (case v of Fin r \<Rightarrow> r < 0 | NegInf \<Rightarrow> True | _ \<Rightarrow> False)"

definition direction :: "fl option \<Rightarrow> string" where
  "direction delta = (case delta of None \<Rightarrow> ''FLAT''
     | Some v \<Rightarrow> if is_positive v then ''UP'' else if is_negative v then ''DOWN'' else ''FLAT'')"

record price_view =
  pv_value :: fl
  pv_change :: "fl option"
  pv_change_percent :: "fl option"
  pv_direction :: string
  pv_timestamp :: int
  pv_timestamp_kind :: string
  pv_observation_stale :: "bool option"

definition quote_stale_after :: int where "quote_stale_after = 1200000000"

definition shanghai_midnight :: "int \<Rightarrow> int" where "shanghai_midnight d = midnight d - 28800000000"

definition price_data :: "(real \<Rightarrow> real) \<Rightarrow> int \<Rightarrow> quote_row option \<Rightarrow> bar_row option \<Rightarrow> price_view option" where
  "price_data rnd now quote bar =
     (let of_bar = (\<lambda>b. \<lparr>pv_value = number rnd (br_close b), pv_change = None, pv_change_percent = None, pv_direction = ''FLAT'',
            pv_timestamp = shanghai_midnight (br_trade_date b), pv_timestamp_kind = ''DAILY_BAR_DATE'', pv_observation_stale = None\<rparr>);
          of_quote = (\<lambda>q. let change = map_option (number rnd) (qs_change q) in
            \<lparr>pv_value = number rnd (qs_price q), pv_change = change, pv_change_percent = map_option (number rnd) (qs_change_percent q),
             pv_direction = direction change, pv_timestamp = qs_timestamp q, pv_timestamp_kind = ''OBSERVED_AT'',
             pv_observation_stale = Some (now - qs_timestamp q > quote_stale_after)\<rparr>)
      in case (quote, bar) of
          (None, None) \<Rightarrow> None
        | (None, Some b) \<Rightarrow> Some (of_bar b)
        | (Some q, None) \<Rightarrow> Some (of_quote q)
        | (Some q, Some b) \<Rightarrow> Some (if shanghai_date (qs_timestamp q) \<le> br_trade_date b then of_bar b else of_quote q))"

definition bootstrap_ready :: "int option \<Rightarrow> watch_symbol \<Rightarrow> bool" where
  "bootstrap_ready completed membership = (case completed of None \<Rightarrow> False | Some t \<Rightarrow> ws_created_at membership \<le> t)"

section \<open>Values of a column\<close>

record scalar_value =
  sc_value :: "fl option"
  sc_previous_value :: "fl option"
  sc_delta :: "fl option"
  sc_direction :: string

definition field_value :: "fl option \<Rightarrow> fl option \<Rightarrow> fl option \<Rightarrow> scalar_value" where
  "field_value v previous delta = \<lparr>sc_value = v, sc_previous_value = previous, sc_delta = delta, sc_direction = direction delta\<rparr>"

text \<open>The caption of a status: the name of the active state, or one of two fixed texts.\<close>

datatype status_text = Triggered pyval | Not_Triggered | Insufficient_Data

datatype column_content =
    Scalar scalar_value
  | Composite "(string, scalar_value) dict"
  | Missing string
  | Status state_status pyval status_text string pyval

record column_value =
  cv_column_id :: int
  cv_view_mode :: string
  cv_indicator_type :: string
  cv_parameters :: pyval
  cv_parameter_key :: string
  cv_content :: column_content

definition column_parameter_key ::
  "(real \<Rightarrow> real) \<Rightarrow> (string \<Rightarrow> (string, pyval) dict \<Rightarrow> string) \<Rightarrow> string \<Rightarrow> (string, pyval) dict \<Rightarrow> string result"
where
  "column_parameter_key rnd digest t ps = parameter_key rnd digest t (as_object (calculation_parameters ps))"

definition unavailable_column_value ::
  "(real \<Rightarrow> real) \<Rightarrow> (string \<Rightarrow> (string, pyval) dict \<Rightarrow> string) \<Rightarrow> table_column \<Rightarrow> string \<Rightarrow> (string, pyval) dict \<Rightarrow> string \<Rightarrow>
     column_value result"
where
  "unavailable_column_value rnd digest c t ps error_code =
     emap (\<lambda>key. \<lparr>cv_column_id = tc_id c, cv_view_mode = upper (tc_view_mode c), cv_indicator_type = t, cv_parameters = as_object ps,
         cv_parameter_key = key, cv_content = Missing error_code\<rparr>)
       (column_parameter_key rnd digest t ps)"

text \<open>The name of the value a single-value view shows.\<close>

definition value_key :: "(string, pyval) dict \<Rightarrow> (string, fl) dict \<Rightarrow> string option" where
  "value_key ps values =
     (let field = (case dict_get ps ''field'' of
          Some VNone \<Rightarrow> None | Some f \<Rightarrow> Some f | None \<Rightarrow> None);
          chosen = (case field of Some f \<Rightarrow> Some f
            | None \<Rightarrow> if dict_get values ''value'' \<noteq> None then Some (VStr ''value'')
                else if length values = 1 then Some (VStr (hd (dict_keys values))) else None)
      in case chosen of
          Some (VStr f) \<Rightarrow> if dict_get values f \<noteq> None then Some f else find (\<lambda>k. lower k = lower f) (dict_keys values)
        | _ \<Rightarrow> None)"

definition column_value_from_values ::
  "(real \<Rightarrow> real) \<Rightarrow> (string \<Rightarrow> (string, pyval) dict \<Rightarrow> string) \<Rightarrow> table_column \<Rightarrow> string \<Rightarrow> (string, pyval) dict \<Rightarrow>
     (string, fl) dict \<Rightarrow> (string, fl) dict option \<Rightarrow> (string, fl) dict option \<Rightarrow> string \<Rightarrow> column_value result"
where
  "column_value_from_values rnd digest c t ps values previous delta variant_key =
     (let mode = upper (tc_view_mode c);
          prior = (case previous of None \<Rightarrow> [] | Some d \<Rightarrow> d);
          change = (case delta of None \<Rightarrow> [] | Some d \<Rightarrow> d);
          field = (\<lambda>k. field_value (dict_get values k) (dict_get prior k) (dict_get change k)) in
      ebind (if variant_key \<noteq> [] then Ok variant_key else column_parameter_key rnd digest t ps) (\<lambda>key.
      let result = (\<lambda>content. \<lparr>cv_column_id = tc_id c, cv_view_mode = mode, cv_indicator_type = t, cv_parameters = as_object ps,
            cv_parameter_key = key, cv_content = content\<rparr>)
      in if mode = ''COMPOSITE'' then Ok (result (Composite (map (\<lambda>k. (k, field k)) (dict_keys values))))
      else case value_key ps values of
          None \<Rightarrow> unavailable_column_value rnd digest c t ps ''INDICATOR_FIELD_NOT_FOUND''
        | Some k \<Rightarrow> Ok (result (Scalar (field k)))))"

definition column_value_from_variant ::
  "(real \<Rightarrow> real) \<Rightarrow> (string \<Rightarrow> (string, pyval) dict \<Rightarrow> string) \<Rightarrow> table_column \<Rightarrow> string \<Rightarrow> (string, pyval) dict \<Rightarrow>
     indicator_variant option \<Rightarrow> column_value result"
where
  "column_value_from_variant rnd digest c t ps variant = (case variant of
      None \<Rightarrow> unavailable_column_value rnd digest c t ps ''SNAPSHOT_NOT_FOUND''
    | Some v \<Rightarrow> column_value_from_values rnd digest c t ps (iv_values v) (iv_previous v) (iv_delta v) (iv_key v))"

text \<open>The numbers among the values of a mapping; the others are passed over.\<close>

definition column_value_from_mapping ::
  "(real \<Rightarrow> real) \<Rightarrow> (string \<Rightarrow> (string, pyval) dict \<Rightarrow> string) \<Rightarrow> table_column \<Rightarrow> string \<Rightarrow> (string, pyval) dict \<Rightarrow>
     (string, pyval) dict \<Rightarrow> column_value result"
where
  "column_value_from_mapping rnd digest c t ps values =
     ebind (traverse (\<lambda>(k, v). emap (Pair k) (to_float rnd v))
         (filter (\<lambda>(k, v). case v of VInt n \<Rightarrow> True | VFloat f \<Rightarrow> True | _ \<Rightarrow> False) values)) (\<lambda>numeric.
     if numeric = [] then unavailable_column_value rnd digest c t ps ''VALUE_NOT_FOUND''
     else ebind (column_parameter_key rnd digest t ps) (\<lambda>key.
       column_value_from_values rnd digest c t ps numeric None None key))"

text \<open>
  The first snapshot of the indicator that holds the requested parameters; a snapshot that cannot be
  read is passed over.
\<close>

fun matching_snapshot ::
  "(real \<Rightarrow> real) \<Rightarrow> (string \<Rightarrow> (string, pyval) dict \<Rightarrow> string) \<Rightarrow> snapshot_row list \<Rightarrow> string \<Rightarrow> (string, pyval) dict \<Rightarrow>
     indicator_variant option result"
where
  "matching_snapshot rnd digest [] t ps = Ok None"
| "matching_snapshot rnd digest (row # rows) t ps =
     ebind (normalize_indicator_type (row_type row)) (\<lambda>own.
     if own \<noteq> t then matching_snapshot rnd digest rows t ps
     else case select_snapshot_variant rnd digest row t (as_object ps) of
         Inl (ApiError code message status) \<Rightarrow> matching_snapshot rnd digest rows t ps
       | Inl e \<Rightarrow> Raise e
       | Inr None \<Rightarrow> matching_snapshot rnd digest rows t ps
       | Inr (Some v) \<Rightarrow> Ok (Some v))"

section \<open>The dividend yield column\<close>

definition yield_error_codes :: "string list" where
  "yield_error_codes = [''PRICE_NOT_FOUND'', ''INVALID_PRICE'', ''INVALID_DIVIDEND_DATA'']"

definition dividend_yield_error :: "exn \<Rightarrow> (string, pyval) dict result" where
  "dividend_yield_error e = (case e of
      ApiError code message status \<Rightarrow>
        if code \<notin> set yield_error_codes then Raise e
        else Ok [(''value'', VNone), (''yield'', VNone), (''dividend_yield'', VNone), (''dividend_total'', VNone), (''price'', VNone),
          (''as_of'', VNone), (''price_source'', VNone), (''error_code'', VStr code)]
    | _ \<Rightarrow> Raise e)"

text \<open>Decimals become floats; dates and instants are not numbers.\<close>

definition dividend_yield_data :: "(real \<Rightarrow> real) \<Rightarrow> yield_result \<Rightarrow> (string, pyval) dict" where
  "dividend_yield_data rnd r =
     (let y = VFloat (Fin (rnd (yr_dividend_yield r))) in
      [(''value'', y), (''current_value'', y), (''yield'', y), (''dividend_yield'', y),
       (''dividend_total'', VFloat (Fin (rnd (yr_dividend_total r)))), (''price'', VFloat (Fin (rnd (yr_price r)))),
       (''as_of'', VObj ''datetime''), (''price_source'', VStr (yr_price_source r)), (''window_start'', VObj ''date''),
       (''window_end'', VObj ''date''), (''dividend_event_count'', VInt (int (yr_event_count r)))])"

definition dividend_yield_projection ::
  "(real \<Rightarrow> real) \<Rightarrow> (real \<Rightarrow> real) \<Rightarrow> market_rows \<Rightarrow> (int, yield_result result) dict option \<Rightarrow> int \<Rightarrow> (string, pyval) dict result"
where
  "dividend_yield_projection rnd dec market results i =
     (let outcome = (case results of
          None \<Rightarrow> calculate_for_security dec market i
        | Some d \<Rightarrow> (case dict_get d i of None \<Rightarrow> Raise price_not_found | Some r \<Rightarrow> r))
      in case outcome of Inl e \<Rightarrow> dividend_yield_error e | Inr r \<Rightarrow> Ok (dividend_yield_data rnd r))"

section \<open>Indicator columns\<close>

definition is_indicator_column :: "table_column \<Rightarrow> bool" where
  "is_indicator_column c \<longleftrightarrow> upper (tc_column_type c) = ''INDICATOR'' \<and> or_else (tc_indicator_type c) None \<noteq> None"

text \<open>What a column looks up: the canonical type and the parameters with their defaults.\<close>

definition column_target :: "(real \<Rightarrow> real) \<Rightarrow> table_column \<Rightarrow> (string \<times> (string, pyval) dict) result" where
  "column_target rnd c =
     ebind (normalize_indicator_type (the (tc_indicator_type c))) (\<lambda>t.
     emap (Pair t) (normalize_indicator_parameters rnd t (as_object (tc_parameters c))))"

definition indicator_projection ::
  "(real \<Rightarrow> real) \<Rightarrow> (real \<Rightarrow> real) \<Rightarrow> (string \<Rightarrow> (string, pyval) dict \<Rightarrow> string) \<Rightarrow> market_rows \<Rightarrow> (int, yield_result result) dict option \<Rightarrow>
     snapshot_row list \<Rightarrow> int \<Rightarrow> table_column \<Rightarrow> (int \<times> column_value) result"
where
  "indicator_projection rnd dec digest market results snapshots i c =
     ebind (column_target rnd c) (\<lambda>(t, ps).
     emap (Pair (tc_id c))
       (if t = ''DIVIDEND_YIELD''
        then ebind (dividend_yield_projection rnd dec market results i) (column_value_from_mapping rnd digest c t ps)
        else ebind (matching_snapshot rnd digest snapshots t (calculation_parameters ps)) (column_value_from_variant rnd digest c t ps)))"

definition indicator_projections ::
  "(real \<Rightarrow> real) \<Rightarrow> (real \<Rightarrow> real) \<Rightarrow> (string \<Rightarrow> (string, pyval) dict \<Rightarrow> string) \<Rightarrow> market_rows \<Rightarrow> (int, yield_result result) dict option \<Rightarrow>
     table_column list \<Rightarrow> snapshot_row list \<Rightarrow> int \<Rightarrow> (int, column_value) dict result"
where
  "indicator_projections rnd dec digest market results columns snapshots i =
     emap (\<lambda>vs. fold (\<lambda>(k, v). dict_set k v) vs [])
       (traverse (indicator_projection rnd dec digest market results snapshots i) (filter is_indicator_column columns))"

section \<open>Status columns and visible states\<close>

definition is_status_column :: "table_column \<Rightarrow> bool" where
  "is_status_column c \<longleftrightarrow> upper (tc_view_mode c) = ''STATUS'' \<and> or_else (tc_state_code c) None \<noteq> None"

definition matched_state ::
  "(string \<Rightarrow> (string, pyval) dict \<Rightarrow> string) \<Rightarrow> state_row list \<Rightarrow> table_column \<Rightarrow> state_row option"
where
  "matched_state sha states c =
     (let code = upper (the (tc_state_code c)); key = state_parameter_key sha code (tc_parameters c)
      in find (\<lambda>s. sv_code s = code \<and> sv_key s = key) states)"

definition status_value ::
  "(real \<Rightarrow> real) \<Rightarrow> (string \<Rightarrow> (string, pyval) dict \<Rightarrow> string) \<Rightarrow> (string \<Rightarrow> (string, pyval) dict \<Rightarrow> string) \<Rightarrow> state_row list \<Rightarrow>
     table_column \<Rightarrow> column_value result"
where
  "status_value rnd digest sha states c = (case matched_state sha states c of
      None \<Rightarrow> unavailable_column_value rnd digest c (text_or (tc_indicator_type c) ''STATE'') (tc_parameters c) ''STATE_NOT_FOUND''
    | Some s \<Rightarrow>
        let name = (case mapping_get (sv_metadata s) ''name'' of Some n \<Rightarrow> n | None \<Rightarrow> VStr (sv_code s)) in
        Ok \<lparr>cv_column_id = tc_id c, cv_view_mode = ''STATUS'', cv_indicator_type = sv_indicator s, cv_parameters = VDict (sv_parameters s),
           cv_parameter_key = sv_key s,
           cv_content = Status (sv_status s) (get_none (sv_metadata s) ''reason'')
             (case sv_status s of ACTIVE \<Rightarrow> Triggered name | INACTIVE \<Rightarrow> Not_Triggered | UNKNOWN \<Rightarrow> Insufficient_Data) (sv_code s) name\<rparr>)"

definition cv_available :: "column_value \<Rightarrow> bool" where
  "cv_available v = (case cv_content v of Missing code \<Rightarrow> False | Status s r c k n \<Rightarrow> s \<noteq> UNKNOWN | _ \<Rightarrow> True)"

text \<open>Errors of parameters are the answer no; others go on.\<close>

definition unless_unreadable :: "bool result \<Rightarrow> bool result" where
  "unless_unreadable r = (case r of Inl (ApiError c m s) \<Rightarrow> Ok False | Inl (TypeError m) \<Rightarrow> Ok False | Inl (ValueError m) \<Rightarrow> Ok False
     | _ \<Rightarrow> r)"

definition pair_of_periods :: "int list \<Rightarrow> (int \<times> int) option" where
  "pair_of_periods periods =
     (if length periods = 2 then Some (periods ! 0, periods ! 1)
      else if length periods > 2 \<and> {5, 10} \<subseteq> set periods then Some (5, 10) else None)"

definition same_calculation :: "string \<Rightarrow> (string, pyval) dict \<Rightarrow> (string, pyval) dict \<Rightarrow> bool" where
  "same_calculation t own seen =
     (if t \<noteq> ''MA'' then py_eq (as_object own) (as_object seen)
      else case pair_of_periods (ma_periods own) of
          None \<Rightarrow> False
        | Some (a, b) \<Rightarrow> py_eq (as_object seen) (as_object [(''short_period'', VInt a), (''long_period'', VInt b)]))"

definition column_type_text :: "string option \<Rightarrow> string result" where
  "column_type_text v = (case v of None \<Rightarrow> Ok [] | Some s \<Rightarrow> normalize_indicator_type s)"

definition state_matches_column ::
  "(real \<Rightarrow> real) \<Rightarrow> (string \<Rightarrow> (string, pyval) dict \<Rightarrow> string) \<Rightarrow> state_row \<Rightarrow> table_column \<Rightarrow> bool result"
where
  "state_matches_column rnd sha s c =
     (let column_type = upper (tc_column_type c) in
      if sv_status s \<noteq> ACTIVE then Ok False
      else if column_type \<notin> {''INDICATOR'', ''STATE''} then Ok False
      else if upper (tc_view_mode c) = ''STATUS'' \<or> column_type = ''STATE'' then
        (case or_else (tc_state_code c) None of
           None \<Rightarrow> Ok False
         | Some code \<Rightarrow> Ok (upper (sv_code s) = upper code \<and> sv_key s = state_parameter_key sha (upper code) (tc_parameters c)))
      else
        ebind (column_type_text (tc_indicator_type c)) (\<lambda>t.
        if t = [] then Ok False
        else ebind (normalize_indicator_type (sv_indicator s)) (\<lambda>own_type.
        if t \<noteq> own_type then Ok False
        else unless_unreadable
          (ebind (canonicalize_parameters rnd t (as_object (calculation_parameters (tc_parameters c))) True) (\<lambda>own.
           emap (same_calculation t own) (canonicalize_state_parameters rnd t (VDict (sv_parameters s))))))))"

definition is_default_state :: "(real \<Rightarrow> real) \<Rightarrow> state_row \<Rightarrow> bool result" where
  "is_default_state rnd s =
     (if sv_indicator s = ''MA''
      then Ok (py_eq (VDict (sv_parameters s)) (as_object [(''short_period'', VInt 5), (''long_period'', VInt 10)]))
      else case ebind (canonicalize_state_parameters rnd (sv_indicator s) (VDict (sv_parameters s))) (\<lambda>own.
             emap (\<lambda>d. py_eq (as_object own) (as_object d)) (canonicalize_parameters rnd (sv_indicator s) VNone True)) of
          Inl (ApiError code message status) \<Rightarrow> Ok False
        | r \<Rightarrow> r)"

definition states_of_column ::
  "(real \<Rightarrow> real) \<Rightarrow> (string \<Rightarrow> (string, pyval) dict \<Rightarrow> string) \<Rightarrow> state_row list \<Rightarrow> table_column \<Rightarrow> state_row list result"
where
  "states_of_column rnd sha states c =
     emap (\<lambda>ms. map fst (filter snd ms)) (traverse (\<lambda>s. emap (Pair s) (state_matches_column rnd sha s c)) states)"

definition visible_states ::
  "(real \<Rightarrow> real) \<Rightarrow> (string \<Rightarrow> (string, pyval) dict \<Rightarrow> string) \<Rightarrow> state_row list \<Rightarrow> table_column list \<Rightarrow> state_row list result"
where
  "visible_states rnd sha states columns =
     ebind (traverse (states_of_column rnd sha states) columns) (\<lambda>selected.
     emap (\<lambda>ds. map fst (filter (\<lambda>(s, is_default). is_default \<or> row_target s \<in> row_target ` set (concat selected)) ds))
       (traverse (\<lambda>s. emap (Pair s) (is_default_state rnd s)) (filter (\<lambda>s. sv_status s = ACTIVE) states)))"

section \<open>The table\<close>

record stock_view =
  sk_security_id :: int
  sk_bootstrap_ready :: bool
  sk_analysis_status :: "string option"
  sk_analysis_trade_date :: "int option"
  sk_analysis_revision :: "int option"
  sk_price :: "price_view option"
  sk_column_values :: "(int, column_value) dict"
  sk_column_states :: "(int, state_row list) dict"
  sk_states :: "state_row list"

record table_view =
  tv_adjust_type :: string
  tv_table :: watch_table
  tv_columns :: "table_column list"
  tv_stocks :: "stock_view list"

definition analysis_status :: "analysis_stream \<Rightarrow> string" where
  "analysis_status st =
     (if publication_is_current (Some st) \<and> 0 \<le> as_published_revision st then ''READY'' else ''REBUILD_PENDING'')"

text \<open>
  \<open>dividend_results\<close>: only when a column shows the yield. The code stops at the first such column; a
  later type that cannot be read then fails in the projection of its column instead, with the same
  exception.
\<close>

definition dividend_results ::
  "(real \<Rightarrow> real) \<Rightarrow> market_rows \<Rightarrow> table_column list \<Rightarrow> int list \<Rightarrow> (int, yield_result result) dict option result"
where
  "dividend_results dec market columns ids =
     emap (\<lambda>ts. if ''DIVIDEND_YIELD'' \<in> set ts
         then Some (calculate_for_securities dec market (Some (latest_quotes_batch market ids)) (Some (latest_daily_bars_batch market ids)) ids)
         else None)
       (traverse (\<lambda>c. column_type_text (tc_indicator_type c)) (filter (\<lambda>c. upper (tc_column_type c) = ''INDICATOR'') columns))"

definition stock_detail ::
  "(real \<Rightarrow> real) \<Rightarrow> (real \<Rightarrow> real) \<Rightarrow> (string \<Rightarrow> (string, pyval) dict \<Rightarrow> string) \<Rightarrow> (string \<Rightarrow> (string, pyval) dict \<Rightarrow> string) \<Rightarrow>
     view_db \<Rightarrow> int \<Rightarrow> string \<Rightarrow> table_column list \<Rightarrow> int list \<Rightarrow> (int, yield_result result) dict option \<Rightarrow> watch_symbol \<Rightarrow> stock_view result"
where
  "stock_detail rnd dec digest sha db now adjustment columns ids results membership =
     (let i = ws_security_id membership; market = vw_market db;
          states = current_states db adjustment i; stream = dict_get (vw_streams db) (i, adjustment) in
      ebind (indicator_projections rnd dec digest market results columns (latest_indicators db adjustment i) i) (\<lambda>values.
      ebind (traverse (\<lambda>c. emap (Pair (tc_id c)) (status_value rnd digest sha states c)) (filter is_status_column columns)) (\<lambda>statuses.
      ebind (visible_states rnd sha states columns) (\<lambda>visible.
      emap (\<lambda>column_states. \<lparr>sk_security_id = i,
          sk_bootstrap_ready = (bootstrap_ready (dict_get (vw_completed db) i) membership \<and> publication_is_current stream),
          sk_analysis_status = map_option analysis_status stream,
          sk_analysis_trade_date = (case stream of None \<Rightarrow> None | Some st \<Rightarrow> as_state_through st),
          sk_analysis_revision = map_option as_published_revision stream,
          sk_price = price_data rnd now (dict_get (latest_quotes_batch market ids) i) (dict_get (latest_daily_bars_batch market ids) i),
          sk_column_values = fold (\<lambda>(k, v). dict_set k v) statuses values,
          sk_column_states = column_states, sk_states = visible\<rparr>)
        (traverse (\<lambda>c. emap (Pair (tc_id c)) (states_of_column rnd sha states c))
          (filter (\<lambda>c. upper (tc_column_type c) \<in> {''INDICATOR'', ''STATE''}) columns))))))"

definition detail ::
  "(real \<Rightarrow> real) \<Rightarrow> (real \<Rightarrow> real) \<Rightarrow> (string \<Rightarrow> (string, pyval) dict \<Rightarrow> string) \<Rightarrow> (string \<Rightarrow> (string, pyval) dict \<Rightarrow> string) \<Rightarrow>
     view_db \<Rightarrow> int \<Rightarrow> int \<Rightarrow> int \<Rightarrow> table_view result"
where
  "detail rnd dec digest sha db now user_id table_id =
     ebind (owned (vw_watch db) table_id user_id) (\<lambda>t.
     let members = list_symbols (vw_watch db) table_id; columns = list_columns (vw_watch db) table_id;
         ids = map ws_security_id members; adjustment = user_adjustment db user_id in
     ebind (dividend_results dec (vw_market db) columns ids) (\<lambda>results.
     emap (\<lambda>stocks. \<lparr>tv_adjust_type = adjustment, tv_table = t, tv_columns = columns, tv_stocks = stocks\<rparr>)
       (traverse (stock_detail rnd dec digest sha db now adjustment columns ids results) members)))"

section \<open>Parameters without a selector\<close>

definition is_api_error :: "exn \<Rightarrow> bool" where
  "is_api_error e = (case e of ApiError code message status \<Rightarrow> True | _ \<Rightarrow> False)"

lemma as_object_calculation: "as_object (calculation_parameters ps) = VDict (filter (\<lambda>(k, v). \<not> is_field_key k) (map (\<lambda>(k, v). (VStr k, v)) ps))"
  by (induction ps) (auto simp: as_object_def calculation_parameters_def is_field_key_def)

lemma parameter_name_field: "parameter_name t s = ''field'' \<Longrightarrow> lower (strip s) = ''field''"
  by (auto simp: parameter_name_def Let_def split: if_splits)

lemma collect_raw_source:
  "collect_raw t d raw = Ok raw' \<Longrightarrow> k \<in> set (dict_keys raw') \<Longrightarrow>
     k \<in> set (dict_keys raw) \<or> (\<exists>s. VStr s \<in> set (dict_keys d) \<and> k = parameter_name t s)"
proof (induction t d raw rule: collect_raw.induct)
  case (2 t key v rest raw)
  from 2(2) obtain s where s: "key = VStr s" "strip s \<noteq> []"
    and rest: "collect_raw t rest (dict_set (parameter_name t s) v raw) = Ok raw'"
    and dup: "\<not> (case dict_get raw (parameter_name t s) of None \<Rightarrow> False | Some old \<Rightarrow> \<not> py_eq old v)"
    by (auto simp: Let_def split: pyval.splits if_splits)
  from 2(1) [OF s(1) _ refl dup rest 2(3)] s(2)
  have "k \<in> set (dict_keys (dict_set (parameter_name t s) v raw)) \<or> (\<exists>s. VStr s \<in> set (dict_keys rest) \<and> k = parameter_name t s)" by blast
  then show ?case using s(1) by (auto simp: dict_set_keys split: if_splits)
qed simp

text \<open>Canonical parameters carry a selector only if one was given.\<close>

lemma canonical_selector_free:
  assumes "canonicalize_parameters rnd v (VDict (filter (\<lambda>(k, v). \<not> is_field_key k) d)) True = Ok n" "k \<in> set (dict_keys n)"
  shows "lower (strip k) \<noteq> ''field''"
proof -
  let ?d = "filter (\<lambda>(k, v). \<not> is_field_key k) d"
  from assms(1) obtain t raw where t: "normalize_indicator_type v = Ok t" and c: "collect_raw t ?d [] = Ok raw"
    unfolding canonicalize_parameters_def by auto
  have raw: "''field'' \<notin> set (dict_keys raw)"
  proof
    assume "''field'' \<in> set (dict_keys raw)"
    from collect_raw_source [OF c this] obtain s where "VStr s \<in> set (dict_keys ?d)" "''field'' = parameter_name t s" by auto
    then show False using parameter_name_field [of t s] by (auto simp: is_field_key_def)
  qed
  show ?thesis
  proof (cases "t = ''MA''")
    case True
    with assms(1) t have "ma_canonical n"
      by (elim canonicalize_ok) (auto dest!: canonicalize_ma_ok)
    from ma_canonical_names [OF this] assms(2) have "name_ok ''MA'' k" "k \<in> {''period'', ''periods''}"
      by (auto simp: names_ok_def allowed_names_def INDICATOR_PARAMETER_KEYS_def)
    then show ?thesis using no_field_name by force
  next
    case False
    have names: "names_ok t raw" using c by (rule collect_raw_names) (simp add: names_ok_def)
    from assms(1) t c False obtain m where m: "normalize_into rnd (known_type t) raw (base_of t True) = Ok m" "n = sorted_dict m"
      unfolding canonicalize_parameters_def
      by (auto simp: Let_def base_of_def default_parameters_eq [OF normalize_type_idem [OF t]] split: if_splits)
    note base = base_of_ok [OF False, of True rnd]
    have ok: "names_ok t m" "set (dict_keys m) = set (dict_keys (base_of t True)) \<union> set (dict_keys raw)"
      using normalize_into_ok [OF m(1) names] base by blast+
    have k: "k \<in> set (dict_keys m)" using assms(2) by (simp add: m(2) del: set_map)
    have "''field'' \<notin> set (dict_keys (base_of t True))"
    proof (cases "known_type t")
      case True
      then obtain ks where ks: "dict_get INDICATOR_PARAMETER_KEYS t = Some ks" by blast
      with base have "set (dict_keys (base_of t True)) \<subseteq> set ks" by blast
      with known_names_no_field [OF True] ks show ?thesis by (auto simp del: set_map)
    qed (simp add: unknown_base)
    with raw ok(2) k have "k \<noteq> ''field''" by auto
    moreover have "name_ok t k" using ok(1) k by (auto simp: names_ok_def)
    ultimately show ?thesis using no_field_name by blast
  qed
qed

section \<open>Stored columns\<close>

text \<open>What validation guarantees about the columns of a table.\<close>

definition settled_column :: "(real \<Rightarrow> real) \<Rightarrow> table_column \<Rightarrow> bool" where
  "settled_column rnd c \<longleftrightarrow> tc_column_type c \<in> {''PRICE'', ''INDICATOR'', ''STATE''} \<and>
     tc_view_mode c \<in> {''NUMBER'', ''DELTA'', ''STATUS'', ''COMPOSITE''} \<and>
     (tc_column_type c = ''INDICATOR'' \<or> tc_view_mode c = ''STATUS'' \<longrightarrow> tc_indicator_type c \<noteq> None) \<and>
     (case tc_indicator_type c of None \<Rightarrow> True
      | Some t \<Rightarrow> if tc_view_mode c = ''STATUS'' then \<exists>raw. canonicalize_state_parameters rnd t raw = Ok (tc_parameters c)
          else normalize_indicator_type t = Ok t \<and>
            (\<exists>n. canonicalize_parameters rnd t (as_object (calculation_parameters (tc_parameters c))) True = Ok n))"

lemma settled_position: "settled_column rnd c \<Longrightarrow> settled_column rnd (c\<lparr>tc_position := p\<rparr>)"
  by (simp add: settled_column_def split: option.splits)

lemma dividend_yield_type [simp]: "normalize_indicator_type ''DIVIDEND_YIELD'' = Ok ''DIVIDEND_YIELD''"
  by (simp add: normalize_indicator_type_def INDICATOR_ALIASES_def dict_get_or_def underscore_def Let_def text_eval)

lemma dividend_yield_parameters: "canonicalize_parameters rnd ''DIVIDEND_YIELD'' (as_object []) fill = Ok []"
  by (simp add: canonicalize_parameters_def as_object_def INDICATOR_PARAMETER_KEYS_def default_parameters_def DEFAULT_PARAMETER_MAP_def
      dict_get_or_def sorted_dict_def)

lemma calculation_Nil [simp]: "calculation_parameters [] = []"
  by (simp add: calculation_parameters_def)

lemma normalized_calculable:
  assumes "normalize_indicator_parameters rnd t ps = Ok c" "normalize_indicator_type t = Ok t"
  shows "\<exists>n. canonicalize_parameters rnd t (as_object (calculation_parameters c)) True = Ok n"
  using indicator_parameters_served [OF assms] by (auto simp: row_request_def)

lemma validated_settled:
  assumes "validate_column_request rnd reg q = Ok (tc_column_type c, tc_indicator_type c, tc_parameters c, tc_view_mode c)"
  shows "settled_column rnd c"
proof -
  from assms have kinds: "tc_column_type c \<in> {''PRICE'', ''INDICATOR'', ''STATE''}" "tc_view_mode c \<in> {''NUMBER'', ''DELTA'', ''STATUS'', ''COMPOSITE''}"
    by (auto simp: validate_column_request_def Let_def split: if_splits option.splits sum.splits)
  from assms have some: "tc_column_type c = ''INDICATOR'' \<or> tc_view_mode c = ''STATUS'' \<Longrightarrow> tc_indicator_type c \<noteq> None"
    by (auto simp: validate_column_request_def Let_def split: if_splits option.splits sum.splits)
  have "case tc_indicator_type c of None \<Rightarrow> True
      | Some t \<Rightarrow> if tc_view_mode c = ''STATUS'' then \<exists>raw. canonicalize_state_parameters rnd t raw = Ok (tc_parameters c)
          else normalize_indicator_type t = Ok t \<and>
            (\<exists>n. canonicalize_parameters rnd t (as_object (calculation_parameters (tc_parameters c))) True = Ok n)"
  proof (cases "tc_indicator_type c")
    case (Some t)
    show ?thesis
    proof (cases "tc_view_mode c = ''STATUS''")
      case True
      with assms Some show ?thesis
        by (auto simp: validate_column_request_def Let_def split: if_splits option.splits sum.splits)
    next
      case False
      with assms Some obtain i where i: "normalize_indicator_type i = Ok t" "normalize_indicator_parameters rnd t (cq_parameters q) = Ok (tc_parameters c)"
        by (auto simp: validate_column_request_def Let_def split: if_splits option.splits sum.splits)
      from normalized_calculable [OF i(2) normalize_type_idem [OF i(1)]] normalize_type_idem [OF i(1)] False Some show ?thesis by simp
    qed
  qed simp
  with kinds some show ?thesis by (simp add: settled_column_def)
qed

lemma default_settled:
  assumes "default_column rnd py_str settings k first item = Ok c"
  shows "settled_column rnd c"
proof -
  obtain p raw where e: "item = (p, raw)" by (cases item)
  from assms obtain s t where t: "normalize_indicator_type s = Ok t" "tc_indicator_type c = Some t" "tc_view_mode c = ''COMPOSITE''" "tc_column_type c = ''INDICATOR''"
      "(if t = ''DIVIDEND_YIELD'' then Ok [] else canonicalize_parameters rnd t (get_none (default_column_parameters settings) t) True) = Ok (tc_parameters c)"
    by (auto simp: default_column_def e simp del: if_split)
  note idem = normalize_type_idem [OF t(1)]
  have "\<exists>n. canonicalize_parameters rnd t (as_object (calculation_parameters (tc_parameters c))) True = Ok n"
  proof (cases "t = ''DIVIDEND_YIELD''")
    case True
    with t(5) have "tc_parameters c = []" by simp
    with True show ?thesis by (simp add: dividend_yield_parameters)
  next
    case False
    with t(5) have "canonicalize_parameters rnd t (get_none (default_column_parameters settings) t) True = Ok (tc_parameters c)" by simp
    from canonical_calculable [OF this idem, of True] show ?thesis .
  qed
  with t idem show ?thesis by (simp add: settled_column_def)
qed

interpretation settled_columns: column_property rnd "settled_column rnd" for rnd
  by unfold_locales (auto intro: validated_settled default_settled settled_position)

section \<open>The lookup of a column\<close>

definition selector_ok :: "(string, pyval) dict \<Rightarrow> bool" where
  "selector_ok ps = (case find (\<lambda>(k, v). lower (strip k) = ''field'') ps of
      None \<Rightarrow> True | Some (k, v) \<Rightarrow> (case v of VNone \<Rightarrow> True | VStr s \<Rightarrow> strip s \<noteq> [] | _ \<Rightarrow> False))"

lemma find_field: "find (\<lambda>(k, v). is_field_key k) (map (\<lambda>(k, v). (VStr k, v)) ps) =
    map_option (\<lambda>(k, v). (VStr k, v)) (find (\<lambda>(k, v). lower (strip k) = ''field'') ps)"
  by (induction ps) (auto simp: is_field_key_def)

lemma normalize_stored_eq:
  assumes "normalize_indicator_type t = Ok t"
  shows "normalize_indicator_parameters rnd t (as_object ps) =
    ebind (canonicalize_parameters rnd t (as_object (calculation_parameters ps)) True) (\<lambda>n.
      case find (\<lambda>(k, v). lower (strip k) = ''field'') ps of
        None \<Rightarrow> Ok n
      | Some (k, VNone) \<Rightarrow> Ok n
      | Some (k, v) \<Rightarrow> emap (\<lambda>f. dict_set ''field'' (VStr f) n) (normalize_field_selector v))"
proof -
  have d: "as_object ps = VDict (map (\<lambda>(k, v). (VStr k, v)) ps)" by (simp add: as_object_def)
  show ?thesis
  proof (cases "find (\<lambda>(k, v). lower (strip k) = ''field'') ps")
    case None
    then show ?thesis unfolding normalize_indicator_parameters_def as_object_calculation assms d pyval.case ebind_simps find_field by simp
  next
    case (Some p)
    obtain k v where "p = (k, v)" by (cases p)
    with Some show ?thesis unfolding normalize_indicator_parameters_def as_object_calculation assms d pyval.case ebind_simps find_field
      by (cases v) simp_all
  qed
qed

lemma calculation_selector_free: "(\<forall>k \<in> set (dict_keys n). lower (strip k) \<noteq> ''field'') \<Longrightarrow> calculation_parameters n = n"
  by (intro calculation_parameters_id) blast

lemma normalize_stored:
  assumes "normalize_indicator_type t = Ok t" "canonicalize_parameters rnd t (as_object (calculation_parameters ps)) True = Ok n"
  shows "selector_ok ps \<Longrightarrow> \<exists>c. normalize_indicator_parameters rnd t (as_object ps) = Ok c"
    and "\<not> selector_ok ps \<Longrightarrow> \<exists>e. normalize_indicator_parameters rnd t (as_object ps) = Raise e"
    and "normalize_indicator_parameters rnd t (as_object ps) = Ok c \<Longrightarrow> calculation_parameters c = n"
proof -
  note e = normalize_stored_eq [OF assms(1), of rnd ps, unfolded assms(2) ebind_simps]
  let ?found = "find (\<lambda>(k, v). lower (strip k) = ''field'') ps"
  show "\<exists>c. normalize_indicator_parameters rnd t (as_object ps) = Ok c" if "selector_ok ps"
    using that unfolding e selector_ok_def by (auto simp: normalize_field_selector_def split: option.splits pyval.splits)
  show "\<exists>e. normalize_indicator_parameters rnd t (as_object ps) = Raise e" if "\<not> selector_ok ps"
    using that unfolding e selector_ok_def by (auto simp: normalize_field_selector_def split: option.splits pyval.splits)
  have "\<forall>k \<in> set (dict_keys n). lower (strip k) \<noteq> ''field''"
    using canonical_selector_free [OF assms(2) [unfolded as_object_calculation]] by blast
  then have n: "calculation_parameters n = n" by (rule calculation_selector_free)
  show "calculation_parameters c = n" if "normalize_indicator_parameters rnd t (as_object ps) = Ok c"
  proof (cases ?found)
    case None
    with that n show ?thesis unfolding e by simp
  next
    case (Some p)
    obtain k v where p: "p = (k, v)" by (cases p)
    show ?thesis
    proof (cases "v = VNone")
      case True
      with that n Some p show ?thesis unfolding e by simp
    next
      case False
      with that Some p obtain f where "c = dict_set ''field'' (VStr f) n" unfolding e by (cases v) auto
      with n show ?thesis by simp
    qed
  qed
qed

text \<open>A status column of moving averages stores two named periods, which the indicator does not take.\<close>

definition is_ma_status :: "table_column \<Rightarrow> bool" where
  "is_ma_status c \<longleftrightarrow> tc_view_mode c = ''STATUS'' \<and> map_option normalize_indicator_type (tc_indicator_type c) = Some (Ok ''MA'')"

lemma ma_pair_refused:
  "canonicalize_parameters rnd ''MA'' (as_object [(''short_period'', VInt a), (''long_period'', VInt b)]) fill =
     Raise (bad_parameters ''Indicator parameters contain unsupported names.'')"
  by (simp add: canonicalize_parameters_def as_object_def INDICATOR_PARAMETER_KEYS_def parameter_name_def text_eval Let_def)

lemma settled_calculable:
  assumes "settled_column rnd c" "tc_indicator_type c = Some v"
  obtains t where "normalize_indicator_type v = Ok t" "t \<noteq> []"
    "\<not> is_ma_status c \<Longrightarrow> \<exists>n. canonicalize_parameters rnd t (as_object (calculation_parameters (tc_parameters c))) True = Ok n"
    "tc_view_mode c = ''STATUS'' \<Longrightarrow> \<not> is_ma_status c \<Longrightarrow> \<exists>k. parameter_key rnd digest v (as_object (calculation_parameters (tc_parameters c))) = Ok k"
    "is_ma_status c \<Longrightarrow> \<exists>a b. tc_parameters c = [(''short_period'', VInt a), (''long_period'', VInt b)]"
proof (cases "tc_view_mode c = ''STATUS''")
  case True
  with assms obtain raw where raw: "canonicalize_state_parameters rnd v raw = Ok (tc_parameters c)" by (auto simp: settled_column_def)
  then obtain t where t: "normalize_indicator_type v = Ok t" by (auto simp: canonicalize_state_parameters_def)
  show thesis
  proof (rule that [OF t])
    show "t \<noteq> []" using normalize_type_idem [OF t] by (auto simp: normalize_indicator_type_def text_eval)
    assume no: "\<not> is_ma_status c"
    with True t assms(2) have "t \<noteq> ''MA''" by (simp add: is_ma_status_def)
    with raw t have c: "canonicalize_parameters rnd t raw True = Ok (tc_parameters c)" by (simp add: canonicalize_state_parameters_def)
    note again = canonical_calculable [OF c normalize_type_idem [OF t]]
    show "\<exists>n. canonicalize_parameters rnd t (as_object (calculation_parameters (tc_parameters c))) True = Ok n" by (rule again)
    from again [of False] show "\<exists>k. parameter_key rnd digest v (as_object (calculation_parameters (tc_parameters c))) = Ok k"
      by (auto simp: parameter_key_eq [OF t])
  next
    assume "is_ma_status c"
    with t assms(2) have "normalize_indicator_type v = Ok ''MA''" by (simp add: is_ma_status_def)
    with raw obtain a b where "tc_parameters c = [(''short_period'', VInt a), (''long_period'', VInt b)]" by (rule ma_state_canonical)
    then show "\<exists>a b. tc_parameters c = [(''short_period'', VInt a), (''long_period'', VInt b)]" by blast
  qed
next
  case False
  with assms obtain n where t: "normalize_indicator_type v = Ok v"
      and n: "canonicalize_parameters rnd v (as_object (calculation_parameters (tc_parameters c))) True = Ok n"
    by (auto simp: settled_column_def)
  show thesis
  proof (rule that [OF t])
    show "v \<noteq> []" using t by (auto simp: normalize_indicator_type_def text_eval)
    show "\<exists>n. canonicalize_parameters rnd v (as_object (calculation_parameters (tc_parameters c))) True = Ok n" using n by blast
  next
    assume "is_ma_status c"
    with False show "\<exists>a b. tc_parameters c = [(''short_period'', VInt a), (''long_period'', VInt b)]" by (simp add: is_ma_status_def)
  qed (use False in simp)
qed

section \<open>When values can be computed\<close>

lemma unavailable_ok: "column_parameter_key rnd digest t ps = Ok k \<Longrightarrow> \<exists>v. unavailable_column_value rnd digest c t ps e = Ok v"
  by (simp add: unavailable_column_value_def)

lemma from_values_ok:
  "column_parameter_key rnd digest t ps = Ok k \<Longrightarrow> \<exists>v. column_value_from_values rnd digest c t ps values previous delta key = Ok v"
  unfolding column_value_from_values_def Let_def
  by (auto simp: unavailable_ok split: option.splits)

lemma from_variant_ok:
  "column_parameter_key rnd digest t ps = Ok k \<Longrightarrow> \<exists>v. column_value_from_variant rnd digest c t ps variant = Ok v"
  unfolding column_value_from_variant_def by (cases variant) (auto simp: unavailable_ok from_values_ok)

lemma from_mapping_ok:
  assumes "column_parameter_key rnd digest t ps = Ok k"
    and "traverse (\<lambda>(k, v). emap (Pair k) (to_float rnd v)) (filter (\<lambda>(k, v). case v of VInt n \<Rightarrow> True | VFloat f \<Rightarrow> True | _ \<Rightarrow> False) values) = Ok ns"
  shows "\<exists>v. column_value_from_mapping rnd digest c t ps values = Ok v"
  unfolding column_value_from_mapping_def assms ebind_simps
  by (simp add: unavailable_ok [OF assms(1)] from_values_ok [OF assms(1)])

text \<open>A snapshot that can be read, or whose contents are refused as invalid.\<close>

definition readable_snapshot :: "(real \<Rightarrow> real) \<Rightarrow> (string \<Rightarrow> (string, pyval) dict \<Rightarrow> string) \<Rightarrow> snapshot_row \<Rightarrow> bool" where
  "readable_snapshot rnd digest row \<longleftrightarrow> (case normalize_indicator_type (row_type row) of Inl e \<Rightarrow> False | Inr t \<Rightarrow> True) \<and>
     (case snapshot_variants rnd digest row of Inl e \<Rightarrow> is_api_error e | Inr vs \<Rightarrow> True)"

lemma wanted_periods:
  assumes "canonicalize_parameters rnd ''MA'' ps True = Ok c"
  shows "periods_ok (sorted_list_of_set (set (ma_periods c)))"
proof -
  from canonicalize_ma_shape [OF assms] consider n where "c = [(''period'', VInt n)]" "0 < n" "n \<le> MAX_INDICATOR_PERIOD"
    | ns where "c = [(''periods'', VList (map VInt ns))]" "periods_ok ns"
    unfolding ma_canonical_def by blast
  then show ?thesis
  proof cases
    case 1
    then show ?thesis by (simp add: ma_periods_def period_of_def periods_ok_def MAX_MA_PERIODS_def)
  next
    case 2
    then have "sorted_list_of_set (set ns) = ns" unfolding periods_ok_def by (metis sorted_list_of_set.idem_if_sorted_distinct)
    with 2 show ?thesis by simp
  qed
qed

lemma select_errors:
  assumes "canonicalize_parameters rnd v ps True = Ok n" "normalize_indicator_type v = Ok t" "readable_snapshot rnd digest row"
    and "select_snapshot_variant rnd digest row t (as_object n) = Raise e"
  shows "is_api_error e"
proof -
  note t = normalize_type_idem [OF assms(2)]
  have again: "canonicalize_parameters rnd t (as_object n) True = Ok n" using assms(1) _ assms(2) by (rule canonicalize_again) simp
  obtain k where key: "parameter_key rnd digest t (as_object n) = Ok k" using parameter_key_canonical [OF assms(1,2)] by blast
  have project: "project_ma_variant rnd digest u (ma_periods n) \<noteq> Raise e" if "t = ''MA''" for u
  proof -
    from again that have "periods_ok (sorted_list_of_set (set (ma_periods n)))" by (intro wanted_periods) simp
    from request_key_ok [OF ma_request_ok [OF this], of rnd digest]
    show ?thesis by (auto simp: project_ma_variant_def Let_def ma_request_def)
  qed
  show ?thesis
  proof (cases "snapshot_variants rnd digest row")
    case (Inl e')
    with assms(3,4) show ?thesis unfolding select_snapshot_variant_def t again key ebind_simps
      by (simp add: readable_snapshot_def)
  next
    case (Inr vs)
    from assms(4) project show ?thesis unfolding select_snapshot_variant_def t again key ebind_simps Inr
      by (auto simp: Let_def split: option.splits if_splits) 
  qed
qed

lemma matching_total:
  assumes "canonicalize_parameters rnd v ps True = Ok n" "normalize_indicator_type v = Ok t" "\<forall>row \<in> set rows. readable_snapshot rnd digest row"
  shows "\<exists>m. matching_snapshot rnd digest rows t n = Ok m"
  using assms(3)
proof (induction rows)
  case (Cons row rows)
  then obtain m where m: "matching_snapshot rnd digest rows t n = Ok m" by auto
  from Cons(2) obtain own where own: "normalize_indicator_type (row_type row) = Ok own"
    by (auto simp: readable_snapshot_def split: sum.splits)
  show ?case
  proof (cases "select_snapshot_variant rnd digest row t (as_object n)")
    case (Inl e)
    with select_errors [OF assms(1,2) _ Inl] Cons(2) obtain code msg st where "e = ApiError code msg st"
      by (auto simp: is_api_error_def split: exn.splits)
    with Inl m own show ?thesis by simp
  next
    case (Inr r)
    with m own show ?thesis by (cases r) simp_all
  qed
qed simp

text \<open>The yield of a security is a result or one of the three errors the view shows.\<close>

lemma sum_events_count: "sum_events dec lo hi es (t, n) = Inr (u, k) \<Longrightarrow> k \<le> n + length es"
proof (induction es arbitrary: t n)
  case (Cons e es)
  then show ?case by (auto split: if_splits sum.splits) (fastforce dest: Cons.IH)+
qed simp

lemma sum_events_error: "sum_events dec lo hi es acc = Inl (code, m) \<Longrightarrow> code = ''INVALID_DIVIDEND_DATA''"
  by (induction dec lo hi es acc rule: sum_events.induct) (auto simp: to_decimal_def split: if_splits sum.splits fl.splits)

lemma calculate_ttm_outcome:
  "calculate_ttm_dividend_yield dec es price as_of source = Inl (code, m) \<Longrightarrow> code \<in> set yield_error_codes"
  "calculate_ttm_dividend_yield dec es price as_of source = Inr r \<Longrightarrow> yr_event_count r \<le> length es"
proof -
  obtain lo hi where w: "ttm_window (utc_date as_of) = (lo, hi)" by (cases "ttm_window (utc_date as_of)")
  show "code \<in> set yield_error_codes" if "calculate_ttm_dividend_yield dec es price as_of source = Inl (code, m)"
    using that unfolding calculate_ttm_dividend_yield_def w
    by (auto simp: to_decimal_def yield_error_codes_def split: if_splits sum.splits fl.splits dest: sum_events_error)
  show "yr_event_count r \<le> length es" if "calculate_ttm_dividend_yield dec es price as_of source = Inr r"
    using that unfolding calculate_ttm_dividend_yield_def w
    by (auto split: if_splits sum.splits prod.splits dest: sum_events_count)
qed

lemma dividend_events_count: "length (dividend_events db i lo hi) \<le> length (mr_events db)"
  by (simp add: dividend_events_def)

lemma yield_outcome:
  assumes "calculate_for_security dec db i = r"
  shows "(\<exists>code m st. r = Raise (ApiError code m st) \<and> code \<in> set yield_error_codes) \<or>
    (\<exists>x. r = Ok x \<and> yr_event_count x \<le> length (mr_events db))"
proof (cases "chosen_price (latest_quote db i) (latest_daily_bar db i)")
  case None
  with assms have "r = Raise price_not_found" by (simp add: calculate_for_security_def)
  then show ?thesis by (simp add: price_not_found_def yield_error_codes_def)
next
  case (Some p)
  obtain price as_of source where p: "p = (price, as_of, source)" by (cases p)
  obtain lo hi where w: "ttm_window (utc_date as_of) = (lo, hi)" by (cases "ttm_window (utc_date as_of)")
  let ?es = "dividend_events db i lo hi"
  have r: "r = as_api_error (calculate_ttm_dividend_yield dec ?es price as_of source)"
    using assms Some p w by (simp add: calculate_for_security_def)
  show ?thesis
  proof (cases "calculate_ttm_dividend_yield dec ?es price as_of source")
    case (Inl err)
    obtain code m where "err = (code, m)" by (cases err)
    with Inl calculate_ttm_outcome(1) r show ?thesis by (simp add: as_api_error_def)
  next
    case (Inr x)
    from calculate_ttm_outcome(2) [OF Inr] dividend_events_count [of db i lo hi] Inr r show ?thesis by (simp add: as_api_error_def)
  qed
qed

lemma yield_projection_ok:
  assumes "\<forall>n \<le> length (mr_events market). is_finite64 (rnd (real n))"
    and "(case results of None \<Rightarrow> calculate_for_security dec market i
        | Some d \<Rightarrow> (case dict_get d i of None \<Rightarrow> Raise price_not_found | Some r \<Rightarrow> r)) = calculate_for_security dec market i"
  shows "\<exists>values ns. dividend_yield_projection rnd dec market results i = Ok values \<and>
    traverse (\<lambda>(k, v). emap (Pair k) (to_float rnd v)) (filter (\<lambda>(k, v). case v of VInt n \<Rightarrow> True | VFloat f \<Rightarrow> True | _ \<Rightarrow> False) values) = Ok ns"
  using yield_outcome [OF refl, of dec market i]
proof
  assume "\<exists>code m st. calculate_for_security dec market i = Raise (ApiError code m st) \<and> code \<in> set yield_error_codes"
  then obtain code m st where e: "calculate_for_security dec market i = Raise (ApiError code m st)" "code \<in> set yield_error_codes" by blast
  show ?thesis unfolding dividend_yield_projection_def assms(2) Let_def unfolding e(1) using e(2) by (simp add: dividend_yield_error_def)
next
  assume "\<exists>x. calculate_for_security dec market i = Ok x \<and> yr_event_count x \<le> length (mr_events market)"
  then obtain x where x: "calculate_for_security dec market i = Ok x" "yr_event_count x \<le> length (mr_events market)" by blast
  with assms(1) have "is_finite64 (rnd (real (yr_event_count x)))" by blast
  then show ?thesis unfolding dividend_yield_projection_def assms(2) Let_def unfolding x(1) by (simp add: dividend_yield_data_def Let_def)
qed

lemma column_target_outcome:
  assumes "settled_column rnd c" "is_indicator_column c"
  shows "is_ma_status c \<or> \<not> selector_ok (tc_parameters c) \<Longrightarrow> \<exists>e. column_target rnd c = Raise e"
    and "\<not> is_ma_status c \<Longrightarrow> selector_ok (tc_parameters c) \<Longrightarrow> \<exists>v t n ps. tc_indicator_type c = Some v \<and> normalize_indicator_type v = Ok t \<and>
      canonicalize_parameters rnd t (as_object (calculation_parameters (tc_parameters c))) True = Ok n \<and>
      column_target rnd c = Ok (t, ps) \<and> calculation_parameters ps = n"
proof -
  from assms(2) obtain v where v: "tc_indicator_type c = Some v" by (auto simp: is_indicator_column_def or_else_def split: option.splits)
  obtain t where t: "normalize_indicator_type v = Ok t" "t \<noteq> []"
    and ok: "\<not> is_ma_status c \<Longrightarrow> \<exists>n. canonicalize_parameters rnd t (as_object (calculation_parameters (tc_parameters c))) True = Ok n"
    and ma: "is_ma_status c \<Longrightarrow> \<exists>a b. tc_parameters c = [(''short_period'', VInt a), (''long_period'', VInt b)]"
    using settled_calculable [OF assms(1) v] by metis
  note idem = normalize_type_idem [OF t(1)]
  have target: "column_target rnd c = emap (Pair t) (normalize_indicator_parameters rnd t (as_object (tc_parameters c)))"
    by (simp add: column_target_def v t(1))
  show "\<exists>e. column_target rnd c = Raise e" if bad: "is_ma_status c \<or> \<not> selector_ok (tc_parameters c)"
  proof (cases "is_ma_status c")
    case True
    with ma obtain a b where ps: "tc_parameters c = [(''short_period'', VInt a), (''long_period'', VInt b)]" by blast
    from True v t(1) have "t = ''MA''" by (simp add: is_ma_status_def)
    then show ?thesis unfolding target normalize_stored_eq [OF idem] ps ma_state_calculation by (simp add: ma_pair_refused)
  next
    case False
    with ok obtain n where n: "canonicalize_parameters rnd t (as_object (calculation_parameters (tc_parameters c))) True = Ok n" by blast
    from normalize_stored(2) [OF idem n] bad False show ?thesis by (auto simp: target)
  qed
  assume good: "\<not> is_ma_status c" "selector_ok (tc_parameters c)"
  from ok [OF good(1)] obtain n where n: "canonicalize_parameters rnd t (as_object (calculation_parameters (tc_parameters c))) True = Ok n" by blast
  from normalize_stored(1) [OF idem n good(2)] obtain ps where ps: "normalize_indicator_parameters rnd t (as_object (tc_parameters c)) = Ok ps" by blast
  from normalize_stored(3) [OF idem n ps] ps n v t(1)
  show "\<exists>v t n ps. tc_indicator_type c = Some v \<and> normalize_indicator_type v = Ok t \<and>
      canonicalize_parameters rnd t (as_object (calculation_parameters (tc_parameters c))) True = Ok n \<and>
      column_target rnd c = Ok (t, ps) \<and> calculation_parameters ps = n"
    unfolding target by simp
qed

lemma indicator_projection_outcome:
  assumes "settled_column rnd c" "is_indicator_column c" "\<forall>row \<in> set snapshots. readable_snapshot rnd digest row"
    and "\<exists>values ns. dividend_yield_projection rnd dec market results i = Ok values \<and>
      traverse (\<lambda>(k, v). emap (Pair k) (to_float rnd v)) (filter (\<lambda>(k, v). case v of VInt n \<Rightarrow> True | VFloat f \<Rightarrow> True | _ \<Rightarrow> False) values) = Ok ns"
  shows "(\<exists>v. indicator_projection rnd dec digest market results snapshots i c = Ok v) \<longleftrightarrow>
    \<not> is_ma_status c \<and> selector_ok (tc_parameters c)"
proof (cases "is_ma_status c \<or> \<not> selector_ok (tc_parameters c)")
  case True
  from column_target_outcome(1) [OF assms(1,2) True] True show ?thesis by (auto simp: indicator_projection_def)
next
  case False
  then have good: "\<not> is_ma_status c" "selector_ok (tc_parameters c)" by blast+
  from column_target_outcome(2) [OF assms(1,2) good] obtain v t n ps where c: "normalize_indicator_type v = Ok t"
    "canonicalize_parameters rnd t (as_object (calculation_parameters (tc_parameters c))) True = Ok n"
    "column_target rnd c = Ok (t, ps)" "calculation_parameters ps = n" by blast
  note idem = normalize_type_idem [OF c(1)]
  have key: "column_parameter_key rnd digest t ps = Ok (''v1_'' @ digest t (key_content t n))"
    unfolding column_parameter_key_def c(4) by (rule parameter_key_canonical [OF c(2) idem])
  have "\<exists>v. indicator_projection rnd dec digest market results snapshots i c = Ok v"
  proof (cases "t = ''DIVIDEND_YIELD''")
    case True
    from assms(4) obtain ys ns where y: "dividend_yield_projection rnd dec market results i = Ok ys"
      "traverse (\<lambda>(k, v). emap (Pair k) (to_float rnd v)) (filter (\<lambda>(k, v). case v of VInt n \<Rightarrow> True | VFloat f \<Rightarrow> True | _ \<Rightarrow> False) ys) = Ok ns" by blast
    from from_mapping_ok [OF key y(2)] obtain w where "column_value_from_mapping rnd digest c t ps ys = Ok w" by blast
    with True y(1) show ?thesis unfolding indicator_projection_def c(3) by simp
  next
    case False
    obtain m where m: "matching_snapshot rnd digest snapshots t n = Ok m" using matching_total [OF c(2) idem assms(3)] by blast
    from from_variant_ok [OF key] obtain w where "column_value_from_variant rnd digest c t ps m = Ok w" by blast
    with False m show ?thesis unfolding indicator_projection_def c(3) ebind_simps prod.case c(4) by simp
  qed
  with good show ?thesis by simp
qed

lemma status_value_outcome:
  assumes "settled_column rnd c" "tc_view_mode c = ''STATUS''"
  shows "(\<exists>v. status_value rnd digest sha states c = Ok v) \<longleftrightarrow> \<not> (is_ma_status c \<and> matched_state sha states c = None)"
proof (cases "matched_state sha states c")
  case None
  from assms obtain v where v: "tc_indicator_type c = Some v" by (auto simp: settled_column_def)
  obtain t where t: "normalize_indicator_type v = Ok t" "t \<noteq> []"
    and ok: "\<not> is_ma_status c \<Longrightarrow> \<exists>k. parameter_key rnd digest v (as_object (calculation_parameters (tc_parameters c))) = Ok k"
    and ma: "is_ma_status c \<Longrightarrow> \<exists>a b. tc_parameters c = [(''short_period'', VInt a), (''long_period'', VInt b)]"
    using settled_calculable [OF assms(1) v, of digest] assms(2) by metis
  have "v \<noteq> []" using t(1) by (auto simp: normalize_indicator_type_def text_eval)
  then have type: "text_or (tc_indicator_type c) ''STATE'' = v" by (cases v) (simp_all add: v text_or_def or_else_def)
  show ?thesis
  proof (cases "is_ma_status c")
    case True
    with ma obtain a b where ps: "tc_parameters c = [(''short_period'', VInt a), (''long_period'', VInt b)]" by blast
    from True v t(1) have "t = ''MA''" by (simp add: is_ma_status_def)
    with True None show ?thesis
      by (simp add: status_value_def type unavailable_column_value_def column_parameter_key_def parameter_key_eq [OF t(1)] ps ma_state_calculation ma_pair_refused)
  next
    case False
    from ok [OF this] obtain k where "column_parameter_key rnd digest v (tc_parameters c) = Ok k" by (auto simp: column_parameter_key_def)
    from unavailable_ok [OF this] False None show ?thesis by (simp add: status_value_def type)
  qed
next
  case (Some s)
  then show ?thesis by (simp add: status_value_def Let_def)
qed

text \<open>A published state: its parameters are accepted as parameters of a state of its indicator.\<close>

definition readable_state :: "(real \<Rightarrow> real) \<Rightarrow> state_row \<Rightarrow> bool" where
  "readable_state rnd s \<longleftrightarrow> (case canonicalize_state_parameters rnd (sv_indicator s) (VDict (sv_parameters s)) of
     Inl e \<Rightarrow> False | Inr ps \<Rightarrow> True)"

lemma readable_stateE:
  assumes "readable_state rnd s"
  obtains t own where "normalize_indicator_type (sv_indicator s) = Ok t"
    "canonicalize_state_parameters rnd (sv_indicator s) (VDict (sv_parameters s)) = Ok own"
    "canonicalize_state_parameters rnd t (VDict (sv_parameters s)) = Ok own"
proof -
  from assms obtain own where own: "canonicalize_state_parameters rnd (sv_indicator s) (VDict (sv_parameters s)) = Ok own"
    by (auto simp: readable_state_def split: sum.splits)
  then obtain t where t: "normalize_indicator_type (sv_indicator s) = Ok t" by (auto simp: canonicalize_state_parameters_def)
  from own have "canonicalize_state_parameters rnd t (VDict (sv_parameters s)) = Ok own"
    unfolding canonicalize_state_parameters_def t normalize_type_idem [OF t] ebind_simps .
  with t own show thesis by (rule that)
qed

lemma state_matches_total:
  assumes "settled_column rnd c" "readable_state rnd s"
  shows "\<exists>b. state_matches_column rnd sha s c = Ok b"
proof (cases "upper (tc_view_mode c) = ''STATUS'' \<or> upper (tc_column_type c) = ''STATE'' \<or> sv_status s \<noteq> ACTIVE \<or>
    upper (tc_column_type c) \<notin> {''INDICATOR'', ''STATE''}")
  case True
  then show ?thesis unfolding state_matches_column_def Let_def by (auto split: option.splits)
next
  case False
  obtain own_type own where s: "normalize_indicator_type (sv_indicator s) = Ok own_type"
    "canonicalize_state_parameters rnd own_type (VDict (sv_parameters s)) = Ok own"
    using readable_stateE [OF assms(2)] by metis
  have mode: "tc_view_mode c \<noteq> ''STATUS''"
  proof
    assume "tc_view_mode c = ''STATUS''"
    moreover have "upper ''STATUS'' = ''STATUS''" by code_simp
    ultimately show False using False by simp
  qed
  show ?thesis
  proof (cases "tc_indicator_type c")
    case None
    with False show ?thesis unfolding state_matches_column_def Let_def by (auto simp: column_type_text_def)
  next
    case (Some v)
    with assms(1) mode obtain n where v: "normalize_indicator_type v = Ok v"
      "canonicalize_parameters rnd v (as_object (calculation_parameters (tc_parameters c))) True = Ok n" by (auto simp: settled_column_def)
    from False Some v s show ?thesis unfolding state_matches_column_def Let_def
      by (cases "v = own_type") (auto simp: column_type_text_def unless_unreadable_def)
  qed
qed

lemma defaults_errors: "canonicalize_parameters rnd v VNone fill = Raise e \<Longrightarrow> is_api_error e"
proof -
  assume raised: "canonicalize_parameters rnd v VNone fill = Raise e"
  show ?thesis
  proof (cases "normalize_indicator_type v")
    case (Inl e')
    with raised show ?thesis
      by (auto simp: canonicalize_parameters_def normalize_indicator_type_def bad_parameters_def is_api_error_def Let_def split: if_splits)
  next
    case (Inr t)
    note idem = normalize_type_idem [OF Inr]
    from raised Inr show ?thesis
      by (auto simp: canonicalize_parameters_def default_parameters_eq [OF idem] default_ma canonicalize_ma_def bad_parameters_def is_api_error_def Let_def
          split: if_splits option.splits)
  qed
qed

lemma default_state_total:
  assumes "readable_state rnd s"
  shows "\<exists>b. is_default_state rnd s = Ok b"
proof -
  obtain own where own: "canonicalize_state_parameters rnd (sv_indicator s) (VDict (sv_parameters s)) = Ok own"
    using readable_stateE [OF assms] by metis
  show ?thesis
  proof (cases "canonicalize_parameters rnd (sv_indicator s) VNone True")
    case (Inl e)
    from defaults_errors [OF this] obtain code m st where "e = ApiError code m st" by (auto simp: is_api_error_def split: exn.splits)
    with Inl own show ?thesis by (auto simp: is_default_state_def)
  next
    case (Inr d)
    with own show ?thesis by (auto simp: is_default_state_def)
  qed
qed

lemma traverse_ok_iff: "(\<exists>ys. traverse f xs = Ok ys) \<longleftrightarrow> (\<forall>x \<in> set xs. \<exists>y. f x = Ok y)"
  by (induction xs) auto

lemma states_of_column_total:
  assumes "settled_column rnd c" "\<forall>s \<in> set states. readable_state rnd s"
  shows "\<exists>ms. states_of_column rnd sha states c = Ok ms"
proof -
  have "\<forall>s \<in> set states. \<exists>y. emap (Pair s) (state_matches_column rnd sha s c) = Ok y"
    using state_matches_total [OF assms(1)] assms(2) by simp
  then show ?thesis unfolding states_of_column_def traverse_ok_iff [symmetric] by auto
qed

lemma visible_states_total:
  assumes "\<forall>c \<in> set columns. settled_column rnd c" "\<forall>s \<in> set states. readable_state rnd s"
  shows "\<exists>vs. visible_states rnd sha states columns = Ok vs"
proof -
  have "\<forall>c \<in> set columns. \<exists>ms. states_of_column rnd sha states c = Ok ms" using states_of_column_total assms by blast
  then obtain selected where a: "traverse (states_of_column rnd sha states) columns = Ok selected" unfolding traverse_ok_iff [symmetric] by blast
  have "\<forall>s \<in> set (filter (\<lambda>s. sv_status s = ACTIVE) states). \<exists>y. emap (Pair s) (is_default_state rnd s) = Ok y"
    using default_state_total assms(2) by simp
  then obtain ds where "traverse (\<lambda>s. emap (Pair s) (is_default_state rnd s)) (filter (\<lambda>s. sv_status s = ACTIVE) states) = Ok ds"
    unfolding traverse_ok_iff [symmetric] by blast
  with a show ?thesis by (simp add: visible_states_def)
qed

section \<open>When a table can be shown\<close>

text \<open>The rows of other services that the view reads.\<close>

definition view_rows_ok :: "(real \<Rightarrow> real) \<Rightarrow> (string \<Rightarrow> (string, pyval) dict \<Rightarrow> string) \<Rightarrow> view_db \<Rightarrow> bool" where
  "view_rows_ok rnd digest db \<longleftrightarrow>
     distinct (map qs_id (mr_quotes (vw_market db))) \<and> distinct (map br_id (mr_bars (vw_market db))) \<and>
     (\<forall>n \<in> set [0..<Suc (length (mr_events (vw_market db)))]. is_finite64 (rnd (real n))) \<and>
     (\<forall>e \<in> set (vw_snapshots db). readable_snapshot rnd digest (sn_row e)) \<and>
     (\<forall>p \<in> set (vw_states db). \<forall>s \<in> set (current_rows (snd p) False None None). readable_state rnd s)"

text \<open>A column whose stored parameters the view cannot turn into a lookup.\<close>

definition broken_column :: "(string \<Rightarrow> (string, pyval) dict \<Rightarrow> string) \<Rightarrow> state_row list \<Rightarrow> table_column \<Rightarrow> bool" where
  "broken_column sha states c \<longleftrightarrow>
     is_indicator_column c \<and> (is_ma_status c \<or> \<not> selector_ok (tc_parameters c)) \<or>
     is_status_column c \<and> is_ma_status c \<and> matched_state sha states c = None"

lemma latest_indicators_readable:
  "view_rows_ok rnd digest db \<Longrightarrow> row \<in> set (latest_indicators db adjustment i) \<Longrightarrow> readable_snapshot rnd digest row"
  by (auto simp: view_rows_ok_def latest_indicators_def Let_def)

lemma current_states_readable:
  "view_rows_ok rnd digest db \<Longrightarrow> s \<in> set (current_states db adjustment i) \<Longrightarrow> readable_state rnd s"
  unfolding view_rows_ok_def current_states_def
  by (cases "dict_get (vw_states db) (i, adjustment)") (force dest: map_of_SomeD)+

lemma dividend_results_total:
  assumes "\<forall>c \<in> set columns. settled_column rnd c"
  shows "\<exists>results. dividend_results dec market columns ids = Ok results"
proof -
  have "\<exists>t. column_type_text (tc_indicator_type c) = Ok t" if "c \<in> set columns" for c
  proof (cases "tc_indicator_type c")
    case (Some v)
    from that assms have "settled_column rnd c" by blast
    from settled_calculable [OF this Some] obtain t where "normalize_indicator_type v = Ok t" by metis
    with Some show ?thesis by (simp add: column_type_text_def)
  qed (simp add: column_type_text_def)
  then have "\<forall>c \<in> set (filter (\<lambda>c. upper (tc_column_type c) = ''INDICATOR'') columns). \<exists>t. column_type_text (tc_indicator_type c) = Ok t" by simp
  then show ?thesis unfolding dividend_results_def traverse_ok_iff [symmetric] by auto
qed

lemma dividend_results_agree:
  assumes "view_rows_ok rnd digest db" "dividend_results dec (vw_market db) columns ids = Ok results" "i \<in> set ids"
  shows "(case results of None \<Rightarrow> calculate_for_security dec (vw_market db) i
      | Some d \<Rightarrow> (case dict_get d i of None \<Rightarrow> Raise price_not_found | Some r \<Rightarrow> r)) = calculate_for_security dec (vw_market db) i"
proof (cases results)
  case (Some d)
  let ?m = "vw_market db"
  from assms(2) Some have d: "d = calculate_for_securities dec ?m (Some (latest_quotes_batch ?m ids)) (Some (latest_daily_bars_batch ?m ids)) ids"
    by (auto simp: dividend_results_def split: if_splits)
  have keys: "distinct (map qs_id (mr_quotes ?m))" "distinct (map br_id (mr_bars ?m))" using assms(1) by (simp_all add: view_rows_ok_def)
  have "dict_get d i = Some (calculate_for_security dec ?m i)"
    unfolding d using assms(3) latest_quotes_batch_lookup [OF keys(1)] latest_daily_bars_batch_lookup [OF keys(2)]
    by (intro calculate_for_securities_lookup) simp_all
  with Some show ?thesis by simp
qed simp

lemma settled_mode: "settled_column rnd c \<Longrightarrow> is_status_column c \<Longrightarrow> tc_view_mode c = ''STATUS''"
proof -
  assume "settled_column rnd c" "is_status_column c"
  moreover have "upper ''NUMBER'' \<noteq> ''STATUS''" "upper ''DELTA'' \<noteq> ''STATUS''" "upper ''COMPOSITE'' \<noteq> ''STATUS''" by code_simp+
  ultimately show ?thesis by (auto simp: settled_column_def is_status_column_def)
qed

lemma stock_detail_outcome:
  assumes "\<forall>c \<in> set columns. settled_column rnd c" "view_rows_ok rnd digest db"
    and "dividend_results dec (vw_market db) columns ids = Ok results" "ws_security_id w \<in> set ids"
  shows "(\<exists>v. stock_detail rnd dec digest sha db now adjustment columns ids results w = Ok v) \<longleftrightarrow>
    (\<forall>c \<in> set columns. \<not> broken_column sha (current_states db adjustment (ws_security_id w)) c)"
proof -
  let ?i = "ws_security_id w"
  let ?states = "current_states db adjustment ?i" and ?snapshots = "latest_indicators db adjustment ?i"
  let ?m = "vw_market db"
  have finite: "\<forall>n \<le> length (mr_events ?m). is_finite64 (rnd (real n))" using assms(2) by (auto simp: view_rows_ok_def)
  note yield = yield_projection_ok [where rnd = rnd, OF finite dividend_results_agree [OF assms(2-4)]]
  have snapshots: "\<forall>row \<in> set ?snapshots. readable_snapshot rnd digest row" using latest_indicators_readable [OF assms(2)] by blast
  have states: "\<forall>s \<in> set ?states. readable_state rnd s" using current_states_readable [OF assms(2)] by blast
  have indicators: "(\<exists>vs. indicator_projections rnd dec digest ?m results columns ?snapshots ?i = Ok vs) \<longleftrightarrow>
      (\<forall>c \<in> set columns. is_indicator_column c \<longrightarrow> \<not> is_ma_status c \<and> selector_ok (tc_parameters c))"
  proof -
    have "(\<exists>vs. indicator_projections rnd dec digest ?m results columns ?snapshots ?i = Ok vs) \<longleftrightarrow>
        (\<exists>vs. traverse (indicator_projection rnd dec digest ?m results ?snapshots ?i) (filter is_indicator_column columns) = Ok vs)"
      by (auto simp: indicator_projections_def)
    also have "\<dots> \<longleftrightarrow> (\<forall>c \<in> set (filter is_indicator_column columns). \<exists>v. indicator_projection rnd dec digest ?m results ?snapshots ?i c = Ok v)"
      by (rule traverse_ok_iff)
    finally show ?thesis using indicator_projection_outcome [OF _ _ snapshots yield] assms(1) by auto
  qed
  have statuses: "(\<exists>vs. traverse (\<lambda>c. emap (Pair (tc_id c)) (status_value rnd digest sha ?states c)) (filter is_status_column columns) = Ok vs) \<longleftrightarrow>
      (\<forall>c \<in> set columns. is_status_column c \<longrightarrow> \<not> (is_ma_status c \<and> matched_state sha ?states c = None))"
  proof -
    have "(\<exists>v. status_value rnd digest sha ?states c = Ok v) \<longleftrightarrow> \<not> (is_ma_status c \<and> matched_state sha ?states c = None)"
      if "c \<in> set columns" "is_status_column c" for c
      using that assms(1) by (intro status_value_outcome settled_mode) blast+
    then show ?thesis unfolding traverse_ok_iff by auto
  qed
  obtain visible where visible: "visible_states rnd sha ?states columns = Ok visible" using visible_states_total [OF assms(1) states] by blast
  have "\<forall>c \<in> set (filter (\<lambda>c. upper (tc_column_type c) \<in> {''INDICATOR'', ''STATE''}) columns).
      \<exists>v. emap (Pair (tc_id c)) (states_of_column rnd sha ?states c) = Ok v"
    using states_of_column_total [OF _ states] assms(1) by simp
  then obtain column_states where column_states: "traverse (\<lambda>c. emap (Pair (tc_id c)) (states_of_column rnd sha ?states c))
      (filter (\<lambda>c. upper (tc_column_type c) \<in> {''INDICATOR'', ''STATE''}) columns) = Ok column_states"
    unfolding traverse_ok_iff [symmetric] by blast
  have "(\<exists>v. stock_detail rnd dec digest sha db now adjustment columns ids results w = Ok v) \<longleftrightarrow>
      (\<exists>vs. indicator_projections rnd dec digest ?m results columns ?snapshots ?i = Ok vs) \<and>
      (\<exists>vs. traverse (\<lambda>c. emap (Pair (tc_id c)) (status_value rnd digest sha ?states c)) (filter is_status_column columns) = Ok vs)"
    unfolding stock_detail_def Let_def visible column_states by auto
  then show ?thesis unfolding indicators statuses broken_column_def by blast
qed

text \<open>The columns of a reachable account are settled, so its tables can be judged by \<open>broken_column\<close>.\<close>

lemma detail_result:
  assumes "\<forall>c \<in> set (wd_columns (vw_watch db)). settled_column rnd c" "view_rows_ok rnd digest db"
    and "owned (vw_watch db) k u = Ok t"
  shows "(\<exists>v. detail rnd dec digest sha db now u k = Ok v) \<longleftrightarrow>
    (\<forall>w \<in> set (list_symbols (vw_watch db) k). \<forall>c \<in> set (list_columns (vw_watch db) k).
       \<not> broken_column sha (current_states db (user_adjustment db u) (ws_security_id w)) c)"
proof -
  let ?ws = "list_symbols (vw_watch db) k" and ?cs = "list_columns (vw_watch db) k" and ?a = "user_adjustment db u"
  let ?ids = "map ws_security_id ?ws"
  have settled: "\<forall>c \<in> set ?cs. settled_column rnd c" using assms(1) by (auto simp: list_columns_def)
  obtain results where results: "dividend_results dec (vw_market db) ?cs ?ids = Ok results"
    using dividend_results_total [OF settled] by blast
  have "(\<exists>v. detail rnd dec digest sha db now u k = Ok v) \<longleftrightarrow>
      (\<exists>vs. traverse (stock_detail rnd dec digest sha db now ?a ?cs ?ids results) ?ws = Ok vs)"
    unfolding detail_def assms(3) Let_def results by auto
  also have "\<dots> \<longleftrightarrow> (\<forall>w \<in> set ?ws. \<exists>v. stock_detail rnd dec digest sha db now ?a ?cs ?ids results w = Ok v)"
    by (rule traverse_ok_iff)
  finally show ?thesis using stock_detail_outcome [OF settled assms(2) results] by simp
qed

section \<open>The view and the rest of the account\<close>

text \<open>
  C17: In every reachable account the detail of an owned table is shown, whatever columns validation
  let in, unless one of its columns is broken for one of its securities: an indicator column that shows a
  state of moving averages or carries a selector that is not text, or a status column of moving
  averages whose state is not published yet. One such column makes the whole table unreadable.
\<close>

theorem detail_outcome:
  assumes "watch_ok old" "\<forall>c \<in> set (wd_columns old). settled_column rnd c"
    and "watch_steps rnd py_str digests renderers fromiso reg old (vw_watch db)"
    and "view_rows_ok rnd digest db" "owned (vw_watch db) k u = Ok t"
  shows "(\<exists>v. detail rnd dec digest sha db now u k = Ok v) \<longleftrightarrow>
    (\<forall>w \<in> set (list_symbols (vw_watch db) k). \<forall>c \<in> set (list_columns (vw_watch db) k).
       \<not> broken_column sha (current_states db (user_adjustment db u) (ws_security_id w)) c)"
  by (rule detail_result [OF settled_columns.reachable [OF assms(3,1,2)] assms(4,5)])

text \<open>
  C18: In every reachable account an indicator column whose lookup succeeds looks up exactly the
  variant that the calculation demand asks for: the same type and, without the selector, the same
  parameters. It succeeds for every indicator column, the ones in status mode included, except two
  kinds, for which it raises: columns that show a state of moving averages, and columns whose selector
  is not text. Only the dividend yield asks for no calculation.
\<close>

theorem view_demand_agree:
  assumes "watch_ok old" "\<forall>c \<in> set (wd_columns old). settled_column rnd c"
    and "watch_steps rnd py_str digests renderers fromiso reg old db" "c \<in> set (wd_columns db)"
    and "is_indicator_column c"
  shows "if is_ma_status c \<or> \<not> selector_ok (tc_parameters c) then \<exists>e. column_target rnd c = Raise e
    else \<exists>t ps. column_target rnd c = Ok (t, ps) \<and>
      (if no_demand (tc_indicator_type c) then column_demand rnd c = Ok None
       else \<exists>q. column_demand rnd c = Ok (Some q) \<and> normalize_indicator_type (ir_type q) = Ok t \<and>
         ir_parameters q = calculation_parameters ps)"
proof (cases "is_ma_status c \<or> \<not> selector_ok (tc_parameters c)")
  case True
  have "settled_column rnd c" using settled_columns.reachable [OF assms(3,1,2)] assms(4) by blast
  from column_target_outcome(1) [OF this assms(5) True] True show ?thesis by simp
next
  case False
  have settled: "settled_column rnd c" using settled_columns.reachable [OF assms(3,1,2)] assms(4) by blast
  from False column_target_outcome(2) [OF settled assms(5)] obtain v t n ps where v: "tc_indicator_type c = Some v"
    "normalize_indicator_type v = Ok t" "canonicalize_parameters rnd t (as_object (calculation_parameters (tc_parameters c))) True = Ok n"
    "column_target rnd c = Ok (t, ps)" "calculation_parameters ps = n" by blast
  have "\<exists>q. column_demand rnd c = Ok (Some q) \<and> normalize_indicator_type (ir_type q) = Ok t \<and>
      ir_parameters q = calculation_parameters ps" if dem: "\<not> no_demand (tc_indicator_type c)"
  proof (cases "tc_view_mode c = ''STATUS''")
    case True
    with False v(1,2) have "t \<noteq> ''MA''" by (simp add: is_ma_status_def)
    with v True dem show ?thesis
      by (simp add: column_demand_def row_request_def unless_invalid_def state_indicator_request_def canonicalize_state_parameters_def)
  next
    case status: False
    with settled v(1,2) have "v = t" by (simp add: settled_column_def)
    with v status dem show ?thesis by (simp add: column_demand_def row_request_def unless_invalid_def)
  qed
  with False v(4) show ?thesis by (auto simp: column_demand_def)
qed

text \<open>
  The price in the table is the price the dividend yield is computed with: there is none exactly
  when the yield has no price, and otherwise both take the same number from the same source.
\<close>

theorem price_of_yield:
  "(price_data rnd now (latest_quote market i) (latest_daily_bar market i) = None \<longleftrightarrow>
      calculate_for_security dec market i = Raise price_not_found) \<and>
    (\<forall>r p. calculate_for_security dec market i = Ok r \<longrightarrow>
       price_data rnd now (latest_quote market i) (latest_daily_bar market i) = Some p \<longrightarrow>
       pv_value p = Fin (rnd (yr_price r)) \<and> (pv_timestamp_kind p = ''OBSERVED_AT'' \<longleftrightarrow> yr_price_source r = ''QUOTE''))"
proof -
  let ?q = "latest_quote market i" and ?b = "latest_daily_bar market i"
  let ?c = "chosen_price ?q ?b"
  define shown where "shown = price_data rnd now ?q ?b"
  have agree: "(shown = None \<longleftrightarrow> ?c = None) \<and> (\<forall>p price as_of source. shown = Some p \<longrightarrow> ?c = Some (price, as_of, source) \<longrightarrow>
      pv_value p = number rnd price \<and> (pv_timestamp_kind p = ''OBSERVED_AT'' \<longleftrightarrow> source = ''QUOTE''))"
    unfolding shown_def by (cases ?q; cases ?b) (auto simp: price_data_def chosen_price_def quote_is_at_least_as_fresh_def Let_def)
  show ?thesis
  proof (cases ?c)
    case None
    with agree show ?thesis by (simp add: calculate_for_security_def flip: shown_def)
  next
    case (Some x)
    obtain price as_of source where x: "x = (price, as_of, source)" by (cases x)
    obtain lo hi where w: "ttm_window (utc_date as_of) = (lo, hi)" by (cases "ttm_window (utc_date as_of)")
    let ?y = "calculate_ttm_dividend_yield dec (dividend_events market i lo hi) price as_of source"
    have y: "calculate_for_security dec market i = as_api_error ?y" using Some x w by (simp add: calculate_for_security_def)
    have "as_api_error ?y \<noteq> Raise price_not_found" by (auto simp: as_api_error_def price_not_found_def split: sum.splits)
    moreover have "price = Fin (yr_price r) \<and> yr_price_source r = source" if "as_api_error ?y = Ok r" for r
      using that by (auto simp: as_api_error_def calculate_ttm_dividend_yield_def to_decimal_def w split: sum.splits if_splits fl.splits prod.splits)
    ultimately show ?thesis using agree Some x unfolding y shown_def [symmetric] by (auto simp: number_def)
  qed
qed

text \<open>A concrete account: a snapshot that cannot be read, an empty store of states, a quote and a dividend.\<close>

definition ma_status_column :: table_column where
  "ma_status_column = \<lparr>tc_id = 4, tc_table_id = 1, tc_column_type = ''INDICATOR'', tc_indicator_type = Some ''MA'', tc_state_code = Some ''MA_CROSS_UP'',
     tc_parameters = [(''short_period'', VInt 7), (''long_period'', VInt 21)], tc_view_mode = ''STATUS'', tc_position = 5, tc_visible = True,
     tc_width = None\<rparr>"

definition demo_view :: "watch_db \<Rightarrow> view_db" where
  "demo_view w = \<lparr>vw_watch = w,
     vw_market = \<lparr>mr_quotes = [\<lparr>qs_id = 1, qs_security_id = 1, qs_price = Fin 10, qs_change = None, qs_change_percent = None,
         qs_timestamp = midnight (ordinal 2025 6 2)\<rparr>], mr_bars = [],
       mr_events = [\<lparr>de_id = 1, de_security_id = 1, de_date = ordinal 2025 5 6, de_amount = Fin 1\<rparr>]\<rparr>,
     vw_snapshots = [\<lparr>sn_id = 1, sn_security_id = 1, sn_trade_date = 5, sn_adjust_type = ''qfq'',
       sn_row = \<lparr>row_type = ''RSI'', row_parameters = VNone, row_values = VNone, row_previous = VNone, row_delta = VNone\<rparr>\<rparr>],
     vw_states = [((1, ''qfq''), empty_store)], vw_streams = [], vw_completed = [], vw_settings = []\<rparr>"

definition demo_broken :: watch_db where
  "demo_broken = demo_watch\<lparr>wd_columns := wd_columns demo_watch @ [ma_status_column], wd_next_column := 5\<rparr>"

lemma demo_settled: "\<forall>c \<in> set (wd_columns demo_broken). settled_column id c"
proof -
  have "canonicalize_state_parameters id ''MA'' (as_object [(''short_period'', VInt 7), (''long_period'', VInt 21)]) =
      Ok [(''short_period'', VInt 7), (''long_period'', VInt 21)]"
    by (rule ma_state_again) (simp_all add: MAX_INDICATOR_PERIOD_def)
  then show ?thesis
    by (auto simp: demo_broken_def demo_watch_def demo_column_def ma_status_column_def settled_column_def demo_rsi demo_kdj)
qed

lemma demo_view_rows: "view_rows_ok id digest (demo_view w)"
proof -
  have "is_finite64 0" "is_finite64 1" by (simp_all add: is_finite64_def max_double_def)
  moreover have "readable_snapshot id digest \<lparr>row_type = ''RSI'', row_parameters = VNone, row_values = VNone, row_previous = VNone, row_delta = VNone\<rparr>"
    by (simp add: readable_snapshot_def snapshot_variants_def mapping_or_def mapping_get_def is_api_error_def Let_def)
  ultimately show ?thesis by (simp add: view_rows_ok_def demo_view_def current_rows_def empty_store_def)
qed

lemma demo_broken_ok: "watch_ok demo_broken"
  by (simp add: watch_ok_def tables_ok_def symbols_ok_def columns_ok_def demo_broken_def demo_watch_def demo_column_def ma_status_column_def)

lemma demo_broken_owned: "owned demo_broken 1 7 = Ok \<lparr>wt_id = 1, wt_user_id = 7, wt_name = ''Main'', wt_description = None\<rparr>"
  by (simp add: owned_def demo_broken_def demo_watch_def)

lemma demo_broken_rows:
  "set (list_symbols demo_broken 1) = set (wd_symbols demo_watch)" "set (list_columns demo_broken 1) = set (wd_columns demo_broken)"
  "set (list_symbols demo_watch 1) = set (wd_symbols demo_watch)" "set (list_columns demo_watch 1) = set (wd_columns demo_watch)"
  by (auto simp: list_symbols_def list_columns_def demo_broken_def demo_watch_def demo_column_def ma_status_column_def)

lemma demo_not_broken: "c \<in> set (wd_columns demo_watch) \<Longrightarrow> \<not> broken_column sha states c"
  by (auto simp: broken_column_def demo_watch_def demo_column_def is_ma_status_def selector_ok_def)

lemma demo_is_broken: "broken_column sha states ma_status_column"
proof -
  have "upper ''INDICATOR'' = ''INDICATOR''" by code_simp
  then show ?thesis by (simp add: broken_column_def ma_status_column_def is_indicator_column_def is_ma_status_def or_else_def)
qed

theorem detail_outcome_witness:
  "(\<exists>v. detail id id demo_sha demo_sha (demo_view demo_watch) 0 7 1 = Ok v) \<and>
   \<not> (\<exists>v. detail id id demo_sha demo_sha (demo_view demo_broken) 0 7 1 = Ok v)"
proof
  have watch: "vw_watch (demo_view w) = w" for w by (simp add: demo_view_def)
  have settled: "\<forall>c \<in> set (wd_columns demo_watch). settled_column id c" using demo_settled by (simp add: demo_broken_def)
  note shown = detail_outcome [where db = "demo_view demo_watch", unfolded watch, OF demo_watch_ok settled rtranclp.rtrancl_refl demo_view_rows demo_owned]
  show "\<exists>v. detail id id demo_sha demo_sha (demo_view demo_watch) 0 7 1 = Ok v"
    unfolding shown demo_broken_rows using demo_not_broken by blast
  note broken = detail_outcome [where db = "demo_view demo_broken", unfolded watch, OF demo_broken_ok demo_settled rtranclp.rtrancl_refl demo_view_rows demo_broken_owned]
  have "ma_status_column \<in> set (wd_columns demo_broken)" "wd_symbols demo_watch \<noteq> []" by (simp_all add: demo_broken_def demo_watch_def)
  then show "\<not> (\<exists>v. detail id id demo_sha demo_sha (demo_view demo_broken) 0 7 1 = Ok v)"
    unfolding broken demo_broken_rows using demo_is_broken by (metis list.set_sel(1))
qed

theorem view_demand_agree_witness:
  "\<exists>q. column_demand id (demo_column 2 1 (Some ''RSI'')) = Ok (Some q) \<and> normalize_indicator_type (ir_type q) = Ok ''RSI'' \<and>
     ir_parameters q = [(''period'', VInt 14)]"
proof -
  have letters: "upper ''INDICATOR'' = ''INDICATOR''" "upper ''RSI'' \<noteq> ''DIVIDEND_YIELD''" "lower (strip ''period'') \<noteq> ''field''"
    by code_simp+
  have settled: "\<forall>c \<in> set (wd_columns demo_watch). settled_column id c" using demo_settled by (simp add: demo_broken_def)
  have c: "demo_column 2 1 (Some ''RSI'') \<in> set (wd_columns demo_watch)" by (simp add: demo_watch_def)
  have target: "column_target id (demo_column 2 1 (Some ''RSI'')) = Ok (''RSI'', [(''period'', VInt 14)])"
    by (simp add: column_target_def demo_column_def normalize_stored_eq demo_rsi)
  have shown: "is_indicator_column (demo_column 2 1 (Some ''RSI''))" "\<not> is_ma_status (demo_column 2 1 (Some ''RSI''))"
    "selector_ok (tc_parameters (demo_column 2 1 (Some ''RSI'')))" "\<not> no_demand (tc_indicator_type (demo_column 2 1 (Some ''RSI'')))"
    using letters demo_not_broken [OF c] by (simp_all add: is_indicator_column_def demo_column_def or_else_def no_demand_def broken_column_def)
  show ?thesis using view_demand_agree [OF demo_watch_ok settled rtranclp.rtrancl_refl c shown(1)] shown(2-4) target letters
    by (simp add: calculation_parameters_def)
qed

lemma example_price: "\<exists>r. calculate_for_security id example_rows 7 = Ok r \<and> yr_price r = 10 \<and> yr_price_source r = ''QUOTE''"
proof -
  have "is_leap 2025 = False" "is_leap 2024 = True" by (simp_all add: is_leap_def)
  then have window: "ttm_window (ordinal 2025 6 2) = (ordinal 2024 6 2, ordinal 2025 6 2)"
    using civil_ordinal [of 6 2 2025] by (simp add: ttm_window_def month_length_def)
  have "utc_date (midnight d) = d" for d by (simp add: utc_date_def midnight_def day_length_def)
  moreover have "chosen_price (latest_quote example_rows 7) (latest_daily_bar example_rows 7) = Some (Fin 10, midnight (ordinal 2025 6 2), ''QUOTE'')"
    by (simp add: latest_quote_def latest_daily_bar_def newest_def example_rows_def chosen_price_def quote_is_at_least_as_fresh_def)
  moreover have "dividend_events example_rows 7 (ordinal 2024 6 2) (ordinal 2025 6 2) =
      [\<lparr>de_id = 1, de_security_id = 7, de_date = ordinal 2025 5 6, de_amount = Fin 1\<rparr>]"
    "ordinal 2024 6 2 \<le> ordinal 2025 5 6" "ordinal 2025 5 6 \<le> ordinal 2025 6 2"
    by (simp_all add: dividend_events_def example_rows_def ordinal_def days_before_year_def days_before_month_def is_leap_def)
  ultimately show ?thesis
    by (simp add: calculate_for_security_def window calculate_ttm_dividend_yield_def to_decimal_def as_api_error_def)
qed

theorem price_of_yield_witness:
  "\<exists>p. price_data id 0 (latest_quote example_rows 7) (latest_daily_bar example_rows 7) = Some p \<and> pv_value p = Fin 10 \<and>
     pv_timestamp_kind p = ''OBSERVED_AT''"
proof -
  obtain r where r: "calculate_for_security id example_rows 7 = Ok r" "yr_price r = 10" "yr_price_source r = ''QUOTE''" using example_price by blast
  with price_of_yield [of id 0 example_rows 7 id] obtain p where "price_data id 0 (latest_quote example_rows 7) (latest_daily_bar example_rows 7) = Some p"
    by (cases "price_data id 0 (latest_quote example_rows 7) (latest_daily_bar example_rows 7)") auto
  with r price_of_yield [of id 0 example_rows 7 id] show ?thesis by auto
qed

end
