(* ===== verification/Market_Sync.thy ===== *)
theory Market_Sync
  imports Security_Master
begin

text \<open>
  Synchronization of the market data hub with its provider (\<open>market-data-hub/app/services/sync.py\<close>): the
  securities as one snapshot, quotes and dividends symbol by symbol, with malformed records isolated
  from the others on the way in and on the way to the database.

  The provider is a function that answers a request in a state of its own, with an exception or a
  value; the database is a function that stores a batch in one transaction, so an exception leaves it as
  it was. Requests of one synchronization are modelled in the order they are issued. A record that is not
  of the expected class is \<open>None\<close>; a raw symbol is any value, objects with a \<open>symbol\<close> attribute aside.
\<close>

section \<open>Exceptions and results\<close>

text \<open>
  An exception: what the code asks of its class, the name of the class and its text. A \<open>TimeoutError\<close> counts as
  the timeout of a provider; an integrity error is the one failure of the database that is not systemic.
\<close>

datatype sync_kind = ProviderTimeout | ProviderConfiguration | ProviderUnavailable | InvalidData | PersistenceSystem
  | DatabaseFailure | IntegrityFailure | OtherFailure

datatype sync_exn = Raised (sync_kind: sync_kind) (sync_class: string) (sync_message: string)

definition invalid :: "string \<Rightarrow> sync_exn" where
  "invalid m = Raised InvalidData ''InvalidMarketDataError'' m"

definition unavailable :: "string \<Rightarrow> sync_exn" where
  "unavailable m = Raised ProviderUnavailable ''ProviderUnavailableError'' m"

definition safe_message :: "sync_exn \<Rightarrow> string" where
  "safe_message e = (let m = strip (sync_message e) in if m \<noteq> [] then take 240 m else sync_class e)"

text \<open>\<open>SyncError\<close>: a code and a message.\<close>

type_synonym sync_failure = "string \<times> string"

definition sync_error :: "sync_exn \<Rightarrow> sync_failure" where
  "sync_error e = (case sync_kind e of
      ProviderTimeout \<Rightarrow> ''PROVIDER_TIMEOUT''
    | ProviderConfiguration \<Rightarrow> ''PROVIDER_NOT_CONFIGURED''
    | ProviderUnavailable \<Rightarrow> ''PROVIDER_UNAVAILABLE''
    | InvalidData \<Rightarrow> ''INVALID_MARKET_DATA''
    | _ \<Rightarrow> ''PROVIDER_ERROR'', safe_message e)"

definition persistence_error :: "sync_exn \<Rightarrow> sync_failure" where
  "persistence_error e = (''PERSISTENCE_ERROR'', safe_message e)"

definition is_systemic_persistence_error :: "sync_exn \<Rightarrow> bool" where
  "is_systemic_persistence_error e \<longleftrightarrow> sync_kind e = PersistenceSystem \<or> sync_kind e = DatabaseFailure"

definition is_invalid :: "sync_exn \<Rightarrow> bool" where
  "is_invalid e \<longleftrightarrow> sync_kind e = InvalidData"

text \<open>The exceptions of the record classes; unknown markets are invalid data too.\<close>

definition of_exn :: "exn \<Rightarrow> sync_exn" where
  "of_exn e = (case e of
      InvalidMarketDataError m \<Rightarrow> invalid m
    | UnknownMarketError m \<Rightarrow> Raised InvalidData ''UnknownMarketError'' m
    | UnknownAdjustmentError m \<Rightarrow> Raised InvalidData ''UnknownAdjustmentError'' m
    | PersistenceRecordError m \<Rightarrow> Raised OtherFailure ''PersistenceRecordError'' m
    | _ \<Rightarrow> Raised OtherFailure ''Exception'' [])"

text \<open>\<open>SyncItemResult\<close> and \<open>SyncSummary\<close>: the last two fields belong to daily bars.\<close>

record sync_item =
  sy_symbol :: string
  sy_success :: bool
  sy_fetched :: nat
  sy_persisted :: nat
  sy_error :: "sync_failure option"
  sy_rebased :: bool
  sy_changed_from :: "int option"

definition failed_item :: "string \<Rightarrow> sync_failure \<Rightarrow> sync_item" where
  "failed_item s e = \<lparr>sy_symbol = s, sy_success = False, sy_fetched = 0, sy_persisted = 0, sy_error = Some e,
     sy_rebased = False, sy_changed_from = None\<rparr>"

definition fetched_item :: "string \<Rightarrow> nat \<Rightarrow> sync_item" where
  "fetched_item s n = \<lparr>sy_symbol = s, sy_success = True, sy_fetched = n, sy_persisted = 0, sy_error = None,
     sy_rebased = False, sy_changed_from = None\<rparr>"

definition summary_succeeded :: "sync_item list \<Rightarrow> nat" where
  "summary_succeeded items = length (filter sy_success items)"

definition summary_ok :: "sync_item list \<Rightarrow> bool" where
  "summary_ok items \<longleftrightarrow> length items - summary_succeeded items = 0"

type_synonym report = "(string, sync_item) dict"

section \<open>Symbols\<close>

definition best_effort_symbol :: "pyval \<Rightarrow> string" where
  "best_effort_symbol v = (case v of
      VStr s \<Rightarrow> (case normalize_symbol v of Inr c \<Rightarrow> c | Inl e \<Rightarrow> if strip s \<noteq> [] then strip s else ''<invalid>'')
    | _ \<Rightarrow> ''<invalid>'')"

definition setdefault :: "'k \<Rightarrow> 'v \<Rightarrow> ('k, 'v) dict \<Rightarrow> ('k, 'v) dict" where
  "setdefault k v d = (case dict_get d k of None \<Rightarrow> dict_set k v d | Some w \<Rightarrow> d)"

fun canonicalize_loop :: "pyval list \<Rightarrow> string list \<Rightarrow> report \<Rightarrow> string list \<times> report" where
  "canonicalize_loop [] canonical results = (canonical, results)"
| "canonicalize_loop (raw # rest) canonical results = (case normalize_symbol raw of
      Inl e \<Rightarrow> (let s = best_effort_symbol raw
        in canonicalize_loop rest canonical (setdefault s (failed_item s (sync_error (of_exn e))) results))
    | Inr s \<Rightarrow> canonicalize_loop rest (if dict_get results s = None then canonical @ [s] else canonical) results)"

definition canonicalize_symbols :: "pyval list \<Rightarrow> string list \<times> report" where
  "canonicalize_symbols raw = canonicalize_loop raw [] []"

section \<open>Isolating malformed records of a batch\<close>

definition dict_union :: "('k, 'v) dict \<Rightarrow> ('k, 'v) dict \<Rightarrow> ('k, 'v) dict" where
  "dict_union d e = fold (\<lambda>(k, v). dict_set k v) e d"

text \<open>
  \<open>_fetch_with_invalid_symbol_isolation\<close>. An empty batch that the provider refuses as invalid would be
  split into itself; no caller sends one.
\<close>

function fetch_isolated ::
  "('p \<Rightarrow> string list \<Rightarrow> (sync_exn + 'b) \<times> 'p) \<Rightarrow> string list \<Rightarrow> 'p \<Rightarrow>
     (sync_exn + ((string list \<times> 'b) list \<times> (string, sync_exn) dict)) \<times> 'p"
where
  "fetch_isolated fetch symbols p = (case fetch p symbols of
      (Inr b, p') \<Rightarrow> (Inr ([(symbols, b)], []), p')
    | (Inl e, p') \<Rightarrow>
        if \<not> is_invalid e then (Inl e, p')
        else if symbols = [] then (Inl (Raised OtherFailure ''RecursionError'' ''maximum recursion depth exceeded''), p')
        else if length symbols = 1 then (Inr ([], [(hd symbols, e)]), p')
        else let middle = length symbols div 2 in
          (case fetch_isolated fetch (take middle symbols) p' of
             (Inl e, p1) \<Rightarrow> (Inl e, p1)
           | (Inr (left, left_errors), p1) \<Rightarrow>
               (case fetch_isolated fetch (drop middle symbols) p1 of
                  (Inl e, p2) \<Rightarrow> (Inl e, p2)
                | (Inr (right, right_errors), p2) \<Rightarrow> (Inr (left @ right, dict_union left_errors right_errors), p2))))"
  by pat_completeness auto

lemma halves_shorter:
  assumes "xs \<noteq> []" "length xs \<noteq> 1"
  shows "length (take (length xs div 2) xs) < length xs" "length (drop (length xs div 2) xs) < length xs"
proof -
  have "1 < length xs" using assms by (cases xs) auto
  then show "length (take (length xs div 2) xs) < length xs" "length (drop (length xs div 2) xs) < length xs" by auto
qed

termination fetch_isolated
proof (relation "measure (\<lambda>(fetch, symbols, p). length symbols)")
  show "wf (measure (\<lambda>(fetch :: 'p \<Rightarrow> string list \<Rightarrow> (sync_exn + 'b) \<times> 'p, symbols, p). length symbols))" by simp
qed (simp_all only: in_measure case_prod_conv halves_shorter not_False_eq_True)

declare fetch_isolated.simps [simp del]

section \<open>Isolating records the database refuses\<close>

definition grouped :: "('r \<Rightarrow> string) \<Rightarrow> 'r list \<Rightarrow> (string, 'r list) dict" where
  "grouped key records = fold (\<lambda>r d. dict_set (key r) (dict_get_or d (key r) [] @ [r]) d) records []"

fun persist_each ::
  "('r list \<Rightarrow> 's \<Rightarrow> sync_exn + 's) \<Rightarrow> (string, 'r list) dict \<Rightarrow> 's \<Rightarrow> (string, sync_failure option) dict \<times> 's"
where
  "persist_each upsert [] s = ([], s)"
| "persist_each upsert ((k, rs) # groups) s =
     (let (error, s') = (case upsert rs s of Inl e \<Rightarrow> (Some (persistence_error e), s) | Inr s' \<Rightarrow> (None, s'));
          (outcomes, final) = persist_each upsert groups s'
      in ((k, error) # outcomes, final))"

definition persist_with_isolation ::
  "('r \<Rightarrow> string) \<Rightarrow> ('r list \<Rightarrow> 's \<Rightarrow> sync_exn + 's) \<Rightarrow> 'r list \<Rightarrow> 's \<Rightarrow>
     sync_exn + ((string, sync_failure option) dict \<times> 's)"
where
  "persist_with_isolation key upsert records s = (case upsert records s of
      Inr s' \<Rightarrow> Inr (map (\<lambda>(k, rs). (k, None)) (grouped key records), s')
    | Inl e \<Rightarrow> if is_systemic_persistence_error e then Inl e else Inr (persist_each upsert (grouped key records) s))"

section \<open>Validation of what the provider returns\<close>

text \<open>
  The loop the bars and dividends of one symbol share. All records have the requested symbol when they
  are collected, so the rest of the identity orders them.
\<close>

fun validate_loop ::
  "('r \<Rightarrow> string) \<Rightarrow> ('r \<Rightarrow> bool) \<Rightarrow> ('r \<Rightarrow> 'k) \<Rightarrow> string \<Rightarrow> string \<Rightarrow> string \<Rightarrow> string \<Rightarrow> string \<Rightarrow> 'r option list \<Rightarrow> ('k, 'r) dict \<Rightarrow>
     sync_exn + ('k, 'r) dict"
where
  "validate_loop symbol_of fits identity class_name noun misfit conflict s [] unique = Inr unique"
| "validate_loop symbol_of fits identity class_name noun misfit conflict s (None # rest) unique =
     Inl (invalid (''provider returned a non-'' @ class_name @ '' record''))"
| "validate_loop symbol_of fits identity class_name noun misfit conflict s (Some r # rest) unique =
     (if symbol_of r \<noteq> s then Inl (invalid (''provider returned '' @ noun @ '' for '' @ symbol_of r @ '', requested '' @ s))
      else if \<not> fits r then Inl (invalid misfit)
      else if dict_get unique (identity r) \<noteq> None \<and> dict_get unique (identity r) \<noteq> Some r then Inl (invalid conflict)
      else validate_loop symbol_of fits identity class_name noun misfit conflict s rest (dict_set (identity r) r unique))"

definition in_identity_order :: "('k :: linorder, 'r) dict \<Rightarrow> 'r list" where
  "in_identity_order unique = map (\<lambda>k. the (dict_get unique k)) (sort (dict_keys unique))"

definition validated_dividends :: "string \<Rightarrow> dividend option list \<Rightarrow> sync_exn + dividend list" where
  "validated_dividends s records = map_sum id in_identity_order
     (validate_loop dv_symbol (\<lambda>_. True) dv_date ''Dividend'' ''dividend'' [] ''conflicting dividend totals for one identity'' s records [])"

definition validated_bars :: "string \<Rightarrow> daily_bar option list \<Rightarrow> adjustment \<Rightarrow> sync_exn + daily_bar list" where
  "validated_bars s records a = map_sum id in_identity_order
     (validate_loop db_symbol (\<lambda>b. db_adjustment b = a) db_trade_date ''DailyBar'' ''bar'' ''provider returned a different adjustment mode''
        ''conflicting daily bars for one identity'' s records [])"

definition validated_quote :: "string \<Rightarrow> quote option \<Rightarrow> sync_exn + quote" where
  "validated_quote s r = (case r of
      None \<Rightarrow> Inl (invalid ''provider returned a non-Quote record'')
    | Some q \<Rightarrow> if qu_symbol q \<noteq> s
        then Inl (invalid (''provider returned quote for '' @ qu_symbol q @ '', requested '' @ s)) else Inr q)"

section \<open>Securities\<close>

definition provider_failure :: "sync_failure \<Rightarrow> sync_item list" where
  "provider_failure e = [failed_item ''*'' e]"

fun require_securities :: "security option list \<Rightarrow> security list \<Rightarrow> sync_exn + security list" where
  "require_securities [] records = Inr records"
| "require_securities (None # rest) records = Inl (invalid ''provider returned a non-Security record'')"
| "require_securities (Some r # rest) records =
     (if se_symbol r \<in> se_symbol ` set records
      then Inl (invalid (''provider returned a duplicate security symbol: '' @ se_symbol r))
      else require_securities rest (records @ [r]))"

definition stored_item :: "security \<Rightarrow> sync_item" where
  "stored_item r = \<lparr>sy_symbol = se_symbol r, sy_success = True, sy_fetched = 1, sy_persisted = 1, sy_error = None,
     sy_rebased = False, sy_changed_from = None\<rparr>"

definition security_sync ::
  "('p \<Rightarrow> (sync_exn + security option list) \<times> 'p) \<Rightarrow> (security list \<Rightarrow> 's \<Rightarrow> sync_exn + 's) \<Rightarrow> 'p \<Rightarrow> 's \<Rightarrow>
     sync_item list \<times> 'p \<times> 's"
where
  "security_sync get_symbols reconcile p s = (case get_symbols p of
      (Inl e, p') \<Rightarrow> (provider_failure (sync_error e), p', s)
    | (Inr raw, p') \<Rightarrow>
        if raw = [] then ([], p', s)
        else case require_securities raw [] of
            Inl e \<Rightarrow> (provider_failure (sync_error e), p', s)
          | Inr records \<Rightarrow> (case reconcile records s of
                Inl e \<Rightarrow> (provider_failure (persistence_error e), p', s)
              | Inr s' \<Rightarrow> (map stored_item records, p', s')))"

section \<open>Quotes\<close>

datatype 'p quote_provider =
    NativeQuotes "'p \<Rightarrow> string list \<Rightarrow> (sync_exn + quote option list) \<times> 'p"
  | SingleQuotes "'p \<Rightarrow> string \<Rightarrow> (sync_exn + quote option) \<times> 'p"

type_synonym quote_state = "(string, quote) dict \<times> report"

definition fail_symbol :: "sync_failure \<Rightarrow> string \<Rightarrow> report \<Rightarrow> report" where
  "fail_symbol e s results = dict_set s (failed_item s e) results"

fun group_quotes :: "string list \<Rightarrow> quote option list \<Rightarrow> (string, quote list) dict \<Rightarrow> sync_exn + (string, quote list) dict" where
  "group_quotes symbols [] by_symbol = Inr by_symbol"
| "group_quotes symbols (None # rest) by_symbol = Inl (invalid ''provider returned an unexpected quote'')"
| "group_quotes symbols (Some q # rest) by_symbol =
     (if qu_symbol q \<notin> set symbols then Inl (invalid ''provider returned an unexpected quote'')
      else group_quotes symbols rest (dict_set (qu_symbol q) (dict_get_or by_symbol (qu_symbol q) [] @ [q]) by_symbol))"

text \<open>The latest quote of a symbol; two quotes of one instant must agree.\<close>

definition place_quote :: "(string, quote list) dict \<Rightarrow> string \<Rightarrow> quote_state \<Rightarrow> quote_state" where
  "place_quote by_symbol s st = (case st of (pending, results) \<Rightarrow>
     (case dict_get by_symbol s of
        None \<Rightarrow> (pending, fail_symbol (''PROVIDER_UNAVAILABLE'', ''provider omitted requested quote'') s results)
      | Some qs \<Rightarrow> (case unique_facts qu_timestamp qs of
            Inl e \<Rightarrow> (pending, fail_symbol (sync_error (of_exn e)) s results)
          | Inr candidates \<Rightarrow> (dict_set s (last candidates) pending, dict_set s (fetched_item s 1) results))))"

definition place_batch :: "string list \<times> quote option list \<Rightarrow> quote_state \<Rightarrow> quote_state" where
  "place_batch batch st = (case batch of (symbols, records) \<Rightarrow> (case group_quotes symbols records [] of
      Inl e \<Rightarrow> (fst st, fold (fail_symbol (sync_error e)) symbols (snd st))
    | Inr by_symbol \<Rightarrow> fold (place_quote by_symbol) symbols st))"

fun quote_chunks ::
  "('p \<Rightarrow> string list \<Rightarrow> (sync_exn + quote option list) \<times> 'p) \<Rightarrow> string list list \<Rightarrow> quote_state \<Rightarrow> 'p \<Rightarrow> quote_state \<times> 'p"
where
  "quote_chunks fetch [] st p = (st, p)"
| "quote_chunks fetch (chunk # chunks) st p = (case fetch_isolated fetch chunk p of
      (Inl e, p') \<Rightarrow> quote_chunks fetch chunks (fst st, fold (fail_symbol (sync_error e)) chunk (snd st)) p'
    | (Inr (answered, errors), p') \<Rightarrow>
        quote_chunks fetch chunks
          (fold place_batch answered (fst st, fold (\<lambda>(s, e). fail_symbol (sync_error e) s) errors (snd st))) p')"

fun single_quotes ::
  "('p \<Rightarrow> string \<Rightarrow> (sync_exn + quote option) \<times> 'p) \<Rightarrow> string list \<Rightarrow> quote_state \<Rightarrow> 'p \<Rightarrow> quote_state \<times> 'p"
where
  "single_quotes get [] st p = (st, p)"
| "single_quotes get (s # symbols) st p = (case get p s of (answer, p') \<Rightarrow>
     single_quotes get symbols
       (case (case answer of Inl e \<Rightarrow> Inl e | Inr r \<Rightarrow> validated_quote s r) of
          Inl e \<Rightarrow> (fst st, fail_symbol (sync_error e) s (snd st))
        | Inr q \<Rightarrow> (dict_set s q (fst st), dict_set s (fetched_item s 1) (snd st))) p')"

text \<open>What the database did enters the report.\<close>

definition record_outcome :: "(sync_item \<Rightarrow> nat) \<Rightarrow> string \<times> sync_failure option \<Rightarrow> report \<Rightarrow> report" where
  "record_outcome stored outcome results = (case outcome of (s, error) \<Rightarrow> (case dict_get results s of
      None \<Rightarrow> results
    | Some previous \<Rightarrow> dict_set s \<lparr>sy_symbol = s, sy_success = (error = None), sy_fetched = sy_fetched previous,
          sy_persisted = (if error = None then stored previous else 0), sy_error = error, sy_rebased = False, sy_changed_from = None\<rparr> results))"

definition persist_report ::
  "('r \<Rightarrow> string) \<Rightarrow> (sync_item \<Rightarrow> nat) \<Rightarrow> ('r list \<Rightarrow> 's \<Rightarrow> sync_exn + 's) \<Rightarrow> 'r list \<Rightarrow> report \<Rightarrow> 's \<Rightarrow> (sync_exn + sync_item list) \<times> 's"
where
  "persist_report key stored upsert records results s =
     (if records = [] then (Inr (map snd results), s)
      else case persist_with_isolation key upsert records s of
          Inl e \<Rightarrow> (Inl e, s)
        | Inr (outcomes, s') \<Rightarrow> (Inr (map snd (fold (record_outcome stored) outcomes results)), s'))"

definition quote_sync ::
  "'p quote_provider \<Rightarrow> nat \<Rightarrow> (quote list \<Rightarrow> 's \<Rightarrow> sync_exn + 's) \<Rightarrow> pyval list \<Rightarrow> 'p \<Rightarrow> 's \<Rightarrow> (sync_exn + sync_item list) \<times> 'p \<times> 's"
where
  "quote_sync provider chunk_size upsert symbols p s =
     (case canonicalize_symbols symbols of (canonical, results) \<Rightarrow>
      (case (case provider of
          NativeQuotes fetch \<Rightarrow> quote_chunks fetch (batches chunk_size canonical) ([], results) p
        | SingleQuotes get \<Rightarrow> single_quotes get canonical ([], results) p) of
        ((pending, fetched), p') \<Rightarrow>
          (case persist_report qu_symbol (\<lambda>_. 1) upsert (map snd pending) fetched s of (answer, s') \<Rightarrow> (answer, p', s'))))"

section \<open>Dividends\<close>

text \<open>
  The requests run concurrently under a semaphore; each is answered on its own and the answers are taken
  in the order of the symbols.
\<close>

fun dividend_answers ::
  "('p \<Rightarrow> string \<Rightarrow> (sync_exn + dividend option list) \<times> 'p) \<Rightarrow> string list \<Rightarrow> (string, dividend list) dict \<times> report \<Rightarrow> 'p \<Rightarrow>
     ((string, dividend list) dict \<times> report) \<times> 'p"
where
  "dividend_answers get [] st p = (st, p)"
| "dividend_answers get (s # symbols) st p = (case get p s of (answer, p') \<Rightarrow>
     dividend_answers get symbols
       (case (case answer of Inl e \<Rightarrow> Inl e | Inr rs \<Rightarrow> validated_dividends s rs) of
          Inl e \<Rightarrow> (fst st, fail_symbol (sync_error e) s (snd st))
        | Inr rs \<Rightarrow> (dict_set s rs (fst st), dict_set s (fetched_item s (length rs)) (snd st))) p')"

definition dividend_sync ::
  "('p \<Rightarrow> string \<Rightarrow> (sync_exn + dividend option list) \<times> 'p) \<Rightarrow> (dividend list \<Rightarrow> 's \<Rightarrow> sync_exn + 's) \<Rightarrow> pyval list \<Rightarrow> 'p \<Rightarrow> 's \<Rightarrow>
     (sync_exn + sync_item list) \<times> 'p \<times> 's"
where
  "dividend_sync get upsert symbols p s =
     (case canonicalize_symbols symbols of (canonical, results) \<Rightarrow>
      (case dividend_answers get canonical ([], results) p of ((pending, fetched), p') \<Rightarrow>
        (case persist_report dv_symbol sy_fetched upsert (concat (map snd pending)) fetched s of (answer, s') \<Rightarrow> (answer, p', s'))))"

section \<open>Isolation\<close>

lemma dict_union_keys: "set (dict_keys (dict_union d e)) = set (dict_keys d) \<union> set (dict_keys e)"
  unfolding dict_union_def
proof (induction e arbitrary: d)
  case (Cons x e)
  obtain k v where x: "x = (k, v)" by (cases x)
  have "set (dict_keys (dict_set k v d)) = insert k (set (dict_keys d))" unfolding dict_set_keys by (auto simp del: set_map)
  then show ?case using Cons [of "dict_set k v d"] by (simp add: x del: set_map)
qed simp

lemma dict_set_source: "set (dict_set k v d) \<subseteq> insert (k, v) (set d)"
  by (induction d) auto

lemma dict_union_source: "set (dict_union d e) \<subseteq> set d \<union> set e"
  unfolding dict_union_def
proof (induction e arbitrary: d)
  case (Cons x e)
  obtain k v where x: "x = (k, v)" by (cases x)
  from Cons [of "dict_set k v d"] dict_set_source [of k v d] show ?case by (auto simp: x)
qed simp

text \<open>What holds of an answered batch and of a refused symbol, and is kept by joining two halves, holds of a run.\<close>

lemma isolated_induct:
  assumes "fetch_isolated fetch symbols p = (Inr (bs, es), p')"
    and answered: "\<And>q ss b q'. fetch q ss = (Inr b, q') \<Longrightarrow> P ss [(ss, b)] []"
    and refused: "\<And>q s e q'. fetch q [s] = (Inl e, q') \<Longrightarrow> is_invalid e \<Longrightarrow> P [s] [] [(s, e)]"
    and joined: "\<And>xs ys l le r re. P xs l le \<Longrightarrow> P ys r re \<Longrightarrow> P (xs @ ys) (l @ r) (dict_union le re)"
  shows "P symbols bs es"
  using assms(1)
proof (induction "length symbols" arbitrary: symbols p bs es p' rule: less_induct)
  case less
  obtain r q where f: "fetch p symbols = (r, q)" by (cases "fetch p symbols")
  show ?case
  proof (cases r)
    case (Inr b)
    with less(2) f have "bs = [(symbols, b)]" "es = []" by (simp_all add: fetch_isolated.simps [of fetch symbols])
    with answered f Inr show ?thesis by simp
  next
    case (Inl e)
    from less(2) f Inl have inv: "is_invalid e" "symbols \<noteq> []" by (auto simp: fetch_isolated.simps [of fetch symbols] split: if_splits)
    show ?thesis
    proof (cases "length symbols = 1")
      case True
      then obtain s where s: "symbols = [s]" by (cases symbols) auto
      with less(2) f Inl inv have "bs = []" "es = [(s, e)]" by (simp_all add: fetch_isolated.simps [of fetch "[s]"])
      with refused f Inl inv s show ?thesis by simp
    next
      case False
      let ?m = "length symbols div 2"
      from less(2) f Inl inv False obtain l le p1 r re where
        halves: "fetch_isolated fetch (take ?m symbols) q = (Inr (l, le), p1)" "fetch_isolated fetch (drop ?m symbols) p1 = (Inr (r, re), p')"
        and e: "bs = l @ r" "es = dict_union le re"
        by (auto simp: fetch_isolated.simps [of fetch symbols] Let_def split: prod.splits sum.splits)
      note shorter = halves_shorter [OF inv(2) False]
      from joined [OF less(1) [OF shorter(1) halves(1)] less(1) [OF shorter(2) halves(2)]] e show ?thesis by simp
    qed
  qed
qed

lemma isolated_partition:
  assumes "fetch_isolated fetch symbols p = (Inr (bs, es), p')"
  shows "set symbols = set (concat (map fst bs)) \<union> set (dict_keys es)"
  using assms by (rule isolated_induct [where P = "\<lambda>ss bs es. set ss = set (concat (map fst bs)) \<union> set (dict_keys es)"])
    (simp, simp, simp only: dict_union_keys map_append concat_append set_append Un_ac)

definition refuses_exactly :: "string set \<Rightarrow> (string list \<Rightarrow> 'b) \<Rightarrow> ('p \<Rightarrow> string list \<Rightarrow> (sync_exn + 'b) \<times> 'p) \<Rightarrow> bool" where
  "refuses_exactly bad answer fetch \<longleftrightarrow> (\<forall>q ss. ss \<noteq> [] \<longrightarrow>
     (\<exists>q' m. fetch q ss = (if set ss \<inter> bad = {} then Inr (answer ss) else Inl (invalid m), q')))"

text \<open>
  If the provider refuses a batch exactly when it holds a malformed symbol, the isolation
  always ends with a result: it reports exactly the malformed symbols and delivers every other symbol
  in a batch the provider answered.
\<close>

theorem isolation_exact:
  assumes "refuses_exactly bad answer fetch" "symbols \<noteq> []"
  shows "\<exists>bs es p'. fetch_isolated fetch symbols p = (Inr (bs, es), p') \<and> set (dict_keys es) = set symbols \<inter> bad \<and>
    set (concat (map fst bs)) = set symbols - bad \<and> set bs \<subseteq> {(ss, answer ss) | ss. True}"
  using assms(2)
proof (induction "length symbols" arbitrary: symbols p rule: less_induct)
  case less
  obtain q m where f: "fetch p symbols = (if set symbols \<inter> bad = {} then Inr (answer symbols) else Inl (invalid m), q)"
    using assms(1) less(2) unfolding refuses_exactly_def by blast
  show ?case
  proof (cases "set symbols \<inter> bad = {}")
    case True
    with f show ?thesis by (auto simp: fetch_isolated.simps [of fetch symbols])
  next
    case bad: False
    have inv: "is_invalid (invalid m)" by (simp add: is_invalid_def invalid_def)
    show ?thesis
    proof (cases "length symbols = 1")
      case True
      then obtain s where s: "symbols = [s]" by (cases symbols) auto
      with bad f inv have "fetch_isolated fetch symbols p = (Inr ([], [(s, invalid m)]), q)"
        by (simp add: fetch_isolated.simps [of fetch "[s]"])
      with bad s show ?thesis by auto
    next
      case False
      let ?m = "length symbols div 2"
      let ?xs = "take ?m symbols" and ?ys = "drop ?m symbols"
      note shorter = halves_shorter [OF less(2) False]
      from less(2) False have two: "2 \<le> length symbols" by (cases symbols) (auto simp: Suc_le_eq)
      then have ne: "?xs \<noteq> []" "?ys \<noteq> []" by auto
      from less(1) [OF shorter(1) ne(1), of q] obtain l le p1 where l: "fetch_isolated fetch ?xs q = (Inr (l, le), p1)"
        "set (dict_keys le) = set ?xs \<inter> bad" "set (concat (map fst l)) = set ?xs - bad" "set l \<subseteq> {(ss, answer ss) | ss. True}" by blast
      from less(1) [OF shorter(2) ne(2), of p1] obtain r re p2 where r: "fetch_isolated fetch ?ys p1 = (Inr (r, re), p2)"
        "set (dict_keys re) = set ?ys \<inter> bad" "set (concat (map fst r)) = set ?ys - bad" "set r \<subseteq> {(ss, answer ss) | ss. True}" by blast
      have halves: "set symbols = set ?xs \<union> set ?ys" by (metis append_take_drop_id set_append)
      have run: "fetch_isolated fetch symbols p = (Inr (l @ r, dict_union le re), p2)"
        using f bad inv less(2) False l(1) r(1) by (simp add: fetch_isolated.simps [of fetch symbols] Let_def)
      have "set (dict_keys (dict_union le re)) = set symbols \<inter> bad" unfolding dict_union_keys l(2) r(2) halves by blast
      moreover have "set (concat (map fst (l @ r))) = set symbols - bad" unfolding map_append concat_append set_append l(3) r(3) halves by blast
      moreover have "set (l @ r) \<subseteq> {(ss, answer ss) | ss. True}" unfolding set_append using l(4) r(4) by blast
      ultimately show ?thesis using run by blast
    qed
  qed
qed

definition counted :: "('p \<Rightarrow> string list \<Rightarrow> (sync_exn + 'b) \<times> 'p) \<Rightarrow> 'p \<times> nat \<Rightarrow> string list \<Rightarrow> (sync_exn + 'b) \<times> 'p \<times> nat" where
  "counted fetch = (\<lambda>(p, n) ss. case fetch p ss of (r, p') \<Rightarrow> (r, p', n + 1))"

text \<open>
  Isolating the malformed records of a batch of \<open>n\<close> symbols sends the provider at most \<open>2 * n - 1\<close>
  requests, whatever it answers.
\<close>

theorem isolation_calls:
  assumes "symbols \<noteq> []" "fetch_isolated (counted fetch) symbols (p, n) = (result, p', n')"
  shows "n' \<le> n + (2 * length symbols - 1)"
  using assms
proof (induction "length symbols" arbitrary: symbols p n result p' n' rule: less_induct)
  case less
  obtain r q where f: "fetch p symbols = (r, q)" by (cases "fetch p symbols")
  then have c: "counted fetch (p, n) symbols = (r, q, n + 1)" by (simp add: counted_def)
  have pos: "0 < length symbols" using less(2) by simp
  show ?case
  proof (cases "length symbols = 1 \<or> (case r of Inl e \<Rightarrow> \<not> is_invalid e | Inr b \<Rightarrow> True)")
    case True
    with less(2,3) c have "n' = n + 1" by (auto simp: fetch_isolated.simps [of _ symbols] split: sum.splits if_splits)
    with pos show ?thesis by linarith
  next
    case False
    then obtain e where e: "r = Inl e" "is_invalid e" "length symbols \<noteq> 1" by (auto split: sum.splits)
    let ?m = "length symbols div 2"
    let ?xs = "take ?m symbols" and ?ys = "drop ?m symbols"
    note shorter = halves_shorter [OF less(2) e(3)]
    from less(2) e(3) have two: "2 \<le> length symbols" by (cases symbols) (auto simp: Suc_le_eq)
    then have ne: "?xs \<noteq> []" "?ys \<noteq> []" by auto
    have len: "length ?xs + length ?ys = length symbols" by simp
    obtain lr p1 n1 where l: "fetch_isolated (counted fetch) ?xs (q, n + 1) = (lr, p1, n1)" by (cases "fetch_isolated (counted fetch) ?xs (q, n + 1)") auto
    from less(1) [OF shorter(1) ne(1) l] have n1: "n1 \<le> n + 1 + (2 * length ?xs - 1)" .
    have px: "1 \<le> length ?xs" "1 \<le> length ?ys" using ne by (simp_all add: Suc_le_eq)
    show ?thesis
    proof (cases lr)
      case (Inl e')
      with less(2,3) c e l have "n' = n1" by (simp add: fetch_isolated.simps [of _ symbols] Let_def)
      with n1 len px show ?thesis by linarith
    next
      case (Inr x)
      obtain rr p2 n2 where r: "fetch_isolated (counted fetch) ?ys (p1, n1) = (rr, p2, n2)" by (cases "fetch_isolated (counted fetch) ?ys (p1, n1)") auto
      from less(1) [OF shorter(2) ne(2) r] have n2: "n2 \<le> n1 + (2 * length ?ys - 1)" .
      from less(2,3) c e l r Inr have "n' = n2" by (cases x; cases rr) (auto simp: fetch_isolated.simps [of _ symbols] Let_def)
      with n1 n2 len px show ?thesis by linarith
    qed
  qed
qed

section \<open>Symbols of a request\<close>

lemma upper_six_digits:
  assumes "six_digits c"
  shows "upper c = c"
proof -
  have "map upper_char c = c" using assms by (intro map_idI) (auto simp: six_digits_def list_all_iff is_digit_def upper_char_def Let_def)
  then show ?thesis by (simp add: upper_def)
qed

lemma best_effort_not_canonical:
  assumes "normalize_symbol v = Inl e" "six_digits c" "code_market c = Some m"
  shows "best_effort_symbol v \<noteq> c"
proof
  assume b: "best_effort_symbol v = c"
  have six: "c \<noteq> ''<invalid>''" using assms(2) by (auto simp: six_digits_def is_digit_def)
  then obtain s where v: "v = VStr s" using b by (cases v) (simp_all add: best_effort_symbol_def)
  then have "strip s = c" using b assms(1) six by (simp add: best_effort_symbol_def split: if_splits)
  then have "upper (strip s) = c" using upper_six_digits assms(2) by simp
  then have "normalize_symbol (VStr s) = Ok c" using symbol_spelling [of s c m] assms(2,3) by blast
  then show False using assms(1) v by simp
qed

definition canonical_form :: "pyval \<Rightarrow> string list" where
  "canonical_form v = (case normalize_symbol v of Inl e \<Rightarrow> [] | Inr c \<Rightarrow> [c])"

definition label :: "pyval \<Rightarrow> string" where
  "label v = (case normalize_symbol v of Inl e \<Rightarrow> best_effort_symbol v | Inr c \<Rightarrow> c)"

lemma canonicalize_loop_exact:
  assumes "\<forall>v \<in> set raw. \<forall>c. normalize_symbol v = Ok c \<longrightarrow> code_market c \<noteq> None"
    and "\<forall>c m. six_digits c \<longrightarrow> code_market c = Some m \<longrightarrow> dict_get results c = None"
  shows "fst (canonicalize_loop raw canonical results) = canonical @ concat (map canonical_form raw)"
  using assms
proof (induction raw arbitrary: canonical results)
  case (Cons v raw)
  show ?case
  proof (cases "normalize_symbol v")
    case (Inl e)
    have "dict_get (setdefault (best_effort_symbol v) i results) c = None" if "six_digits c" "code_market c = Some m" for c m i
      using Cons.prems(2) that best_effort_not_canonical [OF Inl that] by (auto simp: setdefault_def split: option.splits)
    then have "fst (canonicalize_loop raw canonical (setdefault (best_effort_symbol v) i results)) = canonical @ concat (map canonical_form raw)" for i
      using Cons.prems(1) by (intro Cons.IH) auto
    moreover have "canonical_form v = []" by (simp add: canonical_form_def Inl)
    ultimately show ?thesis using Inl by (simp add: Let_def)
  next
    case (Inr c)
    have "dict_get results c = None" using Cons.prems normalize_symbol_shape [OF Inr] Inr by auto
    then show ?thesis using Cons.IH Cons.prems Inr by (simp add: canonical_form_def)
  qed
qed simp

text \<open>
  The symbols a synchronization works on are the canonical forms of the valid ones in the order of the
  request, repetitions included, whenever the digits of each determine its exchange: the test against the results
  so far never leaves a repeated symbol out.
\<close>

theorem repeated_symbols_kept:
  assumes "\<forall>v \<in> set raw. \<forall>c. normalize_symbol v = Ok c \<longrightarrow> code_market c \<noteq> None"
  shows "fst (canonicalize_symbols raw) = concat (map canonical_form raw)"
  using canonicalize_loop_exact [OF assms, of "[]" "[]"] by (simp add: canonicalize_symbols_def)

theorem repeated_symbols_kept_witness:
  "fst (canonicalize_symbols [VStr ''600519'', VStr ''x'', VStr ''sh.600519'']) = [''600519'', ''600519'']"
proof -
  have n: "normalize_symbol (VStr ''600519'') = Ok ''600519''" "normalize_symbol (VStr ''sh.600519'') = Ok ''600519''"
    "normalize_symbol (VStr ''x'') = Raise (InvalidMarketDataError ''invalid symbol format'')" "code_market ''600519'' = Some SH"
    by code_simp+
  show ?thesis using repeated_symbols_kept [of "[VStr ''600519'', VStr ''x'', VStr ''sh.600519'']"] n by (simp add: canonical_form_def)
qed

section \<open>Reports\<close>

text \<open>One entry per symbol, under its own name, successful exactly when it has no error.\<close>

definition well_reported :: "report \<Rightarrow> bool" where
  "well_reported r \<longleftrightarrow> distinct (dict_keys r) \<and> (\<forall>(k, i) \<in> set r. sy_symbol i = k \<and> (sy_success i \<longleftrightarrow> sy_error i = None))"

definition extends :: "string set \<Rightarrow> report \<Rightarrow> report \<Rightarrow> bool" where
  "extends K r r' \<longleftrightarrow> (well_reported r \<longrightarrow> well_reported r') \<and> set (dict_keys r') = set (dict_keys r) \<union> K"

lemma dict_keys_set: "set (dict_keys (dict_set k v d)) = insert k (set (dict_keys d))"
  unfolding dict_set_keys by (auto simp del: set_map)

lemma extends_refl [simp, intro]: "extends {} r r"
  by (simp add: extends_def)

lemma extends_trans: "extends A r r' \<Longrightarrow> extends B r' r'' \<Longrightarrow> extends (A \<union> B) r r''"
  by (auto simp: extends_def simp del: set_map)

lemma extends_set: "sy_symbol i = k \<Longrightarrow> sy_success i = (sy_error i = None) \<Longrightarrow> extends {k} r (dict_set k i r)"
  unfolding extends_def well_reported_def dict_keys_set
  using dict_set_source [of k i r] dict_set_distinct [of r k i] by (fastforce simp del: set_map)

lemma extends_fail [simp, intro]: "extends {s} r (fail_symbol e s r)"
  unfolding fail_symbol_def by (rule extends_set) (simp_all add: failed_item_def)

lemma extends_fetched [simp, intro]: "extends {s} r (dict_set s (fetched_item s n) r)"
  by (rule extends_set) (simp_all add: fetched_item_def)

lemma extends_fold:
  assumes "\<And>x r. extends (K x) r (f x r)"
  shows "extends (\<Union> (K ` set xs)) r (fold f xs r)"
proof (induction xs arbitrary: r)
  case (Cons x xs)
  from extends_trans [OF assms Cons] show ?case by simp
qed simp

lemma extends_fold_state:
  assumes "\<And>x st. extends (K x) (snd st) (snd (f x st))"
  shows "extends (\<Union> (K ` set xs)) (snd st) (snd (fold f xs st))"
proof (induction xs arbitrary: st)
  case (Cons x xs)
  from extends_trans [OF assms Cons] show ?case by simp
qed simp

lemma extends_items:
  assumes "extends K [] r"
  shows "distinct (map sy_symbol (map snd r))" "set (map sy_symbol (map snd r)) = K"
    "\<forall>i \<in> set (map snd r). sy_success i \<longleftrightarrow> sy_error i = None"
proof -
  have w: "well_reported r" and k: "set (dict_keys r) = K" using assms by (simp_all add: extends_def well_reported_def)
  have "map sy_symbol (map snd r) = dict_keys r" using w by (auto simp: well_reported_def)
  then show "distinct (map sy_symbol (map snd r))" "set (map sy_symbol (map snd r)) = K" using w k by (simp_all only: well_reported_def)
  show "\<forall>i \<in> set (map snd r). sy_success i \<longleftrightarrow> sy_error i = None" using w by (auto simp: well_reported_def)
qed

lemma canonicalize_loop_extends:
  "canonicalize_loop raw canonical r = (canonical', r') \<Longrightarrow>
     (well_reported r \<longrightarrow> well_reported r') \<and> set canonical' \<union> set (dict_keys r') = set canonical \<union> set (dict_keys r) \<union> label ` set raw"
proof (induction raw arbitrary: canonical r)
  case (Cons v raw)
  show ?case
  proof (cases "normalize_symbol v")
    case (Inl e)
    let ?s = "best_effort_symbol v" and ?r = "setdefault (best_effort_symbol v) (failed_item (best_effort_symbol v) (sync_error (of_exn e))) r"
    have x: "extends {?s} r ?r" 
    proof (cases "dict_get r ?s")
      case None
      then show ?thesis using extends_fail [of ?s r "sync_error (of_exn e)"] by (simp add: setdefault_def fail_symbol_def)
    next
      case (Some i)
      then have "?s \<in> set (dict_keys r)" by (force dest: map_of_SomeD)
      then show ?thesis using Some by (auto simp: setdefault_def extends_def simp del: set_map)
    qed
    from Cons.prems Inl have "canonicalize_loop raw canonical ?r = (canonical', r')" by (simp add: Let_def)
    from Cons.IH [OF this] x Inl show ?thesis by (auto simp: extends_def label_def simp del: set_map)
  next
    case (Inr c)
    let ?c = "if dict_get r c = None then canonical @ [c] else canonical"
    have "set ?c \<union> set (dict_keys r) = insert c (set canonical \<union> set (dict_keys r))"
      using map_of_eq_None_iff [of r c] by auto
    moreover from Cons.prems Inr have "canonicalize_loop raw ?c r = (canonical', r')" by simp
    ultimately show ?thesis using Cons.IH [of ?c r] Inr by (auto simp: label_def simp del: set_map)
  qed
qed simp

lemma canonicalize_extends:
  assumes "canonicalize_symbols raw = (canonical, r)"
  shows "extends (set (dict_keys r)) [] r" "set canonical \<union> set (dict_keys r) = label ` set raw"
  using canonicalize_loop_extends [of raw "[]" "[]" canonical r] assms
  by (simp_all add: canonicalize_symbols_def extends_def well_reported_def)

section \<open>Every requested symbol is reported\<close>

lemma extends_eq: "extends A r r' \<Longrightarrow> A = B \<Longrightarrow> extends B r r'"
  by simp

lemma place_quote_extends: "extends {s} (snd st) (snd (place_quote by_symbol s st))"
  by (cases st) (auto simp: place_quote_def split: option.splits sum.splits)

lemma place_batch_extends: "extends (set (fst batch)) (snd st) (snd (place_batch batch st))"
proof -
  obtain symbols records where b: "batch = (symbols, records)" by (cases batch)
  show ?thesis
  proof (cases "group_quotes symbols records []")
    case (Inl e)
    from extends_fold [of "\<lambda>s. {s}" "fail_symbol (sync_error e)" symbols "snd st"] show ?thesis by (simp add: b place_batch_def Inl)
  next
    case (Inr by_symbol)
    from extends_fold_state [of "\<lambda>s. {s}" "place_quote by_symbol" symbols st] place_quote_extends
    show ?thesis by (simp add: b place_batch_def Inr)
  qed
qed

lemma fail_errors_extends: "extends (set (dict_keys errors)) r (fold (\<lambda>(s, e). fail_symbol (sync_error e) s) errors r)"
  by (rule extends_eq [OF extends_fold [of "\<lambda>x. {fst x}"]]) (auto simp: case_prod_beta)

lemma quote_chunks_extends: "extends (set (concat chunks)) (snd st) (snd (fst (quote_chunks fetch chunks st p)))"
proof (induction chunks arbitrary: st p)
  case (Cons chunk chunks)
  obtain a p' where f: "fetch_isolated fetch chunk p = (a, p')" by (cases "fetch_isolated fetch chunk p")
  show ?case
  proof (cases a)
    case (Inl e)
    have "extends (set chunk) (snd st) (fold (fail_symbol (sync_error e)) chunk (snd st))"
      using extends_fold [of "\<lambda>s. {s}" "fail_symbol (sync_error e)" chunk "snd st"] by simp
    from extends_trans [OF this] Cons [of "(fst st, fold (fail_symbol (sync_error e)) chunk (snd st))" p'] f Inl
    show ?thesis by simp
  next
    case (Inr x)
    obtain answered errors where x: "x = (answered, errors)" by (cases x)
    let ?st = "(fst st, fold (\<lambda>(s, e). fail_symbol (sync_error e) s) errors (snd st))"
    have "extends (\<Union> ((\<lambda>b. set (fst b)) ` set answered)) (snd ?st) (snd (fold place_batch answered ?st))"
      by (rule extends_fold_state) (rule place_batch_extends)
    with fail_errors_extends [of errors "snd st"]
    have "extends (set (dict_keys errors) \<union> \<Union> ((\<lambda>b. set (fst b)) ` set answered)) (snd st) (snd (fold place_batch answered ?st))"
      by (intro extends_trans) simp_all
    moreover have "set chunk = set (dict_keys errors) \<union> \<Union> ((\<lambda>b. set (fst b)) ` set answered)"
      using isolated_partition [of fetch chunk p answered errors p'] f Inr x by auto
    ultimately have "extends (set chunk) (snd st) (snd (fold place_batch answered ?st))" by simp
    from extends_trans [OF this] Cons [of "fold place_batch answered ?st" p'] f Inr x show ?thesis by simp
  qed
qed simp

lemma single_quotes_extends: "extends (set symbols) (snd st) (snd (fst (single_quotes get symbols st p)))"
proof (induction symbols arbitrary: st p)
  case (Cons s symbols)
  obtain a p' where g: "get p s = (a, p')" by (cases "get p s")
  let ?v = "case a of Inl e \<Rightarrow> Inl e | Inr r \<Rightarrow> validated_quote s r"
  let ?st = "case ?v of Inl e \<Rightarrow> (fst st, fail_symbol (sync_error e) s (snd st))
      | Inr q \<Rightarrow> (dict_set s q (fst st), dict_set s (fetched_item s 1) (snd st))"
  have "extends {s} (snd st) (snd ?st)" by (cases ?v) (simp_all only: sum.case snd_conv extends_fail extends_fetched)
  from extends_trans [OF this Cons [of ?st p']] g show ?case by simp
qed simp

lemma dividend_answers_extends: "extends (set symbols) (snd st) (snd (fst (dividend_answers get symbols st p)))"
proof (induction symbols arbitrary: st p)
  case (Cons s symbols)
  obtain a p' where g: "get p s = (a, p')" by (cases "get p s")
  let ?v = "case a of Inl e \<Rightarrow> Inl e | Inr rs \<Rightarrow> validated_dividends s rs"
  let ?st = "case ?v of Inl e \<Rightarrow> (fst st, fail_symbol (sync_error e) s (snd st))
      | Inr rs \<Rightarrow> (dict_set s rs (fst st), dict_set s (fetched_item s (length rs)) (snd st))"
  have "extends {s} (snd st) (snd ?st)" by (cases ?v) (simp_all only: sum.case snd_conv extends_fail extends_fetched)
  from extends_trans [OF this Cons [of ?st p']] g show ?case by simp
qed simp

lemma record_outcome_extends: "extends {} r (record_outcome stored outcome r)"
proof -
  obtain s error where o: "outcome = (s, error)" by (cases outcome)
  show ?thesis
  proof (cases "dict_get r s")
    case (Some previous)
    then have "s \<in> set (dict_keys r)" by (force dest: map_of_SomeD)
    moreover from extends_set have "extends {s} r (record_outcome stored outcome r)" by (simp add: o record_outcome_def Some)
    ultimately show ?thesis by (auto simp: extends_def simp del: set_map)
  qed (simp add: o record_outcome_def)
qed

lemma persist_report_items:
  assumes "persist_report key stored upsert records r s = (Inr items, s')"
  shows "\<exists>r'. items = map snd r' \<and> extends {} r r'"
proof -
  have "extends {} r (fold (record_outcome stored) outcomes r)" for outcomes
    using extends_fold [of "\<lambda>_. {}", OF record_outcome_extends] by simp
  then show ?thesis using assms
    by (auto simp: persist_report_def split: if_splits sum.splits intro: extends_refl)
qed

definition complete_report :: "pyval list \<Rightarrow> sync_item list \<Rightarrow> bool" where
  "complete_report symbols items \<longleftrightarrow> distinct (map sy_symbol items) \<and> set (map sy_symbol items) = label ` set symbols \<and>
     (\<forall>i \<in> set items. sy_success i \<longleftrightarrow> sy_error i = None)"

lemma complete_reportI:
  assumes "canonicalize_symbols raw = (canonical, r)" "extends (set canonical) r r'"
  shows "complete_report raw (map snd r')"
proof -
  from extends_trans [OF canonicalize_extends(1) [OF assms(1)] assms(2)] canonicalize_extends(2) [OF assms(1)]
  have "extends (label ` set raw) [] r'" by (simp only: Un_commute)
  from extends_items [OF this] show ?thesis unfolding complete_report_def by blast
qed

text \<open>
  A synchronization of quotes that returns has exactly one entry for every requested symbol, valid or not,
  with an error exactly when the entry is a failure, whatever the provider and the database did.
\<close>

theorem quote_report_complete:
  assumes "quote_sync provider n upsert symbols p s = (Inr items, p', s')"
  shows "complete_report symbols items"
proof -
  obtain canonical r where c: "canonicalize_symbols symbols = (canonical, r)" by (cases "canonicalize_symbols symbols")
  let ?run = "case provider of NativeQuotes fetch \<Rightarrow> quote_chunks fetch (batches n canonical) ([], r) p
      | SingleQuotes get \<Rightarrow> single_quotes get canonical ([], r) p"
  have run: "extends (set canonical) r (snd (fst ?run))"
    using quote_chunks_extends [of "batches n canonical" "([], r)"] single_quotes_extends [of canonical "([], r)"]
    by (cases provider) (simp_all add: concat_batches)
  obtain pending fetched q where q: "?run = ((pending, fetched), q)" by (cases ?run) auto
  with assms c have "persist_report qu_symbol (\<lambda>_. 1) upsert (map snd pending) fetched s = (Inr items, s')"
    unfolding quote_sync_def by (simp split: prod.splits)
  from persist_report_items [OF this] obtain r' where r': "items = map snd r'" "extends {} fetched r'" by blast
  from extends_trans [OF _ r'(2)] run q have "extends (set canonical) r r'" by simp
  with complete_reportI [OF c] r'(1) show ?thesis by simp
qed

text \<open>The same for dividends.\<close>

theorem dividend_report_complete:
  assumes "dividend_sync get upsert symbols p s = (Inr items, p', s')"
  shows "complete_report symbols items"
proof -
  obtain canonical r where c: "canonicalize_symbols symbols = (canonical, r)" by (cases "canonicalize_symbols symbols")
  obtain pending fetched q where q: "dividend_answers get canonical ([], r) p = ((pending, fetched), q)"
    by (cases "dividend_answers get canonical ([], r) p") auto
  with assms c have "persist_report dv_symbol sy_fetched upsert (concat (map snd pending)) fetched s = (Inr items, s')"
    unfolding dividend_sync_def by (simp split: prod.splits)
  from persist_report_items [OF this] obtain r' where r': "items = map snd r'" "extends {} fetched r'" by blast
  from extends_trans [OF _ r'(2)] dividend_answers_extends [of canonical "([], r)" get p] q have "extends (set canonical) r r'" by simp
  with complete_reportI [OF c] r'(1) show ?thesis by simp
qed

section \<open>What is stored\<close>

lemma grouped_get: "dict_get (grouped key records) k = (let g = filter (\<lambda>r. key r = k) records in if g = [] then None else Some g)"
proof (induction records rule: rev_induct)
  case (snoc r records)
  then show ?case by (auto simp: grouped_def dict_get_or_def Let_def split: option.splits if_splits)
qed (simp add: grouped_def)

lemma grouped_distinct: "distinct (dict_keys (grouped key records))"
  by (induction records rule: rev_induct) (simp_all add: grouped_def dict_set_distinct)

lemma grouped_keys: "set (dict_keys (grouped key records)) = key ` set records"
  by (induction records rule: rev_induct) (simp_all add: grouped_def dict_keys_set del: set_map)

lemma grouped_group: "(k, g) \<in> set (grouped key records) \<longleftrightarrow> g = filter (\<lambda>r. key r = k) records \<and> g \<noteq> []"
  using grouped_get [of key records k] map_of_eq_Some_iff [OF grouped_distinct, of key records k g] by (auto simp: Let_def split: if_splits)

definition stores_unless :: "('r \<Rightarrow> bool) \<Rightarrow> ('r \<Rightarrow> 's \<Rightarrow> 's) \<Rightarrow> ('r list \<Rightarrow> 's \<Rightarrow> sync_exn + 's) \<Rightarrow> bool" where
  "stores_unless bad put upsert \<longleftrightarrow> (\<forall>rs s. if \<exists>r \<in> set rs. bad r
     then \<exists>e. upsert rs s = Inl e \<and> \<not> is_systemic_persistence_error e else upsert rs s = Inr (fold put rs s))"

lemma persist_each_Cons:
  "persist_each upsert ((k, rs) # groups) s = (case upsert rs s of
      Inl e \<Rightarrow> ((k, Some (persistence_error e)) # fst (persist_each upsert groups s), snd (persist_each upsert groups s))
    | Inr s' \<Rightarrow> ((k, None) # fst (persist_each upsert groups s'), snd (persist_each upsert groups s')))"
  by (cases "upsert rs s") (simp_all add: case_prod_beta)

declare persist_each.simps(2) [simp del]

lemma persist_each_exact:
  assumes "stores_unless bad put upsert"
  shows "dict_keys (fst (persist_each upsert groups s)) = dict_keys groups \<and>
    snd (persist_each upsert groups s) = fold put (concat (map snd (filter (\<lambda>(k, rs). \<forall>r \<in> set rs. \<not> bad r) groups))) s \<and>
    (\<forall>k. (k, None) \<in> set (fst (persist_each upsert groups s)) \<longleftrightarrow> (\<exists>rs. (k, rs) \<in> set groups \<and> (\<forall>r \<in> set rs. \<not> bad r)))"
proof (induction groups arbitrary: s)
  case (Cons g groups)
  obtain k rs where g: "g = (k, rs)" by (cases g)
  show ?case
  proof (cases "\<exists>r \<in> set rs. bad r")
    case True
    then obtain e where u: "upsert rs s = Inl e" using assms unfolding stores_unless_def by meson
    show ?thesis using Cons [of s] True unfolding g persist_each_Cons u by auto
  next
    case False
    then have u: "upsert rs s = Inr (fold put rs s)" using assms unfolding stores_unless_def by meson
    show ?thesis using Cons [of "fold put rs s"] False unfolding g persist_each_Cons u by auto
  qed
qed simp

lemmas persist_each_facts = persist_each_exact [THEN conjunct1] persist_each_exact [THEN conjunct2, THEN conjunct1]
  persist_each_exact [THEN conjunct2, THEN conjunct2, rule_format]

text \<open>
  When a transaction fails without an outage exactly if it holds a refused record, the symbols reported as
  stored are those without a refused record, and the records stored are exactly all records of these symbols.
\<close>

theorem persistence_isolated:
  assumes "stores_unless bad put upsert"
  shows "\<exists>outcomes stored. persist_with_isolation key upsert records s = Inr (outcomes, fold put stored s) \<and>
    distinct (dict_keys outcomes) \<and> set (dict_keys outcomes) = key ` set records \<and>
    {k. (k, None) \<in> set outcomes} = {k \<in> key ` set records. \<forall>r \<in> set records. key r = k \<longrightarrow> \<not> bad r} \<and>
    set stored = {r \<in> set records. \<forall>r' \<in> set records. key r' = key r \<longrightarrow> \<not> bad r'}"
proof (cases "\<exists>r \<in> set records. bad r")
  case True
  let ?run = "persist_each upsert (grouped key records) s"
  let ?stored = "concat (map snd (filter (\<lambda>(k, rs). \<forall>r \<in> set rs. \<not> bad r) (grouped key records)))"
  obtain e where "upsert records s = Inl e" "\<not> is_systemic_persistence_error e"
    using assms True unfolding stores_unless_def by meson
  then have run: "persist_with_isolation key upsert records s = Inr (fst ?run, fold put ?stored s)"
    by (simp add: persist_with_isolation_def persist_each_facts(2) [OF assms, symmetric])
  have keys: "set (dict_keys (grouped key records)) = key ` set records"
    by (rule grouped_keys)
  have group_of: "(\<exists>rs. (k, rs) \<in> set (grouped key records) \<and> P rs) \<longleftrightarrow>
      filter (\<lambda>r. key r = k) records \<noteq> [] \<and> P (filter (\<lambda>r. key r = k) records)" for k P
    unfolding grouped_group by blast
  have good: "{k. (k, None) \<in> set (fst ?run)} = {k \<in> key ` set records. \<forall>r \<in> set records. key r = k \<longrightarrow> \<not> bad r}"
  proof -
    have "(k, None) \<in> set (fst ?run) \<longleftrightarrow> k \<in> key ` set records \<and> (\<forall>r \<in> set records. key r = k \<longrightarrow> \<not> bad r)" for k
      unfolding persist_each_facts(3) [OF assms] group_of by (fastforce simp: filter_empty_conv)
    then show ?thesis by blast
  qed
  have stored: "set ?stored = {r \<in> set records. \<forall>r' \<in> set records. key r' = key r \<longrightarrow> \<not> bad r'}"
  proof -
    have "r \<in> set ?stored \<longleftrightarrow> r \<in> set records \<and> (\<forall>r' \<in> set records. key r' = key r \<longrightarrow> \<not> bad r')" for r
    proof -
      have "r \<in> set ?stored \<longleftrightarrow> (\<exists>k rs. (k, rs) \<in> set (grouped key records) \<and> (\<forall>r \<in> set rs. \<not> bad r) \<and> r \<in> set rs)" by force
      then show ?thesis unfolding group_of by (auto simp: filter_empty_conv)
    qed
    then show ?thesis by blast
  qed
  have outcomes: "dict_keys (fst ?run) = dict_keys (grouped key records)" by (rule persist_each_facts(1) [OF assms])
  show ?thesis
    by (rule exI [of _ "fst ?run"], rule exI [of _ ?stored], unfold outcomes keys)
      (intro conjI run good stored grouped_distinct refl)
next
  case False
  then have "upsert records s = Inr (fold put records s)" using assms unfolding stores_unless_def by meson
  then have run: "persist_with_isolation key upsert records s = Inr (map (\<lambda>(k, rs). (k, None)) (grouped key records), fold put records s)"
    by (simp add: persist_with_isolation_def)
  have keys: "dict_keys (map (\<lambda>(k, rs). (k, None)) (grouped key records)) = dict_keys (grouped key records)" by auto
  have set: "set (dict_keys (grouped key records)) = key ` set records"
    by (rule grouped_keys)
  have good: "{k. (k, None) \<in> set (map (\<lambda>(k, rs). (k, None)) (grouped key records))} = key ` set records"
    unfolding set [symmetric] by force
  show ?thesis
  proof (intro exI conjI)
    show "persist_with_isolation key upsert records s = Inr (map (\<lambda>(k, rs). (k, None)) (grouped key records), fold put records s)" by (rule run)
    show "distinct (dict_keys (map (\<lambda>(k, rs). (k, None)) (grouped key records)))" unfolding keys by (rule grouped_distinct)
    show "set (dict_keys (map (\<lambda>(k, rs). (k, None)) (grouped key records))) = key ` set records" unfolding keys by (rule set)
    show "{k. (k, None) \<in> set (map (\<lambda>(k, rs). (k, None)) (grouped key records))} = {k \<in> key ` set records. \<forall>r \<in> set records. key r = k \<longrightarrow> \<not> bad r}"
      unfolding good using False by blast
    show "set records = {r \<in> set records. \<forall>r' \<in> set records. key r' = key r \<longrightarrow> \<not> bad r'}" using False by blast
  qed
qed

section \<open>The snapshot of securities\<close>

lemma require_securities_ok:
  "require_securities raw acc = Inr records \<longleftrightarrow>
     (\<exists>rs. raw = map Some rs \<and> records = acc @ rs \<and> distinct (map se_symbol rs) \<and> se_symbol ` set rs \<inter> se_symbol ` set acc = {})"
proof (induction raw arbitrary: acc)
  case (Cons r raw)
  show ?case
  proof (cases r)
    case (Some x)
    have "(\<exists>rs. Some x # raw = map Some rs \<and> P rs) \<longleftrightarrow> (\<exists>rs. raw = map Some rs \<and> P (x # rs))" for P
      by (auto simp: Cons_eq_map_conv)
    then show ?thesis unfolding Some by (auto simp: Cons.IH)
  qed auto
qed auto

text \<open>
  The securities are written as one snapshot or not at all: a synchronization that reports success for some
  security has stored the whole answer of the provider, every record valid and no symbol twice, in one call; every
  other outcome leaves the database as it was.
\<close>

theorem security_sync_atomic:
  assumes "security_sync get reconcile p s = (items, p', s')"
  shows "(\<exists>records. fst (get p) = Inr (map Some records) \<and> records \<noteq> [] \<and> distinct (map se_symbol records) \<and> reconcile records s = Inr s' \<and>
      items = map stored_item records \<and> summary_ok items) \<or>
    s' = s \<and> (items = [] \<and> fst (get p) = Inr [] \<or> (\<exists>e. items = provider_failure e))"
proof (cases "fst (get p)")
  case (Inl e)
  then have "s' = s \<and> items = provider_failure (sync_error e)" using assms by (simp add: security_sync_def split: prod.splits)
  then show ?thesis by blast
next
  case (Inr raw)
  show ?thesis
  proof (cases "require_securities raw []")
    case (Inl e)
    then have "raw \<noteq> []" by auto
    then have "s' = s \<and> items = provider_failure (sync_error e)"
      using assms Inr Inl by (simp add: security_sync_def split: prod.splits)
    then show ?thesis by blast
  next
    case ok: (Inr records)
    then have "raw = map Some records" "distinct (map se_symbol records)" by (auto simp: require_securities_ok)
    moreover have "summary_ok (map stored_item records)"
      by (simp add: summary_ok_def summary_succeeded_def filter_map comp_def stored_item_def)
    moreover have "s' = s \<and> (items = [] \<and> raw = [] \<or> (\<exists>e. items = provider_failure e)) \<or> raw \<noteq> [] \<and> reconcile records s = Inr s' \<and> items = map stored_item records"
    proof (cases "reconcile records s")
      case (Inl e)
      then have "s' = s \<and> (items = [] \<and> raw = [] \<or> items = provider_failure (persistence_error e))"
        using assms Inr ok by (simp split: prod.splits if_splits add: security_sync_def)
      then show ?thesis by blast
    next
      case (Inr s'')
      then show ?thesis using assms \<open>fst (get p) = Inr raw\<close> ok by (simp split: prod.splits if_splits add: security_sync_def)
    qed
    ultimately show ?thesis using Inr by auto
  qed
qed

section \<open>Validated records\<close>

definition keyed_records :: "('r \<Rightarrow> string) \<Rightarrow> ('r \<Rightarrow> bool) \<Rightarrow> ('r \<Rightarrow> 'k) \<Rightarrow> string \<Rightarrow> ('k, 'r) dict \<Rightarrow> bool" where
  "keyed_records symbol_of fits identity s d \<longleftrightarrow> distinct (dict_keys d) \<and> (\<forall>(k, r) \<in> set d. symbol_of r = s \<and> fits r \<and> identity r = k)"

lemma validate_loop_ok:
  "validate_loop symbol_of fits identity class_name noun misfit conflict s raw unique = Inr unique' \<Longrightarrow>
     keyed_records symbol_of fits identity s unique \<Longrightarrow> keyed_records symbol_of fits identity s unique'"
proof (induction raw arbitrary: unique)
  case (Cons x raw)
  then obtain r where r: "x = Some r" "symbol_of r = s" "fits r"
    and rest: "validate_loop symbol_of fits identity class_name noun misfit conflict s raw (dict_set (identity r) r unique) = Inr unique'"
    by (cases x) (auto split: if_splits)
  have "keyed_records symbol_of fits identity s (dict_set (identity r) r unique)"
    using Cons.prems(2) r dict_set_distinct [of unique "identity r" r] dict_set_source [of "identity r" r unique]
    unfolding keyed_records_def by blast
  then show ?case by (rule Cons.IH [OF rest])
qed simp

lemma in_identity_order_ok:
  assumes "keyed_records symbol_of fits identity s unique"
  shows "\<forall>r \<in> set (in_identity_order unique). symbol_of r = s \<and> fits r"
    and "map identity (in_identity_order unique) = sort (dict_keys unique)"
proof -
  have e: "\<exists>r. dict_get unique k = Some r \<and> symbol_of r = s \<and> fits r \<and> identity r = k" if "k \<in> set (dict_keys unique)" for k
    using that assms map_of_eq_Some_iff [of unique k] unfolding keyed_records_def by force
  show "\<forall>r \<in> set (in_identity_order unique). symbol_of r = s \<and> fits r"
    unfolding in_identity_order_def using e by fastforce
  have "identity (the (dict_get unique k)) = k" if "k \<in> set (sort (dict_keys unique))" for k using e that by force
  then show "map identity (in_identity_order unique) = sort (dict_keys unique)"
    unfolding in_identity_order_def map_map comp_def by (rule map_idI)
qed

lemma validated_bars_ok:
  assumes "validated_bars s raw a = Inr bars"
  shows "\<forall>b \<in> set bars. db_symbol b = s \<and> db_adjustment b = a"
    and "sorted (map db_trade_date bars)" "distinct (map db_trade_date bars)"
proof -
  from assms obtain unique where u: "validate_loop db_symbol (\<lambda>b. db_adjustment b = a) db_trade_date ''DailyBar'' ''bar''
      ''provider returned a different adjustment mode'' ''conflicting daily bars for one identity'' s raw [] = Inr unique"
    and bars: "bars = in_identity_order unique"
    unfolding validated_bars_def map_sum_def by (auto split: sum.splits)
  have k: "keyed_records db_symbol (\<lambda>b. db_adjustment b = a) db_trade_date s unique"
    by (rule validate_loop_ok [OF u]) (simp add: keyed_records_def)
  show "\<forall>b \<in> set bars. db_symbol b = s \<and> db_adjustment b = a" unfolding bars by (rule in_identity_order_ok(1) [OF k])
  show "sorted (map db_trade_date bars)" "distinct (map db_trade_date bars)"
    unfolding bars in_identity_order_ok(2) [OF k] using k by (simp_all add: keyed_records_def)
qed

end
