(* ===== verification/Daily_Sync.thy ===== *)
theory Daily_Sync
  imports Market_Sync Analysis_Stream
begin

text \<open>
  Synchronization of daily bars (\<open>DailyBarSyncService\<close> of \<open>market-data-hub/app/services/sync.py\<close>): the check of
  the forward-adjusted revisions with the replacement of revised histories, the batches of the other symbols,
  the window cut out of what came back, storage, and the completion of a reserved run.

  The provider and the repositories are the fields of a record of functions over one state \<open>'w\<close> of everything
  outside; a field that is an option is a capability the code asks for with \<open>getattr\<close>. A call that writes is one
  transaction: an exception leaves the state as it was.
\<close>

section \<open>The parties of a synchronization\<close>

type_synonym bars_answer = "(string, daily_bar option list) dict"

record ('w, 'g) fencing =
  reserve_run :: "'w \<Rightarrow> string list \<Rightarrow> adjustment \<Rightarrow> (sync_exn + 'g) \<times> 'w"
  fenced_upsert :: "'g \<Rightarrow> (string, string) dict \<Rightarrow> string \<Rightarrow> daily_bar list \<Rightarrow> 'w \<Rightarrow> sync_exn + 'w"
  complete_run :: "string list \<Rightarrow> adjustment \<Rightarrow> 'g \<Rightarrow> int \<Rightarrow> 'w \<Rightarrow> sync_exn + 'w"

record 'w revision_store =
  stored_revision :: "'w \<Rightarrow> string \<Rightarrow> (sync_exn + string option) \<times> 'w"
  upsert_revision :: "string \<Rightarrow> string \<Rightarrow> string \<Rightarrow> int option \<Rightarrow> int option \<Rightarrow> bool \<Rightarrow> 'w \<Rightarrow> sync_exn + 'w"

record ('w, 'g) bar_ports =
  bars_batch :: "('w \<Rightarrow> string list \<Rightarrow> adjustment \<Rightarrow> int \<Rightarrow> (sync_exn + bars_answer) \<times> 'w) option"
  bars_window :: "('w \<Rightarrow> string list \<Rightarrow> adjustment \<Rightarrow> int \<Rightarrow> int option \<Rightarrow> (sync_exn + bars_answer) \<times> 'w) option"
  bars_between :: "'w \<Rightarrow> string \<Rightarrow> int \<Rightarrow> int \<Rightarrow> adjustment \<Rightarrow> (sync_exn + daily_bar option list) \<times> 'w"
  revision_of :: "('w \<Rightarrow> string \<Rightarrow> (sync_exn + string) \<times> 'w) option"
  authoritative_history :: bool
  source_name :: string
  list_bars :: "'w \<Rightarrow> string \<Rightarrow> adjustment \<Rightarrow> (sync_exn + daily_bar list) \<times> 'w"
  replace_bars :: "string \<Rightarrow> daily_bar list \<Rightarrow> adjustment \<Rightarrow> int \<Rightarrow> int \<Rightarrow> ('g \<times> string \<times> string) option \<Rightarrow> 'w \<Rightarrow> sync_exn + 'w"
  upsert_bars :: "daily_bar list \<Rightarrow> 'w \<Rightarrow> sync_exn + 'w"
  fencing :: "('w, 'g) fencing option"
  revisions :: "'w revision_store option"

record bars_query =
  rq_adjustment :: adjustment
  rq_start :: "int option"
  rq_end :: "int option"
  rq_lookback :: "int option"
  rq_count :: int

text \<open>The checks of the arguments, and how many bars are asked for.\<close>

definition bars_request :: "pyval \<Rightarrow> int option \<Rightarrow> int option \<Rightarrow> int option \<Rightarrow> sync_exn + bars_query" where
  "bars_request adjustment start end_day lookback = (case normalize_adjustment adjustment of
      Inl e \<Rightarrow> Inl (of_exn e)
    | Inr a \<Rightarrow> (case lookback of
          None \<Rightarrow> (case (start, end_day) of
              (Some s, Some e) \<Rightarrow>
                if s > e then Inl (invalid ''start/end are required and must form a valid range'')
                else Inr \<lparr>rq_adjustment = a, rq_start = start, rq_end = end_day, rq_lookback = None, rq_count = max 8 ((e - s) * 2 + 8)\<rparr>
            | _ \<Rightarrow> Inl (invalid ''start/end are required and must form a valid range''))
        | Some n \<Rightarrow>
            if start \<noteq> None \<or> n \<le> 0 then Inl (invalid ''lookback_bars is exclusive with start'')
            else Inr \<lparr>rq_adjustment = a, rq_start = None, rq_end = end_day, rq_lookback = Some n,
                rq_count = n + (if end_day \<noteq> None then 8 else 0)\<rparr>))"

text \<open>Only called when the provider has the batch method.\<close>

definition fetch_bars :: "('w, 'g) bar_ports \<Rightarrow> bars_query \<Rightarrow> int \<Rightarrow> 'w \<Rightarrow> string list \<Rightarrow> (sync_exn + bars_answer) \<times> 'w" where
  "fetch_bars ports rq count w symbols = (case bars_window ports of
      Some window \<Rightarrow> window w symbols (rq_adjustment rq) count (rq_end rq)
    | None \<Rightarrow> (case bars_batch ports of
          Some batch \<Rightarrow> batch w symbols (rq_adjustment rq) count
        | None \<Rightarrow> (Inl (Raised OtherFailure ''TypeError'' ''NoneType object is not callable''), w)))"

section \<open>Revised histories\<close>

text \<open>
  The stored bars of a symbol whose revision changed, or whose stored bars have no revision yet; \<open>None\<close> when the
  symbol is synchronized normally.
\<close>

definition revised_history ::
  "('w, 'g) bar_ports \<Rightarrow> 'w revision_store \<Rightarrow> bars_query \<Rightarrow> string \<Rightarrow> string \<Rightarrow> 'w \<Rightarrow> (sync_exn + daily_bar list option) \<times> 'w"
where
  "revised_history ports store rq symbol revision w = (case stored_revision store w symbol of
      (Inl e, w1) \<Rightarrow> (Inl e, w1)
    | (Inr None, w1) \<Rightarrow> (case list_bars ports w1 symbol (rq_adjustment rq) of
          (Inl e, w2) \<Rightarrow> (Inl e, w2)
        | (Inr existing, w2) \<Rightarrow> (Inr (if existing \<noteq> [] then Some existing else None), w2))
    | (Inr (Some hash), w1) \<Rightarrow>
        if hash = revision then (Inr None, w1)
        else (case list_bars ports w1 symbol (rq_adjustment rq) of
            (Inl e, w2) \<Rightarrow> (Inl e, w2)
          | (Inr existing, w2) \<Rightarrow> (Inr (Some existing), w2)))"

abbreviation bar_days :: "daily_bar list \<Rightarrow> int list" where "bar_days bars \<equiv> map db_trade_date bars"

definition upto_end :: "int option \<Rightarrow> daily_bar list \<Rightarrow> daily_bar list" where
  "upto_end end_day bars = (case end_day of None \<Rightarrow> bars | Some e \<Rightarrow> filter (\<lambda>b. db_trade_date b \<le> e) bars)"

text \<open>The bars a revised history is rebuilt from.\<close>

definition rebuilt_bars ::
  "('w, 'g) bar_ports \<Rightarrow> bars_query \<Rightarrow> string \<Rightarrow> daily_bar list \<Rightarrow> 'w \<Rightarrow> (sync_exn + daily_bar list) \<times> 'w"
where
  "rebuilt_bars ports rq symbol existing w =
     (if (case (rq_end rq, latest_of (bar_days existing)) of (Some e, Some last_day) \<Rightarrow> e < last_day | _ \<Rightarrow> False)
      then (Inl (invalid ''qfq revision cannot use a historical cutoff before stored coverage''), w)
      else (case fetch_bars ports rq (max (rq_count rq) (max (int (length existing) + 32) 400)) w [symbol] of
          (Inl e, w1) \<Rightarrow> (Inl e, w1)
        | (Inr by_symbol, w1) \<Rightarrow> (case dict_get by_symbol symbol of
              None \<Rightarrow> (Inl (unavailable ''provider omitted requested revision symbol''), w1)
            | Some raw \<Rightarrow> (case validated_bars symbol raw (rq_adjustment rq) of
                  Inl e \<Rightarrow> (Inl e, w1)
                | Inr bars \<Rightarrow>
                    if existing \<noteq> [] \<and> upto_end (rq_end rq) bars = []
                    then (Inl (invalid ''provider returned no bars during qfq revision rebuild''), w1)
                    else (Inr (upto_end (rq_end rq) bars), w1)))))"

definition first_day :: "daily_bar list \<Rightarrow> daily_bar list \<Rightarrow> int option" where
  "first_day existing bars = (case earliest (bar_days existing) of Some d \<Rightarrow> Some d | None \<Rightarrow> earliest (bar_days bars))"

definition last_day :: "daily_bar list \<Rightarrow> daily_bar list \<Rightarrow> int option" where
  "last_day existing bars = (case latest_of (bar_days existing) of Some d \<Rightarrow> Some d | None \<Rightarrow> latest_of (bar_days bars))"

text \<open>Why the rebuilt bars may not replace the stored ones, if they may not.\<close>

definition coverage_refusal :: "bool \<Rightarrow> daily_bar list \<Rightarrow> daily_bar list \<Rightarrow> sync_exn option" where
  "coverage_refusal authoritative existing bars =
     (if (\<forall>d \<in> set (bar_days bars). d > the (first_day existing bars)) \<or> (\<forall>d \<in> set (bar_days bars). d < the (last_day existing bars))
      then Some (invalid ''qfq revision returned incomplete coverage'')
      else if \<not> set (bar_days existing) \<subseteq> set (bar_days bars) \<and> \<not> authoritative
      then Some (invalid ''qfq revision deletion needs an authoritative source'')
      else None)"

definition rebased_item :: "string \<Rightarrow> nat \<Rightarrow> int option \<Rightarrow> sync_item" where
  "rebased_item s n changed = \<lparr>sy_symbol = s, sy_success = True, sy_fetched = n, sy_persisted = n, sy_error = None,
     sy_rebased = True, sy_changed_from = changed\<rparr>"

definition unrebased_item :: "string \<Rightarrow> nat \<Rightarrow> sync_exn \<Rightarrow> int option \<Rightarrow> sync_item" where
  "unrebased_item s n e changed = \<lparr>sy_symbol = s, sy_success = False, sy_fetched = n, sy_persisted = 0, sy_error = Some (persistence_error e),
     sy_rebased = True, sy_changed_from = changed\<rparr>"

text \<open>
  The end of the rebuilding: the revision is asked for again and the stored bars are replaced. A systemic error of
  the database is raised here, into the handler of the loop.
\<close>

definition replace_history ::
  "('w, 'g) bar_ports \<Rightarrow> ('w \<Rightarrow> string \<Rightarrow> (sync_exn + string) \<times> 'w) \<Rightarrow> 'g option \<Rightarrow> bars_query \<Rightarrow> string \<Rightarrow> string \<Rightarrow>
     daily_bar list \<Rightarrow> daily_bar list \<Rightarrow> 'w \<Rightarrow> (sync_exn + sync_item) \<times> 'w"
where
  "replace_history ports revision_method generations rq symbol revision existing bars w =
     (let changed = first_day existing bars; rebased = rebased_item symbol (length bars) changed in
      if bars = [] then (Inr rebased, w)
      else (case coverage_refusal (authoritative_history ports) existing bars of
          Some e \<Rightarrow> (Inl e, w)
        | None \<Rightarrow> (case revision_method w symbol of
              (Inl e, w1) \<Rightarrow> (Inl e, w1)
            | (Inr again, w1) \<Rightarrow>
                if again \<noteq> revision then (Inl (unavailable ''qfq revision changed during fetch''), w1)
                else (case replace_bars ports symbol bars (rq_adjustment rq) (the changed) (the (last_day existing bars))
                      (map_option (\<lambda>g. (g, revision, source_name ports)) generations) w1 of
                    Inr w2 \<Rightarrow> (Inr rebased, w2)
                  | Inl e \<Rightarrow> if is_systemic_persistence_error e then (Inl e, w1)
                      else (Inr (unrebased_item symbol (length bars) e changed), w1)))))"

record bars_state =
  bs_results :: report
  bs_revisions :: "(string, string) dict"
  bs_rebased :: "string list"
  bs_normal :: "string list"

definition report_item :: "string \<Rightarrow> sync_item \<Rightarrow> bars_state \<Rightarrow> bars_state" where
  "report_item symbol i st = st\<lparr>bs_results := dict_set symbol i (bs_results st)\<rparr>"

text \<open>
  One symbol of the loop over revisions. \<open>bs_rebased\<close> has the keys of \<open>rebase_from\<close>, whose values nothing reads.
\<close>

definition check_revision ::
  "('w, 'g) bar_ports \<Rightarrow> 'w revision_store \<Rightarrow> ('w \<Rightarrow> string \<Rightarrow> (sync_exn + string) \<times> 'w) \<Rightarrow> 'g option \<Rightarrow> bars_query \<Rightarrow> string \<Rightarrow>
     bars_state \<times> 'w \<Rightarrow> bars_state \<times> 'w"
where
  "check_revision ports store revision_method generations rq symbol sw = (case sw of (st, w) \<Rightarrow>
     (case revision_method w symbol of
        (Inl e, w1) \<Rightarrow> (report_item symbol (failed_item symbol (sync_error e)) st, w1)
      | (Inr revision, w1) \<Rightarrow>
          let st1 = st\<lparr>bs_revisions := dict_set symbol revision (bs_revisions st)\<rparr> in
          (case revised_history ports store rq symbol revision w1 of
             (Inl e, w2) \<Rightarrow> (report_item symbol (failed_item symbol (sync_error e)) st1, w2)
           | (Inr None, w2) \<Rightarrow> (st1\<lparr>bs_normal := bs_normal st @ [symbol]\<rparr>, w2)
           | (Inr (Some existing), w2) \<Rightarrow>
               (case rebuilt_bars ports rq symbol existing w2 of
                  (Inl e, w3) \<Rightarrow> (report_item symbol (failed_item symbol (sync_error e)) st1, w3)
                | (Inr bars, w3) \<Rightarrow>
                    (case replace_history ports revision_method generations rq symbol revision existing bars w3 of
                       (Inl e, w4) \<Rightarrow> (report_item symbol (failed_item symbol (sync_error e)) st1, w4)
                     | (Inr i, w4) \<Rightarrow>
                         (report_item symbol i
                            (if sy_success i \<and> sy_changed_from i \<noteq> None then st1\<lparr>bs_rebased := bs_rebased st @ [symbol]\<rparr> else st1), w4))))))"

text \<open>The symbols left for the normal synchronization.\<close>

definition check_revisions ::
  "('w, 'g) bar_ports \<Rightarrow> 'g option \<Rightarrow> bars_query \<Rightarrow> string list \<Rightarrow> report \<Rightarrow> 'w \<Rightarrow> bars_state \<times> 'w"
where
  "check_revisions ports generations rq canonical results w =
     (case (rq_adjustment rq, revisions ports, revision_of ports, bars_batch ports) of
        (QFQ, Some store, Some revision_method, Some batch) \<Rightarrow>
          fold (check_revision ports store revision_method generations rq) canonical
            (\<lparr>bs_results = results, bs_revisions = [], bs_rebased = [], bs_normal = []\<rparr>, w)
      | _ \<Rightarrow> (\<lparr>bs_results = results, bs_revisions = [], bs_rebased = [], bs_normal = canonical\<rparr>, w))"

section \<open>The bars of the other symbols\<close>

type_synonym pending_bars = "(string, daily_bar list) dict"

definition last_bars :: "int \<Rightarrow> daily_bar list \<Rightarrow> daily_bar list" where
  "last_bars n bars = drop (length bars - nat n) bars"

text \<open>Validated first, cut to the window afterwards.\<close>

definition clip_bars :: "bars_query \<Rightarrow> daily_bar list \<Rightarrow> daily_bar list" where
  "clip_bars rq bars = (case rq_lookback rq of
      Some n \<Rightarrow> last_bars n (upto_end (rq_end rq) bars)
    | None \<Rightarrow> (case (rq_start rq, rq_end rq) of
          (Some s, Some e) \<Rightarrow> filter (\<lambda>b. s \<le> db_trade_date b \<and> db_trade_date b \<le> e) bars
        | _ \<Rightarrow> bars))"

definition place_bars :: "bars_query \<Rightarrow> bars_answer \<Rightarrow> string \<Rightarrow> pending_bars \<times> report \<Rightarrow> pending_bars \<times> report" where
  "place_bars rq by_symbol symbol st =
     (case (case dict_get by_symbol symbol of
          None \<Rightarrow> Inl (unavailable ''provider omitted requested daily-bar symbol'')
        | Some raw \<Rightarrow> map_sum id (clip_bars rq) (validated_bars symbol raw (rq_adjustment rq))) of
        Inl e \<Rightarrow> (fst st, fail_symbol (sync_error e) symbol (snd st))
      | Inr bars \<Rightarrow> (dict_set symbol bars (fst st), dict_set symbol (fetched_item symbol (length bars)) (snd st)))"

fun bar_chunks ::
  "('w \<Rightarrow> string list \<Rightarrow> (sync_exn + bars_answer) \<times> 'w) \<Rightarrow> bars_query \<Rightarrow> string list list \<Rightarrow> pending_bars \<times> report \<Rightarrow> 'w \<Rightarrow>
     (pending_bars \<times> report) \<times> 'w"
where
  "bar_chunks fetch rq [] st w = (st, w)"
| "bar_chunks fetch rq (chunk # chunks) st w = (case fetch_isolated fetch chunk w of
      (Inl e, w') \<Rightarrow> bar_chunks fetch rq chunks (fst st, fold (fail_symbol (sync_error e)) chunk (snd st)) w'
    | (Inr (answered, errors), w') \<Rightarrow>
        bar_chunks fetch rq chunks
          (fold (\<lambda>(symbols, by_symbol). fold (place_bars rq by_symbol) symbols) answered
             (fst st, fold (\<lambda>(s, e). fail_symbol (sync_error e) s) errors (snd st))) w')"

fun single_bars ::
  "('w, 'g) bar_ports \<Rightarrow> adjustment \<Rightarrow> int \<Rightarrow> int \<Rightarrow> string list \<Rightarrow> pending_bars \<times> report \<Rightarrow> 'w \<Rightarrow> (pending_bars \<times> report) \<times> 'w"
where
  "single_bars ports a s e [] st w = (st, w)"
| "single_bars ports a s e (symbol # symbols) st w = (case bars_between ports w symbol s e a of (answer, w') \<Rightarrow>
     single_bars ports a s e symbols
       (case (case answer of Inl e \<Rightarrow> Inl e | Inr raw \<Rightarrow> validated_bars symbol raw a) of
          Inl e \<Rightarrow> (fst st, fail_symbol (sync_error e) symbol (snd st))
        | Inr bars \<Rightarrow> (dict_set symbol bars (fst st), dict_set symbol (fetched_item symbol (length bars)) (snd st))) w')"

definition fetch_pending ::
  "('w, 'g) bar_ports \<Rightarrow> bars_query \<Rightarrow> nat \<Rightarrow> string list \<Rightarrow> report \<Rightarrow> 'w \<Rightarrow> (sync_exn + pending_bars \<times> report) \<times> 'w"
where
  "fetch_pending ports rq chunk_size normal results w = (case bars_batch ports of
      Some batch \<Rightarrow> (case bar_chunks (fetch_bars ports rq (rq_count rq)) rq (batches chunk_size normal) ([], results) w of (st, w') \<Rightarrow> (Inr st, w'))
    | None \<Rightarrow> (case (rq_start rq, rq_end rq) of
          (Some s, Some e) \<Rightarrow> (case single_bars ports (rq_adjustment rq) s e normal ([], results) w of (st, w') \<Rightarrow> (Inr st, w'))
        | _ \<Rightarrow> (Inl (invalid ''provider does not support count-based history bootstrap''), w)))"

text \<open>The revision sampled before the fetch must still hold after it.\<close>

fun confirm_revisions ::
  "('w \<Rightarrow> string \<Rightarrow> (sync_exn + string) \<times> 'w) \<Rightarrow> (string, string) dict \<Rightarrow> string list \<Rightarrow> pending_bars \<times> report \<Rightarrow> 'w \<Rightarrow> (pending_bars \<times> report) \<times> 'w"
where
  "confirm_revisions revision_method sampled [] st w = (st, w)"
| "confirm_revisions revision_method sampled (symbol # symbols) st w = (case dict_get sampled symbol of
      None \<Rightarrow> confirm_revisions revision_method sampled symbols st w
    | Some previous \<Rightarrow> (case revision_method w symbol of
          (Inl e, w') \<Rightarrow> confirm_revisions revision_method sampled symbols
            (AList.delete symbol (fst st), fail_symbol (sync_error e) symbol (snd st)) w'
        | (Inr again, w') \<Rightarrow> confirm_revisions revision_method sampled symbols
            (if again = previous then st
             else (AList.delete symbol (fst st), fail_symbol (sync_error (unavailable ''qfq revision changed during fetch'')) symbol (snd st))) w'))"

definition confirm_pending ::
  "('w, 'g) bar_ports \<Rightarrow> bars_query \<Rightarrow> (string, string) dict \<Rightarrow> pending_bars \<times> report \<Rightarrow> 'w \<Rightarrow> (pending_bars \<times> report) \<times> 'w"
where
  "confirm_pending ports rq sampled st w = (case (rq_adjustment rq, revision_of ports) of
      (QFQ, Some revision_method) \<Rightarrow> confirm_revisions revision_method sampled (dict_keys (fst st)) st w
    | _ \<Rightarrow> (st, w))"

section \<open>Storage and completion\<close>

definition daily_outcome :: "(string \<times> sync_failure option) \<Rightarrow> report \<Rightarrow> report" where
  "daily_outcome outcome results = (case outcome of (s, error) \<Rightarrow> (case dict_get results s of
      None \<Rightarrow> results
    | Some previous \<Rightarrow> dict_set s \<lparr>sy_symbol = s, sy_success = (error = None), sy_fetched = sy_fetched previous,
          sy_persisted = (if error = None then sy_fetched previous else 0), sy_error = error,
          sy_rebased = sy_rebased previous, sy_changed_from = sy_changed_from previous\<rparr> results))"

definition store_pending ::
  "('w, 'g) bar_ports \<Rightarrow> 'g option \<Rightarrow> (string, string) dict \<Rightarrow> pending_bars \<times> report \<Rightarrow> 'w \<Rightarrow> (sync_exn + report) \<times> 'w"
where
  "store_pending ports generations sampled st w =
     (let records = concat (map snd (fst st));
          upsert = (case (fencing ports, generations) of
              (Some fence, Some g) \<Rightarrow> fenced_upsert fence g sampled (source_name ports)
            | _ \<Rightarrow> upsert_bars ports)
      in if records = [] then (Inr (snd st), w)
         else (case persist_with_isolation db_symbol upsert records w of
             Inl e \<Rightarrow> (Inl e, w)
           | Inr (outcomes, w') \<Rightarrow> (Inr (fold daily_outcome outcomes (snd st)), w')))"

definition failed_again :: "sync_failure \<Rightarrow> sync_item \<Rightarrow> sync_item" where
  "failed_again error previous = previous\<lparr>sy_success := False, sy_error := Some error\<rparr>"

text \<open>Without fencing the revision of each synchronized symbol is recorded one by one.\<close>

definition known_revision ::
  "('w, 'g) bar_ports \<Rightarrow> bars_state \<Rightarrow> string \<Rightarrow> 'w \<Rightarrow> (sync_exn + string option) \<times> 'w"
where
  "known_revision ports bs symbol w = (case (dict_get (bs_revisions bs) symbol, revision_of ports) of
      (None, Some revision_method) \<Rightarrow> (case revision_method w symbol of (answer, w1) \<Rightarrow> (map_sum id Some answer, w1))
    | (known, _) \<Rightarrow> (Inr known, w))"

definition record_coverage ::
  "('w, 'g) bar_ports \<Rightarrow> 'w revision_store \<Rightarrow> bars_query \<Rightarrow> string \<Rightarrow> string \<Rightarrow> bool \<Rightarrow> 'w \<Rightarrow> (sync_exn + unit) \<times> 'w"
where
  "record_coverage ports store rq symbol revision rebased w = (case list_bars ports w symbol (rq_adjustment rq) of
      (Inl e, w1) \<Rightarrow> (Inl e, w1)
    | (Inr coverage, w1) \<Rightarrow>
        (case upsert_revision store symbol (source_name ports) revision (earliest (bar_days coverage)) (latest_of (bar_days coverage)) rebased w1 of
           Inl e \<Rightarrow> (Inl e, w1)
         | Inr w2 \<Rightarrow> (Inr (), w2)))"

definition record_revision ::
  "('w, 'g) bar_ports \<Rightarrow> 'w revision_store \<Rightarrow> bars_query \<Rightarrow> bars_state \<Rightarrow> string \<Rightarrow> report \<times> 'w \<Rightarrow> report \<times> 'w"
where
  "record_revision ports store rq bs symbol rw = (case rw of (results, w) \<Rightarrow>
     (case dict_get results symbol of
        None \<Rightarrow> (results, w)
      | Some i \<Rightarrow>
          if \<not> sy_success i then (results, w)
          else (case known_revision ports bs symbol w of
              (Inl e, w1) \<Rightarrow> (results, w1)
            | (Inr None, w1) \<Rightarrow> (results, w1)
            | (Inr (Some revision), w1) \<Rightarrow>
                if revision = [] then (results, w1)
                else (case record_coverage ports store rq symbol revision (symbol \<in> set (bs_rebased bs)) w1 of
                    (Inl e, w2) \<Rightarrow> (dict_set symbol (failed_again (persistence_error e) i) results, w2)
                  | (Inr u, w2) \<Rightarrow> (results, w2)))))"

definition record_revisions ::
  "('w, 'g) bar_ports \<Rightarrow> bars_query \<Rightarrow> bars_state \<Rightarrow> string list \<Rightarrow> report \<times> 'w \<Rightarrow> report \<times> 'w"
where
  "record_revisions ports rq bs canonical rw = (case (fencing ports, rq_adjustment rq, revisions ports) of
      (None, QFQ, Some store) \<Rightarrow> fold (record_revision ports store rq bs) canonical rw
    | _ \<Rightarrow> rw)"

definition successful :: "report \<Rightarrow> string list \<Rightarrow> string list" where
  "successful results symbols = filter (\<lambda>s. case dict_get results s of None \<Rightarrow> False | Some i \<Rightarrow> sy_success i) symbols"

definition fail_again :: "string \<Rightarrow> report \<Rightarrow> report" where
  "fail_again s results = dict_set s (failed_again (''PERSISTENCE_ERROR'', ''sync completion was superseded'') (the (dict_get results s))) results"

definition finish_run ::
  "('w, 'g) bar_ports \<Rightarrow> 'g option \<Rightarrow> bars_query \<Rightarrow> string list \<Rightarrow> report \<times> 'w \<Rightarrow> (sync_exn + report) \<times> 'w"
where
  "finish_run ports generations rq canonical rw = (case rw of (results, w) \<Rightarrow>
     (case (fencing ports, generations) of
        (Some fence, Some g) \<Rightarrow>
          (let good = successful results canonical in
           case complete_run fence good (rq_adjustment rq) g (case rq_lookback rq of None \<Rightarrow> 0 | Some n \<Rightarrow> n) w of
             Inr w' \<Rightarrow> (Inr results, w')
           | Inl e \<Rightarrow> if is_systemic_persistence_error e then (Inl e, w) else (Inr (fold fail_again good results), w))
      | _ \<Rightarrow> (Inr results, w)))"

text \<open>\<open>DailyBarSyncService.sync\<close>.\<close>

definition daily_sync ::
  "('w, 'g) bar_ports \<Rightarrow> nat \<Rightarrow> pyval list \<Rightarrow> int option \<Rightarrow> int option \<Rightarrow> pyval \<Rightarrow> int option \<Rightarrow> 'w \<Rightarrow> (sync_exn + sync_item list) \<times> 'w"
where
  "daily_sync ports chunk_size symbols start end_day adjustment lookback w =
     (case bars_request adjustment start end_day lookback of
        Inl e \<Rightarrow> (Inl e, w)
      | Inr rq \<Rightarrow> (case canonicalize_symbols symbols of (canonical, results) \<Rightarrow>
          (case (case fencing ports of
              None \<Rightarrow> (Inr None, w)
            | Some fence \<Rightarrow> (case reserve_run fence w canonical (rq_adjustment rq) of (answer, w1) \<Rightarrow> (map_sum id Some answer, w1))) of
             (Inl e, w1) \<Rightarrow> (Inl e, w1)
           | (Inr generations, w1) \<Rightarrow>
               (case check_revisions ports generations rq canonical results w1 of (bs, w2) \<Rightarrow>
                 (case fetch_pending ports rq chunk_size (bs_normal bs) (bs_results bs) w2 of
                    (Inl e, w3) \<Rightarrow> (Inl e, w3)
                  | (Inr fetched, w3) \<Rightarrow>
                      (case confirm_pending ports rq (bs_revisions bs) fetched w3 of (confirmed, w4) \<Rightarrow>
                        (case store_pending ports generations (bs_revisions bs) confirmed w4 of
                           (Inl e, w5) \<Rightarrow> (Inl e, w5)
                         | (Inr stored, w5) \<Rightarrow>
                             (case finish_run ports generations rq canonical
                                 (record_revisions ports rq bs canonical (stored, w5)) of
                                (Inl e, w6) \<Rightarrow> (Inl e, w6)
                              | (Inr final, w6) \<Rightarrow> (Inr (map snd final), w6)))))))))"

text \<open>A success stands for as many stored bars as were fetched.\<close>

definition settled :: "report \<Rightarrow> bool" where
  "settled r \<longleftrightarrow> (\<forall>k i. dict_get r k = Some i \<longrightarrow> sy_success i \<longrightarrow> sy_persisted i = sy_fetched i)"

section \<open>Every requested symbol is reported\<close>

definition extends_bars :: "string set \<Rightarrow> bars_state \<Rightarrow> bars_state \<Rightarrow> bool" where
  "extends_bars K st st' \<longleftrightarrow> (well_reported (bs_results st) \<longrightarrow> well_reported (bs_results st')) \<and>
     set (dict_keys (bs_results st')) \<union> set (bs_normal st') = set (dict_keys (bs_results st)) \<union> set (bs_normal st) \<union> K"

lemma extends_bars_trans: "extends_bars A st st' \<Longrightarrow> extends_bars B st' st'' \<Longrightarrow> extends_bars (A \<union> B) st st''"
  by (simp add: extends_bars_def Un_ac del: set_map)

lemma extends_bars_item:
  assumes "sy_symbol i = symbol" "sy_success i \<longleftrightarrow> sy_error i = None" "bs_results st' = bs_results st" "bs_normal st' = bs_normal st"
  shows "extends_bars {symbol} st (report_item symbol i st')"
proof -
  have "extends {symbol} (bs_results st) (dict_set symbol i (bs_results st))" using assms(1,2) by (rule extends_set)
  then show ?thesis using assms(3,4) unfolding extends_bars_def extends_def report_item_def by auto
qed

lemma replace_history_item:
  assumes "replace_history ports revision_method generations rq symbol revision existing bars w = (Inr i, w')"
  shows "sy_symbol i = symbol" "sy_success i \<longleftrightarrow> sy_error i = None" "sy_success i \<Longrightarrow> sy_persisted i = sy_fetched i"
  using assms by (auto simp: replace_history_def Let_def rebased_item_def unrebased_item_def split: if_splits option.splits prod.splits sum.splits)

text \<open>A step of the loop reports its symbol or leaves it to the normal synchronization.\<close>

lemma check_revision_cases:
  obtains (item) i st' where "fst (check_revision ports store revision_method generations rq symbol (st, w)) = report_item symbol i st'"
      "sy_symbol i = symbol" "sy_success i \<longleftrightarrow> sy_error i = None" "sy_success i \<Longrightarrow> sy_persisted i = sy_fetched i"
      "bs_results st' = bs_results st" "bs_normal st' = bs_normal st"
  | (normal) "bs_results (fst (check_revision ports store revision_method generations rq symbol (st, w))) = bs_results st"
      "bs_normal (fst (check_revision ports store revision_method generations rq symbol (st, w))) = bs_normal st @ [symbol]"
proof -
  have failed: thesis if "fst (check_revision ports store revision_method generations rq symbol (st, w)) = report_item symbol (failed_item symbol e) st'"
    "bs_results st' = bs_results st" "bs_normal st' = bs_normal st" for e st'
    by (rule item [OF that(1)]) (simp_all add: failed_item_def that)
  obtain a w1 where a: "revision_method w symbol = (a, w1)" by (cases "revision_method w symbol")
  show thesis
  proof (cases a)
    case (Inl e)
    then show thesis using a by (intro failed) (simp_all add: check_revision_def)
  next
    case revision: (Inr revision)
    let ?st = "st\<lparr>bs_revisions := dict_set symbol revision (bs_revisions st)\<rparr>"
    obtain b w2 where b: "revised_history ports store rq symbol revision w1 = (b, w2)" by (cases "revised_history ports store rq symbol revision w1")
    show thesis
    proof (cases b)
      case (Inl e)
      then show thesis using a b revision by (intro failed [of _ ?st]) (simp_all add: check_revision_def Let_def)
    next
      case history: (Inr h)
      show thesis
      proof (cases h)
        case None
        then show thesis using a b revision history by (intro normal) (simp_all add: check_revision_def Let_def)
      next
        case (Some existing)
        obtain c w3 where c: "rebuilt_bars ports rq symbol existing w2 = (c, w3)" by (cases "rebuilt_bars ports rq symbol existing w2")
        show thesis
        proof (cases c)
          case (Inl e)
          then show thesis using a b c revision history Some by (intro failed [of _ ?st]) (simp_all add: check_revision_def Let_def)
        next
          case (Inr bars)
          obtain d w4 where d: "replace_history ports revision_method generations rq symbol revision existing bars w3 = (d, w4)"
            by (cases "replace_history ports revision_method generations rq symbol revision existing bars w3")
          show thesis
          proof (cases d)
            case (Inl e)
            then show thesis using a b c d revision history Some Inr by (intro failed [of _ ?st]) (simp_all add: check_revision_def Let_def)
          next
            case i: (Inr i)
            show thesis
              by (rule item [OF _ replace_history_item [OF d [unfolded i]], of "if sy_success i \<and> sy_changed_from i \<noteq> None then ?st\<lparr>bs_rebased := bs_rebased st @ [symbol]\<rparr> else ?st"])
                (use a b c d revision history Some Inr i in \<open>simp_all add: check_revision_def Let_def\<close>)
          qed
        qed
      qed
    qed
  qed
qed

lemma check_revision_extends: "extends_bars {symbol} st (fst (check_revision ports store revision_method generations rq symbol (st, w)))"
proof (cases rule: check_revision_cases [of ports store revision_method generations rq symbol st w])
  case (item i st')
  show ?thesis unfolding item(1) by (rule extends_bars_item [OF item(2,3,5,6)])
next
  case normal
  then show ?thesis by (auto simp: extends_bars_def)
qed

lemma check_revisions_fold_extends:
  "extends_bars (set symbols) (fst sw) (fst (fold (check_revision ports store revision_method generations rq) symbols sw))"
proof (induction symbols arbitrary: sw)
  case (Cons symbol symbols)
  from extends_bars_trans [OF check_revision_extends [of symbol "fst sw" ports store revision_method generations rq "snd sw"]
    Cons [of "check_revision ports store revision_method generations rq symbol (fst sw, snd sw)"]]
  show ?case by simp
qed (simp add: extends_bars_def)

lemma check_revisions_fold_settled:
  "settled (bs_results (fst sw)) \<Longrightarrow> settled (bs_results (fst (fold (check_revision ports store revision_method generations rq) symbols sw)))"
proof (induction symbols arbitrary: sw)
  case (Cons symbol symbols)
  let ?sw = "check_revision ports store revision_method generations rq symbol (fst sw, snd sw)"
  have "settled (bs_results (fst ?sw))"
    using Cons.prems by (cases rule: check_revision_cases [of ports store revision_method generations rq symbol "fst sw" "snd sw"])
      (simp_all add: report_item_def settled_def)
  from Cons.IH [OF this] show ?case by simp
qed simp

lemma check_revisions_extends:
  assumes "check_revisions ports generations rq canonical results w = (bs, w')"
  shows "well_reported results \<longrightarrow> well_reported (bs_results bs)"
    "set (dict_keys (bs_results bs)) \<union> set (bs_normal bs) = set (dict_keys results) \<union> set canonical"
    "settled results \<longrightarrow> settled (bs_results bs)"
proof -
  have "(well_reported results \<longrightarrow> well_reported (bs_results bs)) \<and>
    set (dict_keys (bs_results bs)) \<union> set (bs_normal bs) = set (dict_keys results) \<union> set canonical \<and>
    (settled results \<longrightarrow> settled (bs_results bs))"
  proof (cases "\<exists>store revision_method batch. (rq_adjustment rq, revisions ports, revision_of ports, bars_batch ports) =
      (QFQ, Some store, Some revision_method, Some batch)")
    case True
    then obtain store revision_method batch where p: "rq_adjustment rq = QFQ" "revisions ports = Some store"
      "revision_of ports = Some revision_method" "bars_batch ports = Some batch" by auto
    let ?st = "\<lparr>bs_results = results, bs_revisions = [], bs_rebased = [], bs_normal = []\<rparr>"
    from assms p have "bs = fst (fold (check_revision ports store revision_method generations rq) canonical (?st, w))"
      by (simp add: check_revisions_def)
    with check_revisions_fold_extends [of canonical "(?st, w)" ports store revision_method generations rq]
      check_revisions_fold_settled [of "(?st, w)" ports store revision_method generations rq canonical] show ?thesis
      by (simp add: extends_bars_def del: set_map)
  next
    case False
    with assms have "bs = \<lparr>bs_results = results, bs_revisions = [], bs_rebased = [], bs_normal = canonical\<rparr>"
      unfolding check_revisions_def by (auto split: option.splits adjustment.splits)
    then show ?thesis by simp
  qed
  then show "well_reported results \<longrightarrow> well_reported (bs_results bs)"
    "set (dict_keys (bs_results bs)) \<union> set (bs_normal bs) = set (dict_keys results) \<union> set canonical"
    "settled results \<longrightarrow> settled (bs_results bs)" by blast+
qed

lemma place_bars_extends: "extends {symbol} (snd st) (snd (place_bars rq by_symbol symbol st))"
  unfolding place_bars_def by (auto split: sum.splits)

lemma chunk_extends:
  "extends (set symbols) (snd st) (snd (fold (place_bars rq by_symbol) symbols st))"
  using extends_fold_state [of "\<lambda>s. {s}" "place_bars rq by_symbol" symbols st] place_bars_extends by simp

lemma bar_chunks_extends: "extends (set (concat chunks)) (snd st) (snd (fst (bar_chunks fetch rq chunks st w)))"
proof (induction chunks arbitrary: st w)
  case (Cons chunk chunks)
  obtain a w' where f: "fetch_isolated fetch chunk w = (a, w')" by (cases "fetch_isolated fetch chunk w")
  show ?case
  proof (cases a)
    case (Inl e)
    have "extends (set chunk) (snd st) (fold (fail_symbol (sync_error e)) chunk (snd st))"
      using extends_fold [of "\<lambda>s. {s}" "fail_symbol (sync_error e)" chunk "snd st"] by simp
    from extends_trans [OF this] Cons [of "(fst st, fold (fail_symbol (sync_error e)) chunk (snd st))" w'] f Inl
    show ?thesis by simp
  next
    case (Inr x)
    obtain answered errors where x: "x = (answered, errors)" by (cases x)
    let ?st = "(fst st, fold (\<lambda>(s, e). fail_symbol (sync_error e) s) errors (snd st))"
    let ?place = "\<lambda>(symbols, by_symbol). fold (place_bars rq by_symbol) symbols"
    have "extends (\<Union> ((\<lambda>b. set (fst b)) ` set answered)) (snd ?st) (snd (fold ?place answered ?st))"
      by (rule extends_fold_state) (simp add: case_prod_beta chunk_extends)
    with fail_errors_extends [of errors "snd st"]
    have "extends (set (dict_keys errors) \<union> \<Union> ((\<lambda>b. set (fst b)) ` set answered)) (snd st) (snd (fold ?place answered ?st))"
      by (intro extends_trans) simp_all
    moreover have "set chunk = set (dict_keys errors) \<union> \<Union> ((\<lambda>b. set (fst b)) ` set answered)"
      using isolated_partition [of fetch chunk w answered errors w'] f Inr x by auto
    ultimately have "extends (set chunk) (snd st) (snd (fold ?place answered ?st))" by simp
    from extends_trans [OF this] Cons [of "fold ?place answered ?st" w'] f Inr x show ?thesis by simp
  qed
qed simp

lemma single_bars_extends: "extends (set symbols) (snd st) (snd (fst (single_bars ports a s e symbols st w)))"
proof (induction symbols arbitrary: st w)
  case (Cons symbol symbols)
  obtain r w' where g: "bars_between ports w symbol s e a = (r, w')" by (cases "bars_between ports w symbol s e a")
  let ?v = "case r of Inl e \<Rightarrow> Inl e | Inr raw \<Rightarrow> validated_bars symbol raw a"
  let ?st = "case ?v of Inl e \<Rightarrow> (fst st, fail_symbol (sync_error e) symbol (snd st))
      | Inr bars \<Rightarrow> (dict_set symbol bars (fst st), dict_set symbol (fetched_item symbol (length bars)) (snd st))"
  have "extends {symbol} (snd st) (snd ?st)" by (cases ?v) (simp_all only: sum.case snd_conv extends_fail extends_fetched)
  from extends_trans [OF this Cons [of ?st w']] g show ?case by simp
qed simp

lemma fetch_pending_extends:
  "fetch_pending ports rq n normal results w = (Inr st, w') \<Longrightarrow> extends (set normal) results (snd st)"
  using bar_chunks_extends [of "batches n normal" "([], results)" "fetch_bars ports rq (rq_count rq)" rq w]
    single_bars_extends [of normal "([], results)" ports "rq_adjustment rq" "the (rq_start rq)" "the (rq_end rq)" w]
  by (auto simp: fetch_pending_def concat_batches split: option.splits prod.splits)

section \<open>What a success stands for\<close>

text \<open>
  Between fetching and storing: pending bars belong to their symbol, which is reported, and a success that is not stored
  yet is pending.
\<close>

definition accounted :: "pending_bars \<times> report \<Rightarrow> bool" where
  "accounted st \<longleftrightarrow> distinct (dict_keys (fst st)) \<and>
     (\<forall>k bars. dict_get (fst st) k = Some bars \<longrightarrow> (\<forall>b \<in> set bars. db_symbol b = k) \<and> dict_get (snd st) k \<noteq> None) \<and>
     (\<forall>k i. dict_get (snd st) k = Some i \<longrightarrow> sy_success i \<longrightarrow>
        sy_persisted i = sy_fetched i \<or> (\<exists>bars. dict_get (fst st) k = Some bars \<and> bars \<noteq> []))"

lemma accountedI:
  assumes "distinct (dict_keys pending)"
    and "\<And>k bars. dict_get pending k = Some bars \<Longrightarrow> (\<forall>b \<in> set bars. db_symbol b = k) \<and> dict_get results k \<noteq> None"
    and "\<And>k i. dict_get results k = Some i \<Longrightarrow> sy_success i \<Longrightarrow>
        sy_persisted i = sy_fetched i \<or> (\<exists>bars. dict_get pending k = Some bars \<and> bars \<noteq> [])"
  shows "accounted (pending, results)"
  using assms unfolding accounted_def fst_conv snd_conv by blast

lemma accountedD:
  assumes "accounted st"
  shows "distinct (dict_keys (fst st))"
    and "dict_get (fst st) k = Some bars \<Longrightarrow> \<forall>b \<in> set bars. db_symbol b = k"
    and "dict_get (fst st) k = Some bars \<Longrightarrow> dict_get (snd st) k \<noteq> None"
    and "dict_get (snd st) k = Some i \<Longrightarrow> sy_success i \<Longrightarrow>
        sy_persisted i = sy_fetched i \<or> (\<exists>bars. dict_get (fst st) k = Some bars \<and> bars \<noteq> [])"
  using assms unfolding accounted_def by blast+

lemma accounted_fail:
  assumes "accounted st"
  shows "accounted (fst st, fail_symbol e s (snd st))"
proof (rule accountedI)
  note d = accountedD [OF assms]
  show "distinct (dict_keys (fst st))" by (rule d(1))
  show "(\<forall>b \<in> set bars. db_symbol b = k) \<and> dict_get (fail_symbol e s (snd st)) k \<noteq> None" if "dict_get (fst st) k = Some bars" for k bars
    using d(2,3) [OF that] by (simp add: fail_symbol_def)
  show "sy_persisted i = sy_fetched i \<or> (\<exists>bars. dict_get (fst st) k = Some bars \<and> bars \<noteq> [])"
    if "dict_get (fail_symbol e s (snd st)) k = Some i" "sy_success i" for k i
    using that d(4) [of k i] by (auto simp: fail_symbol_def failed_item_def split: if_splits)
qed

lemma accounted_bars:
  assumes "accounted st" "\<forall>b \<in> set bars. db_symbol b = s"
  shows "accounted (dict_set s bars (fst st), dict_set s (fetched_item s (length bars)) (snd st))"
proof (rule accountedI)
  note d = accountedD [OF assms(1)]
  show "distinct (dict_keys (dict_set s bars (fst st)))" by (rule dict_set_distinct [OF d(1)])
  show "(\<forall>b \<in> set bars'. db_symbol b = k) \<and> dict_get (dict_set s (fetched_item s (length bars)) (snd st)) k \<noteq> None"
    if "dict_get (dict_set s bars (fst st)) k = Some bars'" for k bars'
    using that assms(2) d(2,3) [of k bars'] by (simp split: if_splits)
  show "sy_persisted i = sy_fetched i \<or> (\<exists>bars'. dict_get (dict_set s bars (fst st)) k = Some bars' \<and> bars' \<noteq> [])"
    if "dict_get (dict_set s (fetched_item s (length bars)) (snd st)) k = Some i" "sy_success i" for k i
    using that d(4) [of k i] by (auto simp: fetched_item_def split: if_splits)
qed

lemma upto_end_subset: "set (upto_end e bars) \<subseteq> set bars"
  by (auto simp: upto_end_def split: option.splits)

lemma clip_bars_subset: "set (clip_bars rq bars) \<subseteq> set bars"
proof (cases "rq_lookback rq")
  case (Some n)
  then have "set (clip_bars rq bars) \<subseteq> set (upto_end (rq_end rq) bars)"
    by (simp add: clip_bars_def last_bars_def set_drop_subset)
  then show ?thesis using upto_end_subset by blast
qed (auto simp: clip_bars_def split: option.splits)

lemma place_bars_cases:
  obtains (failed) e where "place_bars rq by_symbol symbol st = (fst st, fail_symbol e symbol (snd st))"
  | (placed) raw bars where "validated_bars symbol raw (rq_adjustment rq) = Inr bars"
      "place_bars rq by_symbol symbol st =
         (dict_set symbol (clip_bars rq bars) (fst st), dict_set symbol (fetched_item symbol (length (clip_bars rq bars))) (snd st))"
proof (cases "dict_get by_symbol symbol")
  case None
  then show thesis by (intro failed) (simp add: place_bars_def)
next
  case (Some raw)
  show thesis
  proof (cases "validated_bars symbol raw (rq_adjustment rq)")
    case (Inl e)
    then show thesis using Some by (intro failed) (simp add: place_bars_def)
  next
    case (Inr bars)
    then show thesis using Some by (intro placed) (simp_all add: place_bars_def)
  qed
qed

lemma accounted_place:
  assumes "accounted st"
  shows "accounted (place_bars rq by_symbol symbol st)"
proof (cases rule: place_bars_cases [of rq by_symbol symbol st])
  case (failed e)
  then show ?thesis using accounted_fail [OF assms] by simp
next
  case (placed raw bars)
  have "\<forall>b \<in> set (clip_bars rq bars). db_symbol b = symbol"
    using validated_bars_ok(1) [OF placed(1)] clip_bars_subset [of rq bars] by blast
  then show ?thesis unfolding placed(2) by (rule accounted_bars [OF assms])
qed

lemma fold_keeps: "(\<And>x st. P st \<Longrightarrow> P (f x st)) \<Longrightarrow> P st \<Longrightarrow> P (fold f xs st)"
  by (induction xs arbitrary: st) simp_all

lemma fold_fail_keeps:
  assumes "\<And>st e s. P st \<Longrightarrow> P (fst st, fail_symbol e s (snd st))" "P st"
  shows "P (fst st, fold (\<lambda>x. fail_symbol (err x) (named x)) xs (snd st))"
  using assms(2)
proof (induction xs arbitrary: st)
  case (Cons x xs)
  from Cons.IH [OF assms(1) [OF Cons.prems, of "err x" "named x"]] show ?case by simp
qed simp

text \<open>What failures and placed symbols keep, the batches keep.\<close>

lemma bar_chunks_keeps:
  assumes "\<And>st e s. P st \<Longrightarrow> P (fst st, fail_symbol e s (snd st))" "\<And>st by_symbol s. P st \<Longrightarrow> P (place_bars rq by_symbol s st)" "P st"
  shows "P (fst (bar_chunks fetch rq chunks st w))"
  using assms(3)
proof (induction chunks arbitrary: st w)
  case (Cons chunk chunks)
  obtain a w' where f: "fetch_isolated fetch chunk w = (a, w')" by (cases "fetch_isolated fetch chunk w")
  show ?case
  proof (cases a)
    case (Inl e)
    from Cons.IH [OF fold_fail_keeps [where P = P, OF assms(1) Cons.prems, of "\<lambda>_. sync_error e" "\<lambda>s. s" chunk], of w'] f Inl
    show ?thesis by simp
  next
    case (Inr x)
    obtain answered errors where x: "x = (answered, errors)" by (cases x)
    from fold_fail_keeps [where P = P, OF assms(1) Cons.prems, of "\<lambda>x. sync_error (snd x)" fst errors]
    have "P (fst st, fold (\<lambda>(s, e). fail_symbol (sync_error e) s) errors (snd st))" by (simp add: case_prod_beta')
    then have "P (fold (\<lambda>(symbols, by_symbol). fold (place_bars rq by_symbol) symbols) answered
        (fst st, fold (\<lambda>(s, e). fail_symbol (sync_error e) s) errors (snd st)))"
      by (rule fold_keeps [rotated]) (auto intro!: fold_keeps [where P = P] assms(2))
    from Cons.IH [OF this, of w'] f Inr x show ?thesis by simp
  qed
qed simp

lemma accounted_chunks: "accounted st \<Longrightarrow> accounted (fst (bar_chunks fetch rq chunks st w))"
  by (rule bar_chunks_keeps [where P = accounted]) (rule accounted_fail accounted_place; assumption)+

lemma accounted_single: "accounted st \<Longrightarrow> accounted (fst (single_bars ports a s e symbols st w))"
proof (induction symbols arbitrary: st w)
  case (Cons symbol symbols)
  obtain r w' where g: "bars_between ports w symbol s e a = (r, w')" by (cases "bars_between ports w symbol s e a")
  have "accounted (case (case r of Inl e \<Rightarrow> Inl e | Inr raw \<Rightarrow> validated_bars symbol raw a) of
      Inl e \<Rightarrow> (fst st, fail_symbol (sync_error e) symbol (snd st))
    | Inr bars \<Rightarrow> (dict_set symbol bars (fst st), dict_set symbol (fetched_item symbol (length bars)) (snd st)))"
    using Cons.prems validated_bars_ok(1) [of symbol _ a] by (auto split: sum.splits intro!: accounted_bars accounted_fail)
  from Cons.IH [OF this, of w'] g show ?case by simp
qed simp

lemma accounted_fetch:
  assumes "fetch_pending ports rq n normal results w = (Inr st, w')"
    and "\<forall>k i. dict_get results k = Some i \<longrightarrow> sy_success i \<longrightarrow> sy_persisted i = sy_fetched i"
  shows "accounted st"
proof -
  have start: "accounted ([], results)" using assms(2) by (simp add: accounted_def)
  show ?thesis
    using assms(1) accounted_chunks [OF start, of "fetch_bars ports rq (rq_count rq)" rq "batches n normal" w]
      accounted_single [OF start, of ports "rq_adjustment rq" "the (rq_start rq)" "the (rq_end rq)" normal w]
    by (auto simp: fetch_pending_def split: option.splits prod.splits)
qed

lemma delete_get: "dict_get (AList.delete k d) = (dict_get d)(k := None)"
  by (rule AList.delete_conv')

lemma accounted_drop:
  assumes "accounted st"
  shows "accounted (AList.delete s (fst st), fail_symbol e s (snd st))"
proof (rule accountedI)
  note d = accountedD [OF assms]
  show "distinct (dict_keys (AList.delete s (fst st)))" using d(1) by (rule distinct_delete)
  show "(\<forall>b \<in> set bars. db_symbol b = k) \<and> dict_get (fail_symbol e s (snd st)) k \<noteq> None"
    if "dict_get (AList.delete s (fst st)) k = Some bars" for k bars
    using that d(2,3) [of k bars] by (simp add: fail_symbol_def delete_get split: if_splits)
  show "sy_persisted i = sy_fetched i \<or> (\<exists>bars. dict_get (AList.delete s (fst st)) k = Some bars \<and> bars \<noteq> [])"
    if "dict_get (fail_symbol e s (snd st)) k = Some i" "sy_success i" for k i
    using that d(4) [of k i] by (auto simp: fail_symbol_def failed_item_def delete_get split: if_splits)
qed

lemma accounted_confirm: "accounted st \<Longrightarrow> accounted (fst (confirm_revisions revision_method sampled symbols st w))"
proof (induction symbols arbitrary: st w)
  case (Cons symbol symbols)
  then show ?case by (auto split: option.splits prod.splits sum.splits intro: accounted_drop)
qed simp

lemma confirm_extends:
  "set symbols \<subseteq> set (dict_keys (snd st)) \<Longrightarrow> extends {} (snd st) (snd (fst (confirm_revisions revision_method sampled symbols st w)))"
proof (induction symbols arbitrary: st w)
  case (Cons symbol symbols)
  have f: "extends {} (snd st) (fail_symbol e symbol (snd st))" for e
    using Cons.prems extends_fail [of symbol "snd st" e] unfolding extends_def by auto
  then have k: "set symbols \<subseteq> set (dict_keys (fail_symbol e symbol (snd st)))" for e
    using Cons.prems unfolding extends_def by auto
  have step: "extends {} (snd st) (snd (fst (confirm_revisions revision_method sampled symbols (p, fail_symbol e symbol (snd st)) w')))" for p e w'
  proof -
    have "extends {} (fail_symbol e symbol (snd st)) (snd (fst (confirm_revisions revision_method sampled symbols (p, fail_symbol e symbol (snd st)) w')))"
      using Cons.IH [of "(p, fail_symbol e symbol (snd st))" w'] k by (simp only: snd_conv)
    from extends_trans [OF f this] show ?thesis by simp
  qed
  show ?case using step Cons.IH [of st] Cons.prems by (auto split: option.splits prod.splits sum.splits)
qed simp

lemma daily_outcome_get:
  "dict_get (daily_outcome (s, error) r) k = (if k = s
     then map_option (\<lambda>previous. \<lparr>sy_symbol = s, sy_success = (error = None), sy_fetched = sy_fetched previous,
          sy_persisted = (if error = None then sy_fetched previous else 0), sy_error = error,
          sy_rebased = sy_rebased previous, sy_changed_from = sy_changed_from previous\<rparr>) (dict_get r s)
     else dict_get r k)"
  by (auto simp: daily_outcome_def split: option.splits)

lemma daily_outcome_extends: "extends {} r (daily_outcome outcome r)"
proof -
  obtain s error where o: "outcome = (s, error)" by (cases outcome)
  show ?thesis
  proof (cases "dict_get r s")
    case (Some previous)
    then have "s \<in> set (dict_keys r)" by (force dest: map_of_SomeD)
    moreover from extends_set have "extends {s} r (daily_outcome outcome r)" by (simp add: o daily_outcome_def Some)
    ultimately show ?thesis by (auto simp: extends_def simp del: set_map)
  qed (simp add: o daily_outcome_def)
qed

lemma outcomes_settle:
  "dict_get (fold daily_outcome outcomes r) k = Some i \<Longrightarrow> sy_success i \<Longrightarrow>
     sy_persisted i = sy_fetched i \<or> k \<notin> set (dict_keys outcomes) \<and> dict_get r k = Some i"
proof (induction outcomes rule: rev_induct)
  case (snoc x outcomes)
  obtain s error where x: "x = (s, error)" by (cases x)
  show ?case
  proof (cases "k = s")
    case True
    with snoc.prems show ?thesis by (auto simp: x daily_outcome_get)
  next
    case False
    with snoc show ?thesis by (simp add: x daily_outcome_get)
  qed
qed simp

lemma persist_each_keys: "dict_keys (fst (persist_each upsert groups s)) = dict_keys groups"
  by (induction groups arbitrary: s) (auto simp: persist_each_Cons split: sum.splits)

lemma persist_keys:
  assumes "persist_with_isolation key upsert records s = Inr (outcomes, s')"
  shows "set (dict_keys outcomes) = key ` set records"
proof -
  have "dict_keys (map (\<lambda>(k, rs). (k, None)) (grouped key records)) = dict_keys (grouped key records)" by auto
  then have "dict_keys outcomes = dict_keys (grouped key records)"
    using assms persist_each_keys [of upsert "grouped key records" s]
    by (auto simp: persist_with_isolation_def split: sum.splits if_splits)
  then show ?thesis by (simp only: grouped_keys)
qed

lemma store_pending_settled:
  assumes "store_pending ports generations sampled st w = (Inr r, w')" "accounted st"
  shows "settled r" "extends {} (snd st) r"
proof -
  let ?records = "concat (map snd (fst st))"
  note d = accountedD [OF assms(2)]
  have mine: "k \<in> db_symbol ` set ?records" if "dict_get (fst st) k = Some bars" "bars \<noteq> []" for k bars
  proof -
    from that(2) obtain b where b: "b \<in> set bars" by (cases bars) auto
    then have "db_symbol b = k" using d(2) [OF that(1)] by blast
    moreover have "b \<in> set ?records" using b map_of_SomeD [OF that(1)] by force
    ultimately show ?thesis by blast
  qed
  consider (none) "?records = []" "r = snd st" | (some) outcomes where "set (dict_keys outcomes) = db_symbol ` set ?records" "r = fold daily_outcome outcomes (snd st)"
    using assms(1) persist_keys unfolding store_pending_def Let_def by (force split: if_splits sum.splits)
  then have "settled r \<and> extends {} (snd st) r"
  proof cases
    case none
    have "settled (snd st)" unfolding settled_def
    proof (intro allI impI)
      fix k i assume "dict_get (snd st) k = Some i" "sy_success i"
      then show "sy_persisted i = sy_fetched i" using d(4) mine none(1) by fastforce
    qed
    then show ?thesis using none(2) by simp
  next
    case some
    have "settled r" unfolding settled_def
    proof (intro allI impI)
      fix k i assume i: "dict_get r k = Some i" "sy_success i"
      from outcomes_settle [of outcomes "snd st" k i] i some show "sy_persisted i = sy_fetched i" using d(4) mine by metis
    qed
    moreover have "extends {} (snd st) r"
      using extends_fold [of "\<lambda>_. {}" daily_outcome outcomes "snd st"] daily_outcome_extends some(2) by simp
    ultimately show ?thesis by simp
  qed
  then show "settled r" "extends {} (snd st) r" by simp_all
qed

lemma again_keeps:
  assumes "dict_get r s = Some i"
  shows "extends {} r (dict_set s (failed_again e i) r)" "settled r \<Longrightarrow> settled (dict_set s (failed_again e i) r)"
proof -
  have m: "(s, i) \<in> set r" using assms by (rule map_of_SomeD)
  have "well_reported (dict_set s (failed_again e i) r)" if w: "well_reported r"
  proof -
    have "sy_symbol i = s" using w m unfolding well_reported_def by auto
    then have "extends {s} r (dict_set s (failed_again e i) r)" by (intro extends_set) (simp_all add: failed_again_def)
    then show ?thesis using w by (simp add: extends_def)
  qed
  moreover have "s \<in> set (dict_keys r)" using m by force
  ultimately show "extends {} r (dict_set s (failed_again e i) r)" unfolding extends_def dict_keys_set by blast
  show "settled (dict_set s (failed_again e i) r)" if "settled r" using that by (simp add: settled_def failed_again_def)
qed

definition kept_report :: "report \<Rightarrow> report \<Rightarrow> bool" where
  "kept_report r r' \<longleftrightarrow> extends {} r r' \<and> (settled r \<longrightarrow> settled r')"

lemma kept_report_refl [simp]: "kept_report r r"
  by (simp add: kept_report_def)

lemma kept_report_trans: "kept_report r r' \<Longrightarrow> kept_report r' r'' \<Longrightarrow> kept_report r r''"
  using extends_trans [of "{}" r r' "{}" r''] by (simp add: kept_report_def)

lemma kept_again: "dict_get r s = Some i \<Longrightarrow> kept_report r (dict_set s (failed_again e i) r)"
  using again_keeps [of r s i e] by (simp add: kept_report_def)

lemma record_revision_kept: "kept_report (fst rw) (fst (record_revision ports store rq bs symbol rw))"
  by (cases rw) (auto simp: record_revision_def split: option.splits prod.splits sum.splits if_splits intro: kept_again)

lemma record_revisions_kept: "kept_report (fst rw) (fst (record_revisions ports rq bs canonical rw))"
proof -
  have "kept_report (fst rw) (fst (fold (record_revision ports store rq bs) canonical rw))" for store
    by (rule fold_keeps [where P = "\<lambda>x. kept_report (fst rw) (fst x)"]) (auto intro: kept_report_trans record_revision_kept)
  then show ?thesis by (auto simp: record_revisions_def split: option.splits adjustment.splits)
qed

lemma fail_again_kept: "set good \<subseteq> set (dict_keys r) \<Longrightarrow> kept_report r (fold fail_again good r)"
proof (induction good arbitrary: r)
  case (Cons s good)
  then obtain i where i: "dict_get r s = Some i" using dict_days [of s r] by auto
  have k: "kept_report r (fail_again s r)" using kept_again [OF i] by (simp add: fail_again_def i)
  then have "set good \<subseteq> set (dict_keys (fail_again s r))" using Cons.prems by (auto simp: kept_report_def extends_def simp del: set_map)
  from kept_report_trans [OF k Cons.IH [OF this]] show ?case by simp
qed simp

lemma finish_run_kept: "finish_run ports generations rq canonical (r, w) = (Inr r', w') \<Longrightarrow> kept_report r r'"
proof -
  have "set (successful r canonical) \<subseteq> set (dict_keys r)"
    unfolding successful_def by (force split: option.splits dest: map_of_SomeD)
  from fail_again_kept [OF this] show "finish_run ports generations rq canonical (r, w) = (Inr r', w') \<Longrightarrow> kept_report r r'"
    by (auto simp: finish_run_def Let_def split: option.splits sum.splits if_splits)
qed

text \<open>The stages of a synchronization that returns a report.\<close>

lemma daily_sync_stages:
  assumes "daily_sync ports n symbols start end_day adjustment lookback w = (Inr items, w')"
  obtains rq canonical results generations w1 bs w2 fetched w3 confirmed w4 stored w5 final where
    "bars_request adjustment start end_day lookback = Inr rq" "canonicalize_symbols symbols = (canonical, results)"
    "check_revisions ports generations rq canonical results w1 = (bs, w2)"
    "fetch_pending ports rq n (bs_normal bs) (bs_results bs) w2 = (Inr fetched, w3)"
    "confirm_pending ports rq (bs_revisions bs) fetched w3 = (confirmed, w4)"
    "store_pending ports generations (bs_revisions bs) confirmed w4 = (Inr stored, w5)"
    "finish_run ports generations rq canonical (record_revisions ports rq bs canonical (stored, w5)) = (Inr final, w')"
    "items = map snd final"
  using assms unfolding daily_sync_def by (auto split: sum.splits prod.splits)

lemma canonicalize_settled:
  "canonicalize_loop raw canonical r = (canonical', r') \<Longrightarrow> settled r \<Longrightarrow> settled r'"
proof (induction raw arbitrary: canonical r)
  case (Cons v raw)
  have d: "settled (setdefault s (failed_item s e) r)" for s e
    using Cons.prems(2) by (auto simp: setdefault_def settled_def failed_item_def split: option.splits)
  show ?case
  proof (cases "normalize_symbol v")
    case (Inl e)
    with Cons.prems(1) show ?thesis by (intro Cons.IH [OF _ d]) (simp add: Let_def)
  next
    case (Inr c)
    with Cons.prems show ?thesis by (intro Cons.IH [of "if dict_get r c = None then canonical @ [c] else canonical" r]) simp_all
  qed
qed simp

text \<open>
  A synchronization of daily bars that returns has exactly one entry for every requested symbol, valid or not, with an
  error exactly when the entry is a failure, and a success stands for bars that are all stored: their number is the number
  fetched. This holds for every provider, repository, revision and failure on the way.
\<close>

theorem daily_report_exact:
  assumes "daily_sync ports n symbols start end_day adjustment lookback w = (Inr items, w')"
  shows "complete_report symbols items \<and> (\<forall>i \<in> set items. sy_success i \<longrightarrow> sy_persisted i = sy_fetched i)"
  using assms
proof (cases rule: daily_sync_stages)
  case (1 rq canonical results generations w1 bs w2 fetched w3 confirmed w4 stored w5 final)
  have start: "settled results" using canonicalize_settled [of symbols "[]" "[]"] 1(2) by (simp add: canonicalize_symbols_def settled_def)
  note check = check_revisions_extends [OF 1(3)]
  have acc: "accounted fetched" by (rule accounted_fetch [OF 1(4)]) (use check(3) start in \<open>simp add: settled_def\<close>)
  have e1: "extends (set (bs_normal bs)) (bs_results bs) (snd fetched)" by (rule fetch_pending_extends [OF 1(4)])
  have conf: "accounted confirmed \<and> extends {} (snd fetched) (snd confirmed)"
  proof (cases "\<exists>revision_method. (rq_adjustment rq, revision_of ports) = (QFQ, Some revision_method)")
    case True
    then obtain revision_method where m: "rq_adjustment rq = QFQ" "revision_of ports = Some revision_method" by auto
    have c: "confirmed = fst (confirm_revisions revision_method (bs_revisions bs) (dict_keys (fst fetched)) fetched w3)"
      using 1(5) m by (simp add: confirm_pending_def)
    have "set (dict_keys (fst fetched)) \<subseteq> set (dict_keys (snd fetched))"
    proof
      fix k assume "k \<in> set (dict_keys (fst fetched))"
      then obtain bars where "dict_get (fst fetched) k = Some bars" unfolding dict_days by blast
      then show "k \<in> set (dict_keys (snd fetched))" unfolding dict_days by (rule accountedD(3) [OF acc])
    qed
    from accounted_confirm [OF acc] confirm_extends [OF this] show ?thesis unfolding c by (rule conjI)
  next
    case False
    then have "confirmed = fetched" using 1(5) by (auto simp: confirm_pending_def split: option.splits adjustment.splits)
    then show ?thesis using acc by simp
  qed
  note store = store_pending_settled [OF 1(6)]
  obtain r w6 where r: "record_revisions ports rq bs canonical (stored, w5) = (r, w6)" by (cases "record_revisions ports rq bs canonical (stored, w5)")
  have "kept_report stored final"
  proof (rule kept_report_trans)
    show "kept_report stored r" using record_revisions_kept [of "(stored, w5)" ports rq bs canonical] r by simp
    show "kept_report r final" by (rule finish_run_kept [OF 1(7) [unfolded r]])
  qed
  then have final: "settled final" "extends {} stored final" using store conf by (simp_all add: kept_report_def)
  have "extends (set (bs_normal bs)) (bs_results bs) final"
    using extends_trans [OF extends_trans [OF extends_trans [OF e1 conf [THEN conjunct2]] store(2) [OF conf [THEN conjunct1]]] final(2)] by simp
  then have "extends (set canonical) results final"
    using check(1,2) unfolding extends_def by (simp add: Un_commute del: set_map)
  from complete_reportI [OF 1(2) this] 1(8) have "complete_report symbols items" by simp
  moreover have "\<forall>i \<in> set items. sy_success i \<longrightarrow> sy_persisted i = sy_fetched i"
  proof (intro ballI impI)
    fix i assume i: "i \<in> set items" "sy_success i"
    then obtain k where k: "(k, i) \<in> set final" using 1(8) by auto
    have "distinct (dict_keys final)" using \<open>extends (set canonical) results final\<close> canonicalize_extends(1) [OF 1(2)]
      by (simp add: extends_def well_reported_def)
    then have "dict_get final k = Some i" using k by simp
    then show "sy_persisted i = sy_fetched i" using final(1) i(2) by (auto simp: settled_def)
  qed
  ultimately show ?thesis by simp
qed

section \<open>What is handed to the database\<close>

definition within_window :: "bars_query \<Rightarrow> string \<Rightarrow> daily_bar list \<Rightarrow> bool" where
  "within_window rq symbol bars \<longleftrightarrow>
     (\<forall>b \<in> set bars. db_symbol b = symbol \<and> db_adjustment b = rq_adjustment rq \<and>
        (case rq_start rq of None \<Rightarrow> True | Some s \<Rightarrow> s \<le> db_trade_date b) \<and> (case rq_end rq of None \<Rightarrow> True | Some e \<Rightarrow> db_trade_date b \<le> e)) \<and>
     sorted (bar_days bars) \<and> distinct (bar_days bars) \<and>
     (case rq_lookback rq of None \<Rightarrow> True | Some n \<Rightarrow> int (length bars) \<le> n)"

lemma sorted_part:
  "sorted (bar_days bars) \<Longrightarrow> sorted (bar_days (filter P bars))" "sorted (bar_days bars) \<Longrightarrow> sorted (bar_days (drop n bars))"
  by (simp_all add: sorted_filter drop_map [symmetric] sorted_wrt_drop)

lemma distinct_part:
  "distinct (bar_days bars) \<Longrightarrow> distinct (bar_days (filter P bars))" "distinct (bar_days bars) \<Longrightarrow> distinct (bar_days (drop n bars))"
  by (simp_all add: distinct_map_filter drop_map [symmetric])

lemma upto_end_ok:
  assumes "sorted (bar_days bars)" "distinct (bar_days bars)"
  shows "sorted (bar_days (upto_end e bars))" "distinct (bar_days (upto_end e bars))"
    "\<forall>b \<in> set (upto_end e bars). b \<in> set bars \<and> (case e of None \<Rightarrow> True | Some e \<Rightarrow> db_trade_date b \<le> e)"
  using assms sorted_part(1) distinct_part(1) by (auto simp: upto_end_def split: option.splits)

lemma clip_within:
  assumes "bars_request adjustment start end_day lookback = Inr rq" "validated_bars symbol raw (rq_adjustment rq) = Inr bars"
  shows "within_window rq symbol (clip_bars rq bars)"
proof -
  note v = validated_bars_ok [OF assms(2)]
  show ?thesis
  proof (cases "rq_lookback rq")
    case (Some n)
    then have s: "rq_start rq = None" "0 < n" using assms(1) by (auto simp: bars_request_def split: sum.splits option.splits if_splits prod.splits)
    note u = upto_end_ok [OF v(2,3), of "rq_end rq"]
    have "set (last_bars n (upto_end (rq_end rq) bars)) \<subseteq> set (upto_end (rq_end rq) bars)" by (simp add: last_bars_def set_drop_subset)
    moreover have "int (length (last_bars n (upto_end (rq_end rq) bars))) \<le> n" using s(2) by (simp add: last_bars_def)
    ultimately show ?thesis
      using v(1) u(3) sorted_part(2) [OF u(1)] distinct_part(2) [OF u(2)] Some s(1)
      unfolding within_window_def clip_bars_def last_bars_def by auto
  next
    case None
    then obtain s e where "rq_start rq = Some s" "rq_end rq = Some e"
      using assms(1) by (auto simp: bars_request_def split: sum.splits option.splits if_splits prod.splits)
    then show ?thesis using v sorted_part(1) [OF v(2)] distinct_part(1) [OF v(3)] None
      unfolding within_window_def clip_bars_def by auto
  qed
qed

text \<open>
  With a provider that answers batches, every list of bars waiting to be stored has the requested symbol and
  adjustment, one bar per day in order, no day outside the requested range or after the cutoff, and no more bars than
  the requested depth, whatever the provider returned.
\<close>

theorem pending_within_window:
  assumes "bars_request adjustment start end_day lookback = Inr rq" "bars_batch ports = Some batch"
    and "fetch_pending ports rq n normal results w = (Inr (pending, reported), w')" "dict_get pending symbol = Some bars"
  shows "within_window rq symbol bars"
proof -
  define P :: "pending_bars \<times> report \<Rightarrow> bool" where "P = (\<lambda>st. \<forall>k bars. dict_get (fst st) k = Some bars \<longrightarrow> within_window rq k bars)"
  have fail: "P (fst st, fail_symbol e s (snd st))" if "P st" for st e s using that by (simp add: P_def)
  have place: "P (place_bars rq by_symbol s st)" if "P st" for st by_symbol s
  proof (cases rule: place_bars_cases [of rq by_symbol s st])
    case (failed e)
    then show ?thesis using fail [OF that] by simp
  next
    case (placed raw bars)
    then show ?thesis using that clip_within [OF assms(1) placed(1)] by (simp add: P_def)
  qed
  have "P (fst (bar_chunks (fetch_bars ports rq (rq_count rq)) rq (batches n normal) ([], results) w))"
    by (rule bar_chunks_keeps [where P = P, OF fail place]) (simp_all add: P_def)
  then have "P (pending, reported)" using assms(2,3) by (auto simp: fetch_pending_def split: prod.splits)
  then show ?thesis using assms(4) by (simp add: P_def)
qed

section \<open>The contract with the repository\<close>

lemma coverage_refusal_None:
  "coverage_refusal authoritative existing bars = None \<longleftrightarrow>
     (\<exists>d \<in> set (bar_days bars). d \<le> the (first_day existing bars)) \<and> (\<exists>d \<in> set (bar_days bars). the (last_day existing bars) \<le> d) \<and>
     (authoritative \<or> set (bar_days existing) \<subseteq> set (bar_days bars))"
  unfolding coverage_refusal_def by (auto simp: not_less simp del: set_map)

text \<open>
  What a replacement of stored bars may rely on: the bars are of the symbol and adjustment, one per day, they reach both
  ends of the range, the range holds every stored day, and no stored day disappears unless the source is authoritative.
\<close>

definition replacement :: "bool \<Rightarrow> string \<Rightarrow> daily_bar list \<Rightarrow> adjustment \<Rightarrow> int \<Rightarrow> int \<Rightarrow> int set \<Rightarrow> bool" where
  "replacement authoritative symbol bars a first final stored \<longleftrightarrow>
     (\<forall>b \<in> set bars. db_symbol b = symbol \<and> db_adjustment b = a) \<and> distinct (bar_days bars) \<and>
     (\<exists>d \<in> set (bar_days bars). d \<le> first) \<and> (\<exists>d \<in> set (bar_days bars). final \<le> d) \<and>
     (\<forall>d \<in> stored. first \<le> d \<and> d \<le> final) \<and> (authoritative \<or> stored \<subseteq> set (bar_days bars))"

text \<open>
  The calls a synchronization makes, each keeping a preorder on the states; calls of the provider, and those that read, leave
  the stored days as they are.
\<close>

locale bar_contract =
  fixes ports :: "('w, 'g) bar_ports" and keeps :: "'w \<Rightarrow> 'w \<Rightarrow> bool" and days :: "'w \<Rightarrow> string \<Rightarrow> adjustment \<Rightarrow> int set"
  assumes keeps_refl: "keeps w w"
    and keeps_trans: "keeps w w' \<Longrightarrow> keeps w' w'' \<Longrightarrow> keeps w w''"
    and batch_reads: "bars_batch ports = Some batch \<Longrightarrow> batch w symbols a n = (r, w') \<Longrightarrow> keeps w w' \<and> days w' = days w"
    and window_reads: "bars_window ports = Some window \<Longrightarrow> window w symbols a n end_day = (r', w') \<Longrightarrow> keeps w w' \<and> days w' = days w"
    and between_reads: "bars_between ports w s start until a = (r'', w') \<Longrightarrow> keeps w w' \<and> days w' = days w"
    and revision_reads: "revision_of ports = Some revision_method \<Longrightarrow> revision_method w s = (rv, w') \<Longrightarrow> keeps w w' \<and> days w' = days w"
    and stored_reads: "revisions ports = Some store \<Longrightarrow> stored_revision store w s = (sv, w') \<Longrightarrow> keeps w w' \<and> days w' = days w"
    and list_reads: "list_bars ports w s a = (lr, w') \<Longrightarrow> keeps w w' \<and> days w' = days w"
    and list_days: "list_bars ports w s a = (Inr bars, w') \<Longrightarrow> set (bar_days bars) = days w s a"
    and replace_keeps: "replace_bars ports s bars a first final context_data w = Inr w' \<Longrightarrow>
        replacement (authoritative_history ports) s bars a first final (days w s a) \<Longrightarrow> keeps w w'"
    and upsert_keeps: "fencing ports = None \<Longrightarrow> upsert_bars ports bars w = Inr w' \<Longrightarrow> keeps w w'"
    and record_keeps: "fencing ports = None \<Longrightarrow> revisions ports = Some store \<Longrightarrow>
        upsert_revision store s name revision first_stored last_stored rebased w = Inr w' \<Longrightarrow> keeps w w'"
    and reserve_keeps: "fencing ports = Some fence \<Longrightarrow> reserve_run fence w symbols a = (g, w') \<Longrightarrow> keeps w w'"
    and fenced_keeps: "fencing ports = Some fence \<Longrightarrow> fenced_upsert fence generations sampled name bars w = Inr w' \<Longrightarrow> keeps w w'"
    and complete_keeps: "fencing ports = Some fence \<Longrightarrow> complete_run fence symbols a generations depth w = Inr w' \<Longrightarrow> keeps w w'"
begin

abbreviation reads :: "'w \<Rightarrow> 'w \<Rightarrow> bool" where "reads w w' \<equiv> keeps w w' \<and> days w' = days w"

lemma reads_trans: "reads w w' \<Longrightarrow> reads w' w'' \<Longrightarrow> reads w w''"
  using keeps_trans by metis

lemma fetch_reads: "fetch_bars ports rq count w symbols = (r, w') \<Longrightarrow> reads w w'"
  unfolding fetch_bars_def
  by (auto split: option.splits intro: keeps_refl dest: batch_reads window_reads)

lemma isolated_reads: "fetch_isolated (fetch_bars ports rq count) symbols w = (r, w') \<Longrightarrow> reads w w'"
proof (induction "length symbols" arbitrary: symbols w r w' rule: less_induct)
  case less
  obtain a w1 where f: "fetch_bars ports rq count w symbols = (a, w1)" by (cases "fetch_bars ports rq count w symbols")
  note r1 = fetch_reads [OF f]
  show ?case
  proof (cases "symbols = [] \<or> length symbols = 1 \<or> (case a of Inl e \<Rightarrow> \<not> is_invalid e | Inr b \<Rightarrow> True)")
    case True
    with less(2) f have "w' = w1" by (auto simp: fetch_isolated.simps [of _ symbols] split: sum.splits if_splits)
    with r1 show ?thesis by simp
  next
    case False
    then obtain e where e: "a = Inl e" "is_invalid e" "length symbols \<noteq> 1" "symbols \<noteq> []" by (auto split: sum.splits)
    let ?m = "length symbols div 2"
    note shorter = halves_shorter [OF e(4,3)]
    obtain lr w2 where l: "fetch_isolated (fetch_bars ports rq count) (take ?m symbols) w1 = (lr, w2)"
      by (cases "fetch_isolated (fetch_bars ports rq count) (take ?m symbols) w1")
    note r2 = less(1) [OF shorter(1) l]
    show ?thesis
    proof (cases lr)
      case (Inl e')
      with less(2) f e l have "w' = w2" by (simp add: fetch_isolated.simps [of _ symbols] Let_def)
      with reads_trans [OF r1 r2] show ?thesis by simp
    next
      case (Inr x)
      obtain rr w3 where rr: "fetch_isolated (fetch_bars ports rq count) (drop ?m symbols) w2 = (rr, w3)"
        by (cases "fetch_isolated (fetch_bars ports rq count) (drop ?m symbols) w2")
      note r3 = less(1) [OF shorter(2) rr]
      from less(2) f e l rr Inr have "w' = w3" by (cases x; cases rr) (auto simp: fetch_isolated.simps [of _ symbols] Let_def)
      with reads_trans [OF reads_trans [OF r1 r2] r3] show ?thesis by simp
    qed
  qed
qed

lemma chunks_keep: "keeps w (snd (bar_chunks (fetch_bars ports rq count) rq chunks st w))"
proof (induction chunks arbitrary: st w)
  case (Cons chunk chunks)
  obtain a w' where f: "fetch_isolated (fetch_bars ports rq count) chunk w = (a, w')"
    by (cases "fetch_isolated (fetch_bars ports rq count) chunk w")
  from isolated_reads [OF f] have "keeps w w'" by simp
  then have rest: "keeps w (snd (bar_chunks (fetch_bars ports rq count) rq chunks st' w'))" for st' by (rule keeps_trans [OF _ Cons])
  show ?case by (cases a) (simp_all add: f rest split: prod.split)
qed (simp add: keeps_refl)

lemma single_keep: "keeps w (snd (single_bars ports a s e symbols st w))"
proof (induction symbols arbitrary: st w)
  case (Cons symbol symbols)
  obtain r w' where f: "bars_between ports w symbol s e a = (r, w')" by (cases "bars_between ports w symbol s e a")
  from between_reads [OF f] have "keeps w w'" by simp
  from keeps_trans [OF this Cons] f show ?case by simp
qed (simp add: keeps_refl)

lemma fetch_pending_keeps: "fetch_pending ports rq n normal results w = (r, w') \<Longrightarrow> keeps w w'"
  using chunks_keep [of w rq "rq_count rq" "batches n normal" "([], results)"]
    single_keep [of w "rq_adjustment rq" "the (rq_start rq)" "the (rq_end rq)" normal "([], results)"] keeps_refl
  by (auto simp: fetch_pending_def split: option.splits prod.splits)

lemma confirm_keep:
  assumes "revision_of ports = Some revision_method"
  shows "keeps w (snd (confirm_revisions revision_method sampled symbols st w))"
proof (induction symbols arbitrary: st w)
  case (Cons symbol symbols)
  obtain r w' where f: "revision_method w symbol = (r, w')" by (cases "revision_method w symbol")
  from revision_reads [OF assms f] have "keeps w w'" by simp
  from keeps_trans [OF this Cons] f Cons show ?case by (auto split: option.splits sum.splits)
qed (simp add: keeps_refl)

lemma confirm_pending_keeps: "confirm_pending ports rq sampled st w = (st', w') \<Longrightarrow> keeps w w'"
  using confirm_keep [of _ w sampled "dict_keys (fst st)" st] keeps_refl
  by (force simp: confirm_pending_def split: option.splits adjustment.splits)

lemma persist_keeps:
  assumes "\<And>rs v v'. upsert rs v = Inr v' \<Longrightarrow> keeps v v'" "persist_with_isolation key upsert records w = Inr (outcomes, w')"
  shows "keeps w w'"
proof -
  have each: "keeps v (snd (persist_each upsert groups v))" for groups v
  proof (induction groups arbitrary: v)
    case (Cons g groups)
    obtain k rs where g: "g = (k, rs)" by (cases g)
    show ?case
    proof (cases "upsert rs v")
      case (Inl e)
      with Cons show ?thesis by (simp add: g persist_each_Cons)
    next
      case (Inr v')
      from keeps_trans [OF assms(1) [OF Inr] Cons] Inr show ?thesis by (simp add: g persist_each_Cons)
    qed
  qed (simp add: keeps_refl)
  show ?thesis using assms each [of w "grouped key records"]
    by (auto simp: persist_with_isolation_def split: sum.splits if_splits)
qed

lemma store_pending_keeps:
  assumes "store_pending ports generations sampled st w = (r, w')" "fencing ports = None \<longleftrightarrow> generations = None"
  shows "keeps w w'"
proof -
  let ?upsert = "case (fencing ports, generations) of
      (Some fence, Some g) \<Rightarrow> fenced_upsert fence g sampled (source_name ports) | _ \<Rightarrow> upsert_bars ports"
  have u: "keeps v v'" if "?upsert rs v = Inr v'" for rs v v'
    using that assms(2) by (cases "fencing ports") (auto split: option.splits dest: upsert_keeps fenced_keeps)
  consider "w' = w" | outcomes where "persist_with_isolation db_symbol ?upsert (concat (map snd (fst st))) w = Inr (outcomes, w')"
    using assms(1) by (auto simp: store_pending_def Let_def split: if_splits sum.splits)
  then show ?thesis
  proof cases
    case 1
    then show ?thesis by (simp add: keeps_refl)
  next
    case (2 outcomes)
    show ?thesis by (rule persist_keeps [OF u 2])
  qed
qed

lemma known_revision_reads: "known_revision ports bs symbol w = (r, w') \<Longrightarrow> reads w w'"
  unfolding known_revision_def by (auto split: option.splits prod.splits intro: keeps_refl dest: revision_reads)

lemma record_coverage_keeps:
  assumes "fencing ports = None" "revisions ports = Some store" "record_coverage ports store rq symbol revision rebased w = (r, w')"
  shows "keeps w w'"
proof -
  obtain lr w1 where l: "list_bars ports w symbol (rq_adjustment rq) = (lr, w1)" by (cases "list_bars ports w symbol (rq_adjustment rq)")
  have k1: "keeps w w1" using list_reads [OF l] by blast
  show ?thesis using assms(3) l k1 keeps_trans [OF k1 record_keeps [OF assms(1,2)]]
    by (auto simp: record_coverage_def split: sum.splits)
qed

lemma record_revision_keeps:
  assumes "fencing ports = None" "revisions ports = Some store"
  shows "keeps (snd rw) (snd (record_revision ports store rq bs symbol rw))"
proof -
  obtain results w where rw: "rw = (results, w)" by (cases rw)
  obtain known w1 where k: "known_revision ports bs symbol w = (known, w1)" by (cases "known_revision ports bs symbol w")
  have k1: "keeps w w1" using known_revision_reads [OF k] by blast
  have k2: "keeps w w2" if "record_coverage ports store rq symbol revision rebased w1 = (r, w2)" for revision rebased r w2
    using keeps_trans [OF k1 record_coverage_keeps [OF assms that]] .
  show ?thesis unfolding rw record_revision_def using k1 k2 keeps_refl
    by (auto simp: k split: option.splits sum.splits prod.splits)
qed

lemma record_revisions_keep: "keeps (snd rw) (snd (record_revisions ports rq bs canonical rw))"
proof (cases "\<exists>store. (fencing ports, rq_adjustment rq, revisions ports) = (None, QFQ, Some store)")
  case True
  then obtain store where s: "fencing ports = None" "rq_adjustment rq = QFQ" "revisions ports = Some store" by auto
  have "keeps (snd rw) (snd (fold (record_revision ports store rq bs) canonical rw))"
    by (rule fold_keeps [where P = "\<lambda>x. keeps (snd rw) (snd x)"]) (auto intro: keeps_refl keeps_trans record_revision_keeps [OF s(1,3)])
  then show ?thesis by (simp add: record_revisions_def s)
next
  case False
  then have "record_revisions ports rq bs canonical rw = rw"
    unfolding record_revisions_def by (auto split: option.splits adjustment.splits)
  then show ?thesis by (simp add: keeps_refl)
qed

lemma finish_run_keeps: "finish_run ports generations rq canonical rw = (r, w') \<Longrightarrow> keeps (snd rw) w'"
  by (cases rw) (auto simp: finish_run_def Let_def keeps_refl split: option.splits sum.splits if_splits dest: complete_keeps)

lemma revised_reads:
  assumes "revisions ports = Some store" "revised_history ports store rq symbol revision w = (r, w')"
  shows "reads w w'" "r = Inr (Some existing) \<Longrightarrow> set (bar_days existing) = days w' symbol (rq_adjustment rq)"
proof -
  obtain sv w1 where sv: "stored_revision store w symbol = (sv, w1)" by (cases "stored_revision store w symbol")
  obtain lr w2 where lr: "list_bars ports w1 symbol (rq_adjustment rq) = (lr, w2)" by (cases "list_bars ports w1 symbol (rq_adjustment rq)")
  note r1 = stored_reads [OF assms(1) sv] and r2 = list_reads [OF lr]
  show "reads w w'" using assms(2) r1 reads_trans [OF r1 r2] by (auto simp: revised_history_def sv lr split: sum.splits option.splits if_splits)
  show "set (bar_days existing) = days w' symbol (rq_adjustment rq)" if "r = Inr (Some existing)"
    using assms(2) that r2 list_days [of w1 symbol "rq_adjustment rq" existing w2] lr
    by (auto simp: revised_history_def sv split: sum.splits option.splits if_splits)
qed

lemma rebuilt_reads: "rebuilt_bars ports rq symbol existing w = (r, w') \<Longrightarrow> reads w w'"
  unfolding rebuilt_bars_def by (auto split: if_splits prod.splits sum.splits option.splits intro: keeps_refl dest: fetch_reads)

lemma rebuilt_fit:
  assumes "rebuilt_bars ports rq symbol existing w = (Inr bars, w')"
  shows "(\<forall>b \<in> set bars. db_symbol b = symbol \<and> db_adjustment b = rq_adjustment rq) \<and> distinct (bar_days bars)"
proof -
  obtain raw checked where v: "validated_bars symbol raw (rq_adjustment rq) = Inr checked" "bars = upto_end (rq_end rq) checked"
    using assms unfolding rebuilt_bars_def by (auto split: if_splits prod.splits sum.splits option.splits)
  note c = validated_bars_ok [OF v(1)]
  show ?thesis using c(1) upto_end_ok [OF c(2,3), of "rq_end rq"] unfolding v(2) by blast
qed

lemma replace_history_keeps:
  assumes "revision_of ports = Some revision_method" "set (bar_days existing) = days w symbol (rq_adjustment rq)"
    and "(\<forall>b \<in> set bars. db_symbol b = symbol \<and> db_adjustment b = rq_adjustment rq) \<and> distinct (bar_days bars)"
    and "replace_history ports revision_method generations rq symbol revision existing bars w = (r, w')"
  shows "keeps w w'"
proof (cases "bars = [] \<or> coverage_refusal (authoritative_history ports) existing bars \<noteq> None")
  case True
  then show ?thesis using assms(4) keeps_refl by (auto simp: replace_history_def Let_def split: option.splits if_splits)
next
  case False
  then have ne: "bars \<noteq> []" and ok: "coverage_refusal (authoritative_history ports) existing bars = None" by simp_all
  obtain a w1 where a: "revision_method w symbol = (a, w1)" by (cases "revision_method w symbol")
  note r1 = revision_reads [OF assms(1) a]
  let ?f = "the (first_day existing bars)" and ?l = "the (last_day existing bars)"
  have span: "\<forall>d \<in> set (bar_days existing). ?f \<le> d \<and> d \<le> ?l"
    by (cases "existing = []") (auto simp: first_day_def last_day_def earliest_def latest_of_def)
  have stored: "set (bar_days existing) = days w1 symbol (rq_adjustment rq)" using assms(2) r1 by simp
  have reach: "\<exists>d \<in> set (bar_days bars). d \<le> ?f" "\<exists>d \<in> set (bar_days bars). ?l \<le> d"
    "authoritative_history ports \<or> set (bar_days existing) \<subseteq> set (bar_days bars)"
    using ok unfolding coverage_refusal_None by blast+
  have "replacement (authoritative_history ports) symbol bars (rq_adjustment rq) ?f ?l (days w1 symbol (rq_adjustment rq))"
    unfolding replacement_def stored [symmetric] using assms(3) span reach by blast
  then have step: "keeps w1 w2" if "replace_bars ports symbol bars (rq_adjustment rq) ?f ?l context_data w1 = Inr w2" for context_data w2
    using that by (rule replace_keeps [rotated])
  show ?thesis using assms(4) ne ok a r1 step keeps_trans
    by (auto simp: replace_history_def Let_def split: sum.splits if_splits)
qed

lemma check_revision_keeps:
  assumes "revisions ports = Some store" "revision_of ports = Some revision_method"
  shows "keeps w (snd (check_revision ports store revision_method generations rq symbol (st, w)))"
proof -
  obtain a w1 where a: "revision_method w symbol = (a, w1)" by (cases "revision_method w symbol")
  note k1 = revision_reads [OF assms(2) a]
  show ?thesis
  proof (cases a)
    case (Inl e)
    then show ?thesis using a k1 by (simp add: check_revision_def)
  next
    case revision: (Inr revision)
    obtain b w2 where b: "revised_history ports store rq symbol revision w1 = (b, w2)" by (cases "revised_history ports store rq symbol revision w1")
    note k2 = reads_trans [OF k1 revised_reads(1) [OF assms(1) b]]
    show ?thesis
    proof (cases "\<exists>existing. b = Inr (Some existing)")
      case False
      then show ?thesis using a b revision k2 by (auto simp: check_revision_def Let_def split: sum.splits option.splits)
    next
      case True
      then obtain existing where existing: "b = Inr (Some existing)" by blast
      obtain c w3 where c: "rebuilt_bars ports rq symbol existing w2 = (c, w3)" by (cases "rebuilt_bars ports rq symbol existing w2")
      note k3 = reads_trans [OF k2 rebuilt_reads [OF c]]
      show ?thesis
      proof (cases c)
        case (Inl e)
        then show ?thesis using a b c revision existing k3 by (simp add: check_revision_def Let_def)
      next
        case (Inr bars)
        obtain d w4 where d: "replace_history ports revision_method generations rq symbol revision existing bars w3 = (d, w4)"
          by (cases "replace_history ports revision_method generations rq symbol revision existing bars w3")
        have "set (bar_days existing) = days w3 symbol (rq_adjustment rq)"
          using revised_reads(2) [OF assms(1) b existing] rebuilt_reads [OF c] by simp
        from replace_history_keeps [OF assms(2) this rebuilt_fit [OF c [unfolded Inr]] d] k3 have "keeps w w4" using keeps_trans by blast
        then show ?thesis using a b c d revision existing Inr by (cases d) (simp_all add: check_revision_def Let_def)
      qed
    qed
  qed
qed

lemma check_revisions_keep: "check_revisions ports generations rq canonical results w = (bs, w') \<Longrightarrow> keeps w w'"
proof -
  have "keeps (snd sw) (snd (fold (check_revision ports store revision_method generations rq) canonical sw))"
    if "revisions ports = Some store" "revision_of ports = Some revision_method" for store revision_method sw
    by (rule fold_keeps [where P = "\<lambda>x. keeps (snd sw) (snd x)"])
      (auto intro: keeps_refl keeps_trans check_revision_keeps [OF that])
  then show "check_revisions ports generations rq canonical results w = (bs, w') \<Longrightarrow> keeps w w'"
    using keeps_refl unfolding check_revisions_def
    by (auto split: option.splits adjustment.splits) (metis snd_conv)
qed

text \<open>A synchronization keeps what its calls keep, however it ends.\<close>

lemma sync_keeps:
  assumes "daily_sync ports n symbols start end_day adjustment lookback w = (r, w')"
  shows "keeps w w'"
proof (cases "bars_request adjustment start end_day lookback")
  case (Inl e)
  then show ?thesis using assms by (simp add: daily_sync_def keeps_refl)
next
  case rq: (Inr rq)
  obtain canonical results where c: "canonicalize_symbols symbols = (canonical, results)" by (cases "canonicalize_symbols symbols")
  let ?reserve = "case fencing ports of None \<Rightarrow> (Inr None, w)
      | Some fence \<Rightarrow> (case reserve_run fence w canonical (rq_adjustment rq) of (answer, w1) \<Rightarrow> (map_sum id Some answer, w1))"
  obtain g w1 where g: "?reserve = (g, w1)" by (cases ?reserve)
  have k1: "keeps w w1" using g by (auto split: option.splits prod.splits intro: keeps_refl dest: reserve_keeps)
  show ?thesis
  proof (cases g)
    case (Inl e)
    then show ?thesis using assms rq c g k1 by (simp add: daily_sync_def)
  next
    case gen: (Inr generations)
    have fenced: "fencing ports = None \<longleftrightarrow> generations = None"
      using g gen by (cases "fencing ports") (auto split: prod.splits simp: map_sum_def split: sum.splits)
    obtain bs w2 where bs: "check_revisions ports generations rq canonical results w1 = (bs, w2)" by (cases "check_revisions ports generations rq canonical results w1")
    have k2: "keeps w w2" using keeps_trans [OF k1 check_revisions_keep [OF bs]] .
    obtain f w3 where f: "fetch_pending ports rq n (bs_normal bs) (bs_results bs) w2 = (f, w3)" by (cases "fetch_pending ports rq n (bs_normal bs) (bs_results bs) w2")
    have k3: "keeps w w3" using keeps_trans [OF k2 fetch_pending_keeps [OF f]] .
    show ?thesis
    proof (cases f)
      case (Inl e)
      then show ?thesis using assms rq c g gen bs f k3 by (simp add: daily_sync_def)
    next
      case fetched: (Inr fetched)
      obtain confirmed w4 where cf: "confirm_pending ports rq (bs_revisions bs) fetched w3 = (confirmed, w4)" by (cases "confirm_pending ports rq (bs_revisions bs) fetched w3")
      have k4: "keeps w w4" using keeps_trans [OF k3 confirm_pending_keeps [OF cf]] .
      obtain s w5 where s: "store_pending ports generations (bs_revisions bs) confirmed w4 = (s, w5)" by (cases "store_pending ports generations (bs_revisions bs) confirmed w4")
      have k5: "keeps w w5" using keeps_trans [OF k4 store_pending_keeps [OF s fenced]] .
      show ?thesis
      proof (cases s)
        case (Inl e)
        then show ?thesis using assms rq c g gen bs f fetched cf s k5 by (simp add: daily_sync_def)
      next
        case stored: (Inr stored)
        obtain fin w6 where fin: "finish_run ports generations rq canonical (record_revisions ports rq bs canonical (stored, w5)) = (fin, w6)"
          by (cases "finish_run ports generations rq canonical (record_revisions ports rq bs canonical (stored, w5))")
        have k6: "keeps w5 (snd (record_revisions ports rq bs canonical (stored, w5)))"
          using record_revisions_keep [of "(stored, w5)" rq bs canonical] by simp
        have "keeps w w6" by (rule keeps_trans [OF keeps_trans [OF k5 k6] finish_run_keeps [OF fin]])
        moreover have "w' = w6" using assms rq c g gen bs f fetched cf s stored fin by (cases fin) (simp_all add: daily_sync_def)
        ultimately show ?thesis by simp
      qed
    qed
  qed
qed

end

end
