(* ===== verification/Bar_Repository.thy ===== *)
theory Bar_Repository
  imports Daily_Sync "HOL-Library.Product_Lexorder"
begin

text \<open>
  The repository of daily bars of the hub (\<open>SqlAlchemyDailyBarRepository\<close> and the adjustment states,
  \<open>market-data-hub/app/repositories/market_data.py\<close>) over all securities, made of the transactions on single
  series, and the synchronization of daily bars as the hub runs it on this repository, with an arbitrary provider.

  A series whose row does not exist yet has the values it is created with. The revision of a security is kept with its
  forward-adjusted series; only that series is ever reconciled.
\<close>

section \<open>Order of the adjustment modes\<close>

text \<open>The members of a string enumeration compare as their texts.\<close>

instantiation adjustment :: linorder
begin

definition less_eq_adjustment :: "adjustment \<Rightarrow> adjustment \<Rightarrow> bool" where
  "less_eq_adjustment a b \<longleftrightarrow> adjustment_value a \<le> adjustment_value b"

definition less_adjustment :: "adjustment \<Rightarrow> adjustment \<Rightarrow> bool" where
  "less_adjustment a b \<longleftrightarrow> adjustment_value a < adjustment_value b"

instance
proof
  have inj: "adjustment_value a = adjustment_value b \<Longrightarrow> a = b" for a b by (cases a; cases b) simp_all
  fix a b c :: adjustment
  show "a < b \<longleftrightarrow> a \<le> b \<and> \<not> b \<le> a" by (simp add: less_eq_adjustment_def less_adjustment_def less_le_not_le)
  show "a \<le> a" by (simp add: less_eq_adjustment_def)
  show "a \<le> b \<Longrightarrow> b \<le> c \<Longrightarrow> a \<le> c" by (simp add: less_eq_adjustment_def)
  show "a \<le> b \<Longrightarrow> b \<le> a \<Longrightarrow> a = b" by (simp add: less_eq_adjustment_def inj)
  show "a \<le> b \<or> b \<le> a" by (simp add: less_eq_adjustment_def linear)
qed

end

section \<open>The repository\<close>

record ('p, 'r, 'q) bar_hub =
  bh_source :: 'p
  bh_symbols :: "string list"
  bh_series :: "string \<Rightarrow> adjustment \<Rightarrow> (daily_bar, 'r, 'q) price_series"

definition put_series ::
  "string \<Rightarrow> adjustment \<Rightarrow> (daily_bar, 'r, 'q) price_series \<Rightarrow> ('p, 'r, 'q) bar_hub \<Rightarrow> ('p, 'r, 'q) bar_hub"
where
  "put_series s a x hub = hub\<lparr>bh_series := (bh_series hub)(s := (bh_series hub s)(a := x))\<rparr>"

text \<open>\<open>_security_ids\<close>: every symbol has a row.\<close>

definition security_ids :: "string list \<Rightarrow> ('p, 'r, 'q) bar_hub \<Rightarrow> sync_exn + unit" where
  "security_ids symbols hub = (let missing = filter (\<lambda>s. s \<notin> set (bh_symbols hub)) symbols in
     if missing \<noteq> [] then Inl (Raised OtherFailure ''MissingSecurityError'' (''security is not persisted: '' @ join_text '', '' missing))
     else Inr ())"

definition bar_identity :: "daily_bar \<Rightarrow> string \<times> int \<times> adjustment" where
  "bar_identity b = (db_symbol b, db_trade_date b, db_adjustment b)"

definition series_records :: "daily_bar list \<Rightarrow> string \<Rightarrow> adjustment \<Rightarrow> (int, daily_bar) dict" where
  "series_records records s a = map (\<lambda>b. (db_trade_date b, b)) (filter (\<lambda>b. db_symbol b = s \<and> db_adjustment b = a) records)"

text \<open>
  One transaction: the first refused fence rolls everything back, so the series can be written one after the other.
\<close>

fun write_series ::
  "(string, int) dict option \<Rightarrow> (string, string) dict \<Rightarrow> daily_bar list \<Rightarrow> (string \<times> adjustment) list \<Rightarrow> ('p, 'r, 'q) bar_hub \<Rightarrow>
     sync_exn + ('p, 'r, 'q) bar_hub"
where
  "write_series generations sampled records [] hub = Inr hub"
| "write_series generations sampled records ((s, a) # keys) hub =
     (case upsert_fenced (a = QFQ) (map_option (\<lambda>g. dict_get g s) generations) (dict_get sampled s) (series_records records s a) (bh_series hub s a) of
        Inl e \<Rightarrow> Inl (of_exn e)
      | Inr x \<Rightarrow> write_series generations sampled records keys (put_series s a x hub))"

definition repository_upsert ::
  "(string, int) dict option \<Rightarrow> (string, string) dict \<Rightarrow> daily_bar list \<Rightarrow> ('p, 'r, 'q) bar_hub \<Rightarrow> sync_exn + ('p, 'r, 'q) bar_hub"
where
  "repository_upsert generations sampled records hub = (case unique_records bar_identity records of
      Inl e \<Rightarrow> Inl (of_exn e)
    | Inr rs \<Rightarrow>
        if rs = [] then Inr hub
        else (case security_ids (remdups (map db_symbol rs)) hub of
            Inl e \<Rightarrow> Inl e
          | Inr u \<Rightarrow> write_series generations sampled rs (remdups (map (\<lambda>b. (db_symbol b, db_adjustment b)) rs)) hub))"

definition repository_reserve ::
  "('p, 'r, 'q) bar_hub \<Rightarrow> string list \<Rightarrow> adjustment \<Rightarrow> (sync_exn + (string, int) dict) \<times> ('p, 'r, 'q) bar_hub"
where
  "repository_reserve hub symbols a = (case traverse (\<lambda>s. normalize_symbol (VStr s)) symbols of
      Inl e \<Rightarrow> (Inl (of_exn e), hub)
    | Inr normalized \<Rightarrow>
        let found = filter (\<lambda>s. s \<in> set (bh_symbols hub)) (sort (remdups normalized)) in
        (Inr (map (\<lambda>s. (s, fst (reserve_sync (bh_series hub s a)))) found),
         fold (\<lambda>s h. put_series s a (snd (reserve_sync (bh_series h s a))) h) found hub))"

definition repository_list ::
  "('p, 'r, 'q) bar_hub \<Rightarrow> string \<Rightarrow> adjustment \<Rightarrow> (sync_exn + daily_bar list) \<times> ('p, 'r, 'q) bar_hub"
where
  "repository_list hub symbol a = (case normalize_symbol (VStr symbol) of
      Inl e \<Rightarrow> (Inl (of_exn e), hub)
    | Inr c \<Rightarrow> (Inr (if c \<in> set (bh_symbols hub)
        then map (\<lambda>(d, b). b\<lparr>db_symbol := c, db_trade_date := d, db_adjustment := a\<rparr>) (sort_key fst (sr_bars (bh_series hub c a)))
        else []), hub))"

definition repository_replace ::
  "string \<Rightarrow> daily_bar list \<Rightarrow> adjustment \<Rightarrow> int \<Rightarrow> int \<Rightarrow> ((string, int) dict \<times> string \<times> string) option \<Rightarrow> ('p, 'r, 'q) bar_hub \<Rightarrow>
     sync_exn + ('p, 'r, 'q) bar_hub"
where
  "repository_replace symbol records a first final fence hub = (case normalize_symbol (VStr symbol) of
      Inl e \<Rightarrow> Inl (of_exn e)
    | Inr c \<Rightarrow> (case unique_records bar_identity records of
          Inl e \<Rightarrow> Inl (of_exn e)
        | Inr rs \<Rightarrow>
            if rs = [] \<or> (\<exists>b \<in> set rs. db_symbol b \<noteq> c \<or> db_adjustment b \<noteq> a)
            then Inl (of_exn (PersistenceRecordError ''revised snapshot does not match its target''))
            else if first > final \<or> Min (set (map db_trade_date rs)) > first \<or> Max (set (map db_trade_date rs)) < final
            then Inl (of_exn (PersistenceRecordError ''revised snapshot does not cover replacement range''))
            else (case security_ids [c] hub of
                Inl e \<Rightarrow> Inl e
              | Inr u \<Rightarrow> (case reconcile_revision (map_option (\<lambda>(g, h, n). dict_get g c) fence) (map_option (\<lambda>(g, h, n). h) fence)
                    first final (series_records rs c a) (bh_series hub c a) of
                  Inl e \<Rightarrow> Inl (of_exn e)
                | Inr x \<Rightarrow> Inr (put_series c a x hub)))))"

fun complete_series ::
  "(string, int) dict \<Rightarrow> int \<Rightarrow> int \<Rightarrow> adjustment \<Rightarrow> string list \<Rightarrow> ('p, 'r, 'q) bar_hub \<Rightarrow> sync_exn + ('p, 'r, 'q) bar_hub"
where
  "complete_series generations depth now a [] hub = Inr hub"
| "complete_series generations depth now a (s # symbols) hub =
     (case complete_sync (Some (dict_get generations s)) depth now (bh_series hub s a) of
        Inl e \<Rightarrow> Inl (of_exn e)
      | Inr x \<Rightarrow> complete_series generations depth now a symbols (put_series s a x hub))"

definition repository_complete ::
  "int \<Rightarrow> string list \<Rightarrow> adjustment \<Rightarrow> (string, int) dict \<Rightarrow> int \<Rightarrow> ('p, 'r, 'q) bar_hub \<Rightarrow> sync_exn + ('p, 'r, 'q) bar_hub"
where
  "repository_complete now symbols a generations depth hub =
     (if symbols = [] then Inr hub
      else (case security_ids symbols hub of
          Inl e \<Rightarrow> Inl e
        | Inr u \<Rightarrow> complete_series generations depth now a (remdups symbols) hub))"

text \<open>\<open>SqlAlchemyAdjustmentStateRepository\<close>.\<close>

definition adjustment_state_get :: "('p, 'r, 'q) bar_hub \<Rightarrow> string \<Rightarrow> (sync_exn + string option) \<times> ('p, 'r, 'q) bar_hub" where
  "adjustment_state_get hub symbol = (case normalize_symbol (VStr symbol) of
      Inl e \<Rightarrow> (Inl (of_exn e), hub)
    | Inr c \<Rightarrow> (Inr (if c \<in> set (bh_symbols hub) then sr_revision (bh_series hub c QFQ) else None), hub))"

definition adjustment_state_upsert ::
  "string \<Rightarrow> string \<Rightarrow> string \<Rightarrow> int option \<Rightarrow> int option \<Rightarrow> bool \<Rightarrow> ('p, 'r, 'q) bar_hub \<Rightarrow> sync_exn + ('p, 'r, 'q) bar_hub"
where
  "adjustment_state_upsert symbol name revision first final rebased hub = (case normalize_symbol (VStr symbol) of
      Inl e \<Rightarrow> Inl (of_exn e)
    | Inr c \<Rightarrow> (case security_ids [c] hub of
          Inl e \<Rightarrow> Inl e
        | Inr u \<Rightarrow> Inr (put_series c QFQ ((bh_series hub c QFQ)\<lparr>sr_revision := Some revision\<rparr>) hub)))"

section \<open>The hub's synchronization\<close>

text \<open>A provider of daily bars, with the methods it has, over a state of its own.\<close>

record 'p bar_source =
  so_batch :: "('p \<Rightarrow> string list \<Rightarrow> adjustment \<Rightarrow> int \<Rightarrow> (sync_exn + bars_answer) \<times> 'p) option"
  so_window :: "('p \<Rightarrow> string list \<Rightarrow> adjustment \<Rightarrow> int \<Rightarrow> int option \<Rightarrow> (sync_exn + bars_answer) \<times> 'p) option"
  so_between :: "'p \<Rightarrow> string \<Rightarrow> int \<Rightarrow> int \<Rightarrow> adjustment \<Rightarrow> (sync_exn + daily_bar option list) \<times> 'p"
  so_revision :: "('p \<Rightarrow> string \<Rightarrow> (sync_exn + string) \<times> 'p) option"
  so_authoritative :: bool
  so_name :: string

definition ask_source :: "('p \<Rightarrow> 'x \<times> 'p) \<Rightarrow> ('p, 'r, 'q) bar_hub \<Rightarrow> 'x \<times> ('p, 'r, 'q) bar_hub" where
  "ask_source call hub = (case call (bh_source hub) of (answer, p) \<Rightarrow> (answer, hub\<lparr>bh_source := p\<rparr>))"

text \<open>The repository fences its writes; \<open>now\<close> is the time the completion is recorded with.\<close>

definition hub_ports :: "'p bar_source \<Rightarrow> int \<Rightarrow> (('p, 'r, 'q) bar_hub, (string, int) dict) bar_ports" where
  "hub_ports source now = \<lparr>
     bars_batch = map_option (\<lambda>f hub symbols a n. ask_source (\<lambda>p. f p symbols a n) hub) (so_batch source),
     bars_window = map_option (\<lambda>f hub symbols a n e. ask_source (\<lambda>p. f p symbols a n e) hub) (so_window source),
     bars_between = (\<lambda>hub symbol s e a. ask_source (\<lambda>p. so_between source p symbol s e a) hub),
     revision_of = map_option (\<lambda>f hub symbol. ask_source (\<lambda>p. f p symbol) hub) (so_revision source),
     authoritative_history = so_authoritative source,
     source_name = so_name source,
     list_bars = repository_list,
     replace_bars = repository_replace,
     upsert_bars = repository_upsert None [],
     fencing = Some \<lparr>reserve_run = repository_reserve,
       fenced_upsert = (\<lambda>generations sampled name. repository_upsert (Some generations) sampled),
       complete_run = repository_complete now\<rparr>,
     revisions = Some \<lparr>stored_revision = adjustment_state_get, upsert_revision = adjustment_state_upsert\<rparr>\<rparr>"

section \<open>What the transactions do to the series\<close>

text \<open>The days \<open>list_by_symbol\<close> finds.\<close>

definition stored_days :: "('p, 'r, 'q) bar_hub \<Rightarrow> string \<Rightarrow> adjustment \<Rightarrow> int set" where
  "stored_days hub symbol a = (case normalize_symbol (VStr symbol) of
      Inl e \<Rightarrow> {}
    | Inr c \<Rightarrow> if c \<in> set (bh_symbols hub) then set (dict_keys (sr_bars (bh_series hub c a))) else {})"

text \<open>A relation of series holds of every series of two hubs with the same securities.\<close>

definition serieswise ::
  "((daily_bar, 'r, 'q) price_series \<Rightarrow> (daily_bar, 'r, 'q) price_series \<Rightarrow> bool) \<Rightarrow> ('p, 'r, 'q) bar_hub \<Rightarrow> ('p, 'r, 'q) bar_hub \<Rightarrow> bool"
where
  "serieswise R hub hub' \<longleftrightarrow> bh_symbols hub' = bh_symbols hub \<and> (\<forall>s a. R (bh_series hub s a) (bh_series hub' s a))"

lemma serieswise_trans:
  assumes "\<And>x y z. R x y \<Longrightarrow> R y z \<Longrightarrow> R x z" "serieswise R h h'" "serieswise R h' h''"
  shows "serieswise R h h''"
  using assms unfolding serieswise_def by metis

lemma put_series_symbols [simp]: "bh_symbols (put_series s a x hub) = bh_symbols hub"
  by (simp add: put_series_def)

lemma put_series_get: "bh_series (put_series s a x hub) s' a' = (if s' = s \<and> a' = a then x else bh_series hub s' a')"
  by (simp add: put_series_def)

lemma serieswise_put:
  assumes "\<And>x. R x x" "R (bh_series hub s a) x"
  shows "serieswise R hub (put_series s a x hub)"
  using assms by (simp add: serieswise_def put_series_get)

lemma series_records_distinct:
  assumes "unique_records bar_identity records = Ok rs"
  shows "distinct (dict_keys (series_records rs s a))"
proof -
  have "distinct (map bar_identity rs)"
    using assms unique_facts_ok [of bar_identity records rs] by (auto simp: unique_records_def split: sum.splits)
  then have "distinct (map bar_identity (filter (\<lambda>b. db_symbol b = s \<and> db_adjustment b = a) rs))" by (rule distinct_map_filter)
  then have "inj_on bar_identity (set (filter (\<lambda>b. db_symbol b = s \<and> db_adjustment b = a) rs))"
    "distinct (filter (\<lambda>b. db_symbol b = s \<and> db_adjustment b = a) rs)" by (simp_all add: distinct_map)
  then show ?thesis unfolding series_records_def by (auto simp: distinct_map comp_def inj_on_def bar_identity_def)
qed

lemma series_records_all:
  assumes "\<forall>b \<in> set rs. db_symbol b = s \<and> db_adjustment b = a"
  shows "dict_keys (series_records rs s a) = map db_trade_date rs"
  using assms by (simp add: series_records_def comp_def)

text \<open>What each write may do to one series.\<close>

lemma write_series_serieswise:
  assumes refl: "\<And>x. R x x" and trans: "\<And>x y z. R x y \<Longrightarrow> R y z \<Longrightarrow> R x z"
    and step: "\<And>x y q g v s a. upsert_fenced q g v (series_records records s a) x = Ok y \<Longrightarrow> R x y"
    and run: "write_series generations sampled records keys hub = Inr hub'"
  shows "serieswise R hub hub'"
  using run
proof (induction keys arbitrary: hub)
  case Nil
  then show ?case using refl by (simp add: serieswise_def)
next
  case (Cons k keys)
  obtain s a where k: "k = (s, a)" by (cases k)
  from Cons.prems obtain x where u: "upsert_fenced (a = QFQ) (map_option (\<lambda>g. dict_get g s) generations) (dict_get sampled s)
      (series_records records s a) (bh_series hub s a) = Ok x"
    and rest: "write_series generations sampled records keys (put_series s a x hub) = Inr hub'"
    by (auto simp: k split: sum.splits)
  from serieswise_trans [OF trans serieswise_put [where R = R, OF refl step [OF u]] Cons.IH [OF rest]] show ?case .
qed

lemma complete_series_serieswise:
  assumes refl: "\<And>x. R x x" and trans: "\<And>x y z. R x y \<Longrightarrow> R y z \<Longrightarrow> R x z"
    and step: "\<And>x y g. complete_sync g depth now x = Ok y \<Longrightarrow> R x y"
    and run: "complete_series generations depth now a symbols hub = Inr hub'"
  shows "serieswise R hub hub'"
  using run
proof (induction symbols arbitrary: hub)
  case Nil
  then show ?case using refl by (simp add: serieswise_def)
next
  case (Cons s symbols)
  from Cons.prems obtain x where u: "complete_sync (Some (dict_get generations s)) depth now (bh_series hub s a) = Ok x"
    and rest: "complete_series generations depth now a symbols (put_series s a x hub) = Inr hub'"
    by (auto split: sum.splits)
  from serieswise_trans [OF trans serieswise_put [where R = R, OF refl step [OF u]] Cons.IH [OF rest]] show ?case .
qed

lemma reserve_serieswise:
  assumes refl: "\<And>x. R x x" and trans: "\<And>x y z. R x y \<Longrightarrow> R y z \<Longrightarrow> R x z"
    and step: "\<And>x. R x (snd (reserve_sync x))"
    and run: "repository_reserve hub symbols a = (r, hub')"
  shows "serieswise R hub hub'"
proof -
  have "serieswise R h (fold (\<lambda>s h. put_series s a (snd (reserve_sync (bh_series h s a))) h) xs h)" for xs h
  proof (induction xs arbitrary: h)
    case Nil
    then show ?case using refl by (simp add: serieswise_def)
  next
    case (Cons s xs)
    from serieswise_trans [OF trans serieswise_put [where R = R, OF refl step] Cons] show ?case by simp
  qed
  moreover have "serieswise R hub hub" using refl by (simp add: serieswise_def)
  ultimately show ?thesis using run by (auto simp: repository_reserve_def Let_def split: sum.splits)
qed

lemma ask_source_series:
  assumes "ask_source call hub = (r, hub')"
  shows "bh_symbols hub' = bh_symbols hub" "bh_series hub' = bh_series hub"
  using assms by (auto simp: ask_source_def split: prod.splits)

lemma stored_days_cong:
  assumes "bh_symbols hub' = bh_symbols hub" "bh_series hub' = bh_series hub"
  shows "stored_days hub' = stored_days hub"
  unfolding stored_days_def assms ..

lemma repository_list_days:
  assumes "repository_list hub symbol a = (Inr bars, hub')"
  shows "set (bar_days bars) = stored_days hub symbol a"
proof (cases "normalize_symbol (VStr symbol)")
  case (Inl e)
  then show ?thesis using assms by (simp add: repository_list_def)
next
  case (Inr c)
  have days: "bar_days (map (\<lambda>(d, b). b\<lparr>db_symbol := c, db_trade_date := d, db_adjustment := a\<rparr>) xs) = dict_keys xs" for xs
    by (induction xs) auto
  have sorted: "set (dict_keys (sort_key fst xs)) = set (dict_keys xs)" for xs :: "(int, daily_bar) dict"
    by simp
  show ?thesis
  proof (cases "c \<in> set (bh_symbols hub)")
    case True
    then have "bars = map (\<lambda>(d, b). b\<lparr>db_symbol := c, db_trade_date := d, db_adjustment := a\<rparr>) (sort_key fst (sr_bars (bh_series hub c a)))"
      using assms Inr by (auto simp: repository_list_def)
    then have "set (bar_days bars) = set (dict_keys (sr_bars (bh_series hub c a)))" by (simp only: days sorted)
    then show ?thesis using True Inr by (simp add: stored_days_def)
  next
    case False
    then show ?thesis using assms Inr by (simp add: repository_list_def stored_days_def)
  qed
qed

lemma ask_source_keeps:
  assumes "\<And>x. R x x" "ask_source call hub = (r, hub')"
  shows "serieswise R hub hub' \<and> stored_days hub' = stored_days hub"
  using ask_source_series [OF assms(2)] assms(1) stored_days_cong [of hub' hub] by (simp add: serieswise_def)

lemma repository_upsert_cases:
  assumes "repository_upsert generations sampled records hub = Inr hub'"
  obtains (none) "hub' = hub"
  | (written) rs where "unique_records bar_identity records = Ok rs"
      "write_series generations sampled rs (remdups (map (\<lambda>b. (db_symbol b, db_adjustment b)) rs)) hub = Inr hub'"
proof (cases "unique_records bar_identity records")
  case (Inl e)
  then show thesis using assms by (simp add: repository_upsert_def)
next
  case (Inr rs)
  show thesis
  proof (cases "rs = []")
    case True
    then show thesis using assms Inr by (intro none) (simp add: repository_upsert_def)
  next
    case False
    then show thesis using assms Inr by (intro written [OF Inr]) (simp add: repository_upsert_def split: sum.splits)
  qed
qed

text \<open>
  An invariant relation of single series that their transactions respect is respected by the synchronization: the calls of
  the hub's ports, in the form the contract asks for.
\<close>

lemma hub_contract:
  fixes R :: "(daily_bar, 'r, 'q) price_series \<Rightarrow> (daily_bar, 'r, 'q) price_series \<Rightarrow> bool" and source :: "'p bar_source"
  assumes refl: "\<And>x. R x x" and trans: "\<And>x y z. R x y \<Longrightarrow> R y z \<Longrightarrow> R x z"
    and upsert: "\<And>x y q g v records. distinct (dict_keys records) \<Longrightarrow> upsert_fenced q g v records x = Ok y \<Longrightarrow> R x y"
    and reserve: "\<And>x. R x (snd (reserve_sync x))"
    and complete: "\<And>x y g depth. complete_sync g depth now x = Ok y \<Longrightarrow> R x y"
    and replace: "\<And>x y g v first final records. distinct (dict_keys records) \<Longrightarrow> reconcile_revision g v first final records x = Ok y \<Longrightarrow>
        so_authoritative source \<or> set (dict_keys (sr_bars x)) \<subseteq> set (dict_keys records) \<Longrightarrow> R x y"
  shows "bar_contract (hub_ports source now) (serieswise R) stored_days"
proof unfold_locales
  have upserts: "serieswise R w w'" if "repository_upsert g v records w = Inr w'" for g v records and w w' :: "('p, 'r, 'q) bar_hub"
  proof -
    show ?thesis using that
    proof (cases rule: repository_upsert_cases)
      case none
      then show ?thesis using refl by (simp add: serieswise_def)
    next
      case (written rs)
      show ?thesis
        by (rule write_series_serieswise [where R = R, OF refl trans upsert [OF series_records_distinct [OF written(1)]] written(2)])
    qed
  qed
  note asks = ask_source_keeps [where R = R, OF refl]
  have same: "serieswise R w w \<and> stored_days w = stored_days w" for w :: "('p, 'r, 'q) bar_hub" using refl by (simp add: serieswise_def)
  fix w w' w'' :: "('p, 'r, 'q) bar_hub"
  show "serieswise R w w" using same by simp
  show "serieswise R w w' \<Longrightarrow> serieswise R w' w'' \<Longrightarrow> serieswise R w w''" by (rule serieswise_trans) (rule trans)
  show "bars_batch (hub_ports source now) = Some batch \<Longrightarrow> batch w symbols a n = (r, w') \<Longrightarrow> serieswise R w w' \<and> stored_days w' = stored_days w"
    for batch symbols a n r by (auto simp: hub_ports_def dest: asks)
  show "bars_window (hub_ports source now) = Some window \<Longrightarrow> window w symbols a n end_day = (r, w') \<Longrightarrow> serieswise R w w' \<and> stored_days w' = stored_days w"
    for window symbols a n end_day r by (auto simp: hub_ports_def dest: asks)
  show "bars_between (hub_ports source now) w s start until a = (r, w') \<Longrightarrow> serieswise R w w' \<and> stored_days w' = stored_days w"
    for s start until a r by (auto simp: hub_ports_def dest: asks)
  show "revision_of (hub_ports source now) = Some revision_method \<Longrightarrow> revision_method w s = (r, w') \<Longrightarrow> serieswise R w w' \<and> stored_days w' = stored_days w"
    for revision_method s r by (auto simp: hub_ports_def dest: asks)
  show "revisions (hub_ports source now) = Some store \<Longrightarrow> stored_revision store w s = (r, w') \<Longrightarrow> serieswise R w w' \<and> stored_days w' = stored_days w"
    for store s r using same by (auto simp: hub_ports_def adjustment_state_get_def split: sum.splits)
  show "list_bars (hub_ports source now) w s a = (r, w') \<Longrightarrow> serieswise R w w' \<and> stored_days w' = stored_days w" for s a r
    using same by (auto simp: hub_ports_def repository_list_def split: sum.splits)
  show "list_bars (hub_ports source now) w s a = (Inr bars, w') \<Longrightarrow> set (bar_days bars) = stored_days w s a" for s a bars
    using repository_list_days by (simp add: hub_ports_def)
  show "upsert_bars (hub_ports source now) bars w = Inr w' \<Longrightarrow> serieswise R w w'" if "fencing (hub_ports source now) = None" for bars
    using that by (simp add: hub_ports_def)
  show "upsert_revision store s name revision first_stored last_stored rebased w = Inr w' \<Longrightarrow> serieswise R w w'"
    if "fencing (hub_ports source now) = None" "revisions (hub_ports source now) = Some store"
    for store s name revision first_stored last_stored rebased using that by (simp add: hub_ports_def)
  show "fencing (hub_ports source now) = Some fence \<Longrightarrow> reserve_run fence w symbols a = (g, w') \<Longrightarrow> serieswise R w w'" for fence symbols a g
    using reserve_serieswise [where R = R, OF refl trans reserve] by (auto simp: hub_ports_def)
  show "fencing (hub_ports source now) = Some fence \<Longrightarrow> fenced_upsert fence generations sampled name bars w = Inr w' \<Longrightarrow> serieswise R w w'"
    for fence generations sampled name bars using upserts by (auto simp: hub_ports_def)
  show "fencing (hub_ports source now) = Some fence \<Longrightarrow> complete_run fence symbols a generations depth w = Inr w' \<Longrightarrow> serieswise R w w'"
    for fence symbols a generations depth
    using complete_series_serieswise [where R = R, OF refl trans complete] same
    by (auto simp: hub_ports_def repository_complete_def split: if_splits sum.splits)
  show "serieswise R w w'"
    if run: "replace_bars (hub_ports source now) s bars a first final context_data w = Inr w'"
      and fits: "replacement (authoritative_history (hub_ports source now)) s bars a first final (stored_days w s a)"
    for s bars a first final context_data
  proof -
    obtain c rs g v x where c: "normalize_symbol (VStr s) = Ok c" and rs: "unique_records bar_identity bars = Ok rs"
      and mine: "\<forall>b \<in> set rs. db_symbol b = c \<and> db_adjustment b = a" and known: "security_ids [c] w = Inr ()"
      and x: "reconcile_revision g v first final (series_records rs c a) (bh_series w c a) = Ok x" "w' = put_series c a x w"
      using run by (auto simp: hub_ports_def repository_replace_def split: sum.splits if_splits)
    have "set rs = set bars" using rs unique_facts_ok [of bar_identity bars rs] by (auto simp: unique_records_def split: sum.splits)
    then have days: "set (dict_keys (series_records rs c a)) = set (bar_days bars)" unfolding series_records_all [OF mine] by simp
    have "c \<in> set (bh_symbols w)" using known by (simp add: security_ids_def Let_def split: if_splits)
    then have "stored_days w s a = set (dict_keys (sr_bars (bh_series w c a)))" using c by (simp add: stored_days_def)
    then have "so_authoritative source \<or> set (dict_keys (sr_bars (bh_series w c a))) \<subseteq> set (dict_keys (series_records rs c a))"
      using fits unfolding replacement_def days by (simp add: hub_ports_def)
    from serieswise_put [where R = R, OF refl replace [OF series_records_distinct [OF rs] x(1) this]] show ?thesis unfolding x(2) .
  qed
qed

section \<open>The contract for the hub\<close>

definition days_kept :: "bool \<Rightarrow> (daily_bar, 'r, 'q) price_series \<Rightarrow> (daily_bar, 'r, 'q) price_series \<Rightarrow> bool" where
  "days_kept authoritative x y \<longleftrightarrow> authoritative \<or> set (dict_keys (sr_bars x)) \<subseteq> set (dict_keys (sr_bars y))"

definition stays_reachable ::
  "(string \<Rightarrow> (int \<Rightarrow> daily_bar option) \<Rightarrow> int \<Rightarrow> 'r option) \<Rightarrow> ('x \<Rightarrow> 'q \<Rightarrow> string) \<Rightarrow>
     (daily_bar, 'r, 'q) price_series \<Rightarrow> (daily_bar, 'r, 'q) price_series \<Rightarrow> bool"
where
  "stays_reachable analyse key_of x y \<longleftrightarrow> (series_reachable analyse key_of x \<longrightarrow> series_reachable analyse key_of y)"

lemma reconcile_days:
  assumes "distinct (dict_keys records)" "reconcile_revision g v first final records x = Ok y"
  shows "set (dict_keys (sr_bars y)) = set (dict_keys records) \<union> {d \<in> set (dict_keys (sr_bars x)). \<not> (first \<le> d \<and> d \<le> final)}"
proof -
  define gone where "gone = (\<lambda>d. first \<le> d \<and> d \<le> final \<and> d \<notin> set (dict_keys records))"
  have bars: "sr_bars y = filter (\<lambda>(d, _). \<not> gone d) (store_bars records (sr_bars x))"
    using assms(2) unfolding reconcile_revision_def Let_def gone_def by (auto split: if_splits)
  have kept: "set (dict_keys (filter (\<lambda>(d, _). \<not> gone d) xs)) = {d \<in> set (dict_keys xs). \<not> gone d}" for xs :: "(int, 'a) dict"
    by force
  show ?thesis unfolding bars kept store_bars_days(1) [OF assms(1)] unfolding gone_def by blast
qed

interpretation kept: bar_contract "hub_ports source now" "serieswise (days_kept (so_authoritative source))" stored_days
proof (rule hub_contract)
  show "days_kept (so_authoritative source) x x" for x :: "(daily_bar, 'r, 'q) price_series" by (simp add: days_kept_def)
  show "days_kept (so_authoritative source) x y \<Longrightarrow> days_kept (so_authoritative source) y z \<Longrightarrow> days_kept (so_authoritative source) x z"
    for x y z :: "(daily_bar, 'r, 'q) price_series" by (auto simp: days_kept_def simp del: set_map)
  show "days_kept (so_authoritative source) x y" if "distinct (dict_keys records)" "upsert_fenced q g v records x = Ok y"
    for x y :: "(daily_bar, 'r, 'q) price_series" and q g v records
    using that(2,1) by (cases rule: upsert_fenced_cases) (simp_all add: days_kept_def store_bars_days(1) [OF that(1)] del: set_map)
  show "days_kept (so_authoritative source) x (snd (reserve_sync x))" for x :: "(daily_bar, 'r, 'q) price_series"
    by (simp add: days_kept_def reserve_sync_def Let_def)
  show "days_kept (so_authoritative source) x y" if "complete_sync g depth now x = Ok y" for x y :: "(daily_bar, 'r, 'q) price_series" and g depth
    using that by (auto simp: days_kept_def complete_sync_def)
  show "days_kept (so_authoritative source) x y"
    if "distinct (dict_keys records)" "reconcile_revision g v first final records x = Ok y"
      "so_authoritative source \<or> set (dict_keys (sr_bars x)) \<subseteq> set (dict_keys records)"
    for x y :: "(daily_bar, 'r, 'q) price_series" and g v first final records
    using that(3) reconcile_days [OF that(1,2)] by (auto simp: days_kept_def simp del: set_map)
qed

interpretation reached: bar_contract "hub_ports source now" "serieswise (stays_reachable analyse key_of)" stored_days
proof (rule hub_contract)
  fix x y z
  show "stays_reachable analyse key_of x x" by (simp add: stays_reachable_def)
  show "stays_reachable analyse key_of x y \<Longrightarrow> stays_reachable analyse key_of y z \<Longrightarrow> stays_reachable analyse key_of x z"
    by (simp add: stays_reachable_def)
  show "distinct (dict_keys records) \<Longrightarrow> upsert_fenced q g v records x = Ok y \<Longrightarrow> stays_reachable analyse key_of x y" for q g v records
    unfolding stays_reachable_def by (blast intro: series_reachable.continue series_step.upsert)
  show "stays_reachable analyse key_of x (snd (reserve_sync x))"
    unfolding stays_reachable_def by (metis series_reachable.continue series_step.reserve prod.collapse)
  show "complete_sync g depth now x = Ok y \<Longrightarrow> stays_reachable analyse key_of x y" for g depth
    unfolding stays_reachable_def by (blast intro: series_reachable.continue series_step.complete)
  show "distinct (dict_keys records) \<Longrightarrow> reconcile_revision g v first final records x = Ok y \<Longrightarrow>
      so_authoritative source \<or> set (dict_keys (sr_bars x)) \<subseteq> set (dict_keys records) \<Longrightarrow> stays_reachable analyse key_of x y"
    for g v first final records
    unfolding stays_reachable_def by (blast intro: series_reachable.continue series_step.reconcile)
qed

section \<open>What a synchronization does to the hub\<close>

text \<open>
  A synchronization of daily bars never loses stored history: unless the provider claims an authoritative history,
  every day stored for a symbol before is stored after, whatever the provider answers, whatever fails, and whether or not
  the synchronization returns a report.
\<close>

theorem history_kept:
  assumes "daily_sync (hub_ports source now) n symbols start end_day adjustment lookback hub = (r, hub')"
    and "\<not> so_authoritative source"
  shows "stored_days hub s a \<subseteq> stored_days hub' s a"
  using kept.sync_keeps [OF assms(1)] assms(2)
  by (auto simp: serieswise_def days_kept_def stored_days_def simp del: set_map split: sum.splits)

text \<open>
  A synchronization of daily bars drives every series only through the transactions the analysis of the series accounts
  for: a series in a reachable state is in a reachable state afterwards, however the synchronization ends.
\<close>

theorem sync_reachable:
  assumes "daily_sync (hub_ports source now) n symbols start end_day adjustment lookback hub = (r, hub')"
    and "series_reachable analyse key_of (bh_series hub s a)"
  shows "series_reachable analyse key_of (bh_series hub' s a)"
proof -
  have "serieswise (stays_reachable analyse key_of) hub hub'" by (rule reached.sync_keeps [OF assms(1)])
  then show ?thesis using assms(2) by (simp add: serieswise_def stays_reachable_def)
qed

section \<open>A concrete synchronization\<close>

text \<open>One stored day and a provider that answers with another day under another revision.\<close>

definition sample_bar :: "int \<Rightarrow> daily_bar" where
  "sample_bar d = \<lparr>db_symbol = ''600519'', db_trade_date = d, db_open = 1, db_high = 1, db_low = 1, db_close = 1, db_volume = 1,
     db_amount = None, db_adjustment = QFQ\<rparr>"

definition sample_source :: "unit bar_source" where
  "sample_source = \<lparr>so_batch = Some (\<lambda>p symbols a n. (Inr [(''600519'', [Some (sample_bar 9)])], p)), so_window = None,
     so_between = (\<lambda>p symbol s e a. (Inr [Some (sample_bar 9)], p)), so_revision = Some (\<lambda>p symbol. (Inr ''v2'', p)),
     so_authoritative = False, so_name = ''sample''\<rparr>"

definition sample_hub :: "(unit, int, unit) bar_hub" where
  "sample_hub = \<lparr>bh_source = (), bh_symbols = [''600519''], bh_series = (\<lambda>s a.
     \<lparr>sr_stream = invalidate_changed 5 5 new_stream, sr_bars = [(5, sample_bar 5)], sr_revision = Some ''v1'',
      sr_rows = (\<lambda>_. None), sr_demand = ()\<rparr>)\<rparr>"

theorem history_kept_witness:
  "5 \<in> stored_days (snd (daily_sync (hub_ports sample_source 0) 1 [VStr ''600519''] None None (VStr ''qfq'') (Some 3) sample_hub))
     ''600519'' QFQ"
proof -
  have n: "normalize_symbol (VStr ''600519'') = Ok ''600519''" by code_simp
  have "5 \<in> stored_days sample_hub ''600519'' QFQ" by (simp add: stored_days_def n sample_hub_def)
  moreover have "\<not> so_authoritative sample_source" by (simp add: sample_source_def)
  ultimately show ?thesis using history_kept [OF prod.collapse [symmetric]] by blast
qed

end
