(* ===== verification/Spec2Isabelle.thy ===== *)
theory Spec2Isabelle
  imports Indicator_Registry Requests State_Engine Alerts Notification_Recovery Trading_Calendar Task_Lock Market_Data Analysis_Stream Security_Master Authentication State_Events Alert_Runs Watch_Runs Analysis_Demand Dividend_Yield Watch_Views Bar_Repository
begin

text \<open>
  \<^bold>\<open>Apanel\<close> watches Chinese securities: a market data hub downloads daily bars, a backend computes
  technical indicators from them, recognizes states such as crossings, evaluates alert rules on the
  results and notifies users. This development models the parts of the two Python services that carry
  that logic and proves what makes them correct. Paths below are relative to \<open>src/backend/app\<close> unless
  they start with \<open>hub:\<close>, which stands for \<open>src/market-data-hub/app\<close>.

  \<^bold>\<open>Flow.\<close> The hub fetches records from a provider (\<open>Market_Sync\<close>, \<open>Daily_Sync\<close>), validates them (\<open>Market_Data\<close>),
  reconciles the list of securities (\<open>Security_Master\<close>), writes facts under a fence and marks what they
  invalidate (\<open>Bar_Repository\<close>); the backend republishes the analysis of the series (\<open>Analysis_Stream\<close>) with the indicator registry (\<open>Indicator_Registry\<close> over the five indicators)
  for the requests that its users demand (\<open>Parameters\<close>, \<open>Canonical\<close>, \<open>Requests\<close>, \<open>Analysis_Demand\<close>),
  evaluates states (\<open>State_Definitions\<close>, \<open>State_Registry\<close>, \<open>State_Engine\<close>), keeps their changes
  (\<open>State_Events\<close>), evaluates alert rules (\<open>Alerts\<close>, \<open>Alert_Service\<close>, \<open>Alert_Runs\<close>), and delivers
  notifications through an outbox (\<open>Notification_Message\<close>, \<open>Notifications\<close>, \<open>Notification_Recovery\<close>). Users
  sign in (\<open>Authentication\<close>) and arrange securities and columns in watch tables (\<open>Watch_Tables\<close>,
  \<open>Watch_Runs\<close>, \<open>Column_Contract\<close>), which show prices, yields, indicators and states (\<open>Dividend_Yield\<close>,
  \<open>Watch_Views\<close>). Jobs run on confirmed trading days (\<open>Trading_Calendar\<close>) and exclude each other by a
  Redis lease (\<open>Task_Lock\<close>).

  \<^bold>\<open>Foundations.\<close> \<open>Prelude\<close> has the exceptions and the error monad, text functions, dictionaries with
  Python's insertion order and the dynamically typed values \<open>pyval\<close>; \<open>Python_Values\<close> their equality and
  truth; \<open>Binary64\<close> rounding to double precision. Floating-point code is written over the reals with a
  rounding function around every operation in the order of the source. The locale \<open>float_rounding\<close> states
  what the proofs use of it and is interpreted on \<open>rnd64\<close> and on exact arithmetic. The running sums of the
  moving average and of the Bollinger bands round differently from a fresh sum, so the equality of their
  series is one of exact arithmetic; every other theorem about indicators holds for every such rounding.

  \<^bold>\<open>Indicators\<close> (\<open>indicators/\<close>). \<open>Indicator_Types\<close>: validation, candles, series, results
  (\<open>validation.py\<close>, \<open>types.py\<close>, \<open>results.py\<close>). \<open>Moving_Average\<close>, \<open>Rsi\<close>, \<open>Kdj\<close>, \<open>Bollinger\<close>, \<open>Macd\<close>: the
  latest value and the one-pass series of each; the series is proved equal, entry by entry, to the latest
  value of each prefix, and values are proved bounded. \<open>Series_Contract\<close> is that contract as a locale,
  interpreted on every indicator. \<open>Registry_Contract\<close> states what the two registries promise;
  \<open>Indicator_Registry\<close> (\<open>registry.py\<close>) interprets it. \<open>Parameters\<close>, \<open>Canonical\<close>, \<open>Requests\<close>
  (\<open>parameters.py\<close>, \<open>metadata.py\<close>): canonical parameters and keys, merging of requests, history bounds and
  stored variants; canonicalization is idempotent, merging loses and invents nothing, and, below in this
  theory, the number of bars asked for suffices for every requested indicator to be calculated.

  \<^bold>\<open>States\<close> (\<open>states/\<close>). \<open>State_Types\<close>, \<open>State_Definitions\<close>, \<open>State_Registry\<close>, \<open>State_Engine\<close> follow
  \<open>types.py\<close>, \<open>definitions.py\<close>, \<open>registry.py\<close> and \<open>engine.py\<close>; the engine's remembered bits are explicit state.
  \<open>Edge_Trigger\<close> is the contract of an edge-triggered component; the engine and the alert evaluator interpret
  it: two transitions of a stream are separated by an inactive observation or a reset, unless the caller
  passes the earlier bit itself, streams do not influence each other, every transition is justified by its
  snapshots, and the default engine never raises.

  \<open>State_Events\<close> (\<open>repositories/state_event.py\<close>) stores daily observations as their changes: the compressed
  timeline answers like the daily one, a partial publication stores what a full one would (up to revision,
  numbering and the restatement mark, which tell how an event came about), and a replay keeps what was known.

  \<^bold>\<open>Alerts\<close> (\<open>alerts/\<close>). \<open>Alerts\<close> has conditions, rules, observations and the stateless evaluation; it refines
  an abstract edge detector over the sequence of the truth values of its condition, stated without the code of
  the evaluator. \<open>Alert_Service\<close>
  (\<open>services/alert_service.py\<close>, \<open>alert_replay.py\<close>, \<open>alert_observation_service.py\<close>, \<open>repositories/alert.py\<close>) has the
  stored rules with their scheduled, direct and catch-up evaluation; \<open>Alert_Runs\<close> shows over every sequence
  of transactions that queued notifications are numbered without repetition and in order, that a
  changed rule starts afresh and that stored rules can be evaluated.

  \<^bold>\<open>Watch tables\<close> (\<open>services/watch_table_service.py\<close>, \<open>repositories/watch_table.py\<close>). \<open>Watch_Tables\<close> has the
  operations, \<open>Watch_Runs\<close> their step relation with the alert service, which shares the monitor limit:
  identities, display order and the limit hold in every reachable account. The locale of
  \<open>Column_Contract\<close> carries a property of validated columns to all stored ones; it is interpreted twice, in
  \<open>Analysis_Demand\<close> (\<open>services/analysis_demand.py\<close>: the collected demand never fails and covers every column
  and rule) and in \<open>Watch_Views\<close>, the detail view, which is shown for exactly the tables without a broken
  column and looks up what the demand asks for. \<open>Dividend_Yield\<close> (\<open>services/dividend_service.py\<close>,
  \<open>repositories/security.py\<close>) has the yield and its twelve-month window; the batch agrees with the single
  calculation.

  \<^bold>\<open>Accounts\<close> (\<open>services/auth_service.py\<close>, \<open>services/installation_setup.py\<close>, \<open>core/security.py\<close>). \<open>Authentication\<close>
  has logins, rotating refresh tokens, invitations and the first installation: a replayed token revokes
  its family, a login succeeds for exactly one matching account and fails for ambiguous names in every
  database, an invitation is used once, no other token than the one in the host's file completes the setup, and an
  installation stays closed, also when its administrator is deleted.

  \<^bold>\<open>Notifications\<close> (\<open>services/notification_service.py\<close>, \<open>providers/notification/\<close>). Delivery is at
  least once: what the database does with each commit is an argument of every operation, and under any
  interleaving of dispatch, recovery and retry a delivered message is sent again only when its outcome could
  not be stored, once when commits succeed. Automatic attempts end, recovery waits for the window, an
  ambiguous commit neither loses its outcome silently nor overwrites that of another worker, and a sweep
  leaves no selected row pending unless it ends with the persistence error.

  \<^bold>\<open>Calendar\<close> (\<open>services/trading_calendar_import.py\<close>, \<open>trading_calendar_service.py\<close>, the seed of the first
  migration, the calendar repository of the hub). A step relation over the shared table: the stored status
  is always the verdict of announcement and observation.

  \<^bold>\<open>Lease\<close> (\<open>tasks/locks.py\<close>). A transition system of workers, a server with expiring keys and lost replies;
  mutual exclusion, ownership of releases, detection of loss with the end of the heartbeat, and the failure of
  clients without EVAL that goes undetected.

  \<^bold>\<open>Analysis streams\<close> (\<open>hub:repositories/analysis_stream.py\<close>, \<open>hub:repositories/market_data.py\<close>,
  \<open>services/analysis_service.py\<close>, \<open>analysis_control.py\<close>, \<open>analysis_recovery.py\<close>). One series as the two services
  share it: what is reported current was computed from the bars stored now, publication catches up unless a
  calculation raises, which changes nothing, and superseded synchronizations cannot write. \<open>Security_Master\<close> (\<open>hub:domain/deduplication.py\<close>,
  \<open>hub:repositories/market_data.py\<close>) refuses truncated snapshots of the universe and reconciles the others
  with the table, within the driver's limit on the arguments of one statement, which an authoritative snapshot
  can exceed.

  \<^bold>\<open>Synchronization\<close> (\<open>hub:services/sync.py\<close>, \<open>hub:repositories/market_data.py\<close>). \<open>Market_Sync\<close> has the services for
  securities, quotes and dividends, with malformed records isolated on the way in and refused ones on the
  way to the database; \<open>Daily_Sync\<close> the one for daily bars: revisions, windows, storage and completion of a
  fenced run. Providers and repositories are records of functions over an arbitrary state. Every requested
  symbol is reported once and a success stands for as many stored bars as were fetched. The locale
  \<open>bar_contract\<close> says what a relation of repository states must satisfy to be kept by a whole run;
  \<open>Bar_Repository\<close> builds the repository of all securities from the transactions of \<open>Analysis_Stream\<close> and
  interprets the contract twice: a synchronization removes stored days only for a provider with authoritative
  history, and it stays within the reachable series, so that the theorems on streams hold of every synchronized one.

  \<^bold>\<open>Parameters of the model.\<close> Code outside the repository is passed in: the digests of parameters and of
  tokens, password hashing, the JWT encoder and random tokens, canonical JSON text, number formats, ISO date
  reading and printing, URL splitting, \<open>Decimal(str(v))\<close>, the rounding of \<open>Decimal\<close>, the outcome of a
  webhook call, Redis (with \<open>redis_laws\<close> as its documented behaviour, shown satisfiable by \<open>dict_redis\<close>).
  Time and the database enter as arguments: clocks, stored rows, what a commit did, and which calculations of
  a materialization raise; market data providers are functions over a state of their own. No definition
  needs fuel; every loop is a terminating function.

  \<^bold>\<open>Not modelled.\<close> Text beyond ASCII; the HTTP layer and its schemas; SQL execution (a query is the filter and
  order it denotes, a transaction is atomic, and the locks it takes make it so); the sessions and queries
  around the engine in \<open>services/state_service.py\<close> and the settings service; Celery jobs and pipelines
  (\<open>tasks/\<close>), which sequence the modelled services; the provider clients of the hub;
  rendering of rows for clients; the front end, which is TypeScript. In \<open>Analysis_Stream\<close> the rows of one
  day are a function of the bars up to it; that the indicators have this form is what the series theorems
  show. \<open>Alert_Service\<close> takes the result of the yield calculation as an argument, which \<open>Dividend_Yield\<close> models.
\<close>

section \<open>History needed by requests\<close>

text \<open>The built-in instance that serves an indicator type, by the names of the default registry.\<close>

definition default_object :: "string \<Rightarrow> indicator_object option" where
  "default_object t = map_of
     [(''MA'', SMAIndicator 5), (''PROJECTED_MA'', ProjectedMAIndicator 5), (''RSI'', RSIIndicator 14),
      (''KDJ'', KDJIndicator 9 3 3), (''BOLL'', BollingerIndicator 20 2), (''MACD'', MACDIndicator 12 26 9)] t"

text \<open>The calculations a merged request stands for: MA calculates every period on its own.\<close>

definition request_calls ::
  "(real \<Rightarrow> real) \<Rightarrow> indicator_request \<Rightarrow> candle list \<Rightarrow> returned result list"
where
  "request_calls rnd r cs = (case default_object (ir_type r) of
      None \<Rightarrow> []
    | Some obj \<Rightarrow>
        if ir_type r = ''MA''
        then map (\<lambda>p. object_calculate rnd obj [(''period'', VInt p)] (candles cs)) (ma_periods (ir_parameters r))
        else [object_calculate rnd obj (ir_parameters r) (candles cs)])"

definition insufficient :: "'a result \<Rightarrow> bool" where
  "insufficient res \<longleftrightarrow> (\<exists>required available name. res = Raise (InsufficientDataError required available name))"

lemma insufficient_emap [simp]: "insufficient (emap f m) = insufficient m"
  by (auto simp: insufficient_def)

lemma insufficient_keywords: "insufficient (keywords_in ks kw f x) \<Longrightarrow> insufficient (f x)"
  by (auto simp: keywords_in_def insufficient_def split: if_splits)

lemma positive_int_sufficient [simp]: "positive_int n v \<noteq> Raise (InsufficientDataError a b c)"
  by (auto simp: positive_int_def split: pyval.splits)

lemma positive_number_sufficient [simp]: "positive_number rnd n v \<noteq> Raise (InsufficientDataError a b c)"
proof -
  have "to_float rnd v \<noteq> Raise (InsufficientDataError a b c)"
    by (cases "(rnd, v)" rule: to_float.cases) (auto simp: Let_def)
  then show ?thesis
    by (auto simp: positive_number_def ebind_eq_Inl_iff Let_def dest: finite_or_raise split: if_splits)
qed

lemma require_ohlc_sufficient [simp]: "require_ohlc cs \<noteq> Raise (InsufficientDataError a b c)"
proof -
  have "traverse (\<lambda>(index, c). if c_high c = None \<or> c_low c = None
     then Raise (InvalidInputError (''candle at index '' @ nat_str index @ '' requires high and low for KDJ''))
     else Ok ()) xs \<noteq> Raise (InsufficientDataError a b c)" for xs
    by (induction xs) (auto simp: ebind_eq_Inl_iff split: if_splits)
  then show ?thesis by (simp add: require_ohlc_def)
qed

text \<open>When the latest-value routines report insufficient data.\<close>

lemma sma_insufficient:
  "insufficient (calculate_sma rnd (candles cs) v) \<Longrightarrow> int (length cs) < period_of v"
  by (cases v) (auto simp: insufficient_def calculate_sma_def ebind_eq_Inl_iff positive_int_ok Let_def
      make_result_sufficient require_length_def period_of_def positive_int_def split: if_splits)

lemma projected_ma_insufficient:
  "insufficient (calculate_projected_ma rnd (candles cs) v) \<Longrightarrow> int (length cs) < period_of v"
  by (cases v) (auto simp: insufficient_def calculate_projected_ma_def ebind_eq_Inl_iff positive_int_ok Let_def
      make_result_sufficient require_length_def period_of_def positive_int_def split: if_splits)

lemma rsi_insufficient:
  "insufficient (calculate_rsi rnd (candles cs) v) \<Longrightarrow> int (length cs) < period_of v + 1"
  by (cases v) (auto simp: insufficient_def calculate_rsi_def rsi_result_def split_beta ebind_eq_Inl_iff
      positive_int_ok Let_def make_result_sufficient require_length_def period_of_def positive_int_def split: if_splits)

lemma kdj_insufficient:
  "insufficient (calculate_kdj rnd (candles cs) v kv dv) \<Longrightarrow> int (length cs) < period_of v"
  by (cases v) (auto simp: insufficient_def calculate_kdj_def kdj_result_def split_beta ebind_eq_Inl_iff
      positive_int_ok Let_def make_result_sufficient require_length_def period_of_def split: if_splits)

lemma boll_insufficient:
  "insufficient (calculate_bollinger rnd (candles cs) v m) \<Longrightarrow> int (length cs) < period_of v"
  by (cases v) (auto simp: insufficient_def calculate_bollinger_def boll_latest_def boll_result_sufficient
      ebind_eq_Inl_iff positive_int_ok Let_def require_length_def period_of_def split: if_splits)

lemma macd_insufficient:
  "insufficient (calculate_macd rnd (candles cs) f s g) \<Longrightarrow> int (length cs) < period_of s + period_of g - 1"
  by (auto simp: insufficient_def calculate_macd_def macd_periods_def macd_result_def split_beta ebind_eq_Inl_iff
      positive_int_ok Let_def make_result_sufficient require_length_def period_of_def split: if_splits)

lemma request_history_named:
  "request_history ''PROJECTED_MA'' ps 1 \<ge> int_parameter ps ''period'' 5"
  "request_history ''RSI'' ps 1 \<ge> int_parameter ps ''period'' 14 + 1"
  "request_history ''KDJ'' ps 1 \<ge> int_parameter ps ''period'' 9"
  "request_history ''BOLL'' ps 1 \<ge> int_parameter ps ''period'' 20"
  "request_history ''MACD'' ps 1 \<ge> int_parameter ps ''slow_period'' 26 + int_parameter ps ''signal_period'' 9 - 1"
  by (simp_all add: request_history_def)

lemma request_history_ma:
  "request_history ''MA'' [(''periods'', VList (map VInt ns))] 1 \<ge> n" if "n \<in> set ns"
  using that foldl_max_ge [of 1 ns]
  by (auto simp: request_history_def sequence_items_def comp_def period_of_def Let_def)

lemma given_parameter:
  "dict_get ps name \<noteq> Some VNone \<Longrightarrow>
     period_of (or_default (VInt d) (kw_arg ps name)) = int_parameter ps name d"
  by (auto simp: kw_arg_def dict_get_or_def or_default_def int_parameter_def period_of_def split: option.splits)

lemma object_insufficient:
  assumes "insufficient (object_calculate rnd obj ps (candles cs))" "\<And>k. dict_get ps k \<noteq> Some VNone"
    and "default_object t = Some obj" "t \<noteq> ''MA''"
  shows "int (length cs) < request_history t ps 1"
proof -
  from assms(3,4) consider "t = ''PROJECTED_MA''" "obj = ProjectedMAIndicator 5"
    | "t = ''RSI''" "obj = RSIIndicator 14" | "t = ''KDJ''" "obj = KDJIndicator 9 3 3"
    | "t = ''BOLL''" "obj = BollingerIndicator 20 2" | "t = ''MACD''" "obj = MACDIndicator 12 26 9"
    unfolding default_object_def by (simp split: if_splits)
  then show ?thesis
  proof cases
    case 1
    with assms(1) have "insufficient (projected_ma_calculate rnd 5 (candles cs) (kw_arg ps ''period''))"
      by (auto dest!: insufficient_keywords)
    from projected_ma_insufficient [OF this [unfolded projected_ma_calculate_def]]
    show ?thesis using 1 request_history_named(1) [of ps] given_parameter [OF assms(2)] by simp
  next
    case 2
    with assms(1) have "insufficient (rsi_calculate rnd 14 (candles cs) (kw_arg ps ''period''))"
      by (auto dest!: insufficient_keywords)
    from rsi_insufficient [OF this [unfolded rsi_calculate_def]]
    show ?thesis using 2 request_history_named(2) [of ps] given_parameter [OF assms(2)] by simp
  next
    case 3
    with assms(1) have "insufficient (kdj_calculate rnd (9, 3, 3) (candles cs) (kw_arg ps ''period'')
        (kw_arg ps ''k_period'') (kw_arg ps ''d_period''))"
      by (auto dest!: insufficient_keywords)
    from kdj_insufficient [OF this [unfolded kdj_calculate_def prod.case]]
    show ?thesis using 3 request_history_named(3) [of ps] given_parameter [OF assms(2)] by simp
  next
    case 4
    with assms(1) have "insufficient (bollinger_calculate rnd (20, 2) (candles cs) (kw_arg ps ''period'')
        (kw_arg ps ''multiplier''))"
      by (auto dest!: insufficient_keywords)
    from boll_insufficient [OF this [unfolded bollinger_calculate_def fst_conv]]
    show ?thesis using 4 request_history_named(4) [of ps] given_parameter [OF assms(2)] by simp
  next
    case 5
    with assms(1) have "insufficient (macd_calculate rnd (12, 26, 9) (candles cs) (kw_arg ps ''fast_period'')
        (kw_arg ps ''slow_period'') (kw_arg ps ''signal_period''))"
      by (auto dest!: insufficient_keywords)
    from macd_insufficient [OF this [unfolded macd_calculate_def prod.case]]
    show ?thesis using 5 request_history_named(5) [of ps] given_parameter [OF assms(2)] by simp
  qed
qed

text \<open>
  C11: The history bound is sufficient: with at least \<open>required_history_bars\<close> completed days, no
  calculation of any merged request, for any period of a moving-average bundle, fails for lack
  of data.
\<close>

theorem required_history_sufficient:
  assumes "required_history_bars rnd digest requests = Ok bars"
    and "merge_indicator_requests rnd digest requests = Ok merged" "r \<in> set merged"
    and "bars \<le> int (length cs)" "call \<in> set (request_calls rnd r cs)"
  shows "call \<noteq> Raise (InsufficientDataError required available name)"
proof
  assume "call = Raise (InsufficientDataError required available name)"
  then have ins: "insufficient call" by (auto simp: insufficient_def)
  from assms(1,2) have hist: "history_loop rnd merged 1 = Ok bars" by (simp add: required_history_bars_def)
  have can: "normalize_indicator_type (ir_type r) = Ok (ir_type r)"
    "canonicalize_parameters rnd (ir_type r) (as_object (ir_parameters r)) True = Ok (ir_parameters r)"
    "ir_type r = ''MA'' \<longrightarrow> (\<exists>ns. ir_parameters r = [(''periods'', VList (map VInt ns))] \<and> periods_ok ns)"
    using merge_members [OF assms(2,3)] by blast+
  then have "request_ok rnd r" by (simp add: request_ok_def)
  with history_loop_bound [OF hist] assms(3,4)
  have le: "request_history (ir_type r) (ir_parameters r) 1 \<le> int (length cs)" by force
  from assms(5) obtain obj where obj: "default_object (ir_type r) = Some obj"
    by (cases "default_object (ir_type r)") (simp_all add: request_calls_def)
  show False
  proof (cases "ir_type r = ''MA''")
    case True
    with can(3) obtain ns where ns: "ir_parameters r = [(''periods'', VList (map VInt ns))]" by blast
    from True obj have "obj = SMAIndicator 5" by (simp add: default_object_def)
    with True ns obj assms(5) obtain p where p: "p \<in> set ns"
      "call = object_calculate rnd (SMAIndicator 5) [(''period'', VInt p)] (candles cs)"
      by (auto simp: request_calls_def)
    from ins p(2) have "insufficient (sma_calculate rnd 5 (candles cs) (VInt p))"
      by (auto simp: kw_arg_def dict_get_or_def dest!: insufficient_keywords)
    then have "int (length cs) < p" using sma_insufficient by (fastforce simp: sma_calculate_def period_of_def)
    with request_history_ma [OF p(1)] le ns True show False by simp
  next
    case False
    with obj assms(5) have "call = object_calculate rnd obj (ir_parameters r) (candles cs)"
      by (simp add: request_calls_def)
    moreover have "known_type (ir_type r)"
      using obj by (auto simp: default_object_def INDICATOR_PARAMETER_KEYS_def split: if_splits)
    ultimately show False
      using object_insufficient [OF _ _ obj False] ins le canonical_not_none [OF can(2,1) False] by fastforce
  qed
qed

theorem required_history_sufficient_witness:
  "\<forall>a b c. calculate_rsi rnd64 (candles (replicate 34 (day 10 10 10))) (VInt 14) \<noteq>
     Raise (InsufficientDataError a b c)"
proof (intro allI)
  fix a b c
  let ?rsi = "\<lparr>ir_type = ''RSI'', ir_parameters = [(''period'', VInt 14)]\<rparr>"
  let ?cs = "replicate 34 (day 10 10 10)"
  have "foldl (\<lambda>k r. request_history (ir_type r) (ir_parameters r) k) 1 merged_defaults = 34"
    by (simp add: merged_defaults_def default_list_def request_history_def int_parameter_def
        sequence_items_def period_of_def Let_def)
  moreover have "\<forall>r \<in> set merged_defaults. request_ok rnd64 r" using merged_defaults_ok by blast
  ultimately have "required_history_bars rnd64 (\<lambda>t c. t) None = Ok 34"
    by (simp only: required_history_bars_def merge_defaults ebind_simps history_loop_ok)
  moreover have "?rsi \<in> set merged_defaults" by (simp add: merged_defaults_def default_list_def)
  moreover have "emap Returned (calculate_rsi rnd64 (candles ?cs) (VInt 14)) \<in> set (request_calls rnd64 ?rsi ?cs)"
    by (simp add: request_calls_def default_object_def keywords_in_def rsi_calculate_def kw_arg_def dict_get_or_def)
  ultimately have "emap Returned (calculate_rsi rnd64 (candles ?cs) (VInt 14)) \<noteq>
      (Raise (InsufficientDataError a b c) :: returned result)"
    by (intro required_history_sufficient [where cs = "?cs" and r = "?rsi", OF _ merge_defaults]) auto
  then show "calculate_rsi rnd64 (candles ?cs) (VInt 14) \<noteq> Raise (InsufficientDataError a b c)" by auto
qed

end
